(* ===== verification/Prelude.thy ===== *)
theory Prelude
  imports Complex_Main "HOL-Library.Word" "HOL-Library.AList"
begin

text \<open>
  Shared vocabulary of the development: the machine integers and opaque values of the Rust
  sources, the standard library's \<open>HashMap\<close>, fallible operations on a shared state
  (\<open>Result\<close>-returning methods with interior mutability), and invariants of step systems.
  Nothing here models a line of the repository; the component theories build on it.
\<close>

section \<open>Machine values\<close>

text \<open>
  \<open>u32\<close> counters keep their width. \<open>i32\<close> values are integers in the signed range, every
  conversion into them written with \<open>wrap_i32\<close>, which is Rust's \<open>as i32\<close>. \<open>usize\<close> and
  \<open>u64\<close> values that count elements of a collection in memory are natural numbers. A
  \<open>Uuid\<close> is an opaque number; a \<open>DateTime<Utc>\<close> is an instant in nanoseconds, a
  \<open>Duration\<close> a number of nanoseconds. \<open>f64\<close> values are exact rationals: rounding,
  infinities and NaN are outside the model.
\<close>

type_synonym u32 = "32 word"
type_synonym uuid = nat
type_synonym timestamp = int
type_synonym duration = nat
type_synonym f64 = rat
type_synonym bytes = "8 word list"

definition wrap_i32 :: "int \<Rightarrow> int" where
  "wrap_i32 x = (x + 2 ^ 31) mod 2 ^ 32 - 2 ^ 31"

definition as_i32 :: "nat \<Rightarrow> int" where
  "as_i32 n = wrap_i32 (int n)"

definition as_u32 :: "nat \<Rightarrow> u32" where
  "as_u32 n = word_of_nat n"

text \<open>\<open>saturating_sub\<close> on \<open>u32\<close>.\<close>

definition saturating_sub_u32 :: "u32 \<Rightarrow> u32 \<Rightarrow> u32" where
  "saturating_sub_u32 a b = (if a < b then 0 else a - b)"

text \<open>
  \<open>DateTime::signed_duration_since(..).to_std().unwrap_or(d)\<close>: a negative difference has
  no \<open>std\<close> duration and gives the fallback.
\<close>

definition elapsed_or :: "duration \<Rightarrow> timestamp \<Rightarrow> timestamp \<Rightarrow> duration" where
  "elapsed_or d now since = (if now < since then d else nat (now - since))"

definition from_secs :: "nat \<Rightarrow> duration" where
  "from_secs n = n * 10 ^ 9"

definition from_millis :: "nat \<Rightarrow> duration" where
  "from_millis n = n * 10 ^ 6"

definition as_millis :: "duration \<Rightarrow> nat" where
  "as_millis d = d div 10 ^ 6"

definition as_secs_f64 :: "duration \<Rightarrow> f64" where
  "as_secs_f64 d = of_nat d / 10 ^ 9"

text \<open>\<open>f64::powi\<close>.\<close>

definition f64_powi :: "f64 \<Rightarrow> int \<Rightarrow> f64" where
  "f64_powi x e = (if 0 \<le> e then x ^ nat e else inverse x ^ nat (- e))"

text \<open>
  \<open>Duration::from_secs_f64\<close> rounds to the nearest nanosecond, ties to even, and panics
  (\<open>None\<close>) on a negative value or one that does not fit.
\<close>

definition round_half_even :: "f64 \<Rightarrow> int" where
  "round_half_even x =
     (let n = \<lfloor>x\<rfloor>; r = x - of_int n
      in if r < 1 / 2 then n else if 1 / 2 < r then n + 1 else if even n then n else n + 1)"

definition from_secs_f64 :: "f64 \<Rightarrow> duration option" where
  "from_secs_f64 x =
     (if x < 0 \<or> 2 ^ 64 \<le> x then None else Some (nat (round_half_even (x * 10 ^ 9))))"

text \<open>\<open>f64::clamp\<close>.\<close>

definition clamp_f64 :: "f64 \<Rightarrow> f64 \<Rightarrow> f64 \<Rightarrow> f64" where
  "clamp_f64 lo hi x = (if x < lo then lo else if hi < x then hi else x)"

text \<open>Decimal formatting of an unsigned integer.\<close>

fun show_nat :: "nat \<Rightarrow> string" where
  "show_nat n =
     (if n < 10 then [char_of (48 + n)] else show_nat (n div 10) @ [char_of (48 + n mod 10)])"

declare show_nat.simps [simp del]

lemma wrap_i32_id [simp]: "- (2 ^ 31) \<le> x \<Longrightarrow> x < 2 ^ 31 \<Longrightarrow> wrap_i32 x = x"
  by (simp add: wrap_i32_def)

lemma as_i32_id [simp]: "n < 2 ^ 31 \<Longrightarrow> as_i32 n = int n"
  by (simp add: as_i32_def)

lemma unat_as_u32 [simp]: "n < 2 ^ 32 \<Longrightarrow> unat (as_u32 n) = n"
  by (simp add: as_u32_def unat_of_nat)

text \<open>A counter below a bound of its own width can be incremented without wrap-around.\<close>

lemma unat_succ_below: "a < b \<Longrightarrow> unat (a + 1 :: u32) = Suc (unat a)"
proof -
  assume "a < b"
  moreover have "unat b < 2 ^ LENGTH(32)" by (rule unsigned_less)
  ultimately show ?thesis by (simp add: word_less_nat_alt unat_word_ariths)
qed

lemma succ_below_le: "(a :: u32) < b \<Longrightarrow> a + 1 \<le> b"
  by (simp add: word_less_nat_alt word_le_nat_alt unat_succ_below)

lemma less_succ_below: "(a :: u32) < b \<Longrightarrow> a < a + 1"
  by (simp add: word_less_nat_alt unat_succ_below)

lemma round_half_even_le: "of_int (round_half_even x) \<le> x + 1 / 2"
  by (simp add: round_half_even_def Let_def) linarith

lemma round_half_even_nonneg: "0 \<le> x \<Longrightarrow> 0 \<le> round_half_even x"
  by (simp add: round_half_even_def Let_def)

section \<open>Rust's HashMap\<close>

text \<open>
  A \<open>HashMap\<close> is an association list with distinct keys (\<open>hm_wf\<close>). Its order stands
  for the unspecified iteration order: every theorem about an operation that iterates holds
  for an arbitrary order of the table.
\<close>

type_synonym ('k, 'v) hmap = "('k \<times> 'v) list"

definition hm_wf :: "('k, 'v) hmap \<Rightarrow> bool" where
  "hm_wf m \<longleftrightarrow> distinct (map fst m)"

definition hm_get :: "('k, 'v) hmap \<Rightarrow> 'k \<Rightarrow> 'v option" where
  "hm_get m k = map_of m k"

definition hm_insert :: "'k \<Rightarrow> 'v \<Rightarrow> ('k, 'v) hmap \<Rightarrow> ('k, 'v) hmap" where
  "hm_insert k v m = AList.update k v m"

definition hm_remove :: "'k \<Rightarrow> ('k, 'v) hmap \<Rightarrow> ('k, 'v) hmap" where
  "hm_remove k m = filter (\<lambda>e. fst e \<noteq> k) m"

text \<open>\<open>get_mut\<close> followed by a mutation of the entry, when there is one.\<close>

definition hm_adjust :: "'k \<Rightarrow> ('v \<Rightarrow> 'v) \<Rightarrow> ('k, 'v) hmap \<Rightarrow> ('k, 'v) hmap" where
  "hm_adjust k f m = map (\<lambda>(k', v). (k', if k' = k then f v else v)) m"

text \<open>\<open>values_mut\<close> with a mutation of every entry.\<close>

definition hm_map :: "('v \<Rightarrow> 'v) \<Rightarrow> ('k, 'v) hmap \<Rightarrow> ('k, 'v) hmap" where
  "hm_map f m = map (\<lambda>(k, v). (k, f v)) m"

definition hm_values :: "('k, 'v) hmap \<Rightarrow> 'v list" where
  "hm_values m = map snd m"

definition hm_all :: "('v \<Rightarrow> bool) \<Rightarrow> ('k, 'v) hmap \<Rightarrow> bool" where
  "hm_all P m \<longleftrightarrow> list_all P (hm_values m)"

lemma hm_wf_Nil [simp]: "hm_wf []"
  by (simp add: hm_wf_def)

lemma hm_get_Nil [simp]: "hm_get [] k = None"
  by (simp add: hm_get_def)

lemma hm_wf_insert [simp]: "hm_wf m \<Longrightarrow> hm_wf (hm_insert k v m)"
  by (simp add: hm_wf_def hm_insert_def distinct_update)

lemma hm_wf_remove [simp]: "hm_wf m \<Longrightarrow> hm_wf (hm_remove k m)"
  by (simp add: hm_wf_def hm_remove_def distinct_map_filter)

lemma fst_hm_adjust [simp]: "map fst (hm_adjust k f m) = map fst m"
  by (simp add: hm_adjust_def comp_def case_prod_beta)

lemma fst_hm_map [simp]: "map fst (hm_map f m) = map fst m"
  by (simp add: hm_map_def comp_def case_prod_beta)

lemma hm_wf_adjust [simp]: "hm_wf (hm_adjust k f m) = hm_wf m"
  by (simp add: hm_wf_def)

lemma hm_wf_map [simp]: "hm_wf (hm_map f m) = hm_wf m"
  by (simp add: hm_wf_def)

lemma hm_get_insert [simp]: "hm_get (hm_insert k v m) k' = (if k' = k then Some v else hm_get m k')"
  by (simp add: hm_get_def hm_insert_def update_conv')

lemma hm_get_remove [simp]: "hm_get (hm_remove k m) k' = (if k' = k then None else hm_get m k')"
  by (induction m) (auto simp: hm_get_def hm_remove_def)

lemma hm_get_adjust [simp]:
  "hm_get (hm_adjust k f m) k' = (if k' = k then map_option f (hm_get m k') else hm_get m k')"
  by (induction m) (auto simp: hm_get_def hm_adjust_def)

lemma hm_get_map [simp]: "hm_get (hm_map f m) k = map_option f (hm_get m k)"
  by (induction m) (auto simp: hm_get_def hm_map_def)

lemma hm_get_Some_in: "hm_get m k = Some v \<Longrightarrow> (k, v) \<in> set m"
  by (simp add: hm_get_def map_of_SomeD)

lemma hm_get_in: "hm_wf m \<Longrightarrow> (k, v) \<in> set m \<Longrightarrow> hm_get m k = Some v"
  by (simp add: hm_get_def hm_wf_def)

lemma hm_wf_in_iff: "hm_wf m \<Longrightarrow> (k, v) \<in> set m \<longleftrightarrow> hm_get m k = Some v"
  by (auto intro: hm_get_in hm_get_Some_in)

lemma hm_all_iff: "hm_all P m \<longleftrightarrow> (\<forall>k v. (k, v) \<in> set m \<longrightarrow> P v)"
  by (auto simp: hm_all_def hm_values_def list_all_iff)

lemma hm_all_Nil [simp]: "hm_all P []"
  by (simp add: hm_all_iff)

lemma hm_allD: "hm_all P m \<Longrightarrow> hm_get m k = Some v \<Longrightarrow> P v"
  by (auto simp: hm_all_iff dest: hm_get_Some_in)

lemma hm_all_get: "hm_wf m \<Longrightarrow> hm_all P m \<longleftrightarrow> (\<forall>k v. hm_get m k = Some v \<longrightarrow> P v)"
  by (simp add: hm_all_iff hm_wf_in_iff)

lemma hm_all_insert [intro]: "hm_all P m \<Longrightarrow> P v \<Longrightarrow> hm_all P (hm_insert k v m)"
  by (induction m) (auto simp: hm_all_def hm_values_def hm_insert_def split: if_splits)

lemma hm_all_remove [intro]: "hm_all P m \<Longrightarrow> hm_all P (hm_remove k m)"
  by (auto simp: hm_all_def hm_values_def hm_remove_def list_all_iff)

lemma hm_all_adjust: "hm_all P m \<Longrightarrow> (\<And>v. P v \<Longrightarrow> P (f v)) \<Longrightarrow> hm_all P (hm_adjust k f m)"
  by (fastforce simp: hm_all_iff hm_adjust_def)

lemma hm_all_adjust_at:
  "hm_all P m \<Longrightarrow> (\<And>v. P v \<Longrightarrow> hm_get m k = Some v \<Longrightarrow> P (f v)) \<Longrightarrow> hm_wf m
    \<Longrightarrow> hm_all P (hm_adjust k f m)"
  by (fastforce simp: hm_all_iff hm_adjust_def hm_wf_in_iff)

lemma hm_all_set [intro]: "hm_all P m \<Longrightarrow> P v \<Longrightarrow> hm_all P (hm_adjust k (\<lambda>_. v) m)"
  by (rule hm_all_adjust) auto

lemma hm_all_map: "hm_all P m \<Longrightarrow> (\<And>v. P v \<Longrightarrow> P (f v)) \<Longrightarrow> hm_all P (hm_map f m)"
  by (fastforce simp: hm_all_iff hm_map_def)

section \<open>Fallible operations on a shared state\<close>

text \<open>
  A method \<open>fn f(&self, ..) -> Result<T, E>\<close> over interior-mutable state: the outcome and
  the state it leaves behind. \<open>bind_op\<close> is sequencing with the \<open>?\<close> operator: an error
  stops the sequence and keeps every effect that came before it.
\<close>

type_synonym ('s, 'e, 'a) op = "'s \<Rightarrow> ('e + 'a) \<times> 's"

definition ret_op :: "'a \<Rightarrow> ('s, 'e, 'a) op" where
  "ret_op x s = (Inr x, s)"

definition fail_op :: "'e \<Rightarrow> ('s, 'e, 'a) op" where
  "fail_op e s = (Inl e, s)"

definition bind_op :: "('s, 'e, 'a) op \<Rightarrow> ('a \<Rightarrow> ('s, 'e, 'b) op) \<Rightarrow> ('s, 'e, 'b) op" where
  "bind_op m f s = (case m s of (Inl e, s') \<Rightarrow> (Inl e, s') | (Inr x, s') \<Rightarrow> f x s')"

text \<open>\<open>map_err\<close>, and an error discarded by the caller (\<open>let _ = ..\<close>, or logged only).\<close>

definition map_err_op :: "('e \<Rightarrow> 'f) \<Rightarrow> ('s, 'e, 'a) op \<Rightarrow> ('s, 'f, 'a) op" where
  "map_err_op g m s = (case m s of (Inl e, s') \<Rightarrow> (Inl (g e), s') | (Inr x, s') \<Rightarrow> (Inr x, s'))"

definition ignore_op :: "('s, 'e, 'a) op \<Rightarrow> 's \<Rightarrow> 's" where
  "ignore_op m s = snd (m s)"

text \<open>An operation keeps a property of the state on every outcome, errors included.\<close>

definition preserves :: "('s \<Rightarrow> bool) \<Rightarrow> ('s, 'e, 'a) op \<Rightarrow> bool" where
  "preserves P m \<longleftrightarrow> (\<forall>s. P s \<longrightarrow> P (snd (m s)))"

named_theorems preserves_intros \<open>operations that keep an invariant\<close>

lemma ret_op_eq [simp]: "ret_op x s = (Inr x, s)"
  by (simp add: ret_op_def)

lemma fail_op_eq [simp]: "fail_op e s = (Inl e, s)"
  by (simp add: fail_op_def)

lemma bind_op_Inr [simp]: "m s = (Inr x, s') \<Longrightarrow> bind_op m f s = f x s'"
  by (simp add: bind_op_def)

lemma bind_op_Inl [simp]: "m s = (Inl e, s') \<Longrightarrow> bind_op m f s = (Inl e, s')"
  by (simp add: bind_op_def)

lemma bind_op_eq_Inr:
  "bind_op m f s = (Inr y, t) \<longleftrightarrow> (\<exists>x s'. m s = (Inr x, s') \<and> f x s' = (Inr y, t))"
  by (auto simp: bind_op_def split: prod.splits sum.splits)

lemma bind_op_cases:
  assumes "bind_op m f s = (r, t)"
  obtains (err) e where "m s = (Inl e, t)" "r = Inl e"
    | (ok) x s' where "m s = (Inr x, s')" "f x s' = (r, t)"
  using assms by (auto simp: bind_op_def split: prod.splits sum.splits)

lemma preservesI [intro?]: "(\<And>s. P s \<Longrightarrow> P (snd (m s))) \<Longrightarrow> preserves P m"
  by (simp add: preserves_def)

lemma preservesD: "preserves P m \<Longrightarrow> P s \<Longrightarrow> P (snd (m s))"
  by (simp add: preserves_def)

lemma preservesE: "preserves P m \<Longrightarrow> m s = (r, t) \<Longrightarrow> P s \<Longrightarrow> P t"
  by (auto dest: preservesD [of P m s])

lemma preserves_ret [preserves_intros]: "preserves P (ret_op x)"
  by (simp add: preserves_def)

lemma preserves_fail [preserves_intros]: "preserves P (fail_op e)"
  by (simp add: preserves_def)

lemma preserves_bind [preserves_intros]:
  assumes "preserves P m" and "\<And>x. preserves P (f x)"
  shows "preserves P (bind_op m f)"
proof
  fix s assume "P s"
  then show "P (snd (bind_op m f s))"
    using assms(1) preservesD [OF assms(2)]
    by (cases "m s") (auto simp: bind_op_def preserves_def split: sum.splits)
qed

lemma preserves_map_err [preserves_intros]: "preserves P m \<Longrightarrow> preserves P (map_err_op g m)"
  by (auto simp: preserves_def map_err_op_def split: prod.splits sum.splits)

lemma preserves_if [preserves_intros]:
  "(b \<Longrightarrow> preserves P m) \<Longrightarrow> (\<not> b \<Longrightarrow> preserves P n) \<Longrightarrow> preserves P (if b then m else n)"
  by simp

section \<open>Invariants of step systems\<close>

text \<open>
  The contract every state machine of the development states: a start predicate, a step
  relation and an invariant that the start satisfies and every step keeps.
\<close>

locale step_system =
  fixes start :: "'s \<Rightarrow> bool"
    and step :: "'s \<Rightarrow> 's \<Rightarrow> bool"
    and inv :: "'s \<Rightarrow> bool"
  assumes start_inv: "start s \<Longrightarrow> inv s"
    and step_inv: "step s t \<Longrightarrow> inv s \<Longrightarrow> inv t"
begin

lemma run_inv: "step\<^sup>*\<^sup>* s t \<Longrightarrow> inv s \<Longrightarrow> inv t"
  by (induction rule: rtranclp_induct) (auto intro: step_inv)

lemma reachable_inv: "start s \<Longrightarrow> step\<^sup>*\<^sup>* s t \<Longrightarrow> inv t"
  by (auto intro: run_inv start_inv)

end

end
