(* ===== verification/Workflow_Types.thy ===== *)
theory Workflow_Types
  imports Prelude
begin

text \<open>
  The data of the durable engine that workflows and activities exchange: retry policies and
  circuit-breaker configuration (\<open>reliability/retry.rs\<close>, \<open>reliability/circuit_breaker.rs\<close>),
  activity errors (\<open>activity/definition.rs\<close>), and the workflow actions, signals, events and
  errors (\<open>workflow/*.rs\<close>), with the operations the sources define on them.
\<close>

section \<open>JSON values\<close>

text \<open>
  \<open>serde_json::Value\<close>. The engine passes JSON through; numbers are carried by their text
  and never inspected.
\<close>

datatype json =
    JNull
  | JBool bool
  | JNumber string
  | JString string
  | JArray "json list"
  | JObject "(string \<times> json) list"

section \<open>Retry policies\<close>

record retry_policy =
  max_attempts :: u32
  initial_interval :: duration
  max_interval :: duration
  backoff_coefficient :: f64
  jitter :: f64
  non_retryable_errors :: "string list"

definition retry_exponential :: retry_policy where
  "retry_exponential =
     \<lparr>max_attempts = 5, initial_interval = from_secs 1, max_interval = from_secs 60,
      backoff_coefficient = 2, jitter = 1 / 10, non_retryable_errors = []\<rparr>"

definition retry_no_retry :: retry_policy where
  "retry_no_retry =
     \<lparr>max_attempts = 1, initial_interval = 0, max_interval = 0,
      backoff_coefficient = 1, jitter = 0, non_retryable_errors = []\<rparr>"

definition retry_fixed :: "duration \<Rightarrow> u32 \<Rightarrow> retry_policy" where
  "retry_fixed interval n =
     \<lparr>max_attempts = n, initial_interval = interval, max_interval = interval,
      backoff_coefficient = 1, jitter = 0, non_retryable_errors = []\<rparr>"

definition with_max_attempts :: "u32 \<Rightarrow> retry_policy \<Rightarrow> retry_policy" where
  "with_max_attempts n p = p\<lparr>max_attempts := n\<rparr>"

definition with_initial_interval :: "duration \<Rightarrow> retry_policy \<Rightarrow> retry_policy" where
  "with_initial_interval d p = p\<lparr>initial_interval := d\<rparr>"

definition with_max_interval :: "duration \<Rightarrow> retry_policy \<Rightarrow> retry_policy" where
  "with_max_interval d p = p\<lparr>max_interval := d\<rparr>"

definition with_backoff_coefficient :: "f64 \<Rightarrow> retry_policy \<Rightarrow> retry_policy" where
  "with_backoff_coefficient c p = p\<lparr>backoff_coefficient := c\<rparr>"

definition with_jitter :: "f64 \<Rightarrow> retry_policy \<Rightarrow> retry_policy" where
  "with_jitter j p = p\<lparr>jitter := clamp_f64 0 1 j\<rparr>"

definition with_non_retryable_error :: "string \<Rightarrow> retry_policy \<Rightarrow> retry_policy" where
  "with_non_retryable_error e p = p\<lparr>non_retryable_errors := non_retryable_errors p @ [e]\<rparr>"

text \<open>
  The delay before an attempt. \<open>rng lo hi\<close> is the value \<open>random_range(lo..hi)\<close> draws;
  sampling an empty range panics (\<open>None\<close>), as does a result that is no duration.
\<close>

definition delay_for_attempt :: "(f64 \<Rightarrow> f64 \<Rightarrow> f64) \<Rightarrow> retry_policy \<Rightarrow> u32 \<Rightarrow> duration option" where
  "delay_for_attempt rng p attempt =
     (if attempt \<le> 1 then Some 0
      else
        let retry_num = attempt - 1;
            base = as_secs_f64 (initial_interval p)
              * f64_powi (backoff_coefficient p) (wrap_i32 (as_i32 (unat retry_num) - 1));
            capped = min base (as_secs_f64 (max_interval p))
        in if 0 < jitter p then
             let jitter_range = capped * jitter p
             in if - jitter_range < jitter_range
                then from_secs_f64 (max (capped + rng (- jitter_range) jitter_range) 0)
                else None
           else from_secs_f64 capped)"

definition should_retry :: "retry_policy \<Rightarrow> string option \<Rightarrow> bool" where
  "should_retry p error_type =
     (case error_type of
        Some t \<Rightarrow> t \<notin> set (non_retryable_errors p)
      | None \<Rightarrow> True)"

definition has_attempts_remaining :: "retry_policy \<Rightarrow> u32 \<Rightarrow> bool" where
  "has_attempts_remaining p current_attempt \<longleftrightarrow> current_attempt < max_attempts p"

section \<open>Circuit-breaker configuration\<close>

datatype circuit_state = CClosed | COpen | CHalfOpen

record circuit_breaker_config =
  failure_threshold :: u32
  success_threshold :: u32
  reset_timeout :: duration
  window_size :: duration

definition circuit_breaker_config_default :: circuit_breaker_config where
  "circuit_breaker_config_default =
     \<lparr>failure_threshold = 5, success_threshold = 2, reset_timeout = from_secs 30,
      window_size = from_secs 60\<rparr>"

section \<open>Errors\<close>

record workflow_error =
  we_message :: string
  we_code :: "string option"
  we_retryable :: bool

definition workflow_error_new :: "string \<Rightarrow> workflow_error" where
  "workflow_error_new msg = \<lparr>we_message = msg, we_code = None, we_retryable = False\<rparr>"

definition workflow_error_retryable :: "string \<Rightarrow> workflow_error" where
  "workflow_error_retryable msg = \<lparr>we_message = msg, we_code = None, we_retryable = True\<rparr>"

definition workflow_error_with_code :: "string \<Rightarrow> workflow_error \<Rightarrow> workflow_error" where
  "workflow_error_with_code c e = e\<lparr>we_code := Some c\<rparr>"

record activity_error =
  ae_message :: string
  ae_error_type :: "string option"
  ae_retryable :: bool
  ae_details :: "json option"

definition activity_error_retryable :: "string \<Rightarrow> activity_error" where
  "activity_error_retryable msg =
     \<lparr>ae_message = msg, ae_error_type = None, ae_retryable = True, ae_details = None\<rparr>"

definition activity_error_non_retryable :: "string \<Rightarrow> activity_error" where
  "activity_error_non_retryable msg =
     \<lparr>ae_message = msg, ae_error_type = None, ae_retryable = False, ae_details = None\<rparr>"

section \<open>Actions\<close>

record activity_options =
  ao_retry_policy :: retry_policy
  schedule_to_start_timeout :: duration
  start_to_close_timeout :: duration
  heartbeat_timeout :: "duration option"
  ao_circuit_breaker :: "circuit_breaker_config option"
  ao_priority :: int

definition activity_options_default :: activity_options where
  "activity_options_default =
     \<lparr>ao_retry_policy = retry_exponential,
      schedule_to_start_timeout = from_secs 60,
      start_to_close_timeout = from_secs 300,
      heartbeat_timeout = None,
      ao_circuit_breaker = None,
      ao_priority = 0\<rparr>"

datatype workflow_action =
    ScheduleActivity string string json activity_options
  | StartTimer string duration
  | CompleteWorkflow json
  | FailWorkflow workflow_error
  | ScheduleChildWorkflow string string json
  | CancelActivity string
  | NoAction

section \<open>Signals\<close>

record workflow_signal =
  signal_type :: string
  sig_payload :: json
  sent_at :: timestamp

definition signal_new :: "timestamp \<Rightarrow> string \<Rightarrow> json \<Rightarrow> workflow_signal" where
  "signal_new now t p = \<lparr>signal_type = t, sig_payload = p, sent_at = now\<rparr>"

definition signal_types_CANCEL :: string where
  "signal_types_CANCEL = ''cancel''"

definition signal_types_SHUTDOWN :: string where
  "signal_types_SHUTDOWN = ''shutdown''"

definition signal_cancel :: "timestamp \<Rightarrow> string \<Rightarrow> workflow_signal" where
  "signal_cancel now reason =
     signal_new now signal_types_CANCEL (JObject [(''reason'', JString reason)])"

definition signal_shutdown :: "timestamp \<Rightarrow> workflow_signal" where
  "signal_shutdown now = signal_new now signal_types_SHUTDOWN (JObject [])"

definition is_cancel :: "workflow_signal \<Rightarrow> bool" where
  "is_cancel s \<longleftrightarrow> signal_type s = signal_types_CANCEL"

definition is_shutdown :: "workflow_signal \<Rightarrow> bool" where
  "is_shutdown s \<longleftrightarrow> signal_type s = signal_types_SHUTDOWN"

section \<open>Events\<close>

datatype timeout_type = ScheduleToStart | StartToClose | Heartbeat

datatype workflow_event =
    WorkflowStarted json
  | WorkflowCompleted json
  | WorkflowFailed workflow_error
  | WorkflowCancelled string
  | ActivityScheduled string string json activity_options
  | ActivityStarted string u32 string
  | ActivityCompleted string json
  | ActivityFailed string activity_error bool
  | ActivityTimedOut string timeout_type
  | ActivityCancelled string string
  | TimerStarted string nat
  | TimerFired string
  | TimerCancelled string
  | SignalReceived workflow_signal
  | ChildWorkflowStarted uuid string
  | ChildWorkflowCompleted uuid json
  | ChildWorkflowFailed uuid workflow_error

fun event_activity_id :: "workflow_event \<Rightarrow> string option" where
  "event_activity_id (ActivityScheduled a _ _ _) = Some a"
| "event_activity_id (ActivityStarted a _ _) = Some a"
| "event_activity_id (ActivityCompleted a _) = Some a"
| "event_activity_id (ActivityFailed a _ _) = Some a"
| "event_activity_id (ActivityTimedOut a _) = Some a"
| "event_activity_id (ActivityCancelled a _) = Some a"
| "event_activity_id _ = None"

fun event_is_terminal :: "workflow_event \<Rightarrow> bool" where
  "event_is_terminal (WorkflowCompleted _) = True"
| "event_is_terminal (WorkflowFailed _) = True"
| "event_is_terminal (WorkflowCancelled _) = True"
| "event_is_terminal _ = False"

fun event_type_name :: "workflow_event \<Rightarrow> string" where
  "event_type_name (WorkflowStarted _) = ''workflow_started''"
| "event_type_name (WorkflowCompleted _) = ''workflow_completed''"
| "event_type_name (WorkflowFailed _) = ''workflow_failed''"
| "event_type_name (WorkflowCancelled _) = ''workflow_cancelled''"
| "event_type_name (ActivityScheduled _ _ _ _) = ''activity_scheduled''"
| "event_type_name (ActivityStarted _ _ _) = ''activity_started''"
| "event_type_name (ActivityCompleted _ _) = ''activity_completed''"
| "event_type_name (ActivityFailed _ _ _) = ''activity_failed''"
| "event_type_name (ActivityTimedOut _ _) = ''activity_timed_out''"
| "event_type_name (ActivityCancelled _ _) = ''activity_cancelled''"
| "event_type_name (TimerStarted _ _) = ''timer_started''"
| "event_type_name (TimerFired _) = ''timer_fired''"
| "event_type_name (TimerCancelled _) = ''timer_cancelled''"
| "event_type_name (SignalReceived _) = ''signal_received''"
| "event_type_name (ChildWorkflowStarted _ _) = ''child_workflow_started''"
| "event_type_name (ChildWorkflowCompleted _ _) = ''child_workflow_completed''"
| "event_type_name (ChildWorkflowFailed _ _) = ''child_workflow_failed''"

section \<open>Facts\<close>

lemma event_type_name_started_iff:
  "event_type_name e = ''activity_started'' \<longleftrightarrow> (\<exists>a n w. e = ActivityStarted a n w)"
  by (cases e) auto

end
