(* ===== verification/Store_Types.thy ===== *)
theory Store_Types
  imports Workflow_Types
begin

text \<open>
  The vocabulary of \<open>persistence/store.rs\<close> and the state of the in-memory store of
  \<open>persistence/memory.rs\<close>: error and status enumerations, the rows each table holds and
  the record of all tables. Fields carry a two-letter prefix of their struct, since record
  fields share one name space.
\<close>

section \<open>Environment configuration\<close>

text \<open>\<open>str::parse\<close> for \<open>u32\<close> and \<open>i32\<close>: an optional sign, then decimal digits in range.\<close>

definition is_digit :: "char \<Rightarrow> bool" where
  "is_digit c \<longleftrightarrow> 48 \<le> (of_char c :: nat) \<and> (of_char c :: nat) \<le> 57"

definition digits_value :: "string \<Rightarrow> nat" where
  "digits_value ds = foldl (\<lambda>n c. 10 * n + (of_char c - 48)) 0 ds"

definition parse_digits :: "string \<Rightarrow> nat option" where
  "parse_digits ds = (if ds \<noteq> [] \<and> list_all is_digit ds then Some (digits_value ds) else None)"

definition strip_plus :: "string \<Rightarrow> string" where
  "strip_plus s = (case s of c # r \<Rightarrow> if c = CHR ''+'' then r else s | [] \<Rightarrow> [])"

definition parse_u32 :: "string \<Rightarrow> u32 option" where
  "parse_u32 s =
     (case parse_digits (strip_plus s) of
        Some n \<Rightarrow> if n < 2 ^ 32 then Some (as_u32 n) else None
      | None \<Rightarrow> None)"

definition parse_i32 :: "string \<Rightarrow> int option" where
  "parse_i32 s =
     (case s of
        c # r \<Rightarrow>
          if c = CHR ''-'' then
            (case parse_digits r of
               Some n \<Rightarrow> if n \<le> 2 ^ 31 then Some (- int n) else None
             | None \<Rightarrow> None)
          else
            (case parse_digits (strip_plus s) of
               Some n \<Rightarrow> if n < 2 ^ 31 then Some (int n) else None
             | None \<Rightarrow> None)
      | [] \<Rightarrow> None)"

text \<open>
  The constants and the functions that read an override from the environment; the argument is
  the value of the variable, when it is set.
\<close>

definition DEFAULT_SNAPSHOT_INTERVAL :: int where
  "DEFAULT_SNAPSHOT_INTERVAL = 1000"

definition snapshot_interval_from_env :: "string option \<Rightarrow> int" where
  "snapshot_interval_from_env var =
     (case Option.bind var parse_i32 of Some v \<Rightarrow> v | None \<Rightarrow> DEFAULT_SNAPSHOT_INTERVAL)"

definition DEFAULT_MAX_PENDING_TASKS_PER_WORKFLOW :: u32 where
  "DEFAULT_MAX_PENDING_TASKS_PER_WORKFLOW = 100"

definition DEFAULT_MAX_PENDING_STANDALONE_TASKS :: u32 where
  "DEFAULT_MAX_PENDING_STANDALONE_TASKS = 10000"

definition WORKER_HEARTBEAT_TIMEOUT_SECS :: int where
  "WORKER_HEARTBEAT_TIMEOUT_SECS = 60"

definition max_pending_tasks_per_workflow_from_env :: "string option \<Rightarrow> u32" where
  "max_pending_tasks_per_workflow_from_env var =
     (case Option.bind var parse_u32 of
        Some v \<Rightarrow> v | None \<Rightarrow> DEFAULT_MAX_PENDING_TASKS_PER_WORKFLOW)"

definition DEFAULT_NO_PROGRESS_SEAL_THRESHOLD :: u32 where
  "DEFAULT_NO_PROGRESS_SEAL_THRESHOLD = 3"

definition no_progress_seal_threshold_from_env :: "string option \<Rightarrow> u32" where
  "no_progress_seal_threshold_from_env var =
     max (case Option.bind var parse_u32 of
            Some v \<Rightarrow> v | None \<Rightarrow> DEFAULT_NO_PROGRESS_SEAL_THRESHOLD) 1"

section \<open>Errors and statuses\<close>

text \<open>The text of a \<open>Database\<close> error is kept by its cause.\<close>

datatype db_message = DbText string | AlreadyTerminal uuid

datatype store_error =
    WorkflowNotFound uuid
  | TaskNotFound uuid
  | TaskNotOwned uuid
  | CircuitBreakerNotFound string
  | ScheduleNotFound uuid
  | ScheduleExecutionNotFound uuid
  | ScheduleLimitExceeded u32 u32
  | TaskQueueLimitExceeded uuid u32 u32
  | StandaloneTaskQueueLimitExceeded u32 u32
  | InvalidCronExpression string
  | CronIntervalTooShort nat nat
  | ConcurrencyConflict int int
  | Database db_message
  | Serialization string

datatype workflow_status =
  WfPending | WfRunning | WfCompleted | WfFailed | WfCancelled | WfContinuedAsNew

fun status_is_terminal :: "workflow_status \<Rightarrow> bool" where
  "status_is_terminal WfCompleted = True"
| "status_is_terminal WfFailed = True"
| "status_is_terminal WfCancelled = True"
| "status_is_terminal WfContinuedAsNew = True"
| "status_is_terminal _ = False"

datatype task_status =
  TkPending | TkClaimed | TkCompleted | TkFailed | TkDead | TkCancelled

section \<open>Tasks\<close>

record task_definition =
  td_workflow_id :: "uuid option"
  td_activity_id :: string
  td_activity_type :: string
  td_input :: json
  td_options :: activity_options

record claimed_task =
  ct_id :: uuid
  ct_workflow_id :: "uuid option"
  ct_activity_id :: string
  ct_activity_type :: string
  ct_input :: json
  ct_options :: activity_options
  ct_attempt :: u32
  ct_max_attempts :: u32

record heartbeat_response =
  hb_accepted :: bool
  hb_should_cancel :: bool

datatype task_failure_outcome =
    WillRetry u32 duration
  | MovedToDlq
  | ExhaustedRetries

record dead_task_info =
  dt_task_id :: uuid
  dt_workflow_id :: "uuid option"
  dt_activity_id :: string
  dt_activity_type :: string
  dt_input :: json
  dt_last_error :: "string option"

record sealed_task_info =
  st_task_id :: uuid
  st_workflow_id :: "uuid option"
  st_activity_id :: string
  st_activity_type :: string
  st_input :: json
  st_reason :: string
  st_no_progress_count :: u32

record reclaim_result =
  rr_reclaimed_ids :: "uuid list"
  rr_dead_tasks :: "dead_task_info list"
  rr_sealed_tasks :: "sealed_task_info list"

record task_state =
  tk_definition :: task_definition
  tk_status :: task_status
  tk_attempt :: u32
  tk_claimed_by :: "string option"
  tk_last_error :: "string option"
  tk_error_history :: "string list"
  tk_created_at :: timestamp
  tk_claimed_at :: "timestamp option"
  tk_progress_token :: "int option"
  tk_no_progress_count :: u32

record task_info =
  ti_id :: uuid
  ti_workflow_id :: "uuid option"
  ti_activity_id :: string
  ti_activity_type :: string
  ti_status :: task_status
  ti_priority :: int
  ti_attempt :: u32
  ti_max_attempts :: u32
  ti_claimed_by :: "string option"
  ti_last_error :: "string option"
  ti_created_at :: timestamp
  ti_claimed_at :: "timestamp option"

record dlq_entry =
  dq_id :: uuid
  dq_original_task_id :: uuid
  dq_workflow_id :: "uuid option"
  dq_activity_id :: string
  dq_activity_type :: string
  dq_input :: json
  dq_attempts :: u32
  dq_last_error :: string
  dq_error_history :: "string list"
  dq_dead_at :: timestamp

section \<open>Workflows\<close>

record workflow_state =
  wf_workflow_type :: string
  wf_status :: workflow_status
  wf_input :: json
  wf_result :: "json option"
  wf_error :: "workflow_error option"
  wf_events :: "workflow_event list"
  wf_signals :: "workflow_signal list"
  wf_created_at :: timestamp
  wf_started_at :: "timestamp option"
  wf_completed_at :: "timestamp option"
  wf_continued_as_new_id :: "uuid option"

record workflow_info =
  wi_id :: uuid
  wi_workflow_type :: string
  wi_status :: workflow_status
  wi_input :: json
  wi_result :: "json option"
  wi_error :: "workflow_error option"
  wi_continued_as_new_id :: "uuid option"

record snapshot_mem_state =
  sn_sequence_num :: int
  sn_snapshot_data :: bytes
  sn_created_at :: timestamp

record workflow_snapshot =
  ws_workflow_id :: uuid
  ws_sequence_num :: int
  ws_snapshot_data :: bytes
  ws_created_at :: timestamp

section \<open>Circuit breakers and workers\<close>

record circuit_breaker_mem_state =
  cb_state :: circuit_state
  cb_failure_count :: u32
  cb_success_count :: u32
  cb_opened_at :: "timestamp option"

record circuit_breaker_state =
  cs_key :: string
  cs_state :: circuit_state
  cs_failure_count :: u32
  cs_success_count :: u32
  cs_last_failure_at :: "timestamp option"
  cs_opened_at :: "timestamp option"
  cs_half_open_at :: "timestamp option"
  cs_updated_at :: timestamp

record worker_info =
  wk_id :: string
  wk_worker_group :: "string option"
  wk_activity_types :: "string list"
  wk_max_concurrency :: u32
  wk_current_load :: u32
  wk_status :: string
  wk_accepting_tasks :: bool
  wk_backpressure_reason :: "string option"
  wk_started_at :: timestamp
  wk_last_heartbeat_at :: timestamp
  wk_hostname :: "string option"
  wk_version :: "string option"
  wk_metadata :: "json option"
  wk_tasks_completed :: nat
  wk_tasks_failed :: nat
  wk_avg_task_duration_ms :: "nat option"

record capacity_snapshot =
  cap_total_available :: u32
  cap_active_workers :: u32

section \<open>Schedules\<close>

datatype schedule_target_type = TargetWorkflow | TargetActivity

datatype schedule_execution_status =
  ExPending | ExRunning | ExCompleted | ExFailed | ExSkipped

record schedule_row =
  sc_id :: uuid
  sc_name :: string
  sc_description :: "string option"
  sc_cron_expression :: string
  sc_timezone :: string
  sc_target_type :: schedule_target_type
  sc_target_name :: string
  sc_target_input :: json
  sc_enabled :: bool
  sc_max_concurrent :: "u32 option"
  sc_catch_up_missed :: bool
  sc_max_catch_up :: "u32 option"
  sc_retry_policy :: "json option"
  sc_last_triggered_at :: "timestamp option"
  sc_next_trigger_at :: "timestamp option"
  sc_claimed_by :: "string option"
  sc_claimed_at :: "timestamp option"
  sc_created_at :: timestamp
  sc_updated_at :: timestamp

record schedule_execution_row =
  se_id :: uuid
  se_schedule_id :: uuid
  se_scheduled_at :: timestamp
  se_started_at :: timestamp
  se_completed_at :: "timestamp option"
  se_status :: schedule_execution_status
  se_workflow_id :: "uuid option"
  se_task_id :: "uuid option"
  se_error :: "string option"
  se_duration_ms :: "int option"
  se_created_at :: timestamp

record scheduler_instance_info =
  si_instance_id :: string
  si_started_at :: timestamp
  si_last_heartbeat_at :: timestamp
  si_schedules_processed :: nat
  si_hostname :: "string option"
  si_version :: "string option"

section \<open>The in-memory store\<close>

record store =
  workflows :: "(uuid, workflow_state) hmap"
  tasks :: "(uuid, task_state) hmap"
  dlq :: "(uuid, dlq_entry) hmap"
  circuit_breakers :: "(string, circuit_breaker_mem_state) hmap"
  workers :: "(string, worker_info) hmap"
  snapshots :: "(uuid, snapshot_mem_state list) hmap"
  schedules :: "(uuid, schedule_row) hmap"
  schedule_executions :: "(uuid, schedule_execution_row) hmap"
  scheduler_instances :: "(string, scheduler_instance_info) hmap"
  max_pending_tasks_per_workflow :: u32

type_synonym 'a store_op = "(store, store_error, 'a) op"

text \<open>
  \<open>Utc::now()\<close> and \<open>Uuid::now_v7()\<close> for the components that call the store many times, read in
  the state of the store at the call.
\<close>

record exec_env =
  clock :: "store \<Rightarrow> timestamp"
  fresh_uuid :: "store \<Rightarrow> uuid"

definition store_new :: "string option \<Rightarrow> store" where
  "store_new env_max_pending =
     \<lparr>workflows = [], tasks = [], dlq = [], circuit_breakers = [], workers = [],
      snapshots = [], schedules = [], schedule_executions = [], scheduler_instances = [],
      max_pending_tasks_per_workflow =
        max_pending_tasks_per_workflow_from_env env_max_pending\<rparr>"

definition workflow_count :: "store \<Rightarrow> nat" where
  "workflow_count st = length (workflows st)"

definition pending_task_count :: "store \<Rightarrow> nat" where
  "pending_task_count st =
     length (filter (\<lambda>t. tk_status t = TkPending) (hm_values (tasks st)))"

definition dlq_count :: "store \<Rightarrow> nat" where
  "dlq_count st = length (dlq st)"

definition store_clear :: "store \<Rightarrow> store" where
  "store_clear st = st\<lparr>workflows := [], tasks := [], workers := [], dlq := []\<rparr>"

section \<open>Facts\<close>

lemma threshold_from_env_pos: "1 \<le> no_progress_seal_threshold_from_env var"
  by (simp add: no_progress_seal_threshold_from_env_def)

lemma status_is_terminal_iff:
  "status_is_terminal s \<longleftrightarrow> s \<noteq> WfPending \<and> s \<noteq> WfRunning"
  by (cases s) auto

end
