(* ===== verification/Registry.thy ===== *)
theory Registry
  imports Store_Types
begin

text \<open>
  Type-erased workflows and their registry (\<open>workflow/definition.rs\<close>, \<open>engine/registry.rs\<close>).
  An implementation of the trait \<open>Workflow\<close> is a record of its methods over the state type
  \<open>'w\<close>, with input \<open>'i\<close> and output \<open>'o\<close>; the \<open>serde\<close> conversions of these types are
  fields too. Implementations are the application's: the engine is parametric in them. A
  registry that holds several Rust types is the instance where \<open>'i\<close>, \<open>'o\<close> and \<open>'w\<close> are sums.
\<close>

section \<open>Workflows\<close>

record ('i, 'o, 'w) workflow_impl =
  w_TYPE :: string
  w_from_value :: "json \<Rightarrow> string + 'i"
  w_to_value :: "'i \<Rightarrow> string + json"
  w_output_value :: "'o \<Rightarrow> string + json"
  w_new :: "'i \<Rightarrow> 'w"
  w_on_start :: "'w \<Rightarrow> workflow_action list \<times> 'w"
  w_on_activity_completed :: "string \<Rightarrow> json \<Rightarrow> 'w \<Rightarrow> workflow_action list \<times> 'w"
  w_on_activity_failed :: "string \<Rightarrow> activity_error \<Rightarrow> 'w \<Rightarrow> workflow_action list \<times> 'w"
  w_on_timer_fired :: "string \<Rightarrow> 'w \<Rightarrow> workflow_action list \<times> 'w"
  w_on_signal :: "workflow_signal \<Rightarrow> 'w \<Rightarrow> workflow_action list \<times> 'w"
  w_is_completed :: "'w \<Rightarrow> bool"
  w_result :: "'w \<Rightarrow> 'o option"
  w_error :: "'w \<Rightarrow> workflow_error option"
  w_snapshot_state :: "'w \<Rightarrow> bytes option"
  w_restore_state :: "'i \<Rightarrow> bytes \<Rightarrow> 'w option"

text \<open>\<open>WorkflowWrapper<W>\<close>, the implementation of \<open>AnyWorkflow\<close>.\<close>

record ('i, 'o, 'w) workflow_wrapper =
  wrapped :: "('i, 'o, 'w) workflow_impl"
  inner :: 'w

definition wrapper_step ::
  "(('i, 'o, 'w) workflow_impl \<Rightarrow> 'w \<Rightarrow> workflow_action list \<times> 'w)
     \<Rightarrow> ('i, 'o, 'w) workflow_wrapper \<Rightarrow> workflow_action list \<times> ('i, 'o, 'w) workflow_wrapper" where
  "wrapper_step f a = (let (acts, w) = f (wrapped a) (inner a) in (acts, a\<lparr>inner := w\<rparr>))"

definition any_workflow_type :: "('i, 'o, 'w) workflow_wrapper \<Rightarrow> string" where
  "any_workflow_type a = w_TYPE (wrapped a)"

definition any_on_start where
  "any_on_start = wrapper_step w_on_start"

definition any_on_activity_completed where
  "any_on_activity_completed activity_id result =
     wrapper_step (\<lambda>c. w_on_activity_completed c activity_id result)"

definition any_on_activity_failed where
  "any_on_activity_failed activity_id error =
     wrapper_step (\<lambda>c. w_on_activity_failed c activity_id error)"

definition any_on_timer_fired where
  "any_on_timer_fired timer_id = wrapper_step (\<lambda>c. w_on_timer_fired c timer_id)"

definition any_on_signal where
  "any_on_signal signal = wrapper_step (\<lambda>c. w_on_signal c signal)"

definition any_is_completed :: "('i, 'o, 'w) workflow_wrapper \<Rightarrow> bool" where
  "any_is_completed a = w_is_completed (wrapped a) (inner a)"

definition any_result_json :: "('i, 'o, 'w) workflow_wrapper \<Rightarrow> json option" where
  "any_result_json a =
     map_option (\<lambda>r. case w_output_value (wrapped a) r of Inr v \<Rightarrow> v | Inl _ \<Rightarrow> JNull)
       (w_result (wrapped a) (inner a))"

definition any_error :: "('i, 'o, 'w) workflow_wrapper \<Rightarrow> workflow_error option" where
  "any_error a = w_error (wrapped a) (inner a)"

definition any_serialize_state :: "('i, 'o, 'w) workflow_wrapper \<Rightarrow> bytes option" where
  "any_serialize_state a = w_snapshot_state (wrapped a) (inner a)"

section \<open>Registry\<close>

datatype registry_error =
    UnknownWorkflowType string
  | Deserialization string

type_synonym ('i, 'o, 'w) workflow_factory = "json \<Rightarrow> string + ('i, 'o, 'w) workflow_wrapper"
type_synonym ('i, 'o, 'w) snapshot_restore_factory =
  "json \<Rightarrow> bytes \<Rightarrow> ('i, 'o, 'w) workflow_wrapper option"

record ('i, 'o, 'w) workflow_registry =
  factories :: "(string, ('i, 'o, 'w) workflow_factory) hmap"
  snapshot_factories :: "(string, ('i, 'o, 'w) snapshot_restore_factory) hmap"

definition registry_new :: "('i, 'o, 'w) workflow_registry" where
  "registry_new = \<lparr>factories = [], snapshot_factories = []\<rparr>"

definition factory_of :: "('i, 'o, 'w) workflow_impl \<Rightarrow> ('i, 'o, 'w) workflow_factory" where
  "factory_of W input =
     (case w_from_value W input of
        Inl e \<Rightarrow> Inl e
      | Inr typed_input \<Rightarrow> Inr \<lparr>wrapped = W, inner = w_new W typed_input\<rparr>)"

definition snapshot_factory_of ::
  "('i, 'o, 'w) workflow_impl \<Rightarrow> ('i, 'o, 'w) snapshot_restore_factory" where
  "snapshot_factory_of W input data =
     (case w_from_value W input of
        Inl e \<Rightarrow> None
      | Inr typed_input \<Rightarrow>
          map_option (\<lambda>w. \<lparr>wrapped = W, inner = w\<rparr>) (w_restore_state W typed_input data))"

definition register ::
  "('i, 'o, 'w) workflow_impl \<Rightarrow> ('i, 'o, 'w) workflow_registry \<Rightarrow> ('i, 'o, 'w) workflow_registry"
where
  "register W reg =
     reg\<lparr>factories := hm_insert (w_TYPE W) (factory_of W) (factories reg),
         snapshot_factories :=
           hm_insert (w_TYPE W) (snapshot_factory_of W) (snapshot_factories reg)\<rparr>"

definition registry_contains :: "('i, 'o, 'w) workflow_registry \<Rightarrow> string \<Rightarrow> bool" where
  "registry_contains reg workflow_type \<longleftrightarrow> hm_get (factories reg) workflow_type \<noteq> None"

definition registry_create ::
  "('i, 'o, 'w) workflow_registry \<Rightarrow> string \<Rightarrow> json \<Rightarrow> registry_error + ('i, 'o, 'w) workflow_wrapper"
where
  "registry_create reg workflow_type input =
     (case hm_get (factories reg) workflow_type of
        None \<Rightarrow> Inl (UnknownWorkflowType workflow_type)
      | Some factory \<Rightarrow>
          (case factory input of Inl e \<Rightarrow> Inl (Deserialization e) | Inr w \<Rightarrow> Inr w))"

definition restore_from_snapshot ::
  "('i, 'o, 'w) workflow_registry \<Rightarrow> string \<Rightarrow> json \<Rightarrow> bytes \<Rightarrow> ('i, 'o, 'w) workflow_wrapper option"
where
  "restore_from_snapshot reg workflow_type input snapshot_data =
     (case hm_get (snapshot_factories reg) workflow_type of
        None \<Rightarrow> None
      | Some factory \<Rightarrow> factory input snapshot_data)"

definition registry_len :: "('i, 'o, 'w) workflow_registry \<Rightarrow> nat" where
  "registry_len reg = length (factories reg)"

definition registry_is_empty :: "('i, 'o, 'w) workflow_registry \<Rightarrow> bool" where
  "registry_is_empty reg \<longleftrightarrow> factories reg = []"

definition workflow_types :: "('i, 'o, 'w) workflow_registry \<Rightarrow> string list" where
  "workflow_types reg = map fst (factories reg)"

section \<open>Facts\<close>

text \<open>The workflow implementation a type name stands for.\<close>

definition registered :: "('i, 'o, 'w) workflow_registry \<Rightarrow> string \<Rightarrow> ('i, 'o, 'w) workflow_impl \<Rightarrow> bool"
where
  "registered reg t W \<longleftrightarrow>
     hm_get (factories reg) t = Some (factory_of W)
     \<and> hm_get (snapshot_factories reg) t = Some (snapshot_factory_of W)"

lemma wrapped_step [simp]: "wrapped (snd (wrapper_step f a)) = wrapped a"
  by (simp add: wrapper_step_def case_prod_beta)

lemma registered_register [simp]:
  "registered (register W reg) t V \<longleftrightarrow>
    (if t = w_TYPE W then factory_of V = factory_of W \<and> snapshot_factory_of V = snapshot_factory_of W
     else registered reg t V)"
  by (auto simp: registered_def register_def)

lemma registered_create:
  "registered reg t W \<Longrightarrow> w_from_value W input = Inr i
    \<Longrightarrow> registry_create reg t input = Inr \<lparr>wrapped = W, inner = w_new W i\<rparr>"
  by (simp add: registered_def registry_create_def factory_of_def)

lemma registered_restore:
  "registered reg t W \<Longrightarrow> w_from_value W input = Inr i
    \<Longrightarrow> restore_from_snapshot reg t input data
        = map_option (\<lambda>w. \<lparr>wrapped = W, inner = w\<rparr>) (w_restore_state W i data)"
  by (simp add: registered_def restore_from_snapshot_def snapshot_factory_of_def)

end
