(* ===== verification/Workflow_Store.thy ===== *)
theory Workflow_Store
  imports Store_Types
begin

text \<open>
  The workflow half of the in-memory store (\<open>persistence/memory.rs\<close>): workflow rows, the
  append-only event log with optimistic concurrency, snapshots and signals. \<open>Utc::now()\<close>
  and \<open>Uuid::now_v7()\<close> are arguments. The locale \<open>event_log\<close> is the contract of
  \<open>append_events\<close>, \<open>count_events\<close> and \<open>load_events\<close> that the executor, the task-event
  recorder and the scheduler rely on.
\<close>

section \<open>Operations\<close>

text \<open>\<open>workflows.get(&id).ok_or(WorkflowNotFound(id))?\<close>, then a read of the row.\<close>

definition read_workflow :: "uuid \<Rightarrow> (workflow_state \<Rightarrow> 'a) \<Rightarrow> 'a store_op" where
  "read_workflow wid f st =
     (case hm_get (workflows st) wid of
        None \<Rightarrow> (Inl (WorkflowNotFound wid), st)
      | Some w \<Rightarrow> (Inr (f w), st))"

text \<open>The same with \<open>get_mut\<close>: the body fails before it writes, or writes the row.\<close>

definition with_workflow ::
  "uuid \<Rightarrow> (workflow_state \<Rightarrow> store_error + ('a \<times> workflow_state)) \<Rightarrow> 'a store_op" where
  "with_workflow wid f st =
     (case hm_get (workflows st) wid of
        None \<Rightarrow> (Inl (WorkflowNotFound wid), st)
      | Some w \<Rightarrow>
          (case f w of
             Inl e \<Rightarrow> (Inl e, st)
           | Inr (r, w') \<Rightarrow>
               (Inr r, st\<lparr>workflows := hm_adjust wid (\<lambda>_. w') (workflows st)\<rparr>)))"

definition create_workflow :: "timestamp \<Rightarrow> uuid \<Rightarrow> string \<Rightarrow> json \<Rightarrow> unit store_op" where
  "create_workflow now wid wtype input st =
     (Inr (),
      st\<lparr>workflows := hm_insert wid
           \<lparr>wf_workflow_type = wtype, wf_status = WfPending, wf_input = input,
            wf_result = None, wf_error = None, wf_events = [], wf_signals = [],
            wf_created_at = now, wf_started_at = None, wf_completed_at = None,
            wf_continued_as_new_id = None\<rparr> (workflows st)\<rparr>)"

definition get_workflow_status :: "uuid \<Rightarrow> workflow_status store_op" where
  "get_workflow_status wid = read_workflow wid wf_status"

definition get_workflow_info :: "uuid \<Rightarrow> workflow_info store_op" where
  "get_workflow_info wid =
     read_workflow wid (\<lambda>w.
       \<lparr>wi_id = wid, wi_workflow_type = wf_workflow_type w, wi_status = wf_status w,
        wi_input = wf_input w, wi_result = wf_result w, wi_error = wf_error w,
        wi_continued_as_new_id = wf_continued_as_new_id w\<rparr>)"

definition append_events :: "uuid \<Rightarrow> int \<Rightarrow> workflow_event list \<Rightarrow> int store_op" where
  "append_events wid expected_sequence events =
     with_workflow wid (\<lambda>w.
       let current_sequence = as_i32 (length (wf_events w))
       in if current_sequence \<noteq> expected_sequence
          then Inl (ConcurrencyConflict expected_sequence current_sequence)
          else Inr (as_i32 (length (wf_events w @ events)),
                    w\<lparr>wf_events := wf_events w @ events\<rparr>))"

definition numbered :: "workflow_event list \<Rightarrow> (int \<times> workflow_event) list" where
  "numbered es = map (\<lambda>(i, e). (as_i32 i, e)) (enumerate 0 es)"

definition load_events :: "uuid \<Rightarrow> (int \<times> workflow_event) list store_op" where
  "load_events wid = read_workflow wid (\<lambda>w. numbered (wf_events w))"

definition count_events :: "uuid \<Rightarrow> nat store_op" where
  "count_events wid = read_workflow wid (\<lambda>w. length (wf_events w))"

definition count_events_after :: "uuid \<Rightarrow> int \<Rightarrow> nat store_op" where
  "count_events_after wid after_sequence =
     read_workflow wid (\<lambda>w.
       length (filter (\<lambda>(i, _). after_sequence < as_i32 i) (enumerate 0 (wf_events w))))"

definition load_events_after :: "uuid \<Rightarrow> int \<Rightarrow> (int \<times> workflow_event) list store_op" where
  "load_events_after wid after_sequence =
     read_workflow wid (\<lambda>w.
       map (\<lambda>(i, e). (as_i32 i, e))
         (filter (\<lambda>(i, _). after_sequence < as_i32 i) (enumerate 0 (wf_events w))))"

subsection \<open>Snapshots\<close>

fun replace_first :: "('a \<Rightarrow> bool) \<Rightarrow> ('a \<Rightarrow> 'a) \<Rightarrow> 'a list \<Rightarrow> 'a list" where
  "replace_first p f [] = []"
| "replace_first p f (x # xs) = (if p x then f x # xs else x # replace_first p f xs)"

definition upsert_snapshot ::
  "timestamp \<Rightarrow> int \<Rightarrow> bytes \<Rightarrow> snapshot_mem_state list \<Rightarrow> snapshot_mem_state list" where
  "upsert_snapshot now seq data entry =
     (if list_ex (\<lambda>s. sn_sequence_num s = seq) entry
      then replace_first (\<lambda>s. sn_sequence_num s = seq)
             (\<lambda>s. s\<lparr>sn_snapshot_data := data, sn_created_at := now\<rparr>) entry
      else sort_key sn_sequence_num
             (entry @ [\<lparr>sn_sequence_num = seq, sn_snapshot_data = data, sn_created_at = now\<rparr>]))"

definition snapshots_of :: "store \<Rightarrow> uuid \<Rightarrow> snapshot_mem_state list" where
  "snapshots_of st wid = (case hm_get (snapshots st) wid of Some l \<Rightarrow> l | None \<Rightarrow> [])"

definition save_snapshot :: "timestamp \<Rightarrow> uuid \<Rightarrow> int \<Rightarrow> bytes \<Rightarrow> unit store_op" where
  "save_snapshot now wid seq data st =
     (Inr (),
      st\<lparr>snapshots := hm_insert wid (upsert_snapshot now seq data (snapshots_of st wid))
                        (snapshots st)\<rparr>)"

definition load_latest_snapshot :: "uuid \<Rightarrow> workflow_snapshot option store_op" where
  "load_latest_snapshot wid st =
     (Inr (case hm_get (snapshots st) wid of
             None \<Rightarrow> None
           | Some entries \<Rightarrow>
               (if entries = [] then None
                else let s = last entries in
                  Some \<lparr>ws_workflow_id = wid, ws_sequence_num = sn_sequence_num s,
                        ws_snapshot_data = sn_snapshot_data s,
                        ws_created_at = sn_created_at s\<rparr>)), st)"

definition delete_snapshots :: "uuid \<Rightarrow> unit store_op" where
  "delete_snapshots wid st = (Inr (), st\<lparr>snapshots := hm_remove wid (snapshots st)\<rparr>)"

subsection \<open>Status transitions\<close>

definition set_status ::
  "timestamp \<Rightarrow> workflow_status \<Rightarrow> json option \<Rightarrow> workflow_error option
     \<Rightarrow> workflow_state \<Rightarrow> workflow_state" where
  "set_status now status result error w =
     (let w = w\<lparr>wf_status := status\<rparr> in
      if status = WfPending then
        w\<lparr>wf_result := None, wf_error := None, wf_started_at := None, wf_completed_at := None\<rparr>
      else
        let w = w\<lparr>wf_result := result, wf_error := error\<rparr> in
        if status = WfRunning then
          (if wf_started_at w = None then w\<lparr>wf_started_at := Some now\<rparr> else w)
        else
          (if wf_completed_at w = None then w\<lparr>wf_completed_at := Some now\<rparr> else w))"

definition update_workflow_status ::
  "timestamp \<Rightarrow> uuid \<Rightarrow> workflow_status \<Rightarrow> json option \<Rightarrow> workflow_error option
     \<Rightarrow> unit store_op" where
  "update_workflow_status now wid status result error =
     with_workflow wid (\<lambda>w. Inr ((), set_status now status result error w))"

definition try_fail_workflow :: "timestamp \<Rightarrow> uuid \<Rightarrow> workflow_error \<Rightarrow> bool store_op" where
  "try_fail_workflow now wid error =
     with_workflow wid (\<lambda>w.
       if wf_status w \<noteq> WfRunning then Inr (False, w)
       else Inr (True, w\<lparr>wf_status := WfFailed, wf_error := Some error,
                         wf_completed_at := Some now\<rparr>))"

text \<open>
  History rollover. \<open>t0\<close> and \<open>now\<close> are the two clock readings, \<open>new_id\<close> the fresh
  identifier.
\<close>

definition continue_as_new ::
  "timestamp \<Rightarrow> timestamp \<Rightarrow> uuid \<Rightarrow> uuid \<Rightarrow> string \<Rightarrow> json \<Rightarrow> bytes \<Rightarrow> uuid store_op" where
  "continue_as_new t0 now new_id old_id wtype input data st =
     (case hm_get (workflows st) old_id of
        None \<Rightarrow> (Inl (WorkflowNotFound old_id), st)
      | Some w \<Rightarrow>
          if status_is_terminal (wf_status w)
          then (Inl (Database (AlreadyTerminal old_id)), st)
          else
            let old = w\<lparr>wf_status := WfContinuedAsNew, wf_completed_at := Some t0,
                        wf_continued_as_new_id := Some new_id, wf_events := []\<rparr>;
                new = \<lparr>wf_workflow_type = wtype, wf_status = WfRunning, wf_input = input,
                       wf_result = None, wf_error = None,
                       wf_events = [WorkflowStarted input], wf_signals = [],
                       wf_created_at = now, wf_started_at = Some now,
                       wf_completed_at = None, wf_continued_as_new_id = None\<rparr>;
                snaps = hm_remove old_id (snapshots st);
                entry = (case hm_get snaps new_id of Some l \<Rightarrow> l | None \<Rightarrow> [])
            in (Inr new_id,
                st\<lparr>workflows := hm_insert new_id new
                     (hm_adjust old_id (\<lambda>_. old) (workflows st)),
                   snapshots := hm_insert new_id
                     (entry @ [\<lparr>sn_sequence_num = 0, sn_snapshot_data = data,
                                sn_created_at = now\<rparr>]) snaps\<rparr>))"

subsection \<open>Signals\<close>

definition send_signal :: "uuid \<Rightarrow> workflow_signal \<Rightarrow> unit store_op" where
  "send_signal wid sig =
     with_workflow wid (\<lambda>w. Inr ((), w\<lparr>wf_signals := wf_signals w @ [sig]\<rparr>))"

definition get_pending_signals :: "uuid \<Rightarrow> workflow_signal list store_op" where
  "get_pending_signals wid = read_workflow wid wf_signals"

definition mark_signals_processed :: "uuid \<Rightarrow> nat \<Rightarrow> unit store_op" where
  "mark_signals_processed wid count =
     with_workflow wid (\<lambda>w.
       Inr ((), w\<lparr>wf_signals := drop (min count (length (wf_signals w))) (wf_signals w)\<rparr>))"

definition consume_pending_signals :: "uuid \<Rightarrow> workflow_signal list store_op" where
  "consume_pending_signals wid =
     with_workflow wid (\<lambda>w. Inr (wf_signals w, w\<lparr>wf_signals := []\<rparr>))"

definition consume_pending_signals_by_type ::
  "uuid \<Rightarrow> string \<Rightarrow> workflow_signal list store_op" where
  "consume_pending_signals_by_type wid t =
     with_workflow wid (\<lambda>w.
       Inr (filter (\<lambda>s. signal_type s = t) (wf_signals w),
            w\<lparr>wf_signals := filter (\<lambda>s. signal_type s \<noteq> t) (wf_signals w)\<rparr>))"

text \<open>
  The trait's default \<open>consume_pending_signals\<close>: read, then mark that many processed. Between
  the two calls other senders may act: \<open>env\<close> is what they do.
\<close>

definition default_consume_pending_signals ::
  "(store \<Rightarrow> store) \<Rightarrow> uuid \<Rightarrow> workflow_signal list store_op" where
  "default_consume_pending_signals env wid =
     bind_op (get_pending_signals wid) (\<lambda>signals st.
       if signals \<noteq> []
       then bind_op (mark_signals_processed wid (length signals)) (\<lambda>_. ret_op signals) (env st)
       else (Inr signals, st))"

text \<open>The trait's default \<open>load_events_after\<close> and \<open>count_events_after\<close>, over \<open>load_events\<close>.\<close>

definition default_load_events_after :: "uuid \<Rightarrow> int \<Rightarrow> (int \<times> workflow_event) list store_op" where
  "default_load_events_after wid after_sequence =
     bind_op (load_events wid) (\<lambda>all.
       ret_op (filter (\<lambda>(seq, _). after_sequence < seq) all))"

definition default_count_events_after :: "uuid \<Rightarrow> int \<Rightarrow> nat store_op" where
  "default_count_events_after wid after_sequence =
     bind_op (load_events_after wid after_sequence) (\<lambda>es. ret_op (length es))"

section \<open>Abstractions and row invariants\<close>

text \<open>The event log of a workflow, as its clients see it.\<close>

definition log_of :: "store \<Rightarrow> uuid \<Rightarrow> workflow_event list option" where
  "log_of st wid = map_option wf_events (hm_get (workflows st) wid)"

text \<open>The suffix of the log after position \<open>a\<close>, with its sequence numbers.\<close>

definition log_after :: "int \<Rightarrow> workflow_event list \<Rightarrow> workflow_event list" where
  "log_after a es = drop (nat (a + 1)) es"

text \<open>Snapshots of a workflow are kept in strictly increasing order of sequence number.\<close>

definition snapshots_ok :: "snapshot_mem_state list \<Rightarrow> bool" where
  "snapshots_ok l \<longleftrightarrow> sorted_wrt (<) (map sn_sequence_num l)"

text \<open>
  What a row's status says about its other fields: only a finished workflow has a completion
  time, and a pending one has neither outcome nor start time.
\<close>

definition workflow_ok :: "workflow_state \<Rightarrow> bool" where
  "workflow_ok w \<longleftrightarrow>
     (wf_status w = WfPending \<longrightarrow>
        wf_result w = None \<and> wf_error w = None \<and> wf_started_at w = None
        \<and> wf_completed_at w = None)
     \<and> (status_is_terminal (wf_status w) \<longrightarrow> wf_completed_at w \<noteq> None)
     \<and> (wf_status w = WfRunning \<longrightarrow> wf_started_at w \<noteq> None)"

section \<open>Rows\<close>

named_theorems wf_ops \<open>definitions of the workflow operations\<close>

declare create_workflow_def [wf_ops] get_workflow_status_def [wf_ops] get_workflow_info_def [wf_ops]
  append_events_def [wf_ops] load_events_def [wf_ops] count_events_def [wf_ops]
  count_events_after_def [wf_ops] load_events_after_def [wf_ops] update_workflow_status_def [wf_ops]
  try_fail_workflow_def [wf_ops] send_signal_def [wf_ops] get_pending_signals_def [wf_ops]
  mark_signals_processed_def [wf_ops] consume_pending_signals_def [wf_ops]
  consume_pending_signals_by_type_def [wf_ops] save_snapshot_def [wf_ops]
  load_latest_snapshot_def [wf_ops] delete_snapshots_def [wf_ops]

lemma read_workflow_state [simp]: "snd (read_workflow wid f st) = st"
  by (simp add: read_workflow_def split: option.splits)

lemma read_workflow_Some:
  "hm_get (workflows st) wid = Some w \<Longrightarrow> read_workflow wid f st = (Inr (f w), st)"
  by (simp add: read_workflow_def)

lemma read_workflow_None:
  "hm_get (workflows st) wid = None \<Longrightarrow> read_workflow wid f st = (Inl (WorkflowNotFound wid), st)"
  by (simp add: read_workflow_def)

lemma with_workflow_None:
  "hm_get (workflows st) wid = None \<Longrightarrow> with_workflow wid f st = (Inl (WorkflowNotFound wid), st)"
  by (simp add: with_workflow_def)

lemma with_workflow_Inl:
  "hm_get (workflows st) wid = Some w \<Longrightarrow> f w = Inl e \<Longrightarrow> with_workflow wid f st = (Inl e, st)"
  by (simp add: with_workflow_def)

lemma with_workflow_Inr:
  "hm_get (workflows st) wid = Some w \<Longrightarrow> f w = Inr (r, w')
    \<Longrightarrow> with_workflow wid f st
        = (Inr r, st\<lparr>workflows := hm_adjust wid (\<lambda>_. w') (workflows st)\<rparr>)"
  by (simp add: with_workflow_def)

lemmas workflow_rows =
  read_workflow_Some read_workflow_None with_workflow_None with_workflow_Inl with_workflow_Inr

text \<open>A row operation keeps every property of rows that its body keeps, and the other tables.\<close>

lemma with_workflow_preserves:
  assumes "\<And>w r w'. f w = Inr (r, w') \<Longrightarrow> P w \<Longrightarrow> P w'"
  shows "preserves (\<lambda>st. hm_all P (workflows st)) (with_workflow wid f)"
proof
  fix st :: store assume all: "hm_all P (workflows st)"
  show "hm_all P (workflows (snd (with_workflow wid f st)))"
  proof (cases "hm_get (workflows st) wid")
    case None
    with all show ?thesis by (simp add: workflow_rows)
  next
    case (Some w)
    with all have "P w" by (rule hm_allD)
    with Some all assms show ?thesis
      by (auto simp: with_workflow_def hm_all_iff hm_adjust_def split: sum.splits)
  qed
qed

lemma with_workflow_frame:
  assumes "\<And>(st :: store) ws. g (st\<lparr>workflows := ws\<rparr>) = g st"
  shows "g (snd (with_workflow wid f st)) = g st"
  using assms by (simp add: with_workflow_def split: option.splits sum.splits)

section \<open>The event log\<close>

locale event_log =
  fixes append :: "uuid \<Rightarrow> int \<Rightarrow> workflow_event list \<Rightarrow> ('s, store_error, int) op"
    and count :: "uuid \<Rightarrow> ('s, store_error, nat) op"
    and load :: "uuid \<Rightarrow> ('s, store_error, (int \<times> workflow_event) list) op"
    and log :: "'s \<Rightarrow> uuid \<Rightarrow> workflow_event list option"
  assumes append_missing:
      "log s w = None \<Longrightarrow> append w n xs s = (Inl (WorkflowNotFound w), s)"
    and append_stale:
      "log s w = Some es \<Longrightarrow> as_i32 (length es) \<noteq> n
        \<Longrightarrow> append w n xs s = (Inl (ConcurrencyConflict n (as_i32 (length es))), s)"
    and append_current:
      "log s w = Some es \<Longrightarrow> as_i32 (length es) = n
        \<Longrightarrow> \<exists>s'. append w n xs s = (Inr (as_i32 (length (es @ xs))), s')
              \<and> log s' = (log s)(w \<mapsto> es @ xs)"
    and count_missing: "log s w = None \<Longrightarrow> count w s = (Inl (WorkflowNotFound w), s)"
    and count_current: "log s w = Some es \<Longrightarrow> count w s = (Inr (length es), s)"
    and load_missing: "log s w = None \<Longrightarrow> load w s = (Inl (WorkflowNotFound w), s)"
    and load_current: "log s w = Some es \<Longrightarrow> load w s = (Inr (numbered es), s)"
begin

text \<open>Optimistic concurrency: of two writers that read the same length, the second fails.\<close>

lemma second_writer_fails:
  assumes "append w n xs s = (Inr m, s')" and "xs \<noteq> []"
    and "log s' w = Some es'" and "length es' < 2 ^ 31"
  shows "append w n ys s' = (Inl (ConcurrencyConflict n m), s')"
proof -
  obtain es where es: "log s w = Some es" "as_i32 (length es) = n"
    using assms(1) append_missing [of s w n xs] append_stale [of s w _ n xs]
    by (cases "log s w") (auto split: if_splits)
  then obtain "m = as_i32 (length (es @ xs))" "log s' w = Some (es @ xs)"
    using append_current [OF es, of xs] assms(1) by auto
  with assms es have "as_i32 (length es') = m" "m \<noteq> n"
    by auto
  then show ?thesis using append_stale [OF assms(3)] by auto
qed

text \<open>Whatever an append returns, the log is extended at its end or not touched.\<close>

lemma append_extends:
  assumes "append w n xs s = (r, s')" and "log s w = Some es"
  shows "log s' = (log s)(w \<mapsto> es @ (if isl r then [] else xs))"
proof (cases "as_i32 (length es) = n")
  case True
  with append_current [OF assms(2), of n xs] assms(1) show ?thesis by auto
next
  case False
  with append_stale [OF assms(2)] assms show ?thesis by (auto simp: fun_upd_idem)
qed

end

lemma log_of_append_current:
  assumes "log_of st wid = Some es" and "as_i32 (length es) = n"
  shows "\<exists>st'. append_events wid n xs st = (Inr (as_i32 (length (es @ xs))), st')
    \<and> log_of st' = (log_of st)(wid \<mapsto> es @ xs)"
proof -
  from assms obtain w where "hm_get (workflows st) wid = Some w" "wf_events w = es"
    by (auto simp: log_of_def)
  with assms show ?thesis
    by (auto simp: wf_ops workflow_rows log_of_def fun_eq_iff)
qed

interpretation mem_log: event_log append_events count_events load_events log_of
proof unfold_locales
  show "\<And>s w es n xs. log_of s w = Some es \<Longrightarrow> as_i32 (length es) = n \<Longrightarrow>
    \<exists>s'. append_events w n xs s = (Inr (as_i32 (length (es @ xs))), s')
      \<and> log_of s' = (log_of s)(w \<mapsto> es @ xs)"
    by (rule log_of_append_current)
qed (auto simp: log_of_def wf_ops workflow_rows)

section \<open>Loading from a sequence number\<close>

lemma enumerate_after:
  assumes "n + length es < 2 ^ 31"
  shows "filter (\<lambda>(i, _). a < as_i32 i) (enumerate n es)
    = enumerate (n + nat (a + 1 - int n)) (drop (nat (a + 1 - int n)) es)"
  using assms
proof (induction es arbitrary: n)
  case Nil
  then show ?case by simp
next
  case (Cons e es)
  then have IH: "filter (\<lambda>(i, _). a < as_i32 i) (enumerate (Suc n) es)
    = enumerate (Suc n + nat (a + 1 - int (Suc n))) (drop (nat (a + 1 - int (Suc n))) es)"
    by simp
  show ?case
  proof (cases "a < int n")
    case True
    with Cons.prems IH show ?thesis by simp
  next
    case False
    then have "nat (a + 1 - int n) = Suc (nat (a + 1 - int (Suc n)))" by simp
    with False Cons.prems IH show ?thesis by simp
  qed
qed

lemma load_events_after_eq:
  assumes "hm_get (workflows st) wid = Some w" and "length (wf_events w) < 2 ^ 31"
  shows "load_events_after wid a st
    = (Inr (map (\<lambda>(i, e). (as_i32 i, e)) (enumerate (nat (a + 1)) (log_after a (wf_events w)))), st)"
  using assms by (simp add: wf_ops workflow_rows enumerate_after log_after_def)

lemma count_events_after_eq:
  assumes "hm_get (workflows st) wid = Some w" and "length (wf_events w) < 2 ^ 31"
  shows "count_events_after wid a st = (Inr (length (log_after a (wf_events w))), st)"
  using assms by (simp add: wf_ops workflow_rows enumerate_after log_after_def)

lemma numbered_simps:
  "length (numbered es) = length es" "map snd (numbered es) = es"
  "i < length es \<Longrightarrow> numbered es ! i = (as_i32 i, es ! i)"
  by (simp_all add: numbered_def comp_def case_prod_beta nth_enumerate_eq)



section \<open>Snapshots\<close>

lemma snapshots_ok_alt:
  "snapshots_ok l \<longleftrightarrow> sorted (map sn_sequence_num l) \<and> distinct (map sn_sequence_num l)"
  by (simp add: snapshots_ok_def strict_sorted_iff)

lemma map_replace_first:
  "(\<And>x. p x \<Longrightarrow> g (f x) = g x) \<Longrightarrow> map g (replace_first p f xs) = map g xs"
  by (induction xs) auto

lemma set_replace_first: "set (replace_first p f xs) \<subseteq> set xs \<union> f ` set xs"
  by (induction xs) auto

lemma upsert_seqs:
  "set (map sn_sequence_num (upsert_snapshot now seq data l))
    = insert seq (set (map sn_sequence_num l))"
proof (cases "list_ex (\<lambda>s. sn_sequence_num s = seq) l")
  case True
  then have "seq \<in> sn_sequence_num ` set l" by (auto simp: list_ex_iff)
  moreover have "map sn_sequence_num (upsert_snapshot now seq data l) = map sn_sequence_num l"
    using True by (auto simp: upsert_snapshot_def intro: map_replace_first)
  ultimately show ?thesis by (metis image_set insert_absorb)
next
  case False
  then show ?thesis by (simp add: upsert_snapshot_def)
qed

lemma upsert_snapshots_ok: "snapshots_ok l \<Longrightarrow> snapshots_ok (upsert_snapshot now seq data l)"
proof (cases "list_ex (\<lambda>s. sn_sequence_num s = seq) l")
  case True
  assume "snapshots_ok l"
  moreover have "map sn_sequence_num (upsert_snapshot now seq data l) = map sn_sequence_num l"
    using True by (auto simp: upsert_snapshot_def intro: map_replace_first)
  ultimately show ?thesis by (simp add: snapshots_ok_def)
next
  case False
  let ?l = "l @ [\<lparr>sn_sequence_num = seq, sn_snapshot_data = data, sn_created_at = now\<rparr>]"
  assume "snapshots_ok l"
  with False have "distinct (map sn_sequence_num ?l)"
    by (auto simp: snapshots_ok_alt list_ex_iff)
  then have "distinct (map sn_sequence_num (sort_key sn_sequence_num ?l))"
    by (metis distinct_map distinct_sort set_sort)
  with False show ?thesis by (simp add: snapshots_ok_alt upsert_snapshot_def)
qed

lemma replace_first_hit:
  assumes "y \<in> set (replace_first (\<lambda>x. g x = k) f xs)" and "g y = k" and "distinct (map g xs)"
  shows "\<exists>x. y = f x"
  using assms(1,3)
proof (induction xs)
  case (Cons a xs)
  then show ?case
    using assms(2) by (cases "g a = k") (auto simp: rev_image_eqI)
qed simp

lemma upsert_stores:
  assumes "snapshots_ok l" and "s \<in> set (upsert_snapshot now seq data l)"
    and "sn_sequence_num s = seq"
  shows "sn_snapshot_data s = data"
proof (cases "list_ex (\<lambda>s. sn_sequence_num s = seq) l")
  case True
  with assms have "s \<in> set (replace_first (\<lambda>s. sn_sequence_num s = seq)
      (\<lambda>s. s\<lparr>sn_snapshot_data := data, sn_created_at := now\<rparr>) l)"
    by (simp add: upsert_snapshot_def)
  from replace_first_hit [OF this assms(3)] assms(1) obtain x
    where "s = x\<lparr>sn_snapshot_data := data, sn_created_at := now\<rparr>"
    unfolding snapshots_ok_alt by metis
  then show ?thesis by simp
next
  case False
  with assms(2,3) have "s = \<lparr>sn_sequence_num = seq, sn_snapshot_data = data, sn_created_at = now\<rparr>"
    by (auto simp: upsert_snapshot_def list_ex_iff)
  then show ?thesis by simp
qed

lemma replace_first_other:
  "\<not> p y \<Longrightarrow> (\<And>x. p x \<Longrightarrow> p (f x)) \<Longrightarrow> y \<in> set (replace_first p f xs) \<longleftrightarrow> y \<in> set xs"
  by (induction xs) auto

lemma upsert_keeps:
  "sn_sequence_num s \<noteq> seq \<Longrightarrow> s \<in> set (upsert_snapshot now seq data l) \<longleftrightarrow> s \<in> set l"
  by (auto simp: upsert_snapshot_def replace_first_other)

lemma snapshots_ok_last:
  "snapshots_ok l \<Longrightarrow> s \<in> set l \<Longrightarrow> sn_sequence_num s \<le> sn_sequence_num (last l)"
  by (cases l rule: rev_cases) (auto simp: snapshots_ok_def sorted_wrt_append)

lemma upsert_last:
  assumes "snapshots_ok l" and "\<And>s. s \<in> set l \<Longrightarrow> sn_sequence_num s \<le> seq"
  shows "sn_sequence_num (last (upsert_snapshot now seq data l)) = seq"
    and "sn_snapshot_data (last (upsert_snapshot now seq data l)) = data"
proof -
  let ?u = "upsert_snapshot now seq data l"
  have seqs: "set (map sn_sequence_num ?u) = insert seq (set (map sn_sequence_num l))"
    by (rule upsert_seqs)
  then have "seq \<in> sn_sequence_num ` set ?u" by simp
  then obtain s where s: "s \<in> set ?u" "sn_sequence_num s = seq" by auto
  then have last: "last ?u \<in> set ?u" by (intro last_in_set) auto
  then have "sn_sequence_num (last ?u) \<in> set (map sn_sequence_num ?u)" by simp
  then have "sn_sequence_num (last ?u) \<le> seq" unfolding seqs using assms(2) by auto
  with s snapshots_ok_last [OF upsert_snapshots_ok [OF assms(1)]]
  show "sn_sequence_num (last ?u) = seq" by (metis order_antisym)
  with upsert_stores [OF assms(1) last] show "sn_snapshot_data (last ?u) = data" by simp
qed

lemma load_latest_snapshot_state [simp]: "snd (load_latest_snapshot wid st) = st"
  by (simp add: load_latest_snapshot_def)


section \<open>Signals and status\<close>

lemma mark_after_get:
  assumes "hm_get (workflows st) wid = Some w" and "wf_signals w = sigs @ rest"
  shows "mark_signals_processed wid (length sigs) st
    = (Inr (), st\<lparr>workflows := hm_adjust wid (\<lambda>_. w\<lparr>wf_signals := rest\<rparr>) (workflows st)\<rparr>)"
  using assms by (simp add: wf_ops workflow_rows)

lemma set_status_fields [simp]:
  "wf_status (set_status now s r e w) = s"
  "wf_events (set_status now s r e w) = wf_events w"
  "wf_signals (set_status now s r e w) = wf_signals w"
  "wf_input (set_status now s r e w) = wf_input w"
  "wf_workflow_type (set_status now s r e w) = wf_workflow_type w"
  "wf_continued_as_new_id (set_status now s r e w) = wf_continued_as_new_id w"
  by (simp_all add: set_status_def Let_def)

lemma set_status_ok: "workflow_ok (set_status now s r e w)"
  by (cases s) (simp_all add: set_status_def workflow_ok_def Let_def)

section \<open>Properties\<close>

text \<open>
  C11. Optimistic concurrency of the event log: once an \<open>append_events\<close> with a sequence number
  has written at least one event, any other append that still carries that number is refused
  with \<open>ConcurrencyConflict\<close>, reports the actual length and changes nothing. The log is assumed
  to fit the \<open>i32\<close> sequence numbers.
\<close>

theorem append_events_second_writer:
  assumes "append_events wid n xs st = (Inr m, st')" and "xs \<noteq> []"
    and "log_of st' wid = Some es" and "length es < 2 ^ 31"
  shows "append_events wid n ys st' = (Inl (ConcurrencyConflict n m), st')"
  using assms by (rule mem_log.second_writer_fails)

theorem append_events_second_writer_witness:
  "\<exists>st. append_events 7 0 [TimerFired ''t''] st
     = (Inl (ConcurrencyConflict 0 1), st)"
proof -
  let ?w = "snd (create_workflow 0 7 ''t'' JNull (store_new None))"
  have log: "log_of ?w 7 = Some []" by (simp add: create_workflow_def log_of_def)
  obtain st' where a: "append_events 7 0 [WorkflowStarted JNull] ?w = (Inr 1, st')"
    and "log_of st' = (log_of ?w)(7 \<mapsto> [WorkflowStarted JNull])"
    using mem_log.append_current [OF log, of 0 "[WorkflowStarted JNull]"] by auto
  then have l: "log_of st' 7 = Some [WorkflowStarted JNull]" by simp
  have "append_events 7 0 [TimerFired ''t''] st' = (Inl (ConcurrencyConflict 0 1), st')"
    by (rule append_events_second_writer [OF a _ l]) simp_all
  then show ?thesis by blast
qed

text \<open>
  Reading the log from a sequence number: the store's overriding \<open>load_events_after\<close> and
  \<open>count_events_after\<close> agree with the trait's default implementations over \<open>load_events\<close>, for
  every position, and report a missing workflow the same way.
\<close>

theorem events_after_equiv_default:
  "load_events_after wid a st = default_load_events_after wid a st
   \<and> count_events_after wid a st = default_count_events_after wid a st"
  by (cases "hm_get (workflows st) wid")
    (simp_all add: default_load_events_after_def default_count_events_after_def wf_ops
      workflow_rows numbered_def filter_map comp_def case_prod_beta')

text \<open>
  Snapshots: saving keeps the list strictly ordered by sequence number, replaces the
  snapshot of that number and no other, and the latest snapshot is then the one with the
  greatest number; saving at or above every stored number makes it the latest, with the data
  just written.
\<close>

theorem save_snapshot_latest:
  assumes "snapshots_ok (snapshots_of st wid)"
    and "save_snapshot now wid seq data st = (r, st')"
  shows "snapshots_ok (snapshots_of st' wid)
    \<and> (\<forall>s. sn_sequence_num s \<noteq> seq
          \<longrightarrow> s \<in> set (snapshots_of st' wid) \<longleftrightarrow> s \<in> set (snapshots_of st wid))
    \<and> (\<exists>ws. load_latest_snapshot wid st' = (Inr (Some ws), st')
          \<and> (\<forall>s \<in> set (snapshots_of st' wid). sn_sequence_num s \<le> ws_sequence_num ws)
          \<and> ((\<forall>s \<in> set (snapshots_of st wid). sn_sequence_num s \<le> seq)
               \<longrightarrow> ws_sequence_num ws = seq \<and> ws_snapshot_data ws = data))"
proof -
  let ?u = "upsert_snapshot now seq data (snapshots_of st wid)"
  have u: "snapshots_of st' wid = ?u" "hm_get (snapshots st') wid = Some ?u"
    using assms(2) by (auto simp: save_snapshot_def snapshots_of_def)
  have ne: "?u \<noteq> []" using upsert_seqs [of now seq data "snapshots_of st wid"] by auto
  show ?thesis
    unfolding u(1)
    using upsert_snapshots_ok [OF assms(1)] upsert_last [OF assms(1)]
      snapshots_ok_last [OF upsert_snapshots_ok [OF assms(1)]] ne u(2)
    by (auto simp: load_latest_snapshot_def Let_def upsert_keeps)
qed

theorem save_snapshot_latest_witness:
  "snapshots_ok (snapshots_of (store_new None) 7)
   \<and> snapshots_ok (snapshots_of (snd (save_snapshot 0 7 3 [1] (store_new None))) 7)"
proof -
  have ok: "snapshots_ok (snapshots_of (store_new None) 7)"
    by (simp add: snapshots_ok_def snapshots_of_def store_new_def)
  show ?thesis
    using save_snapshot_latest [OF ok prod.collapse [symmetric, of "save_snapshot 0 7 3 [1] (store_new None)"]]
      ok by blast
qed

text \<open>
  No signal is lost: whatever other senders do between the two calls of the trait's default
  \<open>consume_pending_signals\<close> (they append signals to the workflow), what it returns followed by
  what stays pending is exactly what was pending followed by what was sent; the store's atomic
  override at the same point returns the pending signals and leaves none of them.
\<close>

theorem consume_pending_signals_lossless:
  assumes "hm_get (workflows st) wid = Some w"
    and "hm_get (workflows (env st)) wid = Some w'" and "wf_signals w' = wf_signals w @ sent"
    and "default_consume_pending_signals env wid st = (Inr got, st')"
    and "wf_signals w \<noteq> []"
  shows "\<exists>w''. hm_get (workflows st') wid = Some w''
           \<and> got @ wf_signals w'' = wf_signals w @ sent \<and> got = wf_signals w
           \<and> fst (consume_pending_signals wid st) = Inr got"
proof -
  have "default_consume_pending_signals env wid st
    = (Inr (wf_signals w),
       (env st)\<lparr>workflows := hm_adjust wid (\<lambda>_. w'\<lparr>wf_signals := sent\<rparr>) (workflows (env st))\<rparr>)"
    using assms mark_after_get [OF assms(2,3)]
    by (simp add: default_consume_pending_signals_def get_pending_signals_def workflow_rows
        bind_op_def)
  with assms show ?thesis by (auto simp: wf_ops workflow_rows)
qed

theorem consume_pending_signals_lossless_witness:
  "\<exists>got st'. default_consume_pending_signals (\<lambda>s. s) 1
       (snd (send_signal 1 (signal_shutdown 5) (snd (create_workflow 0 1 ''t'' JNull (store_new None)))))
     = (Inr got, st') \<and> got = [signal_shutdown 5]"
proof -
  let ?st = "snd (send_signal 1 (signal_shutdown 5) (snd (create_workflow 0 1 ''t'' JNull (store_new None))))"
  obtain w where w: "hm_get (workflows ?st) 1 = Some w" "wf_signals w = [signal_shutdown 5]"
    by (simp add: send_signal_def create_workflow_def with_workflow_def)
  obtain got st' where d: "default_consume_pending_signals (\<lambda>s. s) 1 ?st = (Inr got, st')"
    using w by (cases "default_consume_pending_signals (\<lambda>s. s) 1 ?st")
      (auto simp: default_consume_pending_signals_def wf_ops workflow_rows bind_op_def)
  have "\<exists>w''. hm_get (workflows st') 1 = Some w'' \<and> got @ wf_signals w'' = wf_signals w @ []
      \<and> got = wf_signals w \<and> fst (consume_pending_signals 1 ?st) = Inr got"
    by (rule consume_pending_signals_lossless [where env = "\<lambda>s. s", OF w(1) w(1) _ d])
      (simp_all add: w(2))
  with d w(2) show ?thesis by auto
qed

text \<open>
  One winner: \<open>try_fail_workflow\<close> returns true for exactly one caller of a running
  workflow; after that the workflow is failed with that caller's error, and every later call
  returns false and leaves the workflow as the winner left it, until it is run again.
\<close>

theorem try_fail_workflow_single_winner:
  assumes "hm_get (workflows st) wid = Some w" and "wf_status w = WfRunning"
    and "try_fail_workflow now wid e st = (r, st')"
  shows "r = Inr True
    \<and> (\<exists>w'. hm_get (workflows st') wid = Some w' \<and> wf_status w' = WfFailed \<and> wf_error w' = Some e
          \<and> wf_completed_at w' = Some now \<and> wf_events w' = wf_events w
          \<and> fst (try_fail_workflow now2 wid e2 st') = Inr False
          \<and> hm_get (workflows (snd (try_fail_workflow now2 wid e2 st'))) wid = Some w')"
  using assms by (auto simp: wf_ops with_workflow_def)

theorem try_fail_workflow_single_winner_witness:
  "\<exists>st'. try_fail_workflow 9 1 (workflow_error_new ''boom'')
      (snd (update_workflow_status 1 1 WfRunning None None
        (snd (create_workflow 0 1 ''t'' JNull (store_new None))))) = (Inr True, st')"
proof -
  let ?st = "snd (update_workflow_status 1 1 WfRunning None None
        (snd (create_workflow 0 1 ''t'' JNull (store_new None))))"
  obtain w where w: "hm_get (workflows ?st) 1 = Some w" "wf_status w = WfRunning"
    by (simp add: wf_ops with_workflow_def)
  obtain r st' where r: "try_fail_workflow 9 1 (workflow_error_new ''boom'') ?st = (r, st')"
    by (meson surj_pair)
  from try_fail_workflow_single_winner [OF w r, of 0 "workflow_error_new ''x''"] r
  show ?thesis by simp
qed

text \<open>
  History rollover: \<open>continue_as_new\<close> on a live workflow, with a fresh identifier, closes the
  old one as \<open>ContinuedAsNew\<close> with a pointer to the new one, an empty log and no snapshots, and
  creates a running one whose log is the start event and whose latest snapshot is the carried
  state at sequence 0; a finished workflow is refused and nothing changes.
\<close>

theorem continue_as_new_rollover:
  assumes "hm_get (workflows st) old = Some w" and "new \<noteq> old"
    and "hm_get (snapshots st) new = None"
    and "continue_as_new t0 now new old wt inp data st = (r, st')"
  shows "(if status_is_terminal (wf_status w)
          then r = Inl (Database (AlreadyTerminal old)) \<and> st' = st
          else r = Inr new
            \<and> get_workflow_status old st' = (Inr WfContinuedAsNew, st')
            \<and> log_of st' old = Some [] \<and> load_latest_snapshot old st' = (Inr None, st')
            \<and> map_option wf_continued_as_new_id (hm_get (workflows st') old) = Some (Some new)
            \<and> get_workflow_status new st' = (Inr WfRunning, st')
            \<and> log_of st' new = Some [WorkflowStarted inp]
            \<and> (\<exists>ws. load_latest_snapshot new st' = (Inr (Some ws), st')
                 \<and> ws_sequence_num ws = 0 \<and> ws_snapshot_data ws = data))"
  using assms
  by (auto simp: continue_as_new_def Let_def wf_ops workflow_rows log_of_def)

theorem continue_as_new_rollover_witness:
  "\<exists>st'. continue_as_new 1 2 8 1 ''t'' JNull [5]
      (snd (create_workflow 0 1 ''t'' JNull (store_new None))) = (Inr 8, st')
     \<and> log_of st' 1 = Some []"
proof -
  let ?st = "snd (create_workflow 0 1 ''t'' JNull (store_new None))"
  obtain w where w: "hm_get (workflows ?st) 1 = Some w" "\<not> status_is_terminal (wf_status w)"
    by (simp add: create_workflow_def)
  obtain r st' where r: "continue_as_new 1 2 8 1 ''t'' JNull [5] ?st = (r, st')"
    by (meson surj_pair)
  have "hm_get (snapshots ?st) 8 = None" by (simp add: create_workflow_def store_new_def)
  from continue_as_new_rollover [OF w(1) _ this r] w(2) r show ?thesis by auto
qed

end
