(* ===== verification/Task_Queue.thy ===== *)
theory Task_Queue
  imports Workflow_Store
begin

text \<open>
  The task-queue half of the in-memory store (\<open>persistence/memory.rs\<close>): enqueueing with
  pending limits, claiming, heartbeats, completion, failure with retry, cancellation, the
  reclamation of stale tasks with the forward-progress guard, and the dead letter queue.
  Integer arithmetic wraps as in a release build. \<open>rng\<close> is the random source of the retry
  jitter.
\<close>

section \<open>Operations\<close>

definition max_attempts_of :: "task_state \<Rightarrow> u32" where
  "max_attempts_of t = max_attempts (ao_retry_policy (td_options (tk_definition t)))"

definition new_task :: "timestamp \<Rightarrow> task_definition \<Rightarrow> task_state" where
  "new_task now d =
     \<lparr>tk_definition = d, tk_status = TkPending, tk_attempt = 0, tk_claimed_by = None,
      tk_last_error = None, tk_error_history = [], tk_created_at = now, tk_claimed_at = None,
      tk_progress_token = None, tk_no_progress_count = 0\<rparr>"

definition pending_for :: "uuid option \<Rightarrow> (uuid, task_state) hmap \<Rightarrow> nat" where
  "pending_for wid ts =
     length (filter (\<lambda>t. td_workflow_id (tk_definition t) = wid \<and> tk_status t = TkPending)
               (hm_values ts))"

definition enqueue_task :: "timestamp \<Rightarrow> uuid \<Rightarrow> task_definition \<Rightarrow> uuid store_op" where
  "enqueue_task now task_id task st =
     (let insert = (Inr task_id, st\<lparr>tasks := hm_insert task_id (new_task now task) (tasks st)\<rparr>)
      in case td_workflow_id task of
           Some wf_id \<Rightarrow>
             (let limit = max_pending_tasks_per_workflow st;
                  pending_count = as_u32 (pending_for (Some wf_id) (tasks st))
              in if limit \<le> pending_count
                 then (Inl (TaskQueueLimitExceeded wf_id pending_count limit), st)
                 else insert)
         | None \<Rightarrow>
             (let limit = DEFAULT_MAX_PENDING_STANDALONE_TASKS;
                  pending_count = as_u32 (pending_for None (tasks st))
              in if limit \<le> pending_count
                 then (Inl (StandaloneTaskQueueLimitExceeded pending_count limit), st)
                 else insert))"

subsection \<open>Claiming\<close>

definition claimable :: "string list \<Rightarrow> task_state \<Rightarrow> bool" where
  "claimable activity_types t \<longleftrightarrow>
     tk_status t = TkPending
     \<and> td_activity_type (tk_definition t) \<in> set activity_types
     \<and> tk_attempt t < max_attempts_of t"

definition mark_claimed :: "timestamp \<Rightarrow> string \<Rightarrow> task_state \<Rightarrow> task_state" where
  "mark_claimed now worker_id t =
     t\<lparr>tk_status := TkClaimed, tk_claimed_by := Some worker_id, tk_claimed_at := Some now,
       tk_attempt := tk_attempt t + 1\<rparr>"

definition claimed_of :: "uuid \<Rightarrow> task_state \<Rightarrow> claimed_task" where
  "claimed_of task_id t =
     \<lparr>ct_id = task_id,
      ct_workflow_id = td_workflow_id (tk_definition t),
      ct_activity_id = td_activity_id (tk_definition t),
      ct_activity_type = td_activity_type (tk_definition t),
      ct_input = td_input (tk_definition t),
      ct_options = td_options (tk_definition t),
      ct_attempt = tk_attempt t,
      ct_max_attempts = max_attempts_of t\<rparr>"

fun claim_loop ::
  "timestamp \<Rightarrow> string \<Rightarrow> string list \<Rightarrow> nat \<Rightarrow> (uuid, task_state) hmap \<Rightarrow> claimed_task list
     \<Rightarrow> (uuid, task_state) hmap \<times> claimed_task list" where
  "claim_loop now worker_id activity_types max_tasks [] claimed = ([], claimed)"
| "claim_loop now worker_id activity_types max_tasks ((task_id, t) # rest) claimed =
     (if max_tasks \<le> length claimed then ((task_id, t) # rest, claimed)
      else if claimable activity_types t then
        (let t' = mark_claimed now worker_id t;
             (rest', claimed') = claim_loop now worker_id activity_types max_tasks rest
               (claimed @ [claimed_of task_id t'])
         in ((task_id, t') # rest', claimed'))
      else
        (let (rest', claimed') = claim_loop now worker_id activity_types max_tasks rest claimed
         in ((task_id, t) # rest', claimed')))"

definition claim_task ::
  "timestamp \<Rightarrow> string \<Rightarrow> string list \<Rightarrow> nat \<Rightarrow> claimed_task list store_op" where
  "claim_task now worker_id activity_types max_tasks st =
     (let (ts, claimed) = claim_loop now worker_id activity_types max_tasks (tasks st) []
      in (Inr claimed, st\<lparr>tasks := ts\<rparr>))"

subsection \<open>Outcome of a claimed task\<close>

text \<open>\<open>tasks.get_mut(&id).ok_or(TaskNotFound(id))?\<close>, as \<open>with_workflow\<close>.\<close>

definition with_task ::
  "uuid \<Rightarrow> (task_state \<Rightarrow> store_error + ('a \<times> task_state)) \<Rightarrow> 'a store_op" where
  "with_task task_id f st =
     (case hm_get (tasks st) task_id of
        None \<Rightarrow> (Inl (TaskNotFound task_id), st)
      | Some t \<Rightarrow>
          (case f t of
             Inl e \<Rightarrow> (Inl e, st)
           | Inr (r, t') \<Rightarrow>
               (Inr r, st\<lparr>tasks := hm_adjust task_id (\<lambda>_. t') (tasks st)\<rparr>)))"

definition heartbeat_task :: "uuid \<Rightarrow> string \<Rightarrow> heartbeat_response store_op" where
  "heartbeat_task task_id worker_id st =
     (case hm_get (tasks st) task_id of
        None \<Rightarrow> (Inl (TaskNotFound task_id), st)
      | Some _ \<Rightarrow> (Inr \<lparr>hb_accepted = True, hb_should_cancel = False\<rparr>, st))"

definition complete_task :: "uuid \<Rightarrow> string \<Rightarrow> json \<Rightarrow> unit store_op" where
  "complete_task task_id worker_id result =
     with_task task_id (\<lambda>t.
       if tk_status t \<noteq> TkClaimed then Inl (TaskNotOwned task_id)
       else if tk_claimed_by t \<noteq> Some worker_id then Inl (TaskNotOwned task_id)
       else Inr ((), t\<lparr>tk_status := TkCompleted\<rparr>))"

text \<open>
  The answer \<open>None\<close> is a panic while the retry delay is computed, after the row was written.
\<close>

definition fail_task_with_retry ::
  "(f64 \<Rightarrow> f64 \<Rightarrow> f64) \<Rightarrow> uuid \<Rightarrow> string \<Rightarrow> bool \<Rightarrow> task_failure_outcome option store_op" where
  "fail_task_with_retry rng task_id error retryable =
     with_task task_id (\<lambda>t.
       let t = t\<lparr>tk_error_history := tk_error_history t @ [error],
                 tk_last_error := Some error\<rparr>
       in if retryable \<and> tk_attempt t < max_attempts_of t then
            let t = t\<lparr>tk_status := TkPending, tk_claimed_by := None\<rparr>;
                delay = delay_for_attempt rng (ao_retry_policy (td_options (tk_definition t)))
                          (tk_attempt t + 1)
            in Inr (map_option (WillRetry (tk_attempt t + 1)) delay, t)
          else Inr (Some MovedToDlq, t\<lparr>tk_status := TkDead\<rparr>))"

definition fail_task ::
  "(f64 \<Rightarrow> f64 \<Rightarrow> f64) \<Rightarrow> uuid \<Rightarrow> string \<Rightarrow> task_failure_outcome option store_op" where
  "fail_task rng task_id error = fail_task_with_retry rng task_id error True"

subsection \<open>Turns and cancellation\<close>

definition of_workflow :: "uuid \<Rightarrow> task_state \<Rightarrow> bool" where
  "of_workflow wid t \<longleftrightarrow> td_workflow_id (tk_definition t) = Some wid"

definition cancel_if_pending :: "uuid \<Rightarrow> task_state \<Rightarrow> task_state" where
  "cancel_if_pending wid t =
     (if of_workflow wid t \<and> tk_status t = TkPending then t\<lparr>tk_status := TkCancelled\<rparr> else t)"

text \<open>
  \<open>try_claim_workflow_for_new_turn\<close> runs in three critical sections, one per lock it takes:
  the check for claimed tasks, the claim of the workflow row, the cancellation of stale tasks.
\<close>

definition turn_has_claimed_task :: "uuid \<Rightarrow> store \<Rightarrow> bool" where
  "turn_has_claimed_task wid st =
     list_ex (\<lambda>t. of_workflow wid t \<and> tk_status t = TkClaimed) (hm_values (tasks st))"

definition turn_claim_row :: "timestamp \<Rightarrow> uuid \<Rightarrow> bool store_op" where
  "turn_claim_row now wid =
     with_workflow wid (\<lambda>w.
       if wf_status w = WfRunning then Inr (False, w)
       else Inr (True, w\<lparr>wf_status := WfRunning, wf_result := None, wf_error := None,
                         wf_started_at := Some now, wf_completed_at := None\<rparr>))"

definition turn_cancel_stale :: "uuid \<Rightarrow> store \<Rightarrow> store" where
  "turn_cancel_stale wid st = st\<lparr>tasks := hm_map (cancel_if_pending wid) (tasks st)\<rparr>"

definition try_claim_workflow_for_new_turn :: "timestamp \<Rightarrow> uuid \<Rightarrow> bool store_op" where
  "try_claim_workflow_for_new_turn now wid st =
     (if turn_has_claimed_task wid st then (Inr False, st)
      else bind_op (turn_claim_row now wid) (\<lambda>won st.
        if won then (Inr True, turn_cancel_stale wid st) else (Inr False, st)) st)"

definition cancel_pending_tasks_for_workflow :: "uuid \<Rightarrow> nat store_op" where
  "cancel_pending_tasks_for_workflow wid st =
     (Inr (length (filter (\<lambda>t. of_workflow wid t \<and> tk_status t = TkPending)
                     (hm_values (tasks st)))),
      st\<lparr>tasks := hm_map (cancel_if_pending wid) (tasks st)\<rparr>)"

definition info_of :: "uuid \<Rightarrow> task_state \<Rightarrow> task_info" where
  "info_of task_id t =
     \<lparr>ti_id = task_id,
      ti_workflow_id = td_workflow_id (tk_definition t),
      ti_activity_id = td_activity_id (tk_definition t),
      ti_activity_type = td_activity_type (tk_definition t),
      ti_status = tk_status t,
      ti_priority = ao_priority (td_options (tk_definition t)),
      ti_attempt = tk_attempt t,
      ti_max_attempts = max_attempts_of t,
      ti_claimed_by = tk_claimed_by t,
      ti_last_error = tk_last_error t,
      ti_created_at = tk_created_at t,
      ti_claimed_at = tk_claimed_at t\<rparr>"

definition get_task :: "uuid \<Rightarrow> task_info store_op" where
  "get_task task_id st =
     (case hm_get (tasks st) task_id of
        None \<Rightarrow> (Inl (TaskNotFound task_id), st)
      | Some t \<Rightarrow> (Inr (info_of task_id t), st))"

subsection \<open>Reclamation of stale tasks\<close>

definition highest_progress_seq :: "workflow_event list \<Rightarrow> int" where
  "highest_progress_seq es =
     (let hits = filter (\<lambda>(_, e). event_type_name e \<noteq> ''activity_started'') (enumerate 0 es)
      in if hits = [] then -1 else int (fst (last hits)))"

definition progress_token_of :: "store \<Rightarrow> uuid \<Rightarrow> int" where
  "progress_token_of st wid =
     (case hm_get (workflows st) wid of
        Some w \<Rightarrow> highest_progress_seq (wf_events w)
      | None \<Rightarrow> -1) + 1"

definition unresponsive_message :: string where
  "unresponsive_message = ''Worker became unresponsive after exhausting all retry attempts''"

definition sealed_message :: "u32 \<Rightarrow> string" where
  "sealed_message n =
     ''Turn sealed: no forward progress across '' @ show_nat (unat n)
     @ '' consecutive recoveries (EVE-534)''"

datatype reclaim_effect =
    NotReclaimed
  | Reclaimed
  | Died dead_task_info
  | Sealed sealed_task_info

definition reclaim_one ::
  "u32 \<Rightarrow> (uuid \<Rightarrow> int) \<Rightarrow> uuid \<Rightarrow> task_state \<Rightarrow> task_state \<times> reclaim_effect" where
  "reclaim_one threshold token task_id t =
     (if tk_status t \<noteq> TkClaimed then (t, NotReclaimed)
      else if max_attempts_of t \<le> tk_attempt t then
        let error = (case tk_last_error t of Some e \<Rightarrow> e | None \<Rightarrow> unresponsive_message)
        in (t\<lparr>tk_status := TkDead, tk_last_error := Some error\<rparr>,
            Died \<lparr>dt_task_id = task_id,
                  dt_workflow_id = td_workflow_id (tk_definition t),
                  dt_activity_id = td_activity_id (tk_definition t),
                  dt_activity_type = td_activity_type (tk_definition t),
                  dt_input = td_input (tk_definition t),
                  dt_last_error = Some error\<rparr>)
      else
        case td_workflow_id (tk_definition t) of
          None \<Rightarrow>
            (t\<lparr>tk_no_progress_count := 0, tk_status := TkPending, tk_claimed_by := None,
               tk_claimed_at := None\<rparr>, Reclaimed)
        | Some wf_id \<Rightarrow>
            let cur_token = token wf_id;
                prev = (case tk_progress_token t of Some p \<Rightarrow> p | None \<Rightarrow> 0);
                count = (if prev < cur_token then 0 else tk_no_progress_count t + 1);
                t = t\<lparr>tk_progress_token := Some cur_token, tk_no_progress_count := count\<rparr>
            in if threshold \<le> count then
                 (t\<lparr>tk_status := TkDead, tk_last_error := Some (sealed_message count),
                    tk_claimed_by := None, tk_claimed_at := None\<rparr>,
                  Sealed \<lparr>st_task_id = task_id, st_workflow_id = Some wf_id,
                          st_activity_id = td_activity_id (tk_definition t),
                          st_activity_type = td_activity_type (tk_definition t),
                          st_input = td_input (tk_definition t),
                          st_reason = ''no_progress'',
                          st_no_progress_count = count\<rparr>)
               else
                 (t\<lparr>tk_status := TkPending, tk_claimed_by := None, tk_claimed_at := None\<rparr>,
                  Reclaimed))"

definition reclaim_entries ::
  "u32 \<Rightarrow> store \<Rightarrow> (uuid \<times> task_state \<times> reclaim_effect) list" where
  "reclaim_entries threshold st =
     map (\<lambda>(task_id, t). (task_id, reclaim_one threshold (progress_token_of st) task_id t))
       (tasks st)"

definition reclaim_stale_tasks :: "string option \<Rightarrow> duration \<Rightarrow> reclaim_result store_op" where
  "reclaim_stale_tasks env_threshold stale_threshold st =
     (let threshold = no_progress_seal_threshold_from_env env_threshold;
          es = reclaim_entries threshold st
      in (Inr \<lparr>rr_reclaimed_ids =
                 concat (map (\<lambda>(i, _, eff). case eff of Reclaimed \<Rightarrow> [i] | _ \<Rightarrow> []) es),
               rr_dead_tasks =
                 concat (map (\<lambda>(_, _, eff). case eff of Died d \<Rightarrow> [d] | _ \<Rightarrow> []) es),
               rr_sealed_tasks =
                 concat (map (\<lambda>(_, _, eff). case eff of Sealed s \<Rightarrow> [s] | _ \<Rightarrow> []) es)\<rparr>,
          st\<lparr>tasks := map (\<lambda>(i, t, _). (i, t)) es\<rparr>))"

subsection \<open>Dead letter queue\<close>

definition move_to_dlq :: "timestamp \<Rightarrow> uuid \<Rightarrow> uuid \<Rightarrow> string list \<Rightarrow> unit store_op" where
  "move_to_dlq now entry_id task_id error_history st =
     (case hm_get (tasks st) task_id of
        None \<Rightarrow> (Inl (TaskNotFound task_id), st)
      | Some t \<Rightarrow>
          (Inr (),
           st\<lparr>dlq := hm_insert entry_id
                \<lparr>dq_id = entry_id, dq_original_task_id = task_id,
                 dq_workflow_id = td_workflow_id (tk_definition t),
                 dq_activity_id = td_activity_id (tk_definition t),
                 dq_activity_type = td_activity_type (tk_definition t),
                 dq_input = td_input (tk_definition t),
                 dq_attempts = tk_attempt t,
                 dq_last_error = (case tk_last_error t of Some e \<Rightarrow> e | None \<Rightarrow> []),
                 dq_error_history = error_history,
                 dq_dead_at = now\<rparr> (dlq st)\<rparr>))"

definition requeue_from_dlq :: "timestamp \<Rightarrow> uuid \<Rightarrow> uuid \<Rightarrow> uuid store_op" where
  "requeue_from_dlq now task_id dlq_id st =
     (case hm_get (dlq st) dlq_id of
        None \<Rightarrow> (Inl (TaskNotFound dlq_id), st)
      | Some entry \<Rightarrow>
          (Inr task_id,
           st\<lparr>dlq := hm_remove dlq_id (dlq st),
              tasks := hm_insert task_id
                (new_task now
                   \<lparr>td_workflow_id = dq_workflow_id entry,
                    td_activity_id = dq_activity_id entry,
                    td_activity_type = dq_activity_type entry,
                    td_input = dq_input entry,
                    td_options = activity_options_default\<rparr>) (tasks st)\<rparr>))"


section \<open>Row operations\<close>

named_theorems tk_ops \<open>definitions of the task operations on one row\<close>

declare complete_task_def [tk_ops] fail_task_with_retry_def [tk_ops] fail_task_def [tk_ops]
  heartbeat_task_def [tk_ops] get_task_def [tk_ops] with_task_def [tk_ops]

text \<open>What every task row satisfies.\<close>

definition task_ok :: "task_state \<Rightarrow> bool" where
  "task_ok t \<longleftrightarrow>
     tk_attempt t \<le> max_attempts_of t
     \<and> (tk_status t = TkClaimed \<longrightarrow>
          tk_claimed_by t \<noteq> None \<and> tk_claimed_at t \<noteq> None \<and> 0 < tk_attempt t)
     \<and> (tk_status t = TkPending \<longrightarrow> tk_claimed_by t = None)"

definition tasks_ok :: "store \<Rightarrow> bool" where
  "tasks_ok st \<longleftrightarrow> hm_wf (tasks st) \<and> hm_all task_ok (tasks st)"

text \<open>The entries a claim takes: the first \<open>n\<close> claimable ones in iteration order.\<close>

definition claim_picks ::
  "string list \<Rightarrow> nat \<Rightarrow> (uuid, task_state) hmap \<Rightarrow> (uuid, task_state) hmap" where
  "claim_picks tys n es = take n (filter (\<lambda>(_, t). claimable tys t) es)"

text \<open>A task and a queue for the examples below.\<close>

definition sample_definition :: "uuid option \<Rightarrow> task_definition" where
  "sample_definition wid =
     \<lparr>td_workflow_id = wid, td_activity_id = ''a'', td_activity_type = ''act'', td_input = JNull,
      td_options = activity_options_default\<rparr>"

definition sample_queue :: "(uuid \<times> task_state) list \<Rightarrow> store" where
  "sample_queue ts = (store_new None)\<lparr>tasks := ts\<rparr>"

lemma definition_simps [simp]:
  "tk_definition (mark_claimed now w t) = tk_definition t"
  "tk_definition (cancel_if_pending wid t) = tk_definition t"
  "tk_definition (fst (reclaim_one th tok i t)) = tk_definition t"
  by (simp_all add: mark_claimed_def cancel_if_pending_def reclaim_one_def Let_def
      split: option.splits)

lemma max_attempts_of_step [simp]:
  "max_attempts_of (mark_claimed now w t) = max_attempts_of t"
  "max_attempts_of (cancel_if_pending wid t) = max_attempts_of t"
  "max_attempts_of (fst (reclaim_one th tok i t)) = max_attempts_of t"
  by (simp_all add: max_attempts_of_def)

lemma max_attempts_of_update [simp]:
  "max_attempts_of (t\<lparr>tk_status := a\<rparr>) = max_attempts_of t"
  "max_attempts_of (t\<lparr>tk_error_history := b\<rparr>) = max_attempts_of t"
  "max_attempts_of (t\<lparr>tk_last_error := c\<rparr>) = max_attempts_of t"
  "max_attempts_of (t\<lparr>tk_claimed_by := c\<rparr>) = max_attempts_of t"
  "max_attempts_of (t\<lparr>tk_claimed_at := d\<rparr>) = max_attempts_of t"
  "max_attempts_of (t\<lparr>tk_progress_token := p\<rparr>) = max_attempts_of t"
  "max_attempts_of (t\<lparr>tk_no_progress_count := n\<rparr>) = max_attempts_of t"
  "max_attempts_of (t\<lparr>tk_attempt := n\<rparr>) = max_attempts_of t"
  by (simp_all add: max_attempts_of_def)

lemma task_ok_new [simp]: "task_ok (new_task now d)"
  by (simp add: task_ok_def new_task_def)

lemma task_ok_claim: "task_ok t \<Longrightarrow> claimable tys t \<Longrightarrow> task_ok (mark_claimed now w t)"
  using less_succ_below [of "tk_attempt t" "max_attempts_of t"]
  by (auto simp: task_ok_def claimable_def succ_below_le mark_claimed_def
      intro: le_less_trans [OF word_zero_le])

lemma task_ok_cancel: "task_ok t \<Longrightarrow> task_ok (cancel_if_pending wid t)"
  by (simp add: task_ok_def cancel_if_pending_def)

lemma task_ok_reclaim: "task_ok t \<Longrightarrow> task_ok (fst (reclaim_one th tok i t))"
  by (auto simp: task_ok_def reclaim_one_def Let_def split: option.splits)

lemma with_task_ok:
  assumes "\<And>t r t'. f t = Inr (r, t') \<Longrightarrow> task_ok t \<Longrightarrow> task_ok t'"
  shows "preserves tasks_ok (with_task i f)"
proof
  fix st assume ok: "tasks_ok st"
  show "tasks_ok (snd (with_task i f st))"
  proof (cases "hm_get (tasks st) i")
    case None
    with ok show ?thesis by (simp add: with_task_def)
  next
    case (Some t)
    with ok have "task_ok t" by (auto simp: tasks_ok_def dest: hm_allD)
    with Some ok assms show ?thesis
      by (auto simp: with_task_def tasks_ok_def split: sum.splits)
  qed
qed

section \<open>Claiming\<close>

lemma claim_loop_claimed:
  "snd (claim_loop now w tys mx es acc)
    = acc @ map (\<lambda>(i, t). claimed_of i (mark_claimed now w t))
              (claim_picks tys (mx - length acc) es)"
proof (induction now w tys mx es acc rule: claim_loop.induct)
  case (2 now w tys mx i t rest acc)
  show ?case
  proof (cases "mx \<le> length acc")
    case True
    then show ?thesis by (simp add: claim_picks_def)
  next
    case False
    then obtain k where "mx - length acc = Suc k" "mx - Suc (length acc) = k"
      by (metis Suc_diff_Suc not_le)
    with False 2 show ?thesis
      by (cases "claimable tys t") (auto simp: claim_picks_def Let_def case_prod_beta)
  qed
qed (simp add: claim_picks_def)

lemma claim_picks_keys: "fst ` set (claim_picks tys n es) \<subseteq> fst ` set es"
  by (auto simp: claim_picks_def dest!: in_set_takeD)

lemma claim_loop_table:
  "hm_wf es \<Longrightarrow> fst (claim_loop now w tys mx es acc)
    = map (\<lambda>(i, t). (i, if i \<in> fst ` set (claim_picks tys (mx - length acc) es)
                         then mark_claimed now w t else t)) es"
proof (induction now w tys mx es acc rule: claim_loop.induct)
  case (2 now w tys mx i t rest acc)
  then have fresh: "i \<notin> fst ` set rest" and wf: "hm_wf rest"
    by (auto simp: hm_wf_def)
  then have out: "i \<notin> fst ` set (claim_picks tys n rest)" for n
    using claim_picks_keys [of tys n rest] by blast
  show ?case
  proof (cases "mx \<le> length acc")
    case True
    then show ?thesis by (simp add: claim_picks_def map_idI case_prod_beta)
  next
    case False
    then obtain k where k: "mx - length acc = Suc k" "mx - Suc (length acc) = k"
      by (metis Suc_diff_Suc not_le)
    show ?thesis
    proof (cases "claimable tys t")
      case True
      then have "claim_picks tys (Suc k) ((i, t) # rest) = (i, t) # claim_picks tys k rest"
        by (simp add: claim_picks_def)
      with False True k fresh wf 2 show ?thesis
        by (auto simp: Let_def case_prod_beta intro!: map_cong)
    next
      case nc: False
      then have "claim_picks tys n ((i, t) # rest) = claim_picks tys n rest" for n
        by (simp add: claim_picks_def)
      with False nc k out wf 2 show ?thesis
        by (simp add: Let_def case_prod_beta)
    qed
  qed
qed simp

lemma claim_task_eq:
  "hm_wf (tasks st) \<Longrightarrow> claim_task now w tys mx st
    = (Inr (map (\<lambda>(i, t). claimed_of i (mark_claimed now w t)) (claim_picks tys mx (tasks st))),
       st\<lparr>tasks := map (\<lambda>(i, t). (i, if i \<in> fst ` set (claim_picks tys mx (tasks st))
                                     then mark_claimed now w t else t)) (tasks st)\<rparr>)"
  using claim_loop_claimed [of now w tys mx "tasks st" "[]"]
    claim_loop_table [of "tasks st" now w tys mx "[]"]
  by (simp add: claim_task_def case_prod_beta)

lemma claim_picks_in: "(i, t) \<in> set (claim_picks tys n es) \<Longrightarrow> (i, t) \<in> set es \<and> claimable tys t"
  by (auto simp: claim_picks_def dest!: in_set_takeD)

lemma claim_picks_distinct: "hm_wf es \<Longrightarrow> distinct (map fst (claim_picks tys n es))"
  by (simp add: claim_picks_def hm_wf_def distinct_map_filter flip: take_map)

lemma claim_picks_all:
  "length (claim_picks tys n es) < n \<Longrightarrow> (i, t) \<in> set es \<Longrightarrow> claimable tys t
    \<Longrightarrow> (i, t) \<in> set (claim_picks tys n es)"
  by (auto simp: claim_picks_def)

lemma get_map_if:
  "hm_get (map (\<lambda>(i, t). (i, if Q i then f t else t)) m) k
    = map_option (\<lambda>t. if Q k then f t else t) (hm_get m k)"
  by (induction m) (auto simp: hm_get_def)

lemma claim_task_get:
  "hm_wf (tasks st) \<Longrightarrow> hm_get (tasks (snd (claim_task now w tys mx st))) i
    = map_option (\<lambda>t. if i \<in> fst ` set (claim_picks tys mx (tasks st))
                      then mark_claimed now w t else t) (hm_get (tasks st) i)"
  by (simp add: claim_task_eq get_map_if)

lemma claim_task_keys [simp]:
  "hm_wf (tasks st) \<Longrightarrow> map fst (tasks (snd (claim_task now w tys mx st))) = map fst (tasks st)"
  by (simp add: claim_task_eq comp_def case_prod_beta)

lemma claim_task_ok [preserves_intros]: "preserves tasks_ok (claim_task now w tys mx)"
proof
  fix st assume ok: "tasks_ok st"
  then have wf: "hm_wf (tasks st)" by (simp add: tasks_ok_def)
  then have "hm_wf (tasks (snd (claim_task now w tys mx st)))"
    by (simp add: hm_wf_def)
  moreover have "task_ok t'" if "hm_get (tasks (snd (claim_task now w tys mx st))) i = Some t'" for i t'
  proof -
    from that wf obtain t where t: "hm_get (tasks st) i = Some t"
      "t' = (if i \<in> fst ` set (claim_picks tys mx (tasks st)) then mark_claimed now w t else t)"
      by (auto simp: claim_task_get)
    with ok have "task_ok t" by (auto simp: tasks_ok_def dest: hm_allD)
    moreover have "claimable tys t" if "i \<in> fst ` set (claim_picks tys mx (tasks st))"
      using that t(1) wf by (auto simp: hm_wf_in_iff dest!: claim_picks_in)
    ultimately show ?thesis using t(2) by (auto intro: task_ok_claim)
  qed
  ultimately show "tasks_ok (snd (claim_task now w tys mx st))"
    by (simp add: tasks_ok_def hm_all_get)
qed

section \<open>The other operations\<close>

lemma tasks_ok_insert:
  "tasks_ok st \<Longrightarrow> tasks_ok (st\<lparr>tasks := hm_insert i (new_task now d) (tasks st)\<rparr>)"
  by (auto simp: tasks_ok_def)

lemma enqueue_task_ok [preserves_intros]: "preserves tasks_ok (enqueue_task now i d)"
  by (rule preservesI)
    (simp add: enqueue_task_def Let_def tasks_ok_insert split: option.splits)

lemma complete_task_ok [preserves_intros]: "preserves tasks_ok (complete_task i w r)"
  unfolding complete_task_def by (rule with_task_ok) (auto simp: task_ok_def split: if_splits)

lemma fail_task_with_retry_ok [preserves_intros]:
  "preserves tasks_ok (fail_task_with_retry rng i e b)"
  unfolding fail_task_with_retry_def
  by (rule with_task_ok) (auto simp: task_ok_def Let_def split: if_splits)

lemma hm_map_ok:
  "tasks_ok st \<Longrightarrow> tasks_ok (st\<lparr>tasks := hm_map (cancel_if_pending wid) (tasks st)\<rparr>)"
  by (auto simp: tasks_ok_def intro: hm_all_map task_ok_cancel)

lemma cancel_pending_ok [preserves_intros]:
  "preserves tasks_ok (cancel_pending_tasks_for_workflow wid)"
  by (rule preservesI) (simp add: cancel_pending_tasks_for_workflow_def hm_map_ok)

lemma with_workflow_tasks [simp]: "tasks (snd (with_workflow wid f st)) = tasks st"
  by (simp add: with_workflow_def split: option.splits sum.splits)

lemma with_workflow_tasks_ok [preserves_intros]: "preserves tasks_ok (with_workflow wid f)"
  by (rule preservesI) (simp add: tasks_ok_def)

lemma try_claim_ok [preserves_intros]: "preserves tasks_ok (try_claim_workflow_for_new_turn now wid)"
proof -
  have "preserves tasks_ok (bind_op (turn_claim_row now wid) (\<lambda>won st.
        if won then (Inr True, turn_cancel_stale wid st) else (Inr False, st)))"
    unfolding turn_claim_row_def
    by (intro preserves_bind with_workflow_tasks_ok preservesI)
      (simp add: turn_cancel_stale_def hm_map_ok)
  then show ?thesis
    by (simp add: preserves_def try_claim_workflow_for_new_turn_def)
qed

lemma get_map_key: "hm_get (map (\<lambda>(i, t). (i, f i t)) m) k = map_option (f k) (hm_get m k)"
  by (induction m) (auto simp: hm_get_def)

lemma reclaim_tasks:
  "tasks (snd (reclaim_stale_tasks env d st))
    = map (\<lambda>(i, t). (i, fst (reclaim_one (no_progress_seal_threshold_from_env env)
                               (progress_token_of st) i t))) (tasks st)"
  by (simp add: reclaim_stale_tasks_def reclaim_entries_def Let_def comp_def case_prod_beta)

lemma reclaim_get:
  "hm_get (tasks (snd (reclaim_stale_tasks env d st))) i
    = map_option (\<lambda>t. fst (reclaim_one (no_progress_seal_threshold_from_env env)
                             (progress_token_of st) i t)) (hm_get (tasks st) i)"
  by (simp add: reclaim_tasks get_map_key)

lemma reclaim_workflows [simp]: "workflows (snd (reclaim_stale_tasks env d st)) = workflows st"
  by (simp add: reclaim_stale_tasks_def Let_def)

lemma reclaim_ok [preserves_intros]: "preserves tasks_ok (reclaim_stale_tasks env d)"
proof
  fix st assume ok: "tasks_ok st"
  have "hm_wf (tasks (snd (reclaim_stale_tasks env d st)))"
    using ok by (simp add: reclaim_tasks tasks_ok_def hm_wf_def comp_def case_prod_beta)
  with ok show "tasks_ok (snd (reclaim_stale_tasks env d st))"
    by (auto simp: tasks_ok_def hm_all_get reclaim_get intro: task_ok_reclaim)
qed

lemma move_to_dlq_ok [preserves_intros]: "preserves tasks_ok (move_to_dlq now e i h)"
  by (rule preservesI) (simp add: move_to_dlq_def tasks_ok_def split: option.splits)

lemma requeue_from_dlq_ok [preserves_intros]: "preserves tasks_ok (requeue_from_dlq now i d)"
  by (rule preservesI)
    (auto simp: requeue_from_dlq_def tasks_ok_def split: option.splits)

lemma mark_claimed_fields [simp]:
  "tk_status (mark_claimed now w t) = TkClaimed"
  "tk_claimed_by (mark_claimed now w t) = Some w"
  "tk_attempt (mark_claimed now w t) = tk_attempt t + 1"
  "tk_no_progress_count (mark_claimed now w t) = tk_no_progress_count t"
  "tk_progress_token (mark_claimed now w t) = tk_progress_token t"
  by (simp_all add: mark_claimed_def)

lemma reclaim_one_not_claimed:
  "tk_status (fst (reclaim_one th tok i t)) \<noteq> TkClaimed"
  by (simp add: reclaim_one_def Let_def split: option.splits)

lemma filter_insert_fresh:
  "hm_get m k = None \<Longrightarrow> hm_values (hm_insert k v m) = hm_values m @ [v]"
  by (induction m) (auto simp: hm_get_def hm_insert_def hm_values_def split: if_splits)

section \<open>Properties\<close>

text \<open>
  C12. What \<open>claim_task\<close> hands out: at most \<open>max_tasks\<close> tasks, distinct, each one pending, of a
  requested activity type and below its attempt limit before; after it, the task is claimed by
  the caller with its attempt counter one higher (the counter does not wrap) and still within
  the limit; no other task changes. If fewer than \<open>max_tasks\<close> come back, no claimable task was
  left behind. This holds for every iteration order of the task table.
\<close>

theorem claim_task_sound:
  assumes "hm_wf (tasks st)" and "claim_task now w tys mx st = (r, st')"
  shows "\<exists>cs. r = Inr cs \<and> length cs \<le> mx \<and> distinct (map ct_id cs)
    \<and> (\<forall>c \<in> set cs. \<exists>t. hm_get (tasks st) (ct_id c) = Some t \<and> claimable tys t
          \<and> hm_get (tasks st') (ct_id c) = Some (mark_claimed now w t)
          \<and> unat (ct_attempt c) = Suc (unat (tk_attempt t)) \<and> ct_attempt c \<le> ct_max_attempts c)
    \<and> (\<forall>i. i \<notin> ct_id ` set cs \<longrightarrow> hm_get (tasks st') i = hm_get (tasks st) i)
    \<and> (length cs < mx \<longrightarrow>
         (\<forall>i t. hm_get (tasks st') i = Some t \<longrightarrow> \<not> claimable tys t))"
proof -
  let ?p = "claim_picks tys mx (tasks st)"
  let ?cs = "map (\<lambda>(i, t). claimed_of i (mark_claimed now w t)) ?p"
  have ids: "map ct_id ?cs = map fst ?p"
    by (simp add: claimed_of_def comp_def case_prod_beta)
  then have idset: "ct_id ` set ?cs = fst ` set ?p" by (metis image_set)
  have r: "r = Inr ?cs" and get: "\<And>i. hm_get (tasks st') i = map_option (\<lambda>t.
      if i \<in> fst ` set ?p then mark_claimed now w t else t) (hm_get (tasks st) i)"
    using assms claim_task_get [OF assms(1), of now w tys mx]
    by (simp_all add: claim_task_eq [OF assms(1)])
  have picked: "hm_get (tasks st) i = Some t \<and> claimable tys t" if "(i, t) \<in> set ?p" for i t
    using claim_picks_in [OF that] hm_get_in [OF assms(1)] by auto
  have one: "\<exists>t. hm_get (tasks st) (ct_id c) = Some t \<and> claimable tys t
          \<and> hm_get (tasks st') (ct_id c) = Some (mark_claimed now w t)
          \<and> unat (ct_attempt c) = Suc (unat (tk_attempt t)) \<and> ct_attempt c \<le> ct_max_attempts c"
    if "c \<in> set ?cs" for c
  proof -
    from that obtain i t where it: "(i, t) \<in> set ?p" "c = claimed_of i (mark_claimed now w t)"
      by auto
    with picked [OF it(1)] get [of i] show ?thesis
      by (force simp: claimed_of_def claimable_def mark_claimed_def unat_succ_below succ_below_le)
  qed
  have rest: "\<not> claimable tys t" if "length ?cs < mx" "hm_get (tasks st') i = Some t" for i t
  proof
    assume c: "claimable tys t"
    from that get [of i] obtain t0 where t0: "hm_get (tasks st) i = Some t0"
      "t = (if i \<in> fst ` set ?p then mark_claimed now w t0 else t0)" by auto
    with c have "t = t0" "i \<notin> fst ` set ?p"
      by (auto simp: claimable_def mark_claimed_def split: if_splits)
    moreover have "(i, t0) \<in> set ?p" if "claimable tys t0"
      using claim_picks_all [of tys mx "tasks st" i t0] that \<open>length ?cs < mx\<close>
        hm_get_Some_in [OF t0(1)] by simp
    ultimately show False using c by force
  qed
  have "length ?cs \<le> mx" by (simp add: claim_picks_def)
  moreover have "distinct (map ct_id ?cs)"
    unfolding ids using assms(1) by (rule claim_picks_distinct)
  moreover have "hm_get (tasks st') i = hm_get (tasks st) i" if "i \<notin> ct_id ` set ?cs" for i
    using that get [of i] unfolding idset by (cases "hm_get (tasks st) i") auto
  ultimately show ?thesis using r one rest by blast
qed

theorem claim_task_sound_witness:
  "\<exists>cs. fst (claim_task 5 ''w'' [''act''] 2
        (sample_queue [(2, new_task 0 (sample_definition None)),
                       (3, new_task 0 (sample_definition None))])) = Inr cs
     \<and> distinct (map ct_id cs) \<and> length cs \<le> 2"
proof -
  let ?q = "sample_queue [(2, new_task 0 (sample_definition None)),
                          (3, new_task 0 (sample_definition None))]"
  have wf: "hm_wf (tasks ?q)" by (simp add: hm_wf_def sample_queue_def)
  show ?thesis
    using claim_task_sound [OF wf prod.collapse [symmetric, of "claim_task 5 ''w'' [''act''] 2 ?q"]]
    by blast
qed

text \<open>
  Exclusive claims: two workers that claim one after the other never get the same task, and
  what the first one got is still its own after the second claim.
\<close>

theorem claim_task_exclusive:
  assumes "hm_wf (tasks st)"
    and "claim_task n1 w1 tys1 m1 st = (Inr c1, st1)"
    and "claim_task n2 w2 tys2 m2 st1 = (Inr c2, st2)"
  shows "ct_id ` set c1 \<inter> ct_id ` set c2 = {}
    \<and> (\<forall>c \<in> set c1. \<exists>t. hm_get (tasks st2) (ct_id c) = Some t
          \<and> tk_status t = TkClaimed \<and> tk_claimed_by t = Some w1)"
proof -
  have ids: "ct_id ` set c1 = fst ` set (claim_picks tys1 m1 (tasks st))"
    using assms(2) by (force simp: claim_task_eq [OF assms(1)] claimed_of_def)
  have wf1: "hm_wf (tasks st1)"
    using assms(1,2) by (metis claim_task_keys hm_wf_def snd_conv)
  have ids2: "ct_id ` set c2 = fst ` set (claim_picks tys2 m2 (tasks st1))"
    using assms(3) by (force simp: claim_task_eq [OF wf1] claimed_of_def)
  have owned: "\<exists>t. hm_get (tasks st1) i = Some (mark_claimed n1 w1 t)" if "i \<in> ct_id ` set c1" for i
  proof -
    from that ids obtain t where "(i, t) \<in> set (claim_picks tys1 m1 (tasks st))" by auto
    with claim_picks_in [OF this] assms(1) that ids claim_task_get [OF assms(1), of n1 w1 tys1 m1 i]
      assms(2) show ?thesis by (auto simp: hm_wf_in_iff)
  qed
  moreover have "i \<notin> ct_id ` set c2" if "hm_get (tasks st1) i = Some (mark_claimed n1 w1 t)" for i t
    using that wf1 unfolding ids2
    by (auto simp: hm_wf_in_iff claimable_def mark_claimed_def dest!: claim_picks_in)
  ultimately have disj: "ct_id ` set c1 \<inter> ct_id ` set c2 = {}" by blast
  moreover have "\<exists>t. hm_get (tasks st2) (ct_id c) = Some t
      \<and> tk_status t = TkClaimed \<and> tk_claimed_by t = Some w1" if "c \<in> set c1" for c
  proof -
    from that disj ids2 have "ct_id c \<notin> fst ` set (claim_picks tys2 m2 (tasks st1))" by blast
    with owned [of "ct_id c"] that claim_task_get [OF wf1, of n2 w2 tys2 m2 "ct_id c"] assms(3)
    show ?thesis by auto
  qed
  ultimately show ?thesis by blast
qed

theorem claim_task_exclusive_witness:
  "\<exists>c1 c2 st1 st2.
     claim_task 5 ''w'' [''act''] 1 (sample_queue [(2, new_task 0 (sample_definition None)),
                                                   (3, new_task 0 (sample_definition None))])
       = (Inr c1, st1)
     \<and> claim_task 6 ''v'' [''act''] 2 st1 = (Inr c2, st2) \<and> ct_id ` set c1 \<inter> ct_id ` set c2 = {}"
proof -
  let ?q = "sample_queue [(2, new_task 0 (sample_definition None)),
                          (3, new_task 0 (sample_definition None))]"
  have wf: "hm_wf (tasks ?q)" by (simp add: hm_wf_def sample_queue_def)
  obtain c1 st1 where 1: "claim_task 5 ''w'' [''act''] 1 ?q = (Inr c1, st1)"
    using claim_task_eq [OF wf] by blast
  have wf1: "hm_wf (tasks st1)" using claim_task_keys [OF wf] wf 1 by (metis hm_wf_def snd_conv)
  obtain c2 st2 where 2: "claim_task 6 ''v'' [''act''] 2 st1 = (Inr c2, st2)"
    using claim_task_eq [OF wf1] by blast
  from claim_task_exclusive [OF wf 1 2] 1 2 show ?thesis by blast
qed

text \<open>
  C32. Ownership: a completion is accepted exactly from the worker that holds the claim. After
  the reclamation sweep a task is no longer claimed, so the completion its former worker still
  sends is refused with \<open>TaskNotOwned\<close> and changes nothing, and so is one sent after another
  worker has claimed the task again.
\<close>

theorem complete_task_ownership:
  assumes "hm_wf (tasks st)" and "hm_get (tasks st) i = Some t"
    and "tk_status t = TkClaimed" and "tk_claimed_by t = Some w"
    and "st1 = snd (reclaim_stale_tasks env d st)" and "w' \<noteq> w"
    and "st2 = snd (claim_task now w' tys mx st1)"
  shows "complete_task i v r st
      = (if v = w then (Inr (), st\<lparr>tasks := hm_adjust i (\<lambda>_. t\<lparr>tk_status := TkCompleted\<rparr>) (tasks st)\<rparr>)
         else (Inl (TaskNotOwned i), st))
    \<and> complete_task i w r st1 = (Inl (TaskNotOwned i), st1)
    \<and> complete_task i w r st2 = (Inl (TaskNotOwned i), st2)"
proof -
  let ?t1 = "fst (reclaim_one (no_progress_seal_threshold_from_env env) (progress_token_of st) i t)"
  have t1: "hm_get (tasks st1) i = Some ?t1"
    using assms(2,5) by (simp add: reclaim_get)
  have wf1: "hm_wf (tasks st1)"
    using assms(1,5) by (simp add: reclaim_tasks hm_wf_def comp_def case_prod_beta)
  from t1 wf1 assms(7) have "hm_get (tasks st2) i = Some ?t1
      \<or> hm_get (tasks st2) i = Some (mark_claimed now w' ?t1)"
    by (simp add: claim_task_get)
  then have "complete_task i w r st2 = (Inl (TaskNotOwned i), st2)"
    using assms(6) reclaim_one_not_claimed [of _ _ i t]
    by (auto simp: tk_ops mark_claimed_def)
  moreover have "complete_task i w r st1 = (Inl (TaskNotOwned i), st1)"
    using t1 reclaim_one_not_claimed [of _ _ i t] by (simp add: tk_ops)
  ultimately show ?thesis using assms(2-4) by (simp add: tk_ops)
qed


theorem complete_task_ownership_witness:
  "fst (complete_task 2 ''w'' JNull
      (snd (reclaim_stale_tasks None 0
         (sample_queue [(2, mark_claimed 5 ''w'' (new_task 0 (sample_definition None)))]))))
     = Inl (TaskNotOwned 2)"
proof -
  let ?t = "mark_claimed 5 ''w'' (new_task 0 (sample_definition None))"
  have wf: "hm_wf (tasks (sample_queue [(2, ?t)]))" by (simp add: hm_wf_def sample_queue_def)
  have g: "hm_get (tasks (sample_queue [(2, ?t)])) 2 = Some ?t"
    by (simp add: sample_queue_def hm_get_def)
  from complete_task_ownership [OF wf g _ _ refl, where w = "''w''" and w' = "''v''"
      and env = None and d = 0 and r = JNull]
  show ?thesis by simp
qed

lemma cancel_if_pending_simps [simp]:
  "of_workflow wid (cancel_if_pending v t) = of_workflow wid t"
  "of_workflow wid t \<Longrightarrow> tk_status (cancel_if_pending wid t) \<noteq> TkPending"
  "\<not> of_workflow wid t \<Longrightarrow> cancel_if_pending wid t = t"
  by (simp_all add: of_workflow_def cancel_if_pending_def)

lemma reclaim_entry_in:
  "hm_get (tasks st) i = Some t \<Longrightarrow> reclaim_one th (progress_token_of st) i t = (t', eff)
    \<Longrightarrow> (i, t', eff) \<in> set (reclaim_entries th st)"
  by (force simp: reclaim_entries_def dest!: hm_get_Some_in)

lemma reclaim_reports:
  assumes "fst (reclaim_stale_tasks env d st) = Inr rr"
    and "(i, t', eff) \<in> set (reclaim_entries (no_progress_seal_threshold_from_env env) st)"
  shows "eff = Reclaimed \<Longrightarrow> i \<in> set (rr_reclaimed_ids rr)"
    and "eff = Sealed s \<Longrightarrow> s \<in> set (rr_sealed_tasks rr)"
    and "eff = Died dead \<Longrightarrow> dead \<in> set (rr_dead_tasks rr)"
  using assms by (force simp: reclaim_stale_tasks_def Let_def)+

lemma reclaim_one_turn:
  assumes "tk_status t = TkClaimed" and "tk_attempt t < max_attempts_of t"
    and "td_workflow_id (tk_definition t) = Some wid"
    and "n = (if (case tk_progress_token t of Some p \<Rightarrow> p | None \<Rightarrow> 0) < token wid then 0
              else tk_no_progress_count t + 1)"
  shows "reclaim_one th token i t =
    (if th \<le> n then
       (t\<lparr>tk_progress_token := Some (token wid), tk_no_progress_count := n, tk_status := TkDead,
          tk_last_error := Some (sealed_message n), tk_claimed_by := None, tk_claimed_at := None\<rparr>,
        Sealed \<lparr>st_task_id = i, st_workflow_id = Some wid,
          st_activity_id = td_activity_id (tk_definition t),
          st_activity_type = td_activity_type (tk_definition t),
          st_input = td_input (tk_definition t),
          st_reason = ''no_progress'', st_no_progress_count = n\<rparr>)
     else
       (t\<lparr>tk_progress_token := Some (token wid), tk_no_progress_count := n, tk_status := TkPending,
          tk_claimed_by := None, tk_claimed_at := None\<rparr>, Reclaimed))"
  using assms(1-3) by (simp add: reclaim_one_def Let_def assms(4) flip: not_less)

text \<open>
  Queue limits: an enqueue that succeeds leaves the workflow (or, for a standalone task,
  the standalone queue) with one more pending task, never above the limit; at the limit it is
  refused with the error that reports the count, and nothing changes. The number of pending
  tasks is assumed to fit \<open>u32\<close> and the identifier to be new.
\<close>

theorem enqueue_task_limit:
  assumes "hm_get (tasks st) i = None" and "td_workflow_id d = wid"
    and "pending_for wid (tasks st) < 2 ^ 32" and "enqueue_task now i d st = (r, st')"
    and "limit = (case wid of Some _ \<Rightarrow> max_pending_tasks_per_workflow st
                  | None \<Rightarrow> DEFAULT_MAX_PENDING_STANDALONE_TASKS)"
  shows "if pending_for wid (tasks st) < unat limit
    then r = Inr i \<and> hm_get (tasks st') i = Some (new_task now d)
      \<and> pending_for wid (tasks st') = Suc (pending_for wid (tasks st))
      \<and> pending_for wid (tasks st') \<le> unat limit
    else st' = st \<and> r = Inl (case wid of
        Some w \<Rightarrow> TaskQueueLimitExceeded w (as_u32 (pending_for wid (tasks st))) limit
      | None \<Rightarrow> StandaloneTaskQueueLimitExceeded (as_u32 (pending_for wid (tasks st))) limit)"
proof -
  have le: "limit \<le> as_u32 (pending_for wid (tasks st)) \<longleftrightarrow> unat limit \<le> pending_for wid (tasks st)"
    using assms(3) by (simp add: word_le_nat_alt)
  have "pending_for wid (hm_insert i (new_task now d) (tasks st)) = Suc (pending_for wid (tasks st))"
    using assms(1,2) by (simp add: pending_for_def filter_insert_fresh new_task_def)
  with assms le show ?thesis
    by (cases wid) (auto simp: enqueue_task_def Let_def)
qed

theorem enqueue_task_limit_witness:
  "pending_for (Some 7) (tasks (snd (enqueue_task 5 2 (sample_definition (Some 7)) (sample_queue [])))) = 1"
proof -
  have g: "hm_get (tasks (sample_queue [])) 2 = None" by (simp add: sample_queue_def)
  have p: "pending_for (Some 7) (tasks (sample_queue [])) = 0"
    by (simp add: pending_for_def sample_queue_def hm_values_def)
  have l: "max_pending_tasks_per_workflow (sample_queue []) = 100"
    by (simp add: sample_queue_def store_new_def max_pending_tasks_per_workflow_from_env_def
        DEFAULT_MAX_PENDING_TASKS_PER_WORKFLOW_def)
  from enqueue_task_limit [OF g _ _ prod.collapse [symmetric] refl,
      where d = "sample_definition (Some 7)" and wid = "Some 7"] p l
  show ?thesis by (simp add: sample_definition_def)
qed

text \<open>
  Failure of a task, on every branch: the error is appended to the history; with attempts
  left and a retryable error the task goes back to pending without an owner and the answer
  announces the next attempt, which is within the limit; otherwise the task is dead. Attempts
  are not changed, and an unknown task is \<open>TaskNotFound\<close>.
\<close>

theorem fail_task_outcome:
  assumes "fail_task_with_retry rng i e retryable st = (r, st')"
  shows "case hm_get (tasks st) i of
      None \<Rightarrow> r = Inl (TaskNotFound i) \<and> st' = st
    | Some t \<Rightarrow> (\<exists>t'. hm_get (tasks st') i = Some t'
        \<and> tk_attempt t' = tk_attempt t \<and> tk_definition t' = tk_definition t
        \<and> tk_error_history t' = tk_error_history t @ [e] \<and> tk_last_error t' = Some e
        \<and> (if retryable \<and> tk_attempt t < max_attempts_of t
           then tk_status t' = TkPending \<and> tk_claimed_by t' = None
             \<and> tk_attempt t + 1 \<le> max_attempts_of t
             \<and> r = Inr (map_option (WillRetry (tk_attempt t + 1))
                     (delay_for_attempt rng (ao_retry_policy (td_options (tk_definition t)))
                        (tk_attempt t + 1)))
           else tk_status t' = TkDead \<and> r = Inr (Some MovedToDlq)))"
proof (cases "hm_get (tasks st) i")
  case None
  with assms show ?thesis by (simp add: tk_ops)
next
  case (Some t)
  with assms show ?thesis
    by (cases "retryable \<and> tk_attempt t < max_attempts_of t")
      (auto simp: tk_ops Let_def succ_below_le)
qed

theorem fail_task_outcome_witness:
  "fst (fail_task_with_retry (\<lambda>_ _. 0) 2 ''e'' True (sample_queue [])) = Inl (TaskNotFound 2)"
  using fail_task_outcome [OF prod.collapse [symmetric],
      of "\<lambda>_ _. 0" 2 "''e''" True "sample_queue []"]
  by (simp add: sample_queue_def)

text \<open>
  The in-memory store does not check that a task it fails is still claimed (the PostgreSQL
  store answers \<open>TaskNotOwned\<close> there): a failure reported for a task that is already completed,
  cancelled, or dead, with attempts left, puts it back into the queue.
\<close>

theorem fail_task_revives_finished:
  assumes "hm_get (tasks st) i = Some t" and "tk_status t \<in> {TkCompleted, TkCancelled, TkDead}"
    and "tk_attempt t < max_attempts_of t" and "td_activity_type (tk_definition t) \<in> set tys"
  shows "\<exists>t'. hm_get (tasks (snd (fail_task rng i e st))) i = Some t' \<and> claimable tys t'"
  using assms by (auto simp: tk_ops Let_def claimable_def)

theorem fail_task_revives_finished_witness:
  "\<exists>t'. hm_get (tasks (snd (fail_task (\<lambda>_ _. 0) 2 ''late''
       (sample_queue [(2, (new_task 0 (sample_definition None))\<lparr>tk_status := TkCompleted\<rparr>)])))) 2
     = Some t' \<and> claimable [''act''] t'"
  by (rule fail_task_revives_finished
        [where t = "(new_task 0 (sample_definition None))\<lparr>tk_status := TkCompleted\<rparr>"])
    (simp_all add: sample_queue_def hm_get_def new_task_def sample_definition_def max_attempts_of_def
      activity_options_default_def retry_exponential_def)

text \<open>
  The forward-progress guard: a claimed task of a workflow, with attempts left, whose
  workflow records no progress event beyond the token seen last, goes back to pending while its
  count of fruitless recoveries is below the threshold, and is sealed (dead, unowned, reported
  with the reason \<open>no_progress\<close> and the count) at the threshold; progress resets the count, so
  only recoveries without progress in between can seal. Events \<open>activity_started\<close> are not
  progress.
\<close>

theorem reclaim_seals_without_progress:
  assumes "hm_get (tasks st) i = Some t" and "tk_status t = TkClaimed"
    and "tk_attempt t < max_attempts_of t" and "td_workflow_id (tk_definition t) = Some wid"
    and "reclaim_stale_tasks env d st = (Inr rr, st')"
    and "th = no_progress_seal_threshold_from_env env"
    and "tok = progress_token_of st wid"
    and "n = (if (case tk_progress_token t of Some p \<Rightarrow> p | None \<Rightarrow> 0) < tok then 0
              else tk_no_progress_count t + 1)"
  shows "\<exists>t'. hm_get (tasks st') i = Some t' \<and> tk_claimed_by t' = None
    \<and> tk_no_progress_count t' = n \<and> tk_progress_token t' = Some tok
    \<and> (if n < th then tk_status t' = TkPending \<and> i \<in> set (rr_reclaimed_ids rr)
       else tk_status t' = TkDead
         \<and> (\<exists>s \<in> set (rr_sealed_tasks rr). st_task_id s = i \<and> st_workflow_id s = Some wid
              \<and> st_reason s = ''no_progress'' \<and> st_no_progress_count s = n))"
proof -
  let ?one = "reclaim_one th (progress_token_of st) i t"
  have one: "?one = (if th \<le> n then
       (t\<lparr>tk_progress_token := Some tok, tk_no_progress_count := n, tk_status := TkDead,
          tk_last_error := Some (sealed_message n), tk_claimed_by := None, tk_claimed_at := None\<rparr>,
        Sealed \<lparr>st_task_id = i, st_workflow_id = Some wid,
          st_activity_id = td_activity_id (tk_definition t),
          st_activity_type = td_activity_type (tk_definition t),
          st_input = td_input (tk_definition t),
          st_reason = ''no_progress'', st_no_progress_count = n\<rparr>)
     else
       (t\<lparr>tk_progress_token := Some tok, tk_no_progress_count := n, tk_status := TkPending,
          tk_claimed_by := None, tk_claimed_at := None\<rparr>, Reclaimed))"
    using reclaim_one_turn [OF assms(2-4)] assms(7,8) by simp
  have get: "hm_get (tasks st') i = Some (fst ?one)"
    using assms(1,5,6) reclaim_get [of env d st i] by simp
  have rr: "fst (reclaim_stale_tasks env d st) = Inr rr" using assms(5) by simp
  note entry = reclaim_entry_in [OF assms(1), of th "fst ?one" "snd ?one"]
  note reports = reclaim_reports [OF rr, folded assms(6), OF entry]
  show ?thesis
  proof (cases "n < th")
    case True
    with get one reports(1) show ?thesis by (simp add: not_le)
  next
    case False
    with get one reports(2) show ?thesis by (auto simp: not_less intro!: bexI)
  qed
qed

theorem reclaim_seals_without_progress_witness:
  "\<exists>t'. hm_get (tasks (snd (reclaim_stale_tasks None 0
       (sample_queue [(2, (mark_claimed 5 ''w'' (new_task 0 (sample_definition (Some 7))))
                             \<lparr>tk_no_progress_count := 2\<rparr>)])))) 2 = Some t'
     \<and> tk_status t' = TkDead"
proof -
  let ?t = "(mark_claimed 5 ''w'' (new_task 0 (sample_definition (Some 7))))\<lparr>tk_no_progress_count := 2\<rparr>"
  let ?q = "sample_queue [(2, ?t)]"
  have g: "hm_get (tasks ?q) 2 = Some ?t" by (simp add: sample_queue_def hm_get_def)
  have a: "tk_attempt ?t < max_attempts_of ?t" "td_workflow_id (tk_definition ?t) = Some 7"
    by (simp_all add: new_task_def sample_definition_def max_attempts_of_def
        activity_options_default_def retry_exponential_def)
  have tok: "progress_token_of ?q 7 = 0" and th: "no_progress_seal_threshold_from_env None = 3"
    by (simp_all add: progress_token_of_def sample_queue_def store_new_def
        no_progress_seal_threshold_from_env_def DEFAULT_NO_PROGRESS_SEAL_THRESHOLD_def)
  obtain rr st' where r: "reclaim_stale_tasks None 0 ?q = (Inr rr, st')"
    by (simp add: reclaim_stale_tasks_def Let_def)
  have n: "(3 :: u32) = (if (case tk_progress_token ?t of Some p \<Rightarrow> p | None \<Rightarrow> 0)
      < progress_token_of ?q 7 then 0 else tk_no_progress_count ?t + 1)"
    unfolding tok by (simp add: new_task_def)
  from reclaim_seals_without_progress [OF g _ a r th [symmetric] refl n] r
  show ?thesis by auto
qed

text \<open>
  A new turn has one winner: when no task of the workflow is claimed and the workflow is not
  running, \<open>try_claim_workflow_for_new_turn\<close> succeeds, the workflow is running with its outcome
  cleared, no task of it is left pending, and tasks of other workflows are untouched; the next
  caller gets false.
\<close>

theorem new_turn_single_winner:
  assumes "hm_get (workflows st) wid = Some w" and "wf_status w \<noteq> WfRunning"
    and "\<not> turn_has_claimed_task wid st"
    and "try_claim_workflow_for_new_turn now wid st = (r, st')"
  shows "r = Inr True
    \<and> get_workflow_status wid st' = (Inr WfRunning, st')
    \<and> (\<forall>i t. hm_get (tasks st') i = Some t \<longrightarrow> of_workflow wid t \<longrightarrow> tk_status t \<noteq> TkPending)
    \<and> (\<forall>i t. hm_get (tasks st) i = Some t \<longrightarrow> \<not> of_workflow wid t \<longrightarrow> hm_get (tasks st') i = Some t)
    \<and> fst (try_claim_workflow_for_new_turn now2 wid st') = Inr False"
proof -
  let ?w' = "w\<lparr>wf_status := WfRunning, wf_result := None, wf_error := None,
      wf_started_at := Some now, wf_completed_at := None\<rparr>"
  have e: "r = Inr True"
    "st' = turn_cancel_stale wid (st\<lparr>workflows := hm_adjust wid (\<lambda>_. ?w') (workflows st)\<rparr>)"
    using assms(1-4)
    by (auto simp: try_claim_workflow_for_new_turn_def turn_claim_row_def bind_op_def workflow_rows)
  have st: "hm_get (workflows st') wid = Some ?w'"
    using assms(1) by (simp add: e(2) turn_cancel_stale_def)
  then have "fst (try_claim_workflow_for_new_turn now2 wid st') = Inr False"
    by (simp add: try_claim_workflow_for_new_turn_def turn_claim_row_def bind_op_def workflow_rows)
  moreover have "hm_get (tasks st') i = map_option (cancel_if_pending wid) (hm_get (tasks st) i)" for i
    by (simp add: e(2) turn_cancel_stale_def)
  ultimately show ?thesis
    using st e(1) by (auto simp: get_workflow_status_def workflow_rows)
qed

theorem new_turn_single_winner_witness:
  "fst (try_claim_workflow_for_new_turn 3 7 (snd (create_workflow 0 7 ''t'' JNull (store_new None))))
     = Inr True"
proof -
  let ?st = "snd (create_workflow 0 7 ''t'' JNull (store_new None))"
  obtain w where w: "hm_get (workflows ?st) 7 = Some w" "wf_status w \<noteq> WfRunning"
    by (simp add: create_workflow_def)
  have "\<not> turn_has_claimed_task 7 ?st"
    by (simp add: turn_has_claimed_task_def create_workflow_def store_new_def hm_values_def)
  from new_turn_single_winner [OF w this prod.collapse [symmetric], of 3 0] show ?thesis by simp
qed

text \<open>
  Dead letter round trip: moving a task to the dead letter queue and requeueing the entry
  gives a new pending task of the same workflow, activity and input, with no attempts used and
  default options, and removes the entry; the original task stays as it was.
\<close>

theorem dlq_round_trip:
  assumes "hm_get (tasks st) i = Some t" and "j \<noteq> i"
    and "move_to_dlq now e i h st = (r, st1)" and "requeue_from_dlq now2 j e st1 = (r2, st2)"
  shows "r = Inr () \<and> r2 = Inr j \<and> hm_get (dlq st2) e = None
    \<and> hm_get (tasks st2) i = Some t
    \<and> (\<exists>t'. hm_get (tasks st2) j = Some t' \<and> tk_status t' = TkPending \<and> tk_attempt t' = 0
         \<and> tk_definition t' = (tk_definition t)\<lparr>td_options := activity_options_default\<rparr>)"
  using assms by (auto simp: move_to_dlq_def requeue_from_dlq_def new_task_def)

theorem dlq_round_trip_witness:
  "fst (requeue_from_dlq 9 4 5 (snd (move_to_dlq 8 5 2 []
      (sample_queue [(2, new_task 0 (sample_definition None))])))) = Inr 4"
  using dlq_round_trip [OF _ _ prod.collapse [symmetric] prod.collapse [symmetric],
      of "sample_queue [(2, new_task 0 (sample_definition None))]" 2
        "new_task 0 (sample_definition None)" 4 8 5 "[]" 9]
  by (simp add: sample_queue_def hm_get_def)

end
