(* ===== verification/Executor.thy ===== *)
theory Executor
  imports Registry Task_Queue
begin

text \<open>
  The workflow executor (\<open>engine/executor.rs\<close>) over the in-memory store: starting workflows,
  replay from the event log or from a snapshot, processing of the actions a workflow returns,
  signals, and history rollover. \<open>Utc::now()\<close> and \<open>Uuid::now_v7()\<close> are the fields of
  \<open>exec_env\<close>, read in the state of the store at the call. \<open>i32\<close> arithmetic wraps. Logging and
  the trace context, which the in-memory store ignores, are left out.
\<close>

section \<open>Configuration, errors, results\<close>

record executor_config =
  max_events_per_workflow :: nat
  validate_actions :: bool
  snapshot_interval :: int

definition executor_config_default :: "string option \<Rightarrow> executor_config" where
  "executor_config_default env_interval =
     \<lparr>max_events_per_workflow = 10000, validate_actions = True,
      snapshot_interval = snapshot_interval_from_env env_interval\<rparr>"

datatype executor_error =
    EStore store_error
  | ERegistry registry_error
  | EWorkflowCompleted uuid
  | EWorkflowNotFound uuid
  | EReplayError string
  | ETooManyEvents uuid nat nat
  | EInvalidAction string
  | ESerialization string

record process_result =
  pr_completed :: bool
  pr_events_written :: nat
  pr_tasks_enqueued :: nat
  pr_signals_processed :: nat

record ('i, 'o, 'w) workflow_executor =
  ex_registry :: "('i, 'o, 'w) workflow_registry"
  ex_config :: executor_config

definition executor_new :: "string option \<Rightarrow> ('i, 'o, 'w) workflow_executor" where
  "executor_new env_interval =
     \<lparr>ex_registry = registry_new, ex_config = executor_config_default env_interval\<rparr>"

definition executor_with_config :: "executor_config \<Rightarrow> ('i, 'o, 'w) workflow_executor" where
  "executor_with_config config = \<lparr>ex_registry = registry_new, ex_config = config\<rparr>"

definition executor_register ::
  "('i, 'o, 'w) workflow_impl \<Rightarrow> ('i, 'o, 'w) workflow_executor \<Rightarrow> ('i, 'o, 'w) workflow_executor"
where
  "executor_register W ex = ex\<lparr>ex_registry := register W (ex_registry ex)\<rparr>"

type_synonym 'a exec_op = "(store, executor_error, 'a) op"

text \<open>\<open>store.f(..).await?\<close>: a store error becomes \<open>ExecutorError::Store\<close>.\<close>

definition exec_store :: "'a store_op \<Rightarrow> 'a exec_op" where
  "exec_store m = map_err_op EStore m"

text \<open>\<open>as usize\<close> of an \<open>i32\<close>.\<close>

definition as_usize :: "int \<Rightarrow> nat" where
  "as_usize x = nat (x mod 2 ^ 64)"

section \<open>Actions\<close>

text \<open>One round of the loop: the new sequence number, events written, tasks enqueued.\<close>

fun process_action ::
  "exec_env \<Rightarrow> uuid \<Rightarrow> int \<Rightarrow> workflow_action \<Rightarrow> (int \<times> nat \<times> nat) exec_op" where
  "process_action env wid sequence (ScheduleActivity activity_id activity_type input options) =
     bind_op (exec_store (append_events wid sequence
         [ActivityScheduled activity_id activity_type input options])) (\<lambda>sequence.
     bind_op (exec_store (\<lambda>st. enqueue_task (clock env st) (fresh_uuid env st)
         \<lparr>td_workflow_id = Some wid, td_activity_id = activity_id, td_activity_type = activity_type,
          td_input = input, td_options = options\<rparr> st)) (\<lambda>_.
     ret_op (sequence, 1, 1)))"
| "process_action env wid sequence (StartTimer timer_id d) =
     bind_op (exec_store (append_events wid sequence
         [TimerStarted timer_id (as_millis d mod 2 ^ 64)])) (\<lambda>sequence.
     ret_op (sequence, 1, 0))"
| "process_action env wid sequence (CompleteWorkflow result) =
     bind_op (exec_store (append_events wid sequence [WorkflowCompleted result])) (\<lambda>sequence.
     bind_op (exec_store (\<lambda>st. update_workflow_status (clock env st) wid WfCompleted
         (Some result) None st)) (\<lambda>_.
     ret_op (sequence, 1, 0)))"
| "process_action env wid sequence (FailWorkflow error) =
     bind_op (exec_store (append_events wid sequence [WorkflowFailed error])) (\<lambda>sequence.
     bind_op (exec_store (\<lambda>st. update_workflow_status (clock env st) wid WfFailed
         None (Some error) st)) (\<lambda>_.
     ret_op (sequence, 1, 0)))"
| "process_action env wid sequence (ScheduleChildWorkflow child_id workflow_type input) =
     bind_op (exec_store (\<lambda>st. append_events wid sequence
         [ChildWorkflowStarted (fresh_uuid env st) workflow_type] st)) (\<lambda>sequence.
     ret_op (sequence, 1, 0))"
| "process_action env wid sequence (CancelActivity activity_id) =
     bind_op (exec_store (append_events wid sequence
         [ActivityCancelled activity_id ''cancelled by workflow''])) (\<lambda>sequence.
     ret_op (sequence, 1, 0))"
| "process_action env wid sequence NoAction = ret_op (sequence, 0, 0)"

fun process_actions_loop ::
  "exec_env \<Rightarrow> uuid \<Rightarrow> int \<Rightarrow> nat \<Rightarrow> nat \<Rightarrow> workflow_action list \<Rightarrow> (int \<times> nat \<times> nat) exec_op" where
  "process_actions_loop env wid sequence written enqueued [] = ret_op (sequence, written, enqueued)"
| "process_actions_loop env wid sequence written enqueued (action # actions) =
     bind_op (process_action env wid sequence action) (\<lambda>(sequence', w, e).
     process_actions_loop env wid sequence' (written + w) (enqueued + e) actions)"

definition process_actions_internal ::
  "exec_env \<Rightarrow> uuid \<Rightarrow> int \<Rightarrow> workflow_action list \<Rightarrow> (int \<times> nat \<times> nat) exec_op" where
  "process_actions_internal env wid sequence actions =
     process_actions_loop env wid sequence 0 0 actions"

definition process_actions ::
  "exec_env \<Rightarrow> uuid \<Rightarrow> int \<Rightarrow> workflow_action list \<Rightarrow> unit exec_op" where
  "process_actions env wid sequence actions =
     bind_op (process_actions_internal env wid sequence actions) (\<lambda>_. ret_op ())"

fun completes_workflow :: "workflow_action \<Rightarrow> bool" where
  "completes_workflow (CompleteWorkflow _) = True"
| "completes_workflow (FailWorkflow _) = True"
| "completes_workflow _ = False"

definition start_workflow ::
  "exec_env \<Rightarrow> ('i, 'o, 'w) workflow_impl \<Rightarrow> 'i \<Rightarrow> uuid exec_op" where
  "start_workflow env W input st =
     (let wid = fresh_uuid env st
      in case w_to_value W input of
           Inl e \<Rightarrow> (Inl (ESerialization e), st)
         | Inr input_json \<Rightarrow>
             bind_op (exec_store (\<lambda>st. create_workflow (clock env st) wid (w_TYPE W) input_json st)) (\<lambda>_.
             bind_op (exec_store (append_events wid 0 [WorkflowStarted input_json])) (\<lambda>_.
             let actions = fst (w_on_start W (w_new W input));
                 completes_immediately = list_ex completes_workflow actions
             in bind_op (process_actions env wid 1 actions) (\<lambda>_.
                if \<not> completes_immediately
                then bind_op (exec_store (\<lambda>st. update_workflow_status (clock env st) wid WfRunning
                       None None st)) (\<lambda>_. ret_op wid)
                else ret_op wid))) st)"

section \<open>Replay\<close>

text \<open>Replay of one event never fails; the actions it returns are dropped.\<close>

fun replay_event ::
  "workflow_event \<Rightarrow> ('i, 'o, 'w) workflow_wrapper \<Rightarrow> ('i, 'o, 'w) workflow_wrapper" where
  "replay_event (WorkflowStarted _) a = snd (any_on_start a)"
| "replay_event (ActivityCompleted activity_id result) a =
     snd (any_on_activity_completed activity_id result a)"
| "replay_event (ActivityFailed activity_id error will_retry) a =
     (if \<not> will_retry then snd (any_on_activity_failed activity_id error a) else a)"
| "replay_event (TimerFired timer_id) a = snd (any_on_timer_fired timer_id a)"
| "replay_event (SignalReceived signal) a = snd (any_on_signal signal a)"
| "replay_event _ a = a"

definition replay_events ::
  "(int \<times> workflow_event) list \<Rightarrow> ('i, 'o, 'w) workflow_wrapper \<Rightarrow> ('i, 'o, 'w) workflow_wrapper" where
  "replay_events events a = fold (\<lambda>(_, e). replay_event e) events a"

fun is_workflow_started :: "workflow_event \<Rightarrow> bool" where
  "is_workflow_started (WorkflowStarted _) = True"
| "is_workflow_started _ = False"

definition load_from_scratch ::
  "('i, 'o, 'w) workflow_executor \<Rightarrow> uuid \<Rightarrow> workflow_info
     \<Rightarrow> (('i, 'o, 'w) workflow_wrapper \<times> (int \<times> workflow_event) list \<times> int option) exec_op" where
  "load_from_scratch ex wid info =
     (let mx = max_events_per_workflow (ex_config ex) in
      bind_op (exec_store (count_events wid)) (\<lambda>event_count.
      if event_count = 0 then fail_op (EWorkflowNotFound wid)
      else if mx < event_count then fail_op (ETooManyEvents wid event_count mx)
      else bind_op (exec_store (load_events wid)) (\<lambda>events.
        if mx < length events then fail_op (ETooManyEvents wid (length events) mx)
        else if \<not> is_workflow_started (snd (events ! 0))
        then fail_op (EReplayError ''first event must be WorkflowStarted'')
        else case registry_create (ex_registry ex) (wi_workflow_type info) (wi_input info) of
               Inl e \<Rightarrow> fail_op (ERegistry e)
             | Inr workflow \<Rightarrow> ret_op (workflow, events, None))))"

definition load_workflow_state ::
  "('i, 'o, 'w) workflow_executor \<Rightarrow> uuid \<Rightarrow> workflow_info
     \<Rightarrow> (('i, 'o, 'w) workflow_wrapper \<times> (int \<times> workflow_event) list \<times> int option) exec_op" where
  "load_workflow_state ex wid info =
     bind_op (exec_store (load_latest_snapshot wid)) (\<lambda>snapshot.
     case snapshot of
       None \<Rightarrow> load_from_scratch ex wid info
     | Some snap \<Rightarrow>
         (case restore_from_snapshot (ex_registry ex) (wi_workflow_type info) (wi_input info)
                 (ws_snapshot_data snap) of
            None \<Rightarrow> load_from_scratch ex wid info
          | Some restored \<Rightarrow>
              let mx = max_events_per_workflow (ex_config ex) in
              bind_op (exec_store (count_events_after wid (ws_sequence_num snap))) (\<lambda>event_count.
              if mx < event_count
              then (\<lambda>st. (Inl (ETooManyEvents wid event_count mx), ignore_op (delete_snapshots wid) st))
              else bind_op (exec_store (load_events_after wid (ws_sequence_num snap))) (\<lambda>events.
                if mx < length events then fail_op (ETooManyEvents wid (length events) mx)
                else ret_op (restored, events, Some (ws_sequence_num snap))))))"

definition maybe_save_snapshot ::
  "exec_env \<Rightarrow> ('i, 'o, 'w) workflow_executor \<Rightarrow> uuid \<Rightarrow> ('i, 'o, 'w) workflow_wrapper
     \<Rightarrow> int \<Rightarrow> int option \<Rightarrow> nat \<Rightarrow> store \<Rightarrow> store" where
  "maybe_save_snapshot env ex wid workflow current_sequence last_snapshot_seq total_events st =
     (let interval = snapshot_interval (ex_config ex) in
      if interval \<le> 0 then st
      else
        let events_since_snapshot =
              (case last_snapshot_seq of
                 Some last_seq \<Rightarrow> wrap_i32 (current_sequence - last_seq)
               | None \<Rightarrow> as_i32 total_events)
        in if events_since_snapshot < interval then st
           else case any_serialize_state workflow of
                  None \<Rightarrow> st
                | Some state_data \<Rightarrow>
                    ignore_op (save_snapshot (clock env st) wid (wrap_i32 (current_sequence - 1))
                      state_data) st)"

section \<open>Processing\<close>

text \<open>The loop over the pending signals; \<open>written\<close> and \<open>enqueued\<close> accumulate.\<close>

fun process_signals ::
  "exec_env \<Rightarrow> uuid \<Rightarrow> ('i, 'o, 'w) workflow_wrapper \<Rightarrow> int \<Rightarrow> nat \<Rightarrow> nat \<Rightarrow> workflow_signal list
     \<Rightarrow> (('i, 'o, 'w) workflow_wrapper \<times> int \<times> nat \<times> nat) exec_op" where
  "process_signals env wid workflow current written enqueued [] =
     ret_op (workflow, current, written, enqueued)"
| "process_signals env wid workflow current written enqueued (signal # signals) =
     (let (actions, workflow') = any_on_signal signal workflow
      in bind_op (exec_store (append_events wid current [SignalReceived signal])) (\<lambda>current'.
         bind_op (process_actions_internal env wid current' actions) (\<lambda>(new_seq, w, e).
         process_signals env wid workflow' new_seq (written + 1 + w) (enqueued + e) signals)))"

definition record_completion ::
  "exec_env \<Rightarrow> uuid \<Rightarrow> ('i, 'o, 'w) workflow_wrapper \<Rightarrow> unit exec_op" where
  "record_completion env wid workflow =
     (case any_result_json workflow of
        Some result \<Rightarrow>
          exec_store (\<lambda>st. update_workflow_status (clock env st) wid WfCompleted (Some result) None st)
      | None \<Rightarrow>
          (case any_error workflow of
             Some error \<Rightarrow>
               exec_store (\<lambda>st. update_workflow_status (clock env st) wid WfFailed None (Some error) st)
           | None \<Rightarrow> ret_op ()))"

definition next_sequence :: "(int \<times> workflow_event) list \<Rightarrow> int option \<Rightarrow> int" where
  "next_sequence events snapshot_seq =
     (case snapshot_seq of
        Some s \<Rightarrow> (if events = [] then wrap_i32 (s + 1) else wrap_i32 (fst (last events) + 1))
      | None \<Rightarrow> as_i32 (length events))"

definition total_event_count :: "(int \<times> workflow_event) list \<Rightarrow> int option \<Rightarrow> nat" where
  "total_event_count events snapshot_seq =
     (case snapshot_seq of
        Some s \<Rightarrow> as_usize (wrap_i32 (wrap_i32 (s + 1) + as_i32 (length events)))
      | None \<Rightarrow> length events)"

definition process_workflow ::
  "exec_env \<Rightarrow> ('i, 'o, 'w) workflow_executor \<Rightarrow> uuid \<Rightarrow> process_result exec_op" where
  "process_workflow env ex wid =
     bind_op (exec_store (get_workflow_info wid)) (\<lambda>info.
     if status_is_terminal (wi_status info)
     then ret_op \<lparr>pr_completed = True, pr_events_written = 0, pr_tasks_enqueued = 0,
                  pr_signals_processed = 0\<rparr>
     else
       bind_op (load_workflow_state ex wid info) (\<lambda>(loaded, events, snapshot_seq).
       let current_sequence = next_sequence events snapshot_seq;
           total = total_event_count events snapshot_seq;
           workflow = replay_events events loaded
       in
       bind_op (exec_store (get_pending_signals wid)) (\<lambda>signals.
       bind_op (process_signals env wid workflow current_sequence 0 0 signals)
         (\<lambda>(workflow, current_sequence, events_written, tasks_enqueued).
       bind_op (if signals \<noteq> [] then exec_store (mark_signals_processed wid (length signals))
                else ret_op ()) (\<lambda>_.
       let completed = any_is_completed workflow in
       bind_op (if completed then record_completion env wid workflow else ret_op ()) (\<lambda>_ st.
         (Inr \<lparr>pr_completed = completed, pr_events_written = events_written,
               pr_tasks_enqueued = tasks_enqueued, pr_signals_processed = length signals\<rparr>,
          if completed then st
          else maybe_save_snapshot env ex wid workflow current_sequence snapshot_seq
                 (total + events_written) st)))))))"

section \<open>Entry points\<close>

definition executor_send_signal :: "uuid \<Rightarrow> workflow_signal \<Rightarrow> unit exec_op" where
  "executor_send_signal wid signal =
     bind_op (exec_store (get_workflow_status wid)) (\<lambda>status.
     if status_is_terminal status then fail_op (EWorkflowCompleted wid)
     else exec_store (send_signal wid signal))"

text \<open>
  The three event handlers read the length of the log, append their event there and process the
  workflow. Other clients of the store may act between the read and the append: \<open>interf\<close> is
  what they do.
\<close>

definition append_at_end ::
  "(store \<Rightarrow> store) \<Rightarrow> uuid \<Rightarrow> workflow_event \<Rightarrow> int exec_op" where
  "append_at_end interf wid event =
     bind_op (exec_store (count_events wid)) (\<lambda>n st.
       exec_store (append_events wid (as_i32 n) [event]) (interf st))"

definition on_activity_completed ::
  "exec_env \<Rightarrow> (store \<Rightarrow> store) \<Rightarrow> ('i, 'o, 'w) workflow_executor \<Rightarrow> uuid \<Rightarrow> string \<Rightarrow> json
     \<Rightarrow> process_result exec_op" where
  "on_activity_completed env interf ex wid activity_id result =
     bind_op (append_at_end interf wid (ActivityCompleted activity_id result)) (\<lambda>_.
     process_workflow env ex wid)"

definition on_activity_failed ::
  "exec_env \<Rightarrow> (store \<Rightarrow> store) \<Rightarrow> ('i, 'o, 'w) workflow_executor \<Rightarrow> uuid \<Rightarrow> string \<Rightarrow> activity_error
     \<Rightarrow> bool \<Rightarrow> process_result exec_op" where
  "on_activity_failed env interf ex wid activity_id error will_retry =
     bind_op (append_at_end interf wid (ActivityFailed activity_id error will_retry)) (\<lambda>_.
     if \<not> will_retry then process_workflow env ex wid
     else ret_op \<lparr>pr_completed = False, pr_events_written = 1, pr_tasks_enqueued = 0,
                  pr_signals_processed = 0\<rparr>)"

definition on_timer_fired ::
  "exec_env \<Rightarrow> (store \<Rightarrow> store) \<Rightarrow> ('i, 'o, 'w) workflow_executor \<Rightarrow> uuid \<Rightarrow> string
     \<Rightarrow> process_result exec_op" where
  "on_timer_fired env interf ex wid timer_id =
     bind_op (append_at_end interf wid (TimerFired timer_id)) (\<lambda>_. process_workflow env ex wid)"

definition executor_continue_as_new ::
  "exec_env \<Rightarrow> ('i, 'o, 'w) workflow_executor \<Rightarrow> uuid \<Rightarrow> uuid exec_op" where
  "executor_continue_as_new env ex wid =
     bind_op (exec_store (get_workflow_info wid)) (\<lambda>info.
     if status_is_terminal (wi_status info) then fail_op (EWorkflowCompleted wid)
     else
       bind_op (load_workflow_state ex wid info) (\<lambda>(loaded, events, snapshot_seq).
       case any_serialize_state (replay_events events loaded) of
         None \<Rightarrow> fail_op (EReplayError ''workflow does not support snapshots, cannot continue-as-new'')
       | Some snapshot_data \<Rightarrow>
           exec_store (\<lambda>st. continue_as_new (clock env st) (clock env st) (fresh_uuid env st) wid
             (wi_workflow_type info) (wi_input info) snapshot_data st)))"


section \<open>How operations extend a history\<close>

text \<open>Events that replay ignores, and the event each action records.\<close>

fun informational :: "workflow_event \<Rightarrow> bool" where
  "informational (WorkflowStarted _) = False"
| "informational (ActivityCompleted _ _) = False"
| "informational (ActivityFailed _ _ _) = False"
| "informational (TimerFired _) = False"
| "informational (SignalReceived _) = False"
| "informational _ = True"

fun action_event :: "workflow_action \<Rightarrow> workflow_event \<Rightarrow> bool" where
  "action_event (ScheduleActivity a t i opts) e = (e = ActivityScheduled a t i opts)"
| "action_event (StartTimer t d) e = (e = TimerStarted t (as_millis d mod 2 ^ 64))"
| "action_event (CompleteWorkflow r) e = (e = WorkflowCompleted r)"
| "action_event (FailWorkflow err) e = (e = WorkflowFailed err)"
| "action_event (ScheduleChildWorkflow c t i) e = (\<exists>id. e = ChildWorkflowStarted id t)"
| "action_event (CancelActivity a) e = (e = ActivityCancelled a ''cancelled by workflow'')"
| "action_event NoAction e = False"

definition is_schedule :: "workflow_action \<Rightarrow> bool" where
  "is_schedule a = (case a of ScheduleActivity _ _ _ _ \<Rightarrow> True | _ \<Rightarrow> False)"

text \<open>
  \<open>st'\<close> has the history of \<open>st\<close> for workflow \<open>wid\<close> with \<open>evs\<close> appended, and the same signals
  and snapshots.
\<close>

definition extends_history :: "uuid \<Rightarrow> workflow_event list \<Rightarrow> store \<Rightarrow> store \<Rightarrow> bool" where
  "extends_history wid evs st st' \<longleftrightarrow>
     (\<exists>w w'. hm_get (workflows st) wid = Some w \<and> hm_get (workflows st') wid = Some w'
        \<and> wf_events w' = wf_events w @ evs \<and> wf_workflow_type w' = wf_workflow_type w
        \<and> wf_input w' = wf_input w \<and> wf_signals w' = wf_signals w)
     \<and> snapshots st' = snapshots st"

text \<open>The state a restart rebuilds: load the workflow and replay the events that came with it.\<close>

definition rebuild ::
  "('i, 'o, 'w) workflow_executor \<Rightarrow> uuid \<Rightarrow> ('i, 'o, 'w) workflow_wrapper exec_op" where
  "rebuild ex wid =
     bind_op (exec_store (get_workflow_info wid)) (\<lambda>info.
     bind_op (load_workflow_state ex wid info) (\<lambda>(loaded, events, _).
     ret_op (replay_events events loaded)))"

text \<open>The state after a sequence of signals, one at a time.\<close>

definition after_signals ::
  "workflow_signal list \<Rightarrow> ('i, 'o, 'w) workflow_wrapper \<Rightarrow> ('i, 'o, 'w) workflow_wrapper" where
  "after_signals sigs a = fold (\<lambda>s a. snd (any_on_signal s a)) sigs a"

lemma exec_store_eq_Inr [simp]: "exec_store m st = (Inr x, st') \<longleftrightarrow> m st = (Inr x, st')"
  by (auto simp: exec_store_def map_err_op_def split: prod.splits sum.splits)

lemma exec_store_eq_Inl:
  "exec_store m st = (Inl e, st') \<longleftrightarrow> (\<exists>e'. m st = (Inl e', st') \<and> e = EStore e')"
  by (auto simp: exec_store_def map_err_op_def split: prod.splits sum.splits)

lemma informational_replay [simp]: "informational e \<Longrightarrow> replay_event e a = a"
  by (cases e) auto

lemma informational_fold:
  "list_all informational evs \<Longrightarrow> fold replay_event evs a = a"
  by (induction evs) auto

lemma action_event_informational: "action_event a e \<Longrightarrow> informational e"
  by (cases a) auto

lemma extends_history_trans:
  "extends_history wid es st st1 \<Longrightarrow> extends_history wid fs st1 st2
    \<Longrightarrow> extends_history wid (es @ fs) st st2"
  by (auto simp: extends_history_def)

lemma extends_history_refl:
  "hm_get (workflows st) wid = Some w \<Longrightarrow> extends_history wid [] st st"
  by (auto simp: extends_history_def)

lemma append_extends_history:
  assumes "append_events wid n evs st = (Inr m, st')"
  shows "extends_history wid evs st st'"
    and "hm_get (workflows st') wid = Some w' \<Longrightarrow> m = as_i32 (length (wf_events w'))"
  using assms
  by (auto simp: append_events_def with_workflow_def extends_history_def Let_def
      split: option.splits if_splits)

lemma status_extends_history:
  assumes "update_workflow_status now wid s r e st = (Inr x, st')"
  shows "extends_history wid [] st st'"
  using assms
  by (auto simp: update_workflow_status_def with_workflow_def extends_history_def
      set_status_def Let_def split: option.splits if_splits)

lemma enqueue_extends_history:
  assumes "enqueue_task now i d st = (Inr x, st')" and "hm_get (workflows st) wid = Some w"
  shows "extends_history wid [] st st'"
  using assms
  by (auto simp: enqueue_task_def extends_history_def Let_def split: option.splits if_splits)

lemma extends_row:
  "extends_history wid evs st st' \<Longrightarrow> hm_get (workflows st) wid = Some w
    \<Longrightarrow> \<exists>w'. hm_get (workflows st') wid = Some w' \<and> wf_events w' = wf_events w @ evs"
  by (auto simp: extends_history_def)

lemma extends_has_row: "extends_history wid evs st st' \<Longrightarrow> \<exists>w. hm_get (workflows st') wid = Some w"
  by (auto simp: extends_history_def)

text \<open>The length of the log, as the next sequence number.\<close>

definition log_seq :: "uuid \<Rightarrow> store \<Rightarrow> int" where
  "log_seq wid st =
     (case hm_get (workflows st) wid of Some w \<Rightarrow> as_i32 (length (wf_events w)) | None \<Rightarrow> 0)"

lemma append_log_seq: "append_events wid n evs st = (Inr m, st') \<Longrightarrow> m = log_seq wid st'"
  using append_extends_history [of wid n evs st m st'] extends_has_row [of wid evs st st']
  by (auto simp: log_seq_def)

lemma extends_nil_log_seq: "extends_history wid [] st st' \<Longrightarrow> log_seq wid st' = log_seq wid st"
  by (auto simp: extends_history_def log_seq_def)

lemma process_action_extends:
  assumes "process_action env wid n a st = (Inr (m, wr, en), st')"
    and "n = log_seq wid st" and "hm_get (workflows st) wid = Some w"
  shows "\<exists>evs. extends_history wid evs st st' \<and> m = log_seq wid st' \<and> wr = length evs
    \<and> en = (if is_schedule a then 1 else 0)
    \<and> list_all2 action_event (if a = NoAction then [] else [a]) evs"
proof (cases a)
  case (ScheduleActivity i t inp opts)
  let ?e = "ActivityScheduled i t inp opts"
  from assms(1) obtain st1 where 1: "append_events wid n [?e] st = (Inr m, st1)"
    and 2: "\<exists>x now j d. enqueue_task now j d st1 = (Inr x, st')" and "wr = 1" "en = 1"
    by (auto simp: ScheduleActivity bind_op_eq_Inr) blast
  from append_extends_history(1) [OF 1] have e1: "extends_history wid [?e] st st1" .
  with 2 have e2: "extends_history wid [] st1 st'"
    using enqueue_extends_history extends_has_row by blast
  show ?thesis
    using extends_history_trans [OF e1 e2] append_log_seq [OF 1] extends_nil_log_seq [OF e2]
      \<open>wr = 1\<close> \<open>en = 1\<close> ScheduleActivity
    by (intro exI [of _ "[?e]"]) (simp add: is_schedule_def)
next
  case (CompleteWorkflow r)
  let ?e = "WorkflowCompleted r"
  from assms(1) obtain st1 where 1: "append_events wid n [?e] st = (Inr m, st1)"
    and 2: "\<exists>x now. update_workflow_status now wid WfCompleted (Some r) None st1 = (Inr x, st')"
    and "wr = 1" "en = 0"
    by (auto simp: CompleteWorkflow bind_op_eq_Inr)
  from 2 have e2: "extends_history wid [] st1 st'" using status_extends_history by blast
  show ?thesis
    using extends_history_trans [OF append_extends_history(1) [OF 1] e2] append_log_seq [OF 1]
      extends_nil_log_seq [OF e2] \<open>wr = 1\<close> \<open>en = 0\<close> CompleteWorkflow
    by (intro exI [of _ "[?e]"]) (simp add: is_schedule_def)
next
  case (FailWorkflow err)
  let ?e = "WorkflowFailed err"
  from assms(1) obtain st1 where 1: "append_events wid n [?e] st = (Inr m, st1)"
    and 2: "\<exists>x now. update_workflow_status now wid WfFailed None (Some err) st1 = (Inr x, st')"
    and "wr = 1" "en = 0"
    by (auto simp: FailWorkflow bind_op_eq_Inr)
  from 2 have e2: "extends_history wid [] st1 st'" using status_extends_history by blast
  show ?thesis
    using extends_history_trans [OF append_extends_history(1) [OF 1] e2] append_log_seq [OF 1]
      extends_nil_log_seq [OF e2] \<open>wr = 1\<close> \<open>en = 0\<close> FailWorkflow
    by (intro exI [of _ "[?e]"]) (simp add: is_schedule_def)
next
  case NoAction
  with assms extends_history_refl [OF assms(3)] show ?thesis by (auto simp: is_schedule_def)
qed (use assms(1) append_extends_history(1) append_log_seq in
      \<open>fastforce simp: bind_op_eq_Inr is_schedule_def\<close>)+

lemma process_actions_extends:
  assumes "process_actions_loop env wid n wr en as st = (Inr (m, wr', en'), st')"
    and "n = log_seq wid st" and "hm_get (workflows st) wid = Some w"
  shows "\<exists>evs. extends_history wid evs st st' \<and> m = log_seq wid st' \<and> wr' = wr + length evs
    \<and> en' = en + length (filter is_schedule as)
    \<and> list_all2 action_event (filter (\<lambda>a. a \<noteq> NoAction) as) evs"
  using assms
proof (induction as arbitrary: n wr en st w)
  case Nil
  then show ?case using extends_history_refl [OF Nil(3)] by auto
next
  case (Cons a as)
  from Cons.prems(1) obtain n1 w1 e1 st1 where
    1: "process_action env wid n a st = (Inr (n1, w1, e1), st1)" and
    2: "process_actions_loop env wid n1 (wr + w1) (en + e1) as st1 = (Inr (m, wr', en'), st')"
    by (auto simp: bind_op_eq_Inr)
  obtain evs where evs: "extends_history wid evs st st1" "n1 = log_seq wid st1" "w1 = length evs"
    "e1 = (if is_schedule a then 1 else 0)"
    "list_all2 action_event (if a = NoAction then [] else [a]) evs"
    using process_action_extends [OF 1 Cons.prems(2,3)] by blast
  obtain w2 where "hm_get (workflows st1) wid = Some w2" using extends_has_row [OF evs(1)] ..
  from Cons.IH [OF 2 evs(2) this] obtain fs where fs: "extends_history wid fs st1 st'"
    "m = log_seq wid st'" "wr' = wr + w1 + length fs" "en' = en + e1 + length (filter is_schedule as)"
    "list_all2 action_event (filter (\<lambda>a. a \<noteq> NoAction) as) fs" by blast
  from extends_history_trans [OF evs(1) fs(1)] evs fs list_all2_appendI [OF evs(5) fs(5)]
  show ?case by (intro exI [of _ "evs @ fs"]) (auto split: if_splits)
qed

section \<open>Signals\<close>

lemma after_signals_simps [simp]:
  "after_signals [] a = a"
  "after_signals (s # ss) a = after_signals ss (snd (any_on_signal s a))"
  by (simp_all add: after_signals_def)

lemma process_signals_extends:
  assumes "process_signals env wid a n wr en sigs st = (Inr (a', m, wr', en'), st')"
    and "n = log_seq wid st" and "hm_get (workflows st) wid = Some w"
  shows "\<exists>evs. extends_history wid evs st st' \<and> m = log_seq wid st' \<and> wr' = wr + length evs
    \<and> a' = after_signals sigs a \<and> fold replay_event evs a = a'
    \<and> filter (\<lambda>e. \<not> informational e) evs = map SignalReceived sigs"
  using assms
proof (induction sigs arbitrary: a n wr en st w)
  case Nil
  then show ?case using extends_history_refl [OF Nil(3)] by auto
next
  case (Cons s sigs)
  obtain as b where b: "any_on_signal s a = (as, b)" by (meson surj_pair)
  with Cons.prems(1) obtain n1 st1 n2 w2 e2 st2 where
    1: "append_events wid n [SignalReceived s] st = (Inr n1, st1)" and
    2: "process_actions_loop env wid n1 0 0 as st1 = (Inr (n2, w2, e2), st2)" and
    3: "process_signals env wid b n2 (wr + 1 + w2) (en + e2) sigs st2 = (Inr (a', m, wr', en'), st')"
    by (auto simp: bind_op_eq_Inr process_actions_internal_def)
  note x1 = append_extends_history(1) [OF 1]
  obtain w1 where "hm_get (workflows st1) wid = Some w1" using extends_has_row [OF x1] ..
  from process_actions_extends [OF 2 append_log_seq [OF 1] this] obtain fs where
    fs: "extends_history wid fs st1 st2" "n2 = log_seq wid st2" "w2 = length fs"
    "list_all2 action_event (filter (\<lambda>a. a \<noteq> NoAction) as) fs" by auto
  have inf: "list_all informational fs"
    using fs(4) by (auto simp: list_all_length list_all2_conv_all_nth intro: action_event_informational)
  obtain w' where "hm_get (workflows st2) wid = Some w'" using extends_has_row [OF fs(1)] ..
  from Cons.IH [OF 3 fs(2) this] obtain gs where
    gs: "extends_history wid gs st2 st'" "m = log_seq wid st'" "wr' = wr + 1 + w2 + length gs"
    "a' = after_signals sigs b" "fold replay_event gs b = a'"
    "filter (\<lambda>e. \<not> informational e) gs = map SignalReceived sigs" by blast
  let ?evs = "SignalReceived s # fs @ gs"
  have "extends_history wid ?evs st st'"
    using extends_history_trans [OF x1 extends_history_trans [OF fs(1) gs(1)]] by simp
  moreover have "fold replay_event ?evs a = a'"
    using gs(5) b informational_fold [OF inf, of b] by simp
  moreover have "filter (\<lambda>e. \<not> informational e) fs = []"
    using inf by (simp add: list_all_iff)
  ultimately show ?case
    using gs fs(3) b by (intro exI [of _ ?evs]) simp
qed

section \<open>Loading\<close>

text \<open>The latest snapshot of a workflow, and what loading returns, as a pure function.\<close>

definition latest :: "uuid \<Rightarrow> store \<Rightarrow> snapshot_mem_state option" where
  "latest wid st = (if snapshots_of st wid = [] then None else Some (last (snapshots_of st wid)))"

definition loaded ::
  "('i, 'o, 'w) workflow_registry \<Rightarrow> nat \<Rightarrow> string \<Rightarrow> json \<Rightarrow> workflow_event list
     \<Rightarrow> snapshot_mem_state option
     \<Rightarrow> (('i, 'o, 'w) workflow_wrapper \<times> workflow_event list \<times> int option) option" where
  "loaded reg mx ty inp es snap =
     (case Option.bind snap (\<lambda>s. map_option (Pair (sn_sequence_num s))
               (restore_from_snapshot reg ty inp (sn_snapshot_data s))) of
        Some (q, a) \<Rightarrow> if length (log_after q es) \<le> mx then Some (a, log_after q es, Some q) else None
      | None \<Rightarrow>
          if es \<noteq> [] \<and> length es \<le> mx \<and> is_workflow_started (hd es)
          then (case registry_create reg ty inp of Inr a \<Rightarrow> Some (a, es, None) | Inl _ \<Rightarrow> None)
          else None)"

definition reload ::
  "('i, 'o, 'w) workflow_executor \<Rightarrow> uuid \<Rightarrow> store
     \<Rightarrow> (('i, 'o, 'w) workflow_wrapper \<times> workflow_event list \<times> int option) option" where
  "reload ex wid st =
     (case hm_get (workflows st) wid of
        None \<Rightarrow> None
      | Some w \<Rightarrow>
          loaded (ex_registry ex) (max_events_per_workflow (ex_config ex)) (wf_workflow_type w)
            (wf_input w) (wf_events w) (latest wid st))"

definition number_from :: "int option \<Rightarrow> workflow_event list \<Rightarrow> (int \<times> workflow_event) list" where
  "number_from q es =
     map (\<lambda>(i, e). (as_i32 i, e)) (enumerate (case q of None \<Rightarrow> 0 | Some q \<Rightarrow> nat (q + 1)) es)"

lemma load_latest_eq:
  "load_latest_snapshot wid st
    = (Inr (map_option (\<lambda>s. \<lparr>ws_workflow_id = wid, ws_sequence_num = sn_sequence_num s,
        ws_snapshot_data = sn_snapshot_data s, ws_created_at = sn_created_at s\<rparr>) (latest wid st)), st)"
  by (simp add: load_latest_snapshot_def latest_def snapshots_of_def Let_def split: option.splits)

lemma length_number_from [simp]: "length (number_from q es) = length es"
  by (simp add: number_from_def)

lemma number_from_eq_Nil [simp]: "number_from q es = [] \<longleftrightarrow> es = []"
  by (simp flip: length_0_conv)

lemma replay_number_from: "replay_events (number_from q es) a = fold replay_event es a"
proof -
  have "replay_events (map (\<lambda>(i, e). (as_i32 i, e)) (enumerate n es)) a = fold replay_event es a" for n
    by (induction es arbitrary: n a) (simp_all add: replay_events_def)
  then show ?thesis by (simp add: number_from_def)
qed

lemma load_from_scratch_eq:
  assumes "hm_get (workflows st) wid = Some w"
  shows "load_from_scratch ex wid info st = (Inr (a, events, q), st') \<longleftrightarrow>
    st' = st \<and> q = None \<and> events = number_from None (wf_events w)
    \<and> wf_events w \<noteq> [] \<and> length (wf_events w) \<le> max_events_per_workflow (ex_config ex)
    \<and> is_workflow_started (hd (wf_events w))
    \<and> registry_create (ex_registry ex) (wi_workflow_type info) (wi_input info) = Inr a"
proof -
  have l: "load_events wid st = (Inr (number_from None (wf_events w)), st)"
    using mem_log.load_current [of st wid "wf_events w"] assms
    by (simp add: log_of_def number_from_def numbered_def)
  have c: "count_events wid st = (Inr (length (wf_events w)), st)"
    using mem_log.count_current [of st wid "wf_events w"] assms by (simp add: log_of_def)
  have h: "wf_events w \<noteq> [] \<Longrightarrow> snd (number_from None (wf_events w) ! 0) = hd (wf_events w)"
    by (simp add: number_from_def nth_enumerate_eq hd_conv_nth)
  show ?thesis
    using h by (auto simp: load_from_scratch_def Let_def bind_op_eq_Inr l c split: sum.splits)
qed

lemma load_workflow_state_eq:
  assumes "hm_get (workflows st) wid = Some w" and "length (wf_events w) < 2 ^ 31"
    and "wi_workflow_type info = wf_workflow_type w" and "wi_input info = wf_input w"
  shows "load_workflow_state ex wid info st = (Inr (a, events, q), st') \<longleftrightarrow>
    st' = st \<and> (\<exists>tail. reload ex wid st = Some (a, tail, q) \<and> events = number_from q tail)"
proof (cases "Option.bind (latest wid st) (\<lambda>s. map_option (Pair (sn_sequence_num s))
    (restore_from_snapshot (ex_registry ex) (wf_workflow_type w) (wf_input w) (sn_snapshot_data s)))")
  case None
  then have "load_workflow_state ex wid info st = load_from_scratch ex wid info st"
    by (auto simp: load_workflow_state_def load_latest_eq exec_store_def map_err_op_def assms(3,4)
        split: option.splits bind_splits)
  with None assms load_from_scratch_eq [OF assms(1), of ex info a events q st'] show ?thesis
    by (auto simp: reload_def loaded_def split: sum.splits)
next
  case (Some qa)
  then obtain s b where s: "latest wid st = Some s" "qa = (sn_sequence_num s, b)"
    "restore_from_snapshot (ex_registry ex) (wf_workflow_type w) (wf_input w) (sn_snapshot_data s)
      = Some b"
    by (auto simp: bind_eq_Some_conv)
  have c: "count_events_after wid (sn_sequence_num s) st
      = (Inr (length (log_after (sn_sequence_num s) (wf_events w))), st)"
    and l: "load_events_after wid (sn_sequence_num s) st
      = (Inr (number_from (Some (sn_sequence_num s)) (log_after (sn_sequence_num s) (wf_events w))), st)"
    using assms(1,2) by (simp_all add: count_events_after_eq load_events_after_eq number_from_def)
  show ?thesis
    using s assms by (auto simp: load_workflow_state_def load_latest_eq bind_op_eq_Inr c l Let_def
        reload_def loaded_def)
qed

lemma rebuild_eq:
  assumes "hm_get (workflows st) wid = Some w" and "length (wf_events w) < 2 ^ 31"
  shows "rebuild ex wid st = (Inr b, st') \<longleftrightarrow>
    st' = st \<and> (\<exists>a tail q. reload ex wid st = Some (a, tail, q) \<and> b = fold replay_event tail a)"
proof -
  let ?info = "\<lparr>wi_id = wid, wi_workflow_type = wf_workflow_type w, wi_status = wf_status w,
        wi_input = wf_input w, wi_result = wf_result w, wi_error = wf_error w,
        wi_continued_as_new_id = wf_continued_as_new_id w\<rparr>"
  have "exec_store (get_workflow_info wid) st = (Inr ?info, st)"
    using assms(1) by (simp add: get_workflow_info_def workflow_rows)
  then have r: "rebuild ex wid st = (Inr b, st') \<longleftrightarrow> (\<exists>a events q.
      load_workflow_state ex wid ?info st = (Inr (a, events, q), st') \<and> b = replay_events events a)"
    by (auto simp: rebuild_def bind_op_eq_Inr)
  show ?thesis
    unfolding r using load_workflow_state_eq [OF assms, of ?info ex]
    by (auto simp: replay_number_from)
qed

section \<open>Transparency of snapshots\<close>

text \<open>The snapshots of a workflow lie within its log.\<close>

definition snapshots_within :: "uuid \<Rightarrow> store \<Rightarrow> bool" where
  "snapshots_within wid st \<longleftrightarrow>
     snapshots_ok (snapshots_of st wid)
     \<and> (case hm_get (workflows st) wid of
          Some w \<Rightarrow> (\<forall>s \<in> set (snapshots_of st wid).
                       0 \<le> sn_sequence_num s \<and> sn_sequence_num s < int (length (wf_events w)))
        | None \<Rightarrow> True)"

text \<open>
  What the engine relies on in a workflow implementation: a state that serializes is restored
  from its serialization.
\<close>

definition restores :: "('i, 'o, 'w) workflow_impl \<Rightarrow> 'i \<Rightarrow> bool" where
  "restores W i \<longleftrightarrow>
     (\<forall>v data. w_snapshot_state W v = Some data \<longrightarrow> w_restore_state W i data = Some v)"

lemma wrapped_replay [simp]: "wrapped (replay_event e a) = wrapped a"
  by (cases e) (simp_all add: any_on_start_def any_on_activity_completed_def
      any_on_activity_failed_def any_on_timer_fired_def any_on_signal_def)

lemma wrapped_fold [simp]: "wrapped (fold replay_event es a) = wrapped a"
  by (induction es arbitrary: a) simp_all

lemma wrapped_after_signals [simp]: "wrapped (after_signals ss a) = wrapped a"
  by (induction ss arbitrary: a) (simp_all add: any_on_signal_def)

lemma latest_within:
  assumes "snapshots_within wid st" and "latest wid st = Some s"
    and "hm_get (workflows st) wid = Some w"
  shows "0 \<le> sn_sequence_num s \<and> sn_sequence_num s < int (length (wf_events w))"
  using assms by (auto simp: snapshots_within_def latest_def split: if_splits)

lemma log_after_append:
  "0 \<le> q \<Longrightarrow> q < int (length es) \<Longrightarrow> log_after q (es @ evs) = log_after q es @ evs"
  by (simp add: log_after_def)

lemma loaded_extend:
  assumes "loaded reg mx ty inp es snap = Some (a, tail, q)" and "length (es @ evs) \<le> mx"
    and "\<And>s. snap = Some s \<Longrightarrow> 0 \<le> sn_sequence_num s \<and> sn_sequence_num s < int (length es)"
  shows "loaded reg mx ty inp (es @ evs) snap = Some (a, tail @ evs, q)"
proof (cases "Option.bind snap (\<lambda>s. map_option (Pair (sn_sequence_num s))
    (restore_from_snapshot reg ty inp (sn_snapshot_data s)))")
  case None
  with assms show ?thesis by (auto simp: loaded_def split: if_splits sum.splits)
next
  case (Some qa)
  then obtain s b where s: "snap = Some s" "qa = (sn_sequence_num s, b)"
    by (auto simp: bind_eq_Some_conv)
  have "length (log_after (sn_sequence_num s) (es @ evs)) \<le> mx"
    using assms(2) by (simp add: log_after_def)
  with Some s assms show ?thesis by (auto simp: loaded_def log_after_append split: if_splits)
qed

lemma loaded_wrapped:
  assumes "loaded reg mx ty inp es snap = Some (a, tail, q)" and "registered reg ty W"
    and "w_from_value W inp = Inr i"
  shows "wrapped a = W"
  using assms registered_restore [OF assms(2,3)] registered_create [OF assms(2,3)]
  by (auto simp: loaded_def bind_eq_Some_conv split: option.splits if_splits bind_splits)

lemma next_sequence_reload:
  assumes "reload ex wid st = Some (a, tail, q)" and "hm_get (workflows st) wid = Some w"
    and "length (wf_events w) < 2 ^ 31 - 1" and "snapshots_within wid st"
  shows "next_sequence (number_from q tail) q = int (length (wf_events w))"
proof (cases q)
  case None
  with assms show ?thesis
    by (auto simp: reload_def loaded_def next_sequence_def number_from_def
        split: option.splits if_splits sum.splits bind_splits)
next
  case (Some p)
  with assms(1,2) obtain s where s: "latest wid st = Some s" "p = sn_sequence_num s"
    and tail: "tail = log_after p (wf_events w)"
    by (auto simp: reload_def loaded_def split: option.splits if_splits sum.splits bind_splits)
  with latest_within [OF assms(4) s(1) assms(2)] have p: "0 \<le> p" "p < int (length (wf_events w))"
    by auto
  show ?thesis
  proof (cases "tail = []")
    case True
    with tail p have "p + 1 = int (length (wf_events w))" by (simp add: log_after_def)
    with True Some assms(3) show ?thesis by (simp add: next_sequence_def)
  next
    case False
    have l: "length tail = length (wf_events w) - nat (p + 1)" using tail by (simp add: log_after_def)
    have "fst (last (number_from q tail)) = as_i32 (nat (p + 1) + (length tail - 1))"
      using False Some
      by (simp add: number_from_def last_map last_conv_nth nth_enumerate_eq case_prod_beta
          flip: length_greater_0_conv)
    also have "nat (p + 1) + (length tail - 1) = length (wf_events w) - 1"
      using l False [folded length_greater_0_conv] by linarith
    finally show ?thesis
      using False Some assms(3) p by (simp add: next_sequence_def)
  qed
qed

lemma maybe_save_cases:
  "maybe_save_snapshot env ex wid a n q t st = st
    \<or> (\<exists>data. any_serialize_state a = Some data
          \<and> maybe_save_snapshot env ex wid a n q t st
              = snd (save_snapshot (clock env st) wid (wrap_i32 (n - 1)) data st))"
  by (simp add: maybe_save_snapshot_def Let_def ignore_op_def split: option.splits)

lemma snapshots_of_save:
  "snapshots_of (snd (save_snapshot now wid seq data st)) wid
    = upsert_snapshot now seq data (snapshots_of st wid)"
  by (simp add: save_snapshot_def snapshots_of_def)

lemma save_snapshot_workflows [simp]: "workflows (snd (save_snapshot now wid seq data st)) = workflows st"
  by (simp add: save_snapshot_def)

lemma snapshots_within_save:
  assumes "snapshots_within wid st" and "hm_get (workflows st) wid = Some w"
    and "seq = int (length (wf_events w)) - 1" and "wf_events w \<noteq> []"
  shows "snapshots_within wid (snd (save_snapshot now wid seq data st))"
    and "\<exists>s. latest wid (snd (save_snapshot now wid seq data st)) = Some s
      \<and> sn_sequence_num s = seq \<and> sn_snapshot_data s = data"
proof -
  let ?l = "snapshots_of st wid"
  have ok: "snapshots_ok ?l" and le: "\<And>s. s \<in> set ?l \<Longrightarrow> sn_sequence_num s \<le> seq"
    and pos: "\<And>s. s \<in> set ?l \<Longrightarrow> 0 \<le> sn_sequence_num s"
    using assms by (fastforce simp: snapshots_within_def)+
  have seqs: "sn_sequence_num ` set (upsert_snapshot now seq data ?l) = insert seq (sn_sequence_num ` set ?l)"
    using upsert_seqs [of now seq data ?l] by simp
  have "0 \<le> sn_sequence_num s \<and> sn_sequence_num s < int (length (wf_events w))"
    if "s \<in> set (upsert_snapshot now seq data ?l)" for s
  proof -
    from that seqs have "sn_sequence_num s \<in> insert seq (sn_sequence_num ` set ?l)" by blast
    then show ?thesis using assms(3,4) le pos by (cases "wf_events w") fastforce+
  qed
  with upsert_snapshots_ok [OF ok] assms(2)
  show "snapshots_within wid (snd (save_snapshot now wid seq data st))"
    by (simp add: snapshots_within_def snapshots_of_save)
  have "upsert_snapshot now seq data ?l \<noteq> []" using seqs by force
  with upsert_last [OF ok le]
  show "\<exists>s. latest wid (snd (save_snapshot now wid seq data st)) = Some s
      \<and> sn_sequence_num s = seq \<and> sn_snapshot_data s = data"
    by (simp add: latest_def snapshots_of_save)
qed

section \<open>One pass of the executor\<close>

lemma process_workflow_inv:
  assumes "process_workflow env ex wid st = (Inr res, st')"
    and "hm_get (workflows st) wid = Some w" and "\<not> status_is_terminal (wf_status w)"
    and "length (wf_events w) < 2 ^ 31 - 1" and "snapshots_within wid st"
  obtains a tail q a' n wr en st1 st2 st3 where
    "reload ex wid st = Some (a, tail, q)"
    "process_signals env wid (fold replay_event tail a) (log_seq wid st) 0 0 (wf_signals w) st
      = (Inr (a', n, wr, en), st1)"
    "(if wf_signals w \<noteq> [] then exec_store (mark_signals_processed wid (length (wf_signals w)))
      else ret_op ()) st1 = (Inr (), st2)"
    "(if any_is_completed a' then record_completion env wid a' else ret_op ()) st2 = (Inr (), st3)"
    "st' = (if any_is_completed a' then st3
            else maybe_save_snapshot env ex wid a' n q
                   (total_event_count (number_from q tail) q + wr) st3)"
    "res = \<lparr>pr_completed = any_is_completed a', pr_events_written = wr, pr_tasks_enqueued = en,
            pr_signals_processed = length (wf_signals w)\<rparr>"
proof -
  let ?info = "\<lparr>wi_id = wid, wi_workflow_type = wf_workflow_type w, wi_status = wf_status w,
        wi_input = wf_input w, wi_result = wf_result w, wi_error = wf_error w,
        wi_continued_as_new_id = wf_continued_as_new_id w\<rparr>"
  have i: "get_workflow_info wid st = (Inr ?info, st)"
    and s: "get_pending_signals wid st = (Inr (wf_signals w), st)"
    using assms(2) by (simp_all add: get_workflow_info_def get_pending_signals_def workflow_rows)
  have l31: "length (wf_events w) < 2 ^ 31" using assms(4) by simp
  have load: "load_workflow_state ex wid ?info st = (Inr (a, events, q), s') \<longleftrightarrow>
      s' = st \<and> (\<exists>tail. reload ex wid st = Some (a, tail, q) \<and> events = number_from q tail)"
    for a events q s'
    using load_workflow_state_eq [OF assms(2) l31, of ?info ex a events q s'] by simp
  have seq: "next_sequence (number_from q tail) q = log_seq wid st"
    if "reload ex wid st = Some (a, tail, q)" for a tail q
    using next_sequence_reload [OF that assms(2,4,5)] assms(2) l31 by (simp add: log_seq_def)
  from assms(1,3) i show ?thesis
    by (auto simp: process_workflow_def bind_op_eq_Inr load s Let_def seq replay_number_from
        intro: that)
qed

lemma mark_signals_history:
  assumes "mark_signals_processed wid n st = (r, st')" and "hm_get (workflows st) wid = Some w"
  shows "st' = st\<lparr>workflows := hm_adjust wid (\<lambda>_. w\<lparr>wf_signals := drop n (wf_signals w)\<rparr>) (workflows st)\<rparr>"
  using assms by (auto simp: mark_signals_processed_def workflow_rows min_def)

lemma record_completion_extends:
  assumes "record_completion env wid a st = (Inr (), st')" and "hm_get (workflows st) wid = Some w"
  shows "extends_history wid [] st st'"
  using assms status_extends_history extends_history_refl
  by (fastforce simp: record_completion_def split: option.splits)

text \<open>
  Up to the snapshot, one pass appends events that replay as the signals did, and consumes the
  signals it read.
\<close>

lemma process_workflow_before_snapshot:
  assumes "process_workflow env ex wid st = (Inr res, st')"
    and "hm_get (workflows st) wid = Some w" and "\<not> status_is_terminal (wf_status w)"
    and "length (wf_events w) < 2 ^ 31 - 1" and "snapshots_within wid st"
  obtains a tail q evs w3 st3 n t where
    "reload ex wid st = Some (a, tail, q)"
    "fold replay_event evs (fold replay_event tail a)
      = after_signals (wf_signals w) (fold replay_event tail a)"
    "filter (\<lambda>e. \<not> informational e) evs = map SignalReceived (wf_signals w)"
    "hm_get (workflows st3) wid = Some w3" "wf_events w3 = wf_events w @ evs"
    "wf_workflow_type w3 = wf_workflow_type w" "wf_input w3 = wf_input w" "wf_signals w3 = []"
    "snapshots st3 = snapshots st" "n = as_i32 (length (wf_events w @ evs))"
    "st' = st3 \<or> st' = maybe_save_snapshot env ex wid
        (after_signals (wf_signals w) (fold replay_event tail a)) n q t st3"
    "pr_events_written res = length evs"
proof -
  obtain a tail q a' n wr en st1 st2 st3 where
    load: "reload ex wid st = Some (a, tail, q)" and
    sig: "process_signals env wid (fold replay_event tail a) (log_seq wid st) 0 0 (wf_signals w) st
      = (Inr (a', n, wr, en), st1)" and
    mark: "(if wf_signals w \<noteq> [] then exec_store (mark_signals_processed wid (length (wf_signals w)))
      else ret_op ()) st1 = (Inr (), st2)" and
    comp: "(if any_is_completed a' then record_completion env wid a' else ret_op ()) st2
      = (Inr (), st3)" and
    last: "st' = (if any_is_completed a' then st3
            else maybe_save_snapshot env ex wid a' n q
                   (total_event_count (number_from q tail) q + wr) st3)" and
    res: "res = \<lparr>pr_completed = any_is_completed a', pr_events_written = wr, pr_tasks_enqueued = en,
            pr_signals_processed = length (wf_signals w)\<rparr>"
    by (rule process_workflow_inv [OF assms])
  from process_signals_extends [OF sig refl assms(2)] obtain evs where
    evs: "extends_history wid evs st st1" "n = log_seq wid st1" "wr = length evs"
    "a' = after_signals (wf_signals w) (fold replay_event tail a)"
    "fold replay_event evs (fold replay_event tail a) = a'"
    "filter (\<lambda>e. \<not> informational e) evs = map SignalReceived (wf_signals w)" by auto
  from evs(1) assms(2) obtain w1 where w1: "hm_get (workflows st1) wid = Some w1"
    "wf_events w1 = wf_events w @ evs" "wf_workflow_type w1 = wf_workflow_type w"
    "wf_input w1 = wf_input w" "wf_signals w1 = wf_signals w" "snapshots st1 = snapshots st"
    by (auto simp: extends_history_def)
  have w2: "hm_get (workflows st2) wid = Some (w1\<lparr>wf_signals := []\<rparr>)" "snapshots st2 = snapshots st1"
    using mark w1 mark_signals_history [of wid "length (wf_signals w)" st1 "Inr ()" st2 w1]
    by (auto split: if_splits)
  have e3: "extends_history wid [] st2 st3"
    using comp w2(1) record_completion_extends extends_history_refl
    by (fastforce split: if_splits)
  then obtain w3 where w3: "hm_get (workflows st3) wid = Some w3" "wf_events w3 = wf_events w1"
    "wf_workflow_type w3 = wf_workflow_type w1" "wf_input w3 = wf_input w1" "wf_signals w3 = []"
    "snapshots st3 = snapshots st2"
    using w2(1) by (auto simp: extends_history_def)
  have "n = as_i32 (length (wf_events w @ evs))" using evs(2) w1 by (simp add: log_seq_def)
  with w3 w2 w1 evs load last res show ?thesis by (intro that [of a tail q evs st3 w3 n]) auto
qed

lemma snapshots_within_extend:
  assumes "snapshots_within wid st" and "hm_get (workflows st) wid = Some w"
    and "hm_get (workflows st') wid = Some w'" and "wf_events w' = wf_events w @ evs"
    and "snapshots st' = snapshots st"
  shows "snapshots_within wid st'"
  using assms by (auto simp: snapshots_within_def snapshots_of_def)

lemma rebuild_after_save:
  assumes "hm_get (workflows st) wid = Some w" and "length (wf_events w) < 2 ^ 31"
    and "latest wid st = Some s" and "sn_sequence_num s = int (length (wf_events w)) - 1"
    and "registered (ex_registry ex) (wf_workflow_type w) W" and "w_from_value W (wf_input w) = Inr i"
    and "restores W i" and "wrapped b = W" and "any_serialize_state b = Some (sn_snapshot_data s)"
  shows "rebuild ex wid st = (Inr b, st)"
proof -
  have "restore_from_snapshot (ex_registry ex) (wf_workflow_type w) (wf_input w) (sn_snapshot_data s)
      = Some b"
    using assms(7-9) by (simp add: registered_restore [OF assms(5,6)] restores_def any_serialize_state_def)
  moreover have "log_after (sn_sequence_num s) (wf_events w) = []"
    using assms(4) by (simp add: log_after_def)
  ultimately have "reload ex wid st = Some (b, [], Some (sn_sequence_num s))"
    using assms(1,3) by (simp add: reload_def loaded_def)
  then show ?thesis using rebuild_eq [OF assms(1,2), of ex b st] by auto
qed

text \<open>
  C1. Durability of a pass: after \<open>process_workflow\<close>, a restart that reloads the workflow (from
  the latest snapshot or from the whole log) rebuilds exactly the state the pass computed in
  memory, namely the state before it, advanced by the pending signals in order; the log gained
  one \<open>SignalReceived\<close> event per signal, the signals are consumed, and the snapshots stay within
  the log. Taking a snapshot, or not, makes no difference to what is rebuilt. The workflow
  implementation restores what it serializes; the log stays within the configured maximum.
\<close>

theorem process_workflow_durable:
  assumes "process_workflow env ex wid st = (Inr res, st')"
    and "hm_get (workflows st) wid = Some w" and "\<not> status_is_terminal (wf_status w)"
    and "registered (ex_registry ex) (wf_workflow_type w) W" and "w_from_value W (wf_input w) = Inr i"
    and "restores W i" and "snapshots_within wid st" and "wf_events w \<noteq> []"
    and "length (wf_events w) < 2 ^ 31 - 1" and "hm_get (workflows st') wid = Some w'"
    and "length (wf_events w') \<le> max_events_per_workflow (ex_config ex)"
    and "max_events_per_workflow (ex_config ex) < 2 ^ 31 - 1"
  shows "\<exists>a. rebuild ex wid st = (Inr a, st)
    \<and> rebuild ex wid st' = (Inr (after_signals (wf_signals w) a), st')
    \<and> wf_signals w' = [] \<and> snapshots_within wid st'
    \<and> (\<exists>evs. wf_events w' = wf_events w @ evs \<and> length evs = pr_events_written res
         \<and> filter (\<lambda>e. \<not> informational e) evs = map SignalReceived (wf_signals w))"
proof -
  obtain a tail q evs w3 st3 n t where
    load: "reload ex wid st = Some (a, tail, q)" and
    evs: "fold replay_event evs (fold replay_event tail a)
      = after_signals (wf_signals w) (fold replay_event tail a)"
    "filter (\<lambda>e. \<not> informational e) evs = map SignalReceived (wf_signals w)" and
    w3: "hm_get (workflows st3) wid = Some w3" "wf_events w3 = wf_events w @ evs"
    "wf_workflow_type w3 = wf_workflow_type w" "wf_input w3 = wf_input w" "wf_signals w3 = []" and
    snaps: "snapshots st3 = snapshots st" and n: "n = as_i32 (length (wf_events w @ evs))" and
    last: "st' = st3 \<or> st' = maybe_save_snapshot env ex wid
        (after_signals (wf_signals w) (fold replay_event tail a)) n q t st3" and
    res: "pr_events_written res = length evs"
    by (rule process_workflow_before_snapshot [OF assms(1-3,9,7)])
  let ?a = "fold replay_event tail a"
  let ?b = "after_signals (wf_signals w) ?a"
  have st': "st' = st3 \<or> (\<exists>now data. any_serialize_state ?b = Some data
      \<and> st' = snd (save_snapshot now wid (wrap_i32 (n - 1)) data st3))"
    using last maybe_save_cases [of env ex wid ?b n q t st3] by metis
  then have w': "w' = w3" using assms(10) w3(1) by auto
  have len: "length (wf_events w3) < 2 ^ 31 - 1" using assms(11,12) w' by simp
  have within3: "snapshots_within wid st3"
    by (rule snapshots_within_extend [OF assms(7,2) w3(1,2) snaps])
  have "reload ex wid st3 = Some (a, tail @ evs, q)"
    using load assms(2,11) w' w3 latest_within [OF assms(7) _ assms(2)] snaps
    by (auto simp: reload_def latest_def snapshots_of_def intro!: loaded_extend)
  then have r3: "rebuild ex wid st3 = (Inr ?b, st3)"
    using rebuild_eq [OF w3(1), of ex ?b st3] len evs(1) by auto
  have r: "rebuild ex wid st = (Inr ?a, st)"
    using rebuild_eq [OF assms(2), of ex ?a st] load assms(9) by auto
  have wrapped: "wrapped ?b = W"
    using loaded_wrapped [OF _ assms(4,5)] load assms(2) by (auto simp: reload_def)
  have "rebuild ex wid st' = (Inr ?b, st') \<and> snapshots_within wid st'"
  proof (cases "st' = st3")
    case True
    with r3 within3 show ?thesis by simp
  next
    case False
    with st' obtain now data where d: "any_serialize_state ?b = Some data"
      "st' = snd (save_snapshot now wid (wrap_i32 (n - 1)) data st3)" by blast
    have n': "wrap_i32 (n - 1) = int (length (wf_events w3)) - 1"
      using n len w3(2) assms(8) by (cases "wf_events w") simp_all
    have ne: "wf_events w3 \<noteq> []" using w3(2) assms(8) by simp
    note save = snapshots_within_save [OF within3 w3(1) n' ne, of now data, folded d(2)]
    from save(2) obtain s where s: "latest wid st' = Some s"
      "sn_sequence_num s = int (length (wf_events w3)) - 1" "sn_snapshot_data s = data"
      using n' by auto
    have "rebuild ex wid st' = (Inr ?b, st')"
      by (rule rebuild_after_save [OF _ _ s(1,2) _ _ assms(6) wrapped])
        (use w3 d s(3) len assms(4,5) in simp_all)
    with save(1) show ?thesis by simp
  qed
  with r evs(2) w3(2,5) res w' show ?thesis by auto
qed

section \<open>Success of actions\<close>

lemma append_events_at_end:
  assumes "hm_get (workflows st) wid = Some w"
  shows "append_events wid (log_seq wid st) evs st
    = (Inr (as_i32 (length (wf_events w @ evs))),
       st\<lparr>workflows := hm_adjust wid (\<lambda>_. w\<lparr>wf_events := wf_events w @ evs\<rparr>) (workflows st)\<rparr>)"
  using assms by (simp add: append_events_def workflow_rows log_seq_def)

lemma update_status_row:
  assumes "hm_get (workflows st) wid = Some w"
  shows "update_workflow_status now wid s r e st
    = (Inr (), st\<lparr>workflows := hm_adjust wid (\<lambda>_. set_status now s r e w) (workflows st)\<rparr>)"
  using assms by (simp add: update_workflow_status_def workflow_rows)

lemma enqueue_workflow_task:
  assumes "td_workflow_id d = Some wid" and "hm_get (tasks st) i = None"
    and "pending_for (Some wid) (tasks st) < unat (max_pending_tasks_per_workflow st)"
  shows "enqueue_task now i d st
      = (Inr i, st\<lparr>tasks := hm_insert i (new_task now d) (tasks st)\<rparr>)"
    and "pending_for (Some wid) (hm_insert i (new_task now d) (tasks st))
      = Suc (pending_for (Some wid) (tasks st))"
proof -
  have "unat (max_pending_tasks_per_workflow st) < 2 ^ 32"
    using unsigned_less [of "max_pending_tasks_per_workflow st"] by simp
  with assms have "as_u32 (pending_for (Some wid) (tasks st)) < max_pending_tasks_per_workflow st"
    by (simp add: word_less_nat_alt)
  with assms show "enqueue_task now i d st
      = (Inr i, st\<lparr>tasks := hm_insert i (new_task now d) (tasks st)\<rparr>)"
    by (simp add: enqueue_task_def Let_def not_le)
  show "pending_for (Some wid) (hm_insert i (new_task now d) (tasks st))
      = Suc (pending_for (Some wid) (tasks st))"
    using assms by (simp add: pending_for_def filter_insert_fresh new_task_def)
qed

lemma exec_store_Inr: "m st = (Inr x, st') \<Longrightarrow> exec_store m st = (Inr x, st')"
  by simp

lemma exec_store_Inl: "m st = (Inl e, st') \<Longrightarrow> exec_store m st = (Inl (EStore e), st')"
  by (simp add: exec_store_eq_Inl)

text \<open>Identifiers are unique: a fresh one names no task.\<close>

definition fresh_ids :: "exec_env \<Rightarrow> bool" where
  "fresh_ids env \<longleftrightarrow> (\<forall>st. hm_get (tasks st) (fresh_uuid env st) = None)"

lemma process_action_succeeds:
  assumes "hm_get (workflows st) wid = Some w" and "n = log_seq wid st" and "fresh_ids env"
    and "is_schedule a \<Longrightarrow>
      pending_for (Some wid) (tasks st) < unat (max_pending_tasks_per_workflow st)"
  shows "\<exists>m wr en st'. process_action env wid n a st = (Inr (m, wr, en), st')
    \<and> pending_for (Some wid) (tasks st')
        = pending_for (Some wid) (tasks st) + (if is_schedule a then 1 else 0)
    \<and> max_pending_tasks_per_workflow st' = max_pending_tasks_per_workflow st"
proof (cases a)
  case (ScheduleActivity i t inp opts)
  let ?st = "st\<lparr>workflows := hm_adjust wid
      (\<lambda>_. w\<lparr>wf_events := wf_events w @ [ActivityScheduled i t inp opts]\<rparr>) (workflows st)\<rparr>"
  have room: "pending_for (Some wid) (tasks ?st) < unat (max_pending_tasks_per_workflow ?st)"
    using assms(4) ScheduleActivity by (simp add: is_schedule_def)
  have new: "hm_get (tasks ?st) (fresh_uuid env ?st) = None"
    using assms(3) unfolding fresh_ids_def by blast
  note enq = enqueue_workflow_task [OF _ new room]
  show ?thesis
    using append_events_at_end [OF assms(1)] enq assms(2) ScheduleActivity
    by (simp add: bind_op_def exec_store_Inr is_schedule_def)
next
  case NoAction
  then show ?thesis by (simp add: is_schedule_def)
qed (use append_events_at_end [OF assms(1)] assms(1,2) in
  \<open>simp_all add: bind_op_def exec_store_def map_err_op_def is_schedule_def update_status_row\<close>)

lemma process_actions_succeed:
  assumes "hm_get (workflows st) wid = Some w" and "n = log_seq wid st" and "fresh_ids env"
    and "pending_for (Some wid) (tasks st) + length (filter is_schedule as)
      \<le> unat (max_pending_tasks_per_workflow st)"
  shows "\<exists>r st'. process_actions_loop env wid n wr en as st = (Inr r, st')
    \<and> pending_for (Some wid) (tasks st')
        = pending_for (Some wid) (tasks st) + length (filter is_schedule as)"
  using assms
proof (induction as arbitrary: n wr en st w)
  case Nil
  then show ?case by simp
next
  case (Cons a as)
  then obtain m w1 e1 st1 where 1: "process_action env wid n a st = (Inr (m, w1, e1), st1)"
    "pending_for (Some wid) (tasks st1)
      = pending_for (Some wid) (tasks st) + (if is_schedule a then 1 else 0)"
    "max_pending_tasks_per_workflow st1 = max_pending_tasks_per_workflow st"
    using process_action_succeeds [OF Cons.prems(1-3), of a] by fastforce
  from process_action_extends [OF 1(1) Cons.prems(2,1)] obtain evs where
    "extends_history wid evs st st1" and m: "m = log_seq wid st1" by blast
  then obtain w' where "hm_get (workflows st1) wid = Some w'" using extends_has_row by blast
  from Cons.IH [OF this m Cons.prems(3), of "wr + w1" "en + e1"] Cons.prems(4) 1
  show ?case by (auto split: if_splits)
qed

text \<open>
  The actions a workflow returns are carried out: with room in the queue for the activities
  among them, every action other than \<open>None\<close> is recorded by its event, in order, at the end of
  the log; each scheduled activity adds one pending task; the returned sequence number is the
  length of the log and the counters are exact.
\<close>

theorem process_actions_complete:
  assumes "hm_get (workflows st) wid = Some w" and "n = log_seq wid st" and "fresh_ids env"
    and "pending_for (Some wid) (tasks st) + length (filter is_schedule as)
      \<le> unat (max_pending_tasks_per_workflow st)"
  shows "\<exists>evs st'. process_actions_internal env wid n as st
      = (Inr (log_seq wid st', length evs, length (filter is_schedule as)), st')
    \<and> extends_history wid evs st st'
    \<and> list_all2 action_event (filter (\<lambda>a. a \<noteq> NoAction) as) evs
    \<and> pending_for (Some wid) (tasks st')
        = pending_for (Some wid) (tasks st) + length (filter is_schedule as)"
proof -
  obtain m wr en st' where r: "process_actions_loop env wid n 0 0 as st = (Inr (m, wr, en), st')"
    and p: "pending_for (Some wid) (tasks st')
        = pending_for (Some wid) (tasks st) + length (filter is_schedule as)"
    using process_actions_succeed [OF assms, of 0 0] by auto
  from process_actions_extends [OF r assms(2,1)] p r show ?thesis
    unfolding process_actions_internal_def by auto
qed

text \<open>
  Scheduling is not atomic: with the workflow's queue full, the action that schedules an
  activity fails with \<open>TaskQueueLimitExceeded\<close> after it has recorded \<open>ActivityScheduled\<close>, so the
  log holds the event of an activity that has no task.
\<close>

theorem schedule_at_limit_leaves_event:
  assumes "hm_get (workflows st) wid = Some w" and "n = log_seq wid st"
    and "pending_for (Some wid) (tasks st) = unat (max_pending_tasks_per_workflow st)"
  shows "\<exists>st'. process_action env wid n (ScheduleActivity i t inp opts) st
      = (Inl (EStore (TaskQueueLimitExceeded wid (max_pending_tasks_per_workflow st)
           (max_pending_tasks_per_workflow st))), st')
    \<and> log_of st' wid = Some (wf_events w @ [ActivityScheduled i t inp opts])
    \<and> tasks st' = tasks st"
  using append_events_at_end [OF assms(1)] assms
  by (simp add: bind_op_def exec_store_Inr exec_store_Inl enqueue_task_def Let_def as_u32_def log_of_def)

section \<open>Entry points\<close>

lemma record_completion_tasks: "tasks (snd (record_completion env wid a st)) = tasks st"
  by (simp add: record_completion_def exec_store_def map_err_op_def update_workflow_status_def
      with_workflow_def split: option.splits prod.splits sum.splits)

lemma maybe_save_frame [simp]:
  "tasks (maybe_save_snapshot env ex wid a n q t st) = tasks st"
  "workflows (maybe_save_snapshot env ex wid a n q t st) = workflows st"
  by (simp_all add: maybe_save_snapshot_def Let_def ignore_op_def save_snapshot_def split: option.splits)

lemma process_workflow_idle:
  assumes "process_workflow env ex wid st = (Inr res, st')"
    and "hm_get (workflows st) wid = Some w" and "\<not> status_is_terminal (wf_status w)"
    and "length (wf_events w) < 2 ^ 31 - 1" and "snapshots_within wid st" and "wf_signals w = []"
  shows "pr_events_written res = 0 \<and> pr_tasks_enqueued res = 0 \<and> tasks st' = tasks st
    \<and> log_of st' wid = Some (wf_events w)"
proof -
  obtain a tail q a' n wr en st1 st2 st3 where
    sig: "process_signals env wid (fold replay_event tail a) (log_seq wid st) 0 0 (wf_signals w) st
      = (Inr (a', n, wr, en), st1)" and
    mark: "(if wf_signals w \<noteq> [] then exec_store (mark_signals_processed wid (length (wf_signals w)))
      else ret_op ()) st1 = (Inr (), st2)" and
    comp: "(if any_is_completed a' then record_completion env wid a' else ret_op ()) st2
      = (Inr (), st3)" and
    st': "st' = (if any_is_completed a' then st3
            else maybe_save_snapshot env ex wid a' n q
                   (total_event_count (number_from q tail) q + wr) st3)" and
    res: "res = \<lparr>pr_completed = any_is_completed a', pr_events_written = wr, pr_tasks_enqueued = en,
            pr_signals_processed = length (wf_signals w)\<rparr>"
    by (rule process_workflow_inv [OF assms(1-5)])
  from sig mark assms(6) have z: "wr = 0" "en = 0" "st2 = st" by auto
  note c = comp [unfolded z(3)]
  have "tasks st3 = tasks st"
    using c record_completion_tasks [of env wid a' st] by (auto split: if_splits)
  moreover have "extends_history wid [] st st3"
    using c record_completion_extends [of env wid a' st st3] extends_history_refl assms(2)
    by (auto split: if_splits)
  ultimately show ?thesis
    using st' res z assms(2) by (auto simp: extends_history_def log_of_def)
qed

text \<open>
  Replay drops the actions it gets back: when an activity completes and no signal is
  pending, \<open>on_activity_completed\<close> records the completion but writes no further event and
  enqueues no task, whatever actions the workflow's handler returns for that completion.
\<close>

theorem completion_schedules_nothing:
  assumes "on_activity_completed env (\<lambda>s. s) ex wid activity_id result st = (Inr res, st')"
    and "hm_get (workflows st) wid = Some w" and "\<not> status_is_terminal (wf_status w)"
    and "length (wf_events w) < 2 ^ 31 - 2" and "snapshots_within wid st" and "wf_signals w = []"
  shows "pr_events_written res = 0 \<and> pr_tasks_enqueued res = 0 \<and> tasks st' = tasks st
    \<and> log_of st' wid = Some (wf_events w @ [ActivityCompleted activity_id result])"
proof -
  let ?w = "w\<lparr>wf_events := wf_events w @ [ActivityCompleted activity_id result]\<rparr>"
  let ?st = "st\<lparr>workflows := hm_adjust wid (\<lambda>_. ?w) (workflows st)\<rparr>"
  have seq: "log_seq wid st = as_i32 (length (wf_events w))" using assms(2) by (simp add: log_seq_def)
  have "append_at_end (\<lambda>s. s) wid (ActivityCompleted activity_id result) st
      = (Inr (as_i32 (length (wf_events ?w))), ?st)"
    using append_events_at_end [OF assms(2), unfolded seq] assms(2)
    by (simp add: append_at_end_def bind_op_def exec_store_Inr count_events_def workflow_rows)
  with assms(1) have p: "process_workflow env ex wid ?st = (Inr res, st')"
    by (simp add: on_activity_completed_def)
  have "hm_get (workflows ?st) wid = Some ?w" using assms(2) by simp
  moreover from this have "snapshots_within wid ?st"
    by (rule snapshots_within_extend [OF assms(5,2)]) simp_all
  ultimately show ?thesis
    using process_workflow_idle [OF p, of ?w] assms(3,4,6) by simp
qed

text \<open>
  Lost updates are excluded: if another client appends to the log between the moment a
  handler read its length and its own append, the handler fails with \<open>ConcurrencyConflict\<close> and
  leaves the store as the other client left it.
\<close>

theorem completion_conflict:
  assumes "log_of st wid = Some es" and "log_of (interf st) wid = Some (es @ fs)" and "fs \<noteq> []"
    and "length (es @ fs) < 2 ^ 31"
  shows "on_activity_completed env interf ex wid activity_id result st
    = (Inl (EStore (ConcurrencyConflict (int (length es)) (int (length (es @ fs))))), interf st)"
proof -
  have "count_events wid st = (Inr (length es), st)" by (rule mem_log.count_current [OF assms(1)])
  moreover have "append_events wid (int (length es)) [ActivityCompleted activity_id result] (interf st)
      = (Inl (ConcurrencyConflict (int (length es)) (int (length (es @ fs)))), interf st)"
    using mem_log.append_stale [OF assms(2), of "int (length es)"] assms(3,4) by simp
  ultimately show ?thesis
    using assms(4)
    by (simp add: on_activity_completed_def append_at_end_def bind_op_def exec_store_Inr exec_store_Inl)
qed

text \<open>
  A started workflow can be recovered: when \<open>start_workflow\<close> returns, a restart rebuilds the
  state \<open>on_start\<close> left, the log begins with \<open>WorkflowStarted\<close>, and the workflow is running
  unless one of its first actions completed or failed it. The input type round-trips through
  JSON, and the new identifier has no snapshots.
\<close>

theorem start_workflow_recoverable:
  assumes "start_workflow env W input st = (Inr wid, st')"
    and "w_to_value W input = Inr j" and "w_from_value W j = Inr input"
    and "registered (ex_registry ex) (w_TYPE W) W" and "snapshots_of st wid = []"
    and "hm_get (workflows st') wid = Some w'"
    and "length (wf_events w') \<le> max_events_per_workflow (ex_config ex)"
    and "max_events_per_workflow (ex_config ex) < 2 ^ 31"
  shows "rebuild ex wid st' = (Inr \<lparr>wrapped = W, inner = snd (w_on_start W (w_new W input))\<rparr>, st')
    \<and> hd (wf_events w') = WorkflowStarted j
    \<and> (\<not> list_ex completes_workflow (fst (w_on_start W (w_new W input))) \<longrightarrow> wf_status w' = WfRunning)"
proof -
  let ?as = "fst (w_on_start W (w_new W input))"
  from assms(1,2) obtain st1 st2 st3 m where
    1: "\<exists>now. create_workflow now wid (w_TYPE W) j st = (Inr (), st1)" and
    2: "append_events wid 0 [WorkflowStarted j] st1 = (Inr m, st2)" and
    3: "process_actions env wid 1 ?as st2 = (Inr (), st3)" and
    4: "if list_ex completes_workflow ?as then st' = st3
        else \<exists>now. update_workflow_status now wid WfRunning None None st3 = (Inr (), st')"
    by (auto simp: start_workflow_def Let_def bind_op_eq_Inr split: if_splits) blast+
  from 1 obtain w1 where w1: "hm_get (workflows st1) wid = Some w1" "wf_events w1 = []"
    "wf_workflow_type w1 = w_TYPE W" "wf_input w1 = j" "snapshots st1 = snapshots st"
    by (auto simp: create_workflow_def)
  note x2 = append_extends_history(1) [OF 2]
  have seq: "log_seq wid st2 = 1" using x2 w1 by (auto simp: log_seq_def extends_history_def)
  obtain w2 where w2: "hm_get (workflows st2) wid = Some w2" using extends_has_row [OF x2] ..
  from 3 obtain n3 wr en where loop: "process_actions_loop env wid 1 0 0 ?as st2 = (Inr (n3, wr, en), st3)"
    by (auto simp: process_actions_def process_actions_internal_def bind_op_eq_Inr)
  obtain evs where x3: "extends_history wid evs st2 st3"
    and evs: "list_all2 action_event (filter (\<lambda>a. a \<noteq> NoAction) ?as) evs"
    using process_actions_extends [OF loop seq [symmetric] w2] by blast
  have x4: "extends_history wid [] st3 st'"
    using 4 status_extends_history extends_has_row [OF x3] extends_history_refl
    by (fastforce split: if_splits)
  have "extends_history wid (WorkflowStarted j # evs) st1 st'"
    using extends_history_trans [OF x2 extends_history_trans [OF x3 x4]] by simp
  with w1 assms(6) have w': "wf_events w' = WorkflowStarted j # evs" "wf_workflow_type w' = w_TYPE W"
    "wf_input w' = j" "snapshots st' = snapshots st" by (auto simp: extends_history_def)
  have inf: "list_all informational evs"
    using evs by (auto simp: list_all_length list_all2_conv_all_nth intro: action_event_informational)
  have "reload ex wid st' = Some (\<lparr>wrapped = W, inner = w_new W input\<rparr>, wf_events w', None)"
    using assms(4-7) w' registered_create [OF assms(4,3)]
    by (simp add: reload_def loaded_def latest_def snapshots_of_def)
  moreover have "fold replay_event (wf_events w') \<lparr>wrapped = W, inner = w_new W input\<rparr>
      = \<lparr>wrapped = W, inner = snd (w_on_start W (w_new W input))\<rparr>"
    using w'(1) informational_fold [OF inf]
    by (simp add: any_on_start_def wrapper_step_def case_prod_beta)
  ultimately have "rebuild ex wid st'
      = (Inr \<lparr>wrapped = W, inner = snd (w_on_start W (w_new W input))\<rparr>, st')"
    using rebuild_eq [OF assms(6), of ex _ st'] assms(7,8) by auto
  moreover have "\<not> list_ex completes_workflow ?as \<longrightarrow> wf_status w' = WfRunning"
    using 4 assms(6) extends_has_row [OF x3] by (auto simp: update_status_row)
  ultimately show ?thesis using w'(1) by simp
qed

text \<open>
  Rollover carries the state: after \<open>continue_as_new\<close> the new workflow, whose log holds only
  its start event, rebuilds to exactly the state the old one had, and the old one is closed with
  an empty log.
\<close>

theorem continue_as_new_carries_state:
  assumes "executor_continue_as_new env ex wid st = (Inr new_id, st')"
    and "hm_get (workflows st) wid = Some w" and "length (wf_events w) < 2 ^ 31"
    and "registered (ex_registry ex) (wf_workflow_type w) W" and "w_from_value W (wf_input w) = Inr i"
    and "restores W i" and "new_id \<noteq> wid" and "hm_get (snapshots st) new_id = None"
  shows "\<exists>a. rebuild ex wid st = (Inr a, st) \<and> rebuild ex new_id st' = (Inr a, st')
    \<and> log_of st' new_id = Some [WorkflowStarted (wf_input w)]
    \<and> get_workflow_status wid st' = (Inr WfContinuedAsNew, st') \<and> log_of st' wid = Some []"
proof -
  let ?info = "\<lparr>wi_id = wid, wi_workflow_type = wf_workflow_type w, wi_status = wf_status w,
        wi_input = wf_input w, wi_result = wf_result w, wi_error = wf_error w,
        wi_continued_as_new_id = wf_continued_as_new_id w\<rparr>"
  have i: "get_workflow_info wid st = (Inr ?info, st)"
    using assms(2) by (simp add: get_workflow_info_def workflow_rows)
  from assms(1) i obtain a events q data st1 where
    load: "load_workflow_state ex wid ?info st = (Inr (a, events, q), st1)" and
    ser: "any_serialize_state (replay_events events a) = Some data" and
    new: "continue_as_new (clock env st1) (clock env st1) (fresh_uuid env st1) wid
            (wf_workflow_type w) (wf_input w) data st1 = (Inr new_id, st')"
    by (auto simp: executor_continue_as_new_def bind_op_eq_Inr split: if_splits option.splits)
  then obtain tail where tail: "st1 = st" "reload ex wid st = Some (a, tail, q)"
    "events = number_from q tail"
    using load_workflow_state_eq [OF assms(2,3), of ?info ex] by auto
  let ?b = "fold replay_event tail a"
  have r: "rebuild ex wid st = (Inr ?b, st)"
    using rebuild_eq [OF assms(2,3), of ex ?b st] tail(2) by auto
  have wr: "wrapped ?b = W"
    using loaded_wrapped [OF _ assms(4,5)] tail(2) assms(2) by (auto simp: reload_def)
  have st': "new_id = fresh_uuid env st \<and> (\<exists>w'. hm_get (workflows st') new_id = Some w'
      \<and> wf_workflow_type w' = wf_workflow_type w \<and> wf_input w' = wf_input w
      \<and> wf_events w' = [WorkflowStarted (wf_input w)])
      \<and> (\<exists>s. latest new_id st' = Some s \<and> sn_sequence_num s = 0 \<and> sn_snapshot_data s = data)
      \<and> (\<exists>v. hm_get (workflows st') wid = Some v \<and> wf_events v = [] \<and> wf_status v = WfContinuedAsNew)"
    using new tail(1) assms(2,7,8)
    by (auto simp: continue_as_new_def Let_def latest_def snapshots_of_def split: if_splits)
  then obtain w' s where w': "hm_get (workflows st') new_id = Some w'"
    "wf_workflow_type w' = wf_workflow_type w" "wf_input w' = wf_input w"
    "wf_events w' = [WorkflowStarted (wf_input w)]"
    and s: "latest new_id st' = Some s" "sn_sequence_num s = 0" "sn_snapshot_data s = data" by blast
  have "rebuild ex new_id st' = (Inr ?b, st')"
    by (rule rebuild_after_save [OF w'(1) _ s(1) _ _ _ assms(6) wr])
      (use w' s ser assms(4,5) tail in \<open>simp_all add: replay_number_from\<close>)
  with r w' st' show ?thesis by (auto simp: log_of_def get_workflow_status_def workflow_rows)
qed

section \<open>Examples\<close>

text \<open>
  A workflow that counts the signals it receives and asks for a further activity whenever one
  completes; its executor takes a snapshot after every event.
\<close>

definition sample_workflow :: "(unit, nat, nat) workflow_impl" where
  "sample_workflow =
     \<lparr>w_TYPE = ''count'', w_from_value = (\<lambda>_. Inr ()), w_to_value = (\<lambda>_. Inr JNull),
      w_output_value = (\<lambda>_. Inr JNull), w_new = (\<lambda>_. 0), w_on_start = (\<lambda>v. ([], v)),
      w_on_activity_completed =
        (\<lambda>_ _ v. ([ScheduleActivity ''next'' ''act'' JNull activity_options_default], v)),
      w_on_activity_failed = (\<lambda>_ _ v. ([], v)), w_on_timer_fired = (\<lambda>_ v. ([], v)),
      w_on_signal = (\<lambda>_ v. ([], Suc v)), w_is_completed = (\<lambda>_. False), w_result = (\<lambda>_. None),
      w_error = (\<lambda>_. None), w_snapshot_state = (\<lambda>v. Some (replicate v 0)),
      w_restore_state = (\<lambda>_ data. Some (length data))\<rparr>"

definition sample_executor :: "(unit, nat, nat) workflow_executor" where
  "sample_executor =
     executor_register sample_workflow
       (executor_with_config
          \<lparr>max_events_per_workflow = 1000, validate_actions = True, snapshot_interval = 1\<rparr>)"

definition sample_env :: exec_env where
  "sample_env = \<lparr>clock = (\<lambda>_. 0), fresh_uuid = (\<lambda>st. Suc (sum_list (map fst (tasks st))))\<rparr>"

definition sample_row :: "workflow_signal list \<Rightarrow> workflow_state" where
  "sample_row sigs =
     \<lparr>wf_workflow_type = ''count'', wf_status = WfRunning, wf_input = JNull, wf_result = None,
      wf_error = None, wf_events = [WorkflowStarted JNull], wf_signals = sigs, wf_created_at = 0,
      wf_started_at = Some 0, wf_completed_at = None, wf_continued_as_new_id = None\<rparr>"

definition sample_store :: "workflow_signal list \<Rightarrow> store" where
  "sample_store sigs = (store_new None)\<lparr>workflows := [(7, sample_row sigs)]\<rparr>"

lemma sample_registered [simp]:
  "registered (ex_registry sample_executor) ''count'' sample_workflow"
  by (simp add: sample_executor_def executor_register_def sample_workflow_def)

lemma sample_simps [simp]:
  "hm_get (workflows (sample_store sigs)) 7 = Some (sample_row sigs)"
  "wf_workflow_type (sample_row sigs) = ''count''" "wf_input (sample_row sigs) = JNull"
  "wf_events (sample_row sigs) = [WorkflowStarted JNull]" "wf_signals (sample_row sigs) = sigs"
  "wf_status (sample_row sigs) = WfRunning"
  "w_from_value sample_workflow j = Inr ()" "w_to_value sample_workflow u = Inr JNull"
  "w_TYPE sample_workflow = ''count''"
  "max_events_per_workflow (ex_config sample_executor) = 1000"
  "snapshots (sample_store sigs) = []" "tasks (sample_store sigs) = []"
  by (simp_all add: sample_store_def sample_row_def hm_get_def sample_workflow_def
      sample_executor_def executor_register_def executor_with_config_def store_new_def)

lemma sample_restores [simp]: "restores sample_workflow ()"
  by (auto simp: restores_def sample_workflow_def)

lemma sample_within [simp]: "snapshots_within 7 (sample_store sigs)"
  by (simp add: snapshots_within_def snapshots_of_def snapshots_ok_def)

lemma sample_fresh [simp]: "fresh_ids sample_env"
proof -
  have "i \<le> sum_list (map fst ts)" if "hm_get ts i = Some t" for i t and ts :: "(uuid, task_state) hmap"
    using hm_get_Some_in [OF that] by (force intro: member_le_sum_list)
  then have "hm_get ts (Suc (sum_list (map fst ts))) = None" for ts :: "(uuid, task_state) hmap"
    by (metis Suc_n_not_le_n option.exhaust)
  then show ?thesis by (simp add: fresh_ids_def sample_env_def)
qed

lemma sample_reload:
  "reload sample_executor 7 (sample_store sigs)
    = Some (\<lparr>wrapped = sample_workflow, inner = 0\<rparr>, [WorkflowStarted JNull], None)"
  using registered_create [OF sample_registered, of JNull "()"]
  by (simp add: reload_def loaded_def latest_def snapshots_of_def) (simp add: sample_workflow_def)

lemma sample_load:
  "load_workflow_state sample_executor 7 \<lparr>wi_id = 7, wi_workflow_type = ''count'', wi_status = WfRunning,
        wi_input = JNull, wi_result = None, wi_error = None, wi_continued_as_new_id = None\<rparr>
      (sample_store sigs)
    = (Inr (\<lparr>wrapped = sample_workflow, inner = 0\<rparr>, [(0, WorkflowStarted JNull)], None), sample_store sigs)"
  by (rule load_workflow_state_eq [OF sample_simps(1), THEN iffD2])
    (simp_all add: sample_reload number_from_def as_i32_def)

lemma sample_pass:
  "\<exists>res st' w'. process_workflow sample_env sample_executor 7 (sample_store [s])
     = (Inr res, st') \<and> hm_get (workflows st') 7 = Some w' \<and> length (wf_events w') \<le> 1000"
proof -
  have info: "get_workflow_info 7 (sample_store [s]) = (Inr \<lparr>wi_id = 7, wi_workflow_type = ''count'',
      wi_status = WfRunning, wi_input = JNull, wi_result = None, wi_error = None,
      wi_continued_as_new_id = None\<rparr>, sample_store [s])"
    by (simp add: get_workflow_info_def workflow_rows) (simp add: sample_row_def)
  have app: "append_events 7 1 [SignalReceived s] (sample_store [s])
      = (Inr 2, (sample_store [s])\<lparr>workflows := [(7, (sample_row [s])\<lparr>wf_events :=
           [WorkflowStarted JNull, SignalReceived s]\<rparr>)]\<rparr>)" (is "_ = (_, ?st1)")
    using append_events_at_end [of "sample_store [s]" 7 "sample_row [s]" "[SignalReceived s]"]
    by (simp add: log_seq_def as_i32_def) (simp add: sample_store_def hm_adjust_def)
  have mark: "mark_signals_processed 7 1 ?st1
      = (Inr (), ?st1\<lparr>workflows := [(7, (sample_row [s])\<lparr>wf_events :=
           [WorkflowStarted JNull, SignalReceived s], wf_signals := []\<rparr>)]\<rparr>)"
    by (simp add: mark_signals_processed_def with_workflow_def hm_get_def hm_adjust_def)
  have sigs: "get_pending_signals 7 (sample_store [s]) = (Inr [s], sample_store [s])"
    by (simp add: get_pending_signals_def workflow_rows)
  have step: "any_on_signal s \<lparr>wrapped = sample_workflow, inner = n\<rparr>
      = ([], \<lparr>wrapped = sample_workflow, inner = Suc n\<rparr>)"
    "any_on_start \<lparr>wrapped = sample_workflow, inner = n\<rparr> = ([], \<lparr>wrapped = sample_workflow, inner = n\<rparr>)"
    "\<not> any_is_completed \<lparr>wrapped = sample_workflow, inner = n\<rparr>" for n
    by (simp_all add: any_on_start_def any_on_signal_def wrapper_step_def any_is_completed_def
        sample_workflow_def)
  show ?thesis
    by (simp add: process_workflow_def bind_op_def exec_store_Inr info sample_load sigs
        Let_def next_sequence_def replay_events_def as_i32_def app mark [simplified] step
        process_actions_internal_def hm_get_def)
qed

lemma process_workflow_runs:
  assumes "hm_get (workflows st) wid = Some w" and "\<not> status_is_terminal (wf_status w)"
    and "length (wf_events w) < 2 ^ 31 - 1" and "wf_signals w = []"
    and "reload ex wid st = Some (a, tail, q)" and "\<not> any_is_completed (fold replay_event tail a)"
  shows "\<exists>res st'. process_workflow env ex wid st = (Inr res, st')"
proof -
  let ?info = "\<lparr>wi_id = wid, wi_workflow_type = wf_workflow_type w, wi_status = wf_status w,
        wi_input = wf_input w, wi_result = wf_result w, wi_error = wf_error w,
        wi_continued_as_new_id = wf_continued_as_new_id w\<rparr>"
  have "get_workflow_info wid st = (Inr ?info, st)" "get_pending_signals wid st = (Inr [], st)"
    using assms(1,4) by (simp_all add: get_workflow_info_def get_pending_signals_def workflow_rows)
  moreover have "load_workflow_state ex wid ?info st = (Inr (a, number_from q tail, q), st)"
    by (rule load_workflow_state_eq [OF assms(1), THEN iffD2]) (use assms(3,5) in auto)
  ultimately show ?thesis
    using assms(2,6)
    by (simp add: process_workflow_def bind_op_def exec_store_Inr Let_def replay_number_from)
qed

theorem process_workflow_durable_witness:
  "\<exists>res st' a. process_workflow sample_env sample_executor 7 (sample_store [signal_shutdown 5])
       = (Inr res, st')
     \<and> rebuild sample_executor 7 (sample_store [signal_shutdown 5]) = (Inr a, sample_store [signal_shutdown 5])
     \<and> rebuild sample_executor 7 st' = (Inr (after_signals [signal_shutdown 5] a), st')"
proof -
  obtain res st' w' where p: "process_workflow sample_env sample_executor 7
      (sample_store [signal_shutdown 5]) = (Inr res, st')"
    and w': "hm_get (workflows st') 7 = Some w'" "length (wf_events w') \<le> 1000"
    using sample_pass by blast
  from process_workflow_durable [OF p sample_simps(1) _ _ _ sample_restores sample_within _ _ w'(1)] w'(2) p
  show ?thesis by auto
qed

theorem process_actions_complete_witness:
  "\<exists>(evs :: workflow_event list) st'. process_actions_internal sample_env 7 1
       [ScheduleActivity ''a'' ''act'' JNull activity_options_default, NoAction, CancelActivity ''b'']
       (sample_store []) = (Inr (log_seq 7 st', length evs, 1), st')
     \<and> pending_for (Some 7) (tasks st') = 1"
proof -
  let ?as = "[ScheduleActivity ''a'' ''act'' JNull activity_options_default, NoAction, CancelActivity ''b'']"
  have f: "length (filter is_schedule ?as) = 1" by (simp add: is_schedule_def)
  have m: "max_pending_tasks_per_workflow (sample_store []) = 100"
    by (simp add: sample_store_def store_new_def max_pending_tasks_per_workflow_from_env_def
        DEFAULT_MAX_PENDING_TASKS_PER_WORKFLOW_def)
  have p: "pending_for (Some 7) (tasks (sample_store [])) = 0"
    by (simp add: pending_for_def hm_values_def)
  have n: "1 = log_seq 7 (sample_store [])" by (simp add: log_seq_def as_i32_def)
  from process_actions_complete [OF sample_simps(1) n sample_fresh, of ?as]
  show ?thesis unfolding f m p by (simp del: One_nat_def) blast
qed

theorem schedule_at_limit_leaves_event_witness:
  "\<exists>st'. log_of st' 7 = Some [WorkflowStarted JNull,
        ActivityScheduled ''a'' ''act'' JNull activity_options_default] \<and> tasks st' = []"
proof -
  let ?st = "(sample_store [])\<lparr>max_pending_tasks_per_workflow := 0\<rparr>"
  have "hm_get (workflows ?st) 7 = Some (sample_row [])" by simp
  moreover have "1 = log_seq 7 ?st" by (simp add: log_seq_def as_i32_def)
  moreover have "pending_for (Some 7) (tasks ?st) = unat (max_pending_tasks_per_workflow ?st)"
    by (simp add: pending_for_def hm_values_def)
  ultimately show ?thesis
    using schedule_at_limit_leaves_event [of ?st 7 "sample_row []" 1 sample_env "''a''" "''act''" JNull
        activity_options_default] by auto
qed

theorem completion_schedules_nothing_witness:
  "\<exists>res st'. on_activity_completed sample_env (\<lambda>s. s) sample_executor 7 ''a'' JNull (sample_store [])
       = (Inr res, st') \<and> tasks st' = []"
proof -
  let ?e = "ActivityCompleted ''a'' JNull"
  let ?w = "(sample_row [])\<lparr>wf_events := [WorkflowStarted JNull, ?e]\<rparr>"
  let ?st = "(sample_store [])\<lparr>workflows := hm_adjust 7 (\<lambda>_. ?w) (workflows (sample_store []))\<rparr>"
  have a: "append_at_end (\<lambda>s. s) 7 ?e (sample_store []) = (Inr 2, ?st)"
    using append_events_at_end [of "sample_store []" 7 "sample_row []" "[?e]"]
    by (simp add: append_at_end_def bind_op_def exec_store_Inr count_events_def workflow_rows
        log_seq_def as_i32_def)
  have w: "hm_get (workflows ?st) 7 = Some ?w" by simp
  have w2: "\<not> status_is_terminal (wf_status ?w)" "length (wf_events ?w) < 2 ^ 31 - 1" "wf_signals ?w = []"
    by simp_all
  have load: "reload sample_executor 7 ?st
      = Some (\<lparr>wrapped = sample_workflow, inner = 0\<rparr>, [WorkflowStarted JNull, ?e], None)"
    using registered_create [OF sample_registered, of JNull "()"]
    by (simp add: reload_def loaded_def latest_def snapshots_of_def) (simp add: sample_workflow_def)
  have nc: "\<not> any_is_completed (b :: (unit, nat, nat) workflow_wrapper)" if "wrapped b = sample_workflow" for b
    using that by (simp add: any_is_completed_def sample_workflow_def)
  obtain res st' where "process_workflow sample_env sample_executor 7 ?st = (Inr res, st')"
    using process_workflow_runs [OF w w2 load nc [OF wrapped_fold [THEN trans]], of sample_env] by auto
  then have p: "on_activity_completed sample_env (\<lambda>s. s) sample_executor 7 ''a'' JNull (sample_store [])
      = (Inr res, st')" by (simp add: on_activity_completed_def a)
  from completion_schedules_nothing [OF p sample_simps(1) _ _ sample_within] p show ?thesis by simp
qed

theorem completion_conflict_witness:
  "fst (on_activity_completed sample_env (\<lambda>s. snd (append_events 7 1 [TimerFired ''t''] s))
      sample_executor 7 ''a'' JNull (sample_store []))
    = Inl (EStore (ConcurrencyConflict 1 2))"
proof -
  let ?f = "\<lambda>s. snd (append_events 7 1 [TimerFired ''t''] s)"
  have 1: "log_of (sample_store []) 7 = Some [WorkflowStarted JNull]" by (simp add: log_of_def)
  have 2: "log_of (?f (sample_store [])) 7 = Some ([WorkflowStarted JNull] @ [TimerFired ''t''])"
    using append_events_at_end [of "sample_store []" 7 "sample_row []" "[TimerFired ''t'']"]
    by (simp add: log_seq_def as_i32_def log_of_def)
  show ?thesis using completion_conflict [OF 1, of ?f, OF 2, of sample_env sample_executor] by simp
qed

theorem start_workflow_recoverable_witness:
  "\<exists>st'. start_workflow sample_env sample_workflow () (store_new None) = (Inr 1, st')
     \<and> rebuild sample_executor 1 st' = (Inr \<lparr>wrapped = sample_workflow, inner = 0\<rparr>, st')"
proof -
  have on: "w_on_start sample_workflow v = ([], v)" "w_new sample_workflow () = 0" for v
    by (simp_all add: sample_workflow_def)
  have id: "fresh_uuid sample_env (store_new None) = 1" by (simp add: sample_env_def store_new_def)
  obtain st' w' where s: "start_workflow sample_env sample_workflow () (store_new None) = (Inr 1, st')"
    and w': "hm_get (workflows st') 1 = Some w'" "length (wf_events w') \<le> 1000"
    by (simp add: start_workflow_def Let_def id on bind_op_def exec_store_def map_err_op_def
        process_actions_def process_actions_internal_def wf_ops with_workflow_def as_i32_def)
  have reg: "registered (ex_registry sample_executor) (w_TYPE sample_workflow) sample_workflow" by simp
  have sn: "snapshots_of (store_new None) 1 = []" by (simp add: snapshots_of_def store_new_def)
  show ?thesis
    using start_workflow_recoverable [OF s _ _ reg sn w'(1)] w'(2) s by (simp add: on)
qed

theorem continue_as_new_carries_state_witness:
  "\<exists>new_id st' a. executor_continue_as_new sample_env sample_executor 7 (sample_store []) = (Inr new_id, st')
     \<and> rebuild sample_executor 7 (sample_store []) = (Inr a, sample_store [])
     \<and> rebuild sample_executor new_id st' = (Inr a, st')"
proof -
  have info: "get_workflow_info 7 (sample_store []) = (Inr \<lparr>wi_id = 7, wi_workflow_type = ''count'',
      wi_status = WfRunning, wi_input = JNull, wi_result = None, wi_error = None,
      wi_continued_as_new_id = None\<rparr>, sample_store [])"
    by (simp add: get_workflow_info_def workflow_rows) (simp add: sample_row_def)
  have id: "fresh_uuid sample_env (sample_store []) = 1" by (simp add: sample_env_def)
  have ser: "\<exists>data. any_serialize_state (replay_events [(0, WorkflowStarted JNull)]
      \<lparr>wrapped = sample_workflow, inner = 0\<rparr>) = Some data"
    by (simp add: replay_events_def any_serialize_state_def any_on_start_def wrapper_step_def
        sample_workflow_def)
  obtain st' where c: "executor_continue_as_new sample_env sample_executor 7 (sample_store []) = (Inr 1, st')"
    using ser by (auto simp: executor_continue_as_new_def bind_op_def exec_store_Inr info sample_load
        id continue_as_new_def Let_def)
  from continue_as_new_carries_state [OF c sample_simps(1) _ _ _ sample_restores] c show ?thesis by fastforce
qed

end
