(* ===== verification/Observe.thy ===== *)
theory Observe
  imports Task_Queue
begin

text \<open>
  The worker registry and the read side of the in-memory store (\<open>persistence/memory.rs\<close>):
  registration and heartbeats of workers, the capacity snapshot, system health counts, and the
  paginated listings of workflows, tasks and dead letters.
\<close>

section \<open>Pagination\<close>

record pagination =
  pg_offset :: u32
  pg_limit :: u32

definition pagination_default :: pagination where
  "pagination_default = \<lparr>pg_offset = 0, pg_limit = 100\<rparr>"

text \<open>
  \<open>skip(start).take(end - start)\<close> with \<open>end = (offset + limit) as usize\<close>: the sum wraps at
  \<open>u32\<close>, the difference at \<open>usize\<close>.
\<close>

definition paginate :: "pagination \<Rightarrow> 'a list \<Rightarrow> 'a list" where
  "paginate p xs =
     (let start = unat (pg_offset p); stop = unat (pg_offset p + pg_limit p)
      in take (nat ((int stop - int start) mod 2 ^ 64)) (drop start xs))"

text \<open>A filter field that is not set accepts everything.\<close>

definition accepts :: "'a option \<Rightarrow> 'a \<Rightarrow> bool" where
  "accepts f x \<longleftrightarrow> (case f of None \<Rightarrow> True | Some y \<Rightarrow> x = y)"

section \<open>Listings\<close>

record dlq_filter =
  df_workflow_id :: "uuid option"
  df_activity_type :: "string option"

definition list_dlq :: "dlq_filter \<Rightarrow> pagination \<Rightarrow> dlq_entry list store_op" where
  "list_dlq filt p st =
     (let entries = filter (\<lambda>e. accepts (map_option Some (df_workflow_id filt)) (dq_workflow_id e)
                              \<and> accepts (df_activity_type filt) (dq_activity_type e))
                      (hm_values (dlq st));
          entries = sort_key (\<lambda>e. - dq_dead_at e) entries
      in (Inr (paginate p entries), st))"

record worker_filter =
  rf_status :: "string option"
  rf_worker_group :: "string option"

definition worker_filter_active :: worker_filter where
  "worker_filter_active = \<lparr>rf_status = Some ''active'', rf_worker_group = None\<rparr>"

record workflow_filter =
  ff_status :: "workflow_status option"
  ff_workflow_type :: "string option"

definition workflow_filter_default :: workflow_filter where
  "workflow_filter_default = \<lparr>ff_status = None, ff_workflow_type = None\<rparr>"

record task_filter =
  kf_status :: "task_status option"
  kf_activity_type :: "string option"
  kf_workflow_id :: "uuid option"
  kf_standalone_only :: bool

record workflow_info_extended =
  wx_id :: uuid
  wx_workflow_type :: string
  wx_status :: workflow_status
  wx_input :: json
  wx_result :: "json option"
  wx_error :: "workflow_error option"
  wx_created_at :: timestamp
  wx_started_at :: "timestamp option"
  wx_completed_at :: "timestamp option"
  wx_continued_as_new_id :: "uuid option"

definition extended_of :: "uuid \<Rightarrow> workflow_state \<Rightarrow> workflow_info_extended" where
  "extended_of wid w =
     \<lparr>wx_id = wid, wx_workflow_type = wf_workflow_type w, wx_status = wf_status w,
      wx_input = wf_input w, wx_result = wf_result w, wx_error = wf_error w,
      wx_created_at = wf_created_at w, wx_started_at = wf_started_at w,
      wx_completed_at = wf_completed_at w, wx_continued_as_new_id = wf_continued_as_new_id w\<rparr>"

definition get_workflow_extended :: "uuid \<Rightarrow> workflow_info_extended option store_op" where
  "get_workflow_extended wid st =
     (Inr (map_option (extended_of wid) (hm_get (workflows st) wid)), st)"

definition workflow_matches :: "workflow_filter \<Rightarrow> workflow_state \<Rightarrow> bool" where
  "workflow_matches filt w \<longleftrightarrow>
     accepts (ff_status filt) (wf_status w) \<and> accepts (ff_workflow_type filt) (wf_workflow_type w)"

definition list_workflows ::
  "workflow_filter \<Rightarrow> pagination \<Rightarrow> workflow_info_extended list store_op" where
  "list_workflows filt p st =
     (let rows = map (\<lambda>(i, w). extended_of i w)
                   (filter (\<lambda>(_, w). workflow_matches filt w) (workflows st));
          rows = sort_key (\<lambda>r. - wx_created_at r) rows
      in (Inr (paginate p rows), st))"

text \<open>The trait's default \<open>get_workflow_extended\<close>: a scan of the first 1000 rows.\<close>

definition default_get_workflow_extended :: "uuid \<Rightarrow> workflow_info_extended option store_op" where
  "default_get_workflow_extended wid =
     bind_op (list_workflows workflow_filter_default \<lparr>pg_offset = 0, pg_limit = 1000\<rparr>) (\<lambda>rows.
     ret_op (find (\<lambda>w. wx_id w = wid) rows))"

definition task_matches :: "task_filter \<Rightarrow> task_state \<Rightarrow> bool" where
  "task_matches filt t \<longleftrightarrow>
     accepts (kf_status filt) (tk_status t)
     \<and> accepts (kf_activity_type filt) (td_activity_type (tk_definition t))
     \<and> accepts (map_option Some (kf_workflow_id filt)) (td_workflow_id (tk_definition t))
     \<and> \<not> (kf_standalone_only filt \<and> td_workflow_id (tk_definition t) \<noteq> None)"

definition list_tasks :: "task_filter \<Rightarrow> pagination \<Rightarrow> task_info list store_op" where
  "list_tasks filt p st =
     (let rows = map (\<lambda>(i, t). info_of i t) (filter (\<lambda>(_, t). task_matches filt t) (tasks st));
          rows = sort_key ti_created_at rows
      in (Inr (paginate p rows), st))"

section \<open>Workers\<close>

definition register_worker :: "worker_info \<Rightarrow> unit store_op" where
  "register_worker w st = (Inr (), st\<lparr>workers := hm_insert (wk_id w) w (workers st)\<rparr>)"

definition worker_heartbeat :: "timestamp \<Rightarrow> string \<Rightarrow> nat \<Rightarrow> bool \<Rightarrow> unit store_op" where
  "worker_heartbeat now worker_id current_load accepting_tasks st =
     (Inr (),
      st\<lparr>workers := hm_adjust worker_id
           (\<lambda>w. w\<lparr>wk_current_load := as_u32 current_load, wk_accepting_tasks := accepting_tasks,
                  wk_last_heartbeat_at := now\<rparr>) (workers st)\<rparr>)"

definition deregister_worker :: "string \<Rightarrow> nat store_op" where
  "deregister_worker worker_id st = (Inr 0, st\<lparr>workers := hm_remove worker_id (workers st)\<rparr>)"

definition heartbeat_threshold :: "timestamp \<Rightarrow> timestamp" where
  "heartbeat_threshold now = now - int (from_secs (nat WORKER_HEARTBEAT_TIMEOUT_SECS))"

definition worker_alive :: "timestamp \<Rightarrow> worker_info \<Rightarrow> bool" where
  "worker_alive now w \<longleftrightarrow> wk_status w = ''active'' \<and> heartbeat_threshold now < wk_last_heartbeat_at w"

fun capacity_loop :: "timestamp \<Rightarrow> worker_info list \<Rightarrow> u32 \<Rightarrow> u32 \<Rightarrow> capacity_snapshot" where
  "capacity_loop now [] avail active = \<lparr>cap_total_available = avail, cap_active_workers = active\<rparr>"
| "capacity_loop now (w # ws) avail active =
     (if wk_status w = ''active'' \<and> wk_accepting_tasks w
         \<and> heartbeat_threshold now < wk_last_heartbeat_at w
      then capacity_loop now ws (avail + saturating_sub_u32 (wk_max_concurrency w) (wk_current_load w))
             (active + 1)
      else capacity_loop now ws avail active)"

definition get_capacity_snapshot :: "timestamp \<Rightarrow> capacity_snapshot store_op" where
  "get_capacity_snapshot now st = (Inr (capacity_loop now (hm_values (workers st)) 0 0), st)"

definition worker_matches :: "worker_filter \<Rightarrow> worker_info \<Rightarrow> bool" where
  "worker_matches filt w \<longleftrightarrow>
     accepts (rf_status filt) (wk_status w)
     \<and> accepts (map_option Some (rf_worker_group filt)) (wk_worker_group w)"

definition list_workers :: "worker_filter \<Rightarrow> worker_info list store_op" where
  "list_workers filt st =
     (Inr (sort_key (\<lambda>w. - wk_started_at w) (filter (worker_matches filt) (hm_values (workers st)))), st)"

section \<open>System health\<close>

record system_health =
  sh_total_workers :: nat
  sh_active_workers :: nat
  sh_workers_accepting :: nat
  sh_total_capacity :: nat
  sh_current_load :: nat
  sh_pending_tasks :: nat
  sh_claimed_tasks :: nat
  sh_completed_tasks :: nat
  sh_failed_tasks :: nat
  sh_started_tasks :: nat
  sh_running_workflows :: nat
  sh_pending_workflows :: nat
  sh_completed_workflows :: nat
  sh_failed_workflows :: nat
  sh_started_workflows :: nat
  sh_dlq_size :: nat

definition count_if :: "('a \<Rightarrow> bool) \<Rightarrow> 'a list \<Rightarrow> nat" where
  "count_if p xs = length (filter p xs)"

definition get_system_health :: "timestamp \<Rightarrow> system_health store_op" where
  "get_system_health now st =
     (let ws = hm_values (workers st); ts = hm_values (tasks st); fs = hm_values (workflows st);
          alive = filter (worker_alive now) ws
      in (Inr \<lparr>sh_total_workers = length ws,
               sh_active_workers = length alive,
               sh_workers_accepting = count_if (\<lambda>w. worker_alive now w \<and> wk_accepting_tasks w) ws,
               sh_total_capacity = sum_list (map (\<lambda>w. unat (wk_max_concurrency w)) alive),
               sh_current_load = sum_list (map (\<lambda>w. unat (wk_current_load w)) alive),
               sh_pending_tasks = count_if (\<lambda>t. tk_status t = TkPending) ts,
               sh_claimed_tasks = count_if (\<lambda>t. tk_status t = TkClaimed) ts,
               sh_completed_tasks = count_if (\<lambda>t. tk_status t = TkCompleted) ts,
               sh_failed_tasks = count_if (\<lambda>t. tk_status t = TkFailed \<or> tk_status t = TkDead) ts,
               sh_started_tasks = count_if (\<lambda>t. tk_claimed_at t \<noteq> None) ts,
               sh_running_workflows = count_if (\<lambda>w. wf_status w = WfRunning) fs,
               sh_pending_workflows = count_if (\<lambda>w. wf_status w = WfPending) fs,
               sh_completed_workflows = count_if (\<lambda>w. wf_status w = WfCompleted) fs,
               sh_failed_workflows =
                 count_if (\<lambda>w. wf_status w = WfFailed \<or> wf_status w = WfCancelled) fs,
               sh_started_workflows = count_if (\<lambda>w. wf_started_at w \<noteq> None) fs,
               sh_dlq_size = length (dlq st)\<rparr>, st))"

section \<open>Lemmas\<close>

text \<open>The rows a listing of workflows is cut from.\<close>

definition workflow_rows_of :: "workflow_filter \<Rightarrow> store \<Rightarrow> workflow_info_extended list" where
  "workflow_rows_of filt st =
     sort_key (\<lambda>r. - wx_created_at r)
       (map (\<lambda>(i, w). extended_of i w) (filter (\<lambda>(_, w). workflow_matches filt w) (workflows st)))"

lemma list_workflows_eq: "list_workflows filt p st = (Inr (paginate p (workflow_rows_of filt st)), st)"
  by (simp add: list_workflows_def workflow_rows_of_def)

lemma usize_difference:
  fixes l :: nat
  assumes "l < 2 ^ 32"
  shows "int l mod 2 ^ 64 = int l" and "2 ^ 63 \<le> nat ((int l - 2 ^ 32) mod 2 ^ 64)"
proof -
  show "int l mod 2 ^ 64 = int l" using assms by simp
  have "(int l - 2 ^ 32 + 2 ^ 64) mod 2 ^ 64 = int l - 2 ^ 32 + 2 ^ 64"
    using assms by (intro mod_pos_pos_trivial) simp_all
  then have "(int l - 2 ^ 32) mod 2 ^ 64 = int l - 2 ^ 32 + 2 ^ 64" by (simp only: mod_add_self2)
  then show "2 ^ 63 \<le> nat ((int l - 2 ^ 32) mod 2 ^ 64)" by simp
qed

lemma paginate_no_wrap:
  assumes "unat (pg_offset p) + unat (pg_limit p) < 2 ^ 32"
  shows "paginate p xs = take (unat (pg_limit p)) (drop (unat (pg_offset p)) xs)"
proof -
  have "unat (pg_offset p + pg_limit p) = unat (pg_offset p) + unat (pg_limit p)"
    using assms by (simp add: unat_word_ariths)
  moreover have "int (unat (pg_limit p)) mod 2 ^ 64 = int (unat (pg_limit p))"
    using assms by (intro usize_difference) simp
  ultimately show ?thesis by (simp add: paginate_def Let_def)
qed

lemma paginate_wrap:
  assumes "2 ^ 32 \<le> unat (pg_offset p) + unat (pg_limit p)" and "length xs < 2 ^ 63"
  shows "paginate p xs = drop (unat (pg_offset p)) xs"
proof -
  have o: "unat (pg_offset p) < 2 ^ 32" and l: "unat (pg_limit p) < 2 ^ 32"
    using unsigned_less [of "pg_offset p"] unsigned_less [of "pg_limit p"] by simp_all
  have "unat (pg_offset p + pg_limit p) = unat (pg_offset p) + unat (pg_limit p) - 2 ^ 32"
    using assms(1) o l by (simp add: unat_word_ariths mod_if)
  then have d: "int (unat (pg_offset p + pg_limit p)) - int (unat (pg_offset p))
      = int (unat (pg_limit p)) - 2 ^ 32"
    using assms(1) by simp
  have "length (drop (unat (pg_offset p)) xs)
      \<le> nat ((int (unat (pg_offset p + pg_limit p)) - int (unat (pg_offset p))) mod 2 ^ 64)"
    unfolding d by (rule order_trans [OF _ usize_difference(2) [OF l]]) (use assms(2) in simp)
  then show ?thesis by (simp add: paginate_def Let_def del: length_drop)
qed

lemma concat_pages: "concat (map (\<lambda>k. take n (drop (k * n) xs)) [0..<m]) = take (m * n) xs"
proof (induction m)
  case (Suc m)
  then show ?case by (simp add: take_add [symmetric] add.commute)
qed simp

lemma capacity_loop_eq:
  "capacity_loop now ws avail active =
     (let es = filter (\<lambda>w. worker_alive now w \<and> wk_accepting_tasks w) ws
      in \<lparr>cap_total_available =
            avail + sum_list (map (\<lambda>w. saturating_sub_u32 (wk_max_concurrency w) (wk_current_load w)) es),
          cap_active_workers = active + of_nat (length es)\<rparr>)"
  by (induction now ws avail active rule: capacity_loop.induct)
    (auto simp: Let_def worker_alive_def algebra_simps)

lemma workflow_rows_ids:
  assumes "hm_wf (workflows st)"
  shows "distinct (map wx_id (workflow_rows_of filt st))"
    and "set (workflow_rows_of filt st)
      = {extended_of i w |i w. hm_get (workflows st) i = Some w \<and> workflow_matches filt w}"
proof -
  let ?es = "filter (\<lambda>(_, w). workflow_matches filt w) (workflows st)"
  have ids: "map wx_id (map (\<lambda>(i, w). extended_of i w) ?es) = map fst ?es"
    by (simp add: extended_of_def case_prod_beta)
  have d: "distinct (map wx_id (map (\<lambda>(i, w). extended_of i w) ?es))"
    unfolding ids using assms by (simp add: hm_wf_def distinct_map_filter)
  then show "distinct (map wx_id (workflow_rows_of filt st))"
    unfolding workflow_rows_of_def by (simp only: distinct_map distinct_sort set_sort)
  show "set (workflow_rows_of filt st)
      = {extended_of i w |i w. hm_get (workflows st) i = Some w \<and> workflow_matches filt w}"
    using assms by (force simp: workflow_rows_of_def hm_wf_in_iff)
qed

lemma wx_id_extended [simp]: "wx_id (extended_of i w) = i"
  by (simp add: extended_of_def)

lemma length_filter_conj: "length (filter (\<lambda>x. P x \<and> Q x) xs) \<le> length (filter P xs)"
  by (induction xs) auto

lemma page_of:
  assumes "(k + 1) * n < 2 ^ 32"
  shows "paginate \<lparr>pg_offset = as_u32 (k * n), pg_limit = as_u32 n\<rparr> xs = take n (drop (k * n) xs)"
proof -
  have k: "k * n < 2 ^ 32" "n < 2 ^ 32" "k * n + n < 2 ^ 32" using assms by simp_all
  then have "unat (as_u32 (k * n)) = k * n" "unat (as_u32 n) = n" by simp_all
  with k show ?thesis by (subst paginate_no_wrap) simp_all
qed

section \<open>Properties\<close>

text \<open>
  Paging through the workflows is lossless: with offsets that do not exceed \<open>u32\<close>, the pages
  of a listing put together are all workflows that match the filter, each exactly once, newest
  first, for every iteration order of the table.
\<close>

theorem list_workflows_pages:
  assumes "hm_wf (workflows st)" and "m * n < 2 ^ 32"
    and "length (filter (\<lambda>(_, w). workflow_matches filt w) (workflows st)) \<le> m * n"
    and "pages = map (\<lambda>k. fst (list_workflows filt
           \<lparr>pg_offset = as_u32 (k * n), pg_limit = as_u32 n\<rparr> st)) [0..<m]"
  shows "\<exists>rows. map Inr rows = pages
    \<and> sorted_wrt (\<lambda>a b. wx_created_at b \<le> wx_created_at a) (concat rows)
    \<and> distinct (map wx_id (concat rows))
    \<and> set (concat rows)
        = {extended_of i w |i w. hm_get (workflows st) i = Some w \<and> workflow_matches filt w}"
proof -
  let ?xs = "workflow_rows_of filt st"
  let ?rows = "map (\<lambda>k. take n (drop (k * n) ?xs)) [0..<m]"
  have "(k + 1) * n < 2 ^ 32" if "k < m" for k
    using mult_le_mono1 [of "k + 1" m n] that assms(2) by simp
  then have "pages = map Inr ?rows"
    unfolding assms(4) list_workflows_eq by (auto simp: page_of)
  moreover have len: "length ?xs \<le> m * n" using assms(3) by (simp add: workflow_rows_of_def)
  then have all: "concat ?rows = ?xs" by (simp add: concat_pages)
  moreover have "sorted_wrt (\<lambda>a b. wx_created_at b \<le> wx_created_at a) ?xs"
    using sorted_sort_key [of "\<lambda>r. - wx_created_at r"]
    by (fastforce simp: workflow_rows_of_def sorted_map elim: sorted_wrt_mono_rel [rotated])
  ultimately show ?thesis
    using workflow_rows_ids [OF assms(1), of filt] by (intro exI [of _ ?rows]) simp
qed

text \<open>
  Page arithmetic: a page whose \<open>offset + limit\<close> passes \<open>u32\<close> ignores its limit (the sum wraps
  to less than the offset and the difference wraps to a huge count): the listing returns
  everything from the offset on.
\<close>

theorem list_workflows_offset_overflow:
  assumes "2 ^ 32 \<le> unat (pg_offset p) + unat (pg_limit p)" and "length (workflows st) < 2 ^ 63"
  shows "list_workflows filt p st = (Inr (drop (unat (pg_offset p)) (workflow_rows_of filt st)), st)"
proof -
  have "length (workflow_rows_of filt st) < 2 ^ 63"
    using le_less_trans [OF length_filter_le assms(2)] by (simp add: workflow_rows_of_def)
  with assms(1) show ?thesis by (simp add: list_workflows_eq paginate_wrap)
qed

text \<open>
  The direct lookup of a workflow agrees with the trait's default scan of the first page as
  long as the store holds at most 1000 workflows.
\<close>

theorem get_workflow_extended_equiv_scan:
  assumes "hm_wf (workflows st)" and "length (workflows st) \<le> 1000"
  shows "default_get_workflow_extended wid st = get_workflow_extended wid st"
proof -
  let ?xs = "workflow_rows_of workflow_filter_default st"
  have all: "workflow_matches workflow_filter_default w" for w
    by (simp add: workflow_matches_def workflow_filter_default_def accepts_def)
  then have "length ?xs \<le> 1000" using assms(2) by (simp add: workflow_rows_of_def case_prod_beta)
  then have "paginate \<lparr>pg_offset = 0, pg_limit = 1000\<rparr> ?xs = ?xs" by (simp add: paginate_no_wrap)
  then have d: "default_get_workflow_extended wid st = (Inr (find (\<lambda>w. wx_id w = wid) ?xs), st)"
    by (simp add: default_get_workflow_extended_def bind_op_def list_workflows_eq)
  have xs: "x \<in> set ?xs \<longleftrightarrow> hm_get (workflows st) (wx_id x) \<noteq> None
      \<and> x = extended_of (wx_id x) (the (hm_get (workflows st) (wx_id x)))" for x
    using workflow_rows_ids(2) [OF assms(1), of workflow_filter_default] all by auto metis
  have "find (\<lambda>w. wx_id w = wid) ?xs = map_option (extended_of wid) (hm_get (workflows st) wid)"
  proof (cases "hm_get (workflows st) wid")
    case None
    then show ?thesis using xs by (auto simp: find_None_iff)
  next
    case (Some w)
    then have "extended_of wid w \<in> set ?xs" using xs [of "extended_of wid w"] by simp
    then have "find (\<lambda>w. wx_id w = wid) ?xs \<noteq> None" by (auto simp: find_None_iff)
    then obtain x where x: "find (\<lambda>w. wx_id w = wid) ?xs = Some x" by auto
    then have "x \<in> set ?xs" "wx_id x = wid" by (auto simp: find_Some_iff)
    with xs [of x] Some x show ?thesis by simp
  qed
  with d show ?thesis by (simp add: get_workflow_extended_def)
qed

text \<open>
  Capacity: the snapshot that workers divide the queue by counts exactly the workers that
  system health reports as accepting, and its total is the sum of their free slots, where a
  worker that reports more load than its limit counts as having none; the sums are taken modulo
  \<open>2 ^ 32\<close>.
\<close>

theorem capacity_agrees_with_health:
  assumes "get_capacity_snapshot now st = (Inr cap, st)" and "get_system_health now st = (Inr h, st)"
    and "eligible = filter (\<lambda>w. worker_alive now w \<and> wk_accepting_tasks w) (hm_values (workers st))"
  shows "unat (cap_active_workers cap) = sh_workers_accepting h mod 2 ^ 32
    \<and> unat (cap_total_available cap)
        = sum_list (map (\<lambda>w. unat (wk_max_concurrency w) - unat (wk_current_load w)) eligible) mod 2 ^ 32
    \<and> sh_workers_accepting h \<le> sh_active_workers h \<and> sh_active_workers h \<le> sh_total_workers h"
proof -
  have sat: "saturating_sub_u32 a c = of_nat (unat a - unat c)" for a c
    by (auto simp: saturating_sub_u32_def word_less_nat_alt of_nat_diff not_less)
  have sums: "sum_list (map (\<lambda>w. of_nat (f w)) ws) = (of_nat (sum_list (map f ws)) :: u32)"
    for f :: "worker_info \<Rightarrow> nat" and ws
    by (induction ws) simp_all
  have cap: "cap = \<lparr>cap_total_available = of_nat (sum_list
        (map (\<lambda>w. unat (wk_max_concurrency w) - unat (wk_current_load w)) eligible)),
      cap_active_workers = of_nat (length eligible)\<rparr>"
    using assms(1,3) by (simp add: get_capacity_snapshot_def capacity_loop_eq Let_def sat sums)
  have h: "sh_workers_accepting h = length eligible"
    "sh_active_workers h = length (filter (worker_alive now) (hm_values (workers st)))"
    "sh_total_workers h = length (hm_values (workers st))"
    using assms(2,3) by (auto simp: get_system_health_def Let_def count_if_def)
  have "length eligible \<le> length (filter (worker_alive now) (hm_values (workers st)))"
    unfolding assms(3) by (rule length_filter_conj)
  with cap h show ?thesis by (simp add: unat_of_nat)
qed

section \<open>Examples\<close>

definition two_workflows :: store where
  "two_workflows = snd (create_workflow 5 3 ''b'' JNull (snd (create_workflow 4 2 ''a'' JNull (store_new None))))"

lemma two_workflows_wf: "hm_wf (workflows two_workflows)"
  by (simp add: two_workflows_def create_workflow_def store_new_def)

lemma two_workflows_length: "length (workflows two_workflows) = 2"
  by (simp add: two_workflows_def create_workflow_def store_new_def hm_insert_def)

theorem list_workflows_pages_witness:
  "\<exists>rows. map Inr rows = map (\<lambda>k. fst (list_workflows workflow_filter_default
        \<lparr>pg_offset = as_u32 (k * 1), pg_limit = as_u32 1\<rparr> two_workflows)) [0..<2]
     \<and> distinct (map wx_id (concat rows))"
proof -
  have "length (filter (\<lambda>(_, w). workflow_matches workflow_filter_default w) (workflows two_workflows)) \<le> 2 * 1"
    using length_filter_le [of _ "workflows two_workflows"] by (simp add: two_workflows_length)
  from list_workflows_pages [OF two_workflows_wf _ this refl] show ?thesis by auto
qed

theorem list_workflows_offset_overflow_witness:
  "list_workflows workflow_filter_default \<lparr>pg_offset = 1, pg_limit = as_u32 (2 ^ 32 - 1)\<rparr> two_workflows
   = (Inr (drop 1 (workflow_rows_of workflow_filter_default two_workflows)), two_workflows)"
  using list_workflows_offset_overflow [of "\<lparr>pg_offset = 1, pg_limit = as_u32 (2 ^ 32 - 1)\<rparr>" two_workflows]
  by (simp add: two_workflows_length)

theorem get_workflow_extended_equiv_scan_witness:
  "default_get_workflow_extended 3 two_workflows = get_workflow_extended 3 two_workflows"
  by (rule get_workflow_extended_equiv_scan) (simp_all add: two_workflows_wf two_workflows_length)

theorem capacity_agrees_with_health_witness:
  "\<exists>cap h. get_capacity_snapshot 7 two_workflows = (Inr cap, two_workflows)
     \<and> get_system_health 7 two_workflows = (Inr h, two_workflows)
     \<and> sh_workers_accepting h \<le> sh_total_workers h"
proof -
  obtain cap h where c: "get_capacity_snapshot 7 two_workflows = (Inr cap, two_workflows)"
    and h: "get_system_health 7 two_workflows = (Inr h, two_workflows)"
    by (simp add: get_capacity_snapshot_def get_system_health_def Let_def)
  from capacity_agrees_with_health [OF c h refl] c h show ?thesis by auto
qed

end
