(* ===== verification/Schedule_Store.thy ===== *)
theory Schedule_Store
  imports Observe
begin

text \<open>
  The schedule half of the in-memory store (\<open>persistence/memory.rs\<close>): schedules and their
  updates (\<open>update_field.rs\<close>), claiming of due schedules, execution records, statistics and
  scheduler instances.
\<close>

section \<open>Partial updates\<close>

datatype 'a update_field = Unchanged | Clear | Set 'a

fun uf_is_changed :: "'a update_field \<Rightarrow> bool" where
  "uf_is_changed Unchanged = False"
| "uf_is_changed _ = True"

fun uf_into_value :: "'a update_field \<Rightarrow> 'a option" where
  "uf_into_value (Set v) = Some v"
| "uf_into_value _ = None"

fun uf_apply :: "'a update_field \<Rightarrow> 'a option \<Rightarrow> 'a option" where
  "uf_apply Unchanged target = target"
| "uf_apply Clear target = None"
| "uf_apply (Set v) target = Some v"

fun uf_from_option :: "'a option \<Rightarrow> 'a update_field" where
  "uf_from_option (Some v) = Set v"
| "uf_from_option None = Clear"

fun uf_map :: "('a \<Rightarrow> 'b) \<Rightarrow> 'a update_field \<Rightarrow> 'b update_field" where
  "uf_map f Unchanged = Unchanged"
| "uf_map f Clear = Clear"
| "uf_map f (Set v) = Set (f v)"

text \<open>\<open>if let Some(v) = update { field = v }\<close>.\<close>

definition or_keep :: "'a option \<Rightarrow> 'a \<Rightarrow> 'a" where
  "or_keep u old = (case u of Some v \<Rightarrow> v | None \<Rightarrow> old)"

section \<open>Schedules\<close>

record create_schedule_row =
  cr_name :: string
  cr_description :: "string option"
  cr_cron_expression :: string
  cr_timezone :: string
  cr_target_type :: schedule_target_type
  cr_target_name :: string
  cr_target_input :: json
  cr_enabled :: bool
  cr_max_concurrent :: "u32 option"
  cr_catch_up_missed :: bool
  cr_max_catch_up :: "u32 option"
  cr_retry_policy :: "json option"
  cr_next_trigger_at :: "timestamp option"

record schedule_update =
  us_name :: "string option"
  us_description :: "string update_field"
  us_cron_expression :: "string option"
  us_timezone :: "string option"
  us_target_type :: "schedule_target_type option"
  us_target_name :: "string option"
  us_target_input :: "json option"
  us_enabled :: "bool option"
  us_max_concurrent :: "u32 update_field"
  us_catch_up_missed :: "bool option"
  us_max_catch_up :: "u32 update_field"
  us_retry_policy :: "json update_field"
  us_next_trigger_at :: "timestamp update_field"

definition create_schedule :: "timestamp \<Rightarrow> uuid \<Rightarrow> create_schedule_row \<Rightarrow> uuid store_op" where
  "create_schedule now i s st =
     (Inr i,
      st\<lparr>schedules := hm_insert i
           \<lparr>sc_id = i, sc_name = cr_name s, sc_description = cr_description s,
            sc_cron_expression = cr_cron_expression s, sc_timezone = cr_timezone s,
            sc_target_type = cr_target_type s, sc_target_name = cr_target_name s,
            sc_target_input = cr_target_input s, sc_enabled = cr_enabled s,
            sc_max_concurrent = cr_max_concurrent s, sc_catch_up_missed = cr_catch_up_missed s,
            sc_max_catch_up = cr_max_catch_up s, sc_retry_policy = cr_retry_policy s,
            sc_last_triggered_at = None, sc_next_trigger_at = cr_next_trigger_at s,
            sc_claimed_by = None, sc_claimed_at = None, sc_created_at = now, sc_updated_at = now\<rparr>
           (schedules st)\<rparr>)"

text \<open>\<open>schedules.get_mut(&id).ok_or(ScheduleNotFound(id))?\<close> and a mutation of the row.\<close>

definition with_schedule :: "uuid \<Rightarrow> (schedule_row \<Rightarrow> schedule_row) \<Rightarrow> unit store_op" where
  "with_schedule i f st =
     (case hm_get (schedules st) i of
        None \<Rightarrow> (Inl (ScheduleNotFound i), st)
      | Some _ \<Rightarrow> (Inr (), st\<lparr>schedules := hm_adjust i f (schedules st)\<rparr>))"

definition get_schedule :: "uuid \<Rightarrow> schedule_row store_op" where
  "get_schedule i st =
     (case hm_get (schedules st) i of
        None \<Rightarrow> (Inl (ScheduleNotFound i), st)
      | Some s \<Rightarrow> (Inr s, st))"

record schedule_filter =
  lf_enabled :: "bool option"
  lf_target_type :: "schedule_target_type option"

definition schedule_matches :: "schedule_filter \<Rightarrow> schedule_row \<Rightarrow> bool" where
  "schedule_matches filt s \<longleftrightarrow>
     accepts (lf_enabled filt) (sc_enabled s) \<and> accepts (lf_target_type filt) (sc_target_type s)"

definition list_schedules :: "schedule_filter \<Rightarrow> pagination \<Rightarrow> schedule_row list store_op" where
  "list_schedules filt p st =
     (Inr (paginate p (sort_key (\<lambda>s. - sc_created_at s)
             (filter (schedule_matches filt) (hm_values (schedules st))))), st)"

definition count_schedules :: "schedule_filter \<Rightarrow> nat store_op" where
  "count_schedules filt st =
     (Inr (length (filter (schedule_matches filt) (hm_values (schedules st)))), st)"

definition apply_schedule_update :: "timestamp \<Rightarrow> schedule_update \<Rightarrow> schedule_row \<Rightarrow> schedule_row" where
  "apply_schedule_update now u s =
     s\<lparr>sc_name := or_keep (us_name u) (sc_name s),
       sc_description := uf_apply (us_description u) (sc_description s),
       sc_cron_expression := or_keep (us_cron_expression u) (sc_cron_expression s),
       sc_timezone := or_keep (us_timezone u) (sc_timezone s),
       sc_target_type := or_keep (us_target_type u) (sc_target_type s),
       sc_target_name := or_keep (us_target_name u) (sc_target_name s),
       sc_target_input := or_keep (us_target_input u) (sc_target_input s),
       sc_enabled := or_keep (us_enabled u) (sc_enabled s),
       sc_max_concurrent := uf_apply (us_max_concurrent u) (sc_max_concurrent s),
       sc_catch_up_missed := or_keep (us_catch_up_missed u) (sc_catch_up_missed s),
       sc_max_catch_up := uf_apply (us_max_catch_up u) (sc_max_catch_up s),
       sc_retry_policy := uf_apply (us_retry_policy u) (sc_retry_policy s),
       sc_next_trigger_at := uf_apply (us_next_trigger_at u) (sc_next_trigger_at s),
       sc_updated_at := now\<rparr>"

definition update_schedule :: "timestamp \<Rightarrow> uuid \<Rightarrow> schedule_update \<Rightarrow> unit store_op" where
  "update_schedule now i u = with_schedule i (apply_schedule_update now u)"

definition delete_schedule :: "uuid \<Rightarrow> unit store_op" where
  "delete_schedule i st =
     (case hm_get (schedules st) i of
        None \<Rightarrow> (Inl (ScheduleNotFound i), st)
      | Some _ \<Rightarrow>
          (Inr (),
           st\<lparr>schedules := hm_remove i (schedules st),
              schedule_executions :=
                filter (\<lambda>(_, e). se_schedule_id e \<noteq> i) (schedule_executions st)\<rparr>))"

section \<open>Claiming due schedules\<close>

definition schedule_due :: "timestamp \<Rightarrow> schedule_row \<Rightarrow> bool" where
  "schedule_due now s \<longleftrightarrow>
     sc_enabled s
     \<and> (case sc_next_trigger_at s of Some t \<Rightarrow> t \<le> now | None \<Rightarrow> False)
     \<and> sc_claimed_by s = None"

text \<open>Every candidate has a trigger time, the key of the sort.\<close>

definition due_candidates :: "timestamp \<Rightarrow> store \<Rightarrow> (uuid \<times> schedule_row) list" where
  "due_candidates now st =
     sort_key (\<lambda>(_, s). case sc_next_trigger_at s of Some t \<Rightarrow> t | None \<Rightarrow> 0)
       (filter (\<lambda>(_, s). schedule_due now s) (schedules st))"

definition claim_schedule_row :: "timestamp \<Rightarrow> string \<Rightarrow> schedule_row \<Rightarrow> schedule_row" where
  "claim_schedule_row now scheduler_id s =
     s\<lparr>sc_claimed_by := Some scheduler_id, sc_claimed_at := Some now\<rparr>"

definition claim_due_schedules :: "timestamp \<Rightarrow> string \<Rightarrow> u32 \<Rightarrow> schedule_row list store_op" where
  "claim_due_schedules now scheduler_id limit st =
     (let picked = take (unat limit) (due_candidates now st)
      in (Inr (map (\<lambda>(_, s). claim_schedule_row now scheduler_id s) picked),
          st\<lparr>schedules :=
             map (\<lambda>(i, s). (i, if i \<in> set (map fst picked) then claim_schedule_row now scheduler_id s else s))
               (schedules st)\<rparr>))"

definition update_next_trigger :: "timestamp \<Rightarrow> uuid \<Rightarrow> timestamp \<Rightarrow> unit store_op" where
  "update_next_trigger now i next_at =
     with_schedule i (\<lambda>s. s\<lparr>sc_next_trigger_at := Some next_at, sc_last_triggered_at := Some now,
       sc_claimed_by := None, sc_claimed_at := None, sc_updated_at := now\<rparr>)"

definition skip_schedule_trigger :: "uuid \<Rightarrow> unit store_op" where
  "skip_schedule_trigger i =
     with_schedule i (\<lambda>s. s\<lparr>sc_claimed_by := None, sc_claimed_at := None\<rparr>)"

definition release_schedule :: "uuid \<Rightarrow> unit store_op" where
  "release_schedule i = skip_schedule_trigger i"

section \<open>Executions\<close>

definition create_schedule_execution :: "timestamp \<Rightarrow> uuid \<Rightarrow> uuid \<Rightarrow> timestamp \<Rightarrow> uuid store_op" where
  "create_schedule_execution now i schedule_id scheduled_at st =
     (Inr i,
      st\<lparr>schedule_executions := hm_insert i
           \<lparr>se_id = i, se_schedule_id = schedule_id, se_scheduled_at = scheduled_at,
            se_started_at = now, se_completed_at = None, se_status = ExRunning,
            se_workflow_id = None, se_task_id = None, se_error = None, se_duration_ms = None,
            se_created_at = now\<rparr> (schedule_executions st)\<rparr>)"

definition get_schedule_execution :: "uuid \<Rightarrow> schedule_execution_row store_op" where
  "get_schedule_execution i st =
     (case hm_get (schedule_executions st) i of
        None \<Rightarrow> (Inl (ScheduleExecutionNotFound i), st)
      | Some e \<Rightarrow> (Inr e, st))"

definition with_execution ::
  "uuid \<Rightarrow> (schedule_execution_row \<Rightarrow> schedule_execution_row) \<Rightarrow> unit store_op" where
  "with_execution i f st =
     (case hm_get (schedule_executions st) i of
        None \<Rightarrow> (Inl (ScheduleExecutionNotFound i), st)
      | Some _ \<Rightarrow> (Inr (), st\<lparr>schedule_executions := hm_adjust i f (schedule_executions st)\<rparr>))"

text \<open>\<open>(now - started_at).num_milliseconds() as i32\<close>, truncated towards zero.\<close>

definition elapsed_ms :: "timestamp \<Rightarrow> timestamp \<Rightarrow> int" where
  "elapsed_ms now started =
     wrap_i32 (if started \<le> now then (now - started) div 10 ^ 6 else - ((started - now) div 10 ^ 6))"

definition finish_execution ::
  "timestamp \<Rightarrow> schedule_execution_status \<Rightarrow> schedule_execution_row \<Rightarrow> schedule_execution_row" where
  "finish_execution now status e =
     e\<lparr>se_status := status, se_completed_at := Some now,
       se_duration_ms := Some (elapsed_ms now (se_started_at e))\<rparr>"

definition complete_schedule_execution :: "timestamp \<Rightarrow> uuid \<Rightarrow> uuid \<Rightarrow> bool \<Rightarrow> unit store_op" where
  "complete_schedule_execution now execution_id target_id is_workflow =
     with_execution execution_id (\<lambda>e.
       let e = finish_execution now ExCompleted e
       in if is_workflow then e\<lparr>se_workflow_id := Some target_id\<rparr>
          else e\<lparr>se_task_id := Some target_id\<rparr>)"

definition fail_schedule_execution :: "timestamp \<Rightarrow> uuid \<Rightarrow> string \<Rightarrow> unit store_op" where
  "fail_schedule_execution now execution_id error =
     with_execution execution_id (\<lambda>e. (finish_execution now ExFailed e)\<lparr>se_error := Some error\<rparr>)"

definition skip_schedule_execution :: "timestamp \<Rightarrow> uuid \<Rightarrow> string \<Rightarrow> unit store_op" where
  "skip_schedule_execution now execution_id reason =
     with_execution execution_id (\<lambda>e. (finish_execution now ExSkipped e)\<lparr>se_error := Some reason\<rparr>)"

record execution_filter =
  xf_schedule_id :: "uuid option"
  xf_status :: "schedule_execution_status option"

definition list_schedule_executions ::
  "execution_filter \<Rightarrow> pagination \<Rightarrow> schedule_execution_row list store_op" where
  "list_schedule_executions filt p st =
     (Inr (paginate p (sort_key (\<lambda>e. - se_created_at e)
             (filter (\<lambda>e. accepts (xf_schedule_id filt) (se_schedule_id e)
                        \<and> accepts (xf_status filt) (se_status e))
                (hm_values (schedule_executions st))))), st)"

definition running_executions :: "uuid \<Rightarrow> store \<Rightarrow> schedule_execution_row list" where
  "running_executions schedule_id st =
     filter (\<lambda>e. se_schedule_id e = schedule_id \<and> se_status e = ExRunning)
       (hm_values (schedule_executions st))"

definition count_running_executions :: "uuid \<Rightarrow> u32 store_op" where
  "count_running_executions schedule_id st =
     (Inr (as_u32 (length (running_executions schedule_id st))), st)"

record schedule_stats =
  ss_total_executions :: nat
  ss_successful_executions :: nat
  ss_failed_executions :: nat
  ss_skipped_executions :: nat
  ss_avg_duration_ms :: "nat option"
  ss_last_execution_status :: "schedule_execution_status option"

text \<open>\<open>max_by_key\<close> keeps the last of several maximal elements.\<close>

fun max_by_created ::
  "schedule_execution_row option \<Rightarrow> schedule_execution_row list \<Rightarrow> schedule_execution_row option" where
  "max_by_created best [] = best"
| "max_by_created best (e # es) =
     (case best of
        None \<Rightarrow> max_by_created (Some e) es
      | Some b \<Rightarrow> max_by_created (Some (if se_created_at b \<le> se_created_at e then e else b)) es)"

text \<open>\<open>*d as u64\<close> of an \<open>i32\<close> sign-extends; the sum wraps.\<close>

definition average_ms :: "int list \<Rightarrow> nat" where
  "average_ms ds = nat (sum_list (map (\<lambda>d. d mod 2 ^ 64) ds) mod 2 ^ 64) div length ds"

definition get_schedule_stats :: "uuid \<Rightarrow> schedule_stats store_op" where
  "get_schedule_stats schedule_id st =
     (let es = filter (\<lambda>e. se_schedule_id e = schedule_id) (hm_values (schedule_executions st));
          ds = concat (map (\<lambda>e. case se_duration_ms e of Some d \<Rightarrow> [d] | None \<Rightarrow> []) es)
      in (Inr \<lparr>ss_total_executions = length es,
               ss_successful_executions = count_if (\<lambda>e. se_status e = ExCompleted) es,
               ss_failed_executions = count_if (\<lambda>e. se_status e = ExFailed) es,
               ss_skipped_executions = count_if (\<lambda>e. se_status e = ExSkipped) es,
               ss_avg_duration_ms = (if ds = [] then None else Some (average_ms ds)),
               ss_last_execution_status = map_option se_status (max_by_created None es)\<rparr>, st))"

section \<open>Scheduler instances\<close>

definition register_scheduler_instance :: "scheduler_instance_info \<Rightarrow> unit store_op" where
  "register_scheduler_instance info st =
     (Inr (), st\<lparr>scheduler_instances := hm_insert (si_instance_id info) info (scheduler_instances st)\<rparr>)"

definition heartbeat_scheduler_instance :: "timestamp \<Rightarrow> string \<Rightarrow> nat \<Rightarrow> unit store_op" where
  "heartbeat_scheduler_instance now instance_id schedules_processed st =
     (Inr (),
      st\<lparr>scheduler_instances := hm_adjust instance_id
           (\<lambda>s. s\<lparr>si_last_heartbeat_at := now, si_schedules_processed := schedules_processed\<rparr>)
           (scheduler_instances st)\<rparr>)"

definition list_scheduler_instances :: "scheduler_instance_info list store_op" where
  "list_scheduler_instances st = (Inr (hm_values (scheduler_instances st)), st)"

definition deregister_scheduler_instance :: "string \<Rightarrow> unit store_op" where
  "deregister_scheduler_instance instance_id st =
     (Inr (), st\<lparr>scheduler_instances := hm_remove instance_id (scheduler_instances st)\<rparr>)"

section \<open>Lemmas\<close>

lemma due_candidates_set: "set (due_candidates now st) = {(i, s) \<in> set (schedules st). schedule_due now s}"
  by (auto simp: due_candidates_def)

lemma due_candidates_distinct:
  assumes "hm_wf (schedules st)"
  shows "distinct (map fst (due_candidates now st))"
proof -
  have "distinct (map fst (filter (\<lambda>(_, s). schedule_due now s) (schedules st)))"
    using assms by (simp add: hm_wf_def distinct_map_filter)
  then show ?thesis unfolding due_candidates_def by (simp only: distinct_map distinct_sort set_sort)
qed

lemma due_candidates_sorted:
  "sorted (map (\<lambda>(_, s). case sc_next_trigger_at s of Some t \<Rightarrow> t | None \<Rightarrow> 0) (due_candidates now st))"
  by (simp add: due_candidates_def)

lemma get_map_at:
  "hm_get (map (\<lambda>(i, s). (i, if i \<in> A then f s else s)) m) k
    = map_option (\<lambda>s. if k \<in> A then f s else s) (hm_get m k)"
  by (rule get_map_if)

lemma claim_due_get:
  "hm_get (schedules (snd (claim_due_schedules now sid limit st))) k
    = map_option (\<lambda>s. if k \<in> fst ` set (take (unat limit) (due_candidates now st))
                      then claim_schedule_row now sid s else s) (hm_get (schedules st) k)"
  by (simp add: claim_due_schedules_def Let_def get_map_at)

lemma claim_due_result:
  "fst (claim_due_schedules now sid limit st)
    = Inr (map (\<lambda>(_, s). claim_schedule_row now sid s) (take (unat limit) (due_candidates now st)))"
  by (simp add: claim_due_schedules_def Let_def)

lemma schedule_due_claimed [simp]: "\<not> schedule_due t (claim_schedule_row now sid s)"
  by (simp add: schedule_due_def claim_schedule_row_def)

lemma claim_schedule_row_sel [simp]:
  "sc_id (claim_schedule_row now sid s) = sc_id s"
  "sc_claimed_by (claim_schedule_row now sid s) = Some sid"
  "sc_next_trigger_at (claim_schedule_row now sid s) = sc_next_trigger_at s"
  by (simp_all add: claim_schedule_row_def)

text \<open>Every row is filed under its own identifier.\<close>

definition schedules_ok :: "store \<Rightarrow> bool" where
  "schedules_ok st \<longleftrightarrow> hm_wf (schedules st) \<and> list_all (\<lambda>(i, s). sc_id s = i) (schedules st)"

lemma claim_due_table:
  "schedules (snd (claim_due_schedules now sid limit st))
    = map (\<lambda>(i, s). (i, if i \<in> fst ` set (take (unat limit) (due_candidates now st))
        then claim_schedule_row now sid s else s)) (schedules st)"
  by (simp add: claim_due_schedules_def Let_def)

lemma claim_due_ok: "schedules_ok st \<Longrightarrow> schedules_ok (snd (claim_due_schedules now sid limit st))"
  unfolding schedules_ok_def claim_due_table
  by (auto simp: hm_wf_def comp_def case_prod_beta list_all_iff)

lemma picked_due:
  "(i, s) \<in> set (take n (due_candidates now st)) \<Longrightarrow> (i, s) \<in> set (schedules st) \<and> schedule_due now s"
  by (auto simp: due_candidates_set dest!: in_set_takeD)

lemma due_key: "schedule_due now s \<Longrightarrow> (case sc_next_trigger_at s of Some t \<Rightarrow> t | None \<Rightarrow> 0)
    = the (sc_next_trigger_at s)"
  by (auto simp: schedule_due_def split: option.splits)

lemma schedules_ok_id: "schedules_ok st \<Longrightarrow> (i, s) \<in> set (schedules st) \<Longrightarrow> sc_id s = i"
  by (auto simp: schedules_ok_def list_all_iff)

lemma claimed_row:
  assumes "schedules_ok st" and "claim_due_schedules now sid limit st = (Inr cs, st1)" and "c \<in> set cs"
  shows "\<exists>s. hm_get (schedules st) (sc_id c) = Some s \<and> schedule_due now s
    \<and> c = claim_schedule_row now sid s \<and> hm_get (schedules st1) (sc_id c) = Some c"
proof -
  from assms(2,3) claim_due_result [of now sid limit st] obtain i s where
    e: "(i, s) \<in> set (take (unat limit) (due_candidates now st))" "c = claim_schedule_row now sid s"
    by auto
  have "hm_wf (schedules st)" using assms(1) by (simp add: schedules_ok_def)
  with e picked_due [OF e(1)] schedules_ok_id [OF assms(1), of i s] hm_get_in [of "schedules st" i s]
    claim_due_get [of now sid limit st i] assms(2)
  show ?thesis by force
qed

lemma claim_due_sorted:
  assumes "claim_due_schedules now sid limit st = (Inr cs, st1)"
  shows "sorted (map (\<lambda>c. the (sc_next_trigger_at c)) cs)"
proof -
  let ?p = "take (unat limit) (due_candidates now st)"
  let ?key = "\<lambda>(_ :: uuid, s). case sc_next_trigger_at s of Some t \<Rightarrow> t | None \<Rightarrow> 0"
  have "sorted (map ?key ?p)"
    using sorted_wrt_take [OF due_candidates_sorted [of now st]] by (simp only: take_map)
  moreover have "map (\<lambda>c. the (sc_next_trigger_at c)) cs = map ?key ?p"
    using assms claim_due_result [of now sid limit st]
    by (auto dest!: picked_due intro!: due_key [symmetric])
  ultimately show ?thesis by simp
qed

lemma left_behind:
  assumes "claim_due_schedules now sid limit st = (Inr cs, st1)"
    and "hm_get (schedules st1) i = Some s" and "schedule_due now s"
  shows "length cs = unat limit \<and> (\<forall>c \<in> set cs. the (sc_next_trigger_at c) \<le> the (sc_next_trigger_at s))"
proof -
  let ?ds = "due_candidates now st"
  let ?key = "\<lambda>(_ :: uuid, s). case sc_next_trigger_at s of Some t \<Rightarrow> t | None \<Rightarrow> 0"
  from assms(1,2) claim_due_get [of now sid limit st i] obtain s0 where
    s0: "hm_get (schedules st) i = Some s0"
    "s = (if i \<in> fst ` set (take (unat limit) ?ds) then claim_schedule_row now sid s0 else s0)"
    by (cases "hm_get (schedules st) i") auto
  with assms(3) have n: "i \<notin> fst ` set (take (unat limit) ?ds)" "s = s0"
    using schedule_due_claimed [of now now sid s0] by (metis)+
  then have "(i, s) \<in> set ?ds" "(i, s) \<notin> set (take (unat limit) ?ds)"
    using hm_get_Some_in [OF s0(1)] assms(3) by (force simp: due_candidates_set)+
  then have after: "(i, s) \<in> set (drop (unat limit) ?ds)"
    by (metis Un_iff append_take_drop_id set_append)
  then have lt: "unat limit < length ?ds" by (cases "unat limit < length ?ds") auto
  have "?key x \<le> ?key (i, s)" if "x \<in> set (take (unat limit) ?ds)" for x
    using due_candidates_sorted [of now st] after that append_take_drop_id [of "unat limit" ?ds]
    by (metis (no_types, lifting) map_append sorted_append image_eqI list.set_map)
  then have "the (sc_next_trigger_at t) \<le> the (sc_next_trigger_at s)"
    if "(j, t) \<in> set (take (unat limit) ?ds)" for j t
    using that picked_due [OF that] due_key [of now t] due_key [OF assms(3)] by force
  moreover have "cs = map (\<lambda>(_, s). claim_schedule_row now sid s) (take (unat limit) ?ds)"
    using assms(1) claim_due_result [of now sid limit st] by simp
  ultimately show ?thesis using lt by auto
qed

section \<open>Properties\<close>

text \<open>
  Claiming due schedules: a poll takes at most its limit, every one of them enabled, due and
  unclaimed before and claimed by the poller after, in order of their trigger times; when the
  limit cuts the list, nothing left behind was due earlier than something taken. A second
  scheduler polling afterwards, at whatever time, gets none of them.
\<close>

theorem claim_due_schedules_exclusive:
  assumes "schedules_ok st" and "claim_due_schedules now sid limit st = (Inr cs, st1)"
    and "claim_due_schedules now2 sid2 limit2 st1 = (Inr cs2, st2)"
  shows "length cs \<le> unat limit
    \<and> (\<forall>c \<in> set cs. \<exists>s. hm_get (schedules st) (sc_id c) = Some s \<and> schedule_due now s
          \<and> c = claim_schedule_row now sid s \<and> hm_get (schedules st1) (sc_id c) = Some c)
    \<and> sorted (map (\<lambda>c. the (sc_next_trigger_at c)) cs)
    \<and> (\<forall>i s. hm_get (schedules st1) i = Some s \<longrightarrow> schedule_due now s \<longrightarrow>
          length cs = unat limit
          \<and> (\<forall>c \<in> set cs. the (sc_next_trigger_at c) \<le> the (sc_next_trigger_at s)))
    \<and> sc_id ` set cs \<inter> sc_id ` set cs2 = {}"
proof -
  have one: "\<exists>s. hm_get (schedules st) (sc_id c) = Some s \<and> schedule_due now s
      \<and> c = claim_schedule_row now sid s \<and> hm_get (schedules st1) (sc_id c) = Some c" if "c \<in> set cs" for c
    by (rule claimed_row [OF assms(1,2) that])
  have ok1: "schedules_ok st1" using claim_due_ok [OF assms(1)] assms(2) by (metis snd_conv)
  have "sc_id c \<noteq> sc_id d" if c: "c \<in> set cs" and d: "d \<in> set cs2" for c d
    using one [OF c] claimed_row [OF ok1 assms(3) d] by (metis option.inject schedule_due_claimed)
  then have "sc_id ` set cs \<inter> sc_id ` set cs2 = {}" by blast
  moreover have "length cs \<le> unat limit"
    using claim_due_result [of now sid limit st] assms(2) by auto
  ultimately show ?thesis
    using one claim_due_sorted [OF assms(2)] left_behind [OF assms(2)] by blast
qed

definition sample_schedule :: "u32 option \<Rightarrow> create_schedule_row" where
  "sample_schedule mx =
     \<lparr>cr_name = ''nightly'', cr_description = None, cr_cron_expression = ''0 0 3 * * *'',
      cr_timezone = ''UTC'', cr_target_type = TargetWorkflow, cr_target_name = ''report'',
      cr_target_input = JNull, cr_enabled = True, cr_max_concurrent = mx, cr_catch_up_missed = False,
      cr_max_catch_up = None, cr_retry_policy = None, cr_next_trigger_at = Some 3\<rparr>"

definition scheduled_store :: "u32 option \<Rightarrow> store" where
  "scheduled_store mx = snd (create_schedule 0 4 (sample_schedule mx) (store_new None))"

lemma scheduled_store_ok: "schedules_ok (scheduled_store mx)"
  by (simp add: schedules_ok_def scheduled_store_def create_schedule_def store_new_def hm_insert_def hm_wf_def)

theorem claim_due_schedules_exclusive_witness:
  "\<exists>cs st1 cs2 st2. claim_due_schedules 9 ''s1'' 5 (scheduled_store None) = (Inr cs, st1)
     \<and> claim_due_schedules 9 ''s2'' 5 st1 = (Inr cs2, st2) \<and> sc_id ` set cs \<inter> sc_id ` set cs2 = {}"
proof -
  obtain cs st1 where 1: "claim_due_schedules 9 ''s1'' 5 (scheduled_store None) = (Inr cs, st1)"
    by (simp add: claim_due_schedules_def Let_def)
  obtain cs2 st2 where 2: "claim_due_schedules 9 ''s2'' 5 st1 = (Inr cs2, st2)"
    by (simp add: claim_due_schedules_def Let_def)
  from claim_due_schedules_exclusive [OF scheduled_store_ok 1 2] 1 2 show ?thesis by blast
qed

end
