(* ===== verification/Scheduler.thy ===== *)
theory Scheduler
  imports Schedule_Store
begin

text \<open>
  The scheduler (\<open>scheduler/mod.rs\<close>): polling for due schedules, triggering their workflow or
  activity, and the run loop with its heartbeat. The cron library, the JSON decoding of activity
  options and the formatting of identifiers and errors are fields of \<open>sched_env\<close>. The run loop
  takes the sequence of events that \<open>select!\<close> sees.
\<close>

section \<open>Model\<close>

record scheduler_config =
  sg_poll_interval :: duration
  sg_batch_size :: u32
  sg_claim_timeout :: duration
  sg_heartbeat_interval :: duration
  sg_enable_catch_up :: bool

definition scheduler_config_default :: scheduler_config where
  "scheduler_config_default =
     \<lparr>sg_poll_interval = from_secs 1, sg_batch_size = 100, sg_claim_timeout = from_secs 30,
      sg_heartbeat_interval = from_secs 10, sg_enable_catch_up = True\<rparr>"

datatype scheduler_error =
    SStore store_error
  | SCronError string
  | SUnknownWorkflowType string
  | SUnknownActivityType string

text \<open>
  \<open>cron_next expr now\<close> is the parse error of the expression, or its next occurrence after \<open>now\<close>,
  if there is one.
\<close>

record sched_env =
  sv_env :: exec_env
  cron_next :: "string \<Rightarrow> timestamp \<Rightarrow> string + timestamp option"
  options_of_json :: "json \<Rightarrow> activity_options option"
  uuid_text :: "uuid \<Rightarrow> string"
  error_text :: "scheduler_error \<Rightarrow> string"

record scheduler =
  sr_config :: scheduler_config
  sr_instance_id :: string

type_synonym 'a sched_op = "(store, scheduler_error, 'a) op"

definition sched_store :: "'a store_op \<Rightarrow> 'a sched_op" where
  "sched_store m = map_err_op SStore m"

definition now_in :: "sched_env \<Rightarrow> store \<Rightarrow> timestamp" where
  "now_in env st = clock (sv_env env) st"

definition new_id_in :: "sched_env \<Rightarrow> store \<Rightarrow> uuid" where
  "new_id_in env st = fresh_uuid (sv_env env) st"

definition calculate_next_trigger :: "sched_env \<Rightarrow> schedule_row \<Rightarrow> timestamp sched_op" where
  "calculate_next_trigger env s st =
     (case cron_next env (sc_cron_expression s) (now_in env st) of
        Inl e \<Rightarrow> (Inl (SCronError e), st)
      | Inr None \<Rightarrow> (Inl (SCronError ''no upcoming occurrence''), st)
      | Inr (Some t) \<Rightarrow> (Inr t, st))"

definition trigger_workflow :: "sched_env \<Rightarrow> schedule_row \<Rightarrow> uuid sched_op" where
  "trigger_workflow env s st =
     (let wid = new_id_in env st in
      bind_op (sched_store (create_workflow (now_in env st) wid (sc_target_name s) (sc_target_input s))) (\<lambda>_.
      bind_op (sched_store (append_events wid 0 [WorkflowStarted (sc_target_input s)])) (\<lambda>_.
      ret_op wid)) st)"

definition trigger_activity :: "sched_env \<Rightarrow> schedule_row \<Rightarrow> uuid sched_op" where
  "trigger_activity env s st =
     sched_store (enqueue_task (now_in env st) (new_id_in env st)
       \<lparr>td_workflow_id = None,
        td_activity_id = ''scheduled-'' @ uuid_text env (new_id_in env st),
        td_activity_type = sc_target_name s,
        td_input = sc_target_input s,
        td_options =
          (case Option.bind (sc_retry_policy s) (options_of_json env) of
             Some opts \<Rightarrow> opts | None \<Rightarrow> activity_options_default)\<rparr>) st"

definition update_next :: "sched_env \<Rightarrow> schedule_row \<Rightarrow> unit sched_op" where
  "update_next env s =
     bind_op (calculate_next_trigger env s) (\<lambda>next_at.
     sched_store (\<lambda>st. update_next_trigger (now_in env st) (sc_id s) next_at st))"

definition scheduled_time :: "sched_env \<Rightarrow> schedule_row \<Rightarrow> store \<Rightarrow> timestamp" where
  "scheduled_time env s st = (case sc_next_trigger_at s of Some t \<Rightarrow> t | None \<Rightarrow> now_in env st)"

definition create_execution :: "sched_env \<Rightarrow> schedule_row \<Rightarrow> uuid sched_op" where
  "create_execution env s =
     sched_store (\<lambda>st. create_schedule_execution (now_in env st) (new_id_in env st) (sc_id s)
       (scheduled_time env s st) st)"

definition skip_and_update_next :: "sched_env \<Rightarrow> schedule_row \<Rightarrow> unit sched_op" where
  "skip_and_update_next env s =
     bind_op (create_execution env s) (\<lambda>execution_id.
     bind_op (sched_store (\<lambda>st. skip_schedule_execution (now_in env st) execution_id
       ''max_concurrent limit reached'' st)) (\<lambda>_.
     update_next env s))"

definition trigger_target :: "sched_env \<Rightarrow> schedule_row \<Rightarrow> uuid sched_op" where
  "trigger_target env s =
     (case sc_target_type s of
        TargetWorkflow \<Rightarrow> trigger_workflow env s
      | TargetActivity \<Rightarrow> trigger_activity env s)"

definition run_trigger :: "sched_env \<Rightarrow> schedule_row \<Rightarrow> unit sched_op" where
  "run_trigger env s =
     bind_op (create_execution env s) (\<lambda>execution_id st.
       case trigger_target env s st of
         (Inr target_id, st) \<Rightarrow>
           bind_op (sched_store (\<lambda>st. complete_schedule_execution (now_in env st) execution_id target_id
             (sc_target_type s = TargetWorkflow) st)) (\<lambda>_. update_next env s) st
       | (Inl e, st) \<Rightarrow>
           bind_op (sched_store (\<lambda>st. fail_schedule_execution (now_in env st) execution_id
             (error_text env e) st)) (\<lambda>_. update_next env s) st)"

definition trigger_schedule :: "sched_env \<Rightarrow> schedule_row \<Rightarrow> unit sched_op" where
  "trigger_schedule env s =
     (case sc_max_concurrent s of
        Some mx \<Rightarrow>
          bind_op (sched_store (count_running_executions (sc_id s))) (\<lambda>running.
          if mx \<le> running then skip_and_update_next env s else run_trigger env s)
      | None \<Rightarrow> run_trigger env s)"

text \<open>The errors of single schedules are logged; \<open>processed\<close> is the \<open>AtomicU64\<close> counter.\<close>

fun trigger_each :: "sched_env \<Rightarrow> schedule_row list \<Rightarrow> store \<times> nat \<Rightarrow> store \<times> nat" where
  "trigger_each env [] s = s"
| "trigger_each env (x # xs) (st, processed) =
     trigger_each env xs (ignore_op (trigger_schedule env x) st, (processed + 1) mod 2 ^ 64)"

definition process_due_schedules ::
  "sched_env \<Rightarrow> scheduler \<Rightarrow> (store \<times> nat, scheduler_error, unit) op" where
  "process_due_schedules env sch s =
     (case claim_due_schedules (now_in env (fst s)) (sr_instance_id sch)
             (sg_batch_size (sr_config sch)) (fst s) of
        (Inl e, st) \<Rightarrow> (Inl (SStore e), (st, snd s))
      | (Inr due, st) \<Rightarrow> (Inr (), trigger_each env due (st, snd s)))"

definition send_heartbeat :: "sched_env \<Rightarrow> scheduler \<Rightarrow> (store \<times> nat, scheduler_error, unit) op" where
  "send_heartbeat env sch s =
     (case heartbeat_scheduler_instance (now_in env (fst s)) (sr_instance_id sch) (snd s) (fst s) of
        (Inl e, st) \<Rightarrow> (Inl (SStore e), (st, snd s))
      | (Inr u, st) \<Rightarrow> (Inr u, (st, snd s)))"

datatype sched_event = ShutdownEvent | PollEvent | HeartbeatEvent

fun run_loop :: "sched_env \<Rightarrow> scheduler \<Rightarrow> sched_event list \<Rightarrow> store \<times> nat \<Rightarrow> store \<times> nat" where
  "run_loop env sch [] s = s"
| "run_loop env sch (ShutdownEvent # evs) s = s"
| "run_loop env sch (PollEvent # evs) s =
     run_loop env sch evs (ignore_op (process_due_schedules env sch) s)"
| "run_loop env sch (HeartbeatEvent # evs) s =
     run_loop env sch evs (ignore_op (send_heartbeat env sch) s)"

definition run_scheduler ::
  "sched_env \<Rightarrow> scheduler \<Rightarrow> string option \<Rightarrow> string option \<Rightarrow> sched_event list \<Rightarrow> store \<times> nat
     \<Rightarrow> store \<times> nat" where
  "run_scheduler env sch hostname version evs s =
     (let info = \<lparr>si_instance_id = sr_instance_id sch, si_started_at = now_in env (fst s),
                  si_last_heartbeat_at = now_in env (fst s), si_schedules_processed = 0,
                  si_hostname = hostname, si_version = version\<rparr>;
          s = (ignore_op (register_scheduler_instance info) (fst s), snd s);
          s = run_loop env sch evs s
      in (ignore_op (deregister_scheduler_instance (sr_instance_id sch)) (fst s), snd s))"

section \<open>Lemmas\<close>

text \<open>No execution is running, and the executions that were skipped.\<close>

definition no_running :: "store \<Rightarrow> bool" where
  "no_running st \<longleftrightarrow>
     hm_wf (schedule_executions st)
     \<and> (\<forall>i e. hm_get (schedule_executions st) i = Some e \<longrightarrow> se_status e \<noteq> ExRunning)"

definition skipped :: "store \<Rightarrow> (uuid \<times> schedule_execution_row) set" where
  "skipped st = {(i, e). hm_get (schedule_executions st) i = Some e \<and> se_status e = ExSkipped}"

lemma sched_store_eq:
  "sched_store m st = (case m st of (Inl e, st') \<Rightarrow> (Inl (SStore e), st') | (Inr x, st') \<Rightarrow> (Inr x, st'))"
  by (simp add: sched_store_def map_err_op_def)

lemma sched_store_snd [simp]: "snd (sched_store m st) = snd (m st)"
  by (simp add: sched_store_eq split: prod.splits sum.splits)

lemma with_workflow_frames [simp]:
  "schedule_executions (snd (with_workflow wid f st)) = schedule_executions st"
  "schedules (snd (with_workflow wid f st)) = schedules st"
  by (simp_all add: with_workflow_def split: option.splits sum.splits)

lemma enqueue_frames [simp]:
  "schedule_executions (snd (enqueue_task now i d st)) = schedule_executions st"
  "schedules (snd (enqueue_task now i d st)) = schedules st"
  by (simp_all add: enqueue_task_def Let_def split: option.splits)

lemma trigger_target_frames:
  "schedule_executions (snd (trigger_target env s st)) = schedule_executions st"
  "schedules (snd (trigger_target env s st)) = schedules st"
  by (simp_all add: trigger_target_def trigger_workflow_def trigger_activity_def Let_def bind_op_def
      create_workflow_def sched_store_eq append_events_def with_workflow_def
      split: schedule_target_type.splits prod.splits sum.splits option.splits)
    (auto simp: enqueue_task_def Let_def split: option.splits if_splits)

lemma update_next_executions [simp]:
  "schedule_executions (snd (update_next env s st)) = schedule_executions st"
  by (simp add: update_next_def bind_op_def calculate_next_trigger_def sched_store_eq
      update_next_trigger_def with_schedule_def split: sum.splits option.splits prod.splits)

definition new_execution :: "sched_env \<Rightarrow> schedule_row \<Rightarrow> store \<Rightarrow> schedule_execution_row" where
  "new_execution env s st =
     \<lparr>se_id = new_id_in env st, se_schedule_id = sc_id s, se_scheduled_at = scheduled_time env s st,
      se_started_at = now_in env st, se_completed_at = None, se_status = ExRunning,
      se_workflow_id = None, se_task_id = None, se_error = None, se_duration_ms = None,
      se_created_at = now_in env st\<rparr>"

lemma create_execution_eq:
  "create_execution env s st = (Inr (new_id_in env st),
     st\<lparr>schedule_executions := hm_insert (new_id_in env st) (new_execution env s st) (schedule_executions st)\<rparr>)"
  by (simp add: create_execution_def sched_store_eq create_schedule_execution_def new_execution_def)

lemma with_execution_eq:
  "hm_get (schedule_executions st) i = Some e \<Longrightarrow>
    with_execution i f st = (Inr (), st\<lparr>schedule_executions := hm_adjust i f (schedule_executions st)\<rparr>)"
  by (simp add: with_execution_def)

text \<open>A trigger leaves one more execution record, finished; the rest of the table is kept.\<close>

lemma run_trigger_executions:
  "\<exists>i e. se_status e \<in> {ExCompleted, ExFailed} \<and> se_schedule_id e = sc_id s
    \<and> hm_get (schedule_executions (snd (run_trigger env s st)))
        = (hm_get (schedule_executions st))(i \<mapsto> e)
    \<and> (hm_wf (schedule_executions st) \<longrightarrow> hm_wf (schedule_executions (snd (run_trigger env s st))))"
proof -
  let ?i = "new_id_in env st" and ?e = "new_execution env s st"
  let ?st = "st\<lparr>schedule_executions := hm_insert ?i ?e (schedule_executions st)\<rparr>"
  obtain r st2 where t: "trigger_target env s ?st = (r, st2)" by (meson surj_pair)
  then have x: "schedule_executions st2 = hm_insert ?i ?e (schedule_executions st)"
    using trigger_target_frames(1) [of env s ?st] by simp
  then have g: "hm_get (schedule_executions st2) ?i = Some ?e" by simp
  show ?thesis
  proof (cases r)
    case (Inl err)
    let ?f = "\<lambda>e. (finish_execution (now_in env st2) ExFailed e)\<lparr>se_error := Some (error_text env err)\<rparr>"
    have "snd (run_trigger env s st)
        = snd (update_next env s (st2\<lparr>schedule_executions := hm_adjust ?i ?f (schedule_executions st2)\<rparr>))"
      by (simp add: run_trigger_def bind_op_def create_execution_eq t Inl sched_store_eq
          fail_schedule_execution_def with_execution_eq [OF g])
    then show ?thesis
      using x by (intro exI [of _ ?i] exI [of _ "?f ?e"])
        (auto simp: fun_eq_iff finish_execution_def new_execution_def)
  next
    case (Inr target)
    let ?f = "\<lambda>e. let e = finish_execution (now_in env st2) ExCompleted e
       in if sc_target_type s = TargetWorkflow then e\<lparr>se_workflow_id := Some target\<rparr>
          else e\<lparr>se_task_id := Some target\<rparr>"
    have "snd (run_trigger env s st)
        = snd (update_next env s (st2\<lparr>schedule_executions := hm_adjust ?i ?f (schedule_executions st2)\<rparr>))"
      by (simp add: run_trigger_def bind_op_def create_execution_eq t Inr sched_store_eq
          complete_schedule_execution_def with_execution_eq [OF g])
    then show ?thesis
      using x by (intro exI [of _ ?i] exI [of _ "?f ?e"])
        (auto simp: fun_eq_iff finish_execution_def new_execution_def Let_def)
  qed
qed

lemma run_trigger_no_running:
  assumes "no_running st"
  shows "no_running (snd (run_trigger env s st)) \<and> skipped (snd (run_trigger env s st)) \<subseteq> skipped st"
  using run_trigger_executions [of s env st] assms
  by (auto simp: no_running_def skipped_def split: if_splits)

lemma no_running_count:
  assumes "no_running st"
  shows "count_running_executions i st = (Inr 0, st)"
proof -
  have "se_status e \<noteq> ExRunning" if "e \<in> set (hm_values (schedule_executions st))" for e
    using that assms by (auto simp: no_running_def hm_values_def hm_wf_in_iff)
  then have "running_executions i st = []" by (auto simp: running_executions_def filter_empty_conv)
  then show ?thesis by (simp add: count_running_executions_def as_u32_def)
qed

lemma trigger_schedule_runs:
  assumes "no_running st" and "sc_max_concurrent s \<noteq> Some 0"
  shows "trigger_schedule env s st = run_trigger env s st"
  using assms no_running_count [OF assms(1)]
  by (auto simp: trigger_schedule_def bind_op_def sched_store_eq word_le_0_iff split: option.splits)

lemma trigger_each_no_running:
  assumes "no_running st" and "\<And>s. s \<in> set due \<Longrightarrow> sc_max_concurrent s \<noteq> Some 0"
  shows "no_running (fst (trigger_each env due (st, n)))
    \<and> skipped (fst (trigger_each env due (st, n))) \<subseteq> skipped st"
  using assms
proof (induction due arbitrary: st n)
  case Nil
  then show ?case by simp
next
  case (Cons s due)
  let ?st = "snd (run_trigger env s st)"
  have r: "no_running ?st \<and> skipped ?st \<subseteq> skipped st" by (rule run_trigger_no_running [OF Cons.prems(1)])
  have "trigger_each env (s # due) (st, n) = trigger_each env due (?st, (n + 1) mod 2 ^ 64)"
    using trigger_schedule_runs [OF Cons.prems(1), of s env] Cons.prems(2) by (simp add: ignore_op_def)
  with Cons.IH [of ?st "(n + 1) mod 2 ^ 64"] r Cons.prems(2) show ?case by auto
qed

lemma update_next_row:
  assumes "hm_get (schedules st) (sc_id s) = Some r"
    and "cron_next env (sc_cron_expression s) (now_in env st) = Inr (Some t)"
  shows "\<exists>st'. update_next env s st = (Inr (), st')
    \<and> hm_get (schedules st') (sc_id s) = Some (r\<lparr>sc_next_trigger_at := Some t,
        sc_last_triggered_at := Some (now_in env st), sc_claimed_by := None, sc_claimed_at := None,
        sc_updated_at := now_in env st\<rparr>)
    \<and> workflows st' = workflows st \<and> tasks st' = tasks st"
  using assms by (simp add: update_next_def bind_op_def calculate_next_trigger_def sched_store_eq
      update_next_trigger_def with_schedule_def)

lemma trigger_workflow_ok:
  "\<exists>wid w st'. trigger_workflow env s st = (Inr wid, st') \<and> hm_get (workflows st') wid = Some w
    \<and> wf_events w = [WorkflowStarted (sc_target_input s)] \<and> wf_workflow_type w = sc_target_name s
    \<and> schedule_executions st' = schedule_executions st \<and> schedules st' = schedules st"
  by (simp add: trigger_workflow_def Let_def bind_op_def create_workflow_def sched_store_eq
      append_events_def with_workflow_def as_i32_def)

section \<open>Properties\<close>

text \<open>
  A due workflow schedule is triggered: when the cron expression has a next occurrence, the
  trigger returns without error, a workflow of the target type exists whose log is its start
  event, an execution record says completed and names that workflow, and the schedule is free
  again with the next occurrence as its trigger time.
\<close>

theorem trigger_schedule_workflow:
  assumes "hm_get (schedules st) (sc_id s) = Some r" and "sc_target_type s = TargetWorkflow"
    and "sc_max_concurrent s = None"
    and "\<And>now. cron_next env (sc_cron_expression s) now = Inr (Some (next_at now))"
    and "trigger_schedule env s st = (res, st')"
  shows "res = Inr ()
    \<and> (\<exists>wid w i e. hm_get (workflows st') wid = Some w
        \<and> wf_events w = [WorkflowStarted (sc_target_input s)] \<and> wf_workflow_type w = sc_target_name s
        \<and> hm_get (schedule_executions st') i = Some e \<and> se_status e = ExCompleted
        \<and> se_schedule_id e = sc_id s \<and> se_workflow_id e = Some wid)
    \<and> (\<exists>r' now. hm_get (schedules st') (sc_id s) = Some r' \<and> sc_claimed_by r' = None
        \<and> sc_next_trigger_at r' = Some (next_at now) \<and> sc_last_triggered_at r' = Some now)"
proof -
  let ?i = "new_id_in env st" and ?e = "new_execution env s st"
  let ?st1 = "st\<lparr>schedule_executions := hm_insert ?i ?e (schedule_executions st)\<rparr>"
  obtain wid w st2 where w: "trigger_workflow env s ?st1 = (Inr wid, st2)"
    and wf: "hm_get (workflows st2) wid = Some w" "wf_events w = [WorkflowStarted (sc_target_input s)]"
    "wf_workflow_type w = sc_target_name s"
    and x2: "schedule_executions st2 = hm_insert ?i ?e (schedule_executions st)" "schedules st2 = schedules st"
    using trigger_workflow_ok [of env s ?st1] by auto
  define f where "f = (\<lambda>e. (finish_execution (now_in env st2) ExCompleted e)\<lparr>se_workflow_id := Some wid\<rparr>)"
  define st3 where "st3 = st2\<lparr>schedule_executions := hm_adjust ?i f (schedule_executions st2)\<rparr>"
  have g: "hm_get (schedule_executions st2) ?i = Some ?e" using x2(1) by simp
  have "complete_schedule_execution (now_in env st2) ?i wid True st2 = (Inr (), st3)"
    using with_execution_eq [OF g] by (simp add: complete_schedule_execution_def Let_def f_def st3_def)
  then have t: "trigger_schedule env s st = update_next env s st3"
    using assms(2,3) by (simp add: trigger_schedule_def run_trigger_def bind_op_def create_execution_eq
        trigger_target_def w sched_store_eq)
  have row: "hm_get (schedules st3) (sc_id s) = Some r" using assms(1) x2(2) by (simp add: st3_def)
  obtain st4 where u: "update_next env s st3 = (Inr (), st4)"
    "hm_get (schedules st4) (sc_id s) = Some (r\<lparr>sc_next_trigger_at := Some (next_at (now_in env st3)),
        sc_last_triggered_at := Some (now_in env st3), sc_claimed_by := None, sc_claimed_at := None,
        sc_updated_at := now_in env st3\<rparr>)" "workflows st4 = workflows st3"
    using update_next_row [OF row assms(4)] by blast
  have "schedule_executions st4 = schedule_executions st3"
    using update_next_executions [of env s st3] u(1) by simp
  then have ex: "hm_get (schedule_executions st4) ?i = Some (f ?e)" using g by (simp add: st3_def)
  have wk: "hm_get (workflows st4) wid = Some w" using u(3) wf(1) by (simp add: st3_def)
  have "se_status (f ?e) = ExCompleted" "se_schedule_id (f ?e) = sc_id s" "se_workflow_id (f ?e) = Some wid"
    by (simp_all add: f_def finish_execution_def new_execution_def)
  with ex wk wf u(1,2) t assms(5) show ?thesis by auto
qed

text \<open>
  The limit on concurrent executions does not limit: an execution record is finished as soon
  as its target has been created, so no record is running when a poll starts, none is left
  running by it, and no trigger is ever skipped for a schedule whose limit is at least one, no
  matter how many workflows of the schedule are in progress.
\<close>

theorem max_concurrent_never_limits:
  assumes "no_running st" and "\<And>i s. hm_get (schedules st) i = Some s \<Longrightarrow> sc_max_concurrent s \<noteq> Some 0"
    and "hm_wf (schedules st)" and "process_due_schedules env sch (st, n) = (r, (st', n'))"
  shows "no_running st' \<and> skipped st' \<subseteq> skipped st \<and> r = Inr ()"
proof -
  obtain due st1 where c: "claim_due_schedules (now_in env st) (sr_instance_id sch)
      (sg_batch_size (sr_config sch)) st = (Inr due, st1)"
    by (simp add: claim_due_schedules_def Let_def)
  have x: "schedule_executions st1 = schedule_executions st"
    using c by (auto simp: claim_due_schedules_def Let_def)
  then have "no_running st1" "skipped st1 = skipped st"
    using assms(1) by (simp_all add: no_running_def skipped_def)
  moreover have "sc_max_concurrent s \<noteq> Some 0" if "s \<in> set due" for s
  proof -
    from that c claim_due_result [of "now_in env st" "sr_instance_id sch" "sg_batch_size (sr_config sch)" st]
    obtain i s0 where s0: "(i, s0) \<in> set (take (unat (sg_batch_size (sr_config sch)))
        (due_candidates (now_in env st) st))"
      "s = claim_schedule_row (now_in env st) (sr_instance_id sch) s0" by auto
    with picked_due [OF s0(1)] assms(2) [of i s0] hm_get_in [OF assms(3)]
    show ?thesis by (simp add: claim_schedule_row_def)
  qed
  ultimately show ?thesis
    using trigger_each_no_running [of st1 due env n] c assms(4)
    by (auto simp: process_due_schedules_def)
qed

text \<open>
  An invalid cron expression strands its schedule: the trigger creates the target and then
  fails with \<open>CronError\<close> before the claim is released; the row stays claimed, so no later poll of
  any scheduler takes it (the in-memory store has no claim timeout).
\<close>

theorem cron_error_strands_schedule:
  assumes "hm_get (schedules st) (sc_id s) = Some r" and "sc_claimed_by r = Some owner"
    and "sc_max_concurrent s = None" and "\<And>now. cron_next env (sc_cron_expression s) now = Inl err"
    and "trigger_schedule env s st = (res, st')"
  shows "res = Inl (SCronError err) \<and> hm_get (schedules st') (sc_id s) = Some r
    \<and> (\<forall>now. \<not> schedule_due now r)"
proof -
  let ?i = "new_id_in env st" and ?e = "new_execution env s st"
  let ?st = "st\<lparr>schedule_executions := hm_insert ?i ?e (schedule_executions st)\<rparr>"
  obtain x st2 where t: "trigger_target env s ?st = (x, st2)" by (meson surj_pair)
  then have f: "schedule_executions st2 = hm_insert ?i ?e (schedule_executions st)"
    "schedules st2 = schedules st"
    using trigger_target_frames [of env s ?st] by simp_all
  have g: "hm_get (schedule_executions st2) ?i = Some ?e" using f(1) by simp
  have u: "update_next env s st3 = (Inl (SCronError err), st3)" for st3
    using assms(4) by (simp add: update_next_def bind_op_def calculate_next_trigger_def)
  have "\<exists>f. trigger_schedule env s st = (Inl (SCronError err), st2\<lparr>schedule_executions := f\<rparr>)"
    using assms(3) by (cases x)
      (auto simp: trigger_schedule_def run_trigger_def bind_op_def create_execution_eq t sched_store_eq u
        complete_schedule_execution_def fail_schedule_execution_def with_execution_eq [OF g])
  then show ?thesis
    using assms(1,2,5) f(2) by (auto simp: schedule_due_def)
qed

section \<open>Examples\<close>

definition sample_sched_env :: "(timestamp \<Rightarrow> string + timestamp option) \<Rightarrow> sched_env" where
  "sample_sched_env cron =
     \<lparr>sv_env = \<lparr>clock = (\<lambda>_. 9), fresh_uuid = (\<lambda>st. Suc (length (schedule_executions st)))\<rparr>,
      cron_next = (\<lambda>_ now. cron now), options_of_json = (\<lambda>_. None), uuid_text = show_nat,
      error_text = (\<lambda>_. [])\<rparr>"

definition sample_row_of :: "u32 option \<Rightarrow> schedule_row" where
  "sample_row_of mx = the (hm_get (schedules (scheduled_store mx)) 4)"

lemma scheduled_row:
  "hm_get (schedules (scheduled_store mx)) 4 = Some (sample_row_of mx)"
  "sc_id (sample_row_of mx) = 4" "sc_target_type (sample_row_of mx) = TargetWorkflow"
  "sc_max_concurrent (sample_row_of mx) = mx"
  by (simp_all add: sample_row_of_def scheduled_store_def create_schedule_def sample_schedule_def)

theorem trigger_schedule_workflow_witness:
  "fst (trigger_schedule (sample_sched_env (\<lambda>now. Inr (Some (now + 5)))) (sample_row_of None)
     (scheduled_store None)) = Inr ()"
proof -
  have g: "hm_get (schedules (scheduled_store None)) (sc_id (sample_row_of None)) = Some (sample_row_of None)"
    by (simp add: scheduled_row)
  show ?thesis
    using trigger_schedule_workflow [OF g _ _ _ prod.collapse [symmetric],
        of "sample_sched_env (\<lambda>now. Inr (Some (now + 5)))" "\<lambda>now. now + 5"]
    by (simp add: scheduled_row sample_sched_env_def)
qed

theorem max_concurrent_never_limits_witness:
  "\<exists>r st' n'. process_due_schedules (sample_sched_env (\<lambda>now. Inr (Some (now + 5))))
      \<lparr>sr_config = scheduler_config_default, sr_instance_id = ''s1''\<rparr> (scheduled_store (Some 1), 0)
     = (r, (st', n')) \<and> no_running st' \<and> skipped st' = {}"
proof -
  let ?env = "sample_sched_env (\<lambda>now. Inr (Some (now + 5)))"
  let ?sch = "\<lparr>sr_config = scheduler_config_default, sr_instance_id = ''s1''\<rparr>"
  have x: "schedule_executions (scheduled_store (Some 1)) = []"
    by (simp add: scheduled_store_def create_schedule_def store_new_def)
  then have nr: "no_running (scheduled_store (Some 1))" and sk: "skipped (scheduled_store (Some 1)) = {}"
    by (simp_all add: no_running_def skipped_def)
  have only: "i = 4" if "hm_get (schedules (scheduled_store (Some 1))) i = Some s" for i s
    using that by (auto simp: scheduled_store_def create_schedule_def store_new_def split: if_splits)
  have mx: "sc_max_concurrent s \<noteq> Some 0" if "hm_get (schedules (scheduled_store (Some 1))) i = Some s" for i s
    using only [OF that] that scheduled_row(1) [of "Some 1"] scheduled_row(4) [of "Some 1"] by auto
  have wf: "hm_wf (schedules (scheduled_store (Some 1)))"
    using scheduled_store_ok [of "Some 1"] by (simp add: schedules_ok_def)
  obtain r st' n' where p: "process_due_schedules ?env ?sch (scheduled_store (Some 1), 0) = (r, (st', n'))"
    by (metis surj_pair)
  from max_concurrent_never_limits [OF nr mx wf p] p sk show ?thesis by auto
qed

theorem cron_error_strands_schedule_witness:
  "fst (trigger_schedule (sample_sched_env (\<lambda>_. Inl ''bad'')) (sample_row_of None)
     (snd (claim_due_schedules 9 ''s1'' 5 (scheduled_store None)))) = Inl (SCronError ''bad'')"
proof -
  let ?st = "snd (claim_due_schedules 9 ''s1'' 5 (scheduled_store None))"
  let ?r = "claim_schedule_row 9 ''s1'' (sample_row_of None)"
  have due: "schedule_due 9 (sample_row_of None)"
    by (simp add: sample_row_of_def scheduled_store_def create_schedule_def sample_schedule_def schedule_due_def)
  have "schedules (scheduled_store None) = [(4, sample_row_of None)]"
    by (simp add: sample_row_of_def scheduled_store_def create_schedule_def store_new_def hm_insert_def hm_get_def)
  then have "due_candidates 9 (scheduled_store None) = [(4, sample_row_of None)]"
    using due by (simp add: due_candidates_def)
  then have g: "hm_get (schedules ?st) (sc_id (sample_row_of None)) = Some ?r"
    by (simp add: claim_due_get scheduled_row)
  show ?thesis
    using cron_error_strands_schedule [OF g _ _ _ prod.collapse [symmetric],
        of "''s1''" "sample_sched_env (\<lambda>_. Inl ''bad'')" "''bad''"]
    by (simp add: scheduled_row sample_sched_env_def)
qed

end
