(* ===== verification/Breaker.thy ===== *)
theory Breaker
  imports Store_Types
begin

text \<open>
  Circuit breakers: the breaker table of the in-memory store (\<open>persistence/memory.rs\<close>) and
  \<open>DistributedCircuitBreaker\<close> (\<open>reliability/distributed_circuit_breaker.rs\<close>), which reads the
  shared state through a local cache. The breaker is written over the three store operations it
  calls (\<open>breaker_api\<close>); the locale \<open>breaker_store\<close> states what it relies on in them and the
  in-memory table is its instance. The clock readings of one call are the fields of
  \<open>dcb_clock\<close>. Fail points, compiled in for tests only, are left out.
\<close>

section \<open>The breaker table of the in-memory store\<close>

definition closed_breaker :: circuit_breaker_mem_state where
  "closed_breaker =
     \<lparr>cb_state = CClosed, cb_failure_count = 0, cb_success_count = 0, cb_opened_at = None\<rparr>"

definition create_circuit_breaker :: "string \<Rightarrow> circuit_breaker_config \<Rightarrow> unit store_op" where
  "create_circuit_breaker key config st =
     (Inr (), st\<lparr>circuit_breakers := hm_insert key closed_breaker (circuit_breakers st)\<rparr>)"

definition breaker_row :: "timestamp \<Rightarrow> string \<Rightarrow> circuit_breaker_mem_state \<Rightarrow> circuit_breaker_state" where
  "breaker_row now key b =
     \<lparr>cs_key = key, cs_state = cb_state b, cs_failure_count = cb_failure_count b,
      cs_success_count = cb_success_count b, cs_last_failure_at = None,
      cs_opened_at = cb_opened_at b, cs_half_open_at = None, cs_updated_at = now\<rparr>"

definition get_circuit_breaker :: "timestamp \<Rightarrow> string \<Rightarrow> circuit_breaker_state option store_op" where
  "get_circuit_breaker now key st =
     (Inr (map_option (breaker_row now key) (hm_get (circuit_breakers st) key)), st)"

definition updated_breaker ::
  "timestamp \<Rightarrow> circuit_state \<Rightarrow> u32 \<Rightarrow> u32 \<Rightarrow> circuit_breaker_mem_state option
     \<Rightarrow> circuit_breaker_mem_state" where
  "updated_breaker now state failure_count success_count old =
     \<lparr>cb_state = state, cb_failure_count = failure_count, cb_success_count = success_count,
      cb_opened_at =
        (case old of
           Some b \<Rightarrow>
             if state = COpen \<and> cb_state b \<noteq> COpen then Some now
             else if state = CClosed then None
             else cb_opened_at b
         | None \<Rightarrow> if state = COpen then Some now else None)\<rparr>"

definition update_circuit_breaker ::
  "timestamp \<Rightarrow> string \<Rightarrow> circuit_state \<Rightarrow> u32 \<Rightarrow> u32 \<Rightarrow> unit store_op" where
  "update_circuit_breaker now key state failure_count success_count st =
     (Inr (), st\<lparr>circuit_breakers :=
        hm_insert key
          (updated_breaker now state failure_count success_count
             (hm_get (circuit_breakers st) key)) (circuit_breakers st)\<rparr>)"

definition list_circuit_breakers :: "timestamp \<Rightarrow> circuit_breaker_state list store_op" where
  "list_circuit_breakers now st =
     (Inr (map (\<lambda>(k, b). breaker_row now k b) (circuit_breakers st)), st)"

definition force_open_circuit_breaker :: "timestamp \<Rightarrow> string \<Rightarrow> unit store_op" where
  "force_open_circuit_breaker now key st =
     (Inr (), st\<lparr>circuit_breakers :=
        hm_insert key
          \<lparr>cb_state = COpen, cb_failure_count = 0, cb_success_count = 0, cb_opened_at = Some now\<rparr>
          (circuit_breakers st)\<rparr>)"

definition force_close_circuit_breaker :: "string \<Rightarrow> unit store_op" where
  "force_close_circuit_breaker key st =
     (case hm_get (circuit_breakers st) key of
        Some b \<Rightarrow>
          (Inr (), st\<lparr>circuit_breakers :=
             hm_adjust key
               (\<lambda>b. b\<lparr>cb_state := CClosed, cb_failure_count := 0, cb_success_count := 0,
                      cb_opened_at := None\<rparr>) (circuit_breakers st)\<rparr>)
      | None \<Rightarrow> (Inl (CircuitBreakerNotFound key), st))"

definition delete_circuit_breaker :: "string \<Rightarrow> unit store_op" where
  "delete_circuit_breaker key st =
     (case hm_get (circuit_breakers st) key of
        Some _ \<Rightarrow> (Inr (), st\<lparr>circuit_breakers := hm_remove key (circuit_breakers st)\<rparr>)
      | None \<Rightarrow> (Inl (CircuitBreakerNotFound key), st))"

section \<open>The distributed circuit breaker\<close>

datatype circuit_breaker_error =
    BreakerOpen
  | HalfOpenExhausted
  | BreakerStore store_error

record cached_state =
  ca_state :: circuit_state
  ca_failure_count :: u32
  ca_success_count :: u32
  ca_opened_at :: "timestamp option"
  ca_cached_at :: timestamp

record dcb_clock =
  at_stale :: timestamp
  at_fetch :: timestamp
  at_cached :: timestamp
  at_check :: timestamp
  at_write :: timestamp

record 's breaker_api =
  ba_get :: "timestamp \<Rightarrow> string \<Rightarrow> ('s, store_error, circuit_breaker_state option) op"
  ba_create :: "string \<Rightarrow> circuit_breaker_config \<Rightarrow> ('s, store_error, unit) op"
  ba_update :: "timestamp \<Rightarrow> string \<Rightarrow> circuit_state \<Rightarrow> u32 \<Rightarrow> u32 \<Rightarrow> ('s, store_error, unit) op"

record dcb =
  dc_key :: string
  dc_config :: circuit_breaker_config
  dc_cache_duration :: duration

definition dcb_new :: "string \<Rightarrow> circuit_breaker_config \<Rightarrow> dcb" where
  "dcb_new key config = \<lparr>dc_key = key, dc_config = config, dc_cache_duration = from_secs 1\<rparr>"

definition with_cache_duration :: "duration \<Rightarrow> dcb \<Rightarrow> dcb" where
  "with_cache_duration d b = b\<lparr>dc_cache_duration := d\<rparr>"

text \<open>The shared store together with the breaker's own cache.\<close>

type_synonym ('s, 'a) dcb_op = "('s \<times> cached_state option, circuit_breaker_error, 'a) op"

definition on_store :: "('s, store_error, 'a) op \<Rightarrow> ('s, 'a) dcb_op" where
  "on_store m s =
     (case m (fst s) of
        (Inl e, t) \<Rightarrow> (Inl (BreakerStore e), (t, snd s))
      | (Inr x, t) \<Rightarrow> (Inr x, (t, snd s)))"

definition set_cache :: "cached_state option \<Rightarrow> ('s, unit) dcb_op" where
  "set_cache c s = (Inr (), (fst s, c))"

text \<open>\<open>Duration::MAX\<close> as the age of a state cached in the future: it exceeds every maximum.\<close>

definition is_stale :: "timestamp \<Rightarrow> duration \<Rightarrow> cached_state \<Rightarrow> bool" where
  "is_stale now max_age c \<longleftrightarrow> max_age < elapsed_or (Suc max_age) now (ca_cached_at c)"

definition cached_of :: "timestamp \<Rightarrow> circuit_breaker_state \<Rightarrow> cached_state" where
  "cached_of now s =
     \<lparr>ca_state = cs_state s, ca_failure_count = cs_failure_count s,
      ca_success_count = cs_success_count s, ca_opened_at = cs_opened_at s, ca_cached_at = now\<rparr>"

definition fetch_state ::
  "'s breaker_api \<Rightarrow> dcb \<Rightarrow> dcb_clock \<Rightarrow> ('s, cached_state) dcb_op" where
  "fetch_state api b clk =
     bind_op (on_store (ba_get api (at_fetch clk) (dc_key b))) (\<lambda>db_state.
     bind_op
       (case db_state of
          Some state \<Rightarrow> ret_op (cached_of (at_cached clk) state)
        | None \<Rightarrow>
            bind_op (on_store (ba_create api (dc_key b) (dc_config b))) (\<lambda>_.
            ret_op \<lparr>ca_state = CClosed, ca_failure_count = 0, ca_success_count = 0,
                    ca_opened_at = None, ca_cached_at = at_cached clk\<rparr>)) (\<lambda>cached.
     bind_op (set_cache (Some cached)) (\<lambda>_. ret_op cached)))"

definition get_state ::
  "'s breaker_api \<Rightarrow> dcb \<Rightarrow> dcb_clock \<Rightarrow> ('s, cached_state) dcb_op" where
  "get_state api b clk s =
     (case snd s of
        Some cached \<Rightarrow>
          if \<not> is_stale (at_stale clk) (dc_cache_duration b) cached then (Inr cached, s)
          else fetch_state api b clk s
      | None \<Rightarrow> fetch_state api b clk s)"

definition should_transition_to_half_open :: "dcb \<Rightarrow> timestamp \<Rightarrow> cached_state \<Rightarrow> bool" where
  "should_transition_to_half_open b now state =
     (case ca_opened_at state of
        Some opened_at \<Rightarrow> reset_timeout (dc_config b) \<le> elapsed_or 0 now opened_at
      | None \<Rightarrow> False)"

definition transition_to ::
  "'s breaker_api \<Rightarrow> dcb \<Rightarrow> dcb_clock \<Rightarrow> circuit_state \<Rightarrow> ('s, unit) dcb_op" where
  "transition_to api b clk state =
     bind_op (on_store (ba_update api (at_write clk) (dc_key b) state 0 0)) (\<lambda>_. set_cache None)"

definition transition_to_open :: "'s breaker_api \<Rightarrow> dcb \<Rightarrow> dcb_clock \<Rightarrow> ('s, unit) dcb_op" where
  "transition_to_open api b clk = transition_to api b clk COpen"

definition transition_to_half_open :: "'s breaker_api \<Rightarrow> dcb \<Rightarrow> dcb_clock \<Rightarrow> ('s, unit) dcb_op" where
  "transition_to_half_open api b clk = transition_to api b clk CHalfOpen"

definition transition_to_closed :: "'s breaker_api \<Rightarrow> dcb \<Rightarrow> dcb_clock \<Rightarrow> ('s, unit) dcb_op" where
  "transition_to_closed api b clk = transition_to api b clk CClosed"

text \<open>
  The three operations read the state and then act on what they read; the second half of each is
  a definition of its own, since other workers may act in between. A permit carries no data.
\<close>

definition allow_after :: "'s breaker_api \<Rightarrow> dcb \<Rightarrow> dcb_clock \<Rightarrow> cached_state \<Rightarrow> ('s, unit) dcb_op" where
  "allow_after api b clk state =
     (case ca_state state of
        CClosed \<Rightarrow> ret_op ()
      | COpen \<Rightarrow>
          if should_transition_to_half_open b (at_check clk) state
          then transition_to_half_open api b clk
          else fail_op BreakerOpen
      | CHalfOpen \<Rightarrow> ret_op ())"

definition allow :: "'s breaker_api \<Rightarrow> dcb \<Rightarrow> dcb_clock \<Rightarrow> ('s, unit) dcb_op" where
  "allow api b clk = bind_op (get_state api b clk) (allow_after api b clk)"

definition breaker_current_state ::
  "'s breaker_api \<Rightarrow> dcb \<Rightarrow> dcb_clock \<Rightarrow> ('s, circuit_state) dcb_op" where
  "breaker_current_state api b clk =
     bind_op (get_state api b clk) (\<lambda>state. ret_op (ca_state state))"

definition success_after :: "'s breaker_api \<Rightarrow> dcb \<Rightarrow> dcb_clock \<Rightarrow> cached_state \<Rightarrow> ('s, unit) dcb_op" where
  "success_after api b clk state =
     (case ca_state state of
        CClosed \<Rightarrow> ret_op ()
      | CHalfOpen \<Rightarrow>
          let new_success_count = ca_success_count state + 1 in
          bind_op
            (if success_threshold (dc_config b) \<le> new_success_count
             then transition_to_closed api b clk
             else on_store (ba_update api (at_write clk) (dc_key b) CHalfOpen
                    (ca_failure_count state) new_success_count)) (\<lambda>_.
          set_cache None)
      | COpen \<Rightarrow> ret_op ())"

definition record_success :: "'s breaker_api \<Rightarrow> dcb \<Rightarrow> dcb_clock \<Rightarrow> ('s, unit) dcb_op" where
  "record_success api b clk = bind_op (get_state api b clk) (success_after api b clk)"

definition failure_after :: "'s breaker_api \<Rightarrow> dcb \<Rightarrow> dcb_clock \<Rightarrow> cached_state \<Rightarrow> ('s, unit) dcb_op" where
  "failure_after api b clk state =
     (case ca_state state of
        CClosed \<Rightarrow>
          let new_failure_count = ca_failure_count state + 1 in
          bind_op
            (if failure_threshold (dc_config b) \<le> new_failure_count
             then transition_to_open api b clk
             else on_store (ba_update api (at_write clk) (dc_key b) CClosed new_failure_count 0)) (\<lambda>_.
          set_cache None)
      | CHalfOpen \<Rightarrow> bind_op (transition_to_open api b clk) (\<lambda>_. set_cache None)
      | COpen \<Rightarrow> ret_op ())"

definition record_failure :: "'s breaker_api \<Rightarrow> dcb \<Rightarrow> dcb_clock \<Rightarrow> ('s, unit) dcb_op" where
  "record_failure api b clk = bind_op (get_state api b clk) (failure_after api b clk)"

definition breaker_reset :: "'s breaker_api \<Rightarrow> dcb \<Rightarrow> dcb_clock \<Rightarrow> ('s, unit) dcb_op" where
  "breaker_reset api b clk = transition_to_closed api b clk"

definition breaker_force_open :: "'s breaker_api \<Rightarrow> dcb \<Rightarrow> dcb_clock \<Rightarrow> ('s, unit) dcb_op" where
  "breaker_force_open api b clk = transition_to_open api b clk"

definition breaker_force_close :: "'s breaker_api \<Rightarrow> dcb \<Rightarrow> dcb_clock \<Rightarrow> ('s, unit) dcb_op" where
  "breaker_force_close api b clk = transition_to_closed api b clk"

section \<open>Specification\<close>

text \<open>The state machine of \<open>CircuitBreakerConfig\<close>'s diagram, on one breaker.\<close>

definition spec_allow :: "circuit_breaker_config \<Rightarrow> timestamp \<Rightarrow> timestamp
    \<Rightarrow> circuit_breaker_mem_state \<Rightarrow> bool \<times> circuit_breaker_mem_state" where
  "spec_allow cfg check now b =
     (case cb_state b of
        COpen \<Rightarrow>
          (case cb_opened_at b of
             Some t \<Rightarrow>
               if reset_timeout cfg \<le> elapsed_or 0 check t
               then (True, b\<lparr>cb_state := CHalfOpen, cb_failure_count := 0, cb_success_count := 0\<rparr>)
               else (False, b)
           | None \<Rightarrow> (False, b))
      | _ \<Rightarrow> (True, b))"

definition tripped :: "timestamp \<Rightarrow> circuit_breaker_mem_state" where
  "tripped now =
     \<lparr>cb_state = COpen, cb_failure_count = 0, cb_success_count = 0, cb_opened_at = Some now\<rparr>"

definition spec_failure :: "circuit_breaker_config \<Rightarrow> timestamp
    \<Rightarrow> circuit_breaker_mem_state \<Rightarrow> circuit_breaker_mem_state" where
  "spec_failure cfg now b =
     (case cb_state b of
        CClosed \<Rightarrow>
          if failure_threshold cfg \<le> cb_failure_count b + 1 then tripped now
          else b\<lparr>cb_failure_count := cb_failure_count b + 1, cb_success_count := 0,
                 cb_opened_at := None\<rparr>
      | CHalfOpen \<Rightarrow> tripped now
      | COpen \<Rightarrow> b)"


text \<open>A success as the code carries it out: in the closed state nothing is reset.\<close>

definition spec_success :: "circuit_breaker_config
    \<Rightarrow> circuit_breaker_mem_state \<Rightarrow> circuit_breaker_mem_state" where
  "spec_success cfg b =
     (if cb_state b \<noteq> CHalfOpen then b
      else if success_threshold cfg \<le> cb_success_count b + 1 then closed_breaker
      else b\<lparr>cb_success_count := cb_success_count b + 1\<rparr>)"

text \<open>What every breaker satisfies.\<close>

definition breaker_ok :: "circuit_breaker_config \<Rightarrow> circuit_breaker_mem_state \<Rightarrow> bool" where
  "breaker_ok cfg b \<longleftrightarrow>
     (case cb_state b of
        COpen \<Rightarrow> cb_opened_at b \<noteq> None
      | CClosed \<Rightarrow> cb_failure_count b < max (failure_threshold cfg) 1 \<and> cb_opened_at b = None
      | CHalfOpen \<Rightarrow> cb_success_count b < max (success_threshold cfg) 1)"

text \<open>The in-memory table behind the interface, and the breaker a key stands for.\<close>

definition mem_breakers :: "store breaker_api" where
  "mem_breakers =
     \<lparr>ba_get = get_circuit_breaker, ba_create = create_circuit_breaker,
      ba_update = update_circuit_breaker\<rparr>"

definition breaker_view :: "store \<Rightarrow> string \<Rightarrow> circuit_breaker_mem_state option" where
  "breaker_view st k = hm_get (circuit_breakers st) k"

definition current_in ::
  "('s \<Rightarrow> string \<Rightarrow> circuit_breaker_mem_state option) \<Rightarrow> string \<Rightarrow> 's \<Rightarrow> circuit_breaker_mem_state" where
  "current_in view k s = (case view s k of Some b \<Rightarrow> b | None \<Rightarrow> closed_breaker)"

definition breaker_of :: "cached_state \<Rightarrow> circuit_breaker_mem_state" where
  "breaker_of c =
     \<lparr>cb_state = ca_state c, cb_failure_count = ca_failure_count c,
      cb_success_count = ca_success_count c, cb_opened_at = ca_opened_at c\<rparr>"

text \<open>The cache, if it holds anything, holds the breaker as it is in the store.\<close>

definition coherent_in ::
  "('s \<Rightarrow> string \<Rightarrow> circuit_breaker_mem_state option) \<Rightarrow> string \<Rightarrow> 's \<times> cached_state option \<Rightarrow> bool" where
  "coherent_in view k s \<longleftrightarrow>
     (case snd s of None \<Rightarrow> True | Some c \<Rightarrow> view (fst s) k = Some (breaker_of c))"

text \<open>A sequence of call results reported to the breaker, with their clock readings.\<close>

definition report :: "'s breaker_api \<Rightarrow> dcb \<Rightarrow> bool \<times> dcb_clock \<Rightarrow> ('s, unit) dcb_op" where
  "report api b oc = (if fst oc then record_success api b (snd oc) else record_failure api b (snd oc))"

definition report_all ::
  "'s breaker_api \<Rightarrow> dcb \<Rightarrow> (bool \<times> dcb_clock) list \<Rightarrow> 's \<times> cached_state option \<Rightarrow> 's \<times> cached_state option"
where
  "report_all api b ocs s = fold (\<lambda>oc s. snd (report api b oc s)) ocs s"

definition spec_report ::
  "circuit_breaker_config \<Rightarrow> bool \<times> dcb_clock \<Rightarrow> circuit_breaker_mem_state \<Rightarrow> circuit_breaker_mem_state" where
  "spec_report cfg oc m = (if fst oc then spec_success cfg m else spec_failure cfg (at_write (snd oc)) m)"

text \<open>
  Workers that share one breaker: the store, and for each worker its cache and the state it has
  read and not yet acted on.
\<close>

record dcb_system =
  sy_store :: store
  sy_cache :: "nat \<Rightarrow> cached_state option"
  sy_read :: "nat \<Rightarrow> cached_state option"

definition sy_update ::
  "nat \<Rightarrow> cached_state option \<Rightarrow> store \<times> cached_state option \<Rightarrow> dcb_system \<Rightarrow> dcb_system" where
  "sy_update i r s sys =
     \<lparr>sy_store = fst s, sy_cache = (sy_cache sys)(i := snd s), sy_read = (sy_read sys)(i := r)\<rparr>"

inductive dcb_step :: "dcb \<Rightarrow> dcb_system \<Rightarrow> dcb_system \<Rightarrow> bool" for b where
  read: "get_state mem_breakers b clk (sy_store sys, sy_cache sys i) = (Inr c, s)
    \<Longrightarrow> dcb_step b sys (sy_update i (Some c) s sys)"
| allow: "sy_read sys i = Some c
    \<Longrightarrow> allow_after mem_breakers b clk c (sy_store sys, sy_cache sys i) = (r, s)
    \<Longrightarrow> dcb_step b sys (sy_update i None s sys)"
| success: "sy_read sys i = Some c
    \<Longrightarrow> success_after mem_breakers b clk c (sy_store sys, sy_cache sys i) = (r, s)
    \<Longrightarrow> dcb_step b sys (sy_update i None s sys)"
| failure: "sy_read sys i = Some c
    \<Longrightarrow> failure_after mem_breakers b clk c (sy_store sys, sy_cache sys i) = (r, s)
    \<Longrightarrow> dcb_step b sys (sy_update i None s sys)"
| force: "op \<in> {breaker_force_open, breaker_force_close, breaker_reset}
    \<Longrightarrow> op mem_breakers b clk (sy_store sys, sy_cache sys i) = (r, s)
    \<Longrightarrow> dcb_step b sys (sy_update i (sy_read sys i) s sys)"
| admin: "op \<in> {force_open_circuit_breaker now k, force_close_circuit_breaker k, delete_circuit_breaker k}
    \<Longrightarrow> op (sy_store sys) = (r, st) \<Longrightarrow> dcb_step b sys (sys\<lparr>sy_store := st\<rparr>)"
| other: "breaker_view st (dc_key b) = breaker_view (sy_store sys) (dc_key b)
    \<Longrightarrow> dcb_step b sys (sys\<lparr>sy_store := st\<rparr>)"

definition dcb_start :: "dcb_system \<Rightarrow> bool" where
  "dcb_start sys \<longleftrightarrow> circuit_breakers (sy_store sys) = [] \<and> sy_cache sys = (\<lambda>_. None)
     \<and> sy_read sys = (\<lambda>_. None)"

definition dcb_inv :: "dcb \<Rightarrow> dcb_system \<Rightarrow> bool" where
  "dcb_inv b sys \<longleftrightarrow>
     (\<forall>m. breaker_view (sy_store sys) (dc_key b) = Some m \<longrightarrow> breaker_ok (dc_config b) m)
     \<and> (\<forall>i c. sy_cache sys i = Some c \<or> sy_read sys i = Some c
          \<longrightarrow> breaker_ok (dc_config b) (breaker_of c))"

definition row_ok :: "dcb \<Rightarrow> store \<Rightarrow> bool" where
  "row_ok b st \<longleftrightarrow> (\<forall>m. breaker_view st (dc_key b) = Some m \<longrightarrow> breaker_ok (dc_config b) m)"

section \<open>Contract of the store\<close>

locale breaker_store =
  fixes api :: "'s breaker_api"
    and view :: "'s \<Rightarrow> string \<Rightarrow> circuit_breaker_mem_state option"
  assumes get_view: "ba_get api now k s = (Inr (map_option (breaker_row now k) (view s k)), s)"
    and create_view:
      "\<exists>s'. ba_create api k cfg s = (Inr (), s') \<and> view s' = (view s)(k \<mapsto> closed_breaker)"
    and update_view:
      "\<exists>s'. ba_update api now k q f c s = (Inr (), s')
         \<and> view s' = (view s)(k \<mapsto> updated_breaker now q f c (view s k))"
begin

lemma fetch_state_spec:
  "\<exists>c s'. fetch_state api b clk s = (Inr c, (s', Some c))
    \<and> view s' = (view (fst s))(dc_key b \<mapsto> current_in view (dc_key b) (fst s))
    \<and> breaker_of c = current_in view (dc_key b) (fst s)"
proof (cases "view (fst s) (dc_key b)")
  case None
  obtain s' where "ba_create api (dc_key b) (dc_config b) (fst s) = (Inr (), s')"
    "view s' = (view (fst s))(dc_key b \<mapsto> closed_breaker)"
    using create_view [of "dc_key b" "dc_config b" "fst s"] by blast
  with None show ?thesis
    by (simp add: fetch_state_def bind_op_def on_store_def get_view set_cache_def current_in_def
        breaker_of_def closed_breaker_def)
next
  case (Some m)
  then show ?thesis
    by (simp add: fetch_state_def bind_op_def on_store_def get_view set_cache_def current_in_def
        breaker_of_def cached_of_def breaker_row_def fun_upd_idem)
qed

lemma get_state_spec:
  assumes "coherent_in view (dc_key b) s"
  shows "\<exists>c s'. get_state api b clk s = (Inr c, (s', Some c))
    \<and> view s' = (view (fst s))(dc_key b \<mapsto> current_in view (dc_key b) (fst s))
    \<and> breaker_of c = current_in view (dc_key b) (fst s)"
proof (cases "snd s")
  case None
  then show ?thesis using fetch_state_spec [of b clk s] by (simp add: get_state_def)
next
  case (Some c)
  with assms fetch_state_spec [of b clk s] show ?thesis
    by (cases s) (auto simp: get_state_def coherent_in_def current_in_def fun_upd_idem)
qed

lemma transition_spec:
  "\<exists>s'. transition_to api b clk q s = (Inr (), (s', None))
    \<and> view s' = (view (fst s))(dc_key b \<mapsto> updated_breaker (at_write clk) q 0 0 (view (fst s) (dc_key b)))"
  using update_view [of "at_write clk" "dc_key b" q 0 0 "fst s"]
  by (auto simp: transition_to_def bind_op_def on_store_def set_cache_def)

lemma update_spec:
  "\<exists>s'. on_store (ba_update api now k q f n) s = (Inr (), (s', snd s))
    \<and> view s' = (view (fst s))(k \<mapsto> updated_breaker now q f n (view (fst s) k))"
  using update_view [of now k q f n "fst s"] by (auto simp: on_store_def)

text \<open>Acting on a state that is still the one in the store.\<close>

lemma failure_after_spec:
  assumes "view (fst s) (dc_key b) = Some (breaker_of c)" and "snd s = Some c"
  shows "\<exists>s'. failure_after api b clk c s = (Inr (), s') \<and> coherent_in view (dc_key b) s'
    \<and> view (fst s') = (view (fst s))(dc_key b \<mapsto> spec_failure (dc_config b) (at_write clk) (breaker_of c))"
  using transition_spec [of b clk COpen s]
    update_spec [of "at_write clk" "dc_key b" CClosed "ca_failure_count c + 1" 0 s] assms
  by (cases "ca_state c")
    (auto simp: failure_after_def transition_to_open_def spec_failure_def bind_op_def Let_def
      set_cache_def coherent_in_def breaker_of_def updated_breaker_def tripped_def fun_upd_idem)

lemma success_after_spec:
  assumes "view (fst s) (dc_key b) = Some (breaker_of c)" and "snd s = Some c"
  shows "\<exists>s'. success_after api b clk c s = (Inr (), s') \<and> coherent_in view (dc_key b) s'
    \<and> view (fst s') = (view (fst s))(dc_key b \<mapsto> spec_success (dc_config b) (breaker_of c))"
  using transition_spec [of b clk CClosed s]
    update_spec [of "at_write clk" "dc_key b" CHalfOpen "ca_failure_count c" "ca_success_count c + 1" s]
    assms
  by (cases "ca_state c")
    (auto simp: success_after_def transition_to_closed_def spec_success_def bind_op_def Let_def
      set_cache_def coherent_in_def breaker_of_def updated_breaker_def closed_breaker_def fun_upd_idem)

lemma allow_after_spec:
  assumes "view (fst s) (dc_key b) = Some (breaker_of c)" and "snd s = Some c"
  shows "\<exists>s'. allow_after api b clk c s
      = (if fst (spec_allow (dc_config b) (at_check clk) (at_write clk) (breaker_of c))
         then Inr () else Inl BreakerOpen, s')
    \<and> coherent_in view (dc_key b) s'
    \<and> view (fst s') = (view (fst s))(dc_key b \<mapsto>
        snd (spec_allow (dc_config b) (at_check clk) (at_write clk) (breaker_of c)))"
  using transition_spec [of b clk CHalfOpen s] assms
  by (cases s; cases "ca_state c"; cases "ca_opened_at c")
    (auto simp: allow_after_def transition_to_half_open_def spec_allow_def bind_op_def
      should_transition_to_half_open_def coherent_in_def breaker_of_def updated_breaker_def fun_upd_idem)

text \<open>The three operations of a breaker with a coherent cache implement the state machine.\<close>

lemma operations_refine:
  assumes "coherent_in view (dc_key b) s"
  defines "m \<equiv> current_in view (dc_key b) (fst s)"
  shows "\<exists>s'. record_failure api b clk s = (Inr (), s') \<and> coherent_in view (dc_key b) s'
      \<and> view (fst s') = (view (fst s))(dc_key b \<mapsto> spec_failure (dc_config b) (at_write clk) m)"
    and "\<exists>s'. record_success api b clk s = (Inr (), s') \<and> coherent_in view (dc_key b) s'
      \<and> view (fst s') = (view (fst s))(dc_key b \<mapsto> spec_success (dc_config b) m)"
    and "\<exists>s'. allow api b clk s
        = (if fst (spec_allow (dc_config b) (at_check clk) (at_write clk) m)
           then Inr () else Inl BreakerOpen, s')
      \<and> coherent_in view (dc_key b) s'
      \<and> view (fst s') = (view (fst s))(dc_key b \<mapsto>
          snd (spec_allow (dc_config b) (at_check clk) (at_write clk) m))"
proof -
  obtain c s1 where g: "get_state api b clk s = (Inr c, (s1, Some c))"
    and v: "view s1 = (view (fst s))(dc_key b \<mapsto> m)" and c: "breaker_of c = m"
    using get_state_spec [OF assms(1), of clk] unfolding m_def by blast
  have pre: "view (fst (s1, Some c)) (dc_key b) = Some (breaker_of c)" "snd (s1, Some c) = Some c"
    using v c by simp_all
  show "\<exists>s'. record_failure api b clk s = (Inr (), s') \<and> coherent_in view (dc_key b) s'
      \<and> view (fst s') = (view (fst s))(dc_key b \<mapsto> spec_failure (dc_config b) (at_write clk) m)"
    using failure_after_spec [OF pre, of clk] by (simp add: record_failure_def bind_op_def g v c)
  show "\<exists>s'. record_success api b clk s = (Inr (), s') \<and> coherent_in view (dc_key b) s'
      \<and> view (fst s') = (view (fst s))(dc_key b \<mapsto> spec_success (dc_config b) m)"
    using success_after_spec [OF pre, of clk] by (simp add: record_success_def bind_op_def g v c)
  show "\<exists>s'. allow api b clk s
        = (if fst (spec_allow (dc_config b) (at_check clk) (at_write clk) m)
           then Inr () else Inl BreakerOpen, s')
      \<and> coherent_in view (dc_key b) s'
      \<and> view (fst s') = (view (fst s))(dc_key b \<mapsto>
          snd (spec_allow (dc_config b) (at_check clk) (at_write clk) m))"
    using allow_after_spec [OF pre, of clk] by (simp add: allow_def bind_op_def g v c)
qed

lemma report_all_refines:
  assumes "coherent_in view (dc_key b) s"
  shows "coherent_in view (dc_key b) (report_all api b ocs s)
    \<and> current_in view (dc_key b) (fst (report_all api b ocs s))
        = fold (spec_report (dc_config b)) ocs (current_in view (dc_key b) (fst s))"
  using assms
proof (induction ocs arbitrary: s)
  case Nil
  then show ?case by (simp add: report_all_def)
next
  case (Cons oc ocs)
  let ?s = "snd (report api b oc s)"
  have "coherent_in view (dc_key b) ?s
      \<and> current_in view (dc_key b) (fst ?s)
          = spec_report (dc_config b) oc (current_in view (dc_key b) (fst s))"
    using operations_refine(1,2) [OF Cons.prems, of "snd oc"]
    by (auto simp: report_def spec_report_def current_in_def)
  then show ?case using Cons.IH [of ?s] by (simp add: report_all_def)
qed

end

interpretation mem_breaker: breaker_store mem_breakers breaker_view
  by unfold_locales
    (auto simp: mem_breakers_def breaker_view_def get_circuit_breaker_def create_circuit_breaker_def
      update_circuit_breaker_def fun_eq_iff)



section \<open>Counting\<close>

lemma closed_breaker_sel [simp]:
  "cb_state closed_breaker = CClosed" "cb_failure_count closed_breaker = 0"
  "cb_success_count closed_breaker = 0" "cb_opened_at closed_breaker = None"
  by (simp_all add: closed_breaker_def)

lemma spec_report_steps:
  "fst oc \<Longrightarrow> cb_state m = CClosed \<Longrightarrow> spec_report cfg oc m = m"
  "\<not> fst oc \<Longrightarrow> cb_state m = CClosed \<Longrightarrow> cb_opened_at m = None \<Longrightarrow> cb_success_count m = 0
    \<Longrightarrow> cb_failure_count m + 1 < failure_threshold cfg
    \<Longrightarrow> spec_report cfg oc m = m\<lparr>cb_failure_count := cb_failure_count m + 1\<rparr>"
  "\<not> fst oc \<Longrightarrow> cb_state m = CClosed \<Longrightarrow> failure_threshold cfg \<le> cb_failure_count m + 1
    \<Longrightarrow> spec_report cfg oc m = tripped (at_write (snd oc))"
  "fst oc \<Longrightarrow> cb_state m = CHalfOpen \<Longrightarrow> cb_success_count m + 1 < success_threshold cfg
    \<Longrightarrow> spec_report cfg oc m = m\<lparr>cb_success_count := cb_success_count m + 1\<rparr>"
  "fst oc \<Longrightarrow> cb_state m = CHalfOpen \<Longrightarrow> success_threshold cfg \<le> cb_success_count m + 1
    \<Longrightarrow> spec_report cfg oc m = closed_breaker"
  by (simp_all add: spec_report_def spec_success_def spec_failure_def)

lemma spec_closed_count:
  assumes "length (filter (\<lambda>oc. \<not> fst oc) ocs) < unat (failure_threshold cfg)"
  shows "fold (spec_report cfg) ocs closed_breaker
    = closed_breaker\<lparr>cb_failure_count := of_nat (length (filter (\<lambda>oc. \<not> fst oc) ocs))\<rparr>"
  using assms
proof (induction ocs rule: rev_induct)
  case Nil
  then show ?case by (simp add: closed_breaker_def)
next
  case (snoc oc ocs)
  let ?n = "length (filter (\<lambda>oc. \<not> fst oc) ocs)"
  have le: "?n < unat (failure_threshold cfg)" using snoc.prems by (simp split: if_splits)
  then have IH: "fold (spec_report cfg) ocs closed_breaker = closed_breaker\<lparr>cb_failure_count := of_nat ?n\<rparr>"
    by (rule snoc.IH)
  have lt: "unat (failure_threshold cfg) < 2 ^ 32" using unsigned_less [of "failure_threshold cfg"] by simp
  show ?case
  proof (cases "fst oc")
    case True
    with IH show ?thesis by (simp add: spec_report_steps)
  next
    case False
    then have "Suc ?n < unat (failure_threshold cfg)" using snoc.prems by simp
    then have "(of_nat (Suc ?n) :: u32) < failure_threshold cfg"
      using lt by (simp add: word_less_nat_alt unat_of_nat del: of_nat_Suc)
    with False IH show ?thesis by (simp add: spec_report_steps add.commute)
  qed
qed

lemma spec_trips:
  assumes "Suc (length (filter (\<lambda>oc. \<not> fst oc) ocs)) = unat (failure_threshold cfg)"
  shows "fold (spec_report cfg) (ocs @ [(False, clk)]) closed_breaker = tripped (at_write clk)"
proof -
  let ?n = "length (filter (\<lambda>oc. \<not> fst oc) ocs)"
  have "fold (spec_report cfg) ocs closed_breaker = closed_breaker\<lparr>cb_failure_count := of_nat ?n\<rparr>"
    using assms by (intro spec_closed_count) simp
  moreover have "(of_nat (Suc ?n) :: u32) = failure_threshold cfg"
    unfolding assms by simp
  ultimately show ?thesis by (simp add: spec_report_steps add.commute)
qed

lemma spec_half_open_count:
  assumes "list_all fst ocs" and "length ocs < unat (success_threshold cfg)"
    and "cb_state m = CHalfOpen" and "cb_success_count m = 0"
  shows "fold (spec_report cfg) ocs m = m\<lparr>cb_success_count := of_nat (length ocs)\<rparr>"
  using assms(1,2)
proof (induction ocs rule: rev_induct)
  case Nil
  then show ?case using assms(4) by simp
next
  case (snoc oc ocs)
  have lt: "unat (success_threshold cfg) < 2 ^ 32" using unsigned_less [of "success_threshold cfg"] by simp
  have "Suc (length ocs) < unat (success_threshold cfg)" using snoc.prems by simp
  then have "(of_nat (Suc (length ocs)) :: u32) < success_threshold cfg"
    using lt by (simp add: word_less_nat_alt unat_of_nat del: of_nat_Suc)
  with snoc assms(3) show ?case by (simp add: spec_report_steps add.commute)
qed

lemma spec_recovers:
  assumes "list_all fst ocs" and "length ocs = unat (success_threshold cfg)"
    and "0 < success_threshold cfg" and "cb_state m = CHalfOpen" and "cb_success_count m = 0"
  shows "fold (spec_report cfg) ocs m = closed_breaker"
proof (cases ocs rule: rev_cases)
  case Nil
  with assms(2,3) show ?thesis by (simp add: word_less_nat_alt)
next
  case (snoc os oc)
  then have "fold (spec_report cfg) os m = m\<lparr>cb_success_count := of_nat (length os)\<rparr>"
    using assms by (intro spec_half_open_count) simp_all
  moreover have "Suc (length os) = unat (success_threshold cfg)" using assms(2) snoc by simp
  then have "(of_nat (Suc (length os)) :: u32) = success_threshold cfg" by simp
  ultimately show ?thesis
    using snoc assms(1,4) by (simp add: spec_report_steps add.commute)
qed

section \<open>Interleaved workers\<close>

lemma breaker_ok_updated:
  assumes "q = COpen \<longrightarrow> (case old of Some m \<Rightarrow> breaker_ok cfg m | None \<Rightarrow> True)"
    and "q = CClosed \<longrightarrow> f < max (failure_threshold cfg) 1"
    and "q = CHalfOpen \<longrightarrow> n < max (success_threshold cfg) 1"
  shows "breaker_ok cfg (updated_breaker now q f n old)"
  using assms by (cases q; cases old) (auto simp: updated_breaker_def breaker_ok_def)

lemma less_max_one: "0 < max t (1 :: u32)"
  by (simp add: less_max_iff_disj)

lemma breaker_ok_closed [simp]: "breaker_ok cfg closed_breaker"
  by (simp add: breaker_ok_def closed_breaker_def less_max_one)

lemma breaker_ok_forced:
  "breaker_ok cfg \<lparr>cb_state = COpen, cb_failure_count = f, cb_success_count = n, cb_opened_at = Some t\<rparr>"
  "breaker_ok cfg (m\<lparr>cb_state := CClosed, cb_failure_count := 0, cb_success_count := n,
     cb_opened_at := None\<rparr>)"
  by (simp_all add: breaker_ok_def less_max_one)

text \<open>What one call does to the row of its key: nothing, or one of the updates it may make.\<close>

lemma transition_mem:
  "transition_to mem_breakers b clk q s = (r, s') \<Longrightarrow>
    breaker_view (fst s') (dc_key b)
      = Some (updated_breaker (at_write clk) q 0 0 (breaker_view (fst s) (dc_key b))) \<and> snd s' = None"
  using mem_breaker.transition_spec [of b clk q s] by auto

lemma get_state_mem:
  assumes "get_state mem_breakers b clk s = (Inr c, s')"
  shows "(s' = s \<and> snd s = Some c)
    \<or> (breaker_of c = current_in breaker_view (dc_key b) (fst s) \<and> snd s' = Some c
        \<and> breaker_view (fst s') (dc_key b) = Some (breaker_of c))"
  using assms mem_breaker.fetch_state_spec [of b clk s]
  by (auto simp: get_state_def split: option.splits if_splits)

lemma update_mem:
  "on_store (ba_update mem_breakers now (dc_key b) q f n) s = (r, s') \<Longrightarrow>
    breaker_view (fst s') (dc_key b)
      = Some (updated_breaker now q f n (breaker_view (fst s) (dc_key b))) \<and> snd s' = snd s"
  using mem_breaker.update_spec [of now "dc_key b" q f n s] by auto

lemma row_ok_updated:
  assumes "row_ok b st" and "breaker_view st' (dc_key b)
      = Some (updated_breaker now q f n (breaker_view st (dc_key b)))"
    and "q = CClosed \<longrightarrow> f < max (failure_threshold (dc_config b)) 1"
    and "q = CHalfOpen \<longrightarrow> n < max (success_threshold (dc_config b)) 1"
  shows "row_ok b st'"
  using assms by (auto simp: row_ok_def intro!: breaker_ok_updated split: option.splits)

lemma closed_update_ok:
  assumes "ca_state c = CClosed" and "breaker_ok cfg (breaker_of c)"
    and "\<not> failure_threshold cfg \<le> ca_failure_count c + 1"
  shows "ca_failure_count c + 1 < max (failure_threshold cfg) 1"
  using assms by (simp add: not_le less_max_iff_disj)

lemma half_open_update_ok:
  assumes "\<not> success_threshold cfg \<le> ca_success_count c + 1"
  shows "ca_success_count c + 1 < max (success_threshold cfg) 1"
  using assms by (simp add: not_le less_max_iff_disj)

lemma transition_row_ok:
  assumes "row_ok b (fst s)" and "transition_to mem_breakers b clk q s = (r, s')"
  shows "row_ok b (fst s') \<and> snd s' = None"
  using transition_mem [OF assms(2)]
    row_ok_updated [OF assms(1), of "fst s'" "at_write clk" q 0 0] by (simp add: less_max_one)

lemma bind_set_cache:
  "bind_op m (\<lambda>_. set_cache None) s = (r, s') \<Longrightarrow>
    \<exists>r1 s1. m s = (r1, s1) \<and> fst s' = fst s1 \<and> snd s' \<in> {None, snd s1}"
  by (cases "m s") (auto simp: bind_op_def set_cache_def split: sum.splits)

lemma allow_after_ok:
  assumes "row_ok b (fst s)" and "allow_after mem_breakers b clk c s = (r, s')"
  shows "row_ok b (fst s') \<and> snd s' \<in> {None, snd s}"
  using assms transition_row_ok [OF assms(1), of clk CHalfOpen r s']
  by (auto simp: allow_after_def transition_to_half_open_def split: circuit_state.splits if_splits)

lemma success_after_ok:
  assumes "row_ok b (fst s)" and "success_after mem_breakers b clk c s = (r, s')"
  shows "row_ok b (fst s') \<and> snd s' \<in> {None, snd s}"
proof (cases "ca_state c = CHalfOpen")
  case False
  with assms show ?thesis by (cases "ca_state c") (auto simp: success_after_def)
next
  case True
  let ?n = "ca_success_count c + 1"
  from True assms(2) have "bind_op (if success_threshold (dc_config b) \<le> ?n
      then transition_to_closed mem_breakers b clk
      else on_store (ba_update mem_breakers (at_write clk) (dc_key b) CHalfOpen (ca_failure_count c) ?n))
      (\<lambda>_. set_cache None) s = (r, s')"
    by (simp add: success_after_def Let_def)
  from bind_set_cache [OF this] obtain r1 s1 where m: "(if success_threshold (dc_config b) \<le> ?n
      then transition_to_closed mem_breakers b clk
      else on_store (ba_update mem_breakers (at_write clk) (dc_key b) CHalfOpen (ca_failure_count c) ?n))
      s = (r1, s1)" and s': "fst s' = fst s1" "snd s' \<in> {None, snd s1}" by blast
  show ?thesis
  proof (cases "success_threshold (dc_config b) \<le> ?n")
    case True
    with m s' transition_row_ok [OF assms(1), of clk CClosed r1 s1] show ?thesis
      by (auto simp: transition_to_closed_def)
  next
    case False
    with m s' update_mem [of "at_write clk" b CHalfOpen "ca_failure_count c" ?n s r1 s1]
      row_ok_updated [OF assms(1), of "fst s1" "at_write clk" CHalfOpen "ca_failure_count c" ?n]
      half_open_update_ok [OF False] show ?thesis by auto
  qed
qed

lemma failure_after_ok:
  assumes "row_ok b (fst s)" and "breaker_ok (dc_config b) (breaker_of c)"
    and "failure_after mem_breakers b clk c s = (r, s')"
  shows "row_ok b (fst s') \<and> snd s' \<in> {None, snd s}"
proof (cases "ca_state c")
  case COpen
  with assms show ?thesis by (auto simp: failure_after_def)
next
  case CHalfOpen
  with assms(3) have "bind_op (transition_to_open mem_breakers b clk) (\<lambda>_. set_cache None) s = (r, s')"
    by (simp add: failure_after_def)
  from bind_set_cache [OF this] obtain r1 s1 where
    "transition_to mem_breakers b clk COpen s = (r1, s1)" "fst s' = fst s1" "snd s' \<in> {None, snd s1}"
    unfolding transition_to_open_def by blast
  with transition_row_ok [OF assms(1) this(1)] show ?thesis by auto
next
  case CClosed
  let ?n = "ca_failure_count c + 1"
  from CClosed assms(3) have "bind_op (if failure_threshold (dc_config b) \<le> ?n
      then transition_to_open mem_breakers b clk
      else on_store (ba_update mem_breakers (at_write clk) (dc_key b) CClosed ?n 0))
      (\<lambda>_. set_cache None) s = (r, s')"
    by (simp add: failure_after_def Let_def)
  from bind_set_cache [OF this] obtain r1 s1 where m: "(if failure_threshold (dc_config b) \<le> ?n
      then transition_to_open mem_breakers b clk
      else on_store (ba_update mem_breakers (at_write clk) (dc_key b) CClosed ?n 0))
      s = (r1, s1)" and s': "fst s' = fst s1" "snd s' \<in> {None, snd s1}" by blast
  show ?thesis
  proof (cases "failure_threshold (dc_config b) \<le> ?n")
    case True
    with m s' transition_row_ok [OF assms(1), of clk COpen r1 s1] show ?thesis
      by (auto simp: transition_to_open_def)
  next
    case False
    with m s' update_mem [of "at_write clk" b CClosed ?n 0 s r1 s1]
      row_ok_updated [OF assms(1), of "fst s1" "at_write clk" CClosed ?n 0]
      closed_update_ok [OF CClosed assms(2) False] show ?thesis by auto
  qed
qed

lemma dcb_inv_alt:
  "dcb_inv b sys \<longleftrightarrow> row_ok b (sy_store sys)
    \<and> (\<forall>i c. sy_cache sys i = Some c \<or> sy_read sys i = Some c \<longrightarrow> breaker_ok (dc_config b) (breaker_of c))"
  by (simp add: dcb_inv_def row_ok_def)

lemma dcb_inv_update:
  assumes "dcb_inv b sys" and "row_ok b (fst s)"
    and "snd s \<in> {None, sy_cache sys i} \<or> (\<exists>c. snd s = Some c \<and> breaker_ok (dc_config b) (breaker_of c))"
    and "r \<in> {None, sy_read sys i} \<or> (\<exists>c. r = Some c \<and> breaker_ok (dc_config b) (breaker_of c))"
  shows "dcb_inv b (sy_update i r s sys)"
  using assms unfolding dcb_inv_alt sy_update_def by auto

lemma dcb_step_inv: "dcb_step b sys sys' \<Longrightarrow> dcb_inv b sys \<Longrightarrow> dcb_inv b sys'"
proof (induction rule: dcb_step.induct)
  case (read clk sys i c s)
  then have row: "row_ok b (sy_store sys)" by (simp add: dcb_inv_alt)
  from get_state_mem [OF read(1)] have "breaker_ok (dc_config b) (breaker_of c) \<and> row_ok b (fst s)
      \<and> snd s = Some c"
  proof
    assume "s = (sy_store sys, sy_cache sys i) \<and> snd (sy_store sys, sy_cache sys i) = Some c"
    with read.prems row show ?thesis by (auto simp: dcb_inv_alt)
  next
    assume a: "breaker_of c = current_in breaker_view (dc_key b) (fst (sy_store sys, sy_cache sys i))
      \<and> snd s = Some c \<and> breaker_view (fst s) (dc_key b) = Some (breaker_of c)"
    with row show ?thesis by (auto simp: row_ok_def current_in_def split: option.splits)
  qed
  with read.prems show ?case by (intro dcb_inv_update) auto
next
  case (allow sys i c clk r s)
  with allow_after_ok [OF _ allow(2)] show ?case by (intro dcb_inv_update) (auto simp: dcb_inv_alt)
next
  case (success sys i c clk r s)
  with success_after_ok [OF _ success(2)] show ?case by (intro dcb_inv_update) (auto simp: dcb_inv_alt)
next
  case (failure sys i c clk r s)
  with failure_after_ok [OF _ _ failure(2)] show ?case by (intro dcb_inv_update) (auto simp: dcb_inv_alt)
next
  case (force op clk sys i r s)
  then have row: "row_ok b (fst (sy_store sys, sy_cache sys i))" by (simp add: dcb_inv_alt)
  from force(1,2) obtain q where q: "transition_to mem_breakers b clk q (sy_store sys, sy_cache sys i) = (r, s)"
    by (auto simp: breaker_force_open_def breaker_force_close_def breaker_reset_def
        transition_to_open_def transition_to_closed_def)
  from transition_row_ok [OF row q] force.prems show ?case by (intro dcb_inv_update) auto
next
  case (admin op now k sys r st)
  then have "row_ok b st"
    by (auto simp: dcb_inv_alt row_ok_def breaker_view_def force_open_circuit_breaker_def
        force_close_circuit_breaker_def delete_circuit_breaker_def breaker_ok_forced
        split: option.splits if_splits)
  with admin.prems show ?case by (simp add: dcb_inv_alt)
next
  case (other st sys)
  then show ?case by (simp add: dcb_inv_alt row_ok_def)
qed

interpretation dcb_runs: step_system dcb_start "dcb_step b" "dcb_inv b" for b
proof unfold_locales
  show "dcb_inv b sys" if "dcb_start sys" for sys
    using that by (auto simp: dcb_start_def dcb_inv_def breaker_view_def hm_get_def)
qed (rule dcb_step_inv)

section \<open>Properties\<close>


text \<open>
  Tripping: from a closed breaker, after any sequence of reports with fewer failures than the
  threshold the breaker is closed and has counted every failure, successes in between
  notwithstanding (a success does not reset the count, and neither does time: the configured
  window is never read); the failure that reaches the threshold opens it.
\<close>

theorem breaker_trips_at_threshold:
  assumes "coherent_in breaker_view (dc_key b) s"
    and "current_in breaker_view (dc_key b) (fst s) = closed_breaker"
    and "n = length (filter (\<lambda>oc. \<not> fst oc) ocs)"
  shows "(n < unat (failure_threshold (dc_config b)) \<longrightarrow>
      current_in breaker_view (dc_key b) (fst (report_all mem_breakers b ocs s))
        = closed_breaker\<lparr>cb_failure_count := of_nat n\<rparr>)
    \<and> (Suc n = unat (failure_threshold (dc_config b)) \<longrightarrow>
      current_in breaker_view (dc_key b) (fst (report_all mem_breakers b (ocs @ [(False, clk)]) s))
        = tripped (at_write clk))"
  using mem_breaker.report_all_refines [OF assms(1)] assms(2,3)
    spec_closed_count [of ocs "dc_config b"] spec_trips [of ocs "dc_config b" clk]
  by auto

text \<open>
  Recovery: a half-open breaker without successes stays half-open while fewer successes than
  the threshold arrive, closes with zero counts when the threshold is reached, and opens again at
  once on a failure.
\<close>

theorem breaker_recovers:
  assumes "coherent_in breaker_view (dc_key b) s"
    and "m = current_in breaker_view (dc_key b) (fst s)" and "cb_state m = CHalfOpen"
    and "cb_success_count m = 0" and "list_all fst ocs"
  shows "(length ocs < unat (success_threshold (dc_config b)) \<longrightarrow>
      current_in breaker_view (dc_key b) (fst (report_all mem_breakers b ocs s))
        = m\<lparr>cb_success_count := of_nat (length ocs)\<rparr>)
    \<and> (0 < length ocs \<longrightarrow> length ocs = unat (success_threshold (dc_config b)) \<longrightarrow>
      current_in breaker_view (dc_key b) (fst (report_all mem_breakers b ocs s)) = closed_breaker)
    \<and> (length ocs < unat (success_threshold (dc_config b)) \<longrightarrow>
      current_in breaker_view (dc_key b) (fst (report_all mem_breakers b (ocs @ [(False, clk)]) s))
        = tripped (at_write clk))"
proof -
  note r = mem_breaker.report_all_refines [OF assms(1), THEN conjunct2]
  have "fold (spec_report (dc_config b)) (ocs @ [(False, clk)]) m = tripped (at_write clk)"
    if "length ocs < unat (success_threshold (dc_config b))"
    using spec_half_open_count [OF assms(5) that assms(3,4)] assms(3)
    by (simp add: spec_report_def spec_failure_def)
  moreover have "fold (spec_report (dc_config b)) ocs m = closed_breaker"
    if "0 < length ocs" "length ocs = unat (success_threshold (dc_config b))"
    using that spec_recovers [OF assms(5) that(2) _ assms(3,4)] by (simp add: word_less_nat_alt)
  ultimately show ?thesis
    using spec_half_open_count [OF assms(5) _ assms(3,4)] unfolding r assms(2) by blast
qed

text \<open>
  C33. However workers, administrators and stale caches interleave (each worker reads, others act,
  then it acts on what it read), the breaker's counters stay below their thresholds, so that
  incrementing them never wraps, and an open breaker always has an opening time: a worker with no
  cached state that asks once the reset timeout has passed gets a permit and finds it half-open.
\<close>

theorem dcb_reachable_never_stuck:
  assumes "dcb_start sys0" and "(dcb_step b)\<^sup>*\<^sup>* sys0 sys"
    and "breaker_view (sy_store sys) (dc_key b) = Some m"
  shows "breaker_ok (dc_config b) m
    \<and> (cb_state m = COpen \<longrightarrow> (\<exists>t. cb_opened_at m = Some t
         \<and> (\<forall>clk. t + int (reset_timeout (dc_config b)) \<le> at_check clk \<longrightarrow>
              (\<exists>s'. allow mem_breakers b clk (sy_store sys, None) = (Inr (), s')
                 \<and> cb_state (current_in breaker_view (dc_key b) (fst s')) = CHalfOpen))))"
proof -
  have ok: "breaker_ok (dc_config b) m"
    using dcb_runs.reachable_inv [OF assms(1,2)] assms(3) by (simp add: dcb_inv_def)
  have "\<exists>s'. allow mem_breakers b clk (sy_store sys, None) = (Inr (), s')
      \<and> cb_state (current_in breaker_view (dc_key b) (fst s')) = CHalfOpen"
    if o: "cb_state m = COpen" "cb_opened_at m = Some t"
      and late: "t + int (reset_timeout (dc_config b)) \<le> at_check clk" for t clk
  proof -
    have "coherent_in breaker_view (dc_key b) (sy_store sys, None)" by (simp add: coherent_in_def)
    moreover have "reset_timeout (dc_config b) \<le> elapsed_or 0 (at_check clk) t"
      using late by (simp add: elapsed_or_def)
    ultimately show ?thesis
      using mem_breaker.operations_refine(3) [of b "(sy_store sys, None)" clk] assms(3) o
      by (auto simp: current_in_def spec_allow_def)
  qed
  with ok show ?thesis by (auto simp: breaker_ok_def)
qed

section \<open>Examples\<close>

definition sample_clock :: "timestamp \<Rightarrow> dcb_clock" where
  "sample_clock t = \<lparr>at_stale = t, at_fetch = t, at_cached = t, at_check = t, at_write = t\<rparr>"

definition sample_breaker :: dcb where
  "sample_breaker = dcb_new ''llm'' (circuit_breaker_config_default\<lparr>failure_threshold := 2\<rparr>)"

lemma sample_coherent: "coherent_in breaker_view (dc_key sample_breaker) (st, None)"
  by (simp add: coherent_in_def)


theorem breaker_trips_at_threshold_witness:
  "cb_state (current_in breaker_view ''llm''
     (fst (report_all mem_breakers sample_breaker
        [(False, sample_clock 1), (True, sample_clock 2), (False, sample_clock 3)] (store_new None, None))))
   = COpen"
proof -
  have c: "current_in breaker_view (dc_key sample_breaker) (fst (store_new None, None)) = closed_breaker"
    by (simp add: current_in_def breaker_view_def store_new_def)
  have k: "dc_key sample_breaker = ''llm''" "failure_threshold (dc_config sample_breaker) = 2"
    by (simp_all add: sample_breaker_def dcb_new_def)
  show ?thesis
    using breaker_trips_at_threshold [OF sample_coherent c refl,
        of "[(False, sample_clock 1), (True, sample_clock 2)]" "sample_clock 3"]
    by (simp add: k tripped_def)
qed

theorem breaker_recovers_witness:
  "current_in breaker_view ''llm''
     (fst (report_all mem_breakers sample_breaker [(True, sample_clock 1), (True, sample_clock 2)]
        ((store_new None)\<lparr>circuit_breakers := [(''llm'', (tripped 0)\<lparr>cb_state := CHalfOpen\<rparr>)]\<rparr>, None)))
   = closed_breaker"
proof -
  let ?st = "(store_new None)\<lparr>circuit_breakers := [(''llm'', (tripped 0)\<lparr>cb_state := CHalfOpen\<rparr>)]\<rparr>"
  have k: "dc_key sample_breaker = ''llm''" "success_threshold (dc_config sample_breaker) = 2"
    by (simp_all add: sample_breaker_def dcb_new_def circuit_breaker_config_default_def)
  have m: "(tripped 0)\<lparr>cb_state := CHalfOpen\<rparr>
      = current_in breaker_view (dc_key sample_breaker) (fst (?st, None :: cached_state option))"
    by (simp add: current_in_def breaker_view_def k hm_get_def)
  show ?thesis
    using breaker_recovers [OF sample_coherent m, of "[(True, sample_clock 1), (True, sample_clock 2)]"]
    by (simp add: k tripped_def)
qed

theorem dcb_reachable_never_stuck_witness:
  "\<exists>sys0 sys m. dcb_start sys0 \<and> (dcb_step sample_breaker)\<^sup>*\<^sup>* sys0 sys
     \<and> breaker_view (sy_store sys) ''llm'' = Some m \<and> cb_state m = COpen \<and> cb_opened_at m \<noteq> None"
proof -
  let ?s0 = "\<lparr>sy_store = store_new None, sy_cache = \<lambda>_. None, sy_read = \<lambda>_. None\<rparr>"
  let ?st = "snd (force_open_circuit_breaker 4 ''llm'' (store_new None))"
  let ?s1 = "?s0\<lparr>sy_store := ?st\<rparr>"
  have k: "dc_key sample_breaker = ''llm''" by (simp add: sample_breaker_def dcb_new_def)
  have start: "dcb_start ?s0" by (simp add: dcb_start_def store_new_def)
  have "dcb_step sample_breaker ?s0 (?s0\<lparr>sy_store := ?st\<rparr>)"
    by (rule dcb_step.admin [where op = "force_open_circuit_breaker 4 ''llm''" and now = 4 and k = "''llm''"])
      (simp_all add: force_open_circuit_breaker_def)
  then have run: "(dcb_step sample_breaker)\<^sup>*\<^sup>* ?s0 ?s1" by blast
  have m: "breaker_view (sy_store ?s1) (dc_key sample_breaker) = Some (tripped 4)"
    by (simp add: breaker_view_def force_open_circuit_breaker_def tripped_def k)
  from dcb_reachable_never_stuck [OF start run m] start run m k show ?thesis
    by (metis tripped_def circuit_breaker_mem_state.select_convs(1) option.discI)
qed

end
