(* ===== verification/Timeouts.thy ===== *)
theory Timeouts
  imports Task_Queue
begin

text \<open>
  Activity timeouts (\<open>reliability/timeout.rs\<close>): the configuration, the three checks of
  \<open>TimeoutManager\<close>, their order in \<open>check_task_timeout\<close>, the failing of a timed out task and the
  remaining time. \<open>now\<close> stands for \<open>Utc::now()\<close>, one reading per check. The serde helper modules
  are not modelled.
\<close>

section \<open>Configuration and errors\<close>

record timeout_config =
  tc_schedule_to_start :: duration
  tc_start_to_close :: duration
  tc_heartbeat :: "duration option"

definition timeout_config_default :: timeout_config where
  "timeout_config_default =
     \<lparr>tc_schedule_to_start = from_secs 60, tc_start_to_close = from_secs 300, tc_heartbeat = None\<rparr>"

definition timeout_config_new :: timeout_config where
  "timeout_config_new = timeout_config_default"

definition with_schedule_to_start :: "duration \<Rightarrow> timeout_config \<Rightarrow> timeout_config" where
  "with_schedule_to_start d c = c\<lparr>tc_schedule_to_start := d\<rparr>"

definition with_start_to_close :: "duration \<Rightarrow> timeout_config \<Rightarrow> timeout_config" where
  "with_start_to_close d c = c\<lparr>tc_start_to_close := d\<rparr>"

definition with_heartbeat :: "duration \<Rightarrow> timeout_config \<Rightarrow> timeout_config" where
  "with_heartbeat d c = c\<lparr>tc_heartbeat := Some d\<rparr>"

definition without_heartbeat :: "timeout_config \<Rightarrow> timeout_config" where
  "without_heartbeat c = c\<lparr>tc_heartbeat := None\<rparr>"

text \<open>The errors carry the elapsed time and the limit.\<close>

datatype timeout_error =
    ScheduleToStartTimeout duration duration
  | StartToCloseTimeout duration duration
  | HeartbeatTimeout duration duration
  | TStore store_error

datatype timeout_kind = TScheduleToStart | TStartToClose | THeartbeat

record task_timing_info =
  tt_task_id :: uuid
  tt_scheduled_at :: timestamp
  tt_started_at :: "timestamp option"
  tt_last_heartbeat_at :: "timestamp option"
  tt_timeout_config :: timeout_config

section \<open>The timeout manager\<close>

definition check_schedule_to_start ::
  "timestamp \<Rightarrow> timestamp \<Rightarrow> timestamp option \<Rightarrow> timeout_config \<Rightarrow> timeout_error option" where
  "check_schedule_to_start now scheduled_at started_at config =
     (if started_at \<noteq> None then None
      else
        let elapsed = elapsed_or 0 now scheduled_at
        in if tc_schedule_to_start config < elapsed
           then Some (ScheduleToStartTimeout elapsed (tc_schedule_to_start config))
           else None)"

definition check_start_to_close ::
  "timestamp \<Rightarrow> timestamp option \<Rightarrow> timeout_config \<Rightarrow> timeout_error option" where
  "check_start_to_close now started_at config =
     (case started_at of
        None \<Rightarrow> None
      | Some started \<Rightarrow>
          let elapsed = elapsed_or 0 now started
          in if tc_start_to_close config < elapsed
             then Some (StartToCloseTimeout elapsed (tc_start_to_close config))
             else None)"

definition check_heartbeat ::
  "timestamp \<Rightarrow> timestamp option \<Rightarrow> timestamp option \<Rightarrow> timeout_config \<Rightarrow> timeout_error option" where
  "check_heartbeat now started_at last_heartbeat_at config =
     (case tc_heartbeat config of
        None \<Rightarrow> None
      | Some limit \<Rightarrow>
          (case started_at of
             None \<Rightarrow> None
           | Some started \<Rightarrow>
               let last_beat = (case last_heartbeat_at of Some l \<Rightarrow> l | None \<Rightarrow> started);
                   elapsed = elapsed_or 0 now last_beat
               in if limit < elapsed then Some (HeartbeatTimeout elapsed limit) else None))"

text \<open>The three checks read the clock one after the other.\<close>

definition check_task_timeout ::
  "timestamp \<Rightarrow> timestamp \<Rightarrow> timestamp \<Rightarrow> task_timing_info
     \<Rightarrow> (timeout_kind \<times> timeout_error) option" where
  "check_task_timeout now1 now2 now3 timing =
     (let config = tt_timeout_config timing in
      case check_schedule_to_start now1 (tt_scheduled_at timing) (tt_started_at timing) config of
        Some err \<Rightarrow> Some (TScheduleToStart, err)
      | None \<Rightarrow>
          (case check_heartbeat now2 (tt_started_at timing) (tt_last_heartbeat_at timing) config of
             Some err \<Rightarrow> Some (THeartbeat, err)
           | None \<Rightarrow>
               (case check_start_to_close now3 (tt_started_at timing) config of
                  Some err \<Rightarrow> Some (TStartToClose, err)
                | None \<Rightarrow> None)))"

definition timeout_message :: "timeout_kind \<Rightarrow> string" where
  "timeout_message k =
     (case k of
        TScheduleToStart \<Rightarrow> ''Task timed out waiting to start''
      | TStartToClose \<Rightarrow> ''Task execution timed out''
      | THeartbeat \<Rightarrow> ''Task heartbeat timed out'')"

text \<open>As for \<open>fail_task\<close>, the answer \<open>None\<close> is a panic while the retry delay is computed.\<close>

definition handle_timeout ::
  "(f64 \<Rightarrow> f64 \<Rightarrow> f64) \<Rightarrow> uuid \<Rightarrow> timeout_kind \<Rightarrow> (store, timeout_error, unit option) op" where
  "handle_timeout rng task_id k =
     bind_op (map_err_op TStore (fail_task rng task_id (timeout_message k))) (\<lambda>r.
     ret_op (map_option (\<lambda>_. ()) r))"

definition remaining_time :: "timestamp \<Rightarrow> timestamp \<Rightarrow> duration \<Rightarrow> duration option" where
  "remaining_time now started_at limit =
     (let elapsed = elapsed_or 0 now started_at
      in if elapsed \<le> limit then Some (limit - elapsed) else None)"

section \<open>Specification\<close>

text \<open>The instant after which each limit of a task is exceeded, when the limit applies to it.\<close>

definition deadline :: "task_timing_info \<Rightarrow> timeout_kind \<Rightarrow> timestamp option" where
  "deadline ti k =
     (let c = tt_timeout_config ti in
      case (k, tt_started_at ti) of
        (TScheduleToStart, None) \<Rightarrow> Some (tt_scheduled_at ti + int (tc_schedule_to_start c))
      | (TStartToClose, Some s) \<Rightarrow> Some (s + int (tc_start_to_close c))
      | (THeartbeat, Some s) \<Rightarrow>
          map_option (\<lambda>h. (case tt_last_heartbeat_at ti of Some l \<Rightarrow> l | None \<Rightarrow> s) + int h)
            (tc_heartbeat c)
      | _ \<Rightarrow> None)"

definition expired :: "timestamp \<Rightarrow> task_timing_info \<Rightarrow> timeout_kind \<Rightarrow> bool" where
  "expired now ti k \<longleftrightarrow> (case deadline ti k of Some t \<Rightarrow> t < now | None \<Rightarrow> False)"

fun error_of_kind :: "timeout_kind \<Rightarrow> duration \<Rightarrow> duration \<Rightarrow> timeout_error" where
  "error_of_kind TScheduleToStart = ScheduleToStartTimeout"
| "error_of_kind TStartToClose = StartToCloseTimeout"
| "error_of_kind THeartbeat = HeartbeatTimeout"

section \<open>Lemmas\<close>

lemma elapsed_exceeds: "d < elapsed_or 0 now t \<longleftrightarrow> t + int d < now"
  by (auto simp: elapsed_or_def)

lemmas timeout_checks =
  check_schedule_to_start_def check_heartbeat_def check_start_to_close_def

lemma check_kinds:
  "check_schedule_to_start now (tt_scheduled_at ti) (tt_started_at ti) (tt_timeout_config ti) \<noteq> None
    \<longleftrightarrow> expired now ti TScheduleToStart"
  "check_heartbeat now (tt_started_at ti) (tt_last_heartbeat_at ti) (tt_timeout_config ti) \<noteq> None
    \<longleftrightarrow> expired now ti THeartbeat"
  "check_start_to_close now (tt_started_at ti) (tt_timeout_config ti) \<noteq> None
    \<longleftrightarrow> expired now ti TStartToClose"
  by (auto simp: timeout_checks expired_def deadline_def elapsed_exceeds Let_def split: option.splits)

lemma check_errors:
  "check_schedule_to_start now sched st0 c = Some e \<Longrightarrow>
    \<exists>elapsed limit. e = ScheduleToStartTimeout elapsed limit \<and> limit < elapsed"
  "check_heartbeat now st0 hb c = Some e \<Longrightarrow>
    \<exists>elapsed limit. e = HeartbeatTimeout elapsed limit \<and> limit < elapsed"
  "check_start_to_close now st0 c = Some e \<Longrightarrow>
    \<exists>elapsed limit. e = StartToCloseTimeout elapsed limit \<and> limit < elapsed"
  by (auto simp: timeout_checks Let_def split: option.splits if_splits)

text \<open>A timed out task is taken from its worker: a late completion is refused.\<close>

lemma handle_timeout_revokes:
  assumes "hm_get (tasks st) i = Some t" and "handle_timeout rng i k st = (r, st')"
  shows "complete_task i wk res st' = (Inl (TaskNotOwned i), st')"
proof -
  obtain t' where "hm_get (tasks st') i = Some t'" "tk_status t' \<noteq> TkClaimed"
    using assms
    by (auto simp: handle_timeout_def fail_task_def fail_task_with_retry_def with_task_def bind_op_def
        map_err_op_def Let_def split: if_splits)
  then show ?thesis by (simp add: complete_task_def with_task_def)
qed

section \<open>Properties\<close>

text \<open>
  Timeout detection is exact: \<open>check_task_timeout\<close> reports a timeout if and only if one of
  the limits that apply to the task has expired when its check reads the clock (waiting for a task
  that has not started, heartbeat and execution for one that has), the reported kind has really
  expired and its error carries an elapsed time above the limit, and an execution timeout is
  reported only when the heartbeat was found in time. \<open>remaining_time\<close> has an answer exactly as
  long as the execution limit has not expired, namely the time to the deadline.
\<close>

theorem check_task_timeout_exact:
  assumes "read = (\<lambda>k. case k of TScheduleToStart \<Rightarrow> now1 | THeartbeat \<Rightarrow> now2 | TStartToClose \<Rightarrow> now3)"
    and "check = check_task_timeout now1 now2 now3 ti"
  shows "(check = None \<longleftrightarrow> (\<forall>k. \<not> expired (read k) ti k))
    \<and> (\<forall>k e. check = Some (k, e) \<longrightarrow>
        expired (read k) ti k
        \<and> (\<exists>elapsed limit. e = error_of_kind k elapsed limit \<and> limit < elapsed)
        \<and> (k = TStartToClose \<longrightarrow> \<not> expired now2 ti THeartbeat))
    \<and> (\<forall>s now. tt_started_at ti = Some s \<longrightarrow> s \<le> now \<longrightarrow>
        remaining_time now s (tc_start_to_close (tt_timeout_config ti))
          = (if expired now ti TStartToClose then None
             else Some (nat (the (deadline ti TStartToClose) - now))))"
proof (intro conjI)
  have kinds: "(\<forall>k. \<not> expired (read k) ti k) \<longleftrightarrow> \<not> expired now1 ti TScheduleToStart
      \<and> \<not> expired now2 ti THeartbeat \<and> \<not> expired now3 ti TStartToClose"
    unfolding assms(1) by (metis (no_types, lifting) timeout_kind.exhaust timeout_kind.simps(7-9))
  note step = check_task_timeout_def Let_def
  show "check = None \<longleftrightarrow> (\<forall>k. \<not> expired (read k) ti k)"
    unfolding kinds check_kinds [symmetric] assms(2) by (auto simp: step split: option.splits)
  show "\<forall>k e. check = Some (k, e) \<longrightarrow>
        expired (read k) ti k
        \<and> (\<exists>elapsed limit. e = error_of_kind k elapsed limit \<and> limit < elapsed)
        \<and> (k = TStartToClose \<longrightarrow> \<not> expired now2 ti THeartbeat)"
    unfolding assms
    by (auto simp: step check_kinds [symmetric] dest: check_errors split: option.splits)
  show "\<forall>s now. tt_started_at ti = Some s \<longrightarrow> s \<le> now \<longrightarrow>
        remaining_time now s (tc_start_to_close (tt_timeout_config ti))
          = (if expired now ti TStartToClose then None
             else Some (nat (the (deadline ti TStartToClose) - now)))"
    by (auto simp: remaining_time_def elapsed_or_def expired_def deadline_def Let_def)
qed

theorem check_task_timeout_exact_witness:
  "\<exists>e. check_task_timeout 100 100 100
     \<lparr>tt_task_id = 1, tt_scheduled_at = 0, tt_started_at = Some 10, tt_last_heartbeat_at = Some 20,
      tt_timeout_config = \<lparr>tc_schedule_to_start = 5, tc_start_to_close = 50, tc_heartbeat = Some 30\<rparr>\<rparr>
     = Some (THeartbeat, e) \<and> (\<exists>elapsed limit. e = HeartbeatTimeout elapsed limit \<and> limit < elapsed)"
proof -
  let ?ti = "\<lparr>tt_task_id = 1, tt_scheduled_at = 0, tt_started_at = Some 10,
    tt_last_heartbeat_at = Some 20,
    tt_timeout_config = \<lparr>tc_schedule_to_start = 5, tc_start_to_close = 50, tc_heartbeat = Some 30\<rparr>\<rparr>"
  have "check_task_timeout 100 100 100 ?ti = Some (THeartbeat, HeartbeatTimeout 80 30)"
    by (simp add: check_task_timeout_def timeout_checks elapsed_or_def Let_def)
  with check_task_timeout_exact [OF refl refl, of 100 100 100 ?ti] show ?thesis by fastforce
qed

end
