(* ===== verification/Task_Events.thy ===== *)
theory Task_Events
  imports Workflow_Store
begin

text \<open>
  Recording of task lifecycle events (\<open>task_events.rs\<close>): \<open>append_event\<close> reads the length of
  the log, appends at that position and starts again when another writer came first, at most
  \<open>MAX_RETRY_ATTEMPTS\<close> times. The functions are generic in the store, as in the source: they take
  its \<open>append_events\<close> and \<open>count_events\<close>. What other clients do in the meantime is an argument,
  one function per attempt and gap.
\<close>

section \<open>Operations\<close>

definition MAX_RETRY_ATTEMPTS :: nat where
  "MAX_RETRY_ATTEMPTS = 5"

record 's log_api =
  la_append :: "uuid \<Rightarrow> int \<Rightarrow> workflow_event list \<Rightarrow> ('s, store_error, int) op"
  la_count :: "uuid \<Rightarrow> ('s, store_error, nat) op"

text \<open>What others do before attempt \<open>k\<close>, and between its two calls.\<close>

record 's neighbours =
  before_count :: "nat \<Rightarrow> 's \<Rightarrow> 's"
  before_append :: "nat \<Rightarrow> 's \<Rightarrow> 's"

fun append_attempts ::
  "'s log_api \<Rightarrow> 's neighbours \<Rightarrow> uuid \<Rightarrow> workflow_event \<Rightarrow> nat list
     \<Rightarrow> ('s, store_error, unit) op" where
  "append_attempts api nb wid event [] st = (Inl (ConcurrencyConflict (-1) (-1)), st)"
| "append_attempts api nb wid event (attempt # rest) st =
     (case la_count api wid (before_count nb attempt st) of
        (Inr count, st) \<Rightarrow>
          (case la_append api wid (as_i32 count) [event] (before_append nb attempt st) of
             (Inr _, st) \<Rightarrow> (Inr (), st)
           | (Inl (ConcurrencyConflict _ _), st) \<Rightarrow> append_attempts api nb wid event rest st
           | (Inl e, st) \<Rightarrow> (Inl e, st))
      | (Inl (WorkflowNotFound w), st) \<Rightarrow>
          if attempt < MAX_RETRY_ATTEMPTS - 1 then append_attempts api nb wid event rest st
          else (Inl (WorkflowNotFound w), st)
      | (Inl e, st) \<Rightarrow> (Inl e, st))"

definition append_event ::
  "'s log_api \<Rightarrow> 's neighbours \<Rightarrow> uuid \<Rightarrow> workflow_event \<Rightarrow> ('s, store_error, unit) op" where
  "append_event api nb wid event = append_attempts api nb wid event [0..<MAX_RETRY_ATTEMPTS]"

definition record_activity_started ::
  "'s log_api \<Rightarrow> 's neighbours \<Rightarrow> uuid option \<Rightarrow> string \<Rightarrow> u32 \<Rightarrow> string \<Rightarrow> 's \<Rightarrow> 's" where
  "record_activity_started api nb workflow_id activity_id attempt worker_id st =
     (case workflow_id of
        None \<Rightarrow> st
      | Some wf_id \<Rightarrow>
          ignore_op (append_event api nb wf_id (ActivityStarted activity_id attempt worker_id)) st)"

definition record_activity_completed ::
  "'s log_api \<Rightarrow> 's neighbours \<Rightarrow> uuid option \<Rightarrow> string \<Rightarrow> json \<Rightarrow> 's \<Rightarrow> 's" where
  "record_activity_completed api nb workflow_id activity_id result st =
     (case workflow_id of
        None \<Rightarrow> st
      | Some wf_id \<Rightarrow>
          ignore_op (append_event api nb wf_id (ActivityCompleted activity_id result)) st)"

definition record_activity_failed ::
  "'s log_api \<Rightarrow> 's neighbours \<Rightarrow> uuid option \<Rightarrow> string \<Rightarrow> string \<Rightarrow> bool \<Rightarrow> 's \<Rightarrow> 's" where
  "record_activity_failed api nb workflow_id activity_id error_message will_retry st =
     (case workflow_id of
        None \<Rightarrow> st
      | Some wf_id \<Rightarrow>
          let error = (if will_retry then activity_error_retryable error_message
                       else activity_error_non_retryable error_message)
          in ignore_op (append_event api nb wf_id (ActivityFailed activity_id error will_retry)) st)"

definition record_workflow_completed ::
  "'s log_api \<Rightarrow> 's neighbours \<Rightarrow> uuid \<Rightarrow> json \<Rightarrow> 's \<Rightarrow> 's" where
  "record_workflow_completed api nb workflow_id result st =
     ignore_op (append_event api nb workflow_id (WorkflowCompleted result)) st"

definition record_workflow_failed ::
  "'s log_api \<Rightarrow> 's neighbours \<Rightarrow> uuid \<Rightarrow> string \<Rightarrow> 's \<Rightarrow> 's" where
  "record_workflow_failed api nb workflow_id error_message st =
     ignore_op (append_event api nb workflow_id
       (WorkflowFailed (workflow_error_new error_message))) st"

definition record_workflow_cancelled ::
  "'s log_api \<Rightarrow> 's neighbours \<Rightarrow> uuid \<Rightarrow> string option \<Rightarrow> 's \<Rightarrow> 's" where
  "record_workflow_cancelled api nb workflow_id reason st =
     ignore_op (append_event api nb workflow_id
       (WorkflowCancelled (case reason of Some r \<Rightarrow> r | None \<Rightarrow> ''Cancelled''))) st"

section \<open>What an attempt sees\<close>

text \<open>The in-memory store, and neighbours that do nothing.\<close>

definition mem_log_api :: "store log_api" where
  "mem_log_api = \<lparr>la_append = append_events, la_count = count_events\<rparr>"

definition quiet :: "'s neighbours" where
  "quiet = \<lparr>before_count = (\<lambda>_ s. s), before_append = (\<lambda>_ s. s)\<rparr>"

text \<open>
  The state when attempt \<open>k\<close> counts, and the state others alone lead to after \<open>n\<close> attempts that
  recorded nothing; an attempt that finds no workflow makes no second call.
\<close>

primrec others_after ::
  "('s \<Rightarrow> uuid \<Rightarrow> workflow_event list option) \<Rightarrow> 's neighbours \<Rightarrow> uuid \<Rightarrow> 's \<Rightarrow> nat \<Rightarrow> 's" where
  "others_after lg nb wid st 0 = st"
| "others_after lg nb wid st (Suc n) =
     (let s = before_count nb n (others_after lg nb wid st n)
      in if lg s wid = None then s else before_append nb n s)"

definition at_count where
  "at_count lg nb wid st k = before_count nb k (others_after lg nb wid st k)"

text \<open>Attempt \<open>k\<close> finds the workflow and nobody writes to its log between the two calls.\<close>

definition uncontended where
  "uncontended lg nb wid st k \<longleftrightarrow>
     lg (at_count lg nb wid st k) wid \<noteq> None
     \<and> lg (others_after lg nb wid st (Suc k)) wid = lg (at_count lg nb wid st k) wid"

text \<open>Others append to logs of events and never shorten them.\<close>

definition append_only where
  "append_only lg nb wid \<longleftrightarrow>
     (\<forall>k s es. lg s wid = Some es \<longrightarrow> (\<exists>fs. lg (before_append nb k s) wid = Some (es @ fs)))"

lemmas unfold_attempt = append_attempts.simps(2) others_after.simps(2)

context event_log
begin

lemma attempts_step:
  assumes "la_append api = append" and "la_count api = count"
    and "append_only log nb wid" and "s = others_after log nb wid st k"
    and "\<And>es. log (others_after log nb wid st (Suc k)) wid = Some es \<Longrightarrow> length es < 2 ^ 31"
  shows "append_attempts api nb wid ev (k # ks) s =
    (if uncontended log nb wid st k
     then (Inr (), snd (append wid (as_i32 (length (the (log (at_count log nb wid st k) wid)))) [ev]
            (others_after log nb wid st (Suc k))))
     else if log (at_count log nb wid st k) wid = None \<and> \<not> k < MAX_RETRY_ATTEMPTS - 1
     then (Inl (WorkflowNotFound wid), others_after log nb wid st (Suc k))
     else append_attempts api nb wid ev ks (others_after log nb wid st (Suc k)))"
proof (cases "log (at_count log nb wid st k) wid")
  case None
  then show ?thesis
    using count_missing assms(1,2,4)
    by (simp add: at_count_def uncontended_def Let_def)
next
  case (Some es)
  define s2 where "s2 = before_append nb k (at_count log nb wid st k)"
  have s2: "others_after log nb wid st (Suc k) = s2"
    using Some by (simp add: s2_def at_count_def Let_def)
  obtain fs where fs: "log s2 wid = Some (es @ fs)"
    using assms(3) Some unfolding append_only_def s2_def by blast
  have short: "length (es @ fs) < 2 ^ 31" using assms(5) fs s2 by simp
  have cnt: "count wid (before_count nb k s) = (Inr (length es), before_count nb k s)"
    using Some assms(4) by (simp add: count_current at_count_def)
  show ?thesis
  proof (cases "fs = []")
    case True
    with fs append_current [of s2 wid es "as_i32 (length es)" "[ev]"] obtain s' where
      "append wid (as_i32 (length es)) [ev] s2 = (Inr (as_i32 (length (es @ [ev]))), s')" by auto
    with True fs s2 cnt Some assms(1,2,4) show ?thesis
      by (simp add: uncontended_def s2_def at_count_def)
  next
    case False
    with short append_stale [OF fs, of "as_i32 (length es)" "[ev]"]
    have "append wid (as_i32 (length es)) [ev] s2
        = (Inl (ConcurrencyConflict (as_i32 (length es)) (as_i32 (length (es @ fs)))), s2)" by simp
    with False fs s2 cnt Some assms(1,2,4) show ?thesis
      by (simp add: uncontended_def s2_def at_count_def)
  qed
qed

lemma attempts_from:
  assumes "la_append api = append" and "la_count api = count" and "append_only log nb wid"
    and "\<And>i es. log (others_after log nb wid st i) wid = Some es \<Longrightarrow> length es < 2 ^ 31"
    and "k \<le> MAX_RETRY_ATTEMPTS"
  shows "\<forall>i < MAX_RETRY_ATTEMPTS. k \<le> i \<longrightarrow> \<not> uncontended log nb wid st i \<Longrightarrow>
      append_attempts api nb wid ev [k..<MAX_RETRY_ATTEMPTS] (others_after log nb wid st k) =
      (Inl (if k < MAX_RETRY_ATTEMPTS \<and> log (at_count log nb wid st (MAX_RETRY_ATTEMPTS - 1)) wid = None
            then WorkflowNotFound wid
            else ConcurrencyConflict (-1) (-1)), others_after log nb wid st MAX_RETRY_ATTEMPTS)"
    and "i < MAX_RETRY_ATTEMPTS \<Longrightarrow> k \<le> i \<Longrightarrow> uncontended log nb wid st i \<Longrightarrow>
      \<forall>j < i. k \<le> j \<longrightarrow> \<not> uncontended log nb wid st j \<Longrightarrow>
      \<exists>s'. append_attempts api nb wid ev [k..<MAX_RETRY_ATTEMPTS] (others_after log nb wid st k) = (Inr (), s')
        \<and> log s' = (log (others_after log nb wid st (Suc i)))(wid \<mapsto>
            the (log (others_after log nb wid st (Suc i)) wid) @ [ev])"
  using assms(5)
proof (induction k rule: inc_induct)
  case base
  { case 1 then show ?case by simp }
  { case 2 then show ?case by simp }
next
  case (step n)
  have one: "append_attempts api nb wid ev [n..<MAX_RETRY_ATTEMPTS] (others_after log nb wid st n) =
    (if uncontended log nb wid st n
     then (Inr (), snd (append wid (as_i32 (length (the (log (at_count log nb wid st n) wid)))) [ev]
            (others_after log nb wid st (Suc n))))
     else if log (at_count log nb wid st n) wid = None \<and> \<not> n < MAX_RETRY_ATTEMPTS - 1
     then (Inl (WorkflowNotFound wid), others_after log nb wid st (Suc n))
     else append_attempts api nb wid ev [Suc n..<MAX_RETRY_ATTEMPTS] (others_after log nb wid st (Suc n)))"
    unfolding upt_conv_Cons [OF step.hyps(2)]
    by (rule attempts_step [OF assms(1-3) refl]) (rule assms(4))
  { case 1
    with step.hyps have "\<not> uncontended log nb wid st n" by simp
    moreover from step.hyps have "Suc n = MAX_RETRY_ATTEMPTS \<Longrightarrow> MAX_RETRY_ATTEMPTS - 1 = n" by simp
    ultimately show ?case
      using 1 step.hyps step.IH(1) unfolding one
      by (cases "Suc n = MAX_RETRY_ATTEMPTS") (auto simp del: unfold_attempt)
  }
  { case 2
    show ?case
    proof (cases "i = n")
      case True
      with 2(3) obtain es where es: "log (others_after log nb wid st (Suc n)) wid = Some es"
        "log (at_count log nb wid st n) wid = Some es" by (auto simp: uncontended_def)
      with append_current [OF es(1) refl, of "[ev]"] True 2(3) show ?thesis
        by (auto simp: one simp del: unfold_attempt)
    next
      case False
      with 2 have "\<not> uncontended log nb wid st n" by simp
      with False 2 step.hyps step.IH(2) show ?thesis
        by (auto simp: one simp del: unfold_attempt)
    qed
  }
qed

end

section \<open>The in-memory store\<close>

lemma mem_log_api_simps [simp]:
  "la_append mem_log_api = append_events" "la_count mem_log_api = count_events"
  by (simp_all add: mem_log_api_def)

lemma append_event_quiet:
  assumes "hm_get (workflows st) wid = Some w"
  shows "append_event mem_log_api quiet wid ev st
    = (Inr (), st\<lparr>workflows := hm_adjust wid (\<lambda>_. w\<lparr>wf_events := wf_events w @ [ev]\<rparr>) (workflows st)\<rparr>)"
  using assms
  by (simp add: append_event_def MAX_RETRY_ATTEMPTS_def upt_rec quiet_def wf_ops workflow_rows Let_def)

lemma append_event_quiet_missing:
  assumes "hm_get (workflows st) wid = None"
  shows "append_event mem_log_api quiet wid ev st = (Inl (WorkflowNotFound wid), st)"
  using assms
  by (simp add: append_event_def MAX_RETRY_ATTEMPTS_def upt_rec quiet_def wf_ops workflow_rows)

text \<open>Another client that appends one event.\<close>

definition push_event :: "uuid \<Rightarrow> workflow_event \<Rightarrow> store \<Rightarrow> store" where
  "push_event wid e st =
     st\<lparr>workflows := hm_adjust wid (\<lambda>w. w\<lparr>wf_events := wf_events w @ [e]\<rparr>) (workflows st)\<rparr>"

lemma log_of_push_event [simp]:
  "log_of (push_event wid e st) wid = map_option (\<lambda>es. es @ [e]) (log_of st wid)"
  by (simp add: push_event_def log_of_def option.map_comp comp_def)

section \<open>Properties\<close>

text \<open>
  C39. Recording under contention: however other clients append in the gaps, \<open>append_event\<close>
  records its event exactly once, at the end of what they wrote, in the first of its five
  attempts that finds the workflow and is not overtaken between reading the length and appending.
  When every attempt is overtaken or finds no workflow, it returns an error
  (\<open>WorkflowNotFound\<close> if the workflow was missing in the last attempt) and has written nothing.
  The log is assumed to fit the \<open>i32\<close> sequence numbers.
\<close>

theorem append_event_exactly_once:
  assumes "append_only log_of nb wid"
    and "\<And>i es. log_of (others_after log_of nb wid st i) wid = Some es \<Longrightarrow> length es < 2 ^ 31"
  shows "(\<forall>i < 5. uncontended log_of nb wid st i \<longrightarrow> (\<forall>j < i. \<not> uncontended log_of nb wid st j) \<longrightarrow>
      (\<exists>es s'. log_of (others_after log_of nb wid st (Suc i)) wid = Some es
        \<and> append_event mem_log_api nb wid ev st = (Inr (), s')
        \<and> log_of s' = (log_of (others_after log_of nb wid st (Suc i)))(wid \<mapsto> es @ [ev])))
    \<and> ((\<forall>i < 5. \<not> uncontended log_of nb wid st i) \<longrightarrow>
      append_event mem_log_api nb wid ev st
        = (Inl (if log_of (at_count log_of nb wid st 4) wid = None then WorkflowNotFound wid
                else ConcurrencyConflict (-1) (-1)),
           others_after log_of nb wid st 5))"
    (is "?recorded \<and> ?given_up")
proof
  note runs = mem_log.attempts_from
    [where k = 0 and api = mem_log_api and st = st, OF mem_log_api_simps assms]
  show ?recorded
  proof (intro allI impI)
    fix i :: nat
    assume i: "i < 5" "uncontended log_of nb wid st i" "\<forall>j < i. \<not> uncontended log_of nb wid st j"
    then obtain es where "log_of (others_after log_of nb wid st (Suc i)) wid = Some es"
      unfolding uncontended_def by auto
    with i runs(2) [where i = i and ev = ev] show "\<exists>es s'. log_of (others_after log_of nb wid st (Suc i)) wid = Some es
        \<and> append_event mem_log_api nb wid ev st = (Inr (), s')
        \<and> log_of s' = (log_of (others_after log_of nb wid st (Suc i)))(wid \<mapsto> es @ [ev])"
      by (simp add: append_event_def MAX_RETRY_ATTEMPTS_def del: unfold_attempt)
  qed
  show ?given_up
    using runs(1) [where ev = ev] by (simp add: append_event_def MAX_RETRY_ATTEMPTS_def del: unfold_attempt)
qed

theorem append_event_exactly_once_witness:
  "\<exists>nb st s'. log_of st 7 = Some [] \<and> \<not> uncontended log_of nb 7 st 0
     \<and> append_event mem_log_api nb 7 (TimerFired ''mine'') st = (Inr (), s')
     \<and> log_of s' 7 = Some [TimerFired ''other'', TimerFired ''mine'']"
proof -
  let ?push = "push_event 7 (TimerFired ''other'')"
  define nb :: "store neighbours"
    where "nb = quiet\<lparr>before_append := \<lambda>k. if k = 0 then ?push else (\<lambda>s. s)\<rparr>"
  define st where "st = snd (create_workflow 0 7 ''t'' JNull (store_new None))"
  have log: "log_of st 7 = Some []" by (simp add: st_def create_workflow_def log_of_def)
  have others: "others_after log_of nb 7 st i = (if i = 0 then st else ?push st)" for i
    by (induction i) (auto simp: nb_def quiet_def log Let_def)
  have "append_only log_of nb 7" by (simp add: append_only_def nb_def quiet_def)
  moreover have "log_of (others_after log_of nb 7 st i) 7 = Some es \<Longrightarrow> length es < 2 ^ 31" for i es
    by (auto simp: others log split: if_splits)
  moreover have "before_count nb k s = s" for k s by (simp add: nb_def quiet_def)
  then have "uncontended log_of nb 7 st 1" "\<not> uncontended log_of nb 7 st 0"
    by (simp_all add: uncontended_def at_count_def others log del: others_after.simps)
  ultimately obtain es s' where "log_of (others_after log_of nb 7 st (Suc 1)) 7 = Some es"
    "append_event mem_log_api nb 7 (TimerFired ''mine'') st = (Inr (), s')"
    "log_of s' = (log_of (others_after log_of nb 7 st (Suc 1)))(7 \<mapsto> es @ [TimerFired ''mine''])"
    using append_event_exactly_once [of nb 7 st "TimerFired ''mine''", THEN conjunct1, rule_format, of 1]
    by (auto simp del: others_after.simps)
  with log \<open>\<not> uncontended log_of nb 7 st 0\<close> show ?thesis
    by (intro exI [of _ nb] exI [of _ st] exI [of _ s'])
      (simp add: others del: others_after.simps)
qed

end
