(* ===== verification/Reclaim_Loop.thy ===== *)
theory Reclaim_Loop
  imports Task_Events Task_Queue
begin

text \<open>
  One tick of the reclamation loop of a worker pool (\<open>worker/pool.rs\<close>, \<open>start_reclaim_loop\<close>):
  stale tasks go back to the queue; workflows whose tasks died or were sealed are told so and
  failed.
\<close>

section \<open>Operations\<close>

definition notify_dead ::
  "store neighbours \<Rightarrow> timestamp \<Rightarrow> dead_task_info \<Rightarrow> store \<Rightarrow> store" where
  "notify_dead nb now dead st =
     (let error_msg = (case dt_last_error dead of Some e \<Rightarrow> e | None \<Rightarrow> unresponsive_message);
          st = record_activity_failed mem_log_api nb (dt_workflow_id dead) (dt_activity_id dead)
                 error_msg False st
      in case dt_workflow_id dead of
           None \<Rightarrow> st
         | Some workflow_id \<Rightarrow>
             (case try_fail_workflow now workflow_id (workflow_error_new error_msg) st of
                (Inr True, st) \<Rightarrow> record_workflow_failed mem_log_api nb workflow_id error_msg st
              | (_, st) \<Rightarrow> st))"

definition notify_sealed ::
  "store neighbours \<Rightarrow> timestamp \<Rightarrow> sealed_task_info \<Rightarrow> store \<Rightarrow> store" where
  "notify_sealed nb now sealed st =
     (let error_msg = ''turn sealed: no_progress ('' @ show_nat (unat (st_no_progress_count sealed))
            @ '' recoveries)'';
          st = record_activity_failed mem_log_api nb (st_workflow_id sealed) (st_activity_id sealed)
                 error_msg False st
      in case st_workflow_id sealed of
           None \<Rightarrow> st
         | Some wf_id \<Rightarrow>
             ignore_op (update_workflow_status now wf_id WfFailed None
               (Some (workflow_error_new error_msg))) st)"

definition reclaim_tick ::
  "store neighbours \<Rightarrow> string option \<Rightarrow> timestamp \<Rightarrow> duration \<Rightarrow> store \<Rightarrow> store" where
  "reclaim_tick nb env now threshold st =
     (case reclaim_stale_tasks env threshold st of
        (Inl e, st) \<Rightarrow> st
      | (Inr result, st) \<Rightarrow>
          fold (notify_sealed nb now) (rr_sealed_tasks result)
            (fold (notify_dead nb now) (rr_dead_tasks result) st))"

section \<open>Lemmas\<close>

text \<open>What a tick appends to the log of a workflow.\<close>

fun is_workflow_failed :: "workflow_event \<Rightarrow> bool" where
  "is_workflow_failed (WorkflowFailed _) = True"
| "is_workflow_failed _ = False"

definition dead_message :: "dead_task_info \<Rightarrow> string" where
  "dead_message d = (case dt_last_error d of Some e \<Rightarrow> e | None \<Rightarrow> unresponsive_message)"

definition dead_event :: "dead_task_info \<Rightarrow> workflow_event" where
  "dead_event d =
     ActivityFailed (dt_activity_id d) (activity_error_non_retryable (dead_message d)) False"

definition set_row :: "uuid \<Rightarrow> workflow_state \<Rightarrow> store \<Rightarrow> store" where
  "set_row wid w st = st\<lparr>workflows := hm_adjust wid (\<lambda>_. w) (workflows st)\<rparr>"

lemma set_row_get [simp]:
  "hm_get (workflows (set_row wid w st)) k =
    (if k = wid then map_option (\<lambda>_. w) (hm_get (workflows st) k) else hm_get (workflows st) k)"
  by (simp add: set_row_def)

lemma record_failed_quiet:
  "record_activity_failed mem_log_api quiet workflow_id a msg False st =
    (case workflow_id of
       None \<Rightarrow> st
     | Some wid \<Rightarrow>
         (case hm_get (workflows st) wid of
            None \<Rightarrow> st
          | Some w \<Rightarrow> set_row wid (w\<lparr>wf_events := wf_events w @
              [ActivityFailed a (activity_error_non_retryable msg) False]\<rparr>) st))"
  by (auto simp: record_activity_failed_def ignore_op_def append_event_quiet append_event_quiet_missing
      set_row_def split: option.splits)

lemma notify_dead_other:
  "dt_workflow_id d \<noteq> Some wid \<Longrightarrow>
    hm_get (workflows (notify_dead quiet now d st)) wid = hm_get (workflows st) wid"
  by (auto simp: notify_dead_def record_failed_quiet record_workflow_failed_def ignore_op_def
      append_event_quiet wf_ops with_workflow_def set_row_def Let_def split: option.splits)

lemma notify_dead_running:
  assumes "dt_workflow_id d = Some wid" and "hm_get (workflows st) wid = Some w"
    and "wf_status w = WfRunning"
  shows "\<exists>w'. hm_get (workflows (notify_dead quiet now d st)) wid = Some w' \<and> wf_status w' = WfFailed
    \<and> wf_error w' = Some (workflow_error_new (dead_message d))
    \<and> wf_events w' = wf_events w @ [dead_event d, WorkflowFailed (workflow_error_new (dead_message d))]"
  using assms
  by (simp add: notify_dead_def record_failed_quiet record_workflow_failed_def ignore_op_def
      append_event_quiet wf_ops with_workflow_def Let_def dead_event_def dead_message_def)

lemma notify_dead_finished:
  assumes "dt_workflow_id d = Some wid" and "hm_get (workflows st) wid = Some w"
    and "wf_status w \<noteq> WfRunning"
  shows "\<exists>w'. hm_get (workflows (notify_dead quiet now d st)) wid = Some w'
    \<and> w' = w\<lparr>wf_events := wf_events w @ [dead_event d]\<rparr>"
  using assms
  by (simp add: notify_dead_def record_failed_quiet wf_ops with_workflow_def Let_def dead_event_def
      dead_message_def)

text \<open>
  The dead tasks of a workflow, in the order they are notified: the first fails a running
  workflow, the later ones only leave their event.
\<close>

definition dead_of :: "uuid \<Rightarrow> dead_task_info list \<Rightarrow> dead_task_info list" where
  "dead_of wid ds = filter (\<lambda>d. dt_workflow_id d = Some wid) ds"

lemma dead_of_Cons [simp]:
  "dead_of wid [] = []"
  "dead_of wid (d # ds) = (if dt_workflow_id d = Some wid then d # dead_of wid ds else dead_of wid ds)"
  by (simp_all add: dead_of_def)

lemma fold_dead_finished:
  assumes "hm_get (workflows st) wid = Some w" and "wf_status w \<noteq> WfRunning"
  shows "hm_get (workflows (fold (notify_dead quiet now) ds st)) wid
    = Some (w\<lparr>wf_events := wf_events w @ map dead_event (dead_of wid ds)\<rparr>)"
  using assms
proof (induction ds arbitrary: st w)
  case (Cons d ds)
  show ?case
  proof (cases "dt_workflow_id d = Some wid")
    case True
    from notify_dead_finished [OF this Cons.prems, of now] obtain w' where
      w': "hm_get (workflows (notify_dead quiet now d st)) wid = Some w'"
      "w' = w\<lparr>wf_events := wf_events w @ [dead_event d]\<rparr>" by blast
    with Cons.IH [OF w'(1)] Cons.prems True show ?thesis by simp
  next
    case False
    with Cons.IH [of "notify_dead quiet now d st" w] Cons.prems notify_dead_other [OF False] show ?thesis
      by simp
  qed
qed simp

lemma fold_dead_running:
  assumes "hm_get (workflows st) wid = Some w" and "wf_status w = WfRunning"
    and "dead_of wid ds = d # rest"
  shows "\<exists>w'. hm_get (workflows (fold (notify_dead quiet now) ds st)) wid = Some w'
    \<and> wf_status w' = WfFailed
    \<and> wf_events w' = wf_events w
        @ [dead_event d, WorkflowFailed (workflow_error_new (dead_message d))] @ map dead_event rest"
  using assms
proof (induction ds arbitrary: st)
  case (Cons e ds)
  show ?case
  proof (cases "dt_workflow_id e = Some wid")
    case True
    with Cons.prems have d: "d = e" "rest = dead_of wid ds" by auto
    from notify_dead_running [OF True Cons.prems(1,2), of now] obtain w' where
      w': "hm_get (workflows (notify_dead quiet now e st)) wid = Some w'" "wf_status w' = WfFailed"
      "wf_events w' = wf_events w @ [dead_event e, WorkflowFailed (workflow_error_new (dead_message e))]"
      by blast
    with fold_dead_finished [OF w'(1), of now ds] d show ?thesis by simp
  next
    case False
    with Cons notify_dead_other [OF False] show ?thesis by simp
  qed
qed simp

lemma notify_sealed_row:
  assumes "hm_get (workflows st) wid = Some w"
  shows "\<exists>w'. hm_get (workflows (notify_sealed quiet now s st)) wid = Some w'
    \<and> (\<exists>evs. wf_events w' = wf_events w @ evs \<and> filter is_workflow_failed evs = [])
    \<and> (wf_status w' = wf_status w \<or> wf_status w' = WfFailed)"
  using assms
  by (cases "st_workflow_id s = Some wid"; cases "st_workflow_id s")
    (auto simp: notify_sealed_def record_failed_quiet ignore_op_def wf_ops with_workflow_def set_row_def
      set_status_def Let_def split: option.splits)

lemma fold_sealed_row:
  assumes "hm_get (workflows st) wid = Some w"
  shows "\<exists>w'. hm_get (workflows (fold (notify_sealed quiet now) ss st)) wid = Some w'
    \<and> (\<exists>evs. wf_events w' = wf_events w @ evs \<and> filter is_workflow_failed evs = [])
    \<and> (wf_status w' = wf_status w \<or> wf_status w' = WfFailed)"
  using assms
proof (induction ss arbitrary: st w)
  case (Cons s ss)
  obtain w1 evs1 where w1: "hm_get (workflows (notify_sealed quiet now s st)) wid = Some w1"
    "wf_events w1 = wf_events w @ evs1" "filter is_workflow_failed evs1 = []"
    "wf_status w1 = wf_status w \<or> wf_status w1 = WfFailed"
    using notify_sealed_row [OF Cons.prems, of now s] by blast
  obtain w2 evs2 where w2: "hm_get (workflows (fold (notify_sealed quiet now) ss (notify_sealed quiet now s st))) wid = Some w2"
    "wf_events w2 = wf_events w1 @ evs2" "filter is_workflow_failed evs2 = []"
    "wf_status w2 = wf_status w1 \<or> wf_status w2 = WfFailed"
    using Cons.IH [OF w1(1)] by blast
  have "wf_events w2 = wf_events w @ (evs1 @ evs2)" "filter is_workflow_failed (evs1 @ evs2) = []"
    using w1(2,3) w2(2,3) by simp_all
  with w1(4) w2(1,4) show ?case by auto
qed auto

lemma exhausted_task_reported:
  assumes "hm_get (tasks st) i = Some t" and "tk_status t = TkClaimed"
    and "max_attempts_of t \<le> tk_attempt t" and "td_workflow_id (tk_definition t) = Some wid"
    and "reclaim_stale_tasks env th st = (Inr rr, st')"
  shows "\<exists>d \<in> set (dead_of wid (rr_dead_tasks rr)). dt_activity_id d = td_activity_id (tk_definition t)
    \<and> dead_message d = (case tk_last_error t of Some e \<Rightarrow> e | None \<Rightarrow> unresponsive_message)"
proof -
  let ?th = "no_progress_seal_threshold_from_env env" and ?tok = "progress_token_of st"
  have in_entries: "(i, reclaim_one ?th ?tok i t) \<in> set (reclaim_entries ?th st)"
    using hm_get_Some_in [OF assms(1)] by (force simp: reclaim_entries_def)
  obtain t' d where e: "reclaim_one ?th ?tok i t = (t', Died d)" "dt_workflow_id d = Some wid"
    "dt_activity_id d = td_activity_id (tk_definition t)"
    "dead_message d = (case tk_last_error t of Some e \<Rightarrow> e | None \<Rightarrow> unresponsive_message)"
    using assms(2-4) by (simp add: reclaim_one_def Let_def dead_message_def)
  have "d \<in> set (rr_dead_tasks rr)"
    using reclaim_reports(3) [of env th st rr i t' "Died d" d] in_entries e(1) assms(5) by simp
  with e show ?thesis by (auto simp: dead_of_def)
qed

section \<open>Properties\<close>

text \<open>
  A workflow does not stay running behind a dead task: when a worker vanished with the last
  attempt of a task of a running workflow, the next tick of the reclamation loop leaves the
  workflow failed, its log extended by a non-retryable \<open>ActivityFailed\<close> for that activity and by
  exactly one \<open>WorkflowFailed\<close>, no matter how many of the workflow's tasks died or were sealed in
  the same tick. (No other client writes during the tick; contention on the log is the subject of
  \<open>append_event\<close>.)
\<close>

theorem reclaim_tick_fails_workflow:
  assumes "hm_get (tasks st) i = Some t" and "tk_status t = TkClaimed"
    and "max_attempts_of t \<le> tk_attempt t" and "td_workflow_id (tk_definition t) = Some wid"
    and "hm_get (workflows st) wid = Some w" and "wf_status w = WfRunning"
  shows "\<exists>w' evs msg. hm_get (workflows (reclaim_tick quiet env now threshold st)) wid = Some w'
    \<and> wf_status w' = WfFailed \<and> wf_events w' = wf_events w @ evs
    \<and> msg = (case tk_last_error t of Some e \<Rightarrow> e | None \<Rightarrow> unresponsive_message)
    \<and> ActivityFailed (td_activity_id (tk_definition t)) (activity_error_non_retryable msg) False \<in> set evs
    \<and> length (filter is_workflow_failed evs) = 1"
proof -
  obtain rr st1 where r: "reclaim_stale_tasks env threshold st = (Inr rr, st1)"
    by (simp add: reclaim_stale_tasks_def Let_def)
  then have st1: "hm_get (workflows st1) wid = Some w"
    using reclaim_workflows [of env threshold st] assms(5) by simp
  obtain d where d: "d \<in> set (dead_of wid (rr_dead_tasks rr))" "dt_activity_id d = td_activity_id (tk_definition t)"
    "dead_message d = (case tk_last_error t of Some e \<Rightarrow> e | None \<Rightarrow> unresponsive_message)"
    using exhausted_task_reported [OF assms(1-4) r] by blast
  then obtain d1 ds where ds: "dead_of wid (rr_dead_tasks rr) = d1 # ds"
    by (cases "dead_of wid (rr_dead_tasks rr)") auto
  define failed where "failed = WorkflowFailed (workflow_error_new (dead_message d1))"
  obtain w1 where w1: "hm_get (workflows (fold (notify_dead quiet now) (rr_dead_tasks rr) st1)) wid = Some w1"
    "wf_status w1 = WfFailed" "wf_events w1 = wf_events w @ [dead_event d1, failed] @ map dead_event ds"
    using fold_dead_running [OF st1 assms(6) ds, of now] unfolding failed_def by blast
  obtain w2 evs where w2: "hm_get (workflows (reclaim_tick quiet env now threshold st)) wid = Some w2"
    "wf_events w2 = wf_events w1 @ evs" "filter is_workflow_failed evs = []" "wf_status w2 = WfFailed"
    using fold_sealed_row [OF w1(1), of now "rr_sealed_tasks rr"] w1(2) r by (auto simp: reclaim_tick_def)
  let ?all = "[dead_event d1, failed] @ map dead_event ds @ evs"
  have "dead_event d \<in> set ?all" using d(1) ds by auto
  moreover have "length (filter is_workflow_failed ?all) = 1"
    using w2(3) by (simp add: dead_event_def failed_def filter_empty_conv)
  moreover have "wf_events w2 = wf_events w @ ?all" using w1(3) w2(2) by simp
  ultimately show ?thesis using w2(1,4) d by (auto simp: dead_event_def)
qed

theorem reclaim_tick_fails_workflow_witness:
  "\<exists>st w evs. hm_get (workflows (reclaim_tick quiet None 9 0 st)) 7 = Some w \<and> wf_status w = WfFailed
    \<and> wf_events w = WorkflowStarted JNull # evs
    \<and> ActivityFailed ''a'' (activity_error_non_retryable unresponsive_message) False \<in> set evs
    \<and> length (filter is_workflow_failed evs) = 1"
proof -
  let ?d = "\<lparr>td_workflow_id = Some 7, td_activity_id = ''a'', td_activity_type = ''act'',
    td_input = JNull, td_options = activity_options_default\<rparr>"
  let ?t = "(new_task 0 ?d)\<lparr>tk_status := TkClaimed, tk_attempt := 5, tk_claimed_by := Some ''w''\<rparr>"
  let ?w = "\<lparr>wf_workflow_type = ''t'', wf_status = WfRunning, wf_input = JNull, wf_result = None,
    wf_error = None, wf_events = [WorkflowStarted JNull], wf_signals = [], wf_created_at = 0,
    wf_started_at = Some 0, wf_completed_at = None, wf_continued_as_new_id = None\<rparr>"
  let ?st = "(store_new None)\<lparr>tasks := [(1, ?t)], workflows := [(7, ?w)]\<rparr>"
  have "hm_get (tasks ?st) 1 = Some ?t" "tk_status ?t = TkClaimed" "max_attempts_of ?t \<le> tk_attempt ?t"
    "td_workflow_id (tk_definition ?t) = Some 7" "hm_get (workflows ?st) 7 = Some ?w" "wf_status ?w = WfRunning"
    by (simp_all add: hm_get_def new_task_def max_attempts_of_def activity_options_default_def
        retry_exponential_def)
  from reclaim_tick_fails_workflow [OF this, of None 9 0] show ?thesis
    by (auto simp: new_task_def)
qed

text \<open>
  The sealed branch does not look at the workflow first: a workflow that completed while a stale
  task of its last turn was still claimed is turned into a failed one and loses its result.
\<close>

lemma sealing_overwrites_completed:
  assumes "hm_get (workflows st) wid = Some w" and "wf_status w = WfCompleted" and "wf_result w = Some r"
    and "st_workflow_id s = Some wid"
  shows "\<exists>w'. hm_get (workflows (notify_sealed quiet now s st)) wid = Some w'
    \<and> wf_status w' = WfFailed \<and> wf_result w' = None"
  using assms
  by (simp add: notify_sealed_def record_failed_quiet ignore_op_def wf_ops with_workflow_def
      set_status_def Let_def)

end
