(* ===== verification/Backpressure.thy ===== *)
theory Backpressure
  imports Prelude
begin

text \<open>
  Load-aware admission (\<open>worker/backpressure.rs\<close>): the configuration with its builders and
  validation, the state of a worker, the decision \<open>should_accept\<close> with the watermarks on the load
  and the resume margin on memory and processor use, and the load counter. The texts of the
  reasons are kept as constructors with the numbers the code formats into them. The readings of
  \<open>/proc\<close> (\<open>sysstat\<close>) are inputs.
\<close>

section \<open>Configuration\<close>

record backpressure_config =
  high_watermark :: f64
  low_watermark :: f64
  memory_threshold :: "nat option"
  cpu_threshold :: "f64 option"

definition backpressure_config_default :: backpressure_config where
  "backpressure_config_default =
     \<lparr>high_watermark = 9 / 10, low_watermark = 7 / 10, memory_threshold = None, cpu_threshold = None\<rparr>"

definition with_high_watermark :: "f64 \<Rightarrow> backpressure_config \<Rightarrow> backpressure_config" where
  "with_high_watermark x c = c\<lparr>high_watermark := clamp_f64 0 1 x\<rparr>"

definition with_low_watermark :: "f64 \<Rightarrow> backpressure_config \<Rightarrow> backpressure_config" where
  "with_low_watermark x c = c\<lparr>low_watermark := clamp_f64 0 1 x\<rparr>"

definition with_memory_threshold :: "nat \<Rightarrow> backpressure_config \<Rightarrow> backpressure_config" where
  "with_memory_threshold n c = c\<lparr>memory_threshold := Some n\<rparr>"

definition with_cpu_threshold :: "f64 \<Rightarrow> backpressure_config \<Rightarrow> backpressure_config" where
  "with_cpu_threshold x c = c\<lparr>cpu_threshold := Some (clamp_f64 0 1 x)\<rparr>"

datatype backpressure_error = InvalidConfig string

definition validate :: "backpressure_config \<Rightarrow> backpressure_error + unit" where
  "validate c =
     (if high_watermark c \<le> low_watermark c
      then Inl (InvalidConfig ''low_watermark must be less than high_watermark'')
      else Inr ())"

section \<open>State\<close>

datatype backpressure_reason =
    LoadExceeds f64
  | MemoryExceeds nat nat
  | CpuExceeds f64 f64
  | Paused string

record resource_metrics =
  rm_memory_used_bytes :: nat
  rm_memory_total_bytes :: nat
  rm_cpu_usage :: f64

record backpressure_state =
  bp_config :: backpressure_config
  bp_current_load :: nat
  bp_max_concurrency :: nat
  bp_accepting_tasks :: bool
  bp_reason :: "backpressure_reason option"
  bp_memory_used_bytes :: nat
  bp_cpu_usage :: f64
  bp_resource_pressure :: bool

definition RESOURCE_RESUME_FACTOR :: f64 where
  "RESOURCE_RESUME_FACTOR = 8 / 10"

definition backpressure_new :: "backpressure_config \<Rightarrow> nat \<Rightarrow> backpressure_state" where
  "backpressure_new config max_concurrency =
     \<lparr>bp_config = config, bp_current_load = 0, bp_max_concurrency = max_concurrency,
      bp_accepting_tasks = True, bp_reason = None, bp_memory_used_bytes = 0, bp_cpu_usage = 0,
      bp_resource_pressure = False\<rparr>"

definition load_ratio :: "backpressure_state \<Rightarrow> f64" where
  "load_ratio s = of_nat (bp_current_load s) / of_nat (max (bp_max_concurrency s) 1)"

text \<open>\<open>(threshold as f64 * RESOURCE_RESUME_FACTOR) as u64\<close>.\<close>

definition memory_resume :: "nat \<Rightarrow> nat" where
  "memory_resume threshold = nat \<lfloor>of_nat threshold * RESOURCE_RESUME_FACTOR\<rfloor>"

text \<open>
  The memory and the processor check: \<open>Some\<close> is a return from the function (always with
  \<open>true\<close>), \<open>None\<close> falls through to what follows.
\<close>

definition check_memory :: "backpressure_state \<Rightarrow> backpressure_state option" where
  "check_memory s =
     (case memory_threshold (bp_config s) of
        None \<Rightarrow> None
      | Some threshold \<Rightarrow>
          let mem = bp_memory_used_bytes s; was_pressured = bp_resource_pressure s
          in if \<not> was_pressured \<and> threshold \<le> mem
             then Some (s\<lparr>bp_resource_pressure := True, bp_reason := Some (MemoryExceeds mem threshold)\<rparr>)
             else if was_pressured \<and> memory_resume threshold \<le> mem then Some s
             else None)"

definition check_cpu :: "backpressure_state \<Rightarrow> backpressure_state option" where
  "check_cpu s =
     (case cpu_threshold (bp_config s) of
        None \<Rightarrow> None
      | Some threshold \<Rightarrow>
          let cpu = bp_cpu_usage s; was_pressured = bp_resource_pressure s
          in if \<not> was_pressured \<and> threshold \<le> cpu
             then Some (s\<lparr>bp_resource_pressure := True, bp_reason := Some (CpuExceeds cpu threshold)\<rparr>)
             else if was_pressured \<and> threshold * RESOURCE_RESUME_FACTOR \<le> cpu then Some s
             else None)"

definition release_pressure :: "backpressure_state \<Rightarrow> backpressure_state" where
  "release_pressure s =
     (if bp_resource_pressure s then
        s\<lparr>bp_resource_pressure := False,
          bp_reason := (if bp_accepting_tasks s then None else bp_reason s)\<rparr>
      else s)"

definition check_resource_pressure :: "backpressure_state \<Rightarrow> bool \<times> backpressure_state" where
  "check_resource_pressure s =
     (if memory_threshold (bp_config s) = None \<and> cpu_threshold (bp_config s) = None then (False, s)
      else
        case check_memory s of
          Some s' \<Rightarrow> (True, s')
        | None \<Rightarrow>
            (case check_cpu s of
               Some s' \<Rightarrow> (True, s')
             | None \<Rightarrow> (False, release_pressure s)))"

definition should_accept :: "backpressure_state \<Rightarrow> bool \<times> backpressure_state" where
  "should_accept s =
     (let (pressured, s) = check_resource_pressure s in
      if pressured then (False, s)
      else if bp_accepting_tasks s then
        (if high_watermark (bp_config s) \<le> load_ratio s
         then (False, s\<lparr>bp_accepting_tasks := False, bp_reason := Some (LoadExceeds (load_ratio s))\<rparr>)
         else (True, s))
      else
        (if load_ratio s \<le> low_watermark (bp_config s)
         then (True, s\<lparr>bp_accepting_tasks := True, bp_reason := None\<rparr>)
         else (False, s)))"

definition update_resources :: "resource_metrics \<Rightarrow> backpressure_state \<Rightarrow> backpressure_state" where
  "update_resources m s =
     s\<lparr>bp_memory_used_bytes := rm_memory_used_bytes m, bp_cpu_usage := rm_cpu_usage m\<rparr>"

definition current_metrics :: "backpressure_state \<Rightarrow> resource_metrics" where
  "current_metrics s =
     \<lparr>rm_memory_used_bytes = bp_memory_used_bytes s, rm_memory_total_bytes = 0,
      rm_cpu_usage = bp_cpu_usage s\<rparr>"

definition is_accepting :: "backpressure_state \<Rightarrow> bool" where
  "is_accepting s = bp_accepting_tasks s"

text \<open>\<open>fetch_add\<close> and \<open>fetch_sub\<close> wrap.\<close>

definition task_started :: "backpressure_state \<Rightarrow> backpressure_state" where
  "task_started s = s\<lparr>bp_current_load := (bp_current_load s + 1) mod 2 ^ 64\<rparr>"

definition task_completed :: "backpressure_state \<Rightarrow> backpressure_state" where
  "task_completed s = s\<lparr>bp_current_load := nat ((int (bp_current_load s) - 1) mod 2 ^ 64)\<rparr>"

text \<open>\<open>saturating_sub\<close>.\<close>

definition available_slots :: "backpressure_state \<Rightarrow> nat" where
  "available_slots s = bp_max_concurrency s - bp_current_load s"

definition pause :: "string \<Rightarrow> backpressure_state \<Rightarrow> backpressure_state" where
  "pause reason s = s\<lparr>bp_accepting_tasks := False, bp_reason := Some (Paused reason)\<rparr>"

definition resume :: "backpressure_state \<Rightarrow> backpressure_state" where
  "resume s =
     (if load_ratio s \<le> low_watermark (bp_config s) \<and> \<not> bp_resource_pressure s
      then s\<lparr>bp_accepting_tasks := True, bp_reason := None\<rparr>
      else s)"

definition is_resource_pressured :: "backpressure_state \<Rightarrow> bool" where
  "is_resource_pressured s = bp_resource_pressure s"

section \<open>Specification\<close>

text \<open>
  A two-threshold switch: its position is that of the last reading that decides it, and readings
  in between leave it as it is.
\<close>

definition last_decisive :: "('a \<Rightarrow> bool) \<Rightarrow> ('a \<Rightarrow> bool) \<Rightarrow> bool \<Rightarrow> 'a list \<Rightarrow> bool" where
  "last_decisive up down init xs =
     (let ds = filter (\<lambda>x. up x \<or> down x) xs in if ds = [] then init else up (last ds))"

text \<open>What \<open>should_accept\<close> looks at: load, memory and processor use, read at one call.\<close>

record reading =
  rd_load :: nat
  rd_memory :: nat
  rd_cpu :: f64

definition observe :: "reading \<Rightarrow> backpressure_state \<Rightarrow> backpressure_state" where
  "observe r s =
     s\<lparr>bp_current_load := rd_load r, bp_memory_used_bytes := rd_memory r, bp_cpu_usage := rd_cpu r\<rparr>"

fun decisions :: "backpressure_state \<Rightarrow> reading list \<Rightarrow> bool list \<times> backpressure_state" where
  "decisions s [] = ([], s)"
| "decisions s (r # rs) =
     (let (b, s') = should_accept (observe r s); (bs, s'') = decisions s' rs in (b # bs, s''))"

definition ratio_of :: "nat \<Rightarrow> reading \<Rightarrow> f64" where
  "ratio_of n r = of_nat (rd_load r) / of_nat (max n 1)"

text \<open>Some resource is over its threshold; every resource is below its resume threshold.\<close>

definition over :: "backpressure_config \<Rightarrow> reading \<Rightarrow> bool" where
  "over c r \<longleftrightarrow>
     (\<exists>t. memory_threshold c = Some t \<and> t \<le> rd_memory r)
     \<or> (\<exists>t. cpu_threshold c = Some t \<and> t \<le> rd_cpu r)"

definition calm :: "backpressure_config \<Rightarrow> reading \<Rightarrow> bool" where
  "calm c r \<longleftrightarrow>
     (\<forall>t. memory_threshold c = Some t \<longrightarrow> rd_memory r < memory_resume t)
     \<and> (\<forall>t. cpu_threshold c = Some t \<longrightarrow> rd_cpu r < t * RESOURCE_RESUME_FACTOR)"

text \<open>Whether resources are under pressure after a sequence of readings, and the readings taken
  without pressure.\<close>

definition pressed :: "backpressure_config \<Rightarrow> bool \<Rightarrow> reading list \<Rightarrow> bool" where
  "pressed c p rs = last_decisive (over c) (calm c) p rs"

definition unpressed :: "backpressure_config \<Rightarrow> bool \<Rightarrow> reading list \<Rightarrow> reading list" where
  "unpressed c p rs = map (\<lambda>i. rs ! i) (filter (\<lambda>i. \<not> pressed c p (take (Suc i) rs)) [0..<length rs])"

section \<open>Lemmas\<close>

lemma last_decisive_Nil [simp]: "last_decisive up down p [] = p"
  by (simp add: last_decisive_def)

lemma last_decisive_snoc [simp]:
  "last_decisive up down p (xs @ [x]) =
    (if up x then True else if down x then False else last_decisive up down p xs)"
  by (simp add: last_decisive_def)

lemma pressed_snoc:
  "pressed c p (rs @ [r]) = (if over c r then True else if calm c r then False else pressed c p rs)"
  by (simp add: pressed_def)

lemma unpressed_Nil [simp]: "unpressed c p [] = []"
  by (simp add: unpressed_def)

lemma unpressed_snoc:
  "unpressed c p (rs @ [r]) = unpressed c p rs @ (if pressed c p (rs @ [r]) then [] else [r])"
proof -
  have "filter (\<lambda>i. \<not> pressed c p (take (Suc i) (rs @ [r]))) [0..<length rs]
      = filter (\<lambda>i. \<not> pressed c p (take (Suc i) rs)) [0..<length rs]"
    by (rule filter_cong) auto
  moreover have "map (\<lambda>i. (rs @ [r]) ! i) (filter P [0..<length rs]) = map (\<lambda>i. rs ! i) (filter P [0..<length rs])"
    for P by (rule map_cong) (auto simp: nth_append)
  ultimately show ?thesis by (simp add: unpressed_def)
qed

lemma memory_resume_le: "memory_resume t \<le> t"
proof -
  have "\<lfloor>(of_nat t :: f64) * (8 / 10)\<rfloor> \<le> int t"
    by (rule floor_le_iff [THEN iffD2]) (simp add: algebra_simps)
  then show ?thesis by (simp add: memory_resume_def RESOURCE_RESUME_FACTOR_def)
qed

definition sane :: "backpressure_config \<Rightarrow> bool" where
  "sane c \<longleftrightarrow> validate c = Inr () \<and> (\<forall>t. cpu_threshold c = Some t \<longrightarrow> 0 \<le> t)"

lemma over_not_calm:
  assumes "sane c" and "over c r"
  shows "\<not> calm c r"
  using assms(2) unfolding over_def
proof (elim disjE exE conjE)
  fix t assume "memory_threshold c = Some t" "t \<le> rd_memory r"
  with memory_resume_le [of t] show ?thesis by (auto simp: calm_def)
next
  fix t assume t: "cpu_threshold c = Some t" "t \<le> rd_cpu r"
  with assms(1) have "t * RESOURCE_RESUME_FACTOR \<le> rd_cpu r"
    by (simp add: sane_def RESOURCE_RESUME_FACTOR_def)
  with t show ?thesis by (auto simp: calm_def)
qed

definition has_thresholds :: "backpressure_config \<Rightarrow> bool" where
  "has_thresholds c \<longleftrightarrow> memory_threshold c \<noteq> None \<or> cpu_threshold c \<noteq> None"

lemma no_thresholds: "\<not> has_thresholds c \<Longrightarrow> \<not> over c r \<and> calm c r"
  by (simp add: has_thresholds_def over_def calm_def)

lemma checks_decide:
  assumes "has_thresholds (bp_config s)" and "s = observe r s0"
  shows "(check_memory s = None \<and> check_cpu s = None) \<longleftrightarrow>
    (if bp_resource_pressure s then calm (bp_config s) r else \<not> over (bp_config s) r)"
  using assms
  by (auto simp: check_memory_def check_cpu_def calm_def over_def observe_def Let_def split: option.splits)

text \<open>One call: the pressure switch, then the load switch unless under pressure.\<close>

lemma check_resource_pressure_switch:
  assumes "sane (bp_config s)" and "bp_resource_pressure s \<Longrightarrow> has_thresholds (bp_config s)"
    and "check_resource_pressure (observe r s) = (b, s')"
  shows "bp_resource_pressure s' = (if over (bp_config s) r then True
      else if calm (bp_config s) r then False else bp_resource_pressure s)"
    and "b = bp_resource_pressure s'"
    and "bp_config s' = bp_config s \<and> bp_max_concurrency s' = bp_max_concurrency s
      \<and> bp_current_load s' = rd_load r \<and> bp_accepting_tasks s' = bp_accepting_tasks s"
proof -
  show "bp_config s' = bp_config s \<and> bp_max_concurrency s' = bp_max_concurrency s
      \<and> bp_current_load s' = rd_load r \<and> bp_accepting_tasks s' = bp_accepting_tasks s"
    using assms(3)
    by (auto simp: check_resource_pressure_def check_memory_def check_cpu_def release_pressure_def
        observe_def Let_def split: option.splits if_splits)
  have fields: "bp_config (observe r s) = bp_config s"
    "bp_resource_pressure (observe r s) = bp_resource_pressure s" by (simp_all add: observe_def)
  have hit: "bp_resource_pressure t" if "check_memory (observe r s) = Some t \<or> check_cpu (observe r s) = Some t" for t
    using that by (auto simp: check_memory_def check_cpu_def Let_def split: option.splits if_splits)
  have "bp_resource_pressure s' = (if over (bp_config s) r then True
      else if calm (bp_config s) r then False else bp_resource_pressure s) \<and> b = bp_resource_pressure s'"
  proof (cases "has_thresholds (bp_config s)")
    case False
    with assms no_thresholds [of "bp_config s" r] show ?thesis
      by (auto simp: check_resource_pressure_def has_thresholds_def fields)
  next
    case True
    show ?thesis
      using assms(3) True hit over_not_calm [OF assms(1), of r]
        checks_decide [OF _ refl, of r s, unfolded fields, OF True]
      by (auto simp: check_resource_pressure_def has_thresholds_def release_pressure_def fields
          split: option.splits if_splits)
  qed
  then show "bp_resource_pressure s' = (if over (bp_config s) r then True
      else if calm (bp_config s) r then False else bp_resource_pressure s)"
    and "b = bp_resource_pressure s'" by blast+
qed

lemma should_accept_switch:
  assumes "sane (bp_config s)" and "bp_resource_pressure s \<Longrightarrow> has_thresholds (bp_config s)"
    and "should_accept (observe r s) = (b, s')"
  shows "bp_resource_pressure s' = (if over (bp_config s) r then True
      else if calm (bp_config s) r then False else bp_resource_pressure s)"
    and "bp_accepting_tasks s' =
      (if bp_resource_pressure s' then bp_accepting_tasks s
       else if ratio_of (bp_max_concurrency s) r \<le> low_watermark (bp_config s) then True
       else if high_watermark (bp_config s) \<le> ratio_of (bp_max_concurrency s) r then False
       else bp_accepting_tasks s)"
    and "b \<longleftrightarrow> \<not> bp_resource_pressure s' \<and> bp_accepting_tasks s'"
    and "bp_config s' = bp_config s \<and> bp_max_concurrency s' = bp_max_concurrency s"
proof -
  obtain b1 s1 where c: "check_resource_pressure (observe r s) = (b1, s1)" by fastforce
  have low: "low_watermark (bp_config s) < high_watermark (bp_config s)"
    using assms(1) by (auto simp: sane_def validate_def split: if_splits)
  have same: "bp_resource_pressure s' = bp_resource_pressure s1"
    using assms(3) c by (auto simp: should_accept_def Let_def split: if_splits)
  show "bp_resource_pressure s' = (if over (bp_config s) r then True
      else if calm (bp_config s) r then False else bp_resource_pressure s)"
    using check_resource_pressure_switch(1) [OF assms(1,2) c] same by simp
  show "bp_accepting_tasks s' =
      (if bp_resource_pressure s' then bp_accepting_tasks s
       else if ratio_of (bp_max_concurrency s) r \<le> low_watermark (bp_config s) then True
       else if high_watermark (bp_config s) \<le> ratio_of (bp_max_concurrency s) r then False
       else bp_accepting_tasks s)"
    and "b \<longleftrightarrow> \<not> bp_resource_pressure s' \<and> bp_accepting_tasks s'"
    and "bp_config s' = bp_config s \<and> bp_max_concurrency s' = bp_max_concurrency s"
    using assms(3) c low check_resource_pressure_switch(2,3) [OF assms(1,2) c]
    by (auto simp: should_accept_def load_ratio_def ratio_of_def Let_def split: if_splits)
qed

lemma decisions_snoc:
  "decisions s (rs @ [r]) =
    (let (bs, s') = decisions s rs; (b, s'') = should_accept (observe r s') in (bs @ [b], s''))"
  by (induction rs arbitrary: s) (auto simp: Let_def split: prod.splits)

lemma decisions_switches:
  assumes "sane c" and "decisions (backpressure_new c n) rs = (bs, s)"
  shows "bp_config s = c \<and> bp_max_concurrency s = n
    \<and> bp_resource_pressure s = pressed c False rs
    \<and> bp_accepting_tasks s = last_decisive (\<lambda>r. ratio_of n r \<le> low_watermark c)
        (\<lambda>r. high_watermark c \<le> ratio_of n r) True (unpressed c False rs)
    \<and> (rs \<noteq> [] \<longrightarrow> (last bs \<longleftrightarrow> \<not> bp_resource_pressure s \<and> bp_accepting_tasks s))"
  using assms(2)
proof (induction rs arbitrary: bs s rule: rev_induct)
  case Nil
  then show ?case by (auto simp: backpressure_new_def pressed_def)
next
  case (snoc r rs)
  obtain bs1 s1 where d: "decisions (backpressure_new c n) rs = (bs1, s1)" by fastforce
  with snoc.prems obtain b where b: "should_accept (observe r s1) = (b, s)" "bs = bs1 @ [b]"
    by (auto simp: decisions_snoc Let_def split: prod.splits)
  note ih = snoc.IH [OF d]
  have p: "bp_resource_pressure s1 \<Longrightarrow> has_thresholds (bp_config s1)"
  proof (rule ccontr)
    assume p: "bp_resource_pressure s1" and n: "\<not> has_thresholds (bp_config s1)"
    then have "\<not> pressed c False rs"
      using ih no_thresholds [of c]
      by (cases rs rule: rev_cases) (auto simp: pressed_snoc, simp add: pressed_def)
    with p ih show False by blast
  qed
  show ?case
    using should_accept_switch [OF _ p b(1)] assms(1) ih b(2)
    by (simp add: pressed_snoc unpressed_snoc)
qed

section \<open>Properties\<close>

text \<open>
  Admission does not oscillate: after any sequence of readings, a worker refuses exactly when
  its resources are under pressure or its load is. Resources come under pressure when one of them
  reaches its threshold and stay so until all are below 80 percent of it; the load closes the
  worker at the high watermark and opens it at the low one, readings between the watermarks (or
  taken under resource pressure) leaving it as it is. The configuration is valid.
\<close>

theorem should_accept_hysteresis:
  assumes "validate c = Inr ()" and "\<And>t. cpu_threshold c = Some t \<Longrightarrow> 0 \<le> t"
    and "decisions (backpressure_new c n) (rs @ [r]) = (bs @ [b], s)"
  shows "b \<longleftrightarrow> \<not> last_decisive (over c) (calm c) False (rs @ [r])
    \<and> last_decisive (\<lambda>r. ratio_of n r \<le> low_watermark c) (\<lambda>r. high_watermark c \<le> ratio_of n r) True
        (unpressed c False (rs @ [r]))"
  using decisions_switches [OF _ assms(3)] assms(1,2) by (simp add: sane_def pressed_def del: last_decisive_snoc)

theorem should_accept_hysteresis_witness:
  "let rd = \<lambda>n. \<lparr>rd_load = n, rd_memory = 0, rd_cpu = 0\<rparr>; c = backpressure_config_default
   in fst (decisions (backpressure_new c 10) [rd 9, rd 8]) = [False, False]
     \<and> \<not> (\<not> last_decisive (over c) (calm c) False [rd 9, rd 8]
       \<and> last_decisive (\<lambda>r. ratio_of 10 r \<le> low_watermark c) (\<lambda>r. high_watermark c \<le> ratio_of 10 r)
           True (unpressed c False [rd 9, rd 8]))"
proof -
  let ?rd = "\<lambda>n. \<lparr>rd_load = n, rd_memory = 0, rd_cpu = 0\<rparr>" and ?c = backpressure_config_default
  obtain s where d: "decisions (backpressure_new ?c 10) ([?rd 9] @ [?rd 8]) = ([False] @ [False], s)"
    by (simp add: backpressure_config_default_def backpressure_new_def observe_def should_accept_def
        check_resource_pressure_def load_ratio_def Let_def)
  have "validate ?c = Inr ()" "cpu_threshold ?c = Some t \<Longrightarrow> 0 \<le> t" for t
    by (simp_all add: validate_def backpressure_config_default_def)
  from should_accept_hysteresis [OF this d] d show ?thesis by (simp add: Let_def del: decisions.simps last_decisive_snoc)
qed

text \<open>
  A paused worker that is not loaded accepts again at the next call: the switch does not know the
  pause from backpressure.
\<close>

lemma pause_undone_when_idle:
  assumes "sane (bp_config s)" and "\<not> has_thresholds (bp_config s)" and "\<not> bp_resource_pressure s"
    and "load_ratio s \<le> low_watermark (bp_config s)"
  shows "fst (should_accept (pause reason s))"
  using assms
  by (simp add: should_accept_def check_resource_pressure_def has_thresholds_def pause_def load_ratio_def)

end
