(* ===== verification/Poller.thy ===== *)
theory Poller
  imports Task_Queue
begin

text \<open>
  Task polling (\<open>worker/poller.rs\<close>): the configuration, \<open>TaskPoller\<close> with its exponential
  backoff, the jitter added to a wait, and \<open>AdaptivePoller\<close>. A panic of the arithmetic (a
  duration that does not fit, an empty random range) is the value \<open>None\<close>. The shutdown flag is an
  argument; sleeping has no effect on the state.
\<close>

section \<open>Configuration\<close>

record poller_config =
  pc_min_interval :: duration
  pc_max_interval :: duration
  pc_backoff_multiplier :: f64
  pc_batch_size :: nat
  pc_jitter_factor :: f64

definition poller_config_default :: poller_config where
  "poller_config_default =
     \<lparr>pc_min_interval = from_millis 10, pc_max_interval = from_secs 5,
      pc_backoff_multiplier = 15 / 10, pc_batch_size = 10, pc_jitter_factor = 2 / 10\<rparr>"

definition with_min_interval :: "duration \<Rightarrow> poller_config \<Rightarrow> poller_config" where
  "with_min_interval d c = c\<lparr>pc_min_interval := d\<rparr>"

definition poller_with_max_interval :: "duration \<Rightarrow> poller_config \<Rightarrow> poller_config" where
  "poller_with_max_interval d c = c\<lparr>pc_max_interval := d\<rparr>"

definition with_backoff_multiplier :: "f64 \<Rightarrow> poller_config \<Rightarrow> poller_config" where
  "with_backoff_multiplier x c = c\<lparr>pc_backoff_multiplier := max x 1\<rparr>"

definition with_batch_size :: "nat \<Rightarrow> poller_config \<Rightarrow> poller_config" where
  "with_batch_size n c = c\<lparr>pc_batch_size := max n 1\<rparr>"

definition with_jitter_factor :: "f64 \<Rightarrow> poller_config \<Rightarrow> poller_config" where
  "with_jitter_factor x c = c\<lparr>pc_jitter_factor := clamp_f64 0 1 x\<rparr>"

section \<open>The task poller\<close>

datatype poller_error = PStore store_error | PShutdown

record task_poller =
  tp_worker_id :: string
  tp_activity_types :: "string list"
  tp_config :: poller_config
  tp_current_interval :: duration

definition poller_new :: "string \<Rightarrow> string list \<Rightarrow> poller_config \<Rightarrow> task_poller" where
  "poller_new worker_id activity_types config =
     \<lparr>tp_worker_id = worker_id, tp_activity_types = activity_types, tp_config = config,
      tp_current_interval = pc_min_interval config\<rparr>"

definition reset_backoff :: "task_poller \<Rightarrow> task_poller" where
  "reset_backoff p = p\<lparr>tp_current_interval := pc_min_interval (tp_config p)\<rparr>"

definition increase_backoff :: "task_poller \<Rightarrow> task_poller option" where
  "increase_backoff p =
     map_option (\<lambda>d. p\<lparr>tp_current_interval := min d (pc_max_interval (tp_config p))\<rparr>)
       (from_secs_f64 (as_secs_f64 (tp_current_interval p) * pc_backoff_multiplier (tp_config p)))"

text \<open>
  \<open>poll\<close>: the answer, the poller and the store; the whole is \<open>None\<close> when the backoff panics
  (after the claim).
\<close>

definition poll ::
  "timestamp \<Rightarrow> bool \<Rightarrow> nat \<Rightarrow> task_poller \<Rightarrow> store
     \<Rightarrow> ((poller_error + claimed_task list) \<times> task_poller option) \<times> store" where
  "poll now shutdown max_tasks p st =
     (if shutdown then ((Inr [], Some p), st)
      else
        let batch_size = min max_tasks (pc_batch_size (tp_config p)) in
        case claim_task now (tp_worker_id p) (tp_activity_types p) batch_size st of
          (Inl e, st) \<Rightarrow> ((Inl (PStore e), Some p), st)
        | (Inr ts, st) \<Rightarrow>
            ((Inr ts, if ts = [] then increase_backoff p else Some (reset_backoff p)), st))"

text \<open>\<open>rng lo hi\<close> is the value drawn from the half-open range.\<close>

definition jittered_interval :: "(f64 \<Rightarrow> f64 \<Rightarrow> f64) \<Rightarrow> duration \<Rightarrow> f64 \<Rightarrow> duration option" where
  "jittered_interval rng base jitter_factor =
     (if jitter_factor \<le> 0 then Some base
      else
        let max_jitter = as_secs_f64 base * jitter_factor
        in if 0 < max_jitter then map_option (\<lambda>d. base + d) (from_secs_f64 (rng 0 max_jitter))
           else None)"

definition poller_wait :: "(f64 \<Rightarrow> f64 \<Rightarrow> f64) \<Rightarrow> task_poller \<Rightarrow> duration option" where
  "poller_wait rng p =
     jittered_interval rng (tp_current_interval p) (pc_jitter_factor (tp_config p))"

section \<open>The adaptive poller\<close>

record adaptive_poller =
  ap_config :: poller_config
  ap_recent_task_counts :: "nat list"
  ap_window_size :: nat

definition adaptive_new :: "poller_config \<Rightarrow> adaptive_poller" where
  "adaptive_new config = \<lparr>ap_config = config, ap_recent_task_counts = [], ap_window_size = 10\<rparr>"

definition record_poll :: "nat \<Rightarrow> adaptive_poller \<Rightarrow> adaptive_poller" where
  "record_poll tasks_found a =
     (let counts = ap_recent_task_counts a;
          counts = (if ap_window_size a \<le> length counts then tl counts else counts)
      in a\<lparr>ap_recent_task_counts := counts @ [tasks_found]\<rparr>)"

definition average_tasks_per_poll :: "adaptive_poller \<Rightarrow> f64" where
  "average_tasks_per_poll a =
     (if ap_recent_task_counts a = [] then 0
      else of_nat (sum_list (ap_recent_task_counts a)) / of_nat (length (ap_recent_task_counts a)))"

text \<open>
  With a batch size of zero the ratio is not a number and the conversion panics. The product
  \<open>min_interval * 4\<close> is taken as fitting a \<open>Duration\<close>.
\<close>

definition optimal_interval :: "adaptive_poller \<Rightarrow> duration option" where
  "optimal_interval a =
     (let c = ap_config a; batch = of_nat (pc_batch_size c); avg_tasks = average_tasks_per_poll a in
      if ap_recent_task_counts a = [] then Some (pc_min_interval c)
      else if 8 / 10 * batch < avg_tasks then Some (pc_min_interval c)
      else if avg_tasks < 2 / 10 * batch then Some (min (pc_max_interval c) (pc_min_interval c * 4))
      else if batch = 0 then None
      else
        let ratio = 1 - avg_tasks / batch;
            range = as_secs_f64 (pc_max_interval c) - as_secs_f64 (pc_min_interval c)
        in from_secs_f64 (as_secs_f64 (pc_min_interval c) + ratio * range * (5 / 10)))"

section \<open>Lemmas\<close>

lemma round_half_even_floor: "\<lfloor>x\<rfloor> \<le> round_half_even x"
  by (simp add: round_half_even_def Let_def)

lemma round_half_even_of_int: "of_int n \<le> x \<Longrightarrow> n \<le> round_half_even x"
  using round_half_even_floor [of x] by (simp add: le_floor_iff [symmetric])

lemma round_half_even_upper: "x \<le> of_int n \<Longrightarrow> round_half_even x \<le> n"
proof -
  assume x: "x \<le> of_int n"
  show ?thesis
  proof (cases "x = of_int n")
    case True
    then show ?thesis by (simp add: round_half_even_def)
  next
    case False
    with x have "\<lfloor>x\<rfloor> < n" by (subst floor_less_iff) simp
    then have "\<lfloor>x\<rfloor> + 1 \<le> n" by simp
    then show ?thesis by (auto simp: round_half_even_def Let_def)
  qed
qed

lemma secs_times: "as_secs_f64 d * m * 1000000000 = of_nat d * m"
  by (simp add: as_secs_f64_def)

text \<open>A duration scaled by a factor, in whole nanoseconds.\<close>

lemma scaled_duration:
  assumes "0 \<le> m" and "as_secs_f64 d * m < 2 ^ 64"
  shows "from_secs_f64 (as_secs_f64 d * m) = Some (nat (round_half_even (of_nat d * m)))"
proof -
  have "0 \<le> as_secs_f64 d * m" using assms(1) by (simp add: as_secs_f64_def)
  with assms(2) show ?thesis by (simp add: from_secs_f64_def secs_times not_le not_less)
qed

lemma scaled_grows:
  assumes "1 \<le> m"
  shows "d \<le> nat (round_half_even (of_nat d * m))"
    and "1 \<le> (m - 1) * of_nat d \<Longrightarrow> d < nat (round_half_even (of_nat d * m))"
proof -
  have le: "(of_nat d :: f64) \<le> of_nat d * m"
    using mult_left_mono [OF assms, of "of_nat d"] by simp
  have "of_int (int d) \<le> of_nat d * m" using le by simp
  from round_half_even_of_int [OF this] show "d \<le> nat (round_half_even (of_nat d * m))" by simp
  assume "1 \<le> (m - 1) * of_nat d"
  then have "of_int (int d + 1) \<le> of_nat d * m" by (simp add: algebra_simps)
  from round_half_even_of_int [OF this] show "d < nat (round_half_even (of_nat d * m))" by simp
qed

text \<open>A poller whose interval is within its bounds and whose backoff cannot overflow.\<close>

definition poller_ok :: "task_poller \<Rightarrow> bool" where
  "poller_ok p \<longleftrightarrow>
     (let c = tp_config p in
      pc_min_interval c \<le> tp_current_interval p \<and> tp_current_interval p \<le> pc_max_interval c
      \<and> 1 \<le> pc_backoff_multiplier c
      \<and> as_secs_f64 (pc_max_interval c) * pc_backoff_multiplier c < 2 ^ 64)"

lemma increase_backoff_step:
  assumes "poller_ok p"
  shows "\<exists>p'. increase_backoff p = Some p' \<and> poller_ok p' \<and> tp_config p' = tp_config p
    \<and> tp_current_interval p \<le> tp_current_interval p'
    \<and> (1 \<le> (pc_backoff_multiplier (tp_config p) - 1) * of_nat (tp_current_interval p) \<longrightarrow>
        Suc (tp_current_interval p) \<le> tp_current_interval p'
        \<or> tp_current_interval p' = pc_max_interval (tp_config p))"
proof -
  let ?c = "tp_config p" and ?d = "tp_current_interval p"
  have "(of_nat ?d :: f64) \<le> of_nat (pc_max_interval ?c)"
    using assms by (simp add: poller_ok_def Let_def)
  then have "as_secs_f64 ?d * pc_backoff_multiplier ?c
      \<le> as_secs_f64 (pc_max_interval ?c) * pc_backoff_multiplier ?c"
    using assms by (intro mult_right_mono) (auto simp: as_secs_f64_def poller_ok_def Let_def)
  from le_less_trans [OF this] assms have "from_secs_f64 (as_secs_f64 ?d * pc_backoff_multiplier ?c)
      = Some (nat (round_half_even (of_nat ?d * pc_backoff_multiplier ?c)))"
    by (intro scaled_duration) (auto simp: poller_ok_def Let_def)
  with assms scaled_grows [of "pc_backoff_multiplier ?c" ?d] show ?thesis
    by (auto simp: increase_backoff_def poller_ok_def Let_def min_def)
qed

text \<open>A duration between two others, and the bounds this gives to the computed intervals.\<close>

lemma between_durations:
  assumes "as_secs_f64 a \<le> x" and "x \<le> as_secs_f64 b" and "as_secs_f64 b < 2 ^ 64"
  shows "\<exists>d. from_secs_f64 x = Some d \<and> a \<le> d \<and> d \<le> b"
proof -
  have x: "0 \<le> x" using assms(1) order_trans [of 0 "as_secs_f64 a" x] by (simp add: as_secs_f64_def)
  have "of_int (int a) \<le> x * 10 ^ 9" "x * 10 ^ 9 \<le> of_int (int b)"
    using assms(1,2) by (simp_all add: as_secs_f64_def field_simps)
  from round_half_even_of_int [OF this(1)] round_half_even_upper [OF this(2)] x assms(2,3)
  show ?thesis by (auto simp: from_secs_f64_def not_less)
qed

lemma optimal_interval_bounds:
  assumes "pc_min_interval c \<le> pc_max_interval c" and "0 < pc_batch_size c"
    and "as_secs_f64 (pc_max_interval c) < 2 ^ 64" and "ap_config a = c"
  shows "\<exists>d. optimal_interval a = Some d \<and> pc_min_interval c \<le> d \<and> d \<le> pc_max_interval c"
proof (cases "ap_recent_task_counts a = [] \<or> 8 / 10 * of_nat (pc_batch_size c) < average_tasks_per_poll a
    \<or> average_tasks_per_poll a < 2 / 10 * of_nat (pc_batch_size c)")
  case True
  with assms show ?thesis by (auto simp: optimal_interval_def Let_def)
next
  case False
  define q where "q = (1 - average_tasks_per_poll a / of_nat (pc_batch_size c)) * (5 / 10)"
  define range where "range = as_secs_f64 (pc_max_interval c) - as_secs_f64 (pc_min_interval c)"
  have q: "0 \<le> q" "q \<le> 1" using False assms(2) by (auto simp: q_def field_simps)
  have "0 \<le> range" using assms(1) by (simp add: range_def as_secs_f64_def divide_right_mono)
  with q have "0 \<le> q * range" "q * range \<le> range" by (auto intro: mult_left_le_one_le)
  then have "\<exists>d. from_secs_f64 (as_secs_f64 (pc_min_interval c) + q * range) = Some d
      \<and> pc_min_interval c \<le> d \<and> d \<le> pc_max_interval c"
    using assms(3) by (intro between_durations) (auto simp: range_def)
  moreover have "optimal_interval a = from_secs_f64 (as_secs_f64 (pc_min_interval c) + q * range)"
    using False assms(2,4) by (simp add: optimal_interval_def Let_def q_def range_def mult.commute mult.left_commute)
  ultimately show ?thesis by simp
qed

lemma jittered_interval_bounds:
  assumes "0 < base" and "0 \<le> j" and "as_secs_f64 base * j < 2 ^ 64"
    and "\<And>lo hi. lo < hi \<Longrightarrow> lo \<le> rng lo hi \<and> rng lo hi < hi"
  shows "\<exists>d. jittered_interval rng base j = Some d \<and> base \<le> d"
proof -
  have "0 < as_secs_f64 base * j \<or> j = 0" using assms(1,2) by (auto simp: as_secs_f64_def)
  then show ?thesis
    using assms(3) assms(4) [of 0 "as_secs_f64 base * j"] assms(2)
    by (auto simp: jittered_interval_def from_secs_f64_def Let_def)
qed

text \<open>Successive polls, one per clock reading.\<close>

fun poll_seq ::
  "timestamp list \<Rightarrow> nat \<Rightarrow> task_poller \<Rightarrow> store \<Rightarrow> task_poller option \<times> store" where
  "poll_seq [] max_tasks p st = (Some p, st)"
| "poll_seq (now # nows) max_tasks p st =
     (case poll now False max_tasks p st of
        ((_, Some p'), st') \<Rightarrow> poll_seq nows max_tasks p' st'
      | ((_, None), st') \<Rightarrow> (None, st'))"

definition idle_for :: "string list \<Rightarrow> store \<Rightarrow> bool" where
  "idle_for tys st \<longleftrightarrow> list_all (\<lambda>(_, t). \<not> claimable tys t) (tasks st)"

lemma claim_task_idle:
  assumes "idle_for tys st"
  shows "claim_task now w tys n st = (Inr [], st)"
proof -
  have "claim_loop now w tys n es [] = (es, [])" if "list_all (\<lambda>(_, t). \<not> claimable tys t) es" for es
    using that by (induction es) auto
  with assms show ?thesis by (simp add: claim_task_def idle_for_def)
qed

lemma claim_task_length:
  assumes "claim_task now w tys n st = (Inr ts, st')"
  shows "length ts \<le> n"
proof -
  have "ts = snd (claim_loop now w tys n (tasks st) [])"
    using assms by (auto simp: claim_task_def case_prod_beta)
  then show ?thesis by (simp add: claim_loop_claimed claim_picks_def)
qed

lemma poll_step:
  assumes "poller_ok p" and "poll now False mx p st = ((Inr ts, r), st')"
  shows "\<exists>p'. r = Some p' \<and> poller_ok p' \<and> tp_config p' = tp_config p
    \<and> tp_worker_id p' = tp_worker_id p \<and> tp_activity_types p' = tp_activity_types p
    \<and> (if ts = [] then tp_current_interval p \<le> tp_current_interval p'
       else tp_current_interval p' = pc_min_interval (tp_config p))"
  using assms increase_backoff_step [OF assms(1)]
  by (auto simp: poll_def reset_backoff_def poller_ok_def increase_backoff_def Let_def
      split: prod.splits sum.splits if_splits)

lemma idle_polls_grow:
  assumes "poller_ok p" and "idle_for (tp_activity_types p) st"
    and "1 \<le> (pc_backoff_multiplier (tp_config p) - 1) * of_nat (pc_min_interval (tp_config p))"
  shows "\<exists>p'. poll_seq nows mx p st = (Some p', st) \<and> tp_current_interval p' \<le> pc_max_interval (tp_config p)
    \<and> min (pc_max_interval (tp_config p)) (tp_current_interval p + length nows) \<le> tp_current_interval p'"
  using assms
proof (induction nows arbitrary: p)
  case Nil
  then show ?case by (simp add: poller_ok_def Let_def)
next
  case (Cons now nows)
  let ?m = "pc_backoff_multiplier (tp_config p) - 1"
  have "?m * of_nat (pc_min_interval (tp_config p)) \<le> ?m * of_nat (tp_current_interval p)"
    using Cons.prems(1) by (intro mult_left_mono) (auto simp: poller_ok_def Let_def)
  with Cons.prems(3) have m: "1 \<le> ?m * of_nat (tp_current_interval p)" by linarith
  obtain p1 where p1: "increase_backoff p = Some p1" "poller_ok p1" "tp_config p1 = tp_config p"
    "tp_current_interval p \<le> tp_current_interval p1"
    "Suc (tp_current_interval p) \<le> tp_current_interval p1 \<or> tp_current_interval p1 = pc_max_interval (tp_config p)"
    using increase_backoff_step [OF Cons.prems(1)] m by blast
  have "tp_activity_types p1 = tp_activity_types p"
    using p1(1) by (auto simp: increase_backoff_def)
  with Cons.IH [of p1] Cons.prems p1 obtain p' where
    "poll_seq nows mx p1 st = (Some p', st)" "tp_current_interval p' \<le> pc_max_interval (tp_config p)"
    "min (pc_max_interval (tp_config p)) (tp_current_interval p1 + length nows) \<le> tp_current_interval p'"
    by auto
  with p1 Cons.prems(2) show ?case by (auto simp: poll_def claim_task_idle Let_def)
qed

section \<open>Properties\<close>

text \<open>
  Polling adapts within its bounds: a poll claims at most the batch size and what the caller
  asks for, resets the interval to the minimum when it finds tasks, lengthens it otherwise, never
  beyond the maximum and without panicking; and an idle queue brings the interval to the maximum,
  whatever the rounding of the backoff, after at most as many polls as there are nanoseconds
  between the interval and the maximum, provided the multiplier adds at least a nanosecond to the
  minimum. The store is not changed by idle polls.
\<close>

theorem poll_backoff:
  assumes "poller_ok p"
    and "1 \<le> (pc_backoff_multiplier (tp_config p) - 1) * of_nat (pc_min_interval (tp_config p))"
  shows "(\<forall>ts r st'. poll now False mx p st = ((Inr ts, r), st') \<longrightarrow>
      length ts \<le> min mx (pc_batch_size (tp_config p))
      \<and> (\<exists>p'. r = Some p' \<and> poller_ok p' \<and> tp_config p' = tp_config p
          \<and> (if ts = [] then tp_current_interval p \<le> tp_current_interval p'
             else tp_current_interval p' = pc_min_interval (tp_config p))))
    \<and> (idle_for (tp_activity_types p) st \<longrightarrow>
        pc_max_interval (tp_config p) \<le> tp_current_interval p + length nows \<longrightarrow>
        (\<exists>p'. poll_seq nows mx p st = (Some p', st)
            \<and> tp_current_interval p' = pc_max_interval (tp_config p)))"
proof (intro conjI allI impI)
  fix ts r st'
  assume a: "poll now False mx p st = ((Inr ts, r), st')"
  then show "length ts \<le> min mx (pc_batch_size (tp_config p))"
    by (auto simp: poll_def Let_def dest: claim_task_length split: prod.splits sum.splits)
  show "\<exists>p'. r = Some p' \<and> poller_ok p' \<and> tp_config p' = tp_config p
      \<and> (if ts = [] then tp_current_interval p \<le> tp_current_interval p'
         else tp_current_interval p' = pc_min_interval (tp_config p))"
    using poll_step [OF assms(1) a] by blast
next
  assume "idle_for (tp_activity_types p) st"
    and "pc_max_interval (tp_config p) \<le> tp_current_interval p + length nows"
  with idle_polls_grow [OF assms(1) _ assms(2), of st nows mx] show
    "\<exists>p'. poll_seq nows mx p st = (Some p', st) \<and> tp_current_interval p' = pc_max_interval (tp_config p)"
    by auto
qed

theorem poll_backoff_witness:
  "let p = poller_new ''w'' [''act''] \<lparr>pc_min_interval = 4, pc_max_interval = 6,
       pc_backoff_multiplier = 15 / 10, pc_batch_size = 10, pc_jitter_factor = 0\<rparr>
   in \<exists>p'. poll_seq [0, 1] 3 p (store_new None) = (Some p', store_new None)
     \<and> tp_current_interval p' = 6"
proof -
  let ?p = "poller_new ''w'' [''act''] \<lparr>pc_min_interval = 4, pc_max_interval = 6,
       pc_backoff_multiplier = 15 / 10, pc_batch_size = 10, pc_jitter_factor = 0\<rparr>"
  have "poller_ok ?p" by (simp add: poller_ok_def poller_new_def as_secs_f64_def)
  moreover have "idle_for [''act''] (store_new None)" by (simp add: idle_for_def store_new_def)
  ultimately show ?thesis
    using poll_backoff [of ?p 0 3 "store_new None" "[0, 1]"]
    by (simp add: poller_new_def Let_def del: poll_seq.simps)
qed

end
