(* ===== verification/Pool.thy ===== *)
theory Pool
  imports Reclaim_Loop Backpressure Poller Observe
begin

text \<open>
  The worker pool (\<open>worker/pool.rs\<close>): configuration, start and shutdown, and the loops it runs
  (polling, heartbeat, resource monitor, reclamation) together with the tasks it spawns, as steps
  that interleave. The poll loop claims a batch and hands its tasks out one by one; a spawned task
  runs its handler, reports to the store, lowers the load and gives its permit back, in this order.
  A handler answers \<open>Ok\<close>, \<open>Err\<close> or panics (\<open>None\<close>). Sleeping and logging have no effect.
\<close>

section \<open>Configuration\<close>

record worker_pool_config =
  wp_worker_id :: string
  wp_worker_group :: string
  wp_activity_types :: "string list"
  wp_max_concurrency :: nat
  wp_backpressure :: backpressure_config
  wp_poller :: poller_config
  wp_heartbeat_interval :: duration
  wp_stale_reclaim_interval :: duration
  wp_stale_threshold :: duration
  wp_shutdown_timeout :: duration
  wp_resource_monitor_interval :: duration

text \<open>The default worker identifier contains a fresh UUID, which is an argument here.\<close>

definition pool_config_default :: "string \<Rightarrow> worker_pool_config" where
  "pool_config_default worker_id =
     \<lparr>wp_worker_id = worker_id, wp_worker_group = ''default'', wp_activity_types = [],
      wp_max_concurrency = 1000, wp_backpressure = backpressure_config_default,
      wp_poller = poller_config_default, wp_heartbeat_interval = from_secs 5,
      wp_stale_reclaim_interval = from_secs 30, wp_stale_threshold = from_secs 60,
      wp_shutdown_timeout = from_secs 30, wp_resource_monitor_interval = from_secs 2\<rparr>"

definition pool_config_new :: "string \<Rightarrow> string list \<Rightarrow> worker_pool_config" where
  "pool_config_new worker_id activity_types =
     (pool_config_default worker_id)\<lparr>wp_activity_types := activity_types\<rparr>"

definition with_worker_id :: "string \<Rightarrow> worker_pool_config \<Rightarrow> worker_pool_config" where
  "with_worker_id i c = c\<lparr>wp_worker_id := i\<rparr>"

definition with_worker_group :: "string \<Rightarrow> worker_pool_config \<Rightarrow> worker_pool_config" where
  "with_worker_group g c = c\<lparr>wp_worker_group := g\<rparr>"

definition with_backpressure :: "backpressure_config \<Rightarrow> worker_pool_config \<Rightarrow> worker_pool_config" where
  "with_backpressure b c = c\<lparr>wp_backpressure := b\<rparr>"

definition with_poller :: "poller_config \<Rightarrow> worker_pool_config \<Rightarrow> worker_pool_config" where
  "with_poller pc c = c\<lparr>wp_poller := pc\<rparr>"

definition with_heartbeat_interval :: "duration \<Rightarrow> worker_pool_config \<Rightarrow> worker_pool_config" where
  "with_heartbeat_interval d c = c\<lparr>wp_heartbeat_interval := d\<rparr>"

definition with_shutdown_timeout :: "duration \<Rightarrow> worker_pool_config \<Rightarrow> worker_pool_config" where
  "with_shutdown_timeout d c = c\<lparr>wp_shutdown_timeout := d\<rparr>"

definition with_max_concurrency :: "nat \<Rightarrow> worker_pool_config \<Rightarrow> worker_pool_config" where
  "with_max_concurrency n c = c\<lparr>wp_max_concurrency := max n 1\<rparr>"

datatype worker_pool_status = PoolStarting | PoolRunning | PoolDraining | PoolStopped

datatype worker_pool_error =
    WStore store_error
  | WPoller poller_error
  | TaskExecution string
  | AlreadyRunning
  | NotRunning
  | ShutdownTimeout
  | HandlerNotFound string

type_synonym activity_handler = "claimed_task \<Rightarrow> (string + json) option"

section \<open>State\<close>

text \<open>
  A spawned task, by what it has still to do: run the handler and report, lower the load, drop
  its permit.
\<close>

datatype spawn_phase = Executing | Reported | Released

record spawned =
  sp_task :: claimed_task
  sp_handler :: activity_handler
  sp_phase :: spawn_phase

text \<open>
  The pool with its shared parts. \<open>po_poller\<close> is the poll loop's poller while the loop runs,
  \<open>po_loop_handlers\<close> the handlers it cloned when it started, \<open>po_batch\<close> the claimed tasks it has not
  looked at yet. \<open>po_panicked\<close> is no variable of the program: it counts the spawned tasks that
  ended in a panic.
\<close>

record worker_pool =
  po_store :: store
  po_config :: worker_pool_config
  po_backpressure :: backpressure_state
  po_handlers :: "(string, activity_handler) hmap"
  po_shutdown :: bool
  po_status :: worker_pool_status
  po_permits :: nat
  po_capacity :: capacity_snapshot
  po_poller :: "task_poller option"
  po_loop_handlers :: "(string, activity_handler) hmap"
  po_batch :: "claimed_task list"
  po_spawned :: "spawned list"
  po_panicked :: nat

definition pool_new :: "store \<Rightarrow> worker_pool_config \<Rightarrow> worker_pool" where
  "pool_new st config =
     \<lparr>po_store = st, po_config = config,
      po_backpressure = backpressure_new (wp_backpressure config) (wp_max_concurrency config),
      po_handlers = [], po_shutdown = False, po_status = PoolStopped,
      po_permits = wp_max_concurrency config,
      po_capacity = \<lparr>cap_total_available = 0, cap_active_workers = 0\<rparr>,
      po_poller = None, po_loop_handlers = [], po_batch = [], po_spawned = [], po_panicked = 0\<rparr>"

definition register_handler :: "string \<Rightarrow> activity_handler \<Rightarrow> worker_pool \<Rightarrow> worker_pool" where
  "register_handler activity_type h p = p\<lparr>po_handlers := hm_insert activity_type h (po_handlers p)\<rparr>"

section \<open>Start and shutdown\<close>

definition own_worker_info :: "timestamp \<Rightarrow> worker_pool_config \<Rightarrow> worker_info" where
  "own_worker_info now c =
     \<lparr>wk_id = wp_worker_id c, wk_worker_group = Some (wp_worker_group c),
      wk_activity_types = wp_activity_types c, wk_max_concurrency = as_u32 (wp_max_concurrency c),
      wk_current_load = 0, wk_status = ''active'', wk_accepting_tasks = True,
      wk_backpressure_reason = None, wk_started_at = now, wk_last_heartbeat_at = now,
      wk_hostname = None, wk_version = None, wk_metadata = None, wk_tasks_completed = 0,
      wk_tasks_failed = 0, wk_avg_task_duration_ms = None\<rparr>"

definition start_poll_loop :: "worker_pool \<Rightarrow> worker_pool" where
  "start_poll_loop p =
     (let c = po_config p in
      p\<lparr>po_poller := Some (poller_new (wp_worker_id c) (wp_activity_types c) (wp_poller c)),
        po_loop_handlers := po_handlers p\<rparr>)"

definition refresh_capacity :: "timestamp \<Rightarrow> worker_pool \<Rightarrow> worker_pool" where
  "refresh_capacity now p =
     (case get_capacity_snapshot now (po_store p) of
        (Inr snap, st) \<Rightarrow> p\<lparr>po_store := st, po_capacity := snap\<rparr>
      | (Inl e, st) \<Rightarrow> p\<lparr>po_store := st\<rparr>)"

definition start_pool :: "timestamp \<Rightarrow> (worker_pool, worker_pool_error, unit) op" where
  "start_pool now p =
     (if po_status p = PoolRunning then (Inl AlreadyRunning, p)
      else
        case register_worker (own_worker_info now (po_config p)) (po_store p) of
          (Inl e, st) \<Rightarrow> (Inl (WStore e), p\<lparr>po_store := st\<rparr>)
        | (Inr _, st) \<Rightarrow>
            (Inr (), start_poll_loop ((refresh_capacity now (p\<lparr>po_store := st\<rparr>))\<lparr>po_status := PoolRunning\<rparr>)))"

text \<open>
  \<open>shutdown\<close> signals, then looks at the permits every 100 ms until all are back or the deadline
  has passed; the looks are separate steps. \<open>expired\<close> says whether the deadline has passed.
\<close>

definition begin_shutdown :: "worker_pool \<Rightarrow> worker_pool" where
  "begin_shutdown p =
     (if po_status p = PoolStopped then p else p\<lparr>po_status := PoolDraining, po_shutdown := True\<rparr>)"

definition shutdown_check :: "bool \<Rightarrow> worker_pool \<Rightarrow> (worker_pool_error + unit) option \<times> worker_pool" where
  "shutdown_check expired p =
     (if po_permits p = wp_max_concurrency (po_config p) then
        (case deregister_worker (wp_worker_id (po_config p)) (po_store p) of
           (Inl e, st) \<Rightarrow> (Some (Inl (WStore e)), p\<lparr>po_store := st\<rparr>)
         | (Inr _, st) \<Rightarrow> (Some (Inr ()), p\<lparr>po_store := st, po_status := PoolStopped\<rparr>))
      else if expired then (Some (Inl ShutdownTimeout), p)
      else (None, p))"

definition pool_is_accepting :: "worker_pool \<Rightarrow> bool" where
  "pool_is_accepting p \<longleftrightarrow> is_accepting (po_backpressure p) \<and> po_status p = PoolRunning"

section \<open>The poll loop\<close>

text \<open>\<open>share.ceil() as usize\<close> of exact rationals.\<close>

definition fair_share_claim_limit :: "nat \<Rightarrow> u32 \<Rightarrow> u32 \<Rightarrow> nat" where
  "fair_share_claim_limit my_available total_available active_workers =
     (if active_workers \<le> 1 \<or> total_available = 0 then my_available
      else
        let share = (of_nat my_available / of_nat (unat total_available)) * of_nat my_available :: f64
        in max (nat \<lceil>share\<rceil>) 1)"

text \<open>One pass of the loop up to the batch it claims; a panic of the poller ends the loop.\<close>

definition poll_iteration :: "timestamp \<Rightarrow> worker_pool \<Rightarrow> worker_pool" where
  "poll_iteration now p =
     (case po_poller p of
        None \<Rightarrow> p
      | Some poller \<Rightarrow>
          if po_shutdown p then p\<lparr>po_poller := None\<rparr>
          else
            let (accept, bp) = should_accept (po_backpressure p); p = p\<lparr>po_backpressure := bp\<rparr> in
            if \<not> accept \<or> available_slots bp = 0 then p
            else
              let claim_limit = fair_share_claim_limit (available_slots bp)
                    (cap_total_available (po_capacity p)) (cap_active_workers (po_capacity p))
              in case poll now (po_shutdown p) claim_limit poller (po_store p) of
                   ((Inr ts, poller'), st) \<Rightarrow> p\<lparr>po_store := st, po_poller := poller', po_batch := ts\<rparr>
                 | ((Inl e, poller'), st) \<Rightarrow> p\<lparr>po_store := st, po_poller := poller'\<rparr>)"

text \<open>
  The next task of the batch: skipped without a handler, the whole rest dropped without a permit,
  spawned otherwise.
\<close>

definition dispatch_next :: "worker_pool \<Rightarrow> worker_pool" where
  "dispatch_next p =
     (case po_batch p of
        [] \<Rightarrow> p
      | t # ts \<Rightarrow>
          (case hm_get (po_loop_handlers p) (ct_activity_type t) of
             None \<Rightarrow> p\<lparr>po_batch := ts\<rparr>
           | Some h \<Rightarrow>
               if po_permits p = 0 then p\<lparr>po_batch := []\<rparr>
               else p\<lparr>po_batch := ts, po_permits := po_permits p - 1,
                      po_backpressure := task_started (po_backpressure p),
                      po_spawned := po_spawned p @ [\<lparr>sp_task = t, sp_handler = h, sp_phase = Executing\<rparr>]\<rparr>))"

text \<open>\<open>poller.wait()\<close>: the loop ends on shutdown; an empty jitter range panics.\<close>

definition loop_wait :: "(f64 \<Rightarrow> f64 \<Rightarrow> f64) \<Rightarrow> worker_pool \<Rightarrow> worker_pool" where
  "loop_wait rng p =
     (case po_poller p of
        None \<Rightarrow> p
      | Some poller \<Rightarrow>
          if poller_wait rng poller = None \<or> po_shutdown p then p\<lparr>po_poller := None\<rparr> else p)"

section \<open>Spawned tasks\<close>

definition remove_nth :: "nat \<Rightarrow> 'a list \<Rightarrow> 'a list" where
  "remove_nth i xs = take i xs @ drop (Suc i) xs"

text \<open>The panic of a task unwinds it: its permit is given back, its load is not.\<close>

definition unwind_task :: "nat \<Rightarrow> worker_pool \<Rightarrow> worker_pool" where
  "unwind_task i p =
     p\<lparr>po_permits := po_permits p + 1, po_spawned := remove_nth i (po_spawned p),
       po_panicked := po_panicked p + 1\<rparr>"

definition set_phase :: "nat \<Rightarrow> spawn_phase \<Rightarrow> worker_pool \<Rightarrow> worker_pool" where
  "set_phase i ph p = p\<lparr>po_spawned := (po_spawned p)[i := (po_spawned p ! i)\<lparr>sp_phase := ph\<rparr>]\<rparr>"

definition finish_handler :: "(f64 \<Rightarrow> f64 \<Rightarrow> f64) \<Rightarrow> nat \<Rightarrow> worker_pool \<Rightarrow> worker_pool" where
  "finish_handler rng i p =
     (let s = po_spawned p ! i; task_id = ct_id (sp_task s) in
      case sp_handler s (sp_task s) of
        None \<Rightarrow> unwind_task i p
      | Some (Inr output) \<Rightarrow>
          set_phase i Reported (p\<lparr>po_store :=
            ignore_op (complete_task task_id (wp_worker_id (po_config p)) output) (po_store p)\<rparr>)
      | Some (Inl error) \<Rightarrow>
          (case fail_task rng task_id error (po_store p) of
             (Inr None, st) \<Rightarrow> unwind_task i (p\<lparr>po_store := st\<rparr>)
           | (_, st) \<Rightarrow> set_phase i Reported (p\<lparr>po_store := st\<rparr>)))"

definition release_load :: "nat \<Rightarrow> worker_pool \<Rightarrow> worker_pool" where
  "release_load i p =
     set_phase i Released (p\<lparr>po_backpressure := task_completed (po_backpressure p)\<rparr>)"

definition drop_permit :: "nat \<Rightarrow> worker_pool \<Rightarrow> worker_pool" where
  "drop_permit i p = p\<lparr>po_permits := po_permits p + 1, po_spawned := remove_nth i (po_spawned p)\<rparr>"

section \<open>Heartbeat, resources, reclamation\<close>

definition heartbeat_tick :: "timestamp \<Rightarrow> timestamp \<Rightarrow> worker_pool \<Rightarrow> worker_pool" where
  "heartbeat_tick now now' p =
     (let bp = po_backpressure p;
          accepting = (is_accepting bp \<and> \<not> is_resource_pressured bp)
      in refresh_capacity now' (p\<lparr>po_store :=
           ignore_op (worker_heartbeat now (wp_worker_id (po_config p)) (bp_current_load bp) accepting)
             (po_store p)\<rparr>))"

definition resource_tick :: "resource_metrics option \<Rightarrow> worker_pool \<Rightarrow> worker_pool" where
  "resource_tick sample p =
     (case sample of
        None \<Rightarrow> p
      | Some m \<Rightarrow> p\<lparr>po_backpressure := update_resources m (po_backpressure p)\<rparr>)"

definition pool_reclaim_tick ::
  "store neighbours \<Rightarrow> string option \<Rightarrow> timestamp \<Rightarrow> worker_pool \<Rightarrow> worker_pool" where
  "pool_reclaim_tick nb env now p =
     p\<lparr>po_store := reclaim_tick nb env now (wp_stale_threshold (po_config p)) (po_store p)\<rparr>"

section \<open>Runs\<close>

definition start_beside :: "timestamp \<Rightarrow> worker_pool \<Rightarrow> worker_pool" where
  "start_beside now p =
     (snd (start_pool now p))\<lparr>po_poller := po_poller p, po_loop_handlers := po_loop_handlers p, po_batch := po_batch p\<rparr>"

text \<open>
  Any interleaving of the loops, the spawned tasks, the owner of the pool and the other clients of
  the store. The poll loop claims again only after it has handed out its batch. A pool that is started
  again while its former poll loop still hands out a batch keeps that loop; the new loop ends before
  its first claim, since the shutdown signal stays set. The owner starts the pool once at a time.
\<close>

inductive pool_step :: "worker_pool \<Rightarrow> worker_pool \<Rightarrow> bool" where
  Start: "po_poller p = None \<Longrightarrow> po_batch p = [] \<Longrightarrow> pool_step p (snd (start_pool now p))"
| StartBeside: "po_shutdown p \<Longrightarrow> pool_step p (start_beside now p)"
| Register: "pool_step p (register_handler ty h p)"
| Poll: "po_batch p = [] \<Longrightarrow> pool_step p (poll_iteration now p)"
| Dispatch: "pool_step p (dispatch_next p)"
| Wait: "po_batch p = [] \<Longrightarrow> pool_step p (loop_wait rng p)"
| Finish: "i < length (po_spawned p) \<Longrightarrow> sp_phase (po_spawned p ! i) = Executing
    \<Longrightarrow> pool_step p (finish_handler rng i p)"
| Release: "i < length (po_spawned p) \<Longrightarrow> sp_phase (po_spawned p ! i) = Reported
    \<Longrightarrow> pool_step p (release_load i p)"
| Drop: "i < length (po_spawned p) \<Longrightarrow> sp_phase (po_spawned p ! i) = Released
    \<Longrightarrow> pool_step p (drop_permit i p)"
| Heartbeat: "pool_step p (heartbeat_tick now now' p)"
| Resources: "pool_step p (resource_tick sample p)"
| Reclaim: "pool_step p (pool_reclaim_tick nb env now p)"
| Signal: "pool_step p (begin_shutdown p)"
| Check: "po_status p = PoolDraining \<Longrightarrow> pool_step p (snd (shutdown_check expired p))"
| Others: "pool_step p (p\<lparr>po_store := st\<rparr>)"

section \<open>Invariant\<close>

text \<open>The tasks that still count as load.\<close>

definition active :: "spawned list \<Rightarrow> nat" where
  "active ss = length (filter (\<lambda>s. sp_phase s \<noteq> Released) ss)"

definition pool_inv :: "worker_pool_config \<Rightarrow> worker_pool \<Rightarrow> bool" where
  "pool_inv cfg p \<longleftrightarrow>
     po_config p = cfg
     \<and> po_permits p + length (po_spawned p) = wp_max_concurrency cfg
     \<and> bp_max_concurrency (po_backpressure p) = wp_max_concurrency cfg
     \<and> bp_config (po_backpressure p) = wp_backpressure cfg
     \<and> bp_current_load (po_backpressure p) = (active (po_spawned p) + po_panicked p) mod 2 ^ 64"

text \<open>The parts of the pool the invariant speaks of.\<close>

definition same_load :: "worker_pool \<Rightarrow> worker_pool \<Rightarrow> bool" where
  "same_load p q \<longleftrightarrow>
     po_config q = po_config p \<and> po_permits q = po_permits p \<and> po_spawned q = po_spawned p
     \<and> po_panicked q = po_panicked p
     \<and> bp_max_concurrency (po_backpressure q) = bp_max_concurrency (po_backpressure p)
     \<and> bp_config (po_backpressure q) = bp_config (po_backpressure p)
     \<and> bp_current_load (po_backpressure q) = bp_current_load (po_backpressure p)"

lemma same_load_inv: "same_load p q \<Longrightarrow> pool_inv cfg p \<Longrightarrow> pool_inv cfg q"
  by (simp add: same_load_def pool_inv_def)

lemma should_accept_frame:
  assumes "should_accept s = (b, s')"
  shows "bp_max_concurrency s' = bp_max_concurrency s \<and> bp_config s' = bp_config s
    \<and> bp_current_load s' = bp_current_load s"
  using assms
  by (auto simp: should_accept_def check_resource_pressure_def check_memory_def check_cpu_def
      release_pressure_def Let_def split: option.splits if_splits prod.splits)

lemma refresh_same [simp]: "same_load p (refresh_capacity now p)"
  by (auto simp: refresh_capacity_def same_load_def split: prod.splits sum.splits)

lemma start_same: "same_load p (snd (start_pool now p))"
proof -
  have "same_load q (start_poll_loop ((refresh_capacity now q)\<lparr>po_status := s\<rparr>))" for q s
    using refresh_same [of q now] by (simp add: same_load_def start_poll_loop_def Let_def)
  from this [of "p\<lparr>po_store := st\<rparr>" for st] show ?thesis
    by (auto simp: start_pool_def same_load_def split: prod.splits sum.splits)
qed

lemma start_beside_same: "same_load p (start_beside now p)"
  using start_same [of p now] by (simp add: start_beside_def same_load_def)

lemma poll_same: "same_load p (poll_iteration now p)"
proof -
  obtain b bp where a: "should_accept (po_backpressure p) = (b, bp)" by fastforce
  show ?thesis
  proof (cases "po_poller p")
    case None
    then show ?thesis by (simp add: poll_iteration_def same_load_def)
  next
    case (Some poller)
    obtain r poller' st where
      "poll now False (fair_share_claim_limit (available_slots bp)
        (cap_total_available (po_capacity p)) (cap_active_workers (po_capacity p))) poller (po_store p)
        = ((r, poller'), st)" by (metis prod.collapse)
    with Some should_accept_frame [OF a] show ?thesis
      by (cases r) (simp_all add: poll_iteration_def same_load_def a Let_def)
  qed
qed

lemma heartbeat_same: "same_load p (heartbeat_tick now now' p)"
proof -
  have "same_load (p\<lparr>po_store := st\<rparr>) (refresh_capacity now' (p\<lparr>po_store := st\<rparr>))" for st by simp
  then show ?thesis by (simp add: heartbeat_tick_def same_load_def Let_def)
qed

lemma quiet_steps_same:
  "same_load p (register_handler ty h p)" "same_load p (loop_wait rng p)"
  "same_load p (resource_tick sample p)" "same_load p (pool_reclaim_tick nb env now p)"
  "same_load p (begin_shutdown p)" "same_load p (snd (shutdown_check expired p))"
  "same_load p (p\<lparr>po_store := st\<rparr>)"
  by (auto simp: register_handler_def loop_wait_def resource_tick_def pool_reclaim_tick_def
      begin_shutdown_def shutdown_check_def update_resources_def same_load_def
      split: option.splits prod.splits sum.splits)

lemmas same_load_steps = start_same start_beside_same poll_same heartbeat_same quiet_steps_same

lemma active_simps [simp]:
  "active [] = 0" "active (s # ss) = (if sp_phase s \<noteq> Released then Suc (active ss) else active ss)"
  "active (xs @ ys) = active xs + active ys"
  by (simp_all add: active_def)

lemma active_le: "active ss \<le> length ss"
  by (simp add: active_def)

lemma length_remove_nth: "i < length xs \<Longrightarrow> Suc (length (remove_nth i xs)) = length xs"
  by (simp add: remove_nth_def)

lemma active_remove_nth:
  assumes "i < length xs"
  shows "active xs = active (remove_nth i xs) + (if sp_phase (xs ! i) \<noteq> Released then 1 else 0)"
proof -
  have "active xs = active (take i xs @ xs ! i # drop (Suc i) xs)" using assms by (simp add: id_take_nth_drop [symmetric])
  then show ?thesis by (simp add: remove_nth_def)
qed

lemma active_update:
  assumes "i < length xs"
  shows "active (xs[i := s]) + (if sp_phase (xs ! i) \<noteq> Released then 1 else 0)
    = active xs + (if sp_phase s \<noteq> Released then 1 else 0)"
proof -
  have "active (xs[i := s]) = active (take i xs @ s # drop (Suc i) xs)"
    using assms by (simp add: upd_conv_take_nth_drop)
  with active_remove_nth [OF assms] show ?thesis by (simp add: remove_nth_def)
qed

lemma dispatch_inv: "pool_inv cfg p \<Longrightarrow> pool_inv cfg (dispatch_next p)"
  by (auto simp: pool_inv_def dispatch_next_def task_started_def mod_Suc_eq split: list.splits option.splits)

lemma unwind_inv:
  assumes "pool_inv cfg p" and "i < length (po_spawned p)" and "sp_phase (po_spawned p ! i) \<noteq> Released"
  shows "pool_inv cfg (unwind_task i p)"
  using assms length_remove_nth [OF assms(2)] active_remove_nth [OF assms(2)]
  by (auto simp: pool_inv_def unwind_task_def)

lemma set_phase_inv:
  assumes "pool_inv cfg p" and "i < length (po_spawned p)" and "sp_phase (po_spawned p ! i) \<noteq> Released"
    and "ph \<noteq> Released"
  shows "pool_inv cfg (set_phase i ph p)"
  using assms active_update [OF assms(2), of "(po_spawned p ! i)\<lparr>sp_phase := ph\<rparr>"]
  by (auto simp: pool_inv_def set_phase_def)

lemma store_inv: "pool_inv cfg p \<Longrightarrow> pool_inv cfg (p\<lparr>po_store := st\<rparr>)"
  by (simp add: pool_inv_def)

lemma finish_inv:
  assumes "pool_inv cfg p" and "i < length (po_spawned p)" and "sp_phase (po_spawned p ! i) = Executing"
  shows "pool_inv cfg (finish_handler rng i p)"
  using assms store_inv [OF assms(1)]
  by (auto simp: finish_handler_def Let_def intro!: unwind_inv set_phase_inv
      split: option.splits sum.splits prod.splits)

lemma release_inv:
  assumes "pool_inv cfg p" and "i < length (po_spawned p)" and "sp_phase (po_spawned p ! i) = Reported"
  shows "pool_inv cfg (release_load i p)"
proof -
  let ?ss = "po_spawned p" and ?k = "po_panicked p"
  have a: "active ?ss = Suc (active (?ss[i := (?ss ! i)\<lparr>sp_phase := Released\<rparr>]))"
    using active_update [OF assms(2), of "(?ss ! i)\<lparr>sp_phase := Released\<rparr>"] assms(3) by simp
  have "nat ((int ((Suc n + ?k) mod 2 ^ 64) - 1) mod 2 ^ 64) = (n + ?k) mod 2 ^ 64" for n
  proof -
    have "(int ((Suc n + ?k) mod 2 ^ 64) - 1) mod 2 ^ 64 = (int (Suc n + ?k) - 1) mod 2 ^ 64"
      unfolding zmod_int by (simp add: mod_diff_left_eq)
    also have "\<dots> = int ((n + ?k) mod 2 ^ 64)" by (simp add: zmod_int)
    finally show ?thesis by simp
  qed
  with assms(1) a show ?thesis
    by (simp add: pool_inv_def release_load_def set_phase_def task_completed_def)
qed

lemma drop_inv:
  assumes "pool_inv cfg p" and "i < length (po_spawned p)" and "sp_phase (po_spawned p ! i) = Released"
  shows "pool_inv cfg (drop_permit i p)"
  using assms length_remove_nth [OF assms(2)] active_remove_nth [OF assms(2)]
  by (auto simp: pool_inv_def drop_permit_def)

lemma pool_step_inv: "pool_step p q \<Longrightarrow> pool_inv cfg p \<Longrightarrow> pool_inv cfg q"
  by (induction rule: pool_step.induct)
    (auto intro: same_load_inv same_load_steps dispatch_inv finish_inv release_inv drop_inv)

interpretation pool_runs: step_system "\<lambda>p. \<exists>st. p = pool_new st cfg" pool_step "pool_inv cfg" for cfg
proof unfold_locales
  fix p assume "\<exists>st. p = pool_new st cfg"
  then show "pool_inv cfg p" by (auto simp: pool_new_def pool_inv_def backpressure_new_def)
qed (rule pool_step_inv)

section \<open>Panics\<close>

lemma unwind_panicked [simp]: "po_panicked (unwind_task i p) = Suc (po_panicked p)"
  by (simp add: unwind_task_def)

lemma set_phase_panicked [simp]: "po_panicked (set_phase i ph p) = po_panicked p"
  by (simp add: set_phase_def)

lemma finish_panicked: "po_panicked p \<le> po_panicked (finish_handler rng i p)"
  by (auto simp: finish_handler_def Let_def split: option.splits sum.splits prod.splits)

lemma pool_step_panicked: "pool_step p q \<Longrightarrow> po_panicked p \<le> po_panicked q"
proof (induction rule: pool_step.induct)
  case (Dispatch p)
  then show ?case by (auto simp: dispatch_next_def split: list.splits option.splits)
next
  case (Finish i p rng)
  then show ?case by (simp add: finish_panicked)
qed (use same_load_steps in \<open>auto simp: same_load_def release_load_def drop_permit_def\<close>)

lemma pool_run_panicked: "pool_step\<^sup>*\<^sup>* p q \<Longrightarrow> po_panicked p \<le> po_panicked q"
  by (induction rule: rtranclp_induct) (auto dest: pool_step_panicked)

text \<open>A load at the high watermark is refused in every mode of the switch.\<close>

lemma should_accept_overloaded:
  assumes "validate (bp_config s) = Inr ()" and "high_watermark (bp_config s) \<le> load_ratio s"
  shows "\<not> fst (should_accept s)"
proof -
  obtain b s1 where c: "check_resource_pressure s = (b, s1)" by fastforce
  then have "bp_config s1 = bp_config s" "load_ratio s1 = load_ratio s"
    by (auto simp: check_resource_pressure_def check_memory_def check_cpu_def release_pressure_def
        load_ratio_def Let_def split: option.splits if_splits)
  with c assms show ?thesis by (auto simp: should_accept_def validate_def split: if_splits)
qed

lemma panicked_overload:
  assumes "pool_inv cfg p" and "validate (wp_backpressure cfg) = Inr ()"
    and "high_watermark (wp_backpressure cfg) * of_nat (max (wp_max_concurrency cfg) 1) \<le> of_nat (po_panicked p)"
    and "po_panicked p + wp_max_concurrency cfg < 2 ^ 64"
  shows "\<not> fst (should_accept (po_backpressure p))"
proof (rule should_accept_overloaded)
  let ?n = "wp_max_concurrency cfg" and ?bp = "po_backpressure p"
  have "active (po_spawned p) \<le> ?n" using assms(1) active_le [of "po_spawned p"] by (simp add: pool_inv_def)
  with assms(1,4) have "po_panicked p \<le> bp_current_load ?bp" by (simp add: pool_inv_def)
  then have "(of_nat (po_panicked p) :: f64) \<le> of_nat (bp_current_load ?bp)" by simp
  with assms(3) have "high_watermark (wp_backpressure cfg) * of_nat (max ?n 1) \<le> of_nat (bp_current_load ?bp)"
    by (rule order_trans)
  moreover have "(0 :: f64) < of_nat (max ?n 1)" by simp
  ultimately show "high_watermark (bp_config ?bp) \<le> load_ratio ?bp"
    using assms(1) by (simp add: pool_inv_def load_ratio_def pos_le_divide_eq)
  show "validate (bp_config ?bp) = Inr ()" using assms(1,2) by (simp add: pool_inv_def)
qed

lemma refused_poll:
  assumes "\<not> fst (should_accept (po_backpressure p))"
  shows "po_store (poll_iteration now p) = po_store p \<and> po_batch (poll_iteration now p) = po_batch p"
  using assms by (auto simp: poll_iteration_def Let_def split: option.splits prod.splits)

section \<open>Examples\<close>

text \<open>A pool of one slot whose only handler panics, and a queue with one task for it.\<close>

definition demo_config :: worker_pool_config where
  "demo_config = (pool_config_new ''w'' [''act''])\<lparr>wp_max_concurrency := 1\<rparr>"

definition demo_claimed :: worker_pool where
  "demo_claimed =
     poll_iteration 0 (snd (start_pool 0 (register_handler ''act'' (\<lambda>_. None)
       (pool_new (sample_queue [(1, new_task 0 (sample_definition None))]) demo_config))))"

lemmas demo_start =
  register_handler_def pool_new_def start_pool_def register_worker_def refresh_capacity_def
  get_capacity_snapshot_def start_poll_loop_def Let_def

lemmas demo_poll =
  poll_iteration_def should_accept_def check_resource_pressure_def load_ratio_def available_slots_def
  fair_share_claim_limit_def poll_def poller_new_def claim_task_def claimable_def
  claimed_of_def mark_claimed_def

lemmas demo_data =
  demo_config_def pool_config_new_def pool_config_default_def backpressure_config_default_def
  backpressure_new_def poller_config_default_def sample_queue_def sample_definition_def new_task_def
  own_worker_info_def hm_insert_def hm_values_def hm_get_def heartbeat_threshold_def
  max_attempts_of_def activity_options_default_def retry_exponential_def
  store_new_def from_secs_def WORKER_HEARTBEAT_TIMEOUT_SECS_def

lemma demo_claimed_run:
  "pool_step\<^sup>*\<^sup>* (pool_new (sample_queue [(1, new_task 0 (sample_definition None))]) demo_config) demo_claimed"
proof -
  let ?p0 = "pool_new (sample_queue [(1, new_task 0 (sample_definition None))]) demo_config"
  let ?p1 = "register_handler ''act'' (\<lambda>_. None) ?p0"
  have "pool_step ?p0 ?p1" by (rule Register)
  moreover have "pool_step ?p1 (snd (start_pool 0 ?p1))"
    by (rule Start) (simp_all add: register_handler_def pool_new_def)
  moreover have "pool_step (snd (start_pool 0 ?p1)) demo_claimed"
    unfolding demo_claimed_def by (rule Poll) (simp add: demo_start)
  ultimately show ?thesis by (blast intro: converse_rtranclp_into_rtranclp)
qed

lemma demo_claimed_fields:
  "po_permits demo_claimed = 1" "po_status demo_claimed = PoolRunning" "po_spawned demo_claimed = []"
  "po_panicked demo_claimed = 0" "po_config demo_claimed = demo_config"
  "hm_get (po_loop_handlers demo_claimed) ''act'' = Some (\<lambda>_. None)"
  "\<exists>t. po_batch demo_claimed = [t] \<and> ct_activity_type t = ''act''"
  by (simp_all add: demo_claimed_def demo_start demo_poll demo_data)

text \<open>The task of the demo pool is handed out, and its handler panics.\<close>

lemma demo_dispatched:
  "\<exists>t. dispatch_next demo_claimed = demo_claimed\<lparr>po_batch := [], po_permits := 0,
     po_backpressure := task_started (po_backpressure demo_claimed),
     po_spawned := [\<lparr>sp_task = t, sp_handler = (\<lambda>_. None), sp_phase = Executing\<rparr>]\<rparr>"
  using demo_claimed_fields by (auto simp: dispatch_next_def)

lemma demo_panicked:
  "\<exists>p. pool_step\<^sup>*\<^sup>* (pool_new (sample_queue [(1, new_task 0 (sample_definition None))]) demo_config) p
    \<and> po_panicked p = 1"
proof -
  obtain t where d: "dispatch_next demo_claimed = demo_claimed\<lparr>po_batch := [], po_permits := 0,
     po_backpressure := task_started (po_backpressure demo_claimed),
     po_spawned := [\<lparr>sp_task = t, sp_handler = (\<lambda>_. None), sp_phase = Executing\<rparr>]\<rparr>"
    using demo_dispatched by blast
  let ?p = "finish_handler (\<lambda>_ _. 0) 0 (dispatch_next demo_claimed)"
  have "pool_step demo_claimed (dispatch_next demo_claimed)" by (rule Dispatch)
  moreover have "pool_step (dispatch_next demo_claimed) ?p" by (rule Finish) (simp_all add: d)
  moreover have "po_panicked ?p = 1" using demo_claimed_fields(4) by (simp add: finish_handler_def d)
  ultimately show ?thesis
    using demo_claimed_run by (meson rtranclp.rtrancl_into_rtrancl)
qed

text \<open>
  \<open>shutdown\<close> can return while the poll loop still holds claimed tasks: it sees all permits and
  reports the pool stopped, and the loop hands a task out afterwards.
\<close>

lemma shutdown_leaves_task:
  "\<exists>st p. pool_step\<^sup>*\<^sup>* (pool_new st demo_config) p \<and> po_status p = PoolStopped \<and> po_spawned p \<noteq> []"
proof -
  let ?p1 = "begin_shutdown demo_claimed"
  let ?p2 = "snd (shutdown_check False ?p1)"
  have "pool_step demo_claimed ?p1" by (rule Signal)
  moreover have "pool_step ?p1 ?p2"
    by (rule Check) (simp add: begin_shutdown_def demo_claimed_fields)
  moreover have "pool_step ?p2 (dispatch_next ?p2)" by (rule Dispatch)
  moreover have "po_status (dispatch_next ?p2) = PoolStopped \<and> po_spawned (dispatch_next ?p2) \<noteq> []"
    using demo_claimed_fields
    by (auto simp: dispatch_next_def shutdown_check_def begin_shutdown_def deregister_worker_def demo_config_def)
  ultimately show ?thesis
    using demo_claimed_run by (meson rtranclp.rtrancl_into_rtrancl)
qed

text \<open>
  A pool that was shut down and started again reports itself running, but its poll loop ends at
  once: the shutdown signal is never reset.
\<close>

lemma restart_never_polls:
  assumes "po_shutdown p" and "po_status p = PoolStopped" and "start_pool now p = (r, p')"
  shows "r = Inr () \<and> po_status p' = PoolRunning
    \<and> po_poller (poll_iteration now' p') = None \<and> po_store (poll_iteration now' p') = po_store p'"
  using assms
  by (auto simp: start_pool_def register_worker_def refresh_capacity_def get_capacity_snapshot_def
      start_poll_loop_def poll_iteration_def Let_def)

section \<open>Properties\<close>

text \<open>
  C40. Bounded concurrency: however the loops, the spawned tasks, the owner and other clients
  interleave, the permits in hand and the tasks in flight always make up the configured
  concurrency, so that no more tasks run than configured, and when the shutdown sees all permits
  back no task is in flight. The load that workers report and admission looks at is the number of
  tasks not yet released plus the number of handlers that have panicked so far.
\<close>

theorem pool_concurrency_bounded:
  assumes "pool_step\<^sup>*\<^sup>* (pool_new st cfg) p"
  shows "po_permits p + length (po_spawned p) = wp_max_concurrency cfg
    \<and> active (po_spawned p) \<le> wp_max_concurrency cfg
    \<and> (po_permits p = wp_max_concurrency cfg \<longrightarrow> po_spawned p = [])
    \<and> bp_current_load (po_backpressure p) = (active (po_spawned p) + po_panicked p) mod 2 ^ 64"
proof -
  have "pool_inv cfg p" using assms by (rule pool_runs.reachable_inv [rotated]) blast
  with active_le [of "po_spawned p"] show ?thesis by (auto simp: pool_inv_def)
qed

theorem pool_concurrency_bounded_witness:
  "\<exists>st p. pool_step\<^sup>*\<^sup>* (pool_new st demo_config) p \<and> length (po_spawned p) = 1 \<and> po_permits p = 0
    \<and> bp_current_load (po_backpressure p) = 1"
proof -
  have "pool_step demo_claimed (dispatch_next demo_claimed)" by (rule Dispatch)
  with demo_claimed_run have run: "pool_step\<^sup>*\<^sup>*
      (pool_new (sample_queue [(1, new_task 0 (sample_definition None))]) demo_config) (dispatch_next demo_claimed)"
    by (rule rtranclp.rtrancl_into_rtrancl)
  have "length (po_spawned (dispatch_next demo_claimed)) = 1" "po_permits (dispatch_next demo_claimed) = 0"
    "active (po_spawned (dispatch_next demo_claimed)) = 1" "po_panicked (dispatch_next demo_claimed) = 0"
    using demo_dispatched demo_claimed_fields(4) by auto
  with pool_concurrency_bounded [OF run] run show ?thesis by fastforce
qed

text \<open>
  A panic is never paid back: the permit of a panicking handler returns but its load does
  not, so that once as many handlers have panicked as the high watermark allows tasks, the worker
  refuses for good: no later poll claims anything or touches the store, although no task may be
  running.
\<close>

theorem panics_close_worker:
  assumes "pool_step\<^sup>*\<^sup>* (pool_new st cfg) p" and "validate (wp_backpressure cfg) = Inr ()"
    and "high_watermark (wp_backpressure cfg) * of_nat (max (wp_max_concurrency cfg) 1) \<le> of_nat (po_panicked p)"
    and "pool_step\<^sup>*\<^sup>* p p'" and "po_panicked p' + wp_max_concurrency cfg < 2 ^ 64"
  shows "po_store (poll_iteration now p') = po_store p' \<and> po_batch (poll_iteration now p') = po_batch p'"
proof (rule refused_poll)
  have "pool_inv cfg p'"
    using assms(1,4) by (meson pool_runs.reachable_inv rtranclp_trans)
  moreover have "(of_nat (po_panicked p) :: f64) \<le> of_nat (po_panicked p')"
    using pool_run_panicked [OF assms(4)] by simp
  ultimately show "\<not> fst (should_accept (po_backpressure p'))"
    using assms by (intro panicked_overload [of cfg]) auto
qed

theorem panics_close_worker_witness:
  "\<exists>p. po_panicked p = 1 \<and> po_store (poll_iteration 5 p) = po_store p"
proof -
  obtain p where p: "pool_step\<^sup>*\<^sup>* (pool_new (sample_queue [(1, new_task 0 (sample_definition None))]) demo_config) p"
    "po_panicked p = 1" using demo_panicked by blast
  have "validate (wp_backpressure demo_config) = Inr ()"
    "high_watermark (wp_backpressure demo_config) * of_nat (max (wp_max_concurrency demo_config) 1)
      \<le> of_nat (po_panicked p)"
    "po_panicked p + wp_max_concurrency demo_config < 2 ^ 64"
    by (simp_all add: p(2) validate_def demo_config_def pool_config_new_def pool_config_default_def
        backpressure_config_default_def)
  from panics_close_worker [OF p(1) this(1,2) rtranclp.rtrancl_refl this(3), of 5] p(2) show ?thesis by blast
qed

end
