(* ===== verification/Text.thy ===== *)
theory Text
  imports Prelude "HOL-Library.Sublist"
begin

text \<open>
  The parts of Rust's \<open>str\<close> and \<open>Option\<close> that the core crates use. A character of HOL stands for a
  Unicode scalar value below 256; lower-casing is the ASCII one, as hosts and identifiers are.
\<close>

section \<open>Options\<close>

definition option_or :: "'a option \<Rightarrow> 'a option \<Rightarrow> 'a option" where
  "option_or a b = (case a of Some x \<Rightarrow> Some x | None \<Rightarrow> b)"

definition get_or :: "'a \<Rightarrow> 'a option \<Rightarrow> 'a" where
  "get_or d a = (case a of Some x \<Rightarrow> x | None \<Rightarrow> d)"

text \<open>The \<open>?\<close> operator on a result without state.\<close>

definition bind_result :: "'e + 'a \<Rightarrow> ('a \<Rightarrow> 'e + 'b) \<Rightarrow> 'e + 'b" where
  "bind_result r f = (case r of Inl e \<Rightarrow> Inl e | Inr x \<Rightarrow> f x)"

text \<open>\<open>collect\<close> into a \<open>Result\<close>: the first error wins.\<close>

fun collect_results :: "('e + 'a) list \<Rightarrow> 'e + 'a list" where
  "collect_results [] = Inr []"
| "collect_results (x # xs) = bind_result x (\<lambda>a. map_sum id ((#) a) (collect_results xs))"

lemma bind_result_Inr: "bind_result r f = Inr y \<longleftrightarrow> (\<exists>x. r = Inr x \<and> f x = Inr y)"
  by (cases r) (simp_all add: bind_result_def)

lemma map_sum_Inr: "map_sum f g r = Inr y \<longleftrightarrow> (\<exists>x. r = Inr x \<and> y = g x)"
  by (cases r) auto

lemma option_or_simps [simp]: "option_or (Some x) b = Some x" "option_or None b = b" "option_or a None = a"
  by (simp_all add: option_or_def split: option.split)

lemma get_or_simps [simp]: "get_or d (Some x) = x" "get_or d None = d"
  by (simp_all add: get_or_def)

lemma option_or_eq_None [simp]: "option_or a b = None \<longleftrightarrow> a = None \<and> b = None"
  by (cases a) simp_all

section \<open>Strings\<close>

definition lower_char :: "char \<Rightarrow> char" where
  "lower_char c = (let n = of_char c :: nat in if 65 \<le> n \<and> n \<le> 90 then char_of (n + 32) else c)"

definition to_ascii_lowercase :: "string \<Rightarrow> string" where
  "to_ascii_lowercase s = map lower_char s"

definition is_whitespace :: "char \<Rightarrow> bool" where
  "is_whitespace c \<longleftrightarrow>
     (let n = of_char c :: nat in 9 \<le> n \<and> n \<le> 13 \<or> n = 32 \<or> n = 133 \<or> n = 160)"

definition trim_start :: "string \<Rightarrow> string" where
  "trim_start s = dropWhile is_whitespace s"

definition trim_end :: "string \<Rightarrow> string" where
  "trim_end s = rev (dropWhile is_whitespace (rev s))"

definition trim :: "string \<Rightarrow> string" where
  "trim s = trim_end (trim_start s)"

definition strip_prefix :: "string \<Rightarrow> string \<Rightarrow> string option" where
  "strip_prefix p s = (if prefix p s then Some (drop (length p) s) else None)"

definition trim_start_matches :: "char \<Rightarrow> string \<Rightarrow> string" where
  "trim_start_matches c s = dropWhile (\<lambda>x. x = c) s"

definition trim_end_matches :: "char \<Rightarrow> string \<Rightarrow> string" where
  "trim_end_matches c s = rev (dropWhile (\<lambda>x. x = c) (rev s))"

fun join_text :: "string \<Rightarrow> string list \<Rightarrow> string" where
  "join_text sep [] = []"
| "join_text sep [x] = x"
| "join_text sep (x # y # xs) = x @ sep @ join_text sep (y # xs)"

fun split_text :: "char \<Rightarrow> string \<Rightarrow> string list" where
  "split_text c [] = [[]]"
| "split_text c (x # xs) =
     (if x = c then [] # split_text c xs
      else case split_text c xs of y # ys \<Rightarrow> (x # y) # ys | [] \<Rightarrow> [[x]])"

text \<open>\<open>str::split_once\<close>.\<close>

fun split_once :: "string \<Rightarrow> string \<Rightarrow> (string \<times> string) option" where
  "split_once sep [] = (if sep = [] then Some ([], []) else None)"
| "split_once sep (c # s) =
     (case strip_prefix sep (c # s) of
        Some rest \<Rightarrow> Some ([], rest)
      | None \<Rightarrow> map_option (\<lambda>(a, b). (c # a, b)) (split_once sep s))"

text \<open>\<open>str::parse\<close> into an unsigned integer of \<open>w\<close> bits: digits behind an optional plus sign.\<close>

definition is_ascii_digit :: "char \<Rightarrow> bool" where
  "is_ascii_digit c \<longleftrightarrow> 48 \<le> (of_char c :: nat) \<and> (of_char c :: nat) \<le> 57"

definition digits_value :: "string \<Rightarrow> nat" where
  "digits_value ds = foldl (\<lambda>n c. 10 * n + (of_char c - 48)) 0 ds"

definition parse_unsigned :: "nat \<Rightarrow> string \<Rightarrow> nat option" where
  "parse_unsigned w s =
     (let ds = (if prefix ''+'' s then tl s else s) in
      if ds \<noteq> [] \<and> list_all is_ascii_digit ds \<and> digits_value ds < 2 ^ w then Some (digits_value ds) else None)"

text \<open>\<open>str::replace\<close>.\<close>

fun replace_text :: "string \<Rightarrow> string \<Rightarrow> string \<Rightarrow> string" where
  "replace_text pat rep [] = []"
| "replace_text pat rep (c # s) =
     (if pat \<noteq> [] \<and> prefix pat (c # s) then rep @ replace_text pat rep (drop (length pat - 1) s)
      else c # replace_text pat rep s)"

text \<open>\<open>str::lines\<close>: a line ends at a newline, with a carriage return before it if there is one.\<close>

definition strip_cr :: "string \<Rightarrow> string" where
  "strip_cr l = (if l \<noteq> [] \<and> last l = CHR 0x0D then butlast l else l)"

definition lines_text :: "string \<Rightarrow> string list" where
  "lines_text s =
     (let parts = split_text CHR 0x0A s in
      map strip_cr (butlast parts) @ (if last parts = [] then [] else [last parts]))"

text \<open>\<open>str::len\<close>: a character from 128 on takes two bytes in UTF-8.\<close>

definition char_len :: "char \<Rightarrow> nat" where
  "char_len c = (if (of_char c :: nat) < 128 then 1 else 2)"

definition utf8_len :: "string \<Rightarrow> nat" where
  "utf8_len s = sum_list (map char_len s)"

section \<open>Lemmas\<close>

lemma to_ascii_lowercase_append [simp]:
  "to_ascii_lowercase (a @ b) = to_ascii_lowercase a @ to_ascii_lowercase b"
  by (simp add: to_ascii_lowercase_def)

lemma to_ascii_lowercase_Nil [simp]: "to_ascii_lowercase [] = []"
  by (simp add: to_ascii_lowercase_def)

lemma lower_char_code:
  "(of_char (lower_char c) :: nat) =
    (if 65 \<le> (of_char c :: nat) \<and> (of_char c :: nat) \<le> 90 then of_char c + 32 else of_char c)"
  by (auto simp: lower_char_def Let_def)

lemma lower_char_idem [simp]: "lower_char (lower_char c) = lower_char c"
proof -
  have "(of_char (lower_char (lower_char c)) :: nat) = of_char (lower_char c)" by (simp add: lower_char_code)
  then show ?thesis by (simp only: of_char_eq_iff)
qed

lemma to_ascii_lowercase_idem [simp]: "to_ascii_lowercase (to_ascii_lowercase s) = to_ascii_lowercase s"
  by (simp add: to_ascii_lowercase_def)

text \<open>Punctuation is not changed, and nothing else becomes punctuation.\<close>

lemma lower_char_below:
  assumes "(of_char d :: nat) < 65"
  shows "lower_char c = d \<longleftrightarrow> c = d"
proof -
  have "lower_char c = d \<longleftrightarrow> (of_char (lower_char c) :: nat) = of_char d" by (simp only: of_char_eq_iff)
  also have "\<dots> \<longleftrightarrow> (of_char c :: nat) = of_char d"
    using assms by (auto simp only: lower_char_code split: if_splits)
  finally show ?thesis by (simp only: of_char_eq_iff)
qed

text \<open>A number reads back from its decimal form.\<close>

lemma digits_value_snoc: "digits_value (ds @ [c]) = 10 * digits_value ds + (of_char c - 48)"
  by (simp add: digits_value_def)

lemma digits_show_nat: "show_nat n \<noteq> [] \<and> list_all is_ascii_digit (show_nat n) \<and> digits_value (show_nat n) = n"
proof (induction n rule: show_nat.induct)
  case (1 n)
  have digit: "is_ascii_digit (char_of (48 + d))" "(of_char (char_of (48 + d) :: char) :: nat) - 48 = d" if "d < 10" for d :: nat
    using that by (simp_all add: is_ascii_digit_def)
  show ?case
  proof (cases "n < 10")
    case True
    then show ?thesis using digit by (subst (1 2 3) show_nat.simps) (simp add: digits_value_def)
  next
    case False
    then show ?thesis using 1 digit [of "n mod 10"] by (subst (1 2 3) show_nat.simps) (simp add: digits_value_snoc)
  qed
qed

lemma parse_show_nat: "n < 2 ^ w \<Longrightarrow> parse_unsigned w (show_nat n) = Some n"
proof -
  assume n: "n < 2 ^ w"
  have "is_ascii_digit (hd (show_nat n))" using digits_show_nat [of n] by (cases "show_nat n") simp_all
  then have "\<not> prefix ''+'' (show_nat n)" by (cases "show_nat n") (auto simp: is_ascii_digit_def)
  then show ?thesis using n digits_show_nat [of n] by (simp add: parse_unsigned_def)
qed

lemma strip_prefix_Some: "strip_prefix p s = Some r \<longleftrightarrow> s = p @ r"
  by (auto simp: strip_prefix_def prefix_def)

lemma split_once_fresh: "c \<notin> set xs \<Longrightarrow> split_once [c] (xs @ c # rest) = Some (xs, rest)"
  by (induction xs) (auto simp: strip_prefix_def)

lemma strip_prefix_None: "strip_prefix p s = None \<longleftrightarrow> \<not> prefix p s"
  by (simp add: strip_prefix_def)

lemma strip_prefix_simps [simp]:
  "strip_prefix [] s = Some s" "strip_prefix (a # p) [] = None"
  "strip_prefix (a # p) (b # s) = (if a = b then strip_prefix p s else None)"
  by (simp_all add: strip_prefix_def)

lemma trim_id: "s = [] \<or> \<not> is_whitespace (hd s) \<and> \<not> is_whitespace (last s) \<Longrightarrow> trim s = s"
proof (cases s rule: rev_cases)
  case (snoc ys y)
  assume "s = [] \<or> \<not> is_whitespace (hd s) \<and> \<not> is_whitespace (last s)"
  with snoc have "\<not> is_whitespace (hd s)" "\<not> is_whitespace y" by simp_all
  with snoc show ?thesis by (cases ys) (simp_all add: trim_def trim_start_def trim_end_def)
qed (simp add: trim_def trim_start_def trim_end_def)

lemma trim_trim [simp]: "trim (trim s) = trim s"
proof (rule trim_id)
  have hd: "\<not> is_whitespace (hd (trim_start r))" if "trim_start r \<noteq> []" for r
    using that hd_dropWhile unfolding trim_start_def by blast
  have start: "t = [] \<or> \<not> is_whitespace (hd t)" if "prefix t (trim_start s)" for t
    using that hd [of s] by (cases t) (auto simp: prefix_def)
  have "prefix (trim s) (trim_start s)"
    by (metis suffix_dropWhile suffix_to_prefix rev_rev_ident trim_def trim_end_def)
  moreover have "trim s = [] \<or> \<not> is_whitespace (last (trim s))"
    using hd [of "rev (trim_start s)"] by (auto simp: trim_def trim_end_def last_rev trim_start_def)
  ultimately show "trim s = [] \<or> \<not> is_whitespace (hd (trim s)) \<and> \<not> is_whitespace (last (trim s))"
    using start by blast
qed

lemma join_text_Cons: "xs \<noteq> [] \<Longrightarrow> join_text sep (x # xs) = x @ sep @ join_text sep xs"
  by (cases xs) simp_all

lemma split_text_nonempty [simp]: "split_text c s \<noteq> []"
  by (induction s) (auto split: list.split)

end
