(* ===== verification/Turn.thy ===== *)
theory Turn
  imports Workflow_Types Text
begin

text \<open>
  The turn engine (\<open>crates/engine/src/turn.rs\<close>, \<open>machine.rs\<close>) and its durable driver
  (\<open>crates/durable/src/execution.rs\<close>): a pure planner decides after every phase of a turn (input,
  reason, act) what comes next and which lifecycle effects the host must perform. Tool calls, tool
  definitions and network access lists are carried and never looked into: they are JSON values.
  The classification of provider errors (\<open>classify_runtime_error_message\<close>) and fresh identifiers
  are parameters.
\<close>

section \<open>Data\<close>

text \<open>\<open>u32::saturating_add\<close>.\<close>

definition saturating_add_u32 :: "u32 \<Rightarrow> u32 \<Rightarrow> u32" where
  "saturating_add_u32 a b = (if unat a + unat b < 2 ^ 32 then a + b else - 1)"

record token_usage =
  tu_input_tokens :: u32
  tu_output_tokens :: u32
  tu_cache_read_tokens :: "u32 option"
  tu_cache_creation_tokens :: "u32 option"
  tu_actual_cost_usd :: "f64 option"
  tu_estimated_cost_usd :: "f64 option"
  tu_effective_cost_usd :: "f64 option"

definition effective_cost :: "token_usage \<Rightarrow> f64 option" where
  "effective_cost u =
     option_or (tu_effective_cost_usd u) (option_or (tu_actual_cost_usd u) (tu_estimated_cost_usd u))"

definition usage_add :: "token_usage \<Rightarrow> token_usage \<Rightarrow> token_usage" where
  "usage_add self other =
     \<lparr>tu_input_tokens = saturating_add_u32 (tu_input_tokens self) (tu_input_tokens other),
      tu_output_tokens = saturating_add_u32 (tu_output_tokens self) (tu_output_tokens other),
      tu_cache_read_tokens =
        (case tu_cache_read_tokens other of
           Some c \<Rightarrow> Some (saturating_add_u32 (get_or 0 (tu_cache_read_tokens self)) c)
         | None \<Rightarrow> tu_cache_read_tokens self),
      tu_cache_creation_tokens =
        (case tu_cache_creation_tokens other of
           Some c \<Rightarrow> Some (saturating_add_u32 (get_or 0 (tu_cache_creation_tokens self)) c)
         | None \<Rightarrow> tu_cache_creation_tokens self),
      tu_actual_cost_usd =
        (case tu_actual_cost_usd other of
           Some c \<Rightarrow> Some (get_or 0 (tu_actual_cost_usd self) + c)
         | None \<Rightarrow> tu_actual_cost_usd self),
      tu_estimated_cost_usd =
        (case tu_estimated_cost_usd other of
           Some c \<Rightarrow> Some (get_or 0 (tu_estimated_cost_usd self) + c)
         | None \<Rightarrow> tu_estimated_cost_usd self),
      tu_effective_cost_usd =
        (case effective_cost other of
           Some c \<Rightarrow> Some (get_or (get_or 0 (effective_cost self)) (tu_effective_cost_usd self) + c)
         | None \<Rightarrow> tu_effective_cost_usd self)\<rparr>"

datatype turn_stop_reason = EndTurn | MaxTokens | MaxTurnRequests | Refusal | StopError | Cancelled

definition from_provider_finish_reason :: "string option \<Rightarrow> turn_stop_reason" where
  "from_provider_finish_reason reason =
     (case map_option to_ascii_lowercase reason of
        None \<Rightarrow> EndTurn
      | Some r \<Rightarrow>
          if r \<in> {''length'', ''max_tokens'', ''max_output_tokens''} then MaxTokens
          else if r \<in> {''refusal'', ''content_filter'', ''safety''} then Refusal
          else if r = ''error'' then StopError
          else if r \<in> {''cancelled'', ''canceled''} then Cancelled
          else EndTurn)"

record turn_state =
  ts_org_id :: int
  ts_session_id :: uuid
  ts_harness_id :: uuid
  ts_agent_id :: "uuid option"
  ts_input_message_id :: uuid
  ts_turn_id :: "uuid option"
  ts_previous_response_id :: "string option"
  ts_iteration :: u32
  ts_request_id :: "string option"
  ts_started_at :: "timestamp option"
  ts_cumulative_usage :: "token_usage option"
  ts_tool_call_count :: u32
  ts_llm_call_count :: u32
  ts_time_to_first_token_ms :: "nat option"
  ts_final_message_id :: "uuid option"
  ts_final_answer_preview :: "string option"

record user_facing_error =
  ue_code :: string
  ue_fields :: "(string \<times> json) list"

datatype error_disclosure = DiscloseGeneric | DiscloseStandard | DiscloseDetailed

record native_execution_counts =
  nc_llm_calls :: u32
  nc_tool_calls :: u32

record reason_result =
  rr_native_counts :: "native_execution_counts option"
  rr_success :: bool
  rr_text :: string
  rr_tool_calls :: "json list"
  rr_has_tool_calls :: bool
  rr_tool_definitions :: "json list"
  rr_max_iterations :: nat
  rr_error :: "string option"
  rr_user_facing_error :: "user_facing_error option"
  rr_error_disclosure :: "error_disclosure option"
  rr_usage :: "token_usage option"
  rr_output_message_id :: "uuid option"
  rr_time_to_first_token_ms :: "nat option"
  rr_response_id :: "string option"
  rr_finish_reason :: "string option"
  rr_locale :: "string option"
  rr_network_access :: "json option"
  rr_parallel_tool_calls :: "bool option"

record execution_context =
  ec_session_id :: uuid
  ec_turn_id :: uuid
  ec_input_message_id :: uuid
  ec_exec_id :: uuid
  ec_workspace_id :: "uuid option"

record act_input =
  ai_org_id :: "int option"
  ai_context :: execution_context
  ai_harness_id :: uuid
  ai_agent_id :: "uuid option"
  ai_tool_calls :: "json list"
  ai_tool_definitions :: "json list"
  ai_locale :: "string option"
  ai_blueprint_id :: "string option"
  ai_network_access :: "json option"
  ai_parallel_tool_calls :: "bool option"

record act_plan =
  ap_input :: act_input
  ap_previous_response_id :: "string option"
  ap_iteration :: u32
  ap_request_id :: "string option"
  ap_resume_state :: turn_state

datatype turn_plan =
    ScheduleReason turn_state
  | ScheduleAct act_plan
  | CompleteTurn turn_stop_reason "string option"
  | WaitForToolResults turn_state

record turn_completed_data =
  tc_turn_id :: uuid
  tc_iterations :: u32
  tc_duration_ms :: "nat option"
  tc_usage :: "token_usage option"
  tc_input_content :: "string option"
  tc_final_message_id :: "uuid option"
  tc_final_answer_preview :: "string option"
  tc_time_to_first_token_ms :: "nat option"
  tc_tool_call_count :: "u32 option"
  tc_llm_call_count :: "u32 option"
  tc_status :: "string option"

datatype turn_lifecycle_effect =
    TurnCompleted uuid turn_completed_data
  | SessionIdled uuid uuid "u32 option" "token_usage option"
  | TurnFailedWithDisclosure uuid uuid string "user_facing_error option" "error_disclosure option"
  | FireTurnEndHooks uuid "uuid option" uuid bool
  | WaitingForToolResults

record act_outcome =
  ao_blocked :: bool
  ao_waiting_for_tool_results :: bool
  ao_waiting_for_url_elicitation :: bool

record act_scheduling_facts =
  af_blueprint_id :: "string option"
  af_workspace_id :: "uuid option"

datatype activity_outcome =
    ProcessInput "uuid option"
  | Reason reason_result
  | Act act_outcome

record host_facts =
  hf_act_scheduling :: "act_scheduling_facts option"
  hf_setup_connection_hint_enabled :: bool
  hf_url_elicitation_hint_enabled :: bool

text \<open>Fresh identifiers and the error classifier of the provider crate.\<close>

record turn_env =
  tv_exec_id :: uuid
  tv_turn_id :: uuid
  tv_classify :: "string \<Rightarrow> user_facing_error"

section \<open>The planner\<close>

definition preview_final_answer :: "string \<Rightarrow> string option" where
  "preview_final_answer t = (if t = [] then None else Some (take 2000 t))"

definition add_usage :: "token_usage option \<Rightarrow> token_usage \<Rightarrow> token_usage option" where
  "add_usage current next_usage =
     (case current of Some c \<Rightarrow> Some (usage_add c next_usage) | None \<Rightarrow> Some next_usage)"

definition with_reason_summary :: "reason_result \<Rightarrow> turn_state \<Rightarrow> turn_state" where
  "with_reason_summary rr s =
     s\<lparr>ts_llm_call_count := saturating_add_u32 (ts_llm_call_count s)
         (case rr_native_counts rr of Some c \<Rightarrow> nc_llm_calls c | None \<Rightarrow> 1),
       ts_tool_call_count := saturating_add_u32 (ts_tool_call_count s)
         (case rr_native_counts rr of Some c \<Rightarrow> nc_tool_calls c
          | None \<Rightarrow> as_u32 (length (rr_tool_calls rr))),
       ts_cumulative_usage :=
         (case rr_usage rr of Some u \<Rightarrow> add_usage (ts_cumulative_usage s) u
          | None \<Rightarrow> ts_cumulative_usage s),
       ts_time_to_first_token_ms :=
         (if ts_time_to_first_token_ms s = None then rr_time_to_first_token_ms rr
          else ts_time_to_first_token_ms s),
       ts_final_message_id := rr_output_message_id rr,
       ts_final_answer_preview := preview_final_answer (rr_text rr)\<rparr>"

text \<open>\<open>num_milliseconds\<close> truncates towards zero; a negative count has no \<open>u64\<close>.\<close>

definition duration_ms :: "timestamp \<Rightarrow> turn_state \<Rightarrow> nat option" where
  "duration_ms now s =
     (case ts_started_at s of
        None \<Rightarrow> None
      | Some t \<Rightarrow>
          let d = now - t; ms = (if d < 0 then - ((- d) div 10 ^ 6) else d div 10 ^ 6)
          in if ms < 0 then None else Some (nat ms))"

definition classify_reason_failure :: "turn_env \<Rightarrow> reason_result \<Rightarrow> user_facing_error" where
  "classify_reason_failure env rr =
     (case rr_user_facing_error rr of
        Some e \<Rightarrow> e
      | None \<Rightarrow>
          let from_text = tv_classify env (rr_text rr) in
          case rr_error rr of
            None \<Rightarrow> from_text
          | Some error \<Rightarrow>
              let from_error = tv_classify env error in
              if ue_code from_error = ''processing_error'' then from_text
              else if ue_code from_error = ue_code from_text \<and> ue_fields from_error = []
                \<and> ue_fields from_text \<noteq> [] then from_text
              else from_error)"

definition max_turn_requests_reached :: "turn_state \<Rightarrow> reason_result \<Rightarrow> bool" where
  "max_turn_requests_reached s rr \<longleftrightarrow> as_u32 (rr_max_iterations rr) \<le> ts_iteration s"

definition reason_schedules_act :: "turn_state \<Rightarrow> reason_result \<Rightarrow> bool" where
  "reason_schedules_act s rr \<longleftrightarrow>
     rr_has_tool_calls rr \<and> rr_success rr \<and> \<not> max_turn_requests_reached s rr"

definition plan_after_process_input :: "turn_state \<Rightarrow> uuid option \<Rightarrow> timestamp \<Rightarrow> turn_plan" where
  "plan_after_process_input s turn_id now =
     ScheduleReason (s\<lparr>ts_turn_id := turn_id, ts_previous_response_id := None, ts_iteration := 1,
       ts_started_at := option_or (ts_started_at s) (Some now)\<rparr>)"

definition act_plan_of ::
  "turn_env \<Rightarrow> turn_state \<Rightarrow> reason_result \<Rightarrow> act_scheduling_facts option \<Rightarrow> act_plan" where
  "act_plan_of env s rr act_scheduling =
     (let facts = get_or \<lparr>af_blueprint_id = None, af_workspace_id = None\<rparr> act_scheduling in
      \<lparr>ap_input =
         \<lparr>ai_org_id = Some (ts_org_id s),
          ai_context =
            \<lparr>ec_session_id = ts_session_id s, ec_turn_id = get_or (tv_turn_id env) (ts_turn_id s),
             ec_input_message_id = ts_input_message_id s, ec_exec_id = tv_exec_id env,
             ec_workspace_id = af_workspace_id facts\<rparr>,
          ai_harness_id = ts_harness_id s, ai_agent_id = ts_agent_id s,
          ai_tool_calls = rr_tool_calls rr, ai_tool_definitions = rr_tool_definitions rr,
          ai_locale = rr_locale rr, ai_blueprint_id = af_blueprint_id facts,
          ai_network_access = rr_network_access rr,
          ai_parallel_tool_calls = rr_parallel_tool_calls rr\<rparr>,
       ap_previous_response_id = rr_response_id rr, ap_iteration = ts_iteration s,
       ap_request_id = ts_request_id s, ap_resume_state = with_reason_summary rr s\<rparr>)"

text \<open>The effects and the stop reason of a terminal reason outcome.\<close>

definition terminal_effects ::
  "turn_env \<Rightarrow> timestamp \<Rightarrow> turn_state \<Rightarrow> reason_result \<Rightarrow> turn_lifecycle_effect list" where
  "terminal_effects env now s rr =
     (let summarized = with_reason_summary rr s; turn_id = get_or (tv_turn_id env) (ts_turn_id s) in
      (if rr_success rr then
         [TurnCompleted (ts_input_message_id s)
            \<lparr>tc_turn_id = turn_id, tc_iterations = ts_iteration s,
             tc_duration_ms = duration_ms now summarized, tc_usage = ts_cumulative_usage summarized,
             tc_input_content = None, tc_final_message_id = ts_final_message_id summarized,
             tc_final_answer_preview = ts_final_answer_preview summarized,
             tc_time_to_first_token_ms = ts_time_to_first_token_ms summarized,
             tc_tool_call_count = Some (ts_tool_call_count summarized),
             tc_llm_call_count = Some (ts_llm_call_count summarized), tc_status = Some ''completed''\<rparr>,
          SessionIdled turn_id (ts_input_message_id s) (Some (ts_iteration s))
            (ts_cumulative_usage summarized)]
       else
         [TurnFailedWithDisclosure turn_id (ts_input_message_id s) (rr_text rr)
            (Some (classify_reason_failure env rr)) (rr_error_disclosure rr)])
      @ [FireTurnEndHooks (ts_harness_id s) (ts_agent_id s) turn_id (rr_success rr)])"

definition reason_stop_reason :: "turn_state \<Rightarrow> reason_result \<Rightarrow> nat \<Rightarrow> turn_stop_reason" where
  "reason_stop_reason s rr pending =
     (if \<not> rr_success rr then
        (case from_provider_finish_reason (rr_finish_reason rr) of Refusal \<Rightarrow> Refusal | _ \<Rightarrow> StopError)
      else if max_turn_requests_reached s rr \<and> (rr_has_tool_calls rr \<or> 0 < pending) then MaxTurnRequests
      else from_provider_finish_reason (rr_finish_reason rr))"

definition plan_after_reason ::
  "turn_env \<Rightarrow> turn_state \<Rightarrow> reason_result \<Rightarrow> nat \<Rightarrow> timestamp \<Rightarrow> act_scheduling_facts option
     \<Rightarrow> turn_plan \<times> turn_lifecycle_effect list" where
  "plan_after_reason env s rr pending now act_scheduling =
     (if reason_schedules_act s rr then (ScheduleAct (act_plan_of env s rr act_scheduling), [])
      else if rr_success rr \<and> 0 < pending \<and> \<not> max_turn_requests_reached s rr then
        (ScheduleReason ((with_reason_summary rr s)\<lparr>ts_previous_response_id := rr_response_id rr,
           ts_iteration := saturating_add_u32 (ts_iteration s) 1\<rparr>), [])
      else
        (CompleteTurn (reason_stop_reason s rr pending) (rr_error rr), terminal_effects env now s rr))"

definition plan_after_act ::
  "turn_state \<Rightarrow> act_outcome \<Rightarrow> bool \<Rightarrow> bool \<Rightarrow> turn_plan \<times> turn_lifecycle_effect list" where
  "plan_after_act s out setup_hint url_hint =
     (if ao_blocked out then (CompleteTurn EndTurn None, [])
      else
        let pause = ao_waiting_for_tool_results out
              \<and> (setup_hint \<or> ao_waiting_for_url_elicitation out \<and> url_hint);
            next_state = s\<lparr>ts_iteration := saturating_add_u32 (ts_iteration s) 1\<rparr>
        in if pause then (WaitForToolResults next_state, [WaitingForToolResults])
           else (ScheduleReason next_state, []))"

definition plan_next_turn ::
  "turn_env \<Rightarrow> turn_state \<Rightarrow> activity_outcome \<Rightarrow> nat \<Rightarrow> timestamp \<Rightarrow> host_facts
     \<Rightarrow> turn_plan \<times> turn_lifecycle_effect list" where
  "plan_next_turn env s outcome pending now facts =
     (case outcome of
        ProcessInput turn_id \<Rightarrow> (plan_after_process_input s turn_id now, [])
      | Reason rr \<Rightarrow> plan_after_reason env s rr pending now (hf_act_scheduling facts)
      | Act out \<Rightarrow>
          plan_after_act s out (hf_setup_connection_hint_enabled facts)
            (hf_url_elicitation_hint_enabled facts))"

section \<open>The execution\<close>

record turn_execution =
  te_state :: turn_state

definition apply_plan :: "turn_plan \<Rightarrow> turn_execution \<Rightarrow> turn_execution" where
  "apply_plan plan ex =
     (case plan of
        ScheduleReason s \<Rightarrow> ex\<lparr>te_state := s\<rparr>
      | ScheduleAct p \<Rightarrow>
          ex\<lparr>te_state := (ap_resume_state p)\<lparr>ts_previous_response_id := ap_previous_response_id p,
               ts_iteration := ap_iteration p, ts_request_id := ap_request_id p\<rparr>\<rparr>
      | WaitForToolResults s \<Rightarrow> ex\<lparr>te_state := s\<rparr>
      | CompleteTurn _ _ \<Rightarrow> ex)"

definition advance ::
  "turn_env \<Rightarrow> activity_outcome \<Rightarrow> nat \<Rightarrow> timestamp \<Rightarrow> host_facts \<Rightarrow> turn_execution
     \<Rightarrow> (turn_plan \<times> turn_lifecycle_effect list) \<times> turn_execution" where
  "advance env outcome pending now facts ex =
     (let terminal_reason_state =
            (case outcome of Reason rr \<Rightarrow> Some (with_reason_summary rr (te_state ex)) | _ \<Rightarrow> None);
          (plan, effects) = plan_next_turn env (te_state ex) outcome pending now facts;
          ex = apply_plan plan ex;
          ex = (case (plan, terminal_reason_state) of
                  (CompleteTurn _ _, Some s) \<Rightarrow> ex\<lparr>te_state := s\<rparr>
                | _ \<Rightarrow> ex)
      in ((plan, effects), ex))"

text \<open>The durable driver wraps an execution and hands its state out as the checkpoint.\<close>

record durable_execution =
  de_inner :: turn_execution

definition durable_new :: "turn_state \<Rightarrow> durable_execution" where
  "durable_new s = \<lparr>de_inner = \<lparr>te_state = s\<rparr>\<rparr>"

definition checkpoint :: "durable_execution \<Rightarrow> turn_state" where
  "checkpoint d = te_state (de_inner d)"

definition durable_advance ::
  "turn_env \<Rightarrow> activity_outcome \<Rightarrow> nat \<Rightarrow> timestamp \<Rightarrow> host_facts \<Rightarrow> durable_execution
     \<Rightarrow> (turn_plan \<times> turn_lifecycle_effect list) \<times> durable_execution" where
  "durable_advance env outcome pending now facts d =
     (let (r, ex) = advance env outcome pending now facts (de_inner d) in (r, d\<lparr>de_inner := ex\<rparr>))"

section \<open>Turns of a durable host\<close>

text \<open>
  A durable host keeps the checkpoint between phases: it restores the execution, advances it by
  the outcome of the phase, performs the effects in order and persists the new checkpoint. Which
  phase comes next is what the plan says; a pause ends when tool results arrive.
\<close>

datatype turn_phase = AwaitInput | AwaitReason | AwaitAct | AwaitResults | TurnOver

record turn_run =
  tn_checkpoint :: turn_state
  tn_phase :: turn_phase
  tn_effects :: "turn_lifecycle_effect list"

fun phase_after :: "turn_plan \<Rightarrow> turn_phase" where
  "phase_after (ScheduleReason _) = AwaitReason"
| "phase_after (ScheduleAct _) = AwaitAct"
| "phase_after (WaitForToolResults _) = AwaitResults"
| "phase_after (CompleteTurn _ _) = TurnOver"

definition after_phase ::
  "turn_env \<Rightarrow> activity_outcome \<Rightarrow> nat \<Rightarrow> timestamp \<Rightarrow> host_facts \<Rightarrow> turn_run \<Rightarrow> turn_run" where
  "after_phase env outcome pending now facts r =
     (let ((plan, effects), d) = durable_advance env outcome pending now facts (durable_new (tn_checkpoint r))
      in \<lparr>tn_checkpoint = checkpoint d, tn_phase = phase_after plan, tn_effects = tn_effects r @ effects\<rparr>)"

text \<open>\<open>N\<close> bounds the configured number of iterations.\<close>

inductive turn_step :: "nat \<Rightarrow> turn_run \<Rightarrow> turn_run \<Rightarrow> bool" for N where
  InputPhase: "tn_phase r = AwaitInput
    \<Longrightarrow> turn_step N r (after_phase env (ProcessInput turn_id) pending now facts r)"
| ReasonPhase: "tn_phase r = AwaitReason \<Longrightarrow> rr_max_iterations rr \<le> N
    \<Longrightarrow> turn_step N r (after_phase env (Reason rr) pending now facts r)"
| ActPhase: "tn_phase r = AwaitAct \<Longrightarrow> turn_step N r (after_phase env (Act out) pending now facts r)"
| Results: "tn_phase r = AwaitResults \<Longrightarrow> turn_step N r (r\<lparr>tn_phase := AwaitReason\<rparr>)"

definition turn_begin :: "turn_state \<Rightarrow> turn_run" where
  "turn_begin s = \<lparr>tn_checkpoint = s, tn_phase = AwaitInput, tn_effects = []\<rparr>"

section \<open>Lemmas\<close>

text \<open>What the checkpoint is after a phase, by the plan.\<close>

lemma after_phase_input:
  "after_phase env (ProcessInput turn_id) pending now facts r =
    r\<lparr>tn_checkpoint := (tn_checkpoint r)\<lparr>ts_turn_id := turn_id, ts_previous_response_id := None,
        ts_iteration := 1, ts_started_at := option_or (ts_started_at (tn_checkpoint r)) (Some now)\<rparr>,
      tn_phase := AwaitReason\<rparr>"
  by (simp add: after_phase_def durable_advance_def advance_def plan_next_turn_def
      plan_after_process_input_def apply_plan_def durable_new_def checkpoint_def Let_def)

lemma after_phase_act:
  "after_phase env (Act out) pending now facts r =
    (let next_state = (tn_checkpoint r)\<lparr>ts_iteration := saturating_add_u32 (ts_iteration (tn_checkpoint r)) 1\<rparr> in
     if ao_blocked out then r\<lparr>tn_phase := TurnOver\<rparr>
     else if ao_waiting_for_tool_results out \<and> (hf_setup_connection_hint_enabled facts
       \<or> ao_waiting_for_url_elicitation out \<and> hf_url_elicitation_hint_enabled facts)
     then r\<lparr>tn_checkpoint := next_state, tn_phase := AwaitResults,
            tn_effects := tn_effects r @ [WaitingForToolResults]\<rparr>
     else r\<lparr>tn_checkpoint := next_state, tn_phase := AwaitReason\<rparr>)"
  by (simp add: after_phase_def durable_advance_def advance_def plan_next_turn_def plan_after_act_def
      apply_plan_def durable_new_def checkpoint_def Let_def)

lemma with_reason_summary_iteration [simp]: "ts_iteration (with_reason_summary rr s) = ts_iteration s"
  by (simp add: with_reason_summary_def)

lemma after_phase_reason:
  assumes "s = tn_checkpoint r" and "r' = after_phase env (Reason rr) pending now facts r"
  shows "reason_schedules_act s rr \<Longrightarrow>
      tn_phase r' = AwaitAct \<and> ts_iteration (tn_checkpoint r') = ts_iteration s \<and> tn_effects r' = tn_effects r"
    and "\<not> reason_schedules_act s rr \<Longrightarrow> rr_success rr \<and> 0 < pending \<and> \<not> max_turn_requests_reached s rr \<Longrightarrow>
      tn_phase r' = AwaitReason \<and> ts_iteration (tn_checkpoint r') = saturating_add_u32 (ts_iteration s) 1
      \<and> tn_effects r' = tn_effects r"
    and "\<not> reason_schedules_act s rr \<Longrightarrow> \<not> (rr_success rr \<and> 0 < pending \<and> \<not> max_turn_requests_reached s rr) \<Longrightarrow>
      tn_phase r' = TurnOver \<and> tn_effects r' = tn_effects r @ terminal_effects env now s rr
      \<and> tn_checkpoint r' = with_reason_summary rr s"
  using assms
  by (auto simp: after_phase_def durable_advance_def advance_def plan_next_turn_def plan_after_reason_def
      apply_plan_def durable_new_def checkpoint_def act_plan_of_def Let_def)

subsection \<open>Termination\<close>

text \<open>
  The phases still possible: an iteration takes a reason phase, an act phase and the arrival of
  tool results; the last iteration ends with its reason phase.
\<close>

fun turn_work :: "nat \<Rightarrow> turn_run \<Rightarrow> nat" where
  "turn_work M r =
     (let i = unat (ts_iteration (tn_checkpoint r)) in
      case tn_phase r of
        AwaitInput \<Rightarrow> 3 * (M - 1) + 2
      | AwaitReason \<Rightarrow> 3 * (M - i) + 1
      | AwaitAct \<Rightarrow> 3 * (M - i)
      | AwaitResults \<Rightarrow> 3 * (M - i) + 2
      | TurnOver \<Rightarrow> 0)"

definition turn_inv :: "nat \<Rightarrow> turn_run \<Rightarrow> bool" where
  "turn_inv M r \<longleftrightarrow>
     (let i = unat (ts_iteration (tn_checkpoint r)) in
      case tn_phase r of
        AwaitInput \<Rightarrow> True
      | AwaitReason \<Rightarrow> 1 \<le> i \<and> i \<le> M
      | AwaitAct \<Rightarrow> 1 \<le> i \<and> i < M
      | AwaitResults \<Rightarrow> 1 \<le> i \<and> i \<le> M
      | TurnOver \<Rightarrow> True)"

lemma saturating_succ: "unat a < M \<Longrightarrow> M < 2 ^ 32 \<Longrightarrow> unat (saturating_add_u32 a 1) = Suc (unat a)"
  by (simp add: saturating_add_u32_def unat_word_ariths)

lemma not_reached_below:
  assumes "\<not> max_turn_requests_reached s rr" and "rr_max_iterations rr \<le> N"
  shows "unat (ts_iteration s) < N"
proof -
  have "unat (as_u32 (rr_max_iterations rr)) \<le> rr_max_iterations rr"
    by (simp add: as_u32_def unat_of_nat)
  with assms show ?thesis by (simp add: max_turn_requests_reached_def word_le_nat_alt)
qed

lemma reason_step_work:
  assumes "tn_phase r = AwaitReason" and "rr_max_iterations rr \<le> N" and "turn_inv M r"
    and "N \<le> M" and "M < 2 ^ 32" and "r' = after_phase env (Reason rr) pending now facts r"
  shows "turn_inv M r' \<and> turn_work M r' < turn_work M r"
proof -
  let ?s = "tn_checkpoint r" and ?i = "unat (ts_iteration (tn_checkpoint r))"
  have i: "1 \<le> ?i" "?i \<le> M" using assms(1,3) by (simp_all add: turn_inv_def Let_def)
  note cases = after_phase_reason [OF refl assms(6)]
  consider (act) "reason_schedules_act ?s rr"
    | (steer) "\<not> reason_schedules_act ?s rr" "rr_success rr \<and> 0 < pending \<and> \<not> max_turn_requests_reached ?s rr"
    | (over) "\<not> reason_schedules_act ?s rr" "\<not> (rr_success rr \<and> 0 < pending \<and> \<not> max_turn_requests_reached ?s rr)"
    by blast
  then show ?thesis
  proof cases
    case act
    then have "?i < M" using not_reached_below [of ?s rr N] assms(2,4) by (auto simp: reason_schedules_act_def)
    with cases(1) [OF act] i assms(1) show ?thesis by (simp add: turn_inv_def Let_def)
  next
    case steer
    then have "?i < M" using not_reached_below [of ?s rr N] assms(2,4) by auto
    with cases(2) [OF steer] i assms(1,5) saturating_succ [of "ts_iteration ?s" M] show ?thesis
      by (simp add: turn_inv_def Let_def)
  next
    case over
    with cases(3) [OF over] assms(1) show ?thesis by (simp add: turn_inv_def Let_def)
  qed
qed

lemma turn_step_work:
  assumes "turn_step N r r'" and "turn_inv M r" and "max N 1 = M" and "M < 2 ^ 32"
  shows "turn_inv M r' \<and> turn_work M r' < turn_work M r"
  using assms(1)
proof (cases rule: turn_step.cases)
  case (InputPhase env turn_id pending now facts)
  then show ?thesis using assms(3) by (auto simp: after_phase_input turn_inv_def Let_def)
next
  case (ReasonPhase rr env pending now facts)
  then show ?thesis using reason_step_work [of r rr N M] assms(2-4) by auto
next
  case (ActPhase env out pending now facts)
  with assms(2) have "1 \<le> unat (ts_iteration (tn_checkpoint r))" "unat (ts_iteration (tn_checkpoint r)) < M"
    by (simp_all add: turn_inv_def Let_def)
  with ActPhase saturating_succ [of "ts_iteration (tn_checkpoint r)" M] assms(4) show ?thesis
    by (auto simp: after_phase_act turn_inv_def Let_def)
next
  case Results
  with assms(2) show ?thesis by (simp add: turn_inv_def Let_def)
qed

lemma turn_steps_work:
  assumes "(turn_step N ^^ k) r r'" and "turn_inv M r" and "max N 1 = M" and "M < 2 ^ 32"
  shows "turn_inv M r' \<and> k + turn_work M r' \<le> turn_work M r"
  using assms(1)
proof (induction k arbitrary: r')
  case 0
  with assms(2) show ?case by simp
next
  case (Suc k)
  then obtain q where q: "(turn_step N ^^ k) r q" "turn_step N q r'" by auto
  from Suc.IH [OF q(1)] turn_step_work [OF q(2) _ assms(3,4)] show ?case
    by (auto simp del: turn_work.simps)
qed


subsection \<open>Effects\<close>

text \<open>What a turn has emitted besides the notices that it waits for tool results.\<close>

definition closing_of :: "turn_run \<Rightarrow> turn_lifecycle_effect list" where
  "closing_of r = filter (\<lambda>e. e \<noteq> WaitingForToolResults) (tn_effects r)"

text \<open>
  The effects that close a turn whose last phase is a reason phase from the state \<open>s\<close>: the completion, the idle notice
  and the end hooks of a success, or the failure and the end hooks of a failure, for one turn and one input message.
\<close>

definition closes_turn ::
  "turn_env \<Rightarrow> turn_state \<Rightarrow> reason_result \<Rightarrow> turn_lifecycle_effect list \<Rightarrow> bool" where
  "closes_turn env s rr es \<longleftrightarrow>
     (let t = get_or (tv_turn_id env) (ts_turn_id s); m = ts_input_message_id s;
          hooks = FireTurnEndHooks (ts_harness_id s) (ts_agent_id s) t (rr_success rr) in
      if rr_success rr
      then (\<exists>d. es = [TurnCompleted m d, SessionIdled t m (Some (ts_iteration s)) (tc_usage d), hooks]
              \<and> tc_turn_id d = t \<and> tc_iterations d = ts_iteration s \<and> tc_status d = Some ''completed'')
      else (\<exists>e. es = [TurnFailedWithDisclosure t m (rr_text rr) (Some e) (rr_error_disclosure rr), hooks]))"

definition effects_inv :: "turn_run \<Rightarrow> bool" where
  "effects_inv r \<longleftrightarrow> tn_phase r \<noteq> TurnOver \<longrightarrow> closing_of r = []"

lemma closing_of_append:
  "tn_effects r' = tn_effects r @ es \<Longrightarrow> closing_of r' = closing_of r @ filter (\<lambda>e. e \<noteq> WaitingForToolResults) es"
  by (simp add: closing_of_def)

lemma terminal_effects_close:
  "filter (\<lambda>e. e \<noteq> WaitingForToolResults) (terminal_effects env now s rr) = terminal_effects env now s rr"
  "closes_turn env s rr (terminal_effects env now s rr)"
  by (simp_all add: terminal_effects_def closes_turn_def Let_def)

text \<open>A reason phase emits nothing unless it ends the turn, and then what closes it.\<close>

lemma reason_effects:
  assumes "closing_of r = []" and "r' = after_phase env (Reason rr) pending now facts r"
  shows "tn_phase r' \<noteq> TurnOver \<Longrightarrow> closing_of r' = []"
    and "tn_phase r' = TurnOver \<Longrightarrow> closes_turn env (tn_checkpoint r) rr (closing_of r')"
proof -
  let ?s = "tn_checkpoint r"
  note cases = after_phase_reason [OF refl assms(2)]
  have *: "(tn_phase r' \<noteq> TurnOver \<longrightarrow> closing_of r' = [])
      \<and> (tn_phase r' = TurnOver \<longrightarrow> closes_turn env ?s rr (closing_of r'))"
  proof (cases "reason_schedules_act ?s rr \<or> rr_success rr \<and> 0 < pending \<and> \<not> max_turn_requests_reached ?s rr")
    case True
    then have "tn_phase r' \<noteq> TurnOver" "tn_effects r' = tn_effects r"
      using cases(1,2) by (cases "reason_schedules_act ?s rr", simp_all)+
    then show ?thesis using assms(1) by (simp add: closing_of_def)
  next
    case False
    then have "tn_phase r' = TurnOver" "tn_effects r' = tn_effects r @ terminal_effects env now ?s rr"
      using cases(3) by simp_all
    then show ?thesis using closing_of_append [of r' r] assms(1) by (simp add: terminal_effects_close)
  qed
  then show "tn_phase r' \<noteq> TurnOver \<Longrightarrow> closing_of r' = []"
    "tn_phase r' = TurnOver \<Longrightarrow> closes_turn env ?s rr (closing_of r')" by simp_all
qed

lemma act_effects:
  "closing_of (after_phase env (Act out) pending now facts r) = closing_of r"
  "tn_phase (after_phase env (Act out) pending now facts r) = TurnOver \<longleftrightarrow> ao_blocked out"
  by (simp_all add: after_phase_act closing_of_def Let_def)

lemma turn_step_effects: "turn_step N r r' \<Longrightarrow> effects_inv r \<Longrightarrow> effects_inv r'"
proof (induction rule: turn_step.induct)
  case (InputPhase r env turn_id pending now facts)
  then show ?case by (simp add: after_phase_input effects_inv_def closing_of_def)
next
  case (ReasonPhase r rr env pending now facts)
  then show ?case using reason_effects(1) [OF _ refl] by (simp add: effects_inv_def)
next
  case (ActPhase r env out pending now facts)
  then show ?case by (simp add: effects_inv_def act_effects(1))
next
  case (Results r)
  then show ?case by (simp add: effects_inv_def closing_of_def)
qed

interpretation turn_runs: step_system "\<lambda>r. \<exists>s. r = turn_begin s" "turn_step N" effects_inv for N
proof
  show "effects_inv r" if "\<exists>s. r = turn_begin s" for r
    using that by (auto simp: turn_begin_def effects_inv_def closing_of_def)
qed (rule turn_step_effects)

lemma turn_step_exists: "(\<exists>r'. turn_step N r r') \<longleftrightarrow> tn_phase r \<noteq> TurnOver"
proof
  assume "\<exists>r'. turn_step N r r'"
  then show "tn_phase r \<noteq> TurnOver" by (auto elim: turn_step.cases)
next
  have some: "rr_max_iterations (undefined\<lparr>rr_max_iterations := 0\<rparr> :: reason_result) \<le> N" by simp
  assume "tn_phase r \<noteq> TurnOver"
  then show "\<exists>r'. turn_step N r r'"
    by (cases "tn_phase r") (blast intro: turn_step.intros turn_step.ReasonPhase [OF _ some])+
qed

subsection \<open>A turn with one pause\<close>

definition demo_turn :: turn_state where
  "demo_turn =
     \<lparr>ts_org_id = 1, ts_session_id = 2, ts_harness_id = 3, ts_agent_id = None, ts_input_message_id = 4,
      ts_turn_id = None, ts_previous_response_id = None, ts_iteration = 0, ts_request_id = None,
      ts_started_at = None, ts_cumulative_usage = None, ts_tool_call_count = 0, ts_llm_call_count = 0,
      ts_time_to_first_token_ms = None, ts_final_message_id = None, ts_final_answer_preview = None\<rparr>"

definition demo_reason :: "json list \<Rightarrow> reason_result" where
  "demo_reason calls =
     \<lparr>rr_native_counts = None, rr_success = True, rr_text = ''done'', rr_tool_calls = calls,
      rr_has_tool_calls = (calls \<noteq> []), rr_tool_definitions = [], rr_max_iterations = 2,
      rr_error = None, rr_user_facing_error = None, rr_error_disclosure = None, rr_usage = None,
      rr_output_message_id = None, rr_time_to_first_token_ms = None, rr_response_id = None,
      rr_finish_reason = None, rr_locale = None, rr_network_access = None,
      rr_parallel_tool_calls = None\<rparr>"

definition demo_env :: turn_env where
  "demo_env = \<lparr>tv_exec_id = 7, tv_turn_id = 8, tv_classify = \<lambda>e. \<lparr>ue_code = e, ue_fields = []\<rparr>\<rparr>"

definition demo_facts :: host_facts where
  "demo_facts = \<lparr>hf_act_scheduling = None, hf_setup_connection_hint_enabled = True,
     hf_url_elicitation_hint_enabled = False\<rparr>"

definition demo_act :: act_outcome where
  "demo_act = \<lparr>ao_blocked = False, ao_waiting_for_tool_results = True, ao_waiting_for_url_elicitation = False\<rparr>"

definition demo_called :: turn_run where
  "demo_called =
     after_phase demo_env (Reason (demo_reason [JNull])) 0 0 demo_facts
       (after_phase demo_env (ProcessInput (Some 5)) 0 0 demo_facts (turn_begin demo_turn))"

definition demo_paused :: turn_run where
  "demo_paused = after_phase demo_env (Act demo_act) 0 0 demo_facts demo_called"

definition demo_over :: turn_run where
  "demo_over =
     after_phase demo_env (Reason (demo_reason [])) 0 0 demo_facts (demo_paused\<lparr>tn_phase := AwaitReason\<rparr>)"

lemmas phase_simps = after_phase_def durable_advance_def advance_def plan_next_turn_def plan_after_reason_def
  plan_after_act_def plan_after_process_input_def apply_plan_def durable_new_def checkpoint_def act_plan_of_def
  reason_schedules_act_def max_turn_requests_reached_def terminal_effects_def Let_def

lemmas demo_simps = demo_turn_def demo_reason_def demo_env_def demo_facts_def demo_act_def turn_begin_def
  as_u32_def saturating_add_u32_def with_reason_summary_def word_le_nat_alt

lemma demo_called_phase: "tn_phase demo_called = AwaitAct"
  by (simp add: demo_called_def phase_simps demo_simps)

lemma demo_paused_phase: "tn_phase demo_paused = AwaitResults"
  by (simp add: demo_paused_def after_phase_act demo_act_def demo_facts_def Let_def)

lemma demo_over_phase: "tn_phase demo_over = TurnOver"
  by (simp add: demo_over_def phase_simps demo_simps)

lemma demo_over_effects: "length (tn_effects demo_over) = 4"
  by (simp add: demo_over_def demo_paused_def demo_called_def phase_simps demo_simps)

lemma demo_bound: "rr_max_iterations (demo_reason c) \<le> 2"
  by (simp add: demo_reason_def)

lemma demo_phases_before: "(turn_step 2 ^^ 4) (turn_begin demo_turn) (demo_paused\<lparr>tn_phase := AwaitReason\<rparr>)"
proof -
  let ?r0 = "turn_begin demo_turn"
  let ?r1 = "after_phase demo_env (ProcessInput (Some 5)) 0 0 demo_facts ?r0"
  have "turn_step 2 ?r0 ?r1" by (rule InputPhase) (simp add: turn_begin_def)
  moreover have "turn_step 2 ?r1 demo_called"
    unfolding demo_called_def by (rule ReasonPhase [OF _ demo_bound]) (simp add: after_phase_input)
  moreover have "turn_step 2 demo_called demo_paused"
    unfolding demo_paused_def by (rule ActPhase) (rule demo_called_phase)
  moreover have "turn_step 2 demo_paused (demo_paused\<lparr>tn_phase := AwaitReason\<rparr>)"
    by (rule Results) (rule demo_paused_phase)
  ultimately have "(turn_step 2 ^^ Suc (Suc (Suc (Suc 0)))) ?r0 (demo_paused\<lparr>tn_phase := AwaitReason\<rparr>)"
    by (simp only: relpowp.simps) (blast intro: relcomppI)
  moreover have "Suc (Suc (Suc (Suc 0))) = 4" by simp
  ultimately show ?thesis by metis
qed

lemma demo_last_step: "turn_step 2 (demo_paused\<lparr>tn_phase := AwaitReason\<rparr>) demo_over"
  unfolding demo_over_def by (rule ReasonPhase [OF _ demo_bound]) simp

lemma demo_phases: "(turn_step 2 ^^ 5) (turn_begin demo_turn) demo_over"
proof -
  have "(turn_step 2 ^^ Suc 4) (turn_begin demo_turn) demo_over"
    using demo_phases_before demo_last_step by (auto simp only: relpowp.simps)
  then show ?thesis by simp
qed

section \<open>Properties\<close>

text \<open>
  C2. A turn ends. With at most \<open>N\<close> configured iterations, any sequence of phases of a turn (input,
  reason, act, arriving tool results, in whatever order their outcomes and steering messages make
  the planner choose) has at most \<open>3 max(N, 1) - 1\<close> steps, the iteration counter never exceeds
  \<open>max(N, 1)\<close> while the turn waits for a phase, and the turn can go on exactly until the planner
  has completed it.
\<close>

theorem turn_terminates:
  assumes "(turn_step N ^^ k) (turn_begin s) r" and "max N 1 < 2 ^ 32"
  shows "k \<le> 3 * max N 1 - 1
    \<and> (tn_phase r \<in> {AwaitReason, AwaitAct, AwaitResults} \<longrightarrow>
        1 \<le> unat (ts_iteration (tn_checkpoint r)) \<and> unat (ts_iteration (tn_checkpoint r)) \<le> max N 1)
    \<and> ((\<exists>r'. turn_step N r r') \<longleftrightarrow> tn_phase r \<noteq> TurnOver)"
proof -
  have "turn_inv (max N 1) (turn_begin s)" by (simp add: turn_inv_def turn_begin_def)
  from turn_steps_work [OF assms(1) this refl assms(2)]
  have inv: "turn_inv (max N 1) r" and work: "k + turn_work (max N 1) r \<le> 3 * (max N 1 - 1) + 2"
    by (simp_all add: turn_begin_def)
  have "k \<le> 3 * max N 1 - 1" using work by simp
  moreover have "tn_phase r \<in> {AwaitReason, AwaitAct, AwaitResults} \<longrightarrow>
      1 \<le> unat (ts_iteration (tn_checkpoint r)) \<and> unat (ts_iteration (tn_checkpoint r)) \<le> max N 1"
    using inv by (auto simp: turn_inv_def Let_def)
  ultimately show ?thesis using turn_step_exists [of N r] by blast
qed

theorem turn_terminates_witness:
  "(turn_step 2 ^^ 5) (turn_begin demo_turn) demo_over \<and> 5 \<le> 3 * max 2 1 - (1 :: nat)
    \<and> \<not> (\<exists>r'. turn_step 2 demo_over r')"
proof -
  have "max 2 1 < (2 ^ 32 :: nat)" by simp
  from turn_terminates [OF demo_phases this] demo_phases show ?thesis by (simp add: demo_over_phase)
qed

text \<open>
  C3. A turn is closed once, and in the way it ended. While a turn runs it has emitted nothing but waiting notices. The
  step that ends it is either a blocked act phase, and then nothing more is emitted, or a reason phase, and then the turn
  has emitted, besides waiting notices, exactly the completion with the idle notice and the end hooks of a success when the
  phase succeeded, and the failure with the end hooks of a failure when it did not, all for the turn, the input message
  and the iteration of the checkpoint.
\<close>

theorem turn_effects_once:
  assumes "(turn_step N)\<^sup>*\<^sup>* (turn_begin s) r" and "tn_phase r \<noteq> TurnOver"
  shows "set (tn_effects r) \<subseteq> {WaitingForToolResults}
    \<and> (\<forall>env rr pending now facts. let r' = after_phase env (Reason rr) pending now facts r in
          tn_phase r = AwaitReason \<longrightarrow> tn_phase r' = TurnOver \<longrightarrow> closes_turn env (tn_checkpoint r) rr (closing_of r'))
    \<and> (\<forall>env out pending now facts. let r' = after_phase env (Act out) pending now facts r in
          tn_phase r = AwaitAct \<longrightarrow> (tn_phase r' = TurnOver \<longleftrightarrow> ao_blocked out) \<and> set (tn_effects r') \<subseteq> {WaitingForToolResults})
    \<and> (\<forall>r'. turn_step N r r' \<longrightarrow> tn_phase r' = TurnOver \<longrightarrow> tn_phase r = AwaitReason \<or> tn_phase r = AwaitAct)"
proof -
  have "effects_inv r" by (rule turn_runs.reachable_inv [OF _ assms(1)]) blast
  with assms(2) have r: "closing_of r = []" by (simp add: effects_inv_def)
  have none: "set (tn_effects q) \<subseteq> {WaitingForToolResults} \<longleftrightarrow> closing_of q = []" for q
    by (auto simp: closing_of_def filter_empty_conv)
  have "tn_phase r = AwaitReason \<or> tn_phase r = AwaitAct" if "turn_step N r r'" "tn_phase r' = TurnOver" for r'
    using that by cases (simp_all add: after_phase_input)
  then show ?thesis using r reason_effects(2) [OF r refl] by (simp add: none act_effects Let_def)
qed

theorem turn_effects_once_witness:
  "set (tn_effects demo_paused) \<subseteq> {WaitingForToolResults}
    \<and> closes_turn demo_env (tn_checkpoint demo_paused) (demo_reason []) (closing_of demo_over)
    \<and> length (tn_effects demo_over) = 4"
proof -
  let ?r = "demo_paused\<lparr>tn_phase := AwaitReason\<rparr>"
  have run: "(turn_step 2)\<^sup>*\<^sup>* (turn_begin demo_turn) ?r"
    using demo_phases_before by (rule relpowp_imp_rtranclp)
  have over: "demo_over = after_phase demo_env (Reason (demo_reason [])) 0 0 demo_facts ?r" by (simp add: demo_over_def)
  note closed = turn_effects_once [OF run, simplified, unfolded Let_def]
  have "closes_turn demo_env (tn_checkpoint demo_paused) (demo_reason []) (closing_of demo_over)"
    using closed demo_over_phase unfolding over by blast
  then show ?thesis using closed by (simp add: demo_over_effects)
qed

end
