(* ===== verification/Tool_Scheduler.thy ===== *)
theory Tool_Scheduler
  imports Prelude "HOL-Library.Multiset"
begin

text \<open>
  The scheduler of a batch of tool calls (\<open>crates/engine/src/execution/tool_scheduler.rs\<close>): calls
  of one conflict class run one after the other in arrival order, other calls concurrently, under a
  global cap. The group futures and the semaphore are a step relation: a group starts its next call
  when it gets a permit and gives the permit back when the call ends. \<open>run i\<close> is the result of
  call \<open>i\<close>.
\<close>

section \<open>Configuration\<close>

definition DEFAULT_MAX_TOOL_CONCURRENCY :: nat where
  "DEFAULT_MAX_TOOL_CONCURRENCY = 32"

text \<open>The argument is the parsed value of the environment variable, if it is set and a number.\<close>

definition configured_max_tool_concurrency :: "nat option \<Rightarrow> nat" where
  "configured_max_tool_concurrency env =
     (case env of Some v \<Rightarrow> max v 1 | None \<Rightarrow> DEFAULT_MAX_TOOL_CONCURRENCY)"

record schedule_config =
  sg_max_concurrency :: nat
  sg_serialize_all :: bool

definition schedule_config_default :: "nat option \<Rightarrow> schedule_config" where
  "schedule_config_default env =
     \<lparr>sg_max_concurrency = configured_max_tool_concurrency env, sg_serialize_all = False\<rparr>"

section \<open>Groups\<close>

text \<open>The conflict key of a call: a missing or empty class is none.\<close>

definition key_of :: "string option list \<Rightarrow> nat \<Rightarrow> string option" where
  "key_of classes i =
     (if i < length classes
      then (case classes ! i of Some k \<Rightarrow> if k = [] then None else Some k | None \<Rightarrow> None)
      else None)"

fun build_groups ::
  "string option list \<Rightarrow> nat list \<Rightarrow> nat list list \<times> (string, nat) hmap
     \<Rightarrow> nat list list \<times> (string, nat) hmap" where
  "build_groups classes [] s = s"
| "build_groups classes (i # is) (groups, class_index) =
     build_groups classes is
       (case key_of classes i of
          Some key \<Rightarrow>
            (case hm_get class_index key of
               Some g \<Rightarrow> (groups[g := groups ! g @ [i]], class_index)
             | None \<Rightarrow> (groups @ [[i]], hm_insert key (length groups) class_index))
        | None \<Rightarrow> (groups @ [[i]], class_index))"

section \<open>Running\<close>

record 'r group_run =
  gr_todo :: "nat list"
  gr_current :: "nat option"
  gr_out :: "(nat \<times> 'r) list"

record 'r batch_run =
  br_permits :: nat
  br_groups :: "'r group_run list"

definition group_start :: "nat list \<Rightarrow> 'r group_run" where
  "group_start g = \<lparr>gr_todo = g, gr_current = None, gr_out = []\<rparr>"

text \<open>The sequential mode is a single group; its one permit is never contended.\<close>

definition schedule_start :: "nat \<Rightarrow> string option list \<Rightarrow> schedule_config \<Rightarrow> 'r batch_run" where
  "schedule_start n classes config =
     (if n = 0 then \<lparr>br_permits = 1, br_groups = []\<rparr>
      else if sg_serialize_all config \<or> n = 1
      then \<lparr>br_permits = 1, br_groups = [group_start [0..<n]]\<rparr>
      else \<lparr>br_permits = max (sg_max_concurrency config) 1,
            br_groups = map group_start (fst (build_groups classes [0..<n] ([], [])))\<rparr>)"

definition begin_call :: "nat \<Rightarrow> 'r batch_run \<Rightarrow> 'r batch_run" where
  "begin_call g s =
     (let gr = br_groups s ! g in
      s\<lparr>br_permits := br_permits s - 1,
        br_groups := (br_groups s)[g := gr\<lparr>gr_current := Some (hd (gr_todo gr)), gr_todo := tl (gr_todo gr)\<rparr>]\<rparr>)"

definition end_call :: "(nat \<Rightarrow> 'r) \<Rightarrow> nat \<Rightarrow> 'r batch_run \<Rightarrow> 'r batch_run" where
  "end_call run g s =
     (let gr = br_groups s ! g; i = the (gr_current gr) in
      s\<lparr>br_permits := br_permits s + 1,
        br_groups := (br_groups s)[g := gr\<lparr>gr_current := None, gr_out := gr_out gr @ [(i, run i)]\<rparr>]\<rparr>)"

inductive tool_step :: "(nat \<Rightarrow> 'r) \<Rightarrow> 'r batch_run \<Rightarrow> 'r batch_run \<Rightarrow> bool" for run where
  Begin: "g < length (br_groups s) \<Longrightarrow> gr_current (br_groups s ! g) = None
    \<Longrightarrow> gr_todo (br_groups s ! g) \<noteq> [] \<Longrightarrow> 0 < br_permits s \<Longrightarrow> tool_step run s (begin_call g s)"
| End: "g < length (br_groups s) \<Longrightarrow> gr_current (br_groups s ! g) \<noteq> None
    \<Longrightarrow> tool_step run s (end_call run g s)"

text \<open>The flattened results in call order, once every group is through.\<close>

definition batch_results :: "'r batch_run \<Rightarrow> 'r list" where
  "batch_results s = map snd (sort_key fst (concat (map gr_out (br_groups s))))"

definition batch_done :: "'r batch_run \<Rightarrow> bool" where
  "batch_done s \<longleftrightarrow> (\<forall>gr \<in> set (br_groups s). gr_todo gr = [] \<and> gr_current gr = None)"

text \<open>The calls in flight, and how many permits there are.\<close>

definition in_flight :: "'r batch_run \<Rightarrow> nat list" where
  "in_flight s = concat (map (\<lambda>gr. case gr_current gr of Some i \<Rightarrow> [i] | None \<Rightarrow> []) (br_groups s))"

definition call_cap :: "nat \<Rightarrow> schedule_config \<Rightarrow> nat" where
  "call_cap n config =
     (if n = 0 \<or> sg_serialize_all config \<or> n = 1 then 1 else max (sg_max_concurrency config) 1)"

section \<open>The groups partition the batch\<close>

text \<open>Calls of the same class are in the same group; every group is in arrival order.\<close>

definition groups_ok :: "string option list \<Rightarrow> nat \<Rightarrow> nat list list \<times> (string, nat) hmap \<Rightarrow> bool" where
  "groups_ok classes m = (\<lambda>(gs, ix).
     mset (concat gs) = mset [0..<m] \<and> (\<forall>g \<in> set gs. sorted g)
     \<and> (\<forall>k g. hm_get ix k = Some g \<longrightarrow> g < length gs)
     \<and> (\<forall>g i k. g < length gs \<longrightarrow> i \<in> set (gs ! g) \<longrightarrow> key_of classes i = Some k \<longrightarrow> hm_get ix k = Some g))"

lemma concat_update:
  assumes "g < length gs"
  shows "mset (concat (gs[g := gs ! g @ [i]])) = add_mset i (mset (concat gs))"
proof -
  have "concat gs = concat (take g gs) @ gs ! g @ concat (drop (Suc g) gs)"
    using arg_cong [OF id_take_nth_drop [OF assms], of concat] by simp
  with assms show ?thesis by (simp add: upd_conv_take_nth_drop)
qed

lemma groups_okD:
  assumes "groups_ok classes m (gs, ix)"
  shows "mset (concat gs) = mset [0..<m]" and "g \<in> set gs \<Longrightarrow> sorted g"
    and "hm_get ix k = Some j \<Longrightarrow> j < length gs"
    and "j < length gs \<Longrightarrow> i \<in> set (gs ! j) \<Longrightarrow> key_of classes i = Some k \<Longrightarrow> hm_get ix k = Some j"
  using assms unfolding groups_ok_def by blast+

lemma groups_okI:
  assumes "mset (concat gs) = mset [0..<m]" and "\<And>g. g \<in> set gs \<Longrightarrow> sorted g"
    and "\<And>k j. hm_get ix k = Some j \<Longrightarrow> j < length gs"
    and "\<And>j i k. j < length gs \<Longrightarrow> i \<in> set (gs ! j) \<Longrightarrow> key_of classes i = Some k \<Longrightarrow> hm_get ix k = Some j"
  shows "groups_ok classes m (gs, ix)"
  using assms unfolding groups_ok_def by blast

lemma groups_below:
  assumes "groups_ok classes m (gs, ix)" and "g \<in> set gs" and "i \<in> set g"
  shows "i < m"
proof -
  have "set (concat gs) = {0..<m}" using mset_eq_setD [OF groups_okD(1) [OF assms(1)]] by simp
  with assms(2,3) show ?thesis by fastforce
qed

lemma groups_ok_new:
  assumes ok: "groups_ok classes m (gs, ix)" and "\<And>k. key_of classes m = Some k \<Longrightarrow> hm_get ix k = None"
    and "ix' = (case key_of classes m of Some k \<Rightarrow> hm_insert k (length gs) ix | None \<Rightarrow> ix)"
  shows "groups_ok classes (Suc m) (gs @ [[m]], ix')"
proof (rule groups_okI)
  show "mset (concat (gs @ [[m]])) = mset [0..<Suc m]" using groups_okD(1) [OF ok] by simp
  show "\<And>g. g \<in> set (gs @ [[m]]) \<Longrightarrow> sorted g" using groups_okD(2) [OF ok] by auto
  show "\<And>k j. hm_get ix' k = Some j \<Longrightarrow> j < length (gs @ [[m]])"
    using groups_okD(3) [OF ok] assms(3) by (auto simp: less_Suc_eq split: option.splits if_splits)
  fix j i k
  assume j: "j < length (gs @ [[m]])" "i \<in> set ((gs @ [[m]]) ! j)" "key_of classes i = Some k"
  show "hm_get ix' k = Some j"
  proof (cases "j < length gs")
    case True
    with j have "hm_get ix k = Some j" using groups_okD(4) [OF ok] by (simp add: nth_append)
    with assms(2,3) show ?thesis by (auto split: option.splits)
  next
    case False
    with j have "j = length gs" "i = m" by (auto simp: nth_append)
    with j(3) assms(3) show ?thesis by simp
  qed
qed

lemma groups_ok_join:
  assumes ok: "groups_ok classes m (gs, ix)" and "key_of classes m = Some k" and "hm_get ix k = Some g"
  shows "groups_ok classes (Suc m) (gs[g := gs ! g @ [m]], ix)"
proof (rule groups_okI)
  have g: "g < length gs" using groups_okD(3) [OF ok assms(3)] .
  show "mset (concat (gs[g := gs ! g @ [m]])) = mset [0..<Suc m]"
    using groups_okD(1) [OF ok] concat_update [OF g, of m] by simp
  have "sorted (gs ! g @ [m])"
    using g groups_okD(2) [OF ok, of "gs ! g"] groups_below [OF ok, of "gs ! g"]
    by (auto simp: sorted_append less_imp_le)
  then show "\<And>x. x \<in> set (gs[g := gs ! g @ [m]]) \<Longrightarrow> sorted x"
    using set_update_subset_insert [of gs g "gs ! g @ [m]"] groups_okD(2) [OF ok] by blast
  show "\<And>k j. hm_get ix k = Some j \<Longrightarrow> j < length (gs[g := gs ! g @ [m]])"
    using groups_okD(3) [OF ok] by simp
  show "\<And>j i k. j < length (gs[g := gs ! g @ [m]]) \<Longrightarrow> i \<in> set (gs[g := gs ! g @ [m]] ! j)
      \<Longrightarrow> key_of classes i = Some k \<Longrightarrow> hm_get ix k = Some j"
    using groups_okD(4) [OF ok] assms(2,3) g by (auto simp: nth_list_update [OF g] split: if_splits)
qed

lemma build_groups_ok:
  "groups_ok classes m s \<Longrightarrow> groups_ok classes (m + k) (build_groups classes [m..<m + k] s)"
proof (induction k arbitrary: m s)
  case 0
  then show ?case by simp
next
  case (Suc k)
  obtain gs ix where s: "s = (gs, ix)" by (cases s)
  have l: "[m..<m + Suc k] = m # [Suc m..<Suc m + k]" by (simp add: upt_conv_Cons)
  have "groups_ok classes (Suc m)
    (case key_of classes m of
       Some key \<Rightarrow>
         (case hm_get ix key of
            Some g \<Rightarrow> (gs[g := gs ! g @ [m]], ix)
          | None \<Rightarrow> (gs @ [[m]], hm_insert key (length gs) ix))
     | None \<Rightarrow> (gs @ [[m]], ix))"
    using Suc.prems unfolding s
    by (auto split: option.split intro: groups_ok_join groups_ok_new)
  from Suc.IH [OF this] show ?case unfolding l s by simp
qed

lemma built_groups:
  "groups_ok classes n (build_groups classes [0..<n] ([], []))"
  using build_groups_ok [of classes 0 "([], [])" n] by (simp add: groups_ok_def)

section \<open>Invariant of a run\<close>

text \<open>
  A group's calls in order are those it has finished, the one in flight and those to come; the
  calls in flight and the free permits make up the cap.
\<close>

definition group_calls :: "'r group_run \<Rightarrow> nat list" where
  "group_calls gr =
     map fst (gr_out gr) @ (case gr_current gr of Some i \<Rightarrow> [i] | None \<Rightarrow> []) @ gr_todo gr"

definition batch_inv :: "(nat \<Rightarrow> 'r) \<Rightarrow> nat list list \<Rightarrow> nat \<Rightarrow> 'r batch_run \<Rightarrow> bool" where
  "batch_inv run gs cap s \<longleftrightarrow>
     map group_calls (br_groups s) = gs
     \<and> (\<forall>gr \<in> set (br_groups s). \<forall>(i, r) \<in> set (gr_out gr). r = run i)
     \<and> br_permits s + length (in_flight s) = cap"

lemma in_flight_update:
  assumes "g < length (br_groups s)" and "s' = s\<lparr>br_permits := m, br_groups := (br_groups s)[g := gr]\<rparr>"
  shows "length (in_flight s') + (if gr_current (br_groups s ! g) = None then 0 else 1)
    = length (in_flight s) + (if gr_current gr = None then 0 else 1)"
proof -
  let ?f = "\<lambda>gr. case gr_current gr of Some i \<Rightarrow> [i] | None \<Rightarrow> []" and ?gs = "br_groups s"
  have "in_flight s = concat (map ?f (take g ?gs)) @ ?f (?gs ! g) @ concat (map ?f (drop (Suc g) ?gs))"
    using arg_cong [OF id_take_nth_drop [OF assms(1)], of "\<lambda>l. concat (map ?f l)"]
    by (simp add: in_flight_def)
  moreover have "in_flight s' = concat (map ?f (take g ?gs)) @ ?f gr @ concat (map ?f (drop (Suc g) ?gs))"
    using assms by (simp add: in_flight_def upd_conv_take_nth_drop)
  ultimately show ?thesis by (auto split: option.splits)
qed

lemma batch_inv_update:
  assumes "batch_inv run gs cap s" and "g < length (br_groups s)"
    and "s' = s\<lparr>br_permits := m, br_groups := (br_groups s)[g := gr]\<rparr>"
    and "group_calls gr = group_calls (br_groups s ! g)" and "\<forall>(i, r) \<in> set (gr_out gr). r = run i"
    and "m + length (in_flight s') = cap"
  shows "batch_inv run gs cap s'"
proof -
  have "map group_calls ((br_groups s)[g := gr]) = map group_calls (br_groups s)"
    using assms(2,4) by (simp add: map_update list_update_same_conv)
  moreover have "\<forall>x \<in> set ((br_groups s)[g := gr]). \<forall>(i, r) \<in> set (gr_out x). r = run i"
    using assms(1,5) set_update_subset_insert [of "br_groups s" g gr] by (fastforce simp: batch_inv_def)
  ultimately show ?thesis using assms(1,3,6) by (simp add: batch_inv_def)
qed

lemma tool_step_inv:
  assumes "tool_step run s t" and "batch_inv run gs cap s"
  shows "batch_inv run gs cap t"
  using assms(1)
proof (cases rule: tool_step.cases)
  case g: (Begin g)
  let ?gr = "br_groups s ! g"
  have t: "t = s\<lparr>br_permits := br_permits s - 1, br_groups := (br_groups s)
      [g := ?gr\<lparr>gr_current := Some (hd (gr_todo ?gr)), gr_todo := tl (gr_todo ?gr)\<rparr>]\<rparr>"
    by (simp add: g(1) begin_call_def Let_def)
  from in_flight_update [OF g(2) t] g(3,5) assms(2) show ?thesis
    by (intro batch_inv_update [OF assms(2) g(2) t]) (use g(2-4) in \<open>auto simp: group_calls_def batch_inv_def\<close>)
next
  case g: (End g)
  let ?gr = "br_groups s ! g" and ?i = "the (gr_current (br_groups s ! g))"
  have t: "t = s\<lparr>br_permits := br_permits s + 1, br_groups := (br_groups s)
      [g := ?gr\<lparr>gr_current := None, gr_out := gr_out ?gr @ [(?i, run ?i)]\<rparr>]\<rparr>"
    by (simp add: g(1) end_call_def Let_def)
  from in_flight_update [OF g(2) t] g(3) assms(2) show ?thesis
    by (intro batch_inv_update [OF assms(2) g(2) t]) (use g(2,3) in \<open>auto simp: group_calls_def batch_inv_def\<close>)
qed

text \<open>The groups a batch starts with.\<close>

definition batch_groups :: "nat \<Rightarrow> string option list \<Rightarrow> schedule_config \<Rightarrow> nat list list" where
  "batch_groups n classes config =
     (if n = 0 then [] else if sg_serialize_all config \<or> n = 1 then [[0..<n]]
      else fst (build_groups classes [0..<n] ([], [])))"

lemma group_calls_start [simp]: "group_calls (group_start g) = g"
  by (simp add: group_calls_def group_start_def)

lemma schedule_start_inv: "batch_inv run (batch_groups n classes config) (call_cap n config) (schedule_start n classes config)"
proof -
  have "concat (map (\<lambda>gr. case gr_current gr of Some i \<Rightarrow> [i] | None \<Rightarrow> []) (map group_start gs)) = []" for gs
    by (induction gs) (auto simp: group_start_def)
  then show ?thesis
    by (auto simp: batch_inv_def schedule_start_def batch_groups_def call_cap_def in_flight_def comp_def
        map_idI) (auto simp: group_start_def)
qed

interpretation batch_runs: step_system
  "\<lambda>s. s = schedule_start n classes config" "tool_step run"
  "batch_inv run (batch_groups n classes config) (call_cap n config)" for n classes config run
  by unfold_locales (auto intro: schedule_start_inv tool_step_inv)

lemma reachable_batch_inv:
  "(tool_step run)\<^sup>*\<^sup>* (schedule_start n classes config) s
    \<Longrightarrow> batch_inv run (batch_groups n classes config) (call_cap n config) s"
  by (rule batch_runs.reachable_inv [OF refl])

section \<open>Partition\<close>

lemma batch_groups_partition:
  "mset (concat (batch_groups n classes config)) = mset [0..<n]"
  "g \<in> set (batch_groups n classes config) \<Longrightarrow> sorted g"
proof -
  obtain gs ix where b: "build_groups classes [0..<n] ([], []) = (gs, ix)" by fastforce
  note ok = groups_okD [OF built_groups [of classes n, unfolded b]]
  show "mset (concat (batch_groups n classes config)) = mset [0..<n]"
    using ok(1) by (simp add: batch_groups_def b)
  show "g \<in> set (batch_groups n classes config) \<Longrightarrow> sorted g"
    using ok(2) by (auto simp: batch_groups_def b split: if_splits)
qed

lemma batch_groups_distinct: "distinct (concat (batch_groups n classes config))"
  by (rule mset_eq_imp_distinct_iff [THEN iffD2, OF batch_groups_partition(1)]) simp

text \<open>Calls with the same key are in the same group.\<close>

lemma batch_groups_key:
  assumes "a < length (batch_groups n classes config)" and "i \<in> set (batch_groups n classes config ! a)"
    and "b < length (batch_groups n classes config)" and "j \<in> set (batch_groups n classes config ! b)"
    and "key_of classes i = Some k" and "key_of classes j = Some k"
  shows "a = b"
proof (cases "n = 0 \<or> sg_serialize_all config \<or> n = 1")
  case True
  with assms(1,3) show ?thesis by (auto simp: batch_groups_def split: if_splits)
next
  case False
  obtain gs ix where g: "build_groups classes [0..<n] ([], []) = (gs, ix)" by fastforce
  note ok = groups_okD(4) [OF built_groups [of classes n, unfolded g]]
  from False assms ok [of a i k] ok [of b j k] show ?thesis by (simp add: batch_groups_def g)
qed

section \<open>Calls in flight\<close>

lemma inv_groups:
  assumes "batch_inv run gs cap s"
  shows "length (br_groups s) = length gs"
    and "a < length gs \<Longrightarrow> group_calls (br_groups s ! a) = gs ! a"
  using assms by (auto simp: batch_inv_def)

lemma in_flight_iff:
  "i \<in> set (in_flight s) \<longleftrightarrow> (\<exists>a < length (br_groups s). gr_current (br_groups s ! a) = Some i)"
proof
  assume "i \<in> set (in_flight s)"
  then obtain gr where "gr \<in> set (br_groups s)" "gr_current gr = Some i"
    by (auto simp: in_flight_def split: option.splits)
  then show "\<exists>a < length (br_groups s). gr_current (br_groups s ! a) = Some i"
    by (auto simp: in_set_conv_nth)
next
  assume "\<exists>a < length (br_groups s). gr_current (br_groups s ! a) = Some i"
  then show "i \<in> set (in_flight s)" by (auto simp: in_flight_def intro!: bexI [OF _ nth_mem])
qed

lemma current_in_group: "gr_current gr = Some i \<Longrightarrow> i \<in> set (group_calls gr)"
  by (simp add: group_calls_def)

lemma in_flight_distinct:
  assumes "batch_inv run (batch_groups n classes config) cap s"
  shows "distinct (in_flight s)"
proof -
  have "mset (concat (map (\<lambda>gr. case gr_current gr of Some i \<Rightarrow> [i] | None \<Rightarrow> []) grs))
      \<subseteq># mset (concat (map group_calls grs))" for grs :: "'a group_run list"
  proof (induction grs)
    case (Cons gr grs)
    have "mset (case gr_current gr of Some i \<Rightarrow> [i] | None \<Rightarrow> []) \<subseteq># mset (group_calls gr)"
      by (auto simp: group_calls_def split: option.splits)
    with Cons show ?case by (simp add: subset_mset.add_mono)
  qed simp
  then have sub: "mset (in_flight s) \<subseteq># mset (concat (batch_groups n classes config))"
    using assms unfolding in_flight_def batch_inv_def by metis
  have "count (mset (concat (batch_groups n classes config))) i \<le> 1" for i
    using batch_groups_distinct [of n classes config] unfolding distinct_count_atmost_1 by simp
  then have "count (mset (in_flight s)) i \<le> 1" for i
    using mset_subset_eq_count [OF sub, of i] le_trans by blast
  moreover have "0 < count (mset (in_flight s)) i" if "i \<in> set (in_flight s)" for i
    using that by simp
  ultimately show ?thesis
    unfolding distinct_count_atmost_1 by (auto simp: le_Suc_eq Suc_le_eq intro: le_antisym)
qed

text \<open>The calls that have ended.\<close>

definition ended :: "'r batch_run \<Rightarrow> nat set" where
  "ended s = (\<Union>gr \<in> set (br_groups s). fst ` set (gr_out gr))"

lemma exclusive_classes:
  assumes "batch_inv run (batch_groups n classes config) cap s" and "i \<in> set (in_flight s)"
    and "j \<in> set (in_flight s)" and "key_of classes i = Some k" and "key_of classes j = Some k"
  shows "i = j"
proof -
  note g = inv_groups [OF assms(1)]
  obtain a b where ab: "a < length (br_groups s)" "gr_current (br_groups s ! a) = Some i"
    "b < length (br_groups s)" "gr_current (br_groups s ! b) = Some j"
    using assms(2,3) by (auto simp: in_flight_iff)
  have "i \<in> set (batch_groups n classes config ! a)" "j \<in> set (batch_groups n classes config ! b)"
    using current_in_group ab g by metis+
  with batch_groups_key [of a n classes config i b j k] ab g assms(4,5) have "a = b" by simp
  with ab show ?thesis by simp
qed

text \<open>An earlier call of the same class has ended when a later one is under way or through.\<close>

lemma arrival_order:
  assumes inv: "batch_inv run (batch_groups n classes config) cap s" and "i < j" and "j < n"
    and "key_of classes i = Some k" and "key_of classes j = Some k"
    and "j \<in> set (in_flight s) \<union> ended s"
  shows "i \<in> ended s"
proof -
  note g = inv_groups [OF inv]
  let ?gs = "batch_groups n classes config"
  have all: "set (concat ?gs) = {0..<n}" using mset_eq_setD [OF batch_groups_partition(1)] by simp
  obtain b where b: "b < length (br_groups s)"
    "j \<in> set (map fst (gr_out (br_groups s ! b)) @ (case gr_current (br_groups s ! b) of Some i \<Rightarrow> [i] | None \<Rightarrow> []))"
    using assms(6) by (force simp: in_flight_iff ended_def in_set_conv_nth [of _ "br_groups s"])
  define past where "past = map fst (gr_out (br_groups s ! b)) @ (case gr_current (br_groups s ! b) of Some i \<Rightarrow> [i] | None \<Rightarrow> [])"
  have gb: "?gs ! b = past @ gr_todo (br_groups s ! b)" "b < length ?gs"
    using g b(1) by (auto simp: group_calls_def past_def)
  have "i \<in> set (concat ?gs)" using all assms(2,3) by simp
  then obtain a where a: "a < length ?gs" "i \<in> set (?gs ! a)" by (auto simp: in_set_conv_nth [of _ ?gs])
  have "a = b" using batch_groups_key [OF a _ _ assms(4,5), of b] gb b(2) by (auto simp: past_def)
  have "sorted (?gs ! b)" by (rule batch_groups_partition(2) [OF nth_mem [OF gb(2)]])
  with gb(1) have srt: "sorted past" "\<forall>x \<in> set past. \<forall>y \<in> set (gr_todo (br_groups s ! b)). x \<le> y"
    by (simp_all add: sorted_append)
  with b(2) assms(2) a(2) \<open>a = b\<close> gb(1) have "i \<in> set past" by (force simp: past_def)
  with srt(1) assms(2) b(2) have "i \<in> fst ` set (gr_out (br_groups s ! b))"
    by (auto simp: past_def sorted_append split: option.splits)
  with b(1) show ?thesis by (auto simp: ended_def intro!: bexI [OF _ nth_mem])
qed

section \<open>Termination and results\<close>

text \<open>Two steps per call that has not started, one per call in flight.\<close>

definition group_work :: "'r group_run \<Rightarrow> nat" where
  "group_work gr = 2 * length (gr_todo gr) + (if gr_current gr = None then 0 else 1)"

definition batch_work :: "'r batch_run \<Rightarrow> nat" where
  "batch_work s = sum_list (map group_work (br_groups s))"

lemma batch_work_update:
  assumes "g < length (br_groups s)"
  shows "batch_work (s\<lparr>br_permits := m, br_groups := (br_groups s)[g := gr]\<rparr>) + group_work (br_groups s ! g)
    = batch_work s + group_work gr"
proof -
  have "sum_list (map group_work (br_groups s))
      = sum_list (map group_work (take g (br_groups s) @ br_groups s ! g # drop (Suc g) (br_groups s)))"
    using id_take_nth_drop [OF assms] by simp
  with assms show ?thesis by (simp add: batch_work_def upd_conv_take_nth_drop)
qed

lemma tool_step_work: "tool_step run s t \<Longrightarrow> batch_work s = Suc (batch_work t)"
proof (induction rule: tool_step.induct)
  case (Begin g s)
  let ?gr = "br_groups s ! g"
  let ?gr' = "?gr\<lparr>gr_current := Some (hd (gr_todo ?gr)), gr_todo := tl (gr_todo ?gr)\<rparr>"
  have "group_work ?gr = Suc (group_work ?gr')"
    using Begin by (cases "gr_todo ?gr") (auto simp: group_work_def)
  with batch_work_update [OF Begin(1), where m = "br_permits s - 1" and gr = ?gr'] show ?case
    by (simp add: begin_call_def Let_def)
next
  case (End g s)
  let ?gr = "br_groups s ! g" and ?i = "the (gr_current (br_groups s ! g))"
  let ?gr' = "?gr\<lparr>gr_current := None, gr_out := gr_out ?gr @ [(?i, run ?i)]\<rparr>"
  have "group_work ?gr = Suc (group_work ?gr')" using End by (auto simp: group_work_def)
  with batch_work_update [OF End(1), where m = "br_permits s + 1" and gr = ?gr'] show ?case
    by (simp add: end_call_def Let_def)
qed

lemma tool_steps_work: "(tool_step run ^^ k) s t \<Longrightarrow> batch_work s = k + batch_work t"
  by (induction k arbitrary: t) (auto dest: tool_step_work)

lemma batch_work_done: "batch_work s = 0 \<longleftrightarrow> batch_done s"
  by (auto simp: batch_work_def batch_done_def group_work_def split: if_splits)

lemma start_work: "batch_work (schedule_start n classes config) = 2 * n"
proof -
  have "sum_list (map group_work (map group_start gs)) = 2 * length (concat gs)" for gs
    by (induction gs) (auto simp: group_work_def group_start_def)
  moreover have "length (concat (batch_groups n classes config)) = n"
    using mset_eq_length [OF batch_groups_partition(1)] by simp
  moreover have "br_groups (schedule_start n classes config) = map group_start (batch_groups n classes config)"
    by (simp add: schedule_start_def batch_groups_def)
  ultimately show ?thesis unfolding batch_work_def by metis
qed

lemma tool_step_progress:
  assumes "batch_inv run gs cap s" and "0 < cap" and "\<not> batch_done s"
  shows "\<exists>t. tool_step run s t"
proof -
  obtain g where g: "g < length (br_groups s)"
    "gr_todo (br_groups s ! g) \<noteq> [] \<or> gr_current (br_groups s ! g) \<noteq> None"
    using assms(3) by (auto simp: batch_done_def in_set_conv_nth)
  show ?thesis
  proof (cases "in_flight s = []")
    case True
    with g(1) have "gr_current (br_groups s ! g) \<noteq> Some i" for i
      using in_flight_iff [of i s] by auto
    then have "gr_current (br_groups s ! g) = None" by (cases "gr_current (br_groups s ! g)") auto
    with g assms(1,2) True show ?thesis by (auto simp: batch_inv_def intro: Begin)
  next
    case False
    then obtain i where "i \<in> set (in_flight s)" by (cases "in_flight s") auto
    then show ?thesis by (auto simp: in_flight_iff intro: End)
  qed
qed

lemma done_results:
  assumes "batch_inv run (batch_groups n classes config) cap s" and "batch_done s"
  shows "batch_results s = map run [0..<n]"
proof -
  let ?f = "\<lambda>i. (i, run i)"
  have "gr_out gr = map ?f (group_calls gr)" if "gr \<in> set (br_groups s)" for gr
  proof -
    have "group_calls gr = map fst (gr_out gr)" "\<forall>(i, r) \<in> set (gr_out gr). r = run i"
      using that assms by (auto simp: batch_done_def batch_inv_def group_calls_def)
    then show ?thesis by (auto simp: comp_def case_prod_beta intro!: map_idI [symmetric])
  qed
  then have "concat (map gr_out (br_groups s)) = concat (map (\<lambda>gr. map ?f (group_calls gr)) (br_groups s))"
    by (intro arg_cong [of _ _ concat] map_cong) auto
  also have "\<dots> = map ?f (concat (map group_calls (br_groups s)))"
    by (simp add: map_concat comp_def)
  also have "map group_calls (br_groups s) = batch_groups n classes config"
    using assms(1) by (simp add: batch_inv_def)
  finally have c: "concat (map gr_out (br_groups s)) = map ?f (concat (batch_groups n classes config))" .
  have "sort_key fst (map ?f (concat (batch_groups n classes config))) = map ?f [0..<n]"
    by (rule sort_key_inj_key_eq)
      (use batch_groups_partition(1) [of n classes config] in \<open>auto simp: inj_on_def comp_def mset_map\<close>)
  with c show ?thesis by (simp add: batch_results_def comp_def)
qed

section \<open>Example\<close>

text \<open>Two calls of one class.\<close>

definition demo_classes :: "string option list" where
  "demo_classes = [Some ''db'', Some ''db'']"

definition demo_schedule :: schedule_config where
  "demo_schedule = \<lparr>sg_max_concurrency = 2, sg_serialize_all = False\<rparr>"

lemma batch_demo_start:
  "schedule_start 2 demo_classes demo_schedule = \<lparr>br_permits = 2, br_groups = [group_start [0, 1]]\<rparr>"
  by (simp add: schedule_start_def demo_classes_def demo_schedule_def upt_rec key_of_def)

lemma batch_demo_begin:
  "tool_step run (schedule_start 2 demo_classes demo_schedule) (begin_call 0 (schedule_start 2 demo_classes demo_schedule))"
  by (rule Begin) (simp_all add: batch_demo_start group_start_def)

lemma batch_demo_run:
  "\<exists>s. (tool_step run ^^ 4) (schedule_start 2 demo_classes demo_schedule) s"
proof -
  let ?s0 = "\<lparr>br_permits = 2, br_groups = [group_start [0, 1]]\<rparr>"
  let ?s1 = "begin_call 0 ?s0" and ?s2 = "end_call run 0 (begin_call 0 ?s0)"
  let ?s3 = "begin_call 0 ?s2"
  have "tool_step run ?s0 ?s1" by (rule Begin) (simp_all add: group_start_def)
  moreover have "tool_step run ?s1 ?s2" by (rule End) (simp_all add: begin_call_def Let_def)
  moreover have "tool_step run ?s2 ?s3"
    by (rule Begin) (simp_all add: begin_call_def end_call_def group_start_def Let_def)
  moreover have "tool_step run ?s3 (end_call run 0 ?s3)"
    by (rule End) (simp_all add: begin_call_def end_call_def group_start_def Let_def)
  ultimately have "(tool_step run ^^ Suc (Suc (Suc (Suc 0)))) ?s0 (end_call run 0 ?s3)" by auto
  moreover have four: "Suc (Suc (Suc (Suc 0))) = 4" by simp
  ultimately show ?thesis unfolding batch_demo_start four by blast
qed

section \<open>Properties\<close>

text \<open>
  C4. A batch of tool calls terminates with its results in call order: from the start, every
  sequence of steps has at most two per call; as long as the batch is not through some call can
  start or end, whatever the cap and the classes; and when it is through, which is exactly after
  two steps per call, the results are those of the calls \<open>0, \<dots>, n - 1\<close> in this order, each run
  once.
\<close>

theorem schedule_terminates_in_order:
  assumes "(tool_step run ^^ k) (schedule_start n classes config) s"
  shows "k \<le> 2 * n \<and> (batch_done s \<longleftrightarrow> k = 2 * n) \<and> (batch_done s \<or> (\<exists>t. tool_step run s t))
    \<and> (batch_done s \<longrightarrow> batch_results s = map run [0..<n])"
proof -
  have inv: "batch_inv run (batch_groups n classes config) (call_cap n config) s"
    using assms by (intro reachable_batch_inv) (rule relpowp_imp_rtranclp)
  have "2 * n = k + batch_work s" using tool_steps_work [OF assms] by (simp add: start_work)
  moreover have "0 < call_cap n config" by (auto simp: call_cap_def)
  ultimately show ?thesis
    using tool_step_progress [OF inv] done_results [OF inv] batch_work_done [of s] by auto
qed

theorem schedule_terminates_in_order_witness:
  "\<exists>s. (tool_step Suc ^^ 4) (schedule_start 2 demo_classes demo_schedule) s \<and> batch_results s = [1, 2]"
proof -
  obtain s where s: "(tool_step Suc ^^ 4) (schedule_start 2 demo_classes demo_schedule) s"
    using batch_demo_run by blast
  from schedule_terminates_in_order [OF s] have "batch_results s = map Suc [0..<2]" by simp
  with s show ?thesis by (auto simp: upt_rec)
qed

text \<open>
  C5. The scheduler keeps conflicting calls apart: at every moment no call is in flight twice, at
  most the cap is in flight (one in sequential mode), no two calls of the same class are, and a
  call of a class starts only after every earlier call of that class has ended.
\<close>

theorem schedule_keeps_classes_apart:
  assumes "(tool_step run)\<^sup>*\<^sup>* (schedule_start n classes config) s"
  shows "distinct (in_flight s) \<and> length (in_flight s) \<le> call_cap n config
    \<and> (\<forall>i j k. i \<in> set (in_flight s) \<longrightarrow> j \<in> set (in_flight s) \<longrightarrow>
        key_of classes i = Some k \<longrightarrow> key_of classes j = Some k \<longrightarrow> i = j)
    \<and> (\<forall>i j k. i < j \<longrightarrow> j < n \<longrightarrow> key_of classes i = Some k \<longrightarrow> key_of classes j = Some k \<longrightarrow>
        j \<in> set (in_flight s) \<union> ended s \<longrightarrow> i \<in> ended s)"
proof -
  note inv = reachable_batch_inv [OF assms]
  have "length (in_flight s) \<le> call_cap n config" using inv by (simp add: batch_inv_def)
  with in_flight_distinct [OF inv] exclusive_classes [OF inv] arrival_order [OF inv] show ?thesis by blast
qed

theorem schedule_keeps_classes_apart_witness:
  "\<exists>s. (tool_step Suc)\<^sup>*\<^sup>* (schedule_start 2 demo_classes demo_schedule) s
    \<and> 0 \<in> set (in_flight s) \<and> 1 \<notin> set (in_flight s)"
proof -
  let ?s = "begin_call 0 (schedule_start 2 demo_classes demo_schedule :: nat batch_run)"
  have run: "(tool_step Suc)\<^sup>*\<^sup>* (schedule_start 2 demo_classes demo_schedule) ?s"
    by (rule r_into_rtranclp) (rule batch_demo_begin)
  have "0 \<in> set (in_flight ?s)"
    by (simp add: in_flight_def begin_call_def batch_demo_start group_start_def Let_def)
  moreover have "key_of demo_classes 0 = Some ''db''" "key_of demo_classes 1 = Some ''db''"
    by (simp_all add: key_of_def demo_classes_def)
  ultimately have "1 \<notin> set (in_flight ?s)"
    using schedule_keeps_classes_apart [OF run, THEN conjunct2, THEN conjunct2, THEN conjunct1,
      rule_format, of 0 1 "''db''"] by auto
  with run \<open>0 \<in> set (in_flight ?s)\<close> show ?thesis by blast
qed

end
