(* ===== verification/Session_Task.thy ===== *)
theory Session_Task
  imports Workflow_Types Text
begin

text \<open>
  Session tasks (\<open>crates/core/src/session_task.rs\<close>): the record of a background task owned by a
  session, its lifecycle states, and \<open>apply_task_update\<close>, the function through which every registry
  backend changes a task. Identifiers of tasks and messages are strings, those of sessions numbers;
  \<open>attempt\<close> is an \<open>i32\<close> that wraps.
\<close>

section \<open>Data\<close>

definition TASK_KIND_SUBAGENT :: string where "TASK_KIND_SUBAGENT = ''subagent''"

definition TASK_KIND_SESSION :: string where "TASK_KIND_SESSION = ''session''"

definition TASK_KIND_AGENT_HANDOFF :: string where "TASK_KIND_AGENT_HANDOFF = ''agent_handoff''"

definition TASK_KIND_EXTERNAL_AGENT :: string where "TASK_KIND_EXTERNAL_AGENT = ''external_agent''"

definition TASK_KIND_BACKGROUND_TOOL :: string where "TASK_KIND_BACKGROUND_TOOL = ''background_tool''"

definition TASK_KIND_MONITOR :: string where "TASK_KIND_MONITOR = ''monitor''"

datatype session_task_state =
  TaskQueued | TaskRunning | TaskAwaitingInput | TaskSucceeded | TaskFailed | TaskCanceled

definition task_is_terminal :: "session_task_state \<Rightarrow> bool" where
  "task_is_terminal s \<longleftrightarrow> s = TaskSucceeded \<or> s = TaskFailed \<or> s = TaskCanceled"

definition task_state_parse :: "string \<Rightarrow> session_task_state option" where
  "task_state_parse s =
     (if s = ''queued'' then Some TaskQueued
      else if s = ''running'' then Some TaskRunning
      else if s = ''awaiting_input'' then Some TaskAwaitingInput
      else if s = ''succeeded'' then Some TaskSucceeded
      else if s = ''failed'' then Some TaskFailed
      else if s = ''canceled'' then Some TaskCanceled
      else None)"

fun task_state_text :: "session_task_state \<Rightarrow> string" where
  "task_state_text TaskQueued = ''queued''"
| "task_state_text TaskRunning = ''running''"
| "task_state_text TaskAwaitingInput = ''awaiting_input''"
| "task_state_text TaskSucceeded = ''succeeded''"
| "task_state_text TaskFailed = ''failed''"
| "task_state_text TaskCanceled = ''canceled''"

definition task_state_from :: "string \<Rightarrow> session_task_state" where
  "task_state_from s =
     (if s = ''running'' then TaskRunning
      else if s = ''awaiting_input'' then TaskAwaitingInput
      else if s = ''succeeded'' then TaskSucceeded
      else if s = ''failed'' then TaskFailed
      else if s = ''canceled'' then TaskCanceled
      else TaskQueued)"

datatype task_wake_policy = Silent | OnTerminal | OnActivity

record task_progress =
  tp_current :: "nat option"
  tp_total :: "nat option"
  tp_unit :: "string option"
  tp_label :: "string option"

record task_input_request =
  ir_id :: string
  ir_prompt :: string
  ir_expected :: "json option"

record task_error =
  te_kind :: string
  te_message :: string

record task_artifact =
  ta_name :: string
  ta_artifact_type :: string
  ta_path :: "string option"
  ta_url :: "string option"

record task_links =
  tl_child_session_id :: "uuid option"
  tl_remote_task_id :: "string option"
  tl_resource_ids :: "string list"

definition no_links :: task_links where
  "no_links = \<lparr>tl_child_session_id = None, tl_remote_task_id = None, tl_resource_ids = []\<rparr>"

definition links_is_empty :: "task_links \<Rightarrow> bool" where
  "links_is_empty l \<longleftrightarrow>
     tl_child_session_id l = None \<and> tl_remote_task_id l = None \<and> tl_resource_ids l = []"

record session_task =
  st_id :: string
  st_session_id :: uuid
  st_root_session_id :: "uuid option"
  st_kind :: string
  st_display_name :: string
  st_spec :: json
  st_state :: session_task_state
  st_state_detail :: "string option"
  st_progress :: "task_progress option"
  st_input_request :: "task_input_request option"
  st_cancel_requested_at :: "timestamp option"
  st_summary :: "string option"
  st_result_path :: "string option"
  st_artifacts :: "task_artifact list"
  st_error :: "task_error option"
  st_attempt :: int
  st_worker_id :: "string option"
  st_heartbeat_at :: "timestamp option"
  st_links :: task_links
  st_wake_policy :: task_wake_policy
  st_created_at :: timestamp
  st_started_at :: "timestamp option"
  st_finished_at :: "timestamp option"
  st_updated_at :: timestamp

text \<open>
  The public form of a task's specification: a \<open>secret\<close> of a push configuration is replaced by a
  mark that there is one. JSON objects are association lists.
\<close>

definition redact_config :: "json \<Rightarrow> json" where
  "redact_config config =
     (case config of
        JObject m \<Rightarrow>
          JObject (if hm_get m ''secret'' \<noteq> None
                   then hm_insert ''has_secret'' (JBool True) (hm_remove ''secret'' m) else m)
      | _ \<Rightarrow> config)"

definition redacted_public_task_spec :: "json \<Rightarrow> json" where
  "redacted_public_task_spec spec =
     (case spec of
        JObject m \<Rightarrow>
          (case hm_get m ''push_configs'' of
             Some (JArray configs) \<Rightarrow>
               JObject (hm_adjust ''push_configs'' (\<lambda>_. JArray (map redact_config configs)) m)
           | _ \<Rightarrow> spec)
      | _ \<Rightarrow> spec)"

record create_session_task =
  ct_session_id :: uuid
  ct_id :: "string option"
  ct_kind :: string
  ct_display_name :: string
  ct_spec :: json
  ct_state :: session_task_state
  ct_links :: task_links
  ct_wake_policy :: task_wake_policy

record session_task_update =
  su_state :: "session_task_state option"
  su_state_detail :: "string option"
  su_progress :: "task_progress option"
  su_input_request :: "task_input_request option"
  su_summary :: "string option"
  su_result_path :: "string option"
  su_artifacts :: "task_artifact list option"
  su_append_artifact :: "task_artifact option"
  su_error :: "task_error option"
  su_links :: "task_links option"
  su_worker_id :: "string option"
  su_heartbeat_at :: "timestamp option"
  su_expected_attempt :: "int option"
  su_increment_attempt :: bool

definition no_update :: session_task_update where
  "no_update =
     \<lparr>su_state = None, su_state_detail = None, su_progress = None, su_input_request = None,
      su_summary = None, su_result_path = None, su_artifacts = None, su_append_artifact = None,
      su_error = None, su_links = None, su_worker_id = None, su_heartbeat_at = None,
      su_expected_attempt = None, su_increment_attempt = False\<rparr>"

record session_task_filter =
  sf_kind :: "string option"
  sf_state :: "session_task_state option"

section \<open>Updates\<close>

text \<open>The state change of an update, with the timestamps it stamps.\<close>

definition enter_task_state :: "timestamp \<Rightarrow> session_task_state \<Rightarrow> session_task \<Rightarrow> session_task" where
  "enter_task_state now state task =
     task\<lparr>st_started_at :=
            (if st_state task = TaskQueued \<and> state \<noteq> TaskQueued
             then option_or (st_started_at task) (Some now) else st_started_at task),
          st_finished_at :=
            (if task_is_terminal state then option_or (st_finished_at task) (Some now)
             else st_finished_at task),
          st_input_request := (if state \<noteq> TaskAwaitingInput then None else st_input_request task),
          st_state := state\<rparr>"

fun push_missing :: "string list \<Rightarrow> string list \<Rightarrow> string list" where
  "push_missing ids [] = ids"
| "push_missing ids (i # new) = push_missing (if i \<in> set ids then ids else ids @ [i]) new"

definition merge_links :: "task_links \<Rightarrow> task_links \<Rightarrow> task_links" where
  "merge_links old new =
     \<lparr>tl_child_session_id = option_or (tl_child_session_id new) (tl_child_session_id old),
      tl_remote_task_id = option_or (tl_remote_task_id new) (tl_remote_task_id old),
      tl_resource_ids = push_missing (tl_resource_ids old) (tl_resource_ids new)\<rparr>"

text \<open>The content fields of an update.\<close>

definition apply_content :: "session_task_update \<Rightarrow> timestamp \<Rightarrow> session_task \<Rightarrow> session_task" where
  "apply_content update now task =
     task\<lparr>st_state_detail := option_or (su_state_detail update) (st_state_detail task),
          st_progress := option_or (su_progress update) (st_progress task),
          st_summary := option_or (su_summary update) (st_summary task),
          st_result_path := option_or (su_result_path update) (st_result_path task),
          st_artifacts :=
            get_or (st_artifacts task) (su_artifacts update)
            @ (case su_append_artifact update of Some a \<Rightarrow> [a] | None \<Rightarrow> []),
          st_error := option_or (su_error update) (st_error task),
          st_links :=
            (case su_links update of Some l \<Rightarrow> merge_links (st_links task) l | None \<Rightarrow> st_links task),
          st_worker_id := option_or (su_worker_id update) (st_worker_id task),
          st_heartbeat_at := option_or (su_heartbeat_at update) (st_heartbeat_at task),
          st_updated_at := now\<rparr>"

text \<open>A write fenced on another attempt, and one that asks a finished task for another state.\<close>

definition fenced :: "int option \<Rightarrow> session_task \<Rightarrow> bool" where
  "fenced expected task \<longleftrightarrow> (case expected of Some e \<Rightarrow> e \<noteq> st_attempt task | None \<Rightarrow> False)"

definition asks_other_state :: "session_task_update \<Rightarrow> session_task \<Rightarrow> bool" where
  "asks_other_state update task \<longleftrightarrow>
     (case su_state update of Some s \<Rightarrow> s \<noteq> st_state task | None \<Rightarrow> False)"

definition apply_task_update :: "session_task \<Rightarrow> session_task_update \<Rightarrow> timestamp \<Rightarrow> session_task" where
  "apply_task_update task update now =
     (if fenced (su_expected_attempt update) task then task
      else
        let was_terminal = task_is_terminal (st_state task) in
        if was_terminal \<and> asks_other_state update task then task
        else
          let task =
                (if su_increment_attempt update
                 then task\<lparr>st_attempt := wrap_i32 (st_attempt task + 1)\<rparr> else task);
              next_state =
                (if su_input_request update \<noteq> None \<and> \<not> was_terminal then Some TaskAwaitingInput
                 else su_state update);
              task =
                (if su_input_request update \<noteq> None \<and> \<not> was_terminal
                 then task\<lparr>st_input_request := su_input_request update\<rparr> else task);
              task =
                (case next_state of
                   Some state \<Rightarrow>
                     if \<not> was_terminal \<and> st_state task \<noteq> state then enter_task_state now state task
                     else task
                 | None \<Rightarrow> task)
          in apply_content update now task)"

definition new_session_task :: "string \<Rightarrow> create_session_task \<Rightarrow> timestamp \<Rightarrow> session_task" where
  "new_session_task fresh_id input now =
     \<lparr>st_id = get_or fresh_id (ct_id input), st_session_id = ct_session_id input,
      st_root_session_id = None, st_kind = ct_kind input, st_display_name = ct_display_name input,
      st_spec = ct_spec input, st_state = ct_state input, st_state_detail = None, st_progress = None,
      st_input_request = None, st_cancel_requested_at = None, st_summary = None,
      st_result_path = None, st_artifacts = [], st_error = None, st_attempt = 1, st_worker_id = None,
      st_heartbeat_at = None, st_links = ct_links input, st_wake_policy = ct_wake_policy input,
      st_created_at = now,
      st_started_at = (if ct_state input = TaskQueued then None else Some now),
      st_finished_at = (if task_is_terminal (ct_state input) then Some now else None),
      st_updated_at = now\<rparr>"

section \<open>Messages\<close>

datatype task_message_direction = Inbound | Outbound

fun direction_text :: "task_message_direction \<Rightarrow> string" where
  "direction_text Inbound = ''inbound''"
| "direction_text Outbound = ''outbound''"

definition direction_from :: "string \<Rightarrow> task_message_direction" where
  "direction_from s = (if s = ''outbound'' then Outbound else Inbound)"

datatype task_message_part = TextPart string | DataPart json

record task_message =
  mg_id :: string
  mg_task_id :: string
  mg_direction :: task_message_direction
  mg_content :: "task_message_part list"
  mg_in_reply_to :: "string option"
  mg_created_at :: timestamp

record new_task_message =
  nm_direction :: task_message_direction
  nm_content :: "task_message_part list"
  nm_in_reply_to :: "string option"
  nm_expected_attempt :: "int option"

definition inbound_text :: "string \<Rightarrow> new_task_message" where
  "inbound_text t =
     \<lparr>nm_direction = Inbound, nm_content = [TextPart t], nm_in_reply_to = None, nm_expected_attempt = None\<rparr>"

definition outbound_text :: "string \<Rightarrow> new_task_message" where
  "outbound_text t =
     \<lparr>nm_direction = Outbound, nm_content = [TextPart t], nm_in_reply_to = None, nm_expected_attempt = None\<rparr>"

definition with_expected_attempt :: "int \<Rightarrow> new_task_message \<Rightarrow> new_task_message" where
  "with_expected_attempt attempt m = m\<lparr>nm_expected_attempt := Some attempt\<rparr>"

definition task_message_text :: "task_message_part list \<Rightarrow> string" where
  "task_message_text content =
     join_text [CHR 0x0A] (List.map_filter (\<lambda>p. case p of TextPart t \<Rightarrow> Some t | DataPart _ \<Rightarrow> None) content)"

definition task_vfs_dir :: "string \<Rightarrow> string" where
  "task_vfs_dir task_id = ''/.tasks/'' @ task_id"

definition task_result_path :: "string \<Rightarrow> string" where
  "task_result_path task_id = ''/.tasks/'' @ task_id @ ''/result.json''"

section \<open>Lemmas\<close>

named_theorems task_simps \<open>what an update does to the fields of a task\<close>

definition rejected :: "session_task_update \<Rightarrow> session_task \<Rightarrow> bool" where
  "rejected update task \<longleftrightarrow>
     fenced (su_expected_attempt update) task
     \<or> task_is_terminal (st_state task) \<and> asks_other_state update task"

lemma apply_rejected: "rejected u t \<Longrightarrow> apply_task_update t u now = t"
  by (auto simp: rejected_def apply_task_update_def Let_def)

text \<open>The state an accepted update leads to.\<close>

definition next_task_state :: "session_task_update \<Rightarrow> session_task \<Rightarrow> session_task_state" where
  "next_task_state u t =
     (if fenced (su_expected_attempt u) t \<or> task_is_terminal (st_state t) then st_state t
      else if su_input_request u \<noteq> None then TaskAwaitingInput
      else get_or (st_state t) (su_state u))"

lemma apply_state [task_simps]: "st_state (apply_task_update t u now) = next_task_state u t"
  by (auto simp: apply_task_update_def next_task_state_def apply_content_def enter_task_state_def Let_def
      split: option.split)

lemma apply_attempt [task_simps]:
  "st_attempt (apply_task_update t u now) =
    (if \<not> rejected u t \<and> su_increment_attempt u then wrap_i32 (st_attempt t + 1) else st_attempt t)"
  by (auto simp: apply_task_update_def rejected_def apply_content_def enter_task_state_def Let_def
      split: option.split)

lemma apply_identity [task_simps]:
  "st_id (apply_task_update t u now) = st_id t"
  "st_session_id (apply_task_update t u now) = st_session_id t"
  "st_wake_policy (apply_task_update t u now) = st_wake_policy t"
  "st_kind (apply_task_update t u now) = st_kind t"
  "st_spec (apply_task_update t u now) = st_spec t"
  "st_created_at (apply_task_update t u now) = st_created_at t"
  "st_display_name (apply_task_update t u now) = st_display_name t"
  "st_cancel_requested_at (apply_task_update t u now) = st_cancel_requested_at t"
  by (auto simp: apply_task_update_def apply_content_def enter_task_state_def Let_def split: option.split)

lemma apply_finished [task_simps]:
  "st_finished_at (apply_task_update t u now) =
    (if \<not> task_is_terminal (st_state t) \<and> task_is_terminal (next_task_state u t)
     then option_or (st_finished_at t) (Some now) else st_finished_at t)"
  by (auto simp: apply_task_update_def next_task_state_def apply_content_def enter_task_state_def Let_def
      split: option.split)

lemma apply_started [task_simps]:
  "st_started_at (apply_task_update t u now) =
    (if st_state t = TaskQueued \<and> next_task_state u t \<noteq> TaskQueued
     then option_or (st_started_at t) (Some now) else st_started_at t)"
  by (auto simp: apply_task_update_def next_task_state_def apply_content_def enter_task_state_def
      task_is_terminal_def Let_def split: option.split)

lemma apply_input_request [task_simps]:
  "st_input_request (apply_task_update t u now) =
    (if rejected u t \<or> task_is_terminal (st_state t) then st_input_request t
     else if su_input_request u \<noteq> None then su_input_request u
     else if next_task_state u t = st_state t \<or> next_task_state u t = TaskAwaitingInput
     then st_input_request t else None)"
  by (auto simp: apply_task_update_def rejected_def next_task_state_def apply_content_def enter_task_state_def
      Let_def split: option.split)

lemma next_state_terminal: "task_is_terminal (st_state t) \<Longrightarrow> next_task_state u t = st_state t"
  by (simp add: next_task_state_def)

lemma fenced_rejected: "fenced (su_expected_attempt u) t \<Longrightarrow> rejected u t"
  by (simp add: rejected_def)

text \<open>The lifecycle invariant of a task record.\<close>

definition task_wf :: "session_task \<Rightarrow> bool" where
  "task_wf t \<longleftrightarrow>
     (task_is_terminal (st_state t) \<longleftrightarrow> st_finished_at t \<noteq> None)
     \<and> (st_input_request t \<noteq> None \<longrightarrow> st_state t = TaskAwaitingInput)
     \<and> (st_state t \<noteq> TaskQueued \<longrightarrow> st_started_at t \<noteq> None)"

lemma new_task_wf [intro]: "task_wf (new_session_task i input now)"
  by (simp add: task_wf_def new_session_task_def)

lemma apply_wf [intro]:
  assumes "task_wf t"
  shows "task_wf (apply_task_update t u now)"
proof (cases "rejected u t")
  case True
  with assms show ?thesis by (simp add: apply_rejected)
next
  case False
  let ?s = "next_task_state u t"
  have started: "?s \<noteq> TaskQueued \<longrightarrow> st_started_at (apply_task_update t u now) \<noteq> None"
    using assms by (auto simp: task_wf_def apply_started)
  show ?thesis
  proof (cases "task_is_terminal (st_state t)")
    case True
    then have "?s = st_state t" by (rule next_state_terminal)
    with True assms started show ?thesis
      by (simp add: task_wf_def apply_state apply_finished apply_input_request)
  next
    case active: False
    have "st_input_request (apply_task_update t u now) \<noteq> None \<longrightarrow> ?s = TaskAwaitingInput"
      using assms False active
      by (cases "su_state u") (auto simp: task_wf_def apply_input_request next_task_state_def rejected_def)
    with assms started active show ?thesis by (auto simp: task_wf_def apply_state apply_finished)
  qed
qed

lemma task_state_roundtrip: "task_state_parse (task_state_text s) = Some s" "task_state_from (task_state_text s) = s"
  by (cases s; simp add: task_state_parse_def task_state_from_def)+

lemma task_state_parse_strict: "task_state_parse w = Some s \<Longrightarrow> task_state_text s = w"
  by (auto simp: task_state_parse_def split: if_splits)

lemma push_missing_set [simp]: "set (push_missing ids new) = set ids \<union> set new"
  by (induction new arbitrary: ids) auto

lemma push_missing_distinct: "distinct ids \<Longrightarrow> distinct (push_missing ids new)"
  by (induction new arbitrary: ids) auto

lemma redact_no_secret: "redact_config c = JObject m \<Longrightarrow> hm_get m ''secret'' = None"
  by (auto simp: redact_config_def split: json.splits if_splits)

text \<open>Sequences of updates.\<close>

definition apply_all :: "session_task \<Rightarrow> (session_task_update \<times> timestamp) list \<Rightarrow> session_task" where
  "apply_all t us = foldl (\<lambda>t (u, now). apply_task_update t u now) t us"

lemma apply_all_simps [simp]:
  "apply_all t [] = t" "apply_all t ((u, now) # us) = apply_all (apply_task_update t u now) us"
  "apply_all t (us @ [(u, now)]) = apply_task_update (apply_all t us) u now"
  by (simp_all add: apply_all_def)

lemma apply_all_terminal:
  "task_is_terminal (st_state t) \<Longrightarrow>
    st_state (apply_all t us) = st_state t \<and> st_finished_at (apply_all t us) = st_finished_at t"
  by (induction us arbitrary: t) (auto simp: task_simps next_state_terminal)

lemma attempt_step:
  assumes "1 \<le> st_attempt t" and "st_attempt t + 1 < 2 ^ 31"
  shows "st_attempt t \<le> st_attempt (apply_task_update t u now)"
    and "st_attempt (apply_task_update t u now) \<le> st_attempt t + 1"
  using assms by (simp_all add: task_simps)

text \<open>Writes of a superseded attempt can be dropped from any sequence.\<close>

lemma apply_all_drop_stale:
  assumes "1 \<le> st_attempt t" and "e < st_attempt t" and "st_attempt t + int (length us) < 2 ^ 31"
  shows "apply_all t us = apply_all t (filter (\<lambda>(u, _). su_expected_attempt u \<noteq> Some e) us)"
  using assms
proof (induction us arbitrary: t)
  case (Cons p us)
  obtain u now where p: "p = (u, now)" by (cases p)
  let ?t = "apply_task_update t u now"
  have bounds: "st_attempt t \<le> st_attempt ?t" "st_attempt ?t \<le> st_attempt t + 1"
    using Cons.prems by (simp_all add: attempt_step)
  show ?case
  proof (cases "su_expected_attempt u = Some e")
    case True
    with Cons.prems have "rejected u t" by (simp add: rejected_def fenced_def)
    with True Cons.IH [of t] Cons.prems p show ?thesis by (simp add: apply_rejected)
  next
    case False
    have "apply_all ?t us = apply_all ?t (filter (\<lambda>(u, _). su_expected_attempt u \<noteq> Some e) us)"
      using Cons.prems bounds by (intro Cons.IH) auto
    with False p show ?thesis by simp
  qed
qed simp

subsection \<open>Example\<close>

definition demo_input :: create_session_task where
  "demo_input =
     \<lparr>ct_session_id = 5, ct_id = Some ''task_a'', ct_kind = ''subagent'', ct_display_name = ''A'',
      ct_spec = JNull, ct_state = TaskRunning, ct_links = no_links, ct_wake_policy = OnTerminal\<rparr>"

definition demo_finish :: session_task_update where
  "demo_finish = no_update\<lparr>su_state := Some TaskSucceeded, su_expected_attempt := Some 1\<rparr>"

definition demo_reap :: session_task_update where
  "demo_reap = no_update\<lparr>su_state := Some TaskFailed, su_expected_attempt := Some 1, su_increment_attempt := True\<rparr>"

definition demo_reaped :: session_task where
  "demo_reaped = apply_task_update (new_session_task ''x'' demo_input 0) demo_reap 5"

lemma demo_reaped_facts: "st_state demo_reaped = TaskFailed" "st_attempt demo_reaped = 2"
  by (simp_all add: demo_reaped_def task_simps next_task_state_def rejected_def fenced_def asks_other_state_def
      demo_reap_def no_update_def new_session_task_def demo_input_def task_is_terminal_def)

section \<open>Properties\<close>

text \<open>
  C35. The lifecycle of a task is well formed whatever its backend applies: creation establishes, and
  every sequence of updates keeps, that a task has an end time exactly when it is terminal, a pending
  question only while it awaits input, and a start time once it has left the queue.
\<close>

theorem task_lifecycle_wf: "task_wf (apply_all (new_session_task i input born) updates)"
proof (induction updates rule: rev_induct)
  case Nil
  show ?case by (simp add: new_task_wf)
next
  case (snoc p updates)
  then show ?case by (cases p) (simp add: apply_wf)
qed

text \<open>
  C23. Terminal states are final: no sequence of updates moves a finished task to another state or moves
  its end time, and an update that asks it for another state changes nothing at all, not even its
  content.
\<close>

theorem terminal_state_final:
  assumes "task_is_terminal (st_state t)"
  shows "st_state (apply_all t updates) = st_state t \<and> st_finished_at (apply_all t updates) = st_finished_at t
    \<and> (su_state u \<notin> {None, Some (st_state t)} \<longrightarrow> apply_task_update t u now = t)"
proof -
  have "apply_task_update t u now = t" if "su_state u \<notin> {None, Some (st_state t)}"
    using that assms by (intro apply_rejected) (auto simp: rejected_def asks_other_state_def split: option.split)
  then show ?thesis using apply_all_terminal [OF assms, of updates] by blast
qed

theorem terminal_state_final_witness:
  "apply_task_update demo_reaped (no_update\<lparr>su_state := Some TaskSucceeded\<rparr>) 9 = demo_reaped"
proof -
  have "task_is_terminal (st_state demo_reaped)" by (simp add: demo_reaped_facts task_is_terminal_def)
  from terminal_state_final [OF this, of "[]" "no_update\<lparr>su_state := Some TaskSucceeded\<rparr>" 9]
  show ?thesis by (simp add: demo_reaped_facts)
qed

text \<open>
  Superseded executors are fenced off. Once the attempt of a task has passed \<open>e\<close>, the writes of the
  executor that holds attempt \<open>e\<close> can be dropped from any interleaving with other writers: the task
  ends up the same with and without them.
\<close>

theorem stale_writes_void:
  assumes "1 \<le> st_attempt t" and "e < st_attempt t" and "st_attempt t + int (length updates) < 2 ^ 31"
  shows "apply_all t updates = apply_all t (filter (\<lambda>(u, _). su_expected_attempt u \<noteq> Some e) updates)"
  using assms by (rule apply_all_drop_stale)

theorem stale_writes_void_witness: "apply_all demo_reaped [(demo_finish, 7), (demo_finish, 8)] = demo_reaped"
proof -
  have "1 \<le> st_attempt demo_reaped" "1 < st_attempt demo_reaped"
    and "st_attempt demo_reaped + int (length [(demo_finish, 7 :: int), (demo_finish, 8)]) < 2 ^ 31"
    by (simp_all add: demo_reaped_facts)
  from stale_writes_void [OF this] show ?thesis by (simp add: demo_finish_def)
qed

end
