(* ===== verification/Task_Registry.thy ===== *)
theory Task_Registry
  imports Session_Task
begin

text \<open>
  The registry of session tasks: the interface (\<open>SessionTaskRegistry\<close> of \<open>core/src/session_task.rs\<close>)
  as a record of operations with its laws in the locale \<open>task_registry\<close>, the report plane
  (\<open>RegistryTaskSink\<close>) on top of it, and the SQLite registry of local hosts
  (\<open>everruns/src/local/task_registry.rs\<close>) that provides it. Its two tables are lists in the order of
  their row numbers; a stored snapshot is the record itself. Fresh identifiers and clock readings
  are arguments.
\<close>

section \<open>Interface\<close>

datatype task_registry_error =
    TaskUnderOtherSession string
  | NoTask string
  | StaleAttempt string int int

record 's task_api =
  api_create :: "string \<Rightarrow> timestamp \<Rightarrow> create_session_task \<Rightarrow> ('s, task_registry_error, session_task) op"
  api_update ::
    "timestamp \<Rightarrow> uuid \<Rightarrow> string \<Rightarrow> session_task_update \<Rightarrow> ('s, task_registry_error, session_task option) op"
  api_get :: "uuid \<Rightarrow> string \<Rightarrow> 's \<Rightarrow> task_registry_error + session_task option"
  api_request_cancel ::
    "timestamp \<Rightarrow> timestamp \<Rightarrow> uuid \<Rightarrow> string \<Rightarrow> ('s, task_registry_error, session_task option) op"
  api_record_message ::
    "string \<Rightarrow> timestamp \<Rightarrow> timestamp \<Rightarrow> uuid \<Rightarrow> string \<Rightarrow> new_task_message
       \<Rightarrow> ('s, task_registry_error, task_message) op"

section \<open>The report plane of running work\<close>

record registry_task_sink =
  sk_session_id :: uuid
  sk_task_id :: string
  sk_attempt :: int

definition sink_new :: "uuid \<Rightarrow> string \<Rightarrow> registry_task_sink" where
  "sink_new session_id task_id = \<lparr>sk_session_id = session_id, sk_task_id = task_id, sk_attempt = 1\<rparr>"

definition with_attempt :: "int \<Rightarrow> registry_task_sink \<Rightarrow> registry_task_sink" where
  "with_attempt attempt k = k\<lparr>sk_attempt := attempt\<rparr>"

text \<open>Every update of a sink carries its attempt; the result is discarded.\<close>

definition sink_update ::
  "'s task_api \<Rightarrow> timestamp \<Rightarrow> registry_task_sink \<Rightarrow> session_task_update \<Rightarrow> ('s, task_registry_error, unit) op" where
  "sink_update api now k u =
     bind_op (api_update api now (sk_session_id k) (sk_task_id k) (u\<lparr>su_expected_attempt := Some (sk_attempt k)\<rparr>))
       (\<lambda>_. ret_op ())"

definition sink_state ::
  "'s task_api \<Rightarrow> timestamp \<Rightarrow> registry_task_sink \<Rightarrow> session_task_state \<Rightarrow> string option
     \<Rightarrow> ('s, task_registry_error, unit) op" where
  "sink_state api now k state detail =
     sink_update api now k (no_update\<lparr>su_state := Some state, su_state_detail := detail\<rparr>)"

definition sink_progress ::
  "'s task_api \<Rightarrow> timestamp \<Rightarrow> registry_task_sink \<Rightarrow> task_progress \<Rightarrow> ('s, task_registry_error, unit) op" where
  "sink_progress api now k progress = sink_update api now k (no_update\<lparr>su_progress := Some progress\<rparr>)"

definition sink_output :: "string \<Rightarrow> string \<Rightarrow> ('s, task_registry_error, unit) op" where
  "sink_output stream delta = ret_op ()"

definition sink_post ::
  "'s task_api \<Rightarrow> string \<Rightarrow> timestamp \<Rightarrow> timestamp \<Rightarrow> registry_task_sink \<Rightarrow> new_task_message
     \<Rightarrow> ('s, task_registry_error, unit) op" where
  "sink_post api fresh now now' k message =
     bind_op (api_record_message api fresh now now' (sk_session_id k) (sk_task_id k)
         (with_expected_attempt (sk_attempt k) message))
       (\<lambda>_. ret_op ())"

definition sink_request_input ::
  "'s task_api \<Rightarrow> timestamp \<Rightarrow> registry_task_sink \<Rightarrow> task_input_request \<Rightarrow> ('s, task_registry_error, unit) op" where
  "sink_request_input api now k request = sink_update api now k (no_update\<lparr>su_input_request := Some request\<rparr>)"

definition sink_artifact ::
  "'s task_api \<Rightarrow> timestamp \<Rightarrow> registry_task_sink \<Rightarrow> task_artifact \<Rightarrow> ('s, task_registry_error, unit) op" where
  "sink_artifact api now k artifact = sink_update api now k (no_update\<lparr>su_append_artifact := Some artifact\<rparr>)"

section \<open>Laws\<close>

text \<open>What a client may rely on: the registry is a map from identifiers to tasks.\<close>

definition in_session :: "uuid \<Rightarrow> session_task option \<Rightarrow> session_task option" where
  "in_session sid found =
     (case found of Some t \<Rightarrow> if st_session_id t = sid then Some t else None | None \<Rightarrow> None)"

definition answers :: "new_task_message \<Rightarrow> session_task \<Rightarrow> bool" where
  "answers message task \<longleftrightarrow>
     nm_direction message = Inbound
     \<and> (case nm_in_reply_to message of
          Some reply \<Rightarrow> (case st_input_request task of Some req \<Rightarrow> ir_id req = reply | None \<Rightarrow> False)
        | None \<Rightarrow> False)"

definition resume_update :: session_task_update where
  "resume_update = no_update\<lparr>su_state := Some TaskRunning\<rparr>"

locale task_registry =
  fixes api :: "'s task_api"
    and ok :: "'s \<Rightarrow> bool"
    and lookup :: "'s \<Rightarrow> string \<Rightarrow> session_task option"
  assumes key_law: "ok s \<Longrightarrow> lookup s i = Some t \<Longrightarrow> st_id t = i"
    and get_law: "ok s \<Longrightarrow> api_get api sid tid s = Inr (in_session sid (lookup s tid))"
    and create_law:
      "ok s \<Longrightarrow> (ct_id input = None \<Longrightarrow> lookup s fresh = None) \<Longrightarrow> api_create api fresh now input s = (rc, s') \<Longrightarrow>
       ok s' \<and> (case lookup s (get_or fresh (ct_id input)) of
         None \<Rightarrow> rc = Inr (new_session_task fresh input now)
           \<and> lookup s' = (lookup s)(get_or fresh (ct_id input) \<mapsto> new_session_task fresh input now)
       | Some t \<Rightarrow> s' = s \<and> rc = (if st_session_id t = ct_session_id input then Inr t
           else Inl (TaskUnderOtherSession (st_id t))))"
    and update_law:
      "ok s \<Longrightarrow> api_update api now sid tid u s = (ru, s') \<Longrightarrow>
       ok s' \<and> (case in_session sid (lookup s tid) of
         None \<Rightarrow> ru = Inr None \<and> s' = s
       | Some t \<Rightarrow> ru = Inr (Some (apply_task_update t u now))
           \<and> lookup s' = (lookup s)(tid \<mapsto> apply_task_update t u now))"
    and cancel_law:
      "ok s \<Longrightarrow> api_request_cancel api now now' sid tid s = (rk, s') \<Longrightarrow>
       ok s' \<and> (case in_session sid (lookup s tid) of
         None \<Rightarrow> rk = Inr None \<and> s' = s
       | Some t \<Rightarrow> lookup s' = (lookup s)(tid \<mapsto>
           t\<lparr>st_cancel_requested_at := option_or (st_cancel_requested_at t) (Some now), st_updated_at := now'\<rparr>))"
    and message_law:
      "ok s \<Longrightarrow> api_record_message api fresh now now' sid tid m s = (rm, s') \<Longrightarrow>
       ok s' \<and> (case in_session sid (lookup s tid) of
         None \<Rightarrow> rm = Inl (NoTask tid) \<and> s' = s
       | Some t \<Rightarrow>
           if fenced (nm_expected_attempt m) t
           then rm = Inl (StaleAttempt tid (the (nm_expected_attempt m)) (st_attempt t)) \<and> s' = s
           else (\<exists>stored. rm = Inr stored)
             \<and> lookup s' = (if answers m t then (lookup s)(tid \<mapsto> apply_task_update t resume_update now')
                           else lookup s))"
begin

text \<open>A sink of a superseded attempt has no effect.\<close>

lemma stale_sink:
  assumes "ok s" and "lookup s (sk_task_id k) = Some t" and "sk_attempt k \<noteq> st_attempt t"
  shows "lookup (snd (sink_update api now k u s)) = lookup s"
    and "snd (sink_post api fresh now now' k m s) = s"
proof -
  obtain r s' where upd: "api_update api now (sk_session_id k) (sk_task_id k)
      (u\<lparr>su_expected_attempt := Some (sk_attempt k)\<rparr>) s = (r, s')"
    by fastforce
  have rej: "rejected (u\<lparr>su_expected_attempt := Some (sk_attempt k)\<rparr>) t"
    using assms(3) by (simp add: rejected_def fenced_def)
  have "lookup s' = lookup s"
    using update_law [OF assms(1) upd] assms(2)
    by (auto simp: in_session_def apply_rejected [OF rej] split: if_splits)
  with upd show "lookup (snd (sink_update api now k u s)) = lookup s"
    by (cases r) (simp_all add: sink_update_def bind_op_def)
  obtain r' s'' where msg: "api_record_message api fresh now now' (sk_session_id k) (sk_task_id k)
      (with_expected_attempt (sk_attempt k) m) s = (r', s'')"
    by fastforce
  have "s'' = s"
    using message_law [OF assms(1) msg] assms(2,3)
    by (auto simp: in_session_def with_expected_attempt_def fenced_def split: if_splits)
  with msg show "snd (sink_post api fresh now now' k m s) = s"
    by (cases r') (simp_all add: sink_post_def bind_op_def)
qed

end

section \<open>The local registry\<close>

record local_registry =
  lr_tasks :: "session_task list"
  lr_messages :: "(nat \<times> task_message) list"
  lr_next_seq :: nat

definition task_registry_new :: local_registry where
  "task_registry_new = \<lparr>lr_tasks = [], lr_messages = [], lr_next_seq = 1\<rparr>"

definition load_task :: "string \<Rightarrow> local_registry \<Rightarrow> session_task option" where
  "load_task task_id reg = find (\<lambda>t. st_id t = task_id) (lr_tasks reg)"

definition store_task :: "session_task \<Rightarrow> local_registry \<Rightarrow> local_registry" where
  "store_task task reg =
     reg\<lparr>lr_tasks :=
       (if load_task (st_id task) reg = None then lr_tasks reg @ [task]
        else map (\<lambda>t. if st_id t = st_id task then task else t) (lr_tasks reg))\<rparr>"

text \<open>
  Every operation that writes is a sequence of sections, each under one lock of the connection: a read
  of the row and then a write of a whole row. The operations are the compositions of their sections;
  between two sections of one operation another operation may run.
\<close>

definition local_create_check ::
  "create_session_task \<Rightarrow> local_registry \<Rightarrow> (task_registry_error + session_task) option" where
  "local_create_check input reg =
     (case ct_id input of
        Some i \<Rightarrow>
          (case load_task i reg of
             Some existing \<Rightarrow>
               Some (if st_session_id existing = ct_session_id input then Inr existing
                     else Inl (TaskUnderOtherSession i))
           | None \<Rightarrow> None)
      | None \<Rightarrow> None)"

definition local_create_write ::
  "string \<Rightarrow> timestamp \<Rightarrow> create_session_task \<Rightarrow> (local_registry, task_registry_error, session_task) op" where
  "local_create_write fresh now input reg =
     (let task = new_session_task fresh input now in (Inr task, store_task task reg))"

definition local_create ::
  "string \<Rightarrow> timestamp \<Rightarrow> create_session_task \<Rightarrow> (local_registry, task_registry_error, session_task) op" where
  "local_create fresh now input reg =
     (case local_create_check input reg of
        Some r \<Rightarrow> (r, reg)
      | None \<Rightarrow> local_create_write fresh now input reg)"

definition local_get :: "uuid \<Rightarrow> string \<Rightarrow> local_registry \<Rightarrow> session_task option" where
  "local_get session_id task_id reg =
     (case load_task task_id reg of
        Some t \<Rightarrow> if st_session_id t = session_id then Some t else None
      | None \<Rightarrow> None)"

definition local_update_read :: "uuid \<Rightarrow> string \<Rightarrow> local_registry \<Rightarrow> session_task option" where
  "local_update_read session_id task_id reg =
     (case load_task task_id reg of
        None \<Rightarrow> None
      | Some t \<Rightarrow> if st_session_id t \<noteq> session_id then None else Some t)"

definition local_update_write ::
  "timestamp \<Rightarrow> session_task_update \<Rightarrow> session_task \<Rightarrow> local_registry
     \<Rightarrow> (task_registry_error + session_task option) \<times> local_registry" where
  "local_update_write now update task reg =
     (let task = apply_task_update task update now in (Inr (Some task), store_task task reg))"

definition local_update ::
  "timestamp \<Rightarrow> uuid \<Rightarrow> string \<Rightarrow> session_task_update
     \<Rightarrow> (local_registry, task_registry_error, session_task option) op" where
  "local_update now session_id task_id update reg =
     (case local_update_read session_id task_id reg of
        None \<Rightarrow> (Inr None, reg)
      | Some task \<Rightarrow> local_update_write now update task reg)"

definition local_list :: "uuid \<Rightarrow> session_task_filter option \<Rightarrow> local_registry \<Rightarrow> session_task list" where
  "local_list session_id f reg =
     filter (\<lambda>t. st_session_id t = session_id
         \<and> (case Option.bind f sf_kind of Some k \<Rightarrow> st_kind t = k | None \<Rightarrow> True)
         \<and> (case Option.bind f sf_state of
              Some s \<Rightarrow> task_state_text (st_state t) = task_state_text s | None \<Rightarrow> True))
       (lr_tasks reg)"

definition local_cancel_read :: "uuid \<Rightarrow> string \<Rightarrow> local_registry \<Rightarrow> session_task option" where
  "local_cancel_read session_id task_id reg =
     (case load_task task_id reg of
        None \<Rightarrow> None
      | Some task \<Rightarrow> if st_session_id task \<noteq> session_id then None else Some task)"

definition local_cancel_write ::
  "timestamp \<Rightarrow> timestamp \<Rightarrow> session_task \<Rightarrow> (local_registry, task_registry_error, session_task option) op" where
  "local_cancel_write now now' task reg =
     (let task = task\<lparr>st_cancel_requested_at := option_or (st_cancel_requested_at task) (Some now),
                      st_updated_at := now'\<rparr>
      in (Inr (Some task), store_task task reg))"

definition local_request_cancel ::
  "timestamp \<Rightarrow> timestamp \<Rightarrow> uuid \<Rightarrow> string \<Rightarrow> (local_registry, task_registry_error, session_task option) op" where
  "local_request_cancel now now' session_id task_id reg =
     (case local_cancel_read session_id task_id reg of
        None \<Rightarrow> (Inr None, reg)
      | Some task \<Rightarrow> local_cancel_write now now' task reg)"

definition insert_message :: "task_message \<Rightarrow> local_registry \<Rightarrow> local_registry" where
  "insert_message m reg =
     reg\<lparr>lr_messages := lr_messages reg @ [(lr_next_seq reg, m)], lr_next_seq := lr_next_seq reg + 1\<rparr>"

definition local_message_check ::
  "uuid \<Rightarrow> string \<Rightarrow> new_task_message \<Rightarrow> local_registry \<Rightarrow> task_registry_error + session_task" where
  "local_message_check session_id task_id message reg =
     (case local_get session_id task_id reg of
        None \<Rightarrow> Inl (NoTask task_id)
      | Some task \<Rightarrow>
          if fenced (nm_expected_attempt message) task
          then Inl (StaleAttempt task_id (the (nm_expected_attempt message)) (st_attempt task))
          else Inr task)"

definition local_message_insert ::
  "string \<Rightarrow> timestamp \<Rightarrow> string \<Rightarrow> new_task_message \<Rightarrow> local_registry \<Rightarrow> task_message \<times> local_registry" where
  "local_message_insert fresh now task_id message reg =
     (let record = \<lparr>mg_id = fresh, mg_task_id = task_id, mg_direction = nm_direction message,
            mg_content = nm_content message, mg_in_reply_to = nm_in_reply_to message,
            mg_created_at = now\<rparr>
      in (record, insert_message record reg))"

definition local_message_resume ::
  "timestamp \<Rightarrow> new_task_message \<Rightarrow> session_task \<Rightarrow> local_registry \<Rightarrow> local_registry" where
  "local_message_resume now message task reg =
     (if answers message task then store_task (apply_task_update task resume_update now) reg else reg)"

definition local_record_message ::
  "string \<Rightarrow> timestamp \<Rightarrow> timestamp \<Rightarrow> uuid \<Rightarrow> string \<Rightarrow> new_task_message
     \<Rightarrow> (local_registry, task_registry_error, task_message) op" where
  "local_record_message fresh now now' session_id task_id message reg =
     (case local_message_check session_id task_id message reg of
        Inl e \<Rightarrow> (Inl e, reg)
      | Inr task \<Rightarrow>
          (case local_message_insert fresh now task_id message reg of
             (record, reg) \<Rightarrow> (Inr record, local_message_resume now' message task reg)))"

lemmas local_create_defs = local_create_def local_create_check_def local_create_write_def

lemmas local_cancel_defs = local_request_cancel_def local_cancel_read_def local_cancel_write_def

lemmas local_message_defs =
  local_record_message_def local_message_check_def local_message_insert_def local_message_resume_def

definition local_list_messages ::
  "uuid \<Rightarrow> string \<Rightarrow> nat option \<Rightarrow> string option \<Rightarrow> local_registry \<Rightarrow> task_message list" where
  "local_list_messages session_id task_id limit after_id reg =
     (if local_get session_id task_id reg = None then []
      else
        let after_seq =
              (case after_id of
                 Some i \<Rightarrow> map_option fst (find (\<lambda>(_, m). mg_id m = i) (lr_messages reg))
               | None \<Rightarrow> None);
            rows = filter (\<lambda>(seq, m). mg_task_id m = task_id
                     \<and> (case after_seq of Some a \<Rightarrow> a < seq | None \<Rightarrow> True)) (lr_messages reg)
        in map snd (case limit of Some n \<Rightarrow> take n rows | None \<Rightarrow> rows))"

definition local_api :: "local_registry task_api" where
  "local_api =
     \<lparr>api_create = local_create, api_update = local_update,
      api_get = (\<lambda>sid tid reg. Inr (local_get sid tid reg)),
      api_request_cancel = local_request_cancel, api_record_message = local_record_message\<rparr>"

section \<open>The local registry keeps the laws\<close>

definition registry_ok :: "local_registry \<Rightarrow> bool" where
  "registry_ok reg \<longleftrightarrow>
     distinct (map st_id (lr_tasks reg))
     \<and> sorted_wrt (<) (map fst (lr_messages reg)) \<and> (\<forall>(seq, _) \<in> set (lr_messages reg). seq < lr_next_seq reg)"

lemma load_task_id: "load_task i reg = Some t \<Longrightarrow> st_id t = i"
  by (auto simp: load_task_def find_Some_iff)

lemma find_replace:
  "find (\<lambda>t. st_id t = i) (map (\<lambda>t. if st_id t = st_id task then task else t) ts) =
    (if i = st_id task \<and> find (\<lambda>t. st_id t = i) ts \<noteq> None then Some task else find (\<lambda>t. st_id t = i) ts)"
  by (induction ts) auto

lemma find_append: "find P (xs @ ys) = option_or (find P xs) (find P ys)"
  by (induction xs) auto

lemma load_store: "load_task i (store_task t reg) = (if i = st_id t then Some t else load_task i reg)"
  by (auto simp: load_task_def store_task_def find_replace find_append)

lemma load_store_fun: "(\<lambda>i. load_task i (store_task t reg)) = (\<lambda>i. load_task i reg)(st_id t \<mapsto> t)"
  by (auto simp: load_store)

lemma store_task_ids:
  "map st_id (lr_tasks (store_task t reg)) =
    (if load_task (st_id t) reg = None then map st_id (lr_tasks reg) @ [st_id t] else map st_id (lr_tasks reg))"
  by (simp add: store_task_def)

lemma store_task_ok: "registry_ok reg \<Longrightarrow> registry_ok (store_task t reg)"
proof -
  assume "registry_ok reg"
  moreover have "load_task (st_id t) reg = None \<Longrightarrow> st_id t \<notin> st_id ` set (lr_tasks reg)"
    by (auto simp: load_task_def find_None_iff)
  moreover have "lr_messages (store_task t reg) = lr_messages reg" "lr_next_seq (store_task t reg) = lr_next_seq reg"
    by (simp_all add: store_task_def)
  ultimately show ?thesis by (auto simp: registry_ok_def store_task_ids)
qed

lemma insert_message_ok: "registry_ok reg \<Longrightarrow> registry_ok (insert_message m reg)"
  by (auto simp: registry_ok_def insert_message_def sorted_wrt_append less_Suc_eq)

lemma load_insert_message [simp]: "load_task i (insert_message m reg) = load_task i reg"
  by (simp add: load_task_def insert_message_def)

lemma local_get_eq: "local_get sid tid reg = in_session sid (load_task tid reg)"
  by (simp add: local_get_def in_session_def)

lemma local_update_eq:
  "local_update now sid tid u reg =
    (case in_session sid (load_task tid reg) of
       None \<Rightarrow> (Inr None, reg)
     | Some t \<Rightarrow> (Inr (Some (apply_task_update t u now)), store_task (apply_task_update t u now) reg))"
  by (auto simp: local_update_def local_update_read_def local_update_write_def in_session_def Let_def
      split: option.split)

lemma in_session_Some: "in_session sid found = Some t \<Longrightarrow> found = Some t \<and> st_session_id t = sid"
  by (auto simp: in_session_def split: option.splits if_splits)

interpretation local_reg: task_registry local_api registry_ok "\<lambda>reg i. load_task i reg"
proof
  fix s s' :: local_registry and sid tid fresh now now' u m and input :: create_session_task
  assume ok: "registry_ok s"
  show "st_id t = i" if "load_task i s = Some t" for i t using that by (rule load_task_id)
  show "api_get local_api sid tid s = Inr (in_session sid (load_task tid s))"
    by (simp add: local_api_def local_get_eq)
  show "registry_ok s' \<and> (case load_task (get_or fresh (ct_id input)) s of
         None \<Rightarrow> r = Inr (new_session_task fresh input now)
           \<and> (\<lambda>i. load_task i s') = (\<lambda>i. load_task i s)(get_or fresh (ct_id input) \<mapsto> new_session_task fresh input now)
       | Some t \<Rightarrow> s' = s \<and> r = (if st_session_id t = ct_session_id input then Inr t
           else Inl (TaskUnderOtherSession (st_id t))))"
    if "ct_id input = None \<Longrightarrow> load_task fresh s = None" "api_create local_api fresh now input s = (r, s')" for r
  proof -
    have new_id: "st_id (new_session_task fresh input now) = get_or fresh (ct_id input)"
      by (simp add: new_session_task_def)
    show ?thesis
      using that ok load_task_id [of _ s]
      by (auto simp: local_api_def local_create_defs Let_def new_id load_store_fun store_task_ok
          split: option.splits if_splits)
  qed
  show "registry_ok s' \<and> (case in_session sid (load_task tid s) of
         None \<Rightarrow> r = Inr None \<and> s' = s
       | Some t \<Rightarrow> r = Inr (Some (apply_task_update t u now))
           \<and> (\<lambda>i. load_task i s') = (\<lambda>i. load_task i s)(tid \<mapsto> apply_task_update t u now))"
    if "api_update local_api now sid tid u s = (r, s')" for r
    using that ok load_task_id [of tid s] in_session_Some [of sid "load_task tid s"]
    by (auto simp: local_api_def local_update_eq load_store_fun store_task_ok task_simps split: option.splits)
  show "registry_ok s' \<and> (case in_session sid (load_task tid s) of
         None \<Rightarrow> r = Inr None \<and> s' = s
       | Some t \<Rightarrow> (\<lambda>i. load_task i s') = (\<lambda>i. load_task i s)(tid \<mapsto>
           t\<lparr>st_cancel_requested_at := option_or (st_cancel_requested_at t) (Some now), st_updated_at := now'\<rparr>))"
    if "api_request_cancel local_api now now' sid tid s = (r, s')" for r
    using that ok load_task_id [of tid s]
    by (auto simp: local_api_def local_cancel_defs in_session_def load_store_fun store_task_ok Let_def
        split: option.splits if_splits)
  show "registry_ok s' \<and> (case in_session sid (load_task tid s) of
         None \<Rightarrow> r = Inl (NoTask tid) \<and> s' = s
       | Some t \<Rightarrow>
           if fenced (nm_expected_attempt m) t
           then r = Inl (StaleAttempt tid (the (nm_expected_attempt m)) (st_attempt t)) \<and> s' = s
           else (\<exists>stored. r = Inr stored)
             \<and> (\<lambda>i. load_task i s') = (if answers m t then (\<lambda>i. load_task i s)(tid \<mapsto> apply_task_update t resume_update now')
                           else (\<lambda>i. load_task i s)))"
    if "api_record_message local_api fresh now now' sid tid m s = (r, s')" for r
    using that ok load_task_id [of tid s] in_session_Some [of sid "load_task tid s"]
    by (auto simp: local_api_def local_message_defs local_get_eq load_store_fun store_task_ok
        insert_message_ok task_simps Let_def split: option.splits if_splits)
qed

section \<open>Threads\<close>

text \<open>The messages of a task in the order they were recorded.\<close>

definition thread :: "string \<Rightarrow> local_registry \<Rightarrow> (nat \<times> task_message) list" where
  "thread task_id reg = filter (\<lambda>(_, m). mg_task_id m = task_id) (lr_messages reg)"

lemma sorted_filter_after:
  fixes xs :: "(nat \<times> 'a) list"
  assumes "sorted_wrt (<) (map fst xs)" and "xs = ys @ (a, m) # zs"
  shows "filter (\<lambda>(q, _). a < q) xs = zs"
proof -
  have "\<forall>(q, _) \<in> set ys. q < a" "\<forall>(q, _) \<in> set zs. a < q"
    using assms by (auto simp: sorted_wrt_append)
  then show ?thesis using assms(2) by (auto simp: filter_empty_conv filter_id_conv)
qed

lemma thread_sorted: "registry_ok reg \<Longrightarrow> sorted_wrt (<) (map fst (thread tid reg))"
  by (simp add: thread_def registry_ok_def sorted_wrt_map sorted_wrt_filter)

lemma find_message:
  assumes "distinct (map (\<lambda>(_, m). mg_id m) ms)" and "(q, m) \<in> set ms"
  shows "find (\<lambda>(_, n). mg_id n = mg_id m) ms = Some (q, m)"
  using assms by (induction ms) (auto simp: rev_image_eqI)

lemma list_messages_after:
  assumes "registry_ok reg" and "distinct (map (\<lambda>(_, m). mg_id m) (lr_messages reg))"
    and "local_get sid tid reg \<noteq> None" and "thread tid reg = ys @ (q, m) # zs"
  shows "local_list_messages sid tid limit (Some (mg_id m)) reg =
    map snd (case limit of Some n \<Rightarrow> take n zs | None \<Rightarrow> zs)"
proof -
  have "(q, m) \<in> set (thread tid reg)" using assms(4) by simp
  then have "(q, m) \<in> set (lr_messages reg)" by (simp add: thread_def)
  then have seq: "find (\<lambda>(_, n). mg_id n = mg_id m) (lr_messages reg) = Some (q, m)"
    using assms(2) by (intro find_message)
  have "filter (\<lambda>(s, n). mg_task_id n = tid \<and> q < s) (lr_messages reg) =
      filter (\<lambda>(s, _). q < s) (thread tid reg)"
    by (simp add: thread_def) (metis (mono_tags, lifting) case_prod_beta')
  also have "\<dots> = zs" using thread_sorted [OF assms(1)] assms(4) by (rule sorted_filter_after)
  finally show ?thesis using assms(3) seq by (cases limit) (auto simp: local_list_messages_def Let_def)
qed

lemma list_messages_first:
  assumes "local_get sid tid reg \<noteq> None"
  shows "local_list_messages sid tid limit None reg =
    map snd (case limit of Some n \<Rightarrow> take n (thread tid reg) | None \<Rightarrow> thread tid reg)"
  using assms by (cases limit) (auto simp: local_list_messages_def thread_def Let_def)

lemma thread_store_task [simp]: "thread tid (store_task t reg) = thread tid reg"
  by (simp add: thread_def store_task_def)

lemma thread_insert_message:
  "thread tid (insert_message m reg) = thread tid reg @ (if mg_task_id m = tid then [(lr_next_seq reg, m)] else [])"
  by (simp add: thread_def insert_message_def)

lemma record_message_thread:
  assumes "local_record_message fresh now now' sid tid m reg = (Inr stored, reg')"
  shows "thread tid reg' = thread tid reg @ [(lr_next_seq reg, stored)]"
    and "i \<noteq> tid \<Longrightarrow> thread i reg' = thread i reg"
    and "mg_id stored = fresh \<and> mg_task_id stored = tid \<and> mg_content stored = nm_content m"
  using assms
  by (auto simp: local_message_defs thread_insert_message Let_def split: option.splits if_splits)

subsection \<open>Example\<close>

definition demo_registry :: local_registry where
  "demo_registry = snd (local_create ''x'' 0 demo_input task_registry_new)"

lemma demo_registry_eq:
  "demo_registry = \<lparr>lr_tasks = [new_session_task ''x'' demo_input 0], lr_messages = [], lr_next_seq = 1\<rparr>"
  by (simp add: demo_registry_def local_create_defs task_registry_new_def load_task_def store_task_def Let_def
      split: option.split)

lemma demo_registry_ok: "registry_ok demo_registry"
  by (simp add: demo_registry_eq registry_ok_def)

lemma demo_registry_load: "load_task ''task_a'' demo_registry = Some (new_session_task ''x'' demo_input 0)"
  by (simp add: demo_registry_eq load_task_def new_session_task_def demo_input_def)

section \<open>Properties\<close>

text \<open>
  The thread of a task reads back as it was written. A recorded message becomes the last of its
  task's thread and of no other; a first page is the oldest messages, and the page after any message
  of the thread is the messages that follow it, none skipped and none repeated.
\<close>

theorem thread_reads_back:
  assumes "registry_ok reg" and "distinct (map (\<lambda>(_, m). mg_id m) (lr_messages reg))"
    and "local_get sid tid reg \<noteq> None"
  shows "local_list_messages sid tid (Some n) None reg = map snd (take n (thread tid reg))
    \<and> (\<forall>ys q m zs. thread tid reg = ys @ (q, m) # zs \<longrightarrow>
        local_list_messages sid tid (Some n) (Some (mg_id m)) reg = map snd (take n zs))
    \<and> (\<forall>fresh now now' msg stored reg'. local_record_message fresh now now' sid tid msg reg = (Inr stored, reg') \<longrightarrow>
        map snd (thread tid reg') = map snd (thread tid reg) @ [stored]
        \<and> (\<forall>i. i \<noteq> tid \<longrightarrow> thread i reg' = thread i reg))"
  using list_messages_first [OF assms(3)] list_messages_after [OF assms] record_message_thread by fastforce

theorem thread_reads_back_witness:
  "map snd (thread ''task_a'' (snd (local_record_message ''tmsg_1'' 3 4 5 ''task_a'' (inbound_text ''hi'') demo_registry)))
    = [\<lparr>mg_id = ''tmsg_1'', mg_task_id = ''task_a'', mg_direction = Inbound, mg_content = [TextPart ''hi''],
        mg_in_reply_to = None, mg_created_at = 3\<rparr>]"
proof -
  have got: "local_get 5 ''task_a'' demo_registry = Some (new_session_task ''x'' demo_input 0)"
    by (simp add: local_get_def demo_registry_load new_session_task_def demo_input_def)
  then have "local_get 5 ''task_a'' demo_registry \<noteq> None" by simp
  moreover have "distinct (map (\<lambda>(_, m). mg_id m) (lr_messages demo_registry))" by (simp add: demo_registry_eq)
  moreover have "thread ''task_a'' demo_registry = []" by (simp add: thread_def demo_registry_eq)
  moreover have "\<exists>stored reg'. local_record_message ''tmsg_1'' 3 4 5 ''task_a'' (inbound_text ''hi'') demo_registry = (Inr stored, reg')
      \<and> stored = \<lparr>mg_id = ''tmsg_1'', mg_task_id = ''task_a'', mg_direction = Inbound, mg_content = [TextPart ''hi''],
        mg_in_reply_to = None, mg_created_at = 3\<rparr>"
    by (simp add: local_message_defs got inbound_text_def fenced_def Let_def)
  ultimately show ?thesis using thread_reads_back [OF demo_registry_ok] by fastforce
qed

text \<open>
  Updates of the local registry are not atomic. When a progress report has read a task before
  another writer finishes it, and writes its copy back afterwards, the finishing writer is told that
  the task has succeeded, yet the registry holds a running task: the terminal state is lost.
\<close>

theorem update_race_loses_terminal:
  assumes "local_update_read sid tid reg = Some t" and "st_state t = TaskRunning"
    and "su_state done = Some TaskSucceeded" and "su_input_request done = None"
    and "su_expected_attempt done = Some (st_attempt t)"
    and "su_state report = None" and "su_input_request report = None"
    and "su_expected_attempt report = Some (st_attempt t)"
  shows "\<exists>finished. fst (local_update_write now done t reg) = Inr (Some finished) \<and> st_state finished = TaskSucceeded
    \<and> map_option st_state
        (load_task tid (snd (local_update_write now' report t (snd (local_update_write now done t reg)))))
      = Some TaskRunning"
proof -
  have tid: "st_id t = tid"
    using assms(1) by (auto simp: local_update_read_def load_task_id split: option.splits if_splits)
  show ?thesis
    using assms(2-) tid
    by (simp add: local_update_write_def load_store task_simps next_task_state_def fenced_def
        task_is_terminal_def Let_def)
qed

theorem update_race_loses_terminal_witness:
  "\<exists>t. local_update_read 5 ''task_a'' demo_registry = Some t
    \<and> map_option st_state (load_task ''task_a''
        (snd (local_update_write 9 (no_update\<lparr>su_expected_attempt := Some 1\<rparr>) t
          (snd (local_update_write 8 demo_finish t demo_registry))))) = Some TaskRunning"
proof -
  let ?t = "new_session_task ''x'' demo_input 0"
  have read: "local_update_read 5 ''task_a'' demo_registry = Some ?t"
    by (simp add: local_update_read_def demo_registry_load new_session_task_def demo_input_def)
  have "st_state ?t = TaskRunning" "st_attempt ?t = 1" by (simp_all add: new_session_task_def demo_input_def)
  with update_race_loses_terminal [OF read, of demo_finish "no_update\<lparr>su_expected_attempt := Some 1\<rparr>" 8 9] read
  show ?thesis by (auto simp: demo_finish_def no_update_def)
qed

end
