(* ===== verification/Task_Observer.thy ===== *)
theory Task_Observer
  imports Task_Registry "HOL-Library.Multiset"
begin

text \<open>
  Task transitions and wake-ups: the registry decorator that tells observers about transitions
  (\<open>ObservingTaskRegistry\<close> of \<open>core/src/task_observer.rs\<close>) and the queue of mid-turn wakes behind it
  (\<open>core/src/wake_queue.rs\<close>). The operations are composed of the sections between which others may run;
  the world of concurrent writers over a local registry interleaves these sections. Updates and
  messages hold the lock of their task through theirs, creates and cancels hold none, and the
  callbacks run after the lock is released, so they are steps of their own, in any order.
\<close>

section \<open>Transitions\<close>

datatype task_transition = TerminalTransition | AwaitingInputTransition | MessageTransition

fun filter_value :: "task_transition \<Rightarrow> string" where
  "filter_value TerminalTransition = ''terminal''"
| "filter_value AwaitingInputTransition = ''awaiting_input''"
| "filter_value MessageTransition = ''message''"

fun event_name :: "task_transition \<Rightarrow> string" where
  "event_name TerminalTransition = ''task.terminal''"
| "event_name AwaitingInputTransition = ''task.awaiting_input''"
| "event_name MessageTransition = ''task.message''"

type_synonym task_call = "session_task \<times> task_transition"

text \<open>The result of an operation, the callbacks it owes, and the registry afterwards.\<close>

definition wants_terminal :: "session_task_update \<Rightarrow> bool" where
  "wants_terminal update = (case su_state update of Some st \<Rightarrow> task_is_terminal st | None \<Rightarrow> False)"

definition wants_awaiting_input :: "session_task_update \<Rightarrow> bool" where
  "wants_awaiting_input update \<longleftrightarrow> su_input_request update \<noteq> None \<or> su_state update = Some TaskAwaitingInput"

definition needs_prior :: "bool \<Rightarrow> session_task_update \<Rightarrow> bool" where
  "needs_prior has_observers update \<longleftrightarrow> has_observers \<and> (wants_terminal update \<or> wants_awaiting_input update)"

definition update_prior ::
  "'s task_api \<Rightarrow> bool \<Rightarrow> uuid \<Rightarrow> string \<Rightarrow> session_task_update \<Rightarrow> 's \<Rightarrow> session_task option" where
  "update_prior api has_observers sid tid update s =
     (if needs_prior has_observers update
      then (case api_get api sid tid s of Inr p \<Rightarrow> p | Inl _ \<Rightarrow> None) else None)"

definition transition_calls ::
  "session_task_update \<Rightarrow> session_task option \<Rightarrow> session_task option \<Rightarrow> task_call list" where
  "transition_calls update prior updated =
     (case (updated, prior) of
        (Some task, Some prior) \<Rightarrow>
          (if wants_terminal update \<and> \<not> task_is_terminal (st_state prior) \<and> task_is_terminal (st_state task)
           then [(task, TerminalTransition)] else [])
          @ (if wants_awaiting_input update \<and> st_state prior \<noteq> TaskAwaitingInput
               \<and> st_state task = TaskAwaitingInput
             then [(task, AwaitingInputTransition)] else [])
      | _ \<Rightarrow> [])"

definition observing_update ::
  "'s task_api \<Rightarrow> bool \<Rightarrow> timestamp \<Rightarrow> uuid \<Rightarrow> string \<Rightarrow> session_task_update \<Rightarrow> 's
     \<Rightarrow> (task_registry_error + session_task option) \<times> task_call list \<times> 's" where
  "observing_update api has_observers now sid tid update s =
     (let prior = update_prior api has_observers sid tid update s
      in case api_update api now sid tid update s of
           (Inl e, s) \<Rightarrow> (Inl e, [], s)
         | (Inr updated, s) \<Rightarrow> (Inr updated, transition_calls update prior updated, s))"

definition message_calls ::
  "'s task_api \<Rightarrow> bool \<Rightarrow> uuid \<Rightarrow> string \<Rightarrow> new_task_message \<Rightarrow> 's \<Rightarrow> task_call list" where
  "message_calls api has_observers sid tid message s =
     (if nm_direction message = Outbound \<and> has_observers
      then (case api_get api sid tid s of Inr (Some task) \<Rightarrow> [(task, MessageTransition)] | _ \<Rightarrow> [])
      else [])"

definition observing_record_message ::
  "'s task_api \<Rightarrow> bool \<Rightarrow> string \<Rightarrow> timestamp \<Rightarrow> timestamp \<Rightarrow> uuid \<Rightarrow> string \<Rightarrow> new_task_message \<Rightarrow> 's
     \<Rightarrow> (task_registry_error + task_message) \<times> task_call list \<times> 's" where
  "observing_record_message api has_observers fresh now now' sid tid message s =
     (case api_record_message api fresh now now' sid tid message s of
        (Inl e, s) \<Rightarrow> (Inl e, [], s)
      | (Inr stored, s) \<Rightarrow> (Inr stored, message_calls api has_observers sid tid message s, s))"

section \<open>The wake queue\<close>

record pending_wake =
  pw_task_id :: string
  pw_session_id :: uuid
  pw_transition :: task_transition
  pw_text :: string
  pw_created_at :: timestamp

type_synonym wake_queue = "(uuid, pending_wake list) hmap"

definition task_named :: "session_task \<Rightarrow> string" where
  "task_named task = ''Task '' @ [CHR 0x22] @ st_display_name task @ [CHR 0x22] @ '' ('' @ st_id task @ '')''"

definition terminal_text :: "session_task \<Rightarrow> string" where
  "terminal_text task =
     join_text [CHR 0x0A]
       ([task_named task @ '' finished: '' @ task_state_text (st_state task) @ ''.'']
        @ (case st_summary task of Some summary \<Rightarrow> [''- summary: '' @ summary] | None \<Rightarrow> [])
        @ (case st_result_path task of Some path \<Rightarrow> [''- result_path: '' @ path] | None \<Rightarrow> []))"

definition wake_text_for :: "session_task \<Rightarrow> task_transition \<Rightarrow> string option" where
  "wake_text_for task transition =
     (case (st_wake_policy task, transition) of
        (Silent, _) \<Rightarrow> None
      | (OnTerminal, TerminalTransition) \<Rightarrow> Some (terminal_text task)
      | (OnActivity, TerminalTransition) \<Rightarrow> Some (terminal_text task)
      | (OnTerminal, _) \<Rightarrow> None
      | (OnActivity, AwaitingInputTransition) \<Rightarrow>
          Some (task_named task @ '' is awaiting input: ''
            @ get_or ''Task is awaiting input.'' (map_option ir_prompt (st_input_request task)))
      | (OnActivity, MessageTransition) \<Rightarrow>
          Some (task_named task @ '' sent a message: ''
            @ get_or ''structured progress update''
                (option_or
                  (case st_state_detail task of Some d \<Rightarrow> if trim d \<noteq> [] then Some d else None | None \<Rightarrow> None)
                  (Option.bind (st_progress task) tp_label))))"

definition note_transition ::
  "timestamp \<Rightarrow> session_task \<Rightarrow> task_transition \<Rightarrow> wake_queue \<Rightarrow> bool \<times> wake_queue" where
  "note_transition now task transition queues =
     (case wake_text_for task transition of
        None \<Rightarrow> (False, queues)
      | Some text \<Rightarrow>
          (True, hm_insert (st_session_id task)
             (get_or [] (hm_get queues (st_session_id task))
              @ [\<lparr>pw_task_id = st_id task, pw_session_id = st_session_id task, pw_transition = transition,
                  pw_text = text, pw_created_at = now\<rparr>]) queues))"

definition drain :: "uuid \<Rightarrow> wake_queue \<Rightarrow> pending_wake list \<times> wake_queue" where
  "drain session_id queues =
     (case hm_get queues session_id of
        Some queue \<Rightarrow> (queue, hm_remove session_id queues)
      | None \<Rightarrow> ([], queues))"

definition pending_len :: "uuid \<Rightarrow> wake_queue \<Rightarrow> nat" where
  "pending_len session_id queues =
     (case hm_get queues session_id of Some queue \<Rightarrow> length queue | None \<Rightarrow> 0)"

definition has_pending :: "uuid \<Rightarrow> wake_queue \<Rightarrow> bool" where
  "has_pending session_id queues \<longleftrightarrow> 0 < pending_len session_id queues"

section \<open>Writers, callbacks and turns\<close>

text \<open>How far the operation that holds the lock of a task has come, with what it has read.\<close>

datatype task_holder =
    PriorRead session_task_update "session_task option"
  | TaskRead session_task_update "session_task option" session_task
  | MessageChecked new_task_message session_task
  | MessageStored new_task_message session_task
  | MessageResumed new_task_message

text \<open>
  A host over a local registry in which any number of operations are between two of their sections:
  \<open>ww_held\<close> gives the holders of the task locks, \<open>ww_cancels\<close> the rows that cancels have read and
  not yet written back, and \<open>ww_creates\<close> the creates that have found their identifier free. The
  callbacks owed run whenever they are scheduled, and turns drain the queue. The last three fields
  record the past: what turns have received, the tasks that were created in a terminal state, and the
  tasks that an operation without the lock has overwritten. A cancel overwrites a task when it writes
  back a row from before the task ended; a create does when the identifier is no longer free, or an
  operation of its session holds its lock.
\<close>

record wake_world =
  ww_reg :: local_registry
  ww_held :: "uuid \<times> string \<rightharpoonup> task_holder"
  ww_cancels :: "session_task list"
  ww_creates :: "create_session_task list"
  ww_calls :: "task_call list"
  ww_queue :: wake_queue
  ww_taken :: "pending_wake list"
  ww_born :: "string set"
  ww_overwritten :: "string set"

definition row_ended :: "session_task option \<Rightarrow> bool" where
  "row_ended row = (case row of Some t \<Rightarrow> task_is_terminal (st_state t) | None \<Rightarrow> False)"

inductive world_step :: "wake_world \<Rightarrow> wake_world \<Rightarrow> bool" where
  CreateCheck: "local_create_check input (ww_reg w) = None
    \<Longrightarrow> world_step w (w\<lparr>ww_creates := ww_creates w @ [input]\<rparr>)"
| CreateStore: "ww_creates w = before @ input # after
    \<Longrightarrow> (ct_id input = None \<Longrightarrow> load_task fresh (ww_reg w) = None)
    \<Longrightarrow> local_create_write fresh now input (ww_reg w) = (Inr t, s')
    \<Longrightarrow> world_step w (w\<lparr>ww_reg := s', ww_creates := before @ after,
          ww_born := (if load_task (st_id t) (ww_reg w) = None \<and> task_is_terminal (st_state t)
            then insert (st_id t) (ww_born w) else ww_born w),
          ww_overwritten := (if load_task (st_id t) (ww_reg w) \<noteq> None \<or> ww_held w (st_session_id t, st_id t) \<noteq> None
            then insert (st_id t) (ww_overwritten w) else ww_overwritten w)\<rparr>)"
| CancelRead: "local_cancel_read sid tid (ww_reg w) = Some t
    \<Longrightarrow> world_step w (w\<lparr>ww_cancels := ww_cancels w @ [t]\<rparr>)"
| CancelStore: "ww_cancels w = before @ t # after
    \<Longrightarrow> local_cancel_write now now' t (ww_reg w) = (rk, s')
    \<Longrightarrow> world_step w (w\<lparr>ww_reg := s', ww_cancels := before @ after,
          ww_overwritten := (if row_ended (load_task (st_id t) (ww_reg w)) \<noteq> task_is_terminal (st_state t)
            then insert (st_id t) (ww_overwritten w) else ww_overwritten w)\<rparr>)"
| UpdateLock: "ww_held w (sid, tid) = None
    \<Longrightarrow> prior = update_prior local_api True sid tid update (ww_reg w)
    \<Longrightarrow> world_step w (w\<lparr>ww_held := (ww_held w)((sid, tid) \<mapsto> PriorRead update prior)\<rparr>)"
| UpdateMissing: "ww_held w (sid, tid) = Some (PriorRead update prior)
    \<Longrightarrow> local_update_read sid tid (ww_reg w) = None
    \<Longrightarrow> world_step w (w\<lparr>ww_held := (ww_held w)((sid, tid) := None)\<rparr>)"
| UpdateRead: "ww_held w (sid, tid) = Some (PriorRead update prior)
    \<Longrightarrow> local_update_read sid tid (ww_reg w) = Some t
    \<Longrightarrow> world_step w (w\<lparr>ww_held := (ww_held w)((sid, tid) \<mapsto> TaskRead update prior t)\<rparr>)"
| UpdateStore: "ww_held w (sid, tid) = Some (TaskRead update prior t)
    \<Longrightarrow> local_update_write now update t (ww_reg w) = (Inr updated, s')
    \<Longrightarrow> world_step w (w\<lparr>ww_reg := s', ww_held := (ww_held w)((sid, tid) := None),
          ww_calls := ww_calls w @ transition_calls update prior updated\<rparr>)"
| MessageCheck: "ww_held w (sid, tid) = None
    \<Longrightarrow> local_message_check sid tid message (ww_reg w) = Inr t
    \<Longrightarrow> world_step w (w\<lparr>ww_held := (ww_held w)((sid, tid) \<mapsto> MessageChecked message t)\<rparr>)"
| MessageInsert: "ww_held w (sid, tid) = Some (MessageChecked message t)
    \<Longrightarrow> local_message_insert fresh now tid message (ww_reg w) = (stored, s')
    \<Longrightarrow> world_step w (w\<lparr>ww_reg := s', ww_held := (ww_held w)((sid, tid) \<mapsto> MessageStored message t)\<rparr>)"
| MessageResume: "ww_held w (sid, tid) = Some (MessageStored message t)
    \<Longrightarrow> s' = local_message_resume now message t (ww_reg w)
    \<Longrightarrow> world_step w (w\<lparr>ww_reg := s', ww_held := (ww_held w)((sid, tid) \<mapsto> MessageResumed message)\<rparr>)"
| MessageEnd: "ww_held w (sid, tid) = Some (MessageResumed message)
    \<Longrightarrow> world_step w (w\<lparr>ww_held := (ww_held w)((sid, tid) := None),
          ww_calls := ww_calls w @ message_calls local_api True sid tid message (ww_reg w)\<rparr>)"
| Callback: "ww_calls w = before @ (task, transition) # after
    \<Longrightarrow> world_step w (w\<lparr>ww_calls := before @ after,
          ww_queue := snd (note_transition now task transition (ww_queue w))\<rparr>)"
| DrainTurn: "drain sid (ww_queue w) = (wakes, q)
    \<Longrightarrow> world_step w (w\<lparr>ww_queue := q, ww_taken := ww_taken w @ wakes\<rparr>)"

definition world_start :: "local_registry \<Rightarrow> wake_world" where
  "world_start s = \<lparr>ww_reg = s, ww_held = Map.empty, ww_cancels = [], ww_creates = [], ww_calls = [],
     ww_queue = [], ww_taken = [], ww_born = {}, ww_overwritten = {}\<rparr>"

subsection \<open>Operations that nothing interrupts\<close>

text \<open>Run in one go, the sections of an operation have the effect of the operation.\<close>

lemma update_in_one_go:
  assumes "observing_update local_api True now sid tid update (ww_reg w) = (r, calls, s')"
    and "ww_held w (sid, tid) = None"
  shows "world_step\<^sup>*\<^sup>* w (w\<lparr>ww_reg := s', ww_calls := ww_calls w @ calls\<rparr>)"
proof -
  let ?prior = "update_prior local_api True sid tid update (ww_reg w)"
  let ?w1 = "w\<lparr>ww_held := (ww_held w)((sid, tid) \<mapsto> PriorRead update ?prior)\<rparr>"
  have release: "(ww_held w)((sid, tid) := None) = ww_held w" using assms(2) by auto
  have lock: "world_step w ?w1" using UpdateLock [OF assms(2) refl] .
  show ?thesis
  proof (cases "local_update_read sid tid (ww_reg w)")
    case None
    with assms(1) have "calls = []" "s' = ww_reg w"
      by (auto simp: observing_update_def local_api_def local_update_def transition_calls_def Let_def)
    moreover have "world_step ?w1 w" using UpdateMissing [of ?w1 sid tid] None release by simp
    ultimately show ?thesis using lock by (simp add: converse_rtranclp_into_rtranclp)
  next
    case (Some t)
    let ?w2 = "w\<lparr>ww_held := (ww_held w)((sid, tid) \<mapsto> TaskRead update ?prior t)\<rparr>"
    have read: "world_step ?w1 ?w2" using UpdateRead [of ?w1 sid tid] Some by simp
    obtain updated where store: "local_update_write now update t (ww_reg w) = (Inr updated, s')"
      and calls: "calls = transition_calls update ?prior updated"
      using assms(1) Some
      by (auto simp: observing_update_def local_api_def local_update_def local_update_write_def Let_def)
    have "world_step ?w2 (w\<lparr>ww_reg := s', ww_calls := ww_calls w @ calls\<rparr>)"
      using UpdateStore [of ?w2 sid tid] store calls release by simp
    with lock read show ?thesis by (meson converse_rtranclp_into_rtranclp rtranclp.rtrancl_refl)
  qed
qed

lemma message_in_one_go:
  assumes "observing_record_message local_api True fresh now now' sid tid message (ww_reg w) = (r, calls, s')"
    and "ww_held w (sid, tid) = None"
  shows "world_step\<^sup>*\<^sup>* w (w\<lparr>ww_reg := s', ww_calls := ww_calls w @ calls\<rparr>)"
proof (cases "local_message_check sid tid message (ww_reg w)")
  case (Inl e)
  with assms(1) have "calls = []" "s' = ww_reg w"
    by (auto simp: observing_record_message_def local_api_def local_record_message_def)
  then show ?thesis by simp
next
  case (Inr t)
  obtain stored s1 where ins: "local_message_insert fresh now tid message (ww_reg w) = (stored, s1)" by fastforce
  have s': "s' = local_message_resume now' message t s1"
    and calls: "calls = message_calls local_api True sid tid message s'"
    using assms(1) Inr ins by (auto simp: observing_record_message_def local_api_def local_record_message_def)
  let ?h = "\<lambda>x. (ww_held w)((sid, tid) \<mapsto> x)"
  let ?w1 = "w\<lparr>ww_held := ?h (MessageChecked message t)\<rparr>"
  let ?w2 = "w\<lparr>ww_reg := s1, ww_held := ?h (MessageStored message t)\<rparr>"
  let ?w3 = "w\<lparr>ww_reg := s', ww_held := ?h (MessageResumed message)\<rparr>"
  have "world_step w ?w1" using MessageCheck [OF assms(2) Inr] .
  moreover have "world_step ?w1 ?w2" using MessageInsert [of ?w1 sid tid] ins by simp
  moreover have "world_step ?w2 ?w3" using MessageResume [of ?w2 sid tid] s' by simp
  moreover have "world_step ?w3 (w\<lparr>ww_reg := s', ww_calls := ww_calls w @ calls\<rparr>)"
  proof -
    have "(ww_held w)((sid, tid) := None) = ww_held w" using assms(2) by auto
    then show ?thesis using MessageEnd [of ?w3 sid tid message] calls by simp
  qed
  ultimately show ?thesis by (meson converse_rtranclp_into_rtranclp rtranclp.rtrancl_refl)
qed

section \<open>Wakes are neither lost nor duplicated\<close>

definition queued_wakes :: "wake_queue \<Rightarrow> pending_wake multiset" where
  "queued_wakes q = mset (concat (hm_values q))"

lemma queued_wakes_split:
  "hm_wf q \<Longrightarrow> queued_wakes q = mset (get_or [] (hm_get q k)) + queued_wakes (hm_remove k q)"
  unfolding queued_wakes_def hm_values_def hm_remove_def hm_get_def hm_wf_def
proof (induction q)
  case (Cons p q)
  obtain k' v where p: "p = (k', v)" by (cases p)
  show ?case
  proof (cases "k' = k")
    case True
    with Cons.prems p have "filter (\<lambda>e. fst e \<noteq> k) q = q" by (auto simp: filter_id_conv rev_image_eqI)
    with True p show ?thesis by simp
  next
    case False
    with Cons p show ?thesis by simp
  qed
qed simp

lemma hm_remove_insert: "hm_remove k (hm_insert k v m) = hm_remove k m"
  unfolding hm_remove_def hm_insert_def by (induction m) auto

lemma queued_wakes_push:
  assumes "hm_wf q"
  shows "queued_wakes (hm_insert k (get_or [] (hm_get q k) @ [w]) q) = add_mset w (queued_wakes q)"
proof -
  let ?q = "hm_insert k (get_or [] (hm_get q k) @ [w]) q"
  have "queued_wakes ?q = mset (get_or [] (hm_get ?q k)) + queued_wakes (hm_remove k ?q)"
    using assms by (intro queued_wakes_split) simp
  also have "\<dots> = add_mset w (mset (get_or [] (hm_get q k)) + queued_wakes (hm_remove k q))"
    by (simp add: hm_remove_insert)
  finally show ?thesis using queued_wakes_split [OF assms, of k] by simp
qed

lemma drain_conserves:
  assumes "hm_wf q" and "drain sid q = (wakes, q')"
  shows "hm_wf q'" and "queued_wakes q = mset wakes + queued_wakes q'"
  using assms queued_wakes_split [OF assms(1), of sid] by (auto simp: drain_def split: option.splits)

lemma note_wf: "hm_wf q \<Longrightarrow> hm_wf (snd (note_transition now t tr q))"
  by (auto simp: note_transition_def split: option.split)

text \<open>What a transition adds to the queue.\<close>

definition wake_of :: "timestamp \<Rightarrow> session_task \<Rightarrow> task_transition \<Rightarrow> pending_wake list" where
  "wake_of now t tr =
     (case wake_text_for t tr of
        None \<Rightarrow> []
      | Some text \<Rightarrow> [\<lparr>pw_task_id = st_id t, pw_session_id = st_session_id t, pw_transition = tr,
          pw_text = text, pw_created_at = now\<rparr>])"

lemma note_adds: "hm_wf q \<Longrightarrow> queued_wakes (snd (note_transition now t tr q)) = mset (wake_of now t tr) + queued_wakes q"
  by (auto simp: note_transition_def wake_of_def queued_wakes_push split: option.split)

lemma wake_of_terminal: "st_wake_policy t \<noteq> Silent \<Longrightarrow> \<exists>x. wake_text_for t TerminalTransition = Some x"
  by (cases "st_wake_policy t") (auto simp: wake_text_for_def)

section \<open>One notice per finished task\<close>

definition call_for :: "string \<Rightarrow> task_call \<Rightarrow> bool" where
  "call_for tid c \<longleftrightarrow> st_id (fst c) = tid \<and> snd c = TerminalTransition"

definition wake_for :: "string \<Rightarrow> pending_wake \<Rightarrow> bool" where
  "wake_for tid w \<longleftrightarrow> pw_task_id w = tid \<and> pw_transition w = TerminalTransition"

text \<open>Notices of the end of a task: owed, queued and received.\<close>

definition notices :: "string \<Rightarrow> wake_world \<Rightarrow> nat" where
  "notices tid w =
     length (filter (call_for tid) (ww_calls w))
     + size (filter_mset (wake_for tid) (queued_wakes (ww_queue w)))
     + length (filter (wake_for tid) (ww_taken w))"

lemma wake_of_count:
  "st_wake_policy t \<noteq> Silent \<Longrightarrow>
    length (filter (wake_for tid) (wake_of now t tr)) = (if call_for tid (t, tr) then 1 else 0)"
  using wake_of_terminal [of t]
  by (auto simp: wake_of_def wake_for_def call_for_def split: option.split)

lemma wake_of_other: "st_id t \<noteq> tid \<Longrightarrow> filter (wake_for tid) (wake_of now t tr) = []"
  by (auto simp: wake_of_def wake_for_def split: option.split)

lemma size_filter_mset_mset [simp]: "size (filter_mset P (mset xs)) = length (filter P xs)"
  by (metis mset_filter size_mset)

lemma notices_drain:
  assumes "hm_wf (ww_queue w)" and "drain sid (ww_queue w) = (wakes, q)"
  shows "notices tid (w\<lparr>ww_queue := q, ww_taken := ww_taken w @ wakes\<rparr>) = notices tid w"
  using drain_conserves(2) [OF assms] by (simp add: notices_def)

lemma notices_callback:
  assumes "hm_wf (ww_queue w)" and "ww_calls w = before @ (t, tr) # after"
    and "st_id t = tid \<Longrightarrow> st_wake_policy t \<noteq> Silent"
  shows "notices tid (w\<lparr>ww_calls := before @ after, ww_queue := snd (note_transition now t tr (ww_queue w))\<rparr>)
    = notices tid w"
proof (cases "st_id t = tid")
  case True
  with assms show ?thesis
    by (simp add: notices_def note_adds wake_of_count)
next
  case False
  with assms show ?thesis by (simp add: notices_def note_adds wake_of_other call_for_def)
qed

section \<open>What the world keeps of each task\<close>

text \<open>
  The invariant is stated of one task at a time, over its row, the copies of it that are held by calls,
  cancels and lock holders, and the count of its notices.
\<close>

definition kin :: "session_task \<Rightarrow> session_task \<Rightarrow> bool" where
  "kin t c \<longleftrightarrow> st_wake_policy t = st_wake_policy c \<and> st_session_id t = st_session_id c"

definition alike :: "session_task \<Rightarrow> session_task \<Rightarrow> bool" where
  "alike t c \<longleftrightarrow> kin t c \<and> task_is_terminal (st_state t) = task_is_terminal (st_state c)"

lemma alike_refl [simp]: "alike t t" "kin t t"
  by (simp_all add: alike_def kin_def)

lemma alike_trans: "alike a b \<Longrightarrow> alike b c \<Longrightarrow> alike a c"
  by (simp add: alike_def kin_def)

text \<open>What a lock holder of a session has read still tells whether the task has ended.\<close>

definition row_alike :: "uuid \<Rightarrow> session_task option \<Rightarrow> session_task \<Rightarrow> bool" where
  "row_alike sid row c \<longleftrightarrow> (\<exists>t. row = Some t \<and> st_session_id t = sid \<and> alike t c)"

fun holder_ok :: "uuid \<Rightarrow> session_task option \<Rightarrow> task_holder \<Rightarrow> bool" where
  "holder_ok sid row (PriorRead update prior) \<longleftrightarrow>
     (needs_prior True update \<longrightarrow>
        (case prior of None \<Rightarrow> in_session sid row = None | Some p \<Rightarrow> row_alike sid row p))"
| "holder_ok sid row (TaskRead update prior c) \<longleftrightarrow>
     row_alike sid row c \<and> (needs_prior True update \<longrightarrow> (\<exists>p. prior = Some p \<and> alike c p))"
| "holder_ok sid row (MessageChecked message c) \<longleftrightarrow> row_alike sid row c"
| "holder_ok sid row (MessageStored message c) \<longleftrightarrow> row_alike sid row c"
| "holder_ok sid row (MessageResumed message) \<longleftrightarrow> True"

definition copies_ok ::
  "session_task option \<Rightarrow> session_task set \<Rightarrow> session_task set \<Rightarrow> (uuid \<rightharpoonup> task_holder) \<Rightarrow> bool \<Rightarrow> nat \<Rightarrow> bool" where
  "copies_ok row calls cancels held born n \<longleftrightarrow>
     (\<forall>c \<in> calls. \<exists>t. row = Some t \<and> st_wake_policy t = st_wake_policy c)
     \<and> (\<forall>c \<in> cancels. \<exists>t. row = Some t \<and> kin t c)
     \<and> (\<forall>sid h. held sid = Some h \<longrightarrow> holder_ok sid row h)
     \<and> (born \<longrightarrow> row_ended row)
     \<and> (case row of
          None \<Rightarrow> n = 0
        | Some t \<Rightarrow> st_wake_policy t \<noteq> Silent \<longrightarrow> n = (if row_ended row \<and> \<not> born then 1 else 0))"

definition task_inv :: "string \<Rightarrow> wake_world \<Rightarrow> bool" where
  "task_inv tid w \<longleftrightarrow>
     copies_ok (load_task tid (ww_reg w)) {c \<in> fst ` set (ww_calls w). st_id c = tid}
       {c \<in> set (ww_cancels w). st_id c = tid} (\<lambda>sid. ww_held w (sid, tid)) (tid \<in> ww_born w) (notices tid w)"

fun held_copy :: "task_holder \<Rightarrow> session_task option" where
  "held_copy (TaskRead update prior c) = Some c"
| "held_copy (MessageChecked message c) = Some c"
| "held_copy (MessageStored message c) = Some c"
| "held_copy _ = None"

definition world_inv :: "wake_world \<Rightarrow> bool" where
  "world_inv w \<longleftrightarrow>
     hm_wf (ww_queue w)
     \<and> (\<forall>sid tid h c. ww_held w (sid, tid) = Some h \<longrightarrow> held_copy h = Some c \<longrightarrow> st_id c = tid)
     \<and> (\<forall>tid. tid \<notin> ww_overwritten w \<longrightarrow> task_inv tid w)"

subsection \<open>Changes of a row\<close>

lemma row_alike_change: "row_alike sid (Some t) c \<Longrightarrow> alike t' t \<Longrightarrow> row_alike sid (Some t') c"
  by (auto simp: row_alike_def alike_def kin_def)

lemma in_session_change: "alike t' t \<Longrightarrow> in_session sid (Some t) = None \<Longrightarrow> in_session sid (Some t') = None"
  by (auto simp: in_session_def alike_def kin_def split: if_splits)

lemma holder_ok_change: "holder_ok sid (Some t) h \<Longrightarrow> alike t' t \<Longrightarrow> holder_ok sid (Some t') h"
  by (cases h) (auto simp: row_alike_change in_session_change split: option.splits)

text \<open>A row that is replaced by one that has as much ended as it had.\<close>

lemma copies_ok_change:
  assumes "copies_ok (Some t) calls cancels held born n" and "alike t' t"
  shows "copies_ok (Some t') calls cancels held born n"
  using assms holder_ok_change [of _ t _ t']
  by (auto simp: copies_ok_def row_ended_def alike_def kin_def)

text \<open>A row that ends: the holder that ends it is the only one that has read it.\<close>

lemma copies_ok_ends:
  assumes ok: "copies_ok (Some t) calls cancels held born n" and kin: "kin t' t"
    and mine: "held (st_session_id t) = Some h"
    and final: "task_is_terminal (st_state t) \<Longrightarrow> task_is_terminal (st_state t')"
  shows "copies_ok (Some t') calls cancels (held(st_session_id t := None)) born
    (n + (if \<not> task_is_terminal (st_state t) \<and> task_is_terminal (st_state t') then 1 else 0))"
proof -
  have "holder_ok sid (Some t') h'" if "(held(st_session_id t := None)) sid = Some h'" for sid h'
  proof -
    have "sid \<noteq> st_session_id t" "holder_ok sid (Some t) h'" using that ok by (auto simp: copies_ok_def split: if_splits)
    then show ?thesis using kin by (cases h') (auto simp: row_alike_def in_session_def kin_def split: option.splits)
  qed
  with ok kin final show ?thesis by (auto simp: copies_ok_def row_ended_def kin_def)
qed

lemma copies_ok_release: "copies_ok row calls cancels held born n \<Longrightarrow> copies_ok row calls cancels (held(sid := None)) born n"
  by (auto simp: copies_ok_def)

lemma copies_ok_hold:
  "copies_ok row calls cancels held born n \<Longrightarrow> holder_ok sid row h \<Longrightarrow> copies_ok row calls cancels (held(sid \<mapsto> h)) born n"
  by (auto simp: copies_ok_def)

lemma copies_ok_calls:
  "copies_ok row calls cancels held born n \<Longrightarrow> (\<And>c. c \<in> calls' \<Longrightarrow> c \<in> calls \<or> (\<exists>t. row = Some t \<and> st_wake_policy t = st_wake_policy c))
    \<Longrightarrow> copies_ok row calls' cancels held born n"
  by (auto simp: copies_ok_def)

lemma copies_ok_cancels:
  "copies_ok row calls cancels held born n \<Longrightarrow> (\<And>c. c \<in> cancels' \<Longrightarrow> c \<in> cancels \<or> (\<exists>t. row = Some t \<and> kin t c))
    \<Longrightarrow> copies_ok row calls cancels' held born n"
  by (auto simp: copies_ok_def)

text \<open>An update becomes terminal exactly when it asks for it and the task still ran.\<close>

lemma becomes_terminal:
  assumes "\<not> task_is_terminal (st_state t)" and "task_is_terminal (next_task_state u t)"
  shows "wants_terminal u"
  using assms
  by (cases "su_state u") (auto simp: next_task_state_def task_is_terminal_def wants_terminal_def split: if_splits)

lemma resume_alike: "alike (apply_task_update t resume_update now) t"
  using next_state_terminal [of t resume_update]
  by (auto simp: alike_def kin_def task_simps next_task_state_def resume_update_def no_update_def task_is_terminal_def)

subsection \<open>Steps\<close>

lemma world_invI:
  assumes "world_inv w" and "ww_queue w' = ww_queue w" and "ww_overwritten w \<subseteq> ww_overwritten w'"
    and "\<And>sid tid h c. ww_held w' (sid, tid) = Some h \<Longrightarrow> held_copy h = Some c \<Longrightarrow>
      st_id c = tid \<or> ww_held w (sid, tid) = Some h"
    and "\<And>tid. tid \<notin> ww_overwritten w' \<Longrightarrow> task_inv tid w \<Longrightarrow> task_inv tid w'"
  shows "world_inv w'"
  using assms unfolding world_inv_def by (metis subsetD)

lemma notices_frame [simp]:
  "notices tid (w\<lparr>ww_reg := s\<rparr>) = notices tid w" "notices tid (w\<lparr>ww_held := h\<rparr>) = notices tid w"
  "notices tid (w\<lparr>ww_cancels := cs\<rparr>) = notices tid w" "notices tid (w\<lparr>ww_creates := ins\<rparr>) = notices tid w"
  "notices tid (w\<lparr>ww_born := b\<rparr>) = notices tid w" "notices tid (w\<lparr>ww_overwritten := b\<rparr>) = notices tid w"
  "notices tid (w\<lparr>ww_calls := ww_calls w @ calls\<rparr>) = notices tid w + length (filter (call_for tid) calls)"
  by (simp_all add: notices_def)

lemma create_check_inv: "world_inv w \<Longrightarrow> world_inv (w\<lparr>ww_creates := ins\<rparr>)"
  by (erule world_invI) (auto simp: task_inv_def)

lemma copies_ok_created:
  assumes "copies_ok None calls cancels held born n" and "held (st_session_id t) = None"
  shows "copies_ok (Some t) calls cancels held (task_is_terminal (st_state t)) n" and "\<not> born"
proof -
  have "holder_ok sid (Some t) h" if "held sid = Some h" for sid h
  proof -
    have "sid \<noteq> st_session_id t" "holder_ok sid None h" using that assms by (auto simp: copies_ok_def)
    then show ?thesis by (cases h) (auto simp: row_alike_def in_session_def split: option.splits)
  qed
  with assms show "copies_ok (Some t) calls cancels held (task_is_terminal (st_state t)) n" "\<not> born"
    by (auto simp: copies_ok_def row_ended_def)
qed

lemma create_store_inv:
  assumes inv: "world_inv w" and store: "local_create_write fresh now input (ww_reg w) = (Inr t, s')"
  shows "world_inv (w\<lparr>ww_reg := s', ww_creates := ins,
    ww_born := (if load_task (st_id t) (ww_reg w) = None \<and> task_is_terminal (st_state t)
      then insert (st_id t) (ww_born w) else ww_born w),
    ww_overwritten := (if load_task (st_id t) (ww_reg w) \<noteq> None \<or> ww_held w (st_session_id t, st_id t) \<noteq> None
      then insert (st_id t) (ww_overwritten w) else ww_overwritten w)\<rparr>)" (is "world_inv ?w")
  using inv
proof (rule world_invI)
  fix tid
  assume kept: "tid \<notin> ww_overwritten ?w" and ok: "task_inv tid w"
  have s': "s' = store_task t (ww_reg w)" using store by (auto simp: local_create_write_def Let_def)
  show "task_inv tid ?w"
  proof (cases "tid = st_id t")
    case True
    with kept have free: "load_task tid (ww_reg w) = None" "ww_held w (st_session_id t, tid) = None"
      by (auto split: if_splits)
    from ok free have "tid \<notin> ww_born w"
      unfolding task_inv_def by (auto dest: copies_ok_created(2) [where t = t])
    moreover have "copies_ok (Some t) {c \<in> fst ` set (ww_calls w). st_id c = tid} {c \<in> set (ww_cancels w). st_id c = tid}
        (\<lambda>sid. ww_held w (sid, tid)) (task_is_terminal (st_state t)) (notices tid w)"
      using ok free unfolding task_inv_def by (auto intro: copies_ok_created(1))
    ultimately show ?thesis
      using free True by (cases "task_is_terminal (st_state t)") (simp_all add: task_inv_def s' load_store)
  next
    case False
    with ok show ?thesis by (auto simp: task_inv_def s' load_store)
  qed
qed auto

lemma cancel_read_inv:
  assumes inv: "world_inv w" and read: "local_cancel_read sid tid (ww_reg w) = Some t"
  shows "world_inv (w\<lparr>ww_cancels := ww_cancels w @ [t]\<rparr>)"
  using inv
proof (rule world_invI)
  fix i
  assume "task_inv i w"
  moreover have "load_task (st_id t) (ww_reg w) = Some t"
    using read load_task_id [of tid "ww_reg w"] by (auto simp: local_cancel_read_def split: option.splits if_splits)
  ultimately show "task_inv i (w\<lparr>ww_cancels := ww_cancels w @ [t]\<rparr>)"
    unfolding task_inv_def by simp (erule copies_ok_cancels, auto)
qed auto

lemma cancel_store_inv:
  assumes inv: "world_inv w" and cancels: "ww_cancels w = before @ t # after"
    and store: "local_cancel_write now now' t (ww_reg w) = (rk, s')"
  shows "world_inv (w\<lparr>ww_reg := s', ww_cancels := before @ after,
    ww_overwritten := (if row_ended (load_task (st_id t) (ww_reg w)) \<noteq> task_is_terminal (st_state t)
      then insert (st_id t) (ww_overwritten w) else ww_overwritten w)\<rparr>)" (is "world_inv ?w")
  using inv
proof (rule world_invI)
  fix tid
  assume kept: "tid \<notin> ww_overwritten ?w" and ok: "task_inv tid w"
  obtain t' where s': "s' = store_task t' (ww_reg w)" and t': "alike t' t" "st_id t' = st_id t"
    using store by (auto simp: local_cancel_write_def Let_def alike_def kin_def)
  from ok have ok': "copies_ok (load_task tid (ww_reg w)) {c \<in> fst ` set (ww_calls w). st_id c = tid}
      {c \<in> set (before @ after). st_id c = tid} (\<lambda>sid. ww_held w (sid, tid)) (tid \<in> ww_born w) (notices tid w)"
    unfolding task_inv_def by (rule copies_ok_cancels) (auto simp: cancels)
  show "task_inv tid ?w"
  proof (cases "tid = st_id t")
    case True
    with kept ok cancels obtain u where u: "load_task tid (ww_reg w) = Some u" "kin u t"
      and same: "task_is_terminal (st_state u) = task_is_terminal (st_state t)"
      by (force simp: task_inv_def copies_ok_def row_ended_def split: if_splits)
    with t' have "alike t' u" by (auto simp: alike_def kin_def)
    with ok' u True t'(2) show ?thesis by (simp add: task_inv_def s' load_store copies_ok_change)
  next
    case False
    with ok' t'(2) show ?thesis by (simp add: task_inv_def s' load_store)
  qed
qed auto

text \<open>A step of a lock holder need only be checked for its own task.\<close>

lemma holder_inv:
  assumes inv: "world_inv w"
    and row: "\<And>i. i \<noteq> tid \<Longrightarrow> load_task i s' = load_task i (ww_reg w)"
    and calls: "\<And>c. c \<in> set cs \<Longrightarrow> st_id (fst c) = tid"
    and copy: "\<And>h c. x = Some h \<Longrightarrow> held_copy h = Some c \<Longrightarrow> st_id c = tid"
    and ok: "task_inv tid w \<Longrightarrow>
      copies_ok (load_task tid s') ({c \<in> fst ` set (ww_calls w). st_id c = tid} \<union> fst ` set cs)
        {c \<in> set (ww_cancels w). st_id c = tid} ((\<lambda>s. ww_held w (s, tid))(sid := x)) (tid \<in> ww_born w)
        (notices tid w + length (filter (call_for tid) cs))"
  shows "world_inv (w\<lparr>ww_reg := s', ww_held := (ww_held w)((sid, tid) := x), ww_calls := ww_calls w @ cs\<rparr>)"
    (is "world_inv ?w")
  using inv
proof (rule world_invI)
  fix i
  assume i: "task_inv i w"
  have set: "{c \<in> fst ` set (ww_calls w @ cs). st_id c = i} =
      {c \<in> fst ` set (ww_calls w). st_id c = i} \<union> (if i = tid then fst ` set cs else {})"
    using calls by auto
  have count: "notices i ?w = notices i w + length (filter (call_for i) cs)" by (simp add: notices_def)
  show "task_inv i ?w"
  proof (cases "i = tid")
    case True
    with ok i set count show ?thesis by (simp add: task_inv_def fun_upd_def)
  next
    case False
    then have "filter (call_for i) cs = []" using calls by (auto simp: filter_empty_conv call_for_def)
    with False row i set count show ?thesis by (simp add: task_inv_def)
  qed
qed (use copy in \<open>auto split: if_splits\<close>)

lemma quiet_holder_inv:
  assumes "world_inv w"
    and "\<And>i. i \<noteq> tid \<Longrightarrow> load_task i s' = load_task i (ww_reg w)"
    and "\<And>h c. x = Some h \<Longrightarrow> held_copy h = Some c \<Longrightarrow> st_id c = tid"
    and "task_inv tid w \<Longrightarrow>
      copies_ok (load_task tid s') {c \<in> fst ` set (ww_calls w). st_id c = tid}
        {c \<in> set (ww_cancels w). st_id c = tid} ((\<lambda>s. ww_held w (s, tid))(sid := x)) (tid \<in> ww_born w) (notices tid w)"
  shows "world_inv (w\<lparr>ww_reg := s', ww_held := (ww_held w)((sid, tid) := x)\<rparr>)"
  using holder_inv [OF assms(1,2), where cs = "[]" and x = x] assms(3,4) by simp

text \<open>A step that only moves the lock from one phase to another.\<close>

lemma lock_inv:
  assumes "world_inv w" and "\<And>i. load_task i s' = load_task i (ww_reg w)"
    and "\<And>h c. x = Some h \<Longrightarrow> held_copy h = Some c \<Longrightarrow> st_id c = tid"
    and "\<And>h. task_inv tid w \<Longrightarrow> x = Some h \<Longrightarrow> holder_ok sid (load_task tid (ww_reg w)) h"
  shows "world_inv (w\<lparr>ww_reg := s', ww_held := (ww_held w)((sid, tid) := x)\<rparr>)"
proof (rule quiet_holder_inv)
  show "copies_ok (load_task tid s') {c \<in> fst ` set (ww_calls w). st_id c = tid}
      {c \<in> set (ww_cancels w). st_id c = tid} ((\<lambda>s. ww_held w (s, tid))(sid := x)) (tid \<in> ww_born w) (notices tid w)"
    if "task_inv tid w"
    using that assms(2,4) by (cases x) (auto simp: task_inv_def intro: copies_ok_release copies_ok_hold)
qed (use assms in auto)

lemmas move_lock_inv = lock_inv [where s' = "ww_reg w" and w = w for w, OF _ refl, simplified]

lemma local_read_eq: "local_update_read sid tid reg = in_session sid (load_task tid reg)"
  by (simp add: local_update_read_def in_session_def split: option.split)

lemma read_alike: "in_session sid row = Some t \<Longrightarrow> row_alike sid row t"
  using in_session_Some [of sid row t] by (auto simp: row_alike_def)

lemma held_ok:
  "world_inv w \<Longrightarrow> ww_held w (sid, tid) = Some h \<Longrightarrow> task_inv tid w \<Longrightarrow> holder_ok sid (load_task tid (ww_reg w)) h"
  by (auto simp: task_inv_def copies_ok_def)

lemma update_lock_inv:
  assumes "world_inv w"
  shows "world_inv (w\<lparr>ww_held := (ww_held w)((sid, tid) \<mapsto>
    PriorRead update (update_prior local_api True sid tid update (ww_reg w)))\<rparr>)"
  using assms
  by (rule move_lock_inv)
    (auto simp: update_prior_def local_api_def local_get_eq intro: read_alike split: option.splits)

lemma update_read_inv:
  assumes inv: "world_inv w" and held: "ww_held w (sid, tid) = Some (PriorRead update prior)"
    and read: "local_update_read sid tid (ww_reg w) = Some t"
  shows "world_inv (w\<lparr>ww_held := (ww_held w)((sid, tid) \<mapsto> TaskRead update prior t)\<rparr>)"
  using inv
proof (rule move_lock_inv)
  have got: "in_session sid (load_task tid (ww_reg w)) = Some t" using read by (simp add: local_read_eq)
  then have row: "load_task tid (ww_reg w) = Some t" by (simp add: in_session_Some)
  show "holder_ok sid (load_task tid (ww_reg w)) h" if "task_inv tid w" "Some (TaskRead update prior t) = Some h" for h
    using that held_ok [OF inv held] got row read_alike [OF got]
    by (auto simp: row_alike_def split: option.splits)
  show "st_id c = tid" if "Some (TaskRead update prior t) = Some h" "held_copy h = Some c" for h c
    using that load_task_id [OF row] by auto
qed

lemma transition_count:
  assumes "st_id t' = tid" and "needs_prior True update \<Longrightarrow> \<exists>p. prior = Some p \<and> alike c p"
    and "t' = apply_task_update c update now"
  shows "length (filter (call_for tid) (transition_calls update prior (Some t'))) =
    (if \<not> task_is_terminal (st_state c) \<and> task_is_terminal (st_state t') then 1 else 0)"
  using assms becomes_terminal [of c update]
  by (auto simp: transition_calls_def call_for_def needs_prior_def alike_def apply_state split: option.splits)

lemma transition_tasks: "c \<in> set (transition_calls update prior (Some t)) \<Longrightarrow> fst c = t"
  by (auto simp: transition_calls_def split: option.splits if_splits)

lemma update_store_inv:
  assumes inv: "world_inv w" and held: "ww_held w (sid, tid) = Some (TaskRead update prior c)"
    and store: "local_update_write now update c (ww_reg w) = (Inr updated, s')"
  shows "world_inv (w\<lparr>ww_reg := s', ww_held := (ww_held w)((sid, tid) := None),
    ww_calls := ww_calls w @ transition_calls update prior updated\<rparr>)"
  using inv
proof (rule holder_inv)
  let ?t = "apply_task_update c update now"
  have up: "updated = Some ?t" and s': "s' = store_task ?t (ww_reg w)"
    using store by (auto simp: local_update_write_def Let_def)
  have "st_id c = tid" using inv held by (auto simp: world_inv_def)
  then have id: "st_id ?t = tid" by (simp add: apply_identity)
  show "load_task i s' = load_task i (ww_reg w)" if "i \<noteq> tid" for i using that id by (simp add: s' load_store)
  show "st_id (fst x) = tid" if "x \<in> set (transition_calls update prior updated)" for x
    using transition_tasks [of x] that up id by simp
  show "copies_ok (load_task tid s')
      ({c \<in> fst ` set (ww_calls w). st_id c = tid} \<union> fst ` set (transition_calls update prior updated))
      {c \<in> set (ww_cancels w). st_id c = tid} ((\<lambda>s. ww_held w (s, tid))(sid := None)) (tid \<in> ww_born w)
      (notices tid w + length (filter (call_for tid) (transition_calls update prior updated)))"
    if ok: "task_inv tid w"
  proof -
    obtain t where t: "load_task tid (ww_reg w) = Some t" "st_session_id t = sid" "alike t c"
      and prior: "needs_prior True update \<Longrightarrow> \<exists>p. prior = Some p \<and> alike c p"
      using held_ok [OF inv held ok] by (auto simp: row_alike_def)
    have "kin ?t t" using t(3) by (simp add: alike_def kin_def apply_identity)
    moreover have "task_is_terminal (st_state t) \<Longrightarrow> task_is_terminal (st_state ?t)"
      using t(3) next_state_terminal [of c update] by (simp add: alike_def apply_state)
    ultimately have "copies_ok (Some ?t) {c \<in> fst ` set (ww_calls w). st_id c = tid}
        {c \<in> set (ww_cancels w). st_id c = tid} ((\<lambda>s. ww_held w (s, tid))(sid := None)) (tid \<in> ww_born w)
        (notices tid w + length (filter (call_for tid) (transition_calls update prior updated)))"
      using ok held copies_ok_ends [of t _ _ "\<lambda>s. ww_held w (s, tid)" _ _ ?t] t
        transition_count [OF id prior refl]
      by (simp add: task_inv_def up alike_def)
    then show ?thesis
      by (simp add: s' load_store id) (erule copies_ok_calls, auto simp: up dest: transition_tasks)
  qed
qed simp

lemma message_check_inv:
  assumes inv: "world_inv w" and check: "local_message_check sid tid message (ww_reg w) = Inr t"
  shows "world_inv (w\<lparr>ww_held := (ww_held w)((sid, tid) \<mapsto> MessageChecked message t)\<rparr>)"
  using inv
proof (rule move_lock_inv)
  have got: "in_session sid (load_task tid (ww_reg w)) = Some t"
    using check by (auto simp: local_message_check_def local_get_eq split: option.splits if_splits)
  show "st_id c = tid" if "Some (MessageChecked message t) = Some h" "held_copy h = Some c" for h c
    using that got in_session_Some load_task_id by fastforce
  show "holder_ok sid (load_task tid (ww_reg w)) h" if "Some (MessageChecked message t) = Some h" for h
    using that read_alike [OF got] by auto
qed

lemma message_insert_inv:
  assumes inv: "world_inv w" and held: "ww_held w (sid, tid) = Some (MessageChecked message t)"
    and ins: "local_message_insert fresh now tid message (ww_reg w) = (stored, s')"
  shows "world_inv (w\<lparr>ww_reg := s', ww_held := (ww_held w)((sid, tid) \<mapsto> MessageStored message t)\<rparr>)"
  using inv
proof (rule lock_inv)
  show "load_task i s' = load_task i (ww_reg w)" for i
    using ins by (auto simp: local_message_insert_def Let_def)
  show "st_id c = tid" if "Some (MessageStored message t) = Some h" "held_copy h = Some c" for h c
    using that inv held by (auto simp: world_inv_def)
  show "holder_ok sid (load_task tid (ww_reg w)) h" if "task_inv tid w" "Some (MessageStored message t) = Some h" for h
    using held_ok [OF inv held] that by auto
qed

lemma message_resume_inv:
  assumes inv: "world_inv w" and held: "ww_held w (sid, tid) = Some (MessageStored message c)"
  shows "world_inv (w\<lparr>ww_reg := local_message_resume now message c (ww_reg w),
    ww_held := (ww_held w)((sid, tid) \<mapsto> MessageResumed message)\<rparr>)"
  using inv
proof (rule quiet_holder_inv)
  let ?t = "apply_task_update c resume_update now" and ?s = "local_message_resume now message c (ww_reg w)"
  have "st_id c = tid" using inv held by (auto simp: world_inv_def)
  then have id: "st_id ?t = tid" by (simp add: apply_identity)
  show "load_task i ?s = load_task i (ww_reg w)" if "i \<noteq> tid" for i
    using that id by (simp add: local_message_resume_def load_store)
  show "copies_ok (load_task tid ?s) {c \<in> fst ` set (ww_calls w). st_id c = tid}
      {c \<in> set (ww_cancels w). st_id c = tid} ((\<lambda>s. ww_held w (s, tid))(sid \<mapsto> MessageResumed message))
      (tid \<in> ww_born w) (notices tid w)"
    if ok: "task_inv tid w"
  proof -
    obtain t where t: "load_task tid (ww_reg w) = Some t" "alike t c"
      using held_ok [OF inv held ok] by (auto simp: row_alike_def)
    have "alike ?t t" using resume_alike t(2) by (auto simp: alike_def kin_def)
    then have "copies_ok (load_task tid ?s) {c \<in> fst ` set (ww_calls w). st_id c = tid}
        {c \<in> set (ww_cancels w). st_id c = tid} (\<lambda>s. ww_held w (s, tid)) (tid \<in> ww_born w) (notices tid w)"
      using ok t(1) id by (auto simp: task_inv_def local_message_resume_def load_store intro: copies_ok_change)
    then show ?thesis by (rule copies_ok_hold) simp
  qed
qed auto

lemma message_end_inv:
  assumes inv: "world_inv w"
  shows "world_inv (w\<lparr>ww_held := (ww_held w)((sid, tid) := None),
    ww_calls := ww_calls w @ message_calls local_api True sid tid message (ww_reg w)\<rparr>)"
proof -
  let ?cs = "message_calls local_api True sid tid message (ww_reg w)"
  have "?cs = (if nm_direction message = Outbound
      then (case in_session sid (load_task tid (ww_reg w)) of Some t \<Rightarrow> [(t, MessageTransition)] | None \<Rightarrow> []) else [])"
    by (cases "in_session sid (load_task tid (ww_reg w))") (simp_all add: message_calls_def local_api_def local_get_eq)
  then have cs: "snd c = MessageTransition \<and> load_task tid (ww_reg w) = Some (fst c)" if "c \<in> set ?cs" for c
    using that by (cases "nm_direction message = Outbound"; cases "in_session sid (load_task tid (ww_reg w))")
      (auto simp: in_session_Some)
  have none: "filter (call_for tid) ?cs = []" using cs by (auto simp: filter_empty_conv call_for_def)
  have "world_inv (w\<lparr>ww_reg := ww_reg w, ww_held := (ww_held w)((sid, tid) := None), ww_calls := ww_calls w @ ?cs\<rparr>)"
    using inv
  proof (rule holder_inv)
    show "st_id (fst c) = tid" if "c \<in> set ?cs" for c using cs [OF that] load_task_id by blast
    show "copies_ok (load_task tid (ww_reg w)) ({c \<in> fst ` set (ww_calls w). st_id c = tid} \<union> fst ` set ?cs)
        {c \<in> set (ww_cancels w). st_id c = tid} ((\<lambda>s. ww_held w (s, tid))(sid := None)) (tid \<in> ww_born w)
        (notices tid w + length (filter (call_for tid) ?cs))"
      if "task_inv tid w"
    proof -
      have "copies_ok (load_task tid (ww_reg w)) {c \<in> fst ` set (ww_calls w). st_id c = tid}
          {c \<in> set (ww_cancels w). st_id c = tid} ((\<lambda>s. ww_held w (s, tid))(sid := None)) (tid \<in> ww_born w)
          (notices tid w + length (filter (call_for tid) ?cs))"
        using copies_ok_release [OF that [unfolded task_inv_def]] none by simp
      then show ?thesis by (rule copies_ok_calls) (use cs in auto)
    qed
  qed simp_all
  then show ?thesis by simp
qed

lemma callback_inv:
  assumes inv: "world_inv w" and calls: "ww_calls w = before @ (t, tr) # after"
  shows "world_inv (w\<lparr>ww_calls := before @ after,
    ww_queue := snd (note_transition now t tr (ww_queue w))\<rparr>)" (is "world_inv ?w")
proof -
  have q: "hm_wf (ww_queue w)" using inv by (simp add: world_inv_def)
  have "task_inv tid ?w" if ok: "task_inv tid w" for tid
  proof -
    let ?c = "\<lambda>w. {c \<in> fst ` set (ww_calls w). st_id c = tid}"
    have sub: "copies_ok (load_task tid (ww_reg w)) (?c ?w) {c \<in> set (ww_cancels w). st_id c = tid}
        (\<lambda>s. ww_held w (s, tid)) (tid \<in> ww_born w) (notices tid w)"
      using ok unfolding task_inv_def by (rule copies_ok_calls) (auto simp: calls)
    have "notices tid ?w = notices tid w"
      if "\<forall>u. load_task tid (ww_reg w) = Some u \<longrightarrow> st_wake_policy u \<noteq> Silent"
      using ok that by (intro notices_callback [OF q calls]) (auto simp: task_inv_def copies_ok_def calls)
    moreover have "load_task tid (ww_reg w) = Some u \<Longrightarrow> st_wake_policy u = Silent \<Longrightarrow> task_inv tid ?w" for u
      using sub by (simp add: task_inv_def copies_ok_def)
    ultimately show ?thesis
      using sub by (cases "\<exists>u. load_task tid (ww_reg w) = Some u \<and> st_wake_policy u = Silent") (auto simp: task_inv_def)
  qed
  with inv note_wf [OF q] show ?thesis by (auto simp: world_inv_def)
qed

lemma drain_inv:
  assumes inv: "world_inv w" and "drain sid (ww_queue w) = (wakes, q)"
  shows "world_inv (w\<lparr>ww_queue := q, ww_taken := ww_taken w @ wakes\<rparr>)"
proof -
  have "hm_wf (ww_queue w)" using inv by (simp add: world_inv_def)
  with assms drain_conserves(1) [of "ww_queue w"] notices_drain [of w] show ?thesis
    by (auto simp: world_inv_def task_inv_def)
qed

lemma world_step_inv: "world_step w w' \<Longrightarrow> world_inv w \<Longrightarrow> world_inv w'"
proof (induction rule: world_step.induct)
  case UpdateMissing
  then show ?case by (intro move_lock_inv) auto
next
  case CreateCheck
  show ?case by (rule create_check_inv [OF CreateCheck.prems])
next
  case CreateStore
  show ?case by (rule create_store_inv [OF CreateStore.prems CreateStore.hyps(3)])
next
  case CancelRead
  show ?case by (rule cancel_read_inv [OF CancelRead.prems CancelRead.hyps])
next
  case CancelStore
  show ?case by (rule cancel_store_inv [OF CancelStore.prems CancelStore.hyps])
next
  case UpdateLock
  show ?case unfolding UpdateLock.hyps(2) by (rule update_lock_inv [OF UpdateLock.prems])
next
  case UpdateRead
  show ?case by (rule update_read_inv [OF UpdateRead.prems UpdateRead.hyps])
next
  case UpdateStore
  show ?case by (rule update_store_inv [OF UpdateStore.prems UpdateStore.hyps])
next
  case MessageCheck
  show ?case by (rule message_check_inv [OF MessageCheck.prems MessageCheck.hyps(2)])
next
  case MessageInsert
  show ?case by (rule message_insert_inv [OF MessageInsert.prems MessageInsert.hyps])
next
  case MessageResume
  show ?case unfolding MessageResume.hyps(2) by (rule message_resume_inv [OF MessageResume.prems MessageResume.hyps(1)])
next
  case MessageEnd
  show ?case by (rule message_end_inv [OF MessageEnd.prems])
next
  case Callback
  show ?case by (rule callback_inv [OF Callback.prems Callback.hyps])
next
  case DrainTurn
  show ?case by (rule drain_inv [OF DrainTurn.prems DrainTurn.hyps])
qed

lemma world_start_inv: "lr_tasks s = [] \<Longrightarrow> world_inv (world_start s)"
  by (simp add: world_inv_def world_start_def task_inv_def copies_ok_def load_task_def notices_def queued_wakes_def
      hm_values_def row_ended_def)

interpretation local_world: step_system "\<lambda>w. w = world_start task_registry_new" world_step world_inv
proof
  show "world_inv w" if "w = world_start task_registry_new" for w
    unfolding that by (rule world_start_inv) (simp add: task_registry_new_def)
qed (rule world_step_inv)

section \<open>Order of delivery\<close>

text \<open>What a session has received, followed by what is queued for it.\<close>

definition wake_log :: "uuid \<Rightarrow> wake_world \<Rightarrow> pending_wake list" where
  "wake_log sid w = filter (\<lambda>p. pw_session_id p = sid) (ww_taken w) @ get_or [] (hm_get (ww_queue w) sid)"

definition queue_ok :: "wake_queue \<Rightarrow> bool" where
  "queue_ok q \<longleftrightarrow> (\<forall>sid. \<forall>p \<in> set (get_or [] (hm_get q sid)). pw_session_id p = sid)"

lemma note_log:
  "get_or [] (hm_get (snd (note_transition now t tr q)) sid) =
    get_or [] (hm_get q sid) @ (if st_session_id t = sid then wake_of now t tr else [])"
  by (auto simp: note_transition_def wake_of_def split: option.split)

lemma note_queue_ok: "queue_ok q \<Longrightarrow> queue_ok (snd (note_transition now t tr q))"
  by (auto simp: queue_ok_def note_log wake_of_def split: option.splits)

lemma drain_log:
  assumes "queue_ok q" and "drain s q = (wakes, q')"
  shows "queue_ok q'" and "filter (\<lambda>p. pw_session_id p = sid) wakes @ get_or [] (hm_get q' sid) = get_or [] (hm_get q sid)"
proof -
  have wakes: "wakes = get_or [] (hm_get q s)" and rest: "hm_get q' i = (if i = s then None else hm_get q i)" for i
    using assms(2) by (auto simp: drain_def split: option.splits)
  have at: "\<forall>p \<in> set (get_or [] (hm_get q i)). pw_session_id p = i" for i using assms(1) by (simp add: queue_ok_def)
  then show "queue_ok q'" by (simp add: queue_ok_def rest)
  have "filter (\<lambda>p. pw_session_id p = sid) wakes = (if sid = s then wakes else [])"
    using at [of s] by (auto simp: wakes filter_id_conv filter_empty_conv)
  then show "filter (\<lambda>p. pw_session_id p = sid) wakes @ get_or [] (hm_get q' sid) = get_or [] (hm_get q sid)"
    by (simp add: rest wakes)
qed

lemma world_step_log:
  assumes "world_step w w'" and "queue_ok (ww_queue w)"
  shows "queue_ok (ww_queue w') \<and> prefix (wake_log sid w) (wake_log sid w')"
  using assms
proof (cases rule: world_step.cases)
  case (Callback before task transition after now)
  with assms(2) show ?thesis by (simp add: note_queue_ok wake_log_def note_log)
next
  case (DrainTurn s wakes q)
  with drain_log [OF assms(2) DrainTurn(2)] show ?thesis by (simp add: wake_log_def)
qed (simp_all add: wake_log_def)

lemma world_run_log:
  "world_step\<^sup>*\<^sup>* w w' \<Longrightarrow> queue_ok (ww_queue w) \<Longrightarrow>
    queue_ok (ww_queue w') \<and> prefix (wake_log sid w) (wake_log sid w')"
proof (induction rule: rtranclp_induct)
  case (step x y)
  then show ?case using world_step_log [of x y sid] prefix_order.trans by blast
qed simp

subsection \<open>Example\<close>

definition demo_done :: session_task where
  "demo_done = apply_task_update (new_session_task ''x'' demo_input 0) demo_finish 3"

definition demo_created :: wake_world where
  "demo_created = (world_start task_registry_new)\<lparr>ww_reg := demo_registry\<rparr>"

definition demo_world :: wake_world where
  "demo_world = demo_created\<lparr>ww_reg := store_task demo_done demo_registry,
     ww_taken := wake_of 4 demo_done TerminalTransition\<rparr>"

lemma demo_done_facts:
  "st_state demo_done = TaskSucceeded" "st_id demo_done = ''task_a''" "st_session_id demo_done = 5"
  "st_wake_policy demo_done = OnTerminal"
  by (simp_all add: demo_done_def task_simps next_task_state_def fenced_def demo_finish_def no_update_def
      new_session_task_def demo_input_def task_is_terminal_def)

lemma demo_drained:
  "drain 5 (snd (note_transition 4 demo_done TerminalTransition [])) = (wake_of 4 demo_done TerminalTransition, [])"
  using wake_of_terminal [of demo_done]
  by (auto simp: note_transition_def wake_of_def drain_def demo_done_facts hm_insert_def hm_remove_def hm_get_def)

lemma demo_update:
  "observing_update local_api True 3 5 ''task_a'' demo_finish demo_registry
    = (Inr (Some demo_done), [(demo_done, TerminalTransition)], store_task demo_done demo_registry)"
proof -
  let ?t = "new_session_task ''x'' demo_input 0"
  have got: "in_session 5 (load_task ''task_a'' demo_registry) = Some ?t"
    by (simp add: in_session_def demo_registry_load) (simp add: new_session_task_def demo_input_def)
  have "st_state ?t = TaskRunning" by (simp add: new_session_task_def demo_input_def)
  moreover have "api_update local_api 3 5 ''task_a'' demo_finish demo_registry
      = (Inr (Some demo_done), store_task demo_done demo_registry)"
    by (simp add: local_api_def local_update_eq got demo_done_def)
  moreover have "api_get local_api 5 ''task_a'' demo_registry = Inr (Some ?t)"
    by (simp add: local_api_def local_get_eq got)
  ultimately show ?thesis
    by (simp add: observing_update_def update_prior_def transition_calls_def Let_def demo_done_facts task_is_terminal_def)
      (simp add: demo_finish_def no_update_def task_is_terminal_def needs_prior_def wants_terminal_def wants_awaiting_input_def)
qed

lemma demo_created_run: "world_step\<^sup>*\<^sup>* (world_start task_registry_new) demo_created"
proof -
  let ?w1 = "(world_start task_registry_new)\<lparr>ww_creates := [demo_input]\<rparr>"
  have "world_step (world_start task_registry_new) ?w1"
    using CreateCheck [of demo_input "world_start task_registry_new"]
    by (simp add: world_start_def local_create_check_def load_task_def task_registry_new_def split: option.split)
  moreover have "world_step ?w1 demo_created"
    using CreateStore [of ?w1 "[]" demo_input "[]" "''x''" 0 "new_session_task ''x'' demo_input 0" demo_registry]
    by (simp add: world_start_def demo_created_def local_create_write_def demo_registry_eq Let_def task_registry_new_def
        load_task_def store_task_def new_session_task_def demo_input_def task_is_terminal_def)
  ultimately show ?thesis by (meson converse_rtranclp_into_rtranclp rtranclp.rtrancl_refl)
qed

lemma demo_world_run: "world_step\<^sup>*\<^sup>* (world_start task_registry_new) demo_world"
proof -
  let ?w2 = "demo_created\<lparr>ww_reg := store_task demo_done demo_registry, ww_calls := [(demo_done, TerminalTransition)]\<rparr>"
  let ?w3 = "?w2\<lparr>ww_calls := [], ww_queue := snd (note_transition 4 demo_done TerminalTransition [])\<rparr>"
  have "world_step\<^sup>*\<^sup>* demo_created ?w2"
    using update_in_one_go [of 3 5 "''task_a''" demo_finish demo_created] demo_update
    by (simp add: demo_created_def world_start_def)
  moreover have "world_step ?w2 ?w3"
    using Callback [of ?w2 "[]" demo_done TerminalTransition "[]" 4] by (simp add: demo_created_def world_start_def)
  moreover have "world_step ?w3 demo_world"
    using DrainTurn [of 5 ?w3 "wake_of 4 demo_done TerminalTransition" "[]"] demo_drained
    by (simp add: world_start_def demo_world_def demo_created_def)
  ultimately show ?thesis using demo_created_run by (meson rtranclp.rtrancl_into_rtrancl rtranclp_trans)
qed

text \<open>
  A cancel reads the running task, an update ends the task, the cancel writes its copy back, and a
  second update ends the task again.
\<close>

definition demo_revived :: session_task where
  "demo_revived = (new_session_task ''x'' demo_input 0)\<lparr>st_cancel_requested_at := Some 6, st_updated_at := 7\<rparr>"

definition demo_again :: session_task where
  "demo_again = apply_task_update demo_revived demo_finish 8"

definition demo_twice :: wake_world where
  "demo_twice = demo_created\<lparr>
     ww_reg := store_task demo_again (store_task demo_revived (store_task demo_done demo_registry)),
     ww_calls := [(demo_done, TerminalTransition), (demo_again, TerminalTransition)],
     ww_overwritten := {''task_a''}\<rparr>"

lemma demo_again_facts:
  "st_state demo_again = TaskSucceeded" "st_id demo_again = ''task_a''" "st_wake_policy demo_again = OnTerminal"
  "st_id demo_revived = ''task_a''" "st_session_id demo_revived = 5" "st_state demo_revived = TaskRunning"
  by (simp_all add: demo_again_def demo_revived_def task_simps next_task_state_def fenced_def demo_finish_def
      no_update_def new_session_task_def demo_input_def task_is_terminal_def)

lemma demo_revive:
  "local_cancel_write 6 7 (new_session_task ''x'' demo_input 0) reg = (Inr (Some demo_revived), store_task demo_revived reg)"
  by (simp add: local_cancel_write_def demo_revived_def Let_def) (simp add: new_session_task_def)

lemma demo_update_again:
  assumes "load_task ''task_a'' reg = Some demo_revived"
  shows "observing_update local_api True 8 5 ''task_a'' demo_finish reg
    = (Inr (Some demo_again), [(demo_again, TerminalTransition)], store_task demo_again reg)"
proof -
  have got: "in_session 5 (load_task ''task_a'' reg) = Some demo_revived"
    by (simp add: in_session_def assms demo_again_facts)
  then have "api_update local_api 8 5 ''task_a'' demo_finish reg = (Inr (Some demo_again), store_task demo_again reg)"
    by (simp add: local_api_def local_update_eq demo_again_def)
  moreover have "api_get local_api 5 ''task_a'' reg = Inr (Some demo_revived)"
    by (simp add: local_api_def local_get_eq got)
  ultimately show ?thesis
    by (simp add: observing_update_def update_prior_def transition_calls_def Let_def demo_again_facts task_is_terminal_def)
      (simp add: demo_finish_def no_update_def task_is_terminal_def needs_prior_def wants_terminal_def wants_awaiting_input_def)
qed

lemma demo_twice_run: "world_step\<^sup>*\<^sup>* (world_start task_registry_new) demo_twice"
proof -
  let ?t = "new_session_task ''x'' demo_input 0" and ?done = "store_task demo_done demo_registry"
  let ?w1 = "demo_created\<lparr>ww_cancels := [?t]\<rparr>"
  let ?w2 = "?w1\<lparr>ww_reg := ?done, ww_calls := [(demo_done, TerminalTransition)]\<rparr>"
  let ?w3 = "demo_created\<lparr>ww_reg := store_task demo_revived ?done, ww_calls := [(demo_done, TerminalTransition)],
    ww_overwritten := {''task_a''}\<rparr>"
  have t: "st_id ?t = ''task_a''" "st_session_id ?t = 5" "st_state ?t = TaskRunning"
    by (simp_all add: new_session_task_def demo_input_def)
  have "world_step demo_created ?w1"
    using CancelRead [of 5 "''task_a''" demo_created ?t]
    by (simp add: demo_created_def world_start_def local_cancel_read_def demo_registry_load t)
  moreover have "world_step\<^sup>*\<^sup>* ?w1 ?w2"
    using update_in_one_go [of 3 5 "''task_a''" demo_finish ?w1] demo_update
    by (simp add: demo_created_def world_start_def)
  moreover have "world_step ?w2 ?w3"
    using CancelStore [of ?w2 "[]" ?t "[]" 6 7, OF _ demo_revive]
    by (simp add: demo_created_def world_start_def t load_store demo_done_facts row_ended_def task_is_terminal_def)
  moreover have "world_step\<^sup>*\<^sup>* ?w3 demo_twice"
    using update_in_one_go [of 8 5 "''task_a''" demo_finish ?w3, OF demo_update_again]
    by (simp add: demo_created_def world_start_def load_store demo_again_facts demo_twice_def)
  ultimately show ?thesis
    using demo_created_run by (meson rtranclp.rtrancl_into_rtrancl rtranclp_trans)
qed

lemma demo_twice_notices: "notices ''task_a'' demo_twice = 2"
  by (simp add: notices_def demo_twice_def demo_created_def world_start_def call_for_def demo_done_facts
      demo_again_facts queued_wakes_def hm_values_def)

section \<open>Properties\<close>

text \<open>
  C24. A finished task is announced exactly once, unless an operation that takes no task lock has
  overwritten it. However the sections of creates, updates, messages and cancels on a local registry,
  the callbacks (in any order) and the draining turns interleave, the announcements of the end of a
  task that are owed, queued or received by a turn are one in all if an update has ended the task, and
  none otherwise, for every task whose policy is not silent; updates and messages, which hold the
  lock of the task, never break this. The exception is of creates and cancels, which hold no lock: a
  cancel that writes back a row it read before the task ended, or a create that writes over a row or
  beside an operation under way on its identifier. It is real: a run of one create, one cancel and two
  updates announces the end of one task twice.
\<close>

theorem task_end_announced_once:
  "(\<forall>w tid t. world_step\<^sup>*\<^sup>* (world_start task_registry_new) w \<longrightarrow> load_task tid (ww_reg w) = Some t \<longrightarrow>
      st_wake_policy t \<noteq> Silent \<longrightarrow> tid \<notin> ww_overwritten w \<longrightarrow>
      notices tid w = (if task_is_terminal (st_state t) \<and> tid \<notin> ww_born w then 1 else 0))
    \<and> (\<exists>w t. world_step\<^sup>*\<^sup>* (world_start task_registry_new) w \<and> load_task ''task_a'' (ww_reg w) = Some t
        \<and> st_state t = TaskSucceeded \<and> st_wake_policy t \<noteq> Silent \<and> ''task_a'' \<in> ww_overwritten w
        \<and> notices ''task_a'' w = 2)"
proof (intro conjI allI impI)
  fix w tid t
  assume "world_step\<^sup>*\<^sup>* (world_start task_registry_new) w" and "load_task tid (ww_reg w) = Some t"
    and "st_wake_policy t \<noteq> Silent" and "tid \<notin> ww_overwritten w"
  with local_world.reachable_inv [OF refl, of w]
  show "notices tid w = (if task_is_terminal (st_state t) \<and> tid \<notin> ww_born w then 1 else 0)"
    by (auto simp: world_inv_def task_inv_def copies_ok_def row_ended_def)
next
  have "load_task ''task_a'' (ww_reg demo_twice) = Some demo_again"
    by (simp add: demo_twice_def demo_again_facts load_store)
  moreover have "''task_a'' \<in> ww_overwritten demo_twice" by (simp add: demo_twice_def)
  ultimately show "\<exists>w t. world_step\<^sup>*\<^sup>* (world_start task_registry_new) w \<and> load_task ''task_a'' (ww_reg w) = Some t
      \<and> st_state t = TaskSucceeded \<and> st_wake_policy t \<noteq> Silent \<and> ''task_a'' \<in> ww_overwritten w
      \<and> notices ''task_a'' w = 2"
    using demo_twice_run demo_twice_notices demo_again_facts by (intro exI conjI) auto
qed

theorem task_end_announced_once_witness:
  "world_step\<^sup>*\<^sup>* (world_start task_registry_new) demo_world \<and> ''task_a'' \<notin> ww_overwritten demo_world
    \<and> notices ''task_a'' demo_world = 1"
proof -
  have "load_task ''task_a'' (ww_reg demo_world) = Some demo_done"
    by (simp add: demo_world_def load_store demo_done_facts)
  moreover have "''task_a'' \<notin> ww_overwritten demo_world" "''task_a'' \<notin> ww_born demo_world"
    by (simp_all add: demo_world_def demo_created_def world_start_def)
  ultimately show ?thesis
    using task_end_announced_once [THEN conjunct1, rule_format, OF demo_world_run, of "''task_a''" demo_done]
      demo_world_run demo_done_facts
    by (simp add: task_is_terminal_def)
qed

text \<open>
  Wakes arrive in order and once. What a session's turns have received, followed by what is queued
  for it, only ever grows at its end, whatever writers, callbacks and turns do: no wake is lost,
  repeated or overtaken, and a drain receives all that is queued.
\<close>

theorem wakes_in_order:
  assumes "world_step\<^sup>*\<^sup>* (world_start task_registry_new) w"
    and "world_step\<^sup>*\<^sup>* w w'"
  shows "prefix (wake_log sid w) (wake_log sid w')
    \<and> (\<forall>wakes q. drain sid (ww_queue w) = (wakes, q) \<longrightarrow>
        filter (\<lambda>p. pw_session_id p = sid) (ww_taken w) @ wakes = wake_log sid w \<and> \<not> has_pending sid q)"
proof -
  have "queue_ok (ww_queue (world_start task_registry_new))"
    by (simp add: world_start_def queue_ok_def)
  from world_run_log [OF assms(1) this] have "queue_ok (ww_queue w)" by blast
  then have "prefix (wake_log sid w) (wake_log sid w')" using world_run_log [OF assms(2)] by blast
  moreover have "filter (\<lambda>p. pw_session_id p = sid) (ww_taken w) @ wakes = wake_log sid w \<and> \<not> has_pending sid q"
    if "drain sid (ww_queue w) = (wakes, q)" for wakes q
    using that by (auto simp: drain_def wake_log_def has_pending_def pending_len_def split: option.splits)
  ultimately show ?thesis by blast
qed

theorem wakes_in_order_witness:
  "prefix (wake_log 5 (world_start task_registry_new)) (wake_log 5 demo_world) \<and> length (wake_log 5 demo_world) = 1"
proof -
  have "length (wake_log 5 demo_world) = 1"
    using wake_of_terminal [of demo_done]
    by (auto simp: wake_log_def demo_world_def demo_created_def world_start_def wake_of_def demo_done_facts)
  with wakes_in_order [OF rtranclp.rtrancl_refl demo_world_run] show ?thesis by blast
qed

end
