(* ===== verification/Task_Reaper.thy ===== *)
theory Task_Reaper
  imports Task_Registry
begin

text \<open>
  The reconciler of orphaned session tasks (\<open>crates/worker/src/session_task_reaper.rs\<close>): tasks whose
  worker has stopped its heartbeat are started again under a higher attempt, or failed. The executors
  of task kinds and the storage's pruning query are parameters; the texts of errors are a function of
  the environment.
\<close>

section \<open>Definitions\<close>

record reaper_input =
  ri_stale_after_seconds :: int
  ri_limit :: int
  ri_max_attempts :: int
  ri_retention_ttl_seconds :: int
  ri_retention_limit :: int

definition reaper_input_default :: reaper_input where
  "reaper_input_default =
     \<lparr>ri_stale_after_seconds = 5 * 60, ri_limit = 50, ri_max_attempts = 3,
      ri_retention_ttl_seconds = 30 * 24 * 60 * 60, ri_retention_limit = 100\<rparr>"

text \<open>The environment variable: unset, unparsable, or a number.\<close>

definition reaper_input_from_env :: "int option option \<Rightarrow> reaper_input" where
  "reaper_input_from_env var =
     (case var of
        Some (Some secs) \<Rightarrow>
          if 0 \<le> secs then reaper_input_default\<lparr>ri_retention_ttl_seconds := secs\<rparr> else reaper_input_default
      | _ \<Rightarrow> reaper_input_default)"

record reap_outcome =
  ro_session_id :: uuid
  ro_task_id :: string
  ro_status :: string
  ro_detail :: string

record reap_summary =
  rs_candidates :: nat
  rs_reaped :: nat
  rs_reattached :: nat
  rs_skipped :: nat
  rs_pruned :: nat
  rs_outcomes :: "reap_outcome list"

record 's task_executor =
  ex_can_reattach_task :: "session_task \<Rightarrow> bool"
  ex_start :: "session_task \<Rightarrow> ('s, string, unit) op"

record 's reaper_env =
  re_api :: "'s task_api"
  re_executor_for :: "string \<Rightarrow> 's task_executor option"
  re_now :: timestamp
  re_int_text :: "int \<Rightarrow> string"
  re_error_text :: "task_registry_error \<Rightarrow> string"

definition reattach_executor :: "'s reaper_env \<Rightarrow> reaper_input \<Rightarrow> session_task \<Rightarrow> 's task_executor option" where
  "reattach_executor env input task =
     (case re_executor_for env (st_kind task) of
        Some ex \<Rightarrow>
          if ex_can_reattach_task ex task \<and> st_attempt task < ri_max_attempts input then Some ex else None
      | None \<Rightarrow> None)"

definition supersede_update :: "'s reaper_env \<Rightarrow> session_task \<Rightarrow> session_task_update" where
  "supersede_update env task =
     no_update\<lparr>su_worker_id := Some ''reaper'', su_heartbeat_at := Some (re_now env),
       su_state_detail := Some (''re-attached (attempt '' @ re_int_text env (wrap_i32 (st_attempt task + 1)) @ '')''),
       su_expected_attempt := Some (st_attempt task), su_increment_attempt := True\<rparr>"

definition orphaned :: "string \<Rightarrow> task_error" where
  "orphaned message = \<lparr>te_kind = ''orphaned'', te_message = message\<rparr>"

definition orphan_update :: "session_task \<Rightarrow> session_task_update" where
  "orphan_update task =
     no_update\<lparr>su_state := Some TaskFailed, su_error := Some (orphaned ''worker heartbeat stopped''),
       su_expected_attempt := Some (st_attempt task), su_increment_attempt := True\<rparr>"

text \<open>The path of a re-attachment, from the superseding update on.\<close>

definition reattach ::
  "'s reaper_env \<Rightarrow> 's task_executor \<Rightarrow> uuid \<Rightarrow> string \<Rightarrow> session_task \<Rightarrow> 's \<Rightarrow> (string \<times> string) \<times> 's" where
  "reattach env ex sid tid task s =
     (let new_attempt = wrap_i32 (st_attempt task + 1) in
      case api_update (re_api env) (re_now env) sid tid (supersede_update env task) s of
        (Inl e, s) \<Rightarrow> ((''error'', re_error_text env e), s)
      | (Inr None, s) \<Rightarrow> ((''skipped'', ''superseded by concurrent reaper''), s)
      | (Inr (Some t), s) \<Rightarrow>
          if st_attempt t \<noteq> new_attempt then ((''skipped'', ''superseded by concurrent reaper''), s)
          else
            (case ex_start ex t s of
               (Inr _, s) \<Rightarrow> ((''reattached'', ''re-attached at attempt '' @ re_int_text env new_attempt), s)
             | (Inl e, s) \<Rightarrow>
                 (case api_update (re_api env) (re_now env) sid tid
                         (no_update\<lparr>su_state := Some TaskFailed,
                            su_error := Some (orphaned (''worker heartbeat stopped; re-attach failed: '' @ e)),
                            su_expected_attempt := Some new_attempt\<rparr>) s of
                    (Inr (Some t), s) \<Rightarrow>
                      if st_state t = TaskFailed then ((''reaped'', ''marked failed: re-attach error: '' @ e), s)
                      else ((''skipped'', ''already terminal after re-attach failure''), s)
                  | (Inr None, s) \<Rightarrow> ((''skipped'', ''already terminal after re-attach failure''), s)
                  | (Inl fe, s) \<Rightarrow> ((''error'', re_error_text env fe), s))))"

definition fail_orphan :: "'s reaper_env \<Rightarrow> uuid \<Rightarrow> string \<Rightarrow> session_task \<Rightarrow> 's \<Rightarrow> (string \<times> string) \<times> 's" where
  "fail_orphan env sid tid task s =
     (case api_update (re_api env) (re_now env) sid tid (orphan_update task) s of
        (Inr (Some t), s) \<Rightarrow>
          if st_state t = TaskFailed then ((''reaped'', ''marked failed: orphaned''), s)
          else ((''skipped'', ''already terminal or missing''), s)
      | (Inr None, s) \<Rightarrow> ((''skipped'', ''already terminal or missing''), s)
      | (Inl e, s) \<Rightarrow> ((''error'', re_error_text env e), s))"

text \<open>What the reaper does once it has read the task, and the whole of one candidate.\<close>

definition reap_snapshot ::
  "'s reaper_env \<Rightarrow> reaper_input \<Rightarrow> uuid \<Rightarrow> string \<Rightarrow> session_task \<Rightarrow> 's \<Rightarrow> (string \<times> string) \<times> 's" where
  "reap_snapshot env input sid tid task s =
     (if task_is_terminal (st_state task) then ((''skipped'', ''already terminal''), s)
      else case reattach_executor env input task of
             Some ex \<Rightarrow> reattach env ex sid tid task s
           | None \<Rightarrow> fail_orphan env sid tid task s)"

definition reap_candidate ::
  "'s reaper_env \<Rightarrow> reaper_input \<Rightarrow> uuid \<times> string \<Rightarrow> 's \<Rightarrow> (string \<times> string) \<times> 's" where
  "reap_candidate env input candidate s =
     (case candidate of (sid, tid) \<Rightarrow>
      case api_get (re_api env) sid tid s of
        Inr (Some task) \<Rightarrow> reap_snapshot env input sid tid task s
      | Inr None \<Rightarrow> ((''skipped'', ''task not found''), s)
      | Inl e \<Rightarrow> ((''error'', re_error_text env e), s))"

definition count_outcome :: "uuid \<times> string \<Rightarrow> string \<times> string \<Rightarrow> reap_summary \<Rightarrow> reap_summary" where
  "count_outcome candidate outcome summary =
     summary\<lparr>rs_reaped := rs_reaped summary + (if fst outcome = ''reaped'' then 1 else 0),
       rs_reattached := rs_reattached summary + (if fst outcome = ''reattached'' then 1 else 0),
       rs_skipped := rs_skipped summary + (if fst outcome = ''skipped'' \<or> fst outcome = ''error'' then 1 else 0),
       rs_outcomes := rs_outcomes summary
         @ [\<lparr>ro_session_id = fst candidate, ro_task_id = snd candidate, ro_status = fst outcome,
             ro_detail = snd outcome\<rparr>]\<rparr>"

fun reap_all ::
  "'s reaper_env \<Rightarrow> reaper_input \<Rightarrow> (uuid \<times> string) list \<Rightarrow> reap_summary \<Rightarrow> 's \<Rightarrow> reap_summary \<times> 's" where
  "reap_all env input [] summary s = (summary, s)"
| "reap_all env input (c # cs) summary s =
     (case reap_candidate env input c s of
        (outcome, s) \<Rightarrow> reap_all env input cs (count_outcome c outcome summary) s)"

definition reconcile_orphans ::
  "'s reaper_env \<Rightarrow> reaper_input \<Rightarrow> (uuid \<times> string) list \<Rightarrow> 's \<Rightarrow> reap_summary \<times> 's" where
  "reconcile_orphans env input candidates s =
     reap_all env input candidates
       \<lparr>rs_candidates = length candidates, rs_reaped = 0, rs_reattached = 0, rs_skipped = 0,
        rs_pruned = 0, rs_outcomes = []\<rparr> s"

definition run_retention_pass ::
  "reaper_input \<Rightarrow> (int \<Rightarrow> int \<Rightarrow> 's \<Rightarrow> (string + nat) \<times> 's) \<Rightarrow> 's \<Rightarrow> nat \<times> 's" where
  "run_retention_pass input prune s =
     (if ri_retention_ttl_seconds input \<le> 0 then (0, s)
      else case prune (ri_retention_ttl_seconds input) (max (ri_retention_limit input) 1) s of
             (Inr pruned, s) \<Rightarrow> (pruned, s)
           | (Inl e, s) \<Rightarrow> (0, s))"

definition execute_reaper_activity ::
  "'s reaper_env \<Rightarrow> reaper_input \<Rightarrow> ('s \<Rightarrow> (string + (uuid \<times> string) list)) \<Rightarrow>
     (int \<Rightarrow> int \<Rightarrow> 's \<Rightarrow> (string + nat) \<times> 's) \<Rightarrow> ('s, string, reap_summary) op" where
  "execute_reaper_activity env input list_orphaned prune s =
     (case list_orphaned s of
        Inl e \<Rightarrow> (Inl e, s)
      | Inr candidates \<Rightarrow>
          (case reconcile_orphans env input candidates s of
             (summary, s) \<Rightarrow>
               (case run_retention_pass input prune s of
                  (pruned, s) \<Rightarrow> (Inr (summary\<lparr>rs_pruned := pruned\<rparr>), s))))"

section \<open>Lemmas\<close>

text \<open>The task after the superseding update, and after it has been failed.\<close>

definition superseded :: "'s reaper_env \<Rightarrow> session_task \<Rightarrow> session_task" where
  "superseded env t = apply_task_update t (supersede_update env t) (re_now env)"

definition failed_orphan :: "'s reaper_env \<Rightarrow> session_task \<Rightarrow> session_task" where
  "failed_orphan env t = apply_task_update t (orphan_update t) (re_now env)"

lemma superseded_fields:
  "st_attempt (superseded env t) = wrap_i32 (st_attempt t + 1)" "st_state (superseded env t) = st_state t"
  "st_id (superseded env t) = st_id t" "st_session_id (superseded env t) = st_session_id t"
  "st_kind (superseded env t) = st_kind t"
  by (auto simp: superseded_def task_simps next_task_state_def rejected_def fenced_def asks_other_state_def
      supersede_update_def no_update_def)

lemma failed_orphan_fields:
  assumes "\<not> task_is_terminal (st_state t)"
  shows "st_attempt (failed_orphan env t) = wrap_i32 (st_attempt t + 1)" "st_state (failed_orphan env t) = TaskFailed"
    "st_error (failed_orphan env t) = Some (orphaned ''worker heartbeat stopped'')"
  using assms
  by (auto simp: failed_orphan_def task_simps next_task_state_def rejected_def fenced_def orphan_update_def no_update_def)
    (simp add: apply_task_update_def apply_content_def fenced_def enter_task_state_def Let_def)

context task_registry
begin

lemma reap_fails:
  assumes "ok s" and "re_api env = api" and "lookup s tid = Some t" and "\<not> task_is_terminal (st_state t)"
    and "reattach_executor env input t = None" and "reap_candidate env input (st_session_id t, tid) s = (outcome, s')"
  shows "ok s' \<and> outcome = (''reaped'', ''marked failed: orphaned'') \<and> lookup s' = (lookup s)(tid \<mapsto> failed_orphan env t)"
proof -
  obtain r0 s0 where upd: "api_update api (re_now env) (st_session_id t) tid (orphan_update t) s = (r0, s0)" by fastforce
  have here: "in_session (st_session_id t) (lookup s tid) = Some t" using assms(3) by (simp add: in_session_def)
  with update_law [OF assms(1) upd]
  have r0: "r0 = Inr (Some (failed_orphan env t))" "ok s0" "lookup s0 = (lookup s)(tid \<mapsto> failed_orphan env t)"
    by (simp_all add: failed_orphan_def)
  have "reap_candidate env input (st_session_id t, tid) s = fail_orphan env (st_session_id t) tid t s"
    using assms get_law [OF assms(1), of "st_session_id t" tid] here
    by (simp add: reap_candidate_def reap_snapshot_def)
  also have "\<dots> = ((''reaped'', ''marked failed: orphaned''), s0)"
    using upd r0 assms(2) failed_orphan_fields [OF assms(4), of env] by (simp add: fail_orphan_def)
  finally show ?thesis using assms(6) r0 by simp
qed

lemma reattach_starts:
  assumes "ok s" and "re_api env = api" and "lookup s tid = Some t"
  shows "\<exists>s0. ok s0 \<and> lookup s0 = (lookup s)(tid \<mapsto> superseded env t)
    \<and> (\<forall>s1. ex_start ex (superseded env t) s0 = (Inr (), s1) \<longrightarrow>
        reattach env ex (st_session_id t) tid t s =
          ((''reattached'', ''re-attached at attempt '' @ re_int_text env (wrap_i32 (st_attempt t + 1))), s1))"
proof -
  obtain r0 s0 where upd: "api_update api (re_now env) (st_session_id t) tid (supersede_update env t) s = (r0, s0)"
    by fastforce
  have "in_session (st_session_id t) (lookup s tid) = Some t" using assms(3) by (simp add: in_session_def)
  with update_law [OF assms(1) upd]
  have r0: "r0 = Inr (Some (superseded env t))" "ok s0" "lookup s0 = (lookup s)(tid \<mapsto> superseded env t)"
    by (simp_all add: superseded_def)
  moreover have "reattach env ex (st_session_id t) tid t s =
      ((''reattached'', ''re-attached at attempt '' @ re_int_text env (wrap_i32 (st_attempt t + 1))), s1)"
    if "ex_start ex (superseded env t) s0 = (Inr (), s1)" for s1
    using upd r0(1) assms(2) superseded_fields(1) [of env t] that by (simp add: reattach_def Let_def)
  ultimately show ?thesis by blast
qed

text \<open>A second reaper that still holds the old snapshot starts the task again.\<close>

lemma reattach_again:
  assumes "ok s" and "re_api env = api" and "lookup s tid = Some (superseded env t)" and "st_id t = tid"
    and "- (2 ^ 31) \<le> st_attempt t" and "st_attempt t + 1 < 2 ^ 31"
    and "\<And>s. ex_start ex (superseded env t) s = (Inr (), s)"
  shows "fst (fst (reattach env ex (st_session_id t) tid t s)) = ''reattached''"
proof -
  obtain r0 s0 where upd: "api_update api (re_now env) (st_session_id t) tid (supersede_update env t) s = (r0, s0)"
    by fastforce
  have "in_session (st_session_id t) (lookup s tid) = Some (superseded env t)"
    using assms(3) by (simp add: in_session_def superseded_fields)
  moreover have "rejected (supersede_update env t) (superseded env t)"
    using assms(5,6) by (simp add: rejected_def fenced_def superseded_fields supersede_update_def no_update_def)
  ultimately have "r0 = Inr (Some (superseded env t))"
    using update_law [OF assms(1) upd] by (simp add: apply_rejected)
  with upd assms(2,7) show ?thesis by (simp add: reattach_def Let_def superseded_fields)
qed

text \<open>Passes over one task whose executors start without ever giving a sign of life.\<close>

lemma reap_passes:
  assumes "ok s" and "re_api env = api" and "lookup s tid = Some t" and "\<not> task_is_terminal (st_state t)"
    and "1 \<le> st_attempt t" and "st_attempt t + 1 < 2 ^ 31" and "ri_max_attempts input + 1 < 2 ^ 31"
    and "\<And>ex u r. re_executor_for env (st_kind t) = Some ex \<Longrightarrow> ex_start ex u r = (Inr (), r)"
  shows "\<exists>n t'. n \<le> nat (ri_max_attempts input - st_attempt t) + 1
    \<and> lookup (((\<lambda>s. snd (reap_candidate env input (st_session_id t, tid) s)) ^^ n) s) tid = Some t'
    \<and> st_state t' = TaskFailed \<and> st_attempt t' = st_attempt t + int n"
  using assms
proof (induction "nat (ri_max_attempts input - st_attempt t)" arbitrary: s t rule: less_induct)
  case less
  let ?pass = "\<lambda>s. snd (reap_candidate env input (st_session_id t, tid) s)"
  show ?case
  proof (cases "reattach_executor env input t")
    case None
    obtain outcome s' where step: "reap_candidate env input (st_session_id t, tid) s = (outcome, s')" by fastforce
    from reap_fails [OF less.prems(1,2,3,4) None step] failed_orphan_fields [OF less.prems(4), of env]
    have "lookup s' tid = Some (failed_orphan env t)" "st_state (failed_orphan env t) = TaskFailed"
      "st_attempt (failed_orphan env t) = st_attempt t + 1" using less.prems(5,6) by simp_all
    with step have "lookup ((?pass ^^ 1) s) tid = Some (failed_orphan env t) \<and> st_state (failed_orphan env t) = TaskFailed
      \<and> st_attempt (failed_orphan env t) = st_attempt t + int 1" by simp
    then show ?thesis by (intro exI [of _ 1] exI [of _ "failed_orphan env t"]) simp
  next
    case (Some ex)
    have kind: "re_executor_for env (st_kind t) = Some ex" and below: "st_attempt t < ri_max_attempts input"
      using Some by (auto simp: reattach_executor_def split: option.splits if_splits)
    let ?t = "superseded env t"
    obtain s0 where s0: "ok s0" "lookup s0 = (lookup s)(tid \<mapsto> ?t)"
      and go: "\<And>s1. ex_start ex ?t s0 = (Inr (), s1) \<Longrightarrow> snd (reattach env ex (st_session_id t) tid t s) = s1"
      using reattach_starts [OF less.prems(1,2,3), of ex] by fastforce
    have here: "in_session (st_session_id t) (lookup s tid) = Some t"
      using less.prems(3) by (simp add: in_session_def)
    have "?pass s = s0"
      using go [OF less.prems(8) [OF kind]] Some less.prems(2,4) get_law [OF less.prems(1), of "st_session_id t" tid] here
      by (simp add: reap_candidate_def reap_snapshot_def)
    moreover have attempt: "st_attempt ?t = st_attempt t + 1"
      using less.prems(5,6) by (simp add: superseded_fields)
    moreover have "\<exists>n t'. n \<le> nat (ri_max_attempts input - st_attempt ?t) + 1
        \<and> lookup (((\<lambda>s. snd (reap_candidate env input (st_session_id ?t, tid) s)) ^^ n) s0) tid = Some t'
        \<and> st_state t' = TaskFailed \<and> st_attempt t' = st_attempt ?t + int n"
      using less.prems below s0 attempt
      by (intro less.hyps) (simp_all add: superseded_fields(2-5))
    ultimately obtain n t' where "n \<le> nat (ri_max_attempts input - st_attempt t - 1) + 1"
      "lookup ((?pass ^^ n) (?pass s)) tid = Some t'" "st_state t' = TaskFailed" "st_attempt t' = st_attempt t + 1 + int n"
      by (auto simp: superseded_fields algebra_simps)
    moreover from this have "lookup ((?pass ^^ Suc n) s) tid = Some t'" by (simp only: funpow_Suc_right o_apply)
    ultimately show ?thesis
      using below by (intro exI [of _ "Suc n"] exI [of _ t']) (auto simp del: funpow.simps)
  qed
qed

end

subsection \<open>Example\<close>

definition demo_executor :: "local_registry task_executor" where
  "demo_executor = \<lparr>ex_can_reattach_task = (\<lambda>_. True), ex_start = (\<lambda>_ s. (Inr (), s))\<rparr>"

definition demo_reaper :: "local_registry reaper_env" where
  "demo_reaper = \<lparr>re_api = local_api, re_executor_for = (\<lambda>_. Some demo_executor), re_now = 9,
     re_int_text = (\<lambda>n. show_nat (nat n)), re_error_text = (\<lambda>_. [])\<rparr>"

lemma demo_task_fields:
  "st_state (new_session_task ''x'' demo_input 0) = TaskRunning" "st_attempt (new_session_task ''x'' demo_input 0) = 1"
  "st_session_id (new_session_task ''x'' demo_input 0) = 5" "st_id (new_session_task ''x'' demo_input 0) = ''task_a''"
  by (simp_all add: new_session_task_def demo_input_def)

section \<open>Properties\<close>

text \<open>
  C25. An orphaned task does not stay in limbo: when its executors can only be started but never report,
  repeated passes of the reaper fail it, after at most as many re-attachments as the configured
  number of attempts leaves, and each pass raises its attempt by one, so that every former executor is
  fenced off.
\<close>

theorem orphan_finally_failed:
  assumes "registry_ok reg" and "re_api env = local_api" and "load_task tid reg = Some t"
    and "\<not> task_is_terminal (st_state t)" and "1 \<le> st_attempt t" and "st_attempt t + 1 < 2 ^ 31"
    and "ri_max_attempts input + 1 < 2 ^ 31"
    and "\<And>ex u r. re_executor_for env (st_kind t) = Some ex \<Longrightarrow> ex_start ex u r = (Inr (), r)"
  shows "\<exists>n t'. n \<le> nat (ri_max_attempts input - st_attempt t) + 1
    \<and> load_task tid (((\<lambda>reg. snd (reap_candidate env input (st_session_id t, tid) reg)) ^^ n) reg) = Some t'
    \<and> st_state t' = TaskFailed \<and> st_attempt t' = st_attempt t + int n"
  using assms by (rule local_reg.reap_passes)

theorem orphan_finally_failed_witness:
  "\<exists>n t'. n \<le> 3
    \<and> load_task ''task_a'' (((\<lambda>reg. snd (reap_candidate demo_reaper reaper_input_default (5, ''task_a'') reg)) ^^ n)
        demo_registry) = Some t' \<and> st_state t' = TaskFailed \<and> st_attempt t' = 1 + int n"
proof -
  have "re_api demo_reaper = local_api"
    and "\<And>ex u r. re_executor_for demo_reaper (st_kind (new_session_task ''x'' demo_input 0)) = Some ex \<Longrightarrow>
      ex_start ex u r = (Inr (), r)"
    by (auto simp: demo_reaper_def demo_executor_def)
  from orphan_finally_failed [OF demo_registry_ok this(1) demo_registry_load _ _ _ _ this(2), of reaper_input_default]
  show ?thesis by (simp add: demo_task_fields task_is_terminal_def reaper_input_default_def)
qed

text \<open>
  Two reapers that have read the same task both start it. The second one's superseding update is
  fenced off and changes nothing, but it returns the task with the attempt the first one has set,
  which is the attempt the second one expects to have set itself: it reports the task as
  re-attached and starts the same attempt once more.
\<close>

theorem concurrent_reapers_both_start:
  assumes "registry_ok reg" and "re_api env = local_api" and "load_task tid reg = Some t"
    and "1 \<le> st_attempt t" and "st_attempt t + 1 < 2 ^ 31"
    and "\<And>u r. ex_start ex u r = (Inr (), r)"
  shows "fst (fst (reattach env ex (st_session_id t) tid t reg)) = ''reattached''
    \<and> fst (fst (reattach env ex (st_session_id t) tid t (snd (reattach env ex (st_session_id t) tid t reg)))) = ''reattached''"
proof -
  obtain s0 where s0: "registry_ok s0" "(\<lambda>i. load_task i s0) = (\<lambda>i. load_task i reg)(tid \<mapsto> superseded env t)"
    and go: "\<And>s1. ex_start ex (superseded env t) s0 = (Inr (), s1) \<Longrightarrow>
      reattach env ex (st_session_id t) tid t reg =
        ((''reattached'', ''re-attached at attempt '' @ re_int_text env (wrap_i32 (st_attempt t + 1))), s1)"
    using local_reg.reattach_starts [OF assms(1,2,3), of ex] by blast
  have first: "reattach env ex (st_session_id t) tid t reg =
      ((''reattached'', ''re-attached at attempt '' @ re_int_text env (wrap_i32 (st_attempt t + 1))), s0)"
    by (rule go) (rule assms(6))
  have "load_task tid s0 = Some (superseded env t)" using fun_cong [OF s0(2), of tid] by simp
  moreover have "st_id t = tid" using assms(3) by (rule load_task_id)
  ultimately have "fst (fst (reattach env ex (st_session_id t) tid t s0)) = ''reattached''"
    using assms(4-6) by (intro local_reg.reattach_again [OF s0(1) assms(2)]) simp_all
  with first show ?thesis by simp
qed

theorem concurrent_reapers_both_start_witness:
  "\<exists>t. load_task ''task_a'' demo_registry = Some t
    \<and> fst (fst (reattach demo_reaper demo_executor 5 ''task_a'' t
        (snd (reattach demo_reaper demo_executor 5 ''task_a'' t demo_registry)))) = ''reattached''"
proof -
  have "re_api demo_reaper = local_api" "\<And>u r. ex_start demo_executor u r = (Inr (), r)"
    by (simp_all add: demo_reaper_def demo_executor_def)
  from concurrent_reapers_both_start [OF demo_registry_ok this(1) demo_registry_load _ _ this(2)]
  show ?thesis using demo_registry_load by (simp add: demo_task_fields)
qed

end
