(* ===== verification/Network_Access.thy ===== *)
theory Network_Access
  imports Text
begin

text \<open>
  Network access lists (\<open>crates/core/src/network_access.rs\<close>): which URLs an agent may reach, and how
  the lists of harness, agent and session are merged. The URL parser of the \<open>url\<close> crate is the
  parameter \<open>parse\<close>; a parsed URL is its normal form and its host.
\<close>

section \<open>Definitions\<close>

record url =
  url_str :: string
  url_host :: "string option"

type_synonym url_parser = "string \<Rightarrow> url option"

record network_access_list =
  na_allowed :: "string list"
  na_blocked :: "string list"

definition allow_only :: "string list \<Rightarrow> network_access_list" where
  "allow_only patterns = \<lparr>na_allowed = patterns, na_blocked = []\<rparr>"

definition block :: "string list \<Rightarrow> network_access_list" where
  "block patterns = \<lparr>na_allowed = [], na_blocked = patterns\<rparr>"

definition access_is_empty :: "network_access_list \<Rightarrow> bool" where
  "access_is_empty l \<longleftrightarrow> na_allowed l = [] \<and> na_blocked l = []"

definition is_http_prefix :: "string \<Rightarrow> bool" where
  "is_http_prefix pattern \<longleftrightarrow>
     (case split_once ''://'' pattern of
        Some (scheme, _) \<Rightarrow>
          to_ascii_lowercase scheme = ''http'' \<or> to_ascii_lowercase scheme = ''https''
      | None \<Rightarrow> False)"

definition domain_pattern_matches_host :: "string \<Rightarrow> string \<Rightarrow> bool" where
  "domain_pattern_matches_host pattern host \<longleftrightarrow>
     (case strip_prefix ''*.'' pattern of
        Some sfx \<Rightarrow>
          host = to_ascii_lowercase sfx \<or> suffix (''.'' @ to_ascii_lowercase sfx) host
      | None \<Rightarrow> host = to_ascii_lowercase pattern)"

definition pattern_matches_url :: "url_parser \<Rightarrow> string \<Rightarrow> url \<Rightarrow> string \<Rightarrow> bool" where
  "pattern_matches_url parse pattern parsed host \<longleftrightarrow>
     (if is_http_prefix pattern
      then (case parse pattern of Some p \<Rightarrow> prefix (url_str p) (url_str parsed) | None \<Rightarrow> False)
      else domain_pattern_matches_host pattern host)"

definition matches_any_pattern :: "url_parser \<Rightarrow> string \<Rightarrow> string list \<Rightarrow> bool" where
  "matches_any_pattern parse url patterns \<longleftrightarrow>
     (case parse url of
        None \<Rightarrow> False
      | Some parsed \<Rightarrow>
          (case url_host parsed of
             None \<Rightarrow> False
           | Some h \<Rightarrow> list_ex (\<lambda>p. pattern_matches_url parse p parsed (to_ascii_lowercase h)) patterns))"

definition is_url_allowed :: "url_parser \<Rightarrow> network_access_list \<Rightarrow> string \<Rightarrow> bool" where
  "is_url_allowed parse l url \<longleftrightarrow>
     (if na_blocked l \<noteq> [] \<and> matches_any_pattern parse url (na_blocked l) then False
      else if na_allowed l = [] then True
      else matches_any_pattern parse url (na_allowed l))"

definition pattern_is_subset :: "url_parser \<Rightarrow> string \<Rightarrow> string \<Rightarrow> bool" where
  "pattern_is_subset parse child parent \<longleftrightarrow>
     (if is_http_prefix parent then
        is_http_prefix child
        \<and> (case (parse child, parse parent) of
             (Some c, Some p) \<Rightarrow> prefix (url_str p) (url_str c)
           | _ \<Rightarrow> False)
      else if is_http_prefix child then
        (case parse child of
           None \<Rightarrow> False
         | Some c \<Rightarrow>
             (case url_host c of
                Some h \<Rightarrow> domain_pattern_matches_host parent (to_ascii_lowercase h)
              | None \<Rightarrow> False))
      else if prefix ''*.'' parent then
        domain_pattern_matches_host parent (to_ascii_lowercase (get_or child (strip_prefix ''*.'' child)))
      else to_ascii_lowercase child = to_ascii_lowercase parent)"

fun union_patterns :: "string list \<Rightarrow> string list \<Rightarrow> string list" where
  "union_patterns blocked [] = blocked"
| "union_patterns blocked (p # ps) = union_patterns (if p \<in> set blocked then blocked else blocked @ [p]) ps"

definition merge_network_access ::
  "url_parser \<Rightarrow> network_access_list option \<Rightarrow> network_access_list option \<Rightarrow> network_access_list option" where
  "merge_network_access parse parent child =
     (case (parent, child) of
        (None, None) \<Rightarrow> None
      | (Some p, None) \<Rightarrow> Some p
      | (None, Some c) \<Rightarrow> Some c
      | (Some p, Some c) \<Rightarrow>
          let blocked = union_patterns (na_blocked p) (na_blocked c);
              allowed =
                (if na_allowed c = [] then na_allowed p
                 else if na_allowed p = [] then na_allowed c
                 else filter (\<lambda>cp. list_ex (pattern_is_subset parse cp) (na_allowed p)) (na_allowed c));
              allowed =
                (if allowed = [] \<and> na_allowed p \<noteq> [] \<and> na_allowed c \<noteq> [] then [''<none>''] else allowed);
              result = \<lparr>na_allowed = allowed, na_blocked = blocked\<rparr>
          in if access_is_empty result then None else Some result)"

text \<open>An absent list imposes no restriction.\<close>

definition permitted :: "url_parser \<Rightarrow> network_access_list option \<Rightarrow> string \<Rightarrow> bool" where
  "permitted parse l url \<longleftrightarrow> (case l of Some l \<Rightarrow> is_url_allowed parse l url | None \<Rightarrow> True)"

section \<open>What the code relies on of the URL parser\<close>

text \<open>
  The serialisation of an HTTP URL is its scheme, authority and a path that starts with a slash; so a
  URL whose serialisation begins with that of an HTTP URL has the same host. And a host never contains
  a \<open><\<close>, which is a forbidden host code point.
\<close>

definition url_prefix_keeps_host :: "url_parser \<Rightarrow> bool" where
  "url_prefix_keeps_host parse \<longleftrightarrow>
     (\<forall>a b u v. parse a = Some u \<longrightarrow> parse b = Some v \<longrightarrow> is_http_prefix b \<longrightarrow>
        prefix (url_str v) (url_str u) \<longrightarrow> url_host u = url_host v)"

definition url_host_chars :: "url_parser \<Rightarrow> bool" where
  "url_host_chars parse \<longleftrightarrow>
     (\<forall>a u h. parse a = Some u \<longrightarrow> url_host u = Some h \<longrightarrow> CHR ''<'' \<notin> set h)"

section \<open>Lemmas\<close>

lemma lower_star_prefix: "prefix ''*.'' (to_ascii_lowercase s) \<longleftrightarrow> prefix ''*.'' s"
proof (cases s)
  case (Cons a r)
  then show ?thesis
    by (cases r) (simp_all add: to_ascii_lowercase_def lower_char_below eq_commute [of "CHR ''*''"] eq_commute [of "CHR ''.''"])
qed (simp add: to_ascii_lowercase_def)

text \<open>The host a domain pattern names, and the two ways a host can match it.\<close>

lemma domain_match_cases:
  assumes "domain_pattern_matches_host child host"
  shows "let c = to_ascii_lowercase (get_or child (strip_prefix ''*.'' child)) in host = c \<or> suffix (''.'' @ c) host"
  using assms by (cases "strip_prefix ''*.'' child") (simp_all add: domain_pattern_matches_host_def Let_def)

lemma domain_subset:
  assumes "prefix ''*.'' parent"
    and "domain_pattern_matches_host parent (to_ascii_lowercase (get_or child (strip_prefix ''*.'' child)))"
    and "domain_pattern_matches_host child host"
  shows "domain_pattern_matches_host parent host"
proof -
  obtain s where p: "parent = ''*.'' @ s" using assms(1) by (auto simp: prefix_def)
  let ?c = "to_ascii_lowercase (get_or child (strip_prefix ''*.'' child))" and ?s = "to_ascii_lowercase s"
  have strip: "strip_prefix ''*.'' parent = Some s" using p by simp
  have c: "?c = ?s \<or> suffix (''.'' @ ?s) ?c" using assms(2) strip by (simp add: domain_pattern_matches_host_def)
  have "host = ?c \<or> suffix (''.'' @ ?c) host"
    using domain_match_cases [OF assms(3)] by (simp only: Let_def)
  then show ?thesis
  proof
    assume "host = ?c"
    with c strip show ?thesis by (simp add: domain_pattern_matches_host_def)
  next
    assume h: "suffix (''.'' @ ?c) host"
    have "suffix (''.'' @ ?s) (''.'' @ ?c)" using c by (auto simp: suffix_def)
    with h have "suffix (''.'' @ ?s) host" by (rule suffix_order.trans [rotated])
    with strip show ?thesis by (simp add: domain_pattern_matches_host_def)
  qed
qed

lemma prefix_hostD:
  "url_prefix_keeps_host parse \<Longrightarrow> parse a = Some u \<Longrightarrow> parse b = Some v \<Longrightarrow> is_http_prefix b \<Longrightarrow>
    prefix (url_str v) (url_str u) \<Longrightarrow> url_host u = url_host v"
  unfolding url_prefix_keeps_host_def by blast

text \<open>A pattern accepted as a subset grants nothing its parent does not grant.\<close>

lemma subset_sound:
  assumes "url_prefix_keeps_host parse" and "parse url = Some u" and "url_host u = Some h"
    and "pattern_is_subset parse child parent"
    and "pattern_matches_url parse child u (to_ascii_lowercase h)"
  shows "pattern_matches_url parse parent u (to_ascii_lowercase h)"
proof (cases "is_http_prefix parent")
  case True
  with assms(4) obtain c p where "is_http_prefix child" "parse child = Some c" "parse parent = Some p"
    "prefix (url_str p) (url_str c)"
    by (auto simp: pattern_is_subset_def split: option.splits)
  moreover from this assms(5) have "prefix (url_str c) (url_str u)" by (simp add: pattern_matches_url_def)
  ultimately show ?thesis using True prefix_order.trans by (auto simp: pattern_matches_url_def)
next
  case parent: False
  show ?thesis
  proof (cases "is_http_prefix child")
    case True
    with assms(4,5) parent obtain c hc where c: "parse child = Some c" "url_host c = Some hc"
      "domain_pattern_matches_host parent (to_ascii_lowercase hc)" "prefix (url_str c) (url_str u)"
      by (auto simp: pattern_is_subset_def pattern_matches_url_def split: option.splits)
    have "url_host u = url_host c" by (rule prefix_hostD [OF assms(1,2) c(1) True c(4)])
    with c assms(3) have "hc = h" by simp
    with c parent show ?thesis by (simp add: pattern_matches_url_def)
  next
    case child: False
    show ?thesis
    proof (cases "prefix ''*.'' parent")
      case True
      with assms(4,5) parent child show ?thesis
        by (simp add: pattern_is_subset_def pattern_matches_url_def domain_subset)
    next
      case False
      with assms(4) parent child have same: "to_ascii_lowercase child = to_ascii_lowercase parent"
        by (simp add: pattern_is_subset_def)
      then have "\<not> prefix ''*.'' child" using False lower_star_prefix by metis
      with assms(5) parent child False same show ?thesis
        by (simp add: pattern_matches_url_def domain_pattern_matches_host_def strip_prefix_def)
    qed
  qed
qed

lemma union_patterns_set [simp]: "set (union_patterns a b) = set a \<union> set b"
  by (induction b arbitrary: a) auto

lemma matches_any_iff:
  "matches_any_pattern parse url ps \<longleftrightarrow>
    (\<exists>u h. parse url = Some u \<and> url_host u = Some h
      \<and> (\<exists>p \<in> set ps. pattern_matches_url parse p u (to_ascii_lowercase h)))"
  by (auto simp: matches_any_pattern_def list_ex_iff split: option.splits)

lemma is_url_allowed_iff:
  "is_url_allowed parse l url \<longleftrightarrow>
    \<not> matches_any_pattern parse url (na_blocked l)
    \<and> (na_allowed l = [] \<or> matches_any_pattern parse url (na_allowed l))"
  by (auto simp: is_url_allowed_def matches_any_iff)

lemma none_matches_nothing:
  assumes "url_host_chars parse"
  shows "\<not> matches_any_pattern parse url [''<none>'']"
proof
  assume "matches_any_pattern parse url [''<none>'']"
  then obtain u h where u: "parse url = Some u" "url_host u = Some h"
    and match: "pattern_matches_url parse ''<none>'' u (to_ascii_lowercase h)"
    by (auto simp: matches_any_iff)
  have http: "\<not> is_http_prefix ''<none>''" by (simp add: is_http_prefix_def)
  have "strip_prefix ''*.'' ''<none>'' = None" by simp
  with match http have "to_ascii_lowercase h = to_ascii_lowercase ''<none>''"
    by (simp only: pattern_matches_url_def domain_pattern_matches_host_def if_False option.case)
  then have "lower_char (hd h) = lower_char CHR ''<''" and ne: "h \<noteq> []"
    by (cases h; simp add: to_ascii_lowercase_def)+
  then have "lower_char (hd h) = CHR ''<''" by (simp add: lower_char_def)
  then have "hd h = CHR ''<''" using lower_char_below [of "CHR ''<''" "hd h"] by simp
  with ne have "CHR ''<'' \<in> set h" by (metis hd_in_set)
  with assms u show False by (auto simp: url_host_chars_def)
qed

text \<open>Merging two lists only takes away.\<close>

lemma merge_narrows:
  assumes "url_prefix_keeps_host parse" and "url_host_chars parse"
    and "permitted parse (merge_network_access parse parent child) url"
  shows "permitted parse parent url" and "permitted parse child url"
proof -
  have "permitted parse parent url \<and> permitted parse child url"
  proof (cases "\<exists>p c. parent = Some p \<and> child = Some c")
    case False
    with assms(3) show ?thesis
      by (cases parent; cases child) (simp_all add: merge_network_access_def permitted_def)
  next
    case True
    then obtain p c where pc: "parent = Some p" "child = Some c" by blast
    define kept where
      "kept = filter (\<lambda>cp. list_ex (pattern_is_subset parse cp) (na_allowed p)) (na_allowed c)"
    define allowed where
      "allowed = (if na_allowed c = [] then na_allowed p else if na_allowed p = [] then na_allowed c
         else if kept = [] then [''<none>''] else kept)"
    define merged where "merged = \<lparr>na_allowed = allowed, na_blocked = union_patterns (na_blocked p) (na_blocked c)\<rparr>"
    have "merge_network_access parse parent child = (if access_is_empty merged then None else Some merged)"
      by (auto simp: merge_network_access_def pc merged_def allowed_def kept_def Let_def)
    moreover have "is_url_allowed parse merged url" if "access_is_empty merged"
      using that by (simp add: access_is_empty_def is_url_allowed_def)
    ultimately have ok: "is_url_allowed parse merged url"
      using assms(3) by (auto simp: permitted_def split: if_splits)
    have "\<not> matches_any_pattern parse url (na_blocked p)" "\<not> matches_any_pattern parse url (na_blocked c)"
      using ok by (auto simp: is_url_allowed_iff merged_def matches_any_iff)
    moreover have "(na_allowed p = [] \<or> matches_any_pattern parse url (na_allowed p))
        \<and> (na_allowed c = [] \<or> matches_any_pattern parse url (na_allowed c))"
    proof (cases "na_allowed p = [] \<or> na_allowed c = []")
      case True
      then have "na_allowed merged = (if na_allowed c = [] then na_allowed p else na_allowed c)"
        by (auto simp: merged_def allowed_def)
      with True ok show ?thesis by (auto simp: is_url_allowed_iff split: if_splits)
    next
      case False
      have "matches_any_pattern parse url allowed"
        using ok False by (auto simp: is_url_allowed_iff merged_def allowed_def split: if_splits)
      with False none_matches_nothing [OF assms(2)] have "matches_any_pattern parse url kept"
        by (auto simp: allowed_def split: if_splits)
      then obtain u h cp where u: "parse url = Some u" "url_host u = Some h" "cp \<in> set kept"
        "pattern_matches_url parse cp u (to_ascii_lowercase h)" by (auto simp: matches_any_iff)
      then obtain pp where pp: "pp \<in> set (na_allowed p)" "pattern_is_subset parse cp pp"
        by (auto simp: kept_def list_ex_iff)
      from subset_sound [OF assms(1) u(1,2) pp(2) u(4)] u pp show ?thesis
        by (auto simp: matches_any_iff kept_def)
    qed
    ultimately show ?thesis by (simp add: permitted_def pc is_url_allowed_iff)
  qed
  then show "permitted parse parent url" "permitted parse child url" by simp_all
qed

text \<open>A harness, its agents and their sessions: each layer is merged onto the ones before.\<close>

definition effective_access ::
  "url_parser \<Rightarrow> network_access_list option list \<Rightarrow> network_access_list option" where
  "effective_access parse layers = foldl (merge_network_access parse) None layers"

lemma effective_access_snoc:
  "effective_access parse (layers @ [l]) = merge_network_access parse (effective_access parse layers) l"
  by (simp add: effective_access_def)

subsection \<open>Example\<close>

definition demo_parse :: url_parser where
  "demo_parse = map_of
     [(''https://api.example.com/v1'', \<lparr>url_str = ''https://api.example.com/v1'', url_host = Some ''api.example.com''\<rparr>),
      (''https://evil.test/'', \<lparr>url_str = ''https://evil.test/'', url_host = Some ''evil.test''\<rparr>)]"

lemma demo_parse_ok: "url_prefix_keeps_host demo_parse" "url_host_chars demo_parse"
  by (auto simp: url_prefix_keeps_host_def url_host_chars_def demo_parse_def split: if_splits)

section \<open>Properties\<close>

text \<open>
  C26. Layers only narrow network access. Whatever lists harness, agent and session set, a URL that the
  merged list permits is permitted by every single layer; in particular no layer can lift a block or
  widen an allowlist of another.
\<close>

theorem layers_only_narrow:
  assumes "url_prefix_keeps_host parse" and "url_host_chars parse"
    and "permitted parse (effective_access parse layers) url" and "layer \<in> set layers"
  shows "permitted parse layer url"
  using assms(3,4)
proof (induction layers rule: rev_induct)
  case (snoc l layers)
  have "permitted parse (effective_access parse layers) url" "permitted parse l url"
    using merge_narrows [OF assms(1,2)] snoc.prems(1) unfolding effective_access_snoc by blast+
  with snoc show ?case by auto
qed simp

theorem layers_only_narrow_witness:
  "permitted demo_parse (effective_access demo_parse
      [Some (allow_only [''*.example.com'']), Some (block [''evil.test''])]) ''https://api.example.com/v1''
    \<and> is_url_allowed demo_parse (allow_only [''*.example.com'']) ''https://api.example.com/v1''"
proof -
  let ?layers = "[Some (allow_only [''*.example.com'']), Some (block [''evil.test''])]"
  have merged: "effective_access demo_parse ?layers = Some \<lparr>na_allowed = [''*.example.com''], na_blocked = [''evil.test'']\<rparr>"
    by (simp add: effective_access_def merge_network_access_def allow_only_def block_def access_is_empty_def Let_def)
  have "permitted demo_parse (effective_access demo_parse ?layers) ''https://api.example.com/v1''"
    unfolding merged permitted_def option.case by code_simp
  with layers_only_narrow [OF demo_parse_ok this, of "Some (allow_only [''*.example.com''])"] show ?thesis
    by (simp add: permitted_def)
qed

text \<open>
  Allowlists that have nothing in common leave nothing: when no pattern of the child is within a
  pattern of its parent, the merged list permits no URL at all, and no later layer reopens it.
\<close>

theorem disjoint_allowlists_permit_nothing:
  assumes "url_prefix_keeps_host parse" and "url_host_chars parse"
    and "na_allowed p \<noteq> []" and "na_allowed c \<noteq> []"
    and "\<forall>cp \<in> set (na_allowed c). \<forall>pp \<in> set (na_allowed p). \<not> pattern_is_subset parse cp pp"
  shows "\<not> permitted parse (merge_network_access parse
      (merge_network_access parse (Some p) (Some c)) later) url"
proof
  have "filter (\<lambda>cp. list_ex (pattern_is_subset parse cp) (na_allowed p)) (na_allowed c) = []"
    using assms(5) by (auto simp: filter_empty_conv list_ex_iff)
  then have merged: "merge_network_access parse (Some p) (Some c) =
      Some \<lparr>na_allowed = [''<none>''], na_blocked = union_patterns (na_blocked p) (na_blocked c)\<rparr>"
    using assms(3,4) by (simp add: merge_network_access_def access_is_empty_def Let_def)
  assume "permitted parse (merge_network_access parse (merge_network_access parse (Some p) (Some c)) later) url"
  from merge_narrows(1) [OF assms(1,2) this] have "matches_any_pattern parse url [''<none>'']"
    by (simp add: merged permitted_def is_url_allowed_iff)
  with none_matches_nothing [OF assms(2)] show False by blast
qed

theorem disjoint_allowlists_permit_nothing_witness:
  "\<not> permitted demo_parse (merge_network_access demo_parse
      (merge_network_access demo_parse (Some (allow_only [''example.com''])) (Some (allow_only [''evil.test'']))) None)
    ''https://evil.test/''"
proof -
  have "\<not> pattern_is_subset demo_parse ''evil.test'' ''example.com''" by code_simp
  with disjoint_allowlists_permit_nothing [OF demo_parse_ok, of "allow_only [''example.com'']" "allow_only [''evil.test'']"]
  show ?thesis by (simp add: allow_only_def)
qed

end
