(* ===== verification/Session_Path.thy ===== *)
theory Session_Path
  imports Text
begin

text \<open>
  Session paths (\<open>crates/core/src/session_path.rs\<close>): the normaliser every file surface uses and the
  \<open>/workspace\<close> alias it removes. The specification is in terms of path segments: \<open>segs\<close> are the
  non-empty segments of a string and \<open>path_of\<close> is the canonical path of a list of segments. Glob
  matching (the \<open>globset\<close> crate) is a parameter.
\<close>

section \<open>Definitions\<close>

definition WORKSPACE_PREFIX :: string where "WORKSPACE_PREFIX = ''/workspace''"

fun collapse_slashes :: "bool \<Rightarrow> string \<Rightarrow> string" where
  "collapse_slashes prev_slash [] = []"
| "collapse_slashes prev_slash (ch # s) =
     (if ch = CHR ''/'' then (if prev_slash then collapse_slashes True s else ch # collapse_slashes True s)
      else ch # collapse_slashes False s)"

definition strip_workspace_alias :: "string \<Rightarrow> string" where
  "strip_workspace_alias s =
     (if s = WORKSPACE_PREFIX then []
      else case strip_prefix (WORKSPACE_PREFIX @ ''/'') s of Some rest \<Rightarrow> rest | None \<Rightarrow> s)"

fun pop_slashes :: "string \<Rightarrow> string" where
  "pop_slashes s = (if 1 < length s \<and> last s = CHR ''/'' then pop_slashes (butlast s) else s)"

declare pop_slashes.simps [simp del]

definition to_session_path :: "string \<Rightarrow> string" where
  "to_session_path input =
     (let stripped = strip_workspace_alias (collapse_slashes False (trim input)) in
      if stripped = [] \<or> stripped = ''/'' then ''/''
      else pop_slashes (if prefix ''/'' stripped then stripped else ''/'' @ stripped))"

definition to_display_path :: "string \<Rightarrow> string" where
  "to_display_path session_path =
     (let canonical = to_session_path session_path in
      if canonical = ''/'' then WORKSPACE_PREFIX else WORKSPACE_PREFIX @ canonical)"

datatype 'g grep_path_matcher = MatchAll | MatchSubstring string | MatchGlob 'g

definition grep_path_pattern_new :: "(string \<Rightarrow> 'g option) \<Rightarrow> string \<Rightarrow> 'g grep_path_matcher option" where
  "grep_path_pattern_new build pattern =
     (let relative = trim_start_matches CHR ''/'' (to_session_path pattern) in
      if relative = [] then Some MatchAll
      else if \<not> list_ex (\<lambda>ch. ch \<in> set ''*?[{'') relative then Some (MatchSubstring relative)
      else map_option MatchGlob
             (build (if CHR ''/'' \<in> set relative then relative else ''**/'' @ relative)))"

definition grep_path_is_match :: "('g \<Rightarrow> string \<Rightarrow> bool) \<Rightarrow> 'g grep_path_matcher \<Rightarrow> string \<Rightarrow> bool" where
  "grep_path_is_match glob_match m canonical_path =
     (let relative = trim_start_matches CHR ''/'' (to_session_path canonical_path) in
      case m of
        MatchAll \<Rightarrow> True
      | MatchSubstring needle \<Rightarrow> sublist needle relative
      | MatchGlob g \<Rightarrow> glob_match g relative)"

definition grep_path_is_glob :: "'g grep_path_matcher \<Rightarrow> bool" where
  "grep_path_is_glob m \<longleftrightarrow> (case m of MatchGlob _ \<Rightarrow> True | _ \<Rightarrow> False)"

section \<open>Segments\<close>

definition segs :: "string \<Rightarrow> string list" where
  "segs s = filter (\<lambda>g. g \<noteq> []) (split_text CHR ''/'' s)"

definition slashed :: "string list \<Rightarrow> string" where
  "slashed gs = concat (map (\<lambda>g. CHR ''/'' # g) gs)"

definition path_of :: "string list \<Rightarrow> string" where
  "path_of gs = (if gs = [] then ''/'' else slashed gs)"

definition seg_ok :: "string \<Rightarrow> bool" where
  "seg_ok g \<longleftrightarrow> g \<noteq> [] \<and> CHR ''/'' \<notin> set g"

lemma split_text_no_sep: "c \<notin> set g \<Longrightarrow> split_text c g = [g]"
  by (induction g) auto

lemma split_text_sep: "c \<notin> set g \<Longrightarrow> split_text c (g @ c # r) = g # split_text c r"
  by (induction g) auto

lemma split_text_free: "g \<in> set (split_text c s) \<Longrightarrow> c \<notin> set g"
  by (induction s arbitrary: g) (auto split: list.splits if_splits)

lemma segs_Nil [simp]: "segs [] = []"
  by (simp add: segs_def)

lemma segs_slash [simp]: "segs (CHR ''/'' # s) = segs s"
  by (simp add: segs_def)

lemma segs_ok: "g \<in> set (segs s) \<Longrightarrow> seg_ok g"
  using split_text_free by (fastforce simp: segs_def seg_ok_def)

lemma seg_last: "seg_ok g \<Longrightarrow> last g \<noteq> CHR ''/''"
  by (metis last_in_set seg_ok_def)

lemma segs_single: "seg_ok g \<Longrightarrow> segs g = [g]"
  by (simp add: segs_def seg_ok_def split_text_no_sep)

lemma segs_seg: "seg_ok g \<Longrightarrow> segs (g @ CHR ''/'' # r) = g # segs r"
  by (simp add: segs_def seg_ok_def split_text_sep)

lemma slashed_simps [simp]: "slashed [] = []" "slashed (g # gs) = CHR ''/'' # g @ slashed gs"
  by (simp_all add: slashed_def)

lemma segs_slashed: "\<forall>g \<in> set gs. seg_ok g \<Longrightarrow> segs (slashed gs) = gs"
proof (induction gs)
  case (Cons g gs)
  then show ?case by (cases gs) (simp_all add: segs_single segs_seg)
qed simp

lemma segs_path_of [simp]: "\<forall>g \<in> set gs. seg_ok g \<Longrightarrow> segs (path_of gs) = gs"
  by (auto simp: path_of_def segs_slashed)

lemma split_slashed:
  "CHR ''/'' \<notin> set g \<Longrightarrow> \<forall>h \<in> set gs. CHR ''/'' \<notin> set h \<Longrightarrow> split_text CHR ''/'' (g @ slashed gs) = g # gs"
proof (induction gs arbitrary: g)
  case (Cons h gs)
  then show ?case by (simp add: split_text_sep)
qed (simp add: split_text_no_sep)

lemma split_canonical:
  assumes "\<forall>g \<in> set gs. seg_ok g" and "gs \<noteq> []"
  shows "split_text CHR ''/'' (trim_start_matches CHR ''/'' (slashed gs)) = gs"
    and "split_text CHR ''/'' (slashed gs) = [] # gs"
proof -
  obtain g hs where gs: "gs = g # hs" using assms(2) by (cases gs) auto
  with assms(1) obtain c r where g: "g = c # r" "c \<noteq> CHR ''/''" by (cases g) (auto simp: seg_ok_def)
  have free: "CHR ''/'' \<notin> set g" "\<forall>h \<in> set hs. CHR ''/'' \<notin> set h" using assms(1) gs by (auto simp: seg_ok_def)
  have "trim_start_matches CHR ''/'' (slashed gs) = g @ slashed hs"
    using g by (simp add: trim_start_matches_def gs)
  then show "split_text CHR ''/'' (trim_start_matches CHR ''/'' (slashed gs)) = gs"
    using split_slashed [OF free] gs by simp
  show "split_text CHR ''/'' (slashed gs) = [] # gs" using split_slashed [OF free] gs by simp
qed

subsection \<open>Strings without repeated slashes\<close>

fun single_slashes :: "string \<Rightarrow> bool" where
  "single_slashes (a # b # s) \<longleftrightarrow> \<not> (a = CHR ''/'' \<and> b = CHR ''/'') \<and> single_slashes (b # s)"
| "single_slashes s \<longleftrightarrow> True"

lemma collapse_single:
  "single_slashes (collapse_slashes p s)
    \<and> (p \<longrightarrow> (case collapse_slashes p s of c # _ \<Rightarrow> c \<noteq> CHR ''/'' | [] \<Rightarrow> True))"
proof (induction s arbitrary: p)
  case (Cons c s)
  show ?case
    using Cons.IH [of True] Cons.IH [of False]
    by (cases "collapse_slashes True s"; cases "collapse_slashes False s") auto
qed simp

lemma segs_cons: "c \<noteq> CHR ''/'' \<Longrightarrow>
  segs (c # s) = (if s = [] \<or> hd s = CHR ''/'' then [c] # segs s
                  else case segs s of g # gs \<Rightarrow> (c # g) # gs | [] \<Rightarrow> [[c]])"
proof (cases s)
  case (Cons d t)
  assume c: "c \<noteq> CHR ''/''"
  show ?thesis
  proof (cases "d = CHR ''/''")
    case True
    with c Cons show ?thesis by (simp add: segs_def)
  next
    case False
    obtain g gs where "split_text CHR ''/'' s = g # gs" by (cases "split_text CHR ''/'' s") auto
    moreover from this Cons False have "g \<noteq> []" by (auto split: list.splits)
    ultimately show ?thesis using c Cons False by (simp add: segs_def)
  qed
qed (simp add: segs_def)

lemma segs_collapse: "segs (collapse_slashes p s) = segs s"
proof (induction s arbitrary: p)
  case (Cons c s)
  have hd: "collapse_slashes False s = [] \<or> hd (collapse_slashes False s) = CHR ''/'' \<longleftrightarrow> s = [] \<or> hd s = CHR ''/''"
    by (cases s) auto
  show ?case
    using Cons.IH [of False] Cons.IH [of True] hd by (auto simp: segs_cons)
qed simp

text \<open>A string without repeated slashes that starts with one is its segments, up to a last slash.\<close>

lemma single_slashes_append:
  "single_slashes (a @ b) \<Longrightarrow> single_slashes b"
  by (induction a rule: single_slashes.induct) (auto, (cases b; simp)+)

lemma slashed_form:
  assumes "single_slashes t" and "prefix ''/'' t"
  shows "t = slashed (segs t) @ (if last t = CHR ''/'' then ''/'' else [])"
  using assms
proof (induction "length t" arbitrary: t rule: less_induct)
  case less
  obtain u where t: "t = CHR ''/'' # u" using less.prems(2) by (auto simp: prefix_def)
  show ?case
  proof (cases u)
    case Nil
    with t show ?thesis by simp
  next
    case (Cons c v)
    with less.prems(1) t have c: "c \<noteq> CHR ''/''" by auto
    define g where "g = takeWhile (\<lambda>x. x \<noteq> CHR ''/'') u"
    define r where "r = dropWhile (\<lambda>x. x \<noteq> CHR ''/'') u"
    have u: "u = g @ r" by (simp add: g_def r_def)
    have g: "seg_ok g" using c Cons set_takeWhileD by (fastforce simp: seg_ok_def g_def)
    show ?thesis
    proof (cases r)
      case Nil
      with u g have "segs u = [g]" by (simp add: segs_single)
      moreover have "last t \<noteq> CHR ''/''" using g u Nil t seg_last [OF g] by (auto simp: seg_ok_def)
      ultimately show ?thesis using t u Nil by simp
    next
      case (Cons d w)
      then have "d = CHR ''/''" using hd_dropWhile [of "\<lambda>x. x \<noteq> CHR ''/''" u] by (simp add: r_def)
      with Cons have r: "r = CHR ''/'' # w" by simp
      have "single_slashes r"
        using less.prems(1) t u single_slashes_append [of "CHR ''/'' # g" r] by simp
      then have IH: "slashed (segs r) @ (if last r = CHR ''/'' then ''/'' else []) = r"
        using r t u by (intro less.hyps [symmetric]) (auto simp: prefix_def)
      have "segs t = g # segs r" using t u r g by (simp add: segs_seg)
      moreover have "last t = last r" using t u r by simp
      ultimately have "slashed (segs t) @ (if last t = CHR ''/'' then ''/'' else [])
          = CHR ''/'' # g @ slashed (segs r) @ (if last r = CHR ''/'' then ''/'' else [])" by simp
      then show ?thesis unfolding IH using t u by simp
    qed
  qed
qed

lemma pop_slashed:
  assumes "gs \<noteq> []" and "\<forall>g \<in> set gs. seg_ok g"
  shows "pop_slashes (slashed gs) = slashed gs" and "pop_slashes (slashed gs @ ''/'') = slashed gs"
proof -
  have "last (slashed gs) \<noteq> CHR ''/''"
    using assms
  proof (induction gs)
    case (Cons g gs)
    then show ?case using seg_last [of g] by (cases gs) (auto simp: seg_ok_def)
  qed simp
  then show one: "pop_slashes (slashed gs) = slashed gs" by (simp add: pop_slashes.simps)
  have "1 < length (slashed gs @ ''/'')" using assms(1) by (cases gs) simp_all
  then show "pop_slashes (slashed gs @ ''/'') = slashed gs"
    using one by (subst pop_slashes.simps) simp
qed

text \<open>The end of the normaliser on a string without repeated slashes.\<close>

lemma finish_path:
  assumes "single_slashes k" and "prefix ''/'' k" and "segs k \<noteq> []"
  shows "pop_slashes k = slashed (segs k)"
proof -
  have ok: "\<forall>g \<in> set (segs k). seg_ok g" using segs_ok by blast
  show ?thesis
    using slashed_form [OF assms(1,2)] pop_slashed [OF assms(3) ok] by (cases "last k = CHR ''/''") auto
qed

lemma segs_empty: "single_slashes k \<Longrightarrow> segs k = [] \<Longrightarrow> k = [] \<or> k = ''/''"
proof (cases k)
  case (Cons c r)
  assume k: "single_slashes k" "segs k = []"
  then have "c = CHR ''/''" using Cons by (cases "c = CHR ''/''") (auto simp: segs_cons split: if_splits list.splits)
  with Cons k slashed_form [of k] show ?thesis by (auto simp: prefix_def split: if_splits)
qed simp

definition dealias :: "string \<Rightarrow> string list" where
  "dealias t =
     (if prefix ''/'' t \<and> segs t \<noteq> [] \<and> hd (segs t) = ''workspace'' then tl (segs t) else segs t)"

lemma dealias_ok: "g \<in> set (dealias t) \<Longrightarrow> seg_ok g"
  using segs_ok [of g t] list.set_sel(2) [of "segs t" g] by (auto simp: dealias_def split: if_splits)

lemma strip_alias_cases:
  assumes "single_slashes k"
  shows "segs (strip_workspace_alias k) = dealias k \<and> single_slashes (strip_workspace_alias k)
    \<and> (\<not> prefix ''/'' (strip_workspace_alias k) \<or> strip_workspace_alias k = k)"
proof (cases "k = WORKSPACE_PREFIX \<or> (\<exists>rest. k = WORKSPACE_PREFIX @ ''/'' @ rest)")
  case False
  then have strip: "strip_workspace_alias k = k"
    by (auto simp: strip_workspace_alias_def strip_prefix_Some split: option.split)
  have "\<not> (prefix ''/'' k \<and> segs k \<noteq> [] \<and> hd (segs k) = ''workspace'')"
  proof
    assume k: "prefix ''/'' k \<and> segs k \<noteq> [] \<and> hd (segs k) = ''workspace''"
    then obtain gs where "segs k = ''workspace'' # gs" by (cases "segs k") auto
    with slashed_form [OF assms] k have "k = ''/workspace'' @ slashed gs @ (if last k = CHR ''/'' then ''/'' else [])"
      by simp
    with False show False by (cases gs) (auto simp: WORKSPACE_PREFIX_def split: if_splits)
  qed
  with strip assms show ?thesis by (auto simp: dealias_def)
next
  case True
  then show ?thesis
  proof
    assume k: "k = WORKSPACE_PREFIX"
    then show ?thesis
      by (simp add: strip_workspace_alias_def dealias_def WORKSPACE_PREFIX_def segs_def)
  next
    assume "\<exists>rest. k = WORKSPACE_PREFIX @ ''/'' @ rest"
    then obtain rest where k: "k = ''/workspace/'' @ rest" by (auto simp: WORKSPACE_PREFIX_def)
    then have strip: "strip_workspace_alias k = rest" by (simp add: strip_workspace_alias_def WORKSPACE_PREFIX_def)
    have "single_slashes (CHR ''/'' # rest)"
      using assms k single_slashes_append [of "''/workspace''" "CHR ''/'' # rest"] by simp
    then have rest: "single_slashes rest" "\<not> prefix ''/'' rest" by (cases rest; auto)+
    have "segs k = ''workspace'' # segs rest"
      using k segs_seg [of "''workspace''" rest] by (simp add: seg_ok_def)
    with rest strip k show ?thesis by (simp add: dealias_def)
  qed
qed

lemma prefix_collapse: "prefix ''/'' (collapse_slashes False t) \<longleftrightarrow> prefix ''/'' t"
  by (cases t) auto

lemma to_session_path_segs: "to_session_path input = path_of (dealias (trim input))"
proof -
  define k where "k = collapse_slashes False (trim input)"
  define st where "st = strip_workspace_alias k"
  have k: "single_slashes k" using collapse_single [of False] by (simp add: k_def)
  have dk: "dealias k = dealias (trim input)"
    by (simp add: dealias_def k_def segs_collapse prefix_collapse)
  have st: "segs st = dealias (trim input)" "single_slashes st" "\<not> prefix ''/'' st \<or> st = k"
    using strip_alias_cases [OF k] dk by (simp_all add: st_def)
  have form: "to_session_path input =
      (if st = [] \<or> st = ''/'' then ''/'' else pop_slashes (if prefix ''/'' st then st else ''/'' @ st))"
    by (simp add: to_session_path_def st_def k_def Let_def)
  show ?thesis
  proof (cases "st = [] \<or> st = ''/''")
    case True
    then have "dealias (trim input) = []" using st(1) by auto
    with True form show ?thesis by (simp add: path_of_def)
  next
    case False
    then have ne: "segs st \<noteq> []" using segs_empty [OF st(2)] by blast
    show ?thesis
    proof (cases "prefix ''/'' st")
      case True
      with False form finish_path [OF st(2) True ne] st(1) ne show ?thesis by (simp add: path_of_def)
    next
      case rel: False
      have "single_slashes (''/'' @ st)" using st(2) rel False by (cases st) auto
      then have "pop_slashes (''/'' @ st) = slashed (segs st)"
        using finish_path [of "''/'' @ st"] ne by simp
      with rel False form st(1) ne show ?thesis by (simp add: path_of_def)
    qed
  qed
qed

text \<open>What the canonical form is, apart from the segments.\<close>

lemma path_of_shape:
  assumes "\<forall>g \<in> set gs. seg_ok g"
  shows "prefix ''/'' (path_of gs)" and "path_of gs = ''/'' \<longleftrightarrow> gs = []"
    and "gs \<noteq> [] \<Longrightarrow> last (path_of gs) \<noteq> CHR ''/''"
proof -
  show "prefix ''/'' (path_of gs)" by (cases gs) (simp_all add: path_of_def)
  show "path_of gs = ''/'' \<longleftrightarrow> gs = []"
    using assms by (cases gs) (auto simp: path_of_def seg_ok_def)
  show "last (path_of gs) \<noteq> CHR ''/''" if "gs \<noteq> []"
    using that assms
  proof (induction gs)
    case (Cons g gs)
    then show ?case using seg_last [of g] by (cases gs) (auto simp: seg_ok_def path_of_def)
  qed simp
qed

lemma segs_to_session_path [simp]: "segs (to_session_path input) = dealias (trim input)"
  using dealias_ok by (simp add: to_session_path_segs)

lemma path_of_to_session_path: "path_of (dealias (trim input)) = to_session_path input"
  by (simp add: to_session_path_segs)

lemma to_session_path_prefix [simp]: "prefix ''/'' (to_session_path input)"
  using path_of_shape(1) dealias_ok by (simp add: to_session_path_segs)

text \<open>Normalising a canonical path again only removes a leading \<open>workspace\<close> segment.\<close>

lemma to_session_path_again:
  assumes "\<not> is_whitespace (last (to_session_path p))"
  shows "to_session_path (to_session_path p) = path_of (dealias (to_session_path p))"
proof -
  have "\<not> is_whitespace (CHR ''/'')" by (simp add: is_whitespace_def)
  then have "trim (to_session_path p) = to_session_path p"
    using assms to_session_path_prefix [of p] by (intro trim_id) (auto simp: prefix_def)
  then show ?thesis by (simp add: to_session_path_segs [of "to_session_path p"])
qed

lemma to_session_path_idem:
  assumes "\<not> is_whitespace (last (to_session_path p))"
    and "\<not> prefix ''/workspace/'' (to_session_path p)" and "to_session_path p \<noteq> ''/workspace''"
  shows "to_session_path (to_session_path p) = to_session_path p"
proof -
  have "\<not> (dealias (trim p) \<noteq> [] \<and> hd (dealias (trim p)) = ''workspace'')"
  proof
    assume "dealias (trim p) \<noteq> [] \<and> hd (dealias (trim p)) = ''workspace''"
    then obtain gs where "dealias (trim p) = ''workspace'' # gs" by (cases "dealias (trim p)") auto
    then have "to_session_path p = ''/workspace'' @ slashed gs"
      by (simp add: to_session_path_segs path_of_def)
    with assms(2,3) show False by (cases gs) simp_all
  qed
  then have "dealias (to_session_path p) = dealias (trim p)"
    unfolding dealias_def [of "to_session_path p"] by auto
  with to_session_path_again [OF assms(1)] show ?thesis by (simp add: path_of_to_session_path)
qed

lemma display_path_segs:
  "to_display_path p = ''/workspace'' @ slashed (dealias (trim p))"
  using path_of_shape(2) [of "dealias (trim p)"] dealias_ok
  by (auto simp: to_display_path_def Let_def to_session_path_segs WORKSPACE_PREFIX_def path_of_def)

lemma segs_display_path: "segs (to_display_path p) = ''workspace'' # dealias (trim p)"
proof -
  have "\<forall>g \<in> set (''workspace'' # dealias (trim p)). seg_ok g" using dealias_ok by (auto simp: seg_ok_def)
  from segs_slashed [OF this] show ?thesis by (simp add: display_path_segs)
qed

section \<open>Properties\<close>

text \<open>
  C34. The session-path normaliser against its specification, for every input: the result is the
  canonical path of the non-empty segments of the trimmed input, less a leading \<open>workspace\<close>
  segment of an absolute path. It starts with a slash, and ends with one only if it is the root; two inputs have the same key exactly when these segments agree.
\<close>

theorem session_path_canonical:
  "to_session_path input = path_of (dealias (trim input))
    \<and> segs (to_session_path input) = dealias (trim input)
    \<and> prefix ''/'' (to_session_path input)
    \<and> (last (to_session_path input) = CHR ''/'' \<longleftrightarrow> to_session_path input = ''/'')
    \<and> (to_session_path input = to_session_path other \<longleftrightarrow> dealias (trim input) = dealias (trim other))"
proof (intro conjI)
  have ok: "\<forall>g \<in> set (dealias (trim input)). seg_ok g" using dealias_ok by blast
  show "last (to_session_path input) = CHR ''/'' \<longleftrightarrow> to_session_path input = ''/''"
    using path_of_shape(2,3) [OF ok] by (auto simp: path_of_to_session_path)
  show "to_session_path input = to_session_path other \<longleftrightarrow> dealias (trim input) = dealias (trim other)"
    by (metis path_of_to_session_path segs_to_session_path)
qed (simp_all add: path_of_to_session_path)

text \<open>
  The display path is a faithful name: read back by the normaliser, it gives the key it was made
  from, also for a directory that is itself called \<open>workspace\<close>; and displaying a display path
  changes nothing. The key must not end in white space, which the normaliser trims only at the
  outer end of its input (\<open>"a /"\<close> has the key \<open>"/a "\<close>).
\<close>

theorem display_path_round_trip:
  assumes "\<not> is_whitespace (last (to_session_path p))"
  shows "to_session_path (to_display_path p) = to_session_path p
    \<and> to_display_path (to_display_path p) = to_display_path p"
proof -
  have "last (to_display_path p) = (if dealias (trim p) = [] then CHR ''e'' else last (to_session_path p))"
    by (auto simp: display_path_segs to_session_path_segs path_of_def slashed_def)
  then have "\<not> is_whitespace (last (to_display_path p))" using assms by (simp add: is_whitespace_def)
  moreover have "hd (to_display_path p) = CHR ''/''" by (simp add: display_path_segs)
  ultimately have trim: "trim (to_display_path p) = to_display_path p"
    by (intro trim_id) (simp add: is_whitespace_def)
  have "dealias (to_display_path p) = dealias (trim p)"
    unfolding dealias_def [of "to_display_path p"] segs_display_path by (simp add: display_path_segs)
  then have key: "to_session_path (to_display_path p) = to_session_path p"
    using trim by (simp add: to_session_path_segs [of "to_display_path p"] path_of_to_session_path)
  moreover have "to_display_path (to_display_path p) = to_display_path p"
    unfolding to_display_path_def [of "to_display_path p"] key by (simp add: to_display_path_def)
  ultimately show ?thesis ..
qed

theorem display_path_round_trip_witness:
  "to_session_path (to_display_path ''workspace//a/'') = ''/workspace/a''"
proof -
  have "to_session_path ''workspace//a/'' = ''/workspace/a''" by code_simp
  then show ?thesis
    using display_path_round_trip [of "''workspace//a/''"] by (simp add: is_whitespace_def)
qed

end
