(* ===== verification/Grep.thy ===== *)
theory Grep
  imports Session_Path "HOL-Library.List_Lexorder" "HOL-Library.Char_ord" "HOL-Library.Product_Lexorder"
begin

text \<open>
  The bounded search over session files (\<open>crates/core/src/session_file.rs\<close>): matches of a regular
  expression in files sorted by path, a window of them (offset and limit), context blocks around
  them, and a byte budget on the serialized entries. The matcher (\<open>regex\<close>) and the size of an entry
  in JSON (\<open>serde_json\<close>) are parameters. \<open>usize\<close> values are natural numbers: every sum the source
  saturates is compared with a length afterwards, so that saturation changes no result.
\<close>

section \<open>Definitions\<close>

definition GREP_MAX_CONTEXT_LINES :: nat where "GREP_MAX_CONTEXT_LINES = 20"
definition GREP_MAX_RETURN_BYTES :: nat where "GREP_MAX_RETURN_BYTES = 64 * 1024"
definition USIZE_MAX :: nat where "USIZE_MAX = 2 ^ 64 - 1"

record grep_match =
  gm_path :: string
  gm_line_number :: nat
  gm_line :: string

record grep_options =
  go_path_pattern :: "string option"
  go_before_context :: nat
  go_after_context :: nat
  go_offset :: nat
  go_limit :: nat
  go_max_bytes :: nat

definition grep_options_default :: grep_options where
  "grep_options_default =
     \<lparr>go_path_pattern = None, go_before_context = 0, go_after_context = 0, go_offset = 0,
      go_limit = USIZE_MAX, go_max_bytes = GREP_MAX_RETURN_BYTES\<rparr>"

record grep_context_line =
  gl_line_number :: nat
  gl_line :: string
  gl_is_match :: bool

record grep_context_block =
  gb_path :: string
  gb_start_line :: nat
  gb_end_line :: nat
  gb_match_line_numbers :: "nat list"
  gb_lines :: "grep_context_line list"

record grep_search_result =
  gr_matches :: "grep_match list"
  gr_blocks :: "grep_context_block list"
  gr_total_matches :: nat
  gr_returned_matches :: nat
  gr_bytes_returned :: nat
  gr_bytes_total :: nat
  gr_next_offset :: "nat option"
  gr_byte_truncated :: bool

text \<open>The number of bytes \<open>serde_json::to_vec\<close> gives for an entry.\<close>

record json_size =
  js_match :: "grep_match \<Rightarrow> nat"
  js_block :: "grep_context_block \<Rightarrow> nat"

subsection \<open>The byte budget\<close>

definition serialized_match_len :: "json_size \<Rightarrow> grep_match \<Rightarrow> nat" where
  "serialized_match_len js m = js_match js m + 1"

definition serialized_block_len :: "json_size \<Rightarrow> grep_context_block \<Rightarrow> nat" where
  "serialized_block_len js b = js_block js b + 1"

fun truncate_utf8 :: "string \<Rightarrow> nat \<Rightarrow> string" where
  "truncate_utf8 [] max_bytes = []"
| "truncate_utf8 (c # s) max_bytes =
     (if char_len c \<le> max_bytes then c # truncate_utf8 s (max_bytes - char_len c) else [])"

text \<open>The binary search of both truncations: \<open>fits\<close> tests the entry cut to \<open>mid\<close> bytes.\<close>

function search_cut :: "(nat \<Rightarrow> bool) \<Rightarrow> nat \<Rightarrow> nat \<Rightarrow> nat" where
  "search_cut fits low high =
     (if low < high then
        (let mid = low + (high - low + 1) div 2 in
         if fits mid then search_cut fits mid high else search_cut fits low (mid - 1))
      else low)"
  by pat_completeness auto

termination
  by (relation "measure (\<lambda>(fits, low, high). high - low)") auto

declare search_cut.simps [simp del]

definition truncate_line_to_serialized_size :: "json_size \<Rightarrow> nat \<Rightarrow> grep_match \<Rightarrow> grep_match" where
  "truncate_line_to_serialized_size js max_bytes item =
     (let original = gm_line item;
          low = search_cut
                  (\<lambda>mid. serialized_match_len js (item\<lparr>gm_line := truncate_utf8 original mid\<rparr>) \<le> max_bytes)
                  0 (utf8_len original)
      in item\<lparr>gm_line := truncate_utf8 original low\<rparr>)"

definition set_block_line :: "nat \<Rightarrow> string \<Rightarrow> grep_context_block \<Rightarrow> grep_context_block" where
  "set_block_line index s block =
     block\<lparr>gb_lines := (gb_lines block)[index := (gb_lines block ! index)\<lparr>gl_line := s\<rparr>]\<rparr>"

fun truncate_block_lines ::
  "json_size \<Rightarrow> nat \<Rightarrow> nat \<Rightarrow> string list \<Rightarrow> grep_context_block \<Rightarrow> grep_context_block" where
  "truncate_block_lines js max_bytes index [] block = block"
| "truncate_block_lines js max_bytes index (original # rest) block =
     (let low = search_cut
                  (\<lambda>mid. serialized_block_len js (set_block_line index (truncate_utf8 original mid) block) \<le> max_bytes)
                  0 (utf8_len original);
          block = set_block_line index (truncate_utf8 original low) block
      in if low < utf8_len original then block
         else truncate_block_lines js max_bytes (index + 1) rest block)"

definition truncate_block_to_serialized_size ::
  "json_size \<Rightarrow> nat \<Rightarrow> grep_context_block \<Rightarrow> grep_context_block" where
  "truncate_block_to_serialized_size js max_bytes block =
     truncate_block_lines js max_bytes 0 (map gl_line (gb_lines block))
       (block\<lparr>gb_lines := map (\<lambda>l. l\<lparr>gl_line := []\<rparr>) (gb_lines block)\<rparr>)"

text \<open>
  The two loops of \<open>apply_grep_byte_budget\<close> have the same body: \<open>bytes_of\<close> is the serialized size,
  \<open>shrink\<close> the truncation of an entry and \<open>matches_in\<close> the number of matches it carries.
\<close>

record 'i budget_acc =
  ba_items :: "'i list"
  ba_bytes_returned :: nat
  ba_returned_matches :: nat
  ba_byte_truncated :: bool

fun budget_loop ::
  "('i \<Rightarrow> nat) \<Rightarrow> (nat \<Rightarrow> 'i \<Rightarrow> 'i) \<Rightarrow> ('i \<Rightarrow> nat) \<Rightarrow> nat \<Rightarrow> 'i list \<Rightarrow> 'i budget_acc \<Rightarrow> 'i budget_acc" where
  "budget_loop bytes_of shrink matches_in max_bytes [] acc = acc"
| "budget_loop bytes_of shrink matches_in max_bytes (item # rest) acc =
     (let remaining = max_bytes - ba_bytes_returned acc;
          push = (\<lambda>i acc. acc\<lparr>ba_items := ba_items acc @ [i],
                     ba_bytes_returned := ba_bytes_returned acc + bytes_of i,
                     ba_returned_matches := ba_returned_matches acc + matches_in i\<rparr>)
      in if remaining < bytes_of item then
           (if ba_items acc \<noteq> [] \<or> remaining = 0 then acc\<lparr>ba_byte_truncated := True\<rparr>
            else let item = shrink remaining item; acc = acc\<lparr>ba_byte_truncated := True\<rparr> in
                 if remaining < bytes_of item then acc else push item acc)
         else let acc = push item acc in
              if ba_byte_truncated acc then acc
              else budget_loop bytes_of shrink matches_in max_bytes rest acc)"

definition budget_start :: "nat \<Rightarrow> nat \<Rightarrow> bool \<Rightarrow> 'i budget_acc" where
  "budget_start bytes n truncated =
     \<lparr>ba_items = [], ba_bytes_returned = bytes, ba_returned_matches = n, ba_byte_truncated = truncated\<rparr>"

definition apply_grep_byte_budget ::
  "json_size \<Rightarrow> grep_match list \<Rightarrow> grep_context_block list \<Rightarrow> nat \<Rightarrow> grep_options \<Rightarrow> grep_search_result" where
  "apply_grep_byte_budget js flat blocks total_matches options =
     (let bytes_total = sum_list (map (serialized_match_len js) flat) + sum_list (map (serialized_block_len js) blocks);
          f = budget_loop (serialized_match_len js) (truncate_line_to_serialized_size js) (\<lambda>_. 1)
                (go_max_bytes options) flat (budget_start 0 0 False);
          b = budget_loop (serialized_block_len js) (truncate_block_to_serialized_size js)
                (length \<circ> gb_match_line_numbers) (go_max_bytes options) blocks
                (budget_start (ba_bytes_returned f) (ba_returned_matches f) (ba_byte_truncated f));
          nxt = go_offset options + ba_returned_matches b
      in \<lparr>gr_matches = ba_items f, gr_blocks = ba_items b, gr_total_matches = total_matches,
          gr_returned_matches = ba_returned_matches b, gr_bytes_returned = ba_bytes_returned b,
          gr_bytes_total = bytes_total,
          gr_next_offset = (if nxt < total_matches then Some nxt else None),
          gr_byte_truncated = ba_byte_truncated b\<rparr>)"

subsection \<open>The search\<close>

type_synonym line_range = "nat \<times> nat \<times> nat list"

definition file_match_indexes :: "(string \<Rightarrow> bool) \<Rightarrow> string list \<Rightarrow> nat list" where
  "file_match_indexes is_match lines = filter (\<lambda>i. is_match (lines ! i)) [0..<length lines]"

definition flat_match :: "string \<Rightarrow> string list \<Rightarrow> nat \<Rightarrow> grep_match" where
  "flat_match path lines index = \<lparr>gm_path = path, gm_line_number = index + 1, gm_line = lines ! index\<rparr>"

definition push_range :: "nat \<Rightarrow> nat \<Rightarrow> nat \<Rightarrow> line_range list \<Rightarrow> line_range list" where
  "push_range start stop index ranges =
     (if ranges \<noteq> [] \<and> start \<le> fst (snd (last ranges)) + 1 then
        butlast ranges @
          [case last ranges of (s, previous_end, match_indexes) \<Rightarrow> (s, max previous_end stop, match_indexes @ [index])]
      else ranges @ [(start, stop, [index])])"

definition context_ranges :: "nat \<Rightarrow> nat \<Rightarrow> nat \<Rightarrow> nat list \<Rightarrow> line_range list" where
  "context_ranges before after n selected =
     foldl (\<lambda>ranges index. push_range (index - before) (min (index + after) (n - 1)) index ranges) [] selected"

definition context_block :: "string \<Rightarrow> string list \<Rightarrow> line_range \<Rightarrow> grep_context_block" where
  "context_block path lines r =
     (case r of (start, stop, match_indexes) \<Rightarrow>
        \<lparr>gb_path = path, gb_start_line = start + 1, gb_end_line = stop + 1,
         gb_match_line_numbers = map (\<lambda>index. index + 1) match_indexes,
         gb_lines = map (\<lambda>index. \<lparr>gl_line_number = index + 1, gl_line = lines ! index,
                                  gl_is_match = (index \<in> set match_indexes)\<rparr>) [start..<Suc stop]\<rparr>)"

record grep_acc =
  ga_total_matches :: nat
  ga_remaining_offset :: nat
  ga_remaining_limit :: nat
  ga_flat :: "grep_match list"
  ga_blocks :: "grep_context_block list"

definition grep_file :: "(string \<Rightarrow> bool) \<Rightarrow> grep_options \<Rightarrow> string \<times> string \<Rightarrow> grep_acc \<Rightarrow> grep_acc" where
  "grep_file is_match options file acc =
     (let path = fst file; lines = lines_text (snd file);
          file_matches = file_match_indexes is_match lines;
          skip = min (ga_remaining_offset acc) (length file_matches);
          selected = take (ga_remaining_limit acc) (drop skip file_matches);
          acc = acc\<lparr>ga_total_matches := ga_total_matches acc + length file_matches,
                    ga_remaining_offset := ga_remaining_offset acc - skip,
                    ga_remaining_limit := ga_remaining_limit acc - length selected\<rparr>
      in if go_before_context options = 0 \<and> go_after_context options = 0 then
           acc\<lparr>ga_flat := ga_flat acc @ map (flat_match path lines) selected\<rparr>
         else acc\<lparr>ga_blocks := ga_blocks acc @ map (context_block path lines)
                (context_ranges (go_before_context options) (go_after_context options) (length lines) selected)\<rparr>)"

definition build_grep_search_result ::
  "json_size \<Rightarrow> (string \<times> string) list \<Rightarrow> (string \<Rightarrow> bool) \<Rightarrow> grep_options \<Rightarrow> grep_search_result" where
  "build_grep_search_result js files is_match options =
     (let acc = fold (grep_file is_match options) (sort_key fst files)
                  \<lparr>ga_total_matches = 0, ga_remaining_offset = go_offset options,
                   ga_remaining_limit = go_limit options, ga_flat = [], ga_blocks = []\<rparr>
      in apply_grep_byte_budget js (ga_flat acc) (ga_blocks acc) (ga_total_matches acc) options)"

definition bound_grep_matches :: "json_size \<Rightarrow> grep_match list \<Rightarrow> grep_options \<Rightarrow> grep_search_result" where
  "bound_grep_matches js matches options =
     (let matches = sort_key (\<lambda>m. (gm_path m, gm_line_number m, gm_line m)) matches
      in apply_grep_byte_budget js (take (go_limit options) (drop (go_offset options) matches)) []
           (length matches) options)"

text \<open>
  \<open>merge_grep_search_results\<close>: the nested \<open>BTreeMap\<close>s are association lists whose first entry for a
  key counts (\<open>or_insert\<close>) and whose iteration is sorted by key.
\<close>

definition block_lines :: "grep_search_result list \<Rightarrow> string \<Rightarrow> (nat \<times> string) list" where
  "block_lines results path =
     concat (map (\<lambda>b. map (\<lambda>l. (gl_line_number l, gl_line l)) (gb_lines b))
       (filter (\<lambda>b. gb_path b = path) (concat (map gr_blocks results))))"

definition block_matches :: "grep_search_result list \<Rightarrow> (string \<times> nat) list" where
  "block_matches results =
     sort (remdups (concat (map (\<lambda>b. map (Pair (gb_path b)) (gb_match_line_numbers b)) (concat (map gr_blocks results)))))"

definition available_range :: "(nat \<times> string) list \<Rightarrow> nat \<Rightarrow> nat \<Rightarrow> (nat \<times> string) list" where
  "available_range available start stop =
     map (\<lambda>n. (n, the (map_of available n)))
       (filter (\<lambda>n. start \<le> n \<and> n \<le> stop) (sort (remdups (map fst available))))"

definition merged_block :: "string \<Rightarrow> (nat \<times> string) list \<Rightarrow> line_range \<Rightarrow> grep_context_block list" where
  "merged_block path available r =
     (case r of (start, stop, match_line_numbers) \<Rightarrow>
        let lines = map (\<lambda>(n, l). \<lparr>gl_line_number = n, gl_line = l, gl_is_match = (n \<in> set match_line_numbers)\<rparr>)
                      (available_range available start stop)
        in if lines = [] then []
           else [\<lparr>gb_path = path, gb_start_line = gl_line_number (hd lines), gb_end_line = gl_line_number (last lines),
                  gb_match_line_numbers = match_line_numbers, gb_lines = lines\<rparr>])"

definition merged_blocks ::
  "grep_options \<Rightarrow> grep_search_result list \<Rightarrow> (string \<times> nat) list \<Rightarrow> string \<Rightarrow> grep_context_block list" where
  "merged_blocks options results selected path =
     (let match_lines = map snd (filter (\<lambda>s. fst s = path) selected);
          ranges = foldl (\<lambda>ranges line.
                     push_range (max (line - go_before_context options) 1) (line + go_after_context options) line ranges)
                     [] match_lines
      in concat (map (merged_block path (block_lines results path)) ranges))"

definition merge_grep_search_results ::
  "json_size \<Rightarrow> grep_search_result list \<Rightarrow> grep_options \<Rightarrow> grep_search_result" where
  "merge_grep_search_results js results options =
     (if go_before_context options = 0 \<and> go_after_context options = 0 then
        bound_grep_matches js (concat (map gr_matches results)) options
      else
        let matches = block_matches results;
            selected = take (go_limit options) (drop (go_offset options) matches);
            blocks = concat (map (merged_blocks options results selected) (sort (remdups (map fst selected))))
        in apply_grep_byte_budget js [] blocks (length matches) options)"

section \<open>The binary search\<close>

text \<open>The cut is the largest one that fits, when a shorter line never takes more bytes.\<close>

lemma search_cut_bounds: "low \<le> high \<Longrightarrow> low \<le> search_cut fits low high \<and> search_cut fits low high \<le> high"
proof (induction fits low high rule: search_cut.induct)
  case (1 fits low high)
  show ?case
  proof (cases "low < high")
    case True
    define mid where "mid = low + (high - low + 1) div 2"
    have mid: "low < mid" "mid \<le> high" using True by (auto simp: mid_def)
    have "search_cut fits low high = (if fits mid then search_cut fits mid high else search_cut fits low (mid - 1))"
      using True by (simp add: search_cut.simps [of fits low high] mid_def Let_def)
    with "1.IH" [OF True mid_def] mid show ?thesis by (cases "fits mid") (simp, force)
  next
    case False
    then have "search_cut fits low high = low" by (simp add: search_cut.simps [of fits low high])
    with "1.prems" show ?thesis by simp
  qed
qed

lemma search_cut_greatest:
  assumes "\<And>i j. i \<le> j \<Longrightarrow> fits j \<Longrightarrow> fits i" and "low \<le> high" and "fits low"
  shows "fits (search_cut fits low high) \<and> (\<forall>j \<le> high. fits j \<longrightarrow> j \<le> search_cut fits low high)"
  using assms
proof (induction fits low high rule: search_cut.induct)
  case (1 fits low high)
  define mid where "mid = low + (high - low + 1) div 2"
  show ?case
  proof (cases "low < high")
    case True
    then have mid: "low < mid" "mid \<le> high" by (auto simp: mid_def)
    show ?thesis
    proof (cases "fits mid")
      case fits: True
      then have "search_cut fits low high = search_cut fits mid high"
        using True by (subst search_cut.simps) (simp add: mid_def Let_def)
      then show ?thesis
        using "1.IH"(1) [OF True mid_def fits "1.prems"(1) mid(2) fits] by simp
    next
      case nofit: False
      then have eq: "search_cut fits low high = search_cut fits low (mid - 1)"
        using True by (subst search_cut.simps) (simp add: mid_def Let_def)
      have "j \<le> mid - 1" if "fits j" for j
        using that nofit "1.prems"(1) [of mid j] by (cases "mid \<le> j") auto
      then show ?thesis
        using "1.IH"(2) [OF True mid_def nofit "1.prems"(1) _ "1.prems"(3)] mid eq by auto
    qed
  next
    case False
    then have "search_cut fits low high = low" by (simp add: search_cut.simps [of fits low high])
    with False "1.prems" show ?thesis by auto
  qed
qed

section \<open>The byte budget\<close>

lemma budget_loop_bytes:
  "ba_bytes_returned acc \<le> max_bytes \<Longrightarrow>
    ba_bytes_returned (budget_loop bytes_of shrink matches_in max_bytes items acc) \<le> max_bytes"
proof (induction items arbitrary: acc)
  case (Cons item rest)
  show ?case
  proof (cases "max_bytes - ba_bytes_returned acc < bytes_of item")
    case True
    with Cons.prems show ?thesis by (auto simp: Let_def)
  next
    case False
    with Cons.prems have "ba_bytes_returned acc + bytes_of item \<le> max_bytes" by simp
    with False Cons.IH show ?thesis by (simp add: Let_def)
  qed
qed simp

lemma budget_loop_sums:
  "ba_bytes_returned acc = b + sum_list (map bytes_of (ba_items acc)) \<and>
   ba_returned_matches acc = n + sum_list (map matches_in (ba_items acc)) \<Longrightarrow>
   ba_bytes_returned (budget_loop bytes_of shrink matches_in max_bytes items acc)
     = b + sum_list (map bytes_of (ba_items (budget_loop bytes_of shrink matches_in max_bytes items acc)))
   \<and> ba_returned_matches (budget_loop bytes_of shrink matches_in max_bytes items acc)
     = n + sum_list (map matches_in (ba_items (budget_loop bytes_of shrink matches_in max_bytes items acc)))"
  by (induction items arbitrary: acc) (auto simp: Let_def)

text \<open>Only the first entry of a page is ever cut.\<close>

lemma budget_loop_items:
  "(\<exists>n. ba_items (budget_loop bytes_of shrink matches_in max_bytes items acc) = ba_items acc @ take n items)
   \<or> ba_items acc = [] \<and> items \<noteq> []
     \<and> (\<exists>r. ba_items (budget_loop bytes_of shrink matches_in max_bytes items acc) = [shrink r (hd items)])"
proof (induction items arbitrary: acc)
  case (Cons item rest)
  have "\<exists>n. xs = take n (item # rest)" if "xs = [] \<or> xs = [item]" for xs
    using that by (metis take0 take_Suc_Cons)
  then have short: "\<exists>n. ba_items acc @ xs = ba_items acc @ take n (item # rest)" if "xs = [] \<or> xs = [item]" for xs
    using that by blast
  show ?case
  proof (cases "max_bytes - ba_bytes_returned acc < bytes_of item \<or> ba_byte_truncated acc")
    case True
    then show ?thesis using short [of "[]"] short [of "[item]"] by (auto simp: Let_def)
  next
    case False
    define acc' where "acc' = acc\<lparr>ba_items := ba_items acc @ [item],
       ba_bytes_returned := ba_bytes_returned acc + bytes_of item,
       ba_returned_matches := ba_returned_matches acc + matches_in item\<rparr>"
    from False have "budget_loop bytes_of shrink matches_in max_bytes (item # rest) acc
        = budget_loop bytes_of shrink matches_in max_bytes rest acc'"
      by (auto simp: Let_def acc'_def)
    moreover obtain n where "ba_items (budget_loop bytes_of shrink matches_in max_bytes rest acc')
        = ba_items acc @ item # take n rest"
      using Cons.IH [of acc'] by (auto simp: acc'_def)
    then have "ba_items (budget_loop bytes_of shrink matches_in max_bytes rest acc')
        = ba_items acc @ take (Suc n) (item # rest)" by simp
    ultimately show ?thesis by metis
  qed
qed (auto intro: exI [of _ 0])

lemma budget_loop_all:
  "ba_bytes_returned acc + sum_list (map bytes_of items) \<le> max_bytes \<Longrightarrow> \<not> ba_byte_truncated acc \<Longrightarrow>
    ba_items (budget_loop bytes_of shrink matches_in max_bytes items acc) = ba_items acc @ items"
  by (induction items arbitrary: acc) (auto simp: Let_def)

text \<open>When every entry fits on a page of its own, nothing is cut and a page has at least one entry.\<close>

lemma budget_loop_fits:
  assumes "\<forall>i \<in> set items. bytes_of i \<le> max_bytes" and "\<not> ba_byte_truncated acc"
    and "ba_items acc = [] \<Longrightarrow> ba_bytes_returned acc = 0"
  shows "\<exists>n. ba_items (budget_loop bytes_of shrink matches_in max_bytes items acc) = ba_items acc @ take n items
    \<and> (ba_items acc = [] \<longrightarrow> items \<noteq> [] \<longrightarrow> 0 < n)"
  using assms
proof (induction items arbitrary: acc)
  case (Cons item rest)
  show ?case
  proof (cases "max_bytes - ba_bytes_returned acc < bytes_of item")
    case True
    with Cons.prems have "ba_items acc \<noteq> []" by auto
    with True show ?thesis by (auto simp: Let_def intro: exI [of _ 0])
  next
    case False
    define acc' where "acc' = acc\<lparr>ba_items := ba_items acc @ [item],
       ba_bytes_returned := ba_bytes_returned acc + bytes_of item,
       ba_returned_matches := ba_returned_matches acc + matches_in item\<rparr>"
    from False Cons.prems(2) have "budget_loop bytes_of shrink matches_in max_bytes (item # rest) acc
        = budget_loop bytes_of shrink matches_in max_bytes rest acc'"
      by (auto simp: Let_def acc'_def)
    moreover obtain n where "ba_items (budget_loop bytes_of shrink matches_in max_bytes rest acc')
        = ba_items acc @ item # take n rest"
      using Cons.IH [of acc'] Cons.prems by (auto simp: acc'_def)
    ultimately show ?thesis by (auto intro: exI [of _ "Suc n"])
  qed
qed auto

section \<open>The window of matches\<close>

definition matches_of :: "(string \<Rightarrow> bool) \<Rightarrow> string \<times> string \<Rightarrow> grep_match list" where
  "matches_of is_match file =
     map (flat_match (fst file) (lines_text (snd file))) (file_match_indexes is_match (lines_text (snd file)))"

text \<open>The reference: every match, in the order of paths and of lines.\<close>

definition all_matches :: "(string \<Rightarrow> bool) \<Rightarrow> (string \<times> string) list \<Rightarrow> grep_match list" where
  "all_matches is_match files = concat (map (matches_of is_match) (sort_key fst files))"

definition no_context :: "grep_options \<Rightarrow> bool" where
  "no_context options \<longleftrightarrow> go_before_context options = 0 \<and> go_after_context options = 0"

lemma window_append:
  "take l (drop k (a @ b)) =
    take l (drop (min k (length a)) a)
      @ take (l - length (take l (drop (min k (length a)) a))) (drop (k - min k (length a)) b)"
  by (cases "k \<le> length a") (simp_all add: min_def)

lemma grep_fold_flat:
  assumes "no_context options"
  shows "ga_total_matches (fold (grep_file is_match options) fs acc)
      = ga_total_matches acc + length (concat (map (matches_of is_match) fs))
    \<and> ga_flat (fold (grep_file is_match options) fs acc)
      = ga_flat acc @ take (ga_remaining_limit acc) (drop (ga_remaining_offset acc) (concat (map (matches_of is_match) fs)))
    \<and> ga_blocks (fold (grep_file is_match options) fs acc) = ga_blocks acc"
proof (induction fs arbitrary: acc)
  case (Cons f fs)
  define k where "k = min (ga_remaining_offset acc) (length (matches_of is_match f))"
  define sel where "sel = take (ga_remaining_limit acc) (drop k (matches_of is_match f))"
  have step: "grep_file is_match options f acc =
      acc\<lparr>ga_total_matches := ga_total_matches acc + length (matches_of is_match f),
          ga_remaining_offset := ga_remaining_offset acc - k,
          ga_remaining_limit := ga_remaining_limit acc - length sel,
          ga_flat := ga_flat acc @ sel\<rparr>"
    using assms by (simp add: grep_file_def Let_def no_context_def matches_of_def k_def sel_def take_map drop_map)
  show ?case
    using window_append [of "ga_remaining_limit acc" "ga_remaining_offset acc" "matches_of is_match f"
        "concat (map (matches_of is_match) fs)"]
      Cons.IH [of "grep_file is_match options f acc"]
    by (simp add: step flip: k_def sel_def)
qed simp

lemma build_flat:
  assumes "no_context options"
  shows "build_grep_search_result js files is_match options =
    apply_grep_byte_budget js (take (go_limit options) (drop (go_offset options) (all_matches is_match files))) []
      (length (all_matches is_match files)) options"
  by (simp add: build_grep_search_result_def Let_def grep_fold_flat [OF assms] all_matches_def)

section \<open>Context ranges\<close>

definition range_of :: "nat \<Rightarrow> nat \<Rightarrow> nat \<Rightarrow> nat \<Rightarrow> nat set" where
  "range_of before after n index = {index - before .. min (index + after) (n - 1)}"

text \<open>
  What the merged ranges are: each range belongs to a non-empty run of the selected matches and
  spans from the first window of the run to the last one; ranges neither overlap nor touch; and
  together they cover the windows of all matches, and nothing else.
\<close>

definition ranges_for :: "nat \<Rightarrow> nat \<Rightarrow> nat \<Rightarrow> nat list \<Rightarrow> line_range list \<Rightarrow> bool" where
  "ranges_for before after n selected ranges \<longleftrightarrow>
     concat (map (\<lambda>(_, _, ms). ms) ranges) = selected
     \<and> (\<forall>(s, e, ms) \<in> set ranges. ms \<noteq> [] \<and> s = hd ms - before \<and> e = min (last ms + after) (n - 1))
     \<and> sorted_wrt (\<lambda>(_, e, _) (s, _, _). e + 1 < s) ranges
     \<and> (\<Union>(s, e, _) \<in> set ranges. {s..e}) = (\<Union>i \<in> set selected. range_of before after n i)"

lemma push_range_ok:
  assumes ok: "ranges_for before after n selected ranges"
    and sorted: "\<forall>j \<in> set selected. j < i" and i: "i < n"
  shows "ranges_for before after n (selected @ [i])
    (push_range (i - before) (min (i + after) (n - 1)) i ranges)"
proof (cases "ranges \<noteq> [] \<and> i - before \<le> fst (snd (last ranges)) + 1")
  case True
  then obtain rs s e ms where rs: "ranges = rs @ [(s, e, ms)]"
    by (metis append_butlast_last_id prod_cases3)
  from ok have r: "ms \<noteq> []" "s = hd ms - before" "e = min (last ms + after) (n - 1)"
    and sel: "selected = concat (map (\<lambda>(_, _, ms). ms) rs) @ ms"
    by (auto simp: rs ranges_for_def)
  have "hd ms < i" "last ms < i" using r(1) sel sorted by auto
  then have s: "s \<le> i - before" and e: "max e (min (i + after) (n - 1)) = min (i + after) (n - 1)"
    using r by auto
  define e' where "e' = min (i + after) (n - 1)"
  have push: "push_range (i - before) e' i ranges = rs @ [(s, e', ms @ [i])]"
    using True e by (simp add: push_range_def rs e'_def)
  have "s \<le> e + 1" "e \<le> e'" using True s e by (auto simp: rs e'_def)
  then have "{s..e'} = {s..e} \<union> {i - before..e'}"
    using True s i by (auto simp: rs e'_def)
  then have cover: "(\<Union>(s, e, _) \<in> set (rs @ [(s, e', ms @ [i])]). {s..e})
      = (\<Union>(s, e, _) \<in> set ranges. {s..e}) \<union> range_of before after n i"
    by (auto simp: rs range_of_def e'_def)
  show ?thesis
    unfolding e'_def [symmetric] push using ok cover r
    by (auto simp: ranges_for_def rs sorted_wrt_append e'_def)
next
  case False
  define e' where "e' = min (i + after) (n - 1)"
  have push: "push_range (i - before) e' i ranges = ranges @ [(i - before, e', [i])]"
    using False by (auto simp: push_range_def)
  have "e + 1 < i - before" if "(s, e, ms) \<in> set ranges" for s e ms
  proof -
    from that have "ranges \<noteq> []" by auto
    then obtain rs s' e'' ms' where rs: "ranges = rs @ [(s', e'', ms')]"
      by (metis append_butlast_last_id prod_cases3)
    have last: "e'' + 1 < i - before" using False by (auto simp: rs)
    show ?thesis
    proof (cases "(s, e, ms) \<in> set rs")
      case True
      then have "e + 1 < s'" using ok by (auto simp: ranges_for_def rs sorted_wrt_append)
      moreover have "ms' \<noteq> [] \<and> s' = hd ms' - before" and "selected = concat (map (\<lambda>(_, _, ms). ms) rs) @ ms'"
        using ok by (simp_all add: ranges_for_def rs)
      then have "s' \<le> i - before" using sorted by (simp add: diff_le_mono less_imp_le)
      ultimately show ?thesis by simp
    qed (use that last rs in auto)
  qed
  then show ?thesis
    unfolding e'_def [symmetric] push using ok
    by (auto simp: ranges_for_def sorted_wrt_append range_of_def e'_def)
qed

section \<open>Properties\<close>

text \<open>
  C31. A page of a search without context lines, against the reference list of all matches: the
  total is their number; the page starts at the offset and has at most \<open>limit\<close> entries; it is an
  initial part of that window, or the window's first entry with its line cut; the bytes reported
  are those of the entries returned and stay within the budget; the next offset is given exactly
  when matches remain; and a window that fits the budget is returned whole.
\<close>

theorem grep_page_of_reference:
  assumes "no_context options"
  shows "let r = build_grep_search_result js files is_match options;
             every = all_matches is_match files;
             window = take (go_limit options) (drop (go_offset options) every)
    in gr_total_matches r = length every
     \<and> gr_blocks r = []
     \<and> gr_returned_matches r = length (gr_matches r)
     \<and> ((\<exists>n. gr_matches r = take n window)
        \<or> (\<exists>k. window \<noteq> [] \<and> gr_matches r = [(hd window)\<lparr>gm_line := truncate_utf8 (gm_line (hd window)) k\<rparr>]))
     \<and> gr_bytes_returned r = sum_list (map (serialized_match_len js) (gr_matches r))
     \<and> gr_bytes_returned r \<le> go_max_bytes options
     \<and> gr_next_offset r = (let n = go_offset options + length (gr_matches r) in
                           if n < length every then Some n else None)
     \<and> (gr_bytes_total r \<le> go_max_bytes options \<longrightarrow> gr_matches r = window)"
proof -
  define every where "every = all_matches is_match files"
  define window where "window = take (go_limit options) (drop (go_offset options) every)"
  define f where "f = budget_loop (serialized_match_len js) (truncate_line_to_serialized_size js) (\<lambda>_. 1)
    (go_max_bytes options) window (budget_start 0 0 False)"
  have r: "build_grep_search_result js files is_match options =
    \<lparr>gr_matches = ba_items f, gr_blocks = [], gr_total_matches = length every,
     gr_returned_matches = ba_returned_matches f, gr_bytes_returned = ba_bytes_returned f,
     gr_bytes_total = sum_list (map (serialized_match_len js) window),
     gr_next_offset = (if go_offset options + ba_returned_matches f < length every
                       then Some (go_offset options + ba_returned_matches f) else None),
     gr_byte_truncated = ba_byte_truncated f\<rparr>"
    by (simp add: build_flat [OF assms] apply_grep_byte_budget_def Let_def budget_start_def
        f_def window_def every_def)
  have sums: "ba_bytes_returned f = sum_list (map (serialized_match_len js) (ba_items f))"
    "ba_returned_matches f = length (ba_items f)"
    using budget_loop_sums [of "budget_start 0 0 False" 0 "serialized_match_len js" 0 "\<lambda>_. 1"
        "truncate_line_to_serialized_size js" "go_max_bytes options" window]
    by (simp_all add: budget_start_def f_def sum_list_triv)
  have "(\<exists>n. ba_items f = take n window)
      \<or> (\<exists>k. window \<noteq> [] \<and> ba_items f = [(hd window)\<lparr>gm_line := truncate_utf8 (gm_line (hd window)) k\<rparr>])"
    using budget_loop_items [of "serialized_match_len js" "truncate_line_to_serialized_size js" "\<lambda>_. 1"
        "go_max_bytes options" window "budget_start 0 0 False"]
    by (auto simp: f_def budget_start_def truncate_line_to_serialized_size_def Let_def)
  moreover have "ba_bytes_returned f \<le> go_max_bytes options"
    unfolding f_def by (rule budget_loop_bytes) (simp add: budget_start_def)
  moreover have "sum_list (map (serialized_match_len js) window) \<le> go_max_bytes options \<Longrightarrow> ba_items f = window"
    using budget_loop_all [of "budget_start 0 0 False" "serialized_match_len js" window "go_max_bytes options"]
    by (simp add: f_def budget_start_def)
  ultimately show ?thesis
    unfolding r every_def [symmetric] window_def [symmetric] Let_def by (simp add: sums)
qed

text \<open>A matcher and a size for the examples: lines that start with the letter e, in their length.\<close>

definition demo_size :: json_size where
  "demo_size = \<lparr>js_match = \<lambda>m. length (gm_path m) + length (gm_line m),
                js_block = \<lambda>b. sum_list (map (length \<circ> gl_line) (gb_lines b))\<rparr>"

definition demo_search :: grep_options where
  "demo_search = \<lparr>go_path_pattern = None, go_before_context = 0, go_after_context = 0, go_offset = 0,
     go_limit = 2, go_max_bytes = 40\<rparr>"

definition demo_files :: "(string \<times> string) list" where
  "demo_files = [(''/b'', ''error 1'' @ [CHR 0x0A] @ ''ok''), (''/a'', ''ok'' @ [CHR 0x0A] @ ''error 2'' @ [CHR 0x0A] @ ''error 3'')]"

theorem grep_page_of_reference_witness:
  "map gm_line (gr_matches (build_grep_search_result demo_size demo_files (\<lambda>l. prefix ''e'' l) demo_search))
     = [''error 2'', ''error 3'']
   \<and> gr_next_offset (build_grep_search_result demo_size demo_files (\<lambda>l. prefix ''e'' l) demo_search) = Some 2"
proof -
  have every: "all_matches (\<lambda>l. prefix ''e'' l) demo_files =
    [\<lparr>gm_path = ''/a'', gm_line_number = 2, gm_line = ''error 2''\<rparr>,
     \<lparr>gm_path = ''/a'', gm_line_number = 3, gm_line = ''error 3''\<rparr>,
     \<lparr>gm_path = ''/b'', gm_line_number = 1, gm_line = ''error 1''\<rparr>]" by code_simp
  have "no_context demo_search" by code_simp
  moreover have "gr_bytes_total (build_grep_search_result demo_size demo_files (\<lambda>l. prefix ''e'' l) demo_search) = 20"
    by code_simp
  ultimately show ?thesis
    using grep_page_of_reference [of demo_search demo_size demo_files "\<lambda>l. prefix ''e'' l"]
    by (simp add: every Let_def demo_search_def)
qed

text \<open>A client that follows the next offset until there is none.\<close>

fun read_pages ::
  "json_size \<Rightarrow> (string \<times> string) list \<Rightarrow> (string \<Rightarrow> bool) \<Rightarrow> grep_options \<Rightarrow> nat \<Rightarrow> nat \<Rightarrow> grep_match list option" where
  "read_pages js files is_match options 0 offset = None"
| "read_pages js files is_match options (Suc fuel) offset =
     (let r = build_grep_search_result js files is_match (options\<lparr>go_offset := offset\<rparr>) in
      case gr_next_offset r of
        None \<Rightarrow> Some (gr_matches r)
      | Some nxt \<Rightarrow> map_option ((@) (gr_matches r)) (read_pages js files is_match options fuel nxt))"

lemma grep_page_progress:
  assumes "no_context options" and "0 < go_limit options"
    and fits: "\<forall>m \<in> set (all_matches is_match files). serialized_match_len js m \<le> go_max_bytes options"
  defines "every \<equiv> all_matches is_match files"
  shows "\<exists>n. gr_matches (build_grep_search_result js files is_match options) = take n (drop (go_offset options) every)
    \<and> n \<le> length (drop (go_offset options) every)
    \<and> gr_next_offset (build_grep_search_result js files is_match options)
        = (if go_offset options + n < length every then Some (go_offset options + n) else None)
    \<and> (go_offset options < length every \<longrightarrow> 0 < n)"
proof -
  define window where "window = take (go_limit options) (drop (go_offset options) every)"
  define f where "f = budget_loop (serialized_match_len js) (truncate_line_to_serialized_size js) (\<lambda>_. 1)
    (go_max_bytes options) window (budget_start 0 0 False)"
  have "\<forall>m \<in> set window. serialized_match_len js m \<le> go_max_bytes options"
    using fits by (auto simp: window_def every_def dest!: in_set_takeD in_set_dropD)
  then obtain n where n: "ba_items f = take n window" "window \<noteq> [] \<longrightarrow> 0 < n"
    using budget_loop_fits [of window "serialized_match_len js" "go_max_bytes options" "budget_start 0 0 False"
        "truncate_line_to_serialized_size js" "\<lambda>_. 1"] by (auto simp: f_def budget_start_def)
  have matches: "ba_returned_matches f = length (ba_items f)"
    using budget_loop_sums [of "budget_start 0 0 False" 0 "serialized_match_len js" 0 "\<lambda>_. 1"
        "truncate_line_to_serialized_size js" "go_max_bytes options" window]
    by (simp add: budget_start_def f_def sum_list_triv)
  define k where "k = length (ba_items f)"
  have k: "ba_items f = take k (drop (go_offset options) every)"
    using n(1) by (simp add: k_def window_def min_def)
  have "k \<le> length (drop (go_offset options) every)" using n(1) by (simp add: k_def window_def)
  moreover have "go_offset options < length every \<longrightarrow> 0 < k"
    using n assms(2) by (auto simp: k_def window_def)
  moreover have "gr_matches (build_grep_search_result js files is_match options) = ba_items f"
    "gr_next_offset (build_grep_search_result js files is_match options)
      = (if go_offset options + k < length every then Some (go_offset options + k) else None)"
    using matches by (simp_all add: build_flat [OF assms(1)] apply_grep_byte_budget_def Let_def
        budget_start_def f_def window_def every_def k_def)
  ultimately show ?thesis using k by metis
qed

text \<open>
  Reading page after page ends and loses nothing: when the limit is positive and every entry
  fits a page on its own, a client that starts at an offset and follows the next offset gets
  every match from there on, each once and in order, within one page more than there are matches.
\<close>

theorem grep_pages_complete:
  assumes "no_context options" and "0 < go_limit options"
    and "\<forall>m \<in> set (all_matches is_match files). serialized_match_len js m \<le> go_max_bytes options"
    and "length (all_matches is_match files) - offset < fuel"
  shows "read_pages js files is_match options fuel offset = Some (drop offset (all_matches is_match files))"
  using assms(4)
proof (induction fuel arbitrary: offset)
  case (Suc fuel)
  define every where "every = all_matches is_match files"
  have opts: "no_context (options\<lparr>go_offset := offset\<rparr>)" "0 < go_limit (options\<lparr>go_offset := offset\<rparr>)"
    "\<forall>m \<in> set every. serialized_match_len js m \<le> go_max_bytes (options\<lparr>go_offset := offset\<rparr>)"
    using assms(1-3) by (simp_all add: no_context_def every_def)
  obtain n where n: "gr_matches (build_grep_search_result js files is_match (options\<lparr>go_offset := offset\<rparr>))
        = take n (drop offset every)" "n \<le> length (drop offset every)"
    "gr_next_offset (build_grep_search_result js files is_match (options\<lparr>go_offset := offset\<rparr>))
        = (if offset + n < length every then Some (offset + n) else None)"
    "offset < length every \<longrightarrow> 0 < n"
    using grep_page_progress [OF opts [unfolded every_def]] by (auto simp: every_def)
  show ?case
  proof (cases "offset + n < length every")
    case True
    with n(4) Suc.prems have "length every - (offset + n) < fuel" by (auto simp: every_def)
    from Suc.IH [OF this [unfolded every_def]] True n show ?thesis
      by (simp add: Let_def every_def add.commute flip: drop_drop)
  next
    case False
    with n show ?thesis by (simp add: Let_def every_def)
  qed
qed simp

theorem grep_pages_complete_witness:
  "map_option (map gm_line) (read_pages demo_size demo_files (\<lambda>l. prefix ''e'' l) demo_search 4 0)
     = Some [''error 2'', ''error 3'', ''error 1'']"
proof -
  have every: "all_matches (\<lambda>l. prefix ''e'' l) demo_files =
    [\<lparr>gm_path = ''/a'', gm_line_number = 2, gm_line = ''error 2''\<rparr>,
     \<lparr>gm_path = ''/a'', gm_line_number = 3, gm_line = ''error 3''\<rparr>,
     \<lparr>gm_path = ''/b'', gm_line_number = 1, gm_line = ''error 1''\<rparr>]" by code_simp
  have "read_pages demo_size demo_files (\<lambda>l. prefix ''e'' l) demo_search 4 0
      = Some (drop 0 (all_matches (\<lambda>l. prefix ''e'' l) demo_files))"
    by (rule grep_pages_complete)
      (simp_all add: every demo_search_def demo_size_def no_context_def serialized_match_len_def)
  then show ?thesis by (simp add: every)
qed

text \<open>
  Context windows are merged exactly: for matches in increasing order inside a file of \<open>n\<close>
  lines, the ranges the search builds carry every match once and in order, span from the first
  window of their matches to the last one, are more than one line apart from each other, and cover
  the union of the windows of all matches and no other line.
\<close>

theorem context_ranges_merge:
  assumes "sorted_wrt (<) selected" and "\<forall>i \<in> set selected. i < n"
  shows "ranges_for before after n selected (context_ranges before after n selected)"
  using assms
proof (induction selected rule: rev_induct)
  case Nil
  then show ?case by (simp add: context_ranges_def ranges_for_def)
next
  case (snoc i selected)
  then show ?case
    using push_range_ok [of before after n selected "context_ranges before after n selected" i]
    by (simp add: context_ranges_def sorted_wrt_append)
qed

theorem context_ranges_merge_witness:
  "context_ranges 1 2 20 [0, 4, 12] = [(0, 6, [0, 4]), (11, 14, [12])]
   \<and> ranges_for 1 2 20 [0, 4, 12] [(0, 6, [0, 4]), (11, 14, [12])]"
proof -
  have eval: "context_ranges 1 2 20 [0, 4, 12] = [(0, 6, [0, 4]), (11, 14, [12])]" by code_simp
  have "ranges_for 1 2 20 [0, 4, 12] (context_ranges 1 2 20 [0, 4, 12])"
    by (rule context_ranges_merge) auto
  then show ?thesis by (simp only: eval simp_thms)
qed

end
