(* ===== verification/Workspace_Policy.thy ===== *)
theory Workspace_Policy
  imports Session_Path
begin

text \<open>
  Access to the workspace of a session (\<open>crates/core/src/workspace_policy.rs\<close>): policies of layers of
  scopes, their builder, and the checks of reads, writes and traversals. A path is the list of its
  components, and a scope covers a path when it is a prefix of it. Errors are values of a datatype with
  what their texts name.
\<close>

section \<open>Paths\<close>

type_synonym policy_path = "string list"

datatype workspace_policy_error =
    NulByte string
  | ForwardSlashesOnly string
  | PathTraversal string
  | ReadDenied string
  | WriteDenied string
  | EmptyScope string string
  | InvalidScope string string workspace_policy_error
  | InvalidComponent string string

definition SENSITIVE_COMPONENTS :: "string list" where
  "SENSITIVE_COMPONENTS =
     [''.aws'', ''.azure'', ''.docker'', ''.git'', ''.git-credentials'', ''.gnupg'', ''.kube'', ''.netrc'', ''.npmrc'',
      ''.pypirc'', ''.ssh'', ''credentials'', ''credentials.json'', ''gcloud'']"

definition DEFAULT_WRITE_DENY_COMPONENTS :: "string list" where
  "DEFAULT_WRITE_DENY_COMPONENTS =
     [''node_modules'', ''target'', ''dist'', ''build'', ''.next'', ''.venv'', ''venv'', ''.tox'', ''.gradle'']"

fun policy_components :: "string \<Rightarrow> string list \<Rightarrow> workspace_policy_error + policy_path" where
  "policy_components input [] = Inr []"
| "policy_components input (component # rest) =
     (if component = [] \<or> component = ''.'' then policy_components input rest
      else if component = ''..'' then Inl (PathTraversal input)
      else map_sum id ((#) component) (policy_components input rest))"

definition policy_path_parse :: "string \<Rightarrow> workspace_policy_error + policy_path" where
  "policy_path_parse input =
     (let trimmed = trim input in
      if CHR 0x00 \<in> set trimmed then Inl (NulByte input)
      else if CHR 0x5C \<in> set trimmed then Inl (ForwardSlashesOnly input)
      else policy_components input
             (split_text CHR ''/'' (trim_start_matches CHR ''/'' (to_session_path trimmed))))"

definition policy_root :: policy_path where "policy_root = []"

definition path_contains :: "policy_path \<Rightarrow> policy_path \<Rightarrow> bool" where
  "path_contains scope candidate = prefix scope candidate"

definition eq_ignore_ascii_case :: "string \<Rightarrow> string \<Rightarrow> bool" where
  "eq_ignore_ascii_case a b \<longleftrightarrow> to_ascii_lowercase a = to_ascii_lowercase b"

definition contains_ignoring_ascii_case :: "policy_path \<Rightarrow> policy_path \<Rightarrow> bool" where
  "contains_ignoring_ascii_case scope candidate \<longleftrightarrow>
     length scope \<le> length candidate \<and> list_all (\<lambda>(a, b). eq_ignore_ascii_case a b) (zip scope candidate)"

definition has_hidden_component :: "policy_path \<Rightarrow> bool" where
  "has_hidden_component path \<longleftrightarrow> list_ex (prefix ''.'') path"

definition has_any_component :: "string list \<Rightarrow> policy_path \<Rightarrow> bool" where
  "has_any_component denied path \<longleftrightarrow> list_ex (\<lambda>component. list_ex (\<lambda>d. eq_ignore_ascii_case d component) denied) path"

definition is_sensitive :: "string \<Rightarrow> bool" where
  "is_sensitive component \<longleftrightarrow>
     (let lower = to_ascii_lowercase component in
      lower = ''.env'' \<or> prefix ''.env.'' lower \<or> lower \<in> set SENSITIVE_COMPONENTS)"

definition has_sensitive_component :: "policy_path \<Rightarrow> bool" where
  "has_sensitive_component path \<longleftrightarrow> list_ex is_sensitive path"

definition policy_display :: "policy_path \<Rightarrow> string" where
  "policy_display path = (if path = [] then ''/workspace'' else ''/workspace/'' @ join_text ''/'' path)"

section \<open>Layers\<close>

record policy_layer =
  pl_read :: "policy_path list"
  pl_write :: "policy_path list"
  pl_deny_read :: "policy_path list"
  pl_deny_write :: "policy_path list"
  pl_deny_write_components :: "string list"
  pl_hidden :: "policy_path list"
  pl_sensitive :: "policy_path list"
  pl_recursive_delete :: bool

definition permits_protected_components :: "policy_layer \<Rightarrow> policy_path \<Rightarrow> bool" where
  "permits_protected_components l path \<longleftrightarrow>
     (if list_ex (\<lambda>scope. path_contains scope path) (pl_sensitive l) then True
      else if has_sensitive_component path then False
      else \<not> has_hidden_component path \<or> list_ex (\<lambda>scope. path_contains scope path) (pl_hidden l))"

definition permits_protected_traversal :: "policy_layer \<Rightarrow> policy_path \<Rightarrow> bool" where
  "permits_protected_traversal l path \<longleftrightarrow>
     (if has_sensitive_component path
      then list_ex (\<lambda>scope. path_contains scope path \<or> path_contains path scope) (pl_sensitive l)
      else \<not> has_hidden_component path
           \<or> list_ex (\<lambda>scope. path_contains scope path \<or> path_contains path scope) (pl_hidden l))"

definition layer_permits_read :: "policy_layer \<Rightarrow> policy_path \<Rightarrow> bool" where
  "layer_permits_read l path \<longleftrightarrow>
     list_ex (\<lambda>scope. path_contains scope path) (pl_read l)
     \<and> \<not> list_ex (\<lambda>scope. contains_ignoring_ascii_case scope path) (pl_deny_read l)
     \<and> permits_protected_components l path"

definition layer_permits_traversal :: "policy_layer \<Rightarrow> policy_path \<Rightarrow> bool" where
  "layer_permits_traversal l path \<longleftrightarrow>
     list_ex (\<lambda>scope. path_contains scope path \<or> path_contains path scope) (pl_read l)
     \<and> \<not> list_ex (\<lambda>scope. contains_ignoring_ascii_case scope path) (pl_deny_read l)
     \<and> permits_protected_traversal l path"

definition layer_permits_write :: "policy_layer \<Rightarrow> policy_path \<Rightarrow> bool" where
  "layer_permits_write l path \<longleftrightarrow>
     list_ex (\<lambda>scope. path_contains scope path) (pl_write l)
     \<and> \<not> list_ex (\<lambda>scope. contains_ignoring_ascii_case scope path) (pl_deny_write l)
     \<and> \<not> has_any_component (pl_deny_write_components l) path
     \<and> permits_protected_components l path"

section \<open>Policies\<close>

type_synonym workspace_policy = "policy_layer list"

definition policy_read_only :: workspace_policy where
  "policy_read_only =
     [\<lparr>pl_read = [policy_root], pl_write = [], pl_deny_read = [], pl_deny_write = [], pl_deny_write_components = [],
       pl_hidden = [[''.agents'']], pl_sensitive = [], pl_recursive_delete = False\<rparr>]"

definition policy_read_write :: workspace_policy where
  "policy_read_write =
     [\<lparr>pl_read = [policy_root], pl_write = [policy_root], pl_deny_read = [], pl_deny_write = [[''.agents'']],
       pl_deny_write_components = DEFAULT_WRITE_DENY_COMPONENTS, pl_hidden = [[''.agents'']], pl_sensitive = [],
       pl_recursive_delete = False\<rparr>]"

definition policy_compose :: "workspace_policy \<Rightarrow> workspace_policy \<Rightarrow> workspace_policy" where
  "policy_compose policy additional = policy @ additional"

definition permits_read :: "workspace_policy \<Rightarrow> string \<Rightarrow> bool" where
  "permits_read policy path =
     (case policy_path_parse path of Inl _ \<Rightarrow> False | Inr p \<Rightarrow> list_all (\<lambda>l. layer_permits_read l p) policy)"

definition permits_write :: "workspace_policy \<Rightarrow> string \<Rightarrow> bool" where
  "permits_write policy path =
     (case policy_path_parse path of Inl _ \<Rightarrow> False | Inr p \<Rightarrow> list_all (\<lambda>l. layer_permits_write l p) policy)"

definition permits_read_traversal :: "workspace_policy \<Rightarrow> string \<Rightarrow> bool" where
  "permits_read_traversal policy path =
     (case policy_path_parse path of Inl _ \<Rightarrow> False | Inr p \<Rightarrow> list_all (\<lambda>l. layer_permits_traversal l p) policy)"

definition policy_validate_path :: "string \<Rightarrow> workspace_policy_error + unit" where
  "policy_validate_path path = map_sum id (\<lambda>_. ()) (policy_path_parse path)"

definition policy_check_read :: "workspace_policy \<Rightarrow> string \<Rightarrow> workspace_policy_error + unit" where
  "policy_check_read policy path =
     (case policy_path_parse path of
        Inl e \<Rightarrow> Inl e
      | Inr p \<Rightarrow> if list_all (\<lambda>l. layer_permits_read l p) policy then Inr () else Inl (ReadDenied (policy_display p)))"

definition policy_check_write :: "workspace_policy \<Rightarrow> string \<Rightarrow> workspace_policy_error + unit" where
  "policy_check_write policy path =
     (case policy_path_parse path of
        Inl e \<Rightarrow> Inl e
      | Inr p \<Rightarrow> if list_all (\<lambda>l. layer_permits_write l p) policy then Inr () else Inl (WriteDenied (policy_display p)))"

definition permits_recursive_delete :: "workspace_policy \<Rightarrow> bool" where
  "permits_recursive_delete policy = list_all pl_recursive_delete policy"

section \<open>The builder\<close>

record policy_builder =
  pb_read :: "string list"
  pb_write :: "string list"
  pb_deny_read :: "string list"
  pb_deny_write :: "string list"
  pb_deny_write_components :: "string list"
  pb_hidden :: "string list"
  pb_sensitive :: "string list"
  pb_recursive_delete :: bool

definition policy_builder_new :: policy_builder where
  "policy_builder_new =
     \<lparr>pb_read = [], pb_write = [], pb_deny_read = [], pb_deny_write = [], pb_deny_write_components = [], pb_hidden = [],
      pb_sensitive = [], pb_recursive_delete = False\<rparr>"

definition allow_read :: "string \<Rightarrow> policy_builder \<Rightarrow> policy_builder" where
  "allow_read path b = b\<lparr>pb_read := pb_read b @ [path]\<rparr>"

definition allow_write :: "string \<Rightarrow> policy_builder \<Rightarrow> policy_builder" where
  "allow_write path b = b\<lparr>pb_write := pb_write b @ [path]\<rparr>"

definition deny_read :: "string \<Rightarrow> policy_builder \<Rightarrow> policy_builder" where
  "deny_read path b = b\<lparr>pb_deny_read := pb_deny_read b @ [path]\<rparr>"

definition deny_write :: "string \<Rightarrow> policy_builder \<Rightarrow> policy_builder" where
  "deny_write path b = b\<lparr>pb_deny_write := pb_deny_write b @ [path]\<rparr>"

definition deny_write_component :: "string \<Rightarrow> policy_builder \<Rightarrow> policy_builder" where
  "deny_write_component component b = b\<lparr>pb_deny_write_components := pb_deny_write_components b @ [component]\<rparr>"

definition allow_hidden :: "string \<Rightarrow> policy_builder \<Rightarrow> policy_builder" where
  "allow_hidden path b = b\<lparr>pb_hidden := pb_hidden b @ [path]\<rparr>"

definition allow_sensitive :: "string \<Rightarrow> policy_builder \<Rightarrow> policy_builder" where
  "allow_sensitive path b = b\<lparr>pb_sensitive := pb_sensitive b @ [path]\<rparr>"

definition allow_recursive_delete :: "bool \<Rightarrow> policy_builder \<Rightarrow> policy_builder" where
  "allow_recursive_delete allow b = b\<lparr>pb_recursive_delete := allow\<rparr>"

definition parse_scope :: "string \<Rightarrow> string \<Rightarrow> workspace_policy_error + policy_path" where
  "parse_scope kind path =
     (if trim path = [] then Inl (EmptyScope kind path)
      else map_sum (InvalidScope kind path) id (policy_path_parse path))"

definition parse_paths :: "string \<Rightarrow> string list \<Rightarrow> workspace_policy_error + policy_path list" where
  "parse_paths kind paths = collect_results (map (parse_scope kind) paths)"

definition parse_component :: "string \<Rightarrow> string \<Rightarrow> workspace_policy_error + string" where
  "parse_component kind component =
     (let trimmed = trim component in
      if trimmed = [] \<or> trimmed = ''.'' \<or> trimmed = ''..'' \<or> list_ex (\<lambda>c. c = CHR ''/'' \<or> c = CHR 0x5C \<or> c = CHR 0x00) trimmed
      then Inl (InvalidComponent kind component)
      else Inr (to_ascii_lowercase trimmed))"

definition parse_components :: "string \<Rightarrow> string list \<Rightarrow> workspace_policy_error + string list" where
  "parse_components kind components = collect_results (map (parse_component kind) components)"

definition policy_build :: "policy_builder \<Rightarrow> workspace_policy_error + workspace_policy" where
  "policy_build b =
     bind_result (parse_paths ''read allow'' (pb_read b)) (\<lambda>read.
     bind_result (parse_paths ''write allow'' (pb_write b)) (\<lambda>write.
     bind_result (parse_paths ''read deny'' (pb_deny_read b)) (\<lambda>deny_read.
     bind_result (parse_paths ''write deny'' (pb_deny_write b)) (\<lambda>deny_write.
     bind_result (parse_components ''write deny component'' (pb_deny_write_components b)) (\<lambda>components.
     bind_result (parse_paths ''hidden allow'' (pb_hidden b)) (\<lambda>hidden.
     bind_result (parse_paths ''sensitive allow'' (pb_sensitive b)) (\<lambda>sensitive.
     Inr [\<lparr>pl_read = read, pl_write = write, pl_deny_read = deny_read, pl_deny_write = deny_write,
           pl_deny_write_components = components, pl_hidden = hidden, pl_sensitive = sensitive,
           pl_recursive_delete = pb_recursive_delete b\<rparr>])))))))"

section \<open>What is parsed\<close>

lemma policy_components_eq:
  "policy_components input gs =
     (if ''..'' \<in> set gs then Inl (PathTraversal input) else Inr (filter (\<lambda>g. g \<noteq> [] \<and> g \<noteq> ''.'') gs))"
  by (induction gs) auto

lemma split_canonical_path:
  assumes "\<forall>g \<in> set gs. seg_ok g"
  shows "filter (\<lambda>g. g \<noteq> []) (split_text CHR ''/'' (trim_start_matches CHR ''/'' (path_of gs))) = gs"
proof (cases "gs = []")
  case True
  then show ?thesis by (simp add: path_of_def trim_start_matches_def)
next
  case False
  then show ?thesis
    using split_canonical(1) [OF assms False] assms by (auto simp: path_of_def seg_ok_def filter_id_conv)
qed

text \<open>A path is parsed into the segments of its canonical form without the dots; only the syntax of the input can fail.\<close>

lemma policy_path_parse_eq:
  "policy_path_parse input =
     (if CHR 0x00 \<in> set (trim input) then Inl (NulByte input)
      else if CHR 0x5C \<in> set (trim input) then Inl (ForwardSlashesOnly input)
      else if ''..'' \<in> set (dealias (trim input)) then Inl (PathTraversal input)
      else Inr (filter (\<lambda>g. g \<noteq> ''.'') (dealias (trim input))))"
proof -
  let ?gs = "dealias (trim input)"
  let ?parts = "split_text CHR ''/'' (trim_start_matches CHR ''/'' (to_session_path (trim input)))"
  have parts: "filter (\<lambda>g. g \<noteq> []) ?parts = ?gs"
    using split_canonical_path [of ?gs] dealias_ok by (simp add: to_session_path_segs)
  have "''..'' \<in> set ?parts \<longleftrightarrow> ''..'' \<in> set ?gs" by (subst parts [symmetric]) simp
  moreover have "filter (\<lambda>g. g \<noteq> [] \<and> g \<noteq> ''.'') ?parts = filter (\<lambda>g. g \<noteq> ''.'') ?gs"
    by (subst parts [symmetric]) (simp add: conj_commute)
  ultimately show ?thesis by (simp add: policy_path_parse_def policy_components_eq Let_def)
qed

lemma policy_path_parse_Inr:
  "policy_path_parse input = Inr gs \<Longrightarrow> gs = filter (\<lambda>g. g \<noteq> ''.'') (dealias (trim input)) \<and> ''..'' \<notin> set (dealias (trim input))"
  by (simp add: policy_path_parse_eq split: if_splits)

lemmas policy_permits = permits_read_def permits_write_def permits_read_traversal_def

lemma check_read_iff: "policy_check_read policy path = Inr () \<longleftrightarrow> permits_read policy path"
  by (auto simp: policy_check_read_def permits_read_def split: sum.split)

lemma check_write_iff: "policy_check_write policy path = Inr () \<longleftrightarrow> permits_write policy path"
  by (auto simp: policy_check_write_def permits_write_def split: sum.split)

section \<open>Scopes\<close>

lemma case_contains_iff:
  "contains_ignoring_ascii_case scope path
    \<longleftrightarrow> prefix (map to_ascii_lowercase scope) (map to_ascii_lowercase path)"
proof (induction scope arbitrary: path)
  case (Cons s scope)
  then show ?case by (cases path) (auto simp: contains_ignoring_ascii_case_def eq_ignore_ascii_case_def)
qed (simp add: contains_ignoring_ascii_case_def)

lemma case_contains_below:
  "contains_ignoring_ascii_case scope q \<Longrightarrow> prefix q p \<Longrightarrow> contains_ignoring_ascii_case scope p"
  by (metis case_contains_iff map_mono_prefix prefix_order.trans)

lemma prefix_list_ex: "prefix q p \<Longrightarrow> list_ex P q \<Longrightarrow> list_ex P p"
  by (auto simp: prefix_def)

lemma comparable: "prefix s p \<Longrightarrow> prefix q p \<Longrightarrow> prefix s q \<or> prefix q s"
  using prefix_same_cases by blast

text \<open>A scope may be traversed on the way to a path below it.\<close>

lemma traversal_above:
  assumes read: "layer_permits_read l p" and above: "prefix q p"
    and scope: "pl_sensitive l = [] \<or> \<not> has_hidden_component q \<or> has_sensitive_component q"
  shows "layer_permits_traversal l q"
proof -
  have scopes: "list_ex (\<lambda>s. path_contains s q \<or> path_contains q s) ss"
    if "list_ex (\<lambda>s. path_contains s p) ss" for ss
    using that comparable [OF _ above] by (auto simp: list_ex_iff path_contains_def)
  have "\<not> list_ex (\<lambda>s. contains_ignoring_ascii_case s q) (pl_deny_read l)"
    using read case_contains_below [OF _ above] by (auto simp: layer_permits_read_def list_ex_iff)
  moreover have "permits_protected_traversal l q"
    using read scope scopes prefix_list_ex [OF above]
    by (auto simp: layer_permits_read_def permits_protected_components_def permits_protected_traversal_def
        has_sensitive_component_def has_hidden_component_def split: if_splits)
  ultimately show ?thesis using read scopes by (simp add: layer_permits_read_def layer_permits_traversal_def)
qed

lemma sensitive_case: "map to_ascii_lowercase p = map to_ascii_lowercase q \<Longrightarrow> has_sensitive_component p = has_sensitive_component q"
proof -
  have "has_sensitive_component p \<longleftrightarrow> list_ex is_sensitive (map to_ascii_lowercase p)" for p
    by (simp add: has_sensitive_component_def is_sensitive_def list_ex_iff Let_def)
  then show "map to_ascii_lowercase p = map to_ascii_lowercase q \<Longrightarrow> ?thesis" by simp
qed

lemma any_component_iff:
  "has_any_component denied p \<longleftrightarrow> (\<exists>d \<in> set denied. to_ascii_lowercase d \<in> set (map to_ascii_lowercase p))"
  by (auto simp: has_any_component_def eq_ignore_ascii_case_def list_ex_iff image_iff)

lemma compose_permits:
  "permits_read (policy_compose a b) p \<longleftrightarrow> permits_read a p \<and> permits_read b p"
  "permits_write (policy_compose a b) p \<longleftrightarrow> permits_write a p \<and> permits_write b p"
  "permits_recursive_delete (policy_compose a b) \<longleftrightarrow> permits_recursive_delete a \<and> permits_recursive_delete b"
  by (auto simp: policy_compose_def policy_permits permits_recursive_delete_def split: sum.split)

text \<open>
  The policies without opt-ins: nothing is written below hidden, sensitive, dependency or build names,
  in whatever case they are spelled, and the read-only one permits no write at all.
\<close>

lemma read_write_protects:
  assumes "permits_write policy_read_write p"
  shows "\<exists>gs. policy_path_parse p = Inr gs \<and> \<not> has_hidden_component gs \<and> \<not> has_sensitive_component gs
    \<and> (\<forall>d \<in> set DEFAULT_WRITE_DENY_COMPONENTS. d \<notin> set (map to_ascii_lowercase gs))"
proof -
  obtain gs where gs: "policy_path_parse p = Inr gs" using assms by (auto simp: permits_write_def split: sum.splits)
  have lower: "to_ascii_lowercase d = d" if "d \<in> set DEFAULT_WRITE_DENY_COMPONENTS" for d
    using that by (auto simp: DEFAULT_WRITE_DENY_COMPONENTS_def to_ascii_lowercase_def lower_char_def Let_def)
  have "prefix [''.agents''] gs \<Longrightarrow> contains_ignoring_ascii_case [''.agents''] gs"
    by (simp add: case_contains_iff) (metis list.simps(8,9) map_mono_prefix)
  then show ?thesis
    using assms gs lower
    by (auto simp: permits_write_def policy_read_write_def layer_permits_write_def permits_protected_components_def
        any_component_iff path_contains_def split: if_splits)
qed

lemma read_only_writes_nothing: "\<not> permits_write policy_read_only p"
  by (simp add: permits_write_def policy_read_only_def layer_permits_write_def split: sum.split)

text \<open>
  \<open>allow_sensitive\<close> is documented to permit hidden components within its scope as well. A read below such a
  scope is permitted, but the traversal check of its directory looks for hidden scopes only, so the
  directory is not listed and the readable file cannot be found.
\<close>

lemma sensitive_scope_not_traversed:
  assumes "policy_build (allow_sensitive ''.vault'' (allow_read ''/'' policy_builder_new)) = Inr policy"
  shows "permits_read policy ''/.vault/key''" and "\<not> permits_read_traversal policy ''/.vault''"
proof -
  have parse: "policy_path_parse ''.vault'' = Inr [''.vault'']" "policy_path_parse ''/'' = Inr []"
    "policy_path_parse ''/.vault/key'' = Inr [''.vault'', ''key'']" "policy_path_parse ''/.vault'' = Inr [''.vault'']"
    by code_simp+
  have "trim ''.vault'' \<noteq> []" "trim ''/'' \<noteq> []" by code_simp+
  with assms have policy: "policy = [\<lparr>pl_read = [[]], pl_write = [], pl_deny_read = [], pl_deny_write = [],
      pl_deny_write_components = [], pl_hidden = [], pl_sensitive = [[''.vault'']], pl_recursive_delete = False\<rparr>]"
    by (simp add: policy_build_def allow_sensitive_def allow_read_def policy_builder_new_def parse_paths_def
        parse_components_def parse_scope_def parse bind_result_def)
  show "permits_read policy ''/.vault/key''"
    by (simp add: permits_read_def parse policy layer_permits_read_def permits_protected_components_def path_contains_def)
  show "\<not> permits_read_traversal policy ''/.vault''"
    by (simp add: permits_read_traversal_def parse policy layer_permits_traversal_def permits_protected_traversal_def
        has_sensitive_component_def is_sensitive_def has_hidden_component_def SENSITIVE_COMPONENTS_def
        to_ascii_lowercase_def lower_char_def Let_def)
qed

section \<open>Properties\<close>

text \<open>
  C17. Denies win in every spelling. When a policy permits a write, then in each of its layers the path,
  and every path that differs from it in the case of letters only, is outside every denied scope and
  without a denied component, and if a component is sensitive the path is in a scope that opts in to
  it; adding a layer never permits more.
\<close>

theorem policy_denies_win:
  assumes "permits_write (policy_compose policy additional) path" and "policy_path_parse path = Inr gs"
    and "map to_ascii_lowercase hs = map to_ascii_lowercase gs" and "l \<in> set policy \<union> set additional"
  shows "permits_write policy path \<and> permits_write additional path
    \<and> \<not> (\<exists>scope \<in> set (pl_deny_write l). prefix scope hs)
    \<and> \<not> (\<exists>d \<in> set (pl_deny_write_components l). d \<in> set hs)
    \<and> (has_sensitive_component hs = has_sensitive_component gs
       \<and> (has_sensitive_component gs \<longrightarrow> (\<exists>scope \<in> set (pl_sensitive l). prefix scope gs)))"
proof -
  have both: "permits_write policy path" "permits_write additional path" using assms(1) by (simp_all add: compose_permits)
  then have l: "layer_permits_write l gs" using assms(2,4) by (auto simp: permits_write_def list_all_iff)
  have "\<not> prefix scope hs" if "scope \<in> set (pl_deny_write l)" for scope
  proof
    assume "prefix scope hs"
    then have "contains_ignoring_ascii_case scope gs"
      using assms(3) map_mono_prefix [of scope hs to_ascii_lowercase] by (simp add: case_contains_iff)
    with l that show False by (auto simp: layer_permits_write_def list_ex_iff)
  qed
  moreover have "d \<notin> set hs" if "d \<in> set (pl_deny_write_components l)" for d
  proof
    assume "d \<in> set hs"
    then have "to_ascii_lowercase d \<in> set (map to_ascii_lowercase gs)" unfolding assms(3) [symmetric] by simp
    with l that show False by (auto simp: layer_permits_write_def any_component_iff)
  qed
  moreover have "has_sensitive_component gs \<Longrightarrow> \<exists>scope \<in> set (pl_sensitive l). prefix scope gs"
    using l by (auto simp: layer_permits_write_def permits_protected_components_def path_contains_def list_ex_iff split: if_splits)
  ultimately show ?thesis using both sensitive_case [OF assms(3)] by blast
qed

theorem policy_denies_win_witness:
  "\<not> (\<exists>scope \<in> set (pl_deny_write (hd policy_read_write)). prefix scope [''SRC'', ''Main.rs''])"
proof -
  have "policy_path_parse ''/workspace/src/main.rs'' = Inr [''src'', ''main.rs'']" by code_simp
  moreover have "permits_write (policy_compose policy_read_write []) ''/workspace/src/main.rs''" by code_simp
  moreover have "map to_ascii_lowercase [''SRC'', ''Main.rs''] = map to_ascii_lowercase [''src'', ''main.rs'']" by code_simp
  ultimately show ?thesis
    using policy_denies_win [of policy_read_write "[]" "''/workspace/src/main.rs''" "[''src'', ''main.rs'']"
        "[''SRC'', ''Main.rs'']" "hd policy_read_write"]
    by (simp add: policy_read_write_def)
qed

text \<open>
  What a policy lets a session read it also lets it find: every directory above a readable path may be
  traversed, in policies that opt in to no sensitive scope.
\<close>

theorem readable_reachable:
  assumes "permits_read policy path" and "policy_path_parse path = Inr gs" and "policy_path_parse dir = Inr hs"
    and "prefix hs gs" and "\<forall>l \<in> set policy. pl_sensitive l = []"
  shows "permits_read_traversal policy dir"
  using assms traversal_above [OF _ assms(4)] by (auto simp: policy_permits list_all_iff)

end
