(* ===== verification/File_Store.thy ===== *)
theory File_Store
  imports Grep Workspace_Policy
begin

text \<open>
  The session files of an embedded host (\<open>crates/host/src/in_memory.rs\<close>, \<open>grep_limits.rs\<close>) with the
  file types of \<open>crates/core/src/session_file.rs\<close>, and the key/value and secret storage beside them.
  The table of files maps a session and a normalised path to an entry. An operation is one step; the
  ids it mints (\<open>Uuid::now_v7\<close>) and its clock are arguments. The regular expression engine is a
  parameter.
\<close>

section \<open>Files\<close>

record file_info =
  fi_id :: uuid
  fi_session_id :: uuid
  fi_path :: string
  fi_name :: string
  fi_is_directory :: bool
  fi_is_readonly :: bool
  fi_size_bytes :: int
  fi_created_at :: timestamp
  fi_updated_at :: timestamp

record session_file =
  sf_id :: uuid
  sf_session_id :: uuid
  sf_path :: string
  sf_name :: string
  sf_content :: "string option"
  sf_encoding :: string
  sf_is_directory :: bool
  sf_is_readonly :: bool
  sf_size_bytes :: int
  sf_created_at :: timestamp
  sf_updated_at :: timestamp

record initial_file =
  if_path :: string
  if_content :: string
  if_encoding :: string
  if_is_readonly :: bool

record file_stat =
  fst_path :: string
  fst_name :: string
  fst_is_directory :: bool
  fst_is_readonly :: bool
  fst_size_bytes :: int
  fst_created_at :: timestamp
  fst_updated_at :: timestamp

definition name_from_path :: "string \<Rightarrow> string" where
  "name_from_path path = (if path = ''/'' then ''/'' else last (split_text CHR ''/'' path))"

definition parent_path :: "string \<Rightarrow> string option" where
  "parent_path path =
     (if path = ''/'' then None
      else let parent = (if CHR ''/'' \<in> set path
                         then join_text ''/'' (butlast (split_text CHR ''/'' path)) else ''/'')
           in Some (if parent = [] then ''/'' else parent))"

datatype fs_error =
    ReadOnlyFile string
  | DirectoryNotFound string
  | PatternTooLong
  | InvalidRegex
  | PathPatternTooLong
  | InvalidPathPattern string
  | ScanTooLarge
  | TraversalRejected string
  | GrepContextUnsupported
  | ReadOnlySeedUnsupported
  | PolicyDenied workspace_policy_error
  | RecursiveDeleteDenied string
  | PolicyWalkTooLarge
  | WriteBlocked string string
  | UserDenied string

section \<open>The store\<close>

type_synonym file_store = "(uuid \<times> string, session_file) hmap"

definition file_store_new :: file_store where "file_store_new = []"

definition normalize_path :: "string \<Rightarrow> string" where
  "normalize_path path = to_session_path path"

definition root_directory :: "timestamp \<Rightarrow> uuid \<Rightarrow> session_file" where
  "root_directory now sid =
     \<lparr>sf_id = 0, sf_session_id = sid, sf_path = ''/'', sf_name = ''/'', sf_content = None,
      sf_encoding = ''text'', sf_is_directory = True, sf_is_readonly = False, sf_size_bytes = 0,
      sf_created_at = now, sf_updated_at = now\<rparr>"

definition info_of_file :: "session_file \<Rightarrow> file_info" where
  "info_of_file f =
     \<lparr>fi_id = sf_id f, fi_session_id = sf_session_id f, fi_path = sf_path f, fi_name = sf_name f,
      fi_is_directory = sf_is_directory f, fi_is_readonly = sf_is_readonly f,
      fi_size_bytes = sf_size_bytes f, fi_created_at = sf_created_at f, fi_updated_at = sf_updated_at f\<rparr>"

definition stat_of_file :: "session_file \<Rightarrow> file_stat" where
  "stat_of_file f =
     \<lparr>fst_path = sf_path f, fst_name = sf_name f, fst_is_directory = sf_is_directory f,
      fst_is_readonly = sf_is_readonly f, fst_size_bytes = sf_size_bytes f,
      fst_created_at = sf_created_at f, fst_updated_at = sf_updated_at f\<rparr>"

text \<open>What an operation takes from its surroundings: the id of an entry it creates, and the time.\<close>

record fs_env =
  en_mint :: "string \<Rightarrow> uuid"
  en_now :: timestamp

definition new_directory :: "fs_env \<Rightarrow> uuid \<Rightarrow> string \<Rightarrow> session_file" where
  "new_directory env sid path =
     \<lparr>sf_id = en_mint env path, sf_session_id = sid, sf_path = path, sf_name = name_from_path path,
      sf_content = None, sf_encoding = ''text'', sf_is_directory = True, sf_is_readonly = False,
      sf_size_bytes = 0, sf_created_at = en_now env, sf_updated_at = en_now env\<rparr>"

definition insert_directory_if_missing :: "fs_env \<Rightarrow> uuid \<Rightarrow> string \<Rightarrow> file_store \<Rightarrow> file_store" where
  "insert_directory_if_missing env sid path files =
     (let path = normalize_path path in
      if path = ''/'' then files
      else case hm_get files (sid, path) of
             Some _ \<Rightarrow> files
           | None \<Rightarrow> hm_insert (sid, path) (new_directory env sid path) files)"

fun parent_loop :: "fs_env \<Rightarrow> uuid \<Rightarrow> string \<Rightarrow> string list \<Rightarrow> string \<Rightarrow> file_store \<Rightarrow> file_store" where
  "parent_loop env sid path [] current files = files"
| "parent_loop env sid path (segment # rest) current files =
     (if segment = [] then parent_loop env sid path rest current files
      else let current = current @ ''/'' @ segment in
           if current = path then files
           else parent_loop env sid path rest current (insert_directory_if_missing env sid current files))"

definition ensure_parent_directories :: "fs_env \<Rightarrow> uuid \<Rightarrow> string \<Rightarrow> file_store \<Rightarrow> file_store" where
  "ensure_parent_directories env sid path files =
     parent_loop env sid path (split_text CHR ''/'' (trim_start_matches CHR ''/'' path)) [] files"

definition upsert_file ::
  "fs_env \<Rightarrow> uuid \<Rightarrow> string \<Rightarrow> string \<Rightarrow> string \<Rightarrow> bool \<Rightarrow> file_store \<Rightarrow> session_file \<times> file_store" where
  "upsert_file env sid path content encoding is_readonly files =
     (let normalized = normalize_path path;
          file = (case hm_get files (sid, normalized) of
                    Some entry \<Rightarrow> entry\<lparr>sf_content := Some content, sf_encoding := encoding,
                       sf_is_directory := False, sf_is_readonly := is_readonly,
                       sf_size_bytes := int (utf8_len content), sf_updated_at := en_now env\<rparr>
                  | None \<Rightarrow> \<lparr>sf_id = en_mint env normalized, sf_session_id = sid, sf_path = normalized,
                       sf_name = name_from_path normalized, sf_content = Some content,
                       sf_encoding = encoding, sf_is_directory = False, sf_is_readonly = is_readonly,
                       sf_size_bytes = int (utf8_len content), sf_created_at = en_now env,
                       sf_updated_at = en_now env\<rparr>)
      in (file, hm_insert (sid, normalized) file files))"

definition seed_initial_file :: "fs_env \<Rightarrow> uuid \<Rightarrow> initial_file \<Rightarrow> file_store \<Rightarrow> file_store" where
  "seed_initial_file env sid file files =
     (let path = normalize_path (if_path file) in
      snd (upsert_file env sid path (if_content file) (if_encoding file) (if_is_readonly file)
        (ensure_parent_directories env sid path files)))"

definition read_file :: "timestamp \<Rightarrow> uuid \<Rightarrow> string \<Rightarrow> file_store \<Rightarrow> session_file option" where
  "read_file now sid path files =
     (let normalized = normalize_path path in
      if normalized = ''/'' then Some (root_directory now sid) else hm_get files (sid, normalized))"

definition read_text :: "timestamp \<Rightarrow> uuid \<Rightarrow> string \<Rightarrow> file_store \<Rightarrow> string option" where
  "read_text now sid path files = Option.bind (read_file now sid path files) sf_content"

definition write_file ::
  "fs_env \<Rightarrow> uuid \<Rightarrow> string \<Rightarrow> string \<Rightarrow> string \<Rightarrow> (file_store, fs_error, session_file) op" where
  "write_file env sid path content encoding files =
     (let normalized = normalize_path path;
          files = ensure_parent_directories env sid normalized files;
          write = (let (file, files) = upsert_file env sid normalized content encoding False files
                   in (Inr file, files))
      in case read_file (en_now env) sid normalized files of
           Some existing \<Rightarrow> if sf_is_readonly existing then (Inl (ReadOnlyFile normalized), files) else write
         | None \<Rightarrow> write)"

definition delete_file :: "uuid \<Rightarrow> string \<Rightarrow> bool \<Rightarrow> file_store \<Rightarrow> bool \<times> file_store" where
  "delete_file sid path recursive files =
     (let normalized = normalize_path path in
      if normalized = ''/'' then (False, files)
      else case hm_get files (sid, normalized) of
             None \<Rightarrow> (False, files)
           | Some existing \<Rightarrow>
               if sf_is_readonly existing then (False, files)
               else if sf_is_directory existing then
                 (let under = normalized @ ''/'';
                      has_children = list_ex (\<lambda>((s, candidate), _). s = sid \<and> prefix under candidate) files
                  in if has_children \<and> \<not> recursive then (False, files)
                     else (True, filter (\<lambda>((s, candidate), _).
                                   \<not> (s = sid \<and> (candidate = normalized \<or> prefix under candidate))) files))
               else (True, hm_remove (sid, normalized) files))"

definition list_directory :: "timestamp \<Rightarrow> uuid \<Rightarrow> string \<Rightarrow> file_store \<Rightarrow> file_info list" where
  "list_directory now sid path files =
     (let normalized = normalize_path path;
          infos = map (\<lambda>((_, _), f). info_of_file f)
                    (filter (\<lambda>((s, candidate), _). s = sid \<and> parent_path candidate = Some normalized) files);
          listed = sort_key fi_path infos
      in if normalized \<noteq> ''/'' then
           (case read_file now sid normalized files of
              None \<Rightarrow> [] | Some dir \<Rightarrow> if sf_is_directory dir then listed else [])
         else listed)"

definition stat_file :: "timestamp \<Rightarrow> uuid \<Rightarrow> string \<Rightarrow> file_store \<Rightarrow> file_stat option" where
  "stat_file now sid path files =
     (let normalized = normalize_path path in
      if normalized = ''/'' then Some (stat_of_file (root_directory now sid))
      else map_option stat_of_file (hm_get files (sid, normalized)))"

definition create_directory :: "fs_env \<Rightarrow> uuid \<Rightarrow> string \<Rightarrow> (file_store, fs_error, file_info) op" where
  "create_directory env sid path files =
     (let normalized = normalize_path path;
          files = insert_directory_if_missing env sid normalized
                    (ensure_parent_directories env sid normalized files)
      in case read_file (en_now env) sid normalized files of
           Some file \<Rightarrow> (Inr (info_of_file file), files)
         | None \<Rightarrow> (Inl (DirectoryNotFound normalized), files))"

subsection \<open>Searching\<close>

definition MAX_PATTERN_LEN :: nat where "MAX_PATTERN_LEN = 1000"
definition MAX_FILE_BYTES :: nat where "MAX_FILE_BYTES = 512 * 1024"
definition MAX_TOTAL_SCAN_BYTES :: nat where "MAX_TOTAL_SCAN_BYTES = 5 * 1024 * 1024"

text \<open>
  The engines: \<open>RegexBuilder\<close> with its size limit and the matcher it builds, and the glob builder
  and matcher of the path patterns.
\<close>

record ('r, 'g) search_engine =
  en_regex :: "string \<Rightarrow> 'r option"
  en_regex_match :: "'r \<Rightarrow> string \<Rightarrow> bool"
  en_glob :: "string \<Rightarrow> 'g option"
  en_glob_match :: "'g \<Rightarrow> string \<Rightarrow> bool"

definition build_regex :: "('r, 'g) search_engine \<Rightarrow> string \<Rightarrow> fs_error + 'r" where
  "build_regex eng pattern =
     (if MAX_PATTERN_LEN < utf8_len pattern then Inl PatternTooLong
      else case en_regex eng pattern of None \<Rightarrow> Inl InvalidRegex | Some r \<Rightarrow> Inr r)"

definition validate_path_pattern :: "string option \<Rightarrow> fs_error + unit" where
  "validate_path_pattern path_pattern =
     (case path_pattern of
        Some p \<Rightarrow> if MAX_PATTERN_LEN < utf8_len p then Inl PathPatternTooLong else Inr ()
      | None \<Rightarrow> Inr ())"

definition account_scan :: "nat \<Rightarrow> nat \<Rightarrow> fs_error + (bool \<times> nat)" where
  "account_scan scanned file_bytes =
     (if MAX_FILE_BYTES < file_bytes then Inr (False, scanned)
      else if MAX_TOTAL_SCAN_BYTES < scanned + file_bytes then Inl ScanTooLarge
      else Inr (True, scanned + file_bytes))"

definition path_matcher :: "('r, 'g) search_engine \<Rightarrow> string option \<Rightarrow> fs_error + 'g grep_path_matcher option" where
  "path_matcher eng path_pattern =
     (case path_pattern of
        None \<Rightarrow> Inr None
      | Some p \<Rightarrow> (case grep_path_pattern_new (en_glob eng) p of
                     None \<Rightarrow> Inl (InvalidPathPattern p) | Some m \<Rightarrow> Inr (Some m)))"

definition searched :: "('r, 'g) search_engine \<Rightarrow> uuid \<Rightarrow> 'g grep_path_matcher option \<Rightarrow> (uuid \<times> string) \<times> session_file \<Rightarrow> bool" where
  "searched eng sid matcher e =
     (case e of ((s, path), file) \<Rightarrow>
        s = sid \<and> \<not> sf_is_directory file \<and> sf_encoding file = ''text''
        \<and> (case matcher of None \<Rightarrow> True | Some m \<Rightarrow> grep_path_is_match (en_glob_match eng) m path))"

text \<open>
  The texts of the searched files, in the order of the table, within the scan limits. The table of the
  code is a hash map: its order, which the order of the list stands for, is any one.
\<close>

fun scan_texts ::
  "('r, 'g) search_engine \<Rightarrow> uuid \<Rightarrow> 'g grep_path_matcher option \<Rightarrow> nat \<Rightarrow> file_store \<Rightarrow> fs_error + (string \<times> string) list" where
  "scan_texts eng sid matcher scanned [] = Inr []"
| "scan_texts eng sid matcher scanned (e # files) =
     (if \<not> searched eng sid matcher e then scan_texts eng sid matcher scanned files
      else case sf_content (snd e) of
             None \<Rightarrow> scan_texts eng sid matcher scanned files
           | Some content \<Rightarrow>
               (case account_scan scanned (utf8_len content) of
                  Inl err \<Rightarrow> Inl err
                | Inr (False, scanned) \<Rightarrow> scan_texts eng sid matcher scanned files
                | Inr (True, scanned) \<Rightarrow>
                    map_sum id ((#) (snd (fst e), content)) (scan_texts eng sid matcher scanned files)))"

definition grep_files ::
  "('r, 'g) search_engine \<Rightarrow> uuid \<Rightarrow> string \<Rightarrow> string option \<Rightarrow> file_store \<Rightarrow> fs_error + grep_match list" where
  "grep_files eng sid pattern path_pattern files =
     bind_result (build_regex eng pattern) (\<lambda>regex.
     bind_result (validate_path_pattern path_pattern) (\<lambda>_.
     bind_result (path_matcher eng path_pattern) (\<lambda>matcher.
     bind_result (scan_texts eng sid matcher 0 files) (\<lambda>texts.
     Inr (concat (map (\<lambda>(path, content).
       map (flat_match path (lines_text content))
         (file_match_indexes (en_regex_match eng regex) (lines_text content))) texts))))))"

definition grep_files_with_options ::
  "('r, 'g) search_engine \<Rightarrow> json_size \<Rightarrow> uuid \<Rightarrow> string \<Rightarrow> grep_options \<Rightarrow> file_store \<Rightarrow> fs_error + grep_search_result" where
  "grep_files_with_options eng js sid pattern options files =
     bind_result (build_regex eng pattern) (\<lambda>regex.
     bind_result (validate_path_pattern (go_path_pattern options)) (\<lambda>_.
     bind_result (path_matcher eng (go_path_pattern options)) (\<lambda>matcher.
     bind_result (scan_texts eng sid matcher 0 files) (\<lambda>texts.
     Inr (build_grep_search_result js texts (en_regex_match eng regex) options)))))"

section \<open>Key/value storage and secrets\<close>

record storage_value =
  sv_value :: string
  sv_created_at :: timestamp
  sv_updated_at :: timestamp

record storage_store =
  ss_values :: "(uuid \<times> string, storage_value) hmap"
  ss_secrets :: "(uuid \<times> string, storage_value) hmap"

definition storage_new :: storage_store where
  "storage_new = \<lparr>ss_values = [], ss_secrets = []\<rparr>"

definition upsert_storage ::
  "timestamp \<Rightarrow> uuid \<Rightarrow> string \<Rightarrow> string \<Rightarrow> (uuid \<times> string, storage_value) hmap \<Rightarrow> (uuid \<times> string, storage_value) hmap" where
  "upsert_storage now sid key val m =
     hm_insert (sid, key)
       (case hm_get m (sid, key) of
          Some stored \<Rightarrow> stored\<lparr>sv_value := val, sv_updated_at := now\<rparr>
        | None \<Rightarrow> \<lparr>sv_value = val, sv_created_at = now, sv_updated_at = now\<rparr>) m"

definition list_storage :: "uuid \<Rightarrow> (uuid \<times> string, storage_value) hmap \<Rightarrow> (string \<times> storage_value) list" where
  "list_storage sid m = sort_key fst (map (\<lambda>((_, key), v). (key, v)) (filter (\<lambda>((s, _), _). s = sid) m))"

definition set_value :: "timestamp \<Rightarrow> uuid \<Rightarrow> string \<Rightarrow> string \<Rightarrow> storage_store \<Rightarrow> storage_store" where
  "set_value now sid key val st = st\<lparr>ss_values := upsert_storage now sid key val (ss_values st)\<rparr>"

definition get_value :: "uuid \<Rightarrow> string \<Rightarrow> storage_store \<Rightarrow> string option" where
  "get_value sid key st = map_option sv_value (hm_get (ss_values st) (sid, key))"

definition delete_value :: "uuid \<Rightarrow> string \<Rightarrow> storage_store \<Rightarrow> bool \<times> storage_store" where
  "delete_value sid key st =
     (hm_get (ss_values st) (sid, key) \<noteq> None, st\<lparr>ss_values := hm_remove (sid, key) (ss_values st)\<rparr>)"

definition list_keys :: "uuid \<Rightarrow> storage_store \<Rightarrow> (string \<times> timestamp \<times> timestamp) list" where
  "list_keys sid st = map (\<lambda>(key, v). (key, sv_created_at v, sv_updated_at v)) (list_storage sid (ss_values st))"

definition set_secret :: "timestamp \<Rightarrow> uuid \<Rightarrow> string \<Rightarrow> string \<Rightarrow> storage_store \<Rightarrow> storage_store" where
  "set_secret now sid name val st = st\<lparr>ss_secrets := upsert_storage now sid name val (ss_secrets st)\<rparr>"

definition get_secret :: "uuid \<Rightarrow> string \<Rightarrow> storage_store \<Rightarrow> string option" where
  "get_secret sid name st = map_option sv_value (hm_get (ss_secrets st) (sid, name))"

definition delete_secret :: "uuid \<Rightarrow> string \<Rightarrow> storage_store \<Rightarrow> bool \<times> storage_store" where
  "delete_secret sid name st =
     (hm_get (ss_secrets st) (sid, name) \<noteq> None, st\<lparr>ss_secrets := hm_remove (sid, name) (ss_secrets st)\<rparr>)"

definition list_secrets :: "uuid \<Rightarrow> storage_store \<Rightarrow> (string \<times> timestamp \<times> timestamp) list" where
  "list_secrets sid st = map (\<lambda>(key, v). (key, sv_created_at v, sv_updated_at v)) (list_storage sid (ss_secrets st))"

section \<open>Canonical keys\<close>

definition canonical :: "string \<Rightarrow> bool" where
  "canonical k \<longleftrightarrow> k = path_of (segs k)"

text \<open>A key that normalises to itself, as do all the directories above it.\<close>

definition plain_key :: "string \<Rightarrow> bool" where
  "plain_key k \<longleftrightarrow> canonical k \<and> list_all (\<lambda>g. \<not> is_whitespace (last g)) (segs k)
     \<and> (segs k = [] \<or> hd (segs k) \<noteq> ''workspace'')"

lemma canonical_normalize [simp]: "canonical (to_session_path p)"
  by (simp add: canonical_def path_of_to_session_path)

lemma canonical_eq: "canonical k \<Longrightarrow> canonical q \<Longrightarrow> k = q \<longleftrightarrow> segs k = segs q"
  by (metis canonical_def)

lemma canonical_slashed: "\<forall>g \<in> set gs. seg_ok g \<Longrightarrow> gs \<noteq> [] \<Longrightarrow> canonical (slashed gs)"
  by (simp add: canonical_def path_of_def segs_slashed)

lemma canonical_root: "canonical k \<Longrightarrow> k = ''/'' \<longleftrightarrow> segs k = []"
  using path_of_shape(2) [of "segs k"] segs_ok by (metis canonical_def)

lemma last_slashed: "gs \<noteq> [] \<Longrightarrow> \<forall>g \<in> set gs. seg_ok g \<Longrightarrow> last (slashed gs) = last (last gs)"
proof (induction gs)
  case (Cons g gs)
  then show ?case by (cases gs) (auto simp: seg_ok_def)
qed simp

lemma normalize_slashed:
  assumes ok: "\<forall>g \<in> set gs. seg_ok g \<and> \<not> is_whitespace (last g)" and ne: "gs \<noteq> []" and hd: "hd gs \<noteq> ''workspace''"
  shows "to_session_path (slashed gs) = slashed gs"
proof -
  have ok': "\<forall>g \<in> set gs. seg_ok g" using ok by blast
  have "\<not> is_whitespace (last (slashed gs))" using last_slashed [OF ne ok'] ok ne by simp
  moreover have "hd (slashed gs) = CHR ''/''" using ne by (cases gs) simp_all
  ultimately have "trim (slashed gs) = slashed gs" by (intro trim_id) (simp add: is_whitespace_def)
  then show ?thesis
    using ne hd by (simp add: to_session_path_segs dealias_def segs_slashed [OF ok'] path_of_def)
qed

lemma plain_normalize: "plain_key k \<Longrightarrow> to_session_path k = k"
proof (cases "segs k = []")
  case True
  assume "plain_key k"
  with True have "k = ''/''" by (simp add: plain_key_def canonical_root)
  moreover have "to_session_path ''/'' = ''/''" by code_simp
  ultimately show ?thesis by simp
next
  case False
  assume k: "plain_key k"
  with False have "k = slashed (segs k)" by (simp add: plain_key_def canonical_def path_of_def)
  then show ?thesis
    using normalize_slashed [of "segs k"] k False segs_ok by (auto simp: plain_key_def list_all_iff)
qed

subsection \<open>Parents\<close>

lemma join_slashed: "join_text ''/'' ([] # gs) = slashed gs"
proof -
  have "gs \<noteq> [] \<Longrightarrow> CHR ''/'' # join_text ''/'' gs = slashed gs"
  proof (induction gs)
    case (Cons g gs)
    then show ?case by (cases gs) simp_all
  qed simp
  then show ?thesis by (cases gs) simp_all
qed

lemma parent_canonical:
  assumes "canonical k" and "segs k = gs @ [g]"
  shows "parent_path k = Some (path_of gs)" and "name_from_path k = g"
proof -
  have ok: "\<forall>h \<in> set (gs @ [g]). seg_ok h" using segs_ok assms(2) by metis
  have k: "k = slashed (gs @ [g])" using assms by (simp add: canonical_def path_of_def)
  have "k \<noteq> ''/''" using assms canonical_root by fastforce
  moreover have "CHR ''/'' \<in> set k" using k by (cases gs) simp_all
  moreover have "split_text CHR ''/'' k = [] # gs @ [g]" using split_canonical(2) [OF ok] k by simp
  ultimately show "parent_path k = Some (path_of gs)" "name_from_path k = g"
    using join_slashed [of gs]
    by (auto simp: parent_path_def name_from_path_def path_of_def butlast_append Let_def)
       (cases gs; simp)+
qed

lemma parent_iff:
  assumes "canonical k" and "canonical d"
  shows "parent_path k = Some d \<longleftrightarrow> (\<exists>g. segs k = segs d @ [g])"
proof (cases "segs k" rule: rev_cases)
  case Nil
  then have "k = ''/''" using assms canonical_root by blast
  with Nil show ?thesis by (simp add: parent_path_def)
next
  case (snoc gs g)
  have "\<forall>h \<in> set gs. seg_ok h" using segs_ok [of _ k] snoc by simp
  then have "path_of gs = d \<longleftrightarrow> gs = segs d"
    using assms(2) by (metis canonical_def segs_path_of)
  then show ?thesis using parent_canonical(1) [OF assms(1) snoc] snoc by simp
qed

lemma under_iff:
  assumes "canonical k" and "canonical q" and "k \<noteq> ''/''"
  shows "prefix (k @ ''/'') q \<longleftrightarrow> strict_prefix (segs k) (segs q)"
proof
  assume "prefix (k @ ''/'') q"
  then obtain r where q: "q = k @ CHR ''/'' # r" by (auto simp: prefix_def)
  have k: "k = slashed (segs k)" "segs k \<noteq> []"
    using assms canonical_root by (auto simp: canonical_def path_of_def split: if_splits)
  have app: "segs (slashed gs @ CHR ''/'' # r) = gs @ segs r" if "\<forall>g \<in> set gs. seg_ok g" for gs
    using that
  proof (induction gs)
    case (Cons g gs)
    then show ?case
      by (cases gs) (simp_all add: segs_seg)
  qed simp
  have "segs q = segs k @ segs r" using app [of "segs k"] segs_ok k q by metis
  moreover have "segs r \<noteq> []"
  proof
    assume "segs r = []"
    with calculation have "segs q = segs k" by simp
    then have "q = k" using assms canonical_eq by blast
    with q show False by simp
  qed
  ultimately show "strict_prefix (segs k) (segs q)" by (auto simp: strict_prefix_def)
next
  assume "strict_prefix (segs k) (segs q)"
  then obtain g hs where "segs q = segs k @ g # hs" by (metis strict_prefixE')
  moreover have "segs k \<noteq> []" using assms canonical_root by blast
  ultimately have "q = slashed (segs k) @ slashed (g # hs)" "k = slashed (segs k)"
    using assms by (auto simp: canonical_def path_of_def slashed_def)
  then show "prefix (k @ ''/'') q" by (metis append_Cons append_Nil prefixI append_assoc slashed_simps(2))
qed

subsection \<open>Creating the parents\<close>

fun visited :: "string \<Rightarrow> string list \<Rightarrow> string \<Rightarrow> string list" where
  "visited path [] current = []"
| "visited path (segment # rest) current =
     (if segment = [] then visited path rest current
      else if current @ ''/'' @ segment = path then []
      else (current @ ''/'' @ segment) # visited path rest (current @ ''/'' @ segment))"

lemma parent_loop_fold:
  "parent_loop env sid path gs current files = fold (insert_directory_if_missing env sid) (visited path gs current) files"
  by (induction gs arbitrary: current files) (simp_all add: Let_def)

lemma visited_slashed:
  assumes "\<forall>g \<in> set gs. seg_ok g"
  shows "q \<in> set (visited (slashed (pre @ gs)) gs (slashed pre))
    \<longleftrightarrow> (\<exists>hs. hs \<noteq> [] \<and> strict_prefix hs gs \<and> q = slashed (pre @ hs))"
  using assms
proof (induction gs arbitrary: pre)
  case (Cons g gs)
  have g: "g \<noteq> []" using Cons.prems by (simp add: seg_ok_def)
  have snoc: "slashed pre @ ''/'' @ g = slashed (pre @ [g])" by (simp add: slashed_def)
  have full: "slashed (pre @ [g]) = slashed (pre @ g # gs) \<longleftrightarrow> gs = []" by (cases gs) (simp_all add: slashed_def)
  have split: "hs \<noteq> [] \<and> strict_prefix hs (g # gs)
      \<longleftrightarrow> hs = [g] \<and> gs \<noteq> [] \<or> (\<exists>hs'. hs = g # hs' \<and> hs' \<noteq> [] \<and> strict_prefix hs' gs)" for hs
    by (cases hs) (auto simp: strict_prefix_def)
  show ?case
  proof (cases "gs = []")
    case True
    then show ?thesis using g snoc split by (simp add: full) blast
  next
    case False
    have "visited (slashed (pre @ g # gs)) (g # gs) (slashed pre)
        = slashed (pre @ [g]) # visited (slashed ((pre @ [g]) @ gs)) gs (slashed (pre @ [g]))"
      using g full False by (simp add: snoc del: append_assoc) (simp add: snoc [symmetric])
    then have "q \<in> set (visited (slashed (pre @ g # gs)) (g # gs) (slashed pre)) \<longleftrightarrow>
        q = slashed (pre @ [g]) \<or> (\<exists>hs'. hs' \<noteq> [] \<and> strict_prefix hs' gs \<and> q = slashed (pre @ g # hs'))"
      using Cons.IH [of "pre @ [g]"] Cons.prems by simp
    also have "\<dots> \<longleftrightarrow> (\<exists>hs. hs \<noteq> [] \<and> strict_prefix hs (g # gs) \<and> q = slashed (pre @ hs))"
      using False split by metis
    finally show ?thesis .
  qed
qed simp

lemma get_insert_directory:
  "hm_get (insert_directory_if_missing env sid p files) (s, q) =
    (if s = sid \<and> q = to_session_path p \<and> q \<noteq> ''/'' \<and> hm_get files (s, q) = None
     then Some (new_directory env sid q) else hm_get files (s, q))"
  by (auto simp: insert_directory_if_missing_def Let_def normalize_path_def split: option.split)

lemma get_insert_directories:
  "hm_get (fold (insert_directory_if_missing env sid) ps files) (s, q) =
    (if s = sid \<and> q \<in> to_session_path ` set ps \<and> q \<noteq> ''/'' \<and> hm_get files (s, q) = None
     then Some (new_directory env sid q) else hm_get files (s, q))"
  by (induction ps arbitrary: files) (auto simp: get_insert_directory)

lemma ensure_parents_get:
  assumes "plain_key k" and "k \<noteq> ''/''" and "canonical q"
  shows "hm_get (ensure_parent_directories env sid k files) (s, q) =
    (if s = sid \<and> segs q \<noteq> [] \<and> strict_prefix (segs q) (segs k) \<and> hm_get files (s, q) = None
     then Some (new_directory env sid q) else hm_get files (s, q))"
proof -
  have ne: "segs k \<noteq> []" and k: "k = slashed (segs k)"
    using assms canonical_root by (auto simp: plain_key_def canonical_def path_of_def split: if_splits)
  have ok: "\<forall>g \<in> set (segs k). seg_ok g" using segs_ok by blast
  define ps where "ps = visited k (segs k) []"
  have fold: "ensure_parent_directories env sid k files = fold (insert_directory_if_missing env sid) ps files"
    using split_canonical(1) [OF ok ne] k by (simp add: ensure_parent_directories_def parent_loop_fold ps_def)
  have ps: "p \<in> set ps \<longleftrightarrow> (\<exists>hs. hs \<noteq> [] \<and> strict_prefix hs (segs k) \<and> p = slashed hs)" for p
    using visited_slashed [OF ok, of p "[]"] k by (simp add: ps_def)
  have norm: "to_session_path (slashed hs) = slashed hs" if hs: "hs \<noteq> []" "strict_prefix hs (segs k)" for hs
  proof (rule normalize_slashed [OF _ hs(1)])
    obtain t where t: "segs k = hs @ t" using hs(2) by (auto simp: strict_prefix_def prefix_def)
    show "\<forall>g \<in> set hs. seg_ok g \<and> \<not> is_whitespace (last g)"
      using assms(1) ok by (simp add: plain_key_def list_all_iff t)
    show "hd hs \<noteq> ''workspace''" using assms(1) hs(1) by (auto simp: plain_key_def t)
  qed
  have "to_session_path p = p" if "p \<in> set ps" for p
  proof -
    from that obtain hs where "hs \<noteq> []" "strict_prefix hs (segs k)" "p = slashed hs" unfolding ps by blast
    then show ?thesis using norm [of hs] by simp
  qed
  then have "to_session_path ` set ps = set ps" by simp
  moreover have "q \<noteq> ''/'' \<and> q \<in> set ps \<longleftrightarrow> segs q \<noteq> [] \<and> strict_prefix (segs q) (segs k)"
  proof -
    have "slashed hs = q \<longleftrightarrow> hs = segs q" if "hs \<noteq> []" "strict_prefix hs (segs k)" for hs
    proof -
      have "\<forall>g \<in> set hs. seg_ok g" using ok that(2) by (meson prefix_order.less_imp_le set_mono_prefix subsetD)
      from segs_slashed [OF this] show ?thesis
        using assms(3) that(1) by (auto simp: canonical_def path_of_def)
    qed
    then show ?thesis unfolding ps canonical_root [OF assms(3)] by metis
  qed
  ultimately show ?thesis by (auto simp: fold get_insert_directories)
qed

section \<open>The invariant of the table\<close>

definition entry_ok :: "uuid \<times> string \<Rightarrow> session_file \<Rightarrow> bool" where
  "entry_ok k f \<longleftrightarrow>
     canonical (snd k) \<and> sf_session_id f = fst k \<and> sf_path f = snd k \<and> sf_name f = name_from_path (snd k)
     \<and> (case sf_content f of
          None \<Rightarrow> sf_is_directory f \<and> sf_size_bytes f = 0
        | Some c \<Rightarrow> \<not> sf_is_directory f \<and> sf_size_bytes f = int (utf8_len c))"

definition files_wf :: "file_store \<Rightarrow> bool" where
  "files_wf files \<longleftrightarrow> hm_wf files \<and> list_all (\<lambda>(k, f). entry_ok k f) files"

lemma files_wf_get: "files_wf files \<Longrightarrow> hm_get files k = Some f \<Longrightarrow> entry_ok k f"
  by (auto simp: files_wf_def list_all_iff dest!: hm_get_Some_in)

lemma files_wf_insert: "files_wf files \<Longrightarrow> entry_ok k f \<Longrightarrow> files_wf (hm_insert k f files)"
proof -
  assume wf: "files_wf files" and ok: "entry_ok k f"
  then have hm: "hm_wf (hm_insert k f files)" by (simp add: files_wf_def)
  then have "entry_ok q g" if "(q, g) \<in> set (hm_insert k f files)" for q g
    using that hm_get_in [OF hm that] files_wf_get [OF wf] ok by (auto split: if_splits)
  with hm show ?thesis by (auto simp: files_wf_def list_all_iff)
qed

lemma files_wf_filter: "files_wf files \<Longrightarrow> files_wf (filter P files)"
  by (auto simp: files_wf_def hm_wf_def list_all_iff distinct_map_filter)

lemma insert_directory_wf: "files_wf files \<Longrightarrow> files_wf (insert_directory_if_missing env sid p files)"
  by (auto simp: insert_directory_if_missing_def Let_def normalize_path_def entry_ok_def new_directory_def
      split: option.split intro!: files_wf_insert)

lemma ensure_parents_wf: "files_wf files \<Longrightarrow> files_wf (ensure_parent_directories env sid p files)"
proof -
  have "files_wf files \<Longrightarrow> files_wf (fold (insert_directory_if_missing env sid) ps files)" for ps
    by (induction ps arbitrary: files) (simp_all add: insert_directory_wf)
  then show "files_wf files \<Longrightarrow> ?thesis" by (simp add: ensure_parent_directories_def parent_loop_fold)
qed

lemma upsert_wf: "files_wf files \<Longrightarrow> files_wf (snd (upsert_file env sid p c e r files))"
  using files_wf_get [of files "(sid, to_session_path p)"]
  by (auto simp: upsert_file_def Let_def normalize_path_def entry_ok_def
      split: option.split intro!: files_wf_insert)

datatype fs_op =
    WriteOp fs_env uuid string string string
  | SeedOp fs_env uuid initial_file
  | DeleteOp uuid string bool
  | CreateOp fs_env uuid string

fun op_session :: "fs_op \<Rightarrow> uuid" where
  "op_session (WriteOp env sid p c e) = sid"
| "op_session (SeedOp env sid f) = sid"
| "op_session (DeleteOp sid p r) = sid"
| "op_session (CreateOp env sid p) = sid"

fun fs_apply :: "fs_op \<Rightarrow> file_store \<Rightarrow> file_store" where
  "fs_apply (WriteOp env sid p c e) files = snd (write_file env sid p c e files)"
| "fs_apply (SeedOp env sid f) files = seed_initial_file env sid f files"
| "fs_apply (DeleteOp sid p r) files = snd (delete_file sid p r files)"
| "fs_apply (CreateOp env sid p) files = snd (create_directory env sid p files)"

lemma write_cases:
  "write_file env sid p c e files =
    (let k = to_session_path p; files' = ensure_parent_directories env sid k files in
     if (case read_file (en_now env) sid k files' of Some f \<Rightarrow> sf_is_readonly f | None \<Rightarrow> False)
     then (Inl (ReadOnlyFile k), files')
     else (Inr (fst (upsert_file env sid k c e False files')), snd (upsert_file env sid k c e False files')))"
  by (auto simp: write_file_def Let_def normalize_path_def split: option.split prod.split)

lemma create_snd:
  "snd (create_directory env sid p files) =
    insert_directory_if_missing env sid (to_session_path p)
      (ensure_parent_directories env sid (to_session_path p) files)"
  by (simp add: create_directory_def Let_def normalize_path_def split: option.split)

lemma delete_snd:
  "snd (delete_file sid p r files) = files \<or> (\<exists>P. snd (delete_file sid p r files) = filter P files)"
  by (auto simp: delete_file_def Let_def hm_remove_def split: option.split)

lemma fs_apply_wf: "files_wf files \<Longrightarrow> files_wf (fs_apply op files)"
proof (cases op)
  case (WriteOp env sid p c e)
  assume "files_wf files"
  then show ?thesis
    by (simp add: WriteOp write_cases Let_def ensure_parents_wf upsert_wf)
next
  case (DeleteOp sid p r)
  assume "files_wf files"
  then show ?thesis using delete_snd [of sid p r files] files_wf_filter by (auto simp: DeleteOp)
qed (simp_all add: seed_initial_file_def Let_def ensure_parents_wf upsert_wf create_snd insert_directory_wf)

section \<open>What a session sees\<close>

definition session_view :: "uuid \<Rightarrow> file_store \<Rightarrow> file_store" where
  "session_view sid files = filter (\<lambda>e. fst (fst e) = sid) files"

named_theorems view_simps \<open>operations on the view of a session\<close>

lemma view_insert [view_simps]:
  "session_view s (hm_insert (t, k) v m) = (if t = s then hm_insert (t, k) v (session_view s m) else session_view s m)"
  by (induction m) (auto simp: session_view_def hm_insert_def)

lemma view_get: "hm_get (session_view s m) (s, k) = hm_get m (s, k)"
  by (induction m) (auto simp: session_view_def hm_get_def)

lemma view_idem: "session_view s (session_view s m) = session_view s m"
  by (simp add: session_view_def)

text \<open>A step on the table, seen by session \<open>s\<close>: a step of its own on its view, or nothing.\<close>

definition local_to :: "uuid \<Rightarrow> (file_store \<Rightarrow> file_store) \<Rightarrow> bool" where
  "local_to t f \<longleftrightarrow> (\<forall>s m. session_view s (f m) = (if t = s then f (session_view s m) else session_view s m))"

lemma local_comp: "local_to t f \<Longrightarrow> local_to t g \<Longrightarrow> local_to t (\<lambda>m. g (f m))"
  by (simp add: local_to_def)

lemma local_insert_directory: "local_to t (insert_directory_if_missing env t p)"
  by (auto simp: local_to_def insert_directory_if_missing_def Let_def view_get view_simps split: option.split)

lemma local_ensure_parents: "local_to t (ensure_parent_directories env t p)"
proof -
  have "local_to t (fold (insert_directory_if_missing env t) ps)" for ps
  proof (induction ps)
    case (Cons p ps)
    then show ?case using local_insert_directory [of t env p] by (simp add: local_to_def)
  qed (simp add: local_to_def)
  moreover have "ensure_parent_directories env t p
      = fold (insert_directory_if_missing env t) (visited p (split_text CHR ''/'' (trim_start_matches CHR ''/'' p)) [])"
    by (rule ext) (simp add: ensure_parent_directories_def parent_loop_fold)
  ultimately show ?thesis by simp
qed

lemma upsert_fst_view: "fst (upsert_file env s p c e r (session_view s m)) = fst (upsert_file env s p c e r m)"
  by (simp add: upsert_file_def Let_def view_get)

lemma local_upsert: "local_to t (\<lambda>m. snd (upsert_file env t p c e r m))"
  by (auto simp: local_to_def upsert_file_def Let_def view_get view_simps)

lemma read_view: "read_file now s p (session_view s m) = read_file now s p m"
  by (simp add: read_file_def Let_def view_get)

lemma view_ensure: "session_view s (ensure_parent_directories env s p m) = ensure_parent_directories env s p (session_view s m)"
  using local_ensure_parents by (simp add: local_to_def)

lemma read_ensure_view:
  "read_file now s q (ensure_parent_directories env s p (session_view s m)) = read_file now s q (ensure_parent_directories env s p m)"
  using read_view [of now s q "ensure_parent_directories env s p m"] by (simp add: view_ensure)

lemma view_list_ex: "list_ex (\<lambda>((t, c), _). t = s \<and> P c) (session_view s m) \<longleftrightarrow> list_ex (\<lambda>((t, c), _). t = s \<and> P c) m"
  by (induction m) (auto simp: session_view_def)

lemma view_filter: "session_view u (filter P m) = filter P (session_view u m)"
  by (induction m) (auto simp: session_view_def)

lemma view_filter_other:
  "(\<And>e. fst (fst e) = u \<Longrightarrow> P e) \<Longrightarrow> session_view u (filter P m) = session_view u m"
  by (induction m) (auto simp: session_view_def)

lemma delete_view:
  "fst (delete_file s p r (session_view s m)) = fst (delete_file s p r m)"
  "session_view u (snd (delete_file s p r m))
    = (if s = u then snd (delete_file s p r (session_view u m)) else session_view u m)"
proof -
  show "fst (delete_file s p r (session_view s m)) = fst (delete_file s p r m)"
    by (simp add: delete_file_def Let_def view_get view_list_ex split: option.split)
  show "session_view u (snd (delete_file s p r m))
      = (if s = u then snd (delete_file s p r (session_view u m)) else session_view u m)"
  proof (cases "s = u")
    case True
    then show ?thesis
      by (simp add: delete_file_def Let_def view_get view_list_ex view_filter hm_remove_def split: option.split)
  next
    case False
    then show ?thesis
      by (auto simp: delete_file_def Let_def hm_remove_def intro!: view_filter_other split: option.split)
  qed
qed

lemma fs_apply_local: "local_to (op_session op) (fs_apply op)"
proof (cases op)
  case (WriteOp env sid p c e)
  show ?thesis
    using local_ensure_parents [of sid env "to_session_path p"] local_upsert [of sid env "to_session_path p" c e False]
      read_ensure_view
    by (auto simp: WriteOp local_to_def write_cases Let_def)
next
  case (SeedOp env sid f)
  show ?thesis
    using local_ensure_parents [of sid env "to_session_path (if_path f)"]
      local_upsert [of sid env "to_session_path (if_path f)" "if_content f" "if_encoding f" "if_is_readonly f"]
    by (simp add: SeedOp local_to_def seed_initial_file_def Let_def normalize_path_def)
next
  case (CreateOp env sid p)
  show ?thesis
    using local_ensure_parents [of sid env "to_session_path p"] local_insert_directory [of sid env "to_session_path p"]
    by (simp add: CreateOp local_to_def create_snd)
qed (simp add: local_to_def delete_view)

lemma view_run: "session_view s (fold fs_apply ops m) = fold fs_apply (filter (\<lambda>op. op_session op = s) ops) (session_view s m)"
proof (induction ops arbitrary: m)
  case (Cons op ops)
  then show ?case using fs_apply_local [of op] by (auto simp: local_to_def)
qed simp

lemma list_view: "list_directory now s p (session_view s m) = list_directory now s p m"
proof -
  have "filter (\<lambda>((t, candidate), _). t = s \<and> parent_path candidate = d) (session_view s m)
      = filter (\<lambda>((t, candidate), _). t = s \<and> parent_path candidate = d) m" for d
    by (auto simp: session_view_def intro!: filter_cong)
  then show ?thesis by (simp add: list_directory_def Let_def read_view)
qed

lemma scan_view: "scan_texts eng s matcher n (session_view s m) = scan_texts eng s matcher n m"
proof (induction m arbitrary: n)
  case (Cons e m)
  then show ?case
    by (cases "fst (fst e) = s") (auto simp: session_view_def searched_def split: option.split sum.split prod.splits bool.split)
qed (simp add: session_view_def)

section \<open>Properties\<close>

text \<open>
  C36. The table stays well-formed under every sequence of operations, from the empty store on: one
  entry per session and path, the path canonical and equal to the one recorded in the entry, the
  name its last segment, a directory without content and of size 0, and a file with content whose
  recorded size is its length in bytes.
\<close>

theorem file_table_wf: "files_wf (fold fs_apply ops file_store_new)"
proof -
  have "files_wf files \<Longrightarrow> files_wf (fold fs_apply ops files)" for files
    by (induction ops arbitrary: files) (simp_all add: fs_apply_wf)
  moreover have "files_wf file_store_new" by (simp add: file_store_new_def files_wf_def)
  ultimately show ?thesis by blast
qed

text \<open>
  C21. Sessions are isolated. Whatever other sessions write, seed, create or delete in between, in
  any order, a session reads, lists, searches and gets the same results as if it had been alone
  with the store: reads, listings, both searches and the outcomes of its next write and delete
  depend on its own operations only.
\<close>

theorem sessions_isolated:
  "let all = fold fs_apply ops files; own = fold fs_apply (filter (\<lambda>op. op_session op = s) ops) files in
    read_file now s p all = read_file now s p own
    \<and> list_directory now s p all = list_directory now s p own
    \<and> grep_files eng s pattern path_pattern all = grep_files eng s pattern path_pattern own
    \<and> grep_files_with_options eng js s pattern options all = grep_files_with_options eng js s pattern options own
    \<and> fst (write_file env s p c e all) = fst (write_file env s p c e own)
    \<and> fst (delete_file s p r all) = fst (delete_file s p r own)"
proof -
  define all where "all = fold fs_apply ops files"
  define own where "own = fold fs_apply (filter (\<lambda>op. op_session op = s) ops) files"
  have view: "session_view s all = session_view s own"
    by (simp add: all_def own_def view_run)
  have reads: "read_file now s q all = read_file now s q own" for now q using view read_view by metis
  have ens: "session_view s (ensure_parent_directories env s q all) = session_view s (ensure_parent_directories env s q own)" for q
    by (simp add: view_ensure view)
  have scan: "scan_texts eng s matcher n all = scan_texts eng s matcher n own" for matcher n using view scan_view by metis
  have "fst (write_file env s p c e all) = fst (write_file env s p c e own)"
    using ens read_view upsert_fst_view
    by (simp add: write_cases Let_def) (metis (no_types, lifting) option.case_eq_if)
  moreover have "fst (delete_file s p r all) = fst (delete_file s p r own)" using view delete_view(1) by metis
  moreover have "list_directory now s p all = list_directory now s p own" using view list_view by metis
  ultimately show ?thesis
    unfolding all_def [symmetric] own_def [symmetric] Let_def
    using reads by (simp add: grep_files_def grep_files_with_options_def scan)
qed

text \<open>
  C22. A write reads back, and changes nothing else. Writing to a path whose key is plain and free
  or held by an entry that is not read-only succeeds; from then on the path reads as the written
  file, with the content, the encoding and the size in bytes. Every other path of every session
  reads as before, except that missing directories above the key now exist.
\<close>

theorem write_reads_back:
  assumes k: "k = to_session_path p" "plain_key k" "k \<noteq> ''/''"
    and free: "\<forall>f. hm_get files (sid, k) = Some f \<longrightarrow> \<not> sf_is_readonly f"
  shows "\<exists>f files'. write_file env sid p c e files = (Inr f, files')
    \<and> sf_content f = Some c \<and> sf_encoding f = e \<and> \<not> sf_is_directory f \<and> sf_size_bytes f = int (utf8_len c)
    \<and> (\<forall>now s q. read_file now s q files' =
        (let key = to_session_path q in
         if s = sid \<and> key = k then Some f
         else if s = sid \<and> strict_prefix (segs key) (segs k) \<and> read_file now s q files = None
              then Some (new_directory env sid key)
              else read_file now s q files))"
proof -
  define files1 where "files1 = ensure_parent_directories env sid k files"
  define f where "f = fst (upsert_file env sid k c e False files1)"
  have norm: "to_session_path k = k" using plain_normalize [OF k(2)] .
  have get1: "hm_get files1 (s, q) =
      (if s = sid \<and> segs q \<noteq> [] \<and> strict_prefix (segs q) (segs k) \<and> hm_get files (s, q) = None
       then Some (new_directory env sid q) else hm_get files (s, q))" if "canonical q" for s q
    using ensure_parents_get [OF k(2,3) that] by (simp add: files1_def)
  have "hm_get files1 (sid, k) = hm_get files (sid, k)"
    using get1 [of k] k(2) by (simp add: plain_key_def)
  then have wrote: "write_file env sid p c e files = (Inr f, hm_insert (sid, k) f files1)"
    using free k(1,3) norm
    by (auto simp: write_cases Let_def read_file_def normalize_path_def f_def upsert_file_def files1_def split: option.split)
  have "read_file now s q (hm_insert (sid, k) f files1) =
      (let key = to_session_path q in
       if s = sid \<and> key = k then Some f
       else if s = sid \<and> strict_prefix (segs key) (segs k) \<and> read_file now s q files = None
            then Some (new_directory env sid key) else read_file now s q files)" for now s q
    using get1 [of "to_session_path q"] k(3) canonical_root [of "to_session_path q"]
    by (auto simp: read_file_def normalize_path_def Let_def simp del: segs_to_session_path)
  moreover have "sf_content f = Some c \<and> sf_encoding f = e \<and> \<not> sf_is_directory f \<and> sf_size_bytes f = int (utf8_len c)"
    by (simp add: f_def upsert_file_def Let_def split: option.split)
  ultimately show ?thesis using wrote by blast
qed

definition demo_fs_env :: fs_env where
  "demo_fs_env = \<lparr>en_mint = length, en_now = 7\<rparr>"

theorem write_reads_back_witness:
  "\<exists>f files'. write_file demo_fs_env 1 ''/workspace/src//lib.rs'' ''fn'' ''text'' [] = (Inr f, files')
    \<and> read_file 9 1 ''src/lib.rs'' files' = Some f
    \<and> read_file 9 1 ''/src'' files' = Some (new_directory demo_fs_env 1 ''/src'')
    \<and> read_file 9 2 ''/src'' files' = None"
proof -
  have k: "''/src/lib.rs'' = to_session_path ''/workspace/src//lib.rs''" "plain_key ''/src/lib.rs''"
    "to_session_path ''src/lib.rs'' = ''/src/lib.rs''" "to_session_path ''/src'' = ''/src''"
    "segs ''src'' = [''src'']" "segs ''/src/lib.rs'' = [''src'', ''lib.rs'']"
    by code_simp+
  obtain f files' where w: "write_file demo_fs_env 1 ''/workspace/src//lib.rs'' ''fn'' ''text'' [] = (Inr f, files')"
    and R: "\<And>now s q. read_file now s q files' =
        (let key = to_session_path q in
         if s = 1 \<and> key = ''/src/lib.rs'' then Some f
         else if s = 1 \<and> strict_prefix (segs key) (segs ''/src/lib.rs'') \<and> read_file now s q [] = None
              then Some (new_directory demo_fs_env 1 key)
              else read_file now s q [])"
    using write_reads_back [OF k(1,2), of "[]" 1 demo_fs_env "''fn''" "''text''"] by auto
  have none: "read_file 9 s ''/src'' [] = None" for s by (simp add: read_file_def normalize_path_def k(4))
  show ?thesis
    using w R [of 9 1 "''src/lib.rs''"] R [of 9 1 "''/src''"] R [of 9 2 "''/src''"] none
    unfolding k(3,4,6) by (simp add: Let_def k(5))
qed

text \<open>
  A listing is exact: for the root or a directory of the store, it has the entries one segment
  below it, each once and sorted by path, and no other.
\<close>

theorem listing_exact:
  assumes "files_wf files"
    and "to_session_path p = ''/'' \<or> (\<exists>d. hm_get files (sid, to_session_path p) = Some d \<and> sf_is_directory d)"
    and "to_session_path (to_session_path p) = to_session_path p"
  shows "set (list_directory now sid p files)
      = {info_of_file f | f k. hm_get files (sid, k) = Some f \<and> (\<exists>g. segs k = segs (to_session_path p) @ [g])}
    \<and> sorted (map fi_path (list_directory now sid p files))
    \<and> distinct (map fi_path (list_directory now sid p files))"
proof -
  define infos where "infos kids = map (\<lambda>(_, f). info_of_file f) kids" for kids :: file_store
  define kids where
    "kids = filter (\<lambda>((s, candidate), _). s = sid \<and> parent_path candidate = Some (to_session_path p)) files"
  have list: "list_directory now sid p files = sort_key fi_path (infos kids)"
    using assms(2,3) by (auto simp: infos_def list_directory_def Let_def normalize_path_def kids_def read_file_def
        case_prod_unfold split: option.split)
  have ent: "hm_get files k = Some f \<and> fi_path (info_of_file f) = snd k \<and> canonical (snd k)" if "(k, f) \<in> set files" for k f
    using that assms(1) files_wf_get [OF assms(1)] hm_get_in [of files k f]
    by (auto simp: files_wf_def entry_ok_def info_of_file_def)
  have mem: "(k, f) \<in> set kids \<longleftrightarrow> hm_get files k = Some f \<and> fst k = sid \<and> (\<exists>g. segs (snd k) = segs (to_session_path p) @ [g])" for k f
    using ent [of k f] hm_get_Some_in [of files k f] parent_iff [of "snd k" "to_session_path p"]
    by (auto simp: kids_def simp del: segs_to_session_path split: prod.splits)
  have "map fi_path (infos kids) = map (snd \<circ> fst) kids"
    using ent by (auto simp: kids_def infos_def)
  moreover have "distinct (map (snd \<circ> fst) kids)"
  proof -
    have "distinct (map fst kids)" using assms(1) by (simp add: files_wf_def hm_wf_def kids_def distinct_map_filter)
    moreover have "inj_on snd (set (map fst kids))" by (auto simp: inj_on_def mem)
    ultimately show ?thesis by (simp add: distinct_map comp_inj_on flip: map_map)
  qed
  ultimately have "distinct (map fi_path (infos kids))" by simp
  then have "distinct (map fi_path (list_directory now sid p files))"
    unfolding list by (simp add: distinct_map)
  moreover have "set (list_directory now sid p files)
      = {info_of_file f | f k. hm_get files (sid, k) = Some f \<and> (\<exists>g. segs k = segs (to_session_path p) @ [g])}"
    unfolding list using mem by (force simp: infos_def simp del: segs_to_session_path)
  ultimately show ?thesis by (simp add: list)
qed

definition demo_store :: file_store where
  "demo_store = fold fs_apply
     [SeedOp demo_fs_env 1 \<lparr>if_path = ''/d/keep'', if_content = ''k'', if_encoding = ''text'', if_is_readonly = True\<rparr>,
      WriteOp demo_fs_env 1 ''/d/b'' ''x'' ''text'',
      WriteOp demo_fs_env 1 ''/d/e/f'' ''yy'' ''text''] file_store_new"

theorem listing_exact_witness:
  "map fi_path (list_directory 9 1 ''/workspace/d/'' demo_store) = [''/d/b'', ''/d/e'', ''/d/keep'']
   \<and> set (list_directory 9 1 ''/workspace/d/'' demo_store)
      = {info_of_file f | f k. hm_get demo_store (1, k) = Some f \<and> (\<exists>g. segs k = [''d'', g])}"
proof -
  have p: "to_session_path ''/workspace/d/'' = ''/d''" "to_session_path ''/d'' = ''/d''" "segs ''/d'' = [''d'']"
    by code_simp+
  have wf: "files_wf demo_store" by code_simp
  have "\<exists>d. hm_get demo_store (1, ''/d'') = Some d \<and> sf_is_directory d"
  proof -
    have "(case hm_get demo_store (1, ''/d'') of Some d \<Rightarrow> sf_is_directory d | None \<Rightarrow> False)" by code_simp
    then show ?thesis by (auto split: option.splits)
  qed
  then have "set (list_directory 9 1 ''/workspace/d/'' demo_store)
      = {info_of_file f | f k. hm_get demo_store (1, k) = Some f \<and> (\<exists>g. segs k = [''d'', g])}"
    using listing_exact [OF wf, of "''/workspace/d/''" 1 9] p by auto
  moreover have "map fi_path (list_directory 9 1 ''/workspace/d/'' demo_store) = [''/d/b'', ''/d/e'', ''/d/keep'']"
    by code_simp
  ultimately show ?thesis by blast
qed

text \<open>
  What a delete does, on every branch. It succeeds exactly for an entry other than the root that
  exists, is not read-only, and, when it is a directory with entries below it, only if the delete
  is recursive. A delete that fails changes nothing. One that succeeds removes the entry, and for
  a directory everything below it; every other entry of every session stays as it was.
\<close>

theorem delete_removes_subtree:
  assumes wf: "files_wf files"
  shows "let k = to_session_path p; r = delete_file sid p recursive files in
    (fst r \<longleftrightarrow> k \<noteq> ''/'' \<and> (case hm_get files (sid, k) of
       None \<Rightarrow> False
     | Some f \<Rightarrow> \<not> sf_is_readonly f \<and> (sf_is_directory f \<longrightarrow> recursive
         \<or> (\<forall>q g. hm_get files (sid, q) = Some g \<longrightarrow> \<not> strict_prefix (segs k) (segs q)))))
    \<and> (\<not> fst r \<longrightarrow> snd r = files)
    \<and> (fst r \<longrightarrow> (\<forall>s q. canonical q \<longrightarrow> hm_get (snd r) (s, q) =
        (if s = sid \<and> (q = k \<or> sf_is_directory (the (hm_get files (sid, k))) \<and> strict_prefix (segs k) (segs q))
         then None else hm_get files (s, q))))"
proof -
  define k where "k = to_session_path p"
  have k: "canonical k" by (simp add: k_def)
  have norm: "normalize_path p = k" by (simp add: normalize_path_def k_def)
  have key: "canonical q" if "hm_get files (s, q) = Some g" for s q g
    using files_wf_get [OF wf that] by (simp add: entry_ok_def)
  have hm: "hm_wf files" using wf by (simp add: files_wf_def)
  have kids: "list_ex (\<lambda>((s, c), _). s = sid \<and> prefix (k @ ''/'') c) files
      \<longleftrightarrow> (\<exists>q g. hm_get files (sid, q) = Some g \<and> strict_prefix (segs k) (segs q))" if "k \<noteq> ''/''"
  proof -
    have "list_ex (\<lambda>((s, c), _). s = sid \<and> prefix (k @ ''/'') c) files
        \<longleftrightarrow> (\<exists>q g. ((sid, q), g) \<in> set files \<and> prefix (k @ ''/'') q)"
      by (force simp: list_ex_iff)
    then show ?thesis using under_iff [OF k key that] unfolding hm_wf_in_iff [OF hm] by blast
  qed
  have get_filter: "hm_get (filter (\<lambda>(q, _). P q) files) q = (if P q then hm_get files q else None)" for P q
    by (induction files) (auto simp: hm_get_def)
  show ?thesis
  proof (cases "k = ''/'' \<or> hm_get files (sid, k) = None")
    case True
    then have "delete_file sid p recursive files = (False, files)" by (auto simp: delete_file_def norm)
    with True show ?thesis by (auto simp flip: k_def)
  next
    case False
    then obtain f where f: "hm_get files (sid, k) = Some f" and root: "k \<noteq> ''/''" by auto
    define P where "P e \<longleftrightarrow> \<not> (fst e = sid \<and> (snd e = k \<or> prefix (k @ ''/'') (snd e)))" for e
    have del: "delete_file sid p recursive files =
        (if sf_is_readonly f then (False, files)
         else if sf_is_directory f then
           (if (\<exists>q g. hm_get files (sid, q) = Some g \<and> strict_prefix (segs k) (segs q)) \<and> \<not> recursive then (False, files)
            else (True, filter (\<lambda>(q, _). P q) files))
         else (True, hm_remove (sid, k) files))"
      unfolding kids [OF root, symmetric] using f root
      by (simp add: delete_file_def norm Let_def P_def case_prod_unfold)
    have "hm_get (filter (\<lambda>(q, _). P q) files) (s, q) =
        (if s = sid \<and> (q = k \<or> strict_prefix (segs k) (segs q)) then None else hm_get files (s, q))" if "canonical q" for s q
      using under_iff [OF k that root] by (simp add: get_filter P_def)
    then show ?thesis
      unfolding k_def [symmetric] Let_def del using f root
      by (cases "sf_is_directory f") (auto, metis option.distinct(1))
  qed
qed

theorem delete_removes_subtree_witness:
  "fst (delete_file 1 ''/d'' False demo_store) = False
   \<and> fst (delete_file 1 ''/d'' True demo_store) = True
   \<and> hm_get (snd (delete_file 1 ''/d'' True demo_store)) (1, ''/d/e/f'') = None"
proof -
  have wf: "files_wf demo_store" by code_simp
  have ev: "fst (delete_file 1 ''/d'' False demo_store) = False" "fst (delete_file 1 ''/d'' True demo_store) = True"
    "to_session_path ''/d'' = ''/d''" "canonical ''/d/e/f''" "segs ''/d/e/f'' = [''d'', ''e'', ''f'']" "segs ''/d'' = [''d'']"
    "map_option sf_is_directory (hm_get demo_store (1, ''/d'')) = Some True"
    by code_simp+
  have "hm_get (snd (delete_file 1 ''/d'' True demo_store)) (1, ''/d/e/f'') =
      (if 1 = (1::nat) \<and> (''/d/e/f'' = ''/d'' \<or> sf_is_directory (the (hm_get demo_store (1, ''/d'')))
          \<and> strict_prefix (segs ''/d'') (segs ''/d/e/f'')) then None else hm_get demo_store (1, ''/d/e/f''))"
    using delete_removes_subtree [OF wf, of "''/d''" 1 True] ev(2-4) unfolding Let_def by metis
  with ev show ?thesis by auto
qed

text \<open>
  A write below a directory called \<open>workspace\<close> is lost. The write normalises its path twice, a
  read once, so that the alias is removed twice on the way in: the file lands at the top of the
  session, overwriting what is there, and the path that was written reads as missing.
\<close>

theorem nested_workspace_write_lost:
  assumes "seg_ok g" and "\<not> is_whitespace (last g)" and "g \<noteq> ''workspace''"
  shows "\<exists>f files'. write_file env sid (''/workspace/workspace/'' @ g) c e [] = (Inr f, files')
    \<and> read_file now sid (''/workspace/workspace/'' @ g) files' = None
    \<and> read_file now sid (''/'' @ g) files' = Some f \<and> sf_path f = ''/'' @ g"
proof -
  define p where "p = ''/workspace/workspace/'' @ g"
  have g: "g \<noteq> []" "CHR ''/'' \<notin> set g" using assms(1) by (auto simp: seg_ok_def)
  have slash: "\<not> is_whitespace (CHR ''/'')" by (simp add: is_whitespace_def)
  have segs: "segs p = [''workspace'', ''workspace'', g]" "segs (''/workspace/'' @ g) = [''workspace'', g]"
    "segs (''/'' @ g) = [g]"
    using assms(1) segs_seg [of "''workspace''" "''workspace/'' @ g"] segs_seg [of "''workspace''" g]
    by (simp_all add: p_def segs_single seg_ok_def)
  have trim: "trim p = p" "trim (''/workspace/'' @ g) = ''/workspace/'' @ g" "trim (''/'' @ g) = ''/'' @ g"
    using g assms(2) slash by (auto simp: p_def intro!: trim_id)
  have "prefix ''/'' p" by (simp add: p_def)
  then have norm: "to_session_path p = ''/workspace/'' @ g" "to_session_path (''/workspace/'' @ g) = ''/'' @ g"
    "to_session_path (''/'' @ g) = ''/'' @ g"
    using segs assms(3) g by (simp_all only: to_session_path_segs trim dealias_def) (simp_all add: path_of_def)
  have ws: "to_session_path ''/workspace'' = ''/''" by code_simp
  have split: "split_text CHR ''/'' (trim_start_matches CHR ''/'' (''/workspace/'' @ g)) = [''workspace'', g]"
    using split_canonical(1) [of "[''workspace'', g]"] assms(1) by (simp add: seg_ok_def)
  have "ensure_parent_directories env sid (''/workspace/'' @ g) [] = []"
    using g by (simp add: ensure_parent_directories_def split insert_directory_if_missing_def normalize_path_def ws Let_def
        del: append_Cons append_Nil) (simp add: insert_directory_if_missing_def normalize_path_def ws)
  then show ?thesis
    unfolding p_def [symmetric] using norm g
    by (simp add: write_cases Let_def read_file_def normalize_path_def upsert_file_def)
qed

theorem nested_workspace_write_lost_witness:
  "\<exists>f files'. write_file demo_fs_env 1 ''/workspace/workspace/x'' ''v'' ''text'' [] = (Inr f, files')
    \<and> read_file 9 1 ''/workspace/workspace/x'' files' = None \<and> read_file 9 1 ''/x'' files' = Some f"
  using nested_workspace_write_lost [of "''x''" demo_fs_env 1 "''v''" "''text''" 9]
  by (auto simp: seg_ok_def is_whitespace_def)

end
