(* ===== verification/Session_Files.thy ===== *)
theory Session_Files
  imports File_Store
begin

text \<open>
  The filesystem contract of the tools (\<open>crates/core/src/session_files.rs\<close>): the operations of the
  trait \<open>SessionFileSystem\<close> as a record over the state of the implementation, the default bodies of
  the trait, the decorator that pins a workspace, and the in-memory store as an implementation. The
  laws a caller relies on are the locale \<open>file_backend\<close>.
\<close>

section \<open>The trait\<close>

record 's fs_api =
  fa_display_root :: string
  fa_display_path :: "string \<Rightarrow> string"
  fa_resolve_path :: "string \<Rightarrow> string"
  fa_is_mount_resolver :: bool
  fa_read :: "uuid \<Rightarrow> string \<Rightarrow> 's \<Rightarrow> fs_error + session_file option"
  fa_write :: "uuid \<Rightarrow> string \<Rightarrow> string \<Rightarrow> string \<Rightarrow> ('s, fs_error, session_file) op"
  fa_write_if_matches ::
    "uuid \<Rightarrow> string \<Rightarrow> string \<Rightarrow> string \<Rightarrow> string \<Rightarrow> string \<Rightarrow> ('s, fs_error, session_file option) op"
  fa_delete :: "uuid \<Rightarrow> string \<Rightarrow> bool \<Rightarrow> ('s, fs_error, bool) op"
  fa_list :: "uuid \<Rightarrow> string \<Rightarrow> 's \<Rightarrow> fs_error + file_info list"
  fa_stat :: "uuid \<Rightarrow> string \<Rightarrow> 's \<Rightarrow> fs_error + file_stat option"
  fa_grep :: "uuid \<Rightarrow> string \<Rightarrow> string option \<Rightarrow> 's \<Rightarrow> fs_error + grep_match list"
  fa_grep_opts :: "uuid \<Rightarrow> string \<Rightarrow> grep_options \<Rightarrow> 's \<Rightarrow> fs_error + grep_search_result"
  fa_create :: "uuid \<Rightarrow> string \<Rightarrow> ('s, fs_error, file_info) op"
  fa_seed :: "uuid \<Rightarrow> initial_file \<Rightarrow> ('s, fs_error, unit) op"

text \<open>The provided methods of the trait.\<close>

definition default_display_root :: string where
  "default_display_root = WORKSPACE_PREFIX"

definition default_display_path :: "string \<Rightarrow> string" where
  "default_display_path path = to_display_path path"

definition default_resolve_path :: "string \<Rightarrow> string" where
  "default_resolve_path input = to_session_path input"

definition default_write_if_matches ::
  "(uuid \<Rightarrow> string \<Rightarrow> 's \<Rightarrow> fs_error + session_file option)
    \<Rightarrow> (uuid \<Rightarrow> string \<Rightarrow> string \<Rightarrow> string \<Rightarrow> ('s, fs_error, session_file) op)
    \<Rightarrow> uuid \<Rightarrow> string \<Rightarrow> string \<Rightarrow> string \<Rightarrow> string \<Rightarrow> string \<Rightarrow> ('s, fs_error, session_file option) op" where
  "default_write_if_matches read_method write_method sid path expected_content expected_encoding content encoding s =
     (case read_method sid path s of
        Inl err \<Rightarrow> (Inl err, s)
      | Inr None \<Rightarrow> (Inr None, s)
      | Inr (Some existing) \<Rightarrow>
          if sf_is_directory existing then (Inr None, s)
          else if get_or [] (sf_content existing) \<noteq> expected_content \<or> sf_encoding existing \<noteq> expected_encoding
          then (Inr None, s)
          else bind_op (write_method sid path content encoding) (\<lambda>f. ret_op (Some f)) s)"

definition default_grep_opts ::
  "json_size \<Rightarrow> 's fs_api \<Rightarrow> uuid \<Rightarrow> string \<Rightarrow> grep_options \<Rightarrow> 's \<Rightarrow> fs_error + grep_search_result" where
  "default_grep_opts js api sid pattern options s =
     (if go_before_context options \<noteq> 0 \<or> go_after_context options \<noteq> 0 then Inl GrepContextUnsupported
      else bind_result (fa_grep api sid pattern (go_path_pattern options) s)
             (\<lambda>found. Inr (bound_grep_matches js found options)))"

definition default_seed :: "'s fs_api \<Rightarrow> uuid \<Rightarrow> initial_file \<Rightarrow> ('s, fs_error, unit) op" where
  "default_seed api sid file s =
     (if if_is_readonly file then (Inl ReadOnlySeedUnsupported, s)
      else bind_op (fa_write api sid (if_path file) (if_content file) (if_encoding file)) (\<lambda>_. ret_op ()) s)"

section \<open>The workspace decorator\<close>

definition workspace_scoped :: "'s fs_api \<Rightarrow> uuid \<Rightarrow> 's fs_api" where
  "workspace_scoped inner key =
     \<lparr>fa_display_root = fa_display_root inner,
      fa_display_path = fa_display_path inner,
      fa_resolve_path = fa_resolve_path inner,
      fa_is_mount_resolver = fa_is_mount_resolver inner,
      fa_read = (\<lambda>_. fa_read inner key),
      fa_write = (\<lambda>_. fa_write inner key),
      fa_write_if_matches = (\<lambda>_. fa_write_if_matches inner key),
      fa_delete = (\<lambda>_. fa_delete inner key),
      fa_list = (\<lambda>_. fa_list inner key),
      fa_stat = (\<lambda>_. fa_stat inner key),
      fa_grep = (\<lambda>_. fa_grep inner key),
      fa_grep_opts = (\<lambda>_. fa_grep_opts inner key),
      fa_create = (\<lambda>_. fa_create inner key),
      fa_seed = (\<lambda>_. fa_seed inner key)\<rparr>"

section \<open>The in-memory store as an implementation\<close>

text \<open>\<open>write_file_if_content_matches\<close> is not overridden: it is the trait's body over the store's methods.\<close>

definition memory_api :: "fs_env \<Rightarrow> ('r, 'g) search_engine \<Rightarrow> json_size \<Rightarrow> file_store fs_api" where
  "memory_api env eng js =
     \<lparr>fa_display_root = default_display_root,
      fa_display_path = default_display_path,
      fa_resolve_path = default_resolve_path,
      fa_is_mount_resolver = False,
      fa_read = (\<lambda>sid p s. Inr (read_file (en_now env) sid p s)),
      fa_write = write_file env,
      fa_write_if_matches =
        default_write_if_matches (\<lambda>sid p s. Inr (read_file (en_now env) sid p s)) (write_file env),
      fa_delete = (\<lambda>sid p r s. case delete_file sid p r s of (b, s) \<Rightarrow> (Inr b, s)),
      fa_list = (\<lambda>sid p s. Inr (list_directory (en_now env) sid p s)),
      fa_stat = (\<lambda>sid p s. Inr (stat_file (en_now env) sid p s)),
      fa_grep = grep_files eng,
      fa_grep_opts = grep_files_with_options eng js,
      fa_create = create_directory env,
      fa_seed = (\<lambda>sid f s. (Inr (), seed_initial_file env sid f s))\<rparr>"

section \<open>The contract\<close>

text \<open>
  What a caller of a filesystem relies on: on a sound state, a write to a good key that succeeds
  reads back as the written file, with the given content and encoding; it leaves every other
  session, and every key of the session that is neither this one nor missing, as it was.
\<close>

locale file_backend =
  fixes api :: "'s fs_api"
    and sound :: "'s \<Rightarrow> bool"
    and good :: "string \<Rightarrow> bool"
  assumes read_total: "sound s \<Longrightarrow> \<exists>f. fa_read api sid p s = Inr f"
    and write_sound: "sound s \<Longrightarrow> good k \<Longrightarrow> fa_write api sid k c e s = (r, s') \<Longrightarrow> sound s'"
    and write_back: "sound s \<Longrightarrow> good k \<Longrightarrow> fa_write api sid k c e s = (Inr f, s') \<Longrightarrow>
      fa_read api sid k s' = Inr (Some f) \<and> sf_content f = Some c \<and> sf_encoding f = e \<and> \<not> sf_is_directory f"
    and write_frame: "sound s \<Longrightarrow> good k \<Longrightarrow> fa_write api sid k c e s = (r, s') \<Longrightarrow> good q \<Longrightarrow>
      sid' \<noteq> sid \<or> q \<noteq> k \<Longrightarrow> fa_read api sid' q s = Inr (Some f) \<Longrightarrow> fa_read api sid' q s' = Inr (Some f)"
begin

text \<open>The provided compare-and-write, over any such backend.\<close>

lemma default_cas_hit:
  assumes "sound s" and "good k" and "fa_read api sid k s = Inr (Some f)" and "\<not> sf_is_directory f"
    and "get_or [] (sf_content f) = old" and "sf_encoding f = enc"
    and "default_write_if_matches (fa_read api) (fa_write api) sid k old enc c e s = (Inr (Some g), s')"
  shows "fa_read api sid k s' = Inr (Some g) \<and> sf_content g = Some c \<and> sf_encoding g = e"
  using assms write_back [OF assms(1,2)]
  by (auto simp: default_write_if_matches_def bind_op_eq_Inr)

lemma default_cas_miss:
  assumes "fa_read api sid k s = Inr (Some f)"
    and "sf_is_directory f \<or> get_or [] (sf_content f) \<noteq> old \<or> sf_encoding f \<noteq> enc"
  shows "default_write_if_matches (fa_read api) (fa_write api) sid k old enc c e s = (Inr None, s)"
  using assms by (auto simp: default_write_if_matches_def)

lemma writes_commute_reads:
  assumes "sound s" and "good k" and "good q" and "k \<noteq> q"
    and "fa_write api sid k c e s = (Inr f, s1)" and "fa_write api sid q d e' s1 = (Inr g, s2)"
  shows "fa_read api sid k s2 = Inr (Some f) \<and> fa_read api sid q s2 = Inr (Some g)"
  using assms write_sound write_back write_frame by metis

end

definition plain_file_key :: "string \<Rightarrow> bool" where
  "plain_file_key k \<longleftrightarrow> plain_key k \<and> k \<noteq> ''/''"

lemma memory_write_cases:
  assumes "plain_file_key k" and "write_file env sid k c e files = (r, files')"
  obtains (refused) g where "r = Inl (ReadOnlyFile k)" "files' = ensure_parent_directories env sid k files"
      "hm_get files (sid, k) = Some g" "sf_is_readonly g"
  | (written) f where "r = Inr f" "sf_content f = Some c" "sf_encoding f = e" "\<not> sf_is_directory f"
      "files' = hm_insert (sid, k) f (ensure_parent_directories env sid k files)"
proof -
  have k: "plain_key k" "k \<noteq> ''/''" "to_session_path k = k" "canonical k"
    using assms(1) plain_normalize by (auto simp: plain_file_key_def plain_key_def)
  then have "hm_get (ensure_parent_directories env sid k files) (sid, k) = hm_get files (sid, k)"
    using ensure_parents_get [of k k env sid files sid] by simp
  with assms(2) k that show thesis
    by (auto simp: write_cases Let_def read_file_def normalize_path_def upsert_file_def
        split: if_splits option.splits)
qed

lemma memory_frame:
  assumes "plain_file_key k" and "plain_file_key q" and "write_file env sid k c e files = (r, files')"
    and "sid' \<noteq> sid \<or> q \<noteq> k" and "hm_get files (sid', q) = Some g"
  shows "hm_get files' (sid', q) = Some g"
proof -
  have "hm_get (ensure_parent_directories env sid k files) (sid', q) = Some g"
    using ensure_parents_get [of k q env sid files sid'] assms by (simp add: plain_file_key_def plain_key_def)
  with assms(3,4) show ?thesis by (cases rule: memory_write_cases [OF assms(1,3)]) auto
qed

lemma memory_api_simps [simp]:
  "fa_read (memory_api env eng js) sid p s = Inr (read_file (en_now env) sid p s)"
  "fa_write (memory_api env eng js) = write_file env"
  "fa_write_if_matches (memory_api env eng js)
     = default_write_if_matches (fa_read (memory_api env eng js)) (fa_write (memory_api env eng js))"
  by (simp_all add: memory_api_def)

lemma read_plain: "plain_file_key k \<Longrightarrow> read_file now sid k files = hm_get files (sid, k)"
  using plain_normalize [of k] by (simp add: read_file_def normalize_path_def plain_file_key_def)

interpretation memory: file_backend "memory_api env eng js" files_wf plain_file_key
  for env :: fs_env and eng :: "('r, 'g) search_engine" and js :: json_size
proof unfold_locales
  fix files files' :: file_store and k q c e :: string and sid sid' :: uuid and r f
  show "\<exists>f. fa_read (memory_api env eng js) sid k files = Inr f" by simp
  assume wf: "files_wf files" and k: "plain_file_key k"
  show "files_wf files'" if "fa_write (memory_api env eng js) sid k c e files = (r, files')"
    using fs_apply_wf [OF wf, of "WriteOp env sid k c e"] that by simp
  show "fa_read (memory_api env eng js) sid k files' = Inr (Some f) \<and> sf_content f = Some c \<and> sf_encoding f = e
      \<and> \<not> sf_is_directory f"
    if w: "fa_write (memory_api env eng js) sid k c e files = (Inr f, files')"
    using w k by (auto simp: read_plain elim: memory_write_cases [OF k, of env sid c e files "Inr f" files'])
  show "fa_read (memory_api env eng js) sid' q files' = Inr (Some f)"
    if "fa_write (memory_api env eng js) sid k c e files = (r, files')" "plain_file_key q" "sid' \<noteq> sid \<or> q \<noteq> k"
      "fa_read (memory_api env eng js) sid' q files = Inr (Some f)"
    using that memory_frame [OF k, of q env sid c e files r files' sid' f] by (simp add: read_plain)
qed

end
