(* ===== verification/Mount_Fs.thy ===== *)
theory Mount_Fs
  imports Session_Files
begin

text \<open>
  The mount resolver (\<open>crates/core/src/mount_fs.rs\<close>): virtual paths, the mount table, dispatch to the
  longest matching mount, and the presentation of paths to the model. Backends are named by a type
  of their own, with one state each; what a backend does is its record of operations.
\<close>

section \<open>Virtual paths\<close>

definition WORKSPACE_MOUNT :: string where "WORKSPACE_MOUNT = WORKSPACE_PREFIX"

definition combine_path :: "string \<Rightarrow> string \<Rightarrow> string" where
  "combine_path input cwd = (if prefix ''/'' input then input else trim_end_matches CHR ''/'' cwd @ ''/'' @ input)"

definition push_segment :: "string \<Rightarrow> string list \<Rightarrow> string list" where
  "push_segment segment stack =
     (if segment = [] \<or> segment = ''.'' then stack
      else if segment = ''..'' then butlast stack
      else stack @ [segment])"

definition normalize_virtual :: "string \<Rightarrow> string \<Rightarrow> string" where
  "normalize_virtual input cwd =
     (let stack = fold push_segment (split_text CHR ''/'' (combine_path input cwd)) [] in
      if stack = [] then ''/'' else ''/'' @ join_text ''/'' stack)"

definition reject_additional_root_traversal :: "string \<Rightarrow> string \<Rightarrow> fs_error + unit" where
  "reject_additional_root_traversal input cwd =
     (let segments = filter (\<lambda>segment. segment \<noteq> []) (split_text CHR ''/'' (combine_path input cwd)) in
      if list_ex (\<lambda>window_start. segments ! window_start = ''workspace'' \<and> segments ! (window_start + 1) = ''roots''
            \<and> segments ! (window_start + 2) \<noteq> [] \<and> ''..'' \<in> set (drop (window_start + 3) segments))
           [0..<length segments - 2]
      then Inl (TraversalRejected input) else Inr ())"

definition mount_suffix :: "string \<Rightarrow> string \<Rightarrow> string option" where
  "mount_suffix mount_point virtual_path =
     (if mount_point = ''/'' then Some virtual_path
      else if virtual_path = mount_point then Some ''/''
      else case strip_prefix mount_point virtual_path of
             Some rest \<Rightarrow> if prefix ''/'' rest then Some rest else None
           | None \<Rightarrow> None)"

definition join_backend_path :: "string \<Rightarrow> string \<Rightarrow> string" where
  "join_backend_path backend_root rest =
     (if backend_root = ''/'' then rest else if rest = ''/'' then backend_root else backend_root @ rest)"

definition display_backend_path :: "string \<Rightarrow> string \<Rightarrow> string" where
  "display_backend_path display_root path =
     (let normalized = normalize_virtual path ''/'' in
      if normalized = ''/'' then display_root
      else if display_root = ''/'' then normalized
      else trim_end_matches CHR ''/'' display_root @ normalized)"

section \<open>The mount table\<close>

datatype display_policy = WorkspaceAlias | BackendNative

record 'b mount =
  mt_point :: string
  mt_backend :: 'b
  mt_root :: string
  mt_primary :: bool

record 'b resolved_mount =
  rm_point :: string
  rm_backend :: 'b
  rm_root :: string
  rm_path :: string
  rm_primary :: bool

record 'b mount_fs =
  mf_mounts :: "'b mount list"
  mf_primary :: 'b
  mf_cwd :: string
  mf_policy :: display_policy

definition sort_mounts :: "'b mount_fs \<Rightarrow> 'b mount_fs" where
  "sort_mounts m = m\<lparr>mf_mounts := sort_key (\<lambda>mt. - int (utf8_len (mt_point mt))) (mf_mounts m)\<rparr>"

definition mount_fs_new :: "'b \<Rightarrow> 'b mount_fs" where
  "mount_fs_new workspace =
     sort_mounts
       \<lparr>mf_mounts =
          [\<lparr>mt_point = ''/'', mt_backend = workspace, mt_root = ''/'', mt_primary = True\<rparr>,
           \<lparr>mt_point = WORKSPACE_MOUNT, mt_backend = workspace, mt_root = ''/'', mt_primary = True\<rparr>],
        mf_primary = workspace, mf_cwd = WORKSPACE_MOUNT, mf_policy = WorkspaceAlias\<rparr>"

definition with_display_policy :: "display_policy \<Rightarrow> 'b mount_fs \<Rightarrow> 'b mount_fs" where
  "with_display_policy policy m = m\<lparr>mf_policy := policy\<rparr>"

definition with_backend_display :: "'b mount_fs \<Rightarrow> 'b mount_fs" where
  "with_backend_display m = with_display_policy BackendNative m"

definition with_mount :: "string \<Rightarrow> 'b \<Rightarrow> string \<Rightarrow> 'b mount_fs \<Rightarrow> 'b mount_fs" where
  "with_mount mount_point backend backend_root m =
     sort_mounts (m\<lparr>mf_mounts := mf_mounts m @
       [\<lparr>mt_point = normalize_virtual mount_point ''/'', mt_backend = backend,
         mt_root = normalize_virtual backend_root ''/'', mt_primary = False\<rparr>]\<rparr>)"

fun resolve_in :: "string \<Rightarrow> 'b mount list \<Rightarrow> 'b resolved_mount option" where
  "resolve_in virtual_path [] = None"
| "resolve_in virtual_path (mt # mounts) =
     (case mount_suffix (mt_point mt) virtual_path of
        Some rest \<Rightarrow>
          Some \<lparr>rm_point = mt_point mt, rm_backend = mt_backend mt, rm_root = mt_root mt,
                rm_path = join_backend_path (mt_root mt) rest, rm_primary = mt_primary mt\<rparr>
      | None \<Rightarrow> resolve_in virtual_path mounts)"

definition resolve :: "'b mount_fs \<Rightarrow> string \<Rightarrow> fs_error + 'b resolved_mount" where
  "resolve m input =
     bind_result (reject_additional_root_traversal input (mf_cwd m)) (\<lambda>_.
       let virtual_path = normalize_virtual input (mf_cwd m) in
       case resolve_in virtual_path (mf_mounts m) of
         Some r \<Rightarrow> Inr r
       | None \<Rightarrow> Inr \<lparr>rm_point = ''/'', rm_backend = mf_primary m, rm_root = ''/'',
                     rm_path = virtual_path, rm_primary = True\<rparr>)"

definition grep_mounts :: "'b mount_fs \<Rightarrow> 'b resolved_mount list" where
  "grep_mounts m =
     foldl (\<lambda>out mt.
       if list_ex (\<lambda>r. rm_backend r = mt_backend mt \<and> rm_root r = mt_root mt) out then out
       else out @ [\<lparr>rm_point = mt_point mt, rm_backend = mt_backend mt, rm_root = mt_root mt,
                    rm_path = mt_root mt, rm_primary = mt_primary mt\<rparr>])
       [] (rev (mf_mounts m))"

section \<open>Results in the virtual namespace\<close>

definition to_virtual_output_path :: "'b resolved_mount \<Rightarrow> string \<Rightarrow> string" where
  "to_virtual_output_path r backend_path =
     (let normalized = normalize_virtual backend_path ''/'' in
      if rm_primary r then normalized
      else join_backend_path (rm_point r) (get_or normalized (mount_suffix (rm_root r) normalized)))"

definition map_session_file :: "'b resolved_mount \<Rightarrow> session_file \<Rightarrow> session_file" where
  "map_session_file r f =
     (let p = to_virtual_output_path r (sf_path f) in f\<lparr>sf_path := p, sf_name := name_from_path p\<rparr>)"

definition map_file_info :: "'b resolved_mount \<Rightarrow> file_info \<Rightarrow> file_info" where
  "map_file_info r f =
     (let p = to_virtual_output_path r (fi_path f) in f\<lparr>fi_path := p, fi_name := name_from_path p\<rparr>)"

definition map_file_stat :: "'b resolved_mount \<Rightarrow> file_stat \<Rightarrow> file_stat" where
  "map_file_stat r f =
     (let p = to_virtual_output_path r (fst_path f) in f\<lparr>fst_path := p, fst_name := name_from_path p\<rparr>)"

definition map_grep_match :: "'b resolved_mount \<Rightarrow> grep_match \<Rightarrow> grep_match" where
  "map_grep_match r g = g\<lparr>gm_path := to_virtual_output_path r (gm_path g)\<rparr>"

definition map_grep_result :: "'b resolved_mount \<Rightarrow> grep_search_result \<Rightarrow> grep_search_result" where
  "map_grep_result r res =
     res\<lparr>gr_matches := map (map_grep_match r) (gr_matches res),
         gr_blocks := map (\<lambda>b. b\<lparr>gb_path := to_virtual_output_path r (gb_path b)\<rparr>) (gr_blocks res)\<rparr>"

section \<open>The resolver as a filesystem\<close>

definition present_primary_key :: "('b \<Rightarrow> 's fs_api) \<Rightarrow> 'b mount_fs \<Rightarrow> string \<Rightarrow> string" where
  "present_primary_key apis m canonical_key =
     (case mf_policy m of
        WorkspaceAlias \<Rightarrow> display_backend_path WORKSPACE_MOUNT canonical_key
      | BackendNative \<Rightarrow> fa_display_path (apis (mf_primary m)) canonical_key)"

definition mount_display_root :: "('b \<Rightarrow> 's fs_api) \<Rightarrow> 'b mount_fs \<Rightarrow> string" where
  "mount_display_root apis m =
     (case mf_policy m of
        WorkspaceAlias \<Rightarrow> WORKSPACE_MOUNT
      | BackendNative \<Rightarrow> fa_display_root (apis (mf_primary m)))"

definition mount_resolve_path :: "('b \<Rightarrow> 's fs_api) \<Rightarrow> 'b mount_fs \<Rightarrow> string \<Rightarrow> string" where
  "mount_resolve_path apis m input =
     (let virtual_path = normalize_virtual input (mf_cwd m) in
      case resolve m virtual_path of
        Inr r \<Rightarrow> if rm_primary r then present_primary_key apis m (rm_path r) else virtual_path
      | Inl _ \<Rightarrow> virtual_path)"

definition mount_display_path :: "('b \<Rightarrow> 's fs_api) \<Rightarrow> 'b mount_fs \<Rightarrow> string \<Rightarrow> string" where
  "mount_display_path apis m path =
     (let virtual_path = normalize_virtual path ''/'' in
      case resolve m virtual_path of
        Inr r \<Rightarrow> if \<not> rm_primary r then virtual_path else present_primary_key apis m virtual_path
      | Inl _ \<Rightarrow> present_primary_key apis m virtual_path)"

text \<open>An operation on one backend, and a list of fallible results in order.\<close>

definition on_backend :: "'b \<Rightarrow> ('s, fs_error, 'a) op \<Rightarrow> ('b \<Rightarrow> 's, fs_error, 'a) op" where
  "on_backend b f st = (case f (st b) of (r, s') \<Rightarrow> (r, st(b := s')))"

definition with_resolved ::
  "'b mount_fs \<Rightarrow> string \<Rightarrow> ('b resolved_mount \<Rightarrow> ('t, fs_error, 'a) op) \<Rightarrow> ('t, fs_error, 'a) op" where
  "with_resolved m path f st = (case resolve m path of Inl e \<Rightarrow> (Inl e, st) | Inr r \<Rightarrow> f r st)"

definition mount_read :: "('b \<Rightarrow> 's fs_api) \<Rightarrow> 'b mount_fs \<Rightarrow> uuid \<Rightarrow> string \<Rightarrow> ('b \<Rightarrow> 's) \<Rightarrow> fs_error + session_file option" where
  "mount_read apis m sid path st =
     bind_result (resolve m path) (\<lambda>r.
     bind_result (fa_read (apis (rm_backend r)) sid (rm_path r) (st (rm_backend r))) (\<lambda>file.
     Inr (map_option (map_session_file r) file)))"

definition mount_write ::
  "('b \<Rightarrow> 's fs_api) \<Rightarrow> 'b mount_fs \<Rightarrow> uuid \<Rightarrow> string \<Rightarrow> string \<Rightarrow> string \<Rightarrow> ('b \<Rightarrow> 's, fs_error, session_file) op" where
  "mount_write apis m sid path content encoding =
     with_resolved m path (\<lambda>r.
       bind_op (on_backend (rm_backend r) (fa_write (apis (rm_backend r)) sid (rm_path r) content encoding))
         (\<lambda>f. ret_op (map_session_file r f)))"

definition mount_write_if_matches ::
  "('b \<Rightarrow> 's fs_api) \<Rightarrow> 'b mount_fs \<Rightarrow> uuid \<Rightarrow> string \<Rightarrow> string \<Rightarrow> string \<Rightarrow> string \<Rightarrow> string
    \<Rightarrow> ('b \<Rightarrow> 's, fs_error, session_file option) op" where
  "mount_write_if_matches apis m sid path expected_content expected_encoding content encoding =
     with_resolved m path (\<lambda>r.
       bind_op (on_backend (rm_backend r) (fa_write_if_matches (apis (rm_backend r)) sid (rm_path r)
           expected_content expected_encoding content encoding))
         (\<lambda>f. ret_op (map_option (map_session_file r) f)))"

definition mount_delete :: "('b \<Rightarrow> 's fs_api) \<Rightarrow> 'b mount_fs \<Rightarrow> uuid \<Rightarrow> string \<Rightarrow> bool \<Rightarrow> ('b \<Rightarrow> 's, fs_error, bool) op" where
  "mount_delete apis m sid path recursive =
     with_resolved m path (\<lambda>r.
       on_backend (rm_backend r) (fa_delete (apis (rm_backend r)) sid (rm_path r) recursive))"

definition mount_list :: "('b \<Rightarrow> 's fs_api) \<Rightarrow> 'b mount_fs \<Rightarrow> uuid \<Rightarrow> string \<Rightarrow> ('b \<Rightarrow> 's) \<Rightarrow> fs_error + file_info list" where
  "mount_list apis m sid path st =
     bind_result (resolve m path) (\<lambda>r.
     bind_result (fa_list (apis (rm_backend r)) sid (rm_path r) (st (rm_backend r))) (\<lambda>infos.
     Inr (map (map_file_info r) infos)))"

definition mount_stat :: "('b \<Rightarrow> 's fs_api) \<Rightarrow> 'b mount_fs \<Rightarrow> uuid \<Rightarrow> string \<Rightarrow> ('b \<Rightarrow> 's) \<Rightarrow> fs_error + file_stat option" where
  "mount_stat apis m sid path st =
     bind_result (resolve m path) (\<lambda>r.
     bind_result (fa_stat (apis (rm_backend r)) sid (rm_path r) (st (rm_backend r))) (\<lambda>stat.
     Inr (map_option (map_file_stat r) stat)))"

definition mount_create :: "('b \<Rightarrow> 's fs_api) \<Rightarrow> 'b mount_fs \<Rightarrow> uuid \<Rightarrow> string \<Rightarrow> ('b \<Rightarrow> 's, fs_error, file_info) op" where
  "mount_create apis m sid path =
     with_resolved m path (\<lambda>r.
       bind_op (on_backend (rm_backend r) (fa_create (apis (rm_backend r)) sid (rm_path r)))
         (\<lambda>info. ret_op (map_file_info r info)))"

definition mount_seed :: "('b \<Rightarrow> 's fs_api) \<Rightarrow> 'b mount_fs \<Rightarrow> uuid \<Rightarrow> initial_file \<Rightarrow> ('b \<Rightarrow> 's, fs_error, unit) op" where
  "mount_seed apis m sid file =
     with_resolved m (if_path file) (\<lambda>r.
       on_backend (rm_backend r) (fa_seed (apis (rm_backend r)) sid (file\<lparr>if_path := rm_path r\<rparr>)))"

subsection \<open>Searching\<close>

definition sort_matches :: "grep_match list \<Rightarrow> grep_match list" where
  "sort_matches found = sort_key (\<lambda>g. (gm_path g, gm_line_number g, gm_line g)) found"

definition grep_mount ::
  "('b \<Rightarrow> 's fs_api) \<Rightarrow> uuid \<Rightarrow> string \<Rightarrow> ('b \<Rightarrow> 's) \<Rightarrow> 'b resolved_mount \<Rightarrow> fs_error + grep_match list" where
  "grep_mount apis sid pattern st r =
     bind_result (fa_grep (apis (rm_backend r)) sid pattern (Some (rm_path r)) (st (rm_backend r)))
       (\<lambda>found. Inr (map (map_grep_match r) found))"

definition mount_grep ::
  "('r, 'g) search_engine \<Rightarrow> ('b \<Rightarrow> 's fs_api) \<Rightarrow> 'b mount_fs \<Rightarrow> uuid \<Rightarrow> string \<Rightarrow> string option \<Rightarrow> ('b \<Rightarrow> 's)
    \<Rightarrow> fs_error + grep_match list" where
  "mount_grep eng apis m sid pattern path_pattern st =
     (case path_pattern of
        Some pp \<Rightarrow>
          (case grep_path_pattern_new (en_glob eng) pp of
             None \<Rightarrow> Inl (InvalidPathPattern pp)
           | Some matcher \<Rightarrow>
               if grep_path_is_glob matcher \<and> (\<not> prefix ''/'' pp \<or> mount_suffix WORKSPACE_MOUNT pp \<noteq> None) then
                 bind_result (collect_results (map (grep_mount apis sid pattern st) (grep_mounts m))) (\<lambda>found.
                 Inr (sort_matches
                   (filter (\<lambda>g. grep_path_is_match (en_glob_match eng) matcher (gm_path g)) (concat found))))
               else
                 bind_result (resolve m pp) (grep_mount apis sid pattern st))
      | None \<Rightarrow>
          bind_result (collect_results (map (grep_mount apis sid pattern st) (grep_mounts m))) (\<lambda>found.
          Inr (sort_matches (concat found))))"

definition mount_grep_opts ::
  "('r, 'g) search_engine \<Rightarrow> json_size \<Rightarrow> ('b \<Rightarrow> 's fs_api) \<Rightarrow> 'b mount_fs \<Rightarrow> uuid \<Rightarrow> string \<Rightarrow> grep_options \<Rightarrow> ('b \<Rightarrow> 's)
    \<Rightarrow> fs_error + grep_search_result" where
  "mount_grep_opts eng js apis m sid pattern options st =
     (let search = (\<lambda>r opts. bind_result
            (fa_grep_opts (apis (rm_backend r)) sid pattern opts (st (rm_backend r))) (\<lambda>res. Inr (map_grep_result r res)));
          general =
            (case path_matcher eng (go_path_pattern options) of
               Inl e \<Rightarrow> Inl e
             | Inr matcher \<Rightarrow>
                 bind_result (collect_results (map (\<lambda>r. search r
                     (options\<lparr>go_offset := 0, go_limit := USIZE_MAX, go_max_bytes := USIZE_MAX,
                              go_path_pattern := Some (rm_path r)\<rparr>)) (grep_mounts m))) (\<lambda>results.
                 Inr (merge_grep_search_results js
                   (case matcher of
                      None \<Rightarrow> results
                    | Some mt \<Rightarrow>
                        map (\<lambda>res. res
                          \<lparr>gr_matches := filter (\<lambda>g. grep_path_is_match (en_glob_match eng) mt (gm_path g)) (gr_matches res),
                           gr_blocks := filter (\<lambda>b. grep_path_is_match (en_glob_match eng) mt (gb_path b)) (gr_blocks res)\<rparr>)
                          results)
                   options)));
          mounted =
            (case grep_mounts m of
               [r] \<Rightarrow> search r (options\<lparr>go_path_pattern :=
                        map_option (\<lambda>p. get_or p (mount_suffix WORKSPACE_MOUNT p)) (go_path_pattern options)\<rparr>)
             | _ \<Rightarrow> general)
      in case go_path_pattern options of
           Some pp \<Rightarrow>
             if prefix ''/'' pp \<and> mount_suffix WORKSPACE_MOUNT pp = None then
               bind_result (resolve m pp) (\<lambda>r. search r (options\<lparr>go_path_pattern := Some (rm_path r)\<rparr>))
             else mounted
         | None \<Rightarrow> mounted)"

definition mount_api ::
  "('r, 'g) search_engine \<Rightarrow> json_size \<Rightarrow> ('b \<Rightarrow> 's fs_api) \<Rightarrow> 'b mount_fs \<Rightarrow> ('b \<Rightarrow> 's) fs_api" where
  "mount_api eng js apis m =
     \<lparr>fa_display_root = mount_display_root apis m,
      fa_display_path = mount_display_path apis m,
      fa_resolve_path = mount_resolve_path apis m,
      fa_is_mount_resolver = True,
      fa_read = mount_read apis m,
      fa_write = mount_write apis m,
      fa_write_if_matches = mount_write_if_matches apis m,
      fa_delete = mount_delete apis m,
      fa_list = mount_list apis m,
      fa_stat = mount_stat apis m,
      fa_grep = mount_grep eng apis m,
      fa_grep_opts = mount_grep_opts eng js apis m,
      fa_create = mount_create apis m,
      fa_seed = mount_seed apis m\<rparr>"

section \<open>Clean paths\<close>

text \<open>A path in normal form without \<open>.\<close> and \<open>..\<close> segments.\<close>

definition clean_segs :: "string list \<Rightarrow> bool" where
  "clean_segs gs \<longleftrightarrow> list_all (\<lambda>g. seg_ok g \<and> g \<noteq> ''.'' \<and> g \<noteq> ''..'') gs"

definition clean_path :: "string \<Rightarrow> bool" where
  "clean_path p \<longleftrightarrow> canonical p \<and> clean_segs (segs p)"

lemma clean_segs_simps [simp]:
  "clean_segs []" "clean_segs (a @ b) \<longleftrightarrow> clean_segs a \<and> clean_segs b"
  "clean_segs (g # gs) \<longleftrightarrow> seg_ok g \<and> g \<noteq> ''.'' \<and> g \<noteq> ''..'' \<and> clean_segs gs"
  by (auto simp: clean_segs_def)

lemma clean_seg_ok: "clean_segs gs \<Longrightarrow> \<forall>g \<in> set gs. seg_ok g"
  by (auto simp: clean_segs_def list_all_iff)

lemma clean_path_of [simp]: "clean_segs gs \<Longrightarrow> clean_path (path_of gs)"
  using segs_path_of [of gs] clean_seg_ok [of gs] by (simp add: clean_path_def canonical_def)

lemma clean_pathD: "clean_path p \<Longrightarrow> p = path_of (segs p) \<and> clean_segs (segs p)"
  by (simp add: clean_path_def canonical_def)

lemma push_segment_clean:
  "clean_segs stack \<Longrightarrow> CHR ''/'' \<notin> set g \<Longrightarrow> clean_segs (push_segment g stack)"
proof -
  assume "clean_segs stack" "CHR ''/'' \<notin> set g"
  moreover have "clean_segs (butlast stack)" using \<open>clean_segs stack\<close>
    by (auto simp: clean_segs_def list_all_iff dest: in_set_butlastD)
  ultimately show ?thesis by (simp add: push_segment_def seg_ok_def)
qed

lemma fold_push_clean:
  "clean_segs stack \<Longrightarrow> \<forall>g \<in> set gs. CHR ''/'' \<notin> set g \<Longrightarrow> clean_segs (fold push_segment gs stack)"
  by (induction gs arbitrary: stack) (simp_all add: push_segment_clean)

lemma fold_push_id: "clean_segs gs \<Longrightarrow> fold push_segment gs stack = stack @ gs"
  by (induction gs arbitrary: stack) (simp_all add: push_segment_def seg_ok_def)

lemma slash_join: "gs \<noteq> [] \<Longrightarrow> ''/'' @ join_text ''/'' gs = slashed gs"
  using join_slashed [of gs] by (simp add: join_text_Cons)

lemma normalize_virtual_stack:
  "normalize_virtual input cwd = path_of (fold push_segment (split_text CHR ''/'' (combine_path input cwd)) [])"
  using slash_join by (simp add: normalize_virtual_def path_of_def Let_def)

lemma normalize_clean [simp]: "clean_path (normalize_virtual input cwd)"
  unfolding normalize_virtual_stack using split_text_free by (intro clean_path_of fold_push_clean) auto

lemma normalize_path_of [simp]: "clean_segs gs \<Longrightarrow> normalize_virtual (path_of gs) cwd = path_of gs"
proof (cases "gs = []")
  case True
  then show ?thesis by (simp add: normalize_virtual_stack combine_path_def path_of_def push_segment_def)
next
  case False
  assume gs: "clean_segs gs"
  have "prefix ''/'' (slashed gs)" using False by (cases gs) simp_all
  then show ?thesis
    using split_canonical(2) [OF clean_seg_ok [OF gs] False] fold_push_id [OF gs] False
    by (simp add: normalize_virtual_stack combine_path_def path_of_def push_segment_def)
qed

lemma normalize_idem: "clean_path p \<Longrightarrow> normalize_virtual p cwd = p"
  using clean_pathD normalize_path_of by metis

lemma mount_suffix_segs:
  assumes "clean_segs a" and "clean_segs v"
  shows "mount_suffix (path_of a) (path_of v) = (if prefix a v then Some (path_of (drop (length a) v)) else None)"
proof -
  have ok: "segs (path_of a) = a" "segs (path_of v) = v" using assms clean_seg_ok by simp_all
  have can: "canonical (path_of a)" "canonical (path_of v)" using assms clean_path_of by (simp_all add: clean_path_def)
  have root: "path_of a = ''/'' \<longleftrightarrow> a = []" using canonical_root [OF can(1)] ok by simp
  have eq: "path_of v = path_of a \<longleftrightarrow> v = a" using ok by metis
  show ?thesis
  proof (cases "a = [] \<or> v = a")
    case True
    then show ?thesis using root eq by (auto simp: mount_suffix_def path_of_def)
  next
    case False
    then have under: "prefix (path_of a @ ''/'') (path_of v) \<longleftrightarrow> strict_prefix a v"
      using under_iff [OF can] root ok by simp
    show ?thesis
    proof (cases "prefix a v")
      case True
      then obtain b where b: "v = a @ b" "b \<noteq> []" using False by (auto simp: prefix_def)
      then have "path_of v = path_of a @ path_of b" using False by (simp add: path_of_def slashed_def)
      moreover have "prefix ''/'' (path_of b)" using b(2) by (cases b) (simp_all add: path_of_def)
      ultimately show ?thesis
        using b False root eq by (simp add: mount_suffix_def strip_prefix_def)
    next
      case no: False
      then have "\<not> prefix (path_of a @ ''/'') (path_of v)" using under by (simp add: strict_prefix_def)
      then have "\<not> (\<exists>rest. path_of v = path_of a @ rest \<and> prefix ''/'' rest)"
        by (auto simp: prefix_def)
      then show ?thesis
        using no False root eq by (auto simp: mount_suffix_def strip_prefix_Some split: option.split)
    qed
  qed
qed

lemma join_backend_segs:
  assumes "clean_segs a" and "clean_segs b"
  shows "join_backend_path (path_of a) (path_of b) = path_of (a @ b)"
proof -
  have "path_of gs = ''/'' \<longleftrightarrow> gs = []" if "clean_segs gs" for gs
    using path_of_shape(2) clean_seg_ok that by blast
  with assms show ?thesis by (simp add: join_backend_path_def) (auto simp: path_of_def slashed_def)
qed

section \<open>Tables\<close>

definition mounts_wf :: "'b mount_fs \<Rightarrow> bool" where
  "mounts_wf m \<longleftrightarrow>
     list_all (\<lambda>mt. clean_path (mt_point mt) \<and> clean_path (mt_root mt)) (mf_mounts m)
     \<and> list_ex (\<lambda>mt. mt_point mt = ''/'') (mf_mounts m)
     \<and> sorted_wrt (\<lambda>a b. utf8_len (mt_point b) \<le> utf8_len (mt_point a)) (mf_mounts m)"

text \<open>A resolver as hosts build it: one workspace backend and any further mounts.\<close>

definition mount_table :: "'b \<Rightarrow> (string \<times> 'b \<times> string) list \<Rightarrow> 'b mount_fs" where
  "mount_table workspace extra = fold (\<lambda>(point, b, root). with_mount point b root) extra (mount_fs_new workspace)"

lemma sort_mounts_sorted:
  "sorted_wrt (\<lambda>a b. utf8_len (mt_point b) \<le> utf8_len (mt_point a)) (mf_mounts (sort_mounts m))"
proof -
  have "sorted (map (\<lambda>mt. - int (utf8_len (mt_point mt))) (mf_mounts (sort_mounts m)))"
    by (simp add: sort_mounts_def)
  then show ?thesis by (simp add: sorted_map)
qed

lemma sort_mounts_set [simp]: "set (mf_mounts (sort_mounts m)) = set (mf_mounts m)"
  by (simp add: sort_mounts_def)

lemma clean_const [simp]: "clean_path ''/''" "clean_path WORKSPACE_MOUNT"
proof -
  show "clean_path ''/''" using clean_path_of [of "[]"] by (simp add: path_of_def)
  have "path_of [''workspace''] = WORKSPACE_MOUNT" by (simp add: path_of_def WORKSPACE_MOUNT_def WORKSPACE_PREFIX_def)
  then show "clean_path WORKSPACE_MOUNT" using clean_path_of [of "[''workspace'']"] by (simp add: seg_ok_def)
qed

lemma mounts_wf_new [simp]: "mounts_wf (mount_fs_new b)"
  using sort_mounts_sorted by (auto simp: mounts_wf_def mount_fs_new_def list_all_iff list_ex_iff)

lemma mounts_wf_with_mount: "mounts_wf m \<Longrightarrow> mounts_wf (with_mount p b r m)"
  using sort_mounts_sorted by (auto simp: mounts_wf_def with_mount_def list_all_iff list_ex_iff)

lemma mounts_wf_table [simp]: "mounts_wf (mount_table b extra)"
proof -
  have "mounts_wf m \<Longrightarrow> mounts_wf (fold (\<lambda>(point, b, root). with_mount point b root) extra m)" for m :: "'a mount_fs"
    by (induction extra arbitrary: m) (auto simp: mounts_wf_with_mount)
  then show ?thesis by (simp add: mount_table_def)
qed

lemma utf8_len_append [simp]: "utf8_len (a @ b) = utf8_len a + utf8_len b"
  by (simp add: utf8_len_def)

lemma utf8_len_pos: "s \<noteq> [] \<Longrightarrow> 0 < utf8_len s"
  by (cases s) (simp_all add: utf8_len_def char_len_def)

lemma longer_point:
  assumes "clean_segs a" and "clean_segs b" and "strict_prefix a b"
  shows "utf8_len (path_of a) < utf8_len (path_of b)"
proof -
  obtain c where c: "b = a @ c" "c \<noteq> []" using assms(3) by (auto simp: strict_prefix_def prefix_def)
  then have b: "path_of b = slashed a @ slashed c" by (simp add: path_of_def slashed_def)
  obtain g gs where g: "c = g # gs" "g \<noteq> []"
    using c assms(2) by (cases c) (auto simp: seg_ok_def)
  have "slashed c = ''/'' @ g @ slashed gs" using g by simp
  then have len: "utf8_len (slashed c) = utf8_len ''/'' + utf8_len g + utf8_len (slashed gs)"
    by (simp add: utf8_len_def)
  show ?thesis
  proof (cases "a = []")
    case True
    then show ?thesis using b len utf8_len_pos [OF g(2)] by (simp add: path_of_def)
  next
    case False
    then show ?thesis using b len utf8_len_pos [OF g(2)] by (simp add: path_of_def)
  qed
qed

lemma resolve_in_first:
  assumes "\<forall>mt \<in> set mounts. clean_path (mt_point mt) \<and> clean_path (mt_root mt)" and "clean_segs v"
    and "resolve_in (path_of v) mounts = Some r"
  shows "\<exists>before mt after rest. mounts = before @ mt # after
    \<and> v = segs (mt_point mt) @ rest
    \<and> r = \<lparr>rm_point = mt_point mt, rm_backend = mt_backend mt, rm_root = mt_root mt,
           rm_path = path_of (segs (mt_root mt) @ rest), rm_primary = mt_primary mt\<rparr>
    \<and> (\<forall>o' \<in> set before. \<not> prefix (segs (mt_point o')) v)"
  using assms(1,3)
proof (induction mounts)
  case (Cons mt mounts)
  have mt: "mt_point mt = path_of (segs (mt_point mt))" "clean_segs (segs (mt_point mt))"
    "mt_root mt = path_of (segs (mt_root mt))" "clean_segs (segs (mt_root mt))"
    using Cons.prems(1) clean_pathD by auto
  have suffix: "mount_suffix (mt_point mt) (path_of v) =
      (if prefix (segs (mt_point mt)) v then Some (path_of (drop (length (segs (mt_point mt))) v)) else None)"
    using mount_suffix_segs [OF mt(2) assms(2)] mt(1) by simp
  show ?case
  proof (cases "prefix (segs (mt_point mt)) v")
    case True
    then obtain rest where rest: "v = segs (mt_point mt) @ rest" by (auto simp: prefix_def)
    with assms(2) have "clean_segs rest" by (metis clean_segs_simps(2))
    then have "join_backend_path (mt_root mt) (path_of rest) = path_of (segs (mt_root mt) @ rest)"
      using join_backend_segs [OF mt(4)] mt(3) by metis
    with Cons.prems(2) suffix rest have "r = \<lparr>rm_point = mt_point mt, rm_backend = mt_backend mt,
        rm_root = mt_root mt, rm_path = path_of (segs (mt_root mt) @ rest), rm_primary = mt_primary mt\<rparr>" by simp
    with rest show ?thesis by (intro exI [of _ "[]"] exI [of _ mt] exI [of _ mounts] exI [of _ rest]) simp
  next
    case False
    with Cons suffix obtain before mt' after rest where
      "mounts = before @ mt' # after" "v = segs (mt_point mt') @ rest"
      "r = \<lparr>rm_point = mt_point mt', rm_backend = mt_backend mt', rm_root = mt_root mt',
            rm_path = path_of (segs (mt_root mt') @ rest), rm_primary = mt_primary mt'\<rparr>"
      "\<forall>o' \<in> set before. \<not> prefix (segs (mt_point o')) v" by auto
    with False show ?thesis by (intro exI [of _ "mt # before"] exI [of _ mt'] exI [of _ after] exI [of _ rest]) simp
  qed
qed simp

lemma resolve_in_total:
  assumes "\<forall>mt \<in> set mounts. clean_path (mt_point mt)" and "\<exists>mt \<in> set mounts. mt_point mt = ''/''"
  shows "\<exists>r. resolve_in p mounts = Some r"
  using assms by (induction mounts) (auto simp: mount_suffix_def split: option.split)

lemma reject_clean: "clean_path p \<Longrightarrow> reject_additional_root_traversal p cwd = Inr ()"
proof -
  assume p: "clean_path p"
  then have "prefix ''/'' p" using clean_pathD path_of_shape(1) clean_seg_ok by metis
  then have "filter (\<lambda>segment. segment \<noteq> []) (split_text CHR ''/'' (combine_path p cwd)) = segs p"
    by (simp add: combine_path_def segs_def)
  moreover have "''..'' \<notin> set (drop n (segs p))" for n
    using clean_pathD [OF p] by (auto simp: clean_segs_def list_all_iff dest!: in_set_dropD)
  ultimately show ?thesis by (simp add: reject_additional_root_traversal_def Let_def list_ex_iff)
qed

lemma resolve_clean:
  assumes "mounts_wf m" and "clean_path p"
  shows "\<exists>r. resolve m p = Inr r \<and> resolve_in p (mf_mounts m) = Some r"
proof -
  obtain r where r: "resolve_in p (mf_mounts m) = Some r"
    using assms(1) resolve_in_total [of "mf_mounts m" p] by (auto simp: mounts_wf_def list_all_iff list_ex_iff)
  then show ?thesis
    using reject_clean [OF assms(2)] normalize_idem [OF assms(2)]
    by (simp add: resolve_def bind_result_def)
qed

lemma resolve_Inr:
  assumes "mounts_wf m" and "resolve m input = Inr r"
  shows "resolve_in (normalize_virtual input (mf_cwd m)) (mf_mounts m) = Some r"
proof -
  obtain r' where "resolve_in (normalize_virtual input (mf_cwd m)) (mf_mounts m) = Some r'"
    using assms(1) resolve_in_total [of "mf_mounts m"] by (fastforce simp: mounts_wf_def list_all_iff list_ex_iff)
  with assms(2) show ?thesis
    by (auto simp: resolve_def bind_result_def split: sum.splits)
qed

section \<open>Operations on one backend\<close>

text \<open>
  Over backends that keep the contract, a file written under one name is read under every name
  that resolves to the same place, and a write elsewhere leaves it alone.
\<close>

context file_backend
begin

lemma mount_write_back:
  assumes "\<forall>b. sound (st b)" and "resolve m p = Inr r" and "good (rm_path r)"
    and "mount_write (\<lambda>_. api) m sid p c e st = (Inr f, st')"
    and "resolve m q = Inr r'" and "rm_backend r' = rm_backend r" and "rm_path r' = rm_path r"
  shows "\<exists>g. mount_read (\<lambda>_. api) m sid q st' = Inr (Some g) \<and> sf_content g = Some c \<and> sf_encoding g = e"
proof -
  obtain f' s' where w: "fa_write api sid (rm_path r) c e (st (rm_backend r)) = (Inr f', s')"
    and st': "st' = st(rm_backend r := s')"
    using assms(2,4)
    by (auto simp: mount_write_def with_resolved_def bind_op_eq_Inr on_backend_def split: prod.splits)
  have "fa_read api sid (rm_path r) s' = Inr (Some f') \<and> sf_content f' = Some c \<and> sf_encoding f' = e"
    using write_back [OF _ assms(3) w] assms(1) by blast
  then show ?thesis
    using assms(5-7) st' by (simp add: mount_read_def bind_result_def map_session_file_def Let_def)
qed

lemma mount_write_frame:
  assumes "\<forall>b. sound (st b)" and "resolve m p = Inr r" and "good (rm_path r)"
    and "mount_write (\<lambda>_. api) m sid p c e st = (res, st')"
    and "resolve m q = Inr r'" and "good (rm_path r')"
    and "rm_backend r' \<noteq> rm_backend r \<or> rm_path r' \<noteq> rm_path r \<or> sid' \<noteq> sid"
    and "mount_read (\<lambda>_. api) m sid' q st = Inr (Some g)"
  shows "mount_read (\<lambda>_. api) m sid' q st' = Inr (Some g)"
proof -
  obtain r0 s' where w: "fa_write api sid (rm_path r) c e (st (rm_backend r)) = (r0, s')"
    and st': "st' = st(rm_backend r := s')"
    using assms(2,4)
    by (auto simp: mount_write_def with_resolved_def bind_op_def on_backend_def split: prod.splits sum.splits)
  obtain g' where g': "fa_read api sid' (rm_path r') (st (rm_backend r')) = Inr (Some g')" "g = map_session_file r' g'"
    using assms(5,8) by (auto simp: mount_read_def bind_result_def split: sum.splits)
  have "fa_read api sid' (rm_path r') (st' (rm_backend r')) = Inr (Some g')"
  proof (cases "rm_backend r' = rm_backend r")
    case True
    then show ?thesis
      using write_frame [OF _ assms(3) w assms(6), of sid' g'] assms(1,7) g'(1) st' by auto
  qed (use g'(1) st' in simp)
  then show ?thesis using assms(5) g'(2) by (simp add: mount_read_def bind_result_def)
qed

end

section \<open>Properties\<close>

text \<open>
  C14. Resolution is contained and picks the most specific mount. For every resolver that hosts can
  build and every input that resolves: the result is a mount of the table, the virtual path is the
  mount point followed by a remainder, and the backend path is that remainder below the mount's
  backend root, in normal form and without \<open>.\<close> or \<open>..\<close> segments, so that it never leaves the
  root; and no mount of the table that contains the path is deeper.
\<close>

theorem resolution_contained:
  assumes "resolve (mount_table b extra) input = Inr r"
  shows "\<exists>mt \<in> set (mf_mounts (mount_table b extra)). \<exists>rest.
      rm_backend r = mt_backend mt \<and> rm_root r = mt_root mt
    \<and> segs (normalize_virtual input (mf_cwd (mount_table b extra))) = segs (mt_point mt) @ rest
    \<and> rm_path r = path_of (segs (mt_root mt) @ rest)
    \<and> clean_path (rm_path r)
    \<and> (\<forall>mt' \<in> set (mf_mounts (mount_table b extra)).
        prefix (segs (mt_point mt')) (segs (normalize_virtual input (mf_cwd (mount_table b extra))))
        \<longrightarrow> length (segs (mt_point mt')) \<le> length (segs (mt_point mt)))"
proof -
  define m where "m = mount_table b extra"
  define v where "v = segs (normalize_virtual input (mf_cwd m))"
  have wf: "mounts_wf m" by (simp add: m_def)
  have mts: "\<forall>mt \<in> set (mf_mounts m). clean_path (mt_point mt) \<and> clean_path (mt_root mt)"
    using wf by (simp add: mounts_wf_def list_all_iff)
  have v: "normalize_virtual input (mf_cwd m) = path_of v" "clean_segs v"
    using clean_pathD [OF normalize_clean] by (simp_all add: v_def)
  then have "resolve_in (path_of v) (mf_mounts m) = Some r"
    using resolve_Inr [OF wf, of input r] assms by (simp add: m_def)
  from resolve_in_first [OF mts v(2) this] obtain before mt after rest where
    split: "mf_mounts m = before @ mt # after" and rest: "v = segs (mt_point mt) @ rest"
    and r: "r = \<lparr>rm_point = mt_point mt, rm_backend = mt_backend mt, rm_root = mt_root mt,
           rm_path = path_of (segs (mt_root mt) @ rest), rm_primary = mt_primary mt\<rparr>"
    and first: "\<forall>o' \<in> set before. \<not> prefix (segs (mt_point o')) v" by blast
  have mt: "mt \<in> set (mf_mounts m)" using split by simp
  then have "clean_segs (segs (mt_root mt))" using mts clean_pathD by blast
  moreover have "clean_segs rest" using v(2) rest by (metis clean_segs_simps(2))
  ultimately have clean: "clean_path (rm_path r)" by (simp add: r)
  have "length (segs (mt_point mt')) \<le> length (segs (mt_point mt))"
    if mt': "mt' \<in> set (mf_mounts m)" "prefix (segs (mt_point mt')) v" for mt'
  proof (rule ccontr)
    assume longer: "\<not> ?thesis"
    have pts: "mt_point mt = path_of (segs (mt_point mt))" "mt_point mt' = path_of (segs (mt_point mt'))"
      "clean_segs (segs (mt_point mt))" "clean_segs (segs (mt_point mt'))"
      using mts mt mt'(1) clean_pathD by blast+
    have "strict_prefix (segs (mt_point mt)) (segs (mt_point mt'))"
      using longer mt'(2) rest by (metis linorder_le_cases prefixI prefix_length_prefix prefix_order.le_imp_less_or_eq)
    then have "utf8_len (mt_point mt) < utf8_len (mt_point mt')" using longer_point pts by metis
    moreover have "mt' \<in> set after" using mt' first split longer by auto
    then have "utf8_len (mt_point mt') \<le> utf8_len (mt_point mt)"
      using wf by (auto simp: mounts_wf_def split sorted_wrt_append)
    ultimately show False by simp
  qed
  then show ?thesis
    unfolding m_def [symmetric] v_def [symmetric]
    using mt rest clean by (intro bexI [of _ mt] exI [of _ rest]) (simp_all add: r)
qed

definition demo_engine :: "(string, string) search_engine" where
  "demo_engine = \<lparr>en_regex = Some, en_regex_match = prefix, en_glob = Some, en_glob_match = (=)\<rparr>"

definition demo_mounts :: "nat mount_fs" where
  "demo_mounts = mount_table 0 [(''/workspace/roots/api'', 1, ''/src''), (''/workspace/roots/web'', 2, ''/'')]"

theorem resolution_contained_witness:
  "\<exists>r. resolve demo_mounts ''/workspace/roots/api/lib/./a'' = Inr r \<and> rm_backend r = 1 \<and> rm_path r = ''/src/lib/a''
    \<and> clean_path (rm_path r)"
proof -
  have ev: "(case resolve demo_mounts ''/workspace/roots/api/lib/./a'' of
      Inr r \<Rightarrow> rm_backend r = 1 \<and> rm_path r = ''/src/lib/a'' | Inl _ \<Rightarrow> False)" by code_simp
  then obtain r where r: "resolve demo_mounts ''/workspace/roots/api/lib/./a'' = Inr r"
    by (auto split: sum.splits)
  moreover have "clean_path (rm_path r)"
    using resolution_contained [OF r [unfolded demo_mounts_def]] by blast
  ultimately show ?thesis using ev by simp
qed

lemma new_mounts:
  "mf_mounts (mount_fs_new b) =
    [\<lparr>mt_point = ''/workspace'', mt_backend = b, mt_root = ''/'', mt_primary = True\<rparr>,
     \<lparr>mt_point = ''/'', mt_backend = b, mt_root = ''/'', mt_primary = True\<rparr>]"
  by (simp add: mount_fs_new_def sort_mounts_def WORKSPACE_MOUNT_def WORKSPACE_PREFIX_def utf8_len_def char_len_def)

lemma resolve_in_new:
  assumes "clean_segs v"
  shows "resolve_in (path_of v) (mf_mounts (mount_fs_new b)) =
    Some (if prefix [''workspace''] v
      then \<lparr>rm_point = ''/workspace'', rm_backend = b, rm_root = ''/'', rm_path = path_of (tl v), rm_primary = True\<rparr>
      else \<lparr>rm_point = ''/'', rm_backend = b, rm_root = ''/'', rm_path = path_of v, rm_primary = True\<rparr>)"
proof -
  have "path_of [''workspace''] = ''/workspace''" by (simp add: path_of_def)
  then have "mount_suffix ''/workspace'' (path_of v) = (if prefix [''workspace''] v then Some (path_of (tl v)) else None)"
    using mount_suffix_segs [of "[''workspace'']" v] assms by (simp add: seg_ok_def drop_Suc)
  then show ?thesis by (simp add: new_mounts join_backend_path_def mount_suffix_def [of "''/''"])
qed

text \<open>
  With one workspace backend, a presented path is a faithful name: whatever spelling of a path
  the model uses, the path the resolver shows for it starts at \<open>/workspace\<close> and resolves to the
  same backend and the same backend path, also for a file below a directory that is itself called
  \<open>workspace\<close>.
\<close>

theorem presented_path_resolves_back:
  assumes "resolve (mount_fs_new b) input = Inr r"
  shows "\<exists>r'. resolve (mount_fs_new b) (mount_resolve_path apis (mount_fs_new b) input) = Inr r'
    \<and> rm_backend r' = rm_backend r \<and> rm_path r' = rm_path r
    \<and> prefix ''/workspace'' (mount_resolve_path apis (mount_fs_new b) input)"
proof -
  define m where "m = mount_fs_new b"
  have wf: "mounts_wf m" by (simp add: m_def)
  define v where "v = segs (normalize_virtual input (mf_cwd m))"
  have v: "normalize_virtual input (mf_cwd m) = path_of v" "clean_segs v"
    using clean_pathD [OF normalize_clean] by (simp_all add: v_def)
  define k where "k = (if prefix [''workspace''] v then tl v else v)"
  have k: "clean_segs k" using v(2) by (cases v) (auto simp: k_def)
  have r: "rm_path r = path_of k" "rm_backend r = b" "rm_primary r"
    using resolve_Inr [OF wf, of input r] assms v resolve_in_new [OF v(2), of b] by (auto simp: m_def k_def)
  obtain r1 where r1: "resolve m (path_of v) = Inr r1" "resolve_in (path_of v) (mf_mounts m) = Some r1"
    using resolve_clean [OF wf clean_path_of [OF v(2)]] by blast
  then have "r1 = r" using resolve_Inr [OF wf, of input r] assms v(1) by (simp add: m_def)
  define shown where "shown = mount_resolve_path apis m input"
  have "mf_policy m = WorkspaceAlias" by (simp add: m_def mount_fs_new_def sort_mounts_def)
  then have "shown = display_backend_path WORKSPACE_MOUNT (path_of k)"
    using r1(1) \<open>r1 = r\<close> r v(1) by (simp add: shown_def mount_resolve_path_def present_primary_key_def)
  also have "\<dots> = path_of (''workspace'' # k)"
    unfolding display_backend_path_def normalize_path_of [OF k] Let_def path_of_shape(2) [OF clean_seg_ok [OF k]]
    by (simp add: WORKSPACE_MOUNT_def WORKSPACE_PREFIX_def trim_end_matches_def path_of_def)
  finally have shown: "shown = path_of (''workspace'' # k)" .
  have "clean_segs (''workspace'' # k)" using k by (simp add: seg_ok_def)
  from resolve_clean [OF wf clean_path_of [OF this]] resolve_in_new [OF this, of b]
  have "\<exists>r'. resolve m shown = Inr r' \<and> rm_backend r' = b \<and> rm_path r' = path_of k"
    by (auto simp: shown m_def)
  moreover have "prefix ''/workspace'' shown" by (simp add: shown path_of_def)
  ultimately show ?thesis using r by (auto simp: m_def shown_def)
qed

theorem presented_path_resolves_back_witness:
  "\<exists>r'. resolve (mount_fs_new (0::nat)) (mount_resolve_path (\<lambda>_. memory_api demo_fs_env demo_engine demo_size)
      (mount_fs_new (0::nat)) ''workspace/../workspace/x'') = Inr r' \<and> rm_path r' = ''/workspace/x''"
proof -
  have "(case resolve (mount_fs_new (0::nat)) ''workspace/../workspace/x'' of
      Inr r \<Rightarrow> rm_path r = ''/workspace/x'' | Inl _ \<Rightarrow> False)" by code_simp
  then obtain r where r: "resolve (mount_fs_new (0::nat)) ''workspace/../workspace/x'' = Inr r"
    and path: "rm_path r = ''/workspace/x''"
    by (auto split: sum.splits)
  from presented_path_resolves_back [OF r, of "\<lambda>_. memory_api demo_fs_env demo_engine demo_size"] show ?thesis
    unfolding path by blast
qed

text \<open>
  Reading back through the resolver, over in-memory backends. A file written under one path is
  read, with its content and encoding, under every path that resolves to the same backend and key;
  and a write to one place leaves what is stored at any other place, backend or session as it was.
\<close>

theorem mount_read_your_writes:
  assumes "\<forall>b. files_wf (st b)" and "resolve m p = Inr r" and "plain_file_key (rm_path r)"
    and "mount_write (\<lambda>_. memory_api env eng js) m sid p c e st = (Inr f, st')"
    and "resolve m q = Inr r'" and "plain_file_key (rm_path r')"
  shows "if rm_backend r' = rm_backend r \<and> rm_path r' = rm_path r
    then \<exists>g. mount_read (\<lambda>_. memory_api env eng js) m sid q st' = Inr (Some g)
          \<and> sf_content g = Some c \<and> sf_encoding g = e
    else \<forall>g sid'. mount_read (\<lambda>_. memory_api env eng js) m sid' q st = Inr (Some g)
          \<longrightarrow> mount_read (\<lambda>_. memory_api env eng js) m sid' q st' = Inr (Some g)"
  using memory.mount_write_back [OF assms(1-5)] memory.mount_write_frame [OF assms(1-4,5,6)] by auto

theorem mount_read_your_writes_witness:
  "\<exists>g. mount_read (\<lambda>_. memory_api demo_fs_env demo_engine demo_size) demo_mounts 1 ''roots/web/a.txt''
      (snd (mount_write (\<lambda>_. memory_api demo_fs_env demo_engine demo_size) demo_mounts 1 ''/workspace/roots/web//./a.txt''
        ''hi'' ''text'' (\<lambda>_. []))) = Inr (Some g) \<and> sf_content g = Some ''hi''"
proof -
  define api where "api = memory_api demo_fs_env demo_engine demo_size"
  have ev: "(case (resolve demo_mounts ''/workspace/roots/web//./a.txt'', resolve demo_mounts ''roots/web/a.txt'') of
      (Inr r, Inr r') \<Rightarrow> rm_backend r' = rm_backend r \<and> rm_path r = ''/a.txt'' \<and> rm_path r' = ''/a.txt'' | _ \<Rightarrow> False)"
    by code_simp
  then obtain r r' where r: "resolve demo_mounts ''/workspace/roots/web//./a.txt'' = Inr r"
    "resolve demo_mounts ''roots/web/a.txt'' = Inr r'" "rm_backend r' = rm_backend r" "rm_path r = ''/a.txt''" "rm_path r' = ''/a.txt''"
    by (auto split: sum.splits)
  obtain res st' where w: "mount_write (\<lambda>_. api) demo_mounts 1 ''/workspace/roots/web//./a.txt'' ''hi'' ''text'' (\<lambda>_. []) = (res, st')"
    by (cases "mount_write (\<lambda>_. api) demo_mounts 1 ''/workspace/roots/web//./a.txt'' ''hi'' ''text'' (\<lambda>_. [])") auto
  have "case fst (mount_write (\<lambda>_. memory_api demo_fs_env demo_engine demo_size) demo_mounts 1
      ''/workspace/roots/web//./a.txt'' ''hi'' ''text'' (\<lambda>_. [])) of Inr _ \<Rightarrow> True | Inl _ \<Rightarrow> False"
    by code_simp
  then obtain f where f: "res = Inr f" using w by (auto simp: api_def split: sum.splits)
  have wf: "\<forall>b::nat. files_wf ((\<lambda>_. []) b)" by (simp add: files_wf_def)
  have plain: "plain_file_key ''/a.txt''" by code_simp
  have "\<exists>g. mount_read (\<lambda>_. api) demo_mounts 1 ''roots/web/a.txt'' st' = Inr (Some g) \<and> sf_content g = Some ''hi''"
    using mount_read_your_writes [OF wf r(1) _ w [unfolded f api_def] r(2)] r(3-5) plain by (auto simp: api_def)
  then show ?thesis using w by (simp add: api_def)
qed

text \<open>
  C38. The traversal check can be walked around. For every resolver and any root name and file name,
  a path that leaves an additional root with \<open>..\<close> segments is refused; the same path with a \<open>.\<close>
  segment after \<open>/workspace\<close> passes the check, which looks at the segments before they are
  normalised, and is silently rerouted to the file of that name in the workspace.
\<close>

theorem traversal_check_bypassed:
  assumes "clean_segs [n, x]"
  shows "resolve (mount_table b extra) (''/workspace/roots/'' @ n @ ''/../../'' @ x)
      = Inl (TraversalRejected (''/workspace/roots/'' @ n @ ''/../../'' @ x))
    \<and> resolve (mount_table b extra) (''/workspace/./roots/'' @ n @ ''/../../'' @ x)
      = resolve (mount_table b extra) (''/workspace/'' @ x)"
proof -
  define m where "m = mount_table b extra"
  define refused where "refused = ''/workspace/roots/'' @ n @ ''/../../'' @ x"
  define passed where "passed = ''/workspace/./roots/'' @ n @ ''/../../'' @ x"
  have nx: "CHR ''/'' \<notin> set n" "CHR ''/'' \<notin> set x" "n \<noteq> []" "x \<noteq> []" using assms by (auto simp: seg_ok_def)
  have "refused = [] @ slashed [''workspace'', ''roots'', n, ''..'', ''..'', x]" by (simp add: refused_def)
  then have s1: "split_text CHR ''/'' refused = [[], ''workspace'', ''roots'', n, ''..'', ''..'', x]"
    using split_slashed [of "[]" "[''workspace'', ''roots'', n, ''..'', ''..'', x]"] nx by simp
  have "passed = [] @ slashed [''workspace'', ''.'', ''roots'', n, ''..'', ''..'', x]" by (simp add: passed_def)
  then have s2: "split_text CHR ''/'' passed = [[], ''workspace'', ''.'', ''roots'', n, ''..'', ''..'', x]"
    using split_slashed [of "[]" "[''workspace'', ''.'', ''roots'', n, ''..'', ''..'', x]"] nx by simp
  have abs: "combine_path refused c = refused" "combine_path passed c = passed" for c
    by (simp_all add: combine_path_def refused_def passed_def)
  have ws: "[0..<4] = [0, 1, 2, 3 :: nat]" "[0..<5] = [0, 1, 2, 3, 4 :: nat]" by code_simp+
  have f: "filter (\<lambda>g. g \<noteq> []) (split_text CHR ''/'' refused) = [''workspace'', ''roots'', n, ''..'', ''..'', x]"
    "filter (\<lambda>g. g \<noteq> []) (split_text CHR ''/'' passed) = [''workspace'', ''.'', ''roots'', n, ''..'', ''..'', x]"
    using nx by (simp_all add: s1 s2)
  have len: "length [''workspace'', ''roots'', n, ''..'', ''..'', x] - 2 = 4"
    "length [''workspace'', ''.'', ''roots'', n, ''..'', ''..'', x] - 2 = 5" by simp_all
  have "reject_additional_root_traversal refused c = Inl (TraversalRejected refused)" for c
    using nx unfolding reject_additional_root_traversal_def abs f Let_def len ws by simp
  then have one: "resolve m refused = Inl (TraversalRejected refused)" by (simp add: resolve_def bind_result_def)
  have "reject_additional_root_traversal passed c = Inr ()" for c
    unfolding reject_additional_root_traversal_def abs f Let_def len ws by simp
  moreover have "normalize_virtual passed c = ''/workspace/'' @ x" for c
    using nx assms by (simp add: normalize_virtual_stack abs s2 push_segment_def path_of_def)
  moreover have "clean_path (''/workspace/'' @ x)"
    using clean_path_of [of "[''workspace'', x]"] assms by (simp add: path_of_def seg_ok_def)
  then have "reject_additional_root_traversal (''/workspace/'' @ x) c = Inr ()"
    "normalize_virtual (''/workspace/'' @ x) c = ''/workspace/'' @ x" for c
    using reject_clean normalize_idem by blast+
  ultimately have "resolve m passed = resolve m (''/workspace/'' @ x)"
    by (simp add: resolve_def bind_result_def)
  with one show ?thesis unfolding m_def refused_def passed_def ..
qed

theorem traversal_check_bypassed_witness:
  "resolve demo_mounts ''/workspace/roots/api/../../key'' = Inl (TraversalRejected ''/workspace/roots/api/../../key'')
   \<and> resolve demo_mounts ''/workspace/./roots/api/../../key'' = resolve demo_mounts ''/workspace/key''"
  using traversal_check_bypassed [of "''api''" "''key''" "0 :: nat"
      "[(''/workspace/roots/api'', 1, ''/src''), (''/workspace/roots/web'', 2, ''/'')]"]
  by (simp add: demo_mounts_def seg_ok_def)

text \<open>
  With an additional root, a presented path need not be a faithful name. The workspace's own file
  \<open>/roots/api/x\<close> is shown as \<open>/workspace/roots/api/x\<close>, and that path resolves to the additional
  root mounted there: the name shown and the file touched belong to different backends.
\<close>

theorem presented_path_hits_other_root:
  assumes "clean_segs [n, x]" and "other \<noteq> b"
  shows "let m = mount_table b [(''/workspace/roots/'' @ n, other, ''/'')]; input = ''/roots/'' @ n @ ''/'' @ x in
    \<exists>r r'. resolve m input = Inr r \<and> rm_backend r = b
      \<and> resolve m (mount_resolve_path apis m input) = Inr r' \<and> rm_backend r' = other"
proof -
  define m where "m = mount_table b [(''/workspace/roots/'' @ n, other, ''/'')]"
  define pt where "pt = [''workspace'', ''roots'', n]"
  define v where "v = [''roots'', n, x]"
  have wf: "mounts_wf m" by (simp add: m_def)
  have clean: "clean_segs pt" "clean_segs v" "clean_segs [''workspace'']" "clean_segs (''workspace'' # v)"
    using assms(1) by (simp_all add: pt_def v_def seg_ok_def)
  have paths: "path_of pt = ''/workspace/roots/'' @ n" "path_of v = ''/roots/'' @ n @ ''/'' @ x" "path_of [''workspace''] = ''/workspace''"
    by (simp_all add: pt_def v_def path_of_def)
  have "normalize_virtual (''/workspace/roots/'' @ n) ''/'' = path_of pt" "normalize_virtual ''/'' ''/'' = ''/''"
    using normalize_path_of [OF clean(1), of "''/''"] normalize_path_of [of "[]"] paths by (simp_all add: path_of_def)
  then have mounts: "mf_mounts m =
      [\<lparr>mt_point = path_of pt, mt_backend = other, mt_root = ''/'', mt_primary = False\<rparr>,
       \<lparr>mt_point = ''/workspace'', mt_backend = b, mt_root = ''/'', mt_primary = True\<rparr>,
       \<lparr>mt_point = ''/'', mt_backend = b, mt_root = ''/'', mt_primary = True\<rparr>]"
    by (simp add: m_def mount_table_def with_mount_def sort_mounts_def [of "_\<lparr>mf_mounts := _\<rparr>"] new_mounts)
       (simp add: paths utf8_len_def char_len_def)
  have "resolve_in (path_of v) (mf_mounts m) =
      Some \<lparr>rm_point = ''/'', rm_backend = b, rm_root = ''/'', rm_path = path_of v, rm_primary = True\<rparr>"
    using mount_suffix_segs [OF clean(1,2)] mount_suffix_segs [OF clean(3,2)] unfolding paths(3)
    by (simp add: mounts join_backend_path_def mount_suffix_def [of "''/''"]) (simp add: pt_def v_def)
  then obtain r where r: "resolve m (path_of v) = Inr r"
    "r = \<lparr>rm_point = ''/'', rm_backend = b, rm_root = ''/'', rm_path = path_of v, rm_primary = True\<rparr>"
    using resolve_clean [OF wf clean_path_of [OF clean(2)]] by auto
  have "mf_policy m = WorkspaceAlias"
    by (simp add: m_def mount_table_def with_mount_def mount_fs_new_def sort_mounts_def)
  then have "mount_resolve_path apis m (path_of v) = display_backend_path WORKSPACE_MOUNT (path_of v)"
    using r by (simp add: mount_resolve_path_def normalize_path_of [OF clean(2)] present_primary_key_def Let_def)
  also have "\<dots> = path_of (''workspace'' # v)"
    unfolding display_backend_path_def normalize_path_of [OF clean(2)] Let_def path_of_shape(2) [OF clean_seg_ok [OF clean(2)]]
    by (simp add: WORKSPACE_MOUNT_def WORKSPACE_PREFIX_def trim_end_matches_def path_of_def v_def)
  finally have shown: "mount_resolve_path apis m (path_of v) = path_of (''workspace'' # v)" .
  have "prefix pt (''workspace'' # v)" by (simp add: pt_def v_def)
  then have "\<exists>r'. resolve_in (path_of (''workspace'' # v)) (mf_mounts m) = Some r' \<and> rm_backend r' = other"
    using mount_suffix_segs [OF clean(1,4)] by (simp add: mounts)
  then obtain r' where "resolve m (path_of (''workspace'' # v)) = Inr r'" "rm_backend r' = other"
    using resolve_clean [OF wf clean_path_of [OF clean(4)]] by auto
  then show ?thesis
    unfolding m_def [symmetric] paths(2) [symmetric] Let_def using r shown by auto
qed

theorem presented_path_hits_other_root_witness:
  "let m = mount_table 0 [(''/workspace/roots/api'', 1 :: nat, ''/'')];
       apis = (\<lambda>_. memory_api demo_fs_env demo_engine demo_size) in
    \<exists>r r'. resolve m ''/roots/api/key'' = Inr r \<and> rm_backend r = 0
      \<and> resolve m (mount_resolve_path apis m ''/roots/api/key'') = Inr r' \<and> rm_backend r' = 1"
  using presented_path_hits_other_root [of "''api''" "''key''" "1 :: nat" 0 "\<lambda>_. memory_api demo_fs_env demo_engine demo_size"]
  by (simp add: seg_ok_def Let_def)

end
