(* ===== verification/Permissions.thy ===== *)
theory Permissions
  imports Text
begin

text \<open>
  Access control (\<open>crates/core/src/permissions.rs\<close>, \<open>organization.rs\<close>): organization roles and the
  permissions they grant, policies evaluated against a caller, and the rules that allow or deny
  skills. What a permission resolver promises is the locale \<open>permission_resolver\<close>.
\<close>

section \<open>Roles\<close>

datatype org_role = RoleMember | RoleAdmin | RoleOwner

fun role_level :: "org_role \<Rightarrow> nat" where
  "role_level RoleMember = 0"
| "role_level RoleAdmin = 1"
| "role_level RoleOwner = 2"

definition role_has_level :: "org_role \<Rightarrow> org_role \<Rightarrow> bool" where
  "role_has_level role required \<longleftrightarrow> role_level required \<le> role_level role"

fun role_as_str :: "org_role \<Rightarrow> string" where
  "role_as_str RoleMember = ''member''"
| "role_as_str RoleAdmin = ''admin''"
| "role_as_str RoleOwner = ''owner''"

definition role_from_str :: "string \<Rightarrow> string + org_role" where
  "role_from_str s =
     (if s = ''member'' then Inr RoleMember else if s = ''admin'' then Inr RoleAdmin
      else if s = ''owner'' then Inr RoleOwner else Inl (''invalid org role: '' @ s))"

definition DEFAULT_ORG_ID :: int where "DEFAULT_ORG_ID = 1"
definition DEFAULT_ORG_PUBLIC_ID :: string where
  "DEFAULT_ORG_PUBLIC_ID = ''org_00000000000000000000000000000001''"

text \<open>\<open>{:032x}\<close> of an \<open>i64\<close>: its 64 bits in hexadecimal, padded with zeros to 32 digits.\<close>

definition hex_digit :: "nat \<Rightarrow> char" where
  "hex_digit d = (if d < 10 then char_of (48 + d) else char_of (87 + d))"

fun hex_digits :: "nat \<Rightarrow> nat \<Rightarrow> string" where
  "hex_digits 0 n = []"
| "hex_digits (Suc k) n = hex_digits k (n div 16) @ [hex_digit (n mod 16)]"

definition org_public_id_from_internal :: "int \<Rightarrow> string" where
  "org_public_id_from_internal org_id =
     (if org_id = DEFAULT_ORG_ID then DEFAULT_ORG_PUBLIC_ID
      else ''org_'' @ hex_digits 32 (nat (org_id mod 2 ^ 64)))"

section \<open>Permissions\<close>

datatype permission =
    OrgHarnessesView | OrgHarnessesManage | OrgHarnessesDangerous | OrgAgentsManage |
  OrgAgentsDangerous | OrgAppsView | OrgAppsManage | OrgAppsDangerous | OrgMcpServersView |
  OrgMcpServersManage | OrgMcpServersDangerous | OrgSkillsView | OrgSkillsManage | OrgSkillsDangerous |
  OrgCapabilitiesView | OrgCapabilitiesManage | OrgAgentIdentitiesView | OrgAgentIdentitiesManage |
  OrgPluginsView | OrgPluginsManage | OrgSessionsManage | OrgProvidersView | OrgProvidersManage |
  OrgSettingsView | OrgSettingsManage | OrgMembersView | OrgMembersManage | OrgApiKeysManage |
  OrgAuditLogsView | OrgReportsView | OrgReportsManage | OrgReportsAdmin

fun permission_as_str :: "permission \<Rightarrow> string" where
  "permission_as_str OrgHarnessesView = ''org:harnesses:view''"
| "permission_as_str OrgHarnessesManage = ''org:harnesses:manage''"
| "permission_as_str OrgHarnessesDangerous = ''org:harnesses:dangerous''"
| "permission_as_str OrgAgentsManage = ''org:agents:manage''"
| "permission_as_str OrgAgentsDangerous = ''org:agents:dangerous''"
| "permission_as_str OrgAppsView = ''org:apps:view''"
| "permission_as_str OrgAppsManage = ''org:apps:manage''"
| "permission_as_str OrgAppsDangerous = ''org:apps:dangerous''"
| "permission_as_str OrgMcpServersView = ''org:mcp-servers:view''"
| "permission_as_str OrgMcpServersManage = ''org:mcp-servers:manage''"
| "permission_as_str OrgMcpServersDangerous = ''org:mcp-servers:dangerous''"
| "permission_as_str OrgSkillsView = ''org:skills:view''"
| "permission_as_str OrgSkillsManage = ''org:skills:manage''"
| "permission_as_str OrgSkillsDangerous = ''org:skills:dangerous''"
| "permission_as_str OrgCapabilitiesView = ''org:capabilities:view''"
| "permission_as_str OrgCapabilitiesManage = ''org:capabilities:manage''"
| "permission_as_str OrgAgentIdentitiesView = ''org:agent-identities:view''"
| "permission_as_str OrgAgentIdentitiesManage = ''org:agent-identities:manage''"
| "permission_as_str OrgPluginsView = ''org:plugins:view''"
| "permission_as_str OrgPluginsManage = ''org:plugins:manage''"
| "permission_as_str OrgSessionsManage = ''org:sessions:manage''"
| "permission_as_str OrgProvidersView = ''org:providers:view''"
| "permission_as_str OrgProvidersManage = ''org:providers:manage''"
| "permission_as_str OrgSettingsView = ''org:settings:view''"
| "permission_as_str OrgSettingsManage = ''org:settings:manage''"
| "permission_as_str OrgMembersView = ''org:members:view''"
| "permission_as_str OrgMembersManage = ''org:members:manage''"
| "permission_as_str OrgApiKeysManage = ''org:api-keys:manage''"
| "permission_as_str OrgAuditLogsView = ''org:audit-logs:view''"
| "permission_as_str OrgReportsView = ''org:reports:view''"
| "permission_as_str OrgReportsManage = ''org:reports:manage''"
| "permission_as_str OrgReportsAdmin = ''org:reports:admin''"

definition ALL_PERMISSIONS :: "permission list" where
  "ALL_PERMISSIONS =
     [OrgHarnessesView, OrgHarnessesManage, OrgHarnessesDangerous, OrgAgentsManage, OrgAgentsDangerous,
      OrgAppsView, OrgAppsManage, OrgAppsDangerous, OrgMcpServersView, OrgMcpServersManage,
      OrgMcpServersDangerous, OrgSkillsView, OrgSkillsManage, OrgSkillsDangerous, OrgCapabilitiesView,
      OrgCapabilitiesManage, OrgAgentIdentitiesView, OrgAgentIdentitiesManage, OrgPluginsView,
      OrgPluginsManage, OrgSessionsManage, OrgProvidersView, OrgProvidersManage, OrgSettingsView,
      OrgSettingsManage, OrgMembersView, OrgMembersManage, OrgApiKeysManage, OrgAuditLogsView,
      OrgReportsView, OrgReportsManage, OrgReportsAdmin]"

definition OWNER_PERMISSIONS :: "permission list" where
  "OWNER_PERMISSIONS =
     [OrgHarnessesView, OrgHarnessesManage, OrgHarnessesDangerous, OrgAgentsManage, OrgAgentsDangerous,
      OrgAppsView, OrgAppsManage, OrgAppsDangerous, OrgMcpServersView, OrgMcpServersManage,
      OrgMcpServersDangerous, OrgSkillsView, OrgSkillsManage, OrgSkillsDangerous, OrgCapabilitiesView,
      OrgCapabilitiesManage, OrgAgentIdentitiesView, OrgAgentIdentitiesManage, OrgPluginsView,
      OrgPluginsManage, OrgSessionsManage, OrgProvidersView, OrgProvidersManage, OrgSettingsView,
      OrgSettingsManage, OrgMembersView, OrgMembersManage, OrgApiKeysManage, OrgAuditLogsView,
      OrgReportsView, OrgReportsManage, OrgReportsAdmin]"

definition ADMIN_PERMISSIONS :: "permission list" where
  "ADMIN_PERMISSIONS =
     [OrgHarnessesView, OrgHarnessesManage, OrgAgentsManage, OrgAppsView, OrgAppsManage,
      OrgMcpServersView, OrgMcpServersManage, OrgSkillsView, OrgSkillsManage, OrgCapabilitiesView,
      OrgCapabilitiesManage, OrgAgentIdentitiesView, OrgAgentIdentitiesManage, OrgPluginsView,
      OrgPluginsManage, OrgSessionsManage, OrgProvidersView, OrgProvidersManage, OrgSettingsView,
      OrgSettingsManage, OrgMembersView, OrgMembersManage, OrgApiKeysManage, OrgAuditLogsView,
      OrgReportsView, OrgReportsManage]"

definition MEMBER_PERMISSIONS :: "permission list" where
  "MEMBER_PERMISSIONS =
     [OrgHarnessesView, OrgAgentsManage, OrgAppsView, OrgAppsManage, OrgMcpServersView,
      OrgMcpServersManage, OrgSkillsView, OrgSkillsManage, OrgCapabilitiesView, OrgCapabilitiesManage,
      OrgAgentIdentitiesView, OrgAgentIdentitiesManage, OrgPluginsView, OrgSessionsManage,
      OrgProvidersView, OrgSettingsView, OrgMembersView, OrgReportsView]"

definition role_permissions :: "org_role \<Rightarrow> permission list" where
  "role_permissions role =
     (case role of RoleOwner \<Rightarrow> OWNER_PERMISSIONS | RoleAdmin \<Rightarrow> ADMIN_PERMISSIONS | RoleMember \<Rightarrow> MEMBER_PERMISSIONS)"

definition role_has_permission :: "org_role \<Rightarrow> permission \<Rightarrow> bool" where
  "role_has_permission role permission \<longleftrightarrow>
     permission \<in> set
       (case role of RoleOwner \<Rightarrow> OWNER_PERMISSIONS | RoleAdmin \<Rightarrow> ADMIN_PERMISSIONS | RoleMember \<Rightarrow> MEMBER_PERMISSIONS)"

section \<open>Policies\<close>

record caller =
  ca_org_id :: int
  ca_org_public_id :: string
  ca_user_id :: "uuid option"
  ca_role :: org_role
  ca_is_platform_user :: bool
  ca_is_internal :: bool

definition caller_internal :: "int \<Rightarrow> caller" where
  "caller_internal org_id =
     \<lparr>ca_org_id = org_id, ca_org_public_id = org_public_id_from_internal org_id, ca_user_id = None,
      ca_role = RoleOwner, ca_is_platform_user = True, ca_is_internal = True\<rparr>"

record resolver =
  rv_has_permission :: "caller \<Rightarrow> permission \<Rightarrow> bool"
  rv_caller_permissions :: "caller \<Rightarrow> permission list"

definition default_resolver :: resolver where
  "default_resolver =
     \<lparr>rv_has_permission = (\<lambda>c p. role_has_permission (ca_role c) p),
      rv_caller_permissions = (\<lambda>c. role_permissions (ca_role c))\<rparr>"

datatype rule = UserHasPermission permission | UserHasRole org_role | IsPlatformUser

record policy =
  po_id :: string
  po_rules :: "rule list"

record policy_error =
  pe_policy_id :: string
  pe_message :: string

definition policy_denied :: "string \<Rightarrow> string \<Rightarrow> policy_error" where
  "policy_denied policy_id detail =
     \<lparr>pe_policy_id = policy_id,
      pe_message = ''Access denied: policy '' @ [CHR 0x27] @ policy_id @ [CHR 0x27] @ '' requires '' @ [CHR 0x27] @ detail @ [CHR 0x27]\<rparr>"

fun check_rules :: "resolver \<Rightarrow> caller \<Rightarrow> string \<Rightarrow> rule list \<Rightarrow> policy_error + unit" where
  "check_rules rv c pid [] = Inr ()"
| "check_rules rv c pid (r # rules) =
     (case r of
        UserHasPermission perm \<Rightarrow>
          if \<not> rv_has_permission rv c perm then Inl (policy_denied pid (permission_as_str perm))
          else check_rules rv c pid rules
      | UserHasRole required \<Rightarrow>
          if \<not> role_has_level (ca_role c) required then Inl (policy_denied pid (''role:'' @ role_as_str required))
          else check_rules rv c pid rules
      | IsPlatformUser \<Rightarrow>
          if \<not> ca_is_platform_user c then Inl (policy_denied pid ''platform_user'')
          else check_rules rv c pid rules)"

definition evaluate_with :: "policy \<Rightarrow> resolver \<Rightarrow> caller \<Rightarrow> policy_error + unit" where
  "evaluate_with p rv c = check_rules rv c (po_id p) (po_rules p)"

definition evaluate :: "policy \<Rightarrow> caller \<Rightarrow> policy_error + unit" where
  "evaluate p c = evaluate_with p default_resolver c"

definition evaluate_policies_with :: "resolver \<Rightarrow> caller \<Rightarrow> policy list \<Rightarrow> (string, bool) hmap" where
  "evaluate_policies_with rv c policies =
     fold (\<lambda>p m. hm_insert (po_id p) (case evaluate_with p rv c of Inr _ \<Rightarrow> True | Inl _ \<Rightarrow> False) m) policies []"

definition evaluate_policies :: "caller \<Rightarrow> policy list \<Rightarrow> (string, bool) hmap" where
  "evaluate_policies c policies = evaluate_policies_with default_resolver c policies"

section \<open>Skill rules\<close>

datatype skill_action = SkillAllow | SkillDeny

datatype skill_pattern = AllSkills | ExactName string | NameWildcard string

fun specificity :: "skill_pattern \<Rightarrow> nat" where
  "specificity AllSkills = 0"
| "specificity (NameWildcard n) = 1"
| "specificity (ExactName n) = 2"

fun skill_matches :: "skill_pattern \<Rightarrow> string \<Rightarrow> bool" where
  "skill_matches AllSkills skill_name \<longleftrightarrow> True"
| "skill_matches (ExactName n) skill_name \<longleftrightarrow> n = skill_name"
| "skill_matches (NameWildcard n) skill_name \<longleftrightarrow> n = skill_name"

record skill_rule =
  sk_action :: skill_action
  sk_pattern :: skill_pattern

definition skill_name_char :: "char \<Rightarrow> bool" where
  "skill_name_char c \<longleftrightarrow>
     (let n = of_char c :: nat in 97 \<le> n \<and> n \<le> 122 \<or> 48 \<le> n \<and> n \<le> 57) \<or> c = CHR ''-''"

definition validate_skill_name :: "string \<Rightarrow> string list + unit" where
  "validate_skill_name name =
     (let errors =
        (if name = [] \<or> 64 < utf8_len name then [''name: must be 1-64 characters''] else [])
        @ (if \<not> list_all skill_name_char name
           then [''name: must contain only lowercase letters, numbers, and hyphens''] else [])
        @ (if prefix ''-'' name \<or> suffix ''-'' name then [''name: must not start or end with hyphen''] else [])
        @ (if sublist ''--'' name then [''name: must not contain consecutive hyphens''] else [])
      in if errors = [] then Inr () else Inl errors)"

definition strip_suffix :: "string \<Rightarrow> string \<Rightarrow> string option" where
  "strip_suffix sfx s = (if suffix sfx s then Some (take (length s - length sfx) s) else None)"

datatype skill_parse_error = NoAction string | EmptySkillName | InvalidSkillName string "string list" | InvalidPattern string

definition parse_skill_pattern :: "skill_action \<Rightarrow> string \<Rightarrow> skill_parse_error + skill_rule" where
  "parse_skill_pattern action rest =
     (if rest = ''Skill'' then Inr \<lparr>sk_action = action, sk_pattern = AllSkills\<rparr>
      else case Option.bind (strip_prefix ''Skill('' rest) (strip_suffix '')'') of
             Some inner \<Rightarrow>
               (let inner = trim inner in
                if inner = [] then Inl EmptySkillName
                else let (name, is_wildcard) =
                       (case strip_suffix '' *'' inner of Some name \<Rightarrow> (name, True) | None \<Rightarrow> (inner, False))
                     in case validate_skill_name name of
                          Inl errors \<Rightarrow> Inl (InvalidSkillName name errors)
                        | Inr _ \<Rightarrow> Inr \<lparr>sk_action = action,
                                      sk_pattern = (if is_wildcard then NameWildcard name else ExactName name)\<rparr>)
           | None \<Rightarrow> Inl (InvalidPattern rest))"

definition parse_skill_permission_rule :: "string \<Rightarrow> skill_parse_error + skill_rule" where
  "parse_skill_permission_rule input =
     (let input = trim input in
      case strip_prefix ''allow '' input of
        Some rest \<Rightarrow> parse_skill_pattern SkillAllow (trim rest)
      | None \<Rightarrow>
          (case strip_prefix ''deny '' input of
             Some rest \<Rightarrow> parse_skill_pattern SkillDeny (trim rest)
           | None \<Rightarrow> Inl (NoAction input)))"

definition skill_step :: "string \<Rightarrow> skill_rule \<Rightarrow> nat option \<times> bool \<Rightarrow> nat option \<times> bool" where
  "skill_step skill_name rule acc =
     (if \<not> skill_matches (sk_pattern rule) skill_name then acc
      else let spec = specificity (sk_pattern rule); is_allow = (sk_action rule = SkillAllow) in
           case acc of
             (None, _) \<Rightarrow> (Some spec, is_allow)
           | (Some best, best_allowed) \<Rightarrow>
               if best < spec then (Some spec, is_allow)
               else if spec = best \<and> \<not> is_allow then (Some best, False)
               else (Some best, best_allowed))"

definition check_skill_permission :: "skill_rule list \<Rightarrow> string \<Rightarrow> bool" where
  "check_skill_permission rules skill_name = snd (fold (skill_step skill_name) rules (None, True))"

section \<open>Roles and policies\<close>

lemma role_has_iff: "role_has_permission role p \<longleftrightarrow> p \<in> set (role_permissions role)"
  by (cases role) (simp_all add: role_has_permission_def role_permissions_def)

lemma owner_has_all: "role_has_permission RoleOwner p"
  by (cases p) (simp_all add: role_has_iff role_permissions_def OWNER_PERMISSIONS_def)

lemma roles_nested: "role_has_level high low \<Longrightarrow> role_has_permission low p \<Longrightarrow> role_has_permission high p"
proof -
  have "set MEMBER_PERMISSIONS \<subseteq> set ADMIN_PERMISSIONS" by (simp add: MEMBER_PERMISSIONS_def ADMIN_PERMISSIONS_def)
  then show "role_has_level high low \<Longrightarrow> role_has_permission low p \<Longrightarrow> role_has_permission high p"
    using owner_has_all [of p] by (cases high; cases low) (auto simp: role_has_level_def role_has_iff role_permissions_def)
qed

definition rule_holds :: "resolver \<Rightarrow> caller \<Rightarrow> rule \<Rightarrow> bool" where
  "rule_holds rv c r =
     (case r of
        UserHasPermission perm \<Rightarrow> rv_has_permission rv c perm
      | UserHasRole required \<Rightarrow> role_has_level (ca_role c) required
      | IsPlatformUser \<Rightarrow> ca_is_platform_user c)"

definition rule_detail :: "rule \<Rightarrow> string" where
  "rule_detail r =
     (case r of
        UserHasPermission perm \<Rightarrow> permission_as_str perm
      | UserHasRole required \<Rightarrow> ''role:'' @ role_as_str required
      | IsPlatformUser \<Rightarrow> ''platform_user'')"

lemma check_rules_find:
  "check_rules rv c pid rules =
    (case find (\<lambda>r. \<not> rule_holds rv c r) rules of
       Some r \<Rightarrow> Inl (policy_denied pid (rule_detail r)) | None \<Rightarrow> Inr ())"
  by (induction rules) (auto simp: rule_holds_def rule_detail_def split: rule.split)

lemma evaluate_ok: "evaluate_with p rv c = Inr () \<longleftrightarrow> (\<forall>r \<in> set (po_rules p). rule_holds rv c r)"
proof (cases "find (\<lambda>r. \<not> rule_holds rv c r) (po_rules p)")
  case None
  then have "\<forall>r \<in> set (po_rules p). rule_holds rv c r" by (auto simp: find_None_iff)
  with None show ?thesis by (simp add: evaluate_with_def check_rules_find)
next
  case (Some r)
  then have "r \<in> set (po_rules p)" "\<not> rule_holds rv c r" by (auto simp: find_Some_iff)
  with Some show ?thesis by (auto simp: evaluate_with_def check_rules_find)
qed

lemma rule_holds_mono:
  "role_has_level (ca_role high) (ca_role low) \<Longrightarrow> ca_is_platform_user low \<longrightarrow> ca_is_platform_user high
    \<Longrightarrow> rule_holds default_resolver low r \<Longrightarrow> rule_holds default_resolver high r"
  using roles_nested [of "ca_role high" "ca_role low"]
  by (cases r) (simp_all add: rule_holds_def default_resolver_def, simp add: role_has_level_def)

lemma role_owner_top: "role_has_level RoleOwner required"
  by (cases required) (simp_all add: role_has_level_def)

lemma rule_holds_internal: "rule_holds default_resolver (caller_internal org) r"
  by (cases r) (simp_all add: rule_holds_def default_resolver_def caller_internal_def owner_has_all role_owner_top)

text \<open>What a resolver promises, and what it gives: the permissions it reports cover every policy it passes.\<close>

locale permission_resolver =
  fixes rv :: resolver
  assumes consistent: "rv_has_permission rv c p \<Longrightarrow> p \<in> set (rv_caller_permissions rv c)"
begin

lemma passed_policy_reported:
  "evaluate_with p rv c = Inr () \<Longrightarrow> UserHasPermission perm \<in> set (po_rules p) \<Longrightarrow> perm \<in> set (rv_caller_permissions rv c)"
  using consistent by (force simp: evaluate_ok rule_holds_def)

end

interpretation default_rv: permission_resolver default_resolver
  by unfold_locales (simp add: default_resolver_def role_has_iff)

section \<open>Properties\<close>

text \<open>
  C27. Roles are ordered and policies respect the order. Under the built-in resolver, whatever policy a
  caller passes, a caller whose role is at least as high and who is a platform user if the first one
  is passes it too; the permissions reported for a caller cover every policy it passes; and a caller
  of the server itself passes every policy.
\<close>

theorem policies_monotone:
  assumes "evaluate p low = Inr ()" and "role_has_level (ca_role high) (ca_role low)"
    and "ca_is_platform_user low \<longrightarrow> ca_is_platform_user high"
  shows "evaluate p high = Inr () \<and> evaluate p (caller_internal org) = Inr ()
    \<and> (\<forall>perm. UserHasPermission perm \<in> set (po_rules p) \<longrightarrow> perm \<in> set (role_permissions (ca_role low)))"
proof (intro conjI allI impI)
  show "evaluate p high = Inr ()"
    using assms(1) rule_holds_mono [OF assms(2) assms(3)] by (auto simp: evaluate_def evaluate_ok)
  show "evaluate p (caller_internal org) = Inr ()" by (simp add: evaluate_def evaluate_ok rule_holds_internal)
  show "perm \<in> set (role_permissions (ca_role low))" if "UserHasPermission perm \<in> set (po_rules p)" for perm
    using default_rv.passed_policy_reported [OF assms(1) [unfolded evaluate_def] that] by (simp add: default_resolver_def)
qed

definition demo_caller :: "org_role \<Rightarrow> caller" where
  "demo_caller role =
     \<lparr>ca_org_id = 7, ca_org_public_id = org_public_id_from_internal 7, ca_user_id = Some 3, ca_role = role,
      ca_is_platform_user = False, ca_is_internal = False\<rparr>"

definition demo_policy :: policy where
  "demo_policy = \<lparr>po_id = ''provider.manage'', po_rules = [UserHasPermission OrgProvidersManage, UserHasRole RoleAdmin]\<rparr>"

theorem policies_monotone_witness:
  "evaluate demo_policy (demo_caller RoleOwner) = Inr () \<and> evaluate demo_policy (caller_internal 5) = Inr ()
   \<and> evaluate demo_policy (demo_caller RoleMember) = Inl (policy_denied ''provider.manage'' ''org:providers:manage'')"
proof -
  have "evaluate demo_policy (demo_caller RoleAdmin) = Inr ()"
    "evaluate demo_policy (demo_caller RoleMember) = Inl (policy_denied ''provider.manage'' ''org:providers:manage'')"
    by code_simp+
  then show ?thesis
    using policies_monotone [of demo_policy "demo_caller RoleAdmin" "demo_caller RoleOwner" 5]
    by (simp add: demo_caller_def role_has_level_def)
qed

text \<open>
  A policy passes exactly when all its rules hold; otherwise the error names the first rule that does
  not, whatever resolver is used.
\<close>

lemma policy_error_first:
  "evaluate_with p rv c =
    (case find (\<lambda>r. \<not> rule_holds rv c r) (po_rules p) of
       Some r \<Rightarrow> Inl (policy_denied (po_id p) (rule_detail r)) | None \<Rightarrow> Inr ())"
  by (simp add: evaluate_with_def check_rules_find)

text \<open>The most specific of the rules that match a skill.\<close>

definition best_rules :: "skill_rule list \<Rightarrow> string \<Rightarrow> skill_rule set" where
  "best_rules rules s =
     {r \<in> set rules. skill_matches (sk_pattern r) s
        \<and> (\<forall>q \<in> set rules. skill_matches (sk_pattern q) s \<longrightarrow> specificity (sk_pattern q) \<le> specificity (sk_pattern r))}"

definition best_matches :: "skill_rule list \<Rightarrow> string \<Rightarrow> nat \<Rightarrow> skill_rule set" where
  "best_matches rules s best = {r \<in> set rules. skill_matches (sk_pattern r) s \<and> specificity (sk_pattern r) = best}"

definition skill_bound :: "skill_rule list \<Rightarrow> string \<Rightarrow> nat \<Rightarrow> bool" where
  "skill_bound rules s best \<longleftrightarrow> (\<forall>r \<in> set rules. skill_matches (sk_pattern r) s \<longrightarrow> specificity (sk_pattern r) \<le> best)"

definition skill_state :: "skill_rule list \<Rightarrow> string \<Rightarrow> nat option \<times> bool \<Rightarrow> bool" where
  "skill_state rules s acc \<longleftrightarrow>
     (case acc of
        (None, allowed) \<Rightarrow> allowed \<and> (\<forall>r \<in> set rules. \<not> skill_matches (sk_pattern r) s)
      | (Some best, allowed) \<Rightarrow>
          skill_bound rules s best \<and> best_matches rules s best \<noteq> {}
          \<and> (allowed \<longleftrightarrow> (\<forall>r \<in> best_matches rules s best. sk_action r = SkillAllow)))"

lemma skill_state_skip:
  "skill_state rules s acc \<Longrightarrow> \<not> skill_matches (sk_pattern r) s \<Longrightarrow> skill_state (rules @ [r]) s acc"
proof -
  assume n: "\<not> skill_matches (sk_pattern r) s"
  have "best_matches (rules @ [r]) s best = best_matches rules s best"
    "skill_bound (rules @ [r]) s best = skill_bound rules s best" for best
    using n by (auto simp: best_matches_def skill_bound_def)
  then show "skill_state rules s acc \<Longrightarrow> skill_state (rules @ [r]) s acc"
    using n by (auto simp: skill_state_def split: prod.splits option.splits)
qed

lemma best_matches_snoc:
  "skill_matches (sk_pattern r) s \<Longrightarrow> best_matches (rules @ [r]) s best =
    (if specificity (sk_pattern r) = best then insert r (best_matches rules s best) else best_matches rules s best)"
  by (auto simp: best_matches_def)

lemma best_matches_above: "skill_bound rules s best \<Longrightarrow> best < b \<Longrightarrow> best_matches rules s b = {}"
  by (auto simp: skill_bound_def best_matches_def)

lemma skill_bound_snoc:
  "skill_matches (sk_pattern r) s \<Longrightarrow>
    skill_bound (rules @ [r]) s best \<longleftrightarrow> skill_bound rules s best \<and> specificity (sk_pattern r) \<le> best"
  by (auto simp: skill_bound_def)

lemma skill_bound_mono: "skill_bound rules s best \<Longrightarrow> best \<le> b \<Longrightarrow> skill_bound rules s b"
  by (auto simp: skill_bound_def)

lemma skill_state_none:
  "skill_state rules s (None, a) \<Longrightarrow> skill_bound rules s b \<and> best_matches rules s b = {}"
  by (auto simp: skill_state_def skill_bound_def best_matches_def)

lemma skill_state_step: "skill_state rules s acc \<Longrightarrow> skill_state (rules @ [r]) s (skill_step s r acc)"
proof (cases "skill_matches (sk_pattern r) s")
  case False
  then show "skill_state rules s acc \<Longrightarrow> ?thesis" by (simp add: skill_state_skip skill_step_def)
next
  case m: True
  assume st: "skill_state rules s acc"
  obtain b a where acc: "acc = (b, a)" by fastforce
  show ?thesis
  proof (cases b)
    case None
    then show ?thesis using m st skill_state_none [of rules s a]
      by (simp add: acc skill_state_def skill_step_def Let_def best_matches_snoc skill_bound_snoc)
  next
    case (Some best)
    consider "best < specificity (sk_pattern r)" | "specificity (sk_pattern r) = best" | "specificity (sk_pattern r) < best"
      by linarith
    then show ?thesis using m st
      by cases (auto simp: acc Some skill_state_def skill_step_def Let_def best_matches_snoc skill_bound_snoc
          best_matches_above intro: skill_bound_mono)
  qed
qed

lemma skill_fold: "skill_state rules s (fold (skill_step s) rules (None, True))"
  by (induction rules rule: rev_induct) (simp_all add: skill_state_step, simp add: skill_state_def)

lemma check_skill_best:
  "check_skill_permission rules s \<longleftrightarrow> (\<forall>r \<in> best_rules rules s. sk_action r = SkillAllow)"
proof -
  obtain b a where f: "fold (skill_step s) rules (None, True) = (b, a)" by fastforce
  have st: "skill_state rules s (b, a)" using skill_fold [of rules s] by (simp add: f)
  show ?thesis
  proof (cases b)
    case None
    then show ?thesis using st by (auto simp: f skill_state_def check_skill_permission_def best_rules_def)
  next
    case (Some best)
    have "best_rules rules s = best_matches rules s best"
      using st by (force simp: Some skill_state_def best_rules_def best_matches_def skill_bound_def intro: le_antisym)
    then show ?thesis using st by (simp add: Some f skill_state_def check_skill_permission_def)
  qed
qed

text \<open>
  C28. Skill rules against their documented precedence: a skill is allowed exactly when none of the most
  specific rules that match it denies it, so that a deny wins among equally specific rules and a
  skill no rule matches is allowed; and the order of the rules does not matter.
\<close>

theorem skill_precedence:
  assumes "set other = set rules"
  shows "(check_skill_permission rules s \<longleftrightarrow> (\<forall>r \<in> best_rules rules s. sk_action r = SkillAllow))
    \<and> check_skill_permission other s = check_skill_permission rules s"
proof -
  have "best_rules other s = best_rules rules s" using assms by (simp add: best_rules_def)
  then show ?thesis by (simp add: check_skill_best)
qed

definition demo_skill_rules :: "skill_rule list" where
  "demo_skill_rules =
     map projr (map parse_skill_permission_rule [''allow Skill(deploy)'', '' deny Skill'', ''deny Skill(deploy *)''])"

theorem skill_precedence_witness:
  "check_skill_permission (rev demo_skill_rules) ''deploy'' \<and> \<not> check_skill_permission (rev demo_skill_rules) ''commit''"
proof -
  have "check_skill_permission demo_skill_rules ''deploy''" "\<not> check_skill_permission demo_skill_rules ''commit''"
    by code_simp+
  then show ?thesis
    using skill_precedence [of "rev demo_skill_rules" demo_skill_rules "''deploy''"]
      skill_precedence [of "rev demo_skill_rules" demo_skill_rules "''commit''"] by simp
qed

end
