(* ===== verification/Messages.thy ===== *)
theory Messages
  imports Workflow_Types Text
begin

text \<open>
  Conversation messages (\<open>crates/core/src/message.rs\<close>), the messages sent to a model
  (\<open>crates/provider/src/driver_registry.rs\<close>), the reasoning artifacts and execution phases both
  carry, and the conversion between them (\<open>crates/core/src/llm_conversions.rs\<close>). In this theory and
  in the theories on context reduction a string is the list of its UTF-8 bytes, so that
  \<open>str::len\<close> is the length of the list; \<open>serde_json::to_string\<close> is the parameter \<open>jt\<close>. Calls and
  results without an id of their own (\<open>MessageId::new()\<close>, \<open>Utc::now()\<close>) take them as arguments.
\<close>

section \<open>Roles and phases\<close>

datatype message_role = MSystem | MUser | MAgent | MToolResult

fun message_role_display :: "message_role \<Rightarrow> string" where
  "message_role_display MSystem = ''system''"
| "message_role_display MUser = ''user''"
| "message_role_display MAgent = ''agent''"
| "message_role_display MToolResult = ''tool_result''"

text \<open>\<open>to_lowercase\<close> maps no character outside ASCII to a letter of these names.\<close>

definition message_role_from :: "string \<Rightarrow> message_role" where
  "message_role_from s =
     (let l = to_ascii_lowercase s in
      if l = ''system'' then MSystem
      else if l = ''user'' then MUser
      else if l = ''agent'' \<or> l = ''assistant'' then MAgent
      else if l = ''tool_result'' then MToolResult
      else MUser)"

datatype llm_role = LSystem | LUser | LAssistant | LTool

datatype execution_phase = Commentary | FinalAnswer

datatype phase_source = PhaseProvider | PhaseDerived

fun phase_source_as_str :: "phase_source \<Rightarrow> string" where
  "phase_source_as_str PhaseProvider = ''provider''"
| "phase_source_as_str PhaseDerived = ''derived''"

definition phase_source_from_str_opt :: "string \<Rightarrow> phase_source option" where
  "phase_source_from_str_opt s =
     (if s = ''provider'' then Some PhaseProvider else if s = ''derived'' then Some PhaseDerived else None)"

definition phase_from_has_tool_calls :: "bool \<Rightarrow> execution_phase" where
  "phase_from_has_tool_calls has_tool_calls = (if has_tool_calls then Commentary else FinalAnswer)"

definition phase_from_provider_str :: "string \<Rightarrow> execution_phase option" where
  "phase_from_provider_str s =
     (if s = ''commentary'' \<or> s = ''in_progress'' then Some Commentary
      else if s = ''final_answer'' \<or> s = ''completed'' then Some FinalAnswer
      else None)"

fun phase_as_provider_str :: "execution_phase \<Rightarrow> string" where
  "phase_as_provider_str Commentary = ''commentary''"
| "phase_as_provider_str FinalAnswer = ''final_answer''"

definition refine_streamed_hint :: "execution_phase option \<Rightarrow> execution_phase \<Rightarrow> execution_phase option" where
  "refine_streamed_hint current incoming = Some (case current of Some p \<Rightarrow> p | None \<Rightarrow> incoming)"

section \<open>Reasoning artifacts\<close>

datatype reasoning_text = RPlain string | RSummary "string list" | RRedacted

definition join_blank :: "string list \<Rightarrow> string" where
  "join_blank xs = join_text [CHR 0x0A, CHR 0x0A] xs"

definition reasoning_text_display :: "reasoning_text \<Rightarrow> string option" where
  "reasoning_text_display r =
     (case r of
        RPlain text \<Rightarrow> if text \<noteq> [] then Some text else None
      | RSummary parts \<Rightarrow> if parts \<noteq> [] then Some (join_blank parts) else None
      | RRedacted \<Rightarrow> None)"

definition is_raw_chain_of_thought :: "reasoning_text \<Rightarrow> bool" where
  "is_raw_chain_of_thought r = (case r of RPlain _ \<Rightarrow> True | _ \<Rightarrow> False)"

record reasoning_part =
  rp_provider :: string
  rp_item_id :: "string option"
  rp_signature :: "string option"
  rp_encrypted :: "string option"
  rp_text :: "reasoning_text option"
  rp_tokens :: "u32 option"
  rp_bound_tool_call_id :: "string option"

definition reasoning_opaque :: "string \<Rightarrow> reasoning_part" where
  "reasoning_opaque provider =
     \<lparr>rp_provider = provider, rp_item_id = None, rp_signature = None, rp_encrypted = None, rp_text = None,
      rp_tokens = None, rp_bound_tool_call_id = None\<rparr>"

definition reasoning_display_text :: "reasoning_part \<Rightarrow> string option" where
  "reasoning_display_text r = Option.bind (rp_text r) reasoning_text_display"

definition has_replay_state :: "reasoning_part \<Rightarrow> bool" where
  "has_replay_state r \<longleftrightarrow> rp_signature r \<noteq> None \<or> rp_encrypted r \<noteq> None \<or> rp_item_id r \<noteq> None"

definition reasoning_to_public :: "reasoning_part \<Rightarrow> reasoning_part" where
  "reasoning_to_public r =
     \<lparr>rp_provider = rp_provider r, rp_item_id = rp_item_id r, rp_signature = None, rp_encrypted = None,
      rp_text = rp_text r, rp_tokens = rp_tokens r, rp_bound_tool_call_id = rp_bound_tool_call_id r\<rparr>"

section \<open>Content parts\<close>

datatype content_type = CtText | CtImage | CtImageFile | CtFile | CtToolCall | CtToolResult | CtReasoning

fun content_type_display :: "content_type \<Rightarrow> string" where
  "content_type_display CtText = ''text''"
| "content_type_display CtImage = ''image''"
| "content_type_display CtImageFile = ''image_file''"
| "content_type_display CtFile = ''file''"
| "content_type_display CtToolCall = ''tool_call''"
| "content_type_display CtToolResult = ''tool_result''"
| "content_type_display CtReasoning = ''reasoning''"

definition content_type_from :: "string \<Rightarrow> content_type" where
  "content_type_from s =
     (if s = ''image'' then CtImage
      else if s = ''image_file'' then CtImageFile
      else if s = ''tool_call'' then CtToolCall
      else if s = ''tool_result'' then CtToolResult
      else if s = ''reasoning'' then CtReasoning
      else CtText)"

text \<open>Annotations, controls and metadata are carried and not looked into.\<close>

record text_part =
  tp_text :: string
  tp_annotations :: "json list"

definition text_part_new :: "string \<Rightarrow> text_part" where
  "text_part_new text = \<lparr>tp_text = text, tp_annotations = []\<rparr>"

record image_part =
  ip_url :: "string option"
  ip_base64 :: "string option"
  ip_media_type :: "string option"

definition image_from_url :: "string \<Rightarrow> image_part" where
  "image_from_url url = \<lparr>ip_url = Some url, ip_base64 = None, ip_media_type = None\<rparr>"

definition image_from_base64 :: "string \<Rightarrow> string \<Rightarrow> image_part" where
  "image_from_base64 base64 media_type = \<lparr>ip_url = None, ip_base64 = Some base64, ip_media_type = Some media_type\<rparr>"

record image_file_part =
  if_image_id :: uuid
  if_filename :: "string option"

record file_part =
  fp_file_id :: uuid
  fp_filename :: "string option"

datatype native_tool_call =
    NativeFunction (native_call_id: string) (native_name: string) string (native_async: bool)
  | NativeCustom (native_call_id: string) (native_name: string) string (native_async: bool)

record tool_call_part =
  tcp_native :: "native_tool_call option"
  tcp_id :: string
  tcp_name :: string
  tcp_arguments :: json

definition tool_call_part_new :: "string \<Rightarrow> string \<Rightarrow> json \<Rightarrow> tool_call_part" where
  "tool_call_part_new i name arguments =
     \<lparr>tcp_native = None, tcp_id = i, tcp_name = name, tcp_arguments = arguments\<rparr>"

record tool_result_part =
  trp_tool_call_id :: string
  trp_result :: "json option"
  trp_error :: "string option"

definition tool_result_part_new :: "string \<Rightarrow> json option \<Rightarrow> string option \<Rightarrow> tool_result_part" where
  "tool_result_part_new tool_call_id result error =
     \<lparr>trp_tool_call_id = tool_call_id, trp_result = result, trp_error = error\<rparr>"

datatype content_part =
    PText text_part
  | PImage image_part
  | PImageFile image_file_part
  | PFile file_part
  | PToolCall tool_call_part
  | PToolResult tool_result_part
  | PReasoning reasoning_part

fun part_content_type :: "content_part \<Rightarrow> content_type" where
  "part_content_type (PText _) = CtText"
| "part_content_type (PImage _) = CtImage"
| "part_content_type (PImageFile _) = CtImageFile"
| "part_content_type (PFile _) = CtFile"
| "part_content_type (PToolCall _) = CtToolCall"
| "part_content_type (PToolResult _) = CtToolResult"
| "part_content_type (PReasoning _) = CtReasoning"

definition part_text :: "string \<Rightarrow> content_part" where
  "part_text text = PText (text_part_new text)"

definition tool_result_text :: "(json \<Rightarrow> string) \<Rightarrow> json \<Rightarrow> content_part" where
  "tool_result_text jt v = (case v of JString text \<Rightarrow> part_text text | other \<Rightarrow> part_text (jt other))"

definition part_as_text :: "content_part \<Rightarrow> string option" where
  "part_as_text p = (case p of PText t \<Rightarrow> Some (tp_text t) | _ \<Rightarrow> None)"

definition part_as_reasoning :: "content_part \<Rightarrow> reasoning_part option" where
  "part_as_reasoning p = (case p of PReasoning r \<Rightarrow> Some r | _ \<Rightarrow> None)"

definition part_as_tool_call :: "content_part \<Rightarrow> tool_call_part option" where
  "part_as_tool_call p = (case p of PToolCall tc \<Rightarrow> Some tc | _ \<Rightarrow> None)"

definition part_as_tool_result :: "content_part \<Rightarrow> tool_result_part option" where
  "part_as_tool_result p = (case p of PToolResult tr \<Rightarrow> Some tr | _ \<Rightarrow> None)"

section \<open>Messages\<close>

record external_actor =
  ea_actor_id :: string
  ea_actor_name :: "string option"
  ea_source :: string
  ea_metadata :: "(string, string) hmap option"

definition display_label :: "external_actor \<Rightarrow> string" where
  "display_label a = (case ea_actor_name a of Some n \<Rightarrow> n | None \<Rightarrow> ea_actor_id a)"

definition resolve_hints :: "(string, json) hmap option \<Rightarrow> (string, json) hmap option \<Rightarrow> (string, json) hmap" where
  "resolve_hints session_hints message_hints =
     (case (session_hints, message_hints) of
        (None, None) \<Rightarrow> []
      | (Some s, None) \<Rightarrow> s
      | (None, Some m) \<Rightarrow> m
      | (Some s, Some m) \<Rightarrow> fold (\<lambda>(k, v) merged. hm_insert k v merged) m s)"

record message =
  m_id :: uuid
  m_role :: message_role
  m_content :: "content_part list"
  m_phase :: "execution_phase option"
  m_phase_source :: "phase_source option"
  m_controls :: "json option"
  m_metadata :: "(string, json) hmap option"
  m_external_actor :: "external_actor option"
  m_created_at :: timestamp

definition message_of :: "uuid \<Rightarrow> timestamp \<Rightarrow> message_role \<Rightarrow> content_part list \<Rightarrow> message" where
  "message_of i now role content =
     \<lparr>m_id = i, m_role = role, m_content = content, m_phase = None, m_phase_source = None, m_controls = None,
      m_metadata = None, m_external_actor = None, m_created_at = now\<rparr>"

definition message_user :: "uuid \<Rightarrow> timestamp \<Rightarrow> string \<Rightarrow> message" where
  "message_user i now content = message_of i now MUser [part_text content]"

definition message_assistant :: "uuid \<Rightarrow> timestamp \<Rightarrow> string \<Rightarrow> message" where
  "message_assistant i now content = message_of i now MAgent [part_text content]"

definition message_system :: "uuid \<Rightarrow> timestamp \<Rightarrow> string \<Rightarrow> message" where
  "message_system i now content = message_of i now MSystem [part_text content]"

record tool_call =
  tc_id :: string
  tc_name :: string
  tc_arguments :: json

definition message_assistant_with_tools :: "uuid \<Rightarrow> timestamp \<Rightarrow> string \<Rightarrow> tool_call list \<Rightarrow> message" where
  "message_assistant_with_tools i now text_content tool_calls =
     message_of i now MAgent
       ((if text_content \<noteq> [] then [part_text text_content] else [])
        @ map (\<lambda>tc. PToolCall \<lparr>tcp_native = None, tcp_id = tc_id tc, tcp_name = tc_name tc,
                              tcp_arguments = tc_arguments tc\<rparr>) tool_calls)"

definition message_tool_result :: "uuid \<Rightarrow> timestamp \<Rightarrow> string \<Rightarrow> json option \<Rightarrow> string option \<Rightarrow> message" where
  "message_tool_result i now tool_call_id result error =
     message_of i now MToolResult [PToolResult (tool_result_part_new tool_call_id result error)]"

definition message_tool_result_with_images ::
  "uuid \<Rightarrow> timestamp \<Rightarrow> string \<Rightarrow> json option \<Rightarrow> (string \<times> string) list \<Rightarrow> message" where
  "message_tool_result_with_images i now tool_call_id result images =
     message_of i now MToolResult
       (PToolResult (tool_result_part_new tool_call_id result None)
        # map (\<lambda>(base64, media_type). PImage (image_from_base64 base64 media_type)) images)"

definition with_phase_from :: "message \<Rightarrow> execution_phase \<Rightarrow> phase_source \<Rightarrow> message" where
  "with_phase_from m phase source = m\<lparr>m_phase := Some phase, m_phase_source := Some source\<rparr>"

definition reasoning_parts :: "message \<Rightarrow> reasoning_part list" where
  "reasoning_parts m = List.map_filter part_as_reasoning (m_content m)"

definition message_reasoning_display :: "message \<Rightarrow> string option" where
  "message_reasoning_display m =
     (let joined = join_blank (List.map_filter reasoning_display_text (reasoning_parts m))
      in if joined \<noteq> [] then Some joined else None)"

definition into_public :: "message \<Rightarrow> message" where
  "into_public m =
     m\<lparr>m_content := map (\<lambda>p. case p of PReasoning r \<Rightarrow> PReasoning (reasoning_to_public r) | _ \<Rightarrow> p) (m_content m)\<rparr>"

fun find_map :: "('a \<Rightarrow> 'b option) \<Rightarrow> 'a list \<Rightarrow> 'b option" where
  "find_map f [] = None"
| "find_map f (x # xs) = (case f x of Some y \<Rightarrow> Some y | None \<Rightarrow> find_map f xs)"

definition message_text :: "message \<Rightarrow> string option" where
  "message_text m = find_map part_as_text (m_content m)"

definition message_tool_calls :: "message \<Rightarrow> tool_call_part list" where
  "message_tool_calls m = List.map_filter part_as_tool_call (m_content m)"

definition has_tool_calls :: "message \<Rightarrow> bool" where
  "has_tool_calls m = list_ex (\<lambda>p. case p of PToolCall _ \<Rightarrow> True | _ \<Rightarrow> False) (m_content m)"

definition tool_result_content :: "message \<Rightarrow> tool_result_part option" where
  "tool_result_content m = find_map part_as_tool_result (m_content m)"

definition message_tool_call_id :: "message \<Rightarrow> string option" where
  "message_tool_call_id m =
     find_map (\<lambda>p. case p of PToolResult tr \<Rightarrow> Some (trp_tool_call_id tr) | _ \<Rightarrow> None) (m_content m)"

definition tool_result_string :: "(json \<Rightarrow> string) \<Rightarrow> tool_result_part \<Rightarrow> string" where
  "tool_result_string jt tr =
     (case trp_error tr of
        Some err \<Rightarrow> ''Tool error: '' @ err
      | None \<Rightarrow> (case trp_result tr of Some res \<Rightarrow> jt res | None \<Rightarrow> ''{}''))"

fun part_to_llm_string :: "(json \<Rightarrow> string) \<Rightarrow> content_part \<Rightarrow> string" where
  "part_to_llm_string jt (PText t) = tp_text t"
| "part_to_llm_string jt (PReasoning r) = []"
| "part_to_llm_string jt (PImage i) = ''[Image]''"
| "part_to_llm_string jt (PImageFile i) = ''[Image File]''"
| "part_to_llm_string jt (PFile f) =
     (case fp_filename f of Some n \<Rightarrow> ''[PDF File: '' @ n @ '']'' | None \<Rightarrow> ''[PDF File]'')"
| "part_to_llm_string jt (PToolCall tc) =
     ''Tool call: '' @ tcp_name tc @ '' with arguments: '' @ jt (tcp_arguments tc)"
| "part_to_llm_string jt (PToolResult tr) = tool_result_string jt tr"

definition content_to_llm_string :: "(json \<Rightarrow> string) \<Rightarrow> message \<Rightarrow> string" where
  "content_to_llm_string jt m =
     join_text [CHR 0x0A] (filter (\<lambda>s. s \<noteq> []) (map (part_to_llm_string jt) (m_content m)))"

subsection \<open>The OpenAI form\<close>

definition data_url :: "string \<Rightarrow> string \<Rightarrow> string" where
  "data_url media_type base64 = ''data:'' @ media_type @ '';base64,'' @ base64"

definition part_to_openai_format :: "content_part \<Rightarrow> json option" where
  "part_to_openai_format p =
     (case p of
        PText t \<Rightarrow> Some (JObject [(''type'', JString ''text''), (''text'', JString (tp_text t))])
      | PImage img \<Rightarrow>
          (case ip_url img of
             Some url \<Rightarrow> Some (JObject [(''type'', JString ''image_url''), (''image_url'', JObject [(''url'', JString url)])])
           | None \<Rightarrow>
               (case ip_base64 img of
                  Some b64 \<Rightarrow>
                    let media_type = (case ip_media_type img of Some mt \<Rightarrow> mt | None \<Rightarrow> ''image/png'')
                    in Some (JObject [(''type'', JString ''image_url''),
                         (''image_url'', JObject [(''url'', JString (data_url media_type b64))])])
                | None \<Rightarrow> None))
      | _ \<Rightarrow> None)"

definition json_get :: "string \<Rightarrow> json \<Rightarrow> json option" where
  "json_get k v = (case v of JObject kvs \<Rightarrow> map_of kvs k | _ \<Rightarrow> None)"

definition content_to_openai_format :: "message \<Rightarrow> json" where
  "content_to_openai_format m =
     (case m_content m of
        [PText t] \<Rightarrow> JString (tp_text t)
      | content \<Rightarrow>
          (let parts = List.map_filter part_to_openai_format content in
           case parts of
             [] \<Rightarrow> JString []
           | [p] \<Rightarrow> (case json_get ''text'' p of Some text \<Rightarrow> text | None \<Rightarrow> JArray parts)
           | _ \<Rightarrow> JArray parts))"

definition openai_tool_call :: "(json \<Rightarrow> string) \<Rightarrow> tool_call_part \<Rightarrow> json" where
  "openai_tool_call jt tc =
     JObject [(''id'', JString (tcp_id tc)), (''type'', JString ''function''),
       (''function'', JObject [(''name'', JString (tcp_name tc)), (''arguments'', JString (jt (tcp_arguments tc)))])]"

definition to_openai_format :: "(json \<Rightarrow> string) \<Rightarrow> message \<Rightarrow> json" where
  "to_openai_format jt m =
     (case m_role m of
        MToolResult \<Rightarrow>
          let tool_call_id = (case message_tool_call_id m of Some i \<Rightarrow> i | None \<Rightarrow> []);
              content = (case tool_result_content m of
                 Some tr \<Rightarrow>
                   (case trp_error tr of
                      Some error \<Rightarrow> ''Error: '' @ error
                    | None \<Rightarrow> (case trp_result tr of Some result \<Rightarrow> jt result | None \<Rightarrow> ''{}''))
               | None \<Rightarrow> ''{}'')
          in JObject [(''role'', JString ''tool''), (''content'', JString content), (''tool_call_id'', JString tool_call_id)]
      | MAgent \<Rightarrow>
          let tool_calls = map (openai_tool_call jt) (message_tool_calls m);
              text_content = join_text [CHR 0x0A] (List.map_filter part_as_text (m_content m))
          in if tool_calls = [] then JObject [(''role'', JString ''assistant''), (''content'', JString text_content)]
             else JObject ([(''role'', JString ''assistant''), (''tool_calls'', JArray tool_calls)]
                    @ (if text_content \<noteq> [] then [(''content'', JString text_content)] else []))
      | MUser \<Rightarrow> JObject [(''role'', JString ''user''), (''content'', content_to_openai_format m)]
      | MSystem \<Rightarrow> JObject [(''role'', JString ''system''), (''content'', content_to_openai_format m)])"

section \<open>Messages for a model\<close>

datatype llm_content_part =
    LText string | LImage string | LAudio string | LFile string "string option"

datatype llm_content = TextContent string | PartsContent "llm_content_part list"

datatype reasoning_effort = EffortNone | EffortMinimal | EffortLow | EffortMedium | EffortHigh | EffortXhigh | EffortMax

record llm_message =
  l_native_tool_calls :: "native_tool_call list"
  l_role :: llm_role
  l_content :: llm_content
  l_tool_calls :: "tool_call list option"
  l_tool_call_id :: "string option"
  l_phase :: "execution_phase option"
  l_reasoning :: "reasoning_part list"
  l_configuration_update :: "reasoning_effort option"

definition llm_text :: "llm_role \<Rightarrow> string \<Rightarrow> llm_message" where
  "llm_text role content =
     \<lparr>l_native_tool_calls = [], l_role = role, l_content = TextContent content, l_tool_calls = None,
      l_tool_call_id = None, l_phase = None, l_reasoning = [], l_configuration_update = None\<rparr>"

definition llm_parts :: "llm_role \<Rightarrow> llm_content_part list \<Rightarrow> llm_message" where
  "llm_parts role parts =
     \<lparr>l_native_tool_calls = [], l_role = role, l_content = PartsContent parts, l_tool_calls = None,
      l_tool_call_id = None, l_phase = None, l_reasoning = [], l_configuration_update = None\<rparr>"

definition llm_part_text :: "llm_content_part \<Rightarrow> string option" where
  "llm_part_text p = (case p of LText text \<Rightarrow> Some text | _ \<Rightarrow> None)"

definition llm_to_text :: "llm_content \<Rightarrow> string" where
  "llm_to_text c =
     (case c of TextContent s \<Rightarrow> s | PartsContent parts \<Rightarrow> join_text [] (List.map_filter llm_part_text parts))"

fun prefix_first_text :: "string \<Rightarrow> llm_content_part list \<Rightarrow> llm_content_part list option" where
  "prefix_first_text pre [] = None"
| "prefix_first_text pre (p # ps) =
     (case p of
        LText text \<Rightarrow> Some (LText (pre @ text) # ps)
      | _ \<Rightarrow> map_option (\<lambda>qs. p # qs) (prefix_first_text pre ps))"

definition prepend_text_prefix :: "string \<Rightarrow> llm_message \<Rightarrow> llm_message" where
  "prepend_text_prefix pre m =
     m\<lparr>l_content :=
        (case l_content m of
           TextContent text \<Rightarrow> TextContent (pre @ text)
         | PartsContent parts \<Rightarrow>
             PartsContent (case prefix_first_text pre parts of Some ps \<Rightarrow> ps | None \<Rightarrow> LText pre # parts))\<rparr>"

definition fold_system_step :: "llm_message \<Rightarrow> string option \<Rightarrow> string option" where
  "fold_system_step msg system =
     (if l_role msg = LSystem then
        let text = llm_to_text (l_content msg) in
        Some (case system of
                Some existing \<Rightarrow> if existing \<noteq> [] then existing @ [CHR 0x0A, CHR 0x0A] @ text else text
              | None \<Rightarrow> text)
      else system)"

definition fold_system_messages :: "llm_message list \<Rightarrow> string option" where
  "fold_system_messages messages = fold fold_system_step messages None"

section \<open>Conversion\<close>

fun llm_role_of :: "message_role \<Rightarrow> llm_role" where
  "llm_role_of MSystem = LSystem"
| "llm_role_of MUser = LUser"
| "llm_role_of MAgent = LAssistant"
| "llm_role_of MToolResult = LTool"

definition tool_call_of_part :: "tool_call_part \<Rightarrow> tool_call" where
  "tool_call_of_part tc = \<lparr>tc_id = tcp_id tc, tc_name = tcp_name tc, tc_arguments = tcp_arguments tc\<rparr>"

definition llm_message_from_message :: "(json \<Rightarrow> string) \<Rightarrow> message \<Rightarrow> llm_message" where
  "llm_message_from_message jt msg =
     (let tool_calls = map tool_call_of_part (message_tool_calls msg) in
      \<lparr>l_native_tool_calls = List.map_filter tcp_native (message_tool_calls msg),
       l_role = llm_role_of (m_role msg),
       l_content = TextContent (content_to_llm_string jt msg),
       l_tool_calls = (if tool_calls = [] then None else Some tool_calls),
       l_tool_call_id = message_tool_call_id msg,
       l_phase = m_phase msg,
       l_reasoning = reasoning_parts msg,
       l_configuration_update = None\<rparr>)"

text \<open>\<open>is_char_boundary\<close> on the bytes of a string: not inside a character.\<close>

definition is_char_boundary :: "string \<Rightarrow> nat \<Rightarrow> bool" where
  "is_char_boundary s i \<longleftrightarrow>
     i = 0 \<or> i = length s
     \<or> i < length s \<and> \<not> (128 \<le> (of_char (s ! i) :: nat) \<and> (of_char (s ! i) :: nat) < 192)"

fun floor_boundary :: "string \<Rightarrow> nat \<Rightarrow> nat" where
  "floor_boundary s 0 = 0"
| "floor_boundary s (Suc end) = (if is_char_boundary s (Suc end) then Suc end else floor_boundary s end)"

definition MAX_TOOL_RESULT_BYTES :: nat where "MAX_TOOL_RESULT_BYTES = 64 * 1024"

text \<open>The dash of the message is three bytes long in UTF-8.\<close>

definition TRUNCATION_SUFFIX :: string where
  "TRUNCATION_SUFFIX =
     [CHR 0x0A, CHR 0x0A] @ ''[Output truncated '' @ [CHR 0xE2, CHR 0x80, CHR 0x94]
     @ '' exceeded 64 KiB limit. Try quiet flags, pipes, or redirect to file.]''"

definition truncate_tool_result :: "string \<Rightarrow> string" where
  "truncate_tool_result text =
     (if length text \<le> MAX_TOOL_RESULT_BYTES then text
      else let content_budget = MAX_TOOL_RESULT_BYTES - length TRUNCATION_SUFFIX
           in take (floor_boundary text content_budget) text @ TRUNCATION_SUFFIX)"

text \<open>
  What the attachment stores resolved: the data URL of an image, the data URL and name of a file; and
  the printed form of the two kinds of identifier.
\<close>

record attachments =
  at_image :: "uuid \<Rightarrow> string option"
  at_file :: "uuid \<Rightarrow> (string \<times> string option) option"
  at_image_id :: "uuid \<Rightarrow> string"
  at_file_id :: "uuid \<Rightarrow> string"

definition attachment_parts :: "(json \<Rightarrow> string) \<Rightarrow> attachments \<Rightarrow> content_part \<Rightarrow> llm_content_part list" where
  "attachment_parts jt att p =
     (case p of
        PReasoning _ \<Rightarrow> []
      | PText t \<Rightarrow> [LText (tp_text t)]
      | PImage img \<Rightarrow>
          (case ip_url img of
             Some url \<Rightarrow> [LImage url]
           | None \<Rightarrow>
               (case (ip_base64 img, ip_media_type img) of
                  (Some base64, Some media_type) \<Rightarrow> [LImage (data_url media_type base64)]
                | _ \<Rightarrow> []))
      | PImageFile f \<Rightarrow>
          (case at_image att (if_image_id f) of
             Some url \<Rightarrow> [LImage url]
           | None \<Rightarrow> [LText (''[Image not found: '' @ at_image_id att (if_image_id f) @ '']'')])
      | PFile f \<Rightarrow>
          (case at_file att (fp_file_id f) of
             Some (url, name) \<Rightarrow> [LFile url (case name of Some n \<Rightarrow> Some n | None \<Rightarrow> fp_filename f)]
           | None \<Rightarrow> [LText (''[File not found: '' @ at_file_id att (fp_file_id f) @ '']'')])
      | PToolCall _ \<Rightarrow> []
      | PToolResult tr \<Rightarrow> [LText (truncate_tool_result (tool_result_string jt tr))])"

definition llm_message_from_message_with_attachments ::
  "(json \<Rightarrow> string) \<Rightarrow> attachments \<Rightarrow> message \<Rightarrow> llm_message" where
  "llm_message_from_message_with_attachments jt att msg =
     (let parts = concat (map (attachment_parts jt att) (m_content msg));
          tool_calls = map tool_call_of_part (message_tool_calls msg);
          content = (case parts of [] \<Rightarrow> TextContent [] | [LText text] \<Rightarrow> TextContent text | _ \<Rightarrow> PartsContent parts)
      in \<lparr>l_native_tool_calls = List.map_filter tcp_native (message_tool_calls msg),
          l_role = llm_role_of (m_role msg),
          l_content = content,
          l_tool_calls = (if tool_calls = [] then None else Some tool_calls),
          l_tool_call_id = message_tool_call_id msg,
          l_phase = m_phase msg,
          l_reasoning = reasoning_parts msg,
          l_configuration_update = None\<rparr>)"

definition extract_file_ids :: "message \<Rightarrow> uuid list" where
  "extract_file_ids msg =
     List.map_filter (\<lambda>p. case p of PFile f \<Rightarrow> Some (fp_file_id f) | _ \<Rightarrow> None) (m_content msg)"

definition extract_image_file_ids :: "message \<Rightarrow> uuid list" where
  "extract_image_file_ids msg =
     List.map_filter (\<lambda>p. case p of PImageFile f \<Rightarrow> Some (if_image_id f) | _ \<Rightarrow> None) (m_content msg)"

section \<open>Repairing a transcript\<close>

definition CANCELLED_RESULT :: string where
  "CANCELLED_RESULT = ''cancelled - another message came in before it could be completed''"

definition has_result_for :: "string \<Rightarrow> message list \<Rightarrow> bool" where
  "has_result_for i later = list_ex (\<lambda>m. m_role m = MToolResult \<and> message_tool_call_id m = Some i) later"

text \<open>The results added after one message; \<open>stamp\<close> gives the id and time of a new message.\<close>

definition missing_results :: "(string \<Rightarrow> uuid \<times> timestamp) \<Rightarrow> message \<Rightarrow> message list \<Rightarrow> message list" where
  "missing_results stamp msg later =
     (if m_role msg = MAgent \<and> has_tool_calls msg then
        map (\<lambda>tc. message_tool_result (fst (stamp (tcp_id tc))) (snd (stamp (tcp_id tc))) (tcp_id tc) None
                    (Some CANCELLED_RESULT))
          (filter (\<lambda>tc. \<not> has_result_for (tcp_id tc) later) (message_tool_calls msg))
      else [])"

fun patch_dangling_tool_calls :: "(string \<Rightarrow> uuid \<times> timestamp) \<Rightarrow> message list \<Rightarrow> message list" where
  "patch_dangling_tool_calls stamp [] = []"
| "patch_dangling_tool_calls stamp (msg # later) =
     msg # missing_results stamp msg later @ patch_dangling_tool_calls stamp later"

section \<open>Lemmas\<close>

lemma message_role_roundtrip: "message_role_from (message_role_display r) = r"
  by (cases r; hypsubst; code_simp)

lemma phase_roundtrip: "phase_from_provider_str (phase_as_provider_str p) = Some p"
  by (cases p; hypsubst; code_simp)

lemma phase_source_roundtrip: "phase_source_from_str_opt (phase_source_as_str p) = Some p"
  by (cases p; hypsubst; code_simp)

text \<open>The name of a content type reads back as that type, except for files.\<close>

lemma content_type_roundtrip: "content_type_from (content_type_display t) = t \<longleftrightarrow> t \<noteq> CtFile"
  by (cases t; hypsubst; code_simp)

text \<open>A streamed phase is settled by its first hint.\<close>

lemma streamed_hint_settles: "fold (\<lambda>p h. refine_streamed_hint h p) (p # ps) None = Some p"
proof -
  have "fold (\<lambda>p h. refine_streamed_hint h p) ps (Some p) = Some p"
    by (induction ps) (simp_all add: refine_streamed_hint_def)
  then show ?thesis by (simp add: refine_streamed_hint_def)
qed

lemma floor_boundary_le: "floor_boundary s n \<le> n"
  by (induction n) simp_all

lemma floor_boundary_boundary: "is_char_boundary s (floor_boundary s n)"
  by (induction n) (simp_all add: is_char_boundary_def)

lemma truncation_suffix_length: "length TRUNCATION_SUFFIX = 92"
  by (simp add: TRUNCATION_SUFFIX_def)

lemma truncate_tool_result_bounded:
  "length (truncate_tool_result s) \<le> MAX_TOOL_RESULT_BYTES
    \<and> (\<exists>cut. is_char_boundary s cut \<and> prefix (take cut s) (truncate_tool_result s)
         \<and> (truncate_tool_result s = s \<or> truncate_tool_result s = take cut s @ TRUNCATION_SUFFIX))"
proof (cases "length s \<le> MAX_TOOL_RESULT_BYTES")
  case True
  then show ?thesis by (auto simp: truncate_tool_result_def is_char_boundary_def intro!: exI [of _ "length s"])
next
  case False
  let ?cut = "floor_boundary s (MAX_TOOL_RESULT_BYTES - length TRUNCATION_SUFFIX)"
  have "length (take ?cut s @ TRUNCATION_SUFFIX) \<le> MAX_TOOL_RESULT_BYTES"
    using floor_boundary_le [of s "MAX_TOOL_RESULT_BYTES - length TRUNCATION_SUFFIX"]
    by (simp add: truncation_suffix_length MAX_TOOL_RESULT_BYTES_def)
  with False show ?thesis using floor_boundary_boundary
    by (auto simp: truncate_tool_result_def Let_def intro!: exI [of _ ?cut])
qed

text \<open>Publishing a message leaves no signature and no encrypted payload, and keeps what can be read.\<close>

lemma into_public_reasoning:
  "reasoning_parts (into_public m) = map reasoning_to_public (reasoning_parts m)"
proof -
  have "List.map_filter part_as_reasoning
      (map (\<lambda>p. case p of PReasoning r \<Rightarrow> PReasoning (reasoning_to_public r) | _ \<Rightarrow> p) ps)
    = map reasoning_to_public (List.map_filter part_as_reasoning ps)" for ps
    by (induction ps) (auto simp: List.map_filter_simps part_as_reasoning_def split: content_part.splits)
  then show ?thesis by (simp add: reasoning_parts_def into_public_def)
qed

lemma into_public_display: "message_reasoning_display (into_public m) = message_reasoning_display m"
proof -
  have "List.map_filter reasoning_display_text (map reasoning_to_public rs) = List.map_filter reasoning_display_text rs" for rs
  proof (induction rs)
    case (Cons r rs)
    have "reasoning_display_text (reasoning_to_public r) = reasoning_display_text r"
      by (simp add: reasoning_display_text_def reasoning_to_public_def)
    with Cons show ?case by (simp add: List.map_filter_simps split: option.split)
  qed (simp add: List.map_filter_simps)
  then show ?thesis by (simp add: message_reasoning_display_def into_public_reasoning)
qed

text \<open>No system message is lost when they are folded into one.\<close>

lemma fold_system_all:
  assumes "fold_system_messages ms = Some text" and "m \<in> set ms" and "l_role m = LSystem"
  shows "sublist (llm_to_text (l_content m)) text"
proof -
  have keep: "\<exists>t'. fold fold_system_step ms (Some t) = Some t' \<and> sublist t t'" for t ms
  proof (induction ms arbitrary: t)
    case (Cons a ms)
    obtain u where "fold_system_step a (Some t) = Some u" "sublist t u"
      by (cases "l_role a = LSystem"; cases "t = []") (auto simp: fold_system_step_def Let_def)
    then show ?case using Cons [of u] by (auto intro: sublist_order.order.trans)
  qed simp
  have "\<exists>t'. fold fold_system_step ms s = Some t' \<and> sublist (llm_to_text (l_content m)) t'" if "m \<in> set ms" for s ms
    using that
  proof (induction ms arbitrary: s)
    case (Cons a ms)
    show ?case
    proof (cases "m = a")
      case True
      define u where "u = the (fold_system_step a s)"
      have "sublist x (y @ [CHR 0x0A, CHR 0x0A] @ x)" for x y :: string
        using sublist_appendI [of x "y @ [CHR 0x0A, CHR 0x0A]" "[]"] by simp
      then have "fold_system_step a s = Some u \<and> sublist (llm_to_text (l_content m)) u"
        using assms(3) True by (cases s) (simp_all add: u_def fold_system_step_def Let_def)
      then show ?thesis using keep [of ms u] by (auto intro: sublist_order.order.trans)
    qed (use Cons in auto)
  qed simp
  from this [OF assms(2), of None] show ?thesis using assms(1) by (auto simp: fold_system_messages_def)
qed

end
