(* ===== verification/Tool_Integrity.thy ===== *)
theory Tool_Integrity
  imports Messages
begin

text \<open>
  Keeping tool calls and their results together (\<open>crates/core/src/tool_call_integrity.rs\<close>), and the
  correctness of both reducers and of the transcript repair of \<open>Messages\<close>.
\<close>

section \<open>Stored messages\<close>

definition part_is_call :: "content_part \<Rightarrow> bool" where
  "part_is_call p = (case p of PToolCall _ \<Rightarrow> True | _ \<Rightarrow> False)"

definition part_is_result :: "content_part \<Rightarrow> bool" where
  "part_is_result p = (case p of PToolResult _ \<Rightarrow> True | _ \<Rightarrow> False)"

definition part_visible :: "content_part \<Rightarrow> bool" where
  "part_visible p =
     (case p of
        PText text \<Rightarrow> tp_text text \<noteq> []
      | PReasoning _ \<Rightarrow> False
      | _ \<Rightarrow> True)"

definition message_has_visible_content :: "message \<Rightarrow> bool" where
  "message_has_visible_content m = list_ex part_visible (m_content m)"

definition result_ids :: "message list \<Rightarrow> string list" where
  "result_ids ms = map trp_tool_call_id (List.map_filter part_as_tool_result (concat (map m_content ms)))"

definition call_ids :: "message list \<Rightarrow> string list" where
  "call_ids ms = map tcp_id (List.map_filter part_as_tool_call (concat (map m_content ms)))"

definition call_kept :: "string list \<Rightarrow> content_part \<Rightarrow> bool" where
  "call_kept results p = (case p of PToolCall call \<Rightarrow> tcp_id call \<in> set results | _ \<Rightarrow> True)"

definition result_kept :: "string list \<Rightarrow> bool \<Rightarrow> content_part \<Rightarrow> bool" where
  "result_kept calls allow_unmatched p =
     (case p of PToolResult result \<Rightarrow> trp_tool_call_id result \<in> set calls \<or> allow_unmatched | _ \<Rightarrow> True)"

definition keep_calls :: "string list \<Rightarrow> message \<Rightarrow> message option" where
  "keep_calls results m =
     (let had_calls = list_ex part_is_call (m_content m);
          m' = m\<lparr>m_content := filter (call_kept results) (m_content m)\<rparr>
      in if \<not> had_calls \<or> message_has_visible_content m' then Some m' else None)"

definition keep_results :: "string list \<Rightarrow> bool \<Rightarrow> message \<Rightarrow> message option" where
  "keep_results calls allow_unmatched m =
     (let had_results = list_ex part_is_result (m_content m);
          m' = m\<lparr>m_content := filter (result_kept calls allow_unmatched) (m_content m)\<rparr>
      in if \<not> had_results \<or> message_has_visible_content m' then Some m' else None)"

definition retain_complete_message_tool_exchanges :: "message list \<Rightarrow> bool \<Rightarrow> message list" where
  "retain_complete_message_tool_exchanges messages allow_unmatched =
     (let calls_filtered = List.map_filter (keep_calls (result_ids messages)) messages
      in List.map_filter (keep_results (call_ids calls_filtered) allow_unmatched) calls_filtered)"

section \<open>Messages for a model\<close>

definition llm_message_has_visible_content :: "llm_message \<Rightarrow> bool" where
  "llm_message_has_visible_content m \<longleftrightarrow>
     (case l_content m of TextContent text \<Rightarrow> text \<noteq> [] | PartsContent parts \<Rightarrow> parts \<noteq> [])
     \<or> l_tool_calls m \<noteq> None \<or> l_reasoning m \<noteq> []"

definition llm_calls :: "llm_message \<Rightarrow> tool_call list" where
  "llm_calls m = (case l_tool_calls m of Some calls \<Rightarrow> calls | None \<Rightarrow> [])"

definition llm_result_ids :: "llm_message list \<Rightarrow> string list" where
  "llm_result_ids ms = List.map_filter l_tool_call_id (filter (\<lambda>m. l_role m = LTool) ms)"

definition llm_call_ids :: "llm_message list \<Rightarrow> string list" where
  "llm_call_ids ms = map tc_id (concat (map llm_calls ms))"

definition llm_keep_calls :: "string list \<Rightarrow> llm_message \<Rightarrow> llm_message option" where
  "llm_keep_calls results m =
     (let m' = (case l_tool_calls m of
                  Some calls \<Rightarrow>
                    (let kept = filter (\<lambda>c. tc_id c \<in> set results) calls
                     in m\<lparr>l_tool_calls := (if kept = [] then None else Some kept)\<rparr>)
                | None \<Rightarrow> m)
      in if l_tool_calls m = None \<or> llm_message_has_visible_content m' then Some m' else None)"

definition llm_result_kept :: "string list \<Rightarrow> bool \<Rightarrow> llm_message \<Rightarrow> bool" where
  "llm_result_kept calls allow_unmatched m \<longleftrightarrow>
     l_role m \<noteq> LTool
     \<or> (case l_tool_call_id m of Some i \<Rightarrow> i \<in> set calls \<or> allow_unmatched | None \<Rightarrow> False)"

definition retain_complete_llm_tool_exchanges_for_request :: "llm_message list \<Rightarrow> bool \<Rightarrow> llm_message list" where
  "retain_complete_llm_tool_exchanges_for_request messages allow_unmatched =
     (let calls_filtered = List.map_filter (llm_keep_calls (llm_result_ids messages)) messages
      in filter (llm_result_kept (llm_call_ids calls_filtered) allow_unmatched) calls_filtered)"

definition retain_complete_llm_tool_exchanges :: "llm_message list \<Rightarrow> llm_message list" where
  "retain_complete_llm_tool_exchanges messages = retain_complete_llm_tool_exchanges_for_request messages False"

section \<open>Content of reduced messages\<close>

lemma map_filter_set: "set (List.map_filter f xs) = {y. \<exists>x \<in> set xs. f x = Some y}"
  by (force simp: List.map_filter_def)

lemma part_as_iff [simp]:
  "part_as_tool_result p = Some r \<longleftrightarrow> p = PToolResult r" "part_as_tool_call p = Some c \<longleftrightarrow> p = PToolCall c"
  by (auto simp: part_as_tool_result_def part_as_tool_call_def split: content_part.splits)

lemma part_kept [simp]:
  "call_kept ids (PToolResult r)" "call_kept ids (PToolCall c) \<longleftrightarrow> tcp_id c \<in> set ids"
  "result_kept ids a (PToolCall c)" "result_kept ids a (PToolResult r) \<longleftrightarrow> trp_tool_call_id r \<in> set ids \<or> a"
  "part_visible (PToolCall c)" "part_visible (PToolResult r)"
  by (simp_all add: call_kept_def result_kept_def part_visible_def)

definition all_parts :: "message list \<Rightarrow> content_part set" where
  "all_parts ms = (\<Union>m \<in> set ms. set (m_content m))"

lemma result_ids_set: "set (result_ids ms) = trp_tool_call_id ` {r. PToolResult r \<in> all_parts ms}"
  by (auto simp: result_ids_def map_filter_set all_parts_def)

lemma call_ids_set: "set (call_ids ms) = tcp_id ` {c. PToolCall c \<in> all_parts ms}"
  by (auto simp: call_ids_def map_filter_set all_parts_def)

lemma part_is_visible: "part_is_call p \<Longrightarrow> part_visible p" "part_is_result p \<Longrightarrow> part_visible p"
  by (cases p; simp add: part_is_call_def part_is_result_def part_visible_def)+

lemma visibleI: "p \<in> set (m_content m) \<Longrightarrow> part_visible p \<Longrightarrow> message_has_visible_content m"
  by (auto simp: message_has_visible_content_def list_ex_iff)

text \<open>A message keeps a call or a result, and is kept for it, as long as that part itself is kept.\<close>

lemma keep_calls_part:
  "p \<in> set (m_content m) \<Longrightarrow> call_kept ids p \<Longrightarrow> part_visible p \<Longrightarrow>
    \<exists>m'. keep_calls ids m = Some m' \<and> p \<in> set (m_content m')"
  using visibleI [of p "m\<lparr>m_content := filter (call_kept ids) (m_content m)\<rparr>"] by (simp add: keep_calls_def Let_def)

lemma keep_results_part:
  "p \<in> set (m_content m) \<Longrightarrow> result_kept ids a p \<Longrightarrow> part_visible p \<Longrightarrow>
    \<exists>m'. keep_results ids a m = Some m' \<and> p \<in> set (m_content m')"
  using visibleI [of p "m\<lparr>m_content := filter (result_kept ids a) (m_content m)\<rparr>"] by (simp add: keep_results_def Let_def)

lemma keep_calls_content: "keep_calls ids m = Some m' \<Longrightarrow> m' = m\<lparr>m_content := filter (call_kept ids) (m_content m)\<rparr>"
  by (auto simp: keep_calls_def Let_def split: if_splits)

lemma keep_results_content: "keep_results ids a m = Some m' \<Longrightarrow> m' = m\<lparr>m_content := filter (result_kept ids a) (m_content m)\<rparr>"
  by (auto simp: keep_results_def Let_def split: if_splits)

lemma parts_keep_calls:
  assumes "part_visible p"
  shows "p \<in> all_parts (List.map_filter (keep_calls ids) ms) \<longleftrightarrow> call_kept ids p \<and> p \<in> all_parts ms"
proof
  assume "p \<in> all_parts (List.map_filter (keep_calls ids) ms)"
  then show "call_kept ids p \<and> p \<in> all_parts ms" by (auto simp: all_parts_def map_filter_set dest!: keep_calls_content)
next
  assume p: "call_kept ids p \<and> p \<in> all_parts ms"
  then obtain m where "m \<in> set ms" "p \<in> set (m_content m)" by (auto simp: all_parts_def)
  then show "p \<in> all_parts (List.map_filter (keep_calls ids) ms)"
    using keep_calls_part [of p m ids] p assms by (auto simp: all_parts_def map_filter_set)
qed

lemma parts_keep_results:
  assumes "part_visible p"
  shows "p \<in> all_parts (List.map_filter (keep_results ids a) ms) \<longleftrightarrow> result_kept ids a p \<and> p \<in> all_parts ms"
proof
  assume "p \<in> all_parts (List.map_filter (keep_results ids a) ms)"
  then show "result_kept ids a p \<and> p \<in> all_parts ms" by (auto simp: all_parts_def map_filter_set dest!: keep_results_content)
next
  assume p: "result_kept ids a p \<and> p \<in> all_parts ms"
  then obtain m where "m \<in> set ms" "p \<in> set (m_content m)" by (auto simp: all_parts_def)
  then show "p \<in> all_parts (List.map_filter (keep_results ids a) ms)"
    using keep_results_part [of p m ids a] p assms by (auto simp: all_parts_def map_filter_set)
qed

text \<open>What the reducer keeps, by the ids: calls with a result, and results with such a call.\<close>

lemma kept_call_ids: "set (call_ids (List.map_filter (keep_calls ids) ms)) = set (call_ids ms) \<inter> set ids"
  by (auto simp: call_ids_set parts_keep_calls)

lemma retained_parts:
  "part_visible p \<Longrightarrow> p \<in> all_parts (retain_complete_message_tool_exchanges ms a) \<longleftrightarrow>
    p \<in> all_parts ms \<and> call_kept (result_ids ms) p
    \<and> result_kept (call_ids (List.map_filter (keep_calls (result_ids ms)) ms)) a p"
  by (auto simp: retain_complete_message_tool_exchanges_def Let_def parts_keep_calls parts_keep_results)

lemma retained_call_ids:
  "set (call_ids (retain_complete_message_tool_exchanges ms a)) = set (call_ids ms) \<inter> set (result_ids ms)"
  by (auto simp: call_ids_set [of "retain_complete_message_tool_exchanges ms a"] retained_parts call_ids_set [of ms])

lemma retained_result_ids:
  "set (result_ids (retain_complete_message_tool_exchanges ms a))
    = (if a then set (result_ids ms) else set (call_ids ms) \<inter> set (result_ids ms))"
  by (auto simp: result_ids_set [of "retain_complete_message_tool_exchanges ms a"] retained_parts kept_call_ids
      result_ids_set [of ms])

text \<open>A transcript with complete exchanges passes unchanged.\<close>

lemma map_filter_id: "(\<And>x. x \<in> set xs \<Longrightarrow> f x = Some x) \<Longrightarrow> List.map_filter f xs = xs"
  by (induction xs) (simp_all add: List.map_filter_simps)

lemma keep_calls_id: "(\<And>c. PToolCall c \<in> set (m_content m) \<Longrightarrow> tcp_id c \<in> set ids) \<Longrightarrow> keep_calls ids m = Some m"
proof -
  assume k: "\<And>c. PToolCall c \<in> set (m_content m) \<Longrightarrow> tcp_id c \<in> set ids"
  then have "filter (call_kept ids) (m_content m) = m_content m"
    by (intro filter_True) (auto simp: call_kept_def split: content_part.splits)
  moreover have "list_ex part_is_call (m_content m) \<Longrightarrow> message_has_visible_content m"
    by (auto simp: list_ex_iff intro: visibleI part_is_visible)
  ultimately show ?thesis by (simp add: keep_calls_def Let_def)
qed

lemma keep_results_id:
  "(\<And>r. PToolResult r \<in> set (m_content m) \<Longrightarrow> trp_tool_call_id r \<in> set ids \<or> a) \<Longrightarrow> keep_results ids a m = Some m"
proof -
  assume k: "\<And>r. PToolResult r \<in> set (m_content m) \<Longrightarrow> trp_tool_call_id r \<in> set ids \<or> a"
  then have "filter (result_kept ids a) (m_content m) = m_content m"
    by (intro filter_True) (auto simp: result_kept_def split: content_part.splits)
  moreover have "list_ex part_is_result (m_content m) \<Longrightarrow> message_has_visible_content m"
    by (auto simp: list_ex_iff intro: visibleI part_is_visible)
  ultimately show ?thesis by (simp add: keep_results_def Let_def)
qed

lemma retain_complete_id:
  assumes "set (call_ids ms) \<subseteq> set (result_ids ms)" and "a \<or> set (result_ids ms) \<subseteq> set (call_ids ms)"
  shows "retain_complete_message_tool_exchanges ms a = ms"
proof -
  have c: "List.map_filter (keep_calls (result_ids ms)) ms = ms"
    using assms(1) by (intro map_filter_id keep_calls_id) (auto simp: call_ids_set all_parts_def)
  moreover have "List.map_filter (keep_results (call_ids ms) a) ms = ms"
    using assms(2) by (intro map_filter_id keep_results_id) (auto simp: result_ids_set all_parts_def)
  ultimately show ?thesis by (simp add: retain_complete_message_tool_exchanges_def)
qed

text \<open>Content that is neither a call nor a result.\<close>

definition plain_part :: "content_part \<Rightarrow> bool" where
  "plain_part p \<longleftrightarrow> part_visible p \<and> \<not> part_is_call p \<and> \<not> part_is_result p"

definition plain_content :: "message list \<Rightarrow> content_part list" where
  "plain_content ms = filter plain_part (concat (map m_content ms))"

definition envelope :: "message \<Rightarrow> message" where
  "envelope m = m\<lparr>m_content := []\<rparr>"

lemma plain_content_map_filter:
  assumes "\<And>m m'. f m = Some m' \<Longrightarrow> filter plain_part (m_content m') = filter plain_part (m_content m)"
    and "\<And>m. f m = None \<Longrightarrow> filter plain_part (m_content m) = []"
  shows "plain_content (List.map_filter f ms) = plain_content ms"
  by (induction ms) (auto simp: plain_content_def List.map_filter_simps assms split: option.splits)

lemma subseq_map_filter:
  assumes "\<And>m m'. f m = Some m' \<Longrightarrow> g m' = g m"
  shows "subseq (map g (List.map_filter f ms)) (map g ms)"
  by (induction ms) (auto simp: List.map_filter_simps assms split: option.splits)

lemma filter_plain_kept:
  "filter plain_part (filter (call_kept ids) ps) = filter plain_part ps"
  "filter plain_part (filter (result_kept ids a) ps) = filter plain_part ps"
  by (auto intro!: filter_cong simp: plain_part_def call_kept_def result_kept_def part_is_call_def part_is_result_def
      split: content_part.splits)

lemma plain_visible: "\<not> message_has_visible_content m \<Longrightarrow> filter plain_part (m_content m) = []"
  by (auto simp: message_has_visible_content_def list_ex_iff plain_part_def filter_empty_conv)

lemma retained_plain: "plain_content (retain_complete_message_tool_exchanges ms a) = plain_content ms"
proof -
  have c: "plain_content (List.map_filter (keep_calls ids) ms) = plain_content ms" for ids ms
    using plain_visible [of "m\<lparr>m_content := filter (call_kept ids) (m_content m)\<rparr>" for m]
    by (intro plain_content_map_filter)
      (auto simp: keep_calls_def Let_def filter_plain_kept simp del: filter_filter split: if_splits)
  have "plain_content (List.map_filter (keep_results ids a) ms) = plain_content ms" for ids ms
    using plain_visible [of "m\<lparr>m_content := filter (result_kept ids a) (m_content m)\<rparr>" for m]
    by (intro plain_content_map_filter)
      (auto simp: keep_results_def Let_def filter_plain_kept simp del: filter_filter split: if_splits)
  with c show ?thesis by (simp add: retain_complete_message_tool_exchanges_def Let_def)
qed

lemma retained_order: "subseq (map envelope (retain_complete_message_tool_exchanges ms a)) (map envelope ms)"
proof -
  let ?c = "List.map_filter (keep_calls (result_ids ms)) ms"
  have "subseq (map envelope (retain_complete_message_tool_exchanges ms a)) (map envelope ?c)"
    unfolding retain_complete_message_tool_exchanges_def Let_def
    by (rule subseq_map_filter) (auto dest!: keep_results_content simp: envelope_def)
  moreover have "subseq (map envelope ?c) (map envelope ms)"
    by (rule subseq_map_filter) (auto dest!: keep_calls_content simp: envelope_def)
  ultimately show ?thesis by (rule subseq_order.trans)
qed

section \<open>Reduced messages for a model\<close>

text \<open>A message that carries a result issues no calls of its own.\<close>

definition tool_messages_plain :: "llm_message list \<Rightarrow> bool" where
  "tool_messages_plain ms = list_all (\<lambda>m. l_role m = LTool \<longrightarrow> l_tool_calls m = None) ms"

lemma llm_calls_simps [simp]:
  "llm_calls (m\<lparr>l_tool_calls := None\<rparr>) = []" "llm_calls (m\<lparr>l_tool_calls := Some cs\<rparr>) = cs"
  "l_tool_calls m = None \<Longrightarrow> llm_calls m = []"
  by (simp_all add: llm_calls_def)

lemma llm_keep_calls_Some:
  "llm_keep_calls ids m = Some m' \<Longrightarrow>
    llm_calls m' = filter (\<lambda>c. tc_id c \<in> set ids) (llm_calls m) \<and> m' = m\<lparr>l_tool_calls := l_tool_calls m'\<rparr>
    \<and> l_tool_calls m' \<noteq> Some [] \<and> (l_tool_calls m = None \<longrightarrow> m' = m)"
  by (auto simp: llm_keep_calls_def Let_def llm_calls_def split: option.splits if_splits)

lemma llm_keep_calls_None: "llm_keep_calls ids m = None \<Longrightarrow> filter (\<lambda>c. tc_id c \<in> set ids) (llm_calls m) = [] \<and> l_tool_calls m \<noteq> None"
  by (auto simp: llm_keep_calls_def Let_def llm_calls_def llm_message_has_visible_content_def split: option.splits if_splits)

lemma llm_keep_calls_plain: "l_tool_calls m = None \<Longrightarrow> llm_keep_calls ids m = Some m"
  by (simp add: llm_keep_calls_def)

lemma llm_call_ids_simps [simp]:
  "llm_call_ids [] = []" "llm_call_ids (m # ms) = map tc_id (llm_calls m) @ llm_call_ids ms"
  by (simp_all add: llm_call_ids_def)

lemma llm_result_ids_simps [simp]:
  "llm_result_ids [] = []"
  "llm_result_ids (m # ms) = (if l_role m = LTool then (case l_tool_call_id m of Some i \<Rightarrow> [i] | None \<Rightarrow> []) else [])
     @ llm_result_ids ms"
  by (simp_all add: llm_result_ids_def List.map_filter_simps split: option.splits)

lemma llm_call_ids_keep:
  "set (llm_call_ids (List.map_filter (llm_keep_calls ids) ms)) = set (llm_call_ids ms) \<inter> set ids"
proof (induction ms)
  case (Cons m ms)
  show ?case
  proof (cases "llm_keep_calls ids m")
    case None
    then show ?thesis using Cons llm_keep_calls_None [OF None]
      by (auto simp: List.map_filter_simps filter_empty_conv)
  next
    case (Some m')
    then show ?thesis using Cons llm_keep_calls_Some [OF Some] by (auto simp: List.map_filter_simps)
  qed
qed (simp add: List.map_filter_simps)

lemma llm_result_ids_keep:
  "tool_messages_plain ms \<Longrightarrow> llm_result_ids (List.map_filter (llm_keep_calls ids) ms) = llm_result_ids ms"
proof (induction ms)
  case (Cons m ms)
  show ?case
  proof (cases "llm_keep_calls ids m")
    case None
    then show ?thesis using Cons llm_keep_calls_None [OF None]
      by (auto simp: List.map_filter_simps tool_messages_plain_def)
  next
    case (Some m')
    then have "l_role m' = l_role m \<and> l_tool_call_id m' = l_tool_call_id m"
      using llm_keep_calls_Some [OF Some] by (metis llm_message.select_convs(2,5) llm_message.surjective llm_message.update_convs(4))
    then show ?thesis using Cons Some by (simp add: List.map_filter_simps tool_messages_plain_def)
  qed
qed (simp add: List.map_filter_simps)

lemma llm_kept_plain: "tool_messages_plain ms \<Longrightarrow> tool_messages_plain (List.map_filter (llm_keep_calls ids) ms)"
proof (induction ms)
  case (Cons m ms)
  then show ?case using llm_keep_calls_Some [of ids m] 
    by (auto simp: List.map_filter_simps tool_messages_plain_def llm_keep_calls_plain split: option.splits)
      (metis llm_message.select_convs(2) llm_message.surjective llm_message.update_convs(4))
qed (simp add: List.map_filter_simps tool_messages_plain_def)

lemma llm_call_ids_filter:
  "tool_messages_plain ms \<Longrightarrow> (\<And>m. l_role m \<noteq> LTool \<Longrightarrow> P m) \<Longrightarrow> llm_call_ids (filter P ms) = llm_call_ids ms"
  by (induction ms) (auto simp: tool_messages_plain_def)

lemma llm_result_ids_filter:
  "set (llm_result_ids (filter (llm_result_kept ids a) ms)) = {i \<in> set (llm_result_ids ms). i \<in> set ids \<or> a}"
proof (induction ms)
  case (Cons m ms)
  then show ?case
    by (cases "l_role m = LTool"; cases "l_tool_call_id m") (auto simp: llm_result_kept_def)
qed simp

lemma llm_retained_call_ids:
  "tool_messages_plain ms \<Longrightarrow>
    set (llm_call_ids (retain_complete_llm_tool_exchanges_for_request ms a)) = set (llm_call_ids ms) \<inter> set (llm_result_ids ms)"
  by (simp add: retain_complete_llm_tool_exchanges_for_request_def Let_def llm_kept_plain llm_call_ids_filter
      llm_result_kept_def llm_call_ids_keep)

lemma llm_retained_result_ids:
  "tool_messages_plain ms \<Longrightarrow>
    set (llm_result_ids (retain_complete_llm_tool_exchanges_for_request ms a))
      = (if a then set (llm_result_ids ms) else set (llm_call_ids ms) \<inter> set (llm_result_ids ms))"
  by (auto simp: retain_complete_llm_tool_exchanges_for_request_def Let_def llm_result_ids_filter llm_result_ids_keep
      llm_call_ids_keep)

text \<open>Each message that is kept is one of the input with some of its calls.\<close>

definition without_calls :: "llm_message \<Rightarrow> llm_message" where
  "without_calls m = m\<lparr>l_tool_calls := None\<rparr>"

lemma llm_retained_order: "subseq (map without_calls (retain_complete_llm_tool_exchanges_for_request ms a)) (map without_calls ms)"
proof -
  let ?c = "List.map_filter (llm_keep_calls (llm_result_ids ms)) ms"
  have "subseq (map without_calls (retain_complete_llm_tool_exchanges_for_request ms a)) (map without_calls ?c)"
    unfolding retain_complete_llm_tool_exchanges_for_request_def Let_def by (intro subseq_map subseq_filter_left)
  moreover have "subseq (map without_calls ?c) (map without_calls ms)"
  proof (rule subseq_map_filter)
    fix m m' assume "llm_keep_calls (llm_result_ids ms) m = Some m'"
    then show "without_calls m' = without_calls m" using llm_keep_calls_Some by (auto simp: without_calls_def) (metis llm_message.surjective llm_message.update_convs(4))
  qed
  ultimately show ?thesis by (rule subseq_order.trans)
qed

text \<open>A complete transcript passes unchanged.\<close>

definition llm_well_formed :: "llm_message list \<Rightarrow> bool" where
  "llm_well_formed ms = list_all (\<lambda>m. l_tool_calls m \<noteq> Some []
     \<and> (l_role m = LTool \<longrightarrow> l_tool_call_id m \<noteq> None)) ms"

lemma llm_keep_calls_id:
  "l_tool_calls m \<noteq> Some [] \<Longrightarrow> (\<And>c. c \<in> set (llm_calls m) \<Longrightarrow> tc_id c \<in> set ids) \<Longrightarrow> llm_keep_calls ids m = Some m"
  by (auto simp: llm_keep_calls_def llm_calls_def llm_message_has_visible_content_def Let_def filter_empty_conv
      split: option.splits) 

lemma llm_retain_complete_id:
  assumes "llm_well_formed ms" and "set (llm_call_ids ms) \<subseteq> set (llm_result_ids ms)"
    and "a \<or> set (llm_result_ids ms) \<subseteq> set (llm_call_ids ms)"
  shows "retain_complete_llm_tool_exchanges_for_request ms a = ms"
proof -
  have "List.map_filter (llm_keep_calls (llm_result_ids ms)) ms = ms"
    using assms(1,2) by (intro map_filter_id llm_keep_calls_id) (auto simp: llm_well_formed_def list_all_iff llm_call_ids_def)
  moreover have "filter (llm_result_kept (llm_call_ids ms) a) ms = ms"
  proof (rule filter_True, rule ballI)
    fix m assume m: "m \<in> set ms"
    show "llm_result_kept (llm_call_ids ms) a m"
    proof (cases "l_role m = LTool")
      case True
      then obtain i where i: "l_tool_call_id m = Some i" using assms(1) m by (auto simp: llm_well_formed_def list_all_iff)
      then have "i \<in> set (llm_result_ids ms)" using True m by (auto simp: llm_result_ids_def map_filter_set)
      then show ?thesis using assms(3) i by (auto simp: llm_result_kept_def)
    qed (simp add: llm_result_kept_def)
  qed
  ultimately show ?thesis by (simp add: retain_complete_llm_tool_exchanges_for_request_def)
qed

lemma llm_retained_well_formed: "llm_well_formed (retain_complete_llm_tool_exchanges_for_request ms a)"
  by (auto simp: retain_complete_llm_tool_exchanges_for_request_def Let_def llm_well_formed_def list_all_iff
      map_filter_set llm_result_kept_def split: option.splits dest!: llm_keep_calls_Some)

section \<open>Repairing a transcript\<close>

text \<open>Every call of an agent's message has a result in a later tool message.\<close>

fun calls_answered :: "message list \<Rightarrow> bool" where
  "calls_answered [] \<longleftrightarrow> True"
| "calls_answered (m # later) \<longleftrightarrow>
     (m_role m = MAgent \<longrightarrow> list_all (\<lambda>tc. has_result_for (tcp_id tc) later) (message_tool_calls m)) \<and> calls_answered later"

lemma has_result_for_append [simp]: "has_result_for i (xs @ ys) \<longleftrightarrow> has_result_for i xs \<or> has_result_for i ys"
  by (simp add: has_result_for_def)

lemma has_tool_calls_iff: "has_tool_calls m \<longleftrightarrow> message_tool_calls m \<noteq> []"
  by (cases m, simp add: has_tool_calls_def message_tool_calls_def, induct_tac m_content)
    (auto simp: List.map_filter_simps part_as_tool_call_def split: content_part.splits option.splits)

lemma missing_results_role: "m \<in> set (missing_results st msg later) \<Longrightarrow> m_role m = MToolResult"
  by (auto simp: missing_results_def message_tool_result_def message_of_def split: if_splits)

lemma missing_results_answer:
  "m_role msg = MAgent \<Longrightarrow> tc \<in> set (message_tool_calls msg) \<Longrightarrow>
    has_result_for (tcp_id tc) (missing_results st msg later) \<or> has_result_for (tcp_id tc) later"
  by (cases "has_result_for (tcp_id tc) later")
    (auto simp: missing_results_def has_tool_calls_iff has_result_for_def list_ex_iff message_tool_result_def message_of_def
      message_tool_call_id_def tool_result_part_new_def)

lemma has_result_for_mono: "set xs \<subseteq> set ys \<Longrightarrow> has_result_for i xs \<Longrightarrow> has_result_for i ys"
  by (auto simp: has_result_for_def list_ex_iff)

lemma patch_subseq: "subseq ms (patch_dangling_tool_calls st ms)"
  by (induction ms) (auto intro: subseq_drop_many)

lemma calls_answered_append:
  "(\<And>m. m \<in> set xs \<Longrightarrow> m_role m \<noteq> MAgent) \<Longrightarrow> calls_answered (xs @ ys) = calls_answered ys"
  by (induction xs) auto

lemma patch_answered: "calls_answered (patch_dangling_tool_calls st ms)"
proof (induction ms)
  case (Cons m ms)
  have "has_result_for (tcp_id tc) (missing_results st m ms @ patch_dangling_tool_calls st ms)"
    if "m_role m = MAgent" "tc \<in> set (message_tool_calls m)" for tc
    using missing_results_answer [OF that] has_result_for_mono [of ms "patch_dangling_tool_calls st ms"]
      patch_subseq [of ms st] by (auto dest: list_emb_set)
  moreover have "calls_answered (missing_results st m ms @ patch_dangling_tool_calls st ms)"
    using Cons calls_answered_append [of "missing_results st m ms"] missing_results_role by fastforce
  ultimately show ?case by (simp add: list_all_iff)
qed simp

lemma patch_answered_id: "calls_answered ms \<Longrightarrow> patch_dangling_tool_calls st ms = ms"
  by (induction ms) (auto simp: missing_results_def list_all_iff)

section \<open>Properties\<close>

text \<open>
  Reducing stored messages never splits an exchange. In what is kept every tool call has a result,
  and unless the request continues one the provider stores every result has a call; reducing again
  changes nothing; no message is added, moved or changed but in its calls and results; and all
  other content (text, images, files) is kept, in order.
\<close>

theorem message_exchanges_complete:
  "let out = retain_complete_message_tool_exchanges ms a in
    set (call_ids out) = set (call_ids ms) \<inter> set (result_ids ms)
    \<and> set (result_ids out) = (if a then set (result_ids ms) else set (call_ids out))
    \<and> retain_complete_message_tool_exchanges out a = out
    \<and> subseq (map envelope out) (map envelope ms)
    \<and> plain_content out = plain_content ms"
proof -
  have "retain_complete_message_tool_exchanges (retain_complete_message_tool_exchanges ms a) a
      = retain_complete_message_tool_exchanges ms a"
    by (rule retain_complete_id) (auto simp: retained_call_ids retained_result_ids)
  then show ?thesis
    using retained_order [of ms a] by (simp add: Let_def retained_call_ids retained_result_ids retained_plain)
qed

text \<open>
  C10. The same at the boundary to the model, for a transcript whose tool messages issue no calls:
  every call that is sent has its result among the messages sent, and in a self-contained request
  every result its call; a second pass changes nothing; and every message sent is one of the
  input, in order, with nothing but calls removed.
\<close>

theorem llm_exchanges_complete:
  assumes "tool_messages_plain ms"
  shows "let out = retain_complete_llm_tool_exchanges_for_request ms a in
    set (llm_call_ids out) = set (llm_call_ids ms) \<inter> set (llm_result_ids ms)
    \<and> set (llm_result_ids out) = (if a then set (llm_result_ids ms) else set (llm_call_ids out))
    \<and> retain_complete_llm_tool_exchanges_for_request out a = out
    \<and> subseq (map without_calls out) (map without_calls ms)"
proof -
  have "retain_complete_llm_tool_exchanges_for_request (retain_complete_llm_tool_exchanges_for_request ms a) a
      = retain_complete_llm_tool_exchanges_for_request ms a"
    by (rule llm_retain_complete_id)
      (auto simp: llm_retained_well_formed llm_retained_call_ids llm_retained_result_ids assms)
  then show ?thesis
    using llm_retained_order [of ms a] by (simp add: Let_def llm_retained_call_ids llm_retained_result_ids assms)
qed

definition demo_call :: "string \<Rightarrow> tool_call" where
  "demo_call i = \<lparr>tc_id = i, tc_name = ''bash'', tc_arguments = JNull\<rparr>"

definition demo_assistant :: "string list \<Rightarrow> llm_message" where
  "demo_assistant ids = (llm_text LAssistant ''on it'')\<lparr>l_tool_calls := Some (map demo_call ids)\<rparr>"

definition demo_result :: "string \<Rightarrow> llm_message" where
  "demo_result i = (llm_text LTool ''done'')\<lparr>l_tool_call_id := Some i\<rparr>"

text \<open>Of two parallel calls one has a result, and there is a result without a call.\<close>

definition demo_exchange :: "llm_message list" where
  "demo_exchange = [llm_text LUser ''go'', demo_assistant [''a'', ''b''], demo_result ''b'', demo_result ''c'']"

theorem llm_exchanges_complete_witness:
  "set (llm_call_ids (retain_complete_llm_tool_exchanges demo_exchange)) = {''b''}
    \<and> retain_complete_llm_tool_exchanges (retain_complete_llm_tool_exchanges demo_exchange)
        = retain_complete_llm_tool_exchanges demo_exchange"
proof -
  have "tool_messages_plain demo_exchange"
    "set (llm_call_ids demo_exchange) = {''a'', ''b''}" "set (llm_result_ids demo_exchange) = {''b'', ''c''}"
    by (simp_all add: demo_exchange_def demo_assistant_def demo_result_def demo_call_def llm_text_def tool_messages_plain_def
        llm_calls_def)
  then show ?thesis
    using llm_exchanges_complete [of demo_exchange False] by (auto simp: retain_complete_llm_tool_exchanges_def Let_def)
qed

text \<open>
  Repairing a transcript: afterwards every call of an agent's message is answered by a later tool
  message, the messages of the transcript are all there in their order, and a transcript that
  needs no repair is left alone, so that repairing twice is repairing once.
\<close>

theorem patch_dangling_complete:
  "let out = patch_dangling_tool_calls st ms in
    calls_answered out \<and> subseq ms out \<and> patch_dangling_tool_calls st out = out \<and> (out = ms) = calls_answered ms"
  using patch_answered [of st ms] patch_subseq [of ms st] patch_answered_id [of _ st] unfolding Let_def by metis

section \<open>From stored messages to a request\<close>

text \<open>
  The shape of stored messages: a tool message holds one result and issues no calls, and no other
  message holds a result.
\<close>

definition transcript_message :: "message \<Rightarrow> bool" where
  "transcript_message m \<longleftrightarrow>
     (if m_role m = MToolResult
      then length (filter part_is_result (m_content m)) = 1 \<and> \<not> list_ex part_is_call (m_content m)
      else \<not> list_ex part_is_result (m_content m))"

text \<open>A tool message that lost its result has nothing to answer.\<close>

definition answers_call :: "message \<Rightarrow> bool" where
  "answers_call m \<longleftrightarrow> m_role m = MToolResult \<longrightarrow> message_tool_call_id m \<noteq> None"

lemma map_filter_append [simp]: "List.map_filter f (xs @ ys) = List.map_filter f xs @ List.map_filter f ys"
  by (simp add: List.map_filter_def)

lemma call_ids_simps [simp]:
  "call_ids [] = []" "call_ids (m # ms) = map tcp_id (message_tool_calls m) @ call_ids ms"
  by (simp_all add: call_ids_def message_tool_calls_def List.map_filter_simps)

lemma llm_calls_of [simp]: "llm_calls (llm_message_from_message jt m) = map tool_call_of_part (message_tool_calls m)"
  by (simp add: llm_calls_def llm_message_from_message_def Let_def)

lemma llm_fields_of [simp]:
  "l_role (llm_message_from_message jt m) = llm_role_of (m_role m)"
  "l_tool_call_id (llm_message_from_message jt m) = message_tool_call_id m"
  "l_tool_calls (llm_message_from_message jt m) \<noteq> Some []"
  by (simp_all add: llm_message_from_message_def Let_def)

lemma llm_role_of_tool [simp]: "llm_role_of r = LTool \<longleftrightarrow> r = MToolResult"
  by (cases r) simp_all

lemma llm_call_ids_of: "llm_call_ids (map (llm_message_from_message jt) ms) = call_ids ms"
  by (induction ms) (simp_all add: tool_call_of_part_def comp_def)

lemma llm_call_ids_mem: "m \<in> set ms \<Longrightarrow> c \<in> set (llm_calls m) \<Longrightarrow> tc_id c \<in> set (llm_call_ids ms)"
  by (auto simp: llm_call_ids_def)

lemma llm_result_ids_mem:
  "m \<in> set ms \<Longrightarrow> l_role m = LTool \<Longrightarrow> l_tool_call_id m = Some i \<Longrightarrow> i \<in> set (llm_result_ids ms)"
  by (auto simp: llm_result_ids_def map_filter_set)

lemma find_map_part:
  "find_map (\<lambda>p. case p of PToolResult tr \<Rightarrow> Some (trp_tool_call_id tr) | _ \<Rightarrow> None) ps = Some i \<Longrightarrow>
    \<exists>r. PToolResult r \<in> set ps \<and> trp_tool_call_id r = i"
  by (induction ps) (auto split: content_part.splits option.splits)

lemma find_map_single:
  "length (filter part_is_result ps) \<le> 1 \<Longrightarrow> PToolResult r \<in> set ps \<Longrightarrow>
    find_map (\<lambda>p. case p of PToolResult tr \<Rightarrow> Some (trp_tool_call_id tr) | _ \<Rightarrow> None) ps = Some (trp_tool_call_id r)"
proof (induction ps)
  case (Cons p ps)
  show ?case
  proof (cases "part_is_result p")
    case True
    then have "filter part_is_result ps = []" using Cons.prems(1) by simp
    then have "PToolResult r \<notin> set ps" by (auto simp: filter_empty_conv part_is_result_def)
    then show ?thesis using Cons.prems(2) by auto
  next
    case False
    then show ?thesis using Cons by (auto simp: part_is_result_def split: content_part.splits)
  qed
qed simp

text \<open>What the reducer leaves of such messages: at most one result, in tool messages only.\<close>

definition reduced_message :: "message \<Rightarrow> bool" where
  "reduced_message m \<longleftrightarrow>
     (if m_role m = MToolResult
      then length (filter part_is_result (m_content m)) \<le> 1 \<and> \<not> list_ex part_is_call (m_content m)
      else \<not> list_ex part_is_result (m_content m))"

lemma reduced_no_calls: "reduced_message m \<Longrightarrow> \<not> answers_call m \<Longrightarrow> message_tool_calls m = []"
proof -
  have "has_tool_calls m = list_ex part_is_call (m_content m)"
    by (simp add: has_tool_calls_def part_is_call_def [abs_def])
  then show "reduced_message m \<Longrightarrow> \<not> answers_call m \<Longrightarrow> ?thesis"
    by (simp add: reduced_message_def answers_call_def has_tool_calls_iff split: if_splits)
qed

lemma reduced_filter: "reduced_message m \<Longrightarrow> reduced_message (m\<lparr>m_content := filter P (m_content m)\<rparr>)"
proof -
  have "length (filter part_is_result (filter P ps)) \<le> length (filter part_is_result ps)" for ps
    by (induction ps) auto
  from this [of "m_content m"] show "reduced_message m \<Longrightarrow> ?thesis"
    by (auto simp: reduced_message_def list_ex_iff simp del: filter_filter)
qed

lemma retained_reduced:
  assumes "list_all transcript_message ms"
  shows "list_all reduced_message (retain_complete_message_tool_exchanges ms a)"
proof -
  have r: "reduced_message m" if "m \<in> set ms" for m
    using assms that by (auto simp: list_all_iff transcript_message_def reduced_message_def split: if_splits)
  have c: "reduced_message m" if "m \<in> set (List.map_filter (keep_calls ids) ms)" for m ids
    using that r by (auto simp: map_filter_set dest!: keep_calls_content intro: reduced_filter)
  then show ?thesis
    by (auto simp: retain_complete_message_tool_exchanges_def Let_def list_all_iff map_filter_set
        dest!: keep_results_content intro!: reduced_filter)
qed

lemma llm_result_ids_of:
  assumes "list_all reduced_message ms"
  shows "set (llm_result_ids (map (llm_message_from_message jt) ms)) = set (result_ids ms)"
proof (intro set_eqI iffI)
  fix i assume "i \<in> set (llm_result_ids (map (llm_message_from_message jt) ms))"
  then obtain m where "m \<in> set ms" "message_tool_call_id m = Some i"
    by (auto simp: llm_result_ids_def map_filter_set)
  then show "i \<in> set (result_ids ms)"
    using find_map_part by (fastforce simp: result_ids_set all_parts_def message_tool_call_id_def)
next
  fix i assume "i \<in> set (result_ids ms)"
  then obtain m r where m: "m \<in> set ms" "PToolResult r \<in> set (m_content m)" "trp_tool_call_id r = i"
    by (auto simp: result_ids_set all_parts_def)
  then have "reduced_message m" using assms by (simp add: list_all_iff)
  then have "m_role m = MToolResult" "length (filter part_is_result (m_content m)) \<le> 1"
    using m(2) by (auto simp: reduced_message_def list_ex_iff part_is_result_def split: if_splits)
  then have "m_role m = MToolResult \<and> message_tool_call_id m = Some i"
    using find_map_single [of "m_content m" r] m by (simp add: message_tool_call_id_def)
  then show "i \<in> set (llm_result_ids (map (llm_message_from_message jt) ms))"
    using m(1) by (force simp: llm_result_ids_def map_filter_set)
qed

text \<open>
  From the stored transcript to the request. When tool messages hold one result each and other
  messages none, the second reducer, at the boundary to the model, finds every exchange of the
  reduced and converted transcript complete: it removes no call, and no message but the tool
  messages that lost their result.
\<close>

theorem request_keeps_exchanges:
  assumes "list_all transcript_message ms"
  shows "let view = retain_complete_message_tool_exchanges ms False in
    retain_complete_llm_tool_exchanges (map (llm_message_from_message jt) view)
      = map (llm_message_from_message jt) (filter answers_call view)
    \<and> llm_call_ids (map (llm_message_from_message jt) (filter answers_call view)) = call_ids view"
proof -
  let ?v = "retain_complete_message_tool_exchanges ms False" and ?c = "llm_message_from_message jt"
  have red: "list_all reduced_message ?v" using assms by (rule retained_reduced)
  have ids: "set (llm_result_ids (map ?c ?v)) = set (call_ids ?v)"
    using llm_result_ids_of [OF red] by (simp add: retained_call_ids retained_result_ids)
  have calls: "List.map_filter (llm_keep_calls (llm_result_ids (map ?c ?v))) (map ?c ?v) = map ?c ?v"
  proof (rule map_filter_id)
    fix m assume m: "m \<in> set (map ?c ?v)"
    then have "tc_id c \<in> set (llm_result_ids (map ?c ?v))" if "c \<in> set (llm_calls m)" for c
      unfolding ids using that llm_call_ids_mem [of m "map ?c ?v" c] by (simp only: llm_call_ids_of)
    then show "llm_keep_calls (llm_result_ids (map ?c ?v)) m = Some m" using m by (intro llm_keep_calls_id) auto
  qed
  have kept: "llm_result_kept (call_ids ?v) False (?c m) = answers_call m" if "m \<in> set ?v" for m
  proof (cases "message_tool_call_id m")
    case (Some i)
    then have "i \<in> set (call_ids ?v)" if "m_role m = MToolResult"
      unfolding ids [symmetric] using that \<open>m \<in> set ?v\<close> Some
      by (intro llm_result_ids_mem [of "?c m"]) simp_all
    then show ?thesis using Some by (auto simp: llm_result_kept_def answers_call_def)
  qed (auto simp: llm_result_kept_def answers_call_def)
  then have "filter (llm_result_kept (call_ids ?v) False) (map ?c ?v) = map ?c (filter answers_call ?v)"
    by (simp add: filter_map comp_def cong: filter_cong)
  moreover have "call_ids (filter answers_call ms') = call_ids ms'" if "list_all reduced_message ms'" for ms'
    using that by (induction ms') (auto simp: reduced_no_calls)
  then have "call_ids (filter answers_call ?v) = call_ids ?v" using red by blast
  ultimately show ?thesis
    using calls by (simp add: Let_def retain_complete_llm_tool_exchanges_def
        retain_complete_llm_tool_exchanges_for_request_def llm_call_ids_of)
qed

definition demo_transcript :: "message list" where
  "demo_transcript =
     [message_user 1 0 ''go'', message_assistant_with_tools 2 0 [] [demo_call ''a'', demo_call ''b''],
      message_tool_result 3 0 ''b'' (Some JNull) None,
      message_tool_result_with_images 4 0 ''c'' (Some JNull) [(''AAAA'', ''image/png'')]]"

theorem request_keeps_exchanges_witness:
  "retain_complete_llm_tool_exchanges (map (llm_message_from_message (\<lambda>_. ''{}''))
      (retain_complete_message_tool_exchanges demo_transcript False))
    = map (llm_message_from_message (\<lambda>_. ''{}''))
        (filter answers_call (retain_complete_message_tool_exchanges demo_transcript False))
   \<and> map m_id (retain_complete_message_tool_exchanges demo_transcript False) = [1, 2, 3, 4]
   \<and> map m_id (filter answers_call (retain_complete_message_tool_exchanges demo_transcript False)) = [1, 2, 3]"
proof -
  have "list_all transcript_message demo_transcript" by code_simp
  moreover have "map m_id (retain_complete_message_tool_exchanges demo_transcript False) = [1, 2, 3, 4]" by code_simp
  moreover have "map m_id (filter answers_call (retain_complete_message_tool_exchanges demo_transcript False)) = [1, 2, 3]"
    by code_simp
  ultimately show ?thesis
    using request_keeps_exchanges [of demo_transcript "\<lambda>_. ''{}''"] by (simp add: Let_def)
qed

end
