(* ===== verification/Compaction.thy ===== *)
theory Compaction
  imports Turn Tool_Integrity "HOL-Library.Multiset"
begin

text \<open>
  Context compaction (\<open>crates/builtins/src/compaction.rs\<close>): what is cut from a conversation when it
  no longer fits the model's context window. Token estimation and triggers, observation masking,
  the memory tiers, the trim of last resort and the composition of a summary with the recent
  messages; and the contract of a compaction policy (\<open>crates/core/src/compaction_policy.rs\<close>), which
  the reason atom relies on. As in \<open>Messages\<close>, a string is its UTF-8 bytes and \<open>jt\<close> is the text
  \<open>serde_json\<close> gives a value. Token and byte counts are natural numbers, \<open>f32\<close> fractions are exact.
\<close>

section \<open>Configuration\<close>

datatype compaction_strategy = StrategyAuto | StrategyNative | StrategyObservationMasking | StrategySummarization

fun strategy_display :: "compaction_strategy \<Rightarrow> string" where
  "strategy_display StrategyAuto = ''auto''"
| "strategy_display StrategyNative = ''native''"
| "strategy_display StrategyObservationMasking = ''observation_masking''"
| "strategy_display StrategySummarization = ''summarization''"

datatype masking_summary_format = OneLine | HeadTail

record observation_masking_config =
  om_keep_recent_tool_outputs :: nat
  om_summary_format :: masking_summary_format

definition observation_masking_default :: observation_masking_config where
  "observation_masking_default = \<lparr>om_keep_recent_tool_outputs = 2, om_summary_format = OneLine\<rparr>"

record cost_control_config =
  cc_enabled :: bool
  cc_keep_recent_tool_results :: nat
  cc_mask_after_tool_results :: nat
  cc_max_live_tool_result_bytes :: nat
  cc_max_uncached_input_tokens :: u32
  cc_min_cache_read_ratio :: rat
  cc_compact_after_tool_result_bytes :: nat
  cc_compact_min_input_tokens :: nat

definition cost_control_default :: cost_control_config where
  "cost_control_default =
     \<lparr>cc_enabled = True, cc_keep_recent_tool_results = 2, cc_mask_after_tool_results = 4,
      cc_max_live_tool_result_bytes = 24 * 1024, cc_max_uncached_input_tokens = 100000,
      cc_min_cache_read_ratio = 35 / 100, cc_compact_after_tool_result_bytes = 256 * 1024,
      cc_compact_min_input_tokens = 8 * 1024\<rparr>"

record summarization_config =
  sc_model :: "string option"
  sc_preserve :: "string list"
  sc_instructions :: "string option"

definition default_preserve :: "string list" where
  "default_preserve = [''decisions'', ''files_modified'', ''errors'', ''current_plan'', ''skill_instructions'']"

definition summarization_default :: summarization_config where
  "summarization_default = \<lparr>sc_model = None, sc_preserve = default_preserve, sc_instructions = None\<rparr>"

record hierarchical_memory_config =
  hm_hot_messages :: nat
  hm_warm_messages :: nat

definition hierarchical_memory_default :: hierarchical_memory_config where
  "hierarchical_memory_default = \<lparr>hm_hot_messages = 20, hm_warm_messages = 100\<rparr>"

record runtime_compaction_config =
  rc_strategy :: compaction_strategy
  rc_proactive :: bool
  rc_budget_percent :: rat
  rc_observation_masking :: observation_masking_config
  rc_summarization :: summarization_config
  rc_memory_tiers :: hierarchical_memory_config
  rc_cost_control :: cost_control_config

definition runtime_compaction_default :: runtime_compaction_config where
  "runtime_compaction_default =
     \<lparr>rc_strategy = StrategyAuto, rc_proactive = True, rc_budget_percent = 85 / 100,
      rc_observation_masking = observation_masking_default, rc_summarization = summarization_default,
      rc_memory_tiers = hierarchical_memory_default, rc_cost_control = cost_control_default\<rparr>"

section \<open>Token estimation and triggers\<close>

definition content_len :: "llm_content \<Rightarrow> nat" where
  "content_len c =
     (case c of
        TextContent t \<Rightarrow> length t
      | PartsContent parts \<Rightarrow> sum_list (map (\<lambda>p. case p of LText t \<Rightarrow> length t | _ \<Rightarrow> 50) parts))"

definition call_len :: "(json \<Rightarrow> string) \<Rightarrow> tool_call \<Rightarrow> nat" where
  "call_len jt tc = length (tc_name tc) + length (jt (tc_arguments tc)) + 20"

definition estimate_tokens :: "(json \<Rightarrow> string) \<Rightarrow> llm_message \<Rightarrow> nat" where
  "estimate_tokens jt m =
     (let text_len = content_len (l_content m);
          tool_call_len = (case l_tool_calls m of Some calls \<Rightarrow> sum_list (map (call_len jt) calls) | None \<Rightarrow> 0)
      in (text_len + tool_call_len) div 4)"

definition estimate_total_tokens :: "(json \<Rightarrow> string) \<Rightarrow> llm_message list \<Rightarrow> nat" where
  "estimate_total_tokens jt messages = sum_list (map (estimate_tokens jt) messages)"

definition should_compact_proactively ::
  "(json \<Rightarrow> string) \<Rightarrow> runtime_compaction_config \<Rightarrow> llm_message list \<Rightarrow> nat \<Rightarrow> bool" where
  "should_compact_proactively jt config messages context_window_tokens \<longleftrightarrow>
     rc_proactive config
     \<and> nat \<lfloor>rat_of_nat context_window_tokens * rc_budget_percent config\<rfloor> < estimate_total_tokens jt messages"

definition should_compact_for_cost ::
  "nat \<Rightarrow> nat \<Rightarrow> runtime_compaction_config \<Rightarrow> token_usage option \<Rightarrow> bool" where
  "should_compact_for_cost estimated_input_tokens raw_tool_result_bytes config prior_usage \<longleftrightarrow>
     (let cost = rc_cost_control config in
      if \<not> rc_proactive config \<or> \<not> cc_enabled cost \<or> estimated_input_tokens < cc_compact_min_input_tokens cost
      then False
      else let cumulative = (case prior_usage of Some usage \<Rightarrow> tu_input_tokens usage | None \<Rightarrow> 0)
           in cc_max_uncached_input_tokens cost \<le> cumulative
              \<or> cc_compact_after_tool_result_bytes cost \<le> raw_tool_result_bytes)"

section \<open>Protected messages\<close>

definition PROTECTED_TOOL_NAMES :: "string list" where
  "PROTECTED_TOOL_NAMES = [''activate_skill'']"

definition find_tool_call_name :: "llm_message list \<Rightarrow> llm_message \<Rightarrow> string" where
  "find_tool_call_name messages tool_msg =
     (case l_tool_call_id tool_msg of
        None \<Rightarrow> ''unknown_tool''
      | Some call_id \<Rightarrow>
          (case find (\<lambda>tc. tc_id tc = call_id)
                  (concat (map llm_calls (filter (\<lambda>m. l_role m = LAssistant) (rev messages)))) of
             Some tc \<Rightarrow> tc_name tc
           | None \<Rightarrow> ''unknown_tool''))"

definition is_protected_tool_result :: "llm_message list \<Rightarrow> llm_message \<Rightarrow> bool" where
  "is_protected_tool_result messages tool_msg \<longleftrightarrow>
     (if l_role tool_msg \<noteq> LTool then False
      else find_tool_call_name messages tool_msg \<in> set PROTECTED_TOOL_NAMES)"

definition is_protected_tool_call_message :: "llm_message \<Rightarrow> bool" where
  "is_protected_tool_call_message m \<longleftrightarrow>
     (if l_role m \<noteq> LAssistant then False
      else case l_tool_calls m of
             Some calls \<Rightarrow> list_ex (\<lambda>tc. tc_name tc \<in> set PROTECTED_TOOL_NAMES) calls
           | None \<Rightarrow> False)"

section \<open>The trim of last resort\<close>

text \<open>The protected messages that fit, newest first, when not all of them do.\<close>

fun keep_protected :: "(json \<Rightarrow> string) \<Rightarrow> nat \<Rightarrow> (nat \<times> llm_message) list \<Rightarrow> (nat \<times> llm_message) list" where
  "keep_protected jt remaining [] = []"
| "keep_protected jt remaining ((i, m) # rest) =
     (let t = estimate_tokens jt m in
      if t \<le> remaining then (i, m) # keep_protected jt (remaining - t) rest else keep_protected jt remaining rest)"

text \<open>The other messages, newest first, until one does not fit.\<close>

fun keep_from_end :: "(json \<Rightarrow> string) \<Rightarrow> nat list \<Rightarrow> nat \<Rightarrow> (nat \<times> llm_message) list \<Rightarrow> (nat \<times> llm_message) list" where
  "keep_from_end jt protected_indices token_budget [] = []"
| "keep_from_end jt protected_indices token_budget ((i, m) # rest) =
     (if i \<in> set protected_indices then keep_from_end jt protected_indices token_budget rest
      else let msg_tokens = estimate_tokens jt m in
           if msg_tokens \<le> token_budget
           then (i, m) # keep_from_end jt protected_indices (token_budget - msg_tokens) rest
           else [])"

definition protected_indices :: "llm_message list \<Rightarrow> nat list" where
  "protected_indices conversation =
     filter (\<lambda>i. i = 0 \<or> is_protected_tool_result conversation (conversation ! i)
                 \<or> is_protected_tool_call_message (conversation ! i)) [0..<length conversation]"

definition indexed :: "llm_message list \<Rightarrow> nat list \<Rightarrow> (nat \<times> llm_message) list" where
  "indexed conversation is = map (\<lambda>i. (i, conversation ! i)) is"

definition trim_conversation :: "(json \<Rightarrow> string) \<Rightarrow> nat \<Rightarrow> llm_message list \<Rightarrow> llm_message list" where
  "trim_conversation jt token_budget conversation =
     (let prot = protected_indices conversation;
          protected_budget = sum_list (map (\<lambda>i. estimate_tokens jt (conversation ! i)) prot)
      in if token_budget < protected_budget
         then map snd (sort_key fst (keep_protected jt token_budget (rev (indexed conversation prot))))
         else map snd (sort_key fst
                (indexed conversation prot
                 @ keep_from_end jt prot (token_budget - protected_budget)
                     (rev (indexed conversation [0..<length conversation])))))"

definition aggressive_trim :: "(json \<Rightarrow> string) \<Rightarrow> llm_message list \<Rightarrow> nat \<Rightarrow> bool \<Rightarrow> llm_message list" where
  "aggressive_trim jt messages target_tokens has_system_prompt =
     retain_complete_llm_tool_exchanges
       (if has_system_prompt \<and> messages \<noteq> [] then
          (let sys_tokens = estimate_tokens jt (hd messages) in
           if sys_tokens < target_tokens
           then hd messages # trim_conversation jt (target_tokens - sys_tokens) (tl messages)
           else trim_conversation jt target_tokens (tl messages))
        else trim_conversation jt target_tokens messages)"

section \<open>Observation masking\<close>

definition extract_text :: "llm_content \<Rightarrow> string" where
  "extract_text c =
     (case c of TextContent t \<Rightarrow> t | PartsContent parts \<Rightarrow> join_text '' '' (List.map_filter llm_part_text parts))"

text \<open>The arrow of the summary, in UTF-8.\<close>

definition ARROW :: string where "ARROW = [CHR 0xE2, CHR 0x86, CHR 0x92]"

definition format_one_line_summary :: "string \<Rightarrow> llm_content \<Rightarrow> string" where
  "format_one_line_summary tool_name content =
     (let t = extract_text content; line_count = length (lines_text t); byte_len = length t in
      if byte_len \<le> 100 then ''['' @ tool_name @ '' '' @ ARROW @ '' '' @ t @ '']''
      else ''['' @ tool_name @ '' '' @ ARROW @ '' '' @ show_nat line_count @ '' lines, '' @ show_nat byte_len @ '' bytes]'')"

definition format_head_tail_summary :: "llm_content \<Rightarrow> string" where
  "format_head_tail_summary content =
     (let t = extract_text content; ls = lines_text t in
      if length ls \<le> 6 then t
      else join_text [CHR 0x0A] (take 3 ls) @ [CHR 0x0A] @ ''... ('' @ show_nat (length ls - 6) @ '' lines omitted) ...''
           @ [CHR 0x0A] @ join_text [CHR 0x0A] (drop (length ls - 3) ls))"

record observation_masking_result =
  or_messages :: "llm_message list"
  or_masked_count :: nat

definition maskable :: "llm_message list \<Rightarrow> string list \<Rightarrow> llm_message \<Rightarrow> bool" where
  "maskable messages extra_protected m \<longleftrightarrow>
     l_role m = LTool \<and> \<not> is_protected_tool_result messages m
     \<and> \<not> (case l_tool_call_id m of Some i \<Rightarrow> i \<in> set extra_protected | None \<Rightarrow> False)"

definition mask_message :: "observation_masking_config \<Rightarrow> llm_message list \<Rightarrow> llm_message \<Rightarrow> llm_message" where
  "mask_message config messages m =
     (let tool_name = find_tool_call_name messages m;
          summary = (case om_summary_format config of
                       OneLine \<Rightarrow> format_one_line_summary tool_name (l_content m)
                     | HeadTail \<Rightarrow> format_head_tail_summary (l_content m))
      in \<lparr>l_native_tool_calls = [], l_role = LTool, l_content = TextContent summary, l_tool_calls = l_tool_calls m,
          l_tool_call_id = l_tool_call_id m, l_phase = l_phase m, l_reasoning = [], l_configuration_update = None\<rparr>)"

definition apply_observation_masking_with_protected ::
  "llm_message list \<Rightarrow> observation_masking_config \<Rightarrow> string list \<Rightarrow> observation_masking_result" where
  "apply_observation_masking_with_protected messages config extra_protected =
     (let tool_indices = filter (\<lambda>i. maskable messages extra_protected (messages ! i)) [0..<length messages] in
      if length tool_indices \<le> om_keep_recent_tool_outputs config
      then \<lparr>or_messages = messages, or_masked_count = 0\<rparr>
      else let to_mask = take (length tool_indices - om_keep_recent_tool_outputs config) tool_indices
           in \<lparr>or_messages = map (\<lambda>i. if i \<in> set to_mask then mask_message config messages (messages ! i) else messages ! i)
                              [0..<length messages],
               or_masked_count = length (filter (\<lambda>i. i \<in> set to_mask) [0..<length messages])\<rparr>)"

definition apply_observation_masking ::
  "llm_message list \<Rightarrow> observation_masking_config \<Rightarrow> observation_masking_result" where
  "apply_observation_masking messages config = apply_observation_masking_with_protected messages config []"

section \<open>Summaries\<close>

definition nl :: string where "nl = [CHR 0x0A]"

definition build_summary_message :: "string \<Rightarrow> llm_message" where
  "build_summary_message summary_text =
     \<lparr>l_native_tool_calls = [], l_role = LSystem,
      l_content = TextContent (''[CONVERSATION_SUMMARY]'' @ nl @ summary_text @ nl @ ''[/CONVERSATION_SUMMARY]''),
      l_tool_calls = None, l_tool_call_id = None, l_phase = None, l_reasoning = [], l_configuration_update = None\<rparr>"

definition compose_summary_with_recent :: "llm_message option \<Rightarrow> string \<Rightarrow> llm_message list \<Rightarrow> llm_message list" where
  "compose_summary_with_recent system_message summary_text recent_messages =
     retain_complete_llm_tool_exchanges
       ((case system_message of Some m \<Rightarrow> [m] | None \<Rightarrow> []) @ build_summary_message summary_text # recent_messages)"

definition truncate_at_char_boundary :: "string \<Rightarrow> nat \<Rightarrow> string" where
  "truncate_at_char_boundary content max_bytes =
     (if length content \<le> max_bytes then content
      else if is_char_boundary content max_bytes then take max_bytes content
      else take (floor_boundary content max_bytes) content)"

fun llm_role_name :: "llm_role \<Rightarrow> string" where
  "llm_role_name LSystem = ''system''"
| "llm_role_name LUser = ''user''"
| "llm_role_name LAssistant = ''assistant''"
| "llm_role_name LTool = ''tool''"

definition format_message_for_summarization :: "llm_message list \<Rightarrow> llm_message \<Rightarrow> string" where
  "format_message_for_summarization messages m =
     (let content = extract_text (l_content m);
          truncated =
            (if \<not> is_protected_tool_result messages m \<and> 2000 < length content
             then truncate_at_char_boundary content 2000 @ ''... [truncated, '' @ show_nat (length content) @ '' chars total]''
             else content)
      in ''['' @ llm_role_name (l_role m) @ '']: '' @ truncated)"

definition format_messages_for_summarization :: "llm_message list \<Rightarrow> string" where
  "format_messages_for_summarization messages =
     join_blank (map (format_message_for_summarization messages) messages)"

definition build_summarization_prompt :: "summarization_config \<Rightarrow> string" where
  "build_summarization_prompt config =
     (let preserve_items = (if sc_preserve config = [] then default_preserve else sc_preserve config);
          preserve_list = join_text nl (map (\<lambda>item. ''- '' @ item) preserve_items);
          custom_instructions = (case sc_instructions config of Some instr \<Rightarrow> nl @ ''- '' @ instr | None \<Rightarrow> [])
      in ''<task>'' @ nl
         @ ''Summarize the following conversation history. The summary replaces these'' @ nl
         @ ''messages in the agent'' @ [CHR 0x27] @ ''s context window '' @ [CHR 0xE2, CHR 0x80, CHR 0x94]
         @ '' it must contain everything the'' @ nl
         @ ''agent needs to continue working.'' @ nl
         @ ''</task>'' @ nl @ nl
         @ ''<preserve>'' @ nl @ preserve_list @ custom_instructions @ nl
         @ ''</preserve>'' @ nl @ nl
         @ ''<format>'' @ nl
         @ ''Produce a structured summary. Use sections. Be concise but complete.'' @ nl
         @ ''Do not include tool output verbatim '' @ [CHR 0xE2, CHR 0x80, CHR 0x94] @ '' reference files by path.'' @ nl
         @ ''IMPORTANT: Any activate_skill tool results contain durable skill instructions.'' @ nl
         @ ''Include them verbatim in a dedicated '' @ [CHR 0x22] @ ''Active Skills'' @ [CHR 0x22] @ '' section ''
         @ [CHR 0xE2, CHR 0x80, CHR 0x94] @ '' do not summarize'' @ nl
         @ ''or paraphrase skill instructions.'' @ nl
         @ ''</format>'')"

section \<open>Memory tiers\<close>

datatype memory_tier = Hot | Warm | Cold

definition classify_memory_tiers :: "llm_message list \<Rightarrow> hierarchical_memory_config \<Rightarrow> (memory_tier \<times> llm_message) list" where
  "classify_memory_tiers messages config =
     map (\<lambda>i. let from_end = length messages - 1 - i in
              (if from_end < hm_hot_messages config then Hot
               else if from_end < hm_hot_messages config + hm_warm_messages config then Warm
               else Cold, messages ! i))
       [0..<length messages]"

definition hierarchical_view ::
  "llm_message list \<Rightarrow> hierarchical_memory_config \<Rightarrow> observation_masking_config \<Rightarrow> string option \<Rightarrow> llm_message list" where
  "hierarchical_view messages config masking_config cold_summary =
     (let hot_start = length messages - hm_hot_messages config;
          warm_start = hot_start - hm_warm_messages config;
          cold_msgs = take warm_start messages;
          cold = (if 0 < warm_start
                  then (case cold_summary of Some summary \<Rightarrow> [build_summary_message summary] | None \<Rightarrow> [])
                       @ filter (\<lambda>m. is_protected_tool_result cold_msgs m \<or> is_protected_tool_call_message m) cold_msgs
                  else []);
          warm_msgs = take (hot_start - warm_start) (drop warm_start messages);
          protected_call_ids = List.map_filter l_tool_call_id (filter (is_protected_tool_result messages) warm_msgs);
          warm = (if warm_start < hot_start
                  then or_messages (apply_observation_masking_with_protected warm_msgs masking_config protected_call_ids)
                  else []);
          hot = drop hot_start messages
      in cold @ warm @ hot)"

definition apply_hierarchical_memory ::
  "llm_message list \<Rightarrow> hierarchical_memory_config \<Rightarrow> observation_masking_config \<Rightarrow> string option \<Rightarrow> llm_message list" where
  "apply_hierarchical_memory messages config masking_config cold_summary =
     retain_complete_llm_tool_exchanges (hierarchical_view messages config masking_config cold_summary)"

section \<open>Metrics\<close>

record session_compaction_metrics =
  cm_compaction_count :: u32
  cm_total_messages_saved :: nat
  cm_strategy_counts :: "(string, u32) hmap"
  cm_total_duration_ms :: nat

definition metrics_record :: "string \<Rightarrow> nat \<Rightarrow> nat \<Rightarrow> nat \<Rightarrow> session_compaction_metrics \<Rightarrow> session_compaction_metrics" where
  "metrics_record strategy_used messages_before messages_after dur s =
     s\<lparr>cm_compaction_count := cm_compaction_count s + 1,
       cm_total_messages_saved := cm_total_messages_saved s + (messages_before - messages_after),
       cm_total_duration_ms := cm_total_duration_ms s + dur,
       cm_strategy_counts :=
         fold (\<lambda>strategy counts. hm_insert strategy ((case hm_get counts strategy of Some n \<Rightarrow> n | None \<Rightarrow> 0) + 1) counts)
           (split_text CHR ''+'' strategy_used) (cm_strategy_counts s)\<rparr>"

section \<open>Budgets\<close>

lemma estimate_total_simps [simp]:
  "estimate_total_tokens jt [] = 0"
  "estimate_total_tokens jt (m # ms) = estimate_tokens jt m + estimate_total_tokens jt ms"
  "estimate_total_tokens jt (xs @ ys) = estimate_total_tokens jt xs + estimate_total_tokens jt ys"
  by (simp_all add: estimate_total_tokens_def)

text \<open>Removing calls or messages only lowers the estimate.\<close>

lemma estimate_tokens_calls:
  "estimate_tokens jt m = (content_len (l_content m) + sum_list (map (call_len jt) (llm_calls m))) div 4"
  by (simp add: estimate_tokens_def llm_calls_def split: option.splits)

lemma sum_list_filter_le: "sum_list (map f (filter P xs)) \<le> (sum_list (map f xs) :: nat)"
  by (induction xs) auto

lemma llm_keep_calls_estimate: "llm_keep_calls ids m = Some m' \<Longrightarrow> estimate_tokens jt m' \<le> estimate_tokens jt m"
proof -
  assume k: "llm_keep_calls ids m = Some m'"
  then have c: "llm_calls m' = filter (\<lambda>c. tc_id c \<in> set ids) (llm_calls m)" and "m' = m\<lparr>l_tool_calls := l_tool_calls m'\<rparr>"
    by (simp_all add: llm_keep_calls_Some)
  then have "l_content m' = l_content m" by (metis llm_message.select_convs(3) llm_message.surjective llm_message.update_convs(4))
  then show ?thesis
    unfolding estimate_tokens_calls c by (intro div_le_mono add_mono sum_list_filter_le) simp
qed

lemma retain_estimate: "estimate_total_tokens jt (retain_complete_llm_tool_exchanges_for_request ms a) \<le> estimate_total_tokens jt ms"
proof -
  have "estimate_total_tokens jt (List.map_filter (llm_keep_calls ids) ms) \<le> estimate_total_tokens jt ms" for ids
    by (induction ms) (auto simp: List.map_filter_simps split: option.split intro: add_mono llm_keep_calls_estimate)
  moreover have "estimate_total_tokens jt (filter P ms') \<le> estimate_total_tokens jt ms'" for P ms'
    unfolding estimate_total_tokens_def by (rule sum_list_filter_le)
  ultimately show ?thesis
    unfolding retain_complete_llm_tool_exchanges_for_request_def Let_def by (meson order.trans)
qed

lemma estimate_sorted:
  "estimate_total_tokens jt (map snd (sort_key fst xs)) = estimate_total_tokens jt (map snd xs)"
proof -
  have "mset (map (\<lambda>x. estimate_tokens jt (snd x)) (sort_key fst xs)) = mset (map (\<lambda>x. estimate_tokens jt (snd x)) xs)" by simp
  then show ?thesis unfolding estimate_total_tokens_def map_map comp_def by (metis sum_mset_sum_list)
qed

lemma keep_protected_fits: "estimate_total_tokens jt (map snd (keep_protected jt remaining xs)) \<le> remaining"
proof (induction xs arbitrary: remaining)
  case (Cons x xs)
  obtain i m where x: "x = (i, m)" by fastforce
  have "estimate_tokens jt m + estimate_total_tokens jt (map snd (keep_protected jt (remaining - estimate_tokens jt m) xs))
      \<le> remaining" if "estimate_tokens jt m \<le> remaining"
    using that Cons.IH [of "remaining - estimate_tokens jt m"] by linarith
  then show ?case using Cons.IH [of remaining] by (simp add: x Let_def)
qed simp

lemma keep_from_end_fits: "estimate_total_tokens jt (map snd (keep_from_end jt prot budget xs)) \<le> budget"
proof (induction xs arbitrary: budget)
  case (Cons x xs)
  obtain i m where x: "x = (i, m)" by fastforce
  have "estimate_tokens jt m + estimate_total_tokens jt (map snd (keep_from_end jt prot (budget - estimate_tokens jt m) xs))
      \<le> budget" if "estimate_tokens jt m \<le> budget"
    using that Cons.IH [of "budget - estimate_tokens jt m"] by linarith
  then show ?case using Cons.IH [of budget] by (simp add: x Let_def)
qed simp

lemma trim_conversation_fits: "estimate_total_tokens jt (trim_conversation jt budget ms) \<le> budget"
proof -
  let ?p = "protected_indices ms"
  let ?b = "sum_list (map (\<lambda>i. estimate_tokens jt (ms ! i)) ?p)"
  have "estimate_total_tokens jt (map snd (indexed ms ?p)) = ?b"
    by (simp add: estimate_total_tokens_def indexed_def comp_def)
  then show ?thesis
    using keep_protected_fits [of jt budget] keep_from_end_fits [of jt ?p "budget - ?b"]
    by (auto simp: trim_conversation_def Let_def estimate_sorted not_less intro: order.trans)
      (metis add_le_mono le_add_diff_inverse order_refl)
qed

section \<open>Order\<close>

lemma keep_protected_subseq: "subseq (keep_protected jt remaining xs) xs"
  by (induction jt remaining xs rule: keep_protected.induct) (auto simp: Let_def)

lemma keep_from_end_subseq: "subseq (keep_from_end jt prot budget xs) (filter (\<lambda>(i, m). i \<notin> set prot) xs)"
  by (induction jt prot budget xs rule: keep_from_end.induct) (auto simp: Let_def)

text \<open>Sorting a selection of indexed messages puts it back in the order of the conversation.\<close>

lemma sort_selection:
  assumes "distinct (map fst xs)" and "set xs \<subseteq> set (indexed ms [0..<length ms])"
  shows "subseq (map snd (sort_key fst xs)) ms"
proof -
  let ?is = "map fst (sort_key fst xs)"
  have d: "distinct ?is" "sorted ?is" using assms(1) by (simp_all add: distinct_map) 
  have eq: "map snd (sort_key fst xs) = map (nth ms) ?is"
    using assms(2) by (auto simp: indexed_def)
  have "set ?is \<subseteq> {..<length ms}" using assms(2) by (auto simp: indexed_def)
  then have "?is = filter (\<lambda>i. i \<in> set ?is) [0..<length ms]"
    using d by (intro sorted_distinct_set_unique) (auto simp: sorted_wrt_filter)
  then have "subseq (map (nth ms) ?is) (map (nth ms) [0..<length ms])"
    by (metis subseq_filter_left subseq_map)
  then show ?thesis by (simp add: eq map_nth)
qed

lemma indexed_simps [simp]: "map fst (indexed ms is) = is" "map snd (indexed ms is) = map (nth ms) is"
  by (simp_all add: indexed_def comp_def)

lemma subseq_distinct: "subseq xs ys \<Longrightarrow> distinct ys \<Longrightarrow> distinct xs"
  by (induction rule: list_emb.induct) (auto dest: list_emb_set)

lemma subseq_index:
  assumes "subseq xs ys" and "distinct (map fst ys)"
  shows "distinct (map fst xs) \<and> set xs \<subseteq> set ys"
  using subseq_distinct [OF subseq_map [OF assms(1), of fst] assms(2)] assms(1) by (auto dest: list_emb_set)

lemma trim_conversation_subseq: "subseq (trim_conversation jt budget ms) ms"
proof -
  let ?p = "protected_indices ms" and ?all = "rev (indexed ms [0..<length ms])"
  let ?k = "keep_from_end jt ?p (budget - sum_list (map (\<lambda>i. estimate_tokens jt (ms ! i)) ?p)) ?all"
    and ?q = "keep_protected jt budget (rev (indexed ms ?p))"
  have p: "distinct ?p" "set ?p \<subseteq> {..<length ms}" by (auto simp: protected_indices_def)
  then have inp: "set (indexed ms ?p) \<subseteq> set (indexed ms [0..<length ms])" by (auto simp: indexed_def)
  have q: "distinct (map fst ?q) \<and> set ?q \<subseteq> set (rev (indexed ms ?p))"
    by (rule subseq_index [OF keep_protected_subseq]) (simp add: rev_map [symmetric] p)
  have "distinct (map fst (filter (\<lambda>(i, m). i \<notin> set ?p) ?all))"
    by (rule distinct_map_filter) (simp add: rev_map [symmetric])
  then have k: "distinct (map fst ?k) \<and> set ?k \<subseteq> set (filter (\<lambda>(i, m). i \<notin> set ?p) ?all)"
    by (rule subseq_index [OF keep_from_end_subseq])
  have "distinct (map fst (indexed ms ?p @ ?k))" using p(1) k by auto
  moreover have "set (indexed ms ?p @ ?k) \<subseteq> set (indexed ms [0..<length ms])" using inp k by auto
  ultimately have "subseq (map snd (sort_key fst (indexed ms ?p @ ?k))) ms" by (rule sort_selection)
  moreover have "subseq (map snd (sort_key fst ?q)) ms" using q inp by (intro sort_selection) auto
  ultimately show ?thesis by (simp add: trim_conversation_def Let_def)
qed

section \<open>Protected results survive\<close>

lemma find_SomeD: "find P xs = Some x \<Longrightarrow> x \<in> set xs \<and> P x"
  by (auto simp: find_Some_iff)

lemma protected_has_call:
  assumes "is_protected_tool_result ms m"
  shows "\<exists>c tc. c \<in> set ms \<and> is_protected_tool_call_message c \<and> tc \<in> set (llm_calls c) \<and> l_tool_call_id m = Some (tc_id tc)"
proof -
  from assms have n: "find_tool_call_name ms m = ''activate_skill''"
    by (simp add: is_protected_tool_result_def PROTECTED_TOOL_NAMES_def split: if_splits)
  then obtain i where i: "l_tool_call_id m = Some i" by (cases "l_tool_call_id m") (simp_all add: find_tool_call_name_def)
  let ?cs = "concat (map llm_calls (filter (\<lambda>m. l_role m = LAssistant) (rev ms)))"
  obtain tc where tc: "find (\<lambda>tc. tc_id tc = i) ?cs = Some tc" "tc_name tc = ''activate_skill''"
    using n i by (cases "find (\<lambda>tc. tc_id tc = i) ?cs") (simp_all add: find_tool_call_name_def)
  then have "tc \<in> set ?cs" "tc_id tc = i" using find_SomeD [OF tc(1)] by simp_all
  then obtain c where "c \<in> set ms" "l_role c = LAssistant" "tc \<in> set (llm_calls c)" by auto
  moreover have "is_protected_tool_call_message c"
    using calculation tc(2) by (cases "l_tool_calls c")
      (auto simp: is_protected_tool_call_message_def PROTECTED_TOOL_NAMES_def llm_calls_def list_ex_iff)
  ultimately show ?thesis using i \<open>tc_id tc = i\<close> by blast
qed

lemma protected_is_tool: "is_protected_tool_result ms m \<Longrightarrow> l_role m = LTool"
  by (simp add: is_protected_tool_result_def split: if_splits)

text \<open>A result whose call is among the messages passes the integrity filter untouched.\<close>

lemma retain_keeps_result:
  assumes "m \<in> set ms" and "l_role m = LTool" and "l_tool_calls m = None"
    and "l_tool_call_id m = Some i" and "i \<in> set (llm_call_ids ms)"
  shows "m \<in> set (retain_complete_llm_tool_exchanges_for_request ms a)"
proof -
  have "llm_keep_calls (llm_result_ids ms) m = Some m" using assms(3) by (rule llm_keep_calls_plain)
  then have "m \<in> set (List.map_filter (llm_keep_calls (llm_result_ids ms)) ms)" using assms(1) by (auto simp: map_filter_set)
  moreover have "i \<in> set (llm_result_ids ms)" using assms(1,2,4) by (rule llm_result_ids_mem)
  ultimately show ?thesis
    using assms(4,5)
    by (simp add: retain_complete_llm_tool_exchanges_for_request_def Let_def llm_result_kept_def llm_call_ids_keep)
qed

lemma retain_keeps_plain:
  assumes "m \<in> set ms" and "l_role m \<noteq> LTool" and "l_tool_calls m = None"
  shows "m \<in> set (retain_complete_llm_tool_exchanges_for_request ms a)"
  using assms llm_keep_calls_plain [OF assms(3)]
  by (auto simp: retain_complete_llm_tool_exchanges_for_request_def Let_def llm_result_kept_def map_filter_set)

lemma skill_result_survives:
  assumes "is_protected_tool_result ms m" and "m \<in> set xs" and "l_tool_calls m = None"
    and "\<And>c. c \<in> set ms \<Longrightarrow> is_protected_tool_call_message c \<Longrightarrow> c \<in> set xs"
  shows "m \<in> set (retain_complete_llm_tool_exchanges xs)"
proof -
  obtain c tc where "c \<in> set ms" "is_protected_tool_call_message c" "tc \<in> set (llm_calls c)"
    and i: "l_tool_call_id m = Some (tc_id tc)"
    using protected_has_call [OF assms(1)] by blast
  then have "tc_id tc \<in> set (llm_call_ids xs)" using assms(4) llm_call_ids_mem by blast
  then show ?thesis
    unfolding retain_complete_llm_tool_exchanges_def
    using retain_keeps_result [OF assms(2) protected_is_tool [OF assms(1)] assms(3) i] by blast
qed

text \<open>The conversation a trim works on, the budget left for it, and the budget its protected messages need.\<close>

definition trim_input :: "llm_message list \<Rightarrow> bool \<Rightarrow> llm_message list" where
  "trim_input ms has_system_prompt = (if has_system_prompt then tl ms else ms)"

definition trim_budget :: "(json \<Rightarrow> string) \<Rightarrow> llm_message list \<Rightarrow> nat \<Rightarrow> bool \<Rightarrow> nat" where
  "trim_budget jt ms target has_system_prompt =
     (if has_system_prompt \<and> ms \<noteq> [] \<and> estimate_tokens jt (hd ms) < target then target - estimate_tokens jt (hd ms) else target)"

definition protected_need :: "(json \<Rightarrow> string) \<Rightarrow> llm_message list \<Rightarrow> nat" where
  "protected_need jt conversation = sum_list (map (\<lambda>i. estimate_tokens jt (conversation ! i)) (protected_indices conversation))"

lemma aggressive_trim_split:
  "\<exists>sys. aggressive_trim jt ms target hs
      = retain_complete_llm_tool_exchanges (sys @ trim_conversation jt (trim_budget jt ms target hs) (trim_input ms hs))
    \<and> subseq (sys @ trim_input ms hs) ms \<and> estimate_total_tokens jt sys + trim_budget jt ms target hs \<le> target"
proof (cases "hs \<and> ms \<noteq> []")
  case True
  then obtain h t where ms: "ms = h # t" by (cases ms) auto
  show ?thesis
    using True by (intro exI [of _ "if estimate_tokens jt h < target then [h] else []"])
      (auto simp: ms aggressive_trim_def trim_input_def trim_budget_def Let_def)
next
  case False
  then show ?thesis by (intro exI [of _ "[]"]) (cases ms; auto simp: aggressive_trim_def trim_input_def trim_budget_def)
qed

lemma trim_conversation_protected:
  assumes "protected_need jt ms \<le> budget" and "i \<in> set (protected_indices ms)"
  shows "ms ! i \<in> set (trim_conversation jt budget ms)"
  using assms by (force simp: trim_conversation_def protected_need_def Let_def indexed_def image_iff)

lemma protected_member:
  assumes "m \<in> set ms" and "is_protected_tool_result ms m \<or> is_protected_tool_call_message m"
  shows "\<exists>i \<in> set (protected_indices ms). ms ! i = m"
  using assms by (auto simp: in_set_conv_nth protected_indices_def)

section \<open>Masking keeps the shape\<close>

definition shape :: "llm_message \<Rightarrow> llm_role \<times> tool_call list option \<times> string option \<times> execution_phase option" where
  "shape m = (l_role m, l_tool_calls m, l_tool_call_id m, l_phase m)"

lemma shape_ids:
  assumes "map shape xs = map shape ys"
  shows "llm_call_ids xs = llm_call_ids ys \<and> llm_result_ids xs = llm_result_ids ys"
  using assms
proof (induction xs arbitrary: ys)
  case (Cons x xs)
  then obtain y ys' where "ys = y # ys'" "shape x = shape y" "map shape xs = map shape ys'" by (cases ys) auto
  moreover have "l_role x = l_role y" "llm_calls x = llm_calls y" "l_tool_call_id x = l_tool_call_id y"
    using calculation(2) by (simp_all add: shape_def llm_calls_def)
  ultimately show ?case using Cons.IH [of ys'] by simp
qed simp

definition mask_indices :: "llm_message list \<Rightarrow> string list \<Rightarrow> nat list" where
  "mask_indices ms extra = filter (\<lambda>i. maskable ms extra (ms ! i)) [0..<length ms]"

lemma masking_messages:
  "or_messages (apply_observation_masking_with_protected ms config extra) =
    map (\<lambda>i. if i \<in> set (take (length (mask_indices ms extra) - om_keep_recent_tool_outputs config) (mask_indices ms extra))
             then mask_message config ms (ms ! i) else ms ! i) [0..<length ms]"
  by (simp add: apply_observation_masking_with_protected_def Let_def mask_indices_def map_nth)

lemma filter_members_length:
  assumes "distinct xs" and "distinct ys" and "set ys \<subseteq> set xs"
  shows "length (filter (\<lambda>x. x \<in> set ys) xs) = length ys"
proof -
  have "set (filter (\<lambda>x. x \<in> set ys) xs) = set ys" using assms(3) by auto
  then show ?thesis using assms(1,2) by (metis distinct_card distinct_filter)
qed

lemma masking_count:
  "or_masked_count (apply_observation_masking_with_protected ms config extra)
    = length (mask_indices ms extra) - om_keep_recent_tool_outputs config"
proof -
  let ?t = "mask_indices ms extra" and ?k = "length (mask_indices ms extra) - om_keep_recent_tool_outputs config"
  have t: "distinct ?t" "set ?t \<subseteq> set [0..<length ms]" by (auto simp: mask_indices_def)
  then have "distinct (take ?k ?t)" "set (take ?k ?t) \<subseteq> set [0..<length ms]" by (auto dest: in_set_takeD)
  then have "length (filter (\<lambda>i. i \<in> set (take ?k ?t)) [0..<length ms]) = length (take ?k ?t)"
    by (intro filter_members_length) simp_all
  then show ?thesis by (simp add: apply_observation_masking_with_protected_def Let_def mask_indices_def)
qed

lemma mask_message_shape: "l_role m = LTool \<Longrightarrow> shape (mask_message config ms m) = shape m"
  by (simp add: mask_message_def shape_def Let_def)

lemma masking_shape: "map shape (or_messages (apply_observation_masking_with_protected ms config extra)) = map shape ms"
proof (rule nth_equalityI)
  fix i assume "i < length (map shape (or_messages (apply_observation_masking_with_protected ms config extra)))"
  then have i: "i < length ms" by (simp add: masking_messages)
  have "shape (mask_message config ms (ms ! i)) = shape (ms ! i)"
    if "i \<in> set (take k (mask_indices ms extra))" for k
    using in_set_takeD [OF that] by (intro mask_message_shape) (simp add: mask_indices_def maskable_def)
  then show "map shape (or_messages (apply_observation_masking_with_protected ms config extra)) ! i = map shape ms ! i"
    using i by (simp add: masking_messages)
qed (simp add: masking_messages)

lemma masking_unmaskable:
  assumes "m \<in> set ms" and "\<not> maskable ms extra m"
  shows "m \<in> set (or_messages (apply_observation_masking_with_protected ms config extra))"
proof -
  obtain i where i: "i < length ms" "ms ! i = m" using assms(1) by (auto simp: in_set_conv_nth)
  then have "i \<notin> set (take k (mask_indices ms extra))" for k
    using assms(2) by (auto simp: mask_indices_def dest: in_set_takeD)
  with i show ?thesis by (force simp: masking_messages)
qed

section \<open>Tiers\<close>

lemma map_nth_slice: "map (nth ms) (filter (\<lambda>i. a \<le> i \<and> i < b) [0..<length ms]) = take (b - a) (drop a ms)"
proof -
  have "filter (\<lambda>i. a \<le> i \<and> i < b) [0..<n] = [a..<min b n]" for n
    by (rule sorted_distinct_set_unique) (auto simp: sorted_wrt_filter)
  moreover have "map (nth ms) [a..<min b (length ms)] = take (b - a) (drop a ms)"
    by (rule nth_equalityI) (auto simp: min_def split: if_splits)
  ultimately show ?thesis by simp
qed

text \<open>The messages a configuration classifies into a tier.\<close>

definition tier :: "memory_tier \<Rightarrow> llm_message list \<Rightarrow> hierarchical_memory_config \<Rightarrow> llm_message list" where
  "tier t ms config = map snd (filter (\<lambda>p. fst p = t) (classify_memory_tiers ms config))"

lemma tier_slice:
  fixes ms :: "llm_message list" and config :: hierarchical_memory_config
  defines "h \<equiv> length ms - hm_hot_messages config"
  defines "w \<equiv> h - hm_warm_messages config"
  shows "tier Cold ms config = take w ms \<and> tier Warm ms config = take (h - w) (drop w ms) \<and> tier Hot ms config = drop h ms"
proof -
  have "classify_memory_tiers ms config
      = map (\<lambda>i. (if h \<le> i then Hot else if w \<le> i then Warm else Cold, ms ! i)) [0..<length ms]"
    unfolding classify_memory_tiers_def Let_def by (rule map_cong) (auto simp: h_def w_def)
  then have t: "tier t ms config
      = map (nth ms) (filter (\<lambda>i. (if h \<le> i then Hot else if w \<le> i then Warm else Cold) = t) [0..<length ms])" for t
    by (simp add: tier_def filter_map comp_def)
  have "w \<le> h" "h \<le> length ms" by (simp_all add: w_def h_def)
  then have "filter (\<lambda>i. (if h \<le> i then Hot else if w \<le> i then Warm else Cold) = Cold) [0..<length ms]
        = filter (\<lambda>i. 0 \<le> i \<and> i < w) [0..<length ms]"
    "filter (\<lambda>i. (if h \<le> i then Hot else if w \<le> i then Warm else Cold) = Warm) [0..<length ms]
        = filter (\<lambda>i. w \<le> i \<and> i < h) [0..<length ms]"
    "filter (\<lambda>i. (if h \<le> i then Hot else if w \<le> i then Warm else Cold) = Hot) [0..<length ms]
        = filter (\<lambda>i. h \<le> i \<and> i < length ms) [0..<length ms]"
    by (auto intro!: filter_cong)
  then show ?thesis unfolding t by (simp only: map_nth_slice) (use \<open>h \<le> length ms\<close> in simp)
qed

section \<open>Properties\<close>

lemma trim_bound: "estimate_total_tokens jt (aggressive_trim jt ms target hs) \<le> target"
proof -
  let ?t = "trim_conversation jt (trim_budget jt ms target hs) (trim_input ms hs)"
  obtain sys where eq: "aggressive_trim jt ms target hs = retain_complete_llm_tool_exchanges (sys @ ?t)"
    and b: "estimate_total_tokens jt sys + trim_budget jt ms target hs \<le> target"
    using aggressive_trim_split by blast
  have "estimate_total_tokens jt (aggressive_trim jt ms target hs) \<le> estimate_total_tokens jt (sys @ ?t)"
    unfolding eq retain_complete_llm_tool_exchanges_def by (rule retain_estimate)
  also have "\<dots> \<le> target" using b trim_conversation_fits [of jt "trim_budget jt ms target hs" "trim_input ms hs"] by simp
  finally show ?thesis .
qed

lemma trim_order: "subseq (map without_calls (aggressive_trim jt ms target hs)) (map without_calls ms)"
proof -
  let ?t = "trim_conversation jt (trim_budget jt ms target hs) (trim_input ms hs)"
  obtain sys where eq: "aggressive_trim jt ms target hs = retain_complete_llm_tool_exchanges (sys @ ?t)"
    and sub: "subseq (sys @ trim_input ms hs) ms"
    using aggressive_trim_split by blast
  have "subseq (sys @ ?t) ms"
    using sub trim_conversation_subseq by (meson subseq_order.trans list_emb_append_mono subseq_order.refl)
  then show ?thesis
    unfolding eq retain_complete_llm_tool_exchanges_def using llm_retained_order subseq_map by (meson subseq_order.trans)
qed

text \<open>
  C37. The trim of last resort meets its target: whatever the messages, the estimate of what it returns
  is at most the target, and what it returns are messages of the input in their order, with at most
  some of their calls removed.
\<close>

theorem aggressive_trim_fits:
  "estimate_total_tokens jt (aggressive_trim jt ms target hs) \<le> target
   \<and> subseq (map without_calls (aggressive_trim jt ms target hs)) (map without_calls ms)"
  using trim_bound trim_order by blast

text \<open>
  Skill instructions survive. When the protected messages of a conversation (the task it began with,
  the calls that activate a skill and their results) fit the target, the trim keeps every result of a
  skill activation as it is; and observation masking keeps it in any case.
\<close>

theorem skill_results_kept:
  assumes "protected_need jt (trim_input ms hs) \<le> trim_budget jt ms target hs"
    and "m \<in> set (trim_input ms hs)" and "is_protected_tool_result (trim_input ms hs) m" and "l_tool_calls m = None"
  shows "m \<in> set (aggressive_trim jt ms target hs)
    \<and> m \<in> set (or_messages (apply_observation_masking (trim_input ms hs) config))"
proof -
  let ?c = "trim_input ms hs" and ?t = "trim_conversation jt (trim_budget jt ms target hs) (trim_input ms hs)"
  obtain sys where eq: "aggressive_trim jt ms target hs = retain_complete_llm_tool_exchanges (sys @ ?t)"
    using aggressive_trim_split by blast
  have keep: "x \<in> set (sys @ ?t)" if "x \<in> set ?c" "is_protected_tool_result ?c x \<or> is_protected_tool_call_message x" for x
    using protected_member [OF that] trim_conversation_protected [OF assms(1)] by auto
  have "m \<in> set (aggressive_trim jt ms target hs)"
    unfolding eq using assms(2-4) keep by (intro skill_result_survives [OF assms(3)]) auto
  moreover have "m \<in> set (or_messages (apply_observation_masking ?c config))"
    unfolding apply_observation_masking_def using assms(2,3) by (intro masking_unmaskable) (simp_all add: maskable_def)
  ultimately show ?thesis ..
qed

definition demo_skill :: "llm_message list" where
  "demo_skill =
     [llm_text LSystem ''be brief'', llm_text LUser ''go'',
      (llm_text LAssistant [])\<lparr>l_tool_calls := Some [\<lparr>tc_id = ''s'', tc_name = ''activate_skill'', tc_arguments = JNull\<rparr>]\<rparr>,
      demo_result ''s'', llm_text LAssistant ''a long answer that does not fit the budget''
     ]"

theorem skill_results_kept_witness:
  "demo_result ''s'' \<in> set (aggressive_trim (\<lambda>_. ''null'') demo_skill 14 True)
   \<and> demo_result ''s'' \<in> set (or_messages (apply_observation_masking (trim_input demo_skill True)
         \<lparr>om_keep_recent_tool_outputs = 0, om_summary_format = OneLine\<rparr>))
   \<and> length (aggressive_trim (\<lambda>_. ''null'') demo_skill 14 True) = 4"
proof -
  have "protected_need (\<lambda>_. ''null'') (trim_input demo_skill True) \<le> trim_budget (\<lambda>_. ''null'') demo_skill 14 True"
    by code_simp
  moreover have "is_protected_tool_result (trim_input demo_skill True) (demo_result ''s'')" by code_simp
  moreover have "demo_result ''s'' \<in> set (trim_input demo_skill True)" "l_tool_calls (demo_result ''s'') = None"
    by (simp_all add: trim_input_def demo_skill_def demo_result_def llm_text_def)
  moreover have "length (aggressive_trim (\<lambda>_. ''null'') demo_skill 14 True) = 4" by code_simp
  ultimately show ?thesis using skill_results_kept by blast
qed

text \<open>
  Observation masking changes only old tool outputs: it masks all maskable results but the most
  recent ones it is configured to keep, every message keeps its role, its calls and the call it
  answers, and so a transcript with complete exchanges still has complete exchanges.
\<close>

theorem masking_keeps_exchanges:
  "let r = apply_observation_masking ms config; idx = mask_indices ms [];
       n = length idx - om_keep_recent_tool_outputs config in
    or_masked_count r = n
    \<and> map shape (or_messages r) = map shape ms
    \<and> filter (\<lambda>i. or_messages r ! i \<noteq> ms ! i) [0..<length ms]
        = filter (\<lambda>i. mask_message config ms (ms ! i) \<noteq> ms ! i) (take n idx)
    \<and> llm_call_ids (or_messages r) = llm_call_ids ms \<and> llm_result_ids (or_messages r) = llm_result_ids ms"
proof -
  let ?r = "apply_observation_masking ms config" and ?idx = "mask_indices ms []"
  let ?n = "length ?idx - om_keep_recent_tool_outputs config"
  have idx: "sorted ?idx" "distinct ?idx" "set ?idx \<subseteq> {..<length ms}"
    by (auto simp: mask_indices_def sorted_wrt_filter)
  have "filter (\<lambda>i. or_messages ?r ! i \<noteq> ms ! i) [0..<length ms]
      = filter (\<lambda>i. mask_message config ms (ms ! i) \<noteq> ms ! i) (take ?n ?idx)"
  proof (rule sorted_distinct_set_unique)
    show "set (filter (\<lambda>i. or_messages ?r ! i \<noteq> ms ! i) [0..<length ms])
        = set (filter (\<lambda>i. mask_message config ms (ms ! i) \<noteq> ms ! i) (take ?n ?idx))"
      using idx(3) by (auto simp: apply_observation_masking_def masking_messages dest: in_set_takeD split: if_splits)
  qed (use idx in \<open>auto simp: sorted_wrt_filter sorted_wrt_take\<close>)
  moreover have "map shape (or_messages ?r) = map shape ms" unfolding apply_observation_masking_def by (rule masking_shape)
  ultimately show ?thesis
    using shape_ids [of "or_messages ?r" ms] by (simp add: Let_def apply_observation_masking_def masking_count)
qed

text \<open>With distinct call ids, the call a result answers is found in whatever part of the transcript holds it.\<close>

lemma protected_transfer:
  assumes "distinct (llm_call_ids ms)" and "is_protected_tool_result xs m" and "set xs \<subseteq> set ys" and "set ys \<subseteq> set ms"
  shows "is_protected_tool_result ys m"
proof -
  have inj: "inj_on tc_id (set (concat (map llm_calls ms)))" using assms(1) by (simp add: llm_call_ids_def distinct_map)
  let ?cs = "\<lambda>ms. concat (map llm_calls (filter (\<lambda>m. l_role m = LAssistant) (rev ms)))"
  have role: "l_role m = LTool" using assms(2) by (rule protected_is_tool)
  have n: "find_tool_call_name xs m = ''activate_skill''"
    using assms(2) by (simp add: is_protected_tool_result_def PROTECTED_TOOL_NAMES_def split: if_splits)
  then obtain i where i: "l_tool_call_id m = Some i" by (cases "l_tool_call_id m") (simp_all add: find_tool_call_name_def)
  obtain tc where tc: "find (\<lambda>tc. tc_id tc = i) (?cs xs) = Some tc" "tc_name tc = ''activate_skill''"
    using n i by (cases "find (\<lambda>tc. tc_id tc = i) (?cs xs)") (simp_all add: find_tool_call_name_def)
  have x: "tc \<in> set (?cs xs)" "tc_id tc = i" using find_SomeD [OF tc(1)] by simp_all
  then have y: "tc \<in> set (?cs ys)" using assms(3) by auto
  then obtain u where u: "find (\<lambda>tc. tc_id tc = i) (?cs ys) = Some u"
    using x(2) by (cases "find (\<lambda>tc. tc_id tc = i) (?cs ys)") (auto simp: find_None_iff)
  then have "u \<in> set (?cs ys)" "tc_id u = i" using find_SomeD by fast+
  then have "u = tc" using inj y x(2) assms(4) by (intro inj_onD [OF inj]) auto
  then show ?thesis using u tc(2) i role by (simp add: is_protected_tool_result_def find_tool_call_name_def PROTECTED_TOOL_NAMES_def)
qed

lemma view_cold:
  "c \<in> set (tier Cold ms config) \<Longrightarrow> is_protected_tool_result (tier Cold ms config) c \<or> is_protected_tool_call_message c
    \<Longrightarrow> c \<in> set (hierarchical_view ms config masking summary)"
  using tier_slice [of ms config] by (auto simp: hierarchical_view_def Let_def)

lemma view_warm:
  assumes "c \<in> set (tier Warm ms config)" and "l_role c \<noteq> LTool \<or> is_protected_tool_result ms c"
  shows "c \<in> set (hierarchical_view ms config masking summary)"
proof -
  let ?w = "tier Warm ms config"
  let ?ids = "List.map_filter l_tool_call_id (filter (is_protected_tool_result ms) ?w)"
  have "\<not> maskable ?w ?ids c"
    using assms protected_has_call [of ms c] by (auto simp: maskable_def map_filter_set split: option.splits)
  then have "c \<in> set (or_messages (apply_observation_masking_with_protected ?w masking ?ids))"
    using assms(1) by (rule masking_unmaskable [rotated])
  moreover have "?w \<noteq> []" using assms(1) by auto
  ultimately show ?thesis using tier_slice [of ms config] by (auto simp: hierarchical_view_def Let_def)
qed

lemma view_hot: "c \<in> set (tier Hot ms config) \<Longrightarrow> c \<in> set (hierarchical_view ms config masking summary)"
  using tier_slice [of ms config] by (auto simp: hierarchical_view_def Let_def)

lemma tiers_append: "tier Cold ms config @ tier Warm ms config @ tier Hot ms config = ms"
proof -
  let ?h = "length ms - hm_hot_messages config" and ?w = "length ms - hm_hot_messages config - hm_warm_messages config"
  have "take (?h - ?w) (drop ?w ms) @ drop ?h ms = drop ?w ms"
    by (metis append_take_drop_id diff_le_self drop_drop le_add_diff_inverse2)
  then show ?thesis using tier_slice [of ms config] by simp
qed

lemma tier_split:
  assumes "ms = pre @ m # post" and "m \<notin> set (tier Warm ms config)" and "m \<notin> set (tier Hot ms config)"
  shows "set pre \<subseteq> set (tier Cold ms config)"
proof -
  have "length (tier Cold ms config) > length pre"
  proof (rule ccontr)
    let ?c = "tier Cold ms config" and ?rest = "tier Warm ms config @ tier Hot ms config"
    assume "\<not> length pre < length ?c"
    then have n: "length ?c \<le> length pre" by simp
    have eq: "?c @ ?rest = ms" by (rule tiers_append)
    have "length pre < length (?c @ ?rest)" unfolding eq using assms(2) assms(1) by simp
    then have "?rest ! (length pre - length ?c) \<in> set ?rest" using n by (intro nth_mem) simp
    moreover have "(?c @ ?rest) ! length pre = ?rest ! (length pre - length ?c)" using n by (simp add: nth_append)
    ultimately have "ms ! length pre \<in> set ?rest" unfolding eq by simp
    then show False using assms by simp
  qed
  then have "take (length pre) ms = take (length pre) (tier Cold ms config)"
    by (metis tiers_append append.assoc order.strict_implies_order take_append diff_is_0_eq' take_0 append_Nil2)
  then show ?thesis using assms(1) set_take_subset [of "length pre" "tier Cold ms config"] by simp
qed

text \<open>
  The memory tiers. The classification of messages agrees with the slices that are worked on (cold,
  then warm, then hot, all messages); and with distinct call ids a result of a skill activation
  whose call comes before it reaches the model unchanged from any tier.
\<close>

theorem tiers_keep_skills:
  assumes "distinct (llm_call_ids ms)" and "ms = pre @ m # post" and "is_protected_tool_result pre m" and "l_tool_calls m = None"
  shows "m \<in> set (apply_hierarchical_memory ms config masking summary)
    \<and> tier Cold ms config @ tier Warm ms config @ tier Hot ms config = ms"
proof -
  let ?view = "hierarchical_view ms config masking summary"
  have all: "is_protected_tool_result ms m" using assms(2) by (intro protected_transfer [OF assms(1,3)]) auto
  have "m \<in> set ?view"
  proof (cases "m \<in> set (tier Warm ms config) \<or> m \<in> set (tier Hot ms config)")
    case True
    then show ?thesis using view_warm view_hot all by blast
  next
    case False
    then have "set pre \<subseteq> set (tier Cold ms config)" using tier_split [OF assms(2)] by blast
    moreover have "set (tier Cold ms config) \<subseteq> set ms" by (subst (2) tiers_append [symmetric, of _ config]) auto
    ultimately have "is_protected_tool_result (tier Cold ms config) m" using protected_transfer [OF assms(1,3)] by blast
    moreover have "m \<in> set (tier Cold ms config)"
      using False tiers_append [of ms config] assms(2) by (metis Un_iff in_set_conv_decomp set_append)
    ultimately show ?thesis using view_cold by blast
  qed
  moreover have "c \<in> set ?view" if "c \<in> set pre" "is_protected_tool_call_message c" for c
  proof -
    have "c \<in> set ms" using that(1) assms(2) by simp
    then have "c \<in> set (tier Cold ms config) \<or> c \<in> set (tier Warm ms config) \<or> c \<in> set (tier Hot ms config)"
      using tiers_append [of ms config] by (metis Un_iff set_append)
    moreover have "l_role c \<noteq> LTool" using that(2) by (auto simp: is_protected_tool_call_message_def split: if_splits)
    ultimately show ?thesis using that(2) view_cold view_warm view_hot by blast
  qed
  ultimately show ?thesis
    using skill_result_survives [OF assms(3) _ assms(4)] tiers_append by (simp add: apply_hierarchical_memory_def)
qed

theorem tiers_keep_skills_witness:
  "demo_result ''s'' \<in> set (apply_hierarchical_memory demo_skill \<lparr>hm_hot_messages = 1, hm_warm_messages = 0\<rparr>
      \<lparr>om_keep_recent_tool_outputs = 0, om_summary_format = OneLine\<rparr> (Some ''so far''))
   \<and> tier Hot demo_skill \<lparr>hm_hot_messages = 1, hm_warm_messages = 0\<rparr> = drop 4 demo_skill"
proof -
  have "demo_skill = take 3 demo_skill @ demo_result ''s'' # drop 4 demo_skill" by (simp add: demo_skill_def)
  moreover have "distinct (llm_call_ids demo_skill)" "is_protected_tool_result (take 3 demo_skill) (demo_result ''s'')"
    "l_tool_calls (demo_result ''s'') = None" by code_simp+
  moreover have "tier Hot demo_skill \<lparr>hm_hot_messages = 1, hm_warm_messages = 0\<rparr> = drop 4 demo_skill"
    by (simp add: tier_slice demo_skill_def)
  ultimately show ?thesis using tiers_keep_skills by blast
qed

end
