(* ===== verification/Cost_Masking.thy ===== *)
theory Cost_Masking
  imports Compaction Store_Types
begin

text \<open>
  Cost control (\<open>crates/builtins/src/compaction.rs\<close>): stale bulky tool results are replaced by
  one-line summaries in the view of the stored messages that a model is shown, even when it still
  has room for them. \<open>rd_json\<close> is the text \<open>serde_json\<close> gives a value, \<open>rd_debug\<close> the quoted form
  \<open>{:?}\<close> of a string. A JSON object lists its entries in the order the map iterates.
\<close>

section \<open>JSON values\<close>

record rendering =
  rd_json :: "json \<Rightarrow> string"
  rd_debug :: "string \<Rightarrow> string"

definition as_object :: "json \<Rightarrow> (string \<times> json) list option" where
  "as_object v = (case v of JObject kvs \<Rightarrow> Some kvs | _ \<Rightarrow> None)"

definition as_str :: "json \<Rightarrow> string option" where
  "as_str v = (case v of JString s \<Rightarrow> Some s | _ \<Rightarrow> None)"

definition as_bool :: "json \<Rightarrow> bool option" where
  "as_bool v = (case v of JBool b \<Rightarrow> Some b | _ \<Rightarrow> None)"

definition as_array :: "json \<Rightarrow> json list option" where
  "as_array v = (case v of JArray xs \<Rightarrow> Some xs | _ \<Rightarrow> None)"

definition as_u64 :: "json \<Rightarrow> nat option" where
  "as_u64 v =
     (case v of
        JNumber s \<Rightarrow> (case parse_digits s of Some n \<Rightarrow> if n < 2 ^ 64 then Some n else None | None \<Rightarrow> None)
      | _ \<Rightarrow> None)"

definition as_i64 :: "json \<Rightarrow> int option" where
  "as_i64 v =
     (case v of
        JNumber (c # ds) \<Rightarrow>
          if c = CHR ''-''
          then (case parse_digits ds of Some n \<Rightarrow> if 0 < n \<and> n \<le> 2 ^ 63 then Some (- int n) else None | None \<Rightarrow> None)
          else (case parse_digits (c # ds) of Some n \<Rightarrow> if n < 2 ^ 63 then Some (int n) else None | None \<Rightarrow> None)
      | _ \<Rightarrow> None)"

definition show_int :: "int \<Rightarrow> string" where
  "show_int n = (if n < 0 then CHR ''-'' # show_nat (nat (- n)) else show_nat (nat n))"

definition show_bool :: "bool \<Rightarrow> string" where
  "show_bool b = (if b then ''true'' else ''false'')"

fun value_kind :: "json \<Rightarrow> string" where
  "value_kind JNull = ''null''"
| "value_kind (JBool _) = ''bool''"
| "value_kind (JNumber _) = ''number''"
| "value_kind (JString _) = ''string''"
| "value_kind (JArray _) = ''array''"
| "value_kind (JObject _) = ''object''"

definition estimate_json_value_len :: "rendering \<Rightarrow> json \<Rightarrow> nat" where
  "estimate_json_value_len rd v = length (rd_json rd v)"

text \<open>The first characters of a string given by its bytes.\<close>

definition continuation :: "char \<Rightarrow> bool" where
  "continuation c \<longleftrightarrow> 128 \<le> (of_char c :: nat) \<and> (of_char c :: nat) < 192"

definition char_count :: "string \<Rightarrow> nat" where
  "char_count s = length (filter (\<lambda>c. \<not> continuation c) s)"

fun take_chars :: "nat \<Rightarrow> string \<Rightarrow> string" where
  "take_chars n [] = []"
| "take_chars n (c # cs) =
     (if continuation c then c # take_chars n cs else case n of 0 \<Rightarrow> [] | Suc k \<Rightarrow> c # take_chars k cs)"

definition truncate_inline :: "string \<Rightarrow> nat \<Rightarrow> string" where
  "truncate_inline s max_chars = (if char_count s \<le> max_chars then s else take_chars max_chars s @ ''...'')"

section \<open>Summaries of tool results\<close>

definition is_read_file_tool_name :: "string \<Rightarrow> bool" where
  "is_read_file_tool_name tool_name \<longleftrightarrow> tool_name \<in> set
     [''read_file'', ''daytona_read_file'', ''sandbox_read_file'', ''e2b_read_file'', ''docker_read_file'',
      ''deno_read_file'', ''sprites_read_file'', ''read_github_file'']"

abbreviation get_as :: "(json \<Rightarrow> 'a option) \<Rightarrow> (string \<times> json) list \<Rightarrow> string \<Rightarrow> 'a option" where
  "get_as f obj k \<equiv> Option.bind (map_of obj k) f"

definition or_empty :: "('a \<Rightarrow> string) \<Rightarrow> 'a option \<Rightarrow> string" where
  "or_empty f x = (case x of Some a \<Rightarrow> f a | None \<Rightarrow> [])"

definition bytes_text :: "rendering \<Rightarrow> json \<Rightarrow> string" where
  "bytes_text rd v = show_nat (estimate_json_value_len rd v)"

definition summarize_read_file_result :: "rendering \<Rightarrow> string \<Rightarrow> (string \<times> json) list \<Rightarrow> json \<Rightarrow> string" where
  "summarize_read_file_result rd tool_name obj v =
     (let path = (case get_as as_str obj ''path'' of Some p \<Rightarrow> p | None \<Rightarrow> ''(unknown path)'');
          line_range = or_empty id (Option.bind (get_as as_object obj ''lines_shown'') (\<lambda>ls.
             Option.bind (get_as as_u64 ls ''start'') (\<lambda>start.
             Option.bind (get_as as_u64 ls ''end'') (\<lambda>end'.
             Some ('' lines '' @ show_nat start @ ''-'' @ show_nat end')))));
          total_lines = or_empty (\<lambda>n. '', total_lines='' @ show_nat n) (get_as as_u64 obj ''total_lines'');
          next_offset = or_empty (\<lambda>n. '', next_offset='' @ show_nat n)
             (Option.bind (get_as as_object obj ''truncation'') (\<lambda>t. get_as as_u64 t ''next_offset''));
          hash = or_empty (\<lambda>h. '', hash='' @ h) (get_as as_str obj ''content_hash'');
          truncated = (case get_as as_bool obj ''truncated'' of Some b \<Rightarrow> b | None \<Rightarrow> False)
      in ''['' @ tool_name @ '' '' @ path @ line_range @ '', '' @ bytes_text rd v @ '' bytes, truncated=''
         @ show_bool truncated @ total_lines @ next_offset @ hash @ '']'')"

definition summarize_exec_result :: "rendering \<Rightarrow> string \<Rightarrow> (string \<times> json) list \<Rightarrow> json \<Rightarrow> string" where
  "summarize_exec_result rd tool_name obj v =
     (let exit = or_empty (\<lambda>n. '' exit='' @ show_int n) (get_as as_i64 obj ''exit_code'');
          stdout_len = (case get_as as_str obj ''stdout'' of Some s \<Rightarrow> length s | None \<Rightarrow> 0);
          stderr_len = (case get_as as_str obj ''stderr'' of Some s \<Rightarrow> length s | None \<Rightarrow> 0);
          full_output = or_empty (\<lambda>p. '', full_output='' @ p) (get_as as_str obj ''full_output'');
          total_lines = or_empty (\<lambda>n. '', total_lines='' @ show_nat n) (get_as as_u64 obj ''total_lines'')
      in ''['' @ tool_name @ exit @ '', stdout='' @ show_nat stdout_len @ '' bytes, stderr='' @ show_nat stderr_len
         @ '' bytes, result='' @ bytes_text rd v @ '' bytes'' @ full_output @ total_lines @ '']'')"

definition summarize_list_directory_result :: "rendering \<Rightarrow> string \<Rightarrow> (string \<times> json) list \<Rightarrow> json \<Rightarrow> string" where
  "summarize_list_directory_result rd tool_name obj v =
     (let path = (case get_as as_str obj ''path'' of Some p \<Rightarrow> p | None \<Rightarrow> ''(unknown path)'');
          cnt = (case get_as as_u64 obj ''count'' of
                   Some n \<Rightarrow> n
                 | None \<Rightarrow> (case get_as as_array obj ''entries'' of Some xs \<Rightarrow> length xs | None \<Rightarrow> 0))
      in ''['' @ tool_name @ '' '' @ path @ '', '' @ show_nat cnt @ '' entries, '' @ bytes_text rd v @ '' bytes]'')"

definition summarize_grep_files_result :: "rendering \<Rightarrow> string \<Rightarrow> (string \<times> json) list \<Rightarrow> json \<Rightarrow> string" where
  "summarize_grep_files_result rd tool_name obj v =
     (let pattern = or_empty (\<lambda>p. '' pattern='' @ rd_debug rd (truncate_inline p 80)) (get_as as_str obj ''pattern'');
          match_count = (case get_as as_u64 obj ''match_count'' of Some n \<Rightarrow> n | None \<Rightarrow> 0)
      in ''['' @ tool_name @ pattern @ '', matches='' @ show_nat match_count @ '', '' @ bytes_text rd v @ '' bytes]'')"

definition summarize_generic_tool_result :: "rendering \<Rightarrow> string \<Rightarrow> (string \<times> json) list \<Rightarrow> json \<Rightarrow> string" where
  "summarize_generic_tool_result rd tool_name obj v =
     ''['' @ tool_name @ '' result, '' @ bytes_text rd v @ '' bytes, keys='' @ join_text '','' (take 5 (map fst obj)) @ '']''"

definition summarize_tool_result :: "rendering \<Rightarrow> string \<Rightarrow> json option \<Rightarrow> string option \<Rightarrow> string" where
  "summarize_tool_result rd tool_name result error =
     (case error of
        Some error \<Rightarrow> ''['' @ tool_name @ '' error: '' @ truncate_inline error 160 @ '']''
      | None \<Rightarrow>
          (case result of
             None \<Rightarrow> ''['' @ tool_name @ '' returned no result]''
           | Some v \<Rightarrow>
               (case as_object v of
                  None \<Rightarrow> ''['' @ tool_name @ '' -> '' @ value_kind v @ '', '' @ bytes_text rd v @ '' bytes]''
                | Some obj \<Rightarrow>
                    if is_read_file_tool_name tool_name then summarize_read_file_result rd tool_name obj v
                    else if tool_name \<in> set [''bash'', ''daytona_exec'', ''sandbox_exec'', ''e2b_exec'', ''docker_exec'',
                                              ''deno_exec'']
                    then summarize_exec_result rd tool_name obj v
                    else if tool_name = ''list_directory'' then summarize_list_directory_result rd tool_name obj v
                    else if tool_name = ''grep_files'' then summarize_grep_files_result rd tool_name obj v
                    else summarize_generic_tool_result rd tool_name obj v)))"

section \<open>Masking stored results\<close>

definition find_message_tool_call_name :: "message list \<Rightarrow> message \<Rightarrow> string" where
  "find_message_tool_call_name messages tool_msg =
     (case message_tool_call_id tool_msg of
        None \<Rightarrow> ''unknown_tool''
      | Some call_id \<Rightarrow>
          (case find (\<lambda>tc. tcp_id tc = call_id)
                  (concat (map message_tool_calls (filter (\<lambda>m. m_role m = MAgent) (rev messages)))) of
             Some tc \<Rightarrow> tcp_name tc
           | None \<Rightarrow> ''unknown_tool''))"

definition is_protected_message_tool_result :: "message list \<Rightarrow> message \<Rightarrow> bool" where
  "is_protected_message_tool_result messages tool_msg \<longleftrightarrow>
     (if m_role tool_msg \<noteq> MToolResult then False
      else find_message_tool_call_name messages tool_msg \<in> set PROTECTED_TOOL_NAMES)"

definition message_tool_result_len :: "rendering \<Rightarrow> message \<Rightarrow> nat" where
  "message_tool_result_len rd m =
     (case tool_result_content m of
        None \<Rightarrow> 0
      | Some r \<Rightarrow> (case trp_result r of Some v \<Rightarrow> estimate_json_value_len rd v | None \<Rightarrow> 0)
                  + (case trp_error r of Some e \<Rightarrow> length e | None \<Rightarrow> 0))"

definition total_tool_result_bytes :: "rendering \<Rightarrow> message list \<Rightarrow> nat" where
  "total_tool_result_bytes rd messages =
     sum_list (map (message_tool_result_len rd) (filter (\<lambda>m. m_role m = MToolResult) messages))"

definition masked_part :: "string \<Rightarrow> bool \<Rightarrow> tool_result_part \<Rightarrow> tool_result_part" where
  "masked_part summary was_error r =
     (if was_error then r\<lparr>trp_result := None, trp_error := Some summary\<rparr>
      else r\<lparr>trp_result := Some (JObject [(''masked'', JBool True), (''summary'', JString summary)]), trp_error := None\<rparr>)"

fun mask_first_result :: "string \<Rightarrow> bool \<Rightarrow> content_part list \<Rightarrow> content_part list" where
  "mask_first_result summary was_error [] = []"
| "mask_first_result summary was_error (p # ps) =
     (case p of
        PToolResult r \<Rightarrow> PToolResult (masked_part summary was_error r) # ps
      | _ \<Rightarrow> p # mask_first_result summary was_error ps)"

definition mask_tool_result_message :: "rendering \<Rightarrow> string \<Rightarrow> message \<Rightarrow> message" where
  "mask_tool_result_message rd tool_name m =
     (case tool_result_content m of
        None \<Rightarrow> m
      | Some result \<Rightarrow>
          let summary = summarize_tool_result rd tool_name (trp_result result) (trp_error result);
              was_error = (trp_error result \<noteq> None)
          in m\<lparr>m_content := mask_first_result summary was_error (m_content m)\<rparr>)"

definition should_apply_cost_control_masking ::
  "nat \<Rightarrow> nat \<Rightarrow> cost_control_config \<Rightarrow> token_usage option \<Rightarrow> bool" where
  "should_apply_cost_control_masking tool_result_count tool_result_bytes config prior_usage \<longleftrightarrow>
     (if cc_mask_after_tool_results config \<le> tool_result_count then True
      else if cc_max_live_tool_result_bytes config \<le> tool_result_bytes then True
      else case prior_usage of
             None \<Rightarrow> False
           | Some usage \<Rightarrow>
               (let cache_read = (case tu_cache_read_tokens usage of Some n \<Rightarrow> n | None \<Rightarrow> 0);
                    cache_creation = (case tu_cache_creation_tokens usage of Some n \<Rightarrow> n | None \<Rightarrow> 0)
                in if cc_max_uncached_input_tokens config \<le> tu_input_tokens usage then True
                   else let total_prompt = tu_input_tokens usage + cache_read + cache_creation
                        in 0 < total_prompt
                           \<and> rat_of_nat (unat cache_read) / rat_of_nat (unat total_prompt) < cc_min_cache_read_ratio config))"

record read_result_key =
  rk_tool_name :: string
  rk_path :: string
  rk_content_hash :: string

definition paginated_read_result_key :: "message list \<Rightarrow> message \<Rightarrow> read_result_key option" where
  "paginated_read_result_key messages tool_msg =
     (let tool_name = find_message_tool_call_name messages tool_msg in
      if \<not> is_read_file_tool_name tool_name then None
      else Option.bind (tool_result_content tool_msg) (\<lambda>r.
           Option.bind (trp_result r) (\<lambda>v.
           Option.bind (as_object v) (\<lambda>obj.
           Option.bind (get_as as_object obj ''lines_shown'') (\<lambda>_.
           Option.bind (get_as as_str obj ''path'') (\<lambda>path.
           Option.bind (get_as as_str obj ''content_hash'') (\<lambda>hash.
           Some \<lparr>rk_tool_name = tool_name, rk_path = path, rk_content_hash = hash\<rparr>)))))))"

definition MAX_RELATED_RECENT_READ_RESULTS :: nat where "MAX_RELATED_RECENT_READ_RESULTS = 4"

fun related_reads :: "message list \<Rightarrow> read_result_key list \<Rightarrow> nat \<Rightarrow> nat list \<Rightarrow> nat list" where
  "related_reads messages recent_keys found [] = []"
| "related_reads messages recent_keys found (i # rest) =
     (case paginated_read_result_key messages (messages ! i) of
        None \<Rightarrow> []
      | Some key \<Rightarrow>
          if key \<notin> set recent_keys then []
          else if MAX_RELATED_RECENT_READ_RESULTS \<le> found + 1 then [i]
          else i # related_reads messages recent_keys (found + 1) rest)"

definition related_recent_paginated_read_results :: "message list \<Rightarrow> nat list \<Rightarrow> nat \<Rightarrow> nat list" where
  "related_recent_paginated_read_results messages tool_indices keep_recent =
     (if keep_recent = 0 \<or> length tool_indices \<le> keep_recent then []
      else let keep_start = length tool_indices - keep_recent;
               recent_keys = List.map_filter (\<lambda>i. paginated_read_result_key messages (messages ! i)) (drop keep_start tool_indices)
           in if recent_keys = [] then [] else related_reads messages recent_keys 0 (rev (take keep_start tool_indices)))"

record cost_control_masking_result =
  cm_messages :: "message list"
  cm_masked_count :: nat
  cm_bytes_before :: nat
  cm_bytes_after :: nat

definition cost_tool_indices :: "message list \<Rightarrow> nat list" where
  "cost_tool_indices messages =
     filter (\<lambda>i. m_role (messages ! i) = MToolResult \<and> \<not> is_protected_message_tool_result messages (messages ! i))
       [0..<length messages]"

definition apply_cost_control_masking ::
  "rendering \<Rightarrow> message list \<Rightarrow> runtime_compaction_config \<Rightarrow> token_usage option \<Rightarrow> cost_control_masking_result" where
  "apply_cost_control_masking rd messages config prior_usage =
     (let cost_config = rc_cost_control config;
          tool_indices = cost_tool_indices messages;
          bytes_before = sum_list (map (\<lambda>i. message_tool_result_len rd (messages ! i)) tool_indices)
      in if \<not> cc_enabled cost_config \<or> length tool_indices \<le> cc_keep_recent_tool_results cost_config
            \<or> \<not> should_apply_cost_control_masking (length tool_indices) bytes_before cost_config prior_usage
         then \<lparr>cm_messages = messages, cm_masked_count = 0, cm_bytes_before = bytes_before, cm_bytes_after = bytes_before\<rparr>
         else let keep_recent = cc_keep_recent_tool_results cost_config;
                  related = related_recent_paginated_read_results messages tool_indices keep_recent;
                  to_mask = filter (\<lambda>i. i \<notin> set related) (take (length tool_indices - keep_recent) tool_indices);
                  masked = map (\<lambda>i. if i \<in> set to_mask
                                    then mask_tool_result_message rd (find_message_tool_call_name messages (messages ! i)) (messages ! i)
                                    else messages ! i) [0..<length messages]
              in \<lparr>cm_messages = masked,
                  cm_masked_count = length (filter (\<lambda>i. i \<in> set to_mask) [0..<length messages]),
                  cm_bytes_before = bytes_before,
                  cm_bytes_after = sum_list (map (message_tool_result_len rd) (filter (\<lambda>m. m_role m = MToolResult) masked))\<rparr>)"

section \<open>Masking keeps the exchanges\<close>

lemma mask_first_calls: "List.map_filter part_as_tool_call (mask_first_result s e ps) = List.map_filter part_as_tool_call ps"
  by (induction ps) (auto simp: List.map_filter_simps part_as_tool_call_def split: content_part.splits)

lemma mask_first_results:
  "map trp_tool_call_id (List.map_filter part_as_tool_result (mask_first_result s e ps))
    = map trp_tool_call_id (List.map_filter part_as_tool_result ps)"
  by (induction ps) (auto simp: List.map_filter_simps part_as_tool_result_def masked_part_def split: content_part.splits)

lemma mask_message_ids:
  "map trp_tool_call_id (List.map_filter part_as_tool_result (m_content (mask_tool_result_message rd n m)))
    = map trp_tool_call_id (List.map_filter part_as_tool_result (m_content m))"
  "message_tool_calls (mask_tool_result_message rd n m) = message_tool_calls m"
  "envelope (mask_tool_result_message rd n m) = envelope m"
  by (simp_all add: mask_tool_result_message_def Let_def mask_first_results mask_first_calls message_tool_calls_def envelope_def
      split: option.split)

lemma result_ids_simps [simp]:
  "result_ids [] = []"
  "result_ids (m # ms) = map trp_tool_call_id (List.map_filter part_as_tool_result (m_content m)) @ result_ids ms"
  by (simp_all add: result_ids_def)

lemma masked_list_ids:
  assumes "length xs = length ys" and "\<And>i. i < length xs \<Longrightarrow> xs ! i = ys ! i \<or> (\<exists>n. xs ! i = mask_tool_result_message rd n (ys ! i))"
  shows "result_ids xs = result_ids ys \<and> call_ids xs = call_ids ys \<and> map envelope xs = map envelope ys"
  using assms
proof (induction xs ys rule: list_induct2)
  case (Cons x xs y ys)
  have "x = y \<or> (\<exists>n. x = mask_tool_result_message rd n y)" using Cons.prems [of 0] by simp
  moreover have "result_ids xs = result_ids ys \<and> call_ids xs = call_ids ys \<and> map envelope xs = map envelope ys"
    using Cons.prems [of "Suc _"] by (intro Cons.IH) simp
  ultimately show ?case by (auto simp: mask_message_ids)
qed simp

text \<open>
  The indices that are masked: unprotected tool results older than the ones kept verbatim and than
  the pages of a file that is still being read.
\<close>

definition cost_masked :: "rendering \<Rightarrow> message list \<Rightarrow> runtime_compaction_config \<Rightarrow> token_usage option \<Rightarrow> nat list" where
  "cost_masked rd ms config usage =
     filter (\<lambda>i. cm_messages (apply_cost_control_masking rd ms config usage) ! i \<noteq> ms ! i) [0..<length ms]"

lemma cost_masking_nth:
  assumes "i < length ms"
  shows "cm_messages (apply_cost_control_masking rd ms config usage) ! i = ms ! i
    \<or> (i \<in> set (take (length (cost_tool_indices ms) - cc_keep_recent_tool_results (rc_cost_control config)) (cost_tool_indices ms))
       \<and> cm_messages (apply_cost_control_masking rd ms config usage) ! i
           = mask_tool_result_message rd (find_message_tool_call_name ms (ms ! i)) (ms ! i))"
  using assms by (auto simp: apply_cost_control_masking_def Let_def)

lemma cost_masking_length: "length (cm_messages (apply_cost_control_masking rd ms config usage)) = length ms"
  by (simp add: apply_cost_control_masking_def Let_def)

section \<open>Properties\<close>

text \<open>
  Cost control changes nothing but old tool results: the view has the stored messages in their
  order, with the same calls and the same results answering them; a result of a skill activation is
  never masked, and neither are the most recent results it is configured to keep.
\<close>

theorem cost_masking_safe:
  "let r = apply_cost_control_masking rd ms config usage; idx = cost_tool_indices ms;
       keep = cc_keep_recent_tool_results (rc_cost_control config) in
    map envelope (cm_messages r) = map envelope ms
    \<and> call_ids (cm_messages r) = call_ids ms \<and> result_ids (cm_messages r) = result_ids ms
    \<and> set (cost_masked rd ms config usage) \<subseteq> set (take (length idx - keep) idx)
    \<and> set (cost_masked rd ms config usage) \<inter> set (drop (length idx - keep) idx) = {}
    \<and> set (cost_masked rd ms config usage) \<inter> {i. is_protected_message_tool_result ms (ms ! i)} = {}"
proof -
  let ?r = "apply_cost_control_masking rd ms config usage" and ?idx = "cost_tool_indices ms"
  let ?n = "length ?idx - cc_keep_recent_tool_results (rc_cost_control config)"
  have ids: "result_ids (cm_messages ?r) = result_ids ms \<and> call_ids (cm_messages ?r) = call_ids ms
      \<and> map envelope (cm_messages ?r) = map envelope ms"
    using cost_masking_nth [of _ ms rd config usage] by (intro masked_list_ids) (auto simp: cost_masking_length)
  have old: "set (cost_masked rd ms config usage) \<subseteq> set (take ?n ?idx)"
    using cost_masking_nth [of _ ms rd config usage] by (fastforce simp: cost_masked_def)
  moreover have "distinct ?idx" by (simp add: cost_tool_indices_def)
  then have "set (take ?n ?idx) \<inter> set (drop ?n ?idx) = {}" by (metis append_take_drop_id distinct_append)
  moreover have "set (take ?n ?idx) \<inter> {i. is_protected_message_tool_result ms (ms ! i)} = {}"
    by (auto dest!: in_set_takeD simp: cost_tool_indices_def)
  ultimately show ?thesis using ids unfolding Let_def by blast
qed

text \<open>
  The two byte counts of a result do not measure the same messages: the first leaves out protected
  results, the second counts them, so masking can be reported as growth.
\<close>

definition demo_rendering :: rendering where
  "demo_rendering = \<lparr>rd_json = (\<lambda>v. case v of JString s \<Rightarrow> s | _ \<Rightarrow> ''{}''), rd_debug = (\<lambda>s. s)\<rparr>"

definition demo_stored :: "message list" where
  "demo_stored =
     [message_assistant_with_tools 1 0 [] [\<lparr>tc_id = ''s'', tc_name = ''activate_skill'', tc_arguments = JNull\<rparr>, demo_call ''a'',
        demo_call ''b''],
      message_tool_result 2 0 ''s'' (Some (JString ''always answer in verse'')) None,
      message_tool_result 3 0 ''a'' (Some (JString ''ok'')) None, message_tool_result 4 0 ''b'' (Some (JString ''ok'')) None]"

definition demo_cost_config :: runtime_compaction_config where
  "demo_cost_config =
     \<lparr>rc_strategy = StrategyAuto, rc_proactive = True, rc_budget_percent = 1,
      rc_observation_masking = observation_masking_default, rc_summarization = summarization_default,
      rc_memory_tiers = hierarchical_memory_default,
      rc_cost_control =
        \<lparr>cc_enabled = True, cc_keep_recent_tool_results = 1, cc_mask_after_tool_results = 2,
         cc_max_live_tool_result_bytes = 24, cc_max_uncached_input_tokens = 0, cc_min_cache_read_ratio = 0,
         cc_compact_after_tool_result_bytes = 0, cc_compact_min_input_tokens = 0\<rparr>\<rparr>"

lemma cost_bytes_mismatch:
  "cm_masked_count (apply_cost_control_masking demo_rendering demo_stored demo_cost_config None) = 1"
  "cm_bytes_before (apply_cost_control_masking demo_rendering demo_stored demo_cost_config None) = 4"
  "cm_bytes_after (apply_cost_control_masking demo_rendering demo_stored demo_cost_config None) = 26"
  by code_simp+

end
