(* ===== verification/Native_Compact.thy ===== *)
theory Native_Compact
  imports Cost_Masking
begin

text \<open>
  Native compaction: the items a conversation is sent to a provider's compact endpoint as and the
  items it answers with (\<open>crates/provider/src/compact.rs\<close>), the durable checkpoints that replace
  compacted history (\<open>crates/core/src/compaction_checkpoint.rs\<close>), their in-memory table of the
  server (\<open>crates/server/src/storage/memory/compaction_checkpoints.rs\<close>) and the bounded record of
  attempts. What a checkpoint table promises is the locale \<open>checkpoint_table\<close>.
\<close>

section \<open>Items\<close>

datatype compact_content_part = InputText string | InputImage string | InputFile string "string option"

datatype compact_content = CompactText string | CompactParts "compact_content_part list"

datatype compact_input_item =
    ConfigurationUpdate reasoning_effort
  | CompactMessage string compact_content
  | FunctionCall string string string
  | FunctionCallOutput string string
  | CompactionInput string
  | ProviderInput json

datatype compact_output_item =
    OutMessage string compact_content
  | OutCompaction string
  | OutProvider json

fun input_of_output :: "compact_output_item \<Rightarrow> compact_input_item" where
  "input_of_output (OutMessage role content) = CompactMessage role content"
| "input_of_output (OutCompaction encrypted_content) = CompactionInput encrypted_content"
| "input_of_output (OutProvider item) = ProviderInput item"

record compact_usage =
  cu_input_tokens :: "u32 option"
  cu_output_tokens :: "u32 option"
  cu_total_tokens :: "u32 option"
  cu_cost :: "f64 option"

record compact_response =
  cr_output :: "compact_output_item list"
  cr_usage :: "compact_usage option"

subsection \<open>JSON form\<close>

fun json_of_part :: "compact_content_part \<Rightarrow> json" where
  "json_of_part (InputText t) = JObject [(''type'', JString ''input_text''), (''text'', JString t)]"
| "json_of_part (InputImage url) = JObject [(''type'', JString ''input_image''), (''image_url'', JString url)]"
| "json_of_part (InputFile data filename) =
     JObject ([(''type'', JString ''input_file''), (''file_data'', JString data)]
       @ (case filename of Some n \<Rightarrow> [(''filename'', JString n)] | None \<Rightarrow> []))"

fun json_of_content :: "compact_content \<Rightarrow> json" where
  "json_of_content (CompactText t) = JString t"
| "json_of_content (CompactParts parts) = JArray (map json_of_part parts)"

fun json_of_output :: "compact_output_item \<Rightarrow> json" where
  "json_of_output (OutMessage role content) =
     JObject [(''type'', JString ''message''), (''role'', JString role), (''content'', json_of_content content)]"
| "json_of_output (OutCompaction enc) = JObject [(''type'', JString ''compaction''), (''encrypted_content'', JString enc)]"
| "json_of_output (OutProvider v) = v"

text \<open>Reading a part: an absent or null file name is none.\<close>

definition part_of_json :: "json \<Rightarrow> compact_content_part option" where
  "part_of_json v =
     Option.bind (as_object v) (\<lambda>obj.
       case get_as as_str obj ''type'' of
         None \<Rightarrow> None
       | Some kind \<Rightarrow>
           if kind = ''input_text'' then map_option InputText (get_as as_str obj ''text'')
           else if kind = ''input_image'' then map_option InputImage (get_as as_str obj ''image_url'')
           else if kind = ''input_file'' then
             Option.bind (get_as as_str obj ''file_data'') (\<lambda>data.
               case map_of obj ''filename'' of
                 None \<Rightarrow> Some (InputFile data None)
               | Some JNull \<Rightarrow> Some (InputFile data None)
               | Some (JString n) \<Rightarrow> Some (InputFile data (Some n))
               | Some _ \<Rightarrow> None)
           else None)"

definition content_of_json :: "json \<Rightarrow> compact_content option" where
  "content_of_json v =
     (case v of
        JString t \<Rightarrow> Some (CompactText t)
      | JArray xs \<Rightarrow> (if list_all (\<lambda>x. part_of_json x \<noteq> None) xs
                     then Some (CompactParts (List.map_filter part_of_json xs)) else None)
      | _ \<Rightarrow> None)"

definition output_of_json :: "json \<Rightarrow> string + compact_output_item" where
  "output_of_json v =
     (case Option.bind (json_get ''type'' v) as_str of
        None \<Rightarrow> Inl ''compact output requires a string type''
      | Some kind \<Rightarrow>
          if kind = ''compaction'' then
            (case Option.bind (json_get ''encrypted_content'' v) as_str of
               None \<Rightarrow> Inl ''compaction requires encrypted_content''
             | Some enc \<Rightarrow> Inr (OutCompaction enc))
          else if kind = ''message'' then
            (case Option.bind (json_get ''role'' v) as_str of
               None \<Rightarrow> Inl ''compact message requires role''
             | Some role \<Rightarrow>
                 (case json_get ''content'' v of
                    Some content \<Rightarrow>
                      if as_str content = None \<and> as_array content = None
                      then Inl ''compact message requires text or multipart content''
                      else (case (as_object v, content_of_json content) of
                              (Some obj, Some c) \<Rightarrow> if length obj = 3 then Inr (OutMessage role c) else Inr (OutProvider v)
                            | _ \<Rightarrow> Inr (OutProvider v))
                  | None \<Rightarrow> Inl ''compact message requires text or multipart content''))
          else Inr (OutProvider v))"

subsection \<open>From messages\<close>

definition compact_part_of :: "llm_content_part \<Rightarrow> compact_content_part option" where
  "compact_part_of p =
     (case p of
        LText t \<Rightarrow> Some (InputText t)
      | LImage url \<Rightarrow> Some (InputImage url)
      | LFile url filename \<Rightarrow> Some (InputFile url filename)
      | LAudio _ \<Rightarrow> None)"

definition content_from_llm_message :: "llm_message \<Rightarrow> compact_content" where
  "content_from_llm_message m =
     (case l_content m of
        TextContent t \<Rightarrow> CompactText t
      | PartsContent parts \<Rightarrow>
          (case List.map_filter compact_part_of parts of
             [InputText t] \<Rightarrow> CompactText t
           | compact_parts \<Rightarrow> CompactParts compact_parts))"

definition reasoning_items :: "reasoning_part \<Rightarrow> compact_input_item list" where
  "reasoning_items part =
     (if rp_provider part = ''openai'' then
        (case (rp_item_id part, rp_encrypted part) of
           (Some i, Some encrypted) \<Rightarrow>
             (let summary = (case rp_text part of
                               Some (RSummary parts) \<Rightarrow>
                                 map (\<lambda>t. JObject [(''type'', JString ''summary_text''), (''text'', JString t)]) parts
                             | _ \<Rightarrow> [])
              in [ProviderInput (JObject [(''type'', JString ''reasoning''), (''id'', JString i),
                    (''encrypted_content'', JString encrypted), (''summary'', JArray summary)])])
         | _ \<Rightarrow> [])
      else [])"

fun compact_role :: "llm_role \<Rightarrow> string" where
  "compact_role LSystem = ''developer''"
| "compact_role LUser = ''user''"
| "compact_role LAssistant = ''assistant''"
| "compact_role LTool = ''tool''"

definition compact_has_content :: "compact_content \<Rightarrow> bool" where
  "compact_has_content c = (case c of CompactText t \<Rightarrow> t \<noteq> [] | CompactParts parts \<Rightarrow> parts \<noteq> [])"

definition from_llm_message :: "(json \<Rightarrow> string) \<Rightarrow> llm_message \<Rightarrow> compact_input_item list" where
  "from_llm_message jt m =
     (case l_configuration_update m of Some effort \<Rightarrow> [ConfigurationUpdate effort] | None \<Rightarrow> [])
     @ concat (map reasoning_items (l_reasoning m))
     @ (case (l_role m, l_tool_call_id m) of
          (LTool, Some tool_call_id) \<Rightarrow> [FunctionCallOutput tool_call_id (llm_to_text (l_content m))]
        | _ \<Rightarrow>
            (let content = content_from_llm_message m; role = compact_role (l_role m) in
             (if compact_has_content content \<or> l_tool_calls m = None then
                (case (l_role m, l_phase m) of
                   (LAssistant, Some phase) \<Rightarrow>
                     [ProviderInput (JObject [(''type'', JString ''message''), (''role'', JString role),
                        (''content'', json_of_content content), (''phase'', JString (phase_as_provider_str phase))])]
                 | _ \<Rightarrow> [CompactMessage role content])
              else [])
             @ (if l_role m = LAssistant
                then map (\<lambda>c. FunctionCall (tc_id c) (tc_name c) (jt (tc_arguments c))) (llm_calls m)
                else [])))"

definition is_assistant_item :: "compact_input_item \<Rightarrow> bool" where
  "is_assistant_item item =
     (case item of
        FunctionCall _ _ _ \<Rightarrow> True
      | CompactMessage role _ \<Rightarrow> role = ''assistant''
      | ProviderInput v \<Rightarrow>
          json_get ''role'' v = Some (JString ''assistant'') \<or> json_get ''type'' v = Some (JString ''reasoning'')
          \<or> json_get ''type'' v = Some (JString ''function_call'')
      | _ \<Rightarrow> False)"

definition messages_to_compact_input :: "(json \<Rightarrow> string) \<Rightarrow> llm_message list \<Rightarrow> compact_input_item list" where
  "messages_to_compact_input jt messages = concat (map (from_llm_message jt) messages)"

section \<open>Checkpoints\<close>

record reasoning_state =
  rs_epoch :: string
  rs_baseline :: "reasoning_effort option"
  rs_effective :: "reasoning_effort option"
  rs_pending :: "reasoning_effort option"

datatype provider_opaque_context = OpenResponsesCompact "compact_output_item list" "reasoning_state option"

datatype checkpoint_payload = ProviderOpaque provider_opaque_context | SummaryPayload string

definition COMPACTION_CHECKPOINT_FORMAT_VERSION :: nat where "COMPACTION_CHECKPOINT_FORMAT_VERSION = 1"

record compaction_checkpoint =
  ck_id :: uuid
  ck_session_id :: uuid
  ck_source_sequence :: int
  ck_provider_type :: string
  ck_model :: string
  ck_format_version :: nat
  ck_payload :: checkpoint_payload

definition is_compatible :: "compaction_checkpoint \<Rightarrow> string \<Rightarrow> string \<Rightarrow> bool" where
  "is_compatible c provider_type model \<longleftrightarrow>
     ck_format_version c = COMPACTION_CHECKPOINT_FORMAT_VERSION \<and> ck_provider_type c = provider_type \<and> ck_model c = model"

type_synonym checkpoint_key = "uuid \<times> string \<times> string \<times> nat"

text \<open>The server's table; the payload is stored encrypted, as bytes the table does not look into.\<close>

record checkpoint_row =
  kr_id :: uuid
  kr_session_id :: uuid
  kr_source_sequence :: int
  kr_provider_type :: string
  kr_model :: string
  kr_format_version :: nat
  kr_payload_encrypted :: bytes

definition row_key :: "checkpoint_row \<Rightarrow> checkpoint_key" where
  "row_key r = (kr_session_id r, kr_provider_type r, kr_model r, kr_format_version r)"

definition get_compaction_checkpoint ::
  "uuid \<Rightarrow> string \<Rightarrow> string \<Rightarrow> nat \<Rightarrow> (checkpoint_key, checkpoint_row) hmap \<Rightarrow> checkpoint_row option" where
  "get_compaction_checkpoint session_id provider_type model format_version t =
     hm_get t (session_id, provider_type, model, format_version)"

definition install_compaction_checkpoint ::
  "checkpoint_row \<Rightarrow> (checkpoint_key, checkpoint_row) hmap \<Rightarrow> bool \<times> (checkpoint_key, checkpoint_row) hmap" where
  "install_compaction_checkpoint input t =
     (case hm_get t (row_key input) of
        Some current \<Rightarrow> if kr_source_sequence input \<le> kr_source_sequence current then (False, t)
                        else (True, hm_insert (row_key input) input t)
      | None \<Rightarrow> (True, hm_insert (row_key input) input t))"

fun copy_rows :: "uuid \<Rightarrow> (nat \<Rightarrow> uuid) \<Rightarrow> nat \<Rightarrow> checkpoint_row list \<Rightarrow> (checkpoint_key, checkpoint_row) hmap
    \<Rightarrow> nat \<times> (checkpoint_key, checkpoint_row) hmap" where
  "copy_rows target fresh n [] t = (0, t)"
| "copy_rows target fresh n (row # rows) t =
     (let row' = row\<lparr>kr_id := fresh n, kr_session_id := target\<rparr> in
      case hm_get t (row_key row') of
        None \<Rightarrow> (let (k, t') = copy_rows target fresh (n + 1) rows (hm_insert (row_key row') row' t) in (k + 1, t'))
      | Some _ \<Rightarrow> copy_rows target fresh (n + 1) rows t)"

definition copy_compaction_checkpoints ::
  "uuid \<Rightarrow> uuid \<Rightarrow> int \<Rightarrow> (nat \<Rightarrow> uuid) \<Rightarrow> (checkpoint_key, checkpoint_row) hmap
    \<Rightarrow> nat \<times> (checkpoint_key, checkpoint_row) hmap" where
  "copy_compaction_checkpoints source target through_sequence fresh t =
     copy_rows target fresh 0
       (filter (\<lambda>row. kr_session_id row = source \<and> kr_source_sequence row \<le> through_sequence) (hm_values t)) t"

section \<open>Attempts\<close>

record proactive_attempt =
  pa_source_sequence :: int
  pa_estimated_input_tokens :: nat
  pa_input_message_count :: nat
  pa_source_fingerprint :: nat

type_synonym attempt_key = "uuid \<times> string \<times> string"

record attempt_tracker =
  at_capacity :: nat
  at_attempts :: "(attempt_key, proactive_attempt) hmap"
  at_insertion_order :: "attempt_key list"

definition DEFAULT_PROACTIVE_ATTEMPT_CAPACITY :: nat where "DEFAULT_PROACTIVE_ATTEMPT_CAPACITY = 4096"

definition tracker_default :: attempt_tracker where
  "tracker_default = \<lparr>at_capacity = DEFAULT_PROACTIVE_ATTEMPT_CAPACITY, at_attempts = [], at_insertion_order = []\<rparr>"

definition tracker_get :: "uuid \<Rightarrow> string \<Rightarrow> string \<Rightarrow> attempt_tracker \<Rightarrow> proactive_attempt option" where
  "tracker_get session_id provider_type model t = hm_get (at_attempts t) (session_id, provider_type, model)"

text \<open>
  The eviction loop. It runs while the table is full; with nothing left to evict it would not end,
  which is the value \<open>None\<close>.
\<close>

fun tracker_evict :: "nat \<Rightarrow> (attempt_key, proactive_attempt) hmap \<Rightarrow> attempt_key list
    \<Rightarrow> ((attempt_key, proactive_attempt) hmap \<times> attempt_key list) option" where
  "tracker_evict capacity m [] = (if capacity \<le> length m then None else Some (m, []))"
| "tracker_evict capacity m (oldest # rest) =
     (if capacity \<le> length m then tracker_evict capacity (hm_remove oldest m) rest else Some (m, oldest # rest))"

definition tracker_record :: "uuid \<Rightarrow> string \<Rightarrow> string \<Rightarrow> proactive_attempt \<Rightarrow> attempt_tracker \<Rightarrow> attempt_tracker option" where
  "tracker_record session_id provider_type model attempt t =
     (let key = (session_id, provider_type, model) in
      case hm_get (at_attempts t) key of
        Some current \<Rightarrow>
          Some (if pa_source_sequence current \<le> pa_source_sequence attempt
                then t\<lparr>at_attempts := hm_insert key attempt (at_attempts t)\<rparr> else t)
      | None \<Rightarrow>
          (case tracker_evict (at_capacity t) (at_attempts t) (at_insertion_order t) of
             None \<Rightarrow> None
           | Some (m, order) \<Rightarrow> Some (t\<lparr>at_attempts := hm_insert key attempt m, at_insertion_order := order @ [key]\<rparr>)))"

section \<open>Reading items back\<close>

lemma part_roundtrip [simp]: "part_of_json (json_of_part p) = Some p"
  by (cases p) (auto simp: part_of_json_def as_object_def as_str_def split: option.split)

lemma content_roundtrip: "content_of_json (json_of_content c) = Some c"
proof (cases c)
  case (CompactParts parts)
  have "List.map_filter part_of_json (map json_of_part parts) = parts"
    by (induction parts) (simp_all add: List.map_filter_simps)
  then show ?thesis by (simp add: CompactParts content_of_json_def list_all_iff)
qed (simp add: content_of_json_def)

lemma json_of_content_kind: "as_str (json_of_content c) \<noteq> None \<or> as_array (json_of_content c) \<noteq> None"
  by (cases c) (simp_all add: as_str_def as_array_def)

lemma output_message_roundtrip: "output_of_json (json_of_output (OutMessage role c)) = Inr (OutMessage role c)"
  using json_of_content_kind [of c]
  by (auto simp: output_of_json_def json_get_def as_str_def as_object_def content_roundtrip)

lemma output_compaction_roundtrip: "output_of_json (json_of_output (OutCompaction enc)) = Inr (OutCompaction enc)"
  by (simp add: output_of_json_def json_get_def as_str_def)

lemma output_provider: "output_of_json v = Inr (OutProvider w) \<Longrightarrow> w = v"
  by (auto simp: output_of_json_def split: option.splits if_splits)

section \<open>The checkpoint table\<close>

text \<open>
  A table keeps, for each key, one checkpoint; installing one succeeds only past the sequence of the
  one it replaces. Then, whatever the order of the installs, the newest wins.
\<close>

locale checkpoint_table =
  fixes lookup :: "'t \<Rightarrow> 'k \<Rightarrow> 'r option"
    and install :: "'r \<Rightarrow> 't \<Rightarrow> bool \<times> 't"
    and key :: "'r \<Rightarrow> 'k"
    and seq :: "'r \<Rightarrow> int"
  assumes install_ok: "fst (install r t) \<longleftrightarrow> (case lookup t (key r) of Some c \<Rightarrow> seq c < seq r | None \<Rightarrow> True)"
    and install_lookup: "lookup (snd (install r t)) k = (if fst (install r t) \<and> k = key r then Some r else lookup t k)"
begin

definition installs :: "'r list \<Rightarrow> 't \<Rightarrow> 't" where
  "installs rs t = fold (\<lambda>r t. snd (install r t)) rs t"

lemma installs_simps [simp]: "installs [] t = t" "installs (r # rs) t = installs rs (snd (install r t))"
  by (simp_all add: installs_def)

lemma install_monotone: "lookup t k = Some c \<Longrightarrow> \<exists>c'. lookup (snd (install r t)) k = Some c' \<and> seq c \<le> seq c'"
  by (auto simp: install_lookup install_ok split: option.splits)

lemma installs_monotone: "lookup t k = Some c \<Longrightarrow> \<exists>c'. lookup (installs rs t) k = Some c' \<and> seq c \<le> seq c'"
proof (induction rs arbitrary: t c)
  case (Cons r rs)
  obtain c1 where "lookup (snd (install r t)) k = Some c1" "seq c \<le> seq c1" using install_monotone [OF Cons.prems] by blast
  then show ?case using Cons.IH [of "snd (install r t)" c1] by fastforce
qed simp

lemma install_covers: "\<exists>c. lookup (snd (install r t)) (key r) = Some c \<and> seq r \<le> seq c"
  by (auto simp: install_lookup install_ok split: option.splits)

lemma installs_newest: "r \<in> set rs \<Longrightarrow> \<exists>c. lookup (installs rs t) (key r) = Some c \<and> seq r \<le> seq c"
proof (induction rs arbitrary: t)
  case (Cons q rs)
  show ?case
  proof (cases "r = q")
    case True
    obtain c where "lookup (snd (install r t)) (key r) = Some c" "seq r \<le> seq c" using install_covers by blast
    then show ?thesis using installs_monotone [of "snd (install r t)" "key r" c rs] True by fastforce
  qed (use Cons in simp)
qed simp

lemma installs_source: "lookup (installs rs t) k = Some c \<Longrightarrow> lookup t k = Some c \<or> c \<in> set rs \<and> key c = k"
proof (induction rs arbitrary: t)
  case (Cons r rs)
  then have "lookup (snd (install r t)) k = Some c \<or> c \<in> set rs \<and> key c = k" by simp
  then show ?case by (auto simp: install_lookup split: if_splits)
qed simp

lemma installs_snoc [simp]: "installs (rs @ [q]) t = snd (install q (installs rs t))"
  by (simp add: installs_def)

text \<open>From an empty table, an install is accepted exactly when it is newer than all before it.\<close>

lemma install_accepted:
  assumes "\<And>k. lookup t k = None"
  shows "fst (install c (installs rs t)) \<longleftrightarrow> (\<forall>b \<in> set rs. key b = key c \<longrightarrow> seq b < seq c)"
proof (cases "lookup (installs rs t) (key c)")
  case None
  then have "key b \<noteq> key c" if "b \<in> set rs" for b using installs_newest [OF that, of t] by auto
  with None show ?thesis by (auto simp: install_ok)
next
  case (Some d)
  then have d: "d \<in> set rs" "key d = key c" using installs_source [OF Some] assms by auto
  have "seq b \<le> seq d" if "b \<in> set rs" "key b = key c" for b using installs_newest [OF that(1), of t] that(2) Some by auto
  with d Some show ?thesis by (fastforce simp: install_ok)
qed

text \<open>The row a key ends with is the first of the newest ones installed for it.\<close>

lemma installs_first:
  assumes "\<And>k. lookup t k = None" and "r \<in> set rs"
  shows "\<exists>before c after. rs = before @ c # after \<and> key c = key r \<and> lookup (installs rs t) (key r) = Some c
    \<and> (\<forall>b \<in> set before. key b = key r \<longrightarrow> seq b < seq c) \<and> (\<forall>a \<in> set after. key a = key r \<longrightarrow> seq a \<le> seq c)"
  using assms(2)
proof (induction rs arbitrary: r rule: rev_induct)
  case (snoc q rs)
  show ?case
  proof (cases "fst (install q (installs rs t)) \<and> key q = key r")
    case True
    then have "\<forall>b \<in> set rs. key b = key q \<longrightarrow> seq b < seq q" using install_accepted [OF assms(1)] by blast
    with True show ?thesis by (intro exI [of _ rs] exI [of _ q] exI [of _ "[]"]) (simp add: install_lookup)
  next
    case False
    have old: "lookup (installs (rs @ [q]) t) (key r) = lookup (installs rs t) (key r)"
      using False by (auto simp: install_lookup)
    obtain r' where r': "r' \<in> set rs" "key r' = key r"
      using snoc.prems False install_accepted [OF assms(1), of q rs] by auto
    from snoc.IH [OF r'(1)] obtain before c after where c: "rs = before @ c # after" "key c = key r"
      "lookup (installs rs t) (key r) = Some c" "\<forall>b \<in> set before. key b = key r \<longrightarrow> seq b < seq c"
      "\<forall>a \<in> set after. key a = key r \<longrightarrow> seq a \<le> seq c"
      unfolding r'(2) by blast
    have "key q = key r \<Longrightarrow> seq q \<le> seq c" using False c(3) by (auto simp: install_ok)
    with c old show ?thesis by (intro exI [of _ before] exI [of _ c] exI [of _ "after @ [q]"]) auto
  qed
qed simp

text \<open>From an empty table the result does not depend on the order of the installs.\<close>

lemma installs_order:
  assumes "\<And>k. lookup t k = None" and "set rs = set rs'"
    and "\<And>a b. a \<in> set rs \<Longrightarrow> b \<in> set rs \<Longrightarrow> key a = key b \<Longrightarrow> seq a = seq b \<Longrightarrow> a = b"
  shows "lookup (installs rs t) k = lookup (installs rs' t) k"
proof -
  have half: "lookup (installs qs' t) k = Some c" if q: "lookup (installs qs t) k = Some c" and s: "set qs = set rs" "set qs' = set rs" for qs qs' c
  proof -
    have c: "c \<in> set qs" "key c = k" using installs_source [OF q] assms(1) by auto
    then obtain d where d: "lookup (installs qs' t) k = Some d" "seq c \<le> seq d"
      using installs_newest [of c qs' t] s by auto
    then have "d \<in> set qs'" "key d = k" using installs_source [OF d(1)] assms(1) by auto
    then have "seq d \<le> seq c" using installs_newest [of d qs t] s q by auto
    then show ?thesis using d c \<open>d \<in> set qs'\<close> \<open>key d = k\<close> assms(3) [of c d] s by auto
  qed
  show ?thesis
  proof (cases "lookup (installs rs t) k")
    case None
    show ?thesis
    proof (rule ccontr)
      assume "\<not> ?thesis"
      then obtain c where "lookup (installs rs' t) k = Some c" using None by (cases "lookup (installs rs' t) k") simp_all
      from half [OF this assms(2) [symmetric] refl] show False using None by simp
    qed
  next
    case (Some c)
    from half [OF this refl assms(2) [symmetric]] show ?thesis using Some by simp
  qed
qed

end

interpretation ck: checkpoint_table hm_get install_compaction_checkpoint row_key kr_source_sequence
  by unfold_locales (auto simp: install_compaction_checkpoint_def split: option.splits)

section \<open>The attempt tracker\<close>

definition tracker_inv :: "attempt_tracker \<Rightarrow> bool" where
  "tracker_inv t \<longleftrightarrow>
     0 < at_capacity t \<and> hm_wf (at_attempts t) \<and> length (at_attempts t) \<le> at_capacity t
     \<and> distinct (at_insertion_order t) \<and> set (at_insertion_order t) = fst ` set (at_attempts t)"

lemma hm_get_None_iff: "hm_get m k = None \<longleftrightarrow> k \<notin> fst ` set m"
  by (simp add: hm_get_def map_of_eq_None_iff)

lemma hm_insert_keys: "fst ` set (hm_insert k v m) = insert k (fst ` set m)"
  by (simp add: hm_insert_def dom_update [simplified dom_def])

lemma hm_length: "hm_wf m \<Longrightarrow> length m = card (fst ` set m)"
  by (metis hm_wf_def distinct_card length_map list.set_map)

lemma hm_insert_length:
  "hm_wf m \<Longrightarrow> length (hm_insert k v m) = (if k \<in> fst ` set m then length m else Suc (length m))"
  by (simp add: hm_length hm_insert_keys insert_absorb)

lemma hm_remove_keys: "hm_wf m \<Longrightarrow> fst ` set (hm_remove k m) = fst ` set m - {k}"
  by (auto simp: hm_get_None_iff [symmetric] set_eq_iff)
    (metis hm_get_None_iff hm_get_remove hm_wf_remove image_eqI fst_conv option.exhaust)+

lemma evict_inv:
  assumes "0 < capacity" and "hm_wf m" and "distinct order" and "set order = fst ` set m" and "length m \<le> capacity"
  shows "\<exists>m' order'. tracker_evict capacity m order = Some (m', order') \<and> hm_wf m' \<and> length m' < capacity
    \<and> distinct order' \<and> set order' = fst ` set m' \<and> suffix order' order"
proof (cases "capacity \<le> length m")
  case False
  then show ?thesis using assms by (cases order) auto
next
  case True
  then obtain k rest where o: "order = k # rest" using assms by (cases order) auto
  have keys: "fst ` set (hm_remove k m) = set rest" using assms(2,3,4) by (auto simp: hm_remove_keys o)
  then have "length (hm_remove k m) < capacity"
    using assms True by (simp add: hm_length o) (metis Suc_le_lessD card_insert_disjoint distinct.simps(2) list.simps(15) List.finite_set order_antisym)
  then have "tracker_evict capacity m order = Some (hm_remove k m, rest)"
    using True by (cases rest) (simp_all add: o)
  then show ?thesis using assms(2,3) keys \<open>length (hm_remove k m) < capacity\<close> by (auto simp: o suffix_def)
qed

lemma tracker_record_inv:
  assumes "tracker_inv t"
  shows "\<exists>t'. tracker_record s p m a t = Some t' \<and> tracker_inv t' \<and> at_capacity t' = at_capacity t"
proof (cases "hm_get (at_attempts t) (s, p, m)")
  case None
  obtain m' order' where e: "tracker_evict (at_capacity t) (at_attempts t) (at_insertion_order t) = Some (m', order')"
    and i: "hm_wf m'" "length m' < at_capacity t" "distinct order'" "set order' = fst ` set m'" "suffix order' (at_insertion_order t)"
    using assms evict_inv [of "at_capacity t" "at_attempts t" "at_insertion_order t"] by (auto simp: tracker_inv_def)
  have "(s, p, m) \<notin> set order'"
    using None i(5) assms set_mono_suffix by (fastforce simp: hm_get_None_iff tracker_inv_def)
  then show ?thesis
    using None assms e i by (auto simp: tracker_record_def tracker_inv_def hm_insert_keys hm_insert_length Let_def)
next
  case (Some c)
  then have "(s, p, m) \<in> fst ` set (at_attempts t)" using hm_get_None_iff [of "at_attempts t" "(s, p, m)"] by auto
  then show ?thesis
    using Some assms by (auto simp: tracker_record_def tracker_inv_def hm_insert_keys hm_insert_length insert_absorb)
qed

section \<open>Properties\<close>

text \<open>
  Compacted context survives storage: an item read from the provider's answer, written to a
  checkpoint and read again is the same item; an item the program does not interpret is kept
  whole.
\<close>

theorem compact_items_reload:
  assumes "output_of_json v = Inr item"
  shows "output_of_json (json_of_output item) = Inr item \<and> item \<in> {OutProvider v} \<union> range OutCompaction \<union> range (case_prod OutMessage)"
proof (cases item)
  case (OutMessage role c)
  then show ?thesis using output_message_roundtrip [of role c] by (auto simp: image_iff)
next
  case (OutCompaction enc)
  then show ?thesis using output_compaction_roundtrip [of enc] by simp
next
  case (OutProvider w)
  then show ?thesis using assms output_provider [of v w] by simp
qed

theorem compact_items_reload_witness:
  "output_of_json (json_of_output (OutMessage ''user'' (CompactText ''hi''))) = Inr (OutMessage ''user'' (CompactText ''hi''))
   \<and> output_of_json (JObject [(''type'', JString ''reasoning''), (''id'', JString ''rs_1'')])
       = Inr (OutProvider (JObject [(''type'', JString ''reasoning''), (''id'', JString ''rs_1'')]))"
proof -
  let ?v = "JObject [(''content'', JString ''hi''), (''role'', JString ''user''), (''type'', JString ''message'')]"
  let ?r = "JObject [(''type'', JString ''reasoning''), (''id'', JString ''rs_1'')]"
  have "output_of_json ?v = Inr (OutMessage ''user'' (CompactText ''hi''))" "output_of_json ?r = Inr (OutProvider ?r)"
    by (simp_all add: output_of_json_def json_get_def as_str_def as_object_def content_of_json_def)
  then show ?thesis using compact_items_reload by blast
qed

text \<open>The table after the installs of a list of rows, in its order.\<close>

definition install_rows :: "checkpoint_row list \<Rightarrow> (checkpoint_key, checkpoint_row) hmap" where
  "install_rows rs = fold (\<lambda>r t. snd (install_compaction_checkpoint r t)) rs []"

text \<open>
  C30. The newest checkpoint wins, and the first of equals. Whatever checkpoints are installed, in
  whatever order the writers come, each key ends with the first installed of the newest checkpoints
  for it: every earlier one is strictly older and no later one is newer. A writer is told that its
  checkpoint is installed exactly when it is newer than all before it under its key, so the second of
  two writers at one sequence is refused. When no two of a key share a sequence, the table is the same
  for every order.
\<close>

theorem newest_checkpoint_wins:
  "(\<forall>r \<in> set rs. \<exists>before c after. rs = before @ c # after \<and> row_key c = row_key r
      \<and> hm_get (install_rows rs) (row_key r) = Some c
      \<and> (\<forall>b \<in> set before. row_key b = row_key r \<longrightarrow> kr_source_sequence b < kr_source_sequence c)
      \<and> (\<forall>a \<in> set after. row_key a = row_key r \<longrightarrow> kr_source_sequence a \<le> kr_source_sequence c))
    \<and> (\<forall>c. fst (install_compaction_checkpoint c (install_rows rs)) \<longleftrightarrow>
        (\<forall>b \<in> set rs. row_key b = row_key c \<longrightarrow> kr_source_sequence b < kr_source_sequence c))
    \<and> ((\<forall>a \<in> set rs. \<forall>b \<in> set rs. row_key a = row_key b \<and> kr_source_sequence a = kr_source_sequence b \<longrightarrow> a = b) \<longrightarrow>
        (\<forall>rs' k. set rs' = set rs \<longrightarrow> hm_get (install_rows rs') k = hm_get (install_rows rs) k))"
proof -
  have rows: "install_rows rs = ck.installs rs []" for rs by (simp add: install_rows_def ck.installs_def)
  have empty: "hm_get ([] :: (checkpoint_key, checkpoint_row) hmap) k = None" for k by simp
  show ?thesis
    unfolding rows
  proof (intro conjI)
    show "\<forall>r \<in> set rs. \<exists>before c after. rs = before @ c # after \<and> row_key c = row_key r
        \<and> hm_get (ck.installs rs []) (row_key r) = Some c
        \<and> (\<forall>b \<in> set before. row_key b = row_key r \<longrightarrow> kr_source_sequence b < kr_source_sequence c)
        \<and> (\<forall>a \<in> set after. row_key a = row_key r \<longrightarrow> kr_source_sequence a \<le> kr_source_sequence c)"
      by (intro ballI ck.installs_first [OF empty])
    show "\<forall>c. fst (install_compaction_checkpoint c (ck.installs rs [])) \<longleftrightarrow>
        (\<forall>b \<in> set rs. row_key b = row_key c \<longrightarrow> kr_source_sequence b < kr_source_sequence c)"
      by (intro allI ck.install_accepted [OF empty])
    show "(\<forall>a \<in> set rs. \<forall>b \<in> set rs. row_key a = row_key b \<and> kr_source_sequence a = kr_source_sequence b \<longrightarrow> a = b) \<longrightarrow>
        (\<forall>rs' k. set rs' = set rs \<longrightarrow> hm_get (ck.installs rs' []) k = hm_get (ck.installs rs []) k)"
    proof (intro impI allI)
      fix rs' k
      assume ties: "\<forall>a \<in> set rs. \<forall>b \<in> set rs. row_key a = row_key b \<and> kr_source_sequence a = kr_source_sequence b \<longrightarrow> a = b"
        and same: "set rs' = set rs"
      show "hm_get (ck.installs rs' []) k = hm_get (ck.installs rs []) k"
        by (rule ck.installs_order [OF empty same]) (use ties same in auto)
    qed
  qed
qed

definition demo_row :: "int \<Rightarrow> checkpoint_row" where
  "demo_row n =
     \<lparr>kr_id = nat n, kr_session_id = 1, kr_source_sequence = n, kr_provider_type = ''openai'', kr_model = ''m'',
      kr_format_version = 1, kr_payload_encrypted = []\<rparr>"

text \<open>Two writers race at sequence 12 while an older checkpoint arrives: the first of the two is kept.\<close>

theorem newest_checkpoint_wins_witness:
  "hm_get (install_rows [demo_row 12, (demo_row 12)\<lparr>kr_id := 7\<rparr>, demo_row 11]) (row_key (demo_row 12)) = Some (demo_row 12)"
proof -
  let ?rs = "[demo_row 12, (demo_row 12)\<lparr>kr_id := 7\<rparr>, demo_row 11]"
  obtain before c after where "?rs = before @ c # after" "row_key c = row_key (demo_row 12)"
    "hm_get (install_rows ?rs) (row_key (demo_row 12)) = Some c"
    "\<forall>b \<in> set before. row_key b = row_key (demo_row 12) \<longrightarrow> kr_source_sequence b < kr_source_sequence c"
    "\<forall>a \<in> set after. row_key a = row_key (demo_row 12) \<longrightarrow> kr_source_sequence a \<le> kr_source_sequence c"
    using newest_checkpoint_wins [of ?rs, THEN conjunct1, rule_format, of "demo_row 12"] by auto
  then show ?thesis
    by (auto simp: Cons_eq_append_conv row_key_def demo_row_def)
qed

text \<open>
  The attempt tracker stays within its capacity for ever: recording always ends, and the table never
  holds more attempts than it has room for.
\<close>

fun record_all :: "(uuid \<times> string \<times> string \<times> proactive_attempt) list \<Rightarrow> attempt_tracker \<Rightarrow> attempt_tracker option" where
  "record_all [] t = Some t"
| "record_all ((s, p, m, a) # rest) t = Option.bind (tracker_record s p m a t) (record_all rest)"

lemma tracker_bounded: "\<exists>t. record_all xs tracker_default = Some t \<and> length (at_attempts t) \<le> DEFAULT_PROACTIVE_ATTEMPT_CAPACITY"
proof -
  have "\<exists>t'. record_all xs t = Some t' \<and> tracker_inv t' \<and> at_capacity t' = at_capacity t" if "tracker_inv t" for t
    using that
  proof (induction xs arbitrary: t)
    case (Cons x xs)
    obtain s p m a where x: "x = (s, p, m, a)" by (cases x) auto
    obtain t1 where "tracker_record s p m a t = Some t1" "tracker_inv t1" "at_capacity t1 = at_capacity t"
      using tracker_record_inv [OF Cons.prems] by blast
    then show ?case using Cons.IH [of t1] by (simp add: x)
  qed simp
  moreover have "tracker_inv tracker_default"
    by (simp add: tracker_inv_def tracker_default_def DEFAULT_PROACTIVE_ATTEMPT_CAPACITY_def)
  ultimately show ?thesis by (fastforce simp: tracker_inv_def tracker_default_def)
qed

end
