(* ===== verification/Compact_Cascade.thy ===== *)
theory Compact_Cascade
  imports Native_Compact
begin

text \<open>
  How the reason atom compacts a request (\<open>crates/engine/src/execution/reason/compaction.rs\<close>): one
  attempt at the provider's native compaction, the proactive evaluation before a call and the
  cascade after a call was refused as too large. The policy it consults is a record of
  functions; what it relies on is the locale \<open>compaction_policy\<close>, which the configured policy of
  \<open>crates/builtins/src/compaction.rs\<close> satisfies. The driver, the checkpoint store, the clock and
  the serializer are fields of the environment. Events are the data of the event requests; their
  \<open>driver\<close> field, always \<open>None\<close>, is left out. When there is a system prompt it is the first message.
\<close>

section \<open>Policies\<close>

record compaction_settings =
  se_strategy :: compaction_strategy
  se_budget_percent :: rat
  se_summarization_model :: "string option"

record compaction_policy_ops =
  cp_settings :: compaction_settings
  cp_estimate_total_tokens :: "llm_message list \<Rightarrow> nat"
  cp_total_tool_result_bytes :: "message list \<Rightarrow> nat"
  cp_should_compact_proactively :: "llm_message list \<Rightarrow> nat \<Rightarrow> bool"
  cp_should_compact_for_cost :: "nat \<Rightarrow> nat \<Rightarrow> token_usage option \<Rightarrow> bool"
  cp_apply_observation_masking :: "llm_message list \<Rightarrow> observation_masking_result"
  cp_aggressive_trim :: "llm_message list \<Rightarrow> nat \<Rightarrow> bool \<Rightarrow> llm_message list"
  cp_summarization_prompt :: string
  cp_format_messages_for_summarization :: "llm_message list \<Rightarrow> string"
  cp_compose_summary_with_recent :: "llm_message option \<Rightarrow> string \<Rightarrow> llm_message list \<Rightarrow> llm_message list"

definition configured_policy :: "rendering \<Rightarrow> runtime_compaction_config \<Rightarrow> compaction_policy_ops" where
  "configured_policy rd config =
     \<lparr>cp_settings = \<lparr>se_strategy = rc_strategy config, se_budget_percent = rc_budget_percent config,
                     se_summarization_model = sc_model (rc_summarization config)\<rparr>,
      cp_estimate_total_tokens = estimate_total_tokens (rd_json rd),
      cp_total_tool_result_bytes = total_tool_result_bytes rd,
      cp_should_compact_proactively = should_compact_proactively (rd_json rd) config,
      cp_should_compact_for_cost = (\<lambda>tokens bytes usage. should_compact_for_cost tokens bytes config usage),
      cp_apply_observation_masking = (\<lambda>ms. apply_observation_masking ms (rc_observation_masking config)),
      cp_aggressive_trim = aggressive_trim (rd_json rd),
      cp_summarization_prompt = build_summarization_prompt (rc_summarization config),
      cp_format_messages_for_summarization = format_messages_for_summarization,
      cp_compose_summary_with_recent = compose_summary_with_recent\<rparr>"

section \<open>Events\<close>

datatype compaction_reason = ProactiveBudget | RequestTooLarge | ManualCompaction

datatype compaction_trigger = ContextBudget | CostPressure

datatype compaction_skip_reason =
    StrategyExcludesNative | DriverUnsupported | CheckpointStoreUnavailable | CooldownActive
  | NativeReturnedNone | NoMaterialReduction | GuardRejected

datatype compaction_fail_stage = StageNativeCompaction | StageCheckpointInstall | StageSummarization

record compaction_step_data =
  sd_strategy :: string
  sd_messages_after :: nat
  sd_duration_ms :: nat

record event_source =
  es_model :: string
  es_provider :: "string option"
  es_source_sequence :: "int option"

record compacting_data =
  cg_reason :: compaction_reason
  cg_strategy :: string
  cg_messages_before :: nat
  cg_tokens_before :: "nat option"
  cg_bytes_before :: "nat option"
  cg_trigger :: compaction_trigger
  cg_source :: event_source
  cg_budget_remaining_tokens :: "nat option"
  cg_cache_read_tokens :: "u32 option"
  cg_cache_creation_tokens :: "u32 option"

record compacted_data =
  cd_checkpoint_id :: "string option"
  cd_strategy_used :: string
  cd_messages_before :: nat
  cd_messages_after :: nat
  cd_tokens_before :: "nat option"
  cd_tokens_after :: "nat option"
  cd_bytes_before :: "nat option"
  cd_bytes_after :: "nat option"
  cd_duration_ms :: nat
  cd_steps :: "compaction_step_data list"
  cd_trigger :: compaction_trigger
  cd_source :: event_source
  cd_budget_remaining_tokens :: "nat option"

record skipped_data =
  sk_reason :: compaction_reason
  sk_trigger :: compaction_trigger
  sk_skip_reason :: compaction_skip_reason
  sk_strategy :: string
  sk_source :: event_source
  sk_tokens_observed :: nat
  sk_budget_remaining_tokens :: "nat option"
  sk_messages_observed :: nat

record failed_data =
  fd_reason :: compaction_reason
  fd_trigger :: compaction_trigger
  fd_stage :: compaction_fail_stage
  fd_error :: string
  fd_strategy :: string
  fd_source :: event_source
  fd_tokens_before :: nat
  fd_budget_remaining_tokens :: "nat option"
  fd_messages_before :: nat

datatype compaction_event =
    ContextCompacting compacting_data
  | ContextCompacted compacted_data
  | ContextCompactionSkipped skipped_data
  | ContextCompactionFailed failed_data

record llm_compaction_info =
  ci_compacted :: bool
  ci_input_tokens_before :: "u32 option"
  ci_input_tokens_after :: "u32 option"
  ci_duration_ms :: "nat option"
  ci_cost_usd :: "f64 option"

definition compaction_info_new :: "u32 option \<Rightarrow> u32 option \<Rightarrow> nat option \<Rightarrow> f64 option \<Rightarrow> llm_compaction_info" where
  "compaction_info_new tokens_before tokens_after dur cost =
     \<lparr>ci_compacted = True, ci_input_tokens_before = tokens_before, ci_input_tokens_after = tokens_after, ci_duration_ms = dur,
      ci_cost_usd = cost\<rparr>"

text \<open>\<open>u32::try_from(..).ok()\<close>.\<close>

definition to_u32 :: "nat \<Rightarrow> u32 option" where
  "to_u32 n = (if n < 2 ^ 32 then Some (as_u32 n) else None)"

section \<open>State and environment\<close>

record call_config =
  lc_previous_response_id :: "string option"
  lc_provider_opaque_context :: "provider_opaque_context option"
  lc_reasoning_state :: "reasoning_state option"

record compact_request =
  cq_reasoning_state :: "reasoning_state option"
  cq_model :: string
  cq_input :: "compact_input_item list"
  cq_previous_response_id :: "string option"
  cq_instructions :: "string option"

record cascade =
  ca_messages :: "llm_message list"
  ca_config :: call_config
  ca_events :: "compaction_event list"
  ca_checkpoints :: "compaction_checkpoint list"
  ca_attempts :: "proactive_attempt list"

text \<open>
  The environment: the policy, the driver, the checkpoint store (when there is one), the turn the
  request belongs to, and what is read from the clock and the serializers.
\<close>

record cascade_env =
  en_policy :: compaction_policy_ops
  en_supports_compact :: bool
  en_compact :: "compact_request \<Rightarrow> string + compact_response option"
  en_effective_context_window :: "nat option"
  en_profile_context :: "nat option"
  en_install :: "(compaction_checkpoint \<Rightarrow> string + bool) option"
  en_get_attempt :: "string + proactive_attempt option"
  en_session_id :: uuid
  en_source_sequence :: "int option"
  en_provider_type :: string
  en_model :: string
  en_system_prompt :: "string option"
  en_stateful_response_continuation :: bool
  en_checkpoint_restored :: bool
  en_checkpoint_suffix_message_count :: nat
  en_raw_tool_result_bytes :: nat
  en_prior_usage :: "token_usage option"
  en_summarization_model_fallback :: string
  en_summarize :: "llm_message list \<Rightarrow> string \<Rightarrow> string + string"
  en_json_text :: "json \<Rightarrow> string"
  en_input_bytes :: "compact_input_item list \<Rightarrow> nat option"
  en_output_bytes :: "compact_output_item list \<Rightarrow> nat option"
  en_sha256 :: "compact_input_item list \<Rightarrow> nat"
  en_now_v7 :: uuid
  en_uuid_text :: "uuid \<Rightarrow> string"
  en_elapsed_ms :: "string \<Rightarrow> nat"

definition event_source_of :: "cascade_env \<Rightarrow> event_source" where
  "event_source_of env =
     \<lparr>es_model = en_model env, es_provider = Some (en_provider_type env), es_source_sequence = en_source_sequence env\<rparr>"

definition emit :: "compaction_event \<Rightarrow> cascade \<Rightarrow> cascade" where
  "emit e s = s\<lparr>ca_events := ca_events s @ [e]\<rparr>"

definition CHECKPOINT_REARM_MIN_SUFFIX_MESSAGES :: nat where "CHECKPOINT_REARM_MIN_SUFFIX_MESSAGES = 4"
definition PROACTIVE_RETRY_MIN_TOKEN_GROWTH :: nat where "PROACTIVE_RETRY_MIN_TOKEN_GROWTH = 4096"
definition PROACTIVE_RETRY_GROWTH_DIVISOR :: nat where "PROACTIVE_RETRY_GROWTH_DIVISOR = 20"

section \<open>Native compaction\<close>

definition opaque_input :: "provider_opaque_context option \<Rightarrow> compact_input_item list" where
  "opaque_input c = (case c of Some (OpenResponsesCompact output _) \<Rightarrow> map input_of_output output | None \<Rightarrow> [])"

definition proactive_source_fingerprint :: "cascade_env \<Rightarrow> provider_opaque_context option \<Rightarrow> llm_message list \<Rightarrow> nat" where
  "proactive_source_fingerprint env c messages =
     en_sha256 env (opaque_input c @ messages_to_compact_input (en_json_text env) messages)"

definition materially_reduced :: "nat \<Rightarrow> nat \<Rightarrow> bool" where
  "materially_reduced n m =
     (let five_percent = (n + 19) div 20;
          required_reduction = min (max five_percent 32) n
      in m < n \<and> required_reduction \<le> n - m)"

record applied_native =
  ap_checkpoint_id :: "string option"
  ap_output_items_after :: nat
  ap_tokens_before :: "nat option"
  ap_tokens_after :: "nat option"
  ap_bytes_before :: "nat option"
  ap_bytes_after :: "nat option"
  ap_duration_ms :: nat
  ap_cost_usd :: "f64 option"

text \<open>Where a pending effort update goes: behind the last assistant item of the conversation.\<close>

definition insert_pending :: "reasoning_effort \<Rightarrow> compact_input_item list \<Rightarrow> compact_input_item list" where
  "insert_pending effort items =
     (let n = length (dropWhile (\<lambda>i. \<not> is_assistant_item i) (rev items))
      in take n items @ ConfigurationUpdate effort # drop n items)"

definition is_update :: "compact_input_item \<Rightarrow> bool" where
  "is_update item = (case item of ConfigurationUpdate _ \<Rightarrow> True | _ \<Rightarrow> False)"

text \<open>Of adjacent updates only the last is kept.\<close>

definition coalesce_step :: "compact_input_item list \<Rightarrow> compact_input_item \<Rightarrow> compact_input_item list" where
  "coalesce_step input item =
     (if is_update item \<and> input \<noteq> [] \<and> is_update (last input) then butlast input @ [item] else input @ [item])"

definition native_input :: "cascade_env \<Rightarrow> cascade \<Rightarrow> compact_input_item list" where
  "native_input env s =
     (let conf = ca_config s;
          messages_to_compact = (if en_system_prompt env \<noteq> None then drop 1 (ca_messages s) else ca_messages s);
          opaque = opaque_input (lc_provider_opaque_context conf)
            @ (case (lc_reasoning_state conf, lc_provider_opaque_context conf) of
                 (Some _, Some (OpenResponsesCompact _ (Some state))) \<Rightarrow>
                   (case rs_effective state of Some effort \<Rightarrow> [ConfigurationUpdate effort] | None \<Rightarrow> [])
               | _ \<Rightarrow> []);
          fresh = messages_to_compact_input (en_json_text env) messages_to_compact;
          suffix = (case Option.bind (lc_reasoning_state conf) rs_pending of
                      Some effort \<Rightarrow> insert_pending effort fresh
                    | None \<Rightarrow> fresh)
      in foldl coalesce_step [] (opaque @ suffix))"

definition reduced_by :: "nat option \<Rightarrow> nat option \<Rightarrow> nat option \<Rightarrow> nat option \<Rightarrow> bool" where
  "reduced_by tokens_before tokens_after bytes_before bytes_after =
     (case (tokens_before, tokens_after) of
        (Some n, Some m) \<Rightarrow> materially_reduced n m
      | _ \<Rightarrow> (case (bytes_before, bytes_after) of
                (Some n, Some m) \<Rightarrow> materially_reduced n m
              | _ \<Rightarrow> False))"

definition native_checkpoint :: "cascade_env \<Rightarrow> int \<Rightarrow> provider_opaque_context \<Rightarrow> compaction_checkpoint" where
  "native_checkpoint env source_sequence context =
     \<lparr>ck_id = en_now_v7 env, ck_session_id = en_session_id env, ck_source_sequence = source_sequence,
      ck_provider_type = en_provider_type env, ck_model = en_model env,
      ck_format_version = COMPACTION_CHECKPOINT_FORMAT_VERSION, ck_payload = ProviderOpaque context\<rparr>"

text \<open>Installing the checkpoint: the id it got, or the error that ends the attempt, as it is displayed.\<close>

definition install_native :: "cascade_env \<Rightarrow> provider_opaque_context \<Rightarrow> cascade \<Rightarrow> (string + string option) \<times> cascade" where
  "install_native env context s =
     (case (en_install env, en_source_sequence env) of
        (Some install, Some source_sequence) \<Rightarrow>
          let c = native_checkpoint env source_sequence context in
          (case install c of
             Inl e \<Rightarrow> (Inl e, s)
           | Inr False \<Rightarrow> (Inl ''Message store error: a newer compaction checkpoint was installed concurrently'', s)
           | Inr True \<Rightarrow> (Inr (Some (en_uuid_text env (ck_id c))), s\<lparr>ca_checkpoints := ca_checkpoints s @ [c]\<rparr>))
      | _ \<Rightarrow> (Inr None, s))"

definition reset_effort :: "reasoning_state \<Rightarrow> reasoning_state" where
  "reset_effort st = st\<lparr>rs_pending := rs_effective st\<rparr>"

definition install_context :: "provider_opaque_context \<Rightarrow> cascade \<Rightarrow> cascade" where
  "install_context context s =
     s\<lparr>ca_config := (ca_config s)\<lparr>lc_previous_response_id := None, lc_provider_opaque_context := Some context,
          lc_reasoning_state := map_option reset_effort (lc_reasoning_state (ca_config s))\<rparr>,
       ca_messages := filter (\<lambda>m. l_role m = LSystem) (ca_messages s)\<rparr>"

definition native_request :: "cascade_env \<Rightarrow> cascade \<Rightarrow> compact_request" where
  "native_request env s =
     \<lparr>cq_reasoning_state = lc_reasoning_state (ca_config s), cq_model = en_model env, cq_input = native_input env s,
      cq_previous_response_id = None, cq_instructions = en_system_prompt env\<rparr>"

text \<open>The measurements of a response, before a checkpoint is installed.\<close>

definition native_measured :: "cascade_env \<Rightarrow> bool \<Rightarrow> cascade \<Rightarrow> compact_response \<Rightarrow> applied_native" where
  "native_measured env stateful s response =
     (let conf = ca_config s;
          messages_to_compact = (if en_system_prompt env \<noteq> None then drop 1 (ca_messages s) else ca_messages s);
          has_prior = (lc_provider_opaque_context conf \<noteq> None);
          local_tokens_before = (if \<not> stateful \<and> \<not> has_prior
            then Some (cp_estimate_total_tokens (en_policy env) messages_to_compact) else None)
      in \<lparr>ap_checkpoint_id = None, ap_output_items_after = length (cr_output response),
          ap_tokens_before = (case Option.bind (cr_usage response) cu_input_tokens of
                                Some n \<Rightarrow> Some (unat n) | None \<Rightarrow> local_tokens_before),
          ap_tokens_after = map_option unat (Option.bind (cr_usage response) cu_output_tokens),
          ap_bytes_before = (if \<not> stateful \<or> has_prior \<or> lc_reasoning_state conf \<noteq> None
                             then en_input_bytes env (native_input env s) else None),
          ap_bytes_after = en_output_bytes env (cr_output response),
          ap_duration_ms = en_elapsed_ms env ''native'', ap_cost_usd = Option.bind (cr_usage response) cu_cost\<rparr>)"

definition try_apply_native_compaction ::
  "cascade_env \<Rightarrow> bool \<Rightarrow> cascade \<Rightarrow> (string + applied_native option) \<times> cascade" where
  "try_apply_native_compaction env stateful s =
     (if \<not> en_supports_compact env then (Inr None, s)
      else case en_compact env (native_request env s) of
             Inl _ \<Rightarrow> (Inr None, s)
           | Inr None \<Rightarrow> (Inr None, s)
           | Inr (Some response) \<Rightarrow>
               let ap = native_measured env stateful s response;
                   context = OpenResponsesCompact (cr_output response) (lc_reasoning_state (ca_config s))
               in if \<not> reduced_by (ap_tokens_before ap) (ap_tokens_after ap) (ap_bytes_before ap) (ap_bytes_after ap)
                  then (Inr None, s)
                  else case install_native env context s of
                         (Inl e, s') \<Rightarrow> (Inl e, s')
                       | (Inr checkpoint_id, s') \<Rightarrow>
                           (Inr (Some (ap\<lparr>ap_checkpoint_id := checkpoint_id\<rparr>)), install_context context s'))"

section \<open>Before a call\<close>

definition proactive_trigger :: "bool \<Rightarrow> bool \<Rightarrow> compaction_trigger" where
  "proactive_trigger window_pressure cost_pressure =
     (if cost_pressure \<and> \<not> window_pressure then CostPressure else ContextBudget)"

definition proactive_skip_reason :: "bool \<Rightarrow> bool \<Rightarrow> bool \<Rightarrow> compaction_skip_reason" where
  "proactive_skip_reason native_strategy supports_compact has_checkpoint_store =
     (if \<not> native_strategy then StrategyExcludesNative
      else if \<not> supports_compact then DriverUnsupported
      else if \<not> has_checkpoint_store then CheckpointStoreUnavailable
      else CooldownActive)"

definition context_window :: "cascade_env \<Rightarrow> nat" where
  "context_window env =
     (case en_effective_context_window env of
        Some n \<Rightarrow> n
      | None \<Rightarrow> (case en_profile_context env of Some n \<Rightarrow> n | None \<Rightarrow> 128000))"

definition budget_tokens :: "cascade_env \<Rightarrow> nat" where
  "budget_tokens env = nat \<lfloor>rat_of_nat (context_window env) * se_budget_percent (cp_settings (en_policy env))\<rfloor>"

definition checkpoint_rearmed :: "cascade_env \<Rightarrow> bool" where
  "checkpoint_rearmed env \<longleftrightarrow>
     \<not> en_checkpoint_restored env \<or> CHECKPOINT_REARM_MIN_SUFFIX_MESSAGES \<le> en_checkpoint_suffix_message_count env"

definition native_strategy :: "cascade_env \<Rightarrow> bool" where
  "native_strategy env \<longleftrightarrow> se_strategy (cp_settings (en_policy env)) \<in> {StrategyAuto, StrategyNative}"

definition durable_source :: "cascade_env \<Rightarrow> bool" where
  "durable_source env \<longleftrightarrow> en_install env \<noteq> None \<and> en_source_sequence env \<noteq> None"

definition attempt_rearmed :: "cascade_env \<Rightarrow> cascade \<Rightarrow> int \<Rightarrow> nat \<Rightarrow> proactive_attempt \<Rightarrow> bool" where
  "attempt_rearmed env s source_sequence estimated attempt =
     (if source_sequence < pa_source_sequence attempt \<or> length (ca_messages s) < pa_input_message_count attempt then True
      else if proactive_source_fingerprint env (lc_provider_opaque_context (ca_config s))
                (take (pa_input_message_count attempt) (ca_messages s)) \<noteq> pa_source_fingerprint attempt then True
      else if source_sequence = pa_source_sequence attempt then False
      else max PROACTIVE_RETRY_MIN_TOKEN_GROWTH (pa_estimated_input_tokens attempt div PROACTIVE_RETRY_GROWTH_DIVISOR)
             \<le> estimated - pa_estimated_input_tokens attempt)"

definition native_attempt_rearmed :: "cascade_env \<Rightarrow> cascade \<Rightarrow> bool" where
  "native_attempt_rearmed env s =
     (case (en_install env, en_source_sequence env) of
        (Some _, Some source_sequence) \<Rightarrow>
          (case en_get_attempt env of
             Inr None \<Rightarrow> True
           | Inr (Some attempt) \<Rightarrow>
               attempt_rearmed env s source_sequence (cp_estimate_total_tokens (en_policy env) (ca_messages s)) attempt
           | Inl _ \<Rightarrow> True)
      | _ \<Rightarrow> True)"

definition window_pressure :: "cascade_env \<Rightarrow> cascade \<Rightarrow> bool" where
  "window_pressure env s = cp_should_compact_proactively (en_policy env) (ca_messages s) (context_window env)"

definition cost_pressure :: "cascade_env \<Rightarrow> cascade \<Rightarrow> bool" where
  "cost_pressure env s =
     cp_should_compact_for_cost (en_policy env) (cp_estimate_total_tokens (en_policy env) (ca_messages s))
       (en_raw_tool_result_bytes env) (en_prior_usage env)"

definition local_pressure :: "cascade_env \<Rightarrow> cascade \<Rightarrow> bool" where
  "local_pressure env s \<longleftrightarrow>
     (\<not> en_stateful_response_continuation env \<or> lc_reasoning_state (ca_config s) \<noteq> None)
     \<and> checkpoint_rearmed env \<and> (window_pressure env s \<or> cost_pressure env s)"

definition should_attempt :: "cascade_env \<Rightarrow> cascade \<Rightarrow> bool" where
  "should_attempt env s \<longleftrightarrow>
     native_strategy env \<and> en_supports_compact env \<and> durable_source env \<and> native_attempt_rearmed env s \<and> local_pressure env s"

text \<open>The native attempt, from the event that opens it.\<close>

definition proactive_native :: "cascade_env \<Rightarrow> cascade \<Rightarrow> (string + applied_native option) \<times> cascade" where
  "proactive_native env s0 =
     (let estimated = cp_estimate_total_tokens (en_policy env) (ca_messages s0);
          trigger = proactive_trigger (window_pressure env s0) (cost_pressure env s0);
          remaining = context_window env - estimated;
          strategy = strategy_display (se_strategy (cp_settings (en_policy env)));
          n = length (ca_messages s0);
          attempt = \<lparr>pa_source_sequence = the (en_source_sequence env), pa_estimated_input_tokens = estimated,
                     pa_input_message_count = n,
                     pa_source_fingerprint = proactive_source_fingerprint env (lc_provider_opaque_context (ca_config s0)) (ca_messages s0)\<rparr>;
          s1 = s0\<lparr>ca_attempts := ca_attempts s0 @ [attempt]\<rparr>;
          s2 = emit (ContextCompacting
                 \<lparr>cg_reason = ProactiveBudget, cg_strategy = strategy, cg_messages_before = n, cg_tokens_before = Some estimated,
                  cg_bytes_before = None, cg_trigger = trigger, cg_source = event_source_of env,
                  cg_budget_remaining_tokens = Some remaining,
                  cg_cache_read_tokens = Option.bind (en_prior_usage env) tu_cache_read_tokens,
                  cg_cache_creation_tokens = Option.bind (en_prior_usage env) tu_cache_creation_tokens\<rparr>) s1
      in case try_apply_native_compaction env False s2 of
           (Inl e, s3) \<Rightarrow>
             (Inl e, emit (ContextCompactionFailed
                \<lparr>fd_reason = ProactiveBudget, fd_trigger = trigger, fd_stage = StageCheckpointInstall, fd_error = e,
                 fd_strategy = strategy, fd_source = event_source_of env, fd_tokens_before = estimated,
                 fd_budget_remaining_tokens = Some remaining, fd_messages_before = n\<rparr>) s3)
         | (Inr None, s3) \<Rightarrow> (Inr None, s3)
         | (Inr (Some ap), s3) \<Rightarrow>
             (Inr (Some ap), emit (ContextCompacted
                \<lparr>cd_checkpoint_id = ap_checkpoint_id ap, cd_strategy_used = ''native'', cd_messages_before = n,
                 cd_messages_after = ap_output_items_after ap, cd_tokens_before = ap_tokens_before ap,
                 cd_tokens_after = ap_tokens_after ap, cd_bytes_before = ap_bytes_before ap, cd_bytes_after = ap_bytes_after ap,
                 cd_duration_ms = ap_duration_ms ap,
                 cd_steps = [\<lparr>sd_strategy = ''native'', sd_messages_after = ap_output_items_after ap,
                              sd_duration_ms = ap_duration_ms ap\<rparr>],
                 cd_trigger = trigger, cd_source = event_source_of env,
                 cd_budget_remaining_tokens = (case ap_tokens_after ap of Some a \<Rightarrow> Some (context_window env - a)
                                               | None \<Rightarrow> Some remaining)\<rparr>) s3))"

text \<open>Masking the conversation behind the system prompt.\<close>

definition mask_conversation :: "cascade_env \<Rightarrow> llm_message list \<Rightarrow> nat \<times> llm_message list" where
  "mask_conversation env messages =
     (let has_system = (en_system_prompt env \<noteq> None);
          masked = cp_apply_observation_masking (en_policy env) (if has_system then drop 1 messages else messages)
      in if 0 < or_masked_count masked
         then (or_masked_count masked, (if has_system then take 1 messages else []) @ or_messages masked)
         else (0, messages))"

text \<open>Without native compaction: masking, then trimming what is still over the budget.\<close>

definition fallback_view :: "cascade_env \<Rightarrow> llm_message list \<Rightarrow> string option \<times> llm_message list" where
  "fallback_view env messages =
     (let (masked_count, ms) =
            (if se_strategy (cp_settings (en_policy env)) \<in> {StrategyAuto, StrategyObservationMasking}
             then mask_conversation env messages else (0, messages))
      in if budget_tokens env < cp_estimate_total_tokens (en_policy env) ms
         then (Some (if 0 < masked_count then ''masking+trim'' else ''trim''),
               cp_aggressive_trim (en_policy env) ms (budget_tokens env) (en_system_prompt env \<noteq> None))
         else (if 0 < masked_count then Some ''masking'' else None, ms))"

definition proactive_fallback :: "cascade_env \<Rightarrow> cascade \<Rightarrow> string option \<times> cascade" where
  "proactive_fallback env s = (let (strategy, ms) = fallback_view env (ca_messages s) in (strategy, s\<lparr>ca_messages := ms\<rparr>))"

definition info_of_applied :: "applied_native \<Rightarrow> llm_compaction_info" where
  "info_of_applied ap =
     compaction_info_new (Option.bind (ap_tokens_before ap) to_u32) (Option.bind (ap_tokens_after ap) to_u32)
       (Some (ap_duration_ms ap)) (ap_cost_usd ap)"

definition proactive_skipped :: "cascade_env \<Rightarrow> cascade \<Rightarrow> compaction_skip_reason \<Rightarrow> nat \<Rightarrow> compaction_event" where
  "proactive_skipped env s0 skip_reason messages_observed =
     (let estimated = cp_estimate_total_tokens (en_policy env) (ca_messages s0) in
      ContextCompactionSkipped
        \<lparr>sk_reason = ProactiveBudget, sk_trigger = proactive_trigger (window_pressure env s0) (cost_pressure env s0),
         sk_skip_reason = skip_reason, sk_strategy = strategy_display (se_strategy (cp_settings (en_policy env))),
         sk_source = event_source_of env, sk_tokens_observed = estimated,
         sk_budget_remaining_tokens = Some (context_window env - estimated), sk_messages_observed = messages_observed\<rparr>)"

definition proactive_installed :: "cascade_env \<Rightarrow> cascade \<Rightarrow> string \<Rightarrow> llm_message list \<Rightarrow> compaction_event" where
  "proactive_installed env s0 strategy messages =
     (let after = cp_estimate_total_tokens (en_policy env) messages in
      ContextCompacted
        \<lparr>cd_checkpoint_id = None, cd_strategy_used = strategy, cd_messages_before = length (ca_messages s0),
         cd_messages_after = length messages,
         cd_tokens_before = Some (cp_estimate_total_tokens (en_policy env) (ca_messages s0)), cd_tokens_after = Some after,
         cd_bytes_before = None, cd_bytes_after = None, cd_duration_ms = 0,
         cd_steps = [\<lparr>sd_strategy = strategy, sd_messages_after = length messages, sd_duration_ms = 0\<rparr>],
         cd_trigger = proactive_trigger (window_pressure env s0) (cost_pressure env s0), cd_source = event_source_of env,
         cd_budget_remaining_tokens = Some (context_window env - after)\<rparr>)"

definition apply_proactive_compaction ::
  "cascade_env \<Rightarrow> cascade \<Rightarrow> (string + llm_compaction_info option) \<times> cascade" where
  "apply_proactive_compaction env s0 =
     (let (native, s1) =
            (if should_attempt env s0 then proactive_native env s0
             else (Inr None,
                   if local_pressure env s0
                   then emit (proactive_skipped env s0
                          (proactive_skip_reason (native_strategy env) (en_supports_compact env) (durable_source env))
                          (length (ca_messages s0))) s0
                   else s0))
      in case native of
           Inl e \<Rightarrow> (Inl e, s1)
         | Inr applied \<Rightarrow>
             (let (fallback, s2) =
                    (if local_pressure env s0 \<and> applied = None then proactive_fallback env s1 else (None, s1));
                  s3 = (case fallback of
                          Some strategy \<Rightarrow> emit (proactive_installed env s0 strategy (ca_messages s2)) s2
                        | None \<Rightarrow> if should_attempt env s0 \<and> applied = None
                                  then emit (proactive_skipped env s0 NativeReturnedNone (length (ca_messages s2))) s2
                                  else s2)
              in (Inr (map_option info_of_applied applied), s3)))"

section \<open>After a refused call\<close>

text \<open>What the cascade has gathered so far: the strategies that ran, their steps and the measurements.\<close>

record cascade_run =
  ru_steps :: "compaction_step_data list"
  ru_strategies_used :: "string list"
  ru_checkpoint_id :: "string option"
  ru_generation_info :: "llm_compaction_info option"
  ru_tokens_before :: "nat option"
  ru_tokens_after :: "nat option"
  ru_bytes_before :: "nat option"
  ru_bytes_after :: "nat option"

definition run_started :: "cascade_env \<Rightarrow> cascade \<Rightarrow> cascade_run" where
  "run_started env s =
     \<lparr>ru_steps = [], ru_strategies_used = [], ru_checkpoint_id = None, ru_generation_info = None,
      ru_tokens_before = Some (cp_estimate_total_tokens (en_policy env) (ca_messages s)), ru_tokens_after = None,
      ru_bytes_before = None, ru_bytes_after = None\<rparr>"

definition push_step :: "string \<Rightarrow> nat \<Rightarrow> nat \<Rightarrow> cascade_run \<Rightarrow> cascade_run" where
  "push_step strategy messages_after duration r =
     r\<lparr>ru_strategies_used := ru_strategies_used r @ [strategy],
       ru_steps := ru_steps r @ [\<lparr>sd_strategy = strategy, sd_messages_after = messages_after, sd_duration_ms = duration\<rparr>]\<rparr>"

definition reactive_compacting :: "cascade_env \<Rightarrow> cascade \<Rightarrow> compaction_event" where
  "reactive_compacting env s =
     ContextCompacting
       \<lparr>cg_reason = RequestTooLarge, cg_strategy = strategy_display (se_strategy (cp_settings (en_policy env))),
        cg_messages_before = length (ca_messages s),
        cg_tokens_before = Some (cp_estimate_total_tokens (en_policy env) (ca_messages s)), cg_bytes_before = None,
        cg_trigger = ContextBudget, cg_source = event_source_of env, cg_budget_remaining_tokens = None,
        cg_cache_read_tokens = None, cg_cache_creation_tokens = None\<rparr>"

definition reactive_skipped :: "cascade_env \<Rightarrow> compaction_skip_reason \<Rightarrow> cascade_run \<Rightarrow> cascade \<Rightarrow> compaction_event" where
  "reactive_skipped env skip_reason r s =
     ContextCompactionSkipped
       \<lparr>sk_reason = RequestTooLarge, sk_trigger = ContextBudget, sk_skip_reason = skip_reason,
        sk_strategy = strategy_display (se_strategy (cp_settings (en_policy env))), sk_source = event_source_of env,
        sk_tokens_observed = (case ru_tokens_before r of Some n \<Rightarrow> n | None \<Rightarrow> 0), sk_budget_remaining_tokens = None,
        sk_messages_observed = length (ca_messages s)\<rparr>"

definition reactive_failed :: "cascade_env \<Rightarrow> string \<Rightarrow> nat \<Rightarrow> cascade_run \<Rightarrow> compaction_event" where
  "reactive_failed env e messages_before r =
     ContextCompactionFailed
       \<lparr>fd_reason = RequestTooLarge, fd_trigger = ContextBudget, fd_stage = StageCheckpointInstall, fd_error = e,
        fd_strategy = strategy_display (se_strategy (cp_settings (en_policy env))), fd_source = event_source_of env,
        fd_tokens_before = (case ru_tokens_before r of Some n \<Rightarrow> n | None \<Rightarrow> 0), fd_budget_remaining_tokens = None,
        fd_messages_before = messages_before\<rparr>"

definition run_masking :: "cascade_env \<Rightarrow> cascade_run \<times> cascade \<Rightarrow> cascade_run \<times> cascade" where
  "run_masking env = (\<lambda>(r, s).
     if se_strategy (cp_settings (en_policy env)) \<in> {StrategyAuto, StrategyObservationMasking} then
       (let (n, ms) = mask_conversation env (ca_messages s) in
        if 0 < n
        then (push_step ''observation_masking'' (length ms) (en_elapsed_ms env ''observation_masking'') r, s\<lparr>ca_messages := ms\<rparr>)
        else (r, s))
     else (r, s))"

definition record_native :: "applied_native \<Rightarrow> cascade_run \<Rightarrow> cascade_run" where
  "record_native ap r =
     push_step ''native'' (ap_output_items_after ap) (ap_duration_ms ap)
       (r\<lparr>ru_generation_info := Some (info_of_applied ap), ru_checkpoint_id := ap_checkpoint_id ap,
          ru_tokens_before := ap_tokens_before ap, ru_tokens_after := ap_tokens_after ap,
          ru_bytes_before := ap_bytes_before ap, ru_bytes_after := ap_bytes_after ap\<rparr>)"

definition run_native :: "cascade_env \<Rightarrow> cascade_run \<times> cascade \<Rightarrow> (string + cascade_run) \<times> cascade" where
  "run_native env = (\<lambda>(r, s).
     if native_strategy env \<and> en_supports_compact env then
       (case try_apply_native_compaction env (en_stateful_response_continuation env) s of
          (Inl e, s') \<Rightarrow> (Inl e, s')
        | (Inr None, s') \<Rightarrow> (Inr r, s')
        | (Inr (Some ap), s') \<Rightarrow> (Inr (record_native ap r), s'))
     else (Inr r, s))"

text \<open>All but the ten most recent messages go to the summarizing model; its failure is logged only.\<close>

definition summary_request :: "cascade_env \<Rightarrow> llm_message list \<Rightarrow> llm_message list" where
  "summary_request env to_summarize =
     [llm_text LSystem (cp_summarization_prompt (en_policy env)),
      llm_text LUser (cp_format_messages_for_summarization (en_policy env) to_summarize)]"

definition run_summarization :: "cascade_env \<Rightarrow> cascade_run \<times> cascade \<Rightarrow> cascade_run \<times> cascade" where
  "run_summarization env = (\<lambda>(r, s).
     if se_strategy (cp_settings (en_policy env)) \<in> {StrategyAuto, StrategySummarization}
        \<and> ''native'' \<notin> set (ru_strategies_used r) then
       (let has_system = (en_system_prompt env \<noteq> None);
            conversation = (if has_system then drop 1 (ca_messages s) else ca_messages s);
            keep_recent = min 10 (length conversation);
            to_summarize = take (length conversation - keep_recent) conversation;
            recent = drop (length conversation - keep_recent) conversation;
            model = (case se_summarization_model (cp_settings (en_policy env)) of
                       Some m \<Rightarrow> m | None \<Rightarrow> en_summarization_model_fallback env)
        in if to_summarize = [] then (r, s)
           else case en_summarize env (summary_request env to_summarize) model of
                  Inl _ \<Rightarrow> (r, s)
                | Inr text \<Rightarrow>
                    let ms = cp_compose_summary_with_recent (en_policy env)
                               (if has_system then Some (hd (ca_messages s)) else None) text recent
                    in (push_step ''summarization'' (length ms) (en_elapsed_ms env ''summarization'') r,
                        s\<lparr>ca_messages := ms\<rparr>))
     else (r, s))"

definition run_trim :: "cascade_env \<Rightarrow> nat \<Rightarrow> cascade_run \<times> cascade \<Rightarrow> cascade_run \<times> cascade" where
  "run_trim env messages_before = (\<lambda>(r, s).
     if ru_strategies_used r = [] \<or> messages_before div 2 < length (ca_messages s) then
       (let target = cp_estimate_total_tokens (en_policy env) (ca_messages s) div 2;
            trimmed = cp_aggressive_trim (en_policy env) (ca_messages s) target (en_system_prompt env \<noteq> None)
        in if length trimmed < length (ca_messages s)
           then (push_step ''aggressive_trim'' (length trimmed) (en_elapsed_ms env ''aggressive_trim'') r,
                 s\<lparr>ca_messages := trimmed\<rparr>)
           else (r, s))
     else (r, s))"

definition measured :: "cascade_env \<Rightarrow> cascade \<Rightarrow> cascade_run \<Rightarrow> cascade_run" where
  "measured env s r =
     (if ru_tokens_after r = None
      then r\<lparr>ru_tokens_after := Some (cp_estimate_total_tokens (en_policy env) (ca_messages s))\<rparr> else r)"

definition reactive_compacted :: "cascade_env \<Rightarrow> nat \<Rightarrow> cascade_run \<Rightarrow> cascade \<Rightarrow> compaction_event" where
  "reactive_compacted env messages_before r s =
     ContextCompacted
       \<lparr>cd_checkpoint_id = (if \<exists>st \<in> set (ru_strategies_used r). st \<noteq> ''observation_masking'' then ru_checkpoint_id r else None),
        cd_strategy_used = join_text ''+'' (ru_strategies_used r), cd_messages_before = messages_before,
        cd_messages_after = length (ca_messages s), cd_tokens_before = ru_tokens_before r, cd_tokens_after = ru_tokens_after r,
        cd_bytes_before = ru_bytes_before r, cd_bytes_after = ru_bytes_after r, cd_duration_ms = en_elapsed_ms env ''cascade'',
        cd_steps = ru_steps r, cd_trigger = ContextBudget, cd_source = event_source_of env,
        cd_budget_remaining_tokens = None\<rparr>"

definition reactive_finish ::
  "cascade_env \<Rightarrow> nat \<Rightarrow> cascade_run \<Rightarrow> cascade \<Rightarrow> llm_compaction_info option option \<times> cascade" where
  "reactive_finish env messages_before r0 s =
     (let r = measured env s r0 in
      if \<not> reduced_by (ru_tokens_before r) (ru_tokens_after r) (ru_bytes_before r) (ru_bytes_after r)
      then (None, emit (reactive_skipped env NoMaterialReduction r s) s)
      else (Some (ru_generation_info r),
            if ru_strategies_used r \<noteq> [] then emit (reactive_compacted env messages_before r s) s else s))"

text \<open>
  The whole cascade. The value is \<open>None\<close> when the request could not be reduced, so that the error of
  the provider stands; with a reasoning state only native compaction counts.
\<close>

definition apply_reactive_compaction ::
  "cascade_env \<Rightarrow> cascade \<Rightarrow> (string + llm_compaction_info option option) \<times> cascade" where
  "apply_reactive_compaction env s0 =
     (let messages_before = length (ca_messages s0);
          (r1, s1) = run_masking env (run_started env s0, emit (reactive_compacting env s0) s0)
      in case run_native env (r1, s1) of
           (Inl e, s2) \<Rightarrow> (Inl e, emit (reactive_failed env e messages_before r1) s2)
         | (Inr r2, s2) \<Rightarrow>
             if lc_reasoning_state (ca_config s2) \<noteq> None \<and> ''native'' \<notin> set (ru_strategies_used r2)
             then (Inr None, emit (reactive_skipped env GuardRejected r2 s2) s2)
             else let (r3, s3) = run_summarization env (r2, s2);
                      (r4, s4) = run_trim env messages_before (r3, s3);
                      (result, s5) = reactive_finish env messages_before r4 s4
                  in (Inr result, s5))"

section \<open>What a policy promises\<close>

text \<open>The outline of a message: its role, the call it answers and its phase.\<close>

definition outline :: "llm_message \<Rightarrow> llm_role \<times> string option \<times> execution_phase option" where
  "outline m = (l_role m, l_tool_call_id m, l_phase m)"

lemma outline_without_calls [simp]: "outline (without_calls m) = outline m"
  by (simp add: outline_def without_calls_def)

lemma map_outline_without_calls [simp]: "map outline (map without_calls ms) = map outline ms"
  by simp

lemma shape_outline: "map shape xs = map shape ys \<Longrightarrow> map outline xs = map outline ys"
proof -
  have "map outline zs = map (\<lambda>(a, b, c, d). (a, c, d)) (map shape zs)" for zs by (simp add: outline_def shape_def)
  then show "map shape xs = map shape ys \<Longrightarrow> map outline xs = map outline ys" by metis
qed

locale compaction_policy =
  fixes P :: compaction_policy_ops
  assumes trim_fits: "cp_estimate_total_tokens P (cp_aggressive_trim P ms target hs) \<le> target"
    and trim_outline: "subseq (map outline (cp_aggressive_trim P ms target hs)) (map outline ms)"
    and mask_outline: "map outline (or_messages (cp_apply_observation_masking P ms)) = map outline ms"
begin

lemma mask_conversation_outline:
  assumes "en_policy env = P" shows "map outline (snd (mask_conversation env ms)) = map outline ms"
proof -
  have "map outline (take 1 ms) @ map outline (or_messages (cp_apply_observation_masking P (drop 1 ms))) = map outline ms"
    unfolding mask_outline map_append [symmetric] by simp
  then show ?thesis using assms mask_outline by (auto simp: mask_conversation_def Let_def)
qed

lemma fallback_messages:
  assumes "en_policy env = P"
  shows "cp_estimate_total_tokens P (ca_messages (snd (proactive_fallback env s))) \<le> budget_tokens env
    \<and> subseq (map outline (ca_messages (snd (proactive_fallback env s)))) (map outline (ca_messages s))"
  using assms mask_conversation_outline [OF assms, of "ca_messages s"] trim_fits trim_outline
  by (auto simp: proactive_fallback_def fallback_view_def Let_def split: prod.splits) metis+

text \<open>A trim of last resort that is taken halves the estimate.\<close>

lemma run_trim_messages:
  assumes "en_policy env = P" and "run_trim env n (r, s) = (r', s')"
  shows "subseq (map outline (ca_messages s')) (map outline (ca_messages s))
    \<and> (ca_messages s' = ca_messages s
      \<or> 2 * cp_estimate_total_tokens P (ca_messages s') \<le> cp_estimate_total_tokens P (ca_messages s))"
proof -
  let ?t = "cp_estimate_total_tokens P (ca_messages s) div 2"
  have "2 * cp_estimate_total_tokens P (cp_aggressive_trim P (ca_messages s) ?t hs) \<le> cp_estimate_total_tokens P (ca_messages s)" for hs
    using trim_fits [of "ca_messages s" ?t hs] by linarith
  then show ?thesis using assms trim_outline by (auto simp: run_trim_def Let_def split: if_splits)
qed

end

lemma configured_policy_laws: "compaction_policy (configured_policy rd config)"
proof
  fix ms target hs
  let ?t = "aggressive_trim (rd_json rd) ms target hs"
  show "cp_estimate_total_tokens (configured_policy rd config) (cp_aggressive_trim (configured_policy rd config) ms target hs) \<le> target"
    by (simp add: configured_policy_def trim_bound)
  have "subseq (map outline (map without_calls ?t)) (map outline (map without_calls ms))"
    by (intro subseq_map trim_order)
  then show "subseq (map outline (cp_aggressive_trim (configured_policy rd config) ms target hs)) (map outline ms)"
    by (simp add: configured_policy_def comp_def)
  show "map outline (or_messages (cp_apply_observation_masking (configured_policy rd config) ms)) = map outline ms"
    by (intro shape_outline) (simp add: configured_policy_def apply_observation_masking_def masking_shape)
qed

interpretation cpol: compaction_policy "configured_policy rd config" for rd config
  by (rule configured_policy_laws)

section \<open>The native attempt\<close>

lemma reduced_measure:
  "materially_reduced b a \<longleftrightarrow> a < b \<and> b \<le> 20 * (b - a) \<and> (32 \<le> b - a \<or> a = 0)"
  by (auto simp: materially_reduced_def Let_def min_def max_def)

text \<open>
  What a native attempt leaves: nothing changed when it ends without a result or with an error, and
  otherwise the context of the response in place of all messages but the system ones. The context is the output of the
  response with the reasoning state of the call, and the measurements are those of the response.
\<close>

definition native_context :: "cascade \<Rightarrow> compact_response \<Rightarrow> provider_opaque_context" where
  "native_context s response = OpenResponsesCompact (cr_output response) (lc_reasoning_state (ca_config s))"

definition native_done :: "cascade_env \<Rightarrow> cascade \<Rightarrow> applied_native \<Rightarrow> cascade \<Rightarrow> bool" where
  "native_done env s ap s' \<longleftrightarrow>
     (\<exists>response. en_compact env (native_request env s) = Inr (Some response)
        \<and> lc_provider_opaque_context (ca_config s') = Some (native_context s response)
        \<and> ap_output_items_after ap = length (cr_output response)
        \<and> ap_tokens_after ap = map_option unat (Option.bind (cr_usage response) cu_output_tokens)
        \<and> ap_bytes_after ap = en_output_bytes env (cr_output response)
        \<and> ca_checkpoints s' = ca_checkpoints s
            @ (if durable_source env
               then [native_checkpoint env (the (en_source_sequence env)) (native_context s response)] else []))
     \<and> reduced_by (ap_tokens_before ap) (ap_tokens_after ap) (ap_bytes_before ap) (ap_bytes_after ap)
     \<and> ap_checkpoint_id ap = (if durable_source env then Some (en_uuid_text env (en_now_v7 env)) else None)
     \<and> ca_messages s' = filter (\<lambda>m. l_role m = LSystem) (ca_messages s)
     \<and> lc_previous_response_id (ca_config s') = None
     \<and> lc_reasoning_state (ca_config s') = map_option reset_effort (lc_reasoning_state (ca_config s))
     \<and> ca_events s' = ca_events s \<and> ca_attempts s' = ca_attempts s"

lemma install_native_cases:
  "install_native env context s = (Inl e, s') \<Longrightarrow> s' = s"
  "install_native env context s = (Inr i, s') \<Longrightarrow>
     s' = s\<lparr>ca_checkpoints := ca_checkpoints s
              @ (if durable_source env then [native_checkpoint env (the (en_source_sequence env)) context] else [])\<rparr>
     \<and> i = (if durable_source env then Some (en_uuid_text env (en_now_v7 env)) else None)"
  by (auto simp: install_native_def durable_source_def native_checkpoint_def Let_def
      split: option.splits sum.splits bool.splits)

lemma native_done_installed:
  assumes "install_native env (native_context s response) s = (Inr i, s')"
    and "en_compact env (native_request env s) = Inr (Some response)"
    and "ap = (native_measured env stateful s response)\<lparr>ap_checkpoint_id := i\<rparr>"
    and "reduced_by (ap_tokens_before ap) (ap_tokens_after ap) (ap_bytes_before ap) (ap_bytes_after ap)"
  shows "native_done env s ap (install_context (native_context s response) s')"
  using assms(2-4) install_native_cases(2) [OF assms(1)]
  by (simp add: native_done_def install_context_def native_measured_def Let_def)

lemma native_attempt:
  "case try_apply_native_compaction env stateful s of
     (Inr (Some ap), s') \<Rightarrow> native_done env s ap s'
   | (_, s') \<Rightarrow> s' = s"
  unfolding try_apply_native_compaction_def Let_def
  by (auto split: option.split sum.split prod.split dest: install_native_cases(1)
      intro!: native_done_installed [unfolded native_context_def])

lemma native_attempt_cases:
  "try_apply_native_compaction env stateful s = (Inl e, s') \<Longrightarrow> s' = s"
  "try_apply_native_compaction env stateful s = (Inr None, s') \<Longrightarrow> s' = s"
  "try_apply_native_compaction env stateful s = (Inr (Some ap), s') \<Longrightarrow> native_done env s ap s'"
  using native_attempt [where env = env and stateful = stateful and s = s] by simp_all

section \<open>Lifecycles\<close>

datatype event_kind = Opened | Installed | Skipped | Failed

fun event_kind_of :: "compaction_event \<Rightarrow> event_kind" where
  "event_kind_of (ContextCompacting _) = Opened"
| "event_kind_of (ContextCompacted _) = Installed"
| "event_kind_of (ContextCompactionSkipped _) = Skipped"
| "event_kind_of (ContextCompactionFailed _) = Failed"

text \<open>The kinds of the events from \<open>s\<close> to \<open>s'\<close>, when the log was only extended.\<close>

definition emitted :: "cascade \<Rightarrow> cascade \<Rightarrow> event_kind list \<Rightarrow> bool" where
  "emitted s s' kinds \<longleftrightarrow>
     take (length (ca_events s)) (ca_events s') = ca_events s
     \<and> map event_kind_of (drop (length (ca_events s)) (ca_events s')) = kinds"

lemma emitted_iff: "emitted s s' kinds \<longleftrightarrow> (\<exists>new. ca_events s' = ca_events s @ new \<and> map event_kind_of new = kinds)"
  by (auto simp: emitted_def) (metis append_take_drop_id)

lemma emit_simps [simp]:
  "ca_events (emit e s) = ca_events s @ [e]" "ca_messages (emit e s) = ca_messages s" "ca_config (emit e s) = ca_config s"
  "ca_checkpoints (emit e s) = ca_checkpoints s" "ca_attempts (emit e s) = ca_attempts s"
  by (simp_all add: emit_def)

lemma reactive_kinds [simp]:
  "event_kind_of (reactive_compacting env s) = Opened" "event_kind_of (reactive_skipped env x r s) = Skipped"
  "event_kind_of (reactive_failed env e n r) = Failed" "event_kind_of (reactive_compacted env n r s) = Installed"
  by (simp_all add: reactive_compacting_def reactive_skipped_def reactive_failed_def reactive_compacted_def)

lemma proactive_kinds [simp]:
  "event_kind_of (proactive_skipped env s x n) = Skipped" "event_kind_of (proactive_installed env s st ms) = Installed"
  by (simp_all add: proactive_skipped_def proactive_installed_def Let_def)

subsection \<open>Of the cascade\<close>

text \<open>A run in which no strategy has been used yet still measures what it started with.\<close>

definition run_ok :: "cascade_env \<Rightarrow> compaction_event list \<Rightarrow> cascade_run \<times> cascade \<Rightarrow> bool" where
  "run_ok env evs = (\<lambda>(r, s). ca_events s = evs
     \<and> (ru_strategies_used r = [] \<longrightarrow> ru_tokens_after r = None
         \<and> ru_tokens_before r = Some (cp_estimate_total_tokens (en_policy env) (ca_messages s))))"

lemma push_step_used [simp]: "ru_strategies_used (push_step st n d r) \<noteq> []"
  by (simp add: push_step_def)

lemma run_ok_started: "run_ok env (ca_events s @ [reactive_compacting env s]) (run_started env s, emit (reactive_compacting env s) s)"
  by (simp add: run_ok_def run_started_def)

lemma run_ok_masking: "run_ok env evs rs \<Longrightarrow> run_ok env evs (run_masking env rs)"
  by (cases rs) (simp add: run_ok_def run_masking_def split: prod.split)

lemma run_ok_summarization: "run_ok env evs rs \<Longrightarrow> run_ok env evs (run_summarization env rs)"
  by (cases rs) (simp add: run_ok_def run_summarization_def Let_def split: sum.split)

lemma run_ok_trim: "run_ok env evs rs \<Longrightarrow> run_ok env evs (run_trim env n rs)"
  by (cases rs) (simp add: run_ok_def run_trim_def Let_def)

lemma native_events:
  "try_apply_native_compaction env stateful s = (res, s') \<Longrightarrow> ca_events s' = ca_events s"
  using native_attempt [where env = env and stateful = stateful and s = s]
  by (auto simp: native_done_def split: sum.splits option.splits)

lemma run_ok_native:
  assumes "run_ok env evs rs"
  shows "run_native env rs = (Inr r', s') \<Longrightarrow> run_ok env evs (r', s')"
    and "run_native env rs = (Inl e, s') \<Longrightarrow> ca_events s' = evs"
  using assms native_events
  by (cases rs; auto simp: run_ok_def run_native_def record_native_def native_done_def
      split: if_splits sum.splits prod.splits option.splits dest: native_attempt_cases)+

lemma reduced_by_same [simp]: "\<not> reduced_by (Some n) (Some n) b a"
  by (simp add: reduced_by_def materially_reduced_def Let_def)

lemma finish_events:
  assumes "run_ok env evs (r, s)" and "reactive_finish env n r s = (result, s')"
  shows "\<exists>e. ca_events s' = evs @ [e] \<and> event_kind_of e = (if result = None then Skipped else Installed)"
  using assms by (auto simp: run_ok_def reactive_finish_def measured_def Let_def split: if_splits)

subsection \<open>Of the evaluation before a call\<close>

lemma fallback_events [simp]: "ca_events (snd (proactive_fallback env s)) = ca_events s"
  by (simp add: proactive_fallback_def Let_def split: prod.split)

lemma fallback_cong:
  assumes "ca_messages s' = ca_messages s"
  shows "fst (proactive_fallback env s') = fst (proactive_fallback env s)"
    and "ca_messages (snd (proactive_fallback env s')) = ca_messages (snd (proactive_fallback env s))"
  using assms by (simp_all add: proactive_fallback_def Let_def split: prod.split)

text \<open>The native attempt of the evaluation, by its result.\<close>

lemma proactive_native_cases:
  "proactive_native env s = (Inl e, s') \<Longrightarrow> emitted s s' [Opened, Failed] \<and> ca_messages s' = ca_messages s"
  "proactive_native env s = (Inr None, s') \<Longrightarrow> emitted s s' [Opened] \<and> ca_messages s' = ca_messages s"
  "proactive_native env s = (Inr (Some ap), s') \<Longrightarrow> emitted s s' [Opened, Installed]"
  unfolding proactive_native_def Let_def
  by (auto split: sum.splits option.splits prod.splits dest!: native_attempt_cases simp: native_done_def emitted_def)

lemma emitted_append:
  "emitted s s1 ks \<Longrightarrow> ca_events s2 = ca_events s1 @ new \<Longrightarrow> map event_kind_of new = ks' \<Longrightarrow> emitted s s2 (ks @ ks')"
  by (auto simp: emitted_iff)

section \<open>Properties\<close>


text \<open>
  Lifecycles before a call are closed: exactly when a native attempt is made an event opens the
  compaction, and exactly one more event follows: a failure when the call ends with an error, an
  install when native compaction or the fallback changed the request, otherwise a skip. Under pressure
  without an attempt the skip is reported, then the install of the fallback if there was one; without
  pressure there is no event.
\<close>

theorem proactive_lifecycle:
  "let (result, s') = apply_proactive_compaction env s;
       fallback = (fst (proactive_fallback env s) \<noteq> None)
   in emitted s s'
        (if should_attempt env s
         then [Opened, case result of Inl _ \<Rightarrow> Failed
                       | Inr (Some _) \<Rightarrow> Installed
                       | Inr None \<Rightarrow> if fallback then Installed else Skipped]
         else if local_pressure env s then Skipped # (if fallback then [Installed] else [])
         else [])"
proof (cases "should_attempt env s")
  case True
  then have lp: "local_pressure env s" by (simp add: should_attempt_def)
  obtain res s1 where pn: "proactive_native env s = (res, s1)" by fastforce
  consider e where "res = Inl e" | "res = Inr None" | ap where "res = Inr (Some ap)" by (metis not_None_eq sum.exhaust)
  then show ?thesis
  proof cases
    case 2
    obtain st s2 where fb: "proactive_fallback env s1 = (st, s2)" by fastforce
    have "emitted s s1 [Opened]" "ca_messages s1 = ca_messages s" using proactive_native_cases(2) pn 2 by blast+
    moreover have "ca_events s2 = ca_events s1" using fallback_events [of env s1] fb by simp
    moreover have "st = fst (proactive_fallback env s)" using fallback_cong(1) [OF calculation(2), of env] fb by simp
    ultimately show ?thesis
      using True lp pn 2 fb emitted_append [of s s1 "[Opened]"]
      by (simp add: apply_proactive_compaction_def Let_def split: option.split)
  next
    case (1 e)
    then show ?thesis
      using True pn proactive_native_cases(1) [of env s e s1] by (simp add: apply_proactive_compaction_def Let_def)
  next
    case (3 ap)
    then show ?thesis
      using True pn proactive_native_cases(3) [of env s ap s1] by (simp add: apply_proactive_compaction_def Let_def)
  qed
next
  case False
  define s1 where "s1 = emit (proactive_skipped env s (proactive_skip_reason (native_strategy env) (en_supports_compact env)
    (durable_source env)) (length (ca_messages s))) s"
  obtain st s2 where fb: "proactive_fallback env s1 = (st, s2)" by fastforce
  have "emitted s s1 [Skipped]" "ca_messages s1 = ca_messages s" by (simp_all add: emitted_def s1_def)
  moreover have "ca_events s2 = ca_events s1" using fallback_events [of env s1] fb by simp
  moreover have "st = fst (proactive_fallback env s)" using fallback_cong(1) [OF calculation(2), of env] fb by simp
  ultimately show ?thesis
    using False fb emitted_append [of s s1 "[Skipped]"]
    by (simp add: apply_proactive_compaction_def Let_def emitted_def [of s s] flip: s1_def split: option.split)
qed

text \<open>
  The cascade after a refused call reports itself completely: it opens with one event and ends with
  exactly one, which is a failure when the cascade ends with an error, a skip when the error of the
  provider stands, and an install when the call is retried.
\<close>

theorem reactive_lifecycle:
  "let (result, s') = apply_reactive_compaction env s
   in emitted s s' [Opened, case result of Inl _ \<Rightarrow> Failed | Inr None \<Rightarrow> Skipped | Inr (Some _) \<Rightarrow> Installed]"
proof -
  obtain r1 s1 where m: "run_masking env (run_started env s, emit (reactive_compacting env s) s) = (r1, s1)" by fastforce
  let ?evs = "ca_events s @ [reactive_compacting env s]"
  have ok1: "run_ok env ?evs (r1, s1)" using run_ok_masking [OF run_ok_started, of env s] m by simp
  obtain res s2 where n: "run_native env (r1, s1) = (res, s2)" by fastforce
  show ?thesis
  proof (cases res)
    case (Inl e)
    then show ?thesis using run_ok_native(2) [OF ok1, of e s2] m n by (simp add: apply_reactive_compaction_def Let_def emitted_def)
  next
    case (Inr r2)
    have ok2: "run_ok env ?evs (r2, s2)" using run_ok_native(1) [OF ok1] n Inr by simp
    obtain r3 s3 where s3: "run_summarization env (r2, s2) = (r3, s3)" by fastforce
    obtain r4 s4 where s4: "run_trim env (length (ca_messages s)) (r3, s3) = (r4, s4)" by fastforce
    obtain result s5 where s5: "reactive_finish env (length (ca_messages s)) r4 s4 = (result, s5)" by fastforce
    have "run_ok env ?evs (r4, s4)" using run_ok_trim [OF run_ok_summarization [OF ok2]] s3 s4 by metis
    from finish_events [OF this s5] show ?thesis
      using m n Inr s3 s4 s5 ok2
      by (auto simp: apply_reactive_compaction_def Let_def emitted_def run_ok_def split: option.split)
  qed
qed

text \<open>
  C9. Under pressure the request fits: when the evaluation before a call finds pressure and native
  compaction gives nothing, the estimate of the messages that remain is within the budget of the
  context window, and their outline is one of the messages there were, in order.
\<close>

theorem fallback_fits:
  assumes "en_policy env = configured_policy rd config" and "local_pressure env s"
    and "apply_proactive_compaction env s = (Inr None, s')"
  shows "estimate_total_tokens (rd_json rd) (ca_messages s') \<le> budget_tokens env
    \<and> subseq (map outline (ca_messages s')) (map outline (ca_messages s))"
proof -
  obtain res s1 where r: "(if should_attempt env s then proactive_native env s
     else (Inr None, emit (proactive_skipped env s (proactive_skip_reason (native_strategy env) (en_supports_compact env)
             (durable_source env)) (length (ca_messages s))) s)) = (res, s1)" by fastforce
  then have "res = Inr None"
    using assms(2,3) by (auto simp: apply_proactive_compaction_def Let_def split: if_splits prod.splits sum.splits)
  with r have "res = Inr None \<and> ca_messages s1 = ca_messages s"
    using proactive_native_cases(2) [of env s s1] by (auto split: if_splits)
  then have "ca_messages s' = ca_messages (snd (proactive_fallback env s1))"
    using assms(2,3) r by (auto simp: apply_proactive_compaction_def Let_def split: prod.splits option.splits if_splits)
  then show ?thesis
    using cpol.fallback_messages [OF assms(1), of s] fallback_cong(2) [of s1 s env] \<open>res = Inr None \<and> _\<close>
    by (simp add: configured_policy_def)
qed

text \<open>A window of forty tokens, a driver without native compaction and twenty-eight messages of two tokens.\<close>

definition small_window_env :: cascade_env where
  "small_window_env =
     \<lparr>en_policy = configured_policy \<lparr>rd_json = (\<lambda>_. ''null''), rd_debug = id\<rparr> runtime_compaction_default,
      en_supports_compact = False, en_compact = (\<lambda>_. Inr None), en_effective_context_window = Some 40,
      en_profile_context = None, en_install = None, en_get_attempt = Inr None, en_session_id = 1,
      en_source_sequence = None, en_provider_type = ''openai'', en_model = ''m'', en_system_prompt = None,
      en_stateful_response_continuation = False, en_checkpoint_restored = False,
      en_checkpoint_suffix_message_count = 0, en_raw_tool_result_bytes = 0, en_prior_usage = None,
      en_summarization_model_fallback = ''m'', en_summarize = (\<lambda>_ _. Inl ''down''), en_json_text = (\<lambda>_. ''null''),
      en_input_bytes = (\<lambda>_. None), en_output_bytes = (\<lambda>_. None), en_sha256 = (\<lambda>_. 0), en_now_v7 = 2,
      en_uuid_text = (\<lambda>_. ''2''), en_elapsed_ms = (\<lambda>_. 0)\<rparr>"

definition small_window_state :: cascade where
  "small_window_state =
     \<lparr>ca_messages = replicate 28 (llm_text LUser ''ping pong''),
      ca_config = \<lparr>lc_previous_response_id = None, lc_provider_opaque_context = None, lc_reasoning_state = None\<rparr>,
      ca_events = [], ca_checkpoints = [], ca_attempts = []\<rparr>"

lemma estimate_replicate: "estimate_total_tokens jt (replicate n m) = n * estimate_tokens jt m"
  by (induction n) simp_all

lemma small_window_facts:
  "local_pressure small_window_env small_window_state" "budget_tokens small_window_env = 34"
  "fst (apply_proactive_compaction small_window_env small_window_state) = Inr None"
  "estimate_total_tokens jt (ca_messages small_window_state) = 56"
     apply (simp add: local_pressure_def small_window_env_def small_window_state_def configured_policy_def window_pressure_def
      checkpoint_rearmed_def context_window_def should_compact_proactively_def runtime_compaction_default_def
      estimate_replicate estimate_tokens_def llm_text_def content_len_def)
    apply (simp add: small_window_env_def budget_tokens_def context_window_def configured_policy_def runtime_compaction_default_def)
   apply (simp add: apply_proactive_compaction_def should_attempt_def small_window_env_def Let_def split: prod.split)
  apply (simp add: small_window_state_def estimate_replicate estimate_tokens_def llm_text_def content_len_def)
  done

theorem fallback_fits_witness:
  "estimate_total_tokens (\<lambda>_. ''null'') (ca_messages small_window_state) = 56
   \<and> estimate_total_tokens (\<lambda>_. ''null'') (ca_messages (snd (apply_proactive_compaction small_window_env small_window_state))) \<le> 34"
proof -
  have "en_policy small_window_env = configured_policy \<lparr>rd_json = (\<lambda>_. ''null''), rd_debug = id\<rparr> runtime_compaction_default"
    by (simp add: small_window_env_def)
  from fallback_fits [OF this small_window_facts(1)]
  show ?thesis
    using small_window_facts(2-4) by (cases "apply_proactive_compaction small_window_env small_window_state") auto
qed

end
