(* ===== verification/Llm_Errors.thy ===== *)
theory Llm_Errors
  imports Turn
begin

text \<open>
  Errors of model providers: their semantic kinds and the error type of the agent loop
  (\<open>crates/provider/src/error.rs\<close>), stream errors (\<open>driver_registry.rs\<close>), what is shown of them to the
  viewers of a session (\<open>user_facing_error.rs\<close>), how much of it (\<open>engine/.../reason/error_policy.rs\<close>), and
  which of them are worth a retry (\<open>llm_retry.rs\<close>). What the regular expressions of the sources capture
  is an argument (\<open>patterns\<close>), as is the ellipsis, which is no character below 256. A \<open>BTreeMap\<close> of
  fields is an association list whose order is not looked at.
\<close>

section \<open>Recognised messages\<close>

text \<open>\<open>str::contains\<close> for one of several needles.\<close>

definition contains_any :: "string list \<Rightarrow> string \<Rightarrow> bool" where
  "contains_any needles s = list_ex (\<lambda>needle. sublist needle s) needles"

definition QUOTA_NEEDLES :: "string list" where
  "QUOTA_NEEDLES =
     [''insufficient_quota'', ''insufficient quota'', ''exceeded your current quota'', ''credit_balance_exhausted'',
      ''credit balance is too low'']"

definition is_provider_quota_message :: "string \<Rightarrow> bool" where
  "is_provider_quota_message message = contains_any QUOTA_NEEDLES (to_ascii_lowercase message)"

definition USAGE_NEEDLES :: "string list" where
  "USAGE_NEEDLES = [''usage_limit_reached'', ''usage limit reached'', ''usage limit has been reached'']"

definition is_usage_limit_message :: "string \<Rightarrow> bool" where
  "is_usage_limit_message message = contains_any USAGE_NEEDLES (to_ascii_lowercase message)"

definition TRANSIENT_NEEDLES :: "string list" where
  "TRANSIENT_NEEDLES =
     [''server_error'', ''internal server error'', ''overloaded'', ''overloaded_error'', ''rate limit'',
      ''too many requests'', ''request timeout'', ''timed out'', ''service unavailable'', ''bad gateway'',
      ''gateway timeout'', ''temporarily unavailable'']"

definition is_transient_error_message :: "string \<Rightarrow> bool" where
  "is_transient_error_message message \<longleftrightarrow>
     \<not> is_usage_limit_message message
     \<and> (let msg = to_ascii_lowercase (trim message)
        in sublist ''provider stream stall'' msg \<or> contains_any TRANSIENT_NEEDLES msg)"

text \<open>Status codes are natural numbers.\<close>

definition is_transient_status :: "nat \<Rightarrow> bool" where
  "is_transient_status status \<longleftrightarrow> status \<in> {408, 409, 429, 500} \<or> 502 \<le> status \<and> status \<le> 599"

text \<open>What the regular expressions capture.\<close>

record patterns =
  rx_resets_at :: "string \<Rightarrow> int option"
  rx_attestation_types :: "string \<Rightarrow> string list option"
  rx_url :: "string \<Rightarrow> string option"
  rx_budget_exhausted :: "string \<Rightarrow> (string \<times> json) list option"
  rx_budget_paused :: "string \<Rightarrow> (string \<times> json) list option"
  rx_ellipsis :: string

subsection \<open>Attestation gates\<close>

definition ATTESTATION_GATE_SENTENCE :: string where
  "ATTESTATION_GATE_SENTENCE = ''requires you to complete the following before use''"

definition ATTESTATION_CONFIRM_URL_FALLBACK :: string where
  "ATTESTATION_CONFIRM_URL_FALLBACK = ''https://openrouter.ai/settings/preferences''"

definition MAX_CONFIRM_URL_CHARS :: nat where "MAX_CONFIRM_URL_CHARS = 300"
definition MAX_ATTESTATION_TYPES :: nat where "MAX_ATTESTATION_TYPES = 8"
definition MAX_TYPE_CHARS :: nat where "MAX_TYPE_CHARS = 64"

record attestation_requirement =
  at_missing_types :: "string list"
  at_confirm_url :: string

definition attestation_fallback :: attestation_requirement where
  "attestation_fallback = \<lparr>at_missing_types = [], at_confirm_url = ATTESTATION_CONFIRM_URL_FALLBACK\<rparr>"

text \<open>\<open>str::replace\<close> of a backslash in front of a given character by that character.\<close>

fun unescape :: "char \<Rightarrow> string \<Rightarrow> string" where
  "unescape c [] = []"
| "unescape c [x] = [x]"
| "unescape c (x # y # s) = (if x = CHR 0x5C \<and> y = c then c # unescape c s else x # unescape c (y # s))"

text \<open>The part of a text from the first place on where a needle occurs; the whole text if there is none.\<close>

fun from_first :: "string \<Rightarrow> string \<Rightarrow> nat option" where
  "from_first needle [] = (if needle = [] then Some 0 else None)"
| "from_first needle (x # s) = (if prefix needle (x # s) then Some 0 else map_option Suc (from_first needle s))"

definition trim_punctuation :: "string \<Rightarrow> string" where
  "trim_punctuation s = rev (dropWhile (\<lambda>c. c \<in> set ''.,;:'') (rev s))"

definition attestation_missing_types :: "patterns \<Rightarrow> string \<Rightarrow> string list option" where
  "attestation_missing_types rx message =
     map_option (\<lambda>items. take MAX_ATTESTATION_TYPES (filter (\<lambda>t. t \<noteq> [] \<and> length t \<le> MAX_TYPE_CHARS) items))
       (rx_attestation_types rx message)"

definition attestation_confirm_url :: "patterns \<Rightarrow> string \<Rightarrow> string \<Rightarrow> string option" where
  "attestation_confirm_url rx message lower =
     (let start = get_or 0 (from_first ATTESTATION_GATE_SENTENCE lower) in
      case rx_url rx (drop start message) of
        None \<Rightarrow> None
      | Some found \<Rightarrow>
          let url = trim_punctuation found in
          if url \<noteq> [] \<and> length url \<le> MAX_CONFIRM_URL_CHARS then Some url else None)"

definition parse_attestation_requirement :: "patterns \<Rightarrow> string \<Rightarrow> attestation_requirement option" where
  "parse_attestation_requirement rx msg =
     (let message = unescape CHR ''/'' (unescape CHR 0x22 msg);
          missing_types = get_or [] (attestation_missing_types rx message);
          lower = to_ascii_lowercase message
      in if missing_types = [] \<and> \<not> sublist ATTESTATION_GATE_SENTENCE lower then None
         else Some \<lparr>at_missing_types = missing_types,
                    at_confirm_url = get_or ATTESTATION_CONFIRM_URL_FALLBACK (attestation_confirm_url rx message lower)\<rparr>)"

definition is_attestation_required_message :: "patterns \<Rightarrow> string \<Rightarrow> bool" where
  "is_attestation_required_message rx message \<longleftrightarrow> parse_attestation_requirement rx message \<noteq> None"

section \<open>Semantic kinds\<close>

datatype billing_pressure_reason = InFlightBudgetExhausted | InsufficientCredits

datatype llm_error_kind =
    Authentication
  | QuotaExhausted
  | BillingPressure billing_pressure_reason "nat option"
  | RateLimited
  | Unavailable
  | AttestationRequired
  | InvalidRequest
  | OtherKind

definition from_provider_code :: "string \<Rightarrow> llm_error_kind option" where
  "from_provider_code text =
     (let code = to_ascii_lowercase (trim text) in
      if code \<in> {''insufficient_quota'', ''billing_hard_limit_reached'', ''credit_balance_too_low'',
                 ''credit_balance_exhausted''} then Some QuotaExhausted
      else if code \<in> {''authentication_error'', ''invalid_api_key'', ''permission_denied''} then Some Authentication
      else if code \<in> {''rate_limit_exceeded'', ''rate_limit_error'', ''overloaded_error''} then Some RateLimited
      else if code \<in> {''server_error'', ''internal_error'', ''processing_error'', ''service_unavailable'', ''timeout''}
      then Some Unavailable
      else if code \<in> {''invalid_request_error'', ''model_not_found''} then Some InvalidRequest
      else None)"

definition from_provider_status :: "patterns \<Rightarrow> nat \<Rightarrow> string \<Rightarrow> llm_error_kind" where
  "from_provider_status rx status body =
     (if is_provider_quota_message body \<or> is_usage_limit_message body then QuotaExhausted
      else if is_attestation_required_message rx body then AttestationRequired
      else if status \<in> {401, 403} then Authentication
      else if status = 429 then RateLimited
      else if status \<in> {408, 409} then Unavailable
      else if status = 501 then OtherKind
      else if 500 \<le> status \<and> status \<le> 599 then Unavailable
      else if 400 \<le> status \<and> status \<le> 499 then InvalidRequest
      else OtherKind)"

definition from_error_text :: "string \<Rightarrow> llm_error_kind" where
  "from_error_text text =
     (let lower = to_ascii_lowercase text in
      if is_provider_quota_message text \<or> is_usage_limit_message text then QuotaExhausted
      else if contains_any [''throttlingexception'', ''toomanyrequestsexception'', ''rate limit'', ''too many requests''] lower
      then RateLimited
      else if contains_any [''accessdeniedexception'', ''unrecognizedclientexception'', ''expiredtokenexception'',
                            ''invalidsignatureexception'', ''unauthorized''] lower
      then Authentication
      else if contains_any [''serviceunavailable'', ''service unavailable'', ''internalserverexception'',
                            ''modelnotreadyexception''] lower
      then Unavailable
      else OtherKind)"

record llm_stream_error =
  le_code :: "string option"
  le_status :: "nat option"
  le_message :: string

definition stream_error_new :: "string \<Rightarrow> llm_stream_error" where
  "stream_error_new message = \<lparr>le_code = None, le_status = None, le_message = message\<rparr>"

definition stream_error_kind :: "patterns \<Rightarrow> llm_stream_error \<Rightarrow> llm_error_kind" where
  "stream_error_kind rx e =
     (case Option.bind (le_code e) from_provider_code of
        Some kind \<Rightarrow> kind
      | None \<Rightarrow> (case le_status e of
                   Some status \<Rightarrow> from_provider_status rx status (le_message e)
                 | None \<Rightarrow> from_error_text (le_message e)))"

definition stream_error_display :: "llm_stream_error \<Rightarrow> string" where
  "stream_error_display e =
     (case (le_code e, le_status e) of
        (Some code, Some status) \<Rightarrow> code @ '' ('' @ show_nat status @ ''): '' @ le_message e
      | (Some code, None) \<Rightarrow> code @ '': '' @ le_message e
      | (None, Some status) \<Rightarrow> ''('' @ show_nat status @ ''): '' @ le_message e
      | (None, None) \<Rightarrow> le_message e)"

definition is_transient_stream_error :: "llm_stream_error \<Rightarrow> bool" where
  "is_transient_stream_error e =
     (case Option.bind (le_code e) from_provider_code of
        Some kind \<Rightarrow> kind \<in> {RateLimited, Unavailable}
      | None \<Rightarrow> (case le_status e of
                   Some status \<Rightarrow> is_transient_status status
                 | None \<Rightarrow> is_transient_error_message (le_message e)))"

section \<open>Errors of the agent loop\<close>

record llm_error =
  er_kind :: llm_error_kind
  er_message :: string
  er_retry_attempts :: u32
  er_retry_wait_ms :: nat
  er_retry_handled :: bool

datatype agent_loop_error =
    LlmFailure llm_error
  | RequestTooLargeError string
  | ModelNotAvailable string
  | ModelNotConfigured
  | ToolExecution string
  | MessageStore string
  | EventEmission string
  | Configuration string
  | MaxIterationsReached nat
  | LoopCancelled
  | NoMessages
  | AgentNotFound uuid
  | HarnessNotFound uuid
  | SessionNotFound uuid
  | InternalError string
  | DriverNotRegistered string

definition with_provider :: "string \<Rightarrow> agent_loop_error \<Rightarrow> agent_loop_error" where
  "with_provider provider e =
     (let pre = ''provider '' @ [CHR 0x27] @ provider @ [CHR 0x27] @ '': '';
          add = (\<lambda>m. if prefix pre m then m else pre @ m)
      in case e of
           LlmFailure err \<Rightarrow> LlmFailure (err\<lparr>er_message := add (er_message err)\<rparr>)
         | RequestTooLargeError m \<Rightarrow> RequestTooLargeError (add m)
         | Configuration m \<Rightarrow> Configuration (add m)
         | _ \<Rightarrow> e)"

definition llm_kind :: "llm_error_kind \<Rightarrow> string \<Rightarrow> agent_loop_error" where
  "llm_kind kind msg =
     LlmFailure \<lparr>er_kind = kind, er_message = msg, er_retry_attempts = 0, er_retry_wait_ms = 0, er_retry_handled = False\<rparr>"

definition llm_untyped :: "string \<Rightarrow> agent_loop_error" where
  "llm_untyped msg = llm_kind OtherKind msg"

definition llm_retry_attempts :: "agent_loop_error \<Rightarrow> u32" where
  "llm_retry_attempts e = (case e of LlmFailure err \<Rightarrow> er_retry_attempts err | _ \<Rightarrow> 0)"

definition llm_retry_handled :: "agent_loop_error \<Rightarrow> bool" where
  "llm_retry_handled e = (case e of LlmFailure err \<Rightarrow> er_retry_handled err | _ \<Rightarrow> False)"

definition llm_error_kind_of :: "agent_loop_error \<Rightarrow> llm_error_kind option" where
  "llm_error_kind_of e = (case e of LlmFailure err \<Rightarrow> Some (er_kind err) | _ \<Rightarrow> None)"

definition is_rate_limited :: "agent_loop_error \<Rightarrow> bool" where
  "is_rate_limited e =
     (case e of
        LlmFailure err \<Rightarrow>
          (case er_kind err of
             RateLimited \<Rightarrow> True
           | OtherKind \<Rightarrow> contains_any [''(429)'', ''rate limit'', ''too many requests''] (to_ascii_lowercase (er_message err))
           | _ \<Rightarrow> False)
      | _ \<Rightarrow> False)"

definition is_auth_error :: "agent_loop_error \<Rightarrow> bool" where
  "is_auth_error e =
     (case e of
        LlmFailure err \<Rightarrow>
          (case er_kind err of
             Authentication \<Rightarrow> True
           | OtherKind \<Rightarrow> contains_any [''(401)'', ''(403)''] (er_message err)
           | _ \<Rightarrow> False)
      | _ \<Rightarrow> False)"

definition is_server_error :: "agent_loop_error \<Rightarrow> bool" where
  "is_server_error e =
     (case e of
        LlmFailure err \<Rightarrow>
          (case er_kind err of
             Unavailable \<Rightarrow> True
           | OtherKind \<Rightarrow> contains_any [''(500)'', ''(502)'', ''(503)'', ''(504)'', ''(529)''] (er_message err)
           | _ \<Rightarrow> False)
      | _ \<Rightarrow> False)"

definition is_transient_llm_error :: "agent_loop_error \<Rightarrow> bool" where
  "is_transient_llm_error e =
     (case e of
        LlmFailure err \<Rightarrow>
          (case er_kind err of
             RateLimited \<Rightarrow> True
           | Unavailable \<Rightarrow> True
           | OtherKind \<Rightarrow> is_transient_error_message (er_message err)
           | _ \<Rightarrow> False)
      | _ \<Rightarrow> False)"

definition is_non_retryable :: "agent_loop_error \<Rightarrow> bool" where
  "is_non_retryable e =
     (case e of
        AgentNotFound _ \<Rightarrow> True
      | HarnessNotFound _ \<Rightarrow> True
      | SessionNotFound _ \<Rightarrow> True
      | NoMessages \<Rightarrow> True
      | ModelNotConfigured \<Rightarrow> True
      | Configuration _ \<Rightarrow> True
      | DriverNotRegistered _ \<Rightarrow> True
      | MessageStore msg \<Rightarrow> sublist ''not found'' (to_ascii_lowercase msg)
      | _ \<Rightarrow> False)"

section \<open>What viewers see\<close>

subsection \<open>Codes and fields\<close>

definition error_new :: "string \<Rightarrow> user_facing_error" where
  "error_new code = \<lparr>ue_code = code, ue_fields = []\<rparr>"

definition with_field :: "string \<Rightarrow> json \<Rightarrow> user_facing_error \<Rightarrow> user_facing_error" where
  "with_field key value e = (if value = JNull then e else e\<lparr>ue_fields := hm_insert key value (ue_fields e)\<rparr>)"

definition with_optional_field :: "string \<Rightarrow> json option \<Rightarrow> user_facing_error \<Rightarrow> user_facing_error" where
  "with_optional_field key value e = (case value of Some v \<Rightarrow> with_field key v e | None \<Rightarrow> e)"

definition apply_attestation_fields :: "attestation_requirement \<Rightarrow> user_facing_error \<Rightarrow> user_facing_error" where
  "apply_attestation_fields r e =
     (let e' = with_field ''confirm_url'' (JString (at_confirm_url r)) e in
      if at_missing_types r = [] then e'
      else with_field ''missing_types'' (JArray (map JString (at_missing_types r))) e')"

record error_context =
  ex_provider :: "string option"
  ex_model_id :: "string option"
  ex_retry_after :: "nat option"

definition no_context :: error_context where
  "no_context = \<lparr>ex_provider = None, ex_model_id = None, ex_retry_after = None\<rparr>"

text \<open>An error with the provider and the model of the context.\<close>

definition located :: "error_context \<Rightarrow> string \<Rightarrow> user_facing_error" where
  "located ctx code =
     with_optional_field ''model_id'' (map_option JString (ex_model_id ctx))
       (with_optional_field ''provider'' (map_option JString (ex_provider ctx)) (error_new code))"

definition error_fields :: "user_facing_error \<Rightarrow> (string \<times> json) list option" where
  "error_fields e = (if ue_fields e = [] then None else Some (ue_fields e))"

definition apply_to_message_metadata :: "user_facing_error \<Rightarrow> (string, json) hmap \<Rightarrow> (string, json) hmap" where
  "apply_to_message_metadata e metadata =
     (let m = hm_insert ''error_code'' (JString (ue_code e)) metadata in
      case error_fields e of
        Some fs \<Rightarrow> hm_insert ''error_fields'' (JObject fs) m
      | None \<Rightarrow> hm_remove ''error_fields'' m)"

subsection \<open>Disclosure\<close>

text \<open>The modes are ordered from the least to the most disclosing one.\<close>

fun disclosure_level :: "error_disclosure \<Rightarrow> nat" where
  "disclosure_level DiscloseGeneric = 0"
| "disclosure_level DiscloseStandard = 1"
| "disclosure_level DiscloseDetailed = 2"

lemma disclosure_level_inject [simp]: "disclosure_level a = disclosure_level b \<longleftrightarrow> a = b"
  by (cases a; cases b) simp_all

instantiation error_disclosure :: linorder
begin

definition less_eq_error_disclosure :: "error_disclosure \<Rightarrow> error_disclosure \<Rightarrow> bool" where
  "less_eq_error_disclosure a b \<longleftrightarrow> disclosure_level a \<le> disclosure_level b"

definition less_error_disclosure :: "error_disclosure \<Rightarrow> error_disclosure \<Rightarrow> bool" where
  "less_error_disclosure a b \<longleftrightarrow> disclosure_level a < disclosure_level b"

instance
proof
  fix x y z :: error_disclosure
  show "x < y \<longleftrightarrow> x \<le> y \<and> \<not> y \<le> x" by (auto simp: less_eq_error_disclosure_def less_error_disclosure_def)
  show "x \<le> x" by (simp add: less_eq_error_disclosure_def)
  show "x \<le> z" if "x \<le> y" "y \<le> z" using that by (simp add: less_eq_error_disclosure_def)
  show "x = y" if "x \<le> y" "y \<le> x" using that disclosure_level_inject [of x y] by (simp add: less_eq_error_disclosure_def)
  show "x \<le> y \<or> y \<le> x" by (auto simp: less_eq_error_disclosure_def)
qed

end

definition disclosure_parse :: "string \<Rightarrow> error_disclosure option" where
  "disclosure_parse value =
     (let v = to_ascii_lowercase (trim value) in
      if v = ''generic'' then Some DiscloseGeneric
      else if v = ''standard'' then Some DiscloseStandard
      else if v = ''detailed'' then Some DiscloseDetailed
      else None)"

fun disclosure_as_str :: "error_disclosure \<Rightarrow> string" where
  "disclosure_as_str DiscloseGeneric = ''generic''"
| "disclosure_as_str DiscloseStandard = ''standard''"
| "disclosure_as_str DiscloseDetailed = ''detailed''"

definition DETAIL_MAX_CHARS :: nat where "DETAIL_MAX_CHARS = 1000"

definition truncate_chars :: "patterns \<Rightarrow> string \<Rightarrow> nat \<Rightarrow> string" where
  "truncate_chars rx value max_chars = (if length value \<le> max_chars then value else take max_chars value @ rx_ellipsis rx)"

definition apply_disclosure :: "patterns \<Rightarrow> error_disclosure \<Rightarrow> string option \<Rightarrow> user_facing_error \<Rightarrow> user_facing_error" where
  "apply_disclosure rx mode detail e =
     (case mode of
        DiscloseGeneric \<Rightarrow> error_new ''processing_error''
      | DiscloseStandard \<Rightarrow> e
      | DiscloseDetailed \<Rightarrow>
          (case map_option trim detail of
             Some d \<Rightarrow> if d \<noteq> [] then with_field ''detail'' (JString (truncate_chars rx d DETAIL_MAX_CHARS)) e else e
           | None \<Rightarrow> e))"

definition apply_disclosure_to_message_metadata ::
  "error_disclosure \<Rightarrow> string \<Rightarrow> (string, json) hmap \<Rightarrow> (string, json) hmap" where
  "apply_disclosure_to_message_metadata mode source_code metadata =
     hm_insert ''source_error_code'' (JString source_code)
       (hm_insert ''error_disclosure'' (JString (disclosure_as_str mode)) metadata)"

text \<open>
  The ceiling is the first contribution of the active capabilities; what a capability contributes for
  its configuration is an argument.
\<close>

fun first_contribution :: "('c \<Rightarrow> error_disclosure option) \<Rightarrow> 'c list \<Rightarrow> error_disclosure option" where
  "first_contribution contrib [] = None"
| "first_contribution contrib (c # configs) =
     (case contrib c of Some d \<Rightarrow> Some d | None \<Rightarrow> first_contribution contrib configs)"

definition resolve_error_disclosure ::
  "('c \<Rightarrow> error_disclosure option) \<Rightarrow> 'c list \<Rightarrow> string option \<Rightarrow> error_disclosure" where
  "resolve_error_disclosure contrib configs requested =
     (let ceiling = get_or DiscloseStandard (first_contribution contrib configs) in
      case Option.bind requested disclosure_parse of
        Some r \<Rightarrow> min r ceiling
      | None \<Rightarrow> ceiling)"

subsection \<open>Classification of texts\<close>

definition trim_start_text :: "string \<Rightarrow> string \<Rightarrow> nat \<Rightarrow> string" where
  "trim_start_text p s n = ((\<lambda>s. if p \<noteq> [] \<and> prefix p s then drop (length p) s else s) ^^ n) s"

definition trim_error_chain_prefixes :: "string \<Rightarrow> string" where
  "trim_error_chain_prefixes chain =
     (let strip = (\<lambda>p s. trim_start_text p s (length s)) in
      strip ''ActAtom execution failed: '' (strip ''ReasonAtom execution failed: ''
        (strip ''InputAtom execution failed: '' (trim chain))))"

definition is_invalid_tool_schema_message :: "string \<Rightarrow> bool" where
  "is_invalid_tool_schema_message lower \<longleftrightarrow>
     contains_any [''invalid_function_parameters'', ''invalid function parameters''] lower
     \<or> sublist ''invalid json schema'' lower \<and> sublist ''$.properties'' lower
     \<or> sublist ''invalid tool schema'' lower"

definition schema_path_char :: "char \<Rightarrow> bool" where
  "schema_path_char c \<longleftrightarrow>
     c \<in> set ''$._-[]''
     \<or> (let n = of_char c :: nat in 48 \<le> n \<and> n \<le> 57 \<or> 65 \<le> n \<and> n \<le> 90 \<or> 97 \<le> n \<and> n \<le> 122)"

definition extract_schema_path :: "string \<Rightarrow> string option" where
  "extract_schema_path message =
     (case from_first ''Found at '' message of
        None \<Rightarrow> None
      | Some i \<Rightarrow>
          let rest = drop (i + length ''Found at '') message;
              path = trim_punctuation (takeWhile (\<lambda>c. \<not> is_whitespace c \<and> c \<noteq> CHR 0x60) rest)
          in if prefix ''$'' path \<and> length path \<le> 200 \<and> list_all schema_path_char path then Some path else None)"

definition classify_runtime_error_message :: "patterns \<Rightarrow> error_context \<Rightarrow> string \<Rightarrow> user_facing_error" where
  "classify_runtime_error_message rx ctx err =
     (let normalized = trim (trim_error_chain_prefixes err);
          lower = to_ascii_lowercase normalized
      in if rx_budget_exhausted rx normalized \<noteq> None
         then \<lparr>ue_code = ''budget_exhausted'', ue_fields = the (rx_budget_exhausted rx normalized)\<rparr>
         else if prefix ''Budget exhausted.'' normalized \<or> prefix ''Budget exhausted ('' normalized
         then error_new ''budget_exhausted''
         else if rx_budget_paused rx normalized \<noteq> None
         then \<lparr>ue_code = ''budget_paused'', ue_fields = the (rx_budget_paused rx normalized)\<rparr>
         else if prefix ''Budget paused.'' normalized \<or> prefix ''Budget paused with '' normalized
           \<or> prefix ''Budget paused ('' normalized
         then error_new ''budget_paused''
         else if prefix ''Soft limit reached.'' normalized
         then with_field ''message'' (JString normalized) (error_new ''soft_limit_reached'')
         else if prefix ''Model not available: '' normalized
         then with_field ''model_id'' (JString (drop (length ''Model not available: '') normalized)) (error_new ''model_unavailable'')
         else if prefix ''Model not configured'' normalized \<or> sublist ''no model configured'' lower
         then error_new ''model_not_configured''
         else if prefix ''Request too large:'' normalized \<or> contains_any [''context length'', ''maximum context length''] lower
         then located ctx ''request_too_large''
         else if is_invalid_tool_schema_message lower
         then with_optional_field ''schema_path'' (map_option JString (extract_schema_path normalized))
                (located ctx ''invalid_tool_schema'')
         else if is_provider_quota_message normalized then located ctx ''provider_quota_exhausted''
         else if is_usage_limit_message normalized
         then with_optional_field ''resets_at'' (map_option (\<lambda>i. JNumber (show_nat (nat i))) (rx_resets_at rx normalized))
                (located ctx ''provider_usage_limit_reached'')
         else case parse_attestation_requirement rx normalized of
           Some requirement \<Rightarrow> apply_attestation_fields requirement (located ctx ''provider_attestation_required'')
         | None \<Rightarrow>
             if contains_any [''(429)'', ''rate limit'', ''too many requests''] lower
             then with_optional_field ''retry_after'' (map_option (\<lambda>n. JNumber (show_nat n)) (ex_retry_after ctx))
                    (located ctx ''provider_rate_limited'')
             else if contains_any [''(401)'', ''(403)''] lower then located ctx ''provider_misconfigured''
             else if contains_any [''api key is required'', ''configure the api key'', ''api key missing'',
                                   ''missing api key'', ''invalid api key''] lower
             then located ctx ''provider_misconfigured''
             else if contains_any [''(500)'', ''(502)'', ''(503)'', ''(504)'', ''(529)''] lower
             then located ctx ''provider_unavailable''
             else located ctx ''processing_error'')"

subsection \<open>Errors of the loop\<close>

definition kind_code :: "llm_error_kind \<Rightarrow> string option" where
  "kind_code kind =
     (case kind of
        Authentication \<Rightarrow> Some ''provider_misconfigured''
      | QuotaExhausted \<Rightarrow> Some ''provider_quota_exhausted''
      | BillingPressure reason _ \<Rightarrow>
          Some (case reason of InFlightBudgetExhausted \<Rightarrow> ''provider_rate_limited''
                | InsufficientCredits \<Rightarrow> ''provider_quota_exhausted'')
      | RateLimited \<Rightarrow> Some ''provider_rate_limited''
      | Unavailable \<Rightarrow> Some ''provider_unavailable''
      | AttestationRequired \<Rightarrow> Some ''provider_attestation_required''
      | InvalidRequest \<Rightarrow> None
      | OtherKind \<Rightarrow> None)"

definition user_facing_error_of :: "patterns \<Rightarrow> error_context \<Rightarrow> agent_loop_error \<Rightarrow> user_facing_error" where
  "user_facing_error_of rx ctx e =
     (case e of
        ModelNotConfigured \<Rightarrow> error_new ''model_not_configured''
      | ModelNotAvailable model_id \<Rightarrow>
          with_optional_field ''provider'' (map_option JString (ex_provider ctx))
            (with_field ''model_id'' (JString model_id) (error_new ''model_unavailable''))
      | RequestTooLargeError _ \<Rightarrow> located ctx ''request_too_large''
      | MaxIterationsReached n \<Rightarrow> with_field ''max_iterations'' (JNumber (show_nat n)) (error_new ''max_iterations'')
      | LlmFailure err \<Rightarrow>
          (case kind_code (er_kind err) of
             Some code \<Rightarrow>
               if code = ''provider_rate_limited'' then
                 with_optional_field ''retry_after''
                   (map_option (\<lambda>n. JNumber (show_nat n))
                     (case er_kind err of BillingPressure _ after \<Rightarrow> after | _ \<Rightarrow> ex_retry_after ctx))
                   (located ctx code)
               else if code = ''provider_attestation_required'' then
                 apply_attestation_fields
                   (get_or attestation_fallback (parse_attestation_requirement rx (er_message err))) (located ctx code)
               else located ctx code
           | None \<Rightarrow> classify_runtime_error_message rx ctx (er_message err))
      | _ \<Rightarrow> located ctx ''processing_error'')"

section \<open>Codes\<close>

lemma with_field_code [simp]: "ue_code (with_field k v e) = ue_code e"
  by (simp add: with_field_def)

lemma with_optional_field_code [simp]: "ue_code (with_optional_field k v e) = ue_code e"
  by (simp add: with_optional_field_def split: option.split)

lemma located_code [simp]: "ue_code (located ctx code) = code"
  by (simp add: located_def error_new_def)

lemma attestation_fields_code [simp]: "ue_code (apply_attestation_fields r e) = ue_code e"
  by (simp add: apply_attestation_fields_def Let_def)

text \<open>A semantic kind decides the code shown, whatever the text of the error.\<close>

lemma kind_decides_code: "kind_code kind = Some code \<Longrightarrow> ue_code (user_facing_error_of rx ctx (llm_kind kind msg)) = code"
  by (simp add: user_facing_error_of_def llm_kind_def)

lemma status_kind_quota:
  "is_provider_quota_message body \<or> is_usage_limit_message body \<Longrightarrow> from_provider_status rx status body = QuotaExhausted"
  by (simp add: from_provider_status_def)

text \<open>
  The semantic classifier merges the usage limit of a subscription with exhausted credits, so that a
  viewer is told to add credits and the code that carries the reset time is not reached, while the
  classifier of texts keeps them apart.
\<close>

lemma usage_limit_shown_as_quota:
  "is_usage_limit_message body \<Longrightarrow>
     ue_code (user_facing_error_of rx ctx (llm_kind (from_provider_status rx status body) msg)) = ''provider_quota_exhausted''"
  by (simp add: status_kind_quota kind_decides_code kind_code_def)

lemma disclosure_parse_as_str: "disclosure_parse (disclosure_as_str d) = Some d"
  by (cases d; simp add: disclosure_parse_def) (simp_all add: trim_def trim_start_def trim_end_def is_whitespace_def
      to_ascii_lowercase_def lower_char_def Let_def)

text \<open>
  The kind a driver assigns to a refused request and the retry loop agree: the kind is a transient
  one exactly when the status is one the loop retries and the body reports neither exhausted credits,
  nor a usage limit, nor a confirmation the account holder owes.
\<close>

lemma transient_kinds_agree:
  "from_provider_status rx status body \<in> {RateLimited, Unavailable}
   \<longleftrightarrow> is_transient_status status \<and> \<not> is_provider_quota_message body \<and> \<not> is_usage_limit_message body
       \<and> \<not> is_attestation_required_message rx body"
  by (auto simp: from_provider_status_def is_transient_status_def)

text \<open>An in-band error is retried by its status even when its text reports a usage limit.\<close>

lemma stream_usage_limit_retried:
  "is_transient_stream_error \<lparr>le_code = None, le_status = Some 429, le_message = ''usage_limit_reached''\<rparr>"
  "stream_error_kind rx \<lparr>le_code = None, le_status = Some 429, le_message = ''usage_limit_reached''\<rparr> = QuotaExhausted"
  by (simp_all add: is_transient_stream_error_def is_transient_status_def stream_error_kind_def from_provider_status_def
      is_usage_limit_message_def USAGE_NEEDLES_def contains_any_def to_ascii_lowercase_def lower_char_def Let_def)

section \<open>Properties\<close>

text \<open>The ceiling of the operator: what the first capability that contributes one says, else standard.\<close>

definition operator_ceiling ::
  "('c \<Rightarrow> error_disclosure option) \<Rightarrow> 'c list \<Rightarrow> error_disclosure \<Rightarrow> bool" where
  "operator_ceiling contrib configs limit \<longleftrightarrow>
     (\<exists>before c after. configs = before @ c # after \<and> (\<forall>b \<in> set before. contrib b = None) \<and> contrib c = Some limit)
     \<or> (\<forall>c \<in> set configs. contrib c = None) \<and> limit = DiscloseStandard"

text \<open>The error \<open>shown\<close> is \<open>e\<close> with the given text as its detail.\<close>

definition adds_detail :: "string \<Rightarrow> user_facing_error \<Rightarrow> user_facing_error \<Rightarrow> bool" where
  "adds_detail text e shown \<longleftrightarrow>
     ue_code shown = ue_code e \<and> hm_get (ue_fields shown) ''detail'' = Some (JString text)
     \<and> (\<forall>k. k \<noteq> ''detail'' \<longrightarrow> hm_get (ue_fields shown) k = hm_get (ue_fields e) k)"

lemma first_contribution_skip: "\<forall>b \<in> set before. contrib b = None \<Longrightarrow>
    first_contribution contrib (before @ configs) = first_contribution contrib configs"
  by (induction before) auto

lemma operator_ceiling_resolved:
  "operator_ceiling contrib configs limit \<Longrightarrow> get_or DiscloseStandard (first_contribution contrib configs) = limit"
  using first_contribution_skip [of configs contrib "[]"]
  by (auto simp: operator_ceiling_def first_contribution_skip)

lemma min_by_level:
  "min r (c :: error_disclosure) = (if disclosure_level r < disclosure_level c then r else c)"
  by (auto simp: min_def less_eq_error_disclosure_def)

lemma truncate_excerpt:
  "\<exists>part. prefix part d \<and> length part = min n (length d)
    \<and> truncate_chars rx d n = part @ (if length part < length d then rx_ellipsis rx else [])"
  by (rule exI [of _ "take n d"]) (auto simp: truncate_chars_def take_is_prefix)

lemma with_detail_adds: "adds_detail text e (with_field ''detail'' (JString text) e)"
  by (simp add: adds_detail_def with_field_def)

text \<open>
  C29. A client never widens disclosure. The operator's ceiling is what the first contributing
  capability says, else standard; without a request the mode of a turn is the ceiling, a request by
  name is granted up to the ceiling, and no request, however spelled, gives more than the ceiling.
  In the generic mode every error is shown as the same one without fields, in the standard one as it
  is, and only in the detailed one the text of the driver is added: at most its first 1000 characters,
  with an ellipsis exactly when more was cut off, and nothing else of the error changes.
\<close>

theorem disclosure_within_ceiling:
  assumes "operator_ceiling contrib configs limit"
  shows "let mode = resolve_error_disclosure contrib configs requested;
             shown = apply_disclosure rx mode detail e
    in (requested = None \<longrightarrow> mode = limit)
      \<and> (\<forall>m. requested = Some (disclosure_as_str m) \<longrightarrow>
            mode = (if disclosure_level m < disclosure_level limit then m else limit))
      \<and> disclosure_level mode \<le> disclosure_level limit
      \<and> (case mode of
           DiscloseGeneric \<Rightarrow> ue_code shown = ''processing_error'' \<and> ue_fields shown = []
         | DiscloseStandard \<Rightarrow> shown = e
         | DiscloseDetailed \<Rightarrow>
             (case detail of
                None \<Rightarrow> shown = e
              | Some text \<Rightarrow>
                  if trim text = [] then shown = e
                  else \<exists>part. prefix part (trim text) \<and> length part = min 1000 (length (trim text))
                    \<and> adds_detail (part @ (if length part < length (trim text) then rx_ellipsis rx else [])) e shown))"
proof -
  let ?mode = "resolve_error_disclosure contrib configs requested"
  have limit: "get_or DiscloseStandard (first_contribution contrib configs) = limit"
    using assms by (rule operator_ceiling_resolved)
  have "requested = None \<Longrightarrow> ?mode = limit"
    by (simp add: resolve_error_disclosure_def limit)
  moreover have "?mode = (if disclosure_level m < disclosure_level limit then m else limit)"
    if "requested = Some (disclosure_as_str m)" for m
    using that by (simp add: resolve_error_disclosure_def limit disclosure_parse_as_str min_by_level)
  moreover have "disclosure_level ?mode \<le> disclosure_level limit"
    by (auto simp: resolve_error_disclosure_def limit min_by_level split: option.split)
  moreover have "\<exists>part. prefix part d \<and> length part = min 1000 (length d)
      \<and> adds_detail (part @ (if length part < length d then rx_ellipsis rx else [])) e
          (with_field ''detail'' (JString (truncate_chars rx d DETAIL_MAX_CHARS)) e)" for d
    using truncate_excerpt [of d DETAIL_MAX_CHARS rx] with_detail_adds [of _ e] by (fastforce simp: DETAIL_MAX_CHARS_def)
  ultimately show ?thesis
    unfolding Let_def by (cases ?mode; cases detail) (auto simp: apply_disclosure_def error_new_def)
qed

text \<open>Under a standard ceiling a request for details shows the error as it is.\<close>

theorem disclosure_within_ceiling_witness:
  "\<forall>rx. apply_disclosure rx (resolve_error_disclosure (\<lambda>_. Some DiscloseStandard) [()] (Some ''detailed''))
    (Some ''connection refused'') (error_new ''provider_error'') = error_new ''provider_error''"
proof
  fix rx
  have "operator_ceiling (\<lambda>_. Some DiscloseStandard) [()] DiscloseStandard"
    unfolding operator_ceiling_def by (rule disjI1) (rule exI [of _ "[]"], simp)
  note shown = disclosure_within_ceiling [OF this, of "Some (disclosure_as_str DiscloseDetailed)" rx
      "Some ''connection refused''" "error_new ''provider_error''", unfolded Let_def]
  have "resolve_error_disclosure (\<lambda>_. Some DiscloseStandard) [()] (Some (disclosure_as_str DiscloseDetailed)) = DiscloseStandard"
    using shown [THEN conjunct2, THEN conjunct1, rule_format, OF refl] by simp
  with shown [THEN conjunct2, THEN conjunct2, THEN conjunct2] show "apply_disclosure rx (resolve_error_disclosure (\<lambda>_. Some DiscloseStandard) [()] (Some ''detailed''))
      (Some ''connection refused'') (error_new ''provider_error'') = error_new ''provider_error''" by simp
qed

end
