(* ===== verification/Llm_Retry.thy ===== *)
theory Llm_Retry
  imports Llm_Errors
begin

text \<open>
  Retries of requests to a provider (\<open>crates/provider/src/llm_retry.rs\<close>): backoff with jitter, the time
  budget, rate limit headers, and the loop \<open>retry_request\<close> with the classifiers of the OpenAI and the
  Anthropic driver. One pass through the loop is \<open>retry_step\<close>; \<open>retry_loop\<close> iterates it with fuel, since the
  loop ends only if the classifier behaves. What the loop relies on is the locale \<open>retry_classifier\<close>; both
  classifiers satisfy it, and so the loop is shown to end. Instants and durations are nanoseconds.
  The network, the random numbers and how late a sleep wakes up are functions of the number of the
  pass; headers are a function from names to the values that are text.
\<close>

section \<open>Configuration and backoff\<close>

definition MAX_RETRY_AFTER_SECS :: nat where "MAX_RETRY_AFTER_SECS = 60"

record llm_retry_config =
  rg_max_retries :: u32
  rg_initial_backoff :: duration
  rg_max_backoff :: duration
  rg_backoff_multiplier :: f64
  rg_jitter_factor :: f64
  rg_max_retry_elapsed :: duration

definition retry_config_default :: llm_retry_config where
  "retry_config_default =
     \<lparr>rg_max_retries = 2, rg_initial_backoff = from_secs 1, rg_max_backoff = from_secs 60, rg_backoff_multiplier = 2,
      rg_jitter_factor = 1 / 4, rg_max_retry_elapsed = from_secs 30\<rparr>"

definition retry_config_none :: llm_retry_config where
  "retry_config_none = retry_config_default\<lparr>rg_max_retries := 0\<rparr>"

definition retry_config_aggressive :: llm_retry_config where
  "retry_config_aggressive =
     \<lparr>rg_max_retries = 5, rg_initial_backoff = from_millis 500, rg_max_backoff = from_secs 120, rg_backoff_multiplier = 2,
      rg_jitter_factor = 1 / 4, rg_max_retry_elapsed = from_secs 120\<rparr>"

text \<open>The random number \<open>r\<close> is in \<open>[0, 1)\<close>; \<open>None\<close> is the panic of \<open>Duration::from_secs_f64\<close>.\<close>

definition calculate_backoff :: "llm_retry_config \<Rightarrow> u32 \<Rightarrow> f64 \<Rightarrow> duration option" where
  "calculate_backoff config attempt r =
     (let base = as_secs_f64 (rg_initial_backoff config) * f64_powi (rg_backoff_multiplier config) (as_i32 (unat attempt));
          capped = min base (as_secs_f64 (rg_max_backoff config));
          jitter = (if 0 < rg_jitter_factor config then capped * rg_jitter_factor config * (r * 2 - 1) else 0)
      in from_secs_f64 (max (capped + jitter) 0))"

text \<open>\<open>started\<close> is the instant of the first transient failure, set here when there was none.\<close>

definition reserve_retry_wait ::
  "llm_retry_config \<Rightarrow> nat option \<Rightarrow> nat \<Rightarrow> duration \<Rightarrow> nat option \<times> duration option" where
  "reserve_retry_wait config started_at now wait =
     (let started = get_or now started_at; elapsed = now - started in
      (Some started,
       if elapsed \<le> rg_max_retry_elapsed config \<and> wait < rg_max_retry_elapsed config - elapsed then Some wait else None))"

definition remaining_retry_time :: "llm_retry_config \<Rightarrow> nat option \<Rightarrow> nat \<Rightarrow> duration option" where
  "remaining_retry_time config started_at now =
     Option.bind started_at (\<lambda>started.
       if now - started \<le> rg_max_retry_elapsed config then Some (rg_max_retry_elapsed config - (now - started)) else None)"

section \<open>Rate limits\<close>

datatype rate_limit_type = LimitRequests | LimitInputTokens | LimitOutputTokens | LimitTotalTokens | LimitUnknown

record rate_limit_info =
  rl_retry_after_secs :: "nat option"
  rl_requests_remaining :: "nat option"
  rl_tokens_remaining :: "nat option"
  rl_requests_reset :: "string option"
  rl_tokens_reset :: "string option"
  rl_limit_type :: "rate_limit_type option"

definition recommended_wait :: "rate_limit_info \<Rightarrow> llm_retry_config \<Rightarrow> u32 \<Rightarrow> f64 \<Rightarrow> duration option" where
  "recommended_wait info config attempt r =
     (case rl_retry_after_secs info of
        Some retry_after \<Rightarrow>
          if 0 < retry_after \<and> retry_after \<le> MAX_RETRY_AFTER_SECS then Some (from_secs retry_after)
          else calculate_backoff config attempt r
      | None \<Rightarrow> calculate_backoff config attempt r)"

definition duration_unit :: "char \<Rightarrow> nat option" where
  "duration_unit c = (if c = CHR ''h'' then Some 3600 else if c = CHR ''m'' then Some 60 else if c = CHR ''s'' then Some 1 else None)"

text \<open>\<open>checked_add\<close> and \<open>checked_mul\<close> on \<open>u64\<close>.\<close>

definition checked_u64 :: "nat \<Rightarrow> nat option" where
  "checked_u64 n = (if n < 2 ^ 64 then Some n else None)"

fun duration_chars :: "nat \<Rightarrow> string \<Rightarrow> string \<Rightarrow> nat option" where
  "duration_chars secs current_num [] = (if 0 < secs \<and> current_num = [] then Some secs else None)"
| "duration_chars secs current_num (c # s) =
     (if is_ascii_digit c then duration_chars secs (current_num @ [c]) s
      else case parse_unsigned 64 current_num of
             None \<Rightarrow> None
           | Some num \<Rightarrow>
               (case duration_unit c of
                  None \<Rightarrow> None
                | Some multiplier \<Rightarrow>
                    (case Option.bind (checked_u64 (num * multiplier)) (\<lambda>n. checked_u64 (secs + n)) of
                       None \<Rightarrow> None
                     | Some secs' \<Rightarrow> duration_chars secs' [] s)))"

definition parse_duration_string :: "string \<Rightarrow> nat option" where
  "parse_duration_string text = (let s = trim text in if s = [] then None else duration_chars 0 [] s)"

text \<open>\<open>retry-after-ms\<close> rounded up to seconds, otherwise \<open>retry-after\<close>.\<close>

definition retry_after_of :: "(string \<Rightarrow> string option) \<Rightarrow> nat option" where
  "retry_after_of headers =
     (case Option.bind (headers ''retry-after-ms'') (parse_unsigned 64) of
        Some ms \<Rightarrow> Some ((ms + 999) div 1000)
      | None \<Rightarrow> Option.bind (headers ''retry-after'') (parse_unsigned 64))"

definition from_anthropic_headers :: "(string \<Rightarrow> string option) \<Rightarrow> rate_limit_info" where
  "from_anthropic_headers headers =
     (let requests = Option.bind (headers ''anthropic-ratelimit-requests-remaining'') (parse_unsigned 32);
          tokens = Option.bind (headers ''anthropic-ratelimit-tokens-remaining'') (parse_unsigned 32)
      in \<lparr>rl_retry_after_secs = retry_after_of headers, rl_requests_remaining = requests, rl_tokens_remaining = tokens,
          rl_requests_reset = headers ''anthropic-ratelimit-requests-reset'',
          rl_tokens_reset = headers ''anthropic-ratelimit-tokens-reset'',
          rl_limit_type = (if requests = Some 0 then Some LimitRequests
                           else if tokens = Some 0 then Some LimitInputTokens else None)\<rparr>)"

definition from_openai_headers :: "(string \<Rightarrow> string option) \<Rightarrow> rate_limit_info" where
  "from_openai_headers headers =
     (let requests = Option.bind (headers ''x-ratelimit-remaining-requests'') (parse_unsigned 32);
          tokens = Option.bind (headers ''x-ratelimit-remaining-tokens'') (parse_unsigned 32);
          reset = headers ''x-ratelimit-reset-requests''
      in \<lparr>rl_retry_after_secs = option_or (retry_after_of headers) (Option.bind reset parse_duration_string),
          rl_requests_remaining = requests, rl_tokens_remaining = tokens, rl_requests_reset = reset,
          rl_tokens_reset = headers ''x-ratelimit-reset-tokens'',
          rl_limit_type = (if requests = Some 0 then Some LimitRequests
                           else if tokens = Some 0 then Some LimitTotalTokens else None)\<rparr>)"

section \<open>Metadata\<close>

record retry_metadata =
  rm_attempts :: u32
  rm_total_retry_wait :: duration
  rm_total_retry_elapsed :: duration
  rm_last_rate_limit_info :: "rate_limit_info option"

definition metadata_default :: retry_metadata where
  "metadata_default =
     \<lparr>rm_attempts = 0, rm_total_retry_wait = 0, rm_total_retry_elapsed = 0, rm_last_rate_limit_info = None\<rparr>"

definition had_retries :: "retry_metadata \<Rightarrow> bool" where
  "had_retries m \<longleftrightarrow> 0 < rm_attempts m"

definition record_retry :: "duration \<Rightarrow> rate_limit_info option \<Rightarrow> retry_metadata \<Rightarrow> retry_metadata" where
  "record_retry wait info m =
     m\<lparr>rm_attempts := rm_attempts m + 1, rm_total_retry_wait := rm_total_retry_wait m + wait,
       rm_last_rate_limit_info := option_or info (rm_last_rate_limit_info m)\<rparr>"

text \<open>\<open>u32::saturating_add\<close>; durations do not reach their bound.\<close>

definition saturating_add_u32 :: "u32 \<Rightarrow> u32 \<Rightarrow> u32" where
  "saturating_add_u32 a b = (if 2 ^ 32 \<le> unat a + unat b then - 1 else a + b)"

definition absorb :: "retry_metadata \<Rightarrow> retry_metadata \<Rightarrow> retry_metadata" where
  "absorb other m =
     \<lparr>rm_attempts = saturating_add_u32 (rm_attempts m) (rm_attempts other),
      rm_total_retry_wait = rm_total_retry_wait m + rm_total_retry_wait other,
      rm_total_retry_elapsed = rm_total_retry_elapsed m + rm_total_retry_elapsed other,
      rm_last_rate_limit_info = option_or (rm_last_rate_limit_info other) (rm_last_rate_limit_info m)\<rparr>"

definition with_retry_metadata :: "retry_metadata \<Rightarrow> agent_loop_error \<Rightarrow> agent_loop_error" where
  "with_retry_metadata m e =
     (case e of
        LlmFailure err \<Rightarrow>
          LlmFailure (err\<lparr>er_retry_attempts := rm_attempts m, er_retry_wait_ms := as_millis (rm_total_retry_wait m) mod 2 ^ 64,
                          er_retry_handled := True\<rparr>)
      | _ \<Rightarrow> e)"

section \<open>The loop\<close>

text \<open>A failure to send, by what \<open>reqwest\<close> says of it; and a response.\<close>

record transport_error =
  te_connect :: bool
  te_timeout :: bool
  te_request :: bool
  te_text :: string

definition is_transient_send_error :: "transport_error \<Rightarrow> bool" where
  "is_transient_send_error e \<longleftrightarrow> te_connect e \<or> te_timeout e \<or> te_request e"

definition send_error_message :: "transport_error \<Rightarrow> u32 \<Rightarrow> string" where
  "send_error_message e attempts =
     ''Failed to send request: '' @ te_text e
     @ (if 0 < attempts then '' (after '' @ show_nat (unat attempts) @ '' retries)'' else [])"

datatype send_outcome = SendError transport_error | SendFatal agent_loop_error

record response =
  re_status :: nat
  re_headers :: "string \<Rightarrow> string option"
  re_text :: string

definition is_success :: "nat \<Rightarrow> bool" where
  "is_success status \<longleftrightarrow> 200 \<le> status \<and> status < 300"

datatype retry_decision = Retry duration "rate_limit_info option" | RetryNow | Terminal agent_loop_error

text \<open>
  A classifier works on cells it shares with the request; it is given a random number for the backoff
  and is \<open>None\<close> when computing that panics.
\<close>

type_synonym 'c classifier = "'c \<Rightarrow> response \<Rightarrow> u32 \<Rightarrow> bool \<Rightarrow> f64 \<Rightarrow> (retry_decision \<times> 'c) option"

record 'c network =
  nw_send :: "nat \<Rightarrow> 'c \<Rightarrow> duration \<times> (send_outcome + response)"
  nw_read_body :: "nat \<Rightarrow> duration"
  nw_random :: "nat \<Rightarrow> f64"
  nw_oversleep :: "nat \<Rightarrow> duration"

record 'c retry_state =
  sr_now :: nat
  sr_started :: "nat option"
  sr_meta :: retry_metadata
  sr_cells :: 'c
  sr_sends :: nat

datatype 'a verdict = Continue | Return 'a | Panic

text \<open>The elapsed time of an error text, with one decimal.\<close>

definition show_tenths :: "duration \<Rightarrow> string" where
  "show_tenths d =
     (let n = nat (round_half_even (as_secs_f64 d * 10)) in show_nat (n div 10) @ ''.'' @ show_nat (n mod 10))"

definition retry_budget_exhausted :: "llm_retry_config \<Rightarrow> string \<Rightarrow> retry_metadata \<Rightarrow> agent_loop_error" where
  "retry_budget_exhausted config driver m =
     with_retry_metadata m
       (llm_kind Unavailable
         (driver @ '' retry time budget exhausted after '' @ show_nat (unat (rm_attempts m)) @ '' retries over ''
          @ show_tenths (rg_max_retry_elapsed config) @ ''s''))"

definition driver_send_error :: "transport_error \<Rightarrow> u32 \<Rightarrow> agent_loop_error" where
  "driver_send_error e attempts = llm_untyped (send_error_message e attempts)"

text \<open>Record a retry and sleep; \<open>i\<close> is the number of the pass.\<close>

definition sleep_retry ::
  "'c network \<Rightarrow> nat \<Rightarrow> duration \<Rightarrow> rate_limit_info option \<Rightarrow> nat option \<Rightarrow> 'c retry_state \<Rightarrow> 'c retry_state" where
  "sleep_retry nw i wait info started s =
     s\<lparr>sr_started := started, sr_meta := record_retry wait info (sr_meta s), sr_now := sr_now s + wait + nw_oversleep nw i\<rparr>"

definition after_send_error ::
  "llm_retry_config \<Rightarrow> 'c network \<Rightarrow> nat \<Rightarrow> transport_error \<Rightarrow> 'c retry_state
     \<Rightarrow> (agent_loop_error + response \<times> retry_metadata) verdict \<times> 'c retry_state" where
  "after_send_error config nw i e s =
     (let m = sr_meta s; failure = with_retry_metadata m (driver_send_error e (rm_attempts m)) in
      if is_transient_send_error e \<and> rm_attempts m < rg_max_retries config then
        (case calculate_backoff config (rm_attempts m) (nw_random nw i) of
           None \<Rightarrow> (Panic, s)
         | Some proposed \<Rightarrow>
             (case reserve_retry_wait config (sr_started s) (sr_now s) proposed of
                (started, None) \<Rightarrow> (Return (Inl failure), s)
              | (started, Some wait) \<Rightarrow> (Continue, sleep_retry nw i wait None started s)))
      else (Return (Inl failure), s))"

definition finished_metadata :: "'c retry_state \<Rightarrow> retry_metadata" where
  "finished_metadata s =
     (if had_retries (sr_meta s)
      then (sr_meta s)\<lparr>rm_total_retry_elapsed := (case sr_started s of Some t \<Rightarrow> sr_now s - t | None \<Rightarrow> 0)\<rparr>
      else sr_meta s)"

definition after_response ::
  "llm_retry_config \<Rightarrow> string \<Rightarrow> 'c classifier \<Rightarrow> 'c network \<Rightarrow> nat \<Rightarrow> response \<Rightarrow> 'c retry_state
     \<Rightarrow> (agent_loop_error + response \<times> retry_metadata) verdict \<times> 'c retry_state" where
  "after_response config driver classify nw i response s =
     (if is_success (re_status response) then (Return (Inr (response, finished_metadata s)), s)
      else
        let m = sr_meta s;
            can_retry = (is_transient_status (re_status response) \<and> rm_attempts m < rg_max_retries config)
        in case classify (sr_cells s) response (rm_attempts m) can_retry (nw_random nw i) of
             None \<Rightarrow> (Panic, s)
           | Some (decision, cells) \<Rightarrow>
               let s' = s\<lparr>sr_cells := cells, sr_now := sr_now s + nw_read_body nw i\<rparr> in
               (case decision of
                  Retry wait info \<Rightarrow>
                    (case reserve_retry_wait config (sr_started s') (sr_now s') wait of
                       (started, None) \<Rightarrow> (Return (Inl (retry_budget_exhausted config driver m)), s')
                     | (started, Some wait') \<Rightarrow> (Continue, sleep_retry nw i wait' info started s'))
                | RetryNow \<Rightarrow> (Continue, s')
                | Terminal err \<Rightarrow> (Return (Inl (with_retry_metadata m err)), s')))"

text \<open>One pass. Once recovery has started, the request itself runs under the rest of the budget.\<close>

definition retry_step ::
  "llm_retry_config \<Rightarrow> string \<Rightarrow> 'c classifier \<Rightarrow> 'c network \<Rightarrow> 'c retry_state
     \<Rightarrow> (agent_loop_error + response \<times> retry_metadata) verdict \<times> 'c retry_state" where
  "retry_step config driver classify nw s =
     (let i = sr_sends s;
          s0 = s\<lparr>sr_sends := Suc i\<rparr>;
          exhausted = Return (Inl (retry_budget_exhausted config driver (sr_meta s)));
          (took, result) = nw_send nw i (sr_cells s);
          remaining = get_or 0 (remaining_retry_time config (sr_started s) (sr_now s));
          sent = s0\<lparr>sr_now := sr_now s + took\<rparr>
      in if sr_started s \<noteq> None \<and> remaining = 0 then (exhausted, s)
         else if sr_started s \<noteq> None \<and> remaining < took then (exhausted, s0\<lparr>sr_now := sr_now s + remaining\<rparr>)
         else case result of
                Inl (SendFatal err) \<Rightarrow> (Return (Inl err), sent)
              | Inl (SendError e) \<Rightarrow> after_send_error config nw i e sent
              | Inr response \<Rightarrow> after_response config driver classify nw i response sent)"

fun retry_loop ::
  "nat \<Rightarrow> llm_retry_config \<Rightarrow> string \<Rightarrow> 'c classifier \<Rightarrow> 'c network \<Rightarrow> 'c retry_state
     \<Rightarrow> (agent_loop_error + response \<times> retry_metadata) verdict \<times> 'c retry_state" where
  "retry_loop 0 config driver classify nw s = (Continue, s)"
| "retry_loop (Suc n) config driver classify nw s =
     (case retry_step config driver classify nw s of
        (Continue, s') \<Rightarrow> retry_loop n config driver classify nw s'
      | done \<Rightarrow> done)"

definition retry_start :: "nat \<Rightarrow> 'c \<Rightarrow> 'c retry_state" where
  "retry_start now cells =
     \<lparr>sr_now = now, sr_started = None, sr_meta = metadata_default, sr_cells = cells, sr_sends = 0\<rparr>"

section \<open>Classifiers of the drivers\<close>

definition is_openai_model_not_found :: "nat \<Rightarrow> string \<Rightarrow> bool" where
  "is_openai_model_not_found status text \<longleftrightarrow>
     (let lower = to_ascii_lowercase text in
      status \<in> {404, 400, 403} \<and> sublist ''model_not_found'' lower
      \<or> status = 404 \<and> (sublist ''does not exist'' lower \<or> sublist ''model'' lower \<and> sublist ''not found'' lower))"

definition is_openai_request_too_large :: "nat \<Rightarrow> string \<Rightarrow> bool" where
  "is_openai_request_too_large status text \<longleftrightarrow>
     (let lower = to_ascii_lowercase text in
      status = 429 \<and> (sublist ''request too large'' lower \<or> sublist ''tokens'' lower \<and> sublist ''limit'' lower)
      \<or> status = 400 \<and> contains_any [''context_length_exceeded'', ''maximum context length''] lower
      \<or> contains_any [''tokens must be reduced'', ''reduce the length'', ''input is too long''] lower)"

definition is_request_too_large :: "string list \<Rightarrow> nat \<Rightarrow> string \<Rightarrow> bool" where
  "is_request_too_large extra_patterns status text \<longleftrightarrow>
     (let lower = to_ascii_lowercase text in
      status = 413
      \<or> 400 \<le> status \<and> status < 500
        \<and> (contains_any [''input is too long'', ''maximum context''] lower
            \<or> sublist ''exceeds the maximum'' lower \<and> contains_any [''token'', ''context''] lower
            \<or> contains_any extra_patterns lower))"

definition is_anthropic_request_too_large :: "nat \<Rightarrow> string \<Rightarrow> bool" where
  "is_anthropic_request_too_large =
     is_request_too_large [''prompt is too long'', ''request size exceeded'', ''context length'', ''too many tokens'']"

definition is_anthropic_model_not_found :: "nat \<Rightarrow> string \<Rightarrow> bool" where
  "is_anthropic_model_not_found status text \<longleftrightarrow>
     (let lower = to_ascii_lowercase text in
      status = 404 \<and> (sublist ''not_found_error'' lower \<or> sublist ''model'' lower \<and> sublist ''not found'' lower))"

text \<open>The texts of the drivers; \<open>st\<close> is how \<open>reqwest\<close> shows a status.\<close>

record error_texts =
  ew_status :: "nat \<Rightarrow> string"
  ew_patterns :: patterns

definition api_error :: "error_texts \<Rightarrow> string \<Rightarrow> response \<Rightarrow> string" where
  "api_error ew api response = api @ '' API error ('' @ ew_status ew (re_status response) @ ''): '' @ re_text response"

definition retry_wait :: "llm_retry_config \<Rightarrow> rate_limit_info option \<Rightarrow> u32 \<Rightarrow> f64 \<Rightarrow> duration option" where
  "retry_wait config info attempts r =
     (case info of Some i \<Rightarrow> recommended_wait i config attempts r | None \<Rightarrow> calculate_backoff config attempts r)"

text \<open>The terminal error with its kind; after retries it tells of the last error, which is taken out of its cell.\<close>

definition terminal_kind :: "error_texts \<Rightarrow> string \<Rightarrow> response \<Rightarrow> u32 \<Rightarrow> string option \<Rightarrow> agent_loop_error" where
  "terminal_kind ew api response attempts last_error =
     (let kind = from_provider_status (ew_patterns ew) (re_status response) (re_text response);
          msg = api_error ew api response
      in llm_kind kind
           (if 0 < attempts
            then msg @ '' (after '' @ show_nat (unat attempts) @ '' retries, last error: '' @ get_or [] last_error @ '')''
            else msg))"

text \<open>The cell of the OpenAI driver is its \<open>last_error\<close>.\<close>

definition openai_classify :: "llm_retry_config \<Rightarrow> error_texts \<Rightarrow> string \<Rightarrow> string option classifier" where
  "openai_classify config ew model last_error response attempts can_retry r =
     (let status = re_status response; text = re_text response in
      if can_retry then
        (let info = (if status = 429 then Some (from_openai_headers (re_headers response)) else None) in
         if is_openai_request_too_large status text
         then Some (Terminal (RequestTooLargeError (api_error ew ''OpenAI'' response)), last_error)
         else if is_provider_quota_message text
         then Some (Terminal (llm_kind QuotaExhausted (api_error ew ''OpenAI'' response)), last_error)
         else map_option (\<lambda>wait. (Retry wait info, Some text)) (retry_wait config info attempts r))
      else if is_openai_model_not_found status text then Some (Terminal (ModelNotAvailable model), last_error)
      else if is_openai_request_too_large status text
      then Some (Terminal (RequestTooLargeError (api_error ew ''OpenAI'' response)), last_error)
      else Some (Terminal (terminal_kind ew ''OpenAI'' response attempts last_error),
                 if 0 < attempts then None else last_error))"

text \<open>
  The cells of the Anthropic driver: the last error, whether the smaller output limit was tried, and
  the limit of the request, which that changes.
\<close>

record anthropic_cells =
  ac_last_error :: "string option"
  ac_fallback_attempted :: bool
  ac_max_tokens :: u32

definition FALLBACK_MAX_TOKENS :: u32 where "FALLBACK_MAX_TOKENS = 16384"

definition anthropic_classify ::
  "llm_retry_config \<Rightarrow> error_texts \<Rightarrow> string \<Rightarrow> bool \<Rightarrow> anthropic_cells classifier" where
  "anthropic_classify config ew model max_tokens_from_profile cells response attempts can_retry r =
     (let status = re_status response; text = re_text response in
      if can_retry then
        (let info = (if status = 429 then Some (from_anthropic_headers (re_headers response)) else None) in
         if is_anthropic_request_too_large status text
         then Some (Terminal (RequestTooLargeError (api_error ew ''Anthropic'' response)), cells)
         else if is_provider_quota_message text
         then Some (Terminal (llm_kind QuotaExhausted (api_error ew ''Anthropic'' response)), cells)
         else map_option (\<lambda>wait. (Retry wait info, cells\<lparr>ac_last_error := Some text\<rparr>)) (retry_wait config info attempts r))
      else if status = 400 \<and> \<not> ac_fallback_attempted cells \<and> max_tokens_from_profile
        \<and> contains_any [''max_tokens'', ''maximum output tokens''] text
      then Some (RetryNow, cells\<lparr>ac_max_tokens := FALLBACK_MAX_TOKENS, ac_fallback_attempted := True\<rparr>)
      else if is_anthropic_model_not_found status text then Some (Terminal (ModelNotAvailable model), cells)
      else if is_anthropic_request_too_large status text
      then Some (Terminal (RequestTooLargeError (api_error ew ''Anthropic'' response)), cells)
      else Some (Terminal (terminal_kind ew ''Anthropic'' response attempts (ac_last_error cells)),
                 if 0 < attempts then cells\<lparr>ac_last_error := None\<rparr> else cells))"

text \<open>\<open>retries_consumed\<close> retries were already made by the layer above.\<close>

definition reduced_config :: "llm_retry_config \<Rightarrow> u32 \<Rightarrow> llm_retry_config" where
  "reduced_config config retries_consumed =
     config\<lparr>rg_max_retries := saturating_sub_u32 (rg_max_retries config) retries_consumed\<rparr>"

section \<open>Budgets\<close>

text \<open>
  What holds between two passes: the retries are within their number, and the waits together are
  shorter than the time budget and than the time since the first failure.
\<close>

definition retry_inv :: "llm_retry_config \<Rightarrow> 'c retry_state \<Rightarrow> bool" where
  "retry_inv config s \<longleftrightarrow>
     rm_attempts (sr_meta s) \<le> rg_max_retries config
     \<and> (case sr_started s of
          None \<Rightarrow> rm_attempts (sr_meta s) = 0 \<and> rm_total_retry_wait (sr_meta s) = 0
        | Some t \<Rightarrow> t \<le> sr_now s \<and> rm_total_retry_wait (sr_meta s) \<le> sr_now s - t
                    \<and> rm_total_retry_wait (sr_meta s) < rg_max_retry_elapsed config)"

lemma retry_inv_start: "retry_inv config (retry_start now cells)"
  by (simp add: retry_inv_def retry_start_def metadata_default_def)

lemma retry_inv_later:
  "retry_inv config s \<Longrightarrow> sr_now s \<le> sr_now s' \<Longrightarrow> sr_started s' = sr_started s \<Longrightarrow> sr_meta s' = sr_meta s
     \<Longrightarrow> retry_inv config s'"
  by (auto simp: retry_inv_def split: option.splits)

lemma record_retry_simps [simp]:
  "rm_attempts (record_retry w i m) = rm_attempts m + 1"
  "rm_total_retry_wait (record_retry w i m) = rm_total_retry_wait m + w"
  by (simp_all add: record_retry_def)

lemma sleep_retry_simps [simp]:
  "sr_cells (sleep_retry nw i w info st s) = sr_cells s" "sr_sends (sleep_retry nw i w info st s) = sr_sends s"
  "sr_meta (sleep_retry nw i w info st s) = record_retry w info (sr_meta s)"
  by (simp_all add: sleep_retry_def)

lemma retry_inv_sleep:
  assumes "retry_inv config s" and "reserve_retry_wait config (sr_started s) (sr_now s) proposed = (started, Some wait)"
    and "rm_attempts (sr_meta s) < rg_max_retries config"
  shows "retry_inv config (sleep_retry nw i wait info started s)"
  using assms(1,2) succ_below_le [OF assms(3)]
  by (auto simp: retry_inv_def reserve_retry_wait_def sleep_retry_def Let_def split: option.splits if_splits)

locale retry_classifier =
  fixes classify :: "'c classifier" and resends :: "'c \<Rightarrow> nat"
  assumes retry_allowed: "classify c r a b x = Some (Retry w i, c') \<Longrightarrow> b \<and> resends c' \<le> resends c"
    and resend_bounded: "classify c r a b x = Some (RetryNow, c') \<Longrightarrow> resends c' < resends c"
begin

text \<open>The passes still possible after this one.\<close>

definition passes_left :: "llm_retry_config \<Rightarrow> 'c retry_state \<Rightarrow> nat" where
  "passes_left config s = (unat (rg_max_retries config) - unat (rm_attempts (sr_meta s))) + resends (sr_cells s)"

lemma attempt_uses_pass:
  "a < b \<Longrightarrow> unat b - unat (a + 1 :: u32) < unat b - unat a"
  by (simp add: unat_succ_below word_less_nat_alt)

lemma after_send_error_step:
  assumes "after_send_error config nw i e s = (v, s')" and "retry_inv config s"
  shows "retry_inv config s' \<and> sr_sends s' = sr_sends s \<and> (v = Continue \<longrightarrow> passes_left config s' < passes_left config s)"
  using assms retry_inv_sleep attempt_uses_pass
  by (auto simp: after_send_error_def passes_left_def Let_def split: if_splits option.splits prod.splits)

lemma after_response_step:
  assumes "after_response config driver classify nw i r s = (v, s')" and inv: "retry_inv config s"
  shows "retry_inv config s' \<and> sr_sends s' = sr_sends s \<and> (v = Continue \<longrightarrow> passes_left config s' < passes_left config s)"
proof (cases "is_success (re_status r)")
  case True
  then show ?thesis using assms by (auto simp: after_response_def)
next
  case False
  let ?m = "sr_meta s"
  let ?can = "is_transient_status (re_status r) \<and> rm_attempts ?m < rg_max_retries config"
  let ?late = "\<lambda>cells. s\<lparr>sr_cells := cells, sr_now := sr_now s + nw_read_body nw i\<rparr>"
  have late: "retry_inv config (?late cells)" for cells by (rule retry_inv_later [OF inv]) simp_all
  show ?thesis
  proof (cases "classify (sr_cells s) r (rm_attempts ?m) ?can (nw_random nw i)")
    case None
    then show ?thesis using False assms by (auto simp: after_response_def Let_def)
  next
    case (Some d)
    then obtain decision cells where d: "classify (sr_cells s) r (rm_attempts ?m) ?can (nw_random nw i) = Some (decision, cells)"
      by (cases d) auto
    show ?thesis
    proof (cases decision)
      case (Retry wait info)
      have can: ?can and "resends cells \<le> resends (sr_cells s)" using retry_allowed d Retry by blast+
      moreover have "retry_inv config (sleep_retry nw i w info started (?late cells))"
        if "reserve_retry_wait config (sr_started (?late cells)) (sr_now (?late cells)) wait = (started, Some w)" for w started
        using retry_inv_sleep [OF late that] can by simp
      ultimately show ?thesis
        using False assms(1) d Retry late attempt_uses_pass [of "rm_attempts ?m" "rg_max_retries config"]
        by (auto simp: after_response_def Let_def passes_left_def split: prod.splits option.splits)
    next
      case RetryNow
      then show ?thesis
        using False assms(1) d late resend_bounded by (auto simp: after_response_def Let_def passes_left_def)
    next
      case (Terminal err)
      then show ?thesis using False assms(1) d late by (auto simp: after_response_def Let_def)
    qed
  qed
qed

lemma retry_step_inv:
  assumes "retry_step config driver classify nw s = (v, s')" and "retry_inv config s"
  shows "retry_inv config s' \<and> sr_sends s' \<le> Suc (sr_sends s) \<and> (v = Continue \<longrightarrow> passes_left config s' < passes_left config s)"
proof -
  obtain took result where send: "nw_send nw (sr_sends s) (sr_cells s) = (took, result)" by fastforce
  let ?sent = "s\<lparr>sr_sends := Suc (sr_sends s), sr_now := sr_now s + took\<rparr>"
  let ?cut = "\<lambda>d. s\<lparr>sr_sends := Suc (sr_sends s), sr_now := sr_now s + d\<rparr>"
  have cut: "retry_inv config (?cut d)" for d by (rule retry_inv_later [OF assms(2)]) simp_all
  let ?exh = "Return (Inl (retry_budget_exhausted config driver (sr_meta s)))"
  have same: "passes_left config (?cut d) = passes_left config s" for d by (simp add: passes_left_def)
  let ?rem = "get_or 0 (remaining_retry_time config (sr_started s) (sr_now s))"
  consider (late) "sr_started s \<noteq> None" "?rem = 0" | (slow) "sr_started s \<noteq> None" "?rem \<noteq> 0" "?rem < took"
    | (sent) "\<not> (sr_started s \<noteq> None \<and> ?rem = 0)" "\<not> (sr_started s \<noteq> None \<and> ?rem < took)"  by metis
  then show ?thesis
  proof cases
    case late
    then have "(v, s') = (?exh, s)" using assms(1) send by (auto simp: retry_step_def Let_def)
    then show ?thesis using assms(2) by simp
  next
    case slow
    then have "(v, s') = (?exh, ?cut ?rem)" using assms(1) send by (auto simp: retry_step_def Let_def)
    then show ?thesis using cut by simp
  next
    case sent
    then have "(case result of
        Inl (SendFatal err) \<Rightarrow> (Return (Inl err), ?sent)
      | Inl (SendError e) \<Rightarrow> after_send_error config nw (sr_sends s) e ?sent
      | Inr r \<Rightarrow> after_response config driver classify nw (sr_sends s) r ?sent) = (v, s')"
      using assms(1) send unfolding retry_step_def Let_def by (simp only: prod.case if_False)
    note sent' = this
    show ?thesis
    proof (cases result)
      case (Inl out)
      show ?thesis
      proof (cases out)
        case (SendError e)
        then show ?thesis
          using sent' Inl same [of took] after_send_error_step [of config nw "sr_sends s" e ?sent v s', OF _ cut] by simp
      next
        case (SendFatal err)
        then show ?thesis using sent' Inl cut [of took] by auto
      qed
    next
      case (Inr r)
      then show ?thesis
        using sent' same [of took] after_response_step [of config driver nw "sr_sends s" r ?sent v s', OF _ cut] by simp
    qed
  qed
qed

lemma retry_loop_inv:
  assumes "retry_loop n config driver classify nw s = (v, s')" and "retry_inv config s"
  shows "retry_inv config s' \<and> sr_sends s' \<le> sr_sends s + n"
  using assms
proof (induction n arbitrary: s)
  case (Suc n)
  obtain v1 s1 where step: "retry_step config driver classify nw s = (v1, s1)" by fastforce
  have "retry_inv config s1" "sr_sends s1 \<le> Suc (sr_sends s)" using retry_step_inv [OF step Suc.prems(2)] by simp_all
  then show ?case using Suc.IH [of s1] Suc.prems(1) step by (cases v1) auto
qed simp

lemma retry_loop_ends:
  assumes "retry_inv config s" and "passes_left config s < n"
  shows "fst (retry_loop n config driver classify nw s) \<noteq> Continue"
  using assms
proof (induction n arbitrary: s)
  case (Suc n)
  obtain v1 s1 where step: "retry_step config driver classify nw s = (v1, s1)" by fastforce
  have "retry_inv config s1" "v1 = Continue \<longrightarrow> passes_left config s1 < passes_left config s"
    using retry_step_inv [OF step Suc.prems(1)] by simp_all
  then show ?case using Suc.IH [of s1] Suc.prems(2) step by (cases v1) auto
qed simp

end

lemma retry_step_success:
  "retry_step config driver classify nw s = (Return (Inr (r, m)), s') \<Longrightarrow> is_success (re_status r) \<and> m = finished_metadata s'"
  by (auto simp: retry_step_def after_send_error_def after_response_def Let_def
      split: if_splits sum.splits send_outcome.splits option.splits prod.splits retry_decision.splits)

lemma retry_loop_success:
  "retry_loop n config driver classify nw s = (Return (Inr (r, m)), s') \<Longrightarrow> is_success (re_status r) \<and> m = finished_metadata s'"
proof (induction n arbitrary: s)
  case (Suc n)
  obtain v1 s1 where "retry_step config driver classify nw s = (v1, s1)" by fastforce
  then show ?case using Suc by (cases v1) (auto dest: retry_step_success)
qed simp

lemma finished_metadata_facts:
  assumes "retry_inv config s"
  shows "rm_attempts (finished_metadata s) = rm_attempts (sr_meta s)"
    and "rm_total_retry_wait (finished_metadata s) = rm_total_retry_wait (sr_meta s)"
    and "rm_attempts (sr_meta s) = 0 \<or> rm_total_retry_wait (sr_meta s) \<le> rm_total_retry_elapsed (finished_metadata s)"
  using assms by (auto simp: finished_metadata_def had_retries_def retry_inv_def word_gt_0 split: option.splits)

text \<open>
  A run that is over: it has a verdict, made at most \<open>n\<close> requests, retried within the configured number
  and waited for less than the time budget in all; a response it returns is a success, and the
  metadata returned with it report these retries and waits.
\<close>

definition run_over :: "llm_retry_config \<Rightarrow> nat \<Rightarrow> (agent_loop_error + response \<times> retry_metadata) verdict \<times> 'c retry_state \<Rightarrow> bool" where
  "run_over config n = (\<lambda>(v, s).
     v \<noteq> Continue \<and> sr_sends s \<le> n \<and> rm_attempts (sr_meta s) \<le> rg_max_retries config
     \<and> (rm_total_retry_wait (sr_meta s) = 0 \<or> rm_total_retry_wait (sr_meta s) < rg_max_retry_elapsed config)
     \<and> (case v of
          Return (Inr (r, m)) \<Rightarrow> is_success (re_status r) \<and> rm_attempts m = rm_attempts (sr_meta s)
            \<and> rm_total_retry_wait m = rm_total_retry_wait (sr_meta s)
            \<and> (rm_attempts m = 0 \<or> rm_total_retry_wait m \<le> rm_total_retry_elapsed m)
        | _ \<Rightarrow> True))"

context retry_classifier
begin

lemma retry_run_over:
  assumes "resends cells < n"
  shows "run_over config (unat (rg_max_retries config) + n)
    (retry_loop (unat (rg_max_retries config) + n) config driver classify nw (retry_start now cells))"
proof -
  let ?s = "retry_start now cells" and ?n = "unat (rg_max_retries config) + n"
  obtain v s where run: "retry_loop ?n config driver classify nw ?s = (v, s)" by fastforce
  have "passes_left config ?s < ?n" using assms by (simp add: passes_left_def retry_start_def metadata_default_def)
  then have "v \<noteq> Continue" using retry_loop_ends [OF retry_inv_start, of config now cells ?n driver nw] run by simp
  moreover have inv: "retry_inv config s" "sr_sends s \<le> ?n"
    using retry_loop_inv [OF run retry_inv_start] by (simp_all add: retry_start_def)
  moreover have "case v of
          Return (Inr (r, m)) \<Rightarrow> is_success (re_status r) \<and> rm_attempts m = rm_attempts (sr_meta s)
            \<and> rm_total_retry_wait m = rm_total_retry_wait (sr_meta s)
            \<and> (rm_attempts m = 0 \<or> rm_total_retry_wait m \<le> rm_total_retry_elapsed m)
        | _ \<Rightarrow> True"
    using run finished_metadata_facts [OF inv(1)]
    by (cases v rule: verdict.exhaust) (auto split: sum.split dest!: retry_loop_success)
  ultimately show ?thesis using run by (auto simp: run_over_def retry_inv_def split: option.splits)
qed

end

text \<open>Both drivers retry only when they are told that they may; the Anthropic one sends once more with a smaller limit.\<close>

interpretation openai: retry_classifier "openai_classify config ew model" "\<lambda>_. 0" for config ew model
  by unfold_locales (auto simp: openai_classify_def Let_def split: if_splits)

interpretation anthropic: retry_classifier "anthropic_classify config ew model from_profile"
    "\<lambda>cells. if ac_fallback_attempted cells then 0 else 1" for config ew model from_profile
  by unfold_locales (auto simp: anthropic_classify_def Let_def split: if_splits)

section \<open>Backoff\<close>

text \<open>The jitter is added after the cap, so a wait can be longer than the configured maximum.\<close>

lemma backoff_exceeds_cap:
  "calculate_backoff retry_config_default 10 (9 / 10) = Some (from_secs 72)" "rg_max_backoff retry_config_default = from_secs 60"
  by (simp_all add: calculate_backoff_def retry_config_default_def as_secs_f64_def from_secs_def f64_powi_def as_i32_def
      wrap_i32_def from_secs_f64_def round_half_even_def Let_def min_def max_def)

section \<open>Properties\<close>

text \<open>
  C7. A request ends. Whatever the network does, with every configuration and whatever budget the layer
  above has used, the OpenAI driver sends a request at most once more than it may retry and the
  Anthropic driver at most twice more; they retry at most the configured number of times, wait for
  less than the time budget in all, and return a success or an error (or panic, when the configured
  backoff is no duration).
\<close>

theorem retry_request_ends:
  "let c = reduced_config config consumed; n = unat (rg_max_retries c) in
   run_over c (n + 1) (retry_loop (n + 1) c driver (openai_classify config ew model) nw (retry_start now None))
   \<and> run_over c (n + 2) (retry_loop (n + 2) c driver (anthropic_classify config ew model from_profile) nw'
        (retry_start now \<lparr>ac_last_error = None, ac_fallback_attempted = False, ac_max_tokens = tokens\<rparr>))"
  unfolding Let_def by (intro conjI openai.retry_run_over anthropic.retry_run_over) simp_all

end
