(* ===== verification/Stream_Reconnect.thy ===== *)
theory Stream_Reconnect
  imports Llm_Retry
begin

text \<open>
  Reconnecting a response stream (\<open>provider/src/stream_reconnect.rs\<close>): a stream that fails before its
  first item is opened again, with the retries and the time that the sending of the request has left.
  The two functions of the source differ in their items only (events or chunks of bytes), so the model
  has the items as a type, what errors of them may be reconnected as an argument and their name as a
  string. What opening a connection does is the interface \<open>connector\<close>; the retry loops of the drivers
  provide it, so that the nested loops are composed as in \<open>chat_completion_stream\<close>.
\<close>

section \<open>Errors\<close>

text \<open>A failure of a body, by what \<open>reqwest\<close> says of it.\<close>

record body_error =
  be_body :: bool
  be_decode :: bool
  be_connect :: bool
  be_request :: bool
  be_timeout :: bool

definition is_reconnectable_reqwest_error :: "body_error \<Rightarrow> bool" where
  "is_reconnectable_reqwest_error e \<longleftrightarrow> be_body e \<or> be_decode e \<or> be_connect e \<or> be_request e \<or> be_timeout e"

datatype event_stream_error = Transport body_error | Utf8Error | ParserError

definition is_reconnectable_stream_error :: "event_stream_error \<Rightarrow> bool" where
  "is_reconnectable_stream_error e = (case e of Transport b \<Rightarrow> is_reconnectable_reqwest_error b | _ \<Rightarrow> False)"

definition FIRST_STREAM_ITEM_TIMEOUT :: duration where "FIRST_STREAM_ITEM_TIMEOUT = from_secs 120"

definition reconnect_budget_error :: "llm_retry_config \<Rightarrow> string \<Rightarrow> retry_metadata \<Rightarrow> agent_loop_error" where
  "reconnect_budget_error config driver m =
     with_retry_metadata m
       (llm_kind Unavailable
         (driver @ '' stream reconnect budget exhausted after '' @ show_nat (unat (rm_attempts m)) @ '' retries over ''
          @ show_tenths (rg_max_retry_elapsed config) @ ''s''))"

definition reconnect_remaining ::
  "llm_retry_config \<Rightarrow> string \<Rightarrow> retry_metadata \<Rightarrow> nat option \<Rightarrow> nat \<Rightarrow> agent_loop_error + duration option" where
  "reconnect_remaining config driver m started now =
     (case started of
        None \<Rightarrow> Inr None
      | Some _ \<Rightarrow>
          (case remaining_retry_time config started now of
             Some remaining \<Rightarrow> if remaining \<noteq> 0 then Inr (Some remaining) else Inl (reconnect_budget_error config driver m)
           | None \<Rightarrow> Inl (reconnect_budget_error config driver m)))"

definition stall_error :: "string \<Rightarrow> duration \<Rightarrow> retry_metadata \<Rightarrow> agent_loop_error" where
  "stall_error item first_item_timeout m =
     (let e = llm_untyped (''provider stream stall: no first '' @ item @ '' for '' @ show_nat (first_item_timeout div 10 ^ 9) @ ''s'')
      in if had_retries m then with_retry_metadata m e else e)"

definition transport_failed :: "string \<Rightarrow> retry_metadata \<Rightarrow> agent_loop_error" where
  "transport_failed driver m =
     with_retry_metadata m
       (llm_kind Unavailable
         (driver @ '' stream transport failed after '' @ show_nat (unat (rm_attempts m))
          @ '' retries; the turn is safe to resume''))"

section \<open>The loop\<close>

text \<open>
  Opening a connection, given the retries made so far, from a state \<open>'w\<close> of the driver: the time it
  takes, the response with its metadata or an error (\<open>None\<close> is a panic), and the new state.
\<close>

type_synonym 'w connect = "'w \<Rightarrow> nat \<Rightarrow> u32 \<Rightarrow> nat \<Rightarrow> duration \<times> (agent_loop_error + response \<times> retry_metadata) option \<times> 'w"

text \<open>
  What the streams do: the time to the first item (or to the end) of the stream opened in a pass and
  its items, an error or a value each.
\<close>

record ('e, 'v) streams =
  so_items :: "nat \<Rightarrow> duration \<times> ('e + 'v) list"
  so_random :: "nat \<Rightarrow> f64"
  so_oversleep :: "nat \<Rightarrow> duration"

record 'w reconnect_state =
  rc_now :: nat
  rc_started :: "nat option"
  rc_meta :: retry_metadata
  rc_world :: 'w
  rc_passes :: nat

text \<open>The start of recovery, when the sending of a request has retried for the first time.\<close>

definition recovery_start :: "nat option \<Rightarrow> retry_metadata \<Rightarrow> nat \<Rightarrow> nat option" where
  "recovery_start started m now =
     (if started = None \<and> had_retries m
      then Some (if rm_total_retry_elapsed m \<le> now then now - rm_total_retry_elapsed m else now)
      else started)"

definition first_fails :: "('e \<Rightarrow> bool) \<Rightarrow> ('e + 'v) list \<Rightarrow> bool" where
  "first_fails reconnectable items = (case items of Inl e # _ \<Rightarrow> reconnectable e | _ \<Rightarrow> False)"

text \<open>The peeked first item is put back in front of the rest.\<close>

definition replayed :: "('e + 'v) list \<Rightarrow> ('e + 'v) list" where
  "replayed items = (let first = take 1 items; rest = drop 1 items in first @ rest)"

definition final_metadata :: "nat option \<Rightarrow> nat \<Rightarrow> retry_metadata \<Rightarrow> retry_metadata" where
  "final_metadata started now m =
     (if had_retries m
      then m\<lparr>rm_total_retry_elapsed := (case started of Some t \<Rightarrow> now - t | None \<Rightarrow> 0)\<rparr>
      else m)"

text \<open>From the first item on.\<close>

definition after_first_item ::
  "llm_retry_config \<Rightarrow> string \<Rightarrow> ('e \<Rightarrow> bool) \<Rightarrow> ('e, 'v) streams \<Rightarrow> nat \<Rightarrow> ('e + 'v) list \<Rightarrow> 'w reconnect_state
     \<Rightarrow> (agent_loop_error + ('e + 'v) list \<times> retry_metadata) verdict \<times> 'w reconnect_state" where
  "after_first_item config driver reconnectable so i items s =
     (let m = rc_meta s in
      if first_fails reconnectable items \<and> rm_attempts m < rg_max_retries config then
        (case calculate_backoff config (rm_attempts m) (so_random so i) of
           None \<Rightarrow> (Panic, s)
         | Some proposed \<Rightarrow>
             (case reserve_retry_wait config (rc_started s) (rc_now s) proposed of
                (started, None) \<Rightarrow> (Return (Inl (reconnect_budget_error config driver m)), s)
              | (started, Some wait) \<Rightarrow>
                  (Continue, s\<lparr>rc_started := started, rc_meta := record_retry wait None m,
                               rc_now := rc_now s + wait + so_oversleep so i\<rparr>)))
      else if first_fails reconnectable items then (Return (Inl (transport_failed driver m)), s)
      else (Return (Inr (replayed items, final_metadata (rc_started s) (rc_now s) m)), s))"

text \<open>From the response on: what it retried is absorbed and its first item awaited.\<close>

definition after_connect ::
  "llm_retry_config \<Rightarrow> string \<Rightarrow> string \<Rightarrow> duration \<Rightarrow> ('e \<Rightarrow> bool) \<Rightarrow> ('e, 'v) streams \<Rightarrow> nat \<Rightarrow> retry_metadata
     \<Rightarrow> 'w reconnect_state \<Rightarrow> (agent_loop_error + ('e + 'v) list \<times> retry_metadata) verdict \<times> 'w reconnect_state" where
  "after_connect config driver item first_item_timeout reconnectable so i m s =
     (let s1 = s\<lparr>rc_started := recovery_start (rc_started s) m (rc_now s), rc_meta := absorb m (rc_meta s)\<rparr> in
      case reconnect_remaining config driver (rc_meta s1) (rc_started s1) (rc_now s1) of
        Inl e \<Rightarrow> (Return (Inl e), s1)
      | Inr remaining \<Rightarrow>
          let item_timeout = (case remaining of Some r \<Rightarrow> min r first_item_timeout | None \<Rightarrow> first_item_timeout);
              (took, items) = so_items so i
          in if item_timeout < took
             then (Return (Inl (stall_error item first_item_timeout (rc_meta s1))), s1\<lparr>rc_now := rc_now s1 + item_timeout\<rparr>)
             else after_first_item config driver reconnectable so i items (s1\<lparr>rc_now := rc_now s1 + took\<rparr>))"

definition reconnect_step ::
  "llm_retry_config \<Rightarrow> string \<Rightarrow> string \<Rightarrow> duration \<Rightarrow> ('e \<Rightarrow> bool) \<Rightarrow> ('e, 'v) streams \<Rightarrow> 'w connect
     \<Rightarrow> 'w reconnect_state \<Rightarrow> (agent_loop_error + ('e + 'v) list \<times> retry_metadata) verdict \<times> 'w reconnect_state" where
  "reconnect_step config driver item first_item_timeout reconnectable so connect s =
     (let i = rc_passes s in
      case reconnect_remaining config driver (rc_meta s) (rc_started s) (rc_now s) of
        Inl e \<Rightarrow> (Return (Inl e), s)
      | Inr remaining \<Rightarrow>
          (case connect (rc_world s) i (rm_attempts (rc_meta s)) (rc_now s) of
             (took, result, w) \<Rightarrow>
               let limit = get_or took remaining;
                   s0 = s\<lparr>rc_world := w, rc_passes := Suc i\<rparr>
               in if limit < took
                  then (Return (Inl (reconnect_budget_error config driver (rc_meta s))), s0\<lparr>rc_now := rc_now s + limit\<rparr>)
                  else (case result of
                          None \<Rightarrow> (Panic, s0\<lparr>rc_now := rc_now s + took\<rparr>)
                        | Some (Inl e) \<Rightarrow> (Return (Inl e), s0\<lparr>rc_now := rc_now s + took\<rparr>)
                        | Some (Inr (response, m)) \<Rightarrow>
                            after_connect config driver item first_item_timeout reconnectable so i m
                              (s0\<lparr>rc_now := rc_now s + took\<rparr>))))"

fun reconnect_loop ::
  "nat \<Rightarrow> llm_retry_config \<Rightarrow> string \<Rightarrow> string \<Rightarrow> duration \<Rightarrow> ('e \<Rightarrow> bool) \<Rightarrow> ('e, 'v) streams \<Rightarrow> 'w connect
     \<Rightarrow> 'w reconnect_state \<Rightarrow> (agent_loop_error + ('e + 'v) list \<times> retry_metadata) verdict \<times> 'w reconnect_state" where
  "reconnect_loop 0 config driver item timeout reconnectable so connect s = (Continue, s)"
| "reconnect_loop (Suc n) config driver item timeout reconnectable so connect s =
     (case reconnect_step config driver item timeout reconnectable so connect s of
        (Continue, s') \<Rightarrow> reconnect_loop n config driver item timeout reconnectable so connect s'
      | done \<Rightarrow> done)"

definition reconnect_start :: "nat \<Rightarrow> 'w \<Rightarrow> 'w reconnect_state" where
  "reconnect_start now w =
     \<lparr>rc_now = now, rc_started = None, rc_meta = metadata_default, rc_world = w, rc_passes = 0\<rparr>"

text \<open>The two entry points, with enough passes for every retry the configuration allows.\<close>

definition connect_sse_with_reconnect ::
  "llm_retry_config \<Rightarrow> string \<Rightarrow> (event_stream_error, 'v) streams \<Rightarrow> 'w connect \<Rightarrow> nat \<Rightarrow> 'w
     \<Rightarrow> (agent_loop_error + (event_stream_error + 'v) list \<times> retry_metadata) verdict \<times> 'w reconnect_state" where
  "connect_sse_with_reconnect config driver so connect now w =
     reconnect_loop (Suc (unat (rg_max_retries config))) config driver ''event'' FIRST_STREAM_ITEM_TIMEOUT
       is_reconnectable_stream_error so connect (reconnect_start now w)"

definition connect_bytes_with_reconnect ::
  "llm_retry_config \<Rightarrow> string \<Rightarrow> (body_error, 'v) streams \<Rightarrow> 'w connect \<Rightarrow> nat \<Rightarrow> 'w
     \<Rightarrow> (agent_loop_error + (body_error + 'v) list \<times> retry_metadata) verdict \<times> 'w reconnect_state" where
  "connect_bytes_with_reconnect config driver so connect now w =
     reconnect_loop (Suc (unat (rg_max_retries config))) config driver ''chunk'' FIRST_STREAM_ITEM_TIMEOUT
       is_reconnectable_reqwest_error so connect (reconnect_start now w)"

section \<open>The connections of the drivers\<close>

text \<open>
  The state counts the requests sent; \<open>nws\<close> is the network in each pass. A connection that runs into
  the limit of the caller is counted with all the requests it would have sent.
\<close>

definition openai_connect :: "llm_retry_config \<Rightarrow> error_texts \<Rightarrow> string \<Rightarrow> (nat \<Rightarrow> string option network) \<Rightarrow> nat connect" where
  "openai_connect config ew model nws sent i retries_consumed now =
     (let c = reduced_config config retries_consumed in
      case retry_loop (unat (rg_max_retries c) + 1) c ''OpenAIProtocolDriver'' (openai_classify config ew model) (nws i)
             (retry_start now None) of
        (v, s) \<Rightarrow> (sr_now s - now, (case v of Return r \<Rightarrow> Some r | _ \<Rightarrow> None), sent + sr_sends s))"

text \<open>The request of the Anthropic driver, with its limit, is shared between the passes.\<close>

definition anthropic_connect ::
  "llm_retry_config \<Rightarrow> error_texts \<Rightarrow> string \<Rightarrow> bool \<Rightarrow> (nat \<Rightarrow> anthropic_cells network) \<Rightarrow> (nat \<times> u32) connect" where
  "anthropic_connect config ew model from_profile nws w i retries_consumed now =
     (let c = reduced_config config retries_consumed;
          cells = \<lparr>ac_last_error = None, ac_fallback_attempted = False, ac_max_tokens = snd w\<rparr>
      in case retry_loop (unat (rg_max_retries c) + 2) c ''AnthropicDriver'' (anthropic_classify config ew model from_profile) (nws i)
                (retry_start now cells) of
           (v, s) \<Rightarrow>
             (sr_now s - now, (case v of Return r \<Rightarrow> Some r | _ \<Rightarrow> None),
              (fst w + sr_sends s, ac_max_tokens (sr_cells s))))"

section \<open>What one sending gives\<close>

text \<open>
  Of a run of the retry loop that began at \<open>t\<close>: it recovers since \<open>t\<close> at the earliest, and without
  retries it has not waited.
\<close>

definition run_since :: "nat \<Rightarrow> 'c retry_state \<Rightarrow> bool" where
  "run_since t s \<longleftrightarrow>
     t \<le> sr_now s \<and> (case sr_started s of None \<Rightarrow> True | Some t' \<Rightarrow> t \<le> t')
     \<and> rm_total_retry_elapsed (sr_meta s) = 0 \<and> (rm_attempts (sr_meta s) = 0 \<longrightarrow> rm_total_retry_wait (sr_meta s) = 0)"

lemma run_since_start: "run_since now (retry_start now cells)"
  by (simp add: run_since_def retry_start_def metadata_default_def)

lemma run_since_later:
  "run_since t s \<Longrightarrow> sr_now s \<le> sr_now s' \<Longrightarrow> sr_started s' = sr_started s \<Longrightarrow> sr_meta s' = sr_meta s \<Longrightarrow> run_since t s'"
  by (auto simp: run_since_def)

lemma succ_not_zero: "(a :: u32) < b \<Longrightarrow> a + 1 \<noteq> 0"
  by (metis unat_succ_below unat_0 nat.distinct(1))

lemma run_since_sleep:
  assumes "run_since t s" and "reserve_retry_wait config (sr_started s) (sr_now s) proposed = (started, Some wait)"
    and "rm_attempts (sr_meta s) < rg_max_retries config"
  shows "run_since t (sleep_retry nw i wait info started s)"
  using assms succ_not_zero [OF assms(3)]
  by (auto simp: run_since_def reserve_retry_wait_def sleep_retry_def Let_def record_retry_def split: option.splits if_splits)

lemma after_send_error_since:
  assumes "after_send_error config nw i e s = (v, s')" and "run_since t s"
  shows "run_since t s' \<and> (v \<noteq> Continue \<longrightarrow> sr_meta s' = sr_meta s)"
  using assms run_since_sleep
  by (auto simp: after_send_error_def Let_def split: if_splits option.splits prod.splits)

context retry_classifier
begin

lemma after_response_since:
  assumes run: "after_response config driver classify nw i r s = (v, s')" and since: "run_since t s"
  shows "run_since t s' \<and> (v \<noteq> Continue \<longrightarrow> sr_meta s' = sr_meta s)"
proof (cases "is_success (re_status r)")
  case True
  then show ?thesis using assms by (auto simp: after_response_def)
next
  case False
  let ?m = "sr_meta s"
  let ?can = "is_transient_status (re_status r) \<and> rm_attempts ?m < rg_max_retries config"
  let ?late = "\<lambda>cells. s\<lparr>sr_cells := cells, sr_now := sr_now s + nw_read_body nw i\<rparr>"
  have late: "run_since t (?late cells)" for cells by (rule run_since_later [OF since]) simp_all
  show ?thesis
  proof (cases "classify (sr_cells s) r (rm_attempts ?m) ?can (nw_random nw i)")
    case None
    then show ?thesis using False assms by (auto simp: after_response_def Let_def)
  next
    case (Some d)
    then obtain decision cells where d: "classify (sr_cells s) r (rm_attempts ?m) ?can (nw_random nw i) = Some (decision, cells)"
      by (cases d) auto
    have "run_since t (sleep_retry nw i w info started (?late cells))"
      if "reserve_retry_wait config (sr_started (?late cells)) (sr_now (?late cells)) wait = (started, Some w)"
        and "decision = Retry wait info" for w wait info started
      using run_since_sleep [OF late that(1)] retry_allowed [OF d [unfolded that(2)]] by simp
    then show ?thesis
      using False run d late by (cases decision) (auto simp: after_response_def Let_def split: prod.splits option.splits)
  qed
qed

lemma retry_step_since:
  assumes "retry_step config driver classify nw s = (v, s')" and "run_since t s"
  shows "run_since t s' \<and> (v \<noteq> Continue \<longrightarrow> sr_meta s' = sr_meta s)"
proof -
  obtain took result where send: "nw_send nw (sr_sends s) (sr_cells s) = (took, result)" by fastforce
  have cut: "run_since t (s\<lparr>sr_sends := Suc (sr_sends s), sr_now := sr_now s + d\<rparr>)" for d
    by (rule run_since_later [OF assms(2)]) simp_all
  let ?sent = "s\<lparr>sr_sends := Suc (sr_sends s), sr_now := sr_now s + took\<rparr>"
  note err = after_send_error_since [of config nw "sr_sends s" _ ?sent v s', OF _ cut]
    and resp = after_response_since [of config driver nw "sr_sends s" _ ?sent v s', OF _ cut]
  show ?thesis
    using assms(1) send assms(2) cut err resp
    by (auto simp: retry_step_def Let_def split: if_splits sum.splits send_outcome.splits)
qed

lemma retry_loop_requests:
  assumes "retry_loop n config driver classify nw s = (v, s')" and "v \<noteq> Continue" and "retry_inv config s" and "run_since t s"
    and "sr_sends s + passes_left config s \<le> unat (rg_max_retries config) + k"
  shows "sr_sends s' \<le> unat (rm_attempts (sr_meta s')) + k + 1 \<and> run_since t s'"
  using assms
proof (induction n arbitrary: s)
  case (Suc n)
  obtain v1 s1 where step: "retry_step config driver classify nw s = (v1, s1)" by fastforce
  note inv = retry_step_inv [OF step Suc.prems(3)] and since = retry_step_since [OF step Suc.prems(4)]
  show ?case
  proof (cases "v1 = Continue")
    case True
    then show ?thesis using Suc.IH [of s1] Suc.prems step inv since by auto
  next
    case False
    then have "s' = s1" "sr_meta s1 = sr_meta s" using Suc.prems(1) step since by (cases v1; simp)+
    then show ?thesis
      using inv since Suc.prems(3,5) by (auto simp: passes_left_def retry_inv_def word_le_nat_alt)
  qed
qed simp

end

text \<open>What the metadata returned by one sending promise: \<open>took\<close> is the time it took.\<close>

definition metadata_ok :: "llm_retry_config \<Rightarrow> duration \<Rightarrow> retry_metadata \<Rightarrow> bool" where
  "metadata_ok config took m \<longleftrightarrow>
     (rm_attempts m = 0 \<longrightarrow> rm_total_retry_wait m = 0)
     \<and> (rm_attempts m \<noteq> 0 \<longrightarrow> rm_total_retry_wait m \<le> rm_total_retry_elapsed m)
     \<and> rm_total_retry_elapsed m \<le> took \<and> rm_total_retry_wait m \<le> rg_max_retry_elapsed config"

context retry_classifier
begin

lemma retry_run_metadata:
  assumes run: "retry_loop (unat (rg_max_retries config) + n) config driver classify nw (retry_start now cells) = (v, s)"
    and fuel: "resends cells < n"
  shows "sr_sends s \<le> unat (rm_attempts (sr_meta s)) + resends cells + 1" and "rm_attempts (sr_meta s) \<le> rg_max_retries config"
    and "v = Return (Inr (r, m)) \<Longrightarrow> rm_attempts m = rm_attempts (sr_meta s) \<and> metadata_ok config (sr_now s - now) m"
proof -
  have "v \<noteq> Continue"
    using retry_run_over [OF fuel, of config driver nw now] run by (auto simp: run_over_def)
  moreover have "sr_sends (retry_start now cells) + passes_left config (retry_start now cells)
      \<le> unat (rg_max_retries config) + resends cells"
    by (simp add: passes_left_def retry_start_def metadata_default_def)
  ultimately have reqs: "sr_sends s \<le> unat (rm_attempts (sr_meta s)) + resends cells + 1" "run_since now s"
    using retry_loop_requests [OF run _ retry_inv_start run_since_start] by blast+
  have inv: "retry_inv config s" using retry_loop_inv [OF run retry_inv_start] by simp
  show "sr_sends s \<le> unat (rm_attempts (sr_meta s)) + resends cells + 1" by (fact reqs)
  show "rm_attempts (sr_meta s) \<le> rg_max_retries config" using inv by (simp add: retry_inv_def)
  assume "v = Return (Inr (r, m))"
  then have "m = finished_metadata s" using retry_loop_success [OF run [unfolded \<open>v = _\<close>]] by simp
  then show "rm_attempts m = rm_attempts (sr_meta s) \<and> metadata_ok config (sr_now s - now) m"
    using inv reqs(2) finished_metadata_facts [OF inv]
    by (auto simp: metadata_ok_def finished_metadata_def had_retries_def retry_inv_def run_since_def word_gt_0 split: option.splits)
qed

end

section \<open>The nested loops\<close>

text \<open>
  What the reconnect loop asks of a connection: it keeps to the retries the caller has left, counts the
  retries it made, and sends one request per retry, one more and at most \<open>extra\<close> further ones.
\<close>

locale connector =
  fixes config :: llm_retry_config and connect :: "'w connect" and requests :: "'w \<Rightarrow> nat" and extra :: nat
  assumes connected: "connect w i a now = (took, Some (Inr (r, m)), w') \<Longrightarrow> a \<le> rg_max_retries config
      \<Longrightarrow> unat a + unat (rm_attempts m) \<le> unat (rg_max_retries config) \<and> metadata_ok config took m
          \<and> requests w' \<le> requests w + unat (rm_attempts m) + Suc extra"
    and requests_bounded: "connect w i a now = (took, result, w') \<Longrightarrow> a \<le> rg_max_retries config
      \<Longrightarrow> requests w' \<le> requests w + (unat (rg_max_retries config) - unat a) + Suc extra"
begin

definition reconnect_inv :: "'w reconnect_state \<Rightarrow> bool" where
  "reconnect_inv s \<longleftrightarrow>
     rm_attempts (rc_meta s) \<le> rg_max_retries config
     \<and> (case rc_started s of
          None \<Rightarrow> rm_attempts (rc_meta s) = 0 \<and> rm_total_retry_wait (rc_meta s) = 0
        | Some t \<Rightarrow> t \<le> rc_now s \<and> rm_total_retry_wait (rc_meta s) \<le> rc_now s - t
                    \<and> rm_total_retry_wait (rc_meta s) \<le> rg_max_retry_elapsed config)"

lemma reconnect_inv_later:
  "reconnect_inv s \<Longrightarrow> rc_now s \<le> rc_now s' \<Longrightarrow> rc_started s' = rc_started s \<Longrightarrow> rc_meta s' = rc_meta s \<Longrightarrow> reconnect_inv s'"
  by (auto simp: reconnect_inv_def split: option.splits)

lemma unat_absorbed:
  assumes "unat a + unat b \<le> unat (c :: u32)"
  shows "unat (saturating_add_u32 a b) = unat a + unat b"
proof -
  have "unat c < 2 ^ LENGTH(32)" by (fact unsigned_less)
  then have "unat a + unat b < 2 ^ 32" using assms by simp
  then show ?thesis by (simp add: saturating_add_u32_def unat_plus_if_size word_size)
qed

lemma after_first_item_step:
  assumes "after_first_item config driver rec so i items s = (v, s')" and "reconnect_inv s"
  shows "reconnect_inv s' \<and> rc_world s' = rc_world s \<and> rc_passes s' = rc_passes s"
    and "v = Continue \<longrightarrow> unat (rm_attempts (rc_meta s')) = Suc (unat (rm_attempts (rc_meta s)))"
  using assms succ_below_le [of 0 "rg_max_retries config"]
  by (auto simp: after_first_item_def reserve_retry_wait_def reconnect_inv_def Let_def unat_succ_below succ_below_le
      split: if_splits option.splits prod.splits)

lemma absorb_inv:
  assumes "reconnect_inv s" and "metadata_ok config took m" and "unat (rm_attempts (rc_meta s)) + unat (rm_attempts m) \<le> unat (rg_max_retries config)"
    and "\<And>t. rc_started s = Some t \<Longrightarrow> rc_now s + took - t \<le> rg_max_retry_elapsed config"
    and "rc_now s' = rc_now s + took" "rc_started s' = recovery_start (rc_started s) m (rc_now s')"
      "rc_meta s' = absorb m (rc_meta s)"
  shows "reconnect_inv s' \<and> unat (rm_attempts (rc_meta s')) = unat (rm_attempts (rc_meta s)) + unat (rm_attempts m)"
proof -
  have "unat (rm_attempts (rc_meta s')) = unat (rm_attempts (rc_meta s)) + unat (rm_attempts m)"
    by (simp add: assms(7) absorb_def unat_absorbed [OF assms(3)])
  moreover have "rm_total_retry_wait (rc_meta s') = rm_total_retry_wait (rc_meta s) + rm_total_retry_wait m"
    by (simp add: assms(7) absorb_def)
  ultimately show ?thesis
    using assms(1-6) unfolding reconnect_inv_def metadata_ok_def recovery_start_def had_retries_def
    by (cases "rc_started s"; cases "rm_attempts m = 0")
      (force simp: word_le_nat_alt word_gt_0 unat_eq_zero)+
qed

lemma after_connect_step:
  assumes "after_connect config driver item timeout rec so i m s = (v, s')"
    and "\<And>s1. rc_now s1 = rc_now s \<Longrightarrow> rc_started s1 = recovery_start (rc_started s) m (rc_now s)
      \<Longrightarrow> rc_meta s1 = absorb m (rc_meta s) \<Longrightarrow> reconnect_inv s1 \<and> unat (rm_attempts (rc_meta s1)) = n"
  shows "reconnect_inv s' \<and> rc_world s' = rc_world s \<and> rc_passes s' = rc_passes s
    \<and> (v = Continue \<longrightarrow> unat (rm_attempts (rc_meta s')) = Suc n)"
proof -
  let ?s1 = "s\<lparr>rc_started := recovery_start (rc_started s) m (rc_now s), rc_meta := absorb m (rc_meta s)\<rparr>"
  have s1: "reconnect_inv ?s1" "unat (rm_attempts (absorb m (rc_meta s))) = n" using assms(2) [of ?s1] by simp_all
  obtain took items where items: "so_items so i = (took, items)" by fastforce
  have late: "reconnect_inv (?s1\<lparr>rc_now := rc_now s + d\<rparr>)" for d by (rule reconnect_inv_later [OF s1(1)]) simp_all
  note first = after_first_item_step [of driver rec so i items "?s1\<lparr>rc_now := rc_now s + took\<rparr>" v s', OF _ late]
  show ?thesis
    using assms(1) s1 items late first
    by (auto simp: after_connect_def Let_def split: sum.splits if_splits)
qed

lemma remaining_limit:
  "reconnect_remaining config driver m (Some t) now = Inr remaining
     \<Longrightarrow> remaining = Some (rg_max_retry_elapsed config - (now - t)) \<and> now - t \<le> rg_max_retry_elapsed config"
  by (auto simp: reconnect_remaining_def remaining_retry_time_def split: if_splits)

lemma reconnect_step_inv:
  assumes step: "reconnect_step config driver item timeout rec so connect s = (v, s')" and inv: "reconnect_inv s"
  shows "reconnect_inv s' \<and> rc_passes s' \<le> Suc (rc_passes s)
    \<and> requests (rc_world s') \<le> requests (rc_world s) + (unat (rg_max_retries config) - unat (rm_attempts (rc_meta s))) + Suc extra
    \<and> (v = Continue \<longrightarrow> unat (rm_attempts (rc_meta s)) < unat (rm_attempts (rc_meta s'))
          \<and> requests (rc_world s') + Suc (unat (rm_attempts (rc_meta s))) \<le> requests (rc_world s) + unat (rm_attempts (rc_meta s')) + Suc extra)"
proof (cases "reconnect_remaining config driver (rc_meta s) (rc_started s) (rc_now s)")
  case (Inl e)
  then show ?thesis using step inv by (auto simp: reconnect_step_def)
next
  case (Inr remaining)
  obtain took result w where conn: "connect (rc_world s) (rc_passes s) (rm_attempts (rc_meta s)) (rc_now s) = (took, result, w)"
    by (metis prod_cases3)
  let ?s0 = "\<lambda>d. s\<lparr>rc_world := w, rc_passes := Suc (rc_passes s), rc_now := rc_now s + d\<rparr>"
  have le: "rm_attempts (rc_meta s) \<le> rg_max_retries config" using inv by (simp add: reconnect_inv_def)
  have reqs: "requests w \<le> requests (rc_world s) + (unat (rg_max_retries config) - unat (rm_attempts (rc_meta s))) + Suc extra"
    by (rule requests_bounded [OF conn le])
  have late: "reconnect_inv (?s0 d)" for d by (rule reconnect_inv_later [OF inv]) simp_all
  show ?thesis
  proof (cases "\<exists>r m. result = Some (Inr (r, m)) \<and> took \<le> get_or took remaining")
    case True
    then obtain r m where result: "result = Some (Inr (r, m))" and limit: "took \<le> get_or took remaining" by blast
    note law = connected [OF conn [unfolded result] le]
    have "rc_now s + took - t \<le> rg_max_retry_elapsed config" if "rc_started s = Some t" for t
      using remaining_limit [of driver "rc_meta s" t "rc_now s" remaining] Inr that limit inv
      by (auto simp: reconnect_inv_def)
    then have absorbed: "reconnect_inv s1 \<and> unat (rm_attempts (rc_meta s1)) = unat (rm_attempts (rc_meta s)) + unat (rm_attempts m)"
      if "rc_now s1 = rc_now (?s0 took)" "rc_started s1 = recovery_start (rc_started (?s0 took)) m (rc_now (?s0 took))"
        "rc_meta s1 = absorb m (rc_meta (?s0 took))" for s1
      using absorb_inv [OF inv, of took m s1] law that by simp
    have "after_connect config driver item timeout rec so (rc_passes s) m (?s0 took) = (v, s')"
      using step Inr conn result limit by (simp add: reconnect_step_def Let_def)
    from after_connect_step [OF this absorbed] show ?thesis using law reqs by auto
  next
    case False
    then show ?thesis
      using step Inr conn reqs late
      by (auto simp: reconnect_step_def Let_def split: if_splits option.splits sum.splits)
  qed
qed

lemma reconnect_loop_inv:
  assumes "reconnect_loop n config driver item timeout rec so connect s = (v, s')" and "reconnect_inv s"
    and "unat (rg_max_retries config) - unat (rm_attempts (rc_meta s)) < n"
    and "requests (rc_world s) \<le> r + unat (rm_attempts (rc_meta s)) * Suc extra"
  shows "v \<noteq> Continue \<and> reconnect_inv s' \<and> requests (rc_world s') \<le> r + Suc (unat (rg_max_retries config)) * Suc extra"
  using assms
proof (induction n arbitrary: s)
  case (Suc n)
  obtain v1 s1 where step: "reconnect_step config driver item timeout rec so connect s = (v1, s1)" by fastforce
  note inv = reconnect_step_inv [OF step Suc.prems(2)]
  let ?a = "unat (rm_attempts (rc_meta s))" and ?max = "unat (rg_max_retries config)"
  have le: "?a \<le> ?max" using Suc.prems(2) by (simp add: reconnect_inv_def word_le_nat_alt)
  show ?case
  proof (cases "v1 = Continue")
    case True
    define b where "b = unat (rm_attempts (rc_meta s1)) - Suc ?a"
    have b: "unat (rm_attempts (rc_meta s1)) = Suc (?a + b)" "requests (rc_world s1) \<le> requests (rc_world s) + b + Suc extra"
      using inv True by (auto simp: b_def)
    have "unat (rm_attempts (rc_meta s1)) \<le> ?max" using inv by (simp add: reconnect_inv_def word_le_nat_alt)
    then have "?max - unat (rm_attempts (rc_meta s1)) < n" using b(1) Suc.prems(3) by linarith
    moreover have "requests (rc_world s1) \<le> r + unat (rm_attempts (rc_meta s1)) * Suc extra"
      using b Suc.prems(4) by (simp add: algebra_simps)
    ultimately show ?thesis using Suc.IH [of s1] Suc.prems(1) step True inv by simp
  next
    case False
    then have "s' = s1" "v = v1" using Suc.prems(1) step by (cases v1; simp)+
    obtain d where "?max = ?a + d" using le by (auto simp: le_iff_add)
    then have "?a * Suc extra + (?max - ?a) + Suc extra \<le> Suc ?max * Suc extra" by (simp add: algebra_simps)
    moreover have "requests (rc_world s1) \<le> requests (rc_world s) + (?max - ?a) + Suc extra" using inv by blast
    ultimately have "requests (rc_world s1) \<le> r + Suc ?max * Suc extra" using Suc.prems(4) by linarith
    then show ?thesis using False inv \<open>s' = s1\<close> \<open>v = v1\<close> by blast
  qed
qed simp

end

lemma reconnect_step_items:
  assumes "reconnect_step config driver item timeout rec so connect s = (Return (Inr (items, m)), s')"
  shows "items = snd (so_items so (rc_passes s' - 1)) \<and> \<not> first_fails rec items
    \<and> m = final_metadata (rc_started s') (rc_now s') (rc_meta s')"
  using assms
  by (auto simp: reconnect_step_def after_connect_def after_first_item_def replayed_def Let_def simp del: One_nat_def
      split: if_splits sum.splits option.splits prod.splits)

lemma reconnect_loop_items:
  "reconnect_loop n config driver item timeout rec so connect s = (Return (Inr (items, m)), s') \<Longrightarrow>
     items = snd (so_items so (rc_passes s' - 1)) \<and> \<not> first_fails rec items
     \<and> m = final_metadata (rc_started s') (rc_now s') (rc_meta s')"
proof (induction n arbitrary: s)
  case (Suc n)
  obtain v1 s1 where "reconnect_step config driver item timeout rec so connect s = (v1, s1)" by fastforce
  then show ?case using Suc by (cases v1) (auto dest: reconnect_step_items)
qed simp

text \<open>
  A stream that is settled: there is a verdict; at most \<open>n\<close> requests were sent, the retries of both
  loops together are within the configured number, and so are the waits within the time budget; a
  stream that is returned has every item of the response opened last, the first of which is no failure
  to reconnect on, and the metadata returned with it report all retries and waits.
\<close>

definition stream_settled ::
  "llm_retry_config \<Rightarrow> ('e \<Rightarrow> bool) \<Rightarrow> ('e, 'v) streams \<Rightarrow> nat \<Rightarrow> ('w \<Rightarrow> nat)
     \<Rightarrow> (agent_loop_error + ('e + 'v) list \<times> retry_metadata) verdict \<times> 'w reconnect_state \<Rightarrow> bool" where
  "stream_settled config reconnectable so n requests = (\<lambda>(v, s).
     v \<noteq> Continue \<and> requests (rc_world s) \<le> n \<and> rm_attempts (rc_meta s) \<le> rg_max_retries config
     \<and> rm_total_retry_wait (rc_meta s) \<le> rg_max_retry_elapsed config
     \<and> (case v of
          Return (Inr (items, m)) \<Rightarrow> items = snd (so_items so (rc_passes s - 1)) \<and> \<not> first_fails reconnectable items
            \<and> rm_attempts m = rm_attempts (rc_meta s) \<and> rm_total_retry_wait m = rm_total_retry_wait (rc_meta s)
        | _ \<Rightarrow> True))"

lemma final_metadata_simps [simp]:
  "rm_attempts (final_metadata t now m) = rm_attempts m" "rm_total_retry_wait (final_metadata t now m) = rm_total_retry_wait m"
  by (simp_all add: final_metadata_def)

context connector
begin

lemma reconnect_settles:
  assumes "requests w = 0"
  shows "stream_settled config rec so (Suc (unat (rg_max_retries config)) * Suc extra) requests
    (reconnect_loop (Suc (unat (rg_max_retries config))) config driver item timeout rec so connect (reconnect_start now w))"
proof -
  let ?n = "Suc (unat (rg_max_retries config))" and ?s = "reconnect_start now w"
  obtain v s where run: "reconnect_loop ?n config driver item timeout rec so connect ?s = (v, s)" by fastforce
  have "reconnect_inv ?s" by (simp add: reconnect_inv_def reconnect_start_def metadata_default_def)
  then have inv: "v \<noteq> Continue" "reconnect_inv s" "requests (rc_world s) \<le> ?n * Suc extra"
    using reconnect_loop_inv [OF run, of 0] assms
    by (simp_all del: reconnect_loop.simps add: reconnect_start_def metadata_default_def)
  moreover have "case v of
          Return (Inr (items, m)) \<Rightarrow> items = snd (so_items so (rc_passes s - 1)) \<and> \<not> first_fails rec items
            \<and> rm_attempts m = rm_attempts (rc_meta s) \<and> rm_total_retry_wait m = rm_total_retry_wait (rc_meta s)
        | _ \<Rightarrow> True"
    using run by (cases v rule: verdict.exhaust) (auto simp del: reconnect_loop.simps split: sum.split dest!: reconnect_loop_items)
  ultimately show ?thesis
    unfolding run by (auto simp: stream_settled_def reconnect_inv_def split: option.splits)
qed

end

lemma reduced_sum:
  "a \<le> rg_max_retries config \<Longrightarrow> unat (rg_max_retries (reduced_config config a)) = unat (rg_max_retries config) - unat a"
  by (auto simp: reduced_config_def saturating_sub_u32_def unat_sub word_le_nat_alt word_less_nat_alt)

lemma metadata_ok_reduced [simp]: "metadata_ok (reduced_config config a) = metadata_ok config"
  by (simp add: fun_eq_iff metadata_ok_def reduced_config_def)

context retry_classifier
begin

lemma retry_run_connects:
  assumes run: "retry_loop (unat (rg_max_retries (reduced_config config a)) + n) (reduced_config config a) driver classify nw
      (retry_start now cells) = (v, s)"
    and fuel: "resends cells < n" and le: "a \<le> rg_max_retries config"
  shows "sr_sends s \<le> (unat (rg_max_retries config) - unat a) + Suc (resends cells)"
    and "v = Return (Inr (r, m)) \<Longrightarrow> unat a + unat (rm_attempts m) \<le> unat (rg_max_retries config)
      \<and> metadata_ok config (sr_now s - now) m \<and> sr_sends s \<le> unat (rm_attempts m) + Suc (resends cells)"
proof -
  note facts = retry_run_metadata [OF run fuel]
  have le': "unat a \<le> unat (rg_max_retries config)" using le by (simp add: word_le_nat_alt)
  have att: "unat (rm_attempts (sr_meta s)) \<le> unat (rg_max_retries config) - unat a"
    using facts(2) reduced_sum [OF le] by (simp add: word_le_nat_alt)
  then show "sr_sends s \<le> (unat (rg_max_retries config) - unat a) + Suc (resends cells)" using facts(1) by linarith
  assume "v = Return (Inr (r, m))"
  then have m: "rm_attempts m = rm_attempts (sr_meta s)" "metadata_ok config (sr_now s - now) m" using facts(3) by simp_all
  have "unat a + unat (rm_attempts m) \<le> unat (rg_max_retries config)" using att le' by (simp add: m(1))
  moreover have "sr_sends s \<le> unat (rm_attempts m) + Suc (resends cells)" using facts(1) by (simp add: m(1))
  ultimately show "unat a + unat (rm_attempts m) \<le> unat (rg_max_retries config)
      \<and> metadata_ok config (sr_now s - now) m \<and> sr_sends s \<le> unat (rm_attempts m) + Suc (resends cells)" using m(2) by blast
qed

end

lemma returned_response: "(case v of Return r \<Rightarrow> Some r | _ \<Rightarrow> None) = Some x \<Longrightarrow> v = Return x"
  by (cases v) auto

lemma openai_connect_facts:
  assumes "openai_connect config ew model nws w i a now = (took, result, w')" and le: "a \<le> rg_max_retries config"
  shows "w' \<le> w + (unat (rg_max_retries config) - unat a) + 1"
    and "result = Some (Inr (r, m)) \<Longrightarrow> unat a + unat (rm_attempts m) \<le> unat (rg_max_retries config)
      \<and> metadata_ok config took m \<and> w' \<le> w + unat (rm_attempts m) + 1"
proof -
  let ?c = "reduced_config config a"
  obtain v s where run: "retry_loop (unat (rg_max_retries ?c) + 1) ?c ''OpenAIProtocolDriver'' (openai_classify config ew model) (nws i)
      (retry_start now None) = (v, s)" by fastforce
  have sent: "w' = w + sr_sends s" "took = sr_now s - now" "result = (case v of Return r \<Rightarrow> Some r | _ \<Rightarrow> None)"
    using assms(1) unfolding openai_connect_def Let_def run by simp_all
  note facts = openai.retry_run_connects [OF run zero_less_one le]
  show "w' \<le> w + (unat (rg_max_retries config) - unat a) + 1" using facts(1) sent(1) by simp
  assume "result = Some (Inr (r, m))"
  then have "v = Return (Inr (r, m))" using sent(3) returned_response by metis
  then show "unat a + unat (rm_attempts m) \<le> unat (rg_max_retries config)
      \<and> metadata_ok config took m \<and> w' \<le> w + unat (rm_attempts m) + 1"
    using facts(2) sent(1,2) by simp
qed

interpretation openai_conn: connector config "openai_connect config ew model nws" "\<lambda>sent. sent" 0 for config ew model nws
  by unfold_locales (use openai_connect_facts in force)+

lemma anthropic_connect_facts:
  assumes "anthropic_connect config ew model from_profile nws w i a now = (took, result, w')" and le: "a \<le> rg_max_retries config"
  shows "fst w' \<le> fst w + (unat (rg_max_retries config) - unat a) + 2"
    and "result = Some (Inr (r, m)) \<Longrightarrow> unat a + unat (rm_attempts m) \<le> unat (rg_max_retries config)
      \<and> metadata_ok config took m \<and> fst w' \<le> fst w + unat (rm_attempts m) + 2"
proof -
  let ?c = "reduced_config config a"
  let ?cells = "\<lparr>ac_last_error = None, ac_fallback_attempted = False, ac_max_tokens = snd w\<rparr>"
  obtain v s where run: "retry_loop (unat (rg_max_retries ?c) + 2) ?c ''AnthropicDriver'' (anthropic_classify config ew model from_profile)
      (nws i) (retry_start now ?cells) = (v, s)" by fastforce
  have sent: "fst w' = fst w + sr_sends s" "took = sr_now s - now" "result = (case v of Return r \<Rightarrow> Some r | _ \<Rightarrow> None)"
    using assms(1) unfolding anthropic_connect_def Let_def run by auto
  have "(if ac_fallback_attempted ?cells then 0 else 1 :: nat) < 2" by simp
  note facts = anthropic.retry_run_connects [OF run this le]
  show "fst w' \<le> fst w + (unat (rg_max_retries config) - unat a) + 2" using facts(1) sent(1) by simp
  assume "result = Some (Inr (r, m))"
  then have "v = Return (Inr (r, m))" using sent(3) returned_response by metis
  then show "unat a + unat (rm_attempts m) \<le> unat (rg_max_retries config)
      \<and> metadata_ok config took m \<and> fst w' \<le> fst w + unat (rm_attempts m) + 2"
    using facts(2) sent(1,2) by simp
qed

interpretation anthropic_conn: connector config "anthropic_connect config ew model from_profile nws" fst 1
  for config ew model from_profile nws
  by unfold_locales (use anthropic_connect_facts in force)+

section \<open>Properties\<close>

text \<open>
  C6. The two nested loops share one budget: whatever the network and the streams do, opening a
  response stream ends; the OpenAI driver sends at most one request more than the configured number
  of retries, not one per retry of each loop, the Anthropic driver at most twice as many; retries and
  waits of both loops together stay within the configured number and time, and a stream that is
  returned has lost none of its items.
\<close>

theorem stream_budgets_shared:
  "let n = Suc (unat (rg_max_retries config)) in
   stream_settled config is_reconnectable_stream_error so n (\<lambda>sent. sent)
     (connect_sse_with_reconnect config driver so (openai_connect config ew model nws) now 0)
   \<and> stream_settled config is_reconnectable_stream_error so (2 * n) fst
       (connect_sse_with_reconnect config driver so (anthropic_connect config ew model from_profile nws') now (0, max_tokens))"
  using openai_conn.reconnect_settles [of 0 config is_reconnectable_stream_error so driver]
    anthropic_conn.reconnect_settles [of "(0, max_tokens)" config is_reconnectable_stream_error so driver]
  by (simp add: connect_sse_with_reconnect_def Let_def mult_2 del: reconnect_loop.simps)

end
