(* ===== verification/Policy_Fs.thy ===== *)
theory Policy_Fs
  imports Session_Files
begin

text \<open>
  Decorators of session filesystems (\<open>crates/host/src/file_store_decorators.rs\<close>): a workspace policy, a
  list of directory names that are not written to, and a gate that asks for approval. Each maps an
  implementation of the filesystem trait to another; the policy walks directories itself where the
  wrapped filesystem would touch more than was checked.
\<close>

definition MAX_POLICY_WALK_ENTRIES :: nat where "MAX_POLICY_WALK_ENTRIES = 100000"

definition DEFAULT_WRITE_BLOCKLIST :: "string list" where
  "DEFAULT_WRITE_BLOCKLIST =
     [''.git'', ''node_modules'', ''target'', ''dist'', ''build'', ''.next'', ''.venv'', ''venv'', ''.tox'', ''.gradle'']"

section \<open>The policy store\<close>

definition checked_path :: "'s fs_api \<Rightarrow> string \<Rightarrow> fs_error + string" where
  "checked_path inner path = map_sum PolicyDenied (\<lambda>_. fa_resolve_path inner path) (policy_validate_path path)"

definition store_check_read :: "'s fs_api \<Rightarrow> workspace_policy \<Rightarrow> string \<Rightarrow> fs_error + unit" where
  "store_check_read inner policy path =
     bind_result (checked_path inner path) (\<lambda>p. map_sum PolicyDenied id (policy_check_read policy p))"

definition store_check_write :: "'s fs_api \<Rightarrow> workspace_policy \<Rightarrow> string \<Rightarrow> fs_error + unit" where
  "store_check_write inner policy path =
     bind_result (checked_path inner path) (\<lambda>p. map_sum PolicyDenied id (policy_check_write policy p))"

subsection \<open>Recursive deletes\<close>

text \<open>
  The entries of one directory: each is counted and checked; the result is the new count and the
  directories to visit.
\<close>

fun delete_entries :: "'s fs_api \<Rightarrow> workspace_policy \<Rightarrow> nat \<Rightarrow> file_info list \<Rightarrow> fs_error + nat \<times> string list" where
  "delete_entries inner policy seen [] = Inr (seen, [])"
| "delete_entries inner policy seen (e # es) =
     (if MAX_POLICY_WALK_ENTRIES < Suc seen then Inl PolicyWalkTooLarge
      else bind_result (store_check_write inner policy (fi_path e)) (\<lambda>_.
           bind_result (delete_entries inner policy (Suc seen) es) (\<lambda>(n, dirs).
           Inr (n, if fi_is_directory e then fi_path e # dirs else dirs))))"

lemma delete_entries_count:
  "delete_entries inner policy seen es = Inr (n, dirs) \<Longrightarrow> n = seen + length es \<and> length dirs \<le> length es
     \<and> (es \<noteq> [] \<longrightarrow> n \<le> MAX_POLICY_WALK_ENTRIES)"
proof (induction es arbitrary: seen n dirs)
  case (Cons e es)
  from Cons.prems obtain n' dirs' where fits: "Suc seen \<le> MAX_POLICY_WALK_ENTRIES"
    and rest: "delete_entries inner policy (Suc seen) es = Inr (n', dirs')" and eqs: "n = n'" "length dirs \<le> Suc (length dirs')"
    by (auto simp: bind_result_Inr split: if_splits)
  from Cons.IH [OF rest] fits eqs show ?case by (cases es) auto
qed simp

function (sequential) delete_walk ::
  "'s fs_api \<Rightarrow> workspace_policy \<Rightarrow> (string \<Rightarrow> fs_error + file_info list) \<Rightarrow> string list \<Rightarrow> nat \<Rightarrow> string list \<Rightarrow> fs_error + unit" where
  "delete_walk inner policy listing seen_dirs seen [] = Inr ()"
| "delete_walk inner policy listing seen_dirs seen (directory # pending) =
     (if directory \<in> set seen_dirs then delete_walk inner policy listing seen_dirs seen pending
      else case listing directory of
             Inl e \<Rightarrow> Inl e
           | Inr entries \<Rightarrow>
               (case delete_entries inner policy seen entries of
                  Inl e \<Rightarrow> Inl e
                | Inr (n, dirs) \<Rightarrow> delete_walk inner policy listing (directory # seen_dirs) n (pending @ dirs)))"
  by pat_completeness auto
termination
  by (relation "measure (\<lambda>(_, _, _, _, seen, pending). length pending + (MAX_POLICY_WALK_ENTRIES - seen))")
    (auto dest!: delete_entries_count split: if_splits)

definition check_recursive_delete :: "'s fs_api \<Rightarrow> workspace_policy \<Rightarrow> uuid \<Rightarrow> string \<Rightarrow> 's \<Rightarrow> fs_error + unit" where
  "check_recursive_delete inner policy sid path s =
     (if \<not> permits_recursive_delete policy then Inl (RecursiveDeleteDenied path)
      else bind_result (fa_stat inner sid path s) (\<lambda>target.
           case target of
             None \<Rightarrow> Inr ()
           | Some t \<Rightarrow>
               if \<not> fst_is_directory t then Inr ()
               else delete_walk inner policy (\<lambda>d. fa_list inner sid d s) [] 0 [fst_path t]))"

subsection \<open>Listings\<close>

definition check_traversal :: "workspace_policy \<Rightarrow> string \<Rightarrow> fs_error + unit" where
  "check_traversal policy p =
     (if permits_read_traversal policy p then Inr () else map_sum PolicyDenied id (policy_check_read policy p))"

definition entry_visible :: "'s fs_api \<Rightarrow> workspace_policy \<Rightarrow> file_info \<Rightarrow> bool" where
  "entry_visible inner policy e =
     (case checked_path inner (fi_path e) of
        Inl _ \<Rightarrow> False
      | Inr p \<Rightarrow> permits_read policy p \<or> permits_read_traversal policy p)"

definition policy_list :: "'s fs_api \<Rightarrow> workspace_policy \<Rightarrow> uuid \<Rightarrow> string \<Rightarrow> 's \<Rightarrow> fs_error + file_info list" where
  "policy_list inner policy sid path s =
     bind_result (checked_path inner path) (\<lambda>p.
     bind_result (check_traversal policy p) (\<lambda>_.
     bind_result (fa_list inner sid path s) (\<lambda>entries.
     Inr (filter (entry_visible inner policy) entries))))"

definition policy_stat :: "'s fs_api \<Rightarrow> workspace_policy \<Rightarrow> uuid \<Rightarrow> string \<Rightarrow> 's \<Rightarrow> fs_error + file_stat option" where
  "policy_stat inner policy sid path s =
     bind_result (checked_path inner path) (\<lambda>p.
     bind_result (check_traversal policy p) (\<lambda>_.
     fa_stat inner sid path s))"

definition policy_read :: "'s fs_api \<Rightarrow> workspace_policy \<Rightarrow> uuid \<Rightarrow> string \<Rightarrow> 's \<Rightarrow> fs_error + session_file option" where
  "policy_read inner policy sid path s =
     bind_result (store_check_read inner policy path) (\<lambda>_. fa_read inner sid path s)"

subsection \<open>Searches\<close>

text \<open>One entry of the walk: the bytes scanned so far, and the text of the entry if it is searched.\<close>

definition grep_entry ::
  "('r, 'g) search_engine \<Rightarrow> 's fs_api \<Rightarrow> workspace_policy \<Rightarrow> uuid \<Rightarrow> 'g grep_path_matcher option \<Rightarrow> 's \<Rightarrow> nat \<Rightarrow> file_info
     \<Rightarrow> fs_error + nat \<times> (string \<times> string) list" where
  "grep_entry eng inner policy sid matcher s scanned e =
     (if (case matcher of None \<Rightarrow> False | Some m \<Rightarrow> \<not> grep_path_is_match (en_glob_match eng) m (fi_path e))
      then Inr (scanned, [])
      else bind_result (policy_read inner policy sid (fi_path e) s) (\<lambda>file.
           case file of
             None \<Rightarrow> Inr (scanned, [])
           | Some f \<Rightarrow>
               if sf_encoding f \<noteq> ''text'' then Inr (scanned, [])
               else (case sf_content f of
                       None \<Rightarrow> Inr (scanned, [])
                     | Some content \<Rightarrow>
                         bind_result (account_scan scanned (utf8_len content)) (\<lambda>(take, n).
                         Inr (n, if take then [(fi_path e, content)] else [])))))"

fun grep_entries ::
  "('r, 'g) search_engine \<Rightarrow> 's fs_api \<Rightarrow> workspace_policy \<Rightarrow> uuid \<Rightarrow> 'g grep_path_matcher option \<Rightarrow> 's \<Rightarrow> nat \<Rightarrow> nat \<Rightarrow> file_info list
     \<Rightarrow> fs_error + nat \<times> nat \<times> string list \<times> (string \<times> string) list" where
  "grep_entries eng inner policy sid matcher s seen scanned [] = Inr (seen, scanned, [], [])"
| "grep_entries eng inner policy sid matcher s seen scanned (e # es) =
     (if MAX_POLICY_WALK_ENTRIES < Suc seen then Inl PolicyWalkTooLarge
      else if fi_is_directory e
      then bind_result (grep_entries eng inner policy sid matcher s (Suc seen) scanned es) (\<lambda>(n, m, dirs, texts).
           Inr (n, m, fi_path e # dirs, texts))
      else bind_result (grep_entry eng inner policy sid matcher s scanned e) (\<lambda>(scanned', found).
           bind_result (grep_entries eng inner policy sid matcher s (Suc seen) scanned' es) (\<lambda>(n, m, dirs, texts).
           Inr (n, m, dirs, found @ texts))))"

lemma grep_entries_count:
  "grep_entries eng inner policy sid matcher s seen scanned es = Inr (n, m, dirs, texts)
     \<Longrightarrow> n = seen + length es \<and> length dirs \<le> length es \<and> (es \<noteq> [] \<longrightarrow> n \<le> MAX_POLICY_WALK_ENTRIES)"
proof (induction es arbitrary: seen scanned n m dirs texts)
  case (Cons e es)
  from Cons.prems obtain scanned' n' m' dirs' texts' where fits: "Suc seen \<le> MAX_POLICY_WALK_ENTRIES"
    and rest: "grep_entries eng inner policy sid matcher s (Suc seen) scanned' es = Inr (n', m', dirs', texts')"
    and eqs: "n = n'" "length dirs \<le> Suc (length dirs')"
    by (auto simp: bind_result_Inr split: if_splits)
  from Cons.IH [OF rest] fits eqs show ?case by (cases es) auto
qed simp

function (sequential) grep_walk ::
  "('r, 'g) search_engine \<Rightarrow> 's fs_api \<Rightarrow> workspace_policy \<Rightarrow> uuid \<Rightarrow> 'g grep_path_matcher option \<Rightarrow> 's \<Rightarrow> string list \<Rightarrow> nat \<Rightarrow> nat
     \<Rightarrow> string list \<Rightarrow> fs_error + (string \<times> string) list" where
  "grep_walk eng inner policy sid matcher s seen_dirs seen scanned [] = Inr []"
| "grep_walk eng inner policy sid matcher s seen_dirs seen scanned (directory # pending) =
     (if directory \<in> set seen_dirs then grep_walk eng inner policy sid matcher s seen_dirs seen scanned pending
      else case policy_list inner policy sid directory s of
             Inl e \<Rightarrow> Inl e
           | Inr entries \<Rightarrow>
               (case grep_entries eng inner policy sid matcher s seen scanned entries of
                  Inl e \<Rightarrow> Inl e
                | Inr (n, m, dirs, texts) \<Rightarrow>
                    map_sum id ((@) texts)
                      (grep_walk eng inner policy sid matcher s (directory # seen_dirs) n m (pending @ dirs))))"
  by pat_completeness auto
termination
  by (relation "measure (\<lambda>(_, _, _, _, _, _, _, seen, _, pending). length pending + (MAX_POLICY_WALK_ENTRIES - seen))")
    (auto dest!: grep_entries_count split: if_splits)

definition policy_grep_opts ::
  "('r, 'g) search_engine \<Rightarrow> json_size \<Rightarrow> 's fs_api \<Rightarrow> workspace_policy \<Rightarrow> uuid \<Rightarrow> string \<Rightarrow> grep_options \<Rightarrow> 's
     \<Rightarrow> fs_error + grep_search_result" where
  "policy_grep_opts eng js inner policy sid pattern options s =
     bind_result (build_regex eng pattern) (\<lambda>regex.
     bind_result (validate_path_pattern (go_path_pattern options)) (\<lambda>_.
     bind_result (path_matcher eng (go_path_pattern options)) (\<lambda>matcher.
     bind_result (grep_walk eng inner policy sid matcher s [] 0 0 [''/'']) (\<lambda>texts.
     Inr (build_grep_search_result js texts (en_regex_match eng regex) options)))))"

definition policy_store :: "('r, 'g) search_engine \<Rightarrow> json_size \<Rightarrow> 's fs_api \<Rightarrow> workspace_policy \<Rightarrow> 's fs_api" where
  "policy_store eng js inner policy =
     \<lparr>fa_display_root = fa_display_root inner,
      fa_display_path = fa_display_path inner,
      fa_resolve_path = fa_resolve_path inner,
      fa_is_mount_resolver = fa_is_mount_resolver inner,
      fa_read = policy_read inner policy,
      fa_write = (\<lambda>sid path content encoding s.
        case store_check_write inner policy path of
          Inl e \<Rightarrow> (Inl e, s) | Inr _ \<Rightarrow> fa_write inner sid path content encoding s),
      fa_write_if_matches = (\<lambda>sid path expected expected_encoding content encoding s.
        case store_check_write inner policy path of
          Inl e \<Rightarrow> (Inl e, s)
        | Inr _ \<Rightarrow> fa_write_if_matches inner sid path expected expected_encoding content encoding s),
      fa_delete = (\<lambda>sid path recursive s.
        case bind_result (store_check_write inner policy path) (\<lambda>_.
               if recursive then check_recursive_delete inner policy sid path s else Inr ()) of
          Inl e \<Rightarrow> (Inl e, s) | Inr _ \<Rightarrow> fa_delete inner sid path recursive s),
      fa_list = policy_list inner policy,
      fa_stat = policy_stat inner policy,
      fa_grep = (\<lambda>sid pattern path_pattern s.
        bind_result (policy_grep_opts eng js inner policy sid pattern
          (grep_options_default\<lparr>go_path_pattern := path_pattern\<rparr>) s) (\<lambda>r. Inr (gr_matches r))),
      fa_grep_opts = policy_grep_opts eng js inner policy,
      fa_create = (\<lambda>sid path s.
        case store_check_write inner policy path of Inl e \<Rightarrow> (Inl e, s) | Inr _ \<Rightarrow> fa_create inner sid path s),
      fa_seed = fa_seed inner\<rparr>"

section \<open>The write blocklist\<close>

text \<open>\<open>Path::components\<close>: the names of a path, without dots and empty parts. \<open>with_blocklist\<close> gives the list.\<close>

definition normal_components :: "string \<Rightarrow> string list" where
  "normal_components path = filter (\<lambda>g. g \<noteq> [] \<and> g \<noteq> ''.'' \<and> g \<noteq> ''..'') (split_text CHR ''/'' path)"

definition blocklist_check :: "string list \<Rightarrow> string \<Rightarrow> fs_error + unit" where
  "blocklist_check blocklist path =
     (case find (\<lambda>name. name \<in> set blocklist) (normal_components path) of
        Some name \<Rightarrow> Inl (WriteBlocked name path)
      | None \<Rightarrow> Inr ())"

definition blocklist_store :: "'s fs_api \<Rightarrow> string list \<Rightarrow> 's fs_api" where
  "blocklist_store inner blocklist =
     \<lparr>fa_display_root = default_display_root,
      fa_display_path = default_display_path,
      fa_resolve_path = default_resolve_path,
      fa_is_mount_resolver = fa_is_mount_resolver inner,
      fa_read = fa_read inner,
      fa_write = (\<lambda>sid path content encoding s.
        case blocklist_check blocklist path of
          Inl e \<Rightarrow> (Inl e, s) | Inr _ \<Rightarrow> fa_write inner sid path content encoding s),
      fa_write_if_matches = (\<lambda>sid path expected expected_encoding content encoding s.
        case blocklist_check blocklist path of
          Inl e \<Rightarrow> (Inl e, s)
        | Inr _ \<Rightarrow> fa_write_if_matches inner sid path expected expected_encoding content encoding s),
      fa_delete = (\<lambda>sid path recursive s.
        case blocklist_check blocklist path of Inl e \<Rightarrow> (Inl e, s) | Inr _ \<Rightarrow> fa_delete inner sid path recursive s),
      fa_list = fa_list inner,
      fa_stat = fa_stat inner,
      fa_grep = fa_grep inner,
      fa_grep_opts = fa_grep_opts inner,
      fa_create = (\<lambda>sid path s.
        case blocklist_check blocklist path of Inl e \<Rightarrow> (Inl e, s) | Inr _ \<Rightarrow> fa_create inner sid path s),
      fa_seed = (\<lambda>sid file s.
        case blocklist_check blocklist (if_path file) of Inl e \<Rightarrow> (Inl e, s) | Inr _ \<Rightarrow> fa_seed inner sid file s)\<rparr>"

section \<open>The approval gate\<close>

text \<open>What the embedder answers, given the path and for a write the content before and after.\<close>

record approval_gate =
  ag_write :: "string \<Rightarrow> string option \<Rightarrow> string \<Rightarrow> bool"
  ag_delete :: "string \<Rightarrow> bool \<Rightarrow> bool"

definition gated_write_with_before ::
  "'s fs_api \<Rightarrow> approval_gate \<Rightarrow> uuid \<Rightarrow> string \<Rightarrow> string option \<Rightarrow> string \<Rightarrow> string \<Rightarrow> ('s, fs_error, session_file) op" where
  "gated_write_with_before inner gate sid path before_content content encoding s =
     (if ag_write gate path before_content content then fa_write inner sid path content encoding s
      else (Inl (UserDenied path), s))"

definition gated_write_if_matches ::
  "'s fs_api \<Rightarrow> approval_gate \<Rightarrow> uuid \<Rightarrow> string \<Rightarrow> string \<Rightarrow> string \<Rightarrow> string \<Rightarrow> string \<Rightarrow> ('s, fs_error, session_file option) op" where
  "gated_write_if_matches inner gate sid path expected expected_encoding content encoding s =
     (case fa_read inner sid path s of
        Inl e \<Rightarrow> (Inl e, s)
      | Inr None \<Rightarrow> (Inr None, s)
      | Inr (Some existing) \<Rightarrow>
          if sf_is_directory existing then (Inr None, s)
          else let current = get_or [] (sf_content existing) in
               if current \<noteq> expected \<or> sf_encoding existing \<noteq> expected_encoding then (Inr None, s)
               else if \<not> ag_write gate path (Some current) content then (Inl (UserDenied path), s)
               else fa_write_if_matches inner sid path expected expected_encoding content encoding s)"

definition approval_store :: "'s fs_api \<Rightarrow> approval_gate \<Rightarrow> 's fs_api" where
  "approval_store inner gate =
     \<lparr>fa_display_root = default_display_root,
      fa_display_path = default_display_path,
      fa_resolve_path = default_resolve_path,
      fa_is_mount_resolver = fa_is_mount_resolver inner,
      fa_read = fa_read inner,
      fa_write = (\<lambda>sid path content encoding s.
        case fa_read inner sid path s of
          Inl e \<Rightarrow> (Inl e, s)
        | Inr f \<Rightarrow> gated_write_with_before inner gate sid path (Option.bind f sf_content) content encoding s),
      fa_write_if_matches = gated_write_if_matches inner gate,
      fa_delete = (\<lambda>sid path recursive s.
        if ag_delete gate path recursive then fa_delete inner sid path recursive s else (Inl (UserDenied path), s)),
      fa_list = fa_list inner,
      fa_stat = fa_stat inner,
      fa_grep = fa_grep inner,
      fa_grep_opts = fa_grep_opts inner,
      fa_create = fa_create inner,
      fa_seed = fa_seed inner\<rparr>"

section \<open>What a check says of a key\<close>

text \<open>What a policy says of a stored key, by the components of the key itself.\<close>

definition key_permits :: "(policy_layer \<Rightarrow> policy_path \<Rightarrow> bool) \<Rightarrow> workspace_policy \<Rightarrow> string \<Rightarrow> bool" where
  "key_permits permits policy k \<longleftrightarrow>
     ''..'' \<notin> set (segs k) \<and> list_all (\<lambda>l. permits l (filter (\<lambda>g. g \<noteq> ''.'') (segs k))) policy"

abbreviation key_readable :: "workspace_policy \<Rightarrow> string \<Rightarrow> bool" where
  "key_readable \<equiv> key_permits layer_permits_read"

abbreviation key_writable :: "workspace_policy \<Rightarrow> string \<Rightarrow> bool" where
  "key_writable \<equiv> key_permits layer_permits_write"

abbreviation key_traversable :: "workspace_policy \<Rightarrow> string \<Rightarrow> bool" where
  "key_traversable \<equiv> key_permits layer_permits_traversal"

text \<open>A check parses its argument, so it decides about the key of the key it is given.\<close>

lemma policy_parse_key:
  "policy_path_parse p = Inr gs \<Longrightarrow>
     gs = filter (\<lambda>g. g \<noteq> ''.'') (segs (to_session_path p)) \<and> ''..'' \<notin> set (segs (to_session_path p))"
  using policy_path_parse_Inr [of p gs] by simp

lemma permits_key:
  "permits_read policy p \<Longrightarrow> key_readable policy (to_session_path p)"
  "permits_write policy p \<Longrightarrow> key_writable policy (to_session_path p)"
  "permits_read_traversal policy p \<Longrightarrow> key_traversable policy (to_session_path p)"
  using policy_parse_key [of p] by (auto simp: policy_permits key_permits_def split: sum.splits)

lemma checked_path_Inr: "checked_path inner p = Inr k \<Longrightarrow> k = fa_resolve_path inner p"
  by (cases "policy_validate_path p") (simp_all add: checked_path_def)

lemma store_check_key:
  assumes "fa_resolve_path inner = to_session_path"
  shows "store_check_read inner policy p = Inr u \<Longrightarrow> key_readable policy (to_session_path (to_session_path p))"
    and "store_check_write inner policy p = Inr u \<Longrightarrow> key_writable policy (to_session_path (to_session_path p))"
  using assms checked_path_Inr [of inner p] permits_key(1,2) [of policy "to_session_path p"]
  by (auto simp: store_check_read_def store_check_write_def bind_result_Inr map_sum_Inr check_read_iff check_write_iff)

section \<open>The walk covers what is deleted\<close>





section \<open>Over the in-memory store\<close>






subsection \<open>The changes of a store\<close>

text \<open>The operations that change files, and the state after one.\<close>

datatype change_op =
    PutOp string string string
  | SwapOp string string string string string
  | DropOp string bool
  | MkdirOp string

fun store_apply :: "'s fs_api \<Rightarrow> uuid \<Rightarrow> change_op \<Rightarrow> 's \<Rightarrow> 's" where
  "store_apply api sid (PutOp p c e) s = snd (fa_write api sid p c e s)"
| "store_apply api sid (SwapOp p old old_e c e) s = snd (fa_write_if_matches api sid p old old_e c e s)"
| "store_apply api sid (DropOp p r) s = snd (fa_delete api sid p r s)"
| "store_apply api sid (MkdirOp p) s = snd (fa_create api sid p s)"

text \<open>An entry is kept: it is as it was, or it was missing and is now an empty directory.\<close>

definition entry_kept :: "file_store \<Rightarrow> file_store \<Rightarrow> uuid \<times> string \<Rightarrow> bool" where
  "entry_kept files files' k \<longleftrightarrow>
     hm_get files' k = hm_get files k
     \<or> hm_get files k = None \<and> (\<exists>f. hm_get files' k = Some f \<and> sf_is_directory f \<and> sf_content f = None)"

lemma entry_kept_refl [simp]: "entry_kept files files k"
  by (simp add: entry_kept_def)









lemma policy_store_simps [simp]:
  "fa_write (policy_store eng js inner policy) sid p c e s =
     (case store_check_write inner policy p of Inl e \<Rightarrow> (Inl e, s) | Inr _ \<Rightarrow> fa_write inner sid p c e s)"
  "fa_write_if_matches (policy_store eng js inner policy) sid p old old_e c e s =
     (case store_check_write inner policy p of Inl e \<Rightarrow> (Inl e, s) | Inr _ \<Rightarrow> fa_write_if_matches inner sid p old old_e c e s)"
  "fa_delete (policy_store eng js inner policy) sid p r s =
     (case bind_result (store_check_write inner policy p) (\<lambda>_.
             if r then check_recursive_delete inner policy sid p s else Inr ()) of
        Inl e \<Rightarrow> (Inl e, s) | Inr _ \<Rightarrow> fa_delete inner sid p r s)"
  "fa_create (policy_store eng js inner policy) sid p s =
     (case store_check_write inner policy p of Inl e \<Rightarrow> (Inl e, s) | Inr _ \<Rightarrow> fa_create inner sid p s)"
  "fa_read (policy_store eng js inner policy) = policy_read inner policy"
  "fa_list (policy_store eng js inner policy) = policy_list inner policy"
  "fa_grep_opts (policy_store eng js inner policy) = policy_grep_opts eng js inner policy"
  by (simp_all add: policy_store_def)

lemma memory_changes [simp]:
  "fa_delete (memory_api env eng js) sid p r s = (Inr (fst (delete_file sid p r s)), snd (delete_file sid p r s))"
  "fa_create (memory_api env eng js) = create_directory env"
  "fa_list (memory_api env eng js) sid p s = Inr (list_directory (en_now env) sid p s)"
  "fa_stat (memory_api env eng js) sid p s = Inr (stat_file (en_now env) sid p s)"
  by (simp_all add: memory_api_def split: prod.split)

lemma memory_resolve: "fa_resolve_path (memory_api env eng js) = to_session_path"
  by (simp add: memory_api_def default_resolve_path_def fun_eq_iff)



section \<open>What a policy discloses\<close>

text \<open>
  What may be known of a session's files: the metadata of what may be read or passed through, and the
  whole entry where it may be read.
\<close>

definition key_visible :: "workspace_policy \<Rightarrow> string \<Rightarrow> bool" where
  "key_visible policy q \<longleftrightarrow> key_readable policy q \<or> key_traversable policy q"

definition policy_view :: "uuid \<Rightarrow> workspace_policy \<Rightarrow> file_store \<Rightarrow> (string \<times> file_info \<times> session_file option) list" where
  "policy_view sid policy files =
     map (\<lambda>((_, q), f). (q, info_of_file f, if key_readable policy q then Some f else None))
       (filter (\<lambda>((s, q), _). s = sid \<and> key_visible policy q) files)"

definition keys_settled :: "uuid \<Rightarrow> file_store \<Rightarrow> bool" where
  "keys_settled sid files \<longleftrightarrow> list_all (\<lambda>((s, q), _). s = sid \<longrightarrow> to_session_path q = q) files"

lemma policy_view_get:
  "map_of (policy_view sid policy files) q =
     (if key_visible policy q
      then map_option (\<lambda>f. (info_of_file f, if key_readable policy q then Some f else None)) (hm_get files (sid, q))
      else None)"
  by (induction files) (auto simp: policy_view_def hm_get_def)

lemma view_read:
  assumes "policy_view sid policy files = policy_view sid policy files'" and "key_readable policy q"
  shows "hm_get files (sid, q) = hm_get files' (sid, q)"
  using assms policy_view_get [of sid policy files q] policy_view_get [of sid policy files' q]
  by (cases "hm_get files (sid, q)"; cases "hm_get files' (sid, q)") (auto simp: key_visible_def)

lemma view_info:
  assumes "policy_view sid policy files = policy_view sid policy files'" and "key_visible policy q"
  shows "map_option info_of_file (hm_get files (sid, q)) = map_option info_of_file (hm_get files' (sid, q))"
  using assms policy_view_get [of sid policy files q] policy_view_get [of sid policy files' q]
  by (cases "hm_get files (sid, q)"; cases "hm_get files' (sid, q)") auto

lemma info_facts:
  "info_of_file f = info_of_file g \<Longrightarrow> stat_of_file f = stat_of_file g"
  "info_of_file f = info_of_file g \<Longrightarrow> sf_is_directory f = sf_is_directory g"
  by (simp_all add: info_of_file_def stat_of_file_def)

lemma traversal_visible:
  assumes "checked_path (memory_api env eng js) p = Inr k" and "check_traversal policy k = Inr u"
  shows "key_visible policy (to_session_path (to_session_path p))"
  using assms checked_path_Inr [of "memory_api env eng js" p k] permits_key(1,3) [of policy "to_session_path p"]
  by (auto simp: memory_resolve check_traversal_def map_sum_Inr check_read_iff key_visible_def split: if_splits)

lemma entry_visible_key:
  assumes "entry_visible (memory_api env eng js) policy e"
  shows "key_visible policy (to_session_path (to_session_path (fi_path e)))"
  using assms checked_path_Inr [of "memory_api env eng js" "fi_path e"] permits_key(1,3) [of policy "to_session_path (fi_path e)"]
  by (auto simp: memory_resolve entry_visible_def key_visible_def split: sum.splits)

text \<open>The visible entries of a directory are in the view.\<close>

lemma view_filter_visible:
  assumes "\<forall>(k, f) \<in> set files. fst k = sid \<longrightarrow> P (info_of_file f) \<longrightarrow> key_visible policy (snd k)"
  shows "filter P (map (\<lambda>((_, _), f). info_of_file f) (filter (\<lambda>((s, q), _). s = sid \<and> parent_path q = Some d) files))
    = filter P (map (\<lambda>(q, i, _). i) (filter (\<lambda>(q, _). parent_path q = Some d) (policy_view sid policy files)))"
  using assms
proof (induction files)
  case (Cons e files)
  obtain s q f where e: "e = ((s, q), f)" by (metis prod.collapse)
  have "key_visible policy q" if "s = sid" "P (info_of_file f)" using Cons.prems that e by simp
  moreover have "\<forall>(k, f) \<in> set files. fst k = sid \<longrightarrow> P (info_of_file f) \<longrightarrow> key_visible policy (snd k)"
    using Cons.prems by simp
  ultimately show ?case
    using Cons.IH by (cases "s = sid"; cases "P (info_of_file f)") (simp_all add: e policy_view_def)
qed (simp add: policy_view_def)

lemma settled_entry:
  "files_wf files \<Longrightarrow> keys_settled sid files \<Longrightarrow> (k, f) \<in> set files \<Longrightarrow>
     entry_ok k f \<and> (fst k = sid \<longrightarrow> to_session_path (snd k) = snd k)"
  by (auto simp: files_wf_def keys_settled_def list_all_iff)

lemma visible_entries:
  assumes wf: "files_wf files" and keys: "keys_settled sid files"
  shows "filter (entry_visible (memory_api env eng js) policy)
      (map (\<lambda>((_, _), f). info_of_file f) (filter (\<lambda>((s, q), _). s = sid \<and> parent_path q = Some d) files))
    = filter (entry_visible (memory_api env eng js) policy)
      (map (\<lambda>(q, i, _). i) (filter (\<lambda>(q, _). parent_path q = Some d) (policy_view sid policy files)))"
proof -
  have "key_visible policy (snd k)"
    if "(k, f) \<in> set files" "fst k = sid" "entry_visible (memory_api env eng js) policy (info_of_file f)" for k f
    using that entry_visible_key [of env eng js policy "info_of_file f"] settled_entry [OF wf keys that(1)]
    by (auto simp: entry_ok_def info_of_file_def)
  then show ?thesis by (intro view_filter_visible) blast
qed

lemma list_view_eq:
  assumes wf: "files_wf files" "files_wf files'" and keys: "keys_settled sid files" "keys_settled sid files'"
    and view: "policy_view sid policy files = policy_view sid policy files'"
    and settled: "to_session_path (to_session_path p) = to_session_path p"
  shows "policy_list (memory_api env eng js) policy sid p files = policy_list (memory_api env eng js) policy sid p files'"
proof (cases "checked_path (memory_api env eng js) p")
  case (Inr k)
  show ?thesis
  proof (cases "check_traversal policy k")
    case (Inr u)
    let ?d = "to_session_path p"
    have "key_visible policy ?d" using traversal_visible [OF \<open>checked_path _ p = Inr k\<close> Inr] settled by simp
    from view_info [OF view this] have dir: "(case hm_get files (sid, ?d) of None \<Rightarrow> False | Some f \<Rightarrow> sf_is_directory f)
        = (case hm_get files' (sid, ?d) of None \<Rightarrow> False | Some f \<Rightarrow> sf_is_directory f)"
      by (cases "hm_get files (sid, ?d)"; cases "hm_get files' (sid, ?d)") (auto dest: info_facts(2))
    have list: "list_directory now sid p fs =
        (if ?d = ''/'' \<or> (case hm_get fs (sid, ?d) of None \<Rightarrow> False | Some f \<Rightarrow> sf_is_directory f)
         then sort_key fi_path (map (\<lambda>((_, _), f). info_of_file f) (filter (\<lambda>((s, q), _). s = sid \<and> parent_path q = Some ?d) fs))
         else [])" for now fs
      using settled by (auto simp: list_directory_def normalize_path_def read_file_def Let_def split: option.split)
    have "filter (entry_visible (memory_api env eng js) policy) (list_directory (en_now env) sid p files)
        = filter (entry_visible (memory_api env eng js) policy) (list_directory (en_now env) sid p files')"
      unfolding list filter_sort if_distrib [of "filter _"] dir
        visible_entries [OF wf(1) keys(1)] visible_entries [OF wf(2) keys(2)] view ..
    with Inr \<open>checked_path _ p = Inr k\<close> show ?thesis by (simp add: policy_list_def bind_result_def)
  qed (simp add: policy_list_def bind_result_def Inr)
qed (simp add: policy_list_def bind_result_def)

lemma read_view_eq:
  assumes view: "policy_view sid policy files = policy_view sid policy files'"
    and settled: "to_session_path (to_session_path p) = to_session_path p"
  shows "policy_read (memory_api env eng js) policy sid p files = policy_read (memory_api env eng js) policy sid p files'"
proof (cases "store_check_read (memory_api env eng js) policy p")
  case (Inr u)
  from view_read [OF view] store_check_key(1) [OF memory_resolve Inr] settled
  have "hm_get files (sid, to_session_path p) = hm_get files' (sid, to_session_path p)" by simp
  then show ?thesis by (simp add: policy_read_def read_file_def normalize_path_def Let_def)
qed (simp add: policy_read_def bind_result_def)

lemma stat_view_eq:
  assumes view: "policy_view sid policy files = policy_view sid policy files'"
    and settled: "to_session_path (to_session_path p) = to_session_path p"
  shows "policy_stat (memory_api env eng js) policy sid p files = policy_stat (memory_api env eng js) policy sid p files'"
proof (cases "bind_result (checked_path (memory_api env eng js) p) (check_traversal policy)")
  case (Inl e)
  then show ?thesis by (auto simp: policy_stat_def bind_result_def split: sum.splits)
next
  case (Inr u)
  then obtain k where k: "checked_path (memory_api env eng js) p = Inr k" "check_traversal policy k = Inr u"
    by (auto simp: bind_result_Inr)
  from view_info [OF view, of "to_session_path p"] traversal_visible [OF k] settled
  have "map_option info_of_file (hm_get files (sid, to_session_path p))
      = map_option info_of_file (hm_get files' (sid, to_session_path p))" by simp
  then have "stat_file now sid p files = stat_file now sid p files'" for now
    by (cases "hm_get files (sid, to_session_path p)"; cases "hm_get files' (sid, to_session_path p)")
      (auto simp: stat_file_def normalize_path_def Let_def dest: info_facts(1))
  then show ?thesis by (simp add: policy_stat_def memory_api_def)
qed

text \<open>A listing names its entries by their keys, so the walk stays on settled paths.\<close>

lemma listed_settled:
  assumes wf: "files_wf files" and keys: "keys_settled sid files"
    and listed: "policy_list (memory_api env eng js) policy sid p files = Inr es" "e \<in> set es"
  shows "to_session_path (fi_path e) = fi_path e"
proof -
  from listed have "e \<in> set (list_directory (en_now env) sid p files)" by (auto simp: policy_list_def bind_result_Inr)
  then obtain q f where "((sid, q), f) \<in> set files" "e = info_of_file f"
    by (auto simp: list_directory_def Let_def split: if_splits option.splits)
  with settled_entry [OF wf keys this(1)] show ?thesis by (simp add: entry_ok_def info_of_file_def)
qed

lemma grep_entries_eq:
  assumes view: "policy_view sid policy files = policy_view sid policy files'"
    and "\<forall>e \<in> set es. to_session_path (to_session_path (fi_path e)) = to_session_path (fi_path e)"
  shows "grep_entries eng (memory_api env eng js) policy sid m files seen scanned es
    = grep_entries eng (memory_api env eng js) policy sid m files' seen scanned es"
  using assms(2)
proof (induction es arbitrary: seen scanned)
  case (Cons e es)
  have "grep_entry eng (memory_api env eng js) policy sid m files n e = grep_entry eng (memory_api env eng js) policy sid m files' n e" for n
    using read_view_eq [OF view, of "fi_path e" env eng js] Cons.prems by (simp add: grep_entry_def)
  with Cons show ?case by simp
qed simp

lemma grep_entries_dirs:
  "grep_entries eng inner policy sid m s seen scanned es = Inr (n, k, dirs, texts) \<Longrightarrow> set dirs \<subseteq> fi_path ` set es"
proof (induction es arbitrary: seen scanned n k dirs texts)
  case (Cons e es)
  then show ?case by (auto simp: bind_result_Inr split: if_splits) blast+
qed simp

lemma grep_walk_cong:
  assumes "\<And>d. S d \<Longrightarrow> policy_list inner policy sid d s = policy_list inner policy sid d s'"
    and "\<And>d es. S d \<Longrightarrow> policy_list inner policy sid d s = Inr es \<Longrightarrow> fi_path ` set es \<subseteq> Collect S"
    and "\<And>es seen scanned. fi_path ` set es \<subseteq> Collect S \<Longrightarrow>
      grep_entries eng inner policy sid m s seen scanned es = grep_entries eng inner policy sid m s' seen scanned es"
    and "set pending \<subseteq> Collect S"
  shows "grep_walk eng inner policy sid m s seen_dirs seen scanned pending
    = grep_walk eng inner policy sid m s' seen_dirs seen scanned pending"
  using assms
proof (induction eng inner policy sid m s seen_dirs seen scanned pending rule: grep_walk.induct)
  case (2 eng inner policy sid m s seen_dirs seen scanned d pending)
  show ?case
  proof (cases "d \<in> set seen_dirs")
    case True
    then show ?thesis using "2.IH"(1) [OF True "2.prems"(1,2,3)] "2.prems"(4) by simp
  next
    case False
    have d: "S d" using "2.prems"(4) by simp
    show ?thesis
    proof (cases "policy_list inner policy sid d s")
      case (Inr es)
      note es = "2.prems"(2) [OF d Inr]
      show ?thesis
      proof (cases "grep_entries eng inner policy sid m s seen scanned es")
        case (Inr r)
        obtain n k dirs texts where r: "r = (n, k, dirs, texts)" by (metis prod.collapse)
        have "set (pending @ dirs) \<subseteq> Collect S"
          using order_trans [OF grep_entries_dirs [OF Inr [unfolded r]] es] "2.prems"(4) by simp
        from "2.IH"(2) [OF False \<open>policy_list _ _ _ d s = Inr es\<close> Inr r [symmetric] refl refl "2.prems"(1,2,3) this]
        show ?thesis
          using False \<open>policy_list _ _ _ d s = Inr es\<close> "2.prems"(1) [OF d] "2.prems"(3) [OF es] Inr r by simp
      qed (use False Inr "2.prems"(1) [OF d] "2.prems"(3) [OF es] in simp)
    qed (use False "2.prems"(1) [OF d] in simp)
  qed
qed simp

text \<open>
  C16. What a policy hides does not show. Through a policy over the in-memory store, searches give the same answer on any
  two tables that have the same view: the same entries the policy lets be read, and the same metadata of those it lets be
  passed through; and so do a read, a listing and the status of a path that is not changed by resolving it a second time (as
  that of a nested \<open>workspace\<close> directory or of a last name that ends in a space is). What
  denied files hold, and whether there are any, has no influence on what is returned, on the limits of
  a search or on its failing. The keys of the tables are not changed by resolving them either; for other paths
  \<open>nested_alias_passes\<close> below shows a read of what is denied.
\<close>

theorem policy_hides_denied:
  assumes wf: "files_wf files" "files_wf files'" and keys: "keys_settled sid files" "keys_settled sid files'"
    and view: "policy_view sid policy files = policy_view sid policy files'"
  shows "let store = policy_store eng js (memory_api env eng js) policy in
    (to_session_path (to_session_path p) = to_session_path p \<longrightarrow>
       fa_read store sid p files = fa_read store sid p files'
       \<and> fa_list store sid p files = fa_list store sid p files'
       \<and> fa_stat store sid p files = fa_stat store sid p files')
    \<and> fa_grep_opts store sid pattern options files = fa_grep_opts store sid pattern options files'
    \<and> fa_grep store sid pattern path_pattern files = fa_grep store sid pattern path_pattern files'"
proof -
  let ?S = "\<lambda>d. to_session_path (to_session_path d) = to_session_path d" and ?api = "memory_api env eng js"
  have listed: "fi_path ` set es \<subseteq> Collect ?S" if "policy_list ?api policy sid d files = Inr es" for d es
    using listed_settled [OF wf(1) keys(1) that] by auto
  have entries: "grep_entries eng ?api policy sid m files seen scanned es = grep_entries eng ?api policy sid m files' seen scanned es"
    if "fi_path ` set es \<subseteq> Collect ?S" for m seen scanned es
    using grep_entries_eq [OF view] that by blast
  have "to_session_path ''/'' = ''/''" by code_simp
  then have "grep_walk eng ?api policy sid m files [] 0 0 [''/''] = grep_walk eng ?api policy sid m files' [] 0 0 [''/'']" for m
    by (intro grep_walk_cong [of ?S ?api policy sid files files' eng m] list_view_eq [OF wf keys view])
      (erule listed entries | simp)+
  then have "policy_grep_opts eng js ?api policy sid pattern opts files = policy_grep_opts eng js ?api policy sid pattern opts files'" for opts
    by (simp add: policy_grep_opts_def)
  then show ?thesis
    using read_view_eq [OF view, of p env eng js] list_view_eq [OF wf keys view, of p env eng js]
      stat_view_eq [OF view, of p env eng js]
    by (simp add: policy_store_def)
qed

text \<open>A workspace in which everything but the defaults may be written, and a directory with a sensitive file.\<close>

definition demo_matcher :: "(string, string) search_engine" where
  "demo_matcher = \<lparr>en_regex = Some, en_regex_match = sublist, en_glob = Some, en_glob_match = (=)\<rparr>"

definition demo_sizes :: json_size where
  "demo_sizes = \<lparr>js_match = (\<lambda>m. 0), js_block = (\<lambda>b. 0)\<rparr>"

definition demo_workspace_policy :: workspace_policy where
  "demo_workspace_policy = map (\<lambda>l. l\<lparr>pl_recursive_delete := True\<rparr>) policy_read_write"

definition demo_tree :: "string \<Rightarrow> file_store" where
  "demo_tree secret = fold fs_apply
     [WriteOp demo_fs_env 1 ''/a/d/.env'' secret ''text'', WriteOp demo_fs_env 1 ''/a/b'' ''x'' ''text''] file_store_new"


theorem policy_hides_denied_witness:
  "policy_grep_opts demo_matcher demo_sizes (memory_api demo_fs_env demo_matcher demo_sizes) demo_workspace_policy 1 ''k'' grep_options_default
     (demo_tree ''s'')
   = policy_grep_opts demo_matcher demo_sizes (memory_api demo_fs_env demo_matcher demo_sizes) demo_workspace_policy 1 ''k'' grep_options_default
     (demo_tree ''keys'')
   \<and> demo_tree ''s'' \<noteq> demo_tree ''keys''"
proof -
  have "files_wf (demo_tree ''s'')" "files_wf (demo_tree ''keys'')" "keys_settled 1 (demo_tree ''s'')" "keys_settled 1 (demo_tree ''keys'')"
    "policy_view 1 demo_workspace_policy (demo_tree ''s'') = policy_view 1 demo_workspace_policy (demo_tree ''keys'')"
    "to_session_path (to_session_path ''/'') = to_session_path ''/''" "demo_tree ''s'' \<noteq> demo_tree ''keys''"
    by code_simp+
  then show ?thesis
    using policy_hides_denied [of "demo_tree ''s''" "demo_tree ''keys''" 1 demo_workspace_policy demo_matcher demo_sizes demo_fs_env
        "''/''" "''k''" grep_options_default None]
    by (simp add: Let_def)
qed

section \<open>The blocklist and the gate\<close>

text \<open>
  A write that the blocklist lets through reaches no key with a blocked name, provided that its path has
  no space around it: the check looks at the path as it is given, the stores trim it first.
\<close>

lemma blocklist_keys:
  assumes "blocklist_check blocklist p = Inr ()" and "trim p = p" and "trim (to_session_path p) = to_session_path p"
  shows "\<forall>name \<in> set (segs (to_session_path (to_session_path p))). name \<in> set blocklist \<longrightarrow> name = ''.'' \<or> name = ''..''"
proof -
  have "set (dealias q) \<subseteq> set (segs q)" for q by (cases "segs q") (auto simp: dealias_def)
  then have "set (segs (to_session_path (to_session_path p))) \<subseteq> set (segs p)"
    using assms(2,3) segs_to_session_path [of p] by (metis order_trans segs_to_session_path)
  moreover have "name \<notin> set blocklist" if "name \<in> set (segs p)" "name \<noteq> ''.''" "name \<noteq> ''..''" for name
    using assms(1) that by (auto simp: blocklist_check_def normal_components_def segs_def find_None_iff split: option.splits)
  ultimately show ?thesis by blast
qed

text \<open>A space in front of the path is enough to write below a blocked directory.\<close>

lemma blocklist_leading_space:
  "let store = blocklist_store (memory_api demo_fs_env demo_matcher demo_sizes) DEFAULT_WRITE_BLOCKLIST in
     blocklist_check DEFAULT_WRITE_BLOCKLIST ''.git/config'' = Inl (WriteBlocked ''.git'' ''.git/config'')
     \<and> map_option sf_content (hm_get (store_apply store 1 (PutOp '' .git/config'' ''x'' ''text'') file_store_new) (1, ''/.git/config''))
       = Some (Some ''x'')"
  by code_simp

text \<open>What is changed through the gate was approved, with the content that was there and the one that is written.\<close>

fun approved :: "approval_gate \<Rightarrow> 's fs_api \<Rightarrow> uuid \<Rightarrow> change_op \<Rightarrow> 's \<Rightarrow> bool" where
  "approved gate api sid (PutOp p c e) s =
     (case fa_read api sid p s of Inl _ \<Rightarrow> False | Inr f \<Rightarrow> ag_write gate p (Option.bind f sf_content) c)"
| "approved gate api sid (SwapOp p old old_e c e) s = ag_write gate p (Some old) c"
| "approved gate api sid (DropOp p r) s = ag_delete gate p r"
| "approved gate api sid (MkdirOp p) s = True"

lemma approval_gates_changes:
  "store_apply (approval_store api gate) sid op s = (if approved gate api sid op s then store_apply (approval_store api gate) sid op s else s)"
  by (cases op) (auto simp: approval_store_def gated_write_with_before_def gated_write_if_matches_def Let_def
      split: sum.split option.split)

section \<open>Where the policy is passed by\<close>

text \<open>
  The policy parses the path that the wrapped store has resolved, and so takes off a workspace alias a
  second time. The path of a nested \<open>workspace\<close> directory that a policy denies by name is read and deleted.
\<close>

definition nested_policy :: workspace_policy where
  "nested_policy = map (\<lambda>l. l\<lparr>pl_deny_read := [[''workspace'', ''key'']], pl_deny_write := [[''workspace'', ''key'']]\<rparr>) policy_read_write"

definition nested_files :: file_store where
  "nested_files = snd (write_file demo_fs_env 1 ''/workspace/workspace/workspace/key'' ''s'' ''text'' file_store_new)"

lemma nested_alias_passes:
  "let store = policy_store demo_matcher demo_sizes (memory_api demo_fs_env demo_matcher demo_sizes) nested_policy;
       p = ''/workspace/workspace/key'' in
     policy_check_read nested_policy p = Inl (ReadDenied ''/workspace/workspace/key'')
     \<and> map_sum id (map_option sf_content) (fa_read store 1 p nested_files) = Inr (Some (Some ''s''))
     \<and> policy_check_write nested_policy p = Inl (WriteDenied ''/workspace/workspace/key'')
     \<and> hm_get (store_apply store 1 (DropOp p False) nested_files) (1, ''/workspace/key'') = None"
proof -
  let ?api = "memory_api demo_fs_env demo_matcher demo_sizes" and ?p = "''/workspace/workspace/key''"
  have "policy_check_read nested_policy ?p = Inl (ReadDenied ''/workspace/workspace/key'')"
    "policy_check_write nested_policy ?p = Inl (WriteDenied ''/workspace/workspace/key'')"
    "map_sum id (map_option sf_content) (policy_read ?api nested_policy 1 ?p nested_files) = Inr (Some (Some ''s''))"
    "store_check_write ?api nested_policy ?p = Inr ()"
    "hm_get (snd (delete_file 1 ?p False nested_files)) (1, ''/workspace/key'') = None"
    by code_simp+
  then show ?thesis by (simp add: bind_result_def)
qed

text \<open>
  A write onto the path of a directory makes it a file and leaves the entries below it, which the walk of
  a recursive delete then does not see: the entry above is deleted with them, denied ones included.
\<close>

lemma write_over_directory_unguards:
  "let store = policy_store demo_matcher demo_sizes (memory_api demo_fs_env demo_matcher demo_sizes) demo_workspace_policy;
       files = store_apply store 1 (PutOp ''/a/d'' ''x'' ''text'') (demo_tree ''s'') in
     \<not> key_writable demo_workspace_policy ''/a/d/.env''
     \<and> hm_get files (1, ''/a/d/.env'') \<noteq> None
     \<and> hm_get (store_apply store 1 (DropOp ''/a'' True) files) (1, ''/a/d/.env'') = None"
proof -
  let ?api = "memory_api demo_fs_env demo_matcher demo_sizes"
  define files where "files = snd (write_file demo_fs_env 1 ''/a/d'' ''x'' ''text'' (demo_tree ''s''))"
  have now: "en_now demo_fs_env = 7" by (simp add: demo_fs_env_def)
  have put: "store_check_write ?api demo_workspace_policy ''/a/d'' = Inr ()" by code_simp
  have facts: "\<not> key_writable demo_workspace_policy ''/a/d/.env''" "hm_get files (1, ''/a/d/.env'') \<noteq> None"
    "hm_get (snd (delete_file 1 ''/a'' True files)) (1, ''/a/d/.env'') = None"
    "store_check_write ?api demo_workspace_policy ''/a'' = Inr ()" "store_check_write ?api demo_workspace_policy ''/a/b'' = Inr ()"
    "permits_recursive_delete demo_workspace_policy"
    "map_option (\<lambda>t. (fst_is_directory t, fst_path t)) (stat_file 7 1 ''/a'' files) = Some (True, ''/a'')"
    "map (\<lambda>e. (fi_path e, fi_is_directory e)) (list_directory 7 1 ''/a'' files) = [(''/a/b'', False), (''/a/d'', False)]"
    unfolding files_def by code_simp+
  then have "check_recursive_delete ?api demo_workspace_policy 1 ''/a'' files = Inr ()"
    using put by (auto simp: check_recursive_delete_def now bind_result_def MAX_POLICY_WALK_ENTRIES_def map_eq_Cons_conv)
  with facts put show ?thesis by (simp add: Let_def files_def [symmetric] bind_result_def del: One_nat_def)
qed

end
