(* ===== verification/Url_Safety.thy ===== *)
theory Url_Safety
  imports Network_Access "HOL-Library.Word"
begin

unbundle bit_operations_syntax

text \<open>
  Which URLs the server may request (\<open>crates/provider/src/url_validation.rs\<close>), against requests that an
  outsider steers to internal networks. The URL parser of the \<open>url\<close> crate and the name resolver are
  parameters; addresses are octets and segments at their width, and are read as \<open>IpAddr::from_str\<close> of
  the standard library reads them.
\<close>

section \<open>Addresses\<close>

type_synonym ipv4 = "8 word \<times> 8 word \<times> 8 word \<times> 8 word"

text \<open>The eight segments.\<close>

type_synonym ipv6 = "16 word \<times> 16 word \<times> 16 word \<times> 16 word \<times> 16 word \<times> 16 word \<times> 16 word \<times> 16 word"

datatype ip_addr = IpV4 ipv4 | IpV6 ipv6

record socket_addr =
  sa_ip :: ip_addr
  sa_port :: nat

subsection \<open>Reading an address\<close>

definition to_digit :: "int \<Rightarrow> char \<Rightarrow> int option" where
  "to_digit radix c =
     (let n = of_char c :: int;
          d = (if 48 \<le> n \<and> n \<le> 57 then n - 48
               else if 97 \<le> n \<and> n \<le> 122 then n - 87
               else if 65 \<le> n \<and> n \<le> 90 then n - 55 else radix)
      in if d < radix then Some d else None)"

fun read_digits :: "int \<Rightarrow> string \<Rightarrow> int list \<times> string" where
  "read_digits radix [] = ([], [])"
| "read_digits radix (c # s) =
     (case to_digit radix c of
        None \<Rightarrow> ([], c # s)
      | Some d \<Rightarrow> (case read_digits radix s of (ds, r) \<Rightarrow> (d # ds, r)))"

definition read_number :: "int \<Rightarrow> nat \<Rightarrow> bool \<Rightarrow> string \<Rightarrow> (int \<times> string) option" where
  "read_number radix max_digits allow_zero_prefix s =
     (case read_digits radix s of (ds, r) \<Rightarrow>
        if ds = [] \<or> max_digits < length ds then None
        else if \<not> allow_zero_prefix \<and> hd ds = 0 \<and> 1 < length ds then None
        else Some (foldl (\<lambda>n d. n * radix + d) 0 ds, r))"

definition read_separator :: "char \<Rightarrow> nat \<Rightarrow> (string \<Rightarrow> ('a \<times> string) option) \<Rightarrow> string \<Rightarrow> ('a \<times> string) option" where
  "read_separator sep index inner s =
     (if 0 < index then (case s of [] \<Rightarrow> None | c # r \<Rightarrow> if c = sep then inner r else None) else inner s)"

definition read_octet :: "string \<Rightarrow> (8 word \<times> string) option" where
  "read_octet s =
     (case read_number 10 3 False s of
        None \<Rightarrow> None | Some (n, r) \<Rightarrow> if n < 256 then Some (word_of_int n, r) else None)"

definition read_ipv4_addr :: "string \<Rightarrow> (ipv4 \<times> string) option" where
  "read_ipv4_addr s =
     Option.bind (read_separator CHR ''.'' 0 read_octet s) (\<lambda>(a, s).
     Option.bind (read_separator CHR ''.'' 1 read_octet s) (\<lambda>(b, s).
     Option.bind (read_separator CHR ''.'' 2 read_octet s) (\<lambda>(c, s).
     Option.bind (read_separator CHR ''.'' 3 read_octet s) (\<lambda>(d, s). Some ((a, b, c, d), s)))))"

definition read_segment :: "string \<Rightarrow> (16 word \<times> string) option" where
  "read_segment s = map_option (\<lambda>(n, r). (word_of_int n, r)) (read_number 16 4 True s)"

definition from_be_bytes :: "8 word \<Rightarrow> 8 word \<Rightarrow> 16 word" where
  "from_be_bytes a b = word_cat a b"

text \<open>The groups that are left to read, and the index of the next: the segments, and whether they end in a dotted address.\<close>

fun read_groups :: "nat \<Rightarrow> nat \<Rightarrow> string \<Rightarrow> 16 word list \<times> bool \<times> string" where
  "read_groups 0 i s = ([], False, s)"
| "read_groups (Suc left) i s =
     (case (if 0 < left then read_separator CHR '':'' i read_ipv4_addr s else None) of
        Some ((a, b, c, d), r) \<Rightarrow> ([from_be_bytes a b, from_be_bytes c d], True, r)
      | None \<Rightarrow>
          (case read_separator CHR '':'' i read_segment s of
             None \<Rightarrow> ([], False, s)
           | Some (g, r) \<Rightarrow> (case read_groups left (Suc i) r of (gs, dotted, r) \<Rightarrow> (g # gs, dotted, r))))"

definition of_segments :: "16 word list \<Rightarrow> ipv6" where
  "of_segments xs = (xs ! 0, xs ! 1, xs ! 2, xs ! 3, xs ! 4, xs ! 5, xs ! 6, xs ! 7)"

definition read_ipv6_addr :: "string \<Rightarrow> (ipv6 \<times> string) option" where
  "read_ipv6_addr s =
     (case read_groups 8 0 s of (front, dotted, r) \<Rightarrow>
        if length front = 8 then Some (of_segments front, r)
        else if dotted then None
        else (case r of
                c # c' # r \<Rightarrow>
                  if c = CHR '':'' \<and> c' = CHR '':'' then
                    (case read_groups (7 - length front) 0 r of (back, _, r) \<Rightarrow>
                       Some (of_segments (front @ replicate (8 - (length front + length back)) 0 @ back), r))
                  else None
              | _ \<Rightarrow> None))"

definition parse_ip :: "string \<Rightarrow> ip_addr option" where
  "parse_ip s =
     (case (case read_ipv4_addr s of
              Some (a, r) \<Rightarrow> Some (IpV4 a, r)
            | None \<Rightarrow> map_option (\<lambda>(a, r). (IpV6 a, r)) (read_ipv6_addr s)) of
        Some (ip, r) \<Rightarrow> if r = [] then Some ip else None
      | None \<Rightarrow> None)"

section \<open>Blocked addresses\<close>

definition is_blocked_ipv4 :: "ipv4 \<Rightarrow> bool" where
  "is_blocked_ipv4 ip =
     (case ip of (a, b, c, d) \<Rightarrow>
        if a = 127 then True
        else if ip = (0, 0, 0, 0) then True
        else if a = 10 then True
        else if a = 172 \<and> 16 \<le> b \<and> b \<le> 31 then True
        else if a = 192 \<and> b = 168 then True
        else if a = 169 \<and> b = 254 then True
        else if a = 100 \<and> 64 \<le> b \<and> b \<le> 127 then True
        else if (a = 192 \<and> b = 0 \<and> c = 2) \<or> (a = 198 \<and> b = 51 \<and> c = 100) \<or> (a = 203 \<and> b = 0 \<and> c = 113) then True
        else False)"

definition to_ipv4_mapped :: "ipv6 \<Rightarrow> ipv4 option" where
  "to_ipv4_mapped ip =
     (case ip of (s0, s1, s2, s3, s4, s5, s6, s7) \<Rightarrow>
        if s0 = 0 \<and> s1 = 0 \<and> s2 = 0 \<and> s3 = 0 \<and> s4 = 0 \<and> s5 = 0xffff
        then Some (ucast (drop_bit 8 s6), ucast s6, ucast (drop_bit 8 s7), ucast s7) else None)"

definition is_blocked_ipv6 :: "ipv6 \<Rightarrow> bool" where
  "is_blocked_ipv6 ip =
     (if ip = (0, 0, 0, 0, 0, 0, 0, 1) then True
      else if ip = (0, 0, 0, 0, 0, 0, 0, 0) then True
      else if fst ip AND 0xffc0 = 0xfe80 then True
      else if fst ip AND 0xfe00 = 0xfc00 then True
      else case to_ipv4_mapped ip of Some v4 \<Rightarrow> is_blocked_ipv4 v4 | None \<Rightarrow> False)"

fun is_blocked_ip :: "ip_addr \<Rightarrow> bool" where
  "is_blocked_ip (IpV4 v4) = is_blocked_ipv4 v4"
| "is_blocked_ip (IpV6 v6) = is_blocked_ipv6 v6"

definition strip_brackets :: "string \<Rightarrow> string" where
  "strip_brackets host =
     (case strip_prefix ''['' host of
        Some s \<Rightarrow> if suffix '']'' s then butlast s else host
      | None \<Rightarrow> host)"

text \<open>Hosts of the \<open>url\<close> crate are ASCII, where \<open>to_lowercase\<close> is the ASCII one.\<close>

definition is_blocked_host :: "string \<Rightarrow> bool" where
  "is_blocked_host host =
     (let host_lower = to_ascii_lowercase host in
      if host_lower = ''localhost'' \<or> host_lower = ''localhost.'' \<or> suffix ''.localhost'' host_lower
         \<or> suffix ''.localhost.'' host_lower then True
      else case parse_ip (strip_brackets host_lower) of
             Some ip \<Rightarrow> is_blocked_ip ip
           | None \<Rightarrow> host_lower = ''metadata.google.internal'' \<or> host_lower = ''metadata.google.internal.'')"

section \<open>Validating a URL\<close>

record web_url = url +
  url_scheme :: string
  url_port_or_known_default :: "nat option"

text \<open>The parser: its error message, or the parsed URL.\<close>

type_synonym web_parser = "string \<Rightarrow> string + web_url"

text \<open>\<open>ResolvesBlocked\<close> is \<open>BlockedHost\<close> with the message that names host and address.\<close>

datatype url_validation_error =
  InvalidUrl string | DisallowedScheme string | MissingHostname | BlockedHost string | ResolvesBlocked string ip_addr

definition validate_safe_url :: "web_parser \<Rightarrow> string \<Rightarrow> url_validation_error + web_url" where
  "validate_safe_url parse raw_url =
     (case parse raw_url of
        Inl e \<Rightarrow> Inl (InvalidUrl e)
      | Inr url \<Rightarrow>
          if url_scheme url \<noteq> ''http'' \<and> url_scheme url \<noteq> ''https'' then Inl (DisallowedScheme (url_scheme url))
          else (case url_host url of
                  None \<Rightarrow> Inl MissingHostname
                | Some host \<Rightarrow> if is_blocked_host host then Inl (BlockedHost host) else Inr url))"

text \<open>A name resolver: fails, or gives addresses for a host and a port.\<close>

type_synonym name_resolver = "string \<Rightarrow> nat \<Rightarrow> unit + socket_addr list"

definition validate_url_with_resolver ::
  "web_parser \<Rightarrow> name_resolver \<Rightarrow> string \<Rightarrow> url_validation_error + web_url \<times> socket_addr list" where
  "validate_url_with_resolver parse resolve raw_url =
     bind_result (validate_safe_url parse raw_url) (\<lambda>url.
     case url_host url of
       None \<Rightarrow> Inl MissingHostname
     | Some host \<Rightarrow>
         if parse_ip (strip_brackets host) \<noteq> None then Inr (url, [])
         else (case resolve host (get_or 443 (url_port_or_known_default url)) of
                 Inl _ \<Rightarrow> Inl (BlockedHost host)
               | Inr addrs \<Rightarrow>
                   if addrs = [] then Inl (BlockedHost host)
                   else (case find (\<lambda>a. is_blocked_ip (sa_ip a)) addrs of
                           Some a \<Rightarrow> Inl (ResolvesBlocked host (sa_ip a))
                         | None \<Rightarrow> Inr (url, addrs))))"

definition validate_url_dns_pinned ::
  "web_parser \<Rightarrow> name_resolver \<Rightarrow> string \<Rightarrow> url_validation_error + web_url \<times> socket_addr list" where
  "validate_url_dns_pinned parse default_dns_resolve raw_url = validate_url_with_resolver parse default_dns_resolve raw_url"

section \<open>Internal networks\<close>

text \<open>
  What the checks are about: the networks that requests must not reach, each a base address and the length
  of its prefix, and for the IPv4 networks also their images among the IPv4-mapped addresses.
\<close>

text \<open>An address as a number, from its groups.\<close>

definition glue :: "int \<Rightarrow> 'a::len word \<Rightarrow> int" where
  "glue n s = n * 2 ^ LENGTH('a) + uint s"

definition v4_num :: "ipv4 \<Rightarrow> int" where
  "v4_num ip = (case ip of (a, b, c, d) \<Rightarrow> glue (glue (glue (uint a) b) c) d)"

definition v6_num :: "ipv6 \<Rightarrow> int" where
  "v6_num ip = (case ip of (s0, s1, s2, s3, s4, s5, s6, s7) \<Rightarrow>
     glue (glue (glue (glue (glue (glue (glue (uint s0) s1) s2) s3) s4) s5) s6) s7)"

definition in_network :: "nat \<Rightarrow> int \<Rightarrow> int \<times> nat \<Rightarrow> bool" where
  "in_network width n net \<longleftrightarrow> (case net of (base, len) \<Rightarrow> n div 2 ^ (width - len) = base div 2 ^ (width - len))"

definition internal_v4 :: "(ipv4 \<times> nat) list" where
  "internal_v4 =
     [((127, 0, 0, 0), 8), ((0, 0, 0, 0), 32), ((10, 0, 0, 0), 8), ((172, 16, 0, 0), 12), ((192, 168, 0, 0), 16),
      ((169, 254, 0, 0), 16), ((100, 64, 0, 0), 10), ((192, 0, 2, 0), 24), ((198, 51, 100, 0), 24), ((203, 0, 113, 0), 24)]"

definition v4_mapped :: "ipv4 \<Rightarrow> ipv6" where
  "v4_mapped ip = (case ip of (a, b, c, d) \<Rightarrow> (0, 0, 0, 0, 0, 0xffff, from_be_bytes a b, from_be_bytes c d))"

definition internal_v6 :: "(ipv6 \<times> nat) list" where
  "internal_v6 =
     [((0, 0, 0, 0, 0, 0, 0, 1), 128), ((0, 0, 0, 0, 0, 0, 0, 0), 128), ((0xfe80, 0, 0, 0, 0, 0, 0, 0), 10),
      ((0xfc00, 0, 0, 0, 0, 0, 0, 0), 7)]
     @ map (\<lambda>(base, len). (v4_mapped base, 96 + len)) internal_v4"

fun internal :: "ip_addr \<Rightarrow> bool" where
  "internal (IpV4 ip) \<longleftrightarrow> list_ex (\<lambda>(base, len). in_network 32 (v4_num ip) (v4_num base, len)) internal_v4"
| "internal (IpV6 ip) \<longleftrightarrow> list_ex (\<lambda>(base, len). in_network 128 (v6_num ip) (v6_num base, len)) internal_v6"

lemma glue_div: "glue n s div 2 ^ LENGTH('a) = n" for s :: "'a::len word"
  by (simp add: glue_def mult.commute div_pos_pos_trivial)

lemma glue_octet [simp]: "glue n s div 256 = n" for s :: "8 word"
  using glue_div [of n s] by simp

lemma glue_segment [simp]: "glue n s div 65536 = n" for s :: "16 word"
  using glue_div [of n s] by simp

lemma glue_eq [simp]: "glue n s = glue n' s' \<longleftrightarrow> n = n' \<and> s = s'"
proof
  assume eq: "glue n s = glue n' s'"
  then have "n = n'" using glue_div [of n s] glue_div [of n' s'] by simp
  with eq show "n = n' \<and> s = s'" by (simp add: glue_def word_uint_eq_iff)
qed simp

lemma split_div: "x div (a * b) = x div a div b" if "0 \<le> b" for x a b :: int
  using that by (rule zdiv_zmult2_eq)

lemma v4_prefixes:
  fixes a b c d :: "8 word"
  defines "n \<equiv> v4_num (a, b, c, d)"
  shows "n div 0x100 = glue (glue (uint a) b) c" and "n div 0x10000 = glue (uint a) b"
    and "n div 0x1000000 = uint a" and "n div 0x100000 = glue (uint a) b div 16"
    and "n div 0x400000 = glue (uint a) b div 64"
proof -
  show 1: "n div 0x100 = glue (glue (uint a) b) c" by (simp add: n_def v4_num_def)
  show 2: "n div 0x10000 = glue (uint a) b" using split_div [of 256 n 256] 1 by simp
  show "n div 0x1000000 = uint a" using split_div [of 256 n "0x10000"] 2 by simp
  show "n div 0x100000 = glue (uint a) b div 16" using split_div [of 16 n "0x10000"] 2 by simp
  show "n div 0x400000 = glue (uint a) b div 64" using split_div [of 64 n "0x10000"] 2 by simp
qed

lemma octet_bounds: "0 \<le> uint (a :: 8 word)" "uint a \<le> 255"
  using uint_lt2p [of a] by simp_all

lemma octet_range:
  "glue n b div 16 = 16 * m + 1 \<longleftrightarrow> n = m \<and> 16 \<le> b \<and> b \<le> 31"
  "glue n b div 64 = 4 * m + 1 \<longleftrightarrow> n = m \<and> 64 \<le> b \<and> b \<le> 127" for b :: "8 word"
proof -
  have 16: "glue n b div 16 = 16 * n + uint b div 16" and 64: "glue n b div 64 = 4 * n + uint b div 64"
    using div_mult_self4 [of 16 "16 * n" "uint b"] div_mult_self4 [of 64 "4 * n" "uint b"] by (simp_all add: glue_def mult.commute)
  have "0 \<le> uint b div 16" "uint b div 16 \<le> 15" "0 \<le> uint b div 64" "uint b div 64 \<le> 3"
    using octet_bounds [of b] by (simp_all add: pos_imp_zdiv_nonneg_iff)
  moreover have "16 * n + q = 16 * m + 1 \<longleftrightarrow> n = m \<and> q = 1" if "0 \<le> q" "q \<le> 15" for q using that by presburger
  moreover have "4 * n + q = 4 * m + 1 \<longleftrightarrow> n = m \<and> q = 1" if "0 \<le> q" "q \<le> 3" for q using that by presburger
  moreover have "uint b div 16 = 1 \<longleftrightarrow> 16 \<le> b \<and> b \<le> 31" "uint b div 64 = 1 \<longleftrightarrow> 64 \<le> b \<and> b \<le> 127"
    by (simp_all add: word_le_def) presburger+
  ultimately show "glue n b div 16 = 16 * m + 1 \<longleftrightarrow> n = m \<and> 16 \<le> b \<and> b \<le> 31"
    "glue n b div 64 = 4 * m + 1 \<longleftrightarrow> n = m \<and> 64 \<le> b \<and> b \<le> 127" unfolding 16 64 by simp_all
qed

lemma v4_networks:
  fixes a b c d :: "8 word"
  defines "n \<equiv> v4_num (a, b, c, d)"
  shows "in_network 32 n (v4_num (x, 0, 0, 0), 8) \<longleftrightarrow> a = x"
    and "in_network 32 n (v4_num (0, 0, 0, 0), 32) \<longleftrightarrow> (a, b, c, d) = (0, 0, 0, 0)"
    and "in_network 32 n (v4_num (172, 16, 0, 0), 12) \<longleftrightarrow> a = 172 \<and> 16 \<le> b \<and> b \<le> 31"
    and "in_network 32 n (v4_num (100, 64, 0, 0), 10) \<longleftrightarrow> a = 100 \<and> 64 \<le> b \<and> b \<le> 127"
    and "in_network 32 n (v4_num (x, y, 0, 0), 16) \<longleftrightarrow> a = x \<and> b = y"
    and "in_network 32 n (v4_num (x, y, z, 0), 24) \<longleftrightarrow> a = x \<and> b = y \<and> c = z"
proof -
  show "in_network 32 n (v4_num (x, 0, 0, 0), 8) \<longleftrightarrow> a = x"
    by (simp add: in_network_def n_def v4_prefixes word_uint_eq_iff)
  show "in_network 32 n (v4_num (0, 0, 0, 0), 32) \<longleftrightarrow> (a, b, c, d) = (0, 0, 0, 0)"
    by (simp add: in_network_def n_def v4_num_def word_uint_eq_iff) 
  show "in_network 32 n (v4_num (172, 16, 0, 0), 12) \<longleftrightarrow> a = 172 \<and> 16 \<le> b \<and> b \<le> 31"
    using octet_range(1) [of "uint a" b 172] by (simp add: in_network_def n_def v4_prefixes word_uint_eq_iff [of a]) (simp add: glue_def)
  show "in_network 32 n (v4_num (100, 64, 0, 0), 10) \<longleftrightarrow> a = 100 \<and> 64 \<le> b \<and> b \<le> 127"
    using octet_range(2) [of "uint a" b 100] by (simp add: in_network_def n_def v4_prefixes word_uint_eq_iff [of a]) (simp add: glue_def)
  show "in_network 32 n (v4_num (x, y, 0, 0), 16) \<longleftrightarrow> a = x \<and> b = y"
    by (simp add: in_network_def n_def v4_prefixes word_uint_eq_iff)
  show "in_network 32 n (v4_num (x, y, z, 0), 24) \<longleftrightarrow> a = x \<and> b = y \<and> c = z"
    by (simp add: in_network_def n_def v4_prefixes word_uint_eq_iff)
qed

lemma v4_blocked: "is_blocked_ipv4 ip \<longleftrightarrow> internal (IpV4 ip)"
  by (cases ip) (simp add: is_blocked_ipv4_def internal_v4_def v4_networks)

lemma high_bits: "s AND NOT (mask n) = push_bit n (drop_bit n s)" for s :: "'a::len word"
  by (auto simp: bit_eq_iff bit_simps)

lemma high_value: "uint (s AND NOT (mask n)) = uint s div 2 ^ n * 2 ^ n" for s :: "'a::len word"
proof -
  have "uint s div 2 ^ n * 2 ^ n \<le> uint s" using div_mult_mod_eq [of "uint s" "2 ^ n"] pos_mod_sign [of "2 ^ n" "uint s", OF zero_less_power] by linarith
  then have "uint s div 2 ^ n * 2 ^ n < 2 ^ LENGTH('a)" using uint_lt2p [of s] by linarith
  moreover have "0 \<le> uint s div 2 ^ n * 2 ^ n" by (simp add: pos_imp_zdiv_nonneg_iff)
  moreover have "uint (push_bit n (drop_bit n s)) = take_bit LENGTH('a) (push_bit n (drop_bit n (uint s)))"
    using take_bit_int_eq_self [of "uint s" "LENGTH('a)"] by (simp add: unsigned_push_bit_eq unsigned_drop_bit_eq)
  ultimately show ?thesis
    unfolding high_bits by (simp add: take_bit_eq_mod push_bit_eq_mult [of n "_ :: int"] drop_bit_eq_div [of n "_ :: int"] mod_pos_pos_trivial)
qed

lemma segment_masks:
  "s AND 0xffc0 = 0xfe80 \<longleftrightarrow> uint (s :: 16 word) div 64 = 0x3fa"
  "s AND 0xfe00 = 0xfc00 \<longleftrightarrow> uint (s :: 16 word) div 512 = 0x7e"
proof -
  have m: "(0xffc0 :: 16 word) = NOT (mask 6)" "(0xfe00 :: 16 word) = NOT (mask 9)"
    by (simp_all add: mask_eq_exp_minus_1 not_eq_complement)
  show "s AND 0xffc0 = 0xfe80 \<longleftrightarrow> uint (s :: 16 word) div 64 = 0x3fa"
    using high_value [of s 6] unfolding m word_uint_eq_iff by simp
  show "s AND 0xfe00 = 0xfc00 \<longleftrightarrow> uint (s :: 16 word) div 512 = 0x7e"
    using high_value [of s 9] unfolding m word_uint_eq_iff by simp
qed


lemma v6_high:
  fixes s0 s1 s2 s3 s4 s5 s6 s7 :: "16 word"
  defines "n \<equiv> v6_num (s0, s1, s2, s3, s4, s5, s6, s7)"
  shows "n div 2 ^ 118 = uint s0 div 64" and "n div 2 ^ 121 = uint s0 div 512"
proof -
  have "n div 2 ^ 16 = glue (glue (glue (glue (glue (glue (uint s0) s1) s2) s3) s4) s5) s6" by (simp add: n_def v6_num_def)
  then have "n div 2 ^ 32 = glue (glue (glue (glue (glue (uint s0) s1) s2) s3) s4) s5" using split_div [of "2 ^ 16" n "2 ^ 16"] by simp
  then have "n div 2 ^ 48 = glue (glue (glue (glue (uint s0) s1) s2) s3) s4" using split_div [of "2 ^ 16" n "2 ^ 32"] by simp
  then have "n div 2 ^ 64 = glue (glue (glue (uint s0) s1) s2) s3" using split_div [of "2 ^ 16" n "2 ^ 48"] by simp
  then have "n div 2 ^ 80 = glue (glue (uint s0) s1) s2" using split_div [of "2 ^ 16" n "2 ^ 64"] by simp
  then have "n div 2 ^ 96 = glue (uint s0) s1" using split_div [of "2 ^ 16" n "2 ^ 80"] by simp
  then have "n div 2 ^ 112 = uint s0" using split_div [of "2 ^ 16" n "2 ^ 96"] by simp
  then show "n div 2 ^ 118 = uint s0 div 64" "n div 2 ^ 121 = uint s0 div 512"
    using split_div [of 64 n "2 ^ 112"] split_div [of 512 n "2 ^ 112"] by simp_all
qed

text \<open>A number below \<open>2 ^ 32\<close> beside a high part.\<close>

lemma net_split:
  fixes hi lo hi' lo' :: int
  assumes "len \<le> 32" and "0 \<le> lo" "lo < 2 ^ 32" and "0 \<le> lo'" "lo' < 2 ^ 32"
  shows "(hi * 2 ^ 32 + lo) div 2 ^ (32 - len) = (hi' * 2 ^ 32 + lo') div 2 ^ (32 - len)
    \<longleftrightarrow> hi = hi' \<and> lo div 2 ^ (32 - len) = lo' div 2 ^ (32 - len)"
proof -
  let ?k = "32 - len"
  have pow: "(2 :: int) ^ 32 = 2 ^ len * 2 ^ ?k" using assms(1) by (simp flip: power_add)
  have low: "(h * 2 ^ 32 + l) div 2 ^ ?k = h * 2 ^ len + l div 2 ^ ?k" for h l :: int
    unfolding pow using div_mult_self3 [of "2 ^ ?k" "h * 2 ^ len" l] by (simp add: mult.assoc)
  have high: "(h * 2 ^ 32 + l) div 2 ^ ?k div 2 ^ len = h" if "0 \<le> l" "l < 2 ^ 32" for h l :: int
    using split_div [of "2 ^ len" "h * 2 ^ 32 + l" "2 ^ ?k"] that unfolding pow [symmetric, unfolded mult.commute [of _ "2 ^ ?k"]]
    by (simp add: div_pos_pos_trivial)
  show ?thesis
  proof
    assume eq: "(hi * 2 ^ 32 + lo) div 2 ^ ?k = (hi' * 2 ^ 32 + lo') div 2 ^ ?k"
    then have "hi = hi'" using high [OF assms(2,3), of hi] high [OF assms(4,5), of hi'] by metis
    with eq show "hi = hi' \<and> lo div 2 ^ ?k = lo' div 2 ^ ?k" unfolding low by simp
  next
    assume "hi = hi' \<and> lo div 2 ^ ?k = lo' div 2 ^ ?k"
    then show "(hi * 2 ^ 32 + lo) div 2 ^ ?k = (hi' * 2 ^ 32 + lo') div 2 ^ ?k" unfolding low by simp
  qed
qed

lemma octets_of_segment:
  "glue (uint (ucast (drop_bit 8 s) :: 8 word)) (ucast s :: 8 word) = uint s" for s :: "16 word"
proof -
  have "uint (ucast (drop_bit 8 s) :: 8 word) = uint s div 256"
    using uint_lt2p [of s]
    by (simp add: unsigned_ucast_eq drop_bit_eq_div uint_div take_bit_eq_mod pos_imp_zdiv_nonneg_iff mod_pos_pos_trivial)
  moreover have "uint (ucast s :: 8 word) = uint s mod 256" by (simp add: unsigned_ucast_eq take_bit_eq_mod)
  ultimately show ?thesis by (simp add: glue_def)
qed

lemma segment_of_octets: "uint (from_be_bytes a b) = glue (uint a) b"
proof -
  have "0 \<le> glue (uint a) b" "glue (uint a) b < 65536" using octet_bounds [of a] octet_bounds [of b] by (simp_all add: glue_def)
  moreover have "concat_bit 8 (uint b) (uint a) = glue (uint a) b"
    using octet_bounds [of b] by (simp add: concat_bit_eq glue_def take_bit_eq_mod push_bit_eq_mult mod_pos_pos_trivial)
  ultimately show ?thesis by (simp add: from_be_bytes_def word_cat_eq' uint_word_of_int mod_pos_pos_trivial)
qed

lemma v6_num_split:
  "v6_num (s0, s1, s2, s3, s4, s5, s6, s7) = glue (glue (glue (glue (glue (uint s0) s1) s2) s3) s4) s5 * 2 ^ 32 + glue (uint s6) s7"
  by (simp add: v6_num_def glue_def [of _ s7] glue_def [of _ s6])

lemma glue_bounds: "0 \<le> glue (uint s) t" "glue (uint s) t < 2 ^ 32" for s t :: "16 word"
  using uint_lt2p [of s] uint_lt2p [of t] by (simp_all add: glue_def)

lemma v4_num_halves: "v4_num (a, b, c, d) = glue (uint a) b * 2 ^ 16 + glue (uint c) d"
  by (simp add: v4_num_def glue_def [of _ d] glue_def [of _ c])

lemma mapped_network:
  assumes "len \<le> 32"
  shows "in_network 128 (v6_num ip) (v6_num (v4_mapped base), 96 + len)
    \<longleftrightarrow> (case to_ipv4_mapped ip of Some v4 \<Rightarrow> in_network 32 (v4_num v4) (v4_num base, len) | None \<Rightarrow> False)"
proof -
  obtain s0 s1 s2 s3 s4 s5 s6 s7 where ip: "ip = (s0, s1, s2, s3, s4, s5, s6, s7)" by (metis prod.collapse)
  obtain a b c d where base: "base = (a, b, c, d)" by (metis prod.collapse)
  have num: "v4_num base = glue (uint (from_be_bytes a b)) (from_be_bytes c d)"
    by (simp add: base v4_num_halves glue_def [of _ "from_be_bytes c d"] segment_of_octets)
  have v4: "v4_num (ucast (drop_bit 8 s6), ucast s6, ucast (drop_bit 8 s7), ucast s7) = glue (uint s6) s7"
    by (simp add: v4_num_halves octets_of_segment glue_def [of _ s7])
  have "in_network 128 (v6_num ip) (v6_num (v4_mapped base), 96 + len)
    \<longleftrightarrow> (s0, s1, s2, s3, s4, s5) = (0, 0, 0, 0, 0, 0xffff) \<and> in_network 32 (glue (uint s6) s7) (v4_num base, len)"
    using net_split [OF assms glue_bounds glue_bounds, of _ s6 s7 _ "from_be_bytes a b" "from_be_bytes c d"]
    unfolding in_network_def prod.case ip v4_mapped_def base v6_num_split num [unfolded base]
    by (simp add: word_uint_eq_iff [of s0])
  then show ?thesis by (auto simp: ip to_ipv4_mapped_def v4)
qed

lemma v6_num_inject: "v6_num x = v6_num y \<longleftrightarrow> x = y"
  by (auto simp: v6_num_def word_uint_eq_iff split: prod.splits)

lemma v6_blocked: "is_blocked_ipv6 ip \<longleftrightarrow> internal (IpV6 ip)"
proof -
  obtain s0 s1 s2 s3 s4 s5 s6 s7 where ip: "ip = (s0, s1, s2, s3, s4, s5, s6, s7)" by (metis prod.collapse)
  have mapped: "list_ex (\<lambda>(base, len). in_network 128 (v6_num ip) (v6_num base, len)) (map (\<lambda>(base, len). (v4_mapped base, 96 + len)) internal_v4)
      \<longleftrightarrow> (case to_ipv4_mapped ip of Some v4 \<Rightarrow> internal (IpV4 v4) | None \<Rightarrow> False)"
  proof -
    have "in_network 128 (v6_num ip) (v6_num (v4_mapped (fst x)), 96 + snd x)
        \<longleftrightarrow> (case to_ipv4_mapped ip of Some v4 \<Rightarrow> in_network 32 (v4_num v4) (v4_num (fst x), snd x) | None \<Rightarrow> False)"
      if "x \<in> set internal_v4" for x
      using that by (intro mapped_network) (auto simp: internal_v4_def)
    then show ?thesis by (cases "to_ipv4_mapped ip") (auto simp: list_ex_iff split_beta simp del: split_paired_Ex)
  qed
  have low: "in_network 128 (v6_num ip) (v6_num (0xfe80, 0, 0, 0, 0, 0, 0, 0), 10) \<longleftrightarrow> s0 AND 0xffc0 = 0xfe80"
    "in_network 128 (v6_num ip) (v6_num (0xfc00, 0, 0, 0, 0, 0, 0, 0), 7) \<longleftrightarrow> s0 AND 0xfe00 = 0xfc00"
    unfolding in_network_def prod.case segment_masks using v6_high [of s0 s1 s2 s3 s4 s5 s6 s7]
      v6_high(1) [of "0xfe80" 0 0 0 0 0 0 0] v6_high(2) [of "0xfc00" 0 0 0 0 0 0 0] by (simp_all add: ip)
  have same: "in_network 128 (v6_num ip) (v6_num t, 128) \<longleftrightarrow> ip = t" for t
    by (simp add: in_network_def v6_num_inject)
  have four: "list_ex P [v, x, y, z] \<longleftrightarrow> P v \<or> P x \<or> P y \<or> P z" for P :: "ipv6 \<times> nat \<Rightarrow> bool" and v x y z by simp
  have "fst ip = s0" by (simp add: ip)
  then show ?thesis
    unfolding internal.simps(2) internal_v6_def list_ex_append mapped four prod.case same low is_blocked_ipv6_def v4_blocked
    by (simp only: if_True if_False split: if_split) blast
qed

lemma blocked_iff_internal: "is_blocked_ip ip \<longleftrightarrow> internal ip"
  by (cases ip) (simp_all only: is_blocked_ip.simps v4_blocked v6_blocked)

section \<open>Reading ignores the case of letters\<close>

lemma to_digit_lower: "radix \<le> 36 \<Longrightarrow> to_digit radix (lower_char c) = to_digit radix c"
proof -
  have "(of_char (lower_char c) :: int) = (if 65 \<le> (of_char c :: int) \<and> (of_char c :: int) \<le> 90 then of_char c + 32 else of_char c)"
  proof -
    have int: "(of_char d :: int) = int (of_char d)" for d by (simp add: of_nat_of_char)
    show ?thesis unfolding int lower_char_code by simp
  qed
  then show ?thesis by (auto simp: to_digit_def Let_def)
qed

lemma read_digits_lower:
  assumes "radix \<le> 36"
  shows "read_digits radix (to_ascii_lowercase s) = map_prod id to_ascii_lowercase (read_digits radix s)"
  by (induction s) (auto simp: to_digit_lower [OF assms] to_ascii_lowercase_def split: option.split prod.split)

abbreviation lower_rest :: "('a \<times> string) option \<Rightarrow> ('a \<times> string) option" where
  "lower_rest \<equiv> map_option (map_prod id to_ascii_lowercase)"

lemma lower_Cons: "to_ascii_lowercase (c # s) = lower_char c # to_ascii_lowercase s"
  by (simp add: to_ascii_lowercase_def)

lemma read_number_lower:
  "radix \<le> 36 \<Longrightarrow> read_number radix m z (to_ascii_lowercase s) = lower_rest (read_number radix m z s)"
  by (auto simp: read_number_def read_digits_lower split: prod.split)

lemma read_octet_lower: "read_octet (to_ascii_lowercase s) = lower_rest (read_octet s)"
  by (auto simp: read_octet_def read_number_lower split: option.split)

lemma read_segment_lower: "read_segment (to_ascii_lowercase s) = lower_rest (read_segment s)"
  by (auto simp: read_segment_def read_number_lower option.map_comp comp_def split_beta map_prod_def)

lemma lower_char_sep:
  "lower_char c = CHR ''.'' \<longleftrightarrow> c = CHR ''.''" "lower_char c = CHR '':'' \<longleftrightarrow> c = CHR '':''"
  "lower_char c = CHR ''['' \<longleftrightarrow> c = CHR ''[''" "lower_char c = CHR '']'' \<longleftrightarrow> c = CHR '']''"
proof -
  have "lower_char c = d \<longleftrightarrow> c = d" if "(of_char d :: nat) < 65 \<or> 90 < (of_char d :: nat) \<and> (of_char d :: nat) < 97" for d
    using lower_char_code [of c] that by (auto simp: lower_char_def Let_def split: if_splits)
  then show "lower_char c = CHR ''.'' \<longleftrightarrow> c = CHR ''.''" "lower_char c = CHR '':'' \<longleftrightarrow> c = CHR '':''"
    "lower_char c = CHR ''['' \<longleftrightarrow> c = CHR ''[''" "lower_char c = CHR '']'' \<longleftrightarrow> c = CHR '']''" by simp_all
qed

lemma read_separator_lower:
  assumes "\<forall>s. inner (to_ascii_lowercase s) = lower_rest (inner s)" and "sep = CHR ''.'' \<or> sep = CHR '':''"
  shows "read_separator sep i inner (to_ascii_lowercase s) = lower_rest (read_separator sep i inner s)"
proof (cases "i = 0")
  case False
  with assms show ?thesis by (cases s) (auto simp: read_separator_def lower_char_sep lower_Cons)
qed (simp add: read_separator_def assms(1))

lemma read_ipv4_lower: "read_ipv4_addr (to_ascii_lowercase s) = lower_rest (read_ipv4_addr s)"
proof -
  have octet: "read_separator CHR ''.'' i read_octet (to_ascii_lowercase s) = lower_rest (read_separator CHR ''.'' i read_octet s)" for i s
    by (rule read_separator_lower) (simp_all add: read_octet_lower)
  have bind: "Option.bind (lower_rest x) f = Option.bind x (\<lambda>(a, s). f (a, to_ascii_lowercase s))"
    "lower_rest (Option.bind y g) = Option.bind y (\<lambda>a. lower_rest (g a))" for x y f g
    by (cases x; cases y; simp add: split_beta map_prod_def)+
  show ?thesis unfolding read_ipv4_addr_def octet bind by (simp add: bind octet case_prod_unfold)
qed

lemma read_groups_lower:
  "read_groups left i (to_ascii_lowercase s) = map_prod id (map_prod id to_ascii_lowercase) (read_groups left i s)"
proof (induction left i s rule: read_groups.induct)
  case (2 left i s)
  have "read_separator CHR '':'' i read_ipv4_addr (to_ascii_lowercase s) = lower_rest (read_separator CHR '':'' i read_ipv4_addr s)"
    "read_separator CHR '':'' i read_segment (to_ascii_lowercase s) = lower_rest (read_separator CHR '':'' i read_segment s)"
    by (rule read_separator_lower; simp add: read_ipv4_lower read_segment_lower)+
  with 2 show ?case by (auto split: option.split prod.split)
qed simp

lemma parse_ip_lower: "parse_ip (to_ascii_lowercase s) = parse_ip s"
proof -
  have empty: "to_ascii_lowercase r = [] \<longleftrightarrow> r = []" for r by (simp add: to_ascii_lowercase_def)
  have "read_ipv6_addr (to_ascii_lowercase s) = lower_rest (read_ipv6_addr s)"
    by (auto simp: read_ipv6_addr_def read_groups_lower lower_Cons lower_char_sep split: prod.split list.split)
  then show ?thesis
    by (auto simp: parse_ip_def read_ipv4_lower empty split: option.split)
qed

lemma strip_brackets_lower: "strip_brackets (to_ascii_lowercase s) = to_ascii_lowercase (strip_brackets s)"
proof (cases s)
  case (Cons c r)
  have "suffix '']'' (to_ascii_lowercase r) \<longleftrightarrow> suffix '']'' r"
    by (cases r rule: rev_cases) (simp_all add: lower_Cons lower_char_sep eq_commute [of _ "lower_char _"] eq_commute [of "CHR '']''"] to_ascii_lowercase_def)
  then show ?thesis
    by (cases "c = CHR ''[''") (auto simp: Cons strip_brackets_def lower_Cons lower_char_sep strip_prefix_def to_ascii_lowercase_def map_butlast eq_commute [of "CHR ''[''"])
qed (simp add: strip_brackets_def)

section \<open>Properties\<close>

lemma with_resolver_Inr:
  "validate_url_with_resolver parse resolve raw = Inr (url, addrs) \<Longrightarrow>
     validate_safe_url parse raw = Inr url
     \<and> (\<exists>host. url_host url = Some host
        \<and> (case parse_ip (strip_brackets host) of
             Some _ \<Rightarrow> addrs = []
           | None \<Rightarrow> addrs \<noteq> [] \<and> resolve host (get_or 443 (url_port_or_known_default url)) = Inr addrs
               \<and> (\<forall>a \<in> set addrs. \<not> is_blocked_ip (sa_ip a))))"
proof -
  assume ok: "validate_url_with_resolver parse resolve raw = Inr (url, addrs)"
  then obtain u host where u: "validate_safe_url parse raw = Inr u" "url_host u = Some host"
    by (auto simp: validate_url_with_resolver_def bind_result_Inr split: option.splits)
  show ?thesis
  proof (cases "parse_ip (strip_brackets host)")
    case (Some ip)
    with ok u show ?thesis by (simp add: validate_url_with_resolver_def bind_result_def)
  next
    case None
    with ok u obtain as where as: "resolve host (get_or 443 (url_port_or_known_default u)) = Inr as" "as \<noteq> []"
      by (cases "resolve host (get_or 443 (url_port_or_known_default u))")
        (auto simp: validate_url_with_resolver_def bind_result_def split: if_splits)
    with ok u None have "find (\<lambda>a. is_blocked_ip (sa_ip a)) as = None" "u = url" "as = addrs"
      by (auto simp: validate_url_with_resolver_def bind_result_def split: option.splits)
    with u as None show ?thesis by (simp add: find_None_iff)
  qed
qed

text \<open>
  A request that passed the check stays out of internal networks. When a URL passes the check that is made
  before a connection, it is an HTTP URL with a host, not a local name, and the addresses to connect to
  are outside every internal network, the IPv4 ones in their mapped form included: the address itself
  when the host is one, in any spelling, and otherwise every one of the addresses returned to be
  pinned, which are all that the resolver gave. The ranges the code tests octet by octet are exactly
  these networks.
\<close>

theorem pinned_url_external:
  assumes "validate_url_dns_pinned parse resolve raw = Inr (url, addrs)"
  shows "parse raw = Inr url \<and> url_scheme url \<in> {''http'', ''https''}
    \<and> (\<exists>host. url_host url = Some host \<and> to_ascii_lowercase host \<noteq> ''localhost'' \<and> \<not> suffix ''.localhost'' (to_ascii_lowercase host)
       \<and> (case parse_ip (strip_brackets host) of
            Some ip \<Rightarrow> addrs = [] \<and> \<not> internal ip
          | None \<Rightarrow> addrs \<noteq> [] \<and> resolve host (get_or 443 (url_port_or_known_default url)) = Inr addrs
              \<and> (\<forall>a \<in> set addrs. \<not> internal (sa_ip a))))"
proof -
  from with_resolver_Inr [OF assms [unfolded validate_url_dns_pinned_def]]
  obtain host where safe: "validate_safe_url parse raw = Inr url" and host: "url_host url = Some host"
    and addrs: "case parse_ip (strip_brackets host) of
         Some _ \<Rightarrow> addrs = []
       | None \<Rightarrow> addrs \<noteq> [] \<and> resolve host (get_or 443 (url_port_or_known_default url)) = Inr addrs
           \<and> (\<forall>a \<in> set addrs. \<not> is_blocked_ip (sa_ip a))" by blast
  from safe host have parse: "parse raw = Inr url" "url_scheme url \<in> {''http'', ''https''}" and free: "\<not> is_blocked_host host"
    by (auto simp: validate_safe_url_def split: sum.splits option.splits if_splits)
  have names: "to_ascii_lowercase host \<noteq> ''localhost''" "\<not> suffix ''.localhost'' (to_ascii_lowercase host)"
    and ip: "parse_ip (strip_brackets host) = Some ip \<Longrightarrow> \<not> internal ip" for ip
    using free by (auto simp: is_blocked_host_def Let_def strip_brackets_lower parse_ip_lower blocked_iff_internal split: if_splits)
  show ?thesis
    using parse host names ip addrs by (cases "parse_ip (strip_brackets host)") (auto simp: blocked_iff_internal)
qed

text \<open>A parser and a resolver that know one name.\<close>

definition demo_web_parse :: web_parser where
  "demo_web_parse s =
     (if s = ''https://api.example.com/x''
      then Inr \<lparr>url_str = s, url_host = Some ''api.example.com'', url_scheme = ''https'', url_port_or_known_default = Some 443\<rparr>
      else Inl ''relative URL without a base'')"

definition demo_resolve :: name_resolver where
  "demo_resolve host port = Inr [\<lparr>sa_ip = IpV4 (93, 184, 216, 34), sa_port = port\<rparr>]"

theorem pinned_url_external_witness:
  "validate_url_dns_pinned demo_web_parse demo_resolve ''https://api.example.com/x''
     = Inr (\<lparr>url_str = ''https://api.example.com/x'', url_host = Some ''api.example.com'', url_scheme = ''https'',
             url_port_or_known_default = Some 443\<rparr>, [\<lparr>sa_ip = IpV4 (93, 184, 216, 34), sa_port = 443\<rparr>])
   \<and> \<not> internal (IpV4 (93, 184, 216, 34))"
proof -
  have ev: "validate_url_dns_pinned demo_web_parse demo_resolve ''https://api.example.com/x''
     = Inr (\<lparr>url_str = ''https://api.example.com/x'', url_host = Some ''api.example.com'', url_scheme = ''https'',
             url_port_or_known_default = Some 443\<rparr>, [\<lparr>sa_ip = IpV4 (93, 184, 216, 34), sa_port = 443\<rparr>])"
    and "parse_ip (strip_brackets ''api.example.com'') = None" by code_simp+
  with pinned_url_external [OF ev] show ?thesis by simp
qed

end
