(* ===== verification/Egress.thy ===== *)
theory Egress
  imports Url_Safety
begin

text \<open>
  The boundary that outbound requests pass (\<open>crates/core/src/egress.rs\<close>, \<open>system_allowlist.rs\<close> and
  \<open>crates/host/src/egress.rs\<close>): requests and their builder, the allowlist of the host, and the direct
  service that validates, resolves, pins and sends. The HTTP library is the parameter \<open>lib\<close>: how it
  reads a method, builds a pinned client, and what a request it sends does to the world.
\<close>

section \<open>Requests\<close>

text \<open>\<open>PinningDenied\<close> is \<open>NetworkAccessDenied\<close> with the message that names URL and reason.\<close>

datatype egress_error =
    InvalidRequest string
  | NetworkAccessDenied string
  | PinningDenied string url_validation_error
  | SigningUnavailable
  | Transport string

datatype egress_request_kind = Provider | Capability | Integration | SystemEmail | UtilityLlm | Mcp | OtherKind string

datatype egress_signing = SigningDisabled | PlatformDefault | SigningRequired

record egress_request =
  er_method :: string
  er_url :: string
  er_headers :: "(string, string) hmap"
  er_body :: "8 word list"
  er_kind :: egress_request_kind
  er_signing :: egress_signing
  er_network_access :: "network_access_list option"
  er_timeout_ms :: "nat option"
  er_dns_pinning_required :: bool
  er_pinned_addrs :: "(string \<times> socket_addr list) option"

definition egress_request_new :: "string \<Rightarrow> string \<Rightarrow> egress_request_kind \<Rightarrow> egress_request" where
  "egress_request_new method url kind =
     \<lparr>er_method = method, er_url = url, er_headers = [], er_body = [], er_kind = kind, er_signing = SigningDisabled,
      er_network_access = None, er_timeout_ms = None, er_dns_pinning_required = False, er_pinned_addrs = None\<rparr>"

definition require_dns_pinning :: "egress_request \<Rightarrow> egress_request" where
  "require_dns_pinning r = r\<lparr>er_dns_pinning_required := True\<rparr>"

definition with_pinned_addrs :: "string \<Rightarrow> socket_addr list \<Rightarrow> egress_request \<Rightarrow> egress_request" where
  "with_pinned_addrs host addrs r = (if addrs \<noteq> [] then r\<lparr>er_pinned_addrs := Some (host, addrs)\<rparr> else r)"

definition with_header :: "string \<Rightarrow> string \<Rightarrow> egress_request \<Rightarrow> egress_request" where
  "with_header name val r = r\<lparr>er_headers := hm_insert name val (er_headers r)\<rparr>"

definition with_body :: "8 word list \<Rightarrow> egress_request \<Rightarrow> egress_request" where
  "with_body body r = r\<lparr>er_body := body\<rparr>"

definition with_signing :: "egress_signing \<Rightarrow> egress_request \<Rightarrow> egress_request" where
  "with_signing signing r = r\<lparr>er_signing := signing\<rparr>"

definition with_network_access :: "network_access_list option \<Rightarrow> egress_request \<Rightarrow> egress_request" where
  "with_network_access access r = r\<lparr>er_network_access := access\<rparr>"

definition with_timeout_ms :: "nat \<Rightarrow> egress_request \<Rightarrow> egress_request" where
  "with_timeout_ms ms r = r\<lparr>er_timeout_ms := Some ms\<rparr>"

record egress_response =
  ep_status :: nat
  ep_headers :: "(string, string) hmap"
  ep_body :: "8 word list"

record egress_stream_response =
  es_status :: nat
  es_headers :: "(string, string) hmap"
  es_body :: "(egress_error + 8 word list) list"

definition disabled_send :: "egress_request \<Rightarrow> ('w, egress_error, 'a) op" where
  "disabled_send request w = (Inl (Transport ''outbound egress service is disabled''), w)"

section \<open>The allowlist of the host\<close>

record allow_group =
  ag_name :: string
  ag_description :: "string option"
  ag_allowed :: "string list"

record system_allowlist =
  al_groups :: "allow_group list"
  al_acl :: network_access_list

text \<open>The groups in the order of their names, as the TOML parser gives them.\<close>

definition allowlist_from_groups :: "allow_group list \<Rightarrow> system_allowlist" where
  "allowlist_from_groups groups =
     (let patterns = concat (map ag_allowed groups) in
      \<lparr>al_groups = groups, al_acl = (if patterns = [] then allow_only [''<none>''] else allow_only patterns)\<rparr>)"

definition allowlist_from_env :: "allow_group list \<Rightarrow> string option \<Rightarrow> system_allowlist option" where
  "allowlist_from_env embedded var =
     (if (case var of Some v \<Rightarrow> v = ''true'' \<or> v = ''1'' | None \<Rightarrow> False) then Some (allowlist_from_groups embedded) else None)"

definition allowlist_is_url_allowed :: "url_parser \<Rightarrow> system_allowlist \<Rightarrow> string \<Rightarrow> bool" where
  "allowlist_is_url_allowed parse allowlist url = is_url_allowed parse (al_acl allowlist) url"

section \<open>The direct service\<close>

definition DEFAULT_CONNECT_TIMEOUT :: nat where "DEFAULT_CONNECT_TIMEOUT = 10"
definition DEFAULT_REQUEST_TIMEOUT :: nat where "DEFAULT_REQUEST_TIMEOUT = 60"

text \<open>A client of the library: seconds to connect and for a whole request, whether redirects are followed, and the addresses of hosts it does not look up.\<close>

record http_client =
  hc_connect_timeout :: "nat option"
  hc_timeout :: "nat option"
  hc_follows_redirects :: bool
  hc_resolved :: "(string \<times> socket_addr list) option"

record http_request =
  hr_client :: http_client
  hr_method :: string
  hr_url :: string
  hr_headers :: "(string, string) hmap"
  hr_timeout_ms :: "nat option"
  hr_body :: "8 word list"

text \<open>What comes back: a header whose value is no text has None, the body ends with an error or is complete.\<close>

record http_response =
  hp_status :: nat
  hp_headers :: "(string \<times> string option) list"
  hp_chunks :: "(string + 8 word list) list"

record 'w http_lib =
  hl_method :: "string \<Rightarrow> string + string"
  hl_build_error :: "http_client \<Rightarrow> string option"
  hl_send :: "http_request \<Rightarrow> ('w, string, http_response) op"

record direct_egress =
  de_client :: http_client
  de_system_allowlist :: "system_allowlist option"

definition direct_egress_new :: direct_egress where
  "direct_egress_new =
     \<lparr>de_client = \<lparr>hc_connect_timeout = Some DEFAULT_CONNECT_TIMEOUT, hc_timeout = Some DEFAULT_REQUEST_TIMEOUT,
                   hc_follows_redirects = False, hc_resolved = None\<rparr>,
      de_system_allowlist = None\<rparr>"

definition direct_egress_with_client :: "http_client \<Rightarrow> direct_egress" where
  "direct_egress_with_client client = \<lparr>de_client = client, de_system_allowlist = None\<rparr>"

definition with_system_allowlist :: "system_allowlist option \<Rightarrow> direct_egress \<Rightarrow> direct_egress" where
  "with_system_allowlist allowlist svc = svc\<lparr>de_system_allowlist := allowlist\<rparr>"

definition direct_egress_from_env :: "allow_group list \<Rightarrow> string option \<Rightarrow> direct_egress" where
  "direct_egress_from_env embedded var = with_system_allowlist (allowlist_from_env embedded var) direct_egress_new"

text \<open>The parser as the access lists use it.\<close>

definition plain_parser :: "web_parser \<Rightarrow> url_parser" where
  "plain_parser parse s = (case parse s of Inl _ \<Rightarrow> None | Inr u \<Rightarrow> Some (url.truncate u))"

definition validate_request :: "web_parser \<Rightarrow> direct_egress \<Rightarrow> egress_request \<Rightarrow> egress_error + unit" where
  "validate_request parse svc request =
     (if trim (er_method request) = [] then Inl (InvalidRequest ''method is required'')
      else case parse (er_url request) of
        Inl e \<Rightarrow> Inl (InvalidRequest (''invalid URL: '' @ e))
      | Inr parsed \<Rightarrow>
          if url_scheme parsed \<noteq> ''http'' \<and> url_scheme parsed \<noteq> ''https''
          then Inl (InvalidRequest (''URL must use http or https, got '' @ [CHR 0x27] @ url_scheme parsed @ [CHR 0x27]))
          else if (case er_network_access request of
                     Some acl \<Rightarrow> \<not> is_url_allowed (plain_parser parse) acl (er_url request) | None \<Rightarrow> False)
          then Inl (NetworkAccessDenied (er_url request))
          else if (case de_system_allowlist svc of
                     Some al \<Rightarrow> \<not> allowlist_is_url_allowed (plain_parser parse) al (er_url request) | None \<Rightarrow> False)
          then Inl (NetworkAccessDenied (er_url request))
          else Inr ())"

definition prepare_request :: "web_parser \<Rightarrow> name_resolver \<Rightarrow> direct_egress \<Rightarrow> egress_request \<Rightarrow> egress_error + egress_request" where
  "prepare_request parse resolve svc request =
     bind_result (validate_request parse svc request) (\<lambda>_.
     if er_signing request = SigningRequired then Inl SigningUnavailable
     else if er_dns_pinning_required request
     then (case validate_url_dns_pinned parse resolve (er_url request) of
             Inl e \<Rightarrow> Inl (PinningDenied (er_url request) e)
           | Inr (validated_url, resolved_addrs) \<Rightarrow>
               Inr (with_pinned_addrs (get_or [] (url_host validated_url)) resolved_addrs request))
     else Inr request)"

definition pinned_client :: "string \<times> socket_addr list \<Rightarrow> http_client" where
  "pinned_client pin =
     \<lparr>hc_connect_timeout = Some DEFAULT_CONNECT_TIMEOUT, hc_timeout = None, hc_follows_redirects = False, hc_resolved = Some pin\<rparr>"

definition build_request :: "'w http_lib \<Rightarrow> direct_egress \<Rightarrow> egress_request \<Rightarrow> egress_error + http_request" where
  "build_request lib svc request =
     (case hl_method lib (er_method request) of
        Inl e \<Rightarrow> Inl (InvalidRequest (''invalid HTTP method: '' @ e))
      | Inr method \<Rightarrow>
          bind_result
            (case er_pinned_addrs request of
               Some pin \<Rightarrow> (case hl_build_error lib (pinned_client pin) of
                              Some e \<Rightarrow> Inl (InvalidRequest (''pinned client build failed: '' @ e))
                            | None \<Rightarrow> Inr (pinned_client pin))
             | None \<Rightarrow> Inr (de_client svc))
            (\<lambda>client. Inr
               \<lparr>hr_client = client, hr_method = method, hr_url = er_url request, hr_headers = er_headers request,
                hr_timeout_ms = er_timeout_ms request, hr_body = er_body request\<rparr>))"

definition text_headers :: "(string \<times> string option) list \<Rightarrow> (string, string) hmap" where
  "text_headers hs = fold (\<lambda>(n, v) m. case v of Some v \<Rightarrow> hm_insert n v m | None \<Rightarrow> m) hs []"

text \<open>The request as it is handed to the library, and the call.\<close>

definition outgoing :: "'w http_lib \<Rightarrow> web_parser \<Rightarrow> name_resolver \<Rightarrow> direct_egress \<Rightarrow> egress_request \<Rightarrow> egress_error + http_request" where
  "outgoing lib parse resolve svc request = bind_result (prepare_request parse resolve svc request) (build_request lib svc)"

definition transmit :: "'w http_lib \<Rightarrow> web_parser \<Rightarrow> name_resolver \<Rightarrow> direct_egress \<Rightarrow> egress_request \<Rightarrow> ('w, egress_error, http_response) op" where
  "transmit lib parse resolve svc request w =
     (case outgoing lib parse resolve svc request of
        Inl e \<Rightarrow> (Inl e, w)
      | Inr r \<Rightarrow> (case hl_send lib r w of (Inl e, w) \<Rightarrow> (Inl (Transport e), w) | (Inr p, w) \<Rightarrow> (Inr p, w)))"

definition direct_send :: "'w http_lib \<Rightarrow> web_parser \<Rightarrow> name_resolver \<Rightarrow> direct_egress \<Rightarrow> egress_request \<Rightarrow> ('w, egress_error, egress_response) op" where
  "direct_send lib parse resolve svc request w =
     (case transmit lib parse resolve svc request w of
        (Inl e, w) \<Rightarrow> (Inl e, w)
      | (Inr p, w) \<Rightarrow>
          (map_sum Transport (\<lambda>chunks. \<lparr>ep_status = hp_status p, ep_headers = text_headers (hp_headers p), ep_body = concat chunks\<rparr>)
             (collect_results (hp_chunks p)), w))"

definition direct_send_stream ::
  "'w http_lib \<Rightarrow> web_parser \<Rightarrow> name_resolver \<Rightarrow> direct_egress \<Rightarrow> egress_request \<Rightarrow> ('w, egress_error, egress_stream_response) op" where
  "direct_send_stream lib parse resolve svc request w =
     (case transmit lib parse resolve svc request w of
        (Inl e, w) \<Rightarrow> (Inl e, w)
      | (Inr p, w) \<Rightarrow>
          (Inr \<lparr>es_status = hp_status p, es_headers = text_headers (hp_headers p),
                es_body = map (map_sum Transport id) (hp_chunks p)\<rparr>, w))"

section \<open>What passes\<close>

lemma validate_request_Inr:
  assumes "validate_request parse svc request = Inr ()"
  shows "\<exists>u. parse (er_url request) = Inr u \<and> url_scheme u \<in> {''http'', ''https''}"
    and "permitted (plain_parser parse) (er_network_access request) (er_url request)"
    and "permitted (plain_parser parse) (map_option al_acl (de_system_allowlist svc)) (er_url request)"
  using assms by (auto simp: validate_request_def permitted_def allowlist_is_url_allowed_def split: if_splits sum.splits option.splits)

lemma prepare_request_Inr:
  assumes "prepare_request parse resolve svc request = Inr prepared"
  shows "validate_request parse svc request = Inr ()" and "er_signing request \<noteq> SigningRequired"
    and "er_url prepared = er_url request"
    and "er_dns_pinning_required request \<Longrightarrow> \<exists>u addrs. validate_url_dns_pinned parse resolve (er_url request) = Inr (u, addrs)
      \<and> (addrs \<noteq> [] \<longrightarrow> er_pinned_addrs prepared = Some (get_or [] (url_host u), addrs))"
  using assms by (auto simp: prepare_request_def bind_result_Inr with_pinned_addrs_def split: if_splits sum.splits)

lemma build_request_Inr:
  assumes "build_request lib svc request = Inr r"
  shows "hr_url r = er_url request" and "er_pinned_addrs request = Some pin \<Longrightarrow> hr_client r = pinned_client pin"
  using assms by (auto simp: build_request_def bind_result_Inr split: sum.splits option.splits)

lemma transmit_sends:
  assumes "transmit lib parse resolve svc request w = (res, w')" and "w' \<noteq> w \<or> (\<exists>p. res = Inr p)"
  shows "\<exists>r. outgoing lib parse resolve svc request = Inr r \<and> w' = snd (hl_send lib r w)"
  using assms by (auto simp: transmit_def split: sum.splits prod.splits)

text \<open>
  C18. Nothing leaves but through the checks. When the service changes the world or returns a response, it
  handed one request to the HTTP library, for the URL it was given: an HTTP URL that the access list of
  the request permits and the allowlist of the host permits, if there is one, and no request that has to
  be signed. If the caller requires pinning, the connection cannot go to an internal network: the host is
  an address outside all of them, or the client is pinned for this host to addresses of which none is in
  one, and follows no redirect. The same holds for streamed responses.
\<close>

theorem egress_boundary:
  assumes "direct_send lib parse resolve svc request w = (res, w') \<and> (w' \<noteq> w \<or> (\<exists>p. res = Inr p))
    \<or> direct_send_stream lib parse resolve svc request w = (sres, w') \<and> (w' \<noteq> w \<or> (\<exists>p. sres = Inr p))"
  shows "\<exists>r u. outgoing lib parse resolve svc request = Inr r \<and> w' = snd (hl_send lib r w)
    \<and> hr_url r = er_url request \<and> parse (hr_url r) = Inr u \<and> url_scheme u \<in> {''http'', ''https''}
    \<and> permitted (plain_parser parse) (er_network_access request) (hr_url r)
    \<and> permitted (plain_parser parse) (map_option al_acl (de_system_allowlist svc)) (hr_url r)
    \<and> er_signing request \<noteq> SigningRequired
    \<and> (er_dns_pinning_required request \<longrightarrow>
        (\<exists>host. url_host u = Some host
           \<and> (case parse_ip (strip_brackets host) of
                Some ip \<Rightarrow> \<not> internal ip
              | None \<Rightarrow> \<exists>addrs. hc_resolved (hr_client r) = Some (host, addrs) \<and> addrs \<noteq> []
                  \<and> (\<forall>a \<in> set addrs. \<not> internal (sa_ip a)) \<and> \<not> hc_follows_redirects (hr_client r))))"
proof -
  from assms obtain tres where "transmit lib parse resolve svc request w = (tres, w')" "w' \<noteq> w \<or> (\<exists>p. tres = Inr p)"
    by (auto simp: direct_send_def direct_send_stream_def split: prod.splits sum.splits)
  from transmit_sends [OF this] obtain r prepared where r: "outgoing lib parse resolve svc request = Inr r" "w' = snd (hl_send lib r w)"
    and prepared: "prepare_request parse resolve svc request = Inr prepared" and built: "build_request lib svc prepared = Inr r"
    by (auto simp: outgoing_def bind_result_Inr)
  note prep = prepare_request_Inr [OF prepared] and valid = validate_request_Inr [OF prepare_request_Inr(1) [OF prepared]]
  have url: "hr_url r = er_url request" using build_request_Inr(1) [OF built] prep(3) by simp
  obtain u where u: "parse (er_url request) = Inr u" "url_scheme u \<in> {''http'', ''https''}" using valid(1) by blast
  have "\<exists>host. url_host u = Some host \<and> (case parse_ip (strip_brackets host) of
      Some ip \<Rightarrow> \<not> internal ip
    | None \<Rightarrow> \<exists>addrs. hc_resolved (hr_client r) = Some (host, addrs) \<and> addrs \<noteq> []
        \<and> (\<forall>a \<in> set addrs. \<not> internal (sa_ip a)) \<and> \<not> hc_follows_redirects (hr_client r))" if "er_dns_pinning_required request"
  proof -
    from prep(4) [OF that] obtain v addrs where v: "validate_url_dns_pinned parse resolve (er_url request) = Inr (v, addrs)"
      and pin: "addrs \<noteq> [] \<Longrightarrow> hr_client r = pinned_client (get_or [] (url_host v), addrs)"
      using build_request_Inr(2) [OF built] by blast
    from pinned_url_external [OF v] u(1) pin show ?thesis
      by (auto simp: pinned_client_def split: option.splits)
  qed
  then show ?thesis using r url u valid prep(2) by auto
qed

text \<open>A library that counts the requests it sends and answers them.\<close>

definition demo_lib :: "nat http_lib" where
  "demo_lib = \<lparr>hl_method = Inr, hl_build_error = (\<lambda>_. None),
     hl_send = (\<lambda>r n. (Inr \<lparr>hp_status = 200, hp_headers = [], hp_chunks = []\<rparr>, Suc n))\<rparr>"

definition demo_request :: egress_request where
  "demo_request = require_dns_pinning (with_network_access (Some (allow_only [''*.example.com'']))
     (egress_request_new ''GET'' ''https://api.example.com/x'' Mcp))"

theorem egress_boundary_witness:
  "\<exists>r addrs. outgoing demo_lib demo_web_parse demo_resolve direct_egress_new demo_request = Inr r
     \<and> hc_resolved (hr_client r) = Some (''api.example.com'', addrs) \<and> addrs \<noteq> [] \<and> (\<forall>a \<in> set addrs. \<not> internal (sa_ip a))"
proof -
  have "direct_send demo_lib demo_web_parse demo_resolve direct_egress_new demo_request 0
      = (Inr \<lparr>ep_status = 200, ep_headers = [], ep_body = []\<rparr>, Suc 0)" by code_simp
  moreover have pins: "er_dns_pinning_required demo_request" "er_url demo_request = ''https://api.example.com/x''"
    "parse_ip (strip_brackets ''api.example.com'') = None"
    "map_sum id url_host (demo_web_parse ''https://api.example.com/x'') = Inr (Some ''api.example.com'')" by code_simp+
  ultimately show ?thesis
    using egress_boundary [of demo_lib demo_web_parse demo_resolve direct_egress_new demo_request 0
        "Inr \<lparr>ep_status = 200, ep_headers = [], ep_body = []\<rparr>" "Suc 0" "Inl SigningUnavailable"] by auto
qed

section \<open>The allowlist and the timeout\<close>

text \<open>An allowlist without a pattern closes the boundary instead of opening it.\<close>

lemma empty_allowlist_denies:
  assumes "url_host_chars (plain_parser parse)" and "concat (map ag_allowed groups) = []"
    and "de_system_allowlist svc = Some (allowlist_from_groups groups)"
  shows "\<exists>e. validate_request parse svc request = Inl e"
proof -
  have "\<not> allowlist_is_url_allowed (plain_parser parse) (allowlist_from_groups groups) (er_url request)"
    using none_matches_nothing [OF assms(1)] assms(2)
    by (simp add: allowlist_is_url_allowed_def is_url_allowed_iff allowlist_from_groups_def allow_only_def)
  then show ?thesis by (cases "parse (er_url request)") (auto simp: validate_request_def assms(3))
qed

text \<open>
  The client of a pinned request is built without the default timeout of a request: without a timeout of
  its own, the request may take for ever.
\<close>

definition effective_timeout_ms :: "http_request \<Rightarrow> nat option" where
  "effective_timeout_ms r = (case hr_timeout_ms r of Some ms \<Rightarrow> Some ms | None \<Rightarrow> map_option ((*) 1000) (hc_timeout (hr_client r)))"

lemma pinned_request_untimed:
  assumes "build_request lib direct_egress_new request = Inr r" and "er_timeout_ms request = None"
  shows "effective_timeout_ms r = (if er_pinned_addrs request = None then Some 60000 else None)"
  using assms by (auto simp: build_request_def bind_result_Inr effective_timeout_ms_def pinned_client_def direct_egress_new_def
      DEFAULT_REQUEST_TIMEOUT_def split: sum.splits option.splits)

end
