(* ===== verification/Message_Filter.thy ===== *)
theory Message_Filter
  imports Tool_Integrity
begin

text \<open>
  What part of a conversation is loaded (\<open>crates/core/src/message_filter.rs\<close>): filters, injected
  messages, the window of a query with its anchor, the selection of a window by token costs, and the
  loading of a query by the event history of a host (\<open>crates/host/src/events.rs\<close>). Ids and times of
  messages that are made on the way are an argument.
\<close>

section \<open>Queries\<close>

datatype message_filter =
    TimeRange "timestamp option" "timestamp option"
  | EventTypes "string list"
  | ToolName string
  | Search string
  | ExcludeIds "uuid list"
  | IncludeIds "uuid list"
  | Custom "message \<Rightarrow> bool"

datatype injection_position = AtStart | AtEnd | BeforeIndex nat | AfterIndex nat

record injected_message =
  ij_position :: injection_position
  ij_message :: message

definition injected_at_start :: "message \<Rightarrow> injected_message" where
  "injected_at_start m = \<lparr>ij_position = AtStart, ij_message = m\<rparr>"

definition injected_at_end :: "message \<Rightarrow> injected_message" where
  "injected_at_end m = \<lparr>ij_position = AtEnd, ij_message = m\<rparr>"

definition injected_before_index :: "nat \<Rightarrow> message \<Rightarrow> injected_message" where
  "injected_before_index i m = \<lparr>ij_position = BeforeIndex i, ij_message = m\<rparr>"

definition injected_after_index :: "nat \<Rightarrow> message \<Rightarrow> injected_message" where
  "injected_after_index i m = \<lparr>ij_position = AfterIndex i, ij_message = m\<rparr>"

record filter_context =
  fc_total_count :: nat
  fc_filtered_count :: nat
  fc_excluded_count :: nat

text \<open>An implementation of \<open>PrependTransform\<close>.\<close>

type_synonym prepend_transform = "filter_context \<Rightarrow> message option"

record message_query =
  mq_session_id :: uuid
  mq_filters :: "message_filter list"
  mq_injections :: "injected_message list"
  mq_limit :: "int option"
  mq_offset :: "int option"
  mq_keep_head :: "nat option"
  mq_after_sequence :: "int option"
  mq_prepend_transform :: "prepend_transform option"

definition message_query_new :: "uuid \<Rightarrow> message_query" where
  "message_query_new sid =
     \<lparr>mq_session_id = sid, mq_filters = [], mq_injections = [], mq_limit = None, mq_offset = None, mq_keep_head = None,
      mq_after_sequence = None, mq_prepend_transform = None\<rparr>"

definition with_prepend_transform :: "prepend_transform \<Rightarrow> message_query \<Rightarrow> message_query" where
  "with_prepend_transform transform q = q\<lparr>mq_prepend_transform := Some transform\<rparr>"

definition with_filter :: "message_filter \<Rightarrow> message_query \<Rightarrow> message_query" where
  "with_filter f q = q\<lparr>mq_filters := mq_filters q @ [f]\<rparr>"

definition with_filters :: "message_filter list \<Rightarrow> message_query \<Rightarrow> message_query" where
  "with_filters filters q = q\<lparr>mq_filters := mq_filters q @ filters\<rparr>"

definition with_injection :: "injected_message \<Rightarrow> message_query \<Rightarrow> message_query" where
  "with_injection j q = q\<lparr>mq_injections := mq_injections q @ [j]\<rparr>"

definition with_injections :: "injected_message list \<Rightarrow> message_query \<Rightarrow> message_query" where
  "with_injections injections q = q\<lparr>mq_injections := mq_injections q @ injections\<rparr>"

definition with_limit :: "int \<Rightarrow> message_query \<Rightarrow> message_query" where
  "with_limit limit q = q\<lparr>mq_limit := Some limit\<rparr>"

definition with_offset :: "int \<Rightarrow> message_query \<Rightarrow> message_query" where
  "with_offset offset q = q\<lparr>mq_offset := Some offset\<rparr>"

definition with_keep_head :: "nat \<Rightarrow> message_query \<Rightarrow> message_query" where
  "with_keep_head keep_head q = q\<lparr>mq_keep_head := Some keep_head\<rparr>"

definition query_after_sequence :: "int \<Rightarrow> message_query \<Rightarrow> message_query" where
  "query_after_sequence sequence q = q\<lparr>mq_after_sequence := Some sequence\<rparr>"

definition is_custom_filter :: "message_filter \<Rightarrow> bool" where
  "is_custom_filter f = (case f of Custom _ \<Rightarrow> True | _ \<Rightarrow> False)"

definition has_db_filters :: "message_query \<Rightarrow> bool" where
  "has_db_filters q = list_ex (\<lambda>f. \<not> is_custom_filter f) (mq_filters q)"

definition has_custom_filters :: "message_query \<Rightarrow> bool" where
  "has_custom_filters q = list_ex is_custom_filter (mq_filters q)"

definition has_injections :: "message_query \<Rightarrow> bool" where
  "has_injections q \<longleftrightarrow> mq_injections q \<noteq> []"

subsection \<open>The notice of excluded messages\<close>

definition excluded_notice_transform :: "string \<Rightarrow> uuid \<times> timestamp \<Rightarrow> prepend_transform" where
  "excluded_notice_transform format mint ctx =
     (if 0 < fc_excluded_count ctx
      then Some (message_system (fst mint) (snd mint) (replace_text ''{}'' (show_nat (fc_excluded_count ctx)) format))
      else None)"

definition infinity_context_format :: string where
  "infinity_context_format =
     ''[IMPORTANT: {} earlier messages are NOT visible in this context. ''
     @ ''To answer questions about earlier parts of the conversation, ''
     @ ''you MUST call the `query_history` tool to search for the relevant information.]''"

section \<open>Injections\<close>

definition insert_at :: "nat \<Rightarrow> 'a \<Rightarrow> 'a list \<Rightarrow> 'a list" where
  "insert_at i x xs = take i xs @ x # drop i xs"

definition start_injections :: "injected_message list \<Rightarrow> message list" where
  "start_injections js = map ij_message (filter (\<lambda>j. ij_position j = AtStart) js)"

definition end_injections :: "injected_message list \<Rightarrow> message list" where
  "end_injections js = map ij_message (filter (\<lambda>j. ij_position j = AtEnd) js)"

definition index_injection :: "injected_message \<Rightarrow> (nat \<times> bool \<times> message) option" where
  "index_injection j =
     (case ij_position j of
        BeforeIndex i \<Rightarrow> Some (i, True, ij_message j)
      | AfterIndex i \<Rightarrow> Some (i, False, ij_message j)
      | _ \<Rightarrow> None)"

definition inject_at :: "nat \<times> bool \<times> message \<Rightarrow> message list \<Rightarrow> message list" where
  "inject_at entry messages =
     (case entry of (i, is_before, m) \<Rightarrow>
        insert_at (if is_before then min i (length messages) else min (i + 1) (length messages)) m messages)"

text \<open>A stable sort by the index, the highest first.\<close>

definition apply_injections :: "message_query \<Rightarrow> message list \<Rightarrow> message list" where
  "apply_injections q messages =
     (let messages = foldr (insert_at 0) (start_injections (mq_injections q)) messages;
          index_injections = sort_key (\<lambda>(i, _). - int i) (List.map_filter index_injection (mq_injections q))
      in fold inject_at index_injections messages @ end_injections (mq_injections q))"

section \<open>Windows\<close>

definition drain_range :: "nat \<Rightarrow> nat \<Rightarrow> 'a list \<Rightarrow> 'a list" where
  "drain_range i j xs = take i xs @ drop j xs"

definition apply_window_bounds :: "message_query \<Rightarrow> message list \<Rightarrow> message list" where
  "apply_window_bounds q messages =
     (let messages =
        (case mq_offset q of
           None \<Rightarrow> messages
         | Some offset \<Rightarrow>
             let offset = nat (max offset 0) in
             if offset < length messages then drain_range 0 offset messages else [])
      in case mq_limit q of
           None \<Rightarrow> messages
         | Some limit \<Rightarrow>
             let limit = nat (max limit 0); keep_head = min (get_or 0 (mq_keep_head q)) (length messages) in
             if keep_head + limit < length messages then drain_range keep_head (length messages - limit) messages else messages)"

definition prepend_excluded_notice :: "message_query \<Rightarrow> message list \<Rightarrow> nat \<Rightarrow> message list" where
  "prepend_excluded_notice q messages count_before_limit =
     (case mq_prepend_transform q of
        None \<Rightarrow> messages
      | Some transform \<Rightarrow>
          let ctx = \<lparr>fc_total_count = count_before_limit, fc_filtered_count = length messages,
                     fc_excluded_count = count_before_limit - length messages\<rparr>
          in case transform ctx of Some prepend_msg \<Rightarrow> prepend_msg # messages | None \<Rightarrow> messages)"

definition apply_windowing :: "message_query \<Rightarrow> message list \<Rightarrow> message list" where
  "apply_windowing q messages = prepend_excluded_notice q (apply_window_bounds q messages) (length messages)"

subsection \<open>Windows by cost\<close>

record anchored_window =
  aw_head_len :: nat
  aw_recent_start :: nat

definition window_hidden :: "anchored_window \<Rightarrow> nat" where
  "window_hidden w = aw_recent_start w - aw_head_len w"

text \<open>The loop that takes messages in front of the recent block. Token costs do not reach the bound of \<open>usize\<close>.\<close>

function grow_recent :: "nat list \<Rightarrow> nat \<Rightarrow> nat option \<Rightarrow> nat \<Rightarrow> nat \<Rightarrow> nat \<Rightarrow> nat \<Rightarrow> nat" where
  "grow_recent costs keep_head max_tail budget recent_start window_cost tail_count =
     (if recent_start \<le> keep_head then recent_start
      else if (case max_tail of Some m \<Rightarrow> m \<le> tail_count | None \<Rightarrow> False) then recent_start
      else let next_cost = costs ! (recent_start - 1) in
           if budget < window_cost + next_cost then recent_start
           else grow_recent costs keep_head max_tail budget (recent_start - 1) (window_cost + next_cost) (Suc tail_count))"
  by pat_completeness auto
termination by (relation "measure (\<lambda>(_, _, _, _, recent_start, _, _). recent_start)") auto

declare grow_recent.simps [simp del]

definition guaranteed_tail :: "nat \<Rightarrow> nat option \<Rightarrow> nat \<Rightarrow> nat" where
  "guaranteed_tail min_tail max_tail len =
     (let min_tail = min min_tail len in case max_tail of Some m \<Rightarrow> min min_tail (max m 1) | None \<Rightarrow> min_tail)"

definition select_window :: "nat list \<Rightarrow> nat \<Rightarrow> nat \<Rightarrow> nat option \<Rightarrow> nat \<Rightarrow> anchored_window" where
  "select_window costs keep_head min_tail max_tail budget =
     (let len = length costs; keep_head = min keep_head len;
          min_tail = guaranteed_tail min_tail max_tail len; recent_start = len - min_tail
      in if recent_start \<le> keep_head then \<lparr>aw_head_len = keep_head, aw_recent_start = keep_head\<rparr>
         else let window_cost = sum_list (take keep_head costs) + sum_list (drop recent_start costs)
              in \<lparr>aw_head_len = keep_head,
                  aw_recent_start = grow_recent costs keep_head max_tail budget recent_start window_cost min_tail\<rparr>)"

section \<open>Loading a query\<close>

record projected_message =
  pj_event_id :: uuid
  pj_event_type :: string
  pj_sequence :: int
  pj_tool_name :: "string option"
  pj_message :: message

text \<open>\<open>str::contains\<close> on texts in lower case; the search ignores the case of ASCII letters.\<close>

definition text_matches :: "string \<Rightarrow> string \<Rightarrow> bool" where
  "text_matches search text = sublist (to_ascii_lowercase search) (to_ascii_lowercase text)"

fun filter_accepts :: "message_filter \<Rightarrow> projected_message \<Rightarrow> bool" where
  "filter_accepts (TimeRange from until) item \<longleftrightarrow>
     (case from of None \<Rightarrow> True | Some t \<Rightarrow> t \<le> m_created_at (pj_message item))
     \<and> (case until of None \<Rightarrow> True | Some t \<Rightarrow> m_created_at (pj_message item) \<le> t)"
| "filter_accepts (EventTypes types) item \<longleftrightarrow> pj_event_type item \<in> set types"
| "filter_accepts (ToolName name) item \<longleftrightarrow> pj_tool_name item = Some name"
| "filter_accepts (Search search) item \<longleftrightarrow>
     (case message_text (pj_message item) of Some text \<Rightarrow> text_matches search text | None \<Rightarrow> False)"
| "filter_accepts (ExcludeIds ids) item \<longleftrightarrow> pj_event_id item \<notin> set ids"
| "filter_accepts (IncludeIds ids) item \<longleftrightarrow> pj_event_id item \<in> set ids"
| "filter_accepts (Custom predicate) item \<longleftrightarrow> predicate (pj_message item)"

definition filtered_history :: "message_query \<Rightarrow> projected_message list \<Rightarrow> projected_message list" where
  "filtered_history q projected =
     (let projected = (case mq_after_sequence q of
                         None \<Rightarrow> projected | Some after_seq \<Rightarrow> filter (\<lambda>i. after_seq < pj_sequence i) projected)
      in fold (\<lambda>f. filter (filter_accepts f)) (mq_filters q) projected)"

definition load_filtered :: "message_query \<Rightarrow> projected_message list \<Rightarrow> message list" where
  "load_filtered q projected =
     (let messages = map pj_message (filtered_history q projected); count_before_limit = length messages in
      apply_injections q (prepend_excluded_notice q (apply_window_bounds q messages) count_before_limit))"

section \<open>Filters, windows and injections\<close>

text \<open>The filters of a query are a conjunction, whatever their order.\<close>

lemma filtered_history_eq:
  "filtered_history q projected =
     filter (\<lambda>i. (case mq_after_sequence q of None \<Rightarrow> True | Some s \<Rightarrow> s < pj_sequence i)
       \<and> (\<forall>f \<in> set (mq_filters q). filter_accepts f i)) projected"
proof -
  have "fold (\<lambda>f. filter (filter_accepts f)) fs xs = filter (\<lambda>i. \<forall>f \<in> set fs. filter_accepts f i) xs" for fs xs
    by (induction fs arbitrary: xs) (auto intro: filter_cong)
  then show ?thesis by (auto simp: filtered_history_def Let_def split: option.split intro: filter_cong)
qed

text \<open>The window keeps the first messages and the latest ones, none of them twice.\<close>

definition query_offset :: "message_query \<Rightarrow> nat" where
  "query_offset q = (case mq_offset q of None \<Rightarrow> 0 | Some n \<Rightarrow> nat n)"

lemma window_bounds_eq:
  "apply_window_bounds q ms =
     (let ms = drop (query_offset q) ms; h = min (get_or 0 (mq_keep_head q)) (length ms) in
      case mq_limit q of None \<Rightarrow> ms | Some l \<Rightarrow> take h ms @ drop (max h (length ms - nat l)) ms)"
proof -
  have skip: "(case mq_offset q of None \<Rightarrow> ms
      | Some offset \<Rightarrow> let offset = nat (max offset 0) in if offset < length ms then drain_range 0 offset ms else [])
    = drop (query_offset q) ms"
    by (auto simp: query_offset_def drain_range_def Let_def max_def split: option.split)
  have limit: "(let limit = nat (max l 0); kh = min k (length xs) in
      if kh + limit < length xs then drain_range kh (length xs - limit) xs else xs)
    = (let h = min k (length xs) in take h xs @ drop (max h (length xs - nat l)) xs)" for l k and xs :: "message list"
  proof (cases "min k (length xs) + nat l < length xs")
    case False
    then have "max (min k (length xs)) (length xs - nat l) = min k (length xs)" by linarith
    with False show ?thesis by (simp add: Let_def max_def)
  qed (simp add: drain_range_def Let_def max_def)
  show ?thesis
    unfolding apply_window_bounds_def skip
    by (cases "mq_limit q") (simp_all only: Let_def option.case limit [unfolded Let_def])
qed

lemma window_no_limit: "mq_limit q = None \<Longrightarrow> mq_offset q = None \<Longrightarrow> apply_window_bounds q ms = ms"
  by (simp add: window_bounds_eq query_offset_def)

text \<open>Injections add their messages and leave the others in their order.\<close>

lemma inject_at_subseq: "subseq ms (inject_at e ms)"
proof -
  have "subseq (take i ms @ drop i ms) (take i ms @ x # drop i ms)" for i x
    by (rule list_emb_append_mono) auto
  then show ?thesis by (cases e) (simp add: inject_at_def insert_at_def)
qed

lemma fold_inject_subseq: "subseq ms (fold inject_at es ms)"
proof (induction es arbitrary: ms)
  case (Cons e es)
  show ?case using inject_at_subseq [of ms e] Cons [of "inject_at e ms"] by (simp add: subseq_order.trans)
qed simp

lemma injections_keep: "subseq ms (apply_injections q ms)"
proof -
  let ?starts = "start_injections (mq_injections q)"
  have "foldr (insert_at 0) xs ms = xs @ ms" for xs by (induction xs) (simp_all add: insert_at_def)
  then obtain es where "apply_injections q ms = fold inject_at es (?starts @ ms) @ end_injections (mq_injections q)"
    by (simp add: apply_injections_def Let_def)
  moreover have "subseq ms (?starts @ ms)" by (rule list_emb_append2) simp
  ultimately show ?thesis
    using fold_inject_subseq [of "?starts @ ms" es] by (metis append_Nil2 list_emb_append_mono list_emb_Nil subseq_order.trans)
qed

text \<open>
  A message to be put after the first one is put in front of it when another is to be put before it: the
  positions are not those of the messages any more once one is inserted.
\<close>

lemma after_index_lands_before:
  "apply_injections (with_injections [injected_before_index 0 b, injected_after_index 0 a] (message_query_new sid)) [m] = [b, a, m]"
  by (simp add: apply_injections_def with_injections_def message_query_new_def start_injections_def end_injections_def
      injected_before_index_def injected_after_index_def index_injection_def inject_at_def insert_at_def List.map_filter_simps)

section \<open>The window by cost\<close>

text \<open>What the window from \<open>start\<close> costs with the anchor.\<close>

definition window_cost :: "nat list \<Rightarrow> nat \<Rightarrow> nat \<Rightarrow> nat" where
  "window_cost costs h start = sum_list (take h costs) + sum_list (drop start costs)"

lemma window_cost_extend:
  assumes "0 < start" and "start \<le> length costs"
  shows "window_cost costs h (start - 1) = window_cost costs h start + costs ! (start - 1)"
  using assms Cons_nth_drop_Suc [of "start - 1" costs, symmetric] by (simp add: window_cost_def)

text \<open>Where the loop stops: at the anchor, at the cap, or before the message that would exceed the budget.\<close>

definition window_stops :: "nat list \<Rightarrow> nat \<Rightarrow> nat option \<Rightarrow> nat \<Rightarrow> nat \<Rightarrow> bool" where
  "window_stops costs h cap budget r \<longleftrightarrow>
     r = h \<or> (\<exists>m. cap = Some m \<and> m \<le> length costs - r) \<or> budget < window_cost costs h (r - 1)"

definition window_fits :: "nat list \<Rightarrow> nat \<Rightarrow> nat option \<Rightarrow> nat \<Rightarrow> nat \<Rightarrow> bool" where
  "window_fits costs h cap budget r \<longleftrightarrow>
     window_cost costs h r \<le> budget \<and> (case cap of None \<Rightarrow> True | Some m \<Rightarrow> length costs - r \<le> m)"

lemma grow_recent_stops:
  assumes "h \<le> start" and "start \<le> length costs"
    and "tail = length costs - start" and "cost = window_cost costs h start"
    and "r = grow_recent costs h cap budget start cost tail"
  shows "h \<le> r \<and> r \<le> start \<and> (r = start \<or> window_fits costs h cap budget r) \<and> window_stops costs h cap budget r"
  using assms
proof (induction costs h cap budget start cost tail arbitrary: r rule: grow_recent.induct)
  case (1 costs h cap budget start cost tail)
  note r = "1.prems"(5) [unfolded grow_recent.simps [of costs h cap budget start]]
  consider (anchor) "start = h" | (cap) m where "h < start" "cap = Some m" "m \<le> tail"
    | (budget) "h < start" "budget < cost + costs ! (start - 1)"
    | (more) "h < start" "\<not> (case cap of Some m \<Rightarrow> m \<le> tail | None \<Rightarrow> False)" "\<not> budget < cost + costs ! (start - 1)"
    using "1.prems"(1) by (cases cap) (auto, fastforce+)
  then show ?case
  proof cases
    case more
    let ?next = "cost + costs ! (start - 1)"
    have cost: "?next = window_cost costs h (start - 1)"
      using more(1) "1.prems"(2,4) window_cost_extend [of start costs h] by simp
    have r': "r = grow_recent costs h cap budget (start - 1) ?next (Suc tail)"
      using r more by (simp add: Let_def)
    have len: "Suc tail = length costs - (start - 1)" using more(1) "1.prems"(2,3) by simp
    have fits: "window_fits costs h cap budget (start - 1)"
      using more(2,3) cost len by (auto simp: window_fits_def split: option.splits)
    have "h \<le> r \<and> r \<le> start - 1 \<and> (r = start - 1 \<or> window_fits costs h cap budget r) \<and> window_stops costs h cap budget r"
      by (rule "1.IH" [OF _ more(2) refl more(3) _ _ len cost r']) (use more(1) "1.prems"(2) in auto)
    then show ?thesis using fits by auto
  next
    case budget
    then have "budget < window_cost costs h (start - 1)" using "1.prems"(2,4) window_cost_extend [of start costs h] by simp
    moreover have "r = start" using r budget(2) by (simp add: Let_def)
    ultimately show ?thesis using "1.prems"(1) by (simp add: window_stops_def)
  qed (use "1.prems"(1-4) r in \<open>auto simp: window_stops_def window_cost_extend Let_def\<close>)
qed

lemma window_cost_antimono: "r \<le> r' \<Longrightarrow> window_cost costs h r' \<le> window_cost costs h r"
  using append_take_drop_id [of "r' - r" "drop r costs"] sum_list_append [of "take (r' - r) (drop r costs)" "drop r' costs"]
  by (simp add: window_cost_def)

text \<open>A block that reaches further back than where the loop stops does not fit.\<close>

lemma window_stops_unfit:
  assumes "window_stops costs h cap budget r" and "h \<le> r'" and "r' < r" and "r \<le> length costs"
  shows "\<not> window_fits costs h cap budget r'"
proof -
  have "window_cost costs h (r - 1) \<le> window_cost costs h r'" using assms(3) by (simp add: window_cost_antimono)
  then show ?thesis using assms by (auto simp: window_stops_def window_fits_def)
qed

definition guaranteed_start :: "nat list \<Rightarrow> nat \<Rightarrow> nat \<Rightarrow> nat option \<Rightarrow> nat" where
  "guaranteed_start costs keep min_tail cap =
     max (min keep (length costs)) (length costs - guaranteed_tail min_tail cap (length costs))"

lemma select_window_stops:
  fixes costs keep min_tail cap budget
  defines "w \<equiv> select_window costs keep min_tail cap budget" and "h \<equiv> min keep (length costs)"
    and "s \<equiv> guaranteed_start costs keep min_tail cap"
  shows "aw_head_len w = h" and "h \<le> aw_recent_start w" and "aw_recent_start w \<le> s"
    and "aw_recent_start w = s \<or> window_fits costs h cap budget (aw_recent_start w)"
    and "window_stops costs h cap budget (aw_recent_start w)"
proof -
  let ?g = "guaranteed_tail min_tail cap (length costs)" and ?r = "aw_recent_start w"
  have g: "?g \<le> length costs" by (auto simp: guaranteed_tail_def Let_def split: option.split)
  show "aw_head_len w = h" by (simp add: w_def h_def select_window_def Let_def)
  have "h \<le> ?r \<and> ?r \<le> s \<and> (?r = s \<or> window_fits costs h cap budget ?r) \<and> window_stops costs h cap budget ?r"
  proof (cases "length costs - ?g \<le> h")
    case True
    then have "?r = h" by (simp add: w_def h_def select_window_def Let_def)
    moreover have "s = h" using True unfolding s_def guaranteed_start_def h_def by (rule max_absorb1)
    ultimately show ?thesis by (simp add: window_stops_def)
  next
    case False
    then have "?r = grow_recent costs h cap budget (length costs - ?g) (window_cost costs h (length costs - ?g)) ?g"
      by (simp add: w_def h_def select_window_def Let_def window_cost_def)
    from grow_recent_stops [OF _ _ _ refl this] False g show ?thesis by (simp add: s_def guaranteed_start_def h_def max_def)
  qed
  then show "h \<le> ?r" "?r \<le> s" "?r = s \<or> window_fits costs h cap budget ?r" "window_stops costs h cap budget ?r" by simp_all
qed

lemma select_window_range:
  "aw_head_len (select_window costs keep min_tail cap budget) \<le> aw_recent_start (select_window costs keep min_tail cap budget)"
  "aw_recent_start (select_window costs keep min_tail cap budget) \<le> length costs"
  using select_window_stops(1-3) [where costs = costs and keep = keep and min_tail = min_tail and cap = cap and budget = budget]
  by (auto simp: guaranteed_start_def)

text \<open>
  C20. The window of \<open>anchored_window\<close> is the best one: its head is the first messages that are asked for, and
  its recent block is the longest that costs no more than the budget together with the head and has no more
  messages than the cap, or the guaranteed tail when no longer block fits.
\<close>

theorem anchored_window_best:
  "select_window costs keep min_tail cap budget =
     (let h = min keep (length costs); s = guaranteed_start costs keep min_tail cap in
      \<lparr>aw_head_len = h, aw_recent_start = Min (insert s {r \<in> {h..s}. window_fits costs h cap budget r})\<rparr>)"
proof -
  let ?h = "min keep (length costs)" and ?s = "guaranteed_start costs keep min_tail cap"
  let ?w = "select_window costs keep min_tail cap budget" and ?starts = "insert ?s {r \<in> {?h..?s}. window_fits costs ?h cap budget r}"
  note w = select_window_stops [where costs = costs and keep = keep and min_tail = min_tail and cap = cap and budget = budget]
  have least: "aw_recent_start ?w \<le> r" if "?h \<le> r" "window_fits costs ?h cap budget r" for r
    using window_stops_unfit [OF w(5) _ _ select_window_range(2)] that not_less by metis
  have "Min ?starts = aw_recent_start ?w"
  proof (rule Min_eqI)
    show "aw_recent_start ?w \<le> r" if "r \<in> ?starts" for r using that w(3) least by auto
    show "aw_recent_start ?w \<in> ?starts"
      unfolding insert_iff mem_Collect_eq atLeastAtMost_iff using w(2-4) by blast
  qed simp
  then show ?thesis using w(1) by (simp add: Let_def)
qed
end
