(* ===== verification/Infinity_Context.thy ===== *)
theory Infinity_Context
  imports Message_Filter
begin

text \<open>
  The window of a conversation in the prompt (\<open>crates/builtins/src/infinity_context.rs\<close>): how many messages are
  loaded, how they are trimmed to the token budget, the notice of the messages that are not visible, and the tool that
  looks them up. Texts are lists of bytes. The texts of JSON values, ids and times (\<open>serde_json\<close>, \<open>Display\<close>,
  \<open>chrono\<close>), the decoding of a configuration or of arguments (\<open>serde\<close>) and the arithmetic of the
  floating-point scores are arguments, as are the ids and times of messages that are made on the way. Lower case is that of
  ASCII letters.
\<close>

section \<open>Configuration\<close>

record infinity_config =
  ic_context_budget_tokens :: nat
  ic_min_recent_messages :: nat
  ic_max_recent_messages :: "nat option"
  ic_keep_first_messages :: nat
  ic_compaction_active :: bool

definition default_context_budget_tokens :: nat where "default_context_budget_tokens = 100000"
definition default_min_recent_messages :: nat where "default_min_recent_messages = 10"
definition default_keep_first_messages :: nat where "default_keep_first_messages = 0"

definition infinity_config_default :: infinity_config where
  "infinity_config_default =
     \<lparr>ic_context_budget_tokens = default_context_budget_tokens, ic_min_recent_messages = default_min_recent_messages,
      ic_max_recent_messages = None, ic_keep_first_messages = default_keep_first_messages, ic_compaction_active = False\<rparr>"

definition CANDIDATE_AVG_TOKENS_PER_MESSAGE :: nat where "CANDIDATE_AVG_TOKENS_PER_MESSAGE = 250"
definition CANDIDATE_OVERFETCH_FACTOR :: nat where "CANDIDATE_OVERFETCH_FACTOR = 4"
definition CANDIDATE_MAX_MESSAGES :: nat where "CANDIDATE_MAX_MESSAGES = 2000"
definition MAX_KEEP_FIRST_MESSAGES :: nat where "MAX_KEEP_FIRST_MESSAGES = 16"

text \<open>The checks on a configuration that \<open>serde\<close> has decoded; a null configuration is not decoded.\<close>

definition validate_infinity_config :: "(string + infinity_config) option \<Rightarrow> string + unit" where
  "validate_infinity_config config =
     (case config of
        None \<Rightarrow> Inr ()
      | Some (Inl e) \<Rightarrow> Inl (''invalid infinity_context config: '' @ e)
      | Some (Inr typed) \<Rightarrow>
          if ic_context_budget_tokens typed = 0 then Inl ''context_budget_tokens must be >= 1''
          else if ic_min_recent_messages typed = 0 then Inl ''min_recent_messages must be >= 1''
          else if ic_max_recent_messages typed = Some 0 then Inl ''max_recent_messages must be >= 1''
          else if MAX_KEEP_FIRST_MESSAGES < ic_keep_first_messages typed
          then Inl (''keep_first_messages must be <= '' @ show_nat MAX_KEEP_FIRST_MESSAGES)
          else Inr ())"

definition infinity_filter_config :: "json \<Rightarrow> bool \<Rightarrow> json" where
  "infinity_filter_config base compaction_enabled =
     (if \<not> compaction_enabled then base
      else case base of
             JObject kvs \<Rightarrow> JObject (AList.update ''compaction_active'' (JBool True) kvs)
           | _ \<Rightarrow> JObject [(''compaction_active'', JBool True)])"

definition resolve_keep_first_messages :: "infinity_config \<Rightarrow> nat" where
  "resolve_keep_first_messages config = min (ic_keep_first_messages config) MAX_KEEP_FIRST_MESSAGES"

definition usize_max :: nat where "usize_max = 2 ^ 64 - 1"

definition resolve_candidate_load_limit :: "infinity_config \<Rightarrow> nat" where
  "resolve_candidate_load_limit config =
     (let budget_derived_limit =
        min (max (max (min (ic_context_budget_tokens config div CANDIDATE_AVG_TOKENS_PER_MESSAGE * CANDIDATE_OVERFETCH_FACTOR) usize_max)
                      (ic_min_recent_messages config)) 1) CANDIDATE_MAX_MESSAGES
      in case ic_max_recent_messages config of
           Some max_recent_messages \<Rightarrow> min budget_derived_limit (max max_recent_messages 1)
         | None \<Rightarrow> budget_derived_limit)"

definition infinity_apply_filters :: "uuid \<times> timestamp \<Rightarrow> infinity_config \<Rightarrow> message_query \<Rightarrow> message_query" where
  "infinity_apply_filters mint config q =
     (let q = q\<lparr>mq_limit := Some (int (resolve_candidate_load_limit config))\<rparr>;
          keep_first_messages = resolve_keep_first_messages config;
          q = (if 0 < keep_first_messages then q\<lparr>mq_keep_head := Some keep_first_messages\<rparr> else q)
      in q\<lparr>mq_prepend_transform := Some (excluded_notice_transform infinity_context_format mint)\<rparr>)"

section \<open>Costs\<close>

record text_forms =
  tf_json :: "json \<Rightarrow> string"
  tf_image_id :: "uuid \<Rightarrow> string"
  tf_file_id :: "uuid \<Rightarrow> string"
  tf_rfc3339 :: "timestamp \<Rightarrow> string"

definition infinity_json_value_len :: "text_forms \<Rightarrow> json \<Rightarrow> nat" where
  "infinity_json_value_len tf v = length (tf_json tf v)"

definition opt_len :: "nat \<Rightarrow> string option \<Rightarrow> nat" where
  "opt_len d s = (case s of None \<Rightarrow> d | Some t \<Rightarrow> length t)"

fun estimate_part_len :: "text_forms \<Rightarrow> content_part \<Rightarrow> nat" where
  "estimate_part_len tf (PText t) = length (tp_text t)"
| "estimate_part_len tf (PImage i) = opt_len 0 (ip_url i) + opt_len 50 (ip_base64 i) + opt_len 0 (ip_media_type i)"
| "estimate_part_len tf (PImageFile f) = length (tf_image_id tf (if_image_id f)) + opt_len 0 (if_filename f)"
| "estimate_part_len tf (PFile f) = length (tf_file_id tf (fp_file_id f)) + opt_len 0 (fp_filename f)"
| "estimate_part_len tf (PToolCall c) =
     length (tcp_id c) + length (tcp_name c) + infinity_json_value_len tf (tcp_arguments c) + 20"
| "estimate_part_len tf (PToolResult r) =
     length (trp_tool_call_id r)
     + (case trp_result r of None \<Rightarrow> 0 | Some v \<Rightarrow> infinity_json_value_len tf v) + opt_len 0 (trp_error r) + 20"
| "estimate_part_len tf (PReasoning r) =
     length (rp_provider r) + opt_len 0 (rp_item_id r) + opt_len 0 (rp_signature r) + opt_len 0 (rp_encrypted r)
     + opt_len 0 (reasoning_display_text r)"

definition estimate_message_tokens :: "text_forms \<Rightarrow> message \<Rightarrow> nat" where
  "estimate_message_tokens tf m =
     (length (message_role_display (m_role m)) + 8 + sum_list (map (estimate_part_len tf) (m_content m))) div 4"

section \<open>The notice\<close>

definition parse_excluded_notice_count :: "message \<Rightarrow> nat option" where
  "parse_excluded_notice_count m =
     (case message_text m of
        None \<Rightarrow> None
      | Some text \<Rightarrow>
          case strip_prefix ''[IMPORTANT: '' text of
            None \<Rightarrow> None
          | Some rest \<Rightarrow>
              case split_once '' '' rest of
                None \<Rightarrow> None
              | Some (count, rest) \<Rightarrow>
                  if \<not> prefix ''earlier messages are NOT visible in this context.'' rest then None
                  else parse_unsigned 64 count)"

definition take_existing_excluded_notice :: "message list \<Rightarrow> nat \<times> message list" where
  "take_existing_excluded_notice messages =
     (case messages of
        [] \<Rightarrow> (0, [])
      | first # rest \<Rightarrow>
          case parse_excluded_notice_count first of None \<Rightarrow> (0, messages) | Some count \<Rightarrow> (count, rest))"

definition notice_text :: "nat \<Rightarrow> string" where
  "notice_text count = replace_text ''{}'' (show_nat count) infinity_context_format"

definition insert_excluded_notice :: "uuid \<times> timestamp \<Rightarrow> nat \<Rightarrow> nat \<Rightarrow> message list \<Rightarrow> message list" where
  "insert_excluded_notice mint position count messages =
     insert_at (min position (length messages)) (message_system (fst mint) (snd mint) (notice_text count)) messages"

section \<open>Trimming\<close>

record trim_outcome =
  to_hidden_count :: nat
  to_head_len :: nat

definition trim_messages_to_token_budget ::
  "text_forms \<Rightarrow> infinity_config \<Rightarrow> message list \<Rightarrow> trim_outcome \<times> message list" where
  "trim_messages_to_token_budget tf config messages =
     (if messages = [] then (\<lparr>to_hidden_count = 0, to_head_len = 0\<rparr>, [])
      else let costs = map (estimate_message_tokens tf) messages;
               window = select_window costs (resolve_keep_first_messages config) (ic_min_recent_messages config)
                          (ic_max_recent_messages config) (ic_context_budget_tokens config);
               hidden_count = window_hidden window;
               messages = (if 0 < hidden_count
                           then take (aw_head_len window) (take (aw_recent_start window) messages)
                                @ drop (aw_recent_start window) messages
                           else messages)
           in (\<lparr>to_hidden_count = hidden_count, to_head_len = aw_head_len window\<rparr>, messages))"

definition saturating_add_usize :: "nat \<Rightarrow> nat \<Rightarrow> nat" where
  "saturating_add_usize a b = min (a + b) usize_max"

definition infinity_post_load :: "text_forms \<Rightarrow> uuid \<times> timestamp \<Rightarrow> infinity_config \<Rightarrow> message list \<Rightarrow> message list" where
  "infinity_post_load tf mint config messages =
     (case take_existing_excluded_notice messages of (existing_notice_count, messages) \<Rightarrow>
        if ic_compaction_active config then
          (if 0 < existing_notice_count
           then insert_excluded_notice mint (resolve_keep_first_messages config) existing_notice_count messages
           else messages)
        else case trim_messages_to_token_budget tf config messages of (outcome, messages) \<Rightarrow>
          let total_excluded_count = saturating_add_usize existing_notice_count (to_hidden_count outcome) in
          if 0 < total_excluded_count then
            let head_ids = map m_id (take (to_head_len outcome) messages);
                retained = retain_complete_message_tool_exchanges messages True;
                total_excluded_count = saturating_add_usize total_excluded_count (length messages - length retained);
                retained_head_len = length (takeWhile (\<lambda>m. m_id m \<in> set head_ids) retained)
            in insert_excluded_notice mint retained_head_len total_excluded_count retained
          else messages)"

section \<open>The tool that queries the history\<close>

record message_range =
  mr_from :: nat
  mr_to :: nat

record query_history_params =
  qp_query :: "string option"
  qp_message_range :: "message_range option"
  qp_limit :: nat

definition default_query_limit :: nat where "default_query_limit = 20"

datatype history_result = HSuccess json | HToolError string | HInternalError string

definition extract_text_content :: "text_forms \<Rightarrow> message \<Rightarrow> string" where
  "extract_text_content tf m =
     join_text '' '' (List.map_filter (\<lambda>part. case part of
         PText t \<Rightarrow> Some (tp_text t)
       | PToolResult r \<Rightarrow> map_option (tf_json tf) (trp_result r)
       | _ \<Rightarrow> None) (m_content m))"

text \<open>\<open>str::chars\<close>, each character as its bytes in UTF-8.\<close>

definition is_continuation :: "char \<Rightarrow> bool" where
  "is_continuation c \<longleftrightarrow> 128 \<le> (of_char c :: nat) \<and> (of_char c :: nat) < 192"

function utf8_chars :: "string \<Rightarrow> string list" where
  "utf8_chars [] = []"
| "utf8_chars (c # s) = (c # takeWhile is_continuation s) # utf8_chars (dropWhile is_continuation s)"
  by pat_completeness auto
termination by (relation "measure length") (auto simp: le_imp_less_Suc length_dropWhile_le)

definition truncate_content :: "string \<Rightarrow> nat \<Rightarrow> string" where
  "truncate_content content max_len =
     (let chars = utf8_chars content in
      if length chars \<le> max_len then content else concat (take max_len chars) @ ''...'')"

definition format_message :: "text_forms \<Rightarrow> message \<Rightarrow> nat \<Rightarrow> nat \<Rightarrow> json" where
  "format_message tf m index count =
     JObject [(''index'', JNumber (show_nat index)),
              (''position'', JString (show_nat (index + 1) @ ''/'' @ show_nat count)),
              (''role'', JString (message_role_display (m_role m))),
              (''created_at'', JString (tf_rfc3339 tf (m_created_at m))),
              (''content'', JString (truncate_content (extract_text_content tf m) 500))]"

definition no_messages_result :: "string \<Rightarrow> history_result" where
  "no_messages_result note = HSuccess (JObject [(''count'', JNumber ''0''), (''message'', JString note)])"

definition format_range_result :: "text_forms \<Rightarrow> message list \<Rightarrow> nat \<Rightarrow> nat \<Rightarrow> history_result" where
  "format_range_result tf messages start_index count =
     (if messages = [] then no_messages_result ''No messages in the requested range.''
      else HSuccess (JObject
        [(''messages'', JArray (map (\<lambda>(offset, m). format_message tf m (start_index + offset) count) (enumerate 0 messages))),
         (''count'', JNumber (show_nat (length messages))),
         (''total_in_history'', JNumber (show_nat count)),
         (''range'', JString (show_nat (start_index + 1) @ ''-'' @ show_nat (start_index + length messages)))]))"

definition format_recent_result :: "text_forms \<Rightarrow> message list \<Rightarrow> nat \<Rightarrow> history_result" where
  "format_recent_result tf messages count =
     HSuccess (JObject
       [(''messages'', JArray (map (\<lambda>(offset, m). format_message tf m (count - length messages + offset) count) (enumerate 0 messages))),
        (''count'', JNumber (show_nat (length messages))),
        (''total_in_history'', JNumber (show_nat count)),
        (''note'', JString (''Showing most recent history. Use `query` to search or `message_range` ''
                            @ ''to fetch older messages.''))])"

subsection \<open>Search\<close>

function split_whitespace :: "string \<Rightarrow> string list" where
  "split_whitespace [] = []"
| "split_whitespace (c # s) =
     (if is_whitespace c then split_whitespace s
      else (c # takeWhile (\<lambda>x. \<not> is_whitespace x) s) # split_whitespace (dropWhile (\<lambda>x. \<not> is_whitespace x) s))"
  by pat_completeness auto
termination by (relation "measure length") (auto simp: le_imp_less_Suc length_dropWhile_le)

record 's search_result =
  sr_index :: nat
  sr_message :: message
  sr_score :: 's

text \<open>The score of a message by its index, the number of messages, a whole-word match and its role.\<close>

type_synonym 's scoring = "nat \<Rightarrow> nat \<Rightarrow> bool \<Rightarrow> message_role \<Rightarrow> 's"

definition search_hit :: "text_forms \<Rightarrow> 's scoring \<Rightarrow> nat \<Rightarrow> string \<Rightarrow> nat \<times> message \<Rightarrow> 's search_result option" where
  "search_hit tf scoring count query_lower entry =
     (case entry of (index, m) \<Rightarrow>
        let content = to_ascii_lowercase (extract_text_content tf m) in
        if \<not> sublist query_lower content then None
        else Some \<lparr>sr_index = index, sr_message = m,
                   sr_score = scoring index count (query_lower \<in> set (split_whitespace content)) (m_role m)\<rparr>)"

text \<open>A stable sort by the score, the highest first.\<close>

fun insert_hit :: "('s :: linorder) search_result \<Rightarrow> 's search_result list \<Rightarrow> 's search_result list" where
  "insert_hit h [] = [h]"
| "insert_hit h (x # xs) = (if sr_score x \<le> sr_score h then h # x # xs else x # insert_hit h xs)"

definition search_messages :: "text_forms \<Rightarrow> ('s :: linorder) scoring \<Rightarrow> message list \<Rightarrow> string \<Rightarrow> nat \<Rightarrow> 's search_result list" where
  "search_messages tf scoring messages query limit =
     (let query_lower = to_ascii_lowercase query;
          results = List.map_filter (search_hit tf scoring (length messages) query_lower) (enumerate 0 messages)
      in take limit (foldr insert_hit results []))"

definition json_set :: "string \<Rightarrow> json \<Rightarrow> json \<Rightarrow> json" where
  "json_set k v j = (case j of JObject kvs \<Rightarrow> JObject (AList.update k v kvs) | _ \<Rightarrow> j)"

definition format_search_result :: "text_forms \<Rightarrow> ('s \<Rightarrow> string) \<Rightarrow> 's search_result list \<Rightarrow> nat \<Rightarrow> history_result" where
  "format_search_result tf score_text results count =
     (if results = [] then no_messages_result ''No matching messages found.''
      else HSuccess (JObject
        [(''messages'', JArray (map (\<lambda>r. json_set ''relevance_score'' (JString (score_text (sr_score r)))
            (format_message tf (sr_message r) (sr_index r) count)) results)),
         (''count'', JNumber (show_nat (length results))),
         (''total_in_history'', JNumber (show_nat count))]))"

subsection \<open>The call\<close>

text \<open>The retriever of the context, if there is one, with what its load returns.\<close>

definition query_history ::
  "text_forms \<Rightarrow> ('s :: linorder) scoring \<Rightarrow> ('s \<Rightarrow> string) \<Rightarrow> string + query_history_params
   \<Rightarrow> (string + message list) option \<Rightarrow> history_result" where
  "query_history tf scoring score_text arguments retriever =
     (case arguments of
        Inl error \<Rightarrow> HToolError (''Invalid parameters: '' @ error)
      | Inr params \<Rightarrow>
          case retriever of
            None \<Rightarrow> HToolError ''No message retriever available''
          | Some (Inl error) \<Rightarrow> HInternalError error
          | Some (Inr messages) \<Rightarrow>
              if messages = [] then no_messages_result ''No history available.''
              else let limit = min (qp_limit params) 50; count = length messages in
                case qp_message_range params of
                  Some r \<Rightarrow>
                    let from = min (mr_from r) count; until = max (min (mr_to r) count) from
                    in format_range_result tf (take limit (drop from (take until messages))) from count
                | None \<Rightarrow>
                    case qp_query params of
                      Some query \<Rightarrow> format_search_result tf score_text (search_messages tf scoring messages query limit) count
                    | None \<Rightarrow> format_recent_result tf (take limit (rev messages)) count)"

section \<open>The notice can be read back\<close>

lemma notice_text_eq:
  "notice_text n = ''[IMPORTANT: '' @ show_nat n @ CHR '' '' # ''earlier messages are NOT visible in this context.''
     @ '' To answer questions about earlier parts of the conversation, ''
     @ ''you MUST call the `query_history` tool to search for the relevant information.]''"
  by (simp add: notice_text_def infinity_context_format_def)

lemma message_text_system [simp]: "message_text (message_system i t s) = Some s"
  by (simp add: message_text_def message_system_def message_of_def part_text_def part_as_text_def text_part_new_def)

lemma show_nat_no_space: "CHR '' '' \<notin> set (show_nat n)"
  using digits_show_nat [of n] by (auto simp: list_all_iff is_ascii_digit_def)

lemma notice_count_roundtrip: "n < 2 ^ 64 \<Longrightarrow> parse_excluded_notice_count (message_system i t (notice_text n)) = Some n"
  by (simp add: parse_excluded_notice_count_def notice_text_eq strip_prefix_def split_once_fresh show_nat_no_space parse_show_nat)

section \<open>Bounds of a load\<close>

lemma candidate_limit_bounds:
  "1 \<le> resolve_candidate_load_limit config" "resolve_candidate_load_limit config \<le> CANDIDATE_MAX_MESSAGES"
  by (auto simp: resolve_candidate_load_limit_def CANDIDATE_MAX_MESSAGES_def Let_def split: option.split)

lemma apply_filters_fields [simp]:
  "mq_filters (infinity_apply_filters mint config q) = mq_filters q"
  "mq_after_sequence (infinity_apply_filters mint config q) = mq_after_sequence q"
  "mq_offset (infinity_apply_filters mint config q) = mq_offset q"
  "mq_injections (infinity_apply_filters mint config q) = mq_injections q"
  "mq_limit (infinity_apply_filters mint config q) = Some (int (resolve_candidate_load_limit config))"
  "mq_prepend_transform (infinity_apply_filters mint config q) = Some (excluded_notice_transform infinity_context_format mint)"
  by (simp_all add: infinity_apply_filters_def Let_def)

lemma apply_filters_history [simp]: "filtered_history (infinity_apply_filters mint config q) = filtered_history q"
  by (rule ext) (simp add: filtered_history_eq)

text \<open>A window with a limit is what is left of the history around a gap.\<close>

lemma window_bounds_gap:
  assumes "mq_offset q = None" and "mq_limit q = Some l"
  obtains a b where "a \<le> b" and "b \<le> length ms" and "apply_window_bounds q ms = take a ms @ drop b ms"
    and "length ms - (b - a) \<le> nat l + get_or 0 (mq_keep_head q)"
proof -
  let ?h = "min (get_or 0 (mq_keep_head q)) (length ms)"
  show ?thesis
    by (rule that [of ?h "max ?h (length ms - nat l)"])
      (use assms in \<open>auto simp: window_bounds_eq query_offset_def Let_def\<close>)
qed

lemma gap_length: "a \<le> b \<Longrightarrow> b \<le> length ms \<Longrightarrow> length (take a ms @ drop b ms) = length ms - (b - a)"
  by simp

lemma gap_subseq: "a \<le> b \<Longrightarrow> subseq (take a ms @ drop b ms) ms"
proof -
  assume "a \<le> b"
  then have "subseq (drop b ms) (drop a ms)" using suffix_drop [of "b - a" "drop a ms"] suffix_imp_subseq by simp
  then show ?thesis using list_emb_append_mono [of "(=)" "take a ms" "take a ms"] by fastforce
qed

section \<open>What is left of the history\<close>

lemma window_bounds_subseq: "subseq (apply_window_bounds q ms) ms"
proof -
  let ?ms = "drop (query_offset q) ms"
  have "subseq ?ms ms" by (rule suffix_imp_subseq) (rule suffix_drop)
  moreover have "subseq (apply_window_bounds q ms) ?ms"
  proof (cases "mq_limit q")
    case (Some l)
    then show ?thesis unfolding window_bounds_eq Let_def option.case Some by (intro gap_subseq max.cobounded1)
  qed (simp add: window_bounds_eq)
  ultimately show ?thesis by (rule subseq_order.trans [rotated])
qed

text \<open>
  The history against which the notice counts. When the load leaves nothing out it puts no notice in front, and then a
  first message that reads as one is taken for it: it is dropped, and its number \<open>n\<close> is added.
\<close>

definition counted_history :: "message_query \<Rightarrow> message list \<Rightarrow> nat \<times> message list" where
  "counted_history q hist =
     (if length (apply_window_bounds q hist) < length hist then (0, hist) else take_existing_excluded_notice hist)"

lemma counted_history_plain:
  "(case hist of m # _ \<Rightarrow> parse_excluded_notice_count m = None | [] \<Rightarrow> True) \<Longrightarrow> counted_history q hist = (0, hist)"
  by (auto simp: counted_history_def take_existing_excluded_notice_def split: list.splits)

text \<open>A load of a query that the provider has set up: the notice of a load counts what the load left out.\<close>

lemma load_split:
  fixes q projected
  defines "hist \<equiv> map pj_message (filtered_history q projected)"
  assumes "mq_injections q = []" and "length hist < 2 ^ 64"
    and "counted_history (infinity_apply_filters mint config q) hist = (n, visible)"
  obtains ms hidden where "subseq ms visible" and "length ms + hidden = length visible"
    and "take_existing_excluded_notice (load_filtered (infinity_apply_filters mint config q) projected) = (hidden + n, ms)"
    and "hidden = 0 \<Longrightarrow> ms = visible"
proof -
  let ?q = "infinity_apply_filters mint config q"
  define ms where "ms = apply_window_bounds ?q hist"
  have sub: "subseq ms hist" unfolding ms_def by (rule window_bounds_subseq)
  then have le: "length ms \<le> length hist" by (rule list_emb_length)
  have load: "load_filtered ?q projected =
      (if length ms < length hist then [message_system (fst mint) (snd mint) (notice_text (length hist - length ms))] else []) @ ms"
    using assms(2)
    by (simp add: load_filtered_def Let_def apply_injections_def start_injections_def end_injections_def
        prepend_excluded_notice_def excluded_notice_transform_def notice_text_def List.map_filter_simps flip: hist_def ms_def)
  show ?thesis
  proof (cases "length ms < length hist")
    case True
    then have "n = 0" "visible = hist" using assms(4) by (simp_all add: counted_history_def ms_def)
    moreover have "length hist - length ms < 2 ^ 64" using assms(3) by linarith
    ultimately show ?thesis
      using True le sub
      by (intro that [of ms "length hist - length ms"]) (simp_all add: load take_existing_excluded_notice_def notice_count_roundtrip)
  next
    case False
    then have "ms = hist" using sub le by (intro subseq_same_length) simp_all
    then show ?thesis
      using False assms(4) by (intro that [of visible 0]) (simp_all add: load counted_history_def flip: ms_def)
  qed
qed

lemma trim_split:
  obtains c d where "c \<le> d" and "d \<le> length ms"
    and "snd (trim_messages_to_token_budget tf config ms) = take c ms @ drop d ms"
    and "to_hidden_count (fst (trim_messages_to_token_budget tf config ms)) = d - c"
proof (cases "ms = []")
  case False
  let ?costs = "map (estimate_message_tokens tf) ms"
  define w where "w = select_window ?costs (resolve_keep_first_messages config) (ic_min_recent_messages config)
    (ic_max_recent_messages config) (ic_context_budget_tokens config)"
  have "aw_head_len w \<le> aw_recent_start w" "aw_recent_start w \<le> length ms"
    using select_window_range [of ?costs] by (simp_all add: w_def)
  with False show ?thesis
    by (intro that [of "aw_head_len w" "aw_recent_start w"])
      (auto simp: trim_messages_to_token_budget_def Let_def window_hidden_def min_absorb1 simp flip: w_def)
qed (use that [of 0 0] in \<open>simp add: trim_messages_to_token_budget_def\<close>)

lemma retained_length: "length (retain_complete_message_tool_exchanges ms a) \<le> length ms"
  using list_emb_length [OF retained_order [of ms a]] by simp


text \<open>The count stays below the bound of \<open>usize\<close> when the history does.\<close>

lemma saturating_small: "a + b < 2 ^ 64 \<Longrightarrow> saturating_add_usize a b = a + b"
  by (simp add: saturating_add_usize_def usize_max_def)

lemma post_load_kept:
  assumes "take_existing_excluded_notice loaded = (existing, ms)" and "\<not> ic_compaction_active config"
    and "trim_messages_to_token_budget tf config ms = (outcome, ts)"
    and "existing + to_hidden_count outcome + length ts < 2 ^ 64"
  obtains (whole) "existing + to_hidden_count outcome = 0" and "infinity_post_load tf mint config loaded = ts"
  | (trimmed) position where "0 < existing + to_hidden_count outcome"
    and "infinity_post_load tf mint config loaded =
      insert_excluded_notice mint position
        (existing + to_hidden_count outcome + (length ts - length (retain_complete_message_tool_exchanges ts True)))
        (retain_complete_message_tool_exchanges ts True)"
proof -
  define kept where "kept = retain_complete_message_tool_exchanges ts True"
  let ?hidden = "existing + to_hidden_count outcome"
  have sum: "saturating_add_usize existing (to_hidden_count outcome) = ?hidden"
    "saturating_add_usize ?hidden (length ts - length kept) = ?hidden + (length ts - length kept)"
    by (rule saturating_small, use assms(4) in linarith)+
  show thesis
  proof (cases "?hidden = 0")
    case True
    then show thesis by (intro whole) (simp_all add: infinity_post_load_def assms(1-3) saturating_add_usize_def)
  next
    case False
    then show thesis
      by (intro trimmed) (simp_all add: infinity_post_load_def assms(1-3) sum Let_def flip: kept_def)
  qed
qed

text \<open>
  C19. The count of the notice is exact. After a load and the trimming of its result, either the prompt has the whole
  history that matches the query, or it has one notice among the messages that are left, and the number in it is that of
  the messages that are not there: the ones not loaded, the ones over the budget and the ones dropped with an unanswered
  call. The messages left are messages of the history in their order, and every call among them has its result there
  unless compaction is active, which trims later. The query injects no messages. The one exception is stated with it: when
  everything is loaded and the first message of the history reads as a notice, whoever wrote it, that message is missing
  and the number \<open>n\<close> in it is added to the count; otherwise \<open>n\<close> is 0 and the history is counted as it is.
\<close>

theorem notice_count_exact:
  assumes "hist = map pj_message (filtered_history q projected)" and "mq_injections q = []"
    and "counted_history (infinity_apply_filters mint' config q) hist = (n, visible)" and "length hist + n < 2 ^ 64"
    and "prompt = infinity_post_load tf mint config (load_filtered (infinity_apply_filters mint' config q) projected)"
  shows "(prompt = visible \<and> n = 0
      \<or> (\<exists>kept position count. prompt = insert_excluded_notice mint position count kept
           \<and> 0 < count \<and> length kept + count = length visible + n
           \<and> subseq (map envelope kept) (map envelope visible)
           \<and> (\<not> ic_compaction_active config \<longrightarrow> set (call_ids kept) \<subseteq> set (result_ids kept))))
    \<and> ((case hist of m # _ \<Rightarrow> parse_excluded_notice_count m = None | [] \<Rightarrow> True) \<longrightarrow> n = 0 \<and> visible = hist)"
proof (rule conjI)
  show "(case hist of m # _ \<Rightarrow> parse_excluded_notice_count m = None | [] \<Rightarrow> True) \<longrightarrow> n = 0 \<and> visible = hist"
    using counted_history_plain [of hist "infinity_apply_filters mint' config q"] assms(3) by (auto split: list.splits)
  let ?loaded = "load_filtered (infinity_apply_filters mint' config q) projected"
  have visible: "length visible \<le> length hist"
    using assms(3) by (auto simp: counted_history_def take_existing_excluded_notice_def split: if_splits list.splits option.splits)
  obtain ms hidden where ms: "subseq ms visible" "length ms + hidden = length visible" "hidden = 0 \<Longrightarrow> ms = visible"
    and load: "take_existing_excluded_notice ?loaded = (hidden + n, ms)"
    by (rule load_split [of q projected mint' config n visible]) (use assms in simp_all)
  show "prompt = visible \<and> n = 0
      \<or> (\<exists>kept position count. prompt = insert_excluded_notice mint position count kept
           \<and> 0 < count \<and> length kept + count = length visible + n
           \<and> subseq (map envelope kept) (map envelope visible)
           \<and> (\<not> ic_compaction_active config \<longrightarrow> set (call_ids kept) \<subseteq> set (result_ids kept)))"
  proof (cases "ic_compaction_active config")
    case True
    then have prompt: "prompt = (if 0 < hidden + n
        then insert_excluded_notice mint (resolve_keep_first_messages config) (hidden + n) ms else ms)"
      by (simp add: assms(5) infinity_post_load_def load)
    show ?thesis
    proof (cases "hidden + n = 0")
      case False
      then show ?thesis
        using True ms(2) subseq_map [OF ms(1), of envelope]
        by (intro disjI2 exI [of _ ms] exI [of _ "resolve_keep_first_messages config"] exI [of _ "hidden + n"]) (simp add: prompt)
    qed (use ms(3) prompt in simp)
  next
    case False
    obtain c d where cd: "c \<le> d" "d \<le> length ms"
      and trim: "snd (trim_messages_to_token_budget tf config ms) = take c ms @ drop d ms"
        "to_hidden_count (fst (trim_messages_to_token_budget tf config ms)) = d - c"
      by (rule trim_split)
    define ts where "ts = take c ms @ drop d ms"
    let ?kept = "retain_complete_message_tool_exchanges ts True"
    obtain outcome where outcome: "trim_messages_to_token_budget tf config ms = (outcome, ts)" "to_hidden_count outcome = d - c"
      using trim by (cases "trim_messages_to_token_budget tf config ms") (simp add: ts_def)
    have len: "length ts + (d - c) = length ms" using gap_length [OF cd] cd unfolding ts_def by linarith
    have small: "hidden + n + to_hidden_count outcome + length ts < 2 ^ 64"
      using len ms(2) visible assms(4) outcome(2) by linarith
    from load False outcome(1) small show ?thesis
    proof (cases rule: post_load_kept [where mint = mint])
      case whole
      then have "d = c" "ms = visible" "n = 0" using cd outcome(2) ms(3) by simp_all
      with whole(2) show ?thesis by (simp only: assms(5) ts_def append_take_drop_id simp_thms)
    next
      case (trimmed position)
      let ?count = "hidden + n + to_hidden_count outcome + (length ts - length ?kept)"
      have "length ?kept + ?count = length visible + n" using len ms(2) outcome(2) retained_length [of ts True] by linarith
      moreover have "subseq (map envelope ?kept) (map envelope visible)"
        using retained_order [of ts True] gap_subseq [OF cd(1), of ms] ms(1)
        by (metis ts_def subseq_map subseq_order.trans)
      moreover have "set (call_ids ?kept) \<subseteq> set (result_ids ?kept)" by (simp add: retained_call_ids retained_result_ids)
      moreover have "0 < ?count" using trimmed(1) by simp
      ultimately show ?thesis using trimmed(2) unfolding assms(5) by blast
    qed
  qed
qed

definition demo_forms :: text_forms where
  "demo_forms = \<lparr>tf_json = (\<lambda>_. ''{}''), tf_image_id = (\<lambda>_. ''i''), tf_file_id = (\<lambda>_. ''f''), tf_rfc3339 = (\<lambda>_. ''t'')\<rparr>"

definition demo_projected :: "nat \<Rightarrow> projected_message" where
  "demo_projected i =
     \<lparr>pj_event_id = i, pj_event_type = ''input.message'', pj_sequence = int i, pj_tool_name = None,
      pj_message = message_user i 0 (replicate 600 CHR ''a'')\<rparr>"

text \<open>
  Six messages of 153 tokens and a budget of 250: four are loaded, and of these only the last is kept.
\<close>

definition demo_infinity_config :: infinity_config where
  "demo_infinity_config = infinity_config_default\<lparr>ic_context_budget_tokens := 250, ic_min_recent_messages := 1\<rparr>"

definition demo_history :: "projected_message list" where
  "demo_history = map demo_projected [1..<7]"

definition demo_prompt :: "message list" where
  "demo_prompt = infinity_post_load demo_forms (9, 0) demo_infinity_config
     (load_filtered (infinity_apply_filters (8, 0) demo_infinity_config (message_query_new 0)) demo_history)"

lemma demo_hist: "map pj_message (filtered_history (message_query_new 0) demo_history) = map (pj_message \<circ> demo_projected) [1..<7]"
  by (simp add: filtered_history_def message_query_new_def demo_history_def)

lemma demo_first: "parse_excluded_notice_count (pj_message (demo_projected i)) = None"
proof -
  have "replicate 600 CHR ''a'' = CHR ''a'' # replicate 599 CHR ''a''" by (simp add: numeral_eq_Suc)
  then show ?thesis
    by (simp add: parse_excluded_notice_count_def demo_projected_def message_user_def message_of_def message_text_def
        part_text_def part_as_text_def text_part_new_def strip_prefix_def)
qed

theorem notice_count_exact_witness:
  "let hist = map (pj_message \<circ> demo_projected) [1..<7] in
    demo_prompt = hist
    \<or> (\<exists>kept position count. demo_prompt = insert_excluded_notice (9, 0) position count kept
         \<and> 0 < count \<and> length kept + count = length hist
         \<and> subseq (map envelope kept) (map envelope hist) \<and> set (call_ids kept) \<subseteq> set (result_ids kept))"
proof -
  let ?hist = "map (pj_message \<circ> demo_projected) [1..<7]"
  have hist: "?hist = map pj_message (filtered_history (message_query_new 0) demo_history)" by (simp only: demo_hist)
  have "case ?hist of m # _ \<Rightarrow> parse_excluded_notice_count m = None | [] \<Rightarrow> True"
    by (simp add: upt_rec [of "Suc 0"] demo_first)
  note plain = counted_history_plain [OF this]
  have query: "mq_injections (message_query_new 0) = []" "\<not> ic_compaction_active demo_infinity_config"
    by (simp_all add: message_query_new_def demo_infinity_config_def infinity_config_default_def)
  have "length ?hist + 0 < 2 ^ 64" by simp
  from notice_count_exact [OF hist query(1) plain this demo_prompt_def [unfolded atomize_eq]] query(2) show ?thesis
    by (simp only: Let_def simp_thms add_0_right)
qed

section \<open>Bounds\<close>

text \<open>However long the history is, a load has at most the candidates, the anchor and the notice.\<close>

lemma keep_head_bound: "mq_keep_head q = None \<Longrightarrow> get_or 0 (mq_keep_head (infinity_apply_filters mint config q)) \<le> MAX_KEEP_FIRST_MESSAGES"
  by (simp add: infinity_apply_filters_def resolve_keep_first_messages_def get_or_def Let_def)

theorem load_bounded:
  assumes "mq_offset q = None" and "mq_injections q = []" and "mq_keep_head q = None"
  shows "length (load_filtered (infinity_apply_filters mint config q) projected)
    \<le> CANDIDATE_MAX_MESSAGES + MAX_KEEP_FIRST_MESSAGES + 1"
proof -
  let ?q = "infinity_apply_filters mint config q" and ?hist = "map pj_message (filtered_history q projected)"
  obtain a b where ab: "a \<le> b" "b \<le> length ?hist" and w: "apply_window_bounds ?q ?hist = take a ?hist @ drop b ?hist"
    and len: "length ?hist - (b - a) \<le> resolve_candidate_load_limit config + get_or 0 (mq_keep_head ?q)"
    by (rule window_bounds_gap [of ?q "int (resolve_candidate_load_limit config)" ?hist]) (use assms(1) in auto)
  have "length (load_filtered ?q projected) \<le> length (apply_window_bounds ?q ?hist) + 1"
    using assms(2)
    by (simp add: load_filtered_def Let_def apply_injections_def start_injections_def end_injections_def
        prepend_excluded_notice_def excluded_notice_transform_def List.map_filter_simps)
  then show ?thesis
    using gap_length [OF ab] len keep_head_bound [OF assms(3), of mint config] candidate_limit_bounds(2) [of config]
    unfolding w by linarith
qed

theorem load_bounded_witness:
  "length (load_filtered (infinity_apply_filters (8, 0) demo_infinity_config (message_query_new 0)) demo_history)
    \<le> CANDIDATE_MAX_MESSAGES + MAX_KEEP_FIRST_MESSAGES + 1"
  by (rule load_bounded) (simp_all add: message_query_new_def)

text \<open>A text is cut at a character, and is no longer than the limit and the ellipsis.\<close>

lemma utf8_chars_concat: "concat (utf8_chars s) = s"
  by (induction s rule: utf8_chars.induct) simp_all

lemma truncate_content_prefix:
  obtains (whole) "truncate_content s n = s" | (cut) "truncate_content s n = concat (take n (utf8_chars s)) @ ''...''"
    and "s = concat (take n (utf8_chars s)) @ concat (drop n (utf8_chars s))"
proof (cases "length (utf8_chars s) \<le> n")
  case True
  then show ?thesis using whole by (simp add: truncate_content_def Let_def)
next
  case False
  moreover have "s = concat (take n (utf8_chars s) @ drop n (utf8_chars s))" by (simp only: append_take_drop_id utf8_chars_concat)
  ultimately show ?thesis by (intro cut) (simp_all only: truncate_content_def Let_def if_False concat_append)
qed

section \<open>The search\<close>

lemma insert_hit_set: "set (insert_hit h xs) = insert h (set xs)"
  by (induction xs) auto

lemma insert_hit_sorted:
  "sorted_wrt (\<lambda>a b. sr_score b \<le> sr_score a) xs \<Longrightarrow> sorted_wrt (\<lambda>a b. sr_score b \<le> sr_score a) (insert_hit h xs)"
  by (induction xs) (auto simp: insert_hit_set)

lemma hits_set: "set (foldr insert_hit hs []) = set hs"
  by (induction hs) (simp_all add: insert_hit_set)

lemma hits_sorted: "sorted_wrt (\<lambda>a b. sr_score b \<le> sr_score a) (foldr insert_hit hs [])"
  by (induction hs) (simp_all add: insert_hit_sorted)

lemma hits_length: "length (foldr insert_hit hs []) = length hs"
proof -
  have "length (insert_hit h xs) = Suc (length xs)" for h and xs :: "'a search_result list" by (induction xs) simp_all
  then show ?thesis by (induction hs) simp_all
qed

text \<open>
  What a search returns: matches, each under its own index, the best first, no more than the limit; and every match when
  the limit is no obstacle.
\<close>

definition search_match :: "text_forms \<Rightarrow> string \<Rightarrow> message \<Rightarrow> bool" where
  "search_match tf query m \<longleftrightarrow> sublist (to_ascii_lowercase query) (to_ascii_lowercase (extract_text_content tf m))"

theorem search_messages_spec:
  fixes scoring :: "('s :: linorder) scoring" and tf ms query limit
  defines "rs \<equiv> search_messages tf scoring ms query limit"
  shows "length rs \<le> limit" and "sorted_wrt (\<lambda>a b. sr_score b \<le> sr_score a) rs"
    and "r \<in> set rs \<Longrightarrow> sr_index r < length ms \<and> sr_message r = ms ! sr_index r \<and> search_match tf query (sr_message r)"
    and "length ms \<le> limit \<Longrightarrow> i < length ms \<Longrightarrow> search_match tf query (ms ! i) \<Longrightarrow> i \<in> sr_index ` set rs"
proof -
  let ?hit = "search_hit tf scoring (length ms) (to_ascii_lowercase query)"
  let ?hs = "List.map_filter ?hit (enumerate 0 ms)"
  have rs: "rs = take limit (foldr insert_hit ?hs [])" by (simp add: rs_def search_messages_def Let_def)
  have entry: "x \<in> set (enumerate 0 ms) \<longleftrightarrow> fst x < length ms \<and> snd x = ms ! fst x" for x
    by (cases x) (auto simp: in_set_enumerate_eq)
  show "length rs \<le> limit" by (simp add: rs)
  show "sorted_wrt (\<lambda>a b. sr_score b \<le> sr_score a) rs" unfolding rs by (intro sorted_wrt_take hits_sorted)
  show "sr_index r < length ms \<and> sr_message r = ms ! sr_index r \<and> search_match tf query (sr_message r)" if "r \<in> set rs"
    using that in_set_takeD [of r limit "foldr insert_hit ?hs []"]
    by (auto simp: rs hits_set map_filter_set entry search_hit_def search_match_def Let_def split: if_splits)
  show "i \<in> sr_index ` set rs" if "length ms \<le> limit" "i < length ms" "search_match tf query (ms ! i)"
  proof -
    have "length ?hs \<le> length (enumerate 0 ms)" unfolding List.map_filter_def length_map by (rule length_filter_le)
    then have "set rs = set ?hs" using that(1) by (simp add: rs hits_length hits_set)
    moreover have "\<exists>r. ?hit (i, ms ! i) = Some r \<and> sr_index r = i"
      using that(3) by (simp add: search_hit_def search_match_def Let_def)
    ultimately show ?thesis using that(2) entry [of "(i, ms ! i)"] by (force simp: map_filter_set)
  qed
qed

section \<open>Unintended behaviour\<close>

text \<open>A first message of a user with the text of a notice is taken for one: it is dropped and its number added.\<close>

lemma forged_notice_dropped:
  "n < 2 ^ 64 \<Longrightarrow> take_existing_excluded_notice (message_user i t (notice_text n) # ms) = (n, ms)"
proof -
  assume "n < 2 ^ 64"
  moreover have "parse_excluded_notice_count (message_user i t s) = parse_excluded_notice_count (message_system i t s)" for s
    by (simp add: parse_excluded_notice_count_def message_text_def message_user_def message_system_def message_of_def)
  ultimately show ?thesis by (simp add: take_existing_excluded_notice_def notice_count_roundtrip)
qed

text \<open>
  The most recent messages are listed from the latest one on, but numbered upwards: of two messages, the latest is shown
  as the first of the history. A range of the history is numbered as it is.
\<close>

lemma recent_numbered_backwards:
  "query_history tf scoring score_text (Inr \<lparr>qp_query = None, qp_message_range = None, qp_limit = 20\<rparr>) (Some (Inr [m, m']))
   = HSuccess (JObject
      [(''messages'', JArray [format_message tf m' 0 2, format_message tf m 1 2]),
       (''count'', JNumber (show_nat 2)), (''total_in_history'', JNumber (show_nat 2)),
       (''note'', JString (''Showing most recent history. Use `query` to search or `message_range` '' @ ''to fetch older messages.''))])"
  by (simp add: query_history_def format_recent_result_def Let_def numeral_2_eq_2)

lemma range_numbered:
  "query_history tf scoring score_text (Inr \<lparr>qp_query = None, qp_message_range = Some \<lparr>mr_from = 0, mr_to = 2\<rparr>, qp_limit = 20\<rparr>)
     (Some (Inr [m, m']))
   = HSuccess (JObject
      [(''messages'', JArray [format_message tf m 0 2, format_message tf m' 1 2]),
       (''count'', JNumber (show_nat 2)), (''total_in_history'', JNumber (show_nat 2)),
       (''range'', JString (show_nat 1 @ ''-'' @ show_nat 2))])"
  by (simp add: query_history_def format_range_result_def Let_def numeral_2_eq_2)
end
