(* ===== verification/Spec2Isabelle.thy ===== *)
theory Spec2Isabelle
  imports Executor Scheduler Breaker Timeouts Pool Turn Tool_Scheduler
    Task_Observer Task_Reaper Network_Access Mount_Fs Permissions Compact_Cascade
    Stream_Reconnect Policy_Fs Egress Infinity_Context
begin

text \<open>
  Verification of the core of everruns: the durable execution engine (\<open>src/crates/durable\<close>), the turn
  engine (\<open>src/crates/engine\<close>), and from the other crates the session tasks, the session
  filesystem with its policies, conversations and their windows, provider calls and outbound requests
  (\<open>src/crates/core\<close>, \<open>src/crates/host\<close>, \<open>src/crates/builtins\<close>, \<open>src/crates/provider\<close>, \<open>src/crates/worker\<close>,
  \<open>src/crates/everruns\<close>).

  \<^bold>\<open>The program and how its parts interact.\<close> A workflow is a state machine (the \<open>Workflow\<close> trait)
  that answers events with actions. The executor (\<open>engine/executor.rs\<close>) loads a workflow by replaying
  its log from the latest snapshot, feeds it signals, records what it does as events and turns its
  actions into tasks. The store (\<open>persistence/store.rs\<close>, \<open>persistence/memory.rs\<close>) keeps logs with
  optimistic concurrency, snapshots, signals, the task queue with leases, a dead letter queue,
  circuit breakers, workers and schedules. Workers (\<open>worker/*.rs\<close>) poll the queue under
  backpressure, run activities and report; a reclamation loop recovers tasks of vanished workers and
  fails workflows behind dead ones. A scheduler (\<open>scheduler/mod.rs\<close>) claims due cron schedules and
  creates their targets. The distributed circuit breaker (\<open>reliability/\<close>) shares its state through
  the store. A turn of an agent is planned phase by phase without I/O (\<open>engine/src/turn.rs\<close>) and
  executed under a durable checkpoint (\<open>machine.rs\<close>, \<open>durable/src/execution.rs\<close>); its tool calls run
  as a batch under a scheduler with concurrency classes. Background work of a session is a session
  task (\<open>core/src/session_task.rs\<close>): every registry routes updates through one function, observers
  are told of transitions and queue wake-ups for the turn, and a reaper re-attaches or fails tasks
  whose worker is gone. Tools reach files through \<open>MountFs\<close>, which resolves virtual paths to backends
  such as the in-memory store, with workspace policies, write blocklists and approval gates as decorators
  in between; network access lists of the layers of a session narrow one another, and the egress service
  (\<open>host/src/egress.rs\<close>) sends only what they, the allowlist of the system and the check against
  internal addresses permit.
  Before a model is called, a query loads a window of the history (\<open>core/src/message_filter.rs\<close>) that
  infinity context bounds and trims to a token budget; the stored messages become model messages, calls and results are paired,
  and the compaction policy masks, trims or replaces history that no longer fits, by native
  compaction of the provider with checkpoints or by local means. Roles and policies decide what a
  caller of the API may do, skill rules which skills an agent may use.

  \<^bold>\<open>Theories\<close>, in the order they import each other:
  \<^item> \<open>Prelude\<close>: machine integers, durations and \<open>f64\<close> as exact rationals, \<open>HashMap\<close> as an association
    list with distinct keys (its order stands for the unspecified iteration order), fallible
    operations \<open>('s, 'e, 'a) op\<close> with the \<open>?\<close> operator as \<open>bind_op\<close>, invariants they preserve, and
    the locale \<open>step_system\<close> of start states, steps and an invariant. \<open>Text\<close>: what the sources use of
    \<open>str\<close> and \<open>Option\<close>.
  \<^item> \<open>Workflow_Types\<close>: \<open>workflow/*.rs\<close>, \<open>activity/definition.rs\<close>, \<open>reliability/retry.rs\<close>: actions, signals,
    events, errors, retry policies.
  \<^item> \<open>Store_Types\<close>: \<open>persistence/store.rs\<close>: error, status and row types, limits from the environment,
    and the tables of \<open>InMemoryWorkflowEventStore\<close> as the record \<open>store\<close>.
  \<^item> \<open>Workflow_Store\<close>: workflows, event log, snapshots, signals and rollover of \<open>persistence/memory.rs\<close>.
    The locale \<open>event_log\<close> (append, count, load over an abstract log) is interpreted by the store
    (\<open>mem_log\<close>); its clients are proved against it.
  \<^item> \<open>Task_Queue\<close>: enqueue, claim, heartbeat, complete, fail with retry, new turns, reclamation with the
    forward-progress guard, dead letters; the row invariant \<open>task_ok\<close> is kept by every operation.
  \<^item> \<open>Observe\<close>: worker registry, filters and pages, capacity snapshot, system health.
  \<^item> \<open>Schedule_Store\<close>: schedules, executions, scheduler instances, and \<open>update_field.rs\<close>.
  \<^item> \<open>Registry\<close>, \<open>Executor\<close>: \<open>engine/registry.rs\<close> and \<open>engine/executor.rs\<close>. A workflow type is a record of
    functions (the trait); type erasure is the wrapper around it.
  \<^item> \<open>Scheduler\<close>: \<open>scheduler/mod.rs\<close>; the cron library is the function \<open>cron_next\<close> of the environment.
  \<^item> \<open>Breaker\<close>: the breaker table of the store and \<open>distributed_circuit_breaker.rs\<close> over the interface
    \<open>breaker_api\<close>; the locale \<open>breaker_store\<close> states what the interface promises, the in-memory store
    interprets it (\<open>mem_breaker\<close>), and \<open>dcb_runs\<close> interprets \<open>step_system\<close> for workers with stale caches.
  \<^item> \<open>Task_Events\<close>: \<open>task_events.rs\<close>, generic in the store and proved inside \<open>event_log\<close>.
  \<^item> \<open>Timeouts\<close>: \<open>reliability/timeout.rs\<close>. \<open>Backpressure\<close>, \<open>Poller\<close>: \<open>worker/backpressure.rs\<close>,
    \<open>worker/poller.rs\<close>.
  \<^item> \<open>Reclaim_Loop\<close>, \<open>Pool\<close>: \<open>worker/pool.rs\<close>; the pool's loops and spawned tasks are steps of
    \<open>pool_step\<close>, and \<open>pool_runs\<close> interprets \<open>step_system\<close> for them.
  \<^item> \<open>Turn\<close>: \<open>engine/src/turn.rs\<close>, \<open>machine.rs\<close>, \<open>durable/src/execution.rs\<close> and the data they read. The
    planner is a function of the turn state and the outcome of the last phase; a turn is a sequence
    of advances. \<open>Tool_Scheduler\<close>: \<open>engine/src/execution/tool_scheduler.rs\<close>; groups, semaphore and
    calls in flight are the state of \<open>tool_step\<close>.
  \<^item> \<open>Session_Task\<close>: \<open>core/src/session_task.rs\<close>, records and \<open>apply_task_update\<close>. \<open>Task_Registry\<close>: the
    registry trait as a record of operations with its laws as the locale \<open>task_registry\<close>, the sink of
    executors proved in it, and the SQLite registry of local hosts as its interpretation \<open>local_reg\<close>.
    \<open>Task_Observer\<close>: \<open>core/src/task_observer.rs\<close> and \<open>wake_queue.rs\<close> over any registry; \<open>world_step\<close>
    interleaves the sections of its operations on a local registry, under the task locks that the code takes, with callbacks
    in any order, and \<open>local_world\<close> interprets \<open>step_system\<close> for it. \<open>Task_Reaper\<close>: \<open>worker/src/session_task_reaper.rs\<close>.
  \<^item> \<open>Network_Access\<close>: \<open>core/src/network_access.rs\<close>; the URL parser is a parameter with two documented
    facts about hosts as hypotheses.
  \<^item> \<open>Session_Path\<close>: \<open>core/src/session_path.rs\<close>, specified by the segments of a path. \<open>Grep\<close>: the bounded
    search of \<open>core/src/session_file.rs\<close>. \<open>File_Store\<close>: the session files and the key/value storage of
    \<open>host/src/in_memory.rs\<close>. \<open>Session_Files\<close>: the trait of \<open>core/src/session_files.rs\<close>, its provided
    methods, the workspace decorator, and the locale \<open>file_backend\<close>, which the in-memory store
    interprets (\<open>memory\<close>). \<open>Mount_Fs\<close>: \<open>core/src/mount_fs.rs\<close>, with its client lemmas proved in
    \<open>file_backend\<close>.
  \<^item> \<open>Permissions\<close>: \<open>core/src/permissions.rs\<close>, \<open>organization.rs\<close> and the skill names of \<open>skill.rs\<close>; the
    resolver trait is the locale \<open>permission_resolver\<close>, interpreted by the built-in one.
  \<^item> \<open>Messages\<close>: \<open>core/src/message.rs\<close>, \<open>llm_conversions.rs\<close>, \<open>provider/src/reasoning.rs\<close>,
    \<open>execution_phase.rs\<close> and the message types of \<open>driver_registry.rs\<close>. \<open>Tool_Integrity\<close>:
    \<open>core/src/tool_call_integrity.rs\<close>, the completeness of exchanges through reduction, repair and
    conversion. \<open>Compaction\<close>, \<open>Cost_Masking\<close>: \<open>builtins/src/compaction.rs\<close>. \<open>Native_Compact\<close>:
    \<open>provider/src/compact.rs\<close>, \<open>core/src/compaction_checkpoint.rs\<close> and the checkpoint table of the
    server's in-memory database, whose laws are the locale \<open>checkpoint_table\<close>. \<open>Compact_Cascade\<close>:
    \<open>engine/src/execution/reason/compaction.rs\<close> over any policy; the policy trait is a record of
    functions with its laws as the locale \<open>compaction_policy\<close>, and the configured policy of the
    builtins interprets it (\<open>cpol\<close>).
  \<^item> \<open>Llm_Errors\<close>: \<open>provider/src/error.rs\<close>, \<open>user_facing_error.rs\<close> and the disclosure policy of
    \<open>engine/src/execution/reason/error_policy.rs\<close>. \<open>Llm_Retry\<close>: \<open>provider/src/llm_retry.rs\<close>; what the
    loop asks of a driver is the locale \<open>retry_classifier\<close>, interpreted by the classifiers of the OpenAI
    and Anthropic drivers (\<open>openai\<close>, \<open>anthropic\<close>). \<open>Stream_Reconnect\<close>: \<open>provider/src/stream_reconnect.rs\<close>
    over any connection that meets the locale \<open>connector\<close>, as the retry loops of both drivers do
    (\<open>openai_conn\<close>, \<open>anthropic_conn\<close>).
  \<^item> \<open>Workspace_Policy\<close>: \<open>core/src/workspace_policy.rs\<close>, rules on paths of a workspace in layers.
    \<open>Policy_Fs\<close>: \<open>host/src/file_store_decorators.rs\<close>; each decorator is a map between filesystems of
    \<open>Session_Files\<close>, and the policy is composed with the in-memory store.
  \<^item> \<open>Url_Safety\<close>: \<open>provider/src/url_validation.rs\<close> with addresses as words; the URL parser and the
    resolver are parameters. \<open>Egress\<close>: \<open>core/src/egress.rs\<close>, \<open>core/src/system_allowlist.rs\<close> and
    \<open>host/src/egress.rs\<close> over \<open>Network_Access\<close> and \<open>Url_Safety\<close>.
  \<^item> \<open>Message_Filter\<close>: \<open>core/src/message_filter.rs\<close> and the loading of a query in \<open>host/src/events.rs\<close>.
    \<open>Infinity_Context\<close>: \<open>builtins/src/infinity_context.rs\<close>, the filter provider composed with
    \<open>Message_Filter\<close> and \<open>Tool_Integrity\<close>, and the tool that queries the history.

  \<^bold>\<open>What is shown.\<close> Log: of two writers at one position one wins, optimised reads agree with the
  defaults, snapshots stay sorted, no signal is lost, rollover carries the state. Executor: a restart
  after a pass rebuilds exactly the state of the pass, actions are recorded one by one, lost updates
  are excluded. Queue: claims are exclusive and within the attempt limit, only the owner completes,
  limits hold, the no-progress guard seals at its threshold. Recording: an event is written exactly
  once however others interleave. Pool: concurrency is bounded in every interleaving, dead tasks fail
  their workflow. Breaker: the detailed operations refine the documented three-state machine, except that a
  success in the closed state does not reset the count, and no interleaving with stale caches leaves it stuck. Scheduling, listings, backpressure, polling and timeouts: their
  functional behaviour. Turns: every turn ends within its iteration budget, and the phase that ends
  it emits exactly the closing effects of its outcome. Tool batches: they end, keep the cap and the classes, and return results in order.
  Session tasks: every reachable record is well-formed, terminal states are final, a superseded
  executor writes nothing, an end is announced exactly once unless a create or a cancel, which take no lock, has
  overwritten the task, an orphan ends up failed. Access lists: a layer
  never widens what the layers above permit. Files: the normaliser meets its specification, pages of
  a search are windows of the list of all matches and reading on gets all of them, context blocks
  cover the windows exactly, sessions are isolated, writes read back, deletes remove exactly a
  subtree, mounts never leave their root. Workspace policies: a denial wins in every layer and spelling,
  through the decorator nothing protected changes and nothing hidden shows, for paths that a second resolution leaves
  alone. Outbound requests: whatever is
  sent is permitted by every list and does not go to an internal address. Permissions: policies are monotone in the role, skill rules
  follow their documented precedence. Conversations: no call reaches a model without its result, and
  repair adds exactly the missing results; the window by cost is the longest that fits, a load is bounded,
  and the notice of hidden messages counts exactly those that are not there, unless the history begins with a forged one. Compaction: what is trimmed meets its target, skill
  instructions survive, masking changes nothing but old results, native compaction is applied as a
  whole or not at all, the newest checkpoint wins and the first of equally new ones, and every compaction that is announced is closed by
  exactly one event. Provider calls: a request ends within its budgets of retries and time whatever the
  network does, the loop that reopens streams shares these budgets, and no client sees more of an error than the operator allows.

  Several theorems show behaviour the code or its comments do not intend: a late failure revives a
  finished task, scheduling at the limit leaves an event without a task, replay drops the actions of
  handlers, failures in the closed state never expire, \<open>max_concurrent\<close> never limits, a bad cron
  expression strands its schedule, a page past \<open>u32\<close> ignores its limit, a panicking handler leaks
  load, a shutdown can leave a task behind, two reapers can start one task, an update can overwrite a
  terminal state of a local task, a cancel can revive a finished task so that its end is announced twice, a write below a directory called \<open>workspace\<close> is lost, the
  traversal check of additional roots can be walked around, a presented path can name a file of
  another root, the byte counts of cost control compare different sets of results, a usage limit of a
  subscription is shown as exhausted credits and retried, a backoff can exceed its maximum, a space
  in front of a path passes the write blocklist, a policy takes a workspace alias off twice, a recursive
  delete can remove what its check does not see, an opt-in to a sensitive scope does not let a hidden directory be passed, a request with
  pinned addresses has no timeout of its own, a message to be injected after another lands in front of it, a message of
  a user can pass for the notice of hidden messages, and the history tool numbers recent messages backwards.

  \<^bold>\<open>Conventions and bounds.\<close> Rust's \<open>Result\<close> is a sum with the error on the left and the state kept on
  errors; a panic of arithmetic is \<open>None\<close>. \<open>u32\<close> counters are \<open>32 word\<close>s that wrap as in a release
  build; \<open>i32\<close> sequence numbers are integers with \<open>wrap_i32\<close> at every conversion, and the theorems that
  need it assume logs shorter than \<open>2 ^ 31\<close> events. A string is a list of characters below 256, of
  which those from 128 on count two bytes, except for message texts, which from \<open>Messages\<close> on are the
  list of their UTF-8 bytes; lower-casing is the ASCII one. Clock readings and fresh
  identifiers are arguments or functions of the store (\<open>exec_env\<close>, \<open>fs_env\<close>); what other clients do
  between two calls is an argument where it matters. Three loops have fuel; every other loop of the modelled
  code runs over a finite list, a shrinking interval or a fixed number of attempts, and the endless
  loops of scheduler and pool are step relations or runs over a list of events; the client that reads
  pages in \<open>Grep\<close> has fuel, and one page more than there are matches is shown to be enough; the retry
  loops of \<open>Llm_Retry\<close> and \<open>Stream_Reconnect\<close> have fuel, and the number of retries and resends left is
  shown to be enough. One call
  of a store method is one atomic step, as under its lock, except \<open>try_claim_workflow_for_new_turn\<close>
  and the operations of the local task registry, whose connection sections are separate definitions and interleave in
  \<open>world_step\<close> of \<open>Task_Observer\<close>.

  \<^bold>\<open>Not modelled.\<close> \<open>persistence/postgres.rs\<close> (SQL for an external database), the benchmarks and
  \<open>sysstat.rs\<close> (readings of \<open>/proc\<close>), \<open>activity/context.rs\<close> (channels of the async runtime), serde helper
  modules, tracing, failpoints, the base64 coding of file contents, the file store on disk
  (\<open>host/src/real_disk.rs\<close>, symbolic links and canonical paths of the host), and the other crates (HTTP
  and gRPC servers, drivers, command line, user interface). Of the modelled crates, budgets
  (\<open>core/src/budget.rs\<close>), skill documents (\<open>skill.rs\<close>), the remaining stores of \<open>in_memory.rs\<close>, the
  projection of events to messages (\<open>host/src/events.rs\<close>) and the capability registry are left out; there is no
  step relation over all store operations at once.
\<close>

end
